(* ===== verification/PyBase.thy ===== *)
theory PyBase
  imports Main "HOL-Library.List_Lexorder" "HOL-Library.Product_Lexorder" "HOL-Library.Option_ord"
begin

text \<open>
  The prelude: the part of Python's value domain that the modelled modules use.
  A \<^verbatim>\<open>str\<close> is the list of its code points (\<open>pystr\<close>), so that \<open>length\<close> counts what Python's
  \<^verbatim>\<open>len\<close> counts and text outside ASCII is written down as numbers. The character classes
  (\<^verbatim>\<open>str.isspace\<close>, \<^verbatim>\<open>str.isdecimal\<close>, \<^verbatim>\<open>str.isdigit\<close>) are tables of Unicode 14.0, the version
  of Python 3.11. \<^verbatim>\<open>int(text)\<close>, \<^verbatim>\<open>str(int)\<close> and the format \<^verbatim>\<open>f"{n:04d}"\<close> are functions with
  their round trips. The tables that are too large to write down (NFKC normalisation and
  case mapping) are the fields of a record \<open>ucd\<close> that the definitions take as an argument.
  Results of code that raises are sums: \<open>Inl\<close> the exception, \<open>Inr\<close> the value.
\<close>

section \<open>Collections of facts\<close>

named_theorems py_defs \<open>definitions of the string primitives, for evaluation\<close>

section \<open>Results of code that raises\<close>

fun rbind :: "'e + 'a \<Rightarrow> ('a \<Rightarrow> 'e + 'b) \<Rightarrow> 'e + 'b" where
  "rbind (Inl e) f = Inl e"
| "rbind (Inr x) f = f x"

lemma rbind_Inr_iff [simp]: "rbind m f = Inr y \<longleftrightarrow> (\<exists>x. m = Inr x \<and> f x = Inr y)"
  by (cases m) auto

lemma rbind_Inl_iff: "rbind m f = Inl e \<longleftrightarrow> m = Inl e \<or> (\<exists>x. m = Inr x \<and> f x = Inl e)"
  by (cases m) auto

lemma rbind_cong [fundef_cong]:
  "m = m' \<Longrightarrow> (\<And>x. m' = Inr x \<Longrightarrow> f x = g x) \<Longrightarrow> rbind m f = rbind m' g"
  by (cases m') auto

text \<open>A comprehension whose element expression may raise: left to right, the first error wins.\<close>

fun rmap :: "('a \<Rightarrow> 'e + 'b) \<Rightarrow> 'a list \<Rightarrow> 'e + 'b list" where
  "rmap f [] = Inr []"
| "rmap f (x # xs) = rbind (f x) (\<lambda>y. rbind (rmap f xs) (\<lambda>ys. Inr (y # ys)))"

lemma rmap_Inr_set: "rmap f xs = Inr ys \<Longrightarrow> y \<in> set ys \<Longrightarrow> \<exists>x \<in> set xs. f x = Inr y"
  by (induction xs arbitrary: ys) auto

lemma rmap_Inr_length: "rmap f xs = Inr ys \<Longrightarrow> length ys = length xs"
  by (induction xs arbitrary: ys) auto

lemma rmap_Inr_iff: "rmap f xs = Inr ys \<longleftrightarrow> list_all2 (\<lambda>x y. f x = Inr y) xs ys"
  by (induction xs arbitrary: ys) (auto simp: list_all2_Cons1)

section \<open>Strings as lists of code points\<close>

type_synonym pystr = "int list"

definition asc :: "string \<Rightarrow> pystr" where
  "asc s = map of_char s"

declare asc_def [py_defs]

definition py_isspace :: "int \<Rightarrow> bool" where
  "py_isspace c \<longleftrightarrow>
     9 \<le> c \<and> c \<le> 13 \<or> 28 \<le> c \<and> c \<le> 32 \<or> c = 133 \<or> c = 160 \<or> c = 5760 \<or>
     8192 \<le> c \<and> c \<le> 8202 \<or> c = 8232 \<or> c = 8233 \<or> c = 8239 \<or> c = 8287 \<or> c = 12288"

text \<open>
  The decimal digits (general category Nd) come in runs of ten; the table lists the zeros.
\<close>

definition nd_zeros :: "int list" where
  "nd_zeros =
    [48, 1632, 1776, 1984, 2406, 2534, 2662, 2790, 2918, 3046, 3174, 3302, 3430, 3558,
     3664, 3792, 3872, 4160, 4240, 6112, 6160, 6470, 6608, 6784, 6800, 6992, 7088, 7232,
     7248, 42528, 43216, 43264, 43472, 43504, 43600, 44016, 65296, 66720, 68912, 69734,
     69872, 69942, 70096, 70384, 70736, 70864, 71248, 71360, 71472, 71904, 72016, 72784,
     73040, 73120, 92768, 92864, 93008, 120782, 120792, 120802, 120812, 120822, 123200,
     123632, 125264, 130032]"

definition py_decimal :: "int \<Rightarrow> int option" where
  "py_decimal c = map_option (\<lambda>z. c - z) (find (\<lambda>z. z \<le> c \<and> c \<le> z + 9) nd_zeros)"

text \<open>Digits that are not decimal (superscripts, circled digits): \<^verbatim>\<open>isdigit\<close> but no \<^verbatim>\<open>int\<close>.\<close>

definition digit_ranges :: "(int \<times> int) list" where
  "digit_ranges =
    [(178, 179), (185, 185), (4969, 4977), (6618, 6618), (8304, 8304), (8308, 8313),
     (8320, 8329), (9312, 9320), (9332, 9340), (9352, 9360), (9450, 9450), (9461, 9469),
     (9471, 9471), (10102, 10110), (10112, 10120), (10122, 10130), (68160, 68163),
     (69216, 69224), (69714, 69722), (127232, 127242)]"

definition digit_char :: "int \<Rightarrow> bool" where
  "digit_char c \<longleftrightarrow> py_decimal c \<noteq> None \<or> list_ex (\<lambda>r. fst r \<le> c \<and> c \<le> snd r) digit_ranges"

definition py_isdigit :: "pystr \<Rightarrow> bool" where
  "py_isdigit s \<longleftrightarrow> s \<noteq> [] \<and> list_all digit_char s"

definition decimal_char :: "int \<Rightarrow> bool" where
  "decimal_char c \<longleftrightarrow> py_decimal c \<noteq> None"

definition strip_by :: "(int \<Rightarrow> bool) \<Rightarrow> pystr \<Rightarrow> pystr" where
  "strip_by p s = rev (dropWhile p (rev (dropWhile p s)))"

definition py_strip :: "pystr \<Rightarrow> pystr" where
  "py_strip = strip_by py_isspace"

definition remove_chars :: "int list \<Rightarrow> pystr \<Rightarrow> pystr" where
  "remove_chars zs s = filter (\<lambda>c. c \<notin> set zs) s"

definition replace_char :: "int \<Rightarrow> int \<Rightarrow> pystr \<Rightarrow> pystr" where
  "replace_char a b s = map (\<lambda>c. if c = a then b else c) s"

definition startswith :: "pystr \<Rightarrow> pystr \<Rightarrow> bool" where
  "startswith s p \<longleftrightarrow> take (length p) s = p"

definition last_n :: "nat \<Rightarrow> 'a list \<Rightarrow> 'a list" where
  "last_n n s = drop (length s - n) s"

text \<open>The fold of Persian and Arabic-Indic digits to ASCII that most modules repeat.\<close>

definition fold_fa_digit :: "int \<Rightarrow> int" where
  "fold_fa_digit c =
     (if 1776 \<le> c \<and> c \<le> 1785 then c - 1728 else if 1632 \<le> c \<and> c \<le> 1641 then c - 1584 else c)"

declare py_isspace_def [py_defs] nd_zeros_def [py_defs] py_decimal_def [py_defs]
  digit_ranges_def [py_defs] digit_char_def [py_defs] py_isdigit_def [py_defs]
  decimal_char_def [py_defs] strip_by_def [py_defs] py_strip_def [py_defs]
  remove_chars_def [py_defs] replace_char_def [py_defs] startswith_def [py_defs]
  last_n_def [py_defs] fold_fa_digit_def [py_defs]

lemma strip_by_set: "set (strip_by p s) \<subseteq> set s"
  unfolding strip_by_def by (metis set_dropWhileD set_rev subset_code(1))

lemma strip_by_no_match: "list_all (\<lambda>c. \<not> p c) s \<Longrightarrow> strip_by p s = s"
proof -
  assume a: "list_all (\<lambda>c. \<not> p c) s"
  have "dropWhile p t = t" if "list_all (\<lambda>c. \<not> p c) t" for t
    using that by (cases t) auto
  with a show ?thesis by (simp add: strip_by_def)
qed

lemma strip_by_Nil [simp]: "strip_by p [] = []"
  by (simp add: strip_by_def)

lemma strip_by_idem: "strip_by p (strip_by p s) = strip_by p s"
proof -
  define t where "t = dropWhile p s"
  define u where "u = rev (dropWhile p (rev t))"
  have ends: "u = [] \<or> \<not> p (last u)"
    unfolding u_def by (metis hd_dropWhile last_rev rev_is_Nil_conv)
  have hd: "u = [] \<or> \<not> p (hd u)"
  proof (cases "u = []")
    case False
    obtain ws where "t = u @ ws"
      unfolding u_def by (metis rev_append rev_rev_ident takeWhile_dropWhile_id)
    with False have "hd u = hd t" "t \<noteq> []" by auto
    then show ?thesis unfolding t_def by (metis hd_dropWhile)
  qed simp
  have "dropWhile p u = u" using hd by (cases u) auto
  moreover have "dropWhile p (rev u) = rev u"
    using ends by (cases u rule: rev_cases) auto
  ultimately show ?thesis
    unfolding strip_by_def t_def[symmetric] u_def[symmetric] by simp
qed

lemma remove_chars_set: "set (remove_chars zs s) \<subseteq> set s - set zs"
  by (auto simp: remove_chars_def)

lemma startswith_iff: "startswith s p \<longleftrightarrow> (\<exists>t. s = p @ t)"
  by (metis append_eq_conv_conj append_take_drop_id startswith_def)

section \<open>Decimal digits\<close>

lemma py_decimal_range: "py_decimal c = Some d \<Longrightarrow> 0 \<le> d \<and> d \<le> 9"
  by (auto simp: py_decimal_def find_Some_iff)

lemma py_decimal_ascii [simp]: "0 \<le> d \<Longrightarrow> d \<le> 9 \<Longrightarrow> py_decimal (48 + d) = Some d"
  by (simp add: py_decimal_def nd_zeros_def)

lemma py_decimal_persian: "0 \<le> d \<Longrightarrow> d \<le> 9 \<Longrightarrow> py_decimal (1776 + d) = Some d"
  and py_decimal_arabic: "0 \<le> d \<Longrightarrow> d \<le> 9 \<Longrightarrow> py_decimal (1632 + d) = Some d"
  by (simp_all add: py_decimal_def nd_zeros_def)

text \<open>
  \<^verbatim>\<open>int(text)\<close> of CPython: decimal digits of any script, one underscore between two
  digits, an optional sign, white space around the number. The ASCII separators 28 to 31
  are white space for \<^verbatim>\<open>str.strip\<close> but not for \<^verbatim>\<open>int\<close>. \<open>None\<close> is ValueError. The
  interpreter's limit of 4300 digits is not modelled.
\<close>

definition int_space :: "int \<Rightarrow> bool" where
  "int_space c \<longleftrightarrow> py_isspace c \<and> \<not> (28 \<le> c \<and> c \<le> 31)"

fun digits_val :: "bool \<Rightarrow> int \<Rightarrow> pystr \<Rightarrow> int option" where
  "digits_val prev acc [] = (if prev then Some acc else None)"
| "digits_val prev acc (c # cs) =
     (if c = 95 then (if prev then digits_val False acc cs else None)
      else case py_decimal c of
             None \<Rightarrow> None
           | Some d \<Rightarrow> digits_val True (acc * 10 + d) cs)"

definition py_int :: "pystr \<Rightarrow> int option" where
  "py_int s =
     (case strip_by int_space s of
        [] \<Rightarrow> None
      | c # cs \<Rightarrow>
          if c = 43 then digits_val False 0 cs
          else if c = 45 then map_option uminus (digits_val False 0 cs)
          else digits_val False 0 (c # cs))"

text \<open>\<^verbatim>\<open>str(n)\<close> and \<^verbatim>\<open>f"{n:0wd}"\<close>.\<close>

function show_pos :: "int \<Rightarrow> pystr" where
  "show_pos n = (if n < 10 then [48 + n] else show_pos (n div 10) @ [48 + n mod 10])"
  by pat_completeness auto
termination
  by (relation "measure nat") auto

declare show_pos.simps [simp del]

definition py_str_int :: "int \<Rightarrow> pystr" where
  "py_str_int i = (if i < 0 then 45 # show_pos (- i) else show_pos i)"

definition zpad :: "nat \<Rightarrow> pystr \<Rightarrow> pystr" where
  "zpad w s = replicate (w - length s) 48 @ s"

definition fmt_0d :: "nat \<Rightarrow> int \<Rightarrow> pystr" where
  "fmt_0d w i = (if i < 0 then 45 # zpad (w - 1) (show_pos (- i)) else zpad w (show_pos i))"

declare int_space_def [py_defs] py_int_def [py_defs] py_str_int_def [py_defs]
  zpad_def [py_defs] fmt_0d_def [py_defs]

section \<open>Round trips of the decimal notation\<close>

definition ascii_digits :: "pystr \<Rightarrow> bool" where
  "ascii_digits s \<longleftrightarrow> list_all (\<lambda>c. 48 \<le> c \<and> c \<le> 57) s"

definition dval :: "int \<Rightarrow> pystr \<Rightarrow> int" where
  "dval acc s = foldl (\<lambda>a c. a * 10 + (c - 48)) acc s"

declare ascii_digits_def [py_defs] dval_def [py_defs]

lemma dval_simps [simp]:
  "dval a [] = a"
  "dval a (c # cs) = dval (a * 10 + (c - 48)) cs"
  "dval a (xs @ ys) = dval (dval a xs) ys"
  by (simp_all add: dval_def)

lemma ascii_digits_simps [simp]:
  "ascii_digits []"
  "ascii_digits (c # cs) \<longleftrightarrow> 48 \<le> c \<and> c \<le> 57 \<and> ascii_digits cs"
  "ascii_digits (xs @ ys) \<longleftrightarrow> ascii_digits xs \<and> ascii_digits ys"
  "ascii_digits (replicate n 48)"
  by (auto simp: ascii_digits_def list_all_iff)

lemma ascii_digit_value:
  "48 \<le> c \<Longrightarrow> c \<le> 57 \<Longrightarrow> py_decimal c = Some (c - 48)"
  using py_decimal_ascii [of "c - 48"] by simp

lemma digits_val_ascii:
  "ascii_digits s \<Longrightarrow>
   digits_val b acc s = (if s = [] then if b then Some acc else None else Some (dval acc s))"
  by (induction s arbitrary: b acc) (auto simp: ascii_digit_value)

lemma ascii_digit_decimal: "48 \<le> c \<Longrightarrow> c \<le> 57 \<Longrightarrow> decimal_char c"
  by (simp add: decimal_char_def ascii_digit_value)

lemma ascii_digits_decimal: "ascii_digits s \<Longrightarrow> list_all decimal_char s"
  by (auto simp: ascii_digits_def list_all_iff ascii_digit_decimal)

lemma ascii_digits_fold: "ascii_digits s \<Longrightarrow> map fold_fa_digit s = s"
  by (induction s) (simp_all add: fold_fa_digit_def)

lemma ascii_digits_no_space: "ascii_digits s \<Longrightarrow> list_all (\<lambda>c. \<not> int_space c) s"
  by (auto simp: ascii_digits_def list_all_iff int_space_def py_isspace_def)

lemma py_int_ascii: "ascii_digits s \<Longrightarrow> s \<noteq> [] \<Longrightarrow> py_int s = Some (dval 0 s)"
  using strip_by_no_match [OF ascii_digits_no_space]
  by (cases s) (auto simp: py_int_def digits_val_ascii ascii_digit_value)

lemma show_pos_digits: "0 \<le> n \<Longrightarrow> ascii_digits (show_pos n) \<and> show_pos n \<noteq> []"
proof (induction n rule: show_pos.induct)
  case (1 n)
  then show ?case by (subst (1 2) show_pos.simps) auto
qed

lemma show_pos_value: "0 \<le> n \<Longrightarrow> dval 0 (show_pos n) = n"
proof (induction n rule: show_pos.induct)
  case (1 n)
  then show ?case by (subst show_pos.simps) (auto simp: mult.commute)
qed

lemma div10_less_iff: "(n::int) div 10 < m \<longleftrightarrow> n < m * 10"
  by linarith

lemma show_pos_length: "0 \<le> n \<Longrightarrow> 0 < w \<Longrightarrow> length (show_pos n) \<le> w \<longleftrightarrow> n < 10 ^ w"
proof (induction n arbitrary: w rule: show_pos.induct)
  case (1 n)
  show ?case
  proof (cases "n < 10")
    case True
    have "(10::int) ^ 1 \<le> 10 ^ w" using "1.prems" by (intro power_increasing) auto
    then have "n < 10 ^ w" using True by simp
    with True "1.prems" show ?thesis by (subst show_pos.simps) auto
  next
    case big: False
    have len: "length (show_pos n) = Suc (length (show_pos (n div 10)))"
      using big by (subst show_pos.simps) simp
    show ?thesis
    proof (cases "w = 1")
      case True
      with big "1.prems" len show_pos_digits [of "n div 10"] show ?thesis by auto
    next
      case False
      then obtain v where v: "w = Suc v" "0 < v" using "1.prems" by (cases w) auto
      have "length (show_pos (n div 10)) \<le> v \<longleftrightarrow> n div 10 < 10 ^ v"
        using "1.IH" [OF big, of v] "1.prems" v by auto
      also have "\<dots> \<longleftrightarrow> n < 10 ^ w" using v by (simp add: div10_less_iff mult.commute)
      finally show ?thesis using len v by simp
    qed
  qed
qed

lemma zpad_digits: "ascii_digits s \<Longrightarrow> ascii_digits (zpad w s)"
  by (simp add: zpad_def)

lemma dval_zeros: "dval 0 (replicate k 48 @ s) = dval 0 s"
  by (induction k) auto

lemma zpad_value [simp]: "dval 0 (zpad w s) = dval 0 s"
  by (simp only: zpad_def dval_zeros)

lemma zpad_length: "length (zpad w s) = max w (length s)"
  by (simp add: zpad_def)

lemma fmt_0d_digits: "0 \<le> n \<Longrightarrow> ascii_digits (fmt_0d w n) \<and> fmt_0d w n \<noteq> []"
  using show_pos_digits [of n] by (auto simp: fmt_0d_def zpad_digits) (simp add: zpad_def)

lemma fmt_0d_value: "0 \<le> n \<Longrightarrow> dval 0 (fmt_0d w n) = n"
  by (simp add: fmt_0d_def show_pos_value)

lemma fmt_0d_length: "0 \<le> n \<Longrightarrow> n < 10 ^ w \<Longrightarrow> 0 < w \<Longrightarrow> length (fmt_0d w n) = w"
  using show_pos_length [of n w] by (simp add: fmt_0d_def zpad_length)

lemma fmt_0d_min_length: "0 \<le> n \<Longrightarrow> w \<le> length (fmt_0d w n)"
  by (simp add: fmt_0d_def zpad_length)

lemma fmt_0d_long: "0 \<le> n \<Longrightarrow> 10 ^ w \<le> n \<Longrightarrow> 0 < w \<Longrightarrow> w < length (fmt_0d w n)"
  using show_pos_length [of n w] by (simp add: fmt_0d_def zpad_length)

lemma fmt_0d_inj: "0 \<le> m \<Longrightarrow> 0 \<le> n \<Longrightarrow> fmt_0d w m = fmt_0d w n \<Longrightarrow> m = n"
  by (metis fmt_0d_value)

lemma py_int_fmt_0d: "0 \<le> n \<Longrightarrow> py_int (fmt_0d w n) = Some n"
  using fmt_0d_digits [of n w] by (simp add: py_int_ascii fmt_0d_value)

lemma py_int_str_int: "py_int (py_str_int i) = Some i"
proof (cases "i < 0")
  case True
  let ?s = "show_pos (- i)"
  have d: "ascii_digits ?s" "?s \<noteq> []" using show_pos_digits [of "- i"] True by auto
  have "strip_by int_space (45 # ?s) = 45 # ?s"
    using ascii_digits_no_space [OF d(1)]
    by (intro strip_by_no_match) (auto simp: int_space_def py_isspace_def)
  then show ?thesis
    using True d show_pos_value [of "- i"]
    by (simp add: py_int_def py_str_int_def digits_val_ascii)
next
  case False
  then show ?thesis
    using show_pos_digits [of i] show_pos_value [of i] by (simp add: py_str_int_def py_int_ascii)
qed

lemma py_str_int_inj: "py_str_int i = py_str_int j \<Longrightarrow> i = j"
  by (metis option.inject py_int_str_int)

section \<open>Unicode tables that stay parameters\<close>

text \<open>
  NFKC normalisation (\<^verbatim>\<open>unicodedata.normalize\<close>), the case mappings and the categories are data of the
  interpreter: a record of functions, passed to the definitions that use them. \<open>ucd_ok\<close>
  states what the Unicode standard guarantees and the proofs rely on: NFKC keeps ASCII text
  and Persian and Arabic-Indic digits, the case mappings are the ASCII ones on ASCII text, and
  of those characters only the ASCII controls have a general category C (\<open>u_control\<close>) or one of Cc and Cf
  (\<open>u_format\<close>). \<open>ascii_ucd\<close> is an instance.
\<close>

record ucd =
  u_nfkc :: "pystr \<Rightarrow> pystr"
  u_lower :: "pystr \<Rightarrow> pystr"
  u_upper :: "pystr \<Rightarrow> pystr"
  u_control :: "int \<Rightarrow> bool"
  u_format :: "int \<Rightarrow> bool"

definition is_ascii :: "pystr \<Rightarrow> bool" where
  "is_ascii s \<longleftrightarrow> list_all (\<lambda>c. 0 \<le> c \<and> c < 128) s"

definition ascii_lower :: "int \<Rightarrow> int" where
  "ascii_lower c = (if 65 \<le> c \<and> c \<le> 90 then c + 32 else c)"

definition ascii_upper :: "int \<Rightarrow> int" where
  "ascii_upper c = (if 97 \<le> c \<and> c \<le> 122 then c - 32 else c)"

definition ascii_ucd :: ucd where
  "ascii_ucd = \<lparr>u_nfkc = (\<lambda>s. s), u_lower = map ascii_lower, u_upper = map ascii_upper,
                u_control = (\<lambda>c. c < 32 \<or> c = 127), u_format = (\<lambda>c. c < 32 \<or> c = 127)\<rparr>"

definition nfkc_stable :: "pystr \<Rightarrow> bool" where
  "nfkc_stable s \<longleftrightarrow>
     list_all (\<lambda>c. 0 \<le> c \<and> c < 128 \<or> 1632 \<le> c \<and> c \<le> 1641 \<or> 1776 \<le> c \<and> c \<le> 1785) s"

definition ucd_ok :: "ucd \<Rightarrow> bool" where
  "ucd_ok U \<longleftrightarrow> (\<forall>s. nfkc_stable s \<longrightarrow> u_nfkc U s = s) \<and>
     (\<forall>s. is_ascii s \<longrightarrow> u_lower U s = map ascii_lower s \<and> u_upper U s = map ascii_upper s) \<and>
     (\<forall>c. nfkc_stable [c] \<longrightarrow> u_control U c = (c < 32 \<or> c = 127) \<and> u_format U c = (c < 32 \<or> c = 127))"

declare is_ascii_def [py_defs] nfkc_stable_def [py_defs] ascii_lower_def [py_defs] ascii_upper_def [py_defs]
  ascii_ucd_def [py_defs]

lemma ascii_ucd_ok: "ucd_ok ascii_ucd"
  by (simp add: ucd_ok_def ascii_ucd_def)

lemma ascii_digits_ascii: "ascii_digits s \<Longrightarrow> is_ascii s"
  by (auto simp: ascii_digits_def is_ascii_def list_all_iff)

lemma ucd_ok_nfkc: "ucd_ok U \<Longrightarrow> nfkc_stable s \<Longrightarrow> u_nfkc U s = s"
  by (simp add: ucd_ok_def)

lemma is_ascii_nfkc_stable: "is_ascii s \<Longrightarrow> nfkc_stable s"
  by (auto simp: is_ascii_def nfkc_stable_def list_all_iff)

section \<open>Dynamically typed fields\<close>

text \<open>
  The values the records of the program carry before normalisation: the annotated types of
  the source are \<^verbatim>\<open>int | str | None\<close>, with \<^verbatim>\<open>bool\<close> a subclass of \<^verbatim>\<open>int\<close>.
\<close>

datatype pyval = PNone | PBool bool | PInt int | PStr pystr

fun py_str :: "pyval \<Rightarrow> pystr" where
  "py_str PNone = asc ''None''"
| "py_str (PBool b) = (if b then asc ''True'' else asc ''False'')"
| "py_str (PInt i) = py_str_int i"
| "py_str (PStr s) = s"

section \<open>Sorting and first minima\<close>

text \<open>\<^verbatim>\<open>list.sort(key=...)\<close> is stable, as the library's \<open>sort_key\<close> is.\<close>

lemma hd_sort_key_min:
  "xs \<noteq> [] \<Longrightarrow> x \<in> set xs \<Longrightarrow> f (hd (sort_key f xs)) \<le> f x"
proof -
  assume ne: "xs \<noteq> []" and x: "x \<in> set xs"
  have "sorted (map f (sort_key f xs))" by simp
  moreover have "x \<in> set (sort_key f xs)" using x by simp
  ultimately show ?thesis
    by (cases "sort_key f xs") auto
qed

lemma hd_sort_key_in: "xs \<noteq> [] \<Longrightarrow> hd (sort_key f xs) \<in> set xs"
  by (metis hd_in_set length_0_conv length_sort set_sort)

end
