(* ===== verification/Alloc_Contracts.thy ===== *)
theory Alloc_Contracts
  imports PyBase "HOL-Library.AList"
begin

text \<open>
  \<^verbatim>\<open>phase3_allocation/contracts.py\<close>: the codes, the raw and the normalised records of the
  eligibility policy, and the trace entries. A \<^verbatim>\<open>details\<close> dict is an association list in
  insertion order. Its Persian messages are the constructors of \<open>rule_msg\<close>, one for each
  literal or format string of \<^verbatim>\<open>rules.py\<close> and \<^verbatim>\<open>policy.py\<close>.
\<close>

datatype rule_code =
    GENDER_MATCH | GROUP_ALLOWED | CENTER_ALLOWED | REG_STATUS_ALLOWED
  | CAPACITY_AVAILABLE | SCHOOL_TYPE_COMPATIBLE | GRADUATE_NOT_TO_SCHOOL | MANAGER_CENTER_GATE

datatype mentor_type = NORMAL | SCHOOL

datatype rule_msg =
    MsgGenderMismatch | MsgGroupNotAllowed | MsgCenterNotAllowed | MsgRegStatusInvalid
  | MsgNegativeCapacity | MsgMentorInactive | MsgCapacityFull
  | MsgSpecialNeedsSchoolMentor | MsgSchoolCodeMissing | MsgSchoolNotAllowed
  | MsgNormalNotToSchool | MsgGraduateNotToSchool
  | MsgManagerCentersNotFound | MsgManagerCenterNotAllowed
  | MsgFieldInvalid string | MsgFieldEmpty string | MsgFieldNotInt string
  | MsgFieldNotBool string | MsgFieldOutOfRange string
  | MsgGroupCodeEmpty | MsgMentorTypeNotAllowed

datatype detail =
    DMsg rule_msg | DName string | DInt int | DStr pystr | DStrs "pystr list"
  | DInts "int list" | DVal pyval

type_synonym details = "(string \<times> detail) list"

definition dict_update :: "details \<Rightarrow> details \<Rightarrow> details" where
  "dict_update d e = foldl (\<lambda>m kv. AList.update (fst kv) (snd kv) m) d e"

record trace_entry =
  te_code :: rule_code
  te_passed :: bool
  te_details :: details

record StudentLike =
  sl_gender :: pyval
  sl_group_code :: pyval
  sl_reg_center :: pyval
  sl_reg_status :: pyval
  sl_edu_status :: pyval
  sl_school_code :: pyval
  sl_student_type :: pyval
  sl_roster_year :: pyval

record MentorLike =
  ml_mentor_id :: pyval
  ml_gender :: pyval
  ml_allowed_groups :: "pyval list"
  ml_allowed_centers :: "pyval list"
  ml_capacity :: pyval
  ml_current_load :: pyval
  ml_is_active :: pyval
  ml_mentor_type :: pyval
  ml_special_schools :: "pyval list"
  ml_manager_id :: pyval

record AllocationConfig =
  fast_fail :: bool
  trace_limit_rejected :: "int option"

definition default_config :: AllocationConfig where
  "default_config = \<lparr>fast_fail = False, trace_limit_rejected = None\<rparr>"

record NormalizedStudent =
  ns_gender :: int
  ns_group_code :: pystr
  ns_reg_center :: int
  ns_reg_status :: int
  ns_edu_status :: int
  ns_school_code :: "int option"
  ns_student_type :: int
  ns_roster_year :: "int option"
  ns_warnings :: "pystr list"

record NormalizedMentor =
  nm_mentor_id :: int
  nm_gender :: int
  nm_allowed_groups :: "pystr set"
  nm_allowed_centers :: "int set"
  nm_capacity :: int
  nm_current_load :: int
  nm_is_active :: bool
  nm_mentor_type :: mentor_type
  nm_special_schools :: "int set"
  nm_manager_id :: "int option"

end
