(* ===== verification/Alloc_Rules.thy ===== *)
theory Alloc_Rules
  imports Alloc_Contracts
begin

text \<open>
  \<^verbatim>\<open>phase3_allocation/rules.py\<close> and the provider interface of \<^verbatim>\<open>providers.py\<close>. Each rule
  class is a constructor of \<open>rule\<close> and its \<^verbatim>\<open>check\<close> a definition. The manager gate asks a
  provider that may keep state (the database provider caches), so \<open>rule_check\<close> threads the
  provider's state. \<open>eligible\<close> is the specification: the conjunction of the eight conditions
  as the rule docstrings state them, with no trace, no order and no early exit.
\<close>

record RuleResult =
  rr_passed :: bool
  rr_details :: details

definition gender_match_check :: "NormalizedStudent \<Rightarrow> NormalizedMentor \<Rightarrow> RuleResult" where
  "gender_match_check s m =
     (let passed = (ns_gender s = nm_gender m);
          details = (if passed then []
                     else [(''message'', DMsg MsgGenderMismatch),
                           (''student_gender'', DInt (ns_gender s)),
                           (''mentor_gender'', DInt (nm_gender m))])
      in \<lparr>rr_passed = passed, rr_details = details\<rparr>)"

definition group_allowed_check :: "NormalizedStudent \<Rightarrow> NormalizedMentor \<Rightarrow> RuleResult" where
  "group_allowed_check s m =
     (let group_allowed = (ns_group_code s \<in> nm_allowed_groups m);
          details = (if group_allowed then []
                     else [(''message'', DMsg MsgGroupNotAllowed),
                           (''group_code'', DStr (ns_group_code s))])
      in \<lparr>rr_passed = group_allowed, rr_details = details\<rparr>)"

definition center_allowed_check :: "NormalizedStudent \<Rightarrow> NormalizedMentor \<Rightarrow> RuleResult" where
  "center_allowed_check s m =
     (let center_allowed = (ns_reg_center s \<in> nm_allowed_centers m);
          details = (if center_allowed then []
                     else [(''message'', DMsg MsgCenterNotAllowed),
                           (''reg_center'', DInt (ns_reg_center s))])
      in \<lparr>rr_passed = center_allowed, rr_details = details\<rparr>)"

definition reg_status_allowed_check :: "NormalizedStudent \<Rightarrow> NormalizedMentor \<Rightarrow> RuleResult" where
  "reg_status_allowed_check s m =
     (let allowed = (ns_reg_status s \<in> {0, 1, 3});
          details = (if allowed then []
                     else [(''message'', DMsg MsgRegStatusInvalid),
                           (''reg_status'', DInt (ns_reg_status s))])
      in \<lparr>rr_passed = allowed, rr_details = details\<rparr>)"

definition capacity_available_check :: "NormalizedStudent \<Rightarrow> NormalizedMentor \<Rightarrow> RuleResult" where
  "capacity_available_check s m =
     (if nm_capacity m < 0 \<or> nm_current_load m < 0 then
        \<lparr>rr_passed = False,
         rr_details = [(''message'', DMsg MsgNegativeCapacity),
                       (''capacity'', DInt (nm_capacity m)),
                       (''current_load'', DInt (nm_current_load m))]\<rparr>
      else if \<not> nm_is_active m then
        \<lparr>rr_passed = False, rr_details = [(''message'', DMsg MsgMentorInactive)]\<rparr>
      else if nm_capacity m \<le> nm_current_load m then
        \<lparr>rr_passed = False,
         rr_details = [(''message'', DMsg MsgCapacityFull),
                       (''capacity'', DInt (nm_capacity m)),
                       (''current_load'', DInt (nm_current_load m))]\<rparr>
      else \<lparr>rr_passed = True, rr_details = []\<rparr>)"

fun mentor_type_name :: "mentor_type \<Rightarrow> pystr" where
  "mentor_type_name NORMAL = asc ''NORMAL''"
| "mentor_type_name SCHOOL = asc ''SCHOOL''"

definition school_type_check :: "NormalizedStudent \<Rightarrow> NormalizedMentor \<Rightarrow> RuleResult" where
  "school_type_check s m =
     (let details = (if ns_warnings s = [] then []
                     else [(''warnings'', DStrs (sort (ns_warnings s)))])
      in if ns_student_type s = 1 then
           if nm_mentor_type m \<noteq> SCHOOL then
             \<lparr>rr_passed = False,
              rr_details = dict_update details
                [(''message'', DMsg MsgSpecialNeedsSchoolMentor),
                 (''mentor_type'', DStr (mentor_type_name (nm_mentor_type m)))]\<rparr>
           else case ns_school_code s of
             None \<Rightarrow>
               \<lparr>rr_passed = False,
                rr_details = dict_update details [(''message'', DMsg MsgSchoolCodeMissing)]\<rparr>
           | Some code \<Rightarrow>
               if code \<notin> nm_special_schools m then
                 \<lparr>rr_passed = False,
                  rr_details = dict_update details
                    [(''message'', DMsg MsgSchoolNotAllowed), (''school_code'', DInt code)]\<rparr>
               else \<lparr>rr_passed = True, rr_details = details\<rparr>
         else if nm_mentor_type m = SCHOOL then
           \<lparr>rr_passed = False,
            rr_details = dict_update details [(''message'', DMsg MsgNormalNotToSchool)]\<rparr>
         else \<lparr>rr_passed = True, rr_details = details\<rparr>)"

definition graduate_check :: "NormalizedStudent \<Rightarrow> NormalizedMentor \<Rightarrow> RuleResult" where
  "graduate_check s m =
     (if ns_edu_status s = 0 \<and> nm_mentor_type m = SCHOOL then
        \<lparr>rr_passed = False, rr_details = [(''message'', DMsg MsgGraduateNotToSchool)]\<rparr>
      else \<lparr>rr_passed = True, rr_details = []\<rparr>)"

text \<open>A provider of manager centers: a call returns the answer and the provider's new state.\<close>

type_synonym 'p centers_fn = "'p \<Rightarrow> int \<Rightarrow> int set option \<times> 'p"

definition manager_gate_check ::
  "'p centers_fn \<Rightarrow> NormalizedStudent \<Rightarrow> NormalizedMentor \<Rightarrow> 'p \<Rightarrow> RuleResult \<times> 'p" where
  "manager_gate_check get s m p =
     (case nm_manager_id m of
        None \<Rightarrow> (\<lparr>rr_passed = True, rr_details = []\<rparr>, p)
      | Some manager_id \<Rightarrow>
          (case get p manager_id of
             (None, p') \<Rightarrow>
               (\<lparr>rr_passed = False,
                 rr_details = [(''message'', DMsg MsgManagerCentersNotFound),
                               (''reason'', DName ''manager_centers_not_found'')]\<rparr>, p')
           | (Some centers, p') \<Rightarrow>
               if ns_reg_center s \<notin> centers then
                 (\<lparr>rr_passed = False,
                   rr_details = [(''message'', DMsg MsgManagerCenterNotAllowed),
                                 (''reg_center'', DInt (ns_reg_center s))]\<rparr>, p')
               else (\<lparr>rr_passed = True, rr_details = []\<rparr>, p')))"

datatype rule =
    GenderMatchRule | GroupAllowedRule | CenterAllowedRule | RegistrationStatusAllowedRule
  | CapacityAvailableRule | SchoolTypeCompatibleRule | GraduateNotToSchoolRule
  | ManagerCenterGateRule

fun rule_code_of :: "rule \<Rightarrow> rule_code" where
  "rule_code_of GenderMatchRule = GENDER_MATCH"
| "rule_code_of GroupAllowedRule = GROUP_ALLOWED"
| "rule_code_of CenterAllowedRule = CENTER_ALLOWED"
| "rule_code_of RegistrationStatusAllowedRule = REG_STATUS_ALLOWED"
| "rule_code_of CapacityAvailableRule = CAPACITY_AVAILABLE"
| "rule_code_of SchoolTypeCompatibleRule = SCHOOL_TYPE_COMPATIBLE"
| "rule_code_of GraduateNotToSchoolRule = GRADUATE_NOT_TO_SCHOOL"
| "rule_code_of ManagerCenterGateRule = MANAGER_CENTER_GATE"

fun rule_check ::
  "'p centers_fn \<Rightarrow> rule \<Rightarrow> NormalizedStudent \<Rightarrow> NormalizedMentor \<Rightarrow> 'p \<Rightarrow> RuleResult \<times> 'p" where
  "rule_check get GenderMatchRule s m p = (gender_match_check s m, p)"
| "rule_check get GroupAllowedRule s m p = (group_allowed_check s m, p)"
| "rule_check get CenterAllowedRule s m p = (center_allowed_check s m, p)"
| "rule_check get RegistrationStatusAllowedRule s m p = (reg_status_allowed_check s m, p)"
| "rule_check get CapacityAvailableRule s m p = (capacity_available_check s m, p)"
| "rule_check get SchoolTypeCompatibleRule s m p = (school_type_check s m, p)"
| "rule_check get GraduateNotToSchoolRule s m p = (graduate_check s m, p)"
| "rule_check get ManagerCenterGateRule s m p = manager_gate_check get s m p"

definition ALL_RULES :: "rule list" where
  "ALL_RULES =
    [GenderMatchRule, GroupAllowedRule, CenterAllowedRule, RegistrationStatusAllowedRule,
     CapacityAvailableRule, SchoolTypeCompatibleRule, GraduateNotToSchoolRule]"

section \<open>The specification of eligibility\<close>

definition has_room :: "NormalizedMentor \<Rightarrow> bool" where
  "has_room m \<longleftrightarrow> nm_is_active m \<and> 0 \<le> nm_current_load m \<and> nm_current_load m < nm_capacity m"

definition school_compatible :: "NormalizedStudent \<Rightarrow> NormalizedMentor \<Rightarrow> bool" where
  "school_compatible s m \<longleftrightarrow>
     (if ns_student_type s = 1
      then nm_mentor_type m = SCHOOL \<and> (\<exists>c. ns_school_code s = Some c \<and> c \<in> nm_special_schools m)
      else nm_mentor_type m = NORMAL)"

definition gate_open :: "(int \<Rightarrow> int set option) \<Rightarrow> NormalizedStudent \<Rightarrow> NormalizedMentor \<Rightarrow> bool" where
  "gate_open centers s m \<longleftrightarrow>
     (case nm_manager_id m of
        None \<Rightarrow> True
      | Some k \<Rightarrow> (case centers k of None \<Rightarrow> False | Some C \<Rightarrow> ns_reg_center s \<in> C))"

definition eligible :: "(int \<Rightarrow> int set option) \<Rightarrow> NormalizedStudent \<Rightarrow> NormalizedMentor \<Rightarrow> bool" where
  "eligible centers s m \<longleftrightarrow>
     ns_gender s = nm_gender m \<and> ns_group_code s \<in> nm_allowed_groups m \<and>
     ns_reg_center s \<in> nm_allowed_centers m \<and> ns_reg_status s \<in> {0, 1, 3} \<and>
     has_room m \<and> school_compatible s m \<and>
     \<not> (ns_edu_status s = 0 \<and> nm_mentor_type m = SCHOOL) \<and> gate_open centers s m"

text \<open>What each rule decides, as one predicate indexed by the rule.\<close>

fun rule_holds ::
  "(int \<Rightarrow> int set option) \<Rightarrow> NormalizedStudent \<Rightarrow> NormalizedMentor \<Rightarrow> rule \<Rightarrow> bool" where
  "rule_holds centers s m GenderMatchRule \<longleftrightarrow> ns_gender s = nm_gender m"
| "rule_holds centers s m GroupAllowedRule \<longleftrightarrow> ns_group_code s \<in> nm_allowed_groups m"
| "rule_holds centers s m CenterAllowedRule \<longleftrightarrow> ns_reg_center s \<in> nm_allowed_centers m"
| "rule_holds centers s m RegistrationStatusAllowedRule \<longleftrightarrow> ns_reg_status s \<in> {0, 1, 3}"
| "rule_holds centers s m CapacityAvailableRule \<longleftrightarrow> has_room m"
| "rule_holds centers s m SchoolTypeCompatibleRule \<longleftrightarrow> school_compatible s m"
| "rule_holds centers s m GraduateNotToSchoolRule \<longleftrightarrow>
     \<not> (ns_edu_status s = 0 \<and> nm_mentor_type m = SCHOOL)"
| "rule_holds centers s m ManagerCenterGateRule \<longleftrightarrow> gate_open centers s m"

lemma eligible_iff_rules:
  "eligible centers s m \<longleftrightarrow> (\<forall>r \<in> set (ALL_RULES @ [ManagerCenterGateRule]). rule_holds centers s m r)"
  by (auto simp: eligible_def ALL_RULES_def)

lemma mentor_type_cases: "t \<noteq> SCHOOL \<longleftrightarrow> t = NORMAL"
  by (cases t) auto

lemma pure_rule_passed:
  "r \<noteq> ManagerCenterGateRule \<Longrightarrow>
     rr_passed (fst (rule_check get r s m p)) = rule_holds centers s m r \<and>
     snd (rule_check get r s m p) = p"
  by (cases r)
    (auto simp: gender_match_check_def group_allowed_check_def center_allowed_check_def
      reg_status_allowed_check_def capacity_available_check_def has_room_def school_type_check_def
      school_compatible_def graduate_check_def mentor_type_cases Let_def split: option.splits)

lemma gate_passed:
  "rr_passed (fst (manager_gate_check get s m p)) = gate_open (\<lambda>k. fst (get p k)) s m"
  by (auto simp: manager_gate_check_def gate_open_def split: option.splits prod.splits)

lemma rule_passed:
  "rr_passed (fst (rule_check get r s m p)) = rule_holds (\<lambda>k. fst (get p k)) s m r"
  using pure_rule_passed [of r get s m p "\<lambda>k. fst (get p k)"] gate_passed [of get s m p]
  by (cases "r = ManagerCenterGateRule") auto

text \<open>A rule that passes reports no message; a rule that fails reports one.\<close>

lemma dict_update_lookup:
  "map_of (dict_update d e) k = (case map_of (rev e) k of None \<Rightarrow> map_of d k | Some v \<Rightarrow> Some v)"
proof (induction e arbitrary: d)
  case (Cons kv e)
  then show ?case
    by (auto simp: dict_update_def update_conv' map_add_def split: option.splits)
qed (simp add: dict_update_def)

lemma rule_message_iff_failed:
  "(map_of (rr_details (fst (rule_check get r s m p))) ''message'' = None) \<longleftrightarrow>
     rr_passed (fst (rule_check get r s m p))"
  by (cases r)
    (auto simp: gender_match_check_def group_allowed_check_def center_allowed_check_def
      reg_status_allowed_check_def capacity_available_check_def school_type_check_def
      graduate_check_def manager_gate_check_def dict_update_lookup Let_def
      split: option.splits prod.splits)

section \<open>The interface of a manager centers provider\<close>

text \<open>
  What a client of \<^verbatim>\<open>ManagerCentersProvider\<close> relies on: while the provider is in order, a
  call answers with \<open>view\<close> and leaves the provider in order.
\<close>

locale centers_provider =
  fixes get :: "'p centers_fn"
    and ok :: "'p \<Rightarrow> bool"
    and view :: "int \<Rightarrow> int set option"
  assumes get_view: "ok p \<Longrightarrow> fst (get p k) = view k"
    and get_ok: "ok p \<Longrightarrow> ok (snd (get p k))"
begin

lemma rule_check_ok: "ok p \<Longrightarrow> ok (snd (rule_check get r s m p))"
proof (cases r)
  case ManagerCenterGateRule
  assume "ok p"
  then show ?thesis
    using get_ok ManagerCenterGateRule
    by (auto simp: manager_gate_check_def split: option.splits prod.splits) (metis snd_conv)+
qed auto

lemma view_fun: "ok p \<Longrightarrow> (\<lambda>k. fst (get p k)) = view"
  by (simp add: get_view)

end

end
