(* ===== verification/Alloc_Policy.thy ===== *)
theory Alloc_Policy
  imports Alloc_Rules
begin

text \<open>
  \<^verbatim>\<open>phase3_allocation/policy.py\<close>: normalisation of raw students and mentors, with a
  NormalizationError as the left of the result sum, and \<^verbatim>\<open>EligibilityPolicy\<close>. The special
  schools provider is the function \<open>schools\<close>; the manager centers provider is the stateful
  \<open>get\<close> of the rules. The lemmas show what a normalised record satisfies and that the
  verdict is the specification \<open>eligible\<close>, whatever the configuration.
\<close>

record NormalizationError =
  ne_rule_code :: rule_code
  ne_message :: rule_msg
  ne_details :: details

definition ZERO_WIDTH_CHARS :: "int list" where
  "ZERO_WIDTH_CHARS = [8204, 8207, 8206, 65279]"

definition normalize_text :: "pyval \<Rightarrow> pystr" where
  "normalize_text value =
     (let text = (case value of PNone \<Rightarrow> [] | _ \<Rightarrow> py_str value);
          text = py_strip text;
          text = remove_chars ZERO_WIDTH_CHARS text;
          text = replace_char 1610 1740 (replace_char 1603 1705 text)
      in map fold_fa_digit text)"

definition norm_error :: "rule_code \<Rightarrow> rule_msg \<Rightarrow> details \<Rightarrow> NormalizationError" where
  "norm_error c m d = \<lparr>ne_rule_code = c, ne_message = m, ne_details = d\<rparr>"

definition normalize_int ::
  "rule_code \<Rightarrow> string \<Rightarrow> bool \<Rightarrow> int option \<Rightarrow> pyval \<Rightarrow> NormalizationError + int option" where
  "normalize_int rule_code field allow_none dflt value =
     (if value = PNone then
        if allow_none then Inr dflt
        else Inl (norm_error rule_code (MsgFieldInvalid field)
               [(''field'', DName field), (''value'', DVal value)])
      else let text = normalize_text value in
        if text = [] then
          if allow_none then Inr dflt
          else Inl (norm_error rule_code (MsgFieldEmpty field) [(''field'', DName field)])
        else case py_int text of
          Some n \<Rightarrow> Inr (Some n)
        | None \<Rightarrow> Inl (norm_error rule_code (MsgFieldNotInt field)
            [(''field'', DName field), (''value'', DStr text)]))"

definition normalize_bool :: "ucd \<Rightarrow> string \<Rightarrow> pyval \<Rightarrow> NormalizationError + bool" where
  "normalize_bool U field value =
     (case value of
        PBool b \<Rightarrow> Inr b
      | _ \<Rightarrow>
        let text = normalize_text value in
        if u_lower U text \<in> set (map asc [''true'', ''1'', ''yes'', ''y'', ''on'']) then Inr True
        else if u_lower U text \<in> set (map asc [''false'', ''0'', ''no'', ''n'', ''off'']) then Inr False
        else Inl (norm_error CAPACITY_AVAILABLE (MsgFieldNotBool field)
               [(''field'', DName field), (''value'', DVal value)]))"

definition out_of_range :: "rule_code \<Rightarrow> string \<Rightarrow> int list \<Rightarrow> int option \<Rightarrow> NormalizationError" where
  "out_of_range rule_code field allowed numeric =
     norm_error rule_code (MsgFieldOutOfRange field)
       [(''field'', DName field),
        (''value'', case numeric of None \<Rightarrow> DVal PNone | Some n \<Rightarrow> DInt n),
        (''allowed'', DInts allowed)]"

definition normalize_enum ::
  "rule_code \<Rightarrow> string \<Rightarrow> int list \<Rightarrow> pyval \<Rightarrow> NormalizationError + int" where
  "normalize_enum rule_code field allowed value =
     rbind (normalize_int rule_code field False None value) (\<lambda>numeric.
       case numeric of
         None \<Rightarrow> Inl (out_of_range rule_code field allowed None)
       | Some n \<Rightarrow> if n \<in> set allowed then Inr n
                   else Inl (out_of_range rule_code field allowed (Some n)))"

definition normalize_optional_enum ::
  "rule_code \<Rightarrow> string \<Rightarrow> int list \<Rightarrow> int \<Rightarrow> pyval \<Rightarrow> NormalizationError + int" where
  "normalize_optional_enum rule_code field allowed dflt value =
     (if value = PNone then Inr dflt
      else if normalize_text value = [] then Inr dflt
      else normalize_enum rule_code field allowed value)"

definition or_zero :: "int option \<Rightarrow> int" where
  "or_zero x = (case x of None \<Rightarrow> 0 | Some n \<Rightarrow> n)"

definition derive_student_type ::
  "(int \<Rightarrow> int set option) \<Rightarrow> int option \<Rightarrow> int option \<Rightarrow> int option" where
  "derive_student_type schools roster_year school_code =
     (case (roster_year, school_code) of
        (Some y, Some c) \<Rightarrow>
          (case schools y of None \<Rightarrow> None | Some S \<Rightarrow> Some (if c \<in> S then 1 else 0))
      | _ \<Rightarrow> None)"

definition type_mismatch_warning :: pystr where
  "type_mismatch_warning = asc ''student_type_mismatch_roster''"

definition normalize_student ::
  "(int \<Rightarrow> int set option) \<Rightarrow> StudentLike \<Rightarrow> NormalizationError + NormalizedStudent" where
  "normalize_student schools s =
     rbind (normalize_enum GENDER_MATCH ''gender'' [0, 1] (sl_gender s)) (\<lambda>gender.
     let group_code = normalize_text (sl_group_code s) in
     if group_code = [] then
       Inl (norm_error GROUP_ALLOWED MsgGroupCodeEmpty [(''field'', DName ''group_code'')])
     else
     rbind (normalize_enum CENTER_ALLOWED ''reg_center'' [0, 1, 2] (sl_reg_center s)) (\<lambda>reg_center.
     rbind (normalize_enum REG_STATUS_ALLOWED ''reg_status'' [0, 1, 3] (sl_reg_status s)) (\<lambda>reg_status.
     rbind (normalize_int GRADUATE_NOT_TO_SCHOOL ''edu_status'' True (Some 0) (sl_edu_status s)) (\<lambda>edu_status.
     rbind (normalize_int SCHOOL_TYPE_COMPATIBLE ''school_code'' True None (sl_school_code s)) (\<lambda>school_code.
     rbind (normalize_int SCHOOL_TYPE_COMPATIBLE ''roster_year'' True None (sl_roster_year s)) (\<lambda>roster_year.
     rbind (normalize_optional_enum SCHOOL_TYPE_COMPATIBLE ''student_type'' [0, 1] 0
              (sl_student_type s)) (\<lambda>provided_type.
     let derived_type = derive_student_type schools roster_year school_code;
         student_type = (case derived_type of None \<Rightarrow> provided_type | Some t \<Rightarrow> t);
         warnings = (case derived_type of
                       None \<Rightarrow> []
                     | Some t \<Rightarrow> if provided_type \<noteq> t then [type_mismatch_warning] else [])
     in Inr \<lparr>ns_gender = gender, ns_group_code = group_code, ns_reg_center = reg_center,
             ns_reg_status = reg_status, ns_edu_status = or_zero edu_status,
             ns_school_code = school_code, ns_student_type = student_type,
             ns_roster_year = roster_year, ns_warnings = warnings\<rparr>)))))))"

definition read_mentor_type :: "ucd \<Rightarrow> pyval \<Rightarrow> mentor_type option" where
  "read_mentor_type U value =
     (let text = u_upper U (normalize_text value)
      in if text = mentor_type_name NORMAL then Some NORMAL
         else if text = mentor_type_name SCHOOL then Some SCHOOL else None)"

definition normalize_mentor :: "ucd \<Rightarrow> MentorLike \<Rightarrow> NormalizationError + NormalizedMentor" where
  "normalize_mentor U m =
     rbind (normalize_int CAPACITY_AVAILABLE ''mentor_id'' False None (ml_mentor_id m)) (\<lambda>mentor_id.
     rbind (normalize_enum GENDER_MATCH ''mentor_gender'' [0, 1] (ml_gender m)) (\<lambda>gender.
     let allowed_groups = set (map normalize_text (ml_allowed_groups m)) in
     rbind (rmap (normalize_enum CENTER_ALLOWED ''allowed_center'' [0, 1, 2])
              (ml_allowed_centers m)) (\<lambda>allowed_centers.
     rbind (normalize_int CAPACITY_AVAILABLE ''capacity'' False None (ml_capacity m)) (\<lambda>capacity.
     rbind (normalize_int CAPACITY_AVAILABLE ''current_load'' False None (ml_current_load m)) (\<lambda>current_load.
     rbind (normalize_bool U ''is_active'' (ml_is_active m)) (\<lambda>is_active.
     case read_mentor_type U (ml_mentor_type m) of
       None \<Rightarrow> Inl (norm_error SCHOOL_TYPE_COMPATIBLE MsgMentorTypeNotAllowed
                 [(''mentor_type'', DVal (ml_mentor_type m))])
     | Some mentor_type \<Rightarrow>
     rbind (rmap (normalize_int SCHOOL_TYPE_COMPATIBLE ''special_school'' False None)
              (ml_special_schools m)) (\<lambda>special_schools.
     rbind (normalize_int MANAGER_CENTER_GATE ''manager_id'' True None (ml_manager_id m)) (\<lambda>manager_id.
       Inr \<lparr>nm_mentor_id = or_zero mentor_id, nm_gender = gender,
            nm_allowed_groups = allowed_groups, nm_allowed_centers = set allowed_centers,
            nm_capacity = or_zero capacity, nm_current_load = or_zero current_load,
            nm_is_active = is_active, nm_mentor_type = mentor_type,
            nm_special_schools = set (map or_zero special_schools),
            nm_manager_id = manager_id\<rparr>))))))))"

section \<open>Running the rules\<close>

definition policy_rules :: "rule list" where
  "policy_rules = ALL_RULES @ [ManagerCenterGateRule]"

text \<open>The loop over the rules: the verdict, the trace, and the provider's state.\<close>

fun run_rules_loop ::
  "'p centers_fn \<Rightarrow> bool \<Rightarrow> NormalizedStudent \<Rightarrow> NormalizedMentor \<Rightarrow> rule list \<Rightarrow> 'p \<Rightarrow>
   bool \<times> trace_entry list \<times> 'p" where
  "run_rules_loop get ff s m [] p = (True, [], p)"
| "run_rules_loop get ff s m (rule # rules) p =
     (let (result, p1) = rule_check get rule s m p;
          entry = \<lparr>te_code = rule_code_of rule, te_passed = rr_passed result,
                   te_details = rr_details result\<rparr>
      in if \<not> rr_passed result \<and> ff then (False, [entry], p1)
         else let (passed, trace, p2) = run_rules_loop get ff s m rules p1
              in (rr_passed result \<and> passed, entry # trace, p2))"

text \<open>The slice \<^verbatim>\<open>xs[:n]\<close>; a negative bound counts from the end.\<close>

definition slice_to :: "int \<Rightarrow> 'a list \<Rightarrow> 'a list" where
  "slice_to n xs = take (nat (if n < 0 then int (length xs) + n else n)) xs"

definition run_rules ::
  "'p centers_fn \<Rightarrow> AllocationConfig \<Rightarrow> NormalizedStudent \<Rightarrow> NormalizedMentor \<Rightarrow> 'p \<Rightarrow>
   (bool \<times> trace_entry list) \<times> 'p" where
  "run_rules get config s m p =
     (let (policy_passed, trace, p') = run_rules_loop get (fast_fail config) s m policy_rules p;
          trace = (case trace_limit_rejected config of
                     None \<Rightarrow> trace
                   | Some n \<Rightarrow> if policy_passed then trace else slice_to n trace)
      in ((policy_passed, trace), p'))"

definition error_trace :: "NormalizationError \<Rightarrow> trace_entry" where
  "error_trace e =
     \<lparr>te_code = ne_rule_code e, te_passed = False,
      te_details = dict_update [(''message'', DMsg (ne_message e))] (ne_details e)\<rparr>"

definition policy_evaluate ::
  "ucd \<Rightarrow> (int \<Rightarrow> int set option) \<Rightarrow> 'p centers_fn \<Rightarrow> AllocationConfig \<Rightarrow>
   StudentLike + NormalizedStudent \<Rightarrow> MentorLike + NormalizedMentor \<Rightarrow> 'p \<Rightarrow>
   (bool \<times> trace_entry list) \<times> 'p" where
  "policy_evaluate U schools get config student mentor p =
     (case rbind (case student of Inr s \<Rightarrow> Inr s | Inl raw \<Rightarrow> normalize_student schools raw) (\<lambda>s.
           rbind (case mentor of Inr m \<Rightarrow> Inr m | Inl raw \<Rightarrow> normalize_mentor U raw) (\<lambda>m.
             Inr (s, m))) of
        Inl e \<Rightarrow> ((False, [error_trace e]), p)
      | Inr (s, m) \<Rightarrow> run_rules get config s m p)"

section \<open>Normalised records\<close>

lemma normalize_text_clean:
  assumes "c \<in> set (normalize_text v)"
  shows "c \<notin> set ZERO_WIDTH_CHARS" and "c \<noteq> 1603" and "c \<noteq> 1610" and "fold_fa_digit c = c"
proof -
  from assms obtain d where d: "d \<notin> set ZERO_WIDTH_CHARS"
    and c: "c = fold_fa_digit (if (if d = 1603 then 1705 else d) = 1610 then 1740
                               else if d = 1603 then 1705 else d)"
    by (auto simp: normalize_text_def remove_chars_def replace_char_def Let_def)
  show "c \<notin> set ZERO_WIDTH_CHARS" and "c \<noteq> 1603" and "c \<noteq> 1610" and "fold_fa_digit c = c"
    using d by (simp_all add: c fold_fa_digit_def ZERO_WIDTH_CHARS_def)
qed

lemma normalize_enum_allowed: "normalize_enum c f allowed v = Inr n \<Longrightarrow> n \<in> set allowed"
  by (auto simp: normalize_enum_def split: option.splits if_splits)

lemma normalize_optional_enum_allowed:
  "normalize_optional_enum c f allowed d v = Inr n \<Longrightarrow> d \<in> set allowed \<Longrightarrow> n \<in> set allowed"
  by (auto simp: normalize_optional_enum_def dest: normalize_enum_allowed split: if_splits)

lemma derive_student_type_range: "derive_student_type schools y c = Some t \<Longrightarrow> t = 0 \<or> t = 1"
  by (auto simp: derive_student_type_def split: option.splits if_splits)

definition student_wf :: "NormalizedStudent \<Rightarrow> bool" where
  "student_wf s \<longleftrightarrow>
     ns_gender s \<in> {0, 1} \<and> ns_group_code s \<noteq> [] \<and> ns_reg_center s \<in> {0, 1, 2} \<and>
     ns_reg_status s \<in> {0, 1, 3} \<and> ns_student_type s \<in> {0, 1}"

definition mentor_wf :: "NormalizedMentor \<Rightarrow> bool" where
  "mentor_wf m \<longleftrightarrow> nm_gender m \<in> {0, 1} \<and> nm_allowed_centers m \<subseteq> {0, 1, 2}"

lemma normalize_student_Inr:
  assumes "normalize_student schools raw = Inr s"
  shows "\<exists>edu provided.
    normalize_enum GENDER_MATCH ''gender'' [0, 1] (sl_gender raw) = Inr (ns_gender s) \<and>
    ns_group_code s = normalize_text (sl_group_code raw) \<and> ns_group_code s \<noteq> [] \<and>
    normalize_enum CENTER_ALLOWED ''reg_center'' [0, 1, 2] (sl_reg_center raw) = Inr (ns_reg_center s) \<and>
    normalize_enum REG_STATUS_ALLOWED ''reg_status'' [0, 1, 3] (sl_reg_status raw)
      = Inr (ns_reg_status s) \<and>
    normalize_int GRADUATE_NOT_TO_SCHOOL ''edu_status'' True (Some 0) (sl_edu_status raw) = Inr edu \<and>
    ns_edu_status s = or_zero edu \<and>
    normalize_int SCHOOL_TYPE_COMPATIBLE ''school_code'' True None (sl_school_code raw)
      = Inr (ns_school_code s) \<and>
    normalize_int SCHOOL_TYPE_COMPATIBLE ''roster_year'' True None (sl_roster_year raw)
      = Inr (ns_roster_year s) \<and>
    normalize_optional_enum SCHOOL_TYPE_COMPATIBLE ''student_type'' [0, 1] 0 (sl_student_type raw)
      = Inr provided \<and>
    ns_student_type s =
      (case derive_student_type schools (ns_roster_year s) (ns_school_code s) of
         None \<Rightarrow> provided | Some t \<Rightarrow> t) \<and>
    ns_warnings s =
      (case derive_student_type schools (ns_roster_year s) (ns_school_code s) of
         None \<Rightarrow> [] | Some t \<Rightarrow> if provided \<noteq> t then [type_mismatch_warning] else [])"
  using assms by (auto simp: normalize_student_def Let_def split: if_split_asm)

lemma normalize_student_wf:
  assumes "normalize_student schools raw = Inr s"
  shows "student_wf s"
proof -
  note n = normalize_student_Inr [OF assms]
  then have "ns_student_type s \<in> {0, 1}"
    using derive_student_type_range
    by (auto dest: normalize_optional_enum_allowed split: option.splits)
  moreover have "ns_gender s \<in> {0, 1}" "ns_reg_center s \<in> {0, 1, 2}" "ns_reg_status s \<in> {0, 1, 3}"
    using n by (auto dest!: normalize_enum_allowed)
  moreover have "ns_group_code s \<noteq> []" using n by blast
  ultimately show ?thesis by (simp add: student_wf_def)
qed

lemma normalize_student_roster:
  assumes "normalize_student schools raw = Inr s"
    and "derive_student_type schools (ns_roster_year s) (ns_school_code s) = Some t"
  shows "ns_student_type s = t"
    and "ns_warnings s \<noteq> [] \<longleftrightarrow>
      normalize_optional_enum SCHOOL_TYPE_COMPATIBLE ''student_type'' [0, 1] 0 (sl_student_type raw)
        \<noteq> Inr t"
  using normalize_student_Inr [OF assms(1)] assms(2) by (auto split: if_split_asm)

lemma rmap_enum_subset:
  "rmap (normalize_enum c f allowed) vs = Inr ns \<Longrightarrow> set ns \<subseteq> set allowed"
  by (auto dest!: rmap_Inr_set normalize_enum_allowed)

lemma normalize_mentor_wf: "normalize_mentor U raw = Inr m \<Longrightarrow> mentor_wf m"
  by (auto simp: normalize_mentor_def mentor_wf_def Let_def
      dest!: normalize_enum_allowed rmap_enum_subset split: option.splits) blast+

section \<open>The verdict and the trace\<close>

lemma run_rules_loop_passed:
  "ManagerCenterGateRule \<notin> set rules \<Longrightarrow>
     fst (run_rules_loop get ff s m (rules @ [ManagerCenterGateRule]) p) \<longleftrightarrow>
     (\<forall>r \<in> set (rules @ [ManagerCenterGateRule]). rule_holds (\<lambda>k. fst (get p k)) s m r)"
proof (induction rules)
  case Nil
  show ?case
    using rule_passed [of get ManagerCenterGateRule s m p]
    by (cases "manager_gate_check get s m p") (auto simp: Let_def)
next
  case (Cons r rules)
  then have r: "r \<noteq> ManagerCenterGateRule" by auto
  then obtain res where check: "rule_check get r s m p = (res, p)"
    and passed: "rr_passed res = rule_holds (\<lambda>k. fst (get p k)) s m r"
    using pure_rule_passed [OF r, of get s m p "\<lambda>k. fst (get p k)"]
    by (cases "rule_check get r s m p") auto
  obtain ok tr p2 where rest:
    "run_rules_loop get ff s m (rules @ [ManagerCenterGateRule]) p = (ok, tr, p2)"
    by (rule prod_cases3)
  have "ok = (\<forall>r \<in> set (rules @ [ManagerCenterGateRule]). rule_holds (\<lambda>k. fst (get p k)) s m r)"
    using Cons rest by simp
  then show ?case using passed by (simp add: check rest Let_def)
qed

lemma run_rules_verdict:
  "fst (fst (run_rules get config s m p)) = eligible (\<lambda>k. fst (get p k)) s m"
proof -
  have "fst (run_rules_loop get (fast_fail config) s m policy_rules p) =
        eligible (\<lambda>k. fst (get p k)) s m"
    unfolding policy_rules_def eligible_iff_rules
    by (rule run_rules_loop_passed) (simp add: ALL_RULES_def)
  then show ?thesis by (auto simp: run_rules_def Let_def split: prod.splits)
qed

text \<open>
  The trace follows the rules in order; without early exit it has one entry for each rule,
  with early exit it ends at the first rule that fails.
\<close>

lemma run_rules_loop_trace:
  "run_rules_loop get ff s m rules p = (ok, trace, p') \<Longrightarrow>
     (\<exists>n \<le> length rules. map te_code trace = map rule_code_of (take n rules) \<and>
        (ok \<or> \<not> ff \<longrightarrow> n = length rules)) \<and>
     ok = list_all te_passed trace \<and>
     (ff \<and> \<not> ok \<longrightarrow> list_all te_passed (butlast trace) \<and> \<not> te_passed (last trace))"
proof (induction rules arbitrary: p ok trace p')
  case Nil
  then show ?case by auto
next
  case (Cons r rules)
  obtain res p1 where res: "rule_check get r s m p = (res, p1)" by (cases "rule_check get r s m p")
  obtain ok2 tr2 p2 where rest: "run_rules_loop get ff s m rules p1 = (ok2, tr2, p2)"
    by (cases "run_rules_loop get ff s m rules p1") auto
  note IH = Cons.IH [OF rest]
  show ?case
  proof (cases "\<not> rr_passed res \<and> ff")
    case True
    then have "ok = False" "map te_code trace = map rule_code_of (take 1 (r # rules))"
      "list_all te_passed (butlast trace)" "\<not> te_passed (last trace)" "trace \<noteq> []"
      using Cons.prems by (auto simp: res Let_def)
    then show ?thesis using True by (cases trace) (auto intro!: exI [of _ "1::nat"])
  next
    case False
    then have "run_rules_loop get ff s m (r # rules) p =
      (rr_passed res \<and> ok2, \<lparr>te_code = rule_code_of r, te_passed = rr_passed res,
                te_details = rr_details res\<rparr> # tr2, p2)"
      using rest by (auto simp: res Let_def)
    then have eqs: "ok = (rr_passed res \<and> ok2)"
      "trace = \<lparr>te_code = rule_code_of r, te_passed = rr_passed res,
                te_details = rr_details res\<rparr> # tr2"
      using Cons.prems by simp_all
    from IH obtain n where "n \<le> length rules"
      "map te_code tr2 = map rule_code_of (take n rules)" "ok2 \<or> \<not> ff \<longrightarrow> n = length rules" by blast
    then show ?thesis using False IH eqs by (intro conjI exI [of _ "Suc n"]) auto
  qed
qed

lemma run_rules_full_trace:
  assumes "\<not> fast_fail config" and "trace_limit_rejected config = None"
  shows "map te_code (snd (fst (run_rules get config s m p))) = map rule_code_of policy_rules"
  using assms run_rules_loop_trace [of get False s m policy_rules p]
  by (fastforce simp: run_rules_def Let_def split: prod.splits)

context centers_provider
begin

lemma loop_ok: "ok p \<Longrightarrow> ok (snd (snd (run_rules_loop get ff s m rules p)))"
proof (induction rules arbitrary: p)
  case (Cons r rules)
  obtain res p1 where "rule_check get r s m p = (res, p1)" by (cases "rule_check get r s m p")
  moreover have "ok p1" using rule_check_ok [OF Cons.prems, of r s m] calculation by simp
  ultimately show ?case using Cons.IH [of p1] by (auto simp: Let_def split: prod.splits)
qed simp

lemma run_rules_ok: "ok p \<Longrightarrow> ok (snd (run_rules get config s m p))"
  using loop_ok [of p "fast_fail config" s m policy_rules]
  by (auto simp: run_rules_def split: prod.splits)

lemma verdict_view: "ok p \<Longrightarrow> fst (fst (run_rules get config s m p)) = eligible view s m"
  by (simp add: run_rules_verdict view_fun)

end

section \<open>Properties\<close>

text \<open>
  A student that normalises is well-formed (gender, center,
  registration status and type in their ranges, a group code that is not empty and holds no
  zero-width character, Arabic letter or non-ASCII Persian digit), and where the roster of its
  year is known and a school code is given, the type is the roster's, whatever the record said,
  with a warning exactly when the record disagreed.
\<close>

theorem normalized_student_sound:
  assumes "normalize_student schools raw = Inr s"
  shows "student_wf s \<and>
    (\<forall>c. c \<in> set (ns_group_code s) \<longrightarrow>
       c \<notin> set ZERO_WIDTH_CHARS \<and> c \<noteq> 1603 \<and> c \<noteq> 1610 \<and> fold_fa_digit c = c) \<and>
    (\<forall>y code roster. ns_roster_year s = Some y \<and> ns_school_code s = Some code \<and>
       schools y = Some roster \<longrightarrow>
         ns_student_type s = (if code \<in> roster then 1 else 0) \<and>
         (ns_warnings s = [] \<longleftrightarrow>
            normalize_optional_enum SCHOOL_TYPE_COMPATIBLE ''student_type'' [0, 1] 0
              (sl_student_type raw) = Inr (ns_student_type s)))"
proof (intro conjI allI impI)
  show "student_wf s" by (rule normalize_student_wf [OF assms])
next
  fix c assume "c \<in> set (ns_group_code s)"
  moreover have "ns_group_code s = normalize_text (sl_group_code raw)"
    using normalize_student_Inr [OF assms] by blast
  ultimately show "c \<notin> set ZERO_WIDTH_CHARS" "c \<noteq> 1603" "c \<noteq> 1610" "fold_fa_digit c = c"
    using normalize_text_clean by metis+
next
  fix y code roster
  assume a: "ns_roster_year s = Some y \<and> ns_school_code s = Some code \<and> schools y = Some roster"
  then have d: "derive_student_type schools (ns_roster_year s) (ns_school_code s)
                  = Some (if code \<in> roster then 1 else 0)"
    by (simp add: derive_student_type_def)
  show t: "ns_student_type s = (if code \<in> roster then 1 else 0)"
    by (rule normalize_student_roster(1) [OF assms d])
  show "ns_warnings s = [] \<longleftrightarrow>
     normalize_optional_enum SCHOOL_TYPE_COMPATIBLE ''student_type'' [0, 1] 0
       (sl_student_type raw) = Inr (ns_student_type s)"
    using normalize_student_roster(2) [OF assms d] unfolding t by blast
qed

definition sample_student :: StudentLike where
  "sample_student =
     \<lparr>sl_gender = PInt 1, sl_group_code = PStr [32, 1776, 1780, 8204], sl_reg_center = PStr [1777],
      sl_reg_status = PInt 3, sl_edu_status = PNone, sl_school_code = PStr (asc ''283''),
      sl_student_type = PInt 0, sl_roster_year = PInt 1402\<rparr>"

definition sample_schools :: "int \<Rightarrow> int set option" where
  "sample_schools y = (if y = 1402 then Some {283} else None)"

lemma sample_student_normalizes:
  "normalize_student sample_schools sample_student = Inr
     \<lparr>ns_gender = 1, ns_group_code = asc ''04'', ns_reg_center = 1, ns_reg_status = 3,
      ns_edu_status = 0, ns_school_code = Some 283, ns_student_type = 1,
      ns_roster_year = Some 1402, ns_warnings = [type_mismatch_warning]\<rparr>"
  by code_simp

theorem normalized_student_sound_witness:
  "\<exists>s. normalize_student sample_schools sample_student = Inr s \<and> student_wf s \<and>
       ns_student_type s = 1 \<and> ns_warnings s \<noteq> []"
proof -
  note w = normalized_student_sound [OF sample_student_normalizes]
  show ?thesis
    by (intro exI conjI, rule sample_student_normalizes, rule conjunct1 [OF w])
      (simp_all add: type_mismatch_warning_def asc_def)
qed

text \<open>
  C2 policy_verdict_and_trace: For normalised inputs the verdict is the specification
  \<open>eligible\<close>, for any provider and whatever early exit or trace limit is configured; with the
  default configuration the trace has exactly one entry for each of the eight rules in order.
\<close>

theorem policy_verdict_and_trace:
  "fst (fst (policy_evaluate U schools get config (Inr s) (Inr m) p))
     = eligible (\<lambda>k. fst (get p k)) s m \<and>
   map te_code (snd (fst (policy_evaluate U schools get default_config (Inr s) (Inr m) p))) =
     [GENDER_MATCH, GROUP_ALLOWED, CENTER_ALLOWED, REG_STATUS_ALLOWED, CAPACITY_AVAILABLE,
      SCHOOL_TYPE_COMPATIBLE, GRADUATE_NOT_TO_SCHOOL, MANAGER_CENTER_GATE]"
  using run_rules_full_trace [of default_config get s m p]
  by (simp add: policy_evaluate_def run_rules_verdict default_config_def policy_rules_def
      ALL_RULES_def)

text \<open>
  With early exit, no trace limit and a verdict of not eligible, the
  trace is the passing entries of a proper prefix of the rules followed by the one entry that
  failed, and that entry carries a message; nothing after it was run.
\<close>

theorem early_exit_trace:
  assumes "fast_fail config" and "trace_limit_rejected config = None"
    and "\<not> eligible (\<lambda>k. fst (get p k)) s m"
  shows "\<exists>n < length policy_rules.
    map te_code (snd (fst (run_rules get config s m p))) = map rule_code_of (take (Suc n) policy_rules) \<and>
    (\<forall>i < n. te_passed (snd (fst (run_rules get config s m p)) ! i)) \<and>
    \<not> te_passed (snd (fst (run_rules get config s m p)) ! n)"
proof -
  obtain ok tr p' where loop: "run_rules_loop get True s m policy_rules p = (ok, tr, p')"
    by (rule prod_cases3)
  have run: "fst (run_rules get config s m p) = (ok, tr)"
    using loop assms(1,2) by (simp add: run_rules_def)
  then have "\<not> ok" using run_rules_verdict [of get config s m p] assms(3) by simp
  then obtain n where n: "n \<le> length policy_rules" "map te_code tr = map rule_code_of (take n policy_rules)"
    and b: "list_all te_passed (butlast tr)" "\<not> te_passed (last tr)"
    and ne: "\<not> list_all te_passed tr"
    using run_rules_loop_trace [OF loop] by auto
  then have "tr \<noteq> []" by auto
  moreover have "length tr = n" using n by (metis length_map length_take min.absorb2)
  ultimately obtain k where k: "n = Suc k" "length tr = Suc k" by (cases n) auto
  have "te_passed (tr ! i)" if "i < k" for i
    using b(1) that k by (auto simp: list_all_length nth_butlast)
  moreover have "\<not> te_passed (tr ! k)" using b(2) k \<open>tr \<noteq> []\<close> by (simp add: last_conv_nth)
  ultimately show ?thesis using n k run by (intro exI [of _ k]) auto
qed

definition sample_mentor :: NormalizedMentor where
  "sample_mentor =
     \<lparr>nm_mentor_id = 7, nm_gender = 1, nm_allowed_groups = {asc ''04''}, nm_allowed_centers = {1},
      nm_capacity = 5, nm_current_load = 2, nm_is_active = True, nm_mentor_type = SCHOOL,
      nm_special_schools = {283}, nm_manager_id = Some 9\<rparr>"

definition sample_normalized :: NormalizedStudent where
  "sample_normalized =
     \<lparr>ns_gender = 1, ns_group_code = asc ''04'', ns_reg_center = 2, ns_reg_status = 3,
      ns_edu_status = 1, ns_school_code = Some 283, ns_student_type = 1,
      ns_roster_year = Some 1402, ns_warnings = []\<rparr>"

lemma sample_not_eligible: "\<not> eligible (\<lambda>k. None) sample_normalized sample_mentor"
  by (simp add: eligible_def sample_normalized_def sample_mentor_def)

theorem early_exit_trace_witness:
  "\<exists>n. map te_code (snd (fst (run_rules (\<lambda>p k. (None, p)) \<lparr>fast_fail = True, trace_limit_rejected = None\<rparr>
           sample_normalized sample_mentor ()))) = map rule_code_of (take (Suc n) policy_rules)"
  using early_exit_trace [of "\<lparr>fast_fail = True, trace_limit_rejected = None\<rparr>" "\<lambda>p k. (None, p)" "()"
      sample_normalized sample_mentor] sample_not_eligible by auto

end
