(* ===== verification/PyFloat.thy ===== *)
theory PyFloat
  imports PyBase Complex_Main "HOL-Library.Log_Nat"
begin

text \<open>
  Python floats. A finite double is the rational it denotes; every operation is the exact
  one followed by \<open>fl\<close>, rounding to a 53 bit significand, nearest with ties to even, as
  IEEE 754 and CPython's \<^verbatim>\<open>int / int\<close> do. The exponent range is unbounded: overflow to
  infinity and subnormal results, which need operands beyond $2^{1000}$, are not modelled.
  \<open>fl\<close> is monotone and exact on integers below $2^{53}$.
\<close>

type_synonym pyfloat = rat

definition round_half_even :: "rat \<Rightarrow> int" where
  "round_half_even x =
     (let f = \<lfloor>x\<rfloor>; d = x - of_int f
      in if d < 1 / 2 then f else if 1 / 2 < d then f + 1 else if even f then f else f + 1)"

definition pow2 :: "int \<Rightarrow> rat" where
  "pow2 e = (if 0 \<le> e then 2 ^ nat e else 1 / 2 ^ nat (- e))"

text \<open>The exponent of the leading bit of a positive rational.\<close>

definition ilog2 :: "rat \<Rightarrow> int" where
  "ilog2 x =
     (let (p, q) = quotient_of x; k = bitlen p - bitlen q
      in if pow2 k \<le> x then k else k - 1)"

definition fl :: "rat \<Rightarrow> pyfloat" where
  "fl x =
     (if x = 0 then 0
      else let u = pow2 (ilog2 \<bar>x\<bar> - 52) in of_int (round_half_even (x / u)) * u)"

definition fdiv :: "rat \<Rightarrow> rat \<Rightarrow> pyfloat" where
  "fdiv x y = fl (x / y)"

definition fadd :: "pyfloat \<Rightarrow> pyfloat \<Rightarrow> pyfloat" where
  "fadd x y = fl (x + y)"

definition fmul :: "pyfloat \<Rightarrow> pyfloat \<Rightarrow> pyfloat" where
  "fmul x y = fl (x * y)"

definition fsub :: "pyfloat \<Rightarrow> pyfloat \<Rightarrow> pyfloat" where
  "fsub x y = fl (x - y)"

section \<open>Powers of two and the leading bit\<close>

lemma pow2_pos [simp]: "0 < pow2 e"
  by (simp add: pow2_def)

lemma pow2_add: "pow2 (a + b) = pow2 a * pow2 b"
proof -
  have "pow2 e = (2::rat) powi e" for e
    by (cases "0 \<le> e") (simp_all add: pow2_def power_int_def power_one_over inverse_eq_divide)
  then show ?thesis by (simp add: power_int_add)
qed

lemma pow2_of_nat: "pow2 (int n) = 2 ^ n"
  by (simp add: pow2_def)

lemma pow2_mono: "a \<le> b \<Longrightarrow> pow2 a \<le> pow2 b"
proof -
  assume "a \<le> b"
  then obtain n where "b = a + int n" using zle_iff_zadd by blast
  then have "pow2 b = pow2 a * 2 ^ n" by (simp add: pow2_add pow2_of_nat)
  moreover have "pow2 a * 1 \<le> pow2 a * 2 ^ n"
    by (intro mult_left_mono) (auto simp: less_imp_le)
  ultimately show ?thesis by simp
qed

lemma pow2_less_imp: "pow2 a < pow2 b \<Longrightarrow> a < b"
  using pow2_mono [of b a] by linarith

lemma bitlen_pow2_bounds: "0 < p \<Longrightarrow> pow2 (bitlen p - 1) \<le> of_int p \<and> of_int p < pow2 (bitlen p)"
proof -
  assume p: "0 < p"
  have b: "2 ^ nat (bitlen p - 1) \<le> p" "p < 2 ^ nat (bitlen p)"
    using p bitlen_bounds [of p] by auto
  have pos: "0 < bitlen p" using p bitlen_ge_iff_power [of 1 p] by simp
  have "of_int (2 ^ nat (bitlen p - 1)) \<le> (of_int p :: rat)"
    and "(of_int p :: rat) < of_int (2 ^ nat (bitlen p))"
    using b by (simp_all only: of_int_le_iff of_int_less_iff)
  then show ?thesis using pos by (simp add: pow2_def)
qed

lemma ilog2_bounds:
  assumes "0 < x"
  shows "pow2 (ilog2 x) \<le> x" and "x < pow2 (ilog2 x + 1)"
proof -
  obtain p q where pq: "quotient_of x = (p, q)" by (cases "quotient_of x")
  have q: "0 < q" using quotient_of_denom_pos [OF pq] .
  have x: "x = of_int p / of_int q" using quotient_of_div [OF pq] .
  have p: "0 < p" using assms x q by (simp add: zero_less_divide_iff)
  let ?k = "bitlen p - bitlen q"
  note P = bitlen_pow2_bounds [OF p] and Q = bitlen_pow2_bounds [OF q]
  have e: "pow2 (bitlen p) = pow2 (?k + 1) * pow2 (bitlen q - 1)"
    and e': "pow2 (bitlen p - 1) = pow2 (?k - 1) * pow2 (bitlen q)"
    by (simp_all flip: pow2_add)
  have "of_int p < pow2 (?k + 1) * of_int q"
    using P Q e by (metis less_le_trans mult_le_cancel_left_pos pow2_pos)
  then have up: "x < pow2 (?k + 1)" using q by (simp add: x divide_less_eq)
  have "pow2 (?k - 1) * of_int q \<le> of_int p"
    using P Q e' by (metis less_imp_le mult_le_cancel_left_pos order_trans pow2_pos)
  then have low: "pow2 (?k - 1) \<le> x" using q by (simp add: x le_divide_eq)
  show "pow2 (ilog2 x) \<le> x" and "x < pow2 (ilog2 x + 1)"
    using up low by (auto simp: ilog2_def pq Let_def)
qed

lemma ilog2_mono: "0 < x \<Longrightarrow> x \<le> y \<Longrightarrow> ilog2 x \<le> ilog2 y"
  using ilog2_bounds [of x] ilog2_bounds [of y] pow2_less_imp [of "ilog2 x" "ilog2 y + 1"]
  by linarith

section \<open>Rounding is monotone\<close>

lemma round_half_even_mono: "x \<le> y \<Longrightarrow> round_half_even x \<le> round_half_even y"
proof -
  assume xy: "x \<le> y"
  have fl: "\<lfloor>x\<rfloor> \<le> \<lfloor>y\<rfloor>" using xy by (rule floor_mono)
  show ?thesis
  proof (cases "\<lfloor>x\<rfloor> = \<lfloor>y\<rfloor>")
    case True
    then show ?thesis using xy by (auto simp: round_half_even_def Let_def)
  next
    case False
    then have "\<lfloor>x\<rfloor> + 1 \<le> \<lfloor>y\<rfloor>" using fl by simp
    moreover have "round_half_even x \<le> \<lfloor>x\<rfloor> + 1" "\<lfloor>y\<rfloor> \<le> round_half_even y"
      by (auto simp: round_half_even_def Let_def)
    ultimately show ?thesis by simp
  qed
qed

lemma round_half_even_int [simp]: "round_half_even (of_int n) = n"
  by (simp add: round_half_even_def)

lemma round_half_even_neg: "round_half_even (- x) = - round_half_even x"
proof (cases "x = of_int \<lfloor>x\<rfloor>")
  case True
  then obtain n where "x = of_int n" by blast
  then show ?thesis using round_half_even_int [of "- n"] by simp
next
  case False
  have "\<lfloor>- x\<rfloor> = - \<lfloor>x\<rfloor> - 1"
    using False by (intro floor_unique) linarith+
  then show ?thesis using False by (auto simp: round_half_even_def Let_def)
qed

lemma fl_0 [simp]: "fl 0 = 0"
  by (simp add: fl_def)

lemma fl_neg: "fl (- x) = - fl x"
  by (simp add: fl_def Let_def round_half_even_neg)

lemma fl_le_pow2:
  assumes "0 < x"
  shows "fl x \<le> pow2 (ilog2 x + 1)" and "pow2 (ilog2 x) \<le> fl x"
proof -
  let ?u = "pow2 (ilog2 x - 52)"
  have u: "0 < ?u" by simp
  have "pow2 (53 + (ilog2 x - 52)) = pow2 53 * ?u" "pow2 (52 + (ilog2 x - 52)) = pow2 52 * ?u"
    by (rule pow2_add)+
  then have s: "pow2 (ilog2 x + 1) = of_int (2 ^ 53) * ?u" "pow2 (ilog2 x) = of_int (2 ^ 52) * ?u"
    using pow2_of_nat [of 53] pow2_of_nat [of 52] by (simp_all add: algebra_simps)
  have f: "fl x = of_int (round_half_even (x / ?u)) * ?u" using assms by (simp add: fl_def Let_def)
  have "x / ?u \<le> of_int (2 ^ 53)" "of_int (2 ^ 52) \<le> x / ?u"
    using ilog2_bounds [OF assms] s u by (simp_all add: divide_le_eq le_divide_eq)
  then have "round_half_even (x / ?u) \<le> 2 ^ 53" "2 ^ 52 \<le> round_half_even (x / ?u)"
    using round_half_even_mono [of "x / ?u" "of_int (2 ^ 53)"]
      round_half_even_mono [of "of_int (2 ^ 52)" "x / ?u"]
    by (simp_all only: round_half_even_int)
  then show "fl x \<le> pow2 (ilog2 x + 1)" and "pow2 (ilog2 x) \<le> fl x"
    unfolding f s using u by (simp_all only: mult_le_cancel_right_pos of_int_le_iff)
qed

lemma fl_pos: "0 < x \<Longrightarrow> 0 < fl x"
  using fl_le_pow2(2) [of x] pow2_pos [of "ilog2 x"] by linarith

lemma fl_mono_pos:
  assumes "0 < x" and "x \<le> y"
  shows "fl x \<le> fl y"
proof (cases "ilog2 x = ilog2 y")
  case True
  let ?u = "pow2 (ilog2 y - 52)"
  have "round_half_even (x / ?u) \<le> round_half_even (y / ?u)"
    using assms by (intro round_half_even_mono divide_right_mono) (auto simp: less_imp_le)
  then show ?thesis
    using assms True by (simp add: fl_def Let_def mult_right_mono less_imp_le)
next
  case False
  then have "ilog2 x + 1 \<le> ilog2 y" using ilog2_mono [OF assms] by simp
  then have "pow2 (ilog2 x + 1) \<le> pow2 (ilog2 y)" by (rule pow2_mono)
  then show ?thesis using fl_le_pow2(1) [of x] fl_le_pow2(2) [of y] assms by linarith
qed

lemma fl_mono: "x \<le> y \<Longrightarrow> fl x \<le> fl y"
proof -
  assume xy: "x \<le> y"
  consider "0 < x" | "x \<le> 0" "0 \<le> y" | "y < 0" by linarith
  then show ?thesis
  proof cases
    case 1
    then show ?thesis using xy by (rule fl_mono_pos)
  next
    case 2
    have "fl x \<le> 0" using 2 fl_pos [of "- x"] by (cases "x = 0") (auto simp: fl_neg)
    moreover have "0 \<le> fl y" using 2 fl_pos [of y] by (cases "y = 0") auto
    ultimately show ?thesis by simp
  next
    case 3
    then show ?thesis using xy fl_mono_pos [of "- y" "- x"] by (simp add: fl_neg)
  qed
qed

lemma fl_nonneg: "0 \<le> x \<Longrightarrow> 0 \<le> fl x"
  using fl_mono [of 0 x] by simp

lemma fdiv_mono: "a / b \<le> c / d \<Longrightarrow> fdiv a b \<le> fdiv c d"
  by (simp add: fdiv_def fl_mono)

lemma fl_third: "fl (1 / 3) = 6004799503160661 / 18014398509481984"
  by code_simp

end
