(* ===== verification/Alloc_Engine.thy ===== *)
theory Alloc_Engine
  imports Alloc_Policy PyFloat
begin

text \<open>
  \<^verbatim>\<open>phase3_allocation/engine.py\<close>: \<^verbatim>\<open>AllocationEngine.evaluate\<close> normalises the student, then
  each mentor in order, runs the policy and returns the passing mentor with the least
  (occupancy ratio, load, id), with one trace entry for each mentor. The counters of the
  optional observer are not modelled.
\<close>

type_synonym ranking_key = "pyfloat \<times> int \<times> int"

record AllocationTraceEntry =
  at_mentor :: "MentorLike option"
  at_normalized :: "NormalizedMentor option"
  at_passed :: bool
  at_trace :: "trace_entry list"
  at_ranking_key :: "ranking_key option"

definition compute_occupancy_ratio :: "NormalizedMentor \<Rightarrow> pyfloat" where
  "compute_occupancy_ratio m =
     (if nm_capacity m \<le> 0 then 1
      else fdiv (of_int (nm_current_load m)) (of_int (nm_capacity m)))"

definition ranking_key_of :: "NormalizedMentor \<Rightarrow> ranking_key" where
  "ranking_key_of m = (compute_occupancy_ratio m, nm_current_load m, nm_mentor_id m)"

definition evaluate_mentor ::
  "ucd \<Rightarrow> 'p centers_fn \<Rightarrow> AllocationConfig \<Rightarrow> NormalizedStudent \<Rightarrow> MentorLike \<Rightarrow> 'p \<Rightarrow>
   AllocationTraceEntry \<times> 'p" where
  "evaluate_mentor U get config s mentor p =
     (case normalize_mentor U mentor of
        Inl e \<Rightarrow>
          (\<lparr>at_mentor = Some mentor, at_normalized = None, at_passed = False,
            at_trace = [error_trace e], at_ranking_key = None\<rparr>, p)
      | Inr nm \<Rightarrow>
          (let ((passed, trace), p') = run_rules get config s nm p
           in (\<lparr>at_mentor = Some mentor, at_normalized = Some nm, at_passed = passed,
                at_trace = trace,
                at_ranking_key = (if passed then Some (ranking_key_of nm) else None)\<rparr>, p')))"

fun evaluate_mentors ::
  "ucd \<Rightarrow> 'p centers_fn \<Rightarrow> AllocationConfig \<Rightarrow> NormalizedStudent \<Rightarrow> MentorLike list \<Rightarrow> 'p \<Rightarrow>
   AllocationTraceEntry list \<times> 'p" where
  "evaluate_mentors U get config s [] p = ([], p)"
| "evaluate_mentors U get config s (mentor # mentors) p =
     (let (entry, p1) = evaluate_mentor U get config s mentor p;
          (entries, p2) = evaluate_mentors U get config s mentors p1
      in (entry # entries, p2))"

definition passed_candidates ::
  "AllocationTraceEntry list \<Rightarrow> (ranking_key \<times> AllocationTraceEntry) list" where
  "passed_candidates entries =
     concat (map (\<lambda>e. case at_ranking_key e of None \<Rightarrow> [] | Some k \<Rightarrow> [(k, e)]) entries)"

definition best_entry :: "AllocationTraceEntry list \<Rightarrow> AllocationTraceEntry option" where
  "best_entry entries =
     (case sort_key fst (passed_candidates entries) of [] \<Rightarrow> None | c # _ \<Rightarrow> Some (snd c))"

definition engine_evaluate ::
  "ucd \<Rightarrow> (int \<Rightarrow> int set option) \<Rightarrow> 'p centers_fn \<Rightarrow> AllocationConfig \<Rightarrow> StudentLike \<Rightarrow>
   MentorLike list \<Rightarrow> 'p \<Rightarrow> (MentorLike option \<times> AllocationTraceEntry list) \<times> 'p" where
  "engine_evaluate U schools get config student mentors p =
     (case normalize_student schools student of
        Inl e \<Rightarrow>
          ((None, [\<lparr>at_mentor = None, at_normalized = None, at_passed = False,
                    at_trace = [error_trace e], at_ranking_key = None\<rparr>]), p)
      | Inr s \<Rightarrow>
          (let (entries, p') = evaluate_mentors U get config s mentors p
           in ((Option.bind (best_entry entries) at_mentor, entries), p')))"

section \<open>The chosen mentor\<close>

lemma evaluate_mentors_mentors:
  "map at_mentor (fst (evaluate_mentors U get config s mentors p)) = map Some mentors"
proof (induction mentors arbitrary: p)
  case (Cons m ms)
  obtain e q where e: "evaluate_mentor U get config s m p = (e, q)" by fastforce
  obtain es q2 where es: "evaluate_mentors U get config s ms q = (es, q2)" by fastforce
  have "at_mentor e = Some m"
    using e by (auto simp: evaluate_mentor_def split: sum.splits prod.splits)
  then show ?case using Cons.IH [of q] e es by simp
qed simp

lemma passed_candidates_set:
  "(k, e) \<in> set (passed_candidates es) \<longleftrightarrow> e \<in> set es \<and> at_ranking_key e = Some k"
proof -
  have "(k, e) \<in> set (case at_ranking_key e' of None \<Rightarrow> [] | Some k' \<Rightarrow> [(k', e')]) \<longleftrightarrow>
        e = e' \<and> at_ranking_key e' = Some k" for e'
    by (cases "at_ranking_key e'") auto
  then show ?thesis unfolding passed_candidates_def by auto
qed

lemma best_entry_None: "best_entry es = None \<longleftrightarrow> (\<forall>e \<in> set es. at_ranking_key e = None)"
proof -
  have "best_entry es = None \<longleftrightarrow> passed_candidates es = []"
    using set_sort [of fst "passed_candidates es"]
    by (cases "sort_key fst (passed_candidates es)") (auto simp: best_entry_def)
  also have "\<dots> \<longleftrightarrow> (\<forall>k e. (k, e) \<notin> set (passed_candidates es))"
    by (metis list.set_intros(1) list.set(1) empty_iff neq_Nil_conv surj_pair)
  also have "\<dots> \<longleftrightarrow> (\<forall>e \<in> set es. at_ranking_key e = None)"
    unfolding passed_candidates_set by (metis not_Some_eq)
  finally show ?thesis .
qed

lemma best_entry_Some:
  assumes "best_entry es = Some e"
  obtains k where "e \<in> set es" "at_ranking_key e = Some k"
    "\<And>e' k'. e' \<in> set es \<Longrightarrow> at_ranking_key e' = Some k' \<Longrightarrow> k \<le> k'"
proof -
  let ?c = "passed_candidates es"
  have ne: "?c \<noteq> []" using assms by (auto simp: best_entry_def)
  then have e: "e = snd (hd (sort_key fst ?c))"
    using assms by (auto simp: best_entry_def split: list.splits)
  obtain k where h: "hd (sort_key fst ?c) = (k, e)" using e by (metis prod.collapse)
  have "(k, e) \<in> set ?c" using hd_sort_key_in [OF ne, of fst] h by simp
  moreover have "k \<le> k'" if "e' \<in> set es" "at_ranking_key e' = Some k'" for e' k'
    using hd_sort_key_min [OF ne, of "(k', e')" fst] that h by (simp add: passed_candidates_set)
  ultimately show ?thesis using that by (auto simp: passed_candidates_set)
qed

context centers_provider
begin

text \<open>An entry records whether its mentor normalises and is eligible for the provider's view.\<close>

definition entry_for :: "ucd \<Rightarrow> NormalizedStudent \<Rightarrow> MentorLike \<Rightarrow> AllocationTraceEntry \<Rightarrow> bool" where
  "entry_for U s raw e \<longleftrightarrow>
     at_mentor e = Some raw \<and>
     at_ranking_key e =
       (case normalize_mentor U raw of
          Inl _ \<Rightarrow> None
        | Inr nm \<Rightarrow> if eligible view s nm then Some (ranking_key_of nm) else None)"

lemma evaluate_mentor_entry:
  assumes "ok p" and "evaluate_mentor U get config s raw p = (e, p')"
  shows "entry_for U s raw e" and "ok p'"
proof -
  have "entry_for U s raw e \<and> ok p'"
  proof (cases "normalize_mentor U raw")
    case (Inr nm)
    obtain passed trace q where rr: "run_rules get config s nm p = ((passed, trace), q)"
      by (metis prod.collapse)
    then have "passed = eligible view s nm" "ok q"
      using verdict_view [OF assms(1), of config s nm] run_rules_ok [OF assms(1), of config s nm]
      by simp_all
    then show ?thesis using assms(2) Inr rr by (auto simp: evaluate_mentor_def entry_for_def)
  qed (use assms in \<open>auto simp: evaluate_mentor_def entry_for_def\<close>)
  then show "entry_for U s raw e" and "ok p'" by auto
qed

lemma evaluate_mentors_entries:
  "ok p \<Longrightarrow> evaluate_mentors U get config s raws p = (es, p') \<Longrightarrow>
     list_all2 (entry_for U s) raws es \<and> ok p'"
proof (induction raws arbitrary: p es)
  case (Cons raw raws)
  obtain e q where "evaluate_mentor U get config s raw p = (e, q)" by fastforce
  moreover obtain es2 q2 where "evaluate_mentors U get config s raws q = (es2, q2)" by fastforce
  ultimately show ?case
    using Cons.prems Cons.IH [of q es2] evaluate_mentor_entry [OF Cons.prems(1), of U config s raw e q]
    by auto
qed simp

definition candidate :: "ucd \<Rightarrow> NormalizedStudent \<Rightarrow> MentorLike list \<Rightarrow> MentorLike \<Rightarrow> NormalizedMentor \<Rightarrow> bool" where
  "candidate U s raws raw nm \<longleftrightarrow>
     raw \<in> set raws \<and> normalize_mentor U raw = Inr nm \<and> eligible view s nm"

lemma entry_for_key:
  assumes "entry_for U s raw e"
  shows "at_mentor e = Some raw" and
    "at_ranking_key e = Some k \<longleftrightarrow>
       (\<exists>nm. normalize_mentor U raw = Inr nm \<and> eligible view s nm \<and> k = ranking_key_of nm)"
  using assms by (cases "normalize_mentor U raw"; auto simp: entry_for_def)+

lemma entries_candidates:
  "list_all2 (entry_for U s) raws es \<Longrightarrow>
     (\<exists>e \<in> set es. at_mentor e = Some raw \<and> at_ranking_key e = Some k) \<longleftrightarrow>
     (\<exists>nm. candidate U s raws raw nm \<and> k = ranking_key_of nm)"
proof (induction rule: list_all2_induct)
  case (Cons x xs e es)
  let ?P = "\<lambda>e. at_mentor e = Some raw \<and> at_ranking_key e = Some k"
  have "(\<exists>e' \<in> set (e # es). ?P e') \<longleftrightarrow> ?P e \<or> (\<exists>e' \<in> set es. ?P e')" by simp
  also have "?P e \<longleftrightarrow> x = raw \<and> (\<exists>nm. normalize_mentor U raw = Inr nm \<and> eligible view s nm \<and>
                                     k = ranking_key_of nm)"
    using entry_for_key(1) [OF Cons.hyps(1)] entry_for_key(2) [OF Cons.hyps(1), of k] by auto
  also have "(\<exists>e' \<in> set es. ?P e') \<longleftrightarrow> (\<exists>nm. candidate U s xs raw nm \<and> k = ranking_key_of nm)"
    using Cons.IH .
  finally show ?case by (auto simp: candidate_def)
qed (simp add: candidate_def)

lemma entries_mentor: "list_all2 (entry_for U s) raws es \<Longrightarrow> e \<in> set es \<Longrightarrow> \<exists>raw. at_mentor e = Some raw"
  by (induction rule: list_all2_induct) (auto simp: entry_for_def)

lemma engine_selection:
  assumes "ok p" and "normalize_student schools student = Inr s"
    and "engine_evaluate U schools get config student raws p = ((best, es), p')"
  shows "best = None \<longleftrightarrow> (\<nexists>raw nm. candidate U s raws raw nm)"
    and "best = Some b \<Longrightarrow> \<exists>nm. candidate U s raws b nm \<and>
           (\<forall>raw nm'. candidate U s raws raw nm' \<longrightarrow> ranking_key_of nm \<le> ranking_key_of nm')"
    and "map at_mentor es = map Some raws" and "ok p'"
proof -
  obtain q where ev: "evaluate_mentors U get config s raws p = (es, q)"
    and best: "best = Option.bind (best_entry es) at_mentor" and q: "q = p'"
    using assms(2,3) by (auto simp: engine_evaluate_def split: prod.splits)
  note ent = evaluate_mentors_entries [OF assms(1) ev]
  then show "ok p'" using q by simp
  show "map at_mentor es = map Some raws" using evaluate_mentors_mentors ev by (metis fst_conv)
  note cand = entries_candidates [OF conjunct1 [OF ent]] and some = entries_mentor [OF conjunct1 [OF ent]]
  show "best = None \<longleftrightarrow> (\<nexists>raw nm. candidate U s raws raw nm)"
  proof (cases "best_entry es")
    case None
    then have none: "at_ranking_key e = None" if "e \<in> set es" for e
      using that by (simp add: best_entry_None)
    have "\<not> candidate U s raws raw nm" for raw nm
      using cand [of raw "ranking_key_of nm"] none by (metis option.distinct(1))
    then show ?thesis using best None by simp
  next
    case (Some e)
    then obtain k where e: "e \<in> set es" "at_ranking_key e = Some k" by (rule best_entry_Some) auto
    then obtain raw where "at_mentor e = Some raw" using some by blast
    moreover have "\<exists>nm. candidate U s raws raw nm"
      using cand [of raw k] e calculation by blast
    ultimately show ?thesis using best Some by auto
  qed
  assume "best = Some b"
  then obtain e where e: "best_entry es = Some e" "at_mentor e = Some b"
    using best by (auto simp: Option.bind_eq_Some_conv)
  then obtain k where k: "e \<in> set es" "at_ranking_key e = Some k"
    "\<And>e' k'. e' \<in> set es \<Longrightarrow> at_ranking_key e' = Some k' \<Longrightarrow> k \<le> k'"
    by (auto elim: best_entry_Some)
  with e cand show "\<exists>nm. candidate U s raws b nm \<and>
           (\<forall>raw nm'. candidate U s raws raw nm' \<longrightarrow> ranking_key_of nm \<le> ranking_key_of nm')"
    by metis
qed

end

end
