(* ===== verification/Manager_Centers.thy ===== *)
theory Manager_Centers
  imports Alloc_Engine
begin

text \<open>
  \<^verbatim>\<open>phase3_allocation/providers_db.py\<close>: the provider of manager centers that caches what it
  read from the tables of managers and of their allowed centers. A call reads the monotonic
  clock (a parameter \<open>clock\<close>, one reading for each call, in seconds as floats), answers from
  an entry that has not expired, and otherwise queries and stores the answer, a missing
  manager with its own time to live. The lock is not modelled: calls are atomic here.
  The lemmas show that the provider meets the interface \<open>centers_provider\<close> of the policy
  while the tables do not change, and bound how stale an answer can be when they do.
\<close>

record ManagerModel =
  mg_id :: int
  mg_is_active :: bool

text \<open>The two tables; a center row is (manager id, center code).\<close>

record centers_db =
  db_managers :: "ManagerModel list"
  db_allowed_centers :: "(int \<times> int) list"

record CacheEntry =
  ce_expires_at :: pyfloat
  ce_value :: "int set option"

record DatabaseManagerCentersProvider =
  mp_cache_ttl :: pyfloat
  mp_negative_cache_ttl :: pyfloat
  mp_cache :: "int \<rightharpoonup> CacheEntry"

datatype provider_error = CacheTtlNotPositive | NegativeCacheTtlNotPositive

definition make_provider ::
  "int \<Rightarrow> int \<Rightarrow> provider_error + DatabaseManagerCentersProvider" where
  "make_provider cache_ttl_seconds negative_cache_ttl_seconds =
     (if cache_ttl_seconds \<le> 0 then Inl CacheTtlNotPositive
      else if negative_cache_ttl_seconds \<le> 0 then Inl NegativeCacheTtlNotPositive
      else Inr \<lparr>mp_cache_ttl = fl (of_int cache_ttl_seconds),
                mp_negative_cache_ttl = fl (of_int negative_cache_ttl_seconds),
                mp_cache = Map.empty\<rparr>)"

definition load_centers :: "centers_db \<Rightarrow> int \<Rightarrow> int set option" where
  "load_centers db manager_id =
     (case find (\<lambda>m. mg_id m = manager_id) (db_managers db) of
        None \<Rightarrow> None
      | Some manager \<Rightarrow>
          if \<not> mg_is_active manager then None
          else Some (set (map snd (filter (\<lambda>r. fst r = manager_id) (db_allowed_centers db)))))"

text \<open>The entry of a manager at time \<open>now\<close>, unless it has expired.\<close>

definition live_entry ::
  "DatabaseManagerCentersProvider \<Rightarrow> pyfloat \<Rightarrow> int \<Rightarrow> CacheEntry option" where
  "live_entry mp now manager_id =
     (case mp_cache mp manager_id of
        None \<Rightarrow> None
      | Some cached \<Rightarrow> if now < ce_expires_at cached then Some cached else None)"

definition get_allowed_centers ::
  "centers_db \<Rightarrow> pyfloat \<Rightarrow> DatabaseManagerCentersProvider \<Rightarrow> int \<Rightarrow>
   int set option \<times> DatabaseManagerCentersProvider" where
  "get_allowed_centers db now mp manager_id =
     (case live_entry mp now manager_id of
        Some cached \<Rightarrow> (ce_value cached, mp)
      | None \<Rightarrow>
          (let centers = load_centers db manager_id;
               ttl = (case centers of None \<Rightarrow> mp_negative_cache_ttl mp | Some _ \<Rightarrow> mp_cache_ttl mp);
               entry = \<lparr>ce_expires_at = fadd now ttl, ce_value = centers\<rparr>
           in (centers, mp\<lparr>mp_cache := (mp_cache mp)(manager_id \<mapsto> entry)\<rparr>)))"

definition clear_cache :: "DatabaseManagerCentersProvider \<Rightarrow> DatabaseManagerCentersProvider" where
  "clear_cache mp = mp\<lparr>mp_cache := Map.empty\<rparr>"

section \<open>The provider with its clock meets the interface of the policy\<close>

type_synonym clocked_provider = "DatabaseManagerCentersProvider \<times> nat"

definition clocked_get ::
  "centers_db \<Rightarrow> (nat \<Rightarrow> pyfloat) \<Rightarrow> clocked_provider centers_fn" where
  "clocked_get db clock p k =
     (let (answer, mp') = get_allowed_centers db (clock (snd p)) (fst p) k
      in (answer, (mp', Suc (snd p))))"

definition cache_current :: "centers_db \<Rightarrow> DatabaseManagerCentersProvider \<Rightarrow> bool" where
  "cache_current db mp \<longleftrightarrow> (\<forall>k c. mp_cache mp k = Some c \<longrightarrow> ce_value c = load_centers db k)"

lemma get_allowed_centers_current:
  assumes "cache_current db mp"
  shows "fst (get_allowed_centers db now mp k) = load_centers db k"
    and "cache_current db (snd (get_allowed_centers db now mp k))"
  using assms
  by (auto simp: get_allowed_centers_def live_entry_def cache_current_def Let_def
      split: option.splits)

lemma make_provider_current: "make_provider a b = Inr mp \<Longrightarrow> cache_current db mp"
  by (auto simp: make_provider_def cache_current_def split: if_split_asm)

interpretation dbp: centers_provider "clocked_get db clock" "\<lambda>p. cache_current db (fst p)"
  "load_centers db" for db clock
  by unfold_locales
    (simp_all add: clocked_get_def get_allowed_centers_current case_prod_beta Let_def)

section \<open>Bounded staleness\<close>

text \<open>
  A history of the provider: calls, each with the tables and the clock as they are at that
  moment, and \<^verbatim>\<open>clear\<close>. The answers come in order.
\<close>

datatype centers_op = Get pyfloat centers_db int | Clear

fun run_ops ::
  "centers_op list \<Rightarrow> DatabaseManagerCentersProvider \<Rightarrow>
   int set option list \<times> DatabaseManagerCentersProvider" where
  "run_ops [] mp = ([], mp)"
| "run_ops (Get now db k # ops) mp =
     (let (answer, mp1) = get_allowed_centers db now mp k;
          (answers, mp2) = run_ops ops mp1
      in (answer # answers, mp2))"
| "run_ops (Clear # ops) mp = run_ops ops (clear_cache mp)"

text \<open>What a time to live is for an answer.\<close>

definition ttl_of :: "DatabaseManagerCentersProvider \<Rightarrow> int set option \<Rightarrow> pyfloat" where
  "ttl_of mp answer = (case answer of None \<Rightarrow> mp_negative_cache_ttl mp | Some _ \<Rightarrow> mp_cache_ttl mp)"

text \<open>Every cached entry was read by an earlier call after the last clear.\<close>

definition entry_origin ::
  "centers_op list \<Rightarrow> DatabaseManagerCentersProvider \<Rightarrow> int \<Rightarrow> CacheEntry \<Rightarrow> bool" where
  "entry_origin past mp k c \<longleftrightarrow>
     (\<exists>t db. Get t db k \<in> set (takeWhile (\<lambda>x. x \<noteq> Clear) (rev past)) \<and> ce_value c = load_centers db k \<and>
             ce_expires_at c = fadd t (ttl_of mp (ce_value c)))"

definition cache_origin :: "centers_op list \<Rightarrow> DatabaseManagerCentersProvider \<Rightarrow> bool" where
  "cache_origin past mp \<longleftrightarrow> (\<forall>k c. mp_cache mp k = Some c \<longrightarrow> entry_origin past mp k c)"

lemma ttl_of_update [simp]: "ttl_of (mp\<lparr>mp_cache := x\<rparr>) a = ttl_of mp a"
  by (simp add: ttl_of_def split: option.splits)

lemma entry_origin_later:
  "entry_origin past mp k c \<Longrightarrow> entry_origin (past @ [Get now db j]) (mp\<lparr>mp_cache := x\<rparr>) k c"
  unfolding entry_origin_def by auto

lemma entry_origin_update [simp]:
  "entry_origin past (mp\<lparr>mp_cache := x\<rparr>) k c = entry_origin past mp k c"
  by (simp add: entry_origin_def)

lemma get_origin:
  assumes "cache_origin past mp"
  shows "cache_origin (past @ [Get now db k]) (snd (get_allowed_centers db now mp k))"
proof (cases "live_entry mp now k")
  case None
  let ?v = "load_centers db k"
  let ?e = "\<lparr>ce_expires_at = fadd now (ttl_of mp ?v), ce_value = ?v\<rparr>"
  have "snd (get_allowed_centers db now mp k) = mp\<lparr>mp_cache := (mp_cache mp)(k \<mapsto> ?e)\<rparr>"
    using None by (simp add: get_allowed_centers_def ttl_of_def Let_def)
  moreover have "entry_origin (past @ [Get now db k]) mp k ?e"
    unfolding entry_origin_def by (intro exI [of _ now] exI [of _ db]) simp
  ultimately show ?thesis
    using assms entry_origin_later [of past mp _ _ now db k "mp_cache mp"]
    by (auto simp: cache_origin_def)
next
  case (Some c)
  then show ?thesis
    using assms entry_origin_later [of past mp _ _ now db k "mp_cache mp"]
    by (auto simp: get_allowed_centers_def cache_origin_def)
qed

lemma clear_origin: "cache_origin (past @ [Clear]) (clear_cache mp)"
  by (simp add: cache_origin_def clear_cache_def)

lemma get_answer:
  assumes "cache_origin past mp"
  shows "fst (get_allowed_centers db now mp k) = load_centers db k \<or>
    (\<exists>t db'. Get t db' k \<in> set (takeWhile (\<lambda>x. x \<noteq> Clear) (rev past)) \<and>
       fst (get_allowed_centers db now mp k) = load_centers db' k \<and>
       now < fadd t (ttl_of mp (load_centers db' k)))"
proof (cases "live_entry mp now k")
  case (Some c)
  then have "mp_cache mp k = Some c" "now < ce_expires_at c"
    by (auto simp: live_entry_def split: option.splits if_split_asm)
  moreover have "fst (get_allowed_centers db now mp k) = ce_value c"
    using Some by (simp add: get_allowed_centers_def)
  moreover have "entry_origin past mp k c"
    using assms calculation(1) by (simp add: cache_origin_def)
  ultimately show ?thesis by (auto simp: entry_origin_def)
qed (simp add: get_allowed_centers_def Let_def)

lemma run_ops_append:
  "run_ops (xs @ ys) mp =
     (fst (run_ops xs mp) @ fst (run_ops ys (snd (run_ops xs mp))),
      snd (run_ops ys (snd (run_ops xs mp))))"
  by (induction xs mp rule: run_ops.induct) (auto simp: Let_def split: prod.splits)

lemma run_ops_origin:
  "mp_cache mp = Map.empty \<Longrightarrow> cache_origin ops (snd (run_ops ops mp))"
proof (induction ops rule: rev_induct)
  case (snoc x ops)
  then show ?case
    using get_origin [of ops "snd (run_ops ops mp)"] clear_origin [of ops]
    by (cases x) (simp_all add: run_ops_append Let_def case_prod_beta)
qed (simp add: cache_origin_def)

lemma get_ttl: "ttl_of (snd (get_allowed_centers db now mp k)) = ttl_of mp"
  by (auto simp: get_allowed_centers_def Let_def fun_eq_iff split: option.splits)

lemma run_ops_ttl: "ttl_of (snd (run_ops ops mp)) = ttl_of mp"
proof (induction ops mp rule: run_ops.induct)
  case (2 now db k ops mp)
  then show ?case using get_ttl [of db now mp k] by (auto simp: Let_def split: prod.splits)
qed (auto simp: clear_cache_def fun_eq_iff)

text \<open>A rounded deadline that is still ahead of a float is ahead before rounding too.\<close>

lemma fadd_deadline: "fl now = now \<Longrightarrow> now < fadd t d \<Longrightarrow> now < t + d"
  using fl_mono [of "t + d" now] unfolding fadd_def by linarith

section \<open>Property\<close>

text \<open>
  In any history of calls and clears of a fresh provider, with
  tables that may change between the calls, the answer to a call is what the tables say at
  that call, or what they said at an earlier call for the same manager since the last clear
  and less than that answer's time to live ago.
\<close>

theorem answers_boundedly_stale:
  assumes "make_provider ttl neg = Inr mp" and "fl now = now"
  shows "last (fst (run_ops (past @ [Get now db k]) mp)) = load_centers db k \<or>
    (\<exists>t db'. Get t db' k \<in> set (takeWhile (\<lambda>x. x \<noteq> Clear) (rev past)) \<and>
       last (fst (run_ops (past @ [Get now db k]) mp)) = load_centers db' k \<and>
       now < t + fl (of_int (if load_centers db' k = None then neg else ttl)))"
proof -
  let ?q = "snd (run_ops past mp)"
  have mp: "mp_cache mp = Map.empty" "ttl_of mp a = fl (of_int (if a = None then neg else ttl))" for a
    using assms(1) by (auto simp: make_provider_def ttl_of_def split: if_split_asm option.splits)
  have "last (fst (run_ops (past @ [Get now db k]) mp)) = fst (get_allowed_centers db now ?q k)"
    by (simp add: run_ops_append Let_def case_prod_beta)
  then show ?thesis
    using get_answer [OF run_ops_origin [OF mp(1), of past], of db now k]
    unfolding run_ops_ttl mp(2) by (metis fadd_deadline [OF assms(2)])
qed

definition sample_centers_db :: centers_db where
  "sample_centers_db = \<lparr>db_managers = [\<lparr>mg_id = 9, mg_is_active = True\<rparr>], db_allowed_centers = [(9, 1)]\<rparr>"

definition empty_centers_db :: centers_db where
  "empty_centers_db = \<lparr>db_managers = [], db_allowed_centers = []\<rparr>"

text \<open>The second alternative occurs: the manager was deleted five seconds after it was read.\<close>

theorem answers_boundedly_stale_witness:
  "\<exists>mp. make_provider 300 60 = Inr mp \<and>
     last (fst (run_ops ([Get 10 sample_centers_db 9] @ [Get 15 empty_centers_db 9]) mp)) = Some {1} \<and>
     load_centers empty_centers_db 9 = None \<and>
     (last (fst (run_ops ([Get 10 sample_centers_db 9] @ [Get 15 empty_centers_db 9]) mp))
        = load_centers empty_centers_db 9 \<or>
      (\<exists>t db'. Get t db' 9 \<in> {Get 10 sample_centers_db 9} \<and> 15 < t + fl 300))"
proof -
  define mp where "mp = \<lparr>mp_cache_ttl = fl 300, mp_negative_cache_ttl = fl 60, mp_cache = Map.empty\<rparr>"
  have m: "make_provider 300 60 = Inr mp" by (simp add: make_provider_def mp_def)
  have f: "fl 15 = 15" "fadd 10 (fl 300) = 310" by code_simp+
  have l: "load_centers empty_centers_db 9 = None" "load_centers sample_centers_db 9 = Some {1}"
    by (simp_all add: load_centers_def sample_centers_db_def empty_centers_db_def)
  have "last (fst (run_ops ([Get 10 sample_centers_db 9] @ [Get 15 empty_centers_db 9]) mp)) = Some {1}"
    using f l by (simp add: get_allowed_centers_def live_entry_def Let_def mp_def)
  then show ?thesis
    using answers_boundedly_stale [OF m f(1), of "[Get 10 sample_centers_db 9]" empty_centers_db 9] m l
    by auto
qed

end
