(* ===== verification/PyJson.thy ===== *)
theory PyJson
  imports PyBase "HOL-Library.Multiset"
begin

text \<open>
  The values \<^verbatim>\<open>json.dumps\<close> serialises in the program, and its output: dicts with text keys in
  insertion order, lists, text, integers, booleans and null; and the three types that
  \<^verbatim>\<open>normalize_payload\<close> converts first (a set of texts, a UUID, and any other object, which is
  a TypeError). Floats are left out. Text is written as \<^verbatim>\<open>ensure_ascii=False\<close> writes it. The UTF-8
  size of a text is \<open>None\<close> where it holds a surrogate, which \<^verbatim>\<open>str.encode\<close> refuses.
\<close>

datatype json =
    JNull | JBool bool | JInt int | JStr pystr | JList "json list" | JDict "(pystr \<times> json) list"
  | JSet "pystr set" | JUuid pystr | JOther

text \<open>The truth value of a value, as \<^verbatim>\<open>payload or {}\<close> reads it.\<close>

fun json_truthy :: "json \<Rightarrow> bool" where
  "json_truthy JNull = False"
| "json_truthy (JBool b) = b"
| "json_truthy (JInt i) = (i \<noteq> 0)"
| "json_truthy (JStr s) = (s \<noteq> [])"
| "json_truthy (JList xs) = (xs \<noteq> [])"
| "json_truthy (JDict d) = (d \<noteq> [])"
| "json_truthy (JSet s) = (s \<noteq> {})"
| "json_truthy (JUuid u) = True"
| "json_truthy JOther = True"

definition hex_digit :: "int \<Rightarrow> int" where
  "hex_digit d = (if d < 10 then 48 + d else 87 + d)"

definition escape_char :: "int \<Rightarrow> pystr" where
  "escape_char c =
     (if c = 34 then asc [CHR 0x5C, CHR 0x22] else if c = 92 then [92, 92]
      else if c = 8 then [92, 98] else if c = 9 then [92, 116] else if c = 10 then [92, 110]
      else if c = 12 then [92, 102] else if c = 13 then [92, 114]
      else if 0 \<le> c \<and> c < 32 then [92, 117, 48, 48, hex_digit (c div 16), hex_digit (c mod 16)]
      else [c])"

definition json_text :: "pystr \<Rightarrow> pystr" where
  "json_text s = 34 # concat (map escape_char s) @ [34]"

fun join :: "pystr \<Rightarrow> pystr list \<Rightarrow> pystr" where
  "join sep [] = []"
| "join sep [x] = x"
| "join sep (x # y # xs) = x @ sep @ join sep (y # xs)"

text \<open>The separators and the sorting of keys are the arguments of \<^verbatim>\<open>json.dumps\<close>.\<close>

fun sort_keys :: "json \<Rightarrow> json" where
  "sort_keys (JList xs) = JList (map sort_keys xs)"
| "sort_keys (JDict kvs) = JDict (sort_key fst (map (\<lambda>(k, v). (k, sort_keys v)) kvs))"
| "sort_keys j = j"

fun dumps :: "pystr \<Rightarrow> pystr \<Rightarrow> json \<Rightarrow> pystr option" where
  "dumps is ks JNull = Some (asc ''null'')"
| "dumps is ks (JBool b) = Some (if b then asc ''true'' else asc ''false'')"
| "dumps is ks (JInt i) = Some (py_str_int i)"
| "dumps is ks (JStr s) = Some (json_text s)"
| "dumps is ks (JList xs) =
     map_option (\<lambda>ts. asc ''['' @ join is ts @ asc '']'') (those (map (dumps is ks) xs))"
| "dumps is ks (JDict kvs) =
     map_option (\<lambda>ts. 123 # join is ts @ [125])
       (those (map (\<lambda>(k, v). map_option (\<lambda>t. json_text k @ ks @ t) (dumps is ks v)) kvs))"
| "dumps is ks (JSet s) = None"
| "dumps is ks (JUuid u) = None"
| "dumps is ks JOther = None"

definition utf8_width :: "int \<Rightarrow> nat" where
  "utf8_width c = (if c < 128 then 1 else if c < 2048 then 2 else if c < 65536 then 3 else 4)"

definition utf8_size :: "pystr \<Rightarrow> nat option" where
  "utf8_size s =
     (if list_ex (\<lambda>c. 55296 \<le> c \<and> c \<le> 57343) s then None
      else Some (sum_list (map utf8_width s)))"

lemma utf8_size_ascii: "is_ascii s \<Longrightarrow> utf8_size s = Some (length s)"
proof -
  assume a: "is_ascii s"
  have "sum_list (map utf8_width s) = length s"
    using a by (induction s) (auto simp: is_ascii_def utf8_width_def)
  then show ?thesis using a by (auto simp: utf8_size_def is_ascii_def list_ex_iff list_all_iff)
qed

lemma length_le_utf8_size: "utf8_size s = Some n \<Longrightarrow> length s \<le> n"
proof -
  assume "utf8_size s = Some n"
  then have n: "n = sum_list (map utf8_width s)" by (simp add: utf8_size_def split: if_split_asm)
  have "length s \<le> sum_list (map utf8_width s)"
    by (induction s) (auto simp: utf8_width_def)
  then show ?thesis using n by simp
qed

section \<open>Sorted keys make the text independent of the insertion order\<close>

lemma sort_key_perm_eq:
  assumes "mset xs = mset ys" and "distinct (map fst xs)"
  shows "sort_key fst xs = sort_key fst ys"
proof (rule properties_for_sort_key)
  have d: "distinct (map fst ys)" using assms by (metis mset_eq_imp_distinct_iff mset_map)
  have one: "filter (\<lambda>x. fst k = fst x) zs = [k]" if "distinct (map fst zs)" "k \<in> set zs" for k zs
    using that by (induction zs) (force simp: filter_empty_conv)+
  have s: "set (sort_key fst ys) = set xs" "distinct (map fst (sort_key fst ys))"
    using assms(1) d by (metis set_mset_mset set_sort, metis mset_eq_imp_distinct_iff mset_map mset_sort)
  show "filter (\<lambda>x. fst k = fst x) (sort_key fst ys) = filter (\<lambda>x. fst k = fst x) xs"
    if "k \<in> set (sort_key fst ys)" for k
    using one [OF assms(2), of k] one [OF s(2), of k] that s(1) by simp
qed (simp_all add: assms)

lemma sort_keys_perm:
  assumes "mset xs = mset ys" and "distinct (map fst xs)"
  shows "sort_keys (JDict xs) = sort_keys (JDict ys)"
proof -
  let ?f = "\<lambda>(k, v). (k, sort_keys v)"
  have "map fst (map ?f xs) = map fst xs" by (induction xs) auto
  moreover have "mset (map ?f xs) = mset (map ?f ys)" using assms(1) by simp
  ultimately show ?thesis using sort_key_perm_eq assms(2) by (metis sort_keys.simps(2))
qed

end
