(* ===== verification/Idempotency.thy ===== *)
theory Idempotency
  imports PyJson
begin

text \<open>
  \<^verbatim>\<open>phase3_allocation/idempotency.py\<close>: the key of an allocation request is the SHA-256 of its
  normalised student, mentor and request id, or of its payload in canonical JSON where there
  is no request id; the event id is the UUID5 of the key. The two digests are the fields of a
  record \<open>digests\<close>. Identifiers are None, booleans, integers or texts (not floats or bytes).
\<close>

record digests =
  sha256_hex :: "pystr \<Rightarrow> pystr"
  uuid5_str :: "pystr \<Rightarrow> pystr"

definition ZERO_WIDTH :: "int list" where
  "ZERO_WIDTH = [8204, 8205, 65279]"

definition normalize_string :: "ucd \<Rightarrow> pystr \<Rightarrow> pystr" where
  "normalize_string U v =
     (let normalized = map fold_fa_digit (u_nfkc U v);
          normalized = replace_char 1603 1705 (replace_char 1610 1740 normalized);
          normalized = remove_chars ZERO_WIDTH normalized
      in py_strip normalized)"

definition normalize_identifier :: "ucd \<Rightarrow> pyval \<Rightarrow> pystr" where
  "normalize_identifier U v = (if v = PNone then [] else normalize_string U (py_str v))"

datatype key_error = PayloadTypeError | KeyEncodeError

text \<open>What \<^verbatim>\<open>_default\<close> turns the other types into; \<open>None\<close> is its TypeError.\<close>

fun json_default :: "json \<Rightarrow> json option" where
  "json_default (JList xs) = map_option JList (those (map json_default xs))"
| "json_default (JDict kvs) =
     map_option JDict (those (map (\<lambda>(k, v). map_option (Pair k) (json_default v)) kvs))"
| "json_default (JSet s) = Some (JList (map JStr (sorted_list_of_set s)))"
| "json_default (JUuid u) = Some (JStr u)"
| "json_default JOther = None"
| "json_default j = Some j"

definition normalize_payload :: "json \<Rightarrow> key_error + pystr" where
  "normalize_payload payload =
     (case Option.bind (json_default payload) (\<lambda>j. dumps [44] [58] (sort_keys j)) of
        None \<Rightarrow> Inl PayloadTypeError | Some t \<Rightarrow> Inr t)"

definition join_parts :: "pystr list \<Rightarrow> pystr" where
  "join_parts parts = join [124] parts"

definition key_material ::
  "ucd \<Rightarrow> pyval \<Rightarrow> pyval \<Rightarrow> pyval \<Rightarrow> json \<Rightarrow> key_error + pystr" where
  "key_material U student_id mentor_id request_id payload =
     (let s = normalize_identifier U student_id; m = normalize_identifier U mentor_id;
          r = (if request_id \<noteq> PNone then normalize_identifier U request_id else [])
      in if r \<noteq> [] then Inr (join_parts [s, m, r])
         else rbind (normalize_payload (if json_truthy payload then payload else JDict []))
                (\<lambda>t. Inr (join_parts [s, m, t])))"

definition derive_idempotency_key ::
  "ucd \<Rightarrow> digests \<Rightarrow> pyval \<Rightarrow> pyval \<Rightarrow> pyval \<Rightarrow> json \<Rightarrow> key_error + pystr" where
  "derive_idempotency_key U H student_id mentor_id request_id payload =
     rbind (key_material U student_id mentor_id request_id payload) (\<lambda>material.
       if utf8_size material = None then Inl KeyEncodeError
       else Inr (sha256_hex H material))"

definition derive_event_id :: "digests \<Rightarrow> pystr \<Rightarrow> pystr" where
  "derive_event_id H key = uuid5_str H key"

section \<open>Normal forms of numerals\<close>

definition fa_digits :: "pystr \<Rightarrow> bool" where
  "fa_digits s \<longleftrightarrow> list_all (\<lambda>c. 48 \<le> c \<and> c \<le> 57 \<or> 1632 \<le> c \<and> c \<le> 1641 \<or> 1776 \<le> c \<and> c \<le> 1785) s"

lemma fa_digits_fold: "fa_digits s \<Longrightarrow> ascii_digits (map fold_fa_digit s)"
  by (auto simp: fa_digits_def ascii_digits_def list_all_iff fold_fa_digit_def)

lemma ascii_digits_kept:
  "list_all (\<lambda>c. 45 \<le> c \<and> c \<le> 57) s \<Longrightarrow>
     py_strip (remove_chars ZERO_WIDTH (replace_char 1603 1705 (replace_char 1610 1740 s))) = s"
proof -
  assume a: "list_all (\<lambda>c. 45 \<le> c \<and> c \<le> 57) s"
  have "replace_char x y s = s" if "1000 < x" for x y
    using a that by (induction s) (auto simp: replace_char_def)
  then have "replace_char 1603 1705 (replace_char 1610 1740 s) = s" by simp
  moreover have "remove_chars ZERO_WIDTH s = s"
    using a by (auto simp: remove_chars_def ZERO_WIDTH_def filter_id_conv list_all_iff)
  moreover have "py_strip s = s"
    using a unfolding py_strip_def
    by (intro strip_by_no_match) (auto simp: list_all_iff py_isspace_def)
  ultimately show ?thesis by simp
qed

lemma ascii_digits_range: "ascii_digits s \<Longrightarrow> list_all (\<lambda>c. 45 \<le> c \<and> c \<le> 57) s"
  by (auto simp: ascii_digits_def list_all_iff)

lemma normalize_string_digits:
  assumes "ucd_ok U" and "fa_digits s"
  shows "normalize_string U s = map fold_fa_digit s"
proof -
  have "nfkc_stable s" using assms(2) by (auto simp: fa_digits_def nfkc_stable_def list_all_iff)
  then show ?thesis
    using ascii_digits_kept [OF ascii_digits_range [OF fa_digits_fold [OF assms(2)]]] assms(1)
    by (simp add: normalize_string_def ucd_ok_nfkc)
qed

lemma py_str_int_chars: "list_all (\<lambda>c. 45 \<le> c \<and> c \<le> 57) (py_str_int i)"
  using ascii_digits_range [OF conjunct1 [OF show_pos_digits [of "\<bar>i\<bar>"]]]
  by (auto simp: py_str_int_def split: if_splits)

lemma py_str_int_ascii: "is_ascii (py_str_int i)"
  using py_str_int_chars [of i] by (auto simp: is_ascii_def list_all_iff)

lemma normalize_identifier_int:
  assumes "ucd_ok U"
  shows "normalize_identifier U (PInt i) = py_str_int i"
proof -
  have "map fold_fa_digit s = s" if "list_all (\<lambda>c. 45 \<le> c \<and> c \<le> 57) s" for s
    using that by (induction s) (auto simp: fold_fa_digit_def)
  then show ?thesis
    using assms ascii_digits_kept [OF py_str_int_chars] py_str_int_chars
    by (simp add: normalize_identifier_def normalize_string_def ucd_ok_nfkc
        is_ascii_nfkc_stable py_str_int_ascii)
qed

section \<open>Keys and requests\<close>

lemma join_parts_3: "join_parts [a, b, c] = a @ 124 # b @ 124 # c"
  by (simp add: join_parts_def)

lemma first_bar:
  "124 \<notin> set a \<Longrightarrow> 124 \<notin> set b \<Longrightarrow> a @ 124 # x = b @ (124::int) # y \<longleftrightarrow> a = b \<and> x = y"
proof (induction a arbitrary: b)
  case Nil
  then show ?case by (cases b) auto
next
  case (Cons c a)
  then show ?case by (cases b) auto
qed

lemma join_parts_inj:
  assumes "124 \<notin> set a" "124 \<notin> set a'" "124 \<notin> set b" "124 \<notin> set b'"
    and "join_parts [a, b, c] = join_parts [a', b', c']"
  shows "a = a' \<and> b = b' \<and> c = c'"
  using assms first_bar by (simp add: join_parts_3)

lemma int_identifier_no_bar: "ucd_ok U \<Longrightarrow> 124 \<notin> set (normalize_identifier U (PInt i))"
  using py_str_int_chars [of i] by (auto simp: normalize_identifier_int list_all_iff)

lemma json_default_id:
  assumes "\<And>v. v \<in> snd ` set xs \<Longrightarrow> json_default v = Some v"
  shows "json_default (JDict xs) = Some (JDict xs)"
proof -
  have "those (map (\<lambda>(k, v). map_option (Pair k) (json_default v)) xs) = Some xs"
    using assms by (induction xs) (auto simp: case_prod_beta)
  then show ?thesis by simp
qed

section \<open>Properties\<close>

text \<open>
  Two requests that both carry a request id and whose student ids
  hold no bar have the same idempotency key only if student, mentor and request id agree after
  normalisation, when SHA-256 does not collide on the two texts. (Without the condition on the
  bar this fails: the parts are joined with it and it is not escaped.)
\<close>

theorem key_separates_requests:
  assumes "ucd_ok U"
    and "derive_idempotency_key U H s (PInt m) r p = Inr k"
    and "derive_idempotency_key U H s' (PInt m') r' p' = Inr k"
    and "normalize_identifier U r \<noteq> []" and "normalize_identifier U r' \<noteq> []"
    and "124 \<notin> set (normalize_identifier U s)" and "124 \<notin> set (normalize_identifier U s')"
    and "\<And>x y. key_material U s (PInt m) r p = Inr x \<Longrightarrow> key_material U s' (PInt m') r' p' = Inr y \<Longrightarrow>
           sha256_hex H x = sha256_hex H y \<Longrightarrow> x = y"
  shows "normalize_identifier U s = normalize_identifier U s' \<and> m = m' \<and>
         normalize_identifier U r = normalize_identifier U r'"
proof -
  have ne: "r \<noteq> PNone" "r' \<noteq> PNone" using assms(4,5) by (auto simp: normalize_identifier_def)
  let ?x = "join_parts [normalize_identifier U s, normalize_identifier U (PInt m), normalize_identifier U r]"
  let ?y = "join_parts [normalize_identifier U s', normalize_identifier U (PInt m'), normalize_identifier U r']"
  have mat: "key_material U s (PInt m) r p = Inr ?x" "key_material U s' (PInt m') r' p' = Inr ?y"
    using ne assms(4,5) by (simp_all add: key_material_def)
  then have "sha256_hex H ?x = sha256_hex H ?y"
    using assms(2,3) by (auto simp: derive_idempotency_key_def split: if_split_asm)
  then have "?x = ?y" using assms(8) mat by blast
  then have "normalize_identifier U s = normalize_identifier U s'"
    "normalize_identifier U (PInt m) = normalize_identifier U (PInt m')"
    "normalize_identifier U r = normalize_identifier U r'"
    using join_parts_inj [OF assms(6,7) int_identifier_no_bar int_identifier_no_bar] assms(1)
    by blast+
  then show ?thesis using py_str_int_inj by (simp add: normalize_identifier_int [OF assms(1)])
qed

text \<open>Digests for the witnesses: the identity, which is injective.\<close>

definition plain_digests :: digests where
  "plain_digests = \<lparr>sha256_hex = (\<lambda>s. s), uuid5_str = (\<lambda>s. 101 # s)\<rparr>"

theorem key_separates_requests_witness:
  "\<exists>k. derive_idempotency_key ascii_ucd plain_digests (PStr (asc ''0012'')) (PInt 7) (PStr (asc '' r1'')) (JDict [])
         = Inr k \<and>
       derive_idempotency_key ascii_ucd plain_digests (PStr [1776, 1776, 1777, 1778]) (PInt 7) (PStr (asc ''r1'')) JNull
         = Inr k \<and>
       normalize_identifier ascii_ucd (PStr (asc ''0012'')) = normalize_identifier ascii_ucd (PStr [1776, 1776, 1777, 1778])"
proof -
  have k: "derive_idempotency_key ascii_ucd plain_digests (PStr (asc ''0012'')) (PInt 7) (PStr (asc '' r1'')) (JDict [])
         = Inr (asc ''0012|7|r1'')" by code_simp
  have k': "derive_idempotency_key ascii_ucd plain_digests (PStr [1776, 1776, 1777, 1778]) (PInt 7) (PStr (asc ''r1'')) JNull
         = Inr (asc ''0012|7|r1'')" by code_simp
  have r: "normalize_identifier ascii_ucd (PStr (asc '' r1'')) \<noteq> []" "normalize_identifier ascii_ucd (PStr (asc ''r1'')) \<noteq> []"
    and b: "124 \<notin> set (normalize_identifier ascii_ucd (PStr (asc ''0012'')))"
      "124 \<notin> set (normalize_identifier ascii_ucd (PStr [1776, 1776, 1777, 1778]))"
    by code_simp+
  show ?thesis
    using key_separates_requests [OF ascii_ucd_ok k k' r b] k k' by (auto simp: plain_digests_def)
qed

text \<open>
  The key does not depend on how a request is written: student
  and request numerals in Persian, Arabic-Indic or ASCII digits, the mentor as a number or a
  numeral, and the order in which the items of the payload were inserted.
\<close>

theorem key_ignores_presentation:
  assumes "ucd_ok U" and "fa_digits s" and "fa_digits s'" and "map fold_fa_digit s = map fold_fa_digit s'"
    and "fa_digits m" and "map fold_fa_digit m = py_str_int i"
    and "mset xs = mset ys" and "distinct (map fst xs)"
    and "\<And>v. v \<in> snd ` set xs \<Longrightarrow> json_default v = Some v"
  shows "derive_idempotency_key U H (PStr s) (PStr m) r (JDict xs) =
         derive_idempotency_key U H (PStr s') (PInt i) r (JDict ys)"
proof -
  have "json_default (JDict xs) = Some (JDict xs)" by (rule json_default_id [OF assms(9)])
  moreover have "\<And>v. v \<in> snd ` set ys \<Longrightarrow> json_default v = Some v"
    using assms(7,9) by (metis set_mset_mset)
  then have "json_default (JDict ys) = Some (JDict ys)"
    by (rule json_default_id)
  ultimately have "normalize_payload (JDict xs) = normalize_payload (JDict ys)"
    using sort_keys_perm [OF assms(7,8)] by (simp add: normalize_payload_def)
  moreover have "xs = [] \<longleftrightarrow> ys = []" using assms(7) by (metis mset_zero_iff)
  moreover have "normalize_identifier U (PStr s) = normalize_identifier U (PStr s')"
    "normalize_identifier U (PStr m) = normalize_identifier U (PInt i)"
    using normalize_string_digits [OF assms(1)] assms(2-6) normalize_identifier_int [OF assms(1), of i]
    by (simp_all add: normalize_identifier_def)
  ultimately show ?thesis
    unfolding derive_idempotency_key_def key_material_def Let_def by (cases "xs = []") simp_all
qed

theorem key_ignores_presentation_witness:
  "derive_idempotency_key ascii_ucd plain_digests (PStr [1777, 1634]) (PStr [1783]) PNone
     (JDict [(asc ''b'', JInt 1), (asc ''a'', JNull)]) =
   derive_idempotency_key ascii_ucd plain_digests (PStr (asc ''12'')) (PInt 7) PNone
     (JDict [(asc ''a'', JNull), (asc ''b'', JInt 1)])"
proof (rule key_ignores_presentation)
  show "ucd_ok ascii_ucd" by (rule ascii_ucd_ok)
  show "fa_digits [1777, 1634]" "fa_digits (asc ''12'')" "fa_digits [1783]"
    "map fold_fa_digit [1777, 1634] = map fold_fa_digit (asc ''12'')"
    "map fold_fa_digit [1783] = py_str_int 7" by code_simp+
qed (auto simp: asc_def)

end
