(* ===== verification/Outbox.thy ===== *)
theory Outbox
  imports PyFloat PyJson
begin

text \<open>
  \<^verbatim>\<open>phase3_allocation/outbox\<close>: the backoff policy, the events and their rows, and the
  dispatcher. Instants are microseconds. The environment of a dispatcher (the two clocks, the
  publisher, the JSON parser) is a record of functions of a running index, so that each reading
  may differ; the dispatcher's state counts the readings. The status hook and the log are not
  modelled. A batch that raises leaves the session uncommitted: its rows are as before.
\<close>

section \<open>Backoff\<close>

record BackoffPolicy =
  base_seconds :: pyfloat
  cap_seconds :: pyfloat
  max_retries :: int

text \<open>
  \<^verbatim>\<open>next_delay\<close>; converting $2^{1024}$ to a float raises OverflowError (the value \<open>None\<close>).
\<close>

definition next_delay :: "BackoffPolicy \<Rightarrow> int \<Rightarrow> pyfloat option" where
  "next_delay b retry_count =
     (let attempt = max retry_count 1
      in if attempt - 1 \<ge> 1024 then None
         else let delay = fmul (base_seconds b) (2 ^ nat (attempt - 1));
                  delay = (if delay < base_seconds b then base_seconds b else delay);
                  delay = (if delay > cap_seconds b then cap_seconds b else delay)
              in Some delay)"

lemma fmul_pow2_mono:
  "0 \<le> a \<Longrightarrow> m \<le> n \<Longrightarrow> fmul a (2 ^ m) \<le> fmul a (2 ^ n)"
  unfolding fmul_def by (intro fl_mono mult_left_mono) auto

lemma next_delay_bounds:
  assumes "next_delay b r = Some d" and "base_seconds b \<le> cap_seconds b"
  shows "base_seconds b \<le> d \<and> d \<le> cap_seconds b"
  using assms by (auto simp: next_delay_def Let_def split: if_splits)

lemma next_delay_mono:
  assumes "next_delay b r = Some d" and "next_delay b r' = Some d'" and "r \<le> r'" and "0 \<le> base_seconds b"
  shows "d \<le> d'"
proof -
  have "fmul (base_seconds b) (2 ^ nat (max r 1 - 1)) \<le> fmul (base_seconds b) (2 ^ nat (max r' 1 - 1))"
    using assms(3,4) by (intro fmul_pow2_mono) auto
  then show ?thesis using assms(1,2) by (auto simp: next_delay_def Let_def split: if_splits)
qed

section \<open>Events and rows\<close>

datatype outbox_status = PENDING | SENT | FAILED

record OutboxRow =
  ob_event_id :: pystr
  ob_aggregate_type :: pystr
  ob_aggregate_id :: pystr
  ob_event_type :: pystr
  ob_payload_json :: pystr
  ob_occurred_at :: int
  ob_available_at :: int
  ob_retry_count :: int
  ob_status :: outbox_status
  ob_published_at :: "int option"
  ob_last_error :: "pystr option"

text \<open>An event before it is stored; its status is any text until \<^verbatim>\<open>to_model\<close> checks it.\<close>

record OutboxEvent =
  ev_event_id :: pystr
  ev_aggregate_type :: pystr
  ev_aggregate_id :: pystr
  ev_event_type :: pystr
  ev_payload :: json
  ev_occurred_at :: int
  ev_available_at :: int
  ev_retry_count :: int
  ev_status :: pystr

datatype event_error =
  PAYLOAD_NOT_SERIALIZABLE | PAYLOAD_ENCODE_ERROR | PAYLOAD_TOO_LARGE | OUTBOX_STATUS_INVALID | NEGATIVE_RETRY_COUNT

definition MAX_PAYLOAD_BYTES :: int where
  "MAX_PAYLOAD_BYTES = 32768"

fun status_name :: "outbox_status \<Rightarrow> pystr" where
  "status_name PENDING = asc ''PENDING''"
| "status_name SENT = asc ''SENT''"
| "status_name FAILED = asc ''FAILED''"

definition read_status :: "pystr \<Rightarrow> outbox_status option" where
  "read_status s = find (\<lambda>x. status_name x = s) [PENDING, SENT, FAILED]"

definition to_model :: "OutboxEvent \<Rightarrow> event_error + OutboxRow" where
  "to_model e =
     (case dumps (asc '', '') (asc '': '') (ev_payload e) of
        None \<Rightarrow> Inl PAYLOAD_NOT_SERIALIZABLE
      | Some payload_json \<Rightarrow>
      (case utf8_size payload_json of
        None \<Rightarrow> Inl PAYLOAD_ENCODE_ERROR
      | Some payload_size \<Rightarrow>
        if int payload_size > MAX_PAYLOAD_BYTES then Inl PAYLOAD_TOO_LARGE
        else (case read_status (ev_status e) of
          None \<Rightarrow> Inl OUTBOX_STATUS_INVALID
        | Some status \<Rightarrow>
          if ev_retry_count e < 0 then Inl NEGATIVE_RETRY_COUNT
          else Inr \<lparr>ob_event_id = ev_event_id e, ob_aggregate_type = ev_aggregate_type e,
                    ob_aggregate_id = ev_aggregate_id e, ob_event_type = ev_event_type e,
                    ob_payload_json = payload_json, ob_occurred_at = ev_occurred_at e,
                    ob_available_at = ev_available_at e, ob_retry_count = ev_retry_count e,
                    ob_status = status, ob_published_at = None, ob_last_error = None\<rparr>)))"

text \<open>The check constraints of the table; its length counts characters.\<close>

definition row_ok :: "OutboxRow \<Rightarrow> bool" where
  "row_ok r \<longleftrightarrow> int (length (ob_payload_json r)) \<le> 32768 \<and> 0 \<le> ob_retry_count r"

lemma to_model_row_ok: "to_model e = Inr r \<Longrightarrow> row_ok r"
  by (auto simp: to_model_def row_ok_def MAX_PAYLOAD_BYTES_def dest!: length_le_utf8_size
      split: option.splits if_split_asm)

lemma to_model_fields:
  "to_model e = Inr r \<Longrightarrow>
     ob_event_id r = ev_event_id e \<and> ob_aggregate_id r = ev_aggregate_id e \<and>
     ob_event_type r = ev_event_type e \<and> ob_retry_count r = ev_retry_count e \<and>
     status_name (ob_status r) = ev_status e \<and> ob_available_at r = ev_available_at e \<and>
     dumps (asc '', '') (asc '': '') (ev_payload e) = Some (ob_payload_json r)"
  by (auto simp: to_model_def read_status_def find_Some_iff split: option.splits if_split_asm)

section \<open>The due messages\<close>

definition due :: "int \<Rightarrow> OutboxRow \<Rightarrow> bool" where
  "due now r \<longleftrightarrow> ob_status r = PENDING \<and> ob_available_at r \<le> now"

text \<open>The event ids of the selected rows, in order; ties keep the table's order.\<close>

definition list_due :: "int \<Rightarrow> nat \<Rightarrow> OutboxRow list \<Rightarrow> OutboxRow list" where
  "list_due now limit rows = take limit (sort_key ob_available_at (filter (due now) rows))"

lemma list_due_set: "r \<in> set (list_due now limit rows) \<Longrightarrow> r \<in> set rows \<and> due now r"
  unfolding list_due_def by (auto dest!: in_set_takeD)

lemma list_due_sorted: "sorted (map ob_available_at (list_due now limit rows))"
  unfolding list_due_def by (metis sorted_sort_key sorted_wrt_take take_map)

section \<open>The dispatcher\<close>

text \<open>What the publisher is called with; the three headers are named by their field.\<close>

record publish_call =
  pc_event_type :: pystr
  pc_payload :: json
  pc_event_id :: pystr
  pc_aggregate_id :: pystr
  pc_idempotency_key :: pystr

text \<open>
  \<open>e_publish n call\<close> is \<open>None\<close> where the n-th call succeeds and the text of the exception where it
  fails; \<open>e_loads\<close> is \<^verbatim>\<open>json.loads\<close> and \<open>e_repr\<close> is \<^verbatim>\<open>str\<close> of a list or dict.
\<close>

record denv =
  e_wall :: "nat \<Rightarrow> int"
  e_mono :: "nat \<Rightarrow> pyfloat"
  e_publish :: "nat \<Rightarrow> publish_call \<Rightarrow> pystr option"
  e_loads :: "pystr \<Rightarrow> json option"
  e_decode_error :: pystr
  e_repr :: "json \<Rightarrow> pystr"

record dispatcher =
  dp_rows :: "OutboxRow list"
  dp_wall :: nat
  dp_mono :: nat
  dp_calls :: "publish_call list"

text \<open>\<^verbatim>\<open>timedelta(seconds=x)\<close> in microseconds: the whole seconds exactly, the fraction scaled and rounded.\<close>

definition timedelta_us :: "pyfloat \<Rightarrow> int" where
  "timedelta_us x =
     (let i = (if x < 0 then - \<lfloor>- x\<rfloor> else \<lfloor>x\<rfloor>)
      in round_half_even (of_int (i * 1000000) + fmul 1000000 (x - of_int i)))"

definition compute_next_available_at ::
  "denv \<Rightarrow> BackoffPolicy \<Rightarrow> int \<Rightarrow> dispatcher \<Rightarrow> (int \<times> pyfloat \<times> pyfloat \<times> pyfloat) option \<times> dispatcher" where
  "compute_next_available_at E b retry_count d =
     (case next_delay b retry_count of
        None \<Rightarrow> (None, d\<lparr>dp_mono := dp_mono d + 1, dp_wall := dp_wall d + 1\<rparr>)
      | Some delay \<Rightarrow>
        (let mono_before = e_mono E (dp_mono d); wall_before = e_wall E (dp_wall d);
             target_mono = fadd mono_before delay;
             mono_after = e_mono E (dp_mono d + 1); wall_after = e_wall E (dp_wall d + 1);
             elapsed_wall = fdiv (of_int (wall_after - wall_before)) 1000000;
             elapsed_mono = fsub mono_after mono_before;
             skew_seconds = fsub elapsed_wall elapsed_mono;
             remaining = fsub target_mono mono_after;
             remaining = (if remaining \<le> 0 then base_seconds b else remaining)
         in (Some (wall_after + timedelta_us remaining, delay, skew_seconds, remaining),
             d\<lparr>dp_mono := dp_mono d + 2, dp_wall := dp_wall d + 2\<rparr>)))"

text \<open>An update of the row with a given event id: event ids are unique in the table.\<close>

definition update_row :: "pystr \<Rightarrow> (OutboxRow \<Rightarrow> OutboxRow) \<Rightarrow> OutboxRow list \<Rightarrow> OutboxRow list" where
  "update_row k f rows = map (\<lambda>r. if ob_event_id r = k then f r else r) rows"

definition schedule_next ::
  "denv \<Rightarrow> BackoffPolicy \<Rightarrow> OutboxRow \<Rightarrow> pystr \<Rightarrow> dispatcher \<Rightarrow> bool \<times> dispatcher" where
  "schedule_next E b r exc d =
     (let k = ob_event_id r; retry_count = ob_retry_count r + 1;
          d1 = d\<lparr>dp_rows := update_row k (ob_retry_count_update (\<lambda>_. retry_count)) (dp_rows d)\<rparr>
      in if retry_count > max_retries b then
           (True, d1\<lparr>dp_rows := update_row k
              (\<lambda>x. x\<lparr>ob_status := FAILED,
                    ob_last_error := Some (take 256 (asc ''MAX_RETRIES_REACHED:'' @ exc))\<rparr>) (dp_rows d1)\<rparr>)
         else (case compute_next_available_at E b retry_count d1 of
             (None, d2) \<Rightarrow> (False, d2)
           | (Some (next_available_at, delay, skew, remaining), d2) \<Rightarrow>
               (True, d2\<lparr>dp_rows := update_row k
                  (\<lambda>x. x\<lparr>ob_available_at := next_available_at,
                        ob_last_error := Some (take 256 (asc ''RETRYING:'' @ exc))\<rparr>) (dp_rows d2)\<rparr>)))"

text \<open>
  \<^verbatim>\<open>_extract_idempotency_key\<close>: text that is no JSON gives the empty header; a payload that is
  no dict has no \<^verbatim>\<open>get\<close>, and the AttributeError (\<open>None\<close>) leaves \<^verbatim>\<open>dispatch_once\<close>.
\<close>

definition json_str :: "denv \<Rightarrow> json \<Rightarrow> pystr" where
  "json_str E j =
     (case j of JNull \<Rightarrow> asc ''None'' | JBool x \<Rightarrow> py_str (PBool x) | JInt i \<Rightarrow> py_str_int i
      | JStr s \<Rightarrow> s | _ \<Rightarrow> e_repr E j)"

definition extract_idempotency_key :: "denv \<Rightarrow> pystr \<Rightarrow> pystr option" where
  "extract_idempotency_key E payload_json =
     (case e_loads E payload_json of
        None \<Rightarrow> Some []
      | Some (JDict kvs) \<Rightarrow>
          Some (case map_of kvs (asc ''idempotency_key'') of None \<Rightarrow> [] | Some v \<Rightarrow> json_str E v)
      | Some _ \<Rightarrow> None)"

text \<open>One message: whether the batch goes on, the number of messages sent, and the state.\<close>

definition dispatch_message ::
  "denv \<Rightarrow> BackoffPolicy \<Rightarrow> OutboxRow \<Rightarrow> dispatcher \<Rightarrow> (bool \<times> nat) \<times> dispatcher" where
  "dispatch_message E b r d =
     (let current_wall = e_wall E (dp_wall d); d0 = d\<lparr>dp_wall := dp_wall d + 1\<rparr>
      in case extract_idempotency_key E (ob_payload_json r) of
           None \<Rightarrow> ((False, 0), d0)
         | Some key \<Rightarrow>
             (case e_loads E (ob_payload_json r) of
               None \<Rightarrow> (let (ok, d1) = schedule_next E b r (e_decode_error E) d0 in ((ok, 0), d1))
             | Some payload \<Rightarrow>
                 (let call = \<lparr>pc_event_type = ob_event_type r, pc_payload = payload,
                              pc_event_id = ob_event_id r, pc_aggregate_id = ob_aggregate_id r,
                              pc_idempotency_key = key\<rparr>;
                      n = length (dp_calls d0);
                      d1 = d0\<lparr>dp_calls := dp_calls d0 @ [call]\<rparr>
                  in case e_publish E n call of
                       Some exc \<Rightarrow> (let (ok, d2) = schedule_next E b r exc d1 in ((ok, 0), d2))
                     | None \<Rightarrow>
                         ((True, 1), d1\<lparr>dp_rows := update_row (ob_event_id r)
                             (\<lambda>x. x\<lparr>ob_status := SENT, ob_published_at := Some current_wall,
                                   ob_last_error := None\<rparr>) (dp_rows d1)\<rparr>))))"

fun dispatch_messages ::
  "denv \<Rightarrow> BackoffPolicy \<Rightarrow> OutboxRow list \<Rightarrow> dispatcher \<Rightarrow> (bool \<times> nat) \<times> dispatcher" where
  "dispatch_messages E b [] d = ((True, 0), d)"
| "dispatch_messages E b (r # rs) d =
     (case dispatch_message E b r d of
        ((False, n), d1) \<Rightarrow> ((False, n), d1)
      | ((True, n), d1) \<Rightarrow>
          (let ((ok, m), d2) = dispatch_messages E b rs d1 in ((ok, n + m), d2)))"

text \<open>\<^verbatim>\<open>dispatch_once\<close>: the count, or \<open>None\<close> where it raises and nothing is committed.\<close>

definition dispatch_once ::
  "denv \<Rightarrow> BackoffPolicy \<Rightarrow> nat \<Rightarrow> dispatcher \<Rightarrow> nat option \<times> dispatcher" where
  "dispatch_once E b batch_size d =
     (let messages = list_due (e_wall E (dp_wall d)) batch_size (dp_rows d);
          ((ok, n), d') = dispatch_messages E b messages (d\<lparr>dp_wall := dp_wall d + 1\<rparr>)
      in if ok then (Some n, d') else (None, d'\<lparr>dp_rows := dp_rows d\<rparr>))"

text \<open>\<^verbatim>\<open>run_loop\<close>: its first n cycles; \<open>None\<close> where a cycle raised. The pause is not modelled.\<close>

fun run_cycles :: "denv \<Rightarrow> BackoffPolicy \<Rightarrow> nat \<Rightarrow> nat \<Rightarrow> dispatcher \<Rightarrow> dispatcher option" where
  "run_cycles E b batch_size 0 d = Some d"
| "run_cycles E b batch_size (Suc n) d =
     (case dispatch_once E b batch_size d of
        (None, d') \<Rightarrow> None
      | (Some sent, d') \<Rightarrow> run_cycles E b batch_size n d')"

section \<open>The life of a row\<close>

inductive row_step :: "BackoffPolicy \<Rightarrow> OutboxRow \<Rightarrow> OutboxRow \<Rightarrow> bool" for b where
  sent: "ob_status r = PENDING \<Longrightarrow>
    row_step b r (r\<lparr>ob_status := SENT, ob_published_at := Some t, ob_last_error := None\<rparr>)"
| retry: "ob_status r = PENDING \<Longrightarrow> ob_retry_count r + 1 \<le> max_retries b \<Longrightarrow>
    row_step b r (r\<lparr>ob_retry_count := ob_retry_count r + 1, ob_available_at := t, ob_last_error := Some e\<rparr>)"
| failed: "ob_status r = PENDING \<Longrightarrow> max_retries b < ob_retry_count r + 1 \<Longrightarrow>
    row_step b r (r\<lparr>ob_retry_count := ob_retry_count r + 1, ob_status := FAILED, ob_last_error := Some e\<rparr>)"

inductive_cases row_stepE: "row_step b r r'"

text \<open>Attempts that a row has used: its failures, and one more once it is sent.\<close>

definition attempts :: "OutboxRow \<Rightarrow> int" where
  "attempts r = ob_retry_count r + (if ob_status r = SENT then 1 else 0)"

definition row_inv :: "BackoffPolicy \<Rightarrow> OutboxRow \<Rightarrow> bool" where
  "row_inv b r \<longleftrightarrow> 0 \<le> ob_retry_count r \<and>
     (case ob_status r of FAILED \<Rightarrow> ob_retry_count r = max_retries b + 1
      | _ \<Rightarrow> ob_retry_count r \<le> max_retries b)"

lemma row_step_pending: "row_step b r r' \<Longrightarrow> ob_status r = PENDING"
  and row_step_id: "row_step b r r' \<Longrightarrow> ob_event_id r' = ob_event_id r"
  and row_step_attempts: "row_step b r r' \<Longrightarrow> attempts r' = attempts r + 1"
  and row_step_inv: "row_step b r r' \<Longrightarrow> row_inv b r \<Longrightarrow> row_inv b r'"
  and row_step_payload: "row_step b r r' \<Longrightarrow> ob_payload_json r' = ob_payload_json r"
  by (auto elim!: row_stepE simp: attempts_def row_inv_def)

lemma row_inv_attempts: "row_inv b r \<Longrightarrow> attempts r \<le> max_retries b + 1"
  by (auto simp: row_inv_def attempts_def split: outbox_status.splits if_splits)

definition ids :: "OutboxRow list \<Rightarrow> pystr list" where
  "ids rows = map ob_event_id rows"

lemma update_row_at:
  assumes "distinct (ids rows)" and "r \<in> set rows" and "ob_event_id r = k"
  shows "update_row k f rows = map (\<lambda>x. if x = r then f r else x) rows"
  unfolding update_row_def
proof (rule map_cong [OF refl])
  fix x assume "x \<in> set rows"
  then have "ob_event_id x = k \<longleftrightarrow> x = r"
    using assms by (auto simp: ids_def distinct_map dest: inj_onD)
  then show "(if ob_event_id x = k then f x else x) = (if x = r then f r else x)" by simp
qed

lemma update_row_ids: "(\<And>x. ob_event_id (f x) = ob_event_id x) \<Longrightarrow> ids (update_row k f rows) = ids rows"
  by (simp add: update_row_def ids_def)

lemma update_row_twice:
  "(\<And>x. ob_event_id (f x) = ob_event_id x) \<Longrightarrow>
     update_row k g (update_row k f rows) = update_row k (\<lambda>x. g (f x)) rows"
  by (simp add: update_row_def)

lemma compute_next_frame:
  "dp_rows (snd (compute_next_available_at E b n d)) = dp_rows d \<and>
   dp_calls (snd (compute_next_available_at E b n d)) = dp_calls d"
  by (auto simp: compute_next_available_at_def Let_def split: option.splits)

lemma schedule_next_step:
  assumes "schedule_next E b r exc d = (True, d')"
    and "distinct (ids (dp_rows d))" and "r \<in> set (dp_rows d)" and "ob_status r = PENDING"
  shows "dp_calls d' = dp_calls d \<and>
    (\<exists>r'. row_step b r r' \<and> dp_rows d' = map (\<lambda>x. if x = r then r' else x) (dp_rows d))"
proof (cases "ob_retry_count r + 1 > max_retries b")
  case True
  then show ?thesis
    using assms row_step.failed [OF assms(4), of b]
    by (auto simp: schedule_next_def Let_def update_row_twice update_row_at)
next
  case False
  let ?d1 = "d\<lparr>dp_rows := update_row (ob_event_id r) (ob_retry_count_update (\<lambda>_. ob_retry_count r + 1)) (dp_rows d)\<rparr>"
  obtain res d2 where c: "compute_next_available_at E b (ob_retry_count r + 1) ?d1 = (res, d2)"
    by fastforce
  with compute_next_frame [of E b "ob_retry_count r + 1" ?d1]
  have f: "dp_rows d2 = dp_rows ?d1" "dp_calls d2 = dp_calls d" by simp_all
  obtain t x1 x2 x3 where res: "res = Some (t, x1, x2, x3)"
    using assms(1) False c by (cases res) (auto simp: schedule_next_def Let_def)
  define e where "e = take 256 (asc ''RETRYING:'' @ exc)"
  have d': "dp_rows d' = update_row (ob_event_id r) (\<lambda>x. x\<lparr>ob_available_at := t, ob_last_error := Some e\<rparr>)
      (update_row (ob_event_id r) (ob_retry_count_update (\<lambda>_. ob_retry_count r + 1)) (dp_rows d))"
    and calls: "dp_calls d' = dp_calls d"
    using assms(1) c f res False unfolding e_def by (auto simp: schedule_next_def Let_def)
  have "dp_rows d' = map (\<lambda>x. if x = r then r\<lparr>ob_retry_count := ob_retry_count r + 1, ob_available_at := t,
      ob_last_error := Some e\<rparr> else x) (dp_rows d)"
    unfolding d' by (subst update_row_twice) (simp_all add: update_row_at [OF assms(2,3) refl])
  then show ?thesis using row_step.retry [OF assms(4), of b e t] False calls by (intro conjI exI) auto
qed

lemma dispatch_message_step:
  assumes "dispatch_message E b r d = ((True, n), d')"
    and "distinct (ids (dp_rows d))" and "r \<in> set (dp_rows d)" and "ob_status r = PENDING"
  shows "(\<exists>r'. row_step b r r' \<and> dp_rows d' = map (\<lambda>x. if x = r then r' else x) (dp_rows d)) \<and>
    (\<exists>cs. dp_calls d' = dp_calls d @ cs \<and> length cs \<le> 1 \<and> (\<forall>c \<in> set cs. pc_event_id c = ob_event_id r))"
proof -
  let ?d0 = "d\<lparr>dp_wall := dp_wall d + 1\<rparr>"
  obtain key where key: "extract_idempotency_key E (ob_payload_json r) = Some key"
    using assms(1) by (cases "extract_idempotency_key E (ob_payload_json r)")
      (auto simp: dispatch_message_def Let_def)
  show ?thesis
  proof (cases "e_loads E (ob_payload_json r)")
    case None
    then obtain d1 where "schedule_next E b r (e_decode_error E) ?d0 = (True, d1)" "d' = d1"
      using assms(1) key by (auto simp: dispatch_message_def Let_def split: prod.splits)
    then show ?thesis using schedule_next_step [of E b r _ ?d0 d1] assms(2-4) by auto
  next
    case (Some payload)
    define call where "call = \<lparr>pc_event_type = ob_event_type r, pc_payload = payload,
       pc_event_id = ob_event_id r, pc_aggregate_id = ob_aggregate_id r, pc_idempotency_key = key\<rparr>"
    let ?d1 = "?d0\<lparr>dp_calls := dp_calls d @ [call]\<rparr>"
    show ?thesis
    proof (cases "e_publish E (length (dp_calls d)) call")
      case None
      then have "dp_rows d' = update_row (ob_event_id r)
          (\<lambda>x. x\<lparr>ob_status := SENT, ob_published_at := Some (e_wall E (dp_wall d)),
                ob_last_error := None\<rparr>) (dp_rows d)" "dp_calls d' = dp_calls d @ [call]"
        using assms(1) key Some by (auto simp: dispatch_message_def Let_def call_def)
      then show ?thesis
        using row_step.sent [OF assms(4), of b] update_row_at [OF assms(2,3) refl]
        by (auto simp: call_def)
    next
      case exc: (Some exc)
      then obtain d2 where "schedule_next E b r exc ?d1 = (True, d2)" "d' = d2"
        using assms(1) key Some by (auto simp: dispatch_message_def Let_def call_def split: prod.splits)
      then show ?thesis
        using schedule_next_step [of E b r exc ?d1 d2] assms(2-4) by (auto simp: call_def)
    qed
  qed
qed

text \<open>
  A batch that goes through: every selected row makes one step and no other row changes, and
  the publisher is called at most once for each selected row.
\<close>

definition batch_effect ::
  "BackoffPolicy \<Rightarrow> OutboxRow list \<Rightarrow> dispatcher \<Rightarrow> dispatcher \<Rightarrow> bool" where
  "batch_effect b sel d d' \<longleftrightarrow>
     (\<exists>g. dp_rows d' = map g (dp_rows d) \<and>
          (\<forall>r \<in> set (dp_rows d). if r \<in> set sel then row_step b r (g r) else g r = r)) \<and>
     (\<exists>cs. dp_calls d' = dp_calls d @ cs \<and> distinct (map pc_event_id cs) \<and>
          set (map pc_event_id cs) \<subseteq> set (ids sel))"

lemma dispatch_messages_effect:
  "dispatch_messages E b rs d = ((True, n), d') \<Longrightarrow> distinct (ids (dp_rows d)) \<Longrightarrow>
     set rs \<subseteq> set (dp_rows d) \<Longrightarrow> distinct (ids rs) \<Longrightarrow> (\<forall>r \<in> set rs. ob_status r = PENDING) \<Longrightarrow>
     batch_effect b rs d d'"
proof (induction rs arbitrary: d n)
  case Nil
  then show ?case by (auto simp: batch_effect_def intro!: exI [of _ "\<lambda>r. r"])
next
  case (Cons r rs)
  obtain ok m d1 where m1: "dispatch_message E b r d = ((ok, m), d1)" by (metis prod.collapse)
  then have ok: "ok" using Cons.prems(1) by (cases ok) auto
  obtain k where rest: "dispatch_messages E b rs d1 = ((True, k), d')"
    using Cons.prems(1) m1 ok by (auto split: prod.splits)
  have r: "r \<in> set (dp_rows d)" "ob_status r = PENDING" using Cons.prems(3,5) by auto
  from dispatch_message_step [of E b r d m d1] m1 ok r Cons.prems(2)
  obtain r' cs where r': "row_step b r r'" "dp_rows d1 = map (\<lambda>x. if x = r then r' else x) (dp_rows d)"
    and cs: "dp_calls d1 = dp_calls d @ cs" "length cs \<le> 1" "\<forall>c \<in> set cs. pc_event_id c = ob_event_id r"
    by auto
  have ids1: "ids (dp_rows d1) = ids (dp_rows d)"
    using row_step_id [OF r'(1)] by (simp add: r'(2) ids_def)
  have notin: "r \<notin> set rs" using Cons.prems(4) by (auto simp: ids_def)
  then have "set rs \<subseteq> set (dp_rows d1)" using Cons.prems(3) by (auto simp: r'(2))
  then have "batch_effect b rs d1 d'"
    using Cons.IH [OF rest] ids1 Cons.prems(2,4,5) by (simp add: ids_def)
  then obtain g cs2 where g: "dp_rows d' = map g (dp_rows d1)"
    "\<forall>x \<in> set (dp_rows d1). if x \<in> set rs then row_step b x (g x) else g x = x"
    and cs2: "dp_calls d' = dp_calls d1 @ cs2" "distinct (map pc_event_id cs2)"
    "set (map pc_event_id cs2) \<subseteq> set (ids rs)"
    unfolding batch_effect_def by blast
  have r'notin: "r' \<notin> set rs"
    using row_step_id [OF r'(1)] Cons.prems(4) by (auto simp: ids_def) (metis image_eqI)
  let ?g = "\<lambda>x. if x = r then r' else g x"
  have gr': "g r' = r'" using g(2) r'notin r(1) by (auto simp: r'(2))
  have "dp_rows d' = map ?g (dp_rows d)" using gr' by (simp add: g(1) r'(2))
  moreover have "\<forall>x \<in> set (dp_rows d). if x \<in> set (r # rs) then row_step b x (?g x) else ?g x = x"
    using g(2) r'(1) notin by (auto simp: r'(2))
  moreover have "distinct (map pc_event_id (cs @ cs2))"
    using cs(2,3) cs2(2,3) Cons.prems(4) by (cases cs) (auto simp: ids_def)
  moreover have "set (map pc_event_id (cs @ cs2)) \<subseteq> set (ids (r # rs))"
    using cs(3) cs2(3) by (auto simp: ids_def)
  ultimately show ?case
    unfolding batch_effect_def using cs(1) cs2(1) by (intro conjI exI [of _ ?g] exI [of _ "cs @ cs2"]) simp_all
qed

lemma list_due_distinct: "distinct (ids rows) \<Longrightarrow> distinct (ids (list_due now limit rows))"
proof -
  assume "distinct (ids rows)"
  then have "distinct (map ob_event_id (filter (due now) rows))" by (simp add: ids_def distinct_map_filter)
  then have "distinct (map ob_event_id (sort_key ob_available_at (filter (due now) rows)))"
    by (metis mset_eq_imp_distinct_iff mset_map mset_sort)
  then show ?thesis by (simp add: list_due_def ids_def take_map [symmetric])
qed

lemma dispatch_once_effect:
  assumes "dispatch_once E b batch_size d = (Some n, d')" and "distinct (ids (dp_rows d))"
  shows "batch_effect b (list_due (e_wall E (dp_wall d)) batch_size (dp_rows d)) d d'"
proof -
  let ?m = "list_due (e_wall E (dp_wall d)) batch_size (dp_rows d)"
  have "dispatch_messages E b ?m (d\<lparr>dp_wall := dp_wall d + 1\<rparr>) = ((True, n), d')"
    using assms(1) by (auto simp: dispatch_once_def Let_def split: prod.splits if_split_asm)
  then have "batch_effect b ?m (d\<lparr>dp_wall := dp_wall d + 1\<rparr>) d'"
    using list_due_set list_due_distinct [OF assms(2)] assms(2)
    by (intro dispatch_messages_effect) (auto simp: due_def)
  then show ?thesis by (simp add: batch_effect_def)
qed

section \<open>Invariants of the table over the cycles\<close>

definition table_inv :: "BackoffPolicy \<Rightarrow> OutboxRow list \<Rightarrow> bool" where
  "table_inv b rows \<longleftrightarrow> distinct (ids rows) \<and> list_all (row_inv b) rows"

definition calls_for :: "dispatcher \<Rightarrow> pystr \<Rightarrow> nat" where
  "calls_for d k = length (filter (\<lambda>c. pc_event_id c = k) (dp_calls d))"

text \<open>Every call to the publisher is accounted for by the attempts of its row.\<close>

definition calls_inv :: "dispatcher \<Rightarrow> bool" where
  "calls_inv d \<longleftrightarrow> (\<forall>c \<in> set (dp_calls d). pc_event_id c \<in> set (ids (dp_rows d))) \<and>
     (\<forall>r \<in> set (dp_rows d). int (calls_for d (ob_event_id r)) \<le> attempts r)"

lemma batch_effect_table_inv:
  assumes "batch_effect b sel d d'" and "table_inv b (dp_rows d)"
  shows "table_inv b (dp_rows d')" and "ids (dp_rows d') = ids (dp_rows d)"
proof -
  obtain g where g: "dp_rows d' = map g (dp_rows d)"
    "\<forall>r \<in> set (dp_rows d). if r \<in> set sel then row_step b r (g r) else g r = r"
    using assms(1) unfolding batch_effect_def by blast
  have "\<forall>r \<in> set (dp_rows d). ob_event_id (g r) = ob_event_id r \<and> row_inv b (g r)"
    using g(2) assms(2) row_step_id row_step_inv by (auto simp: table_inv_def list_all_iff) metis+
  then show "ids (dp_rows d') = ids (dp_rows d)" "table_inv b (dp_rows d')"
    using assms(2) by (simp_all add: g(1) ids_def table_inv_def list_all_iff cong: map_cong)
qed

lemma filter_distinct_key: "distinct (map f xs) \<Longrightarrow> length (filter (\<lambda>c. f c = k) xs) \<le> 1"
proof (induction xs)
  case (Cons x xs)
  then show ?case by (cases "f x = k") (auto simp: filter_empty_conv, metis image_eqI)
qed simp

lemma batch_effect_calls_inv:
  assumes "batch_effect b sel d d'" and "calls_inv d" and "table_inv b (dp_rows d)"
    and "set sel \<subseteq> set (dp_rows d)"
  shows "calls_inv d'"
proof -
  obtain g cs where g: "dp_rows d' = map g (dp_rows d)"
    "\<forall>r \<in> set (dp_rows d). if r \<in> set sel then row_step b r (g r) else g r = r"
    and cs: "dp_calls d' = dp_calls d @ cs" "distinct (map pc_event_id cs)"
      "set (map pc_event_id cs) \<subseteq> set (ids sel)"
    using assms(1) unfolding batch_effect_def by blast
  note ids' = batch_effect_table_inv(2) [OF assms(1,3)]
  have "int (calls_for d' (ob_event_id (g r))) \<le> attempts (g r)" if r: "r \<in> set (dp_rows d)" for r
  proof -
    have old: "int (calls_for d (ob_event_id r)) \<le> attempts r" using assms(2) r by (simp add: calls_inv_def)
    show ?thesis
    proof (cases "r \<in> set sel")
      case True
      then show ?thesis
        using g(2) r old row_step_id row_step_attempts filter_distinct_key [OF cs(2), of "ob_event_id r"]
        by (fastforce simp: calls_for_def cs(1))
    next
      case False
      have "ob_event_id r \<notin> set (ids sel)"
        using False r assms(3,4) by (auto simp: ids_def table_inv_def distinct_map dest: inj_onD)
      then have "filter (\<lambda>c. pc_event_id c = ob_event_id r) cs = []"
        using cs(3) by (auto simp: filter_empty_conv)
      then show ?thesis using False g(2) r old by (simp add: calls_for_def cs(1))
    qed
  qed
  moreover have "pc_event_id c \<in> set (ids (dp_rows d'))" if "c \<in> set (dp_calls d')" for c
  proof -
    have "set (ids sel) \<subseteq> set (ids (dp_rows d))" using assms(4) by (auto simp: ids_def)
    then show ?thesis using that cs(1,3) assms(2) ids' by (auto simp: calls_inv_def)
  qed
  ultimately show ?thesis by (auto simp: calls_inv_def g(1))
qed

lemma run_cycles_inv:
  "run_cycles E b batch_size n d = Some d' \<Longrightarrow> table_inv b (dp_rows d) \<Longrightarrow> calls_inv d \<Longrightarrow>
     table_inv b (dp_rows d') \<and> calls_inv d'"
proof (induction n arbitrary: d)
  case (Suc n)
  obtain sent d1 where once: "dispatch_once E b batch_size d = (Some sent, d1)"
    and rest: "run_cycles E b batch_size n d1 = Some d'"
    using Suc.prems(1) by (auto split: prod.splits option.splits)
  note eff = dispatch_once_effect [OF once] and m = list_due_set
  have "batch_effect b (list_due (e_wall E (dp_wall d)) batch_size (dp_rows d)) d d1"
    using eff Suc.prems(2) by (simp add: table_inv_def)
  then show ?case
    using Suc.IH [OF rest] batch_effect_table_inv batch_effect_calls_inv Suc.prems(2,3) m by blast
qed simp

section \<open>Properties\<close>

text \<open>
  C38 publish_attempts_bounded: Over any number of committed cycles of the dispatcher, with
  any clocks and any publisher, the publisher is called for an event at most
  \<open>max_retries + 1\<close> times, event ids stay unique, and a row has failed only after exactly that
  many failures.
\<close>

theorem publish_attempts_bounded:
  assumes "run_cycles E b batch_size n d = Some d'" and "dp_calls d = []"
    and "table_inv b (dp_rows d)"
  shows "distinct (ids (dp_rows d')) \<and>
    (\<forall>k. 0 \<le> max_retries b \<longrightarrow> int (calls_for d' k) \<le> max_retries b + 1) \<and>
    (\<forall>r. r \<in> set (dp_rows d') \<longrightarrow>
       (ob_status r = FAILED \<longleftrightarrow> ob_retry_count r = max_retries b + 1) \<and> ob_retry_count r \<le> max_retries b + 1)"
proof -
  have "calls_inv d"
    using assms(2,3) by (auto simp: calls_inv_def calls_for_def attempts_def table_inv_def list_all_iff row_inv_def)
  then have inv: "table_inv b (dp_rows d')" "calls_inv d'" using run_cycles_inv [OF assms(1,3)] by auto
  have "int (calls_for d' k) \<le> max_retries b + 1" if "0 \<le> max_retries b" for k
  proof (cases "k \<in> set (ids (dp_rows d'))")
    case True
    then obtain r where "r \<in> set (dp_rows d')" "ob_event_id r = k" by (auto simp: ids_def)
    then show ?thesis
      using inv row_inv_attempts [of b r] by (fastforce simp: calls_inv_def table_inv_def list_all_iff)
  next
    case False
    then have "filter (\<lambda>c. pc_event_id c = k) (dp_calls d') = []"
      using inv(2) by (auto simp: calls_inv_def filter_empty_conv)
    then show ?thesis using that by (simp add: calls_for_def)
  qed
  moreover have "(ob_status r = FAILED \<longleftrightarrow> ob_retry_count r = max_retries b + 1) \<and>
      ob_retry_count r \<le> max_retries b + 1" if "r \<in> set (dp_rows d')" for r
    using inv(1) that by (cases "ob_status r") (auto simp: table_inv_def list_all_iff row_inv_def)
  ultimately show ?thesis using inv(1) by (simp add: table_inv_def)
qed

definition sample_row :: "pystr \<Rightarrow> int \<Rightarrow> OutboxRow" where
  "sample_row k t =
     \<lparr>ob_event_id = k, ob_aggregate_type = asc ''Allocation'', ob_aggregate_id = asc ''1'',
      ob_event_type = asc ''MentorAssigned'', ob_payload_json = asc ''{}'', ob_occurred_at = 0,
      ob_available_at = t, ob_retry_count = 0, ob_status = PENDING, ob_published_at = None,
      ob_last_error = None\<rparr>"

text \<open>A wall clock and a monotonic clock that advance ten seconds a reading; every call fails.\<close>

definition failing_env :: denv where
  "failing_env =
     \<lparr>e_wall = (\<lambda>n. 10000000 * int n), e_mono = (\<lambda>n. of_nat n * 10),
      e_publish = (\<lambda>n call. Some (asc ''down'')), e_loads = (\<lambda>s. Some (JDict [])),
      e_decode_error = [], e_repr = (\<lambda>j. [])\<rparr>"

definition small_backoff :: BackoffPolicy where
  "small_backoff = \<lparr>base_seconds = 1, cap_seconds = 300, max_retries = 1\<rparr>"

definition sample_dispatcher :: dispatcher where
  "sample_dispatcher = \<lparr>dp_rows = [sample_row [1] 0, sample_row [2] 5], dp_wall = 0, dp_mono = 0, dp_calls = []\<rparr>"

theorem publish_attempts_bounded_witness:
  "\<exists>d'. run_cycles failing_env small_backoff 50 3 sample_dispatcher = Some d' \<and>
        map ob_status (dp_rows d') = [FAILED, FAILED] \<and> calls_for d' [1] = 2 \<and>
        int (calls_for d' [1]) \<le> max_retries small_backoff + 1"
proof -
  let ?r = "run_cycles failing_env small_backoff 50 3 sample_dispatcher"
  have e: "map_option (\<lambda>d. (map ob_status (dp_rows d), calls_for d [1])) ?r = Some ([FAILED, FAILED], 2)"
    by code_simp
  then obtain d' where d': "?r = Some d'" by auto
  have "table_inv small_backoff (dp_rows sample_dispatcher)"
    by (simp add: table_inv_def ids_def row_inv_def sample_dispatcher_def sample_row_def small_backoff_def)
  then have "int (calls_for d' [1]) \<le> max_retries small_backoff + 1"
    using publish_attempts_bounded [OF d'] by (simp add: sample_dispatcher_def small_backoff_def)
  then show ?thesis using e d' by auto
qed

text \<open>
  A committed cycle leaves every row that is not selected
  unchanged (rows already sent or failed among them); the selected rows are pending and due, in
  the order of their due time, at most a batch; and each makes exactly one step: sent, put back
  with one more failure while the retries last, or failed.
\<close>

theorem dispatch_touches_due_rows_only:
  assumes "dispatch_once E b batch_size d = (Some n, d')" and "distinct (ids (dp_rows d))"
  shows "\<exists>sel g. dp_rows d' = map g (dp_rows d) \<and> length sel \<le> batch_size \<and>
    sorted (map ob_available_at sel) \<and>
    (\<forall>r. r \<in> set sel \<longrightarrow> r \<in> set (dp_rows d) \<and> ob_status r = PENDING \<and>
           ob_available_at r \<le> e_wall E (dp_wall d) \<and> row_step b r (g r)) \<and>
    (\<forall>r. r \<in> set (dp_rows d) \<and> r \<notin> set sel \<longrightarrow> g r = r)"
proof -
  let ?sel = "list_due (e_wall E (dp_wall d)) batch_size (dp_rows d)"
  obtain g where g: "dp_rows d' = map g (dp_rows d)"
    "\<forall>r \<in> set (dp_rows d). if r \<in> set ?sel then row_step b r (g r) else g r = r"
    using dispatch_once_effect [OF assms] unfolding batch_effect_def by blast
  have sel: "r \<in> set (dp_rows d) \<and> due (e_wall E (dp_wall d)) r" if "r \<in> set ?sel" for r
    using list_due_set [OF that] .
  show ?thesis
  proof (intro exI conjI allI impI)
    show "dp_rows d' = map g (dp_rows d)" by (rule g(1))
    show "length ?sel \<le> batch_size" by (simp add: list_due_def)
    show "sorted (map ob_available_at ?sel)" by (rule list_due_sorted)
  qed (use sel g(2) in \<open>auto simp: due_def\<close>)
qed

theorem dispatch_touches_due_rows_only_witness:
  "fst (dispatch_once failing_env small_backoff 1 sample_dispatcher) = Some 0 \<and>
   (\<exists>g. dp_rows (snd (dispatch_once failing_env small_backoff 1 sample_dispatcher))
          = map g (dp_rows sample_dispatcher))"
proof -
  let ?o = "dispatch_once failing_env small_backoff 1 sample_dispatcher"
  have f: "fst ?o = Some 0" by code_simp
  then have o: "?o = (Some 0, snd ?o)" by (metis prod.collapse)
  have "distinct (ids (dp_rows sample_dispatcher))"
    by (simp add: ids_def sample_dispatcher_def sample_row_def)
  from dispatch_touches_due_rows_only [OF o this]
  obtain g where "dp_rows (snd ?o) = map g (dp_rows sample_dispatcher)" by (elim exE conjE)
  with f show ?thesis by (intro exI conjI)
qed

text \<open>
  A row whose stored payload parses to something other than
  a dict makes the whole cycle raise as soon as it is the first one due: no row of the batch
  changes, so that the next cycle starts from the same table.
\<close>

theorem poison_payload_stops_dispatch:
  assumes "list_due (e_wall E (dp_wall d)) batch_size (dp_rows d) = r # rest"
    and "e_loads E (ob_payload_json r) = Some j" and "\<nexists>kvs. j = JDict kvs"
  shows "fst (dispatch_once E b batch_size d) = None \<and>
         dp_rows (snd (dispatch_once E b batch_size d)) = dp_rows d \<and>
         run_cycles E b batch_size (Suc n) d = None"
proof -
  have "extract_idempotency_key E (ob_payload_json r) = None"
    using assms(2,3) by (cases j) (auto simp: extract_idempotency_key_def)
  then have "fst (dispatch_once E b batch_size d) = None \<and> dp_rows (snd (dispatch_once E b batch_size d)) = dp_rows d"
    using assms(1) by (simp add: dispatch_once_def dispatch_message_def Let_def)
  then show ?thesis by (auto split: prod.splits option.splits)
qed

theorem poison_payload_stops_dispatch_witness:
  "fst (dispatch_once (failing_env\<lparr>e_loads := (\<lambda>s. Some (JList []))\<rparr>) small_backoff 50 sample_dispatcher) = None"
proof -
  let ?E = "failing_env\<lparr>e_loads := (\<lambda>s. Some (JList []))\<rparr>"
  have "list_due (e_wall ?E (dp_wall sample_dispatcher)) 50 (dp_rows sample_dispatcher)
          = sample_row [1] 0 # tl (list_due (e_wall ?E (dp_wall sample_dispatcher)) 50 (dp_rows sample_dispatcher))"
    by code_simp
  then show ?thesis
    using poison_payload_stops_dispatch [of ?E sample_dispatcher 50 "sample_row [1] 0" _ "JList []"]
    by simp
qed

text \<open>
  The delay lies between the base and the cap, never shrinks
  as the failures grow, and doubles from the base while it is below the cap (for a base that is
  a power of two, where the product is exact); OverflowError needs more than 1024 failures.
\<close>

theorem backoff_bounded_and_monotone:
  assumes "0 \<le> base_seconds b" and "base_seconds b \<le> cap_seconds b" and "r \<le> r'" and "r' \<le> 1024"
  shows "\<exists>d d'. next_delay b r = Some d \<and> next_delay b r' = Some d' \<and> d \<le> d' \<and>
           base_seconds b \<le> d \<and> d' \<le> cap_seconds b"
proof -
  have "\<exists>d. next_delay b x = Some d" if "x \<le> 1024" for x
    using that by (simp add: next_delay_def Let_def)
  then obtain d d' where "next_delay b r = Some d" "next_delay b r' = Some d'"
    using assms(3,4) by (meson order_trans)
  then show ?thesis
    using next_delay_mono next_delay_bounds assms by blast
qed

theorem backoff_bounded_and_monotone_witness:
  "\<exists>d d'. next_delay small_backoff 3 = Some d \<and> next_delay small_backoff 12 = Some d' \<and> d = 4 \<and> d' = 300 \<and> d \<le> d'"
proof -
  have "next_delay small_backoff 3 = Some 4" "next_delay small_backoff 12 = Some 300" by code_simp+
  then show ?thesis
    using backoff_bounded_and_monotone [of small_backoff 3 12] by (auto simp: small_backoff_def)
qed

text \<open>
  An event is stored exactly when its payload serialises and
  encodes to at most 32768 bytes, its status is one of the three and its retry count is not
  negative; the row then satisfies the check constraints of the table and carries the event.
\<close>

theorem stored_event_is_valid:
  "((\<exists>r. to_model e = Inr r) \<longleftrightarrow>
     (\<exists>t n. dumps (asc '', '') (asc '': '') (ev_payload e) = Some t \<and> utf8_size t = Some n \<and> int n \<le> 32768) \<and>
     ev_status e \<in> {asc ''PENDING'', asc ''SENT'', asc ''FAILED''} \<and> 0 \<le> ev_retry_count e) \<and>
   (case to_model e of Inl _ \<Rightarrow> True
    | Inr r \<Rightarrow> row_ok r \<and> ob_event_id r = ev_event_id e \<and> status_name (ob_status r) = ev_status e \<and>
        dumps (asc '', '') (asc '': '') (ev_payload e) = Some (ob_payload_json r))"
proof -
  have st: "(\<exists>s. read_status x = Some s) \<longleftrightarrow> x \<in> {asc ''PENDING'', asc ''SENT'', asc ''FAILED''}" for x
    by (auto simp: read_status_def)
  have "(\<exists>r. to_model e = Inr r) \<longleftrightarrow>
     (\<exists>t n. dumps (asc '', '') (asc '': '') (ev_payload e) = Some t \<and> utf8_size t = Some n \<and> int n \<le> 32768) \<and>
     (\<exists>s. read_status (ev_status e) = Some s) \<and> 0 \<le> ev_retry_count e"
    by (auto simp: to_model_def MAX_PAYLOAD_BYTES_def split: option.splits)
  then show ?thesis
    using st to_model_row_ok to_model_fields by (auto split: sum.splits)
qed

end
