(* ===== verification/Alloc_Tx.thy ===== *)
theory Alloc_Tx
  imports Idempotency Outbox
begin

text \<open>
  \<^verbatim>\<open>phase3_allocation/allocation_tx.py\<close> and \<^verbatim>\<open>uow.py\<close>: \<^verbatim>\<open>AtomicAllocator\<close> over the tables of
  students, mentors, allocations and outbox messages. One attempt reads a committed store,
  other transactions may commit before its flush (\<open>ta_interfere\<close>), the flush checks the
  constraints of the tables in the store as it then is, and leaving the unit of work commits
  or rolls back. Of a database error only its class matters: an OperationalError of any
  statement before the commit, or a failure of the commit itself.
\<close>

section \<open>Tables\<close>

record StudentModel =
  st_national_id :: pystr
  st_gender :: int
  st_edu_status :: int
  st_reg_center :: int
  st_reg_status :: int
  st_group_code :: int
  st_school_code :: "int option"

record MentorModel =
  mn_mentor_id :: int
  mn_gender :: int
  mn_capacity :: int
  mn_current_load :: int
  mn_is_active :: bool

record AllocationRecord =
  ar_allocation_id :: int
  ar_allocation_code :: pystr
  ar_year_code :: pystr
  ar_student_id :: pystr
  ar_mentor_id :: int
  ar_idempotency_key :: pystr
  ar_request_id :: "pystr option"
  ar_status :: pystr
  ar_metadata_json :: "pystr option"
  ar_policy_code :: pystr

record store =
  tb_students :: "StudentModel list"
  tb_mentors :: "MentorModel list"
  tb_allocations :: "AllocationRecord list"
  tb_outbox :: "OutboxRow list"

definition student_for_update :: "store \<Rightarrow> pystr \<Rightarrow> StudentModel option" where
  "student_for_update db k = find (\<lambda>s. st_national_id s = k) (tb_students db)"

definition mentor_for_update :: "store \<Rightarrow> int \<Rightarrow> MentorModel option" where
  "mentor_for_update db k = find (\<lambda>m. mn_mentor_id m = k) (tb_mentors db)"

definition get_by_idempotency_key :: "store \<Rightarrow> pystr \<Rightarrow> AllocationRecord option" where
  "get_by_idempotency_key db k = find (\<lambda>a. ar_idempotency_key a = k) (tb_allocations db)"

definition get_by_student_year :: "store \<Rightarrow> pystr \<Rightarrow> pystr \<Rightarrow> AllocationRecord option" where
  "get_by_student_year db s y =
     find (\<lambda>a. ar_student_id a = s \<and> ar_year_code a = y) (tb_allocations db)"

text \<open>
  What the flush of a new allocation and its event checks: the primary key, the unique columns,
  the pair of student and year, the foreign keys, the unique event id and the row checks.
\<close>

definition insert_ok :: "store \<Rightarrow> AllocationRecord \<Rightarrow> OutboxRow \<Rightarrow> bool" where
  "insert_ok db a o_row \<longleftrightarrow>
     list_all (\<lambda>b. ar_allocation_id b \<noteq> ar_allocation_id a \<and> ar_allocation_code b \<noteq> ar_allocation_code a \<and>
                   ar_idempotency_key b \<noteq> ar_idempotency_key a \<and>
                   \<not> (ar_student_id b = ar_student_id a \<and> ar_year_code b = ar_year_code a))
       (tb_allocations db) \<and>
     list_ex (\<lambda>s. st_national_id s = ar_student_id a) (tb_students db) \<and>
     list_ex (\<lambda>m. mn_mentor_id m = ar_mentor_id a) (tb_mentors db) \<and>
     list_all (\<lambda>r. ob_event_id r \<noteq> ob_event_id o_row) (tb_outbox db) \<and> row_ok o_row"

definition insert_rows :: "store \<Rightarrow> AllocationRecord \<Rightarrow> OutboxRow \<Rightarrow> store" where
  "insert_rows db a o_row =
     db\<lparr>tb_allocations := tb_allocations db @ [a], tb_outbox := tb_outbox db @ [o_row]\<rparr>"

section \<open>Requests\<close>

record AllocationRequest =
  rq_student_id :: pystr
  rq_mentor_id :: int
  rq_request_id :: "pystr option"
  rq_payload :: json
  rq_metadata :: json
  rq_year_code :: "pystr option"

datatype request_error = MENTOR_ID_INVALID | PAYLOAD_INVALID_JSON | PAYLOAD_NOT_MAPPING

definition normalize_mentor_field :: "ucd \<Rightarrow> pyval \<Rightarrow> request_error + int" where
  "normalize_mentor_field U value =
     (if value = PNone \<or> value = PStr [] then Inr 0
      else let text = normalize_identifier U value in
        if text = [] then Inr 0
        else case py_int text of Some n \<Rightarrow> Inr n | None \<Rightarrow> Inl MENTOR_ID_INVALID)"

definition normalize_request_field :: "ucd \<Rightarrow> pyval \<Rightarrow> pystr option" where
  "normalize_request_field U value =
     (if value = PNone \<or> value = PStr [] then None
      else let text = normalize_identifier U value in if text = [] then None else Some text)"

text \<open>
  \<^verbatim>\<open>_ensure_dict\<close> over \<^verbatim>\<open>json.loads\<close>; JSON text that parses to no dict passes the validator and
  is refused by the declared type of the field.
\<close>

definition ensure_dict :: "(pystr \<Rightarrow> json option) \<Rightarrow> json \<Rightarrow> request_error + json" where
  "ensure_dict loads value =
     (case value of
        JNull \<Rightarrow> Inr (JDict [])
      | JStr s \<Rightarrow>
          if s = [] then Inr (JDict [])
          else (case loads s of
                  None \<Rightarrow> Inl PAYLOAD_INVALID_JSON
                | Some j \<Rightarrow> (case j of JDict d \<Rightarrow> Inr j | _ \<Rightarrow> Inl PAYLOAD_NOT_MAPPING))
      | JDict d \<Rightarrow> Inr value
      | _ \<Rightarrow> Inl PAYLOAD_NOT_MAPPING)"

definition make_request ::
  "ucd \<Rightarrow> (pystr \<Rightarrow> json option) \<Rightarrow> pyval \<Rightarrow> pyval \<Rightarrow> pyval \<Rightarrow> json \<Rightarrow> json \<Rightarrow> pystr option \<Rightarrow>
   request_error + AllocationRequest" where
  "make_request U loads student_id mentor_id request_id payload metadata year_code =
     rbind (normalize_mentor_field U mentor_id) (\<lambda>m.
     rbind (ensure_dict loads payload) (\<lambda>p.
     rbind (ensure_dict loads metadata) (\<lambda>md.
       Inr \<lparr>rq_student_id = normalize_identifier U student_id, rq_mentor_id = m,
            rq_request_id = normalize_request_field U request_id, rq_payload = p,
            rq_metadata = md, rq_year_code = year_code\<rparr>)))"

section \<open>Identifiers\<close>

record AllocationIdentifiers =
  id_allocation_id :: int
  id_year_code :: pystr
  id_allocation_code :: pystr

definition max_allocation_id :: "store \<Rightarrow> int" where
  "max_allocation_id db =
     (case map ar_allocation_id (tb_allocations db) of [] \<Rightarrow> 0 | x # xs \<Rightarrow> foldl max x xs)"

definition next_identifiers :: "nat \<Rightarrow> int \<Rightarrow> store \<Rightarrow> AllocationIdentifiers" where
  "next_identifiers legacy_width now_year db =
     (let year_code = fmt_0d 2 (now_year mod 100); next_id = max_allocation_id db + 1
      in \<lparr>id_allocation_id = next_id, id_year_code = year_code,
          id_allocation_code = year_code @ fmt_0d legacy_width next_id\<rparr>)"

section \<open>One attempt\<close>

record PolicyVerdict =
  pv_approved :: bool
  pv_code :: pystr

datatype alloc_status =
    OK | ALREADY_ASSIGNED | MENTOR_NOT_FOUND | STUDENT_NOT_FOUND | POLICY_REJECT | DRY_RUN

record AllocationResult =
  re_allocation_id :: "int option"
  re_allocation_code :: "pystr option"
  re_year_code :: "pystr option"
  re_mentor_id :: "int option"
  re_status :: alloc_status
  re_error_code :: "pystr option"
  re_idempotency_key :: pystr
  re_outbox_event_id :: "pystr option"

datatype tx_error =
    OperationalError | IntegrityError | UnitOfWorkError | EventInvalid event_error
  | KeyInvalid key_error | MetadataNotSerializable

record txenv =
  tx_ucd :: ucd
  tx_digests :: digests
  tx_policy :: "StudentModel \<Rightarrow> MentorModel \<Rightarrow> AllocationRequest \<Rightarrow> PolicyVerdict"
  tx_year_of :: "int \<Rightarrow> int"
  tx_isoformat :: "int \<Rightarrow> pystr"
  tx_legacy_width :: nat

datatype fault = NoFault | OperationalFault | CommitFault

record attempt =
  ta_fault :: fault
  ta_seq_now :: int
  ta_event_now :: int
  ta_interfere :: "store \<Rightarrow> store"

definition failed_result :: "alloc_status \<Rightarrow> pystr \<Rightarrow> pystr \<Rightarrow> AllocationResult" where
  "failed_result status code key =
     \<lparr>re_allocation_id = None, re_allocation_code = None, re_year_code = None, re_mentor_id = None,
      re_status = status, re_error_code = Some code, re_idempotency_key = key,
      re_outbox_event_id = None\<rparr>"

definition existing_result :: "digests \<Rightarrow> pystr \<Rightarrow> AllocationRecord \<Rightarrow> AllocationResult" where
  "existing_result H key a =
     \<lparr>re_allocation_id = Some (ar_allocation_id a), re_allocation_code = Some (ar_allocation_code a),
      re_year_code = Some (ar_year_code a), re_mentor_id = Some (ar_mentor_id a),
      re_status = ALREADY_ASSIGNED, re_error_code = Some (asc ''ALREADY_ASSIGNED''),
      re_idempotency_key = key, re_outbox_event_id = Some (derive_event_id H key)\<rparr>"

definition allocation_event :: "txenv \<Rightarrow> AllocationRecord \<Rightarrow> int \<Rightarrow> OutboxEvent" where
  "allocation_event E a now =
     (let event_id = derive_event_id (tx_digests E) (ar_idempotency_key a)
      in \<lparr>ev_event_id = event_id, ev_aggregate_type = asc ''Allocation'',
          ev_aggregate_id = py_str_int (ar_allocation_id a), ev_event_type = asc ''MentorAssigned'',
          ev_payload = JDict
            [(asc ''event_id'', JStr event_id), (asc ''allocation_id'', JInt (ar_allocation_id a)),
             (asc ''allocation_code'', JStr (ar_allocation_code a)),
             (asc ''year_code'', JStr (ar_year_code a)), (asc ''student_id'', JStr (ar_student_id a)),
             (asc ''mentor_id'', JInt (ar_mentor_id a)),
             (asc ''idempotency_key'', JStr (ar_idempotency_key a)),
             (asc ''status'', JStr (ar_status a)), (asc ''occurred_at'', JStr (tx_isoformat E now))],
          ev_occurred_at = now, ev_available_at = now, ev_retry_count = 0,
          ev_status = asc ''PENDING''\<rparr>)"

text \<open>
  How the body of the unit of work ends: a result that is committed with the rows it added, a
  result after its own rollback, or an exception, which rolls back.
\<close>

datatype body_end =
    Committing AllocationResult "(AllocationRecord \<times> OutboxRow) option"
  | RolledBack AllocationResult | Raised tx_error

definition metadata_json :: "json \<Rightarrow> pystr option option" where
  "metadata_json md =
     (if json_truthy md then map_option Some (dumps (asc '', '') (asc '': '') md) else Some None)"

text \<open>The flush of the new rows into the store as it is by then, and the handler of its IntegrityError.\<close>

definition write_rows ::
  "txenv \<Rightarrow> int \<Rightarrow> store \<Rightarrow> AllocationRecord \<Rightarrow> body_end" where
  "write_rows E event_now db1 a =
     (case to_model (allocation_event E a event_now) of
        Inl e \<Rightarrow> Raised (EventInvalid e)
      | Inr o_row \<Rightarrow>
          if insert_ok db1 a o_row then
            Committing
              \<lparr>re_allocation_id = Some (ar_allocation_id a), re_allocation_code = Some (ar_allocation_code a),
               re_year_code = Some (ar_year_code a), re_mentor_id = Some (ar_mentor_id a),
               re_status = OK, re_error_code = None, re_idempotency_key = ar_idempotency_key a,
               re_outbox_event_id = Some (derive_event_id (tx_digests E) (ar_idempotency_key a))\<rparr>
              (Some (a, o_row))
          else
            (let existing = get_by_idempotency_key db1 (ar_idempotency_key a);
                 existing = (if existing = None \<and> ar_year_code a \<noteq> []
                             then get_by_student_year db1 (ar_student_id a) (ar_year_code a)
                             else existing)
             in case existing of
                  Some x \<Rightarrow> RolledBack (existing_result (tx_digests E) (ar_idempotency_key a) x)
                | None \<Rightarrow> Raised IntegrityError))"

text \<open>The body up to the new record: an early return (or exception), or the record to write.\<close>

definition prepare_record ::
  "txenv \<Rightarrow> AllocationRequest \<Rightarrow> bool \<Rightarrow> attempt \<Rightarrow> pystr \<Rightarrow> store \<Rightarrow> body_end + AllocationRecord" where
  "prepare_record E req dry_run att key db =
     (case get_by_idempotency_key db key of
        Some existing \<Rightarrow> Inl (Committing (existing_result (tx_digests E) key existing) None)
      | None \<Rightarrow>
     (case mentor_for_update db (rq_mentor_id req) of
        None \<Rightarrow> Inl (Committing (failed_result MENTOR_NOT_FOUND (asc ''MENTOR_NOT_FOUND'') key) None)
      | Some mentor \<Rightarrow>
     (case student_for_update db (rq_student_id req) of
        None \<Rightarrow> Inl (Committing (failed_result STUDENT_NOT_FOUND (asc ''STUDENT_NOT_FOUND'') key) None)
      | Some student \<Rightarrow>
     (let verdict = tx_policy E student mentor req in
      if \<not> pv_approved verdict then
        Inl (Committing (failed_result POLICY_REJECT
          (if pv_code verdict = [] then asc ''POLICY_REJECT'' else pv_code verdict) key) None)
      else if dry_run then
        Inl (Committing
          \<lparr>re_allocation_id = None, re_allocation_code = None, re_year_code = rq_year_code req,
           re_mentor_id = Some (mn_mentor_id mentor), re_status = DRY_RUN, re_error_code = None,
           re_idempotency_key = key, re_outbox_event_id = None\<rparr> None)
      else
        let identifiers = next_identifiers (tx_legacy_width E) (tx_year_of E (ta_seq_now att)) db
        in case metadata_json (rq_metadata req) of
             None \<Rightarrow> Inl (Raised MetadataNotSerializable)
           | Some md \<Rightarrow>
               Inr \<lparr>ar_allocation_id = id_allocation_id identifiers,
                    ar_allocation_code = id_allocation_code identifiers,
                    ar_year_code = id_year_code identifiers,
                    ar_student_id = st_national_id student, ar_mentor_id = mn_mentor_id mentor,
                    ar_idempotency_key = key, ar_request_id = rq_request_id req,
                    ar_status = asc ''CONFIRMED'', ar_metadata_json = md,
                    ar_policy_code = pv_code verdict\<rparr>))))"

definition allocate_body ::
  "txenv \<Rightarrow> AllocationRequest \<Rightarrow> bool \<Rightarrow> attempt \<Rightarrow> pystr \<Rightarrow> store \<Rightarrow> store \<Rightarrow> body_end" where
  "allocate_body E req dry_run att key db db1 =
     (case prepare_record E req dry_run att key db of
        Inl outcome \<Rightarrow> outcome | Inr a \<Rightarrow> write_rows E (ta_event_now att) db1 a)"

text \<open>Leaving the unit of work: \<^verbatim>\<open>__exit__\<close> with its commit or rollback.\<close>

definition uow_exit :: "fault \<Rightarrow> body_end \<Rightarrow> store \<Rightarrow> (tx_error + AllocationResult) \<times> store" where
  "uow_exit flt outcome db1 =
     (case outcome of
        Raised e \<Rightarrow> (Inl e, db1)
      | RolledBack r \<Rightarrow> (Inr r, db1)
      | Committing r rows \<Rightarrow>
          if flt = CommitFault then (Inl UnitOfWorkError, db1)
          else (Inr r, case rows of None \<Rightarrow> db1 | Some (a, o_row) \<Rightarrow> insert_rows db1 a o_row))"

definition request_key :: "txenv \<Rightarrow> AllocationRequest \<Rightarrow> key_error + pystr" where
  "request_key E req =
     derive_idempotency_key (tx_ucd E) (tx_digests E) (PStr (rq_student_id req)) (PInt (rq_mentor_id req))
       (case rq_request_id req of None \<Rightarrow> PNone | Some r \<Rightarrow> PStr r) (rq_payload req)"

definition execute_once ::
  "txenv \<Rightarrow> AllocationRequest \<Rightarrow> bool \<Rightarrow> attempt \<Rightarrow> store \<Rightarrow> (tx_error + AllocationResult) \<times> store" where
  "execute_once E req dry_run att db =
     (let db1 = ta_interfere att db
      in case request_key E req of
           Inl e \<Rightarrow> (Inl (KeyInvalid e), db1)
         | Inr key \<Rightarrow>
             if ta_fault att = OperationalFault then (Inl OperationalError, db1)
             else uow_exit (ta_fault att) (allocate_body E req dry_run att key db db1) db1)"

section \<open>The retry loop\<close>

definition tx_backoff :: "int \<Rightarrow> pyfloat" where
  "tx_backoff n = min (fmul (1 / 2) (2 ^ nat n)) 5"

text \<open>The attempts are given by their number from 0; the pauses are returned in order.\<close>

function allocate_loop ::
  "txenv \<Rightarrow> int \<Rightarrow> AllocationRequest \<Rightarrow> bool \<Rightarrow> (int \<Rightarrow> attempt) \<Rightarrow> int \<Rightarrow> store \<Rightarrow>
   ((tx_error + AllocationResult) \<times> store) \<times> pyfloat list" where
  "allocate_loop E limit req dry_run atts n db =
     (let (r, db') = execute_once E req dry_run (atts n) db
      in if r \<noteq> Inl OperationalError then ((r, db'), [])
         else if n + 1 > limit then ((r, db'), [])
         else let (res, pauses) = allocate_loop E limit req dry_run atts (n + 1) db'
              in (res, tx_backoff (n + 1) # pauses))"
  by pat_completeness auto
termination
  by (relation "measure (\<lambda>(E, limit, req, dry_run, atts, n, db). nat (limit + 1 - n))") auto

declare allocate_loop.simps [simp del]

definition allocate ::
  "txenv \<Rightarrow> int \<Rightarrow> AllocationRequest \<Rightarrow> bool \<Rightarrow> (int \<Rightarrow> attempt) \<Rightarrow> store \<Rightarrow>
   ((tx_error + AllocationResult) \<times> store) \<times> pyfloat list" where
  "allocate E limit req dry_run atts db = allocate_loop E limit req dry_run atts 0 db"

section \<open>The invariant of the store\<close>

text \<open>
  Keys are unique, every allocation refers to a student and a mentor, and the allocations and
  the events in the outbox correspond one to one, in the order in which they were committed.
\<close>

definition store_inv :: "digests \<Rightarrow> store \<Rightarrow> bool" where
  "store_inv H db \<longleftrightarrow>
     distinct (map ar_allocation_id (tb_allocations db)) \<and>
     distinct (map ar_allocation_code (tb_allocations db)) \<and>
     distinct (map ar_idempotency_key (tb_allocations db)) \<and>
     distinct (map (\<lambda>a. (ar_student_id a, ar_year_code a)) (tb_allocations db)) \<and>
     distinct (ids (tb_outbox db)) \<and> list_all row_ok (tb_outbox db) \<and>
     (\<forall>a \<in> set (tb_allocations db). ar_student_id a \<in> st_national_id ` set (tb_students db) \<and>
                                  ar_mentor_id a \<in> mn_mentor_id ` set (tb_mentors db)) \<and>
     map (\<lambda>r. (ob_event_id r, ob_aggregate_id r)) (tb_outbox db) =
     map (\<lambda>a. (derive_event_id H (ar_idempotency_key a), py_str_int (ar_allocation_id a))) (tb_allocations db)"

lemma insert_rows_inv:
  assumes "store_inv H db" and "insert_ok db a r"
    and "ob_event_id r = derive_event_id H (ar_idempotency_key a)"
    and "ob_aggregate_id r = py_str_int (ar_allocation_id a)"
  shows "store_inv H (insert_rows db a r)"
  using assms
  by (auto simp: store_inv_def insert_ok_def insert_rows_def list_all_iff list_ex_iff ids_def image_iff)
    metis+

lemma write_rows_cases:
  assumes "write_rows E now db1 a = outcome"
  obtains (fail) e where "outcome = Raised e" "e \<noteq> OperationalError"
  | (dup) x where "outcome = RolledBack (existing_result (tx_digests E) (ar_idempotency_key a) x)"
      "x \<in> set (tb_allocations db1)"
      "ar_idempotency_key x = ar_idempotency_key a \<or>
       (ar_student_id x = ar_student_id a \<and> ar_year_code x = ar_year_code a)"
  | (wrote) r res where "outcome = Committing res (Some (a, r))" "insert_ok db1 a r"
      "to_model (allocation_event E a now) = Inr r" "re_status res = OK"
      "re_allocation_id res = Some (ar_allocation_id a)" "re_mentor_id res = Some (ar_mentor_id a)"
      "re_allocation_code res = Some (ar_allocation_code a)" "re_year_code res = Some (ar_year_code a)"
      "re_idempotency_key res = ar_idempotency_key a"
      "re_outbox_event_id res = Some (ob_event_id r)"
proof (cases "to_model (allocation_event E a now)")
  case (Inl e)
  then show ?thesis using assms fail by (auto simp: write_rows_def)
next
  case (Inr r)
  show ?thesis
  proof (cases "insert_ok db1 a r")
    case True
    then show ?thesis
      using assms Inr wrote to_model_fields [OF Inr]
      by (auto simp: write_rows_def allocation_event_def Let_def)
  next
    case False
    let ?x = "if get_by_idempotency_key db1 (ar_idempotency_key a) = None \<and> ar_year_code a \<noteq> []
              then get_by_student_year db1 (ar_student_id a) (ar_year_code a)
              else get_by_idempotency_key db1 (ar_idempotency_key a)"
    show ?thesis
    proof (cases ?x)
      case None
      then show ?thesis using assms Inr False fail by (auto simp: write_rows_def Let_def)
    next
      case (Some x)
      then have "x \<in> set (tb_allocations db1) \<and> (ar_idempotency_key x = ar_idempotency_key a \<or>
         (ar_student_id x = ar_student_id a \<and> ar_year_code x = ar_year_code a))"
        by (auto simp: get_by_idempotency_key_def get_by_student_year_def find_Some_iff split: if_split_asm)
      then show ?thesis using assms Inr False Some dup by (auto simp: write_rows_def Let_def)
    qed
  qed
qed

text \<open>The body ends early without a success, or it has a new record to write.\<close>

lemma prepare_record_cases:
  obtains (early) res where "prepare_record E req dry att key db = Inl (Committing res None)" "re_status res \<noteq> OK"
      "get_by_idempotency_key db key = None \<Longrightarrow> re_status res \<noteq> ALREADY_ASSIGNED"
  | (new) a where "prepare_record E req dry att key db = Inr a" "\<not> dry"
      "ar_idempotency_key a = key" "get_by_idempotency_key db key = None"
      "ar_student_id a = rq_student_id req" "ar_mentor_id a = rq_mentor_id req"
      "ar_allocation_id a = max_allocation_id db + 1"
      "ar_year_code a = fmt_0d 2 (tx_year_of E (ta_seq_now att) mod 100)"
      "ar_allocation_code a = ar_year_code a @ fmt_0d (tx_legacy_width E) (max_allocation_id db + 1)"
  | (meta) "prepare_record E req dry att key db = Inl (Raised MetadataNotSerializable)"
proof (cases "get_by_idempotency_key db key")
  case (Some x)
  then show ?thesis using early by (auto simp: prepare_record_def existing_result_def)
next
  case noprev: None
  show ?thesis
  proof (cases "mentor_for_update db (rq_mentor_id req)")
    case None
    then show ?thesis using early noprev by (auto simp: prepare_record_def failed_result_def)
  next
    case m: (Some m)
    then have mid: "mn_mentor_id m = rq_mentor_id req"
      by (auto simp: mentor_for_update_def find_Some_iff)
    show ?thesis
    proof (cases "student_for_update db (rq_student_id req)")
      case None
      then show ?thesis using early noprev m by (auto simp: prepare_record_def failed_result_def)
    next
      case (Some s)
      then have sid: "st_national_id s = rq_student_id req"
        by (auto simp: student_for_update_def find_Some_iff)
      let ?v = "tx_policy E s m req"
      consider "\<not> pv_approved ?v" | "pv_approved ?v" "dry" | "pv_approved ?v" "\<not> dry" by blast
      then show ?thesis
      proof cases
        case 3
        show ?thesis
        proof (cases "metadata_json (rq_metadata req)")
          case None
          show ?thesis by (rule meta) (use 3 noprev m Some None in \<open>simp add: prepare_record_def\<close>)
        next
          case md: (Some md)
          have "prepare_record E req dry att key db = Inr \<lparr>
              ar_allocation_id = id_allocation_id (next_identifiers (tx_legacy_width E) (tx_year_of E (ta_seq_now att)) db),
              ar_allocation_code = id_allocation_code (next_identifiers (tx_legacy_width E) (tx_year_of E (ta_seq_now att)) db),
              ar_year_code = id_year_code (next_identifiers (tx_legacy_width E) (tx_year_of E (ta_seq_now att)) db),
              ar_student_id = st_national_id s, ar_mentor_id = mn_mentor_id m, ar_idempotency_key = key,
              ar_request_id = rq_request_id req, ar_status = asc ''CONFIRMED'', ar_metadata_json = md,
              ar_policy_code = pv_code ?v\<rparr>"
            using 3 noprev m Some md by (simp add: prepare_record_def Let_def)
          then show ?thesis
            by (rule new) (use 3 noprev mid sid in \<open>simp_all add: next_identifiers_def Let_def\<close>)
        qed
      next
        case 1
        then have "prepare_record E req dry att key db = Inl (Committing (failed_result POLICY_REJECT
            (if pv_code ?v = [] then asc ''POLICY_REJECT'' else pv_code ?v) key) None)"
          using noprev m Some by (simp add: prepare_record_def)
        then show ?thesis by (rule early) (simp_all add: failed_result_def)
      next
        case 2
        then have "prepare_record E req dry att key db = Inl (Committing
            \<lparr>re_allocation_id = None, re_allocation_code = None, re_year_code = rq_year_code req,
             re_mentor_id = Some (mn_mentor_id m), re_status = DRY_RUN, re_error_code = None,
             re_idempotency_key = key, re_outbox_event_id = None\<rparr> None)"
          using noprev m Some by (simp add: prepare_record_def)
        then show ?thesis by (rule early) simp_all
      qed
    qed
  qed
qed

lemma uow_exit_unfold:
  "uow_exit flt (Committing r rows) db1 =
     (if flt = CommitFault then (Inl UnitOfWorkError, db1)
      else (Inr r, case rows of None \<Rightarrow> db1 | Some (a, o_row) \<Rightarrow> insert_rows db1 a o_row))"
  "uow_exit flt (RolledBack r) db1 = (Inr r, db1)"
  "uow_exit flt (Raised e) db1 = (Inl e, db1)"
  by (simp_all add: uow_exit_def)

text \<open>An attempt changes nothing, or it succeeds and adds one allocation with its event.\<close>

lemma execute_once_cases:
  assumes "execute_once E req dry att db = (res, db')"
  obtains (same) "db' = ta_interfere att db" "\<And>x. res = Inr x \<Longrightarrow> re_status x \<noteq> OK"
  | (added) a r x where "db' = insert_rows (ta_interfere att db) a r" "insert_ok (ta_interfere att db) a r"
      "to_model (allocation_event E a (ta_event_now att)) = Inr r" "res = Inr x" "\<not> dry"
      "request_key E req = Inr (ar_idempotency_key a)"
      "re_status x = OK" "re_allocation_id x = Some (ar_allocation_id a)"
      "re_mentor_id x = Some (ar_mentor_id a)" "re_idempotency_key x = ar_idempotency_key a"
      "re_allocation_code x = Some (ar_allocation_code a)" "re_year_code x = Some (ar_year_code a)"
      "re_outbox_event_id x = Some (ob_event_id r)"
      "ar_student_id a = rq_student_id req" "ar_mentor_id a = rq_mentor_id req"
      "ar_allocation_id a = max_allocation_id db + 1"
proof (cases "request_key E req")
  case (Inl e)
  then show ?thesis using assms same by (auto simp: execute_once_def Let_def)
next
  case (Inr key)
  show ?thesis
  proof (cases "ta_fault att = OperationalFault")
    case True
    then show ?thesis using assms Inr same by (auto simp: execute_once_def Let_def)
  next
    case False
    let ?db1 = "ta_interfere att db"
    have ex: "uow_exit (ta_fault att) (allocate_body E req dry att key db ?db1) ?db1 = (res, db')"
      using assms Inr False by (simp add: execute_once_def Let_def)
    show ?thesis
    proof (cases rule: prepare_record_cases [of E req dry att key db])
      case (early r)
      then show ?thesis using ex same by (auto simp: allocate_body_def uow_exit_unfold split: if_split_asm)
    next
      case meta
      then show ?thesis using ex same by (auto simp: allocate_body_def uow_exit_unfold)
    next
      case (new a)
      then have wrote: "allocate_body E req dry att key db ?db1 = write_rows E (ta_event_now att) ?db1 a"
        by (simp add: allocate_body_def)
      show ?thesis
      proof (cases rule: write_rows_cases [OF refl, of E "ta_event_now att" ?db1 a])
        case (1 e)
        then show ?thesis using ex wrote same by (auto simp: uow_exit_unfold)
      next
        case (2 x)
        then show ?thesis using ex wrote same by (auto simp: uow_exit_unfold existing_result_def)
      next
        case w: (3 r x)
        show ?thesis
        proof (cases "ta_fault att = CommitFault")
          case True
          then show ?thesis using ex wrote w(1) same by (auto simp: uow_exit_unfold)
        next
          case False
          then have "res = Inr x" "db' = insert_rows ?db1 a r"
            using ex wrote w(1) by (auto simp: uow_exit_unfold)
          then show ?thesis using added w new Inr by metis
        qed
      qed
    qed
  qed
qed

lemma execute_once_operational:
  "fst (execute_once E req dry att db) = Inl OperationalError \<Longrightarrow> ta_fault att = OperationalFault"
proof (rule ccontr)
  let ?db1 = "ta_interfere att db"
  assume op: "fst (execute_once E req dry att db) = Inl OperationalError" "ta_fault att \<noteq> OperationalFault"
  then obtain key where "fst (uow_exit (ta_fault att) (allocate_body E req dry att key db ?db1) ?db1)
      = Inl OperationalError"
    by (cases "request_key E req") (auto simp: execute_once_def Let_def)
  then have body: "allocate_body E req dry att key db ?db1 = Raised OperationalError"
    by (cases "allocate_body E req dry att key db ?db1") (auto simp: uow_exit_unfold split: if_split_asm)
  show False
  proof (cases rule: prepare_record_cases [of E req dry att key db])
    case (new a)
    then have w: "write_rows E (ta_event_now att) ?db1 a = Raised OperationalError"
      using body by (simp add: allocate_body_def)
    show ?thesis by (cases rule: write_rows_cases [OF w]) auto
  qed (use body in \<open>auto simp: allocate_body_def\<close>)
qed

lemma execute_once_inv:
  assumes "store_inv (tx_digests E) (ta_interfere att db)"
  shows "store_inv (tx_digests E) (snd (execute_once E req dry att db))"
proof -
  obtain res db' where ex: "execute_once E req dry att db = (res, db')" by fastforce
  show ?thesis
  proof (cases rule: execute_once_cases [OF ex])
    case 1
    then show ?thesis using assms ex by simp
  next
    case (2 a r x)
    then show ?thesis
      using insert_rows_inv [OF assms 2(2)] to_model_fields [OF 2(3)] ex
      by (simp add: allocation_event_def Let_def)
  qed
qed

lemma find_unique:
  assumes "distinct (map f xs)" and "x \<in> set xs"
  shows "find (\<lambda>y. f y = f x) xs = Some x"
  using assms by (induction xs) auto

lemma foldl_max_ge: "(x::int) \<le> foldl max x xs \<and> (\<forall>y \<in> set xs. y \<le> foldl max x xs)"
proof (induction xs arbitrary: x)
  case (Cons y ys)
  have "max x y \<le> foldl max (max x y) ys" "\<forall>z \<in> set ys. z \<le> foldl max (max x y) ys"
    using Cons.IH [of "max x y"] by blast+
  then show ?case by auto
qed simp

lemma max_allocation_id_ge: "a \<in> set (tb_allocations db) \<Longrightarrow> ar_allocation_id a \<le> max_allocation_id db"
proof (cases "map ar_allocation_id (tb_allocations db)")
  case (Cons x xs)
  assume "a \<in> set (tb_allocations db)"
  then have "ar_allocation_id a \<in> set (x # xs)" using Cons by (metis image_eqI list.set_map)
  then show ?thesis using foldl_max_ge [of x xs] Cons by (auto simp: max_allocation_id_def)
qed auto

section \<open>The retry loop\<close>

lemma tx_backoff_range: "1 \<le> n \<Longrightarrow> 1 \<le> tx_backoff n \<and> tx_backoff n \<le> 5"
proof -
  assume "1 \<le> n"
  then have "fmul (1/2) (2 ^ 1) \<le> fmul (1/2) (2 ^ nat n)" by (intro fmul_pow2_mono) auto
  moreover have "fmul (1/2) (2 ^ 1) = 1" by code_simp
  ultimately show ?thesis by (simp add: tx_backoff_def)
qed

lemma allocate_loop_inv:
  "(\<And>i s. store_inv (tx_digests E) s \<Longrightarrow> store_inv (tx_digests E) (ta_interfere (atts i) s)) \<Longrightarrow>
     store_inv (tx_digests E) db \<Longrightarrow>
     store_inv (tx_digests E) (snd (fst (allocate_loop E limit req dry atts n db)))"
proof (induction E limit req dry atts n db rule: allocate_loop.induct)
  case (1 E limit req dry atts n db)
  obtain r db' where ex: "execute_once E req dry (atts n) db = (r, db')" by fastforce
  have inv: "store_inv (tx_digests E) db'"
    using execute_once_inv [OF "1.prems"(1) [OF "1.prems"(2)]] ex by (metis snd_conv)
  show ?case
    using "1.IH" [OF ex [symmetric] refl] "1.prems"(1) inv ex
    by (subst allocate_loop.simps) (auto simp: Let_def split: prod.splits)
qed

lemma allocate_loop_pauses:
  "0 \<le> n \<Longrightarrow> allocate_loop E limit req dry atts n db = ((res, db'), pauses) \<Longrightarrow>
     int (length pauses) \<le> max 0 (limit - n) \<and> list_all (\<lambda>p. 1 \<le> p \<and> p \<le> 5) pauses \<and>
     (res = Inl OperationalError \<longrightarrow>
        (\<forall>i. n \<le> i \<and> i \<le> max n limit \<longrightarrow> ta_fault (atts i) = OperationalFault))"
proof (induction E limit req dry atts n db arbitrary: res db' pauses rule: allocate_loop.induct)
  case (1 E limit req dry atts n db)
  obtain r db1 where ex: "execute_once E req dry (atts n) db = (r, db1)" by fastforce
  have flt: "ta_fault (atts n) = OperationalFault" if "r = Inl OperationalError"
    using execute_once_operational [of E req dry "atts n" db] ex that by simp
  show ?case
  proof (cases "r \<noteq> Inl OperationalError \<or> n + 1 > limit")
    case True
    then have "pauses = []" "res = r"
      using "1.prems"(2) ex by (subst (asm) allocate_loop.simps, auto simp: Let_def split: if_split_asm)+
    then show ?thesis using True flt by auto
  next
    case False
    obtain res2 db2 p2 where rec: "allocate_loop E limit req dry atts (n + 1) db1 = ((res2, db2), p2)"
      by (metis prod.collapse)
    have eqs: "res = res2" "pauses = tx_backoff (n + 1) # p2"
      using "1.prems"(2) ex False rec
      by (subst (asm) allocate_loop.simps, auto simp: Let_def)+
    have IH: "int (length p2) \<le> max 0 (limit - (n + 1)) \<and> list_all (\<lambda>p. 1 \<le> p \<and> p \<le> 5) p2 \<and>
     (res2 = Inl OperationalError \<longrightarrow>
        (\<forall>i. n + 1 \<le> i \<and> i \<le> max (n + 1) limit \<longrightarrow> ta_fault (atts i) = OperationalFault))"
      using "1.IH" [OF ex [symmetric] refl _ _ _ rec] False "1.prems"(1) by auto
    have "ta_fault (atts i) = OperationalFault"
      if "res2 = Inl OperationalError" "n \<le> i" "i \<le> max n limit" for i
      using IH that flt False by (cases "i = n") auto
    then show ?thesis using IH False eqs tx_backoff_range [of "n + 1"] "1.prems"(1) by auto
  qed
qed

lemma execute_once_existing:
  assumes "request_key E req = Inr k" and "ta_fault att = NoFault"
    and "distinct (map ar_idempotency_key (tb_allocations db))"
    and "a \<in> set (tb_allocations db)" and "ar_idempotency_key a = k"
  shows "execute_once E req dry att db = (Inr (existing_result (tx_digests E) k a), ta_interfere att db)"
proof -
  have "get_by_idempotency_key db k = Some a"
    using find_unique [OF assms(3,4)] assms(5) by (simp add: get_by_idempotency_key_def)
  then show ?thesis
    using assms(1,2) by (simp add: execute_once_def allocate_body_def prepare_record_def uow_exit_unfold Let_def)
qed

section \<open>A concrete instance\<close>

definition sample_env :: txenv where
  "sample_env =
     \<lparr>tx_ucd = ascii_ucd, tx_digests = plain_digests,
      tx_policy = (\<lambda>s m r. \<lparr>pv_approved = mn_current_load m < mn_capacity m, pv_code = asc ''STD''\<rparr>),
      tx_year_of = (\<lambda>t. 2025), tx_isoformat = (\<lambda>t. asc ''2025-01-01''), tx_legacy_width = 8\<rparr>"

definition sample_store :: store where
  "sample_store =
     \<lparr>tb_students = [\<lparr>st_national_id = asc ''11'', st_gender = 0, st_edu_status = 1, st_reg_center = 1,
                     st_reg_status = 1, st_group_code = 3, st_school_code = None\<rparr>,
                    \<lparr>st_national_id = asc ''12'', st_gender = 1, st_edu_status = 1, st_reg_center = 1,
                     st_reg_status = 1, st_group_code = 3, st_school_code = None\<rparr>],
      tb_mentors = [\<lparr>mn_mentor_id = 7, mn_gender = 0, mn_capacity = 5, mn_current_load = 0, mn_is_active = True\<rparr>,
                    \<lparr>mn_mentor_id = 8, mn_gender = 0, mn_capacity = 5, mn_current_load = 0, mn_is_active = True\<rparr>],
      tb_allocations = [], tb_outbox = []\<rparr>"

definition sample_request :: "string \<Rightarrow> int \<Rightarrow> AllocationRequest" where
  "sample_request s m =
     \<lparr>rq_student_id = asc s, rq_mentor_id = m, rq_request_id = Some (asc ''r''), rq_payload = JDict [],
      rq_metadata = JDict [(asc ''k'', JInt 1)], rq_year_code = None\<rparr>"

definition quiet :: attempt where
  "quiet = \<lparr>ta_fault = NoFault, ta_seq_now = 0, ta_event_now = 1, ta_interfere = (\<lambda>db. db)\<rparr>"

definition store_after_11 :: store where
  "store_after_11 = snd (execute_once sample_env (sample_request ''11'' 7) False quiet sample_store)"

section \<open>Properties\<close>

text \<open>
  C3 store_invariant_preserved: Whatever faults, retries, clock readings and interfering
  transactions there are (of which each keeps the invariant), \<^verbatim>\<open>allocate\<close> keeps the unique keys,
  the references, and the one-to-one correspondence between allocations and outbox events.
\<close>

theorem store_invariant_preserved:
  assumes "store_inv (tx_digests E) db"
    and "\<And>i s. store_inv (tx_digests E) s \<Longrightarrow> store_inv (tx_digests E) (ta_interfere (atts i) s)"
  shows "store_inv (tx_digests E) (snd (fst (allocate E limit req dry_run atts db)))"
  unfolding allocate_def using assms(2,1) by (rule allocate_loop_inv)

theorem store_invariant_preserved_witness:
  "store_inv plain_digests (snd (fst (allocate sample_env 3 (sample_request ''11'' 7) False (\<lambda>i. quiet) sample_store)))"
proof -
  have "tx_digests sample_env = plain_digests" by (simp add: sample_env_def)
  moreover have "store_inv plain_digests sample_store"
    by (simp add: store_inv_def sample_store_def ids_def)
  ultimately show ?thesis
    using store_invariant_preserved [of sample_env sample_store "\<lambda>i. quiet"] by (simp add: quiet_def)
qed

text \<open>
  C4 attempt_is_atomic: An attempt that reports OK has added exactly one confirmed
  allocation for the requested student and mentor, with the next free id, and exactly one
  pending event that names it; any other result (a rejection, a dry run, a duplicate, an
  exception, a failed commit) leaves the store as the other transactions made it.
\<close>

theorem attempt_is_atomic:
  "case execute_once E req dry_run att db of (res, db') \<Rightarrow>
     (case res of
        Inl e \<Rightarrow> db' = ta_interfere att db
      | Inr x \<Rightarrow>
          if re_status x = OK then
            \<not> dry_run \<and>
            (\<exists>a r. db' = insert_rows (ta_interfere att db) a r \<and>
               ar_student_id a = rq_student_id req \<and> ar_mentor_id a = rq_mentor_id req \<and>
               ar_allocation_id a = max_allocation_id db + 1 \<and>
               Inr (ar_idempotency_key a) = request_key E req \<and>
               re_allocation_id x = Some (ar_allocation_id a) \<and> re_mentor_id x = Some (ar_mentor_id a) \<and>
               re_outbox_event_id x = Some (ob_event_id r) \<and> ob_status r = PENDING \<and> ob_retry_count r = 0 \<and>
               ob_aggregate_id r = py_str_int (ar_allocation_id a))
          else db' = ta_interfere att db)"
proof -
  obtain res db' where ex: "execute_once E req dry_run att db = (res, db')" by fastforce
  show ?thesis
  proof (cases rule: execute_once_cases [OF ex])
    case 1
    then show ?thesis using ex by (auto split: sum.splits)
  next
    case (2 a r x)
    have "status_name (ob_status r) = asc ''PENDING''" "ob_retry_count r = 0"
      "ob_aggregate_id r = py_str_int (ar_allocation_id a)"
      using to_model_fields [OF 2(3)] by (simp_all add: allocation_event_def Let_def)
    moreover have "ob_status r = PENDING"
      using calculation(1) by (cases "ob_status r") (simp_all add: asc_def)
    ultimately show ?thesis
      using ex 2 by (simp, intro exI [of _ a] exI [of _ r], simp)
  qed
qed

text \<open>
  C5 replay_returns_first_result: Once a request has succeeded, sending it again (as a dry
  run too), at any later time, returns ALREADY_ASSIGNED with the ids, the mentor and the event id
  of the first success, and adds nothing, as long as the allocation is still in the store.
\<close>

theorem replay_returns_first_result:
  assumes "execute_once E req False att db = (Inr x, db')" and "re_status x = OK"
    and "set (tb_allocations db') \<subseteq> set (tb_allocations later)"
    and "distinct (map ar_idempotency_key (tb_allocations later))" and "ta_fault att2 = NoFault"
  shows "\<exists>y. execute_once E req dry_run att2 later = (Inr y, ta_interfere att2 later) \<and>
    re_status y = ALREADY_ASSIGNED \<and> re_allocation_id y = re_allocation_id x \<and>
    re_allocation_code y = re_allocation_code x \<and> re_year_code y = re_year_code x \<and>
    re_mentor_id y = re_mentor_id x \<and> re_idempotency_key y = re_idempotency_key x \<and>
    re_outbox_event_id y = re_outbox_event_id x"
proof (cases rule: execute_once_cases [OF assms(1)])
  case 1
  then show ?thesis using assms(2) by auto
next
  case (2 a r x')
  have ev: "ob_event_id r = derive_event_id (tx_digests E) (ar_idempotency_key a)"
    using to_model_fields [OF 2(3)] by (simp add: allocation_event_def Let_def)
  have "a \<in> set (tb_allocations later)" using assms(3) 2(1) by (auto simp: insert_rows_def)
  then have "execute_once E req dry_run att2 later =
      (Inr (existing_result (tx_digests E) (ar_idempotency_key a) a), ta_interfere att2 later)"
    using execute_once_existing [OF 2(6) assms(5,4)] by blast
  then show ?thesis using 2 ev by (simp add: existing_result_def)
qed

theorem replay_returns_first_result_witness:
  "\<exists>y. execute_once sample_env (sample_request ''11'' 7) True quiet store_after_11 = (Inr y, store_after_11) \<and>
       re_status y = ALREADY_ASSIGNED \<and> re_allocation_id y = Some 1"
proof -
  let ?o = "execute_once sample_env (sample_request ''11'' 7) False quiet sample_store"
  have "case fst ?o of Inl e \<Rightarrow> False | Inr x \<Rightarrow> re_status x = OK \<and> re_allocation_id x = Some 1" by code_simp
  then obtain x where x: "fst ?o = Inr x" "re_status x = OK" "re_allocation_id x = Some 1"
    by (auto split: sum.splits)
  have o: "?o = (Inr x, store_after_11)" using x(1) unfolding store_after_11_def by (metis prod.collapse)
  have "distinct (map ar_idempotency_key (tb_allocations store_after_11))"
    unfolding store_after_11_def by code_simp
  with replay_returns_first_result [OF o x(2) subset_refl, of quiet True] show ?thesis
    using x(3) by (auto simp: quiet_def)
qed

text \<open>
  C40 retries_are_bounded: \<^verbatim>\<open>allocate\<close> pauses at most \<open>max_retries\<close> times, each time between one
  and five seconds, and gives up with an OperationalError only if the first attempt and every
  retry failed with one; a failure of any other kind is not retried.
\<close>

theorem retries_are_bounded:
  assumes "0 \<le> limit" and "allocate E limit req dry_run atts db = ((res, db'), pauses)"
  shows "int (length pauses) \<le> limit \<and> list_all (\<lambda>p. 1 \<le> p \<and> p \<le> 5) pauses \<and>
    (res = Inl OperationalError \<longrightarrow>
       (\<forall>i. 0 \<le> i \<and> i \<le> limit \<longrightarrow> ta_fault (atts i) = OperationalFault))"
  using allocate_loop_pauses [of 0 E limit req dry_run atts db res db' pauses] assms
  by (simp add: allocate_def)

definition flaky :: "int \<Rightarrow> attempt" where
  "flaky i = quiet\<lparr>ta_fault := if i < 2 then OperationalFault else NoFault\<rparr>"

theorem retries_are_bounded_witness:
  "\<exists>x db'. allocate sample_env 3 (sample_request ''11'' 7) False flaky sample_store = ((Inr x, db'), [1, 2]) \<and>
           re_status x = OK \<and> int (length [1::pyfloat, 2]) \<le> 3"
proof -
  let ?o = "allocate sample_env 3 (sample_request ''11'' 7) False flaky sample_store"
  have "snd ?o = [1, 2]" "case fst (fst ?o) of Inl e \<Rightarrow> False | Inr x \<Rightarrow> re_status x = OK" by code_simp+
  then obtain x where o: "?o = ((Inr x, snd (fst ?o)), [1, 2])" "re_status x = OK"
    by (auto split: sum.splits) (metis prod.collapse)
  then show ?thesis
    using retries_are_bounded [OF _ o(1)] by (intro exI [of _ x] exI [of _ "snd (fst ?o)"]) auto
qed

text \<open>
  A student who already has an allocation in the current
  year keeps it: a request for another mentor (under a new key) reports ALREADY_ASSIGNED with the
  old allocation's ids and adds nothing. The event id it reports, derived from the new key, is
  the id of no event in the outbox, when UUID5 does not collide.
\<close>

theorem second_mentor_gets_no_event:
  assumes inv: "store_inv (tx_digests E) db" and key: "request_key E req = Inr key"
    and old: "old \<in> set (tb_allocations db)" "ar_student_id old = rq_student_id req"
      "ar_year_code old = fmt_0d 2 (tx_year_of E (ta_seq_now att) mod 100)"
    and new: "\<And>b. b \<in> set (tb_allocations db) \<Longrightarrow> ar_idempotency_key b \<noteq> key"
      "\<And>b. b \<in> set (tb_allocations db) \<Longrightarrow>
           derive_event_id (tx_digests E) (ar_idempotency_key b) \<noteq> derive_event_id (tx_digests E) key"
    and ex: "execute_once E req False att db = (Inr x, db')" "re_status x \<in> {OK, ALREADY_ASSIGNED}"
      "ta_interfere att db = db"
  shows "re_status x = ALREADY_ASSIGNED \<and> re_allocation_id x = Some (ar_allocation_id old) \<and>
    re_mentor_id x = Some (ar_mentor_id old) \<and> db' = db \<and>
    (\<exists>e. re_outbox_event_id x = Some e \<and> e \<notin> set (ids (tb_outbox db)))"
proof -
  have nf: "ta_fault att \<noteq> OperationalFault" using ex(1) key by (auto simp: execute_once_def Let_def)
  have body: "uow_exit (ta_fault att) (allocate_body E req False att key db db) db = (Inr x, db')"
    using ex(1,3) key nf by (simp add: execute_once_def Let_def)
  have none: "get_by_idempotency_key db key = None"
    using new(1) by (auto simp: get_by_idempotency_key_def find_None_iff)
  have ev: "derive_event_id (tx_digests E) key \<notin> set (ids (tb_outbox db))"
  proof -
    have "ids (tb_outbox db) = map fst (map (\<lambda>r. (ob_event_id r, ob_aggregate_id r)) (tb_outbox db))"
      by (simp add: ids_def)
    also have "\<dots> = map (\<lambda>a. derive_event_id (tx_digests E) (ar_idempotency_key a)) (tb_allocations db)"
      using inv unfolding store_inv_def by (metis (no_types, lifting) fst_conv list.map_comp map_eq_conv o_def)
    finally have "ids (tb_outbox db) = \<dots>" .
    then show ?thesis using new(2) by (metis (no_types, lifting) image_iff list.set_map)
  qed
  show ?thesis
  proof (cases rule: prepare_record_cases [of E req False att key db])
    case (early res)
    then show ?thesis
      using body ex(2) none by (auto simp: allocate_body_def uow_exit_unfold split: if_split_asm)
  next
    case 2: (new a)
    then have wr: "allocate_body E req False att key db db = write_rows E (ta_event_now att) db a"
      by (simp add: allocate_body_def)
    show ?thesis
    proof (cases rule: write_rows_cases [OF refl, of E "ta_event_now att" db a])
      case (1 e)
      then show ?thesis using body wr by (simp add: uow_exit_unfold)
    next
      case dup: (2 y)
      then have "ar_student_id y = rq_student_id req \<and> ar_year_code y = ar_year_code old"
        using new(1) 2 old(3) by auto
      moreover have "inj_on (\<lambda>a. (ar_student_id a, ar_year_code a)) (set (tb_allocations db))"
        using inv by (simp add: store_inv_def distinct_map)
      ultimately have "y = old" using inj_onD [OF _ _ dup(2) old(1)] old(2) by fastforce
      then show ?thesis using body wr 2 dup(1) ev by (auto simp: uow_exit_unfold existing_result_def)
    next
      case (3 r res)
      then show ?thesis using 2 old by (auto simp: insert_ok_def list_all_iff)
    qed
  next
    case meta
    then show ?thesis using body by (simp add: allocate_body_def uow_exit_unfold)
  qed
qed

text \<open>Digests under which the keys of the sample requests and their events are distinct.\<close>

theorem second_mentor_gets_no_event_witness:
  "\<exists>x. execute_once sample_env (sample_request ''11'' 8) False quiet store_after_11 = (Inr x, store_after_11) \<and>
       re_status x = ALREADY_ASSIGNED \<and> re_mentor_id x = Some 7"
proof -
  let ?o = "execute_once sample_env (sample_request ''11'' 8) False quiet store_after_11"
  have o: "case fst ?o of Inl e \<Rightarrow> False | Inr x \<Rightarrow> re_status x = ALREADY_ASSIGNED"
    unfolding store_after_11_def by code_simp
  then obtain x where x: "fst ?o = Inr x" "re_status x = ALREADY_ASSIGNED" by (auto split: sum.splits)
  have o: "?o = (Inr x, snd ?o)" using x(1) by (metis prod.collapse)
  have key: "request_key sample_env (sample_request ''11'' 8) = Inr (asc ''11|8|r'')" by code_simp
  have k: "map ar_idempotency_key (tb_allocations store_after_11) = [asc ''11|7|r'']"
    "map ar_student_id (tb_allocations store_after_11) = [asc ''11'']"
    "map ar_year_code (tb_allocations store_after_11) = [asc ''25'']"
    "map ar_mentor_id (tb_allocations store_after_11) = [7]"
    unfolding store_after_11_def by code_simp+
  then obtain a where a: "tb_allocations store_after_11 = [a]" "ar_idempotency_key a = asc ''11|7|r''"
    "ar_student_id a = asc ''11''" "ar_year_code a = asc ''25''" "ar_mentor_id a = 7" by auto
  have y: "fmt_0d 2 (tx_year_of sample_env (ta_seq_now quiet) mod 100) = asc ''25''" by code_simp
  have inv: "store_inv (tx_digests sample_env) store_after_11"
    unfolding store_after_11_def
    by (rule execute_once_inv) (simp add: quiet_def store_inv_def sample_store_def ids_def)
  from second_mentor_gets_no_event [OF inv key, of a quiet x "snd ?o"] a y o x(2)
  show ?thesis by (auto simp: quiet_def sample_request_def derive_event_id_def sample_env_def
        plain_digests_def asc_def)
qed

text \<open>
  If, between the reading of the greatest id and the flush of an
  attempt that would have succeeded, another transaction commits an allocation of another student
  under that id, the attempt ends with an IntegrityError: it is not reported as ALREADY_ASSIGNED,
  and \<^verbatim>\<open>allocate\<close> does not retry it.
\<close>

theorem id_race_is_not_retried:
  assumes "execute_once E req False (att\<lparr>ta_interfere := (\<lambda>s. s)\<rparr>) db = (Inr x, db')" and "re_status x = OK"
    and "b \<in> set (tb_allocations (ta_interfere att db))"
    and "re_allocation_id x = Some (ar_allocation_id b)"
    and "get_by_idempotency_key (ta_interfere att db) (re_idempotency_key x) = None"
    and "\<And>y. re_year_code x = Some y \<Longrightarrow> get_by_student_year (ta_interfere att db) (rq_student_id req) y = None"
    and "0 \<le> limit"
  shows "fst (allocate E limit req False (\<lambda>i. att) db) = (Inl IntegrityError, ta_interfere att db)"
proof -
  let ?db1 = "ta_interfere att db" and ?att = "att\<lparr>ta_interfere := (\<lambda>s. s)\<rparr>"
  obtain key where key: "request_key E req = Inr key"
    using assms(1) by (cases "request_key E req") (auto simp: execute_once_def Let_def)
  have nf: "ta_fault att \<noteq> OperationalFault"
    using assms(1) key by (auto simp: execute_once_def Let_def)
  have body: "uow_exit (ta_fault att) (allocate_body E req False ?att key db db) db = (Inr x, db')"
    using assms(1) key nf by (simp add: execute_once_def Let_def)
  have "ta_seq_now ?att = ta_seq_now att" by simp
  then have same: "prepare_record E req False ?att key db = prepare_record E req False att key db"
    unfolding prepare_record_def by (rule arg_cong)
  have "fst (execute_once E req False att db) = Inl IntegrityError"
  proof (cases rule: prepare_record_cases [of E req False att key db])
    case (new a)
    then have wr: "uow_exit (ta_fault att) (write_rows E (ta_event_now att) db a) db = (Inr x, db')"
      using body same by (simp add: allocate_body_def)
    obtain r where r: "to_model (allocation_event E a (ta_event_now att)) = Inr r"
      and x: "re_idempotency_key x = ar_idempotency_key a" "re_year_code x = Some (ar_year_code a)"
        "re_allocation_id x = Some (ar_allocation_id a)"
      using wr assms(2)
      by (cases rule: write_rows_cases [OF refl, of E "ta_event_now att" db a])
        (auto simp: uow_exit_unfold existing_result_def split: if_split_asm)
    have "\<not> insert_ok ?db1 a r" using assms(3,4) x(3) by (auto simp: insert_ok_def list_all_iff)
    then have "write_rows E (ta_event_now att) ?db1 a = Raised IntegrityError"
      using r x assms(5,6) new(5) by (auto simp: write_rows_def Let_def)
    then show ?thesis using key nf new(1) by (simp add: execute_once_def allocate_body_def uow_exit_unfold Let_def)
  qed (use body same assms(2) in \<open>auto simp: allocate_body_def uow_exit_unfold split: if_split_asm\<close>)
  moreover from this have "snd (execute_once E req False att db) = ?db1"
    by (cases "execute_once E req False att db") (auto elim: execute_once_cases)
  ultimately have "execute_once E req False att db = (Inl IntegrityError, ?db1)" by (metis prod.collapse)
  then show ?thesis by (simp add: allocate_def allocate_loop.simps)
qed

definition racing :: attempt where
  "racing = quiet\<lparr>ta_interfere := (\<lambda>s. snd (execute_once sample_env (sample_request ''12'' 8) False quiet s))\<rparr>"

theorem id_race_is_not_retried_witness:
  "fst (fst (allocate sample_env 3 (sample_request ''11'' 7) False (\<lambda>i. racing) sample_store)) = Inl IntegrityError"
proof -
  let ?o = "execute_once sample_env (sample_request ''11'' 7) False (racing\<lparr>ta_interfere := (\<lambda>s. s)\<rparr>) sample_store"
  let ?db1 = "ta_interfere racing sample_store"
  have "case fst ?o of Inl e \<Rightarrow> False | Inr x \<Rightarrow> re_status x = OK \<and> re_allocation_id x = Some 1 \<and>
      re_idempotency_key x = asc ''11|7|r'' \<and> re_year_code x = Some (asc ''25'')" by code_simp
  then obtain x where x: "fst ?o = Inr x" "re_status x = OK" "re_allocation_id x = Some 1"
    "re_idempotency_key x = asc ''11|7|r''" "re_year_code x = Some (asc ''25'')" by (auto split: sum.splits)
  have o: "?o = (Inr x, snd ?o)" using x(1) by (metis prod.collapse)
  have "map ar_allocation_id (tb_allocations ?db1) = [1]"
    "get_by_idempotency_key ?db1 (asc ''11|7|r'') = None"
    "get_by_student_year ?db1 (rq_student_id (sample_request ''11'' 7)) (asc ''25'') = None"
    by code_simp+
  moreover from this obtain b where "b \<in> set (tb_allocations ?db1)" "ar_allocation_id b = 1" by auto
  ultimately show ?thesis
    using id_race_is_not_retried [OF o x(2), of b 3] x by auto
qed

end
