(* ===== verification/Counter_Rules.thy ===== *)
theory Counter_Rules
  imports PyBase
begin

text \<open>
  \<^verbatim>\<open>shared/counter_rules.py\<close>, the single source of the counter format: the prefix of each
  gender code, the pattern \<^verbatim>\<open>YY(357|373)####\<close> and \<^verbatim>\<open>validate_counter\<close>. The digit class of the pattern
  is Unicode's, so that a counter may hold digits of scripts that the digit map does not fold.
\<close>

definition prefix_female :: pystr where "prefix_female = asc ''373''"
definition prefix_male :: pystr where "prefix_male = asc ''357''"

text \<open>\<^verbatim>\<open>COUNTER_PREFIX_MAP\<close> and \<^verbatim>\<open>gender_prefix\<close>; \<open>None\<close> is the ValueError.\<close>

definition gender_prefix :: "int \<Rightarrow> pystr option" where
  "gender_prefix gender_code =
     (if gender_code = 0 then Some prefix_female
      else if gender_code = 1 then Some prefix_male else None)"

definition is_counter :: "pystr \<Rightarrow> bool" where
  "is_counter s \<longleftrightarrow>
     length s = 9 \<and> list_all decimal_char (take 2 s) \<and>
     (take 3 (drop 2 s) = prefix_male \<or> take 3 (drop 2 s) = prefix_female) \<and>
     list_all decimal_char (drop 5 s)"

definition validate_counter :: "pystr option \<Rightarrow> pystr option" where
  "validate_counter value =
     (let normalized = map fold_fa_digit (case value of None \<Rightarrow> [] | Some v \<Rightarrow> v);
          normalized = remove_chars [8204, 8205, 65279] normalized;
          normalized = filter (\<lambda>c. \<not> py_isspace c) normalized
      in if is_counter normalized then Some normalized else None)"

declare prefix_female_def [py_defs] prefix_male_def [py_defs] gender_prefix_def [py_defs]
  is_counter_def [py_defs] validate_counter_def [py_defs]

lemma ascii_digits_take [simp]: "ascii_digits s \<Longrightarrow> ascii_digits (take n s)"
  and ascii_digits_drop [simp]: "ascii_digits s \<Longrightarrow> ascii_digits (drop n s)"
  by (auto simp: ascii_digits_def list_all_iff dest: in_set_takeD in_set_dropD)

lemma is_counter_build:
  assumes "length yy = 2" "list_all decimal_char yy" "prefix = prefix_male \<or> prefix = prefix_female"
    and "length seq = 4" "list_all decimal_char seq"
  shows "is_counter (yy @ prefix @ seq)"
  using assms by (auto simp: is_counter_def prefix_male_def prefix_female_def asc_def)

lemma gender_prefix_cases: "gender_prefix g = Some p \<Longrightarrow> p = prefix_male \<or> p = prefix_female"
  by (auto simp: gender_prefix_def split: if_split_asm)

lemma gender_prefix_inj: "gender_prefix g = Some p \<Longrightarrow> gender_prefix h = Some p \<Longrightarrow> g = h"
  by (auto simp: gender_prefix_def prefix_male_def prefix_female_def asc_def split: if_split_asm)

lemma validate_counter_is_counter: "validate_counter v = Some c \<Longrightarrow> is_counter c"
  by (auto simp: validate_counter_def Let_def split: if_split_asm)

text \<open>A counter in ASCII digits is its own normal form.\<close>

lemma validate_counter_ascii: "ascii_digits c \<Longrightarrow> is_counter c \<Longrightarrow> validate_counter (Some c) = Some c"
proof -
  assume a: "ascii_digits c" and c: "is_counter c"
  have "map fold_fa_digit c = c"
    using a by (induction c) (auto simp: fold_fa_digit_def)
  moreover have "remove_chars [8204, 8205, 65279] c = c" "filter (\<lambda>c. \<not> py_isspace c) c = c"
    using a by (auto simp: remove_chars_def filter_id_conv ascii_digits_def list_all_iff py_isspace_def)
  ultimately show ?thesis using c by (simp add: validate_counter_def)
qed

lemma validate_counter_idem: "validate_counter v = Some c \<Longrightarrow> validate_counter (Some c) = Some c"
proof -
  assume a: "validate_counter v = Some c"
  define t where "t = map fold_fa_digit (case v of None \<Rightarrow> [] | Some v \<Rightarrow> v)"
  have c: "c = filter (\<lambda>c. \<not> py_isspace c) (remove_chars [8204, 8205, 65279] t)" "is_counter c"
    using a by (auto simp: validate_counter_def t_def Let_def split: if_split_asm)
  have "map fold_fa_digit c = c"
    using c(1) by (auto simp: t_def remove_chars_def fold_fa_digit_def intro!: map_idI)
  moreover have "remove_chars [8204, 8205, 65279] c = c" "filter (\<lambda>c. \<not> py_isspace c) c = c"
    unfolding c(1) by (simp_all add: remove_chars_def cong: conj_cong filter_cong)
  ultimately show ?thesis using c(2) by (simp add: validate_counter_def)
qed

end
