(* ===== verification/Domain_Entities.thy ===== *)
theory Domain_Entities
  imports PyFloat Counter_Rules
begin

text \<open>
  The entities of \<^verbatim>\<open>domain\<close>: \<^verbatim>\<open>shared/types.py\<close>, \<^verbatim>\<open>mentor/entities.py\<close>, \<^verbatim>\<open>student/entities.py\<close>
  with \<^verbatim>\<open>student/mobile.py\<close>, the \<^verbatim>\<open>Counter\<close> value object and \<^verbatim>\<open>CounterService\<close>, whose repository
  of sequences is a function that returns the reserved number and its new state.
\<close>

datatype Gender = male | female

fun gender_value :: "Gender \<Rightarrow> int" where
  "gender_value male = 0"
| "gender_value female = 1"

text \<open>\<^verbatim>\<open>Gender.counter_code\<close>; the value of the enum is a key of the prefix map.\<close>

definition counter_code :: "Gender \<Rightarrow> pystr" where
  "counter_code g = (case gender_prefix (gender_value g) of Some p \<Rightarrow> p | None \<Rightarrow> [])"

datatype EduStatus = graduate | student
datatype StudentType = normal | school
datatype RegCenter = center0 | center1 | center2

fun center_value :: "RegCenter \<Rightarrow> int" where
  "center_value center0 = 0"
| "center_value center1 = 1"
| "center_value center2 = 2"

datatype AllocationStatus = AS_OK | AS_TEMP_REVIEW | AS_NEEDS_NEW_MENTOR

text \<open>The two mentor types are Persian words.\<close>

definition school_word :: pystr where "school_word = [1605, 1583, 1585, 1587, 1607]"
definition normal_word :: pystr where "normal_word = [1593, 1575, 1583, 1740]"

record Mentor =
  mt_mentor_id :: int
  mt_gender :: Gender
  mt_type :: pystr
  mt_capacity :: int
  mt_current_load :: int
  mt_allowed_groups :: "int set"
  mt_allowed_centers :: "int set"
  mt_school_codes :: "int set"

definition has_capacity :: "Mentor \<Rightarrow> bool" where
  "has_capacity m \<longleftrightarrow> mt_current_load m < mt_capacity m"

definition occupancy_ratio :: "Mentor \<Rightarrow> pyfloat" where
  "occupancy_ratio m =
     (if mt_capacity m \<le> 0 then 1
      else fdiv (fl (of_int (mt_current_load m))) (fl (of_int (mt_capacity m))))"

section \<open>Mobile numbers\<close>

definition MOBILE_ZERO_WIDTH :: "int list" where
  "MOBILE_ZERO_WIDTH = [8204, 8205, 8203, 65279]"

definition strip_control_chars :: "ucd \<Rightarrow> pystr \<Rightarrow> pystr" where
  "strip_control_chars U v = filter (\<lambda>c. c \<notin> set MOBILE_ZERO_WIDTH \<and> \<not> u_control U c) v"

text \<open>The pattern \<^verbatim>\<open>09\d{9}\<close> with the Unicode digit class.\<close>

definition mobile_pattern :: "pystr \<Rightarrow> bool" where
  "mobile_pattern s \<longleftrightarrow> length s = 11 \<and> take 2 s = [48, 57] \<and> list_all decimal_char (drop 2 s)"

datatype mobile_error = MobileValidationError

definition normalize_mobile :: "ucd \<Rightarrow> pystr option \<Rightarrow> mobile_error + pystr option" where
  "normalize_mobile U value =
     (case value of
        None \<Rightarrow> Inr None
      | Some v \<Rightarrow>
          (let normalized = u_nfkc U v;
               normalized = replace_char 1603 1705 (replace_char 1610 1740 normalized);
               normalized = map fold_fa_digit normalized;
               normalized = strip_control_chars U normalized;
               normalized = filter (\<lambda>c. \<not> py_isspace c) normalized;
               normalized = py_strip normalized
           in if normalized = [] then Inr None
              else if mobile_pattern normalized then Inr (Some normalized)
              else Inl MobileValidationError))"

record Student =
  sd_national_id :: pystr
  sd_gender :: Gender
  sd_edu_status :: EduStatus
  sd_reg_center :: RegCenter
  sd_group_code :: int
  sd_school_code :: "int option"
  sd_student_type :: StudentType
  sd_counter :: "pystr option"
  sd_mobile :: "pystr option"

text \<open>\<^verbatim>\<open>__post_init__\<close> normalises the mobile number of the constructed record.\<close>

definition make_student :: "ucd \<Rightarrow> Student \<Rightarrow> mobile_error + Student" where
  "make_student U s =
     rbind (normalize_mobile U (sd_mobile s)) (\<lambda>normalized. Inr (s\<lparr>sd_mobile := normalized\<rparr>))"

section \<open>Counters\<close>

datatype counter_build_error = YearCodeInvalid | SequenceOutOfRange | CounterTooLong

definition counter_build :: "pystr \<Rightarrow> Gender \<Rightarrow> int \<Rightarrow> counter_build_error + pystr" where
  "counter_build year_two_digits gender seq =
     (if length year_two_digits \<noteq> 2 \<or> \<not> py_isdigit year_two_digits then Inl YearCodeInvalid
      else if \<not> (0 \<le> seq \<and> seq \<le> 9999) then Inl SequenceOutOfRange
      else let value = year_two_digits @ counter_code gender @ fmt_0d 4 seq
           in if length value \<noteq> 9 then Inl CounterTooLong else Inr value)"

text \<open>\<^verbatim>\<open>CounterService.generate\<close>: a student that has a counter keeps it, unchecked.\<close>

definition counter_generate ::
  "('r \<Rightarrow> pystr \<Rightarrow> pystr \<Rightarrow> int \<times> 'r) \<Rightarrow> Student \<Rightarrow> pystr \<Rightarrow> 'r \<Rightarrow>
   (counter_build_error + pystr) \<times> 'r" where
  "counter_generate reserve_next s year_two_digits repo =
     (case sd_counter s of
        Some c \<Rightarrow> if c \<noteq> [] then (Inr c, repo)
                  else let (seq, repo') = reserve_next repo year_two_digits (counter_code (sd_gender s))
                       in (counter_build year_two_digits (sd_gender s) seq, repo')
      | None \<Rightarrow> let (seq, repo') = reserve_next repo year_two_digits (counter_code (sd_gender s))
                in (counter_build year_two_digits (sd_gender s) seq, repo'))"

lemma counter_code_prefix: "counter_code g = prefix_female \<or> counter_code g = prefix_male"
  by (cases g) (simp_all add: counter_code_def gender_prefix_def)

lemma counter_code_length [simp]: "length (counter_code g) = 3"
  using counter_code_prefix [of g] by (auto simp: prefix_female_def prefix_male_def asc_def)

lemma counter_code_inj: "counter_code g = counter_code h \<longleftrightarrow> g = h"
  by (cases g; cases h)
    (simp_all add: counter_code_def gender_prefix_def prefix_female_def prefix_male_def asc_def)

lemma fmt_4_length: "0 \<le> n \<Longrightarrow> n \<le> 9999 \<Longrightarrow> length (fmt_0d 4 n) = 4"
  by (intro fmt_0d_length) auto

lemma counter_build_Inr:
  "counter_build yy g n = Inr v \<longleftrightarrow>
     length yy = 2 \<and> py_isdigit yy \<and> 0 \<le> n \<and> n \<le> 9999 \<and> v = yy @ counter_code g @ fmt_0d 4 n"
  using fmt_4_length [of n] by (auto simp: counter_build_def Let_def)

lemma digits_decimal: "0 \<le> n \<Longrightarrow> list_all decimal_char (fmt_0d 4 n)"
  using ascii_digits_decimal fmt_0d_digits [of n 4] by blast

lemma counter_build_valid:
  assumes "ascii_digits yy" "length yy = 2" "0 \<le> n" "n \<le> 9999"
  shows "\<exists>v. counter_build yy g n = Inr v \<and> validate_counter (Some v) = Some v"
proof -
  let ?v = "yy @ counter_code g @ fmt_0d 4 n"
  have yy: "py_isdigit yy"
    using assms(1,2) by (auto simp: py_isdigit_def digit_char_def ascii_digits_def list_all_iff ascii_digit_value)
  have "is_counter ?v"
    using assms fmt_4_length digits_decimal ascii_digits_decimal counter_code_prefix [of g]
    by (intro is_counter_build) auto
  moreover have "ascii_digits (counter_code g)"
    using counter_code_prefix [of g] by (auto simp: prefix_female_def prefix_male_def asc_def)
  then have "ascii_digits ?v" using assms(1,3) fmt_0d_digits by simp
  ultimately show ?thesis
    using counter_build_Inr [of yy g n ?v] validate_counter_ascii yy assms by auto
qed

lemma normalize_mobile_Some:
  assumes "normalize_mobile U v = Inr (Some m)"
  shows "mobile_pattern m" and "list_all (\<lambda>c. fold_fa_digit c = c \<and> \<not> py_isspace c) m"
proof -
  obtain v' where v: "v = Some v'" using assms by (cases v) (auto simp: normalize_mobile_def)
  define t where "t = filter (\<lambda>c. \<not> py_isspace c) (strip_control_chars U
      (map fold_fa_digit (replace_char 1603 1705 (replace_char 1610 1740 (u_nfkc U v')))))"
  have m: "m = py_strip t" "mobile_pattern m"
    using assms by (auto simp: v normalize_mobile_def t_def Let_def split: if_split_asm)
  then show "mobile_pattern m" by simp
  have "fold_fa_digit c = c \<and> \<not> py_isspace c" if "c \<in> set t" for c
    using that by (auto simp: t_def strip_control_chars_def fold_fa_digit_def)
  then show "list_all (\<lambda>c. fold_fa_digit c = c \<and> \<not> py_isspace c) m"
    using strip_by_set [of py_isspace t] by (auto simp: m(1) py_strip_def list_all_iff)
qed

section \<open>Properties\<close>

text \<open>
  For a year code of two ASCII digits and a sequence from 0 to
  9999, \<^verbatim>\<open>Counter.build\<close> returns a counter that \<^verbatim>\<open>validate_counter\<close> accepts unchanged and from which
  year, gender and sequence can be read back; outside that range, or for another year code, it
  raises, so that two counters are equal only for equal years, genders and sequences.
\<close>

theorem counter_build_roundtrip:
  "(case counter_build yy g n of
      Inr v \<Rightarrow> length v = 9 \<and> take 2 v = yy \<and> take 3 (drop 2 v) = counter_code g \<and>
               py_int (drop 5 v) = Some n \<and> 0 \<le> n \<and> n \<le> 9999 \<and>
               (if ascii_digits yy then validate_counter (Some v) = Some v else True)
    | Inl e \<Rightarrow> length yy \<noteq> 2 \<or> \<not> py_isdigit yy \<or> n < 0 \<or> 9999 < n) \<and>
   (counter_code g = counter_code h \<longleftrightarrow> g = h)"
proof (cases "counter_build yy g n")
  case (Inl e)
  then show ?thesis
    using counter_build_Inr [of yy g n "yy @ counter_code g @ fmt_0d 4 n"] counter_code_inj by auto
next
  case (Inr v)
  then have v: "length yy = 2" "0 \<le> n" "n \<le> 9999" "v = yy @ counter_code g @ fmt_0d 4 n"
    by (simp_all add: counter_build_Inr)
  have "validate_counter (Some v) = Some v" if "ascii_digits yy"
    using counter_build_valid [OF that v(1-3), of g] Inr by auto
  then show ?thesis
    using v Inr py_int_fmt_0d [of n 4] counter_code_inj by (simp add: fmt_4_length)
qed

theorem counter_build_roundtrip_witness:
  "\<exists>v. counter_build (asc ''04'') female 37 = Inr v \<and> take 2 v = asc ''04'' \<and>
     take 3 (drop 2 v) = counter_code female \<and> py_int (drop 5 v) = Some 37 \<and>
     validate_counter (Some v) = Some v"
proof -
  have built: "counter_build (asc ''04'') female 37 = Inr (asc ''04'' @ counter_code female @ fmt_0d 4 37)"
    by (simp add: counter_build_Inr) code_simp
  have "ascii_digits (asc ''04'')" by code_simp
  then show ?thesis
    using counter_build_roundtrip [where yy = "asc ''04''" and g = female and n = 37 and h = male] unfolding built by simp
qed

text \<open>
  An accepted mobile number is eleven characters beginning with 09,
  holds no white space and no Persian or Arabic-Indic digit, and normalising it again changes
  nothing, when NFKC and the categories leave it as it is.
\<close>

theorem mobile_normal_form:
  assumes "normalize_mobile U v = Inr (Some m)" and "u_nfkc U m = m" and "\<And>c. c \<in> set m \<Longrightarrow> \<not> u_control U c"
  shows "length m = 11 \<and> take 2 m = [48, 57] \<and>
    normalize_mobile U (Some m) = Inr (Some m)"
proof -
  note n = normalize_mobile_Some [OF assms(1)]
  have dig: "list_all decimal_char m"
  proof -
    have "take 2 m @ drop 2 m = m" by simp
    then have "list_all decimal_char (take 2 m) \<and> list_all decimal_char (drop 2 m)"
      using n(1) by (simp add: mobile_pattern_def) code_simp
    then show ?thesis by (metis append_take_drop_id list_all_append)
  qed
  have "c \<notin> {1603, 1610, 8204, 8205, 8203, 65279}" if "c \<in> set m" for c
    using dig that by (auto simp: list_all_iff decimal_char_def py_decimal_def nd_zeros_def)
  then have "replace_char 1610 1740 m = m" "replace_char 1603 1705 m = m"
    and s: "strip_control_chars U m = m"
    using assms(3)
    by (auto simp: replace_char_def strip_control_chars_def MOBILE_ZERO_WIDTH_def filter_id_conv
        intro!: map_idI)
  moreover have "map fold_fa_digit m = m" using n(2) by (auto simp: list_all_iff intro!: map_idI)
  moreover have "filter (\<lambda>c. \<not> py_isspace c) m = m" "py_strip m = m"
    using n(2) by (auto simp: list_all_iff filter_id_conv py_strip_def intro!: strip_by_no_match)
  moreover have "m \<noteq> []" using n(1) by (auto simp: mobile_pattern_def)
  ultimately have "normalize_mobile U (Some m) = Inr (Some m)"
    using n(1) assms(2) by (simp add: normalize_mobile_def)
  then show ?thesis using n(1) by (simp add: mobile_pattern_def)
qed

theorem mobile_normal_form_witness:
  "normalize_mobile ascii_ucd (Some (asc ''09123456789'')) = Inr (Some (asc ''09123456789'')) \<and>
   normalize_mobile ascii_ucd (Some [1776, 1785, 32, 1777, 1778, 1779, 8204, 1780, 1781, 1782, 1783, 1784, 1785])
     = Inr (Some (asc ''09123456789''))"
proof -
  have a: "normalize_mobile ascii_ucd (Some [1776, 1785, 32, 1777, 1778, 1779, 8204, 1780, 1781, 1782, 1783, 1784, 1785])
     = Inr (Some (asc ''09123456789''))" by code_simp
  have "u_nfkc ascii_ucd (asc ''09123456789'') = asc ''09123456789''" by (simp add: ascii_ucd_def)
  moreover have "\<not> u_control ascii_ucd c" if "c \<in> set (asc ''09123456789'')" for c
    using that by (auto simp: asc_def ascii_ucd_def)
  ultimately show ?thesis using mobile_normal_form [OF a] a by simp
qed

end
