(* ===== verification/Domain_Alloc.thy ===== *)
theory Domain_Alloc
  imports Domain_Entities "HOL-Library.While_Combinator" "HOL-Library.Multiset"
begin

text \<open>
  \<^verbatim>\<open>domain/allocation\<close>: the rules with their reason codes, the fairness planner and
  \<^verbatim>\<open>AllocationEngine.select_best\<close>. The planner's round-robin state is threaded; its hash
  (\<^verbatim>\<open>stable_counter_hash\<close>, BLAKE2b) is a function of the seed text. The interleaving loop of the
  buckets is the code's index loop as a \<open>while_option\<close>; the lemmas relate it to a recursive
  interleaving, so that it ends and returns every candidate once.
\<close>

section \<open>Rules\<close>

datatype ReasonCode =
    GENDER_MISMATCH | GROUP_NOT_ALLOWED | CENTER_NOT_ALLOWED | CAPACITY_FULL
  | GRADUATE_SCHOOL_FORBIDDEN | SCHOOL_STUDENT_NEEDS_SCHOOL_MENTOR | SCHOOL_CODE_MISMATCH
  | NORMAL_STUDENT_CANNOT_GET_SCHOOL_MENTOR | NO_ELIGIBLE_MENTOR

text \<open>A rule result: \<open>None\<close> passes, \<open>Some code\<close> fails with the reason of the code.\<close>

type_synonym domain_rule = "Student \<Rightarrow> Mentor \<Rightarrow> ReasonCode option"

definition GenderRule :: domain_rule where
  "GenderRule s m = (if sd_gender s = mt_gender m then None else Some GENDER_MISMATCH)"

definition AllowedGroupRule :: domain_rule where
  "AllowedGroupRule s m =
     (if sd_group_code s \<in> mt_allowed_groups m then None else Some GROUP_NOT_ALLOWED)"

definition AllowedCenterRule :: domain_rule where
  "AllowedCenterRule s m =
     (if center_value (sd_reg_center s) \<in> mt_allowed_centers m then None else Some CENTER_NOT_ALLOWED)"

definition CapacityRule :: domain_rule where
  "CapacityRule s m = (if has_capacity m then None else Some CAPACITY_FULL)"

definition GraduateConstraintRule :: domain_rule where
  "GraduateConstraintRule s m =
     (if sd_edu_status s = graduate \<and> mt_type m = school_word then Some GRADUATE_SCHOOL_FORBIDDEN
      else None)"

definition SchoolTypeRule :: domain_rule where
  "SchoolTypeRule s m =
     (if sd_student_type s = school then
        if mt_type m \<noteq> school_word then Some SCHOOL_STUDENT_NEEDS_SCHOOL_MENTOR
        else (case sd_school_code s of
                None \<Rightarrow> Some SCHOOL_CODE_MISMATCH
              | Some c \<Rightarrow> if c \<notin> mt_school_codes m then Some SCHOOL_CODE_MISMATCH else None)
      else if mt_type m = school_word then Some NORMAL_STUDENT_CANNOT_GET_SCHOOL_MENTOR
      else None)"

definition default_rules :: "domain_rule list" where
  "default_rules = [GenderRule, AllowedGroupRule, AllowedCenterRule, CapacityRule,
     GraduateConstraintRule, SchoolTypeRule]"

text \<open>The rules of one candidate in order, up to the first failure: the trace of reasons.\<close>

fun check_rules :: "domain_rule list \<Rightarrow> Student \<Rightarrow> Mentor \<Rightarrow> bool \<times> ReasonCode option list" where
  "check_rules [] s m = (True, [])"
| "check_rules (r # rs) s m =
     (case r s m of
        Some c \<Rightarrow> (False, [Some c])
      | None \<Rightarrow> let (ok, trace) = check_rules rs s m in (ok, None # trace))"

section \<open>The fairness planner\<close>

datatype FairnessStrategy = FS_NONE | DETERMINISTIC_JITTER | BUCKET_ROUND_ROBIN

record FairnessConfig =
  fc_strategy :: FairnessStrategy
  fc_bucket_size :: pyfloat

type_synonym item = "Mentor \<times> ReasonCode option list"

text \<open>The last mentor put first, for each key.\<close>

type_synonym rr_state = "pystr \<Rightarrow> int option"

definition jitter_of :: "(pystr \<Rightarrow> int) \<Rightarrow> pystr \<Rightarrow> Mentor \<Rightarrow> pyfloat" where
  "jitter_of H key m =
     fdiv (of_int (H (key @ asc '':'' @ py_str_int (mt_mentor_id m)) mod 10000)) 1000000"

definition with_deterministic_jitter :: "(pystr \<Rightarrow> int) \<Rightarrow> item list \<Rightarrow> pystr \<Rightarrow> item list" where
  "with_deterministic_jitter H items key =
     map (\<lambda>(m, trace, j). (m, trace))
       (sort_key (\<lambda>(m, trace, j). (fadd (occupancy_ratio m) j, mt_current_load m, mt_mentor_id m))
         (map (\<lambda>(m, trace). (m, trace, jitter_of H key m)) items))"

text \<open>Python's \<^verbatim>\<open>int\<close> of a float truncates towards zero.\<close>

definition trunc :: "pyfloat \<Rightarrow> int" where
  "trunc x = (if x < 0 then - \<lfloor>- x\<rfloor> else \<lfloor>x\<rfloor>)"

definition bucket_size_of :: "FairnessConfig \<Rightarrow> pyfloat" where
  "bucket_size_of c = max (fl (1 / 100)) (min 1 (fc_bucket_size c))"

definition bucket_key_of :: "pyfloat \<Rightarrow> Mentor \<Rightarrow> int" where
  "bucket_key_of width m = trunc (fdiv (occupancy_ratio m) width)"

definition bucket_seed :: "(pystr \<Rightarrow> int) \<Rightarrow> pystr \<Rightarrow> int \<Rightarrow> Mentor \<Rightarrow> int" where
  "bucket_seed H key bk m =
     H (key @ asc '':'' @ py_str_int bk @ asc '':'' @ py_str_int (mt_mentor_id m))"

text \<open>The sorted buckets in the order of their keys.\<close>

definition sorted_buckets :: "(pystr \<Rightarrow> int) \<Rightarrow> pyfloat \<Rightarrow> pystr \<Rightarrow> item list \<Rightarrow> item list list" where
  "sorted_buckets H width key items =
     map (\<lambda>bk. sort_key (\<lambda>(m, trace). (mt_current_load m, mt_mentor_id m, bucket_seed H key bk m))
                 (filter (\<lambda>(m, trace). bucket_key_of width m = bk) items))
       (sort (remdups (map (\<lambda>(m, trace). bucket_key_of width m) items)))"

text \<open>
  The loop over the buckets: the interleaved items so far, the position in each bucket and the
  index of the bucket that is next.
\<close>

type_synonym 'a rr_loop = "'a list \<times> nat list \<times> nat"

definition interleave_step :: "'a list list \<Rightarrow> 'a rr_loop \<Rightarrow> 'a rr_loop" where
  "interleave_step buckets st =
     (let (acc, positions, idx) = st; pos = positions ! idx; bucket = buckets ! idx;
          next_idx = (idx + 1) mod length buckets
      in if pos < length bucket then (acc @ [bucket ! pos], positions[idx := pos + 1], next_idx)
         else (acc, positions, next_idx))"

definition interleave_loop :: "'a list list \<Rightarrow> 'a list option" where
  "interleave_loop buckets =
     map_option fst
       (while_option (\<lambda>(acc, positions, idx). length acc < sum_list (map length buckets))
          (interleave_step buckets) ([], map (\<lambda>b. 0) buckets, 0))"

definition start_index :: "int option \<Rightarrow> int list \<Rightarrow> nat" where
  "start_index last_mentor mentor_ids =
     (case last_mentor of
        None \<Rightarrow> 0
      | Some k \<Rightarrow>
          (case find (\<lambda>i. mentor_ids ! i = k) [0..<length mentor_ids] of
             None \<Rightarrow> 0 | Some i \<Rightarrow> (i + 1) mod length mentor_ids))"

definition rotate_from :: "nat \<Rightarrow> 'a list \<Rightarrow> 'a list" where
  "rotate_from i xs = drop i xs @ take i xs"

text \<open>The items in rotated order and the new state; \<open>None\<close> if the loop did not end.\<close>

definition with_bucket_round_robin ::
  "(pystr \<Rightarrow> int) \<Rightarrow> FairnessConfig \<Rightarrow> item list \<Rightarrow> pystr \<Rightarrow> rr_state \<Rightarrow> (item list \<times> rr_state) option" where
  "with_bucket_round_robin H config items key st =
     (let buckets = sorted_buckets H (bucket_size_of config) key items
      in if buckets = [] then Some (items, st)
         else map_option (\<lambda>interleaved.
                let start = start_index (st key) (map (\<lambda>(m, trace). mt_mentor_id m) interleaved);
                    rotated = rotate_from start interleaved
                in (rotated, case rotated of [] \<Rightarrow> st | (m, _) # _ \<Rightarrow> st(key \<mapsto> mt_mentor_id m)))
              (interleave_loop buckets))"

definition default_key :: pystr where "default_key = asc ''default''"

definition rank ::
  "(pystr \<Rightarrow> int) \<Rightarrow> FairnessConfig \<Rightarrow> item list \<Rightarrow> pystr \<Rightarrow> rr_state \<Rightarrow> (item list \<times> rr_state) option" where
  "rank H config items academic_year st =
     (if length items \<le> 1 \<or> fc_strategy config = FS_NONE then Some (items, st)
      else let key = (if academic_year = [] then default_key else academic_year)
           in case fc_strategy config of
                DETERMINISTIC_JITTER \<Rightarrow> Some (with_deterministic_jitter H items key, st)
              | _ \<Rightarrow> with_bucket_round_robin H config items key st)"

section \<open>The engine\<close>

record SelectionResult =
  se_mentor_id :: "int option"
  se_reason :: "ReasonCode option"
  se_rule_trace :: "ReasonCode option list"
  se_fairness_strategy :: FairnessStrategy
  se_fairness_key :: pystr

text \<open>A \<^verbatim>\<open>Student\<close> has slots and no \<^verbatim>\<open>academic_year\<close>, so that the fallback of the code is its default.\<close>

definition resolve_fairness_key :: "Student \<Rightarrow> pystr option \<Rightarrow> pystr" where
  "resolve_fairness_key s academic_year =
     (let year = (case academic_year of None \<Rightarrow> [] | Some y \<Rightarrow> y);
          counter = (case sd_counter s of None \<Rightarrow> [] | Some c \<Rightarrow> c)
      in if year \<noteq> [] then year
         else if 2 \<le> length counter \<and> py_isdigit (take 2 counter) then take 2 counter
         else default_key)"

text \<open>The trace of a student nobody passes for: the last failing trace, padded with the reason.\<close>

definition failure_trace :: "nat \<Rightarrow> ReasonCode option list \<Rightarrow> ReasonCode option list" where
  "failure_trace n trace =
     map (\<lambda>e. case e of None \<Rightarrow> Some NO_ELIGIBLE_MENTOR | Some c \<Rightarrow> Some c)
       (take n (trace @ replicate (n - length trace) None))"

definition passing_items :: "domain_rule list \<Rightarrow> Student \<Rightarrow> Mentor list \<Rightarrow> item list" where
  "passing_items rules s candidates =
     map (\<lambda>m. (m, snd (check_rules rules s m))) (filter (\<lambda>m. fst (check_rules rules s m)) candidates)"

definition last_failure :: "domain_rule list \<Rightarrow> Student \<Rightarrow> Mentor list \<Rightarrow> ReasonCode option list" where
  "last_failure rules s candidates =
     (case rev (filter (\<lambda>m. \<not> fst (check_rules rules s m)) candidates) of
        [] \<Rightarrow> [] | m # _ \<Rightarrow> snd (check_rules rules s m))"

definition base_key :: "item \<Rightarrow> pyfloat \<times> int \<times> int" where
  "base_key it = (occupancy_ratio (fst it), mt_current_load (fst it), mt_mentor_id (fst it))"

definition select_best ::
  "(pystr \<Rightarrow> int) \<Rightarrow> FairnessConfig \<Rightarrow> domain_rule list \<Rightarrow> Student \<Rightarrow> Mentor list \<Rightarrow> pystr option \<Rightarrow>
   rr_state \<Rightarrow> (SelectionResult \<times> rr_state) option" where
  "select_best H config rules s candidates academic_year st =
     (let passing = passing_items rules s candidates;
          fairness_key = resolve_fairness_key s academic_year
      in if passing = [] then
           Some (\<lparr>se_mentor_id = None, se_reason = Some NO_ELIGIBLE_MENTOR,
                  se_rule_trace = failure_trace (length rules) (last_failure rules s candidates),
                  se_fairness_strategy = fc_strategy config, se_fairness_key = fairness_key\<rparr>, st)
         else (case rank H config (sort_key base_key passing) fairness_key st of
                 Some ((best, trace) # _, st') \<Rightarrow>
                   Some (\<lparr>se_mentor_id = Some (mt_mentor_id best), se_reason = None,
                          se_rule_trace = trace, se_fairness_strategy = fc_strategy config,
                          se_fairness_key = fairness_key\<rparr>, st')
               | _ \<Rightarrow> None))"

section \<open>The rules decide eligibility\<close>

definition domain_eligible :: "Student \<Rightarrow> Mentor \<Rightarrow> bool" where
  "domain_eligible s m \<longleftrightarrow>
     sd_gender s = mt_gender m \<and> sd_group_code s \<in> mt_allowed_groups m \<and>
     center_value (sd_reg_center s) \<in> mt_allowed_centers m \<and> mt_current_load m < mt_capacity m \<and>
     \<not> (sd_edu_status s = graduate \<and> mt_type m = school_word) \<and>
     (if sd_student_type s = school
      then mt_type m = school_word \<and> (\<exists>c. sd_school_code s = Some c \<and> c \<in> mt_school_codes m)
      else mt_type m \<noteq> school_word)"

lemma check_rules_ok: "fst (check_rules rs s m) \<longleftrightarrow> (\<forall>r \<in> set rs. r s m = None)"
  by (induction rs) (auto simp: Let_def case_prod_beta split: option.splits)

lemma check_rules_trace_ok:
  "fst (check_rules rs s m) \<Longrightarrow> snd (check_rules rs s m) = replicate (length rs) None"
  by (induction rs) (auto simp: Let_def case_prod_beta split: option.splits)

lemma default_rules_eligible: "fst (check_rules default_rules s m) = domain_eligible s m"
  unfolding check_rules_ok default_rules_def
  by (auto simp: GenderRule_def AllowedGroupRule_def AllowedCenterRule_def CapacityRule_def
      has_capacity_def GraduateConstraintRule_def SchoolTypeRule_def domain_eligible_def
      split: option.splits if_splits)

lemma check_rules_trace_fail:
  "\<not> fst (check_rules rs s m) \<Longrightarrow>
     \<exists>n < length rs. \<exists>c. snd (check_rules rs s m) = replicate n None @ [Some c] \<and> (rs ! n) s m = Some c"
proof (induction rs)
  case (Cons r rs)
  show ?case
  proof (cases "r s m")
    case None
    then obtain n c where "n < length rs" "snd (check_rules rs s m) = replicate n None @ [Some c]"
      "(rs ! n) s m = Some c"
      using Cons by (auto simp: Let_def case_prod_beta)
    then show ?thesis
      using None by (intro exI [of _ "Suc n"] conjI exI [of _ c]) (auto simp: Let_def case_prod_beta)
  qed auto
qed simp

section \<open>The interleaving loop\<close>

text \<open>The same order as a recursion on the queues that are left, the next one first.\<close>

function interleave :: "'a list list \<Rightarrow> 'a list" where
  "interleave [] = []"
| "interleave ([] # qs) = interleave qs"
| "interleave ((x # xs) # qs) = x # interleave (qs @ [xs])"
  by pat_completeness auto
termination
  by (relation "measure (\<lambda>qs. sum_list (map length qs) + length qs)") auto

lemma interleave_drop_Nil: "interleave (xs @ [] # ys) = interleave (xs @ ys)"
proof (induction "xs @ ys" arbitrary: xs ys rule: interleave.induct)
  case (2 qs)
  then show ?case by (cases xs) auto
next
  case (3 x zs qs)
  show ?case
  proof (cases xs)
    case Nil
    then show ?thesis by simp
  next
    case (Cons q xs')
    then have q: "q = x # zs" "qs = xs' @ ys" using 3(2) by auto
    then have "interleave (xs' @ [] # (ys @ [zs])) = interleave (xs' @ (ys @ [zs]))"
      using 3(1) [of xs' "ys @ [zs]"] by simp
    then show ?thesis using Cons q by simp
  qed
qed simp

lemma mset_interleave: "mset (interleave qs) = mset (concat qs)"
  by (induction qs rule: interleave.induct) auto

lemma length_interleave: "length (interleave qs) = sum_list (map length qs)"
  by (metis length_concat mset_interleave size_mset)

definition queue_view :: "'a list list \<Rightarrow> nat list \<Rightarrow> nat \<Rightarrow> 'a list list" where
  "queue_view buckets positions idx =
     map (\<lambda>j. drop (positions ! j) (buckets ! j)) ([idx..<length buckets] @ [0..<idx])"

lemma rotate_indices:
  assumes "idx < n"
  obtains r where "[idx..<n] @ [0..<idx] = idx # r"
    and "[(idx + 1) mod n..<n] @ [0..<(idx + 1) mod n] = r @ [idx]"
    and "set r = {0..<n} - {idx}"
proof
  show "[idx..<n] @ [0..<idx] = idx # ([Suc idx..<n] @ [0..<idx])"
    using assms by (simp add: upt_conv_Cons)
  show "[(idx + 1) mod n..<n] @ [0..<(idx + 1) mod n] = ([Suc idx..<n] @ [0..<idx]) @ [idx]"
  proof (cases "Suc idx = n")
    case True
    then show ?thesis by auto
  next
    case False
    then have "Suc idx < n" using assms by simp
    then show ?thesis by simp
  qed
  show "set ([Suc idx..<n] @ [0..<idx]) = {0..<n} - {idx}" using assms by auto
qed

lemma queue_view_step:
  assumes "idx < length buckets" and "length positions = length buckets"
  obtains rest where "queue_view buckets positions idx = drop (positions ! idx) (buckets ! idx) # rest"
    and "queue_view buckets (positions[idx := p]) ((idx + 1) mod length buckets) = rest @ [drop p (buckets ! idx)]"
    and "queue_view buckets positions ((idx + 1) mod length buckets)
           = rest @ [drop (positions ! idx) (buckets ! idx)]"
proof -
  obtain r where r: "[idx..<length buckets] @ [0..<idx] = idx # r"
    "[(idx + 1) mod length buckets..<length buckets] @ [0..<(idx + 1) mod length buckets] = r @ [idx]"
    "set r = {0..<length buckets} - {idx}"
    using rotate_indices [OF assms(1)] by blast
  let ?rest = "map (\<lambda>j. drop (positions ! j) (buckets ! j)) r"
  have "map (\<lambda>j. drop (positions[idx := p] ! j) (buckets ! j)) r = ?rest"
    using r(3) by (intro map_cong) auto
  then have "queue_view buckets (positions[idx := p]) ((idx + 1) mod length buckets) = ?rest @ [drop p (buckets ! idx)]"
    unfolding queue_view_def r(2) map_append using assms by simp
  moreover have "queue_view buckets positions ((idx + 1) mod length buckets)
      = ?rest @ [drop (positions ! idx) (buckets ! idx)]"
    unfolding queue_view_def r(2) by simp
  moreover have "queue_view buckets positions idx = drop (positions ! idx) (buckets ! idx) # ?rest"
    unfolding queue_view_def r(1) by simp
  ultimately show ?thesis using that by blast
qed

definition loop_inv :: "'a list list \<Rightarrow> 'a rr_loop \<Rightarrow> bool" where
  "loop_inv buckets st \<longleftrightarrow>
     (case st of (acc, positions, idx) \<Rightarrow>
        idx < length buckets \<and> length positions = length buckets \<and>
        acc @ interleave (queue_view buckets positions idx) = interleave buckets)"

definition loop_measure :: "'a list list \<Rightarrow> 'a rr_loop \<Rightarrow> nat" where
  "loop_measure buckets st =
     (case st of (acc, positions, idx) \<Rightarrow>
        (sum_list (map length buckets) - length acc) * (length buckets + 1) +
        length (takeWhile (\<lambda>q. q = []) (queue_view buckets positions idx)))"

lemma takeWhile_rotate:
  "\<exists>q \<in> set qs. q \<noteq> [] \<Longrightarrow>
     length (takeWhile (\<lambda>q. q = []) (qs @ [[]])) < length (takeWhile (\<lambda>q. q = []) ([] # qs))"
  by (induction qs) auto

lemma interleave_nonempty: "interleave qs \<noteq> [] \<Longrightarrow> \<exists>q \<in> set qs. q \<noteq> []"
  by (induction qs rule: interleave.induct) auto

lemma interleave_step_inv:
  assumes "loop_inv buckets (acc, positions, idx)" and "length acc < sum_list (map length buckets)"
  shows "loop_inv buckets (interleave_step buckets (acc, positions, idx))"
    and "loop_measure buckets (interleave_step buckets (acc, positions, idx))
           < loop_measure buckets (acc, positions, idx)"
proof -
  let ?n = "length buckets" and ?p = "positions ! idx" and ?b = "buckets ! idx"
  let ?total = "sum_list (map length buckets)"
  have idx: "idx < ?n" "length positions = ?n"
    and eq: "acc @ interleave (queue_view buckets positions idx) = interleave buckets"
    using assms(1) by (auto simp: loop_inv_def)
  obtain rest where v: "queue_view buckets positions idx = drop ?p ?b # rest"
    "queue_view buckets (positions[idx := ?p + 1]) ((idx + 1) mod ?n) = rest @ [drop (?p + 1) ?b]"
    "queue_view buckets positions ((idx + 1) mod ?n) = rest @ [drop ?p ?b]"
    using queue_view_step [OF idx] by metis
  have len: "length (queue_view buckets ps i) = ?n" if "i < ?n" for ps i
    using that by (simp add: queue_view_def)
  have "loop_inv buckets (interleave_step buckets (acc, positions, idx)) \<and>
    loop_measure buckets (interleave_step buckets (acc, positions, idx))
      < loop_measure buckets (acc, positions, idx)"
  proof (cases "?p < length ?b")
    case True
    have d: "drop ?p ?b = ?b ! ?p # drop (?p + 1) ?b" using True by (simp add: Cons_nth_drop_Suc)
    have i': "(idx + 1) mod ?n < ?n" using idx(1) by (intro mod_less_divisor) auto
    have "length (takeWhile (\<lambda>q. q = []) (rest @ [drop (?p + 1) ?b])) \<le> ?n"
      using length_takeWhile_le [of "\<lambda>q. q = []" "rest @ [drop (?p + 1) ?b]"]
        len [OF i', of "positions[idx := ?p + 1]"] v(2) by simp
    moreover have "(?total - (length acc + 1)) * (?n + 1) + (?n + 1) = (?total - length acc) * (?n + 1)"
      using assms(2) by (metis Suc_diff_Suc Suc_eq_plus1 add.commute mult_Suc)
    ultimately show ?thesis
      using True idx i' eq v d
      by (simp add: interleave_step_def loop_inv_def loop_measure_def Let_def)
  next
    case False
    then have d: "drop ?p ?b = []" by simp
    have "interleave (rest @ [[]]) = interleave rest" using interleave_drop_Nil [of rest "[]"] by simp
    moreover have "length (interleave buckets) = ?total" by (rule length_interleave)
    then have "interleave rest \<noteq> []" using eq assms(2) v(1) d by auto
    then have "length (takeWhile (\<lambda>q. q = []) (rest @ [[]])) < length (takeWhile (\<lambda>q. q = []) ([] # rest))"
      using takeWhile_rotate interleave_nonempty by blast
    moreover have "(idx + 1) mod ?n < ?n" using idx(1) by (intro mod_less_divisor) auto
    ultimately show ?thesis
      using False idx eq v d by (simp add: interleave_step_def loop_inv_def loop_measure_def Let_def)
  qed
  then show "loop_inv buckets (interleave_step buckets (acc, positions, idx))"
    and "loop_measure buckets (interleave_step buckets (acc, positions, idx))
           < loop_measure buckets (acc, positions, idx)"
    by auto
qed

lemma interleave_loop_eq: "buckets \<noteq> [] \<Longrightarrow> interleave_loop buckets = Some (interleave buckets)"
proof -
  assume ne: "buckets \<noteq> []"
  let ?b = "\<lambda>(acc, positions :: nat list, idx :: nat). length acc < sum_list (map length buckets)"
  let ?init = "([], map (\<lambda>b. 0) buckets, 0)"
  have "queue_view buckets (map (\<lambda>b. 0) buckets) 0 = buckets"
    by (rule nth_equalityI) (simp_all add: queue_view_def)
  then have init: "loop_inv buckets ?init" using ne by (simp add: loop_inv_def)
  have "\<exists>t. while_option ?b (interleave_step buckets) ?init = Some t"
    by (rule measure_while_option_Some [where P = "loop_inv buckets" and f = "loop_measure buckets"])
      (use init interleave_step_inv in auto)
  then obtain acc positions idx where
    w: "while_option ?b (interleave_step buckets) ?init = Some (acc, positions, idx)" by auto
  have "loop_inv buckets (acc, positions, idx)"
    by (rule while_option_rule [where P = "loop_inv buckets", OF _ w init]) (use interleave_step_inv in auto)
  moreover have "\<not> ?b (acc, positions, idx)" by (rule while_option_stop [OF w])
  ultimately have eq: "acc @ interleave (queue_view buckets positions idx) = interleave buckets"
    and "length (interleave buckets) \<le> length acc"
    using length_interleave [of buckets] by (auto simp: loop_inv_def)
  moreover have "length acc + length (interleave (queue_view buckets positions idx)) = length (interleave buckets)"
    using eq by (metis length_append)
  ultimately have "interleave (queue_view buckets positions idx) = []" by (simp flip: length_0_conv)
  then have "acc = interleave buckets" using eq by simp
  then show ?thesis using w by (simp add: interleave_loop_def)
qed

section \<open>Ranking permutes the candidates\<close>

lemma mset_buckets:
  "distinct ks \<Longrightarrow>
     mset (concat (map (\<lambda>k. sort_key (g k) (filter (\<lambda>x. f x = k) xs)) ks)) =
     mset (filter (\<lambda>x. f x \<in> set ks) xs)"
proof (induction ks)
  case (Cons k ks)
  have "mset (filter (\<lambda>x. f x = k) xs) + mset (filter (\<lambda>x. f x \<in> set ks) xs)
      = mset (filter (\<lambda>x. f x \<in> set (k # ks)) xs)"
    using Cons.prems by (induction xs) auto
  then show ?case using Cons by simp
qed simp

definition item_bucket :: "pyfloat \<Rightarrow> item \<Rightarrow> int" where
  "item_bucket width it = bucket_key_of width (fst it)"

lemma sorted_buckets_alt:
  "sorted_buckets H width key items =
     map (\<lambda>bk. sort_key (\<lambda>(m, trace). (mt_current_load m, mt_mentor_id m, bucket_seed H key bk m))
                 (filter (\<lambda>it. item_bucket width it = bk) items))
       (sort (remdups (map (item_bucket width) items)))"
  by (simp add: sorted_buckets_def item_bucket_def [abs_def] case_prod_beta')

lemma mset_sorted_buckets: "mset (concat (sorted_buckets H width key items)) = mset items"
proof -
  have "filter (\<lambda>x. item_bucket width x \<in> set (sort (remdups (map (item_bucket width) items)))) items = items"
    by (auto simp: filter_id_conv)
  then show ?thesis
    unfolding sorted_buckets_alt
    using mset_buckets [of "sort (remdups (map (item_bucket width) items))"
        "\<lambda>bk (m, trace). (mt_current_load m, mt_mentor_id m, bucket_seed H key bk m)" "item_bucket width" items]
    by simp
qed

lemma sorted_buckets_Nil: "sorted_buckets H width key items = [] \<longleftrightarrow> items = []"
  by (simp add: sorted_buckets_alt) (metis remdups_eq_nil_iff map_is_Nil_conv length_0_conv length_sort)

text \<open>The order before rotation: it does not depend on the state.\<close>

definition bucket_order :: "(pystr \<Rightarrow> int) \<Rightarrow> FairnessConfig \<Rightarrow> item list \<Rightarrow> pystr \<Rightarrow> item list" where
  "bucket_order H config items key = interleave (sorted_buckets H (bucket_size_of config) key items)"

lemma mset_bucket_order: "mset (bucket_order H config items key) = mset items"
  by (simp add: bucket_order_def mset_interleave mset_sorted_buckets)

definition item_ids :: "item list \<Rightarrow> int list" where
  "item_ids items = map (\<lambda>it. mt_mentor_id (fst it)) items"

lemma start_index_less: "xs \<noteq> [] \<Longrightarrow> start_index k xs < length xs"
  by (auto simp: start_index_def split: option.splits)

lemma mset_rotate_from [simp]: "mset (rotate_from i xs) = mset xs"
  by (metis append_take_drop_id mset_append rotate_from_def union_commute)

lemma hd_rotate_from: "i < length xs \<Longrightarrow> rotate_from i xs = xs ! i # tl (rotate_from i xs)"
  by (metis append_is_Nil_conv drop_eq_Nil hd_append2 hd_drop_conv_nth leD list.collapse rotate_from_def)

lemma with_bucket_round_robin_eq:
  assumes "items \<noteq> []"
  shows "with_bucket_round_robin H config items key st =
    (let order = bucket_order H config items key; i = start_index (st key) (item_ids order)
     in Some (rotate_from i order, st(key \<mapsto> mt_mentor_id (fst (order ! i)))))"
proof -
  let ?order = "bucket_order H config items key"
  have "?order \<noteq> []" using assms mset_bucket_order [of H config items key] by (metis mset_zero_iff)
  then have "start_index (st key) (item_ids ?order) < length ?order"
    using start_index_less [of "item_ids ?order" "st key"] by (simp add: item_ids_def)
  note h = hd_rotate_from [OF this]
  have "with_bucket_round_robin H config items key st =
    (let rotated = rotate_from (start_index (st key) (item_ids ?order)) ?order
     in Some (rotated, case rotated of [] \<Rightarrow> st | it # _ \<Rightarrow> st(key \<mapsto> mt_mentor_id (fst it))))"
    using assms
    by (simp add: with_bucket_round_robin_def interleave_loop_eq sorted_buckets_Nil bucket_order_def
        item_ids_def case_prod_beta' Let_def split: list.splits)
  moreover have "(case rotate_from (start_index (st key) (item_ids ?order)) ?order of
      [] \<Rightarrow> st | it # _ \<Rightarrow> st(key \<mapsto> mt_mentor_id (fst it)))
    = st(key \<mapsto> mt_mentor_id (fst (?order ! start_index (st key) (item_ids ?order))))"
    by (subst h) simp
  ultimately show ?thesis by (simp add: Let_def)
qed

lemma mset_jitter: "mset (with_deterministic_jitter H items key) = mset items"
proof -
  have "mset (with_deterministic_jitter H items key) =
      mset (map (\<lambda>(m, trace, j). (m, trace)) (map (\<lambda>(m, trace). (m, trace, jitter_of H key m)) items))"
    by (simp only: with_deterministic_jitter_def mset_map mset_sort)
  also have "map (\<lambda>(m, trace, j). (m, trace)) (map (\<lambda>(m, trace). (m, trace, jitter_of H key m)) items) = items"
    by (induction items) auto
  finally show ?thesis .
qed

lemma rank_permutes: "\<exists>items' st'. rank H config items y st = Some (items', st') \<and> mset items' = mset items"
proof (cases "length items \<le> 1 \<or> fc_strategy config = FS_NONE")
  case False
  then have "items \<noteq> []" by auto
  then show ?thesis
    using False
    by (cases "fc_strategy config")
      (auto simp: rank_def with_bucket_round_robin_eq mset_jitter mset_bucket_order Let_def)
qed (simp add: rank_def)

lemma select_best_cases:
  assumes "select_best H config rules s candidates y st = Some (r, st')"
  obtains (nobody) "passing_items rules s candidates = []" "se_mentor_id r = None" "st' = st"
      "se_reason r = Some NO_ELIGIBLE_MENTOR"
      "se_rule_trace r = failure_trace (length rules) (last_failure rules s candidates)"
  | (best) m trace rest where "se_mentor_id r = Some (mt_mentor_id m)" "se_rule_trace r = trace"
      "se_reason r = None" "(m, trace) \<in> set (passing_items rules s candidates)"
      "rank H config (sort_key base_key (passing_items rules s candidates)) (resolve_fairness_key s y) st
         = Some ((m, trace) # rest, st')"
proof (cases "passing_items rules s candidates = []")
  case True
  then show ?thesis using assms nobody by (auto simp: select_best_def Let_def)
next
  case False
  let ?items = "sort_key base_key (passing_items rules s candidates)"
  obtain items' st2 where rk: "rank H config ?items (resolve_fairness_key s y) st = Some (items', st2)"
    and ms: "mset items' = mset ?items" using rank_permutes by blast
  have "items' \<noteq> []" using ms False by (metis mset_sort mset_zero_iff)
  then obtain m trace rest where it: "items' = (m, trace) # rest" by (metis neq_Nil_conv surj_pair)
  then have "(m, trace) \<in> set (passing_items rules s candidates)"
    using ms by (metis list.set_intros(1) mset_eq_setD set_sort)
  then show ?thesis using assms best rk it False by (auto simp: select_best_def Let_def)
qed

lemma select_best_total: "\<exists>r st'. select_best H config rules s candidates y st = Some (r, st')"
proof (cases "passing_items rules s candidates = []")
  case True
  then show ?thesis by (simp add: select_best_def Let_def)
next
  case False
  let ?items = "sort_key base_key (passing_items rules s candidates)"
  obtain items' st2 where rk: "rank H config ?items (resolve_fairness_key s y) st = Some (items', st2)"
    and ms: "mset items' = mset ?items" using rank_permutes by blast
  then have "items' \<noteq> []" using False by (metis mset_sort mset_zero_iff)
  then show ?thesis
    using rk False by (cases items') (auto simp: select_best_def Let_def)
qed

lemma passing_items_set:
  "(m, trace) \<in> set (passing_items rules s candidates) \<longleftrightarrow>
     m \<in> set candidates \<and> fst (check_rules rules s m) \<and> trace = snd (check_rules rules s m)"
  by (auto simp: passing_items_def)

end
