(* ===== verification/Domain_Service.thy ===== *)
theory Domain_Service
  imports Domain_Alloc
begin

text \<open>
  \<^verbatim>\<open>application/services\<close>: \<^verbatim>\<open>AllocationService.start_batch_allocation\<close> and \<^verbatim>\<open>BatchProcessor.run\<close>
  over the engine, and the properties of both. The repositories are protocols in the source: the
  mentor repository is a pair of functions on an abstract state, the marks of the students, the
  outbox and the job store are lists of what was written to them.
\<close>

text \<open>What the engine is run with: hash, fairness configuration and rules.\<close>

record engine =
  en_hash :: "pystr \<Rightarrow> int"
  en_config :: FairnessConfig
  en_rules :: "domain_rule list"

definition engine_select ::
  "engine \<Rightarrow> Student \<Rightarrow> Mentor list \<Rightarrow> rr_state \<Rightarrow> (SelectionResult \<times> rr_state) option" where
  "engine_select en s candidates st =
     select_best (en_hash en) (en_config en) (en_rules en) s candidates None st"

record 'm mentor_repo =
  find_candidates :: "'m \<Rightarrow> Student \<Rightarrow> Mentor list"
  increment_load :: "'m \<Rightarrow> int \<Rightarrow> 'm"

datatype service_event =
    MentorAssigned pystr int "ReasonCode option list" FairnessStrategy pystr
  | AllocationFailed pystr ReasonCode FairnessStrategy pystr

record 'm service_state =
  sv_mentors :: 'm
  sv_marks :: "(pystr \<times> int option \<times> AllocationStatus) list"
  sv_events :: "service_event list"
  sv_rr :: rr_state

text \<open>One student of a batch: whether it was assigned, and the new state.\<close>

definition process_student ::
  "engine \<Rightarrow> 'm mentor_repo \<Rightarrow> Student \<Rightarrow> 'm service_state \<Rightarrow> (bool \<times> 'm service_state) option" where
  "process_student en repo s st =
     (case engine_select en s (find_candidates repo (sv_mentors st) s) (sv_rr st) of
        None \<Rightarrow> None
      | Some (r, rr) \<Rightarrow>
          (case se_mentor_id r of
             Some k \<Rightarrow>
               Some (True, st\<lparr>sv_mentors := increment_load repo (sv_mentors st) k,
                 sv_marks := sv_marks st @ [(sd_national_id s, Some k, AS_OK)],
                 sv_events := sv_events st @
                   [MentorAssigned (sd_national_id s) k (se_rule_trace r) (se_fairness_strategy r)
                      (se_fairness_key r)], sv_rr := rr\<rparr>)
           | None \<Rightarrow>
               (let failure_reason = (case se_reason r of Some c \<Rightarrow> c | None \<Rightarrow> NO_ELIGIBLE_MENTOR)
                in Some (False, st\<lparr>
                 sv_marks := sv_marks st @ [(sd_national_id s, None, AS_NEEDS_NEW_MENTOR)],
                 sv_events := sv_events st @
                   [AllocationFailed (sd_national_id s) failure_reason (se_fairness_strategy r)
                      (se_fairness_key r)], sv_rr := rr\<rparr>))))"

text \<open>\<^verbatim>\<open>start_batch_allocation\<close>: the numbers of processed and of assigned students.\<close>

fun start_batch ::
  "engine \<Rightarrow> 'm mentor_repo \<Rightarrow> Student list \<Rightarrow> 'm service_state \<Rightarrow>
   ((int \<times> int) \<times> 'm service_state) option" where
  "start_batch en repo [] st = Some ((0, 0), st)"
| "start_batch en repo (s # ss) st =
     Option.bind (process_student en repo s st) (\<lambda>(ok, st1).
     map_option (\<lambda>((processed, success), st2).
         ((processed + 1, success + (if ok then 1 else 0)), st2))
       (start_batch en repo ss st1))"

text \<open>
  \<^verbatim>\<open>BatchProcessor.run\<close> writes no events; after each chunk it reports the totals so far to the
  job store.
\<close>

definition process_quietly ::
  "engine \<Rightarrow> 'm mentor_repo \<Rightarrow> Student \<Rightarrow> 'm service_state \<Rightarrow> (bool \<times> 'm service_state) option" where
  "process_quietly en repo s st =
     map_option (\<lambda>(ok, st1). (ok, st1\<lparr>sv_events := sv_events st\<rparr>)) (process_student en repo s st)"

fun run_chunk ::
  "engine \<Rightarrow> 'm mentor_repo \<Rightarrow> Student list \<Rightarrow> (int \<times> int \<times> int) \<Rightarrow> 'm service_state \<Rightarrow>
   ((int \<times> int \<times> int) \<times> 'm service_state) option" where
  "run_chunk en repo [] totals st = Some (totals, st)"
| "run_chunk en repo (s # ss) totals st =
     (case process_quietly en repo s st of
        None \<Rightarrow> None
      | Some (ok, st1) \<Rightarrow>
          let (processed, success, failed) = totals
          in run_chunk en repo ss
               (processed + 1, if ok then success + 1 else success, if ok then failed else failed + 1) st1)"

datatype job_event = JobStart pystr int | JobUpdate pystr int int int | JobComplete pystr

fun run_chunks ::
  "engine \<Rightarrow> 'm mentor_repo \<Rightarrow> pystr \<Rightarrow> Student list list \<Rightarrow> (int \<times> int \<times> int) \<Rightarrow> 'm service_state \<Rightarrow>
   job_event list \<Rightarrow> ((int \<times> int \<times> int) \<times> 'm service_state \<times> job_event list) option" where
  "run_chunks en repo job [] totals st jlog = Some (totals, st, jlog)"
| "run_chunks en repo job (chunk # chunks) totals st jlog =
     (case run_chunk en repo chunk totals st of
        None \<Rightarrow> None
      | Some ((processed, success, failed), st1) \<Rightarrow>
          run_chunks en repo job chunks (processed, success, failed) st1
            (jlog @ [JobUpdate job processed success failed]))"

definition batch_run ::
  "engine \<Rightarrow> 'm mentor_repo \<Rightarrow> pystr option \<Rightarrow> int \<Rightarrow> int \<Rightarrow> Student list list \<Rightarrow> 'm service_state \<Rightarrow>
   ((pystr \<times> int \<times> int \<times> int) \<times> 'm service_state \<times> job_event list) option" where
  "batch_run en repo cmd_job_id unix_timestamp total_count chunks st =
     (let job = (case cmd_job_id of
                   Some j \<Rightarrow> if j \<noteq> [] then j else asc ''job-'' @ py_str_int unix_timestamp
                 | None \<Rightarrow> asc ''job-'' @ py_str_int unix_timestamp)
      in case run_chunks en repo job chunks (0, 0, 0) st [JobStart job total_count] of
           None \<Rightarrow> None
         | Some ((processed, success, failed), st1, jlog) \<Rightarrow>
             Some ((job, processed, success, failed), st1, jlog @ [JobComplete job]))"

section \<open>The contract of the mentor repository\<close>

text \<open>
  Candidates carry the current load and the capacity of their mentor, and an increment adds one
  to the load of that mentor only.
\<close>

definition repo_ok :: "'m mentor_repo \<Rightarrow> ('m \<Rightarrow> int \<Rightarrow> int) \<Rightarrow> (int \<Rightarrow> int) \<Rightarrow> bool" where
  "repo_ok repo load cap \<longleftrightarrow>
     (\<forall>st s m. m \<in> set (find_candidates repo st s) \<longrightarrow>
        mt_current_load m = load st (mt_mentor_id m) \<and> mt_capacity m = cap (mt_mentor_id m)) \<and>
     (\<forall>st k. load (increment_load repo st k) = (load st)(k := load st k + 1))"

definition assigned_to :: "'m service_state \<Rightarrow> int \<Rightarrow> int" where
  "assigned_to st k = int (length (filter (\<lambda>x. fst (snd x) = Some k) (sv_marks st)))"

lemma process_student_total: "\<exists>ok st'. process_student en repo s st = Some (ok, st')"
proof -
  obtain r rr where "engine_select en s (find_candidates repo (sv_mentors st) s) (sv_rr st) = Some (r, rr)"
    using select_best_total unfolding engine_select_def by blast
  then show ?thesis by (auto simp: process_student_def Let_def split: option.splits)
qed

lemma selected_passes:
  assumes "engine_select en s candidates rr = Some (r, rr')" and "se_mentor_id r = Some k"
  obtains m where "m \<in> set candidates" "mt_mentor_id m = k" "\<forall>rule \<in> set (en_rules en). rule s m = None"
  using assms(1) unfolding engine_select_def
proof (cases rule: select_best_cases)
  case (best m trace rest)
  then show ?thesis using that assms(2) by (auto simp: passing_items_set check_rules_ok)
qed (use assms(2) in auto)

text \<open>Loads stay within the capacities, and grow by what the marks record.\<close>

definition loads_tracked ::
  "('m \<Rightarrow> int \<Rightarrow> int) \<Rightarrow> (int \<Rightarrow> int) \<Rightarrow> 'm service_state \<Rightarrow> 'm service_state \<Rightarrow> bool" where
  "loads_tracked load cap st st' \<longleftrightarrow>
     (\<forall>k. load (sv_mentors st') k - load (sv_mentors st) k = assigned_to st' k - assigned_to st k) \<and>
     ((\<forall>k. load (sv_mentors st) k \<le> cap k) \<longrightarrow> (\<forall>k. load (sv_mentors st') k \<le> cap k))"

lemma loads_tracked_trans: "loads_tracked load cap a b \<Longrightarrow> loads_tracked load cap b c \<Longrightarrow> loads_tracked load cap a c"
  unfolding loads_tracked_def by (smt (verit))

lemma process_student_tracked:
  assumes "process_student en repo s st = Some (ok, st')" and "repo_ok repo load cap"
    and "CapacityRule \<in> set (en_rules en)"
  shows "loads_tracked load cap st st'"
    and "length (sv_marks st') = Suc (length (sv_marks st))"
    and "ok \<longleftrightarrow> snd (snd (last (sv_marks st'))) = AS_OK"
proof -
  obtain r rr where sel: "engine_select en s (find_candidates repo (sv_mentors st) s) (sv_rr st) = Some (r, rr)"
    using assms(1) by (cases "engine_select en s (find_candidates repo (sv_mentors st) s) (sv_rr st)")
      (auto simp: process_student_def)
  have "loads_tracked load cap st st' \<and> length (sv_marks st') = Suc (length (sv_marks st)) \<and>
    (ok \<longleftrightarrow> snd (snd (last (sv_marks st'))) = AS_OK)"
  proof (cases "se_mentor_id r")
    case None
    then show ?thesis
      using assms(1) sel by (auto simp: process_student_def Let_def loads_tracked_def assigned_to_def)
  next
    case (Some k)
    obtain m where m: "m \<in> set (find_candidates repo (sv_mentors st) s)" "mt_mentor_id m = k"
      "\<forall>rule \<in> set (en_rules en). rule s m = None"
      using selected_passes [OF sel Some] .
    then have "has_capacity m" using assms(3) by (auto simp: CapacityRule_def split: if_split_asm)
    then have room: "load (sv_mentors st) k < cap k"
      using m(1,2) assms(2) by (auto simp: repo_ok_def has_capacity_def)
    have inc: "load (increment_load repo (sv_mentors st) k) = (load (sv_mentors st))(k := load (sv_mentors st) k + 1)"
      using assms(2) by (simp add: repo_ok_def)
    show ?thesis
      using assms(1) sel Some room inc
      by (auto simp: process_student_def loads_tracked_def assigned_to_def)
  qed
  then show "loads_tracked load cap st st'" "length (sv_marks st') = Suc (length (sv_marks st))"
    "ok \<longleftrightarrow> snd (snd (last (sv_marks st'))) = AS_OK" by auto
qed

lemma start_batch_tracked:
  "start_batch en repo ss st = Some ((processed, success), st') \<Longrightarrow> repo_ok repo load cap \<Longrightarrow>
     CapacityRule \<in> set (en_rules en) \<Longrightarrow>
     loads_tracked load cap st st' \<and> processed = int (length ss) \<and> 0 \<le> success \<and> success \<le> processed"
proof (induction ss arbitrary: st processed success)
  case Nil
  then show ?case by (simp add: loads_tracked_def)
next
  case (Cons s ss)
  obtain ok st1 where p: "process_student en repo s st = Some (ok, st1)"
    using process_student_total by blast
  then obtain pr su where rest: "start_batch en repo ss st1 = Some ((pr, su), st')"
    and eqs: "processed = pr + 1" "success = su + (if ok then 1 else 0)"
    using Cons.prems(1) by auto
  show ?case
    using Cons.IH [OF rest Cons.prems(2,3)] process_student_tracked(1) [OF p Cons.prems(2,3)] eqs
      loads_tracked_trans by fastforce
qed

lemma start_batch_total: "\<exists>n m st'. start_batch en repo ss st = Some ((n, m), st')"
proof (induction ss arbitrary: st)
  case (Cons s ss)
  obtain ok st1 where p: "process_student en repo s st = Some (ok, st1)"
    using process_student_total by blast
  obtain n m st2 where "start_batch en repo ss st1 = Some ((n, m), st2)" using Cons.IH by blast
  then show ?case using p by simp
qed simp

lemma process_quietly_total: "\<exists>ok st'. process_quietly en repo s st = Some (ok, st')"
  using process_student_total [of en repo s st] by (auto simp: process_quietly_def)

lemma process_quietly_tracked:
  assumes "process_quietly en repo s st = Some (ok, st')" and "repo_ok repo load cap"
    and "CapacityRule \<in> set (en_rules en)"
  shows "loads_tracked load cap st st' \<and> sv_events st' = sv_events st"
  using assms process_student_tracked(1) [OF _ assms(2,3)]
  by (fastforce simp: process_quietly_def loads_tracked_def assigned_to_def)

lemma run_chunk_tracked:
  "repo_ok repo load cap \<Longrightarrow> CapacityRule \<in> set (en_rules en) \<Longrightarrow>
     \<exists>p su f st'. run_chunk en repo ss (p0, su0, f0) st = Some ((p, su, f), st') \<and>
       loads_tracked load cap st st' \<and> p - p0 = int (length ss) \<and>
       (su - su0) + (f - f0) = int (length ss) \<and> sv_events st' = sv_events st"
proof (induction ss arbitrary: st p0 su0 f0)
  case Nil
  then show ?case by (simp add: loads_tracked_def)
next
  case (Cons s ss)
  obtain ok st1 where q: "process_quietly en repo s st = Some (ok, st1)"
    using process_quietly_total by blast
  note t = process_quietly_tracked [OF q Cons.prems]
  from Cons.IH [OF Cons.prems, of "p0 + 1" "if ok then su0 + 1 else su0" "if ok then f0 else f0 + 1" st1]
  obtain p su f st' where
    "run_chunk en repo ss (p0 + 1, if ok then su0 + 1 else su0, if ok then f0 else f0 + 1) st1 = Some ((p, su, f), st')"
    "loads_tracked load cap st1 st'" "p - (p0 + 1) = int (length ss)"
    "(su - (if ok then su0 + 1 else su0)) + (f - (if ok then f0 else f0 + 1)) = int (length ss)"
    "sv_events st' = sv_events st1" by blast
  then show ?case
    using q t loads_tracked_trans by (intro exI [of _ p] exI [of _ su] exI [of _ f] exI [of _ st']) (auto split: if_splits)
qed

section \<open>Round robin\<close>

text \<open>The mentors put first by consecutive rankings of the same candidates.\<close>

fun rr_picks ::
  "(pystr \<Rightarrow> int) \<Rightarrow> FairnessConfig \<Rightarrow> item list \<Rightarrow> pystr \<Rightarrow> nat \<Rightarrow> rr_state \<Rightarrow> int list" where
  "rr_picks H config items y 0 st = []"
| "rr_picks H config items y (Suc n) st =
     (case rank H config items y st of
        Some ((m, trace) # rest, st') \<Rightarrow> mt_mentor_id m # rr_picks H config items y n st'
      | _ \<Rightarrow> [])"

lemma start_index_next:
  assumes "distinct xs" and "i < length xs"
  shows "start_index (Some (xs ! i)) xs = (i + 1) mod length xs"
proof -
  have "find (\<lambda>j. xs ! j = xs ! i) [0..<length xs] = Some i"
    using assms by (auto simp: find_Some_iff nth_eq_iff_index_eq intro!: exI [of _ i])
  then show ?thesis by (simp add: start_index_def)
qed

lemma rr_picks_eq:
  assumes "fc_strategy config = BUCKET_ROUND_ROBIN" and "1 < length items" and "distinct (item_ids items)"
    and "key = (if y = [] then default_key else y)"
    and "ids = item_ids (bucket_order H config items key)"
  shows "rr_picks H config items y n st =
     map (\<lambda>j. ids ! ((start_index (st key) ids + j) mod length ids)) [0..<n]"
proof (induction n arbitrary: st)
  case (Suc n)
  let ?order = "bucket_order H config items key"
  let ?i = "start_index (st key) ids"
  have ms: "mset ?order = mset items" by (rule mset_bucket_order)
  then have len: "length ?order = length items" by (metis size_mset)
  have "mset ids = mset (item_ids items)" using ms unfolding assms(5) item_ids_def by (metis mset_map)
  then have d: "distinct ids" using assms(3) by (metis mset_eq_imp_distinct_iff)
  have idl: "length ids = length ?order" by (simp add: assms(5) item_ids_def)
  have i: "?i < length ids" using assms(2) len idl by (intro start_index_less) auto
  have nth: "mt_mentor_id (fst (?order ! ?i)) = ids ! ?i"
    using i idl by (simp add: assms(5) item_ids_def)
  let ?st = "st(key \<mapsto> ids ! ?i)"
  have "items \<noteq> []" using assms(2) by auto
  then have "rank H config items y st = Some (rotate_from ?i ?order, ?st)"
    using assms(1,2,4) with_bucket_round_robin_eq [of items H config key st] nth
    by (auto simp: rank_def Let_def assms(5))
  moreover have "rotate_from ?i ?order = ?order ! ?i # tl (rotate_from ?i ?order)"
    using i idl by (intro hd_rotate_from) simp
  ultimately have "rr_picks H config items y (Suc n) st = ids ! ?i # rr_picks H config items y n ?st"
    using nth
    by (cases "rotate_from ?i ?order"; cases "?order ! ?i") (auto simp del: fun_upd_apply)
  also have "rr_picks H config items y n ?st =
      map (\<lambda>j. ids ! ((start_index (?st key) ids + j) mod length ids)) [0..<n]"
    by (rule Suc.IH)
  also have "start_index (?st key) ids = (?i + 1) mod length ids"
    using start_index_next [OF d i] by simp
  finally show ?case
    using i by (simp add: map_Suc_upt [symmetric] mod_add_left_eq upt_conv_Cons del: upt_Suc)
qed simp

lemma rotation_permutes: "mset (map (\<lambda>j. xs ! ((i + j) mod length xs)) [0..<length xs]) = mset xs"
proof -
  have "map (\<lambda>j. xs ! ((i + j) mod length xs)) [0..<length xs] = rotate i xs"
    by (rule nth_equalityI) (simp_all add: nth_rotate add.commute)
  then show ?thesis by (simp add: rotate_drop_take) (metis append_take_drop_id mset_append union_commute)
qed

section \<open>Properties\<close>

lemma default_rules_length: "length default_rules = 6"
  by (simp add: default_rules_def)

text \<open>
  C23 select_best_sound: With the default rules \<^verbatim>\<open>select_best\<close> always returns. It selects no
  mentor exactly when no candidate is eligible; a selected mentor is an eligible candidate under
  every fairness strategy, with a trace of six passed rules; and without a strategy no eligible
  candidate has a smaller (occupancy, load, id).
\<close>

theorem select_best_sound:
  "\<exists>r st'. select_best H config default_rules s candidates y st = Some (r, st') \<and>
    (se_mentor_id r = None \<longleftrightarrow> \<not> (\<exists>m. m \<in> set candidates \<and> domain_eligible s m)) \<and>
    (\<forall>k. se_mentor_id r = Some k \<longrightarrow>
       se_rule_trace r = replicate 6 None \<and>
       (\<exists>m. m \<in> set candidates \<and> mt_mentor_id m = k \<and> domain_eligible s m \<and>
          (fc_strategy config = FS_NONE \<longrightarrow>
             (\<forall>m'. m' \<in> set candidates \<and> domain_eligible s m' \<longrightarrow> base_key (m, []) \<le> base_key (m', [])))))"
proof -
  obtain r st' where sel: "select_best H config default_rules s candidates y st = Some (r, st')"
    using select_best_total by blast
  let ?items = "passing_items default_rules s candidates"
  have key: "base_key (m, t) = base_key (m, [])" for m t by (simp add: base_key_def)
  show ?thesis
  proof (cases rule: select_best_cases [OF sel])
    case 1
    then have "\<not> (\<exists>m. m \<in> set candidates \<and> domain_eligible s m)"
      by (auto simp: passing_items_def default_rules_eligible filter_empty_conv)
    then show ?thesis using sel 1 by auto
  next
    case (2 m trace rest)
    have m: "m \<in> set candidates" "domain_eligible s m" "trace = replicate 6 None"
      using 2(4) check_rules_trace_ok [of default_rules s m]
      by (auto simp: passing_items_set default_rules_eligible default_rules_length)
    have least: "base_key (m, []) \<le> base_key (m', [])"
      if fs: "fc_strategy config = FS_NONE" and m': "m' \<in> set candidates" "domain_eligible s m'" for m'
    proof -
      let ?m' = "(m', snd (check_rules default_rules s m'))"
      have ne: "?items \<noteq> []" using 2(4) by auto
      have "?m' \<in> set ?items" using m' by (simp add: passing_items_set default_rules_eligible)
      then have "base_key (hd (sort_key base_key ?items)) \<le> base_key ?m'"
        by (rule hd_sort_key_min [OF ne])
      moreover have "sort_key base_key ?items = (m, trace) # rest"
        using 2(5) fs by (simp add: rank_def)
      ultimately show ?thesis using key by (metis list.sel(1))
    qed
    show ?thesis
      by (intro exI [of _ r] exI [of _ st'] conjI allI impI)
        (use sel 2 m least in \<open>auto\<close>)
  qed
qed

definition domain_student :: Student where
  "domain_student =
     \<lparr>sd_national_id = asc ''1'', sd_gender = female, sd_edu_status = student, sd_reg_center = center1,
      sd_group_code = 3, sd_school_code = None, sd_student_type = normal,
      sd_counter = Some (asc ''033570001''), sd_mobile = None\<rparr>"

definition domain_mentor :: "int \<Rightarrow> int \<Rightarrow> Mentor" where
  "domain_mentor k load =
     \<lparr>mt_mentor_id = k, mt_gender = female, mt_type = normal_word, mt_capacity = 4, mt_current_load = load,
      mt_allowed_groups = {3}, mt_allowed_centers = {1}, mt_school_codes = {}\<rparr>"

definition no_fairness :: FairnessConfig where
  "no_fairness = \<lparr>fc_strategy = FS_NONE, fc_bucket_size = fl (1 / 10)\<rparr>"

definition round_robin :: FairnessConfig where
  "round_robin = \<lparr>fc_strategy = BUCKET_ROUND_ROBIN, fc_bucket_size = fl (1 / 10)\<rparr>"

theorem select_best_sound_witness:
  "\<exists>r st'. select_best (\<lambda>s. 0) no_fairness default_rules domain_student
       [domain_mentor 5 3, domain_mentor 6 1, domain_mentor 7 4] None Map.empty = Some (r, st') \<and>
     se_mentor_id r \<noteq> None"
proof -
  have "domain_eligible domain_student (domain_mentor 6 1)"
    by (simp add: domain_eligible_def domain_student_def domain_mentor_def normal_word_def school_word_def)
  then show ?thesis
    using select_best_sound [of "\<lambda>s. 0" no_fairness domain_student
        "[domain_mentor 5 3, domain_mentor 6 1, domain_mentor 7 4]" None Map.empty] by fastforce
qed

text \<open>
  With the round-robin strategy, as many consecutive
  rankings of the same candidates (two or more, with distinct ids) as there are candidates put
  every one of them first exactly once, wherever the rotation stood.
\<close>

theorem round_robin_serves_everyone:
  assumes "fc_strategy config = BUCKET_ROUND_ROBIN" and "1 < length items" and "distinct (item_ids items)"
  shows "mset (rr_picks H config items y (length items) st) = mset (item_ids items)"
proof -
  define ids where "ids = item_ids (bucket_order H config items (if y = [] then default_key else y))"
  have "mset ids = mset (item_ids items)"
    unfolding ids_def item_ids_def using mset_bucket_order by (metis mset_map)
  moreover from this have "length items = length ids"
    by (metis item_ids_def length_map size_mset)
  ultimately show ?thesis
    using rr_picks_eq [OF assms refl, of ids H y "length items" st] rotation_permutes [of ids]
    by (simp add: ids_def)
qed

theorem round_robin_serves_everyone_witness:
  "mset (rr_picks (\<lambda>s. 0) round_robin
      [(domain_mentor 5 0, []), (domain_mentor 6 2, []), (domain_mentor 7 0, [])] (asc ''03'') 3 [asc ''03'' \<mapsto> 7])
   = {#5, 6, 7#}"
  using round_robin_serves_everyone [of round_robin
      "[(domain_mentor 5 0, []), (domain_mentor 6 2, []), (domain_mentor 7 0, [])]" "\<lambda>s. 0" "asc ''03''"
      "[asc ''03'' \<mapsto> 7]"]
  by (simp add: round_robin_def item_ids_def domain_mentor_def numeral_3_eq_3)

text \<open>
  When nobody is eligible and there was a candidate, the
  trace has one reason for each of the six rules: the reason of the rule that the last candidate
  failed first, at that rule's place, and NO_ELIGIBLE_MENTOR at every other place.
\<close>

theorem failure_trace_explains_last:
  assumes "select_best H config default_rules s (ms @ [m]) y st = Some (r, st')" and "se_mentor_id r = None"
  shows "\<exists>n < 6. \<exists>c. (default_rules ! n) s m = Some c \<and>
    se_rule_trace r = (replicate 6 (Some NO_ELIGIBLE_MENTOR))[n := Some c]"
proof (cases rule: select_best_cases [OF assms(1)])
  case 1
  then have "\<not> fst (check_rules default_rules s m)" by (auto simp: passing_items_def)
  then obtain n c where n: "n < length default_rules" "(default_rules ! n) s m = Some c"
    "snd (check_rules default_rules s m) = replicate n None @ [Some c]"
    using check_rules_trace_fail by blast
  have len: "length default_rules = 6" by (simp add: default_rules_def)
  have "last_failure default_rules s (ms @ [m]) = replicate n None @ [Some c]"
    using \<open>\<not> fst (check_rules default_rules s m)\<close> n(3) by (simp add: last_failure_def)
  then have tr: "se_rule_trace r = failure_trace 6 (replicate n None @ [Some c])" using 1 len by simp
  have "failure_trace 6 (replicate n None @ [Some c]) = (replicate 6 (Some NO_ELIGIBLE_MENTOR))[n := Some c]"
    using n(1) len
    by (intro nth_equalityI) (auto simp: failure_trace_def nth_append nth_list_update less_Suc_eq)
  then show ?thesis using n len tr by auto
qed (use assms(2) in auto)

theorem failure_trace_explains_last_witness:
  "\<exists>r st'. select_best (\<lambda>s. 0) no_fairness default_rules domain_student ([] @ [domain_mentor 7 4]) None Map.empty
       = Some (r, st') \<and> (\<exists>n c. se_rule_trace r = (replicate 6 (Some NO_ELIGIBLE_MENTOR))[n := Some c])"
proof -
  let ?o = "select_best (\<lambda>s. 0) no_fairness default_rules domain_student ([] @ [domain_mentor 7 4]) None Map.empty"
  have "map_option (\<lambda>x. se_mentor_id (fst x)) ?o = Some None" by code_simp
  then obtain r st' where "?o = Some (r, st')" "se_mentor_id r = None" by auto
  then show ?thesis using failure_trace_explains_last [of "\<lambda>s. 0" no_fairness domain_student "[]"] by blast
qed

text \<open>
  C28 batch_respects_capacity: Under the contract of the mentor repository, with \<^verbatim>\<open>CapacityRule\<close> among the rules of the
  engine (as in its default rules) and no mentor above the capacity at the start, a batch always
  ends, counts every student it was given, never pushes a mentor's load beyond the capacity, and
  raises each mentor's load by exactly the number of students marked as assigned to that mentor.
\<close>

theorem batch_respects_capacity:
  assumes "repo_ok repo load cap" and "CapacityRule \<in> set (en_rules en)"
    and "\<And>k. load (sv_mentors st) k \<le> cap k"
  shows "\<exists>success st'. start_batch en repo ss st = Some ((int (length ss), success), st') \<and>
    0 \<le> success \<and> success \<le> int (length ss) \<and> (\<forall>k. load (sv_mentors st') k \<le> cap k) \<and>
    (\<forall>k. load (sv_mentors st') k - load (sv_mentors st) k = assigned_to st' k - assigned_to st k)"
proof -
  obtain n m st' where b: "start_batch en repo ss st = Some ((n, m), st')" using start_batch_total by blast
  then show ?thesis
    using start_batch_tracked [OF b assms(1,2)] assms(3) unfolding loads_tracked_def
    by (intro exI [of _ m] exI [of _ st']) auto
qed

definition table_repo :: "(int \<Rightarrow> int) mentor_repo" where
  "table_repo =
     \<lparr>find_candidates = (\<lambda>st s. [domain_mentor 5 (st 5), domain_mentor 6 (st 6)]),
      increment_load = (\<lambda>st k. st(k := st k + 1))\<rparr>"

theorem batch_respects_capacity_witness:
  "\<exists>success st'. start_batch \<lparr>en_hash = (\<lambda>s. 0), en_config = no_fairness, en_rules = default_rules\<rparr> table_repo
      (replicate 9 domain_student) \<lparr>sv_mentors = (\<lambda>k. 0), sv_marks = [], sv_events = [], sv_rr = Map.empty\<rparr>
     = Some ((9, success), st') \<and> sv_mentors st' 5 \<le> 4"
proof -
  have "repo_ok table_repo (\<lambda>st. st) (\<lambda>k. 4)"
    by (auto simp: repo_ok_def table_repo_def domain_mentor_def)
  from batch_respects_capacity [OF this, of "\<lparr>en_hash = (\<lambda>s. 0), en_config = no_fairness, en_rules = default_rules\<rparr>"
      "\<lparr>sv_mentors = (\<lambda>k. 0), sv_marks = [], sv_events = [], sv_rr = Map.empty\<rparr>" "replicate 9 domain_student"]
  show ?thesis by (auto simp: default_rules_def)
qed

lemma run_chunks_tracked:
  "repo_ok repo load cap \<Longrightarrow> CapacityRule \<in> set (en_rules en) \<Longrightarrow>
     \<exists>p su f st'. run_chunks en repo job chunks (p0, su0, f0) st jlog =
         Some ((p, su, f), st', jlog @ drop (length jlog) (snd (snd (the
           (run_chunks en repo job chunks (p0, su0, f0) st jlog))))) \<and>
       loads_tracked load cap st st' \<and> p - p0 = int (length (concat chunks)) \<and>
       (su - su0) + (f - f0) = int (length (concat chunks)) \<and> sv_events st' = sv_events st"
proof (induction chunks arbitrary: st p0 su0 f0 jlog)
  case Nil
  then show ?case by (simp add: loads_tracked_def)
next
  case (Cons chunk chunks)
  obtain p su f st1 where c: "run_chunk en repo chunk (p0, su0, f0) st = Some ((p, su, f), st1)"
    "loads_tracked load cap st st1" "p - p0 = int (length chunk)"
    "(su - su0) + (f - f0) = int (length chunk)" "sv_events st1 = sv_events st"
    using run_chunk_tracked [OF Cons.prems] by blast
  let ?jlog = "jlog @ [JobUpdate job p su f]"
  from Cons.IH [OF Cons.prems, of p su f st1 ?jlog]
  obtain p2 su2 f2 st2 where
    r: "run_chunks en repo job chunks (p, su, f) st1 ?jlog = Some ((p2, su2, f2), st2, ?jlog @ drop (length ?jlog)
       (snd (snd (the (run_chunks en repo job chunks (p, su, f) st1 ?jlog)))))"
    "loads_tracked load cap st1 st2" "p2 - p = int (length (concat chunks))"
    "(su2 - su) + (f2 - f) = int (length (concat chunks))" "sv_events st2 = sv_events st1"
    by blast
  then obtain rest where r': "run_chunks en repo job chunks (p, su, f) st1 ?jlog = Some ((p2, su2, f2), st2, ?jlog @ rest)"
    by blast
  then show ?case
    using c r loads_tracked_trans [OF c(2) r(2)]
    by (intro exI [of _ p2] exI [of _ su2] exI [of _ f2] exI [of _ st2]) auto
qed

text \<open>
  \<^verbatim>\<open>BatchProcessor.run\<close> always completes its job; the processed
  count it returns is the number of students in all chunks and the sum of the assigned and the
  failed ones; it writes no event, and loads and capacities behave as in the service's batch.
\<close>

theorem batch_processor_counts:
  assumes "repo_ok repo load cap" and "CapacityRule \<in> set (en_rules en)"
    and "\<And>k. load (sv_mentors st) k \<le> cap k"
  shows "\<exists>job success failed st' jlog.
    batch_run en repo cmd_job_id now total_count chunks st =
      Some ((job, int (length (concat chunks)), success, failed), st', JobStart job total_count # jlog @ [JobComplete job]) \<and>
    success + failed = int (length (concat chunks)) \<and> job \<noteq> [] \<and> sv_events st' = sv_events st \<and>
    (\<forall>k. load (sv_mentors st') k \<le> cap k)"
proof -
  define job where "job = (case cmd_job_id of
      Some j \<Rightarrow> if j \<noteq> [] then j else asc ''job-'' @ py_str_int now | None \<Rightarrow> asc ''job-'' @ py_str_int now)"
  have "job \<noteq> []" by (simp add: job_def asc_def split: option.splits)
  obtain p su f st' jlog where "run_chunks en repo job chunks (0, 0, 0) st [JobStart job total_count]
      = Some ((p, su, f), st', [JobStart job total_count] @ jlog)"
    "loads_tracked load cap st st'" "p = int (length (concat chunks))" "su + f = int (length (concat chunks))"
    "sv_events st' = sv_events st"
    using run_chunks_tracked [OF assms(1,2), of job chunks 0 0 0 st "[JobStart job total_count]"] by auto
  then show ?thesis
    using assms(3) \<open>job \<noteq> []\<close> unfolding batch_run_def job_def [symmetric] Let_def loads_tracked_def
    by (intro exI [of _ job] exI [of _ su] exI [of _ f] exI [of _ st'] exI [of _ jlog]) simp
qed

theorem batch_processor_counts_witness:
  "\<exists>job success failed st' jlog.
     batch_run \<lparr>en_hash = (\<lambda>s. 0), en_config = no_fairness, en_rules = default_rules\<rparr> table_repo None 17 3
       [[domain_student], [domain_student, domain_student]]
       \<lparr>sv_mentors = (\<lambda>k. 0), sv_marks = [], sv_events = [], sv_rr = Map.empty\<rparr>
     = Some ((job, 3, success, failed), st', jlog) \<and> success + failed = 3"
proof -
  have "repo_ok table_repo (\<lambda>st. st) (\<lambda>k. 4)"
    by (auto simp: repo_ok_def table_repo_def domain_mentor_def)
  from batch_processor_counts [OF this, of "\<lparr>en_hash = (\<lambda>s. 0), en_config = no_fairness, en_rules = default_rules\<rparr>"
      "\<lparr>sv_mentors = (\<lambda>k. 0), sv_marks = [], sv_events = [], sv_rr = Map.empty\<rparr>" None 17 3
      "[[domain_student], [domain_student, domain_student]]"]
  show ?thesis by (auto simp: default_rules_def)
qed

end
