(* ===== verification/Core_Normalize.thy ===== *)
theory Core_Normalize
  imports PyFloat
begin

text \<open>
  \<^verbatim>\<open>core/normalize.py\<close> and \<^verbatim>\<open>core/enums.py\<close>: the normalisers of the registration record. A raw
  value is None, a boolean, an integer or a text; every ValueError is a constructor. The log of
  normalisation errors is not modelled. The regular expressions use Unicode's digit class.
\<close>

definition GENDER_NORMALIZATION_MAP :: "(pystr \<times> int) list" where
  "GENDER_NORMALIZATION_MAP =
   [(asc ''0'', 0), (asc ''1'', 1), (asc ''female'', 0), (asc ''f'', 0), (asc ''girl'', 0),
    ([1586, 1606], 0), ([1582, 1575, 1606, 1605], 0), ([1583, 1582, 1578, 1585], 0),
    ([1582, 1575, 1606, 1608, 1605], 0), (asc ''male'', 1), (asc ''m'', 1), (asc ''boy'', 1),
    ([1605, 1585, 1583], 1), ([1570, 1602, 1575], 1), ([1662, 1587, 1585], 1),
    ([1575, 1606, 1575, 1579], 0), ([1584, 1603, 1608, 1585], 1)]"

definition REG_STATUS_NORMALIZATION_MAP :: "(pystr \<times> int) list" where
  "REG_STATUS_NORMALIZATION_MAP =
   [(asc ''0'', 0), (asc ''1'', 1), (asc ''3'', 3), (asc ''pending'', 0),
    ([1579, 1576, 1578, 32, 1606, 1575, 1605, 32, 1606, 1575, 1602, 1589], 0),
    (asc ''incomplete'', 0), ([1583, 1585, 32, 1575, 1606, 1578, 1592, 1575, 1585], 0),
    ([1605, 1606, 1578, 1592, 1585], 0), (asc ''active'', 1), ([1601, 1593, 1575, 1604], 1),
    (asc ''confirmed'', 1), ([1578, 1575, 1740, 1740, 1583, 32, 1588, 1583, 1607], 1),
    (asc ''approved'', 1), (asc ''hakmat'', 3), ([1581, 1705, 1605, 1578], 3)]"

definition REG_CENTER_NORMALIZATION_MAP :: "(pystr \<times> int) list" where
  "REG_CENTER_NORMALIZATION_MAP =
   [(asc ''0'', 0), (asc ''1'', 1), (asc ''2'', 2)]"

definition HAKMAT_VARIANTS :: "pystr list" where
  "HAKMAT_VARIANTS = [asc ''hakmat'', asc ''hekmat'', [1581, 1705, 1605, 1578], [1581, 1603, 1605, 1578], [1581, 1603, 1600, 1605, 1578]]"

datatype core_error =
    GENDER_ERROR | REG_STATUS_ERROR | REG_CENTER_ERROR | MOBILE_ERROR | NATIONAL_ID_ERROR
  | SCHOOL_CODE_ERROR | NAME_ERROR | SPECIAL_SCHOOLS_ERROR | STUDENT_TYPE_ERROR

section \<open>Text\<close>

definition normalize_digits :: "ucd \<Rightarrow> pystr \<Rightarrow> pystr" where
  "normalize_digits U value = map fold_fa_digit (u_nfkc U value)"

text \<open>\<^verbatim>\<open>str.split()\<close>: the maximal runs without white space.\<close>

fun split_ws :: "pystr \<Rightarrow> pystr \<Rightarrow> pystr list" where
  "split_ws word [] = (if word = [] then [] else [rev word])"
| "split_ws word (c # cs) =
     (if py_isspace c then (if word = [] then split_ws [] cs else rev word # split_ws [] cs)
      else split_ws (c # word) cs)"

fun join_words :: "pystr list \<Rightarrow> pystr" where
  "join_words [] = []"
| "join_words [w] = w"
| "join_words (w # v # ws) = w @ 32 # join_words (v # ws)"

definition prepare_key :: "ucd \<Rightarrow> pyval \<Rightarrow> pystr" where
  "prepare_key U value =
     (let text = normalize_digits U (py_str value); text = u_nfkc U text
      in join_words (split_ws [] (u_lower U (py_strip text))))"

definition only_digits :: "pystr \<Rightarrow> pystr" where
  "only_digits s = filter decimal_char s"

text \<open>\<^verbatim>\<open>-?\d+\<close>\<close>

definition int_pattern :: "pystr \<Rightarrow> bool" where
  "int_pattern s =
     (let d = (case s of [] \<Rightarrow> [] | c # cs \<Rightarrow> if c = 45 then cs else s)
      in d \<noteq> [] \<and> list_all decimal_char d)"

section \<open>Enumerated fields\<close>

definition normalize_gender :: "ucd \<Rightarrow> pyval \<Rightarrow> core_error + int" where
  "normalize_gender U value =
     (case value of
        PNone \<Rightarrow> Inl GENDER_ERROR
      | PBool b \<Rightarrow> Inl GENDER_ERROR
      | PInt i \<Rightarrow> if i \<in> {0, 1} then Inr i else Inl GENDER_ERROR
      | PStr s \<Rightarrow>
          (case map_of GENDER_NORMALIZATION_MAP (prepare_key U value) of
             Some g \<Rightarrow> Inr g | None \<Rightarrow> Inl GENDER_ERROR))"

definition normalize_reg_status :: "ucd \<Rightarrow> pyval \<Rightarrow> core_error + int" where
  "normalize_reg_status U value =
     (case value of
        PNone \<Rightarrow> Inl REG_STATUS_ERROR
      | PBool b \<Rightarrow> Inl REG_STATUS_ERROR
      | PInt i \<Rightarrow> if i \<in> {0, 1, 3} then Inr i else Inl REG_STATUS_ERROR
      | PStr s \<Rightarrow>
          (let key = prepare_key U value
           in case map_of REG_STATUS_NORMALIZATION_MAP key of
                Some r \<Rightarrow> Inr r
              | None \<Rightarrow> if key \<in> set HAKMAT_VARIANTS then Inr 3 else Inl REG_STATUS_ERROR))"

definition normalize_reg_center :: "ucd \<Rightarrow> pyval \<Rightarrow> core_error + int" where
  "normalize_reg_center U value =
     (case value of
        PNone \<Rightarrow> Inl REG_CENTER_ERROR
      | PBool b \<Rightarrow> Inl REG_CENTER_ERROR
      | PInt i \<Rightarrow> if i \<in> {0, 1, 2} then Inr i else Inl REG_CENTER_ERROR
      | PStr s \<Rightarrow>
          (case map_of REG_CENTER_NORMALIZATION_MAP (prepare_key U value) of
             Some c \<Rightarrow> Inr c | None \<Rightarrow> Inl REG_CENTER_ERROR))"

section \<open>Mobile number\<close>

definition normalize_mobile_prefix :: "pystr \<Rightarrow> pystr" where
  "normalize_mobile_prefix digits =
     (if startswith digits (asc ''0098'') \<and> length digits > 4 then 48 # drop 4 digits
      else if startswith digits (asc ''098'') \<and> length digits > 11 then 48 # drop 3 digits
      else if startswith digits (asc ''98'') \<and> length digits > 10 then 48 # drop 2 digits
      else if startswith digits (asc ''9'') \<and> length digits = 10 then 48 # digits
      else digits)"

definition core_mobile_pattern :: "pystr \<Rightarrow> bool" where
  "core_mobile_pattern s \<longleftrightarrow> length s = 11 \<and> take 2 s = [48, 57] \<and> list_all decimal_char (drop 2 s)"

definition core_normalize_mobile :: "ucd \<Rightarrow> pyval \<Rightarrow> core_error + pystr" where
  "core_normalize_mobile U value =
     (case value of
        PNone \<Rightarrow> Inl MOBILE_ERROR
      | PBool b \<Rightarrow> Inl MOBILE_ERROR
      | _ \<Rightarrow>
          (let text = u_nfkc U (normalize_digits U (py_str value));
               digits = normalize_mobile_prefix (only_digits text)
           in if core_mobile_pattern digits then Inr digits else Inl MOBILE_ERROR))"

section \<open>School codes, names and the student type\<close>

definition normalize_school_code :: "ucd \<Rightarrow> pyval \<Rightarrow> core_error + int option" where
  "normalize_school_code U value =
     (if value \<in> {PNone, PStr [], PStr [32], PStr (asc ''null''), PStr (asc ''None'')} then Inr None
      else case value of
        PBool b \<Rightarrow> Inl SCHOOL_CODE_ERROR
      | _ \<Rightarrow>
          (let text = prepare_key U value
           in if text = [] \<or> text = asc ''null'' then Inr None
              else if \<not> int_pattern text then Inl SCHOOL_CODE_ERROR
              else case py_int text of Some n \<Rightarrow> Inr (Some n) | None \<Rightarrow> Inl SCHOOL_CODE_ERROR))"

text \<open>The argument of \<^verbatim>\<open>normalize_int_sequence\<close>: a scalar or a sequence of scalars.\<close>

datatype raw_value = RScalar pyval | RList "pyval list"

fun normalize_int_items :: "ucd \<Rightarrow> pyval list \<Rightarrow> core_error + int list" where
  "normalize_int_items U [] = Inr []"
| "normalize_int_items U (item # items) =
     (if item \<in> {PNone, PStr [], PStr [32]} then normalize_int_items U items
      else case item of
        PBool b \<Rightarrow> Inl SPECIAL_SCHOOLS_ERROR
      | _ \<Rightarrow>
          (let key = prepare_key U item
           in if \<not> int_pattern key then Inl SPECIAL_SCHOOLS_ERROR
              else case py_int key of
                     None \<Rightarrow> Inl SPECIAL_SCHOOLS_ERROR
                   | Some n \<Rightarrow> rbind (normalize_int_items U items) (\<lambda>ns. Inr (n # ns))))"

definition normalize_int_sequence :: "ucd \<Rightarrow> raw_value \<Rightarrow> core_error + int list" where
  "normalize_int_sequence U values =
     (case values of
        RScalar PNone \<Rightarrow> Inr []
      | RScalar _ \<Rightarrow> Inl SPECIAL_SCHOOLS_ERROR
      | RList items \<Rightarrow> normalize_int_items U items)"

definition NAME_ZERO_WIDTH :: "int \<Rightarrow> bool" where
  "NAME_ZERO_WIDTH c \<longleftrightarrow> c \<in> {8204, 8205, 8206, 8207} \<or> 8234 \<le> c \<and> c \<le> 8238"

definition normalize_name :: "ucd \<Rightarrow> pyval \<Rightarrow> core_error + pystr option" where
  "normalize_name U value =
     (if value \<in> {PNone, PStr [], PStr [32]} then Inr None
      else case value of
        PBool b \<Rightarrow> Inl NAME_ERROR
      | _ \<Rightarrow>
          (let text = u_nfkc U (normalize_digits U (py_str value));
               adjusted = replace_char 1610 1740 (replace_char 1603 1705 text);
               adjusted = filter (\<lambda>c. \<not> NAME_ZERO_WIDTH c) adjusted;
               collapsed = join_words (split_ws [] (py_strip adjusted))
           in Inr (if collapsed = [] then None else Some collapsed)))"

text \<open>
  The provider of special schools: \<open>None\<close> where it raises, which counts as an empty roster;
  its items that do not normalise are skipped.
\<close>

definition roster_of_provider :: "ucd \<Rightarrow> pyval list option \<Rightarrow> int set" where
  "roster_of_provider U raw =
     set (List.map_filter (\<lambda>item. case normalize_school_code U item of
                                    Inr (Some n) \<Rightarrow> Some n | _ \<Rightarrow> None)
            (case raw of None \<Rightarrow> [] | Some items \<Rightarrow> items))"

definition core_derive_student_type ::
  "ucd \<Rightarrow> pyval \<Rightarrow> int list option \<Rightarrow> int option \<Rightarrow> (int \<Rightarrow> pyval list option) option \<Rightarrow> core_error + int" where
  "core_derive_student_type U school_code special roster_year provider =
     rbind (normalize_school_code U school_code) (\<lambda>code.
       case code of
         None \<Rightarrow> Inr 0
       | Some c \<Rightarrow>
           rbind (case (provider, roster_year) of
                    (Some p, Some y) \<Rightarrow> Inr (roster_of_provider U (p y))
                  | _ \<Rightarrow> (case special of
                            None \<Rightarrow> Inr {}
                          | Some ks \<Rightarrow> rbind (normalize_int_sequence U (RList (map PInt ks)))
                                         (\<lambda>ns. Inr (set ns))))
             (\<lambda>roster. Inr (if c \<in> roster then 1 else 0)))"

section \<open>National id\<close>

definition digit_values :: "pystr \<Rightarrow> int list" where
  "digit_values s = map (\<lambda>c. case py_decimal c of Some d \<Rightarrow> d | None \<Rightarrow> 0) s"

definition weighted_sum :: "int list \<Rightarrow> int" where
  "weighted_sum numbers = sum_list (map (\<lambda>i. numbers ! i * (10 - int i)) [0..<9])"

definition expected_check :: "int \<Rightarrow> int" where
  "expected_check remainder = (if remainder < 2 then remainder else 11 - remainder)"

definition normalize_national_id :: "ucd \<Rightarrow> pyval \<Rightarrow> core_error + pystr" where
  "normalize_national_id U value =
     (case value of
        PNone \<Rightarrow> Inl NATIONAL_ID_ERROR
      | PBool b \<Rightarrow> Inl NATIONAL_ID_ERROR
      | _ \<Rightarrow>
          (let text = py_strip (u_nfkc U (normalize_digits U (py_str value)));
               digits = only_digits text
           in if length digits \<noteq> 10 then Inl NATIONAL_ID_ERROR
              else let numbers = digit_values digits
                   in if expected_check (weighted_sum numbers mod 11) \<noteq> last numbers
                      then Inl NATIONAL_ID_ERROR else Inr digits))"

section \<open>Error detection of the check digit\<close>

definition checked_id :: "int list \<Rightarrow> bool" where
  "checked_id ns \<longleftrightarrow> length ns = 10 \<and> (\<forall>n \<in> set ns. 0 \<le> n \<and> n \<le> 9) \<and>
     expected_check (weighted_sum ns mod 11) = last ns"

lemma only_digits_decimal: "list_all decimal_char (only_digits s)"
  by (simp add: only_digits_def list_all_iff)

lemma digit_values_range: "n \<in> set (digit_values s) \<Longrightarrow> 0 \<le> n \<and> n \<le> 9"
  by (auto simp: digit_values_def py_decimal_range split: option.splits)

lemma national_id_checked:
  assumes "normalize_national_id U v = Inr s"
  shows "list_all decimal_char s \<and> checked_id (digit_values s)"
  using assms digit_values_range only_digits_decimal
  by (auto simp: normalize_national_id_def checked_id_def Let_def digit_values_def
      split: pyval.splits if_splits)

lemma weighted_sum_unfold:
  "weighted_sum ns = ns!0 * 10 + ns!1 * 9 + ns!2 * 8 + ns!3 * 7 + ns!4 * 6 + ns!5 * 5
     + ns!6 * 4 + ns!7 * 3 + ns!8 * 2"
  by (simp add: weighted_sum_def upt_rec numeral_nat)


lemma weighted_sum_update:
  assumes "length ns = 10" "i < 9"
  shows "weighted_sum (ns[i := x]) = weighted_sum ns + (x - ns ! i) * (10 - int i)"
proof -
  have "weighted_sum (ns[i := x]) =
      (\<Sum>k\<in>{0..<9}. (if k = i then x else ns ! k) * (10 - int k))"
    unfolding weighted_sum_def using assms
    by (subst interv_sum_list_conv_sum_set_nat) (auto simp: nth_list_update intro!: sum.cong)
  also have "\<dots> = (\<Sum>k\<in>{0..<9}. ns ! k * (10 - int k)
      + (if k = i then (x - ns ! k) * (10 - int k) else 0))"
    by (intro sum.cong) (auto simp: algebra_simps)
  also have "\<dots> = weighted_sum ns + (x - ns ! i) * (10 - int i)"
    unfolding weighted_sum_def using assms
    by (simp add: sum.distrib interv_sum_list_conv_sum_set_nat)
  finally show ?thesis .
qed

lemma expected_check_inj:
  "0 \<le> r \<Longrightarrow> r < 11 \<Longrightarrow> 0 \<le> q \<Longrightarrow> q < 11 \<Longrightarrow> expected_check r = expected_check q \<Longrightarrow>
   expected_check r \<noteq> 1 \<Longrightarrow> r = q"
  by (auto simp: expected_check_def split: if_splits)

lemma last_ten:
  assumes "length ns = 10"
  shows "last ns = ns ! 9"
proof -
  have "ns \<noteq> []" using assms by (metis list.size(3) zero_neq_numeral)
  from last_conv_nth [OF this] show ?thesis unfolding assms by simp
qed

text \<open>Modulo 11 the weights 2 to 10 are units: a nonzero digit difference never cancels.\<close>

lemma weight_unit:
  fixes k e :: int
  assumes "2 \<le> k" "k \<le> 10" "\<bar>e\<bar> \<le> 9" "(e * k) mod 11 = 0"
  shows "e = 0"
proof -
  have units: "\<forall>k \<in> set [2..10]. \<forall>e \<in> set [- 9..9]. (e * k) mod (11::int) = 0 \<longrightarrow> e = 0"
    by code_simp
  have "k \<in> set [2..10]" "e \<in> set [- 9..9]" using assms by auto
  from bspec [OF bspec [OF units this(1)] this(2)] show ?thesis using assms(4) by (rule mp)
qed

lemma checked_expected: "checked_id ns \<Longrightarrow> expected_check (weighted_sum ns mod 11) = last ns"
  unfolding checked_id_def by blast

lemma checked_same_residue:
  assumes "checked_id ns" "checked_id ms" "last ms = last ns" "last ns \<noteq> 1"
  shows "(weighted_sum ms - weighted_sum ns) mod 11 = 0"
proof -
  have eq: "expected_check (weighted_sum ms mod 11) = expected_check (weighted_sum ns mod 11)"
    using checked_expected [OF assms(1)] checked_expected [OF assms(2)] assms(3)
    by (elim ssubst) (rule refl)
  have ne: "expected_check (weighted_sum ms mod 11) \<noteq> 1"
    unfolding checked_expected [OF assms(2)] assms(3) by (rule assms(4))
  have "weighted_sum ms mod 11 = weighted_sum ns mod 11"
    by (rule expected_check_inj [OF _ _ _ _ eq ne]) simp_all
  then show ?thesis by (simp add: mod_eq_dvd_iff)
qed

lemma checked_single_error:
  assumes ns: "checked_id ns" and ms: "checked_id (ns[i := x])" and i: "i < 10"
    and c: "i = 9 \<or> last ns \<noteq> 1"
  shows "x = ns ! i"
proof (cases "i = 9")
  case True
  have "weighted_sum (ns[9 := x]) = weighted_sum ns" by (simp add: weighted_sum_unfold)
  with ns ms True have "last (ns[9 := x]) = last ns" by (simp add: checked_id_def)
  with ns True show ?thesis by (simp add: checked_id_def last_ten)
next
  case False
  with i have i9: "i < 9" by simp
  have len: "length ns = 10" using ns by (simp add: checked_id_def)
  have "last (ns[i := x]) = last ns" using len i9 by (simp add: last_ten)
  then have "((x - ns ! i) * (10 - int i)) mod 11 = 0"
    using checked_same_residue [OF ns ms] False c weighted_sum_update [OF len i9] by simp
  moreover have "\<bar>x - ns ! i\<bar> \<le> 9"
  proof -
    have "x \<in> set (ns[i := x])" "ns ! i \<in> set ns" using len i9 by (auto simp: set_update_memI)
    then have "0 \<le> x \<and> x \<le> 9" "0 \<le> ns ! i \<and> ns ! i \<le> 9"
      using ns ms by (auto simp: checked_id_def)
    then show ?thesis by linarith
  qed
  ultimately have "x - ns ! i = 0"
    using i9 weight_unit [of "10 - int i" "x - ns ! i"] by simp
  then show ?thesis by simp
qed

lemma checked_transposition:
  assumes ns: "checked_id ns" and ms: "checked_id (ns[i := ns ! j, j := ns ! i])"
    and ij: "i < j" "j < 9" and c: "last ns \<noteq> 1"
  shows "ns ! i = ns ! j"
proof -
  have len: "length ns = 10" using ns by (simp add: checked_id_def)
  let ?m = "ns[i := ns ! j]"
  have w: "weighted_sum (?m[j := ns ! i]) - weighted_sum ns = (ns ! j - ns ! i) * (int j - int i)"
    using ij len weighted_sum_update [of ns i "ns ! j"] weighted_sum_update [of ?m j "ns ! i"]
    by (simp add: algebra_simps)
  have "last (?m[j := ns ! i]) = last ns" using len ij by (simp add: last_ten)
  then have z: "((ns ! j - ns ! i) * (int j - int i)) mod 11 = 0"
    using checked_same_residue [OF ns ms] c w by simp
  have "ns ! i \<in> set ns" "ns ! j \<in> set ns" using len ij by auto
  then have "0 \<le> ns ! i \<and> ns ! i \<le> 9" "0 \<le> ns ! j \<and> ns ! j \<le> 9"
    using ns by (auto simp: checked_id_def)
  then have r: "\<bar>ns ! j - ns ! i\<bar> \<le> 9" by linarith
  show ?thesis
  proof (cases "int j - int i = 1")
    case True
    then have "(ns ! j - ns ! i) mod 11 = 0" using z by simp
    then show ?thesis using r by presburger
  next
    case False
    then have "ns ! j - ns ! i = 0"
      using ij weight_unit [OF _ _ r z] by simp
    then show ?thesis by simp
  qed
qed

text \<open>
  Whatever the texts two accepted national ids come from, both are
  ten decimal digits, and if the second is the first with one digit replaced, or with two of the
  first nine digits exchanged, then it is the first: the check digit detects every such slip.
  The check digit 1 is the exception, because \<^verbatim>\<open>11 - remainder\<close> maps remainder 10 to 1 as well;
  there only a slip in the check digit itself is always detected.
\<close>

theorem national_id_detects_errors:
  assumes s: "normalize_national_id U v = Inr s" and t: "normalize_national_id U w = Inr t"
    and i: "i < 10"
  shows "length s = 10 \<and> list_all decimal_char s \<and>
    (last (digit_values s) \<noteq> 1 \<or> i = 9 \<longrightarrow> digit_values t = (digit_values s)[i := x] \<longrightarrow>
       digit_values t = digit_values s) \<and>
    (last (digit_values s) \<noteq> 1 \<and> i < j \<and> j < 9 \<longrightarrow>
       digit_values t = (digit_values s)[i := digit_values s ! j, j := digit_values s ! i] \<longrightarrow>
       digit_values t = digit_values s)"
proof -
  let ?n = "digit_values s"
  have ids: "checked_id ?n" "checked_id (digit_values t)" "list_all decimal_char s"
    using national_id_checked s t by blast+
  then have "length s = 10" by (simp add: checked_id_def digit_values_def)
  moreover have "digit_values t = ?n"
    if "last ?n \<noteq> 1 \<or> i = 9" "digit_values t = ?n[i := x]"
    using checked_single_error [of ?n i x] ids i that by auto
  moreover have "digit_values t = ?n"
    if "last ?n \<noteq> 1" "i < j" "j < 9" "digit_values t = ?n[i := ?n ! j, j := ?n ! i]"
    using checked_transposition [of ?n i j] ids that by (metis list_update_id)
  ultimately show ?thesis using ids by blast
qed

lemma sample_national_id:
  "normalize_national_id ascii_ucd (PStr (asc ''0012345679'')) = Inr (asc ''0012345679'')"
  by code_simp

theorem national_id_detects_errors_witness:
  "length (asc ''0012345679'') = 10 \<and> list_all decimal_char (asc ''0012345679'') \<and>
   (\<forall>v t. (case normalize_national_id ascii_ucd v of
            Inl e \<Rightarrow> True
          | Inr t \<Rightarrow> digit_values t \<noteq> (digit_values (asc ''0012345679''))[4 := 9]))"
proof -
  have neq: "(digit_values (asc ''0012345679''))[4 := 9] \<noteq> digit_values (asc ''0012345679'')"
    "last (digit_values (asc ''0012345679'')) \<noteq> 1"
    by code_simp+
  show ?thesis
    using national_id_detects_errors [OF sample_national_id, of _ _ 4 9 5]
      national_id_detects_errors [OF sample_national_id sample_national_id, of 4 9 5] neq
    by (auto split: sum.splits)
qed

section \<open>Spellings of a mobile number\<close>

lemma only_digits_ascii: "ascii_digits s \<Longrightarrow> only_digits s = s"
  using ascii_digits_decimal [of s] by (simp add: only_digits_def list_all_iff)

lemma fold_fa_stable: "nfkc_stable s \<Longrightarrow> nfkc_stable (map fold_fa_digit s)"
  by (auto simp: nfkc_stable_def fold_fa_digit_def list_all_iff)

definition mobile_prefixes :: "pystr list" where
  "mobile_prefixes = [asc ''09'', asc ''9'', asc ''989'', asc ''0989'', asc ''00989'']"

lemma mobile_prefix_cases:
  "p \<in> set mobile_prefixes \<Longrightarrow>
   p = [48, 57] \<or> p = [57] \<or> p = [57, 56, 57] \<or> p = [48, 57, 56, 57] \<or> p = [48, 48, 57, 56, 57]"
  by (auto simp: mobile_prefixes_def asc_def)

lemma mobile_prefix_canonical:
  assumes "p \<in> set mobile_prefixes" "length d = 9"
  shows "normalize_mobile_prefix (p @ d) = asc ''09'' @ d"
  using mobile_prefix_cases [OF assms(1)] assms(2)
  by (elim disjE) (auto simp: normalize_mobile_prefix_def startswith_def asc_def)

lemma core_mobile_result:
  "core_normalize_mobile U v = Inr s \<Longrightarrow> core_mobile_pattern s"
  by (auto simp: core_normalize_mobile_def Let_def split: pyval.splits if_splits)

text \<open>
  All spellings of one mobile number, with any of the five prefixes
  09, 9, 989 (also +989), 0989 and 00989, with Persian or Arabic-Indic digits and with any
  ASCII separators between the digits, normalise to the same text 09 and nine digits, which
  normalises to itself; whatever else is accepted has that form too, up to the script of the digits.
\<close>

theorem mobile_spellings_agree:
  assumes U: "ucd_ok U" and x: "nfkc_stable x"
    and digits: "only_digits (map fold_fa_digit x) = p @ d"
    and p: "p \<in> set mobile_prefixes" and d: "ascii_digits d" "length d = 9"
  shows "core_normalize_mobile U (PStr x) = Inr (asc ''09'' @ d) \<and>
    core_normalize_mobile U (PStr (asc ''09'' @ d)) = Inr (asc ''09'' @ d) \<and>
    (core_normalize_mobile U v = Inr s \<longrightarrow>
       length s = 11 \<and> take 2 s = asc ''09'' \<and> list_all decimal_char s)"
proof -
  have pat: "core_mobile_pattern (asc ''09'' @ d)"
    using d ascii_digits_decimal [of d] by (simp add: core_mobile_pattern_def asc_def)
  have main: "core_normalize_mobile U (PStr y) = Inr (asc ''09'' @ d)"
    if "nfkc_stable y" "only_digits (map fold_fa_digit y) = q @ d" "q \<in> set mobile_prefixes"
    for y q
    using that U fold_fa_stable [of y] mobile_prefix_canonical [of q d] d pat
    by (simp add: core_normalize_mobile_def normalize_digits_def ucd_ok_nfkc Let_def)
  let ?n = "asc ''09'' @ d"
  have asc: "ascii_digits ?n" using d by (simp add: asc_def)
  then have "map fold_fa_digit ?n = ?n" by (rule ascii_digits_fold)
  then have "core_normalize_mobile U (PStr ?n) = Inr ?n"
    using main [of ?n "asc ''09''"] asc only_digits_ascii [OF asc]
    by (simp add: mobile_prefixes_def is_ascii_nfkc_stable ascii_digits_ascii)
  moreover have "length s = 11 \<and> take 2 s = asc ''09'' \<and> list_all decimal_char s"
    if "core_normalize_mobile U v = Inr s"
  proof -
    have "core_mobile_pattern s" using core_mobile_result that by blast
    moreover have "list_all decimal_char (take 2 s)" "list_all decimal_char (drop 2 s)"
      using \<open>core_mobile_pattern s\<close> by (simp_all add: core_mobile_pattern_def ascii_digit_decimal)
    then have "list_all decimal_char s" by (metis append_take_drop_id list_all_append)
    ultimately show ?thesis by (simp add: core_mobile_pattern_def asc_def)
  qed
  ultimately show ?thesis using main [OF x digits p] by blast
qed

theorem mobile_spellings_agree_witness:
  "core_normalize_mobile ascii_ucd (PStr (asc ''+98 912-345 678'' @ [1785])) = Inr (asc ''09123456789'')"
proof -
  have "only_digits (map fold_fa_digit (asc ''+98 912-345 678'' @ [1785])) = asc ''989'' @ asc ''123456789''"
    "nfkc_stable (asc ''+98 912-345 678'' @ [1785])" "asc ''989'' \<in> set mobile_prefixes"
    "ascii_digits (asc ''123456789'')" "asc ''09'' @ asc ''123456789'' = asc ''09123456789''"
    by code_simp+
  moreover have "length (asc ''123456789'') = 9" by (simp add: asc_def)
  ultimately show ?thesis
    using mobile_spellings_agree [OF ascii_ucd_ok, of "asc ''+98 912-345 678'' @ [1785]" "asc ''989''"]
    by metis
qed

section \<open>Enumerated fields land in their domains\<close>

lemma map_of_range: "map_of xs k = Some v \<Longrightarrow> list_all (\<lambda>e. snd e \<in> D) xs \<Longrightarrow> v \<in> D"
  by (metis list_all_iff map_of_SomeD snd_conv)

lemma enum_map_ranges:
  "list_all (\<lambda>e. snd e \<in> {0, 1}) GENDER_NORMALIZATION_MAP"
  "list_all (\<lambda>e. snd e \<in> {0, 1, 3}) REG_STATUS_NORMALIZATION_MAP"
  "list_all (\<lambda>e. snd e \<in> {0, 1, 2}) REG_CENTER_NORMALIZATION_MAP"
  by (simp_all add: GENDER_NORMALIZATION_MAP_def REG_STATUS_NORMALIZATION_MAP_def
      REG_CENTER_NORMALIZATION_MAP_def)

lemma normalize_gender_range: "normalize_gender U v = Inr g \<Longrightarrow> g \<in> {0, 1}"
  using map_of_range [OF _ enum_map_ranges(1)]
  by (auto simp: normalize_gender_def split: pyval.splits if_splits option.splits)

lemma normalize_reg_status_range: "normalize_reg_status U v = Inr r \<Longrightarrow> r \<in> {0, 1, 3}"
  using map_of_range [OF _ enum_map_ranges(2)]
  by (auto simp: normalize_reg_status_def Let_def split: pyval.splits if_splits option.splits)

lemma normalize_reg_center_range: "normalize_reg_center U v = Inr c \<Longrightarrow> c \<in> {0, 1, 2}"
  using map_of_range [OF _ enum_map_ranges(3)]
  by (auto simp: normalize_reg_center_def split: pyval.splits if_splits option.splits)

lemma normalize_ints_fixed:
  "g \<in> {0, 1} \<Longrightarrow> normalize_gender U (PInt g) = Inr g"
  "r \<in> {0, 1, 3} \<Longrightarrow> normalize_reg_status U (PInt r) = Inr r"
  "c \<in> {0, 1, 2} \<Longrightarrow> normalize_reg_center U (PInt c) = Inr c"
  by (auto simp: normalize_gender_def normalize_reg_status_def normalize_reg_center_def)

lemma core_student_type_range:
  "core_derive_student_type U sc sp y p = Inr t \<Longrightarrow> t \<in> {0, 1}"
  by (auto simp: core_derive_student_type_def split: option.splits if_splits)

end
