(* ===== verification/Core_Models.thy ===== *)
theory Core_Models
  imports Core_Normalize
begin

text \<open>
  \<^verbatim>\<open>core/models.py\<close>: the extraction of a registration record from a raw mapping with legacy key
  names, and the normalised record with its field validators. A value of the raw mapping is
  a scalar or a list of scalars. Where the code takes \<^verbatim>\<open>str(list)\<close>, the text between the brackets is the
  parameter \<open>inner\<close>. The validation model reports the errors of all its fields, in the order of their
  declaration; the optional name and the ignored student type only reach the log.
\<close>

section \<open>Students and mentors of the core engine\<close>

record core_student =
  cs_id :: int
  cs_gender :: int
  cs_grade_level :: int
  cs_center_id :: int

record core_mentor =
  cm_id :: int
  cm_gender :: int
  cm_supported_grades :: "int list"
  cm_max_capacity :: int
  cm_current_students :: int
  cm_center_id :: int
  cm_primary_grade :: "int option"

definition remaining_capacity :: "core_mentor \<Rightarrow> int" where
  "remaining_capacity m = cm_max_capacity m - cm_current_students m"

section \<open>Raw mappings\<close>

type_synonym raw_mapping = "(pystr \<times> raw_value) list"

definition str_value :: "(pyval list \<Rightarrow> pystr) \<Rightarrow> raw_value \<Rightarrow> pyval" where
  "str_value inner r = (case r of RScalar v \<Rightarrow> v | RList xs \<Rightarrow> PStr (91 # inner xs @ [93]))"

definition GENDER_ALIASES :: "pystr list" where
  "GENDER_ALIASES = [asc ''gender'', asc ''sex'', asc ''Gender'']"

definition REG_STATUS_ALIASES :: "pystr list" where
  "REG_STATUS_ALIASES =
     [asc ''reg_status'', asc ''status'', asc ''registration_status'', asc ''status_reg'', asc ''regStatus'']"

definition REG_CENTER_ALIASES :: "pystr list" where
  "REG_CENTER_ALIASES =
     [asc ''reg_center'', asc ''center'', asc ''centre'', asc ''regCentre'', asc ''center_id'',
      asc ''reg_center_id'', asc ''registration_center'']"

definition MOBILE_ALIASES :: "pystr list" where
  "MOBILE_ALIASES = [asc ''mobile'', asc ''cell'', asc ''cellphone'']"

definition NATIONAL_ID_ALIASES :: "pystr list" where
  "NATIONAL_ID_ALIASES = [asc ''national_id'', asc ''nid'', asc ''meli_code'']"

definition SPECIAL_SCHOOLS_ALIASES :: "pystr list" where
  "SPECIAL_SCHOOLS_ALIASES =
     [asc ''mentor_special_schools'', asc ''special_schools'', asc ''schools_special'',
      asc ''mentorSpecialSchools'']"

text \<open>The first alias present wins, even when its value is None.\<close>

fun extract_alias :: "raw_mapping \<Rightarrow> pystr list \<Rightarrow> raw_value" where
  "extract_alias raw [] = RScalar PNone"
| "extract_alias raw (k # ks) = (case map_of raw k of Some v \<Rightarrow> v | None \<Rightarrow> extract_alias raw ks)"

section \<open>The normalised record\<close>

definition normalize_student_type_value :: "ucd \<Rightarrow> pyval \<Rightarrow> core_error + int" where
  "normalize_student_type_value U value =
     (case value of
        PNone \<Rightarrow> Inl STUDENT_TYPE_ERROR
      | PBool b \<Rightarrow> Inl STUDENT_TYPE_ERROR
      | PInt i \<Rightarrow> if i \<in> {0, 1} then Inr i else Inl STUDENT_TYPE_ERROR
      | PStr s \<Rightarrow>
          (let text = py_strip (normalize_digits U s)
           in if text = asc ''0'' then Inr 0 else if text = asc ''1'' then Inr 1
              else Inl STUDENT_TYPE_ERROR))"

record student_normalized =
  sn_gender :: int
  sn_reg_status :: int
  sn_reg_center :: int
  sn_mobile :: pystr
  sn_national_id :: pystr
  sn_school_code :: "int option"
  sn_student_type :: int

datatype model_field =
    F_gender | F_reg_status | F_reg_center | F_mobile | F_national_id | F_school_code | F_student_type

datatype model_error =
    InvalidInput
  | NormError core_error
  | ValidationErrors "(model_field \<times> core_error) list"

record payload =
  p_gender :: pyval
  p_reg_status :: pyval
  p_reg_center :: pyval
  p_mobile :: pyval
  p_national_id :: pyval
  p_school_code :: pyval
  p_student_type :: pyval

definition field_errors :: "model_field \<Rightarrow> core_error + 'a \<Rightarrow> (model_field \<times> core_error) list" where
  "field_errors f r = (case r of Inl e \<Rightarrow> [(f, e)] | Inr x \<Rightarrow> [])"

definition payload_errors :: "ucd \<Rightarrow> payload \<Rightarrow> (model_field \<times> core_error) list" where
  "payload_errors U p =
     field_errors F_gender (normalize_gender U (p_gender p)) @
     field_errors F_reg_status (normalize_reg_status U (p_reg_status p)) @
     field_errors F_reg_center (normalize_reg_center U (p_reg_center p)) @
     field_errors F_mobile (core_normalize_mobile U (p_mobile p)) @
     field_errors F_national_id (normalize_national_id U (p_national_id p)) @
     field_errors F_school_code (normalize_school_code U (p_school_code p)) @
     field_errors F_student_type (normalize_student_type_value U (p_student_type p))"

definition model_validate :: "ucd \<Rightarrow> payload \<Rightarrow> model_error + student_normalized" where
  "model_validate U p =
     (case (normalize_gender U (p_gender p), normalize_reg_status U (p_reg_status p),
            normalize_reg_center U (p_reg_center p), core_normalize_mobile U (p_mobile p),
            normalize_national_id U (p_national_id p), normalize_school_code U (p_school_code p),
            normalize_student_type_value U (p_student_type p)) of
        (Inr g, Inr r, Inr c, Inr m, Inr n, Inr s, Inr t) \<Rightarrow>
          Inr \<lparr>sn_gender = g, sn_reg_status = r, sn_reg_center = c, sn_mobile = m,
               sn_national_id = n, sn_school_code = s, sn_student_type = t\<rparr>
      | _ \<Rightarrow> Inl (ValidationErrors (payload_errors U p)))"

definition opt_int :: "int option \<Rightarrow> pyval" where
  "opt_int c = (case c of None \<Rightarrow> PNone | Some i \<Rightarrow> PInt i)"

fun lift_error :: "core_error + 'a \<Rightarrow> model_error + 'a" where
  "lift_error (Inl e) = Inl (NormError e)"
| "lift_error (Inr x) = Inr x"

definition to_student_normalized ::
  "ucd \<Rightarrow> (pyval list \<Rightarrow> pystr) \<Rightarrow> raw_mapping option \<Rightarrow> int option \<Rightarrow> (int \<Rightarrow> pyval list option) option
   \<Rightarrow> model_error + student_normalized" where
  "to_student_normalized U inner raw roster_year provider =
     (case raw of
        None \<Rightarrow> Inl InvalidInput
      | Some data \<Rightarrow>
          rbind (lift_error (normalize_int_sequence U (extract_alias data SPECIAL_SCHOOLS_ALIASES))) (\<lambda>special.
          rbind (lift_error (normalize_school_code U
                   (str_value inner (extract_alias data [asc ''school_code''])))) (\<lambda>school_code.
          rbind (lift_error (core_derive_student_type U (opt_int school_code) (Some special)
                   roster_year provider)) (\<lambda>derived.
          model_validate U
            \<lparr>p_gender = str_value inner (extract_alias data GENDER_ALIASES),
             p_reg_status = str_value inner (extract_alias data REG_STATUS_ALIASES),
             p_reg_center = str_value inner (extract_alias data REG_CENTER_ALIASES),
             p_mobile = str_value inner (extract_alias data MOBILE_ALIASES),
             p_national_id = str_value inner (extract_alias data NATIONAL_ID_ALIASES),
             p_school_code = opt_int school_code,
             p_student_type = PInt derived\<rparr>))))"

section \<open>Integers are their own keys\<close>

definition plain_key :: "pystr \<Rightarrow> bool" where
  "plain_key s \<longleftrightarrow> list_all (\<lambda>c. 33 \<le> c \<and> c < 65) s"

lemma plain_key_char: "33 \<le> (c::int) \<Longrightarrow> c < 65 \<Longrightarrow> fold_fa_digit c = c \<and> ascii_lower c = c \<and> \<not> py_isspace c"
  by (simp add: fold_fa_digit_def ascii_lower_def py_isspace_def)

lemma plain_key_maps:
  "plain_key s \<Longrightarrow> map fold_fa_digit s = s \<and> map ascii_lower s = s \<and> is_ascii s \<and>
     list_all (\<lambda>c. \<not> py_isspace c) s"
  by (induction s) (simp_all add: plain_key_def is_ascii_def plain_key_char)

lemma split_ws_word: "list_all (\<lambda>c. \<not> py_isspace c) s \<Longrightarrow>
    split_ws w s = (if w = [] \<and> s = [] then [] else [rev w @ s])"
  by (induction s arbitrary: w) auto

lemma prepare_key_plain:
  assumes "ucd_ok U" "plain_key s" "py_str v = s"
  shows "prepare_key U v = s"
proof -
  note m = plain_key_maps [OF assms(2)]
  have "normalize_digits U s = s" "u_nfkc U s = s"
    using m assms(1) by (simp_all add: normalize_digits_def ucd_ok_nfkc is_ascii_nfkc_stable)
  moreover have "py_strip s = s" using m by (simp add: py_strip_def strip_by_no_match)
  moreover have "u_lower U s = s" using m assms(1) by (simp add: ucd_ok_def)
  ultimately show ?thesis
    using m assms(3) split_ws_word [of s "[]"] by (simp add: prepare_key_def Let_def)
qed

lemma ascii_digits_plain: "ascii_digits s \<Longrightarrow> plain_key s"
  by (induction s) (auto simp: plain_key_def)

lemma py_str_int_shape:
  "\<exists>d. ascii_digits d \<and> d \<noteq> [] \<and> (py_str_int i = d \<or> py_str_int i = 45 # d)"
  using show_pos_digits [of i] show_pos_digits [of "- i"]
  by (cases "i < 0") (auto simp: py_str_int_def)

lemma py_str_int_plain: "plain_key (py_str_int i)"
proof -
  obtain d where d: "ascii_digits d" "py_str_int i = d \<or> py_str_int i = 45 # d"
    using py_str_int_shape by blast
  then have "plain_key d" "plain_key (45 # d)" using ascii_digits_plain [of d] by (auto simp: plain_key_def)
  then show ?thesis using d(2) by auto
qed

lemma py_str_int_pattern: "int_pattern (py_str_int i)"
proof -
  obtain d where d: "ascii_digits d" "d \<noteq> []" "py_str_int i = d \<or> py_str_int i = 45 # d"
    using py_str_int_shape by blast
  moreover have "hd d \<noteq> 45" using d(1,2) by (cases d) auto
  ultimately show ?thesis
    using ascii_digits_decimal [of d] by (cases d) (auto simp: int_pattern_def)
qed

lemma prepare_key_int: "ucd_ok U \<Longrightarrow> prepare_key U (PInt i) = py_str_int i"
  by (rule prepare_key_plain) (simp_all add: py_str_int_plain)

lemma py_str_int_word: "py_str_int i \<noteq> [] \<and> py_str_int i \<noteq> asc ''null''"
proof -
  have "py_int [] = None" "py_int (asc ''null'') = None" by code_simp+
  then show ?thesis using py_int_str_int [of i] by (metis option.distinct(1))
qed

lemma normalize_school_code_int [simp]:
  "ucd_ok U \<Longrightarrow> normalize_school_code U (PInt i) = Inr (Some i)"
  using py_str_int_word [of i]
  by (simp add: normalize_school_code_def prepare_key_int py_str_int_pattern py_int_str_int)

lemma normalize_school_code_opt_int [simp]:
  "ucd_ok U \<Longrightarrow> normalize_school_code U (opt_int c) = Inr c"
  by (cases c) (simp_all add: opt_int_def normalize_school_code_def [of U PNone])

lemma normalize_int_items_ints [simp]:
  "ucd_ok U \<Longrightarrow> normalize_int_items U (map PInt ns) = Inr ns"
  by (induction ns) (simp_all add: prepare_key_int py_str_int_pattern py_int_str_int)

section \<open>The record that comes out\<close>

definition roster_for ::
  "ucd \<Rightarrow> int list \<Rightarrow> int option \<Rightarrow> (int \<Rightarrow> pyval list option) option \<Rightarrow> int set" where
  "roster_for U special roster_year provider =
     (case (provider, roster_year) of
        (Some p, Some y) \<Rightarrow> roster_of_provider U (p y)
      | _ \<Rightarrow> set special)"

lemma derive_student_type_roster:
  "ucd_ok U \<Longrightarrow> core_derive_student_type U (opt_int c) (Some sp) y p =
     Inr (if \<exists>n. c = Some n \<and> n \<in> roster_for U sp y p then 1 else 0)"
  by (cases c) (auto simp: core_derive_student_type_def roster_for_def normalize_int_sequence_def
      split: option.splits)

lemma model_validate_Inr:
  "model_validate U p = Inr m \<longleftrightarrow>
     normalize_gender U (p_gender p) = Inr (sn_gender m) \<and>
     normalize_reg_status U (p_reg_status p) = Inr (sn_reg_status m) \<and>
     normalize_reg_center U (p_reg_center p) = Inr (sn_reg_center m) \<and>
     core_normalize_mobile U (p_mobile p) = Inr (sn_mobile m) \<and>
     normalize_national_id U (p_national_id p) = Inr (sn_national_id m) \<and>
     normalize_school_code U (p_school_code p) = Inr (sn_school_code m) \<and>
     normalize_student_type_value U (p_student_type p) = Inr (sn_student_type m)"
  by (cases m) (auto simp: model_validate_def split: sum.splits)

lemma student_type_value_flag [simp]:
  "normalize_student_type_value U (PInt (if b then 1 else 0)) = Inr (if b then 1 else 0)"
  by (simp add: normalize_student_type_value_def)

text \<open>The keys of the raw mapping that the conversion reads.\<close>

definition alias_keys :: "pystr list" where
  "alias_keys = asc ''school_code'' # GENDER_ALIASES @ REG_STATUS_ALIASES @ REG_CENTER_ALIASES @
     MOBILE_ALIASES @ NATIONAL_ID_ALIASES @ SPECIAL_SCHOOLS_ALIASES"

lemma extract_alias_cong:
  "(\<And>k. k \<in> set ks \<Longrightarrow> map_of d k = map_of d' k) \<Longrightarrow> extract_alias d ks = extract_alias d' ks"
  by (induction ks) (auto split: option.splits)

lemma to_student_normalized_cong:
  assumes "\<And>k. k \<in> set alias_keys \<Longrightarrow> map_of d k = map_of d' k"
  shows "to_student_normalized U inner (Some d) y p = to_student_normalized U inner (Some d') y p"
proof -
  have "extract_alias d ks = extract_alias d' ks" if "set ks \<subseteq> set alias_keys" for ks
    using that assms by (intro extract_alias_cong) blast
  then have "extract_alias d GENDER_ALIASES = extract_alias d' GENDER_ALIASES"
    "extract_alias d REG_STATUS_ALIASES = extract_alias d' REG_STATUS_ALIASES"
    "extract_alias d REG_CENTER_ALIASES = extract_alias d' REG_CENTER_ALIASES"
    "extract_alias d MOBILE_ALIASES = extract_alias d' MOBILE_ALIASES"
    "extract_alias d NATIONAL_ID_ALIASES = extract_alias d' NATIONAL_ID_ALIASES"
    "extract_alias d SPECIAL_SCHOOLS_ALIASES = extract_alias d' SPECIAL_SCHOOLS_ALIASES"
    "extract_alias d [asc ''school_code''] = extract_alias d' [asc ''school_code'']"
    by (auto simp: alias_keys_def simp del: extract_alias.simps)
  then show ?thesis by (simp only: to_student_normalized_def option.case)
qed

lemma lift_error_Inr [simp]: "lift_error r = Inr x \<longleftrightarrow> r = Inr x"
  by (cases r) auto

lemma to_student_normalized_Inr:
  assumes U: "ucd_ok U"
  shows "to_student_normalized U inner (Some d) y p = Inr m \<longleftrightarrow>
    (\<exists>sp. normalize_int_sequence U (extract_alias d SPECIAL_SCHOOLS_ALIASES) = Inr sp \<and>
      normalize_school_code U (str_value inner (extract_alias d [asc ''school_code''])) = Inr (sn_school_code m) \<and>
      normalize_gender U (str_value inner (extract_alias d GENDER_ALIASES)) = Inr (sn_gender m) \<and>
      normalize_reg_status U (str_value inner (extract_alias d REG_STATUS_ALIASES)) = Inr (sn_reg_status m) \<and>
      normalize_reg_center U (str_value inner (extract_alias d REG_CENTER_ALIASES)) = Inr (sn_reg_center m) \<and>
      core_normalize_mobile U (str_value inner (extract_alias d MOBILE_ALIASES)) = Inr (sn_mobile m) \<and>
      normalize_national_id U (str_value inner (extract_alias d NATIONAL_ID_ALIASES)) = Inr (sn_national_id m) \<and>
      sn_student_type m = (if \<exists>n. sn_school_code m = Some n \<and> n \<in> roster_for U sp y p then 1 else 0))"
  using U unfolding to_student_normalized_def
  by (auto simp: derive_student_type_roster model_validate_Inr)

text \<open>
  C37 student_record_sound: a record that comes out of the conversion has gender in {0, 1},
  registration status in {0, 1, 3}, centre in {0, 1, 2}, a mobile number of 11 characters beginning with
  09 and a national id whose check digit is right; its student type is 1 exactly when it has a school
  code and that code is in the roster (the provider's for the roster year if both are given, otherwise
  the special schools of the record). Every other key of the raw mapping, an incoming student type
  among them, is without influence.
\<close>

theorem student_record_sound:
  assumes U: "ucd_ok U" and run: "to_student_normalized U inner (Some d) y p = Inr m"
  shows "sn_gender m \<in> {0, 1} \<and> sn_reg_status m \<in> {0, 1, 3} \<and> sn_reg_center m \<in> {0, 1, 2} \<and>
    core_mobile_pattern (sn_mobile m) \<and> checked_id (digit_values (sn_national_id m)) \<and>
    (\<exists>sp. normalize_int_sequence U (extract_alias d SPECIAL_SCHOOLS_ALIASES) = Inr sp \<and>
       sn_student_type m = (if \<exists>n. sn_school_code m = Some n \<and> n \<in> roster_for U sp y p then 1 else 0)) \<and>
    (\<forall>d'. (\<forall>k \<in> set alias_keys. map_of d' k = map_of d k) \<longrightarrow>
       to_student_normalized U inner (Some d') y p = Inr m)"
proof -
  have "to_student_normalized U inner (Some d') y p = Inr m"
    if "\<forall>k \<in> set alias_keys. map_of d' k = map_of d k" for d'
    using to_student_normalized_cong [of d' d U inner y p] that run by auto
  moreover note run [unfolded to_student_normalized_Inr [OF U]]
  ultimately show ?thesis
    using normalize_gender_range normalize_reg_status_range normalize_reg_center_range
      core_mobile_result national_id_checked by blast
qed

definition sample_raw :: raw_mapping where
  "sample_raw =
     [(asc ''sex'', RScalar (PStr (asc '' Female ''))), (asc ''status'', RScalar (PStr (asc ''Hekmat''))),
      (asc ''center'', RScalar (PInt 2)), (asc ''cell'', RScalar (PStr (asc ''+98 912 345 6789''))),
      (asc ''nid'', RScalar (PStr (asc ''001-234567-9''))), (asc ''school_code'', RScalar (PStr (asc ''1201''))),
      (asc ''special_schools'', RList [PStr (asc ''1201''), PNone, PInt 7]), (asc ''type'', RScalar (PInt 0))]"

definition sample_record :: student_normalized where
  "sample_record =
     \<lparr>sn_gender = 0, sn_reg_status = 3, sn_reg_center = 2, sn_mobile = asc ''09123456789'',
      sn_national_id = asc ''0012345679'', sn_school_code = Some 1201, sn_student_type = 1\<rparr>"

lemma sample_raw_run:
  "to_student_normalized ascii_ucd (\<lambda>xs. []) (Some sample_raw) None None = Inr sample_record"
  by code_simp

theorem student_record_sound_witness:
  "core_mobile_pattern (sn_mobile sample_record) \<and> checked_id (digit_values (sn_national_id sample_record)) \<and>
   to_student_normalized ascii_ucd (\<lambda>xs. []) (Some ((asc ''studentType'', RScalar (PInt 0)) # sample_raw)) None None
     = Inr sample_record"
  using student_record_sound [OF ascii_ucd_ok sample_raw_run]
  by (auto simp: alias_keys_def GENDER_ALIASES_def REG_STATUS_ALIASES_def REG_CENTER_ALIASES_def
      MOBILE_ALIASES_def NATIONAL_ID_ALIASES_def SPECIAL_SCHOOLS_ALIASES_def asc_def)

text \<open>
  The record written back under its own field names, with the special schools that
  were used. Converting it again gives the same record.
\<close>

definition dump_record :: "student_normalized \<Rightarrow> int list \<Rightarrow> raw_mapping" where
  "dump_record m special =
     [(asc ''gender'', RScalar (PInt (sn_gender m))), (asc ''reg_status'', RScalar (PInt (sn_reg_status m))),
      (asc ''reg_center'', RScalar (PInt (sn_reg_center m))), (asc ''mobile'', RScalar (PStr (sn_mobile m))),
      (asc ''national_id'', RScalar (PStr (sn_national_id m))),
      (asc ''school_code'', RScalar (opt_int (sn_school_code m))),
      (asc ''mentor_special_schools'', RList (map PInt special)),
      (asc ''student_type'', RScalar (PInt (sn_student_type m)))]"

lemma dump_record_aliases:
  "extract_alias (dump_record m sp) GENDER_ALIASES = RScalar (PInt (sn_gender m))"
  "extract_alias (dump_record m sp) REG_STATUS_ALIASES = RScalar (PInt (sn_reg_status m))"
  "extract_alias (dump_record m sp) REG_CENTER_ALIASES = RScalar (PInt (sn_reg_center m))"
  "extract_alias (dump_record m sp) MOBILE_ALIASES = RScalar (PStr (sn_mobile m))"
  "extract_alias (dump_record m sp) NATIONAL_ID_ALIASES = RScalar (PStr (sn_national_id m))"
  "extract_alias (dump_record m sp) [asc ''school_code''] = RScalar (opt_int (sn_school_code m))"
  "extract_alias (dump_record m sp) SPECIAL_SCHOOLS_ALIASES = RList (map PInt sp)"
  by (simp_all add: dump_record_def GENDER_ALIASES_def REG_STATUS_ALIASES_def REG_CENTER_ALIASES_def
      MOBILE_ALIASES_def NATIONAL_ID_ALIASES_def SPECIAL_SCHOOLS_ALIASES_def asc_def)

lemma only_digits_decimal_id: "list_all decimal_char s \<Longrightarrow> only_digits s = s"
  by (simp add: only_digits_def list_all_iff)

lemma canonical_mobile_prefix:
  assumes "core_mobile_pattern s"
  shows "normalize_mobile_prefix s = s"
proof -
  have "take 2 s = [48, 57]" "length s = 11" using assms by (auto simp: core_mobile_pattern_def)
  then obtain r where "s = 48 # 57 # r" "length r = 9"
    by (cases s; cases "tl s"; auto)
  then show ?thesis by (simp add: normalize_mobile_prefix_def startswith_def asc_def)
qed

lemma normalize_mobile_fixed:
  assumes "ucd_ok U" "core_mobile_pattern s" "ascii_digits s"
  shows "core_normalize_mobile U (PStr s) = Inr s"
  using assms
  by (simp add: core_normalize_mobile_def normalize_digits_def ucd_ok_nfkc is_ascii_nfkc_stable
      ascii_digits_ascii ascii_digits_fold only_digits_ascii canonical_mobile_prefix)

lemma normalize_national_id_fixed:
  assumes "ucd_ok U" "checked_id (digit_values s)" "ascii_digits s"
  shows "normalize_national_id U (PStr s) = Inr s"
proof -
  have "py_strip s = s" "length s = 10"
    using assms plain_key_maps [OF ascii_digits_plain [OF assms(3)]]
    by (simp_all add: py_strip_def strip_by_no_match checked_id_def digit_values_def)
  then show ?thesis
    using assms
    by (simp add: normalize_national_id_def normalize_digits_def ucd_ok_nfkc is_ascii_nfkc_stable
        ascii_digits_ascii ascii_digits_fold only_digits_ascii Let_def checked_id_def)
qed

text \<open>
  The conversion is idempotent. A record that came out of it, with its mobile
  number and national id in ASCII digits, dumped under its field names together with the special schools
  it was judged by, converts to itself, whatever texts lists would print as.
\<close>

theorem renormalising_is_identity:
  assumes U: "ucd_ok U" and run: "to_student_normalized U inner (Some d) y p = Inr m"
    and sp: "normalize_int_sequence U (extract_alias d SPECIAL_SCHOOLS_ALIASES) = Inr sp"
    and ascii: "ascii_digits (sn_mobile m)" "ascii_digits (sn_national_id m)"
  shows "to_student_normalized U inner' (Some (dump_record m sp)) y p = Inr m"
proof -
  note r = run [unfolded to_student_normalized_Inr [OF U] sp, simplified]
  have "core_mobile_pattern (sn_mobile m)" "checked_id (digit_values (sn_national_id m))"
    using r core_mobile_result national_id_checked by blast+
  moreover have "normalize_gender U (PInt (sn_gender m)) = Inr (sn_gender m)"
    "normalize_reg_status U (PInt (sn_reg_status m)) = Inr (sn_reg_status m)"
    "normalize_reg_center U (PInt (sn_reg_center m)) = Inr (sn_reg_center m)"
    using r normalize_gender_range normalize_reg_status_range normalize_reg_center_range
      normalize_ints_fixed by metis+
  ultimately show ?thesis
    unfolding to_student_normalized_Inr [OF U] dump_record_aliases
    using r U ascii
    by (simp add: str_value_def normalize_int_sequence_def normalize_mobile_fixed
        normalize_national_id_fixed)
qed

theorem renormalising_is_identity_witness:
  "to_student_normalized ascii_ucd (\<lambda>xs. [48]) (Some (dump_record sample_record [1201, 7])) None None
     = Inr sample_record"
proof -
  have "normalize_int_sequence ascii_ucd (extract_alias sample_raw SPECIAL_SCHOOLS_ALIASES) = Inr [1201, 7]"
    "ascii_digits (sn_mobile sample_record)" "ascii_digits (sn_national_id sample_record)"
    by code_simp+
  then show ?thesis by (rule renormalising_is_identity [OF ascii_ucd_ok sample_raw_run])
qed

end
