(* ===== verification/Core_Engine.thy ===== *)
theory Core_Engine
  imports Core_Models "HOL-Library.Multiset"
begin

text \<open>
  \<^verbatim>\<open>core/allocation_rules.py\<close> and \<^verbatim>\<open>core/allocation_engine.py\<close>: the greedy engine over students
  and mentors in memory. The engine changes the mentors' loads in place: the state holds the list of
  mentors, a mentor is addressed by its index, and the entries of the list are different objects.
\<close>

record core_rules =
  capacity_weight :: int
  primary_grade_bonus :: int
  same_center_bonus :: int
  require_same_center :: bool

definition standard_rules :: core_rules where
  "standard_rules = \<lparr>capacity_weight = 10, primary_grade_bonus = 100, same_center_bonus = 50,
     require_same_center = False\<rparr>"

definition can_assign :: "core_rules \<Rightarrow> core_student \<Rightarrow> core_mentor \<Rightarrow> bool" where
  "can_assign R s m =
     (if cs_gender s \<noteq> cm_gender m then False
      else if cs_grade_level s \<notin> set (cm_supported_grades m) then False
      else if cm_current_students m \<ge> cm_max_capacity m then False
      else if require_same_center R \<and> cs_center_id s \<noteq> cm_center_id m then False
      else True)"

definition calculate_priority :: "core_rules \<Rightarrow> core_student \<Rightarrow> core_mentor \<Rightarrow> int" where
  "calculate_priority R s m =
     (let priority = (if cm_primary_grade m = Some (cs_grade_level s) then primary_grade_bonus R else 0);
          priority = priority + (if cs_center_id s = cm_center_id m then same_center_bonus R else 0);
          remaining = remaining_capacity m
      in priority + (if capacity_weight R > 0 \<and> remaining > 0 then remaining * capacity_weight R else 0))"

section \<open>The best mentor\<close>

definition tie_break :: "core_mentor \<Rightarrow> core_mentor \<Rightarrow> bool" where
  "tie_break m best =
     (if cm_current_students m < cm_current_students best then True
      else if cm_current_students m = cm_current_students best \<and>
              remaining_capacity m > remaining_capacity best then True
      else cm_current_students m = cm_current_students best \<and>
           remaining_capacity m = remaining_capacity best \<and> cm_id m < cm_id best)"

fun find_best_loop ::
  "core_rules \<Rightarrow> core_student \<Rightarrow> (nat \<times> core_mentor) option \<Rightarrow> int \<Rightarrow> (nat \<times> core_mentor) list
   \<Rightarrow> (nat \<times> core_mentor) option" where
  "find_best_loop R s best best_score [] = best"
| "find_best_loop R s best best_score (im # ims) =
     (if \<not> can_assign R s (snd im) then find_best_loop R s best best_score ims
      else let score = calculate_priority R s (snd im)
           in if score > best_score then find_best_loop R s (Some im) score ims
              else case best of
                     None \<Rightarrow> find_best_loop R s best best_score ims
                   | Some b \<Rightarrow>
                       if score \<noteq> best_score then find_best_loop R s best best_score ims
                       else if tie_break (snd im) (snd b) then find_best_loop R s (Some im) best_score ims
                       else find_best_loop R s best best_score ims)"

definition find_best_mentor :: "core_rules \<Rightarrow> core_student \<Rightarrow> core_mentor list \<Rightarrow> (nat \<times> core_mentor) option" where
  "find_best_mentor R s mentors = find_best_loop R s None (- 1) (enumerate 0 mentors)"

datatype core_failure =
    no_mentors_available | no_mentor_with_matching_gender | grade_level_not_supported
  | no_capacity_available | no_mentor_matched

definition get_failure_reason :: "core_student \<Rightarrow> core_mentor list \<Rightarrow> core_failure" where
  "get_failure_reason s mentors =
     (if mentors = [] then no_mentors_available
      else let matching_gender = filter (\<lambda>m. cm_gender m = cs_gender s) mentors
      in if matching_gender = [] then no_mentor_with_matching_gender
      else let matching_grade = filter (\<lambda>m. cs_grade_level s \<in> set (cm_supported_grades m)) matching_gender
      in if matching_grade = [] then grade_level_not_supported
      else let capacity_left = filter (\<lambda>m. cm_current_students m < cm_max_capacity m) matching_grade
      in if capacity_left = [] then no_capacity_available
      else no_mentor_matched)"

section \<open>Allocating a list of students\<close>

record core_assignment =
  ca_student_id :: int
  ca_mentor_id :: int
  ca_priority_score :: int

record run_state =
  rs_mentors :: "core_mentor list"
  rs_engine_assignments :: "core_assignment list"
  rs_engine_failed :: "(int \<times> core_failure) list"
  rs_successful :: nat
  rs_failed :: nat
  rs_assignments :: "core_assignment list"
  rs_errors :: "(int \<times> core_failure) list"

definition assign_student ::
  "core_student \<Rightarrow> nat \<Rightarrow> core_mentor \<Rightarrow> int \<Rightarrow> run_state \<Rightarrow> core_assignment \<times> run_state" where
  "assign_student s i m priority st =
     (let a = \<lparr>ca_student_id = cs_id s, ca_mentor_id = cm_id m, ca_priority_score = priority\<rparr>
      in (a, st\<lparr>rs_mentors := (rs_mentors st)[i := m\<lparr>cm_current_students := cm_current_students m + 1\<rparr>],
               rs_engine_assignments := rs_engine_assignments st @ [a]\<rparr>))"

definition allocate_one :: "core_rules \<Rightarrow> run_state \<Rightarrow> core_student \<Rightarrow> run_state" where
  "allocate_one R st s =
     (case find_best_mentor R s (rs_mentors st) of
        Some (i, m) \<Rightarrow>
          (let (a, st') = assign_student s i m (calculate_priority R s m) st
           in st'\<lparr>rs_successful := rs_successful st' + 1, rs_assignments := rs_assignments st' @ [a]\<rparr>)
      | None \<Rightarrow>
          (let failed = (cs_id s, get_failure_reason s (rs_mentors st))
           in st\<lparr>rs_engine_failed := rs_engine_failed st @ [failed], rs_failed := rs_failed st + 1,
                 rs_errors := rs_errors st @ [failed]\<rparr>))"

definition start_run :: "core_mentor list \<Rightarrow> core_assignment list \<Rightarrow> (int \<times> core_failure) list \<Rightarrow> run_state" where
  "start_run mentors assigned failed =
     \<lparr>rs_mentors = mentors, rs_engine_assignments = assigned, rs_engine_failed = failed, rs_successful = 0,
      rs_failed = 0, rs_assignments = [], rs_errors = []\<rparr>"

definition allocate_students ::
  "core_rules \<Rightarrow> core_student list \<Rightarrow> core_mentor list \<Rightarrow> core_assignment list \<Rightarrow> (int \<times> core_failure) list
   \<Rightarrow> run_state" where
  "allocate_students R students mentors assigned failed =
     foldl (allocate_one R) (start_run mentors assigned failed) students"

definition reset_run :: "run_state \<Rightarrow> run_state" where
  "reset_run st = st\<lparr>rs_engine_assignments := [], rs_engine_failed := []\<rparr>"

section \<open>The selection is a first maximum\<close>

text \<open>Mentors are ranked by score, then load, then free seats, then id.\<close>

definition mentor_rank :: "core_rules \<Rightarrow> core_student \<Rightarrow> core_mentor \<Rightarrow> int \<times> int \<times> int \<times> int" where
  "mentor_rank R s m =
     (- calculate_priority R s m, cm_current_students m, - remaining_capacity m, cm_id m)"

definition bonuses_ok :: "core_rules \<Rightarrow> bool" where
  "bonuses_ok R \<longleftrightarrow> 0 \<le> primary_grade_bonus R \<and> 0 \<le> same_center_bonus R"

lemma priority_nonneg: "bonuses_ok R \<Longrightarrow> 0 \<le> calculate_priority R s m"
  by (auto simp: bonuses_ok_def calculate_priority_def Let_def)

lemma lexicographic_test:
  fixes a b c d e f :: int and i j :: int
  shows "(a > b \<or> a = b \<and> (if c < d then True else if c = d \<and> e > f then True else c = d \<and> e = f \<and> i < j))
    \<longleftrightarrow> (- a, c, - e, i) < (- b, d, - f, j)"
  unfolding less_prod_simp by presburger

lemma takes_over_iff:
  "(calculate_priority R s m > calculate_priority R s b \<or>
    calculate_priority R s m = calculate_priority R s b \<and> tie_break m b)
   \<longleftrightarrow> mentor_rank R s m < mentor_rank R s b"
  unfolding mentor_rank_def tie_break_def by (rule lexicographic_test)

lemma find_best_loop_Some:
  "best_score = calculate_priority R s (snd b) \<Longrightarrow>
   \<exists>c. find_best_loop R s (Some b) best_score ims = Some c \<and>
     (c = b \<or> c \<in> set ims \<and> can_assign R s (snd c)) \<and>
     mentor_rank R s (snd c) \<le> mentor_rank R s (snd b) \<and>
     (\<forall>im \<in> set ims. can_assign R s (snd im) \<longrightarrow> mentor_rank R s (snd c) \<le> mentor_rank R s (snd im))"
proof (induction ims arbitrary: b best_score)
  case (Cons im ims)
  let ?r = "\<lambda>x. mentor_rank R s (snd x)"
  let ?p = "\<lambda>x. calculate_priority R s (snd x)"
  show ?case
  proof (cases "can_assign R s (snd im) \<and> ?r im < ?r b")
    case True
    then have "?p im > ?p b \<or> ?p im = ?p b \<and> tie_break (snd im) (snd b)"
      unfolding takes_over_iff by (rule conjunct2)
    then have step: "find_best_loop R s (Some b) best_score (im # ims) =
        find_best_loop R s (Some im) (?p im) ims"
      using conjunct1 [OF True] unfolding Cons.prems by (elim disjE conjE) (simp_all add: Let_def)
    obtain c where c: "find_best_loop R s (Some im) (?p im) ims = Some c"
        "c = im \<or> c \<in> set ims \<and> can_assign R s (snd c)" "?r c \<le> ?r im"
        "\<forall>x \<in> set ims. can_assign R s (snd x) \<longrightarrow> ?r c \<le> ?r x"
      using Cons.IH [OF refl, of im] by blast
    moreover have "?r c \<le> ?r b" using c(3) conjunct2 [OF True] by (rule less_imp_le [OF le_less_trans])
    ultimately show ?thesis unfolding step using conjunct1 [OF True] by auto
  next
    case False
    then have "\<not> can_assign R s (snd im) \<or> \<not> ?p im > ?p b \<and> \<not> (?p im = ?p b \<and> tie_break (snd im) (snd b))"
      using takes_over_iff [of R s "snd b" "snd im"] by blast
    then have step: "find_best_loop R s (Some b) best_score (im # ims) =
        find_best_loop R s (Some b) best_score ims"
      unfolding Cons.prems by (elim disjE conjE) (simp_all add: Let_def)
    obtain c where "find_best_loop R s (Some b) best_score ims = Some c"
        "c = b \<or> c \<in> set ims \<and> can_assign R s (snd c)" "?r c \<le> ?r b"
        "\<forall>x \<in> set ims. can_assign R s (snd x) \<longrightarrow> ?r c \<le> ?r x"
      using Cons.IH [OF Cons.prems] by blast
    moreover have "can_assign R s (snd im) \<longrightarrow> ?r c \<le> ?r im"
      using False calculation(3) by (auto intro: order_trans)
    ultimately show ?thesis unfolding step by auto
  qed
qed simp

lemma find_best_loop_None:
  assumes "bonuses_ok R"
  shows "(find_best_loop R s None (- 1) ims = None \<and> (\<forall>im \<in> set ims. \<not> can_assign R s (snd im))) \<or>
    (\<exists>c. find_best_loop R s None (- 1) ims = Some c \<and> c \<in> set ims \<and> can_assign R s (snd c) \<and>
     (\<forall>im \<in> set ims. can_assign R s (snd im) \<longrightarrow> mentor_rank R s (snd c) \<le> mentor_rank R s (snd im)))"
proof (induction ims)
  case (Cons im ims)
  show ?case
  proof (cases "can_assign R s (snd im)")
    case True
    have "calculate_priority R s (snd im) > - 1"
      using priority_nonneg [OF assms, of s "snd im"] by linarith
    then have step: "find_best_loop R s None (- 1) (im # ims) =
        find_best_loop R s (Some im) (calculate_priority R s (snd im)) ims"
      using True by (simp add: Let_def)
    show ?thesis using find_best_loop_Some [OF refl, of R s im ims] True unfolding step by fastforce
  next
    case False
    then show ?thesis using Cons.IH by auto
  qed
qed simp

lemma ball_enumerate: "(\<forall>im \<in> set (enumerate 0 ms). P (snd im)) \<longleftrightarrow> (\<forall>m \<in> set ms. P m)"
proof -
  have "set ms = snd ` set (enumerate 0 ms)" by (metis list.set_map map_snd_enumerate)
  then show ?thesis by simp
qed

lemma find_best_None_iff:
  assumes "bonuses_ok R"
  shows "find_best_mentor R s ms = None \<longleftrightarrow> (\<forall>m \<in> set ms. \<not> can_assign R s m)"
proof -
  have "snd c \<in> set ms" if "c \<in> set (enumerate 0 ms)" for c
    using that ball_enumerate [of ms "\<lambda>m. m \<in> set ms"] by blast
  then show ?thesis
    using find_best_loop_None [OF assms, of s "enumerate 0 ms"]
    unfolding find_best_mentor_def ball_enumerate [of ms "\<lambda>m. \<not> can_assign R s m"] by auto
qed

lemma find_best_Some:
  assumes "bonuses_ok R" and found: "find_best_mentor R s ms = Some (i, m)"
  shows "i < length ms \<and> ms ! i = m \<and> can_assign R s m \<and>
   (\<forall>m' \<in> set ms. can_assign R s m' \<longrightarrow> mentor_rank R s m \<le> mentor_rank R s m')"
proof -
  have c: "(i, m) \<in> set (enumerate 0 ms)" "can_assign R s m"
    "\<forall>im \<in> set (enumerate 0 ms). can_assign R s (snd im) \<longrightarrow> mentor_rank R s m \<le> mentor_rank R s (snd im)"
    using find_best_loop_None [OF assms(1), of s "enumerate 0 ms"] found
    by (auto simp: find_best_mentor_def)
  then show ?thesis
    using ball_enumerate [of ms "\<lambda>m'. can_assign R s m' \<longrightarrow> mentor_rank R s m \<le> mentor_rank R s m'"]
    by (auto simp: in_set_enumerate_eq)
qed

section \<open>Runs\<close>

definition add_load :: "core_mentor \<Rightarrow> int \<Rightarrow> core_mentor" where
  "add_load m k = m\<lparr>cm_current_students := cm_current_students m + k\<rparr>"

definition grown :: "core_mentor \<Rightarrow> core_mentor \<Rightarrow> bool" where
  "grown m m' \<longleftrightarrow> (\<exists>k. 0 \<le> k \<and> m' = add_load m k \<and>
     cm_current_students m' \<le> max (cm_current_students m) (cm_max_capacity m))"

lemma add_load_simps [simp]:
  "cm_current_students (add_load m k) = cm_current_students m + k"
  "cm_max_capacity (add_load m k) = cm_max_capacity m"
  "cm_gender (add_load m k) = cm_gender m"
  "cm_supported_grades (add_load m k) = cm_supported_grades m"
  "cm_center_id (add_load m k) = cm_center_id m"
  "add_load (add_load m k) j = add_load m (k + j)"
  "add_load m 0 = m"
  by (simp_all add: add_load_def algebra_simps)

lemma grown_refl: "grown m m"
  unfolding grown_def by (rule exI [of _ 0]) simp

lemma grown_seat: "grown m m' \<Longrightarrow> cm_current_students m' < cm_max_capacity m' \<Longrightarrow> grown m (add_load m' 1)"
proof -
  assume g: "grown m m'" and c: "cm_current_students m' < cm_max_capacity m'"
  then obtain k where k: "0 \<le> k" "m' = add_load m k" by (auto simp: grown_def)
  then show ?thesis unfolding grown_def using c by (intro exI [of _ "k + 1"]) auto
qed

lemma grown_can_assign: "grown m m' \<Longrightarrow> can_assign R s m' \<Longrightarrow> can_assign R s m"
  by (auto simp: grown_def can_assign_def split: if_splits)

lemma can_assign_seat: "can_assign R s m \<Longrightarrow> cm_current_students m < cm_max_capacity m"
  by (auto simp: can_assign_def split: if_splits)

definition reason_holds :: "core_rules \<Rightarrow> core_student \<Rightarrow> core_mentor list \<Rightarrow> core_failure \<Rightarrow> bool" where
  "reason_holds R s ms r =
     (case r of
        no_mentors_available \<Rightarrow> ms = []
      | no_mentor_with_matching_gender \<Rightarrow> ms \<noteq> [] \<and> (\<forall>m \<in> set ms. cm_gender m \<noteq> cs_gender s)
      | grade_level_not_supported \<Rightarrow>
          (\<exists>m \<in> set ms. cm_gender m = cs_gender s) \<and>
          (\<forall>m \<in> set ms. cm_gender m = cs_gender s \<longrightarrow> cs_grade_level s \<notin> set (cm_supported_grades m))
      | no_capacity_available \<Rightarrow>
          (\<exists>m \<in> set ms. cm_gender m = cs_gender s \<and> cs_grade_level s \<in> set (cm_supported_grades m)) \<and>
          (\<forall>m \<in> set ms. cm_gender m = cs_gender s \<longrightarrow> cs_grade_level s \<in> set (cm_supported_grades m) \<longrightarrow>
             cm_max_capacity m \<le> cm_current_students m)
      | no_mentor_matched \<Rightarrow>
          require_same_center R \<and>
          (\<exists>m \<in> set ms. cm_gender m = cs_gender s \<and> cs_grade_level s \<in> set (cm_supported_grades m) \<and>
             cm_current_students m < cm_max_capacity m \<and> cm_center_id m \<noteq> cs_center_id s))"

lemma failure_reason_holds:
  assumes "\<forall>m \<in> set ms. \<not> can_assign R s m"
  shows "reason_holds R s ms (get_failure_reason s ms)"
proof -
  have center: "require_same_center R \<and> cm_center_id m \<noteq> cs_center_id s"
    if "m \<in> set ms" "cm_gender m = cs_gender s" "cs_grade_level s \<in> set (cm_supported_grades m)"
      "cm_current_students m < cm_max_capacity m" for m
    using assms that by (auto simp: can_assign_def split: if_splits)
  let ?g = "filter (\<lambda>m. cm_gender m = cs_gender s) ms"
  let ?l = "filter (\<lambda>m. cs_grade_level s \<in> set (cm_supported_grades m)) ?g"
  let ?c = "filter (\<lambda>m. cm_current_students m < cm_max_capacity m) ?l"
  have reason: "get_failure_reason s ms =
      (if ms = [] then no_mentors_available else if ?g = [] then no_mentor_with_matching_gender
       else if ?l = [] then grade_level_not_supported else if ?c = [] then no_capacity_available
       else no_mentor_matched)"
    by (simp only: get_failure_reason_def Let_def)
  consider "ms = []" | "ms \<noteq> []" "?g = []" | "?g \<noteq> []" "?l = []" | "?l \<noteq> []" "?c = []" | "?c \<noteq> []"
    by force
  then show ?thesis
  proof cases
    case 2
    then show ?thesis by (auto simp: reason reason_holds_def filter_empty_conv)
  next
    case 3
    then have "get_failure_reason s ms = grade_level_not_supported" by (auto simp only: reason filter.simps if_True if_False split: if_splits)
    with 3 show ?thesis by (auto simp: reason_holds_def filter_empty_conv)
  next
    case 4
    then have "get_failure_reason s ms = no_capacity_available" by (auto simp only: reason filter.simps if_True if_False split: if_splits)
    with 4 show ?thesis by (auto simp: reason_holds_def filter_empty_conv not_less)
  next
    case 5
    then have "get_failure_reason s ms = no_mentor_matched" by (auto simp only: reason filter.simps if_True if_False split: if_splits)
    moreover obtain m where "m \<in> set ?c" using 5 by (meson hd_in_set)
    ultimately show ?thesis using center [of m] by (auto simp: reason_holds_def)
  qed (simp add: get_failure_reason_def reason_holds_def)
qed

lemma list_all2_same_set:
  "list_all2 P xs ys \<Longrightarrow> y \<in> set ys \<Longrightarrow> \<exists>x \<in> set xs. P x y"
  "list_all2 P xs ys \<Longrightarrow> x \<in> set xs \<Longrightarrow> \<exists>y \<in> set ys. P x y"
  by (auto simp: list_all2_conv_all_nth in_set_conv_nth) (metis nth_mem)+

lemma reason_holds_grown:
  assumes g: "list_all2 grown ms ms'" and r: "reason_holds R s ms r" "r \<noteq> no_mentor_matched"
  shows "reason_holds R s ms' r"
proof -
  have fwd: "\<exists>m' \<in> set ms'. cm_gender m' = cm_gender m \<and> cm_supported_grades m' = cm_supported_grades m"
    if "m \<in> set ms" for m
    using list_all2_same_set(2) [OF g that] by (metis add_load_simps(3,4) grown_def)
  have bwd: "\<exists>m \<in> set ms. cm_gender m' = cm_gender m \<and> cm_supported_grades m' = cm_supported_grades m
      \<and> cm_max_capacity m' = cm_max_capacity m \<and> cm_current_students m \<le> cm_current_students m'"
    if "m' \<in> set ms'" for m'
    using list_all2_same_set(1) [OF g that] by (auto simp: grown_def)
  have empty: "ms = [] \<longleftrightarrow> ms' = []" using g by auto
  show ?thesis
  proof (cases r)
    case no_mentors_available
    then show ?thesis using r empty by (simp add: reason_holds_def)
  next
    case no_mentor_with_matching_gender
    then show ?thesis using r empty bwd by (fastforce simp: reason_holds_def)
  next
    case grade_level_not_supported
    then show ?thesis using r fwd bwd by (fastforce simp: reason_holds_def)
  next
    case no_capacity_available
    then show ?thesis using r fwd bwd by (fastforce simp: reason_holds_def)
  next
    case no_mentor_matched
    then show ?thesis using r by simp
  qed
qed

section \<open>The invariant of a run\<close>

definition unplaced :: "core_rules \<Rightarrow> core_mentor list \<Rightarrow> core_student \<Rightarrow> core_failure \<Rightarrow> bool" where
  "unplaced R ms s r \<longleftrightarrow> (\<forall>m \<in> set ms. \<not> can_assign R s m) \<and>
     (if r = no_mentor_matched then require_same_center R else reason_holds R s ms r)"

definition run_inv ::
  "core_rules \<Rightarrow> core_student list \<Rightarrow> core_mentor list \<Rightarrow> run_state \<Rightarrow> bool" where
  "run_inv R ss ms st \<longleftrightarrow>
     list_all2 grown ms (rs_mentors st) \<and>
     rs_successful st = length (rs_assignments st) \<and> rs_failed st = length (rs_errors st) \<and>
     sum_list (map cm_current_students (rs_mentors st)) =
       sum_list (map cm_current_students ms) + int (rs_successful st) \<and>
     mset (map ca_student_id (rs_assignments st)) + mset (map fst (rs_errors st)) = mset (map cs_id ss) \<and>
     (\<forall>a \<in> set (rs_assignments st). \<exists>s \<in> set ss. \<exists>m \<in> set ms.
        cs_id s = ca_student_id a \<and> cm_id m = ca_mentor_id a \<and> can_assign R s m) \<and>
     (\<forall>e \<in> set (rs_errors st). \<exists>s \<in> set ss. cs_id s = fst e \<and> unplaced R (rs_mentors st) s (snd e))"

lemma unplaced_grown:
  assumes "list_all2 grown ms ms'" "unplaced R ms s r"
  shows "unplaced R ms' s r"
proof -
  have "\<not> can_assign R s m'" if "m' \<in> set ms'" for m'
    using list_all2_same_set(1) [OF assms(1) that] assms(2) grown_can_assign by (auto simp: unplaced_def)
  then show ?thesis
    using assms reason_holds_grown by (auto simp: unplaced_def split: if_splits)
qed

lemma unplaced_reason:
  "\<forall>m \<in> set ms. \<not> can_assign R s m \<Longrightarrow> unplaced R ms s (get_failure_reason s ms)"
  using failure_reason_holds [of ms R s] by (auto simp: unplaced_def reason_holds_def)

lemma list_all2_grown_refl: "list_all2 grown ms ms"
  by (simp add: list.rel_refl grown_refl)

lemma sum_list_load_update:
  "i < length ms \<Longrightarrow> sum_list (map cm_current_students (ms[i := add_load (ms ! i) 1])) =
     sum_list (map cm_current_students ms) + 1"
  by (induction ms arbitrary: i) (auto split: nat.splits)

lemma run_inv_start: "run_inv R [] ms (start_run ms as fs)"
  by (simp add: run_inv_def start_run_def list_all2_grown_refl)

lemma allocate_one_Some:
  assumes "find_best_mentor R s (rs_mentors st) = Some (i, m)"
  shows "allocate_one R st s =
    (let a = \<lparr>ca_student_id = cs_id s, ca_mentor_id = cm_id m, ca_priority_score = calculate_priority R s m\<rparr>
     in st\<lparr>rs_mentors := (rs_mentors st)[i := add_load m 1],
           rs_engine_assignments := rs_engine_assignments st @ [a],
           rs_successful := rs_successful st + 1, rs_assignments := rs_assignments st @ [a]\<rparr>)"
  using assms by (simp add: allocate_one_def assign_student_def add_load_def Let_def)

lemma run_inv_step:
  assumes R: "bonuses_ok R" and inv: "run_inv R ss ms st"
  shows "run_inv R (ss @ [s]) ms (allocate_one R st s)"
proof (cases "find_best_mentor R s (rs_mentors st)")
  case None
  then have "unplaced R (rs_mentors st) s (get_failure_reason s (rs_mentors st))"
    using find_best_None_iff [OF R] unplaced_reason by blast
  then show ?thesis using inv None by (auto simp: run_inv_def allocate_one_def Let_def)
next
  case (Some im)
  obtain i m where im: "im = (i, m)" by (cases im)
  note best = find_best_Some [OF R Some [unfolded im]]
  let ?ms' = "(rs_mentors st)[i := add_load m 1]"
  have g: "list_all2 grown ms (rs_mentors st)" using inv by (simp add: run_inv_def)
  have len: "length ms = length (rs_mentors st)" using g by (rule list_all2_lengthD)
  have gi: "grown (ms ! i) m" using g best len by (auto simp: list_all2_conv_all_nth)
  have seat: "cm_current_students m < cm_max_capacity m" using best can_assign_seat by blast
  have "list_all2 grown ms ?ms'"
    using g len best grown_seat [OF gi seat] by (auto simp: list_all2_conv_all_nth nth_list_update)
  moreover have "list_all2 grown (rs_mentors st) ?ms'"
    using best grown_seat [OF grown_refl seat]
    by (auto simp: list_all2_conv_all_nth nth_list_update grown_refl)
  moreover have "cm_id (ms ! i) = cm_id m" using gi by (auto simp: grown_def add_load_def)
  moreover have "can_assign R s (ms ! i)" "ms ! i \<in> set ms"
    using grown_can_assign [OF gi] best len by auto
  moreover have "sum_list (map cm_current_students ?ms') = sum_list (map cm_current_students (rs_mentors st)) + 1"
    using sum_list_load_update [of i "rs_mentors st"] best by auto
  ultimately show ?thesis
    using inv unplaced_grown [of "rs_mentors st" ?ms' R] unfolding allocate_one_Some [OF Some [unfolded im]]
    by (auto simp: run_inv_def Let_def) (metis (no_types, lifting) fst_conv snd_conv bspec | blast)+
qed

lemma run_inv_run:
  assumes "bonuses_ok R"
  shows "run_inv R ss ms (allocate_students R ss ms as fs)"
proof (induction ss rule: rev_induct)
  case Nil
  then show ?case by (simp add: allocate_students_def run_inv_start)
next
  case (snoc s ss)
  then show ?case using run_inv_step [OF assms] by (simp add: allocate_students_def)
qed

text \<open>
  C39 core_selection_is_best: with bonuses that are not negative, the engine finds nobody exactly when no
  mentor is assignable; otherwise it finds an assignable mentor that no assignable mentor beats on
  priority, then on fewer current students, then on more free seats, then on the smaller id.
\<close>

theorem core_selection_is_best:
  assumes "bonuses_ok R"
  shows "(find_best_mentor R s ms = None \<longleftrightarrow> (\<forall>m \<in> set ms. \<not> can_assign R s m)) \<and>
    (\<forall>i m. find_best_mentor R s ms = Some (i, m) \<longrightarrow>
       i < length ms \<and> m = ms ! i \<and> can_assign R s m \<and>
       (\<forall>m' \<in> set ms. can_assign R s m' \<longrightarrow>
          calculate_priority R s m' < calculate_priority R s m \<or>
          calculate_priority R s m' = calculate_priority R s m \<and>
          (cm_current_students m < cm_current_students m' \<or>
           cm_current_students m = cm_current_students m' \<and>
           (remaining_capacity m > remaining_capacity m' \<or>
            remaining_capacity m = remaining_capacity m' \<and> cm_id m \<le> cm_id m'))))"
proof -
  have "calculate_priority R s m' < calculate_priority R s m \<or>
          calculate_priority R s m' = calculate_priority R s m \<and>
          (cm_current_students m < cm_current_students m' \<or>
           cm_current_students m = cm_current_students m' \<and>
           (remaining_capacity m > remaining_capacity m' \<or>
            remaining_capacity m = remaining_capacity m' \<and> cm_id m \<le> cm_id m'))"
    if "mentor_rank R s m \<le> mentor_rank R s m'" for m m'
    using that by (auto simp: mentor_rank_def)
  then show ?thesis using find_best_None_iff [OF assms] find_best_Some [OF assms] by blast
qed

definition example_mentors :: "core_mentor list" where
  "example_mentors =
     [\<lparr>cm_id = 7, cm_gender = 0, cm_supported_grades = [10, 11], cm_max_capacity = 2, cm_current_students = 1,
       cm_center_id = 1, cm_primary_grade = None\<rparr>,
      \<lparr>cm_id = 5, cm_gender = 0, cm_supported_grades = [10], cm_max_capacity = 2, cm_current_students = 1,
       cm_center_id = 1, cm_primary_grade = None\<rparr>]"

definition example_student :: "int \<Rightarrow> core_student" where
  "example_student i = \<lparr>cs_id = i, cs_gender = 0, cs_grade_level = 10, cs_center_id = 1\<rparr>"

lemma standard_bonuses: "bonuses_ok standard_rules"
  by (simp add: bonuses_ok_def standard_rules_def)

theorem core_selection_is_best_witness:
  "\<exists>m. find_best_mentor standard_rules (example_student 1) example_mentors = Some (1, m) \<and> cm_id m = 5 \<and>
     can_assign standard_rules (example_student 1) m"
proof -
  have found: "map_option fst (find_best_mentor standard_rules (example_student 1) example_mentors) = Some 1"
    by code_simp
  then obtain m where m: "find_best_mentor standard_rules (example_student 1) example_mentors = Some (1, m)"
    by auto
  with core_selection_is_best [OF standard_bonuses, of "example_student 1" example_mentors]
  have "m = example_mentors ! 1" "can_assign standard_rules (example_student 1) m" by blast+
  moreover have "cm_id (example_mentors ! 1) = 5" by (simp add: example_mentors_def)
  ultimately show ?thesis using m by blast
qed

text \<open>
  A run of the engine counts every student once, as placed or as failed, keeps
  the list of mentors and all their data but the loads, raises the sum of the loads by the number of
  assignments, places only students that were assignable, and lifts no load above the larger of its old
  value and the capacity.
\<close>

theorem core_run_accounts:
  assumes "bonuses_ok R" "st = allocate_students R ss ms as fs"
  shows "rs_successful st = length (rs_assignments st) \<and> rs_failed st = length (rs_errors st) \<and>
    mset (map ca_student_id (rs_assignments st)) + mset (map fst (rs_errors st)) = mset (map cs_id ss) \<and>
    sum_list (map cm_current_students (rs_mentors st)) =
      sum_list (map cm_current_students ms) + int (rs_successful st) \<and>
    (\<forall>a \<in> set (rs_assignments st). \<exists>s \<in> set ss. \<exists>m \<in> set ms.
        cs_id s = ca_student_id a \<and> cm_id m = ca_mentor_id a \<and> can_assign R s m) \<and>
    list_all2 (\<lambda>m m'. m'\<lparr>cm_current_students := cm_current_students m\<rparr> = m \<and>
       cm_current_students m \<le> cm_current_students m' \<and>
       cm_current_students m' \<le> max (cm_current_students m) (cm_max_capacity m)) ms (rs_mentors st)"
proof -
  have inv: "run_inv R ss ms st" unfolding assms(2) by (rule run_inv_run [OF assms(1)])
  then have "list_all2 grown ms (rs_mentors st)" by (simp add: run_inv_def)
  then have "list_all2 (\<lambda>m m'. m'\<lparr>cm_current_students := cm_current_students m\<rparr> = m \<and>
       cm_current_students m \<le> cm_current_students m' \<and>
       cm_current_students m' \<le> max (cm_current_students m) (cm_max_capacity m)) ms (rs_mentors st)"
    by (rule list_all2_mono) (auto simp: grown_def add_load_def)
  then show ?thesis using inv by (simp add: run_inv_def)
qed

theorem core_run_accounts_witness:
  "list_all2 (\<lambda>m m'. cm_current_students m \<le> cm_current_students m' \<and>
       cm_current_students m' \<le> max (cm_current_students m) (cm_max_capacity m)) example_mentors
     (rs_mentors (allocate_students standard_rules (map example_student [1, 2, 3]) example_mentors [] []))"
  using core_run_accounts [OF standard_bonuses refl, of "map example_student [1, 2, 3]" example_mentors "[]" "[]"]
  by (elim conjE) (erule list_all2_mono, blast)

text \<open>
  At the end of a run no mentor could still take a student that was
  turned away, and the reason recorded for each of them is true of the final state of the mentors;
  the reason that none matched occurs only under rules that insist on the same centre.
\<close>

theorem core_run_is_exhaustive:
  assumes "bonuses_ok R" "st = allocate_students R ss ms as fs" "(sid, reason) \<in> set (rs_errors st)"
  shows "\<exists>s \<in> set ss. cs_id s = sid \<and> (\<forall>m \<in> set (rs_mentors st). \<not> can_assign R s m) \<and>
    (if reason = no_mentor_matched then require_same_center R
     else reason_holds R s (rs_mentors st) reason)"
proof -
  have "run_inv R ss ms st" unfolding assms(2) by (rule run_inv_run [OF assms(1)])
  then show ?thesis using assms(3) unfolding run_inv_def unplaced_def by fastforce
qed

theorem core_run_is_exhaustive_witness:
  "\<exists>s \<in> set (map example_student [1, 2, 3]). cs_id s = 3 \<and>
    reason_holds standard_rules s
      (rs_mentors (allocate_students standard_rules (map example_student [1, 2, 3]) example_mentors [] []))
      no_capacity_available"
proof -
  have "rs_errors (allocate_students standard_rules (map example_student [1, 2, 3]) example_mentors [] []) =
      [(3, no_capacity_available)]"
    by code_simp
  then have "(3, no_capacity_available) \<in>
      set (rs_errors (allocate_students standard_rules (map example_student [1, 2, 3]) example_mentors [] []))"
    by simp
  from core_run_is_exhaustive [OF standard_bonuses refl this] show ?thesis
    by (metis core_failure.distinct(19))
qed

end
