(* ===== verification/Core_Retry.thy ===== *)
theory Core_Retry
  imports PyFloat
begin

text \<open>
  \<^verbatim>\<open>core/retry.py\<close>: the retry policy and \<^verbatim>\<open>execute_with_retry\<close>. The wrapped function is an oracle:
  \<open>outcome n\<close> is what its call number \<open>n\<close> returns or raises; \<open>retryable\<close> says whether the exception is an
  instance of one of the retryable classes. The result carries the number of calls, the arguments the
  sleeper was called with, and the two metric logs: the module's own and the caller's, if it passed another
  one. The 2 byte BLAKE2b digest, read as an integer, and C's \<^verbatim>\<open>pow\<close> are parameters.
\<close>

record RetryPolicy =
  base_delay :: pyfloat
  factor :: pyfloat
  max_delay :: pyfloat
  max_attempts :: int

definition default_policy :: RetryPolicy where
  "default_policy = \<lparr>base_delay = fl (1 / 10), factor = 2, max_delay = 5, max_attempts = 3\<rparr>"

record retry_lib =
  digest2 :: "pystr \<Rightarrow> int"
  c_pow :: "pyfloat \<Rightarrow> nat \<Rightarrow> pyfloat"

definition jitter_seed :: "retry_lib \<Rightarrow> pystr \<Rightarrow> pystr \<Rightarrow> int \<Rightarrow> int" where
  "jitter_seed L correlation_id op attempt =
     digest2 L (correlation_id @ 58 # op @ 58 # py_str_int attempt) mod 100"

definition backoff_for :: "retry_lib \<Rightarrow> RetryPolicy \<Rightarrow> int \<Rightarrow> pystr \<Rightarrow> pystr \<Rightarrow> pyfloat" where
  "backoff_for L P attempt0 correlation_id op =
     (let attempt = max 1 attempt0;
          raw = min (fmul (base_delay P) (c_pow L (factor P) (nat (attempt - 1)))) (max_delay P);
          jitter_multiplier = fadd 1 (fdiv (of_int (jitter_seed L correlation_id op attempt)) 1000)
      in fmul raw jitter_multiplier)"

datatype metric_event = MAttempt retry_phase "pyfloat option" | MExhausted
  and retry_phase = phase_success | phase_retry | phase_failure

record retry_metrics =
  m_default :: "metric_event list"
  m_custom :: "metric_event list option"

definition record_metric :: "metric_event \<Rightarrow> retry_metrics \<Rightarrow> retry_metrics" where
  "record_metric e M = M\<lparr>m_default := m_default M @ [e], m_custom := map_option (\<lambda>l. l @ [e]) (m_custom M)\<rparr>"

datatype ('e, 'a) retry_result = Returned 'a | RetryExhausted 'e | AssertionFailed

record ('e, 'a) retry_run =
  rr_result :: "('e, 'a) retry_result"
  rr_calls :: nat
  rr_sleeps :: "pyfloat list"
  rr_metrics :: retry_metrics

text \<open>\<open>left\<close> is the number of attempts that remain of \<^verbatim>\<open>range(1, max_attempts + 1)\<close>.\<close>

fun retry_loop ::
  "retry_lib \<Rightarrow> RetryPolicy \<Rightarrow> ('e \<Rightarrow> bool) \<Rightarrow> (nat \<Rightarrow> 'e + 'a) \<Rightarrow> pystr \<Rightarrow> pystr
   \<Rightarrow> nat \<Rightarrow> nat \<Rightarrow> 'e option \<Rightarrow> pyfloat list \<Rightarrow> retry_metrics \<Rightarrow> ('e, 'a) retry_run" where
  "retry_loop L P retryable outcome cid op 0 attempt last_error sleeps M =
     \<lparr>rr_result = (case last_error of None \<Rightarrow> AssertionFailed | Some e \<Rightarrow> RetryExhausted e),
      rr_calls = attempt - 1, rr_sleeps = sleeps, rr_metrics = M\<rparr>"
| "retry_loop L P retryable outcome cid op (Suc left) attempt last_error sleeps M =
     (case outcome attempt of
        Inr x \<Rightarrow>
          \<lparr>rr_result = Returned x, rr_calls = attempt, rr_sleeps = sleeps,
           rr_metrics = record_metric (MAttempt phase_success None) M\<rparr>
      | Inl e \<Rightarrow>
          if \<not> retryable e \<or> int attempt \<ge> max_attempts P then
            \<lparr>rr_result = RetryExhausted e, rr_calls = attempt, rr_sleeps = sleeps,
             rr_metrics = record_metric MExhausted (record_metric (MAttempt phase_failure None) M)\<rparr>
          else let backoff = backoff_for L P (int attempt) cid op
               in retry_loop L P retryable outcome cid op left (Suc attempt) (Some e) (sleeps @ [backoff])
                    (record_metric (MAttempt phase_retry (Some backoff)) M))"

definition execute_with_retry ::
  "retry_lib \<Rightarrow> RetryPolicy \<Rightarrow> ('e \<Rightarrow> bool) \<Rightarrow> (nat \<Rightarrow> 'e + 'a) \<Rightarrow> pystr \<Rightarrow> pystr \<Rightarrow> retry_metrics
   \<Rightarrow> ('e, 'a) retry_run" where
  "execute_with_retry L P retryable outcome cid op M =
     retry_loop L P retryable outcome cid op (nat (max_attempts P)) 1 None [] M"

section \<open>What a run does\<close>

definition backoffs :: "retry_lib \<Rightarrow> RetryPolicy \<Rightarrow> pystr \<Rightarrow> pystr \<Rightarrow> nat \<Rightarrow> nat \<Rightarrow> pyfloat list" where
  "backoffs L P cid op i n = map (\<lambda>k. backoff_for L P (int k) cid op) [i..<n]"

definition run_shape ::
  "RetryPolicy \<Rightarrow> ('e \<Rightarrow> bool) \<Rightarrow> (nat \<Rightarrow> 'e + 'a) \<Rightarrow> nat \<Rightarrow> ('e, 'a) retry_run \<Rightarrow> bool" where
  "run_shape P retryable outcome start r \<longleftrightarrow>
     start \<le> rr_calls r \<and> int (rr_calls r) \<le> max_attempts P \<and>
     (\<forall>k. start \<le> k \<and> k < rr_calls r \<longrightarrow> (\<exists>e. outcome k = Inl e \<and> retryable e)) \<and>
     (case outcome (rr_calls r) of
        Inr x \<Rightarrow> rr_result r = Returned x
      | Inl e \<Rightarrow> rr_result r = RetryExhausted e \<and> (retryable e \<longrightarrow> int (rr_calls r) = max_attempts P))"

definition final_events :: "('e, 'a) retry_result \<Rightarrow> metric_event list" where
  "final_events r =
     (case r of Returned x \<Rightarrow> [MAttempt phase_success None]
      | _ \<Rightarrow> [MAttempt phase_failure None, MExhausted])"

lemma record_metric_default [simp]: "m_default (record_metric e M) = m_default M @ [e]"
  by (simp add: record_metric_def)

lemma backoffs_step:
  "i < n \<Longrightarrow> backoffs L P cid op i n = backoff_for L P (int i) cid op # backoffs L P cid op (Suc i) n"
  by (simp add: backoffs_def upt_conv_Cons)

lemma retry_loop_shape:
  "int (attempt + left) = max_attempts P + 1 \<Longrightarrow> 0 < left \<Longrightarrow>
   r = retry_loop L P retryable outcome cid op left attempt le sleeps M \<Longrightarrow>
   run_shape P retryable outcome attempt r \<and>
   rr_sleeps r = sleeps @ backoffs L P cid op attempt (rr_calls r) \<and>
   m_default (rr_metrics r) = m_default M @
     map (\<lambda>b. MAttempt phase_retry (Some b)) (backoffs L P cid op attempt (rr_calls r)) @ final_events (rr_result r)"
proof (induction left arbitrary: attempt le sleeps M)
  case (Suc left)
  show ?case
  proof (cases "outcome attempt")
    case (Inr x)
    then show ?thesis using Suc.prems by (auto simp: run_shape_def backoffs_def final_events_def)
  next
    case (Inl e)
    show ?thesis
    proof (cases "\<not> retryable e \<or> int attempt \<ge> max_attempts P")
      case True
      then show ?thesis
        using Inl Suc.prems by (auto simp: run_shape_def backoffs_def final_events_def)
    next
      case False
      let ?b = "backoff_for L P (int attempt) cid op"
      let ?M = "record_metric (MAttempt phase_retry (Some ?b)) M"
      have r: "r = retry_loop L P retryable outcome cid op left (Suc attempt) (Some e) (sleeps @ [?b]) ?M"
        using Suc.prems(3) Inl False by (simp add: Let_def)
      have "0 < left" "int (Suc attempt + left) = max_attempts P + 1" using Suc.prems False by auto
      note ih = Suc.IH [OF this(2,1) r]
      then have "run_shape P retryable outcome attempt r"
        using Inl False by (auto simp: run_shape_def) (metis Suc_leI le_neq_implies_less)
      moreover have "attempt < rr_calls r" using ih by (simp add: run_shape_def)
      ultimately show ?thesis using ih by (simp add: backoffs_step)
    qed
  qed
qed simp

text \<open>
  With at least one attempt allowed the wrapped function is called between
  one and \<^verbatim>\<open>max_attempts\<close> times; every call but the last raised a retryable exception; the last call
  either returned, and its value is the result, or raised an exception that is not retryable or
  that used up the attempts, and RetryExhaustedError carries it. The sleeper got exactly the backoffs of
  the failed attempts, and the metric log one entry per attempt and one more on exhaustion. With no attempt
  allowed the function is not called and the assertion at the end fails.
\<close>

theorem retry_run_is_determined:
  assumes "r = execute_with_retry L P retryable outcome cid op M"
  shows "if max_attempts P < 1 then rr_result r = AssertionFailed \<and> rr_calls r = 0 \<and> rr_sleeps r = []
    else 1 \<le> rr_calls r \<and> int (rr_calls r) \<le> max_attempts P \<and>
      (\<forall>k. 1 \<le> k \<and> k < rr_calls r \<longrightarrow> (\<exists>e. outcome k = Inl e \<and> retryable e)) \<and>
      (case outcome (rr_calls r) of
         Inr x \<Rightarrow> rr_result r = Returned x
       | Inl e \<Rightarrow> rr_result r = RetryExhausted e \<and> (retryable e \<longrightarrow> int (rr_calls r) = max_attempts P)) \<and>
      rr_sleeps r = backoffs L P cid op 1 (rr_calls r) \<and>
      m_default (rr_metrics r) = m_default M @
        map (\<lambda>b. MAttempt phase_retry (Some b)) (rr_sleeps r) @ final_events (rr_result r)"
proof (cases "max_attempts P < 1")
  case True
  then show ?thesis using assms by (simp add: execute_with_retry_def)
next
  case False
  then have "int (1 + nat (max_attempts P)) = max_attempts P + 1" "0 < nat (max_attempts P)" by auto
  from retry_loop_shape [OF this, of r L retryable outcome cid op None "[]" M]
  have "run_shape P retryable outcome 1 r" "rr_sleeps r = backoffs L P cid op 1 (rr_calls r)"
    "m_default (rr_metrics r) = m_default M @
       map (\<lambda>b. MAttempt phase_retry (Some b)) (rr_sleeps r) @ final_events (rr_result r)"
    using assms by (simp_all add: execute_with_retry_def)
  then show ?thesis using False unfolding run_shape_def by presburger
qed

definition sample_lib :: retry_lib where
  "sample_lib = \<lparr>digest2 = (\<lambda>s. int (length s)), c_pow = (\<lambda>x n. x ^ n)\<rparr>"

theorem retry_run_is_determined_witness:
  "rr_calls (execute_with_retry sample_lib default_policy (\<lambda>e. True)
     (\<lambda>n. if n < 3 then Inl (asc ''timeout'') else Inr n) [] [] \<lparr>m_default = [], m_custom = None\<rparr>) = 3"
proof -
  let ?o = "\<lambda>n. if n < 3 then Inl (asc ''timeout'') else Inr n"
  let ?r = "execute_with_retry sample_lib default_policy (\<lambda>e. True) ?o [] [] \<lparr>m_default = [], m_custom = None\<rparr>"
  have m: "max_attempts default_policy = 3" by (simp add: default_policy_def)
  have "1 \<le> rr_calls ?r \<and> int (rr_calls ?r) \<le> 3 \<and>
     (case ?o (rr_calls ?r) of Inr x \<Rightarrow> rr_result ?r = Returned x
      | Inl e \<Rightarrow> rr_result ?r = RetryExhausted e \<and> (True \<longrightarrow> int (rr_calls ?r) = 3))"
    using retry_run_is_determined [of ?r sample_lib default_policy "\<lambda>e. True" ?o "[]" "[]"] unfolding m by simp
  then show ?thesis by (cases "rr_calls ?r < 3") auto
qed

section \<open>The contract of a retrying caller\<close>

text \<open>
  The operations that are retried change a state, whether they succeed or not: \<open>step n s\<close> is call number \<open>n\<close>
  in state \<open>s\<close>. The state before call \<open>n + 1\<close> is what the first \<open>n\<close> calls left.
\<close>

fun attempts_state :: "(nat \<Rightarrow> 's \<Rightarrow> ('e + 'a) \<times> 's) \<Rightarrow> 's \<Rightarrow> nat \<Rightarrow> 's" where
  "attempts_state step s 0 = s"
| "attempts_state step s (Suc n) = snd (step (Suc n) (attempts_state step s n))"

definition attempts_outcome :: "(nat \<Rightarrow> 's \<Rightarrow> ('e + 'a) \<times> 's) \<Rightarrow> 's \<Rightarrow> nat \<Rightarrow> 'e + 'a" where
  "attempts_outcome step s n = fst (step n (attempts_state step s (n - 1)))"

lemma attempts_state_inv:
  assumes "I s" and "\<And>n s. I s \<Longrightarrow> I (snd (step n s))"
  shows "I (attempts_state step s n)"
  by (induction n) (simp_all add: assms)

text \<open>What a client may rely on: how many calls there are, and how each of them ended.\<close>

locale retrying =
  fixes calls :: "(nat \<Rightarrow> 'e + 'a) \<Rightarrow> nat" and limit :: int and retryable :: "'e \<Rightarrow> bool"
  assumes calls_law: "1 \<le> limit \<Longrightarrow> 1 \<le> calls outcome \<and> int (calls outcome) \<le> limit \<and>
    (\<forall>k. 1 \<le> k \<and> k < calls outcome \<longrightarrow> (\<exists>e. outcome k = Inl e \<and> retryable e)) \<and>
    (\<forall>e. outcome (calls outcome) = Inl e \<longrightarrow> retryable e \<longrightarrow> int (calls outcome) = limit)"
begin

lemma last_call:
  assumes "1 \<le> limit"
  shows "\<exists>s'. step (calls (attempts_outcome step s)) s' =
      (attempts_outcome step s (calls (attempts_outcome step s)),
       attempts_state step s (calls (attempts_outcome step s)))"
proof -
  have "1 \<le> calls (attempts_outcome step s)" using calls_law [OF assms] by blast
  then obtain n where "calls (attempts_outcome step s) = Suc n" by (cases "calls (attempts_outcome step s)") auto
  then show ?thesis
    by (intro exI [of _ "attempts_state step s n"]) (simp add: attempts_outcome_def)
qed

lemma last_call_inv:
  assumes "1 \<le> limit" and "I s" and "\<And>n s. I s \<Longrightarrow> I (snd (step n s))"
  shows "\<exists>s'. I s' \<and> step (calls (attempts_outcome step s)) s' =
      (attempts_outcome step s (calls (attempts_outcome step s)),
       attempts_state step s (calls (attempts_outcome step s)))"
proof -
  have "1 \<le> calls (attempts_outcome step s)" using calls_law [OF assms(1)] by blast
  then obtain n where "calls (attempts_outcome step s) = Suc n" by (cases "calls (attempts_outcome step s)") auto
  then show ?thesis
    using attempts_state_inv [of I s step n, OF assms(2,3)]
    by (intro exI [of _ "attempts_state step s n"]) (simp add: attempts_outcome_def)
qed

text \<open>An operation that changes nothing when it fails leaves nothing behind when the retries fail.\<close>

lemma failure_leaves_no_trace:
  assumes "1 \<le> limit" and "\<And>n s e. fst (step n s) = Inl e \<Longrightarrow> snd (step n s) = s"
    and "attempts_outcome step s (calls (attempts_outcome step s)) = Inl e"
  shows "attempts_state step s (calls (attempts_outcome step s)) = s"
proof -
  let ?o = "attempts_outcome step s"
  have "n \<le> calls ?o \<Longrightarrow> attempts_state step s n = s" for n
  proof (induction n)
    case (Suc n)
    have "\<exists>e. ?o (Suc n) = Inl e"
      using calls_law [OF assms(1), of ?o] assms(3) Suc.prems by (cases "Suc n = calls ?o") force+
    then show ?case using Suc assms(2) by (auto simp: attempts_outcome_def)
  qed simp
  then show ?thesis by simp
qed

lemma fails_at_once:
  assumes "1 \<le> limit" and "outcome 1 = Inl e" and "\<not> retryable e"
  shows "calls outcome = 1"
  using calls_law [OF assms(1), of outcome] assms(2,3)
  by (metis dual_order.order_iff_strict order_refl sum.inject(1))

lemma succeeds_if_reached:
  assumes "\<And>k. 1 \<le> k \<Longrightarrow> k < n \<Longrightarrow> \<exists>e. outcome k = Inl e \<and> retryable e"
    and "outcome n = Inr x" and "1 \<le> n" and "int n \<le> limit"
  shows "calls outcome = n"
proof -
  have l: "1 \<le> limit" using assms(3,4) by linarith
  note law = calls_law [OF l, of outcome]
  have "\<not> n < calls outcome" using law assms(2,3) by force
  moreover have "\<not> calls outcome < n"
  proof
    assume less: "calls outcome < n"
    then obtain e where "outcome (calls outcome) = Inl e" "retryable e" using assms(1) law by blast
    then show False using law less assms(4) by force
  qed
  ultimately show ?thesis by simp
qed

end

text \<open>\<^verbatim>\<open>execute_with_retry\<close> keeps the contract.\<close>

interpretation core_retry: retrying
  "\<lambda>outcome. rr_calls (execute_with_retry L P retryable outcome cid op M)" "max_attempts P" retryable
  for L P retryable cid op M
proof
  fix outcome :: "nat \<Rightarrow> 'a + 'b"
  let ?r = "execute_with_retry L P retryable outcome cid op M"
  assume "1 \<le> max_attempts P"
  then have "int (1 + nat (max_attempts P)) = max_attempts P + 1" "0 < nat (max_attempts P)" by auto
  from retry_loop_shape [OF this, of ?r L retryable outcome cid op None "[]" M]
  have "run_shape P retryable outcome 1 ?r" by (simp add: execute_with_retry_def)
  then show "1 \<le> rr_calls ?r \<and> int (rr_calls ?r) \<le> max_attempts P \<and>
    (\<forall>k. 1 \<le> k \<and> k < rr_calls ?r \<longrightarrow> (\<exists>e. outcome k = Inl e \<and> retryable e)) \<and>
    (\<forall>e. outcome (rr_calls ?r) = Inl e \<longrightarrow> retryable e \<longrightarrow> int (rr_calls ?r) = max_attempts P)"
    unfolding run_shape_def by (auto split: sum.splits)
qed

lemma execute_with_retry_result:
  assumes "1 \<le> max_attempts P"
  shows "rr_result (execute_with_retry L P retryable outcome cid op M) =
    (case outcome (rr_calls (execute_with_retry L P retryable outcome cid op M)) of
       Inr x \<Rightarrow> Returned x | Inl e \<Rightarrow> RetryExhausted e)"
proof -
  have "int (1 + nat (max_attempts P)) = max_attempts P + 1" "0 < nat (max_attempts P)" using assms by auto
  from retry_loop_shape [OF this, of _ L retryable outcome cid op None "[]" M, OF refl]
  show ?thesis unfolding run_shape_def execute_with_retry_def by (simp split: sum.splits)
qed

section \<open>Bounds of the backoff\<close>

definition delays_ok :: "retry_lib \<Rightarrow> RetryPolicy \<Rightarrow> bool" where
  "delays_ok L P \<longleftrightarrow> fl (base_delay P) = base_delay P \<and> fl (max_delay P) = max_delay P \<and>
     0 \<le> base_delay P \<and> 0 \<le> max_delay P \<and>
     (\<forall>n. 1 \<le> c_pow L (factor P) n) \<and> (\<forall>m n. m \<le> n \<longrightarrow> c_pow L (factor P) m \<le> c_pow L (factor P) n)"

lemma jitter_seed_range: "0 \<le> jitter_seed L cid op n \<and> jitter_seed L cid op n \<le> 99"
proof -
  have "0 \<le> k mod 100 \<and> k mod 100 \<le> 99" for k :: int by presburger
  then show ?thesis unfolding jitter_seed_def by blast
qed

definition max_multiplier :: pyfloat where
  "max_multiplier = fadd 1 (fdiv 99 1000)"

lemma jitter_multiplier_range:
  assumes "0 \<le> j" "j \<le> 99"
  shows "1 \<le> fadd 1 (fdiv (of_int j) 1000)" "fadd 1 (fdiv (of_int j) 1000) \<le> max_multiplier"
proof -
  have "(0::rat) \<le> of_int j" "(of_int j :: rat) \<le> 99" using assms by auto
  then have "0 \<le> fdiv (of_int j) 1000" "fdiv (of_int j) 1000 \<le> fdiv 99 1000"
    by (auto simp: fdiv_def intro!: fl_nonneg fl_mono)
  moreover have "fl 1 = 1" by code_simp
  ultimately show "1 \<le> fadd 1 (fdiv (of_int j) 1000)" "fadd 1 (fdiv (of_int j) 1000) \<le> max_multiplier"
    using fl_mono [of 1 "1 + fdiv (of_int j) 1000"] by (auto simp: fadd_def max_multiplier_def intro!: fl_mono)
qed

text \<open>
  If the delays of the policy are floats that are not negative and the powers of
  its factor are at least 1, every backoff lies between the smaller of base and maximal delay and the
  maximal delay times the largest jitter multiplier (1.099 rounded), and it depends on the correlation
  id and the operation only through the jitter seed. Attempts below one count as the first.
\<close>

theorem backoff_within_bounds:
  assumes "delays_ok L P"
  shows "min (base_delay P) (max_delay P) \<le> backoff_for L P n cid op \<and>
    backoff_for L P n cid op \<le> fmul (max_delay P) max_multiplier \<and>
    (n \<le> 1 \<longrightarrow> backoff_for L P n cid op = backoff_for L P 1 cid op) \<and>
    (jitter_seed L cid op (max 1 n) = jitter_seed L cid' op' (max 1 n) \<longrightarrow>
       backoff_for L P n cid op = backoff_for L P n cid' op')"
proof -
  let ?p = "c_pow L (factor P) (nat (max 1 n - 1))"
  let ?raw = "min (fmul (base_delay P) ?p) (max_delay P)"
  let ?j = "fadd 1 (fdiv (of_int (jitter_seed L cid op (max 1 n))) 1000)"
  have b: "backoff_for L P n cid op = fl (?raw * ?j)" by (simp add: backoff_for_def fmul_def Let_def)
  have "1 \<le> ?p" "0 \<le> base_delay P" "0 \<le> max_delay P"
    and rep: "fl (base_delay P) = base_delay P" "fl (max_delay P) = max_delay P"
    using assms by (auto simp: delays_ok_def)
  then have "base_delay P \<le> base_delay P * ?p" by (simp add: mult_left_le_one_le mult_le_cancel_left1)
  from fl_mono [OF this] have "base_delay P \<le> fmul (base_delay P) ?p" by (simp add: fmul_def rep)
  then have low: "min (base_delay P) (max_delay P) \<le> ?raw" by auto
  have pos: "0 \<le> min (base_delay P) (max_delay P)" using \<open>0 \<le> base_delay P\<close> \<open>0 \<le> max_delay P\<close> by simp
  note j = jitter_multiplier_range [OF conjunct1 conjunct2, OF jitter_seed_range jitter_seed_range]
  have "min (base_delay P) (max_delay P) * 1 \<le> ?raw * ?j"
    using low pos j(1) by (intro mult_mono) auto
  from fl_mono [OF this] have "min (base_delay P) (max_delay P) \<le> fl (?raw * ?j)"
    using rep by (auto simp: min_def split: if_splits)
  moreover have "?raw * ?j \<le> max_delay P * max_multiplier"
    using low pos j order_trans [OF zero_le_one j(1)] by (intro mult_mono) auto
  then have "fl (?raw * ?j) \<le> fmul (max_delay P) max_multiplier" by (simp add: fmul_def fl_mono)
  moreover have "n \<le> 1 \<longrightarrow> backoff_for L P n cid op = backoff_for L P 1 cid op"
    by (simp add: backoff_for_def max_def)
  moreover have "jitter_seed L cid op (max 1 n) = jitter_seed L cid' op' (max 1 n) \<longrightarrow>
       backoff_for L P n cid op = backoff_for L P n cid' op'"
    by (simp add: backoff_for_def Let_def)
  ultimately show ?thesis using b by metis
qed

lemma sample_delays: "delays_ok sample_lib default_policy"
proof -
  have "fl (base_delay default_policy) = base_delay default_policy" "fl (max_delay default_policy) = max_delay default_policy"
    "0 \<le> base_delay default_policy" "0 \<le> max_delay default_policy"
    by code_simp+
  moreover have "(2::rat) ^ m \<le> 2 ^ n" if "m \<le> n" for m n :: nat using that by simp
  ultimately show ?thesis
    unfolding delays_ok_def sample_lib_def
    by (simp add: default_policy_def)
qed

theorem backoff_within_bounds_witness:
  "min (base_delay default_policy) (max_delay default_policy) \<le> backoff_for sample_lib default_policy 4 [] [] \<and>
   backoff_for sample_lib default_policy 4 [] [] \<le> fmul 5 max_multiplier"
proof -
  have "max_delay default_policy = 5" by (simp add: default_policy_def)
  with backoff_within_bounds [OF sample_delays, of 4 "[]" "[]"] show ?thesis by metis
qed

end
