(* ===== verification/Counter_Service.thy ===== *)
theory Counter_Service
  imports Counter_Rules
begin

text \<open>
  \<^verbatim>\<open>phase2_counter_service\<close>: validation, the SQL repository and the assignment service. The
  database is the table of students (national id and counter, the id being the primary key, the counter unique
  and under a check constraint) and the table of sequences. A session is a transaction: it works on a copy
  that \<^verbatim>\<open>commit\<close> installs and \<^verbatim>\<open>rollback\<close> drops. Transactions are serial (the row locks of the code); the
  repository's own fault injector stands for integrity errors caused by other writers. An
  error is its machine code. The meters are a log of events; the logger and the hash of the id are not modelled.
\<close>

section \<open>Validation\<close>

datatype svc_code =
    E_INVALID_NID | E_INVALID_GENDER | E_YEAR_CODE_INVALID | E_DB_CONFLICT | E_COUNTER_EXHAUSTED

definition COUNTER_MAX_SEQ :: int where
  "COUNTER_MAX_SEQ = 9999"

definition persian_digit :: "int \<Rightarrow> int" where
  "persian_digit c = (if 1776 \<le> c \<and> c \<le> 1785 then c - 1728 else c)"

definition svc_normalize :: "ucd \<Rightarrow> pystr \<Rightarrow> pystr" where
  "svc_normalize U text = py_strip (remove_chars [8203, 65279] (map persian_digit (u_nfkc U text)))"

definition decimals :: "nat \<Rightarrow> pystr \<Rightarrow> bool" where
  "decimals n s \<longleftrightarrow> length s = n \<and> list_all decimal_char s"

definition ensure_valid_inputs :: "ucd \<Rightarrow> pystr \<Rightarrow> int \<Rightarrow> pystr \<Rightarrow> svc_code + pystr \<times> pystr" where
  "ensure_valid_inputs U national_id gender year_code =
     (let nid = svc_normalize U national_id; year = svc_normalize U year_code
      in if \<not> decimals 10 nid then Inl E_INVALID_NID
         else if gender_prefix gender = None then Inl E_INVALID_GENDER
         else if \<not> decimals 2 year then Inl E_YEAR_CODE_INVALID
         else Inr (nid, year))"

definition ensure_counter_format :: "ucd \<Rightarrow> pystr \<Rightarrow> svc_code + pystr" where
  "ensure_counter_format U counter =
     (case validate_counter (Some (svc_normalize U counter)) of
        Some c \<Rightarrow> Inr c | None \<Rightarrow> Inl E_COUNTER_EXHAUSTED)"

definition ensure_sequence_bounds :: "int \<Rightarrow> svc_code + int" where
  "ensure_sequence_bounds seq =
     (if \<not> (1 \<le> seq \<and> seq \<le> COUNTER_MAX_SEQ) then Inl E_COUNTER_EXHAUSTED else Inr seq)"

definition prefix_of :: "int \<Rightarrow> pystr" where
  "prefix_of gender = (if gender = 0 then prefix_female else prefix_male)"

section \<open>The repository\<close>

record counter_db =
  cdb_students :: "(pystr \<times> pystr option) list"
  cdb_seqs :: "pystr \<times> pystr \<Rightarrow> int option"

datatype conflict = conflict_national_id | conflict_counter | conflict_sequence

datatype tx_failure = ServiceError svc_code | IntegrityError conflict

record FaultInjector =
  duplicate_counter :: nat
  duplicate_national_id :: nat
  sequence_race :: nat

definition raise_sequence_race :: "FaultInjector \<Rightarrow> bool \<times> FaultInjector" where
  "raise_sequence_race F = (0 < sequence_race F, F\<lparr>sequence_race := sequence_race F - 1\<rparr>)"

definition raise_duplicate_national_id :: "FaultInjector \<Rightarrow> bool \<times> FaultInjector" where
  "raise_duplicate_national_id F =
     (0 < duplicate_national_id F, F\<lparr>duplicate_national_id := duplicate_national_id F - 1\<rparr>)"

definition raise_duplicate_counter :: "FaultInjector \<Rightarrow> bool \<times> FaultInjector" where
  "raise_duplicate_counter F = (0 < duplicate_counter F, F\<lparr>duplicate_counter := duplicate_counter F - 1\<rparr>)"

text \<open>
  The constraints of the counter column: unique, nine characters, the first an ASCII digit
  (\<^verbatim>\<open>GLOB '[0-9]*'\<close> constrains no other), one of the two prefixes.
\<close>

definition counter_column_ok :: "counter_db \<Rightarrow> pystr \<Rightarrow> pystr \<Rightarrow> bool" where
  "counter_column_ok D nid c \<longleftrightarrow>
     list_all (\<lambda>r. fst r = nid \<or> snd r \<noteq> Some c) (cdb_students D) \<and>
     length c = 9 \<and> ascii_digits (take 1 c) \<and>
     (take 3 (drop 2 c) = prefix_male \<or> take 3 (drop 2 c) = prefix_female)"

definition set_student_counter :: "pystr \<Rightarrow> pystr \<Rightarrow> counter_db \<Rightarrow> counter_db" where
  "set_student_counter nid c D =
     D\<lparr>cdb_students := map (\<lambda>r. if fst r = nid then (nid, Some c) else r) (cdb_students D)\<rparr>"

definition bump_sequence ::
  "counter_db \<Rightarrow> FaultInjector \<Rightarrow> pystr \<times> pystr \<Rightarrow> int \<Rightarrow> (tx_failure + int \<times> counter_db) \<times> FaultInjector" where
  "bump_sequence D F k last_seq =
     (case ensure_sequence_bounds (last_seq + 1) of
        Inl e \<Rightarrow> (Inl (ServiceError e), F)
      | Inr v \<Rightarrow>
          (let (raised, F') = raise_duplicate_national_id F
           in if raised then (Inl (IntegrityError conflict_national_id), F')
              else (Inr (v, D\<lparr>cdb_seqs := (cdb_seqs D)(k := Some v)\<rparr>), F')))"

fun next_sequence ::
  "nat \<Rightarrow> counter_db \<Rightarrow> FaultInjector \<Rightarrow> pystr \<times> pystr \<Rightarrow> (tx_failure + int \<times> counter_db) \<times> FaultInjector" where
  "next_sequence 0 D F k = (Inl (ServiceError E_DB_CONFLICT), F)"
| "next_sequence (Suc n) D F k =
     (case cdb_seqs D k of
        Some v \<Rightarrow> bump_sequence D F k v
      | None \<Rightarrow>
          (let (raised, F') = raise_sequence_race F
           in if raised then (Inl (IntegrityError conflict_sequence), F')
              else let D' = D\<lparr>cdb_seqs := (cdb_seqs D)(k := Some 0)\<rparr>
                   in case cdb_seqs D' k of
                        None \<Rightarrow> next_sequence n D' F' k
                      | Some v \<Rightarrow> bump_sequence D' F' k v))"

definition reserve_once ::
  "ucd \<Rightarrow> nat \<Rightarrow> pystr \<Rightarrow> int \<Rightarrow> pystr \<Rightarrow> counter_db \<Rightarrow> FaultInjector
   \<Rightarrow> (tx_failure + pystr \<times> counter_db) \<times> FaultInjector" where
  "reserve_once U tries nid gender year D F =
     (case map_of (cdb_students D) nid of
        None \<Rightarrow> (Inl (ServiceError E_INVALID_NID), F)
      | Some stored \<Rightarrow>
          (case stored of
             Some (ch # cs) \<Rightarrow>
               (case ensure_counter_format U (ch # cs) of
                  Inl e \<Rightarrow> (Inl (ServiceError e), F) | Inr c \<Rightarrow> (Inr (c, D), F))
           | _ \<Rightarrow>
               (case next_sequence tries D F (year, prefix_of gender) of
                  (Inl e, F') \<Rightarrow> (Inl e, F')
                | (Inr (seq, D'), F') \<Rightarrow>
                    (case rbind (ensure_sequence_bounds seq)
                            (\<lambda>s. ensure_counter_format U (year @ prefix_of gender @ fmt_0d 4 s)) of
                       Inl e \<Rightarrow> (Inl (ServiceError e), F')
                     | Inr counter \<Rightarrow>
                         (let (raised, F'') = raise_duplicate_counter F'
                          in if raised \<or> \<not> counter_column_ok D' nid counter
                             then (Inl (IntegrityError conflict_counter), F'')
                             else (Inr (counter, set_student_counter nid counter D'), F''))))))"

definition fetch_student_counter :: "ucd \<Rightarrow> counter_db \<Rightarrow> pystr \<Rightarrow> svc_code + pystr option" where
  "fetch_student_counter U D nid =
     (case map_of (cdb_students D) nid of
        Some (Some (ch # cs)) \<Rightarrow> rbind (ensure_counter_format U (ch # cs)) (\<lambda>c. Inr (Some c))
      | _ \<Rightarrow> Inr None)"

text \<open>
  \<^verbatim>\<open>reserve_and_bind\<close>: \<open>left\<close> is \<^verbatim>\<open>max_retries - attempt\<close>, cut at zero. The list collects the
  arguments of \<^verbatim>\<open>on_conflict\<close>.
\<close>

record reservation =
  rv_result :: "svc_code + pystr"
  rv_db :: counter_db
  rv_faults :: FaultInjector
  rv_conflicts :: "conflict list"

fun reserve_loop ::
  "ucd \<Rightarrow> nat \<Rightarrow> bool \<Rightarrow> nat \<Rightarrow> pystr \<Rightarrow> int \<Rightarrow> pystr \<Rightarrow> counter_db \<Rightarrow> FaultInjector \<Rightarrow> conflict list \<Rightarrow> reservation"
where
  "reserve_loop U tries retry left nid gender year D F seen =
     (case reserve_once U tries nid gender year D F of
        (Inr (counter, D'), F') \<Rightarrow>
          \<lparr>rv_result = Inr counter, rv_db = D', rv_faults = F', rv_conflicts = seen\<rparr>
      | (Inl (ServiceError e), F') \<Rightarrow>
          \<lparr>rv_result = Inl e, rv_db = D, rv_faults = F', rv_conflicts = seen\<rparr>
      | (Inl (IntegrityError k), F') \<Rightarrow>
          (case (retry, left) of
             (True, Suc left') \<Rightarrow>
               (case fetch_student_counter U D nid of
                  Inl e \<Rightarrow> \<lparr>rv_result = Inl e, rv_db = D, rv_faults = F', rv_conflicts = seen @ [k]\<rparr>
                | Inr (Some existing) \<Rightarrow>
                    \<lparr>rv_result = Inr existing, rv_db = D, rv_faults = F', rv_conflicts = seen @ [k]\<rparr>
                | Inr None \<Rightarrow> reserve_loop U tries retry left' nid gender year D F' (seen @ [k]))
           | _ \<Rightarrow> \<lparr>rv_result = Inl E_DB_CONFLICT, rv_db = D, rv_faults = F', rv_conflicts = seen @ [k]\<rparr>))"

definition reserve_and_bind ::
  "ucd \<Rightarrow> int \<Rightarrow> bool \<Rightarrow> pystr \<Rightarrow> int \<Rightarrow> pystr \<Rightarrow> counter_db \<Rightarrow> FaultInjector \<Rightarrow> reservation" where
  "reserve_and_bind U max_retries retry nid gender year D F =
     reserve_loop U (nat max_retries) retry (nat (max_retries - 1)) nid gender year D F []"

definition fetch_existing_counters ::
  "ucd \<Rightarrow> counter_db \<Rightarrow> pystr list \<Rightarrow> svc_code + (pystr \<times> pystr) list" where
  "fetch_existing_counters U D nids =
     rmap (\<lambda>r. rbind (ensure_counter_format U (the (snd r))) (\<lambda>c. Inr (fst r, c)))
       (filter (\<lambda>r. fst r \<in> set nids \<and> snd r \<noteq> None \<and> snd r \<noteq> Some []) (cdb_students D))"

section \<open>The service\<close>

datatype meter_event =
    ValidationError svc_code | Reuse int | SequenceExhausted pystr int | Failure svc_code
  | Conflict conflict | Success int | PrefixMismatch

definition audit_prefix :: "pystr \<Rightarrow> int \<Rightarrow> pystr \<Rightarrow> meter_event list" where
  "audit_prefix counter gender year =
     (if startswith counter (year @ prefix_of gender) then [] else [PrefixMismatch])"

record assignment =
  as_result :: "svc_code + pystr"
  as_db :: counter_db
  as_faults :: FaultInjector
  as_events :: "meter_event list"

definition assign_counter ::
  "ucd \<Rightarrow> int \<Rightarrow> pystr \<Rightarrow> int \<Rightarrow> pystr \<Rightarrow> counter_db \<Rightarrow> FaultInjector \<Rightarrow> assignment" where
  "assign_counter U max_retries national_id gender year_code D F =
     (let done = (\<lambda>r D' F' evs. \<lparr>as_result = r, as_db = D', as_faults = F', as_events = evs\<rparr>)
      in case ensure_valid_inputs U national_id gender year_code of
           Inl e \<Rightarrow> done (Inl e) D F [ValidationError e]
         | Inr (nid, year) \<Rightarrow>
             (case fetch_student_counter U D nid of
                Inl e \<Rightarrow> done (Inl e) D F []
              | Inr (Some existing) \<Rightarrow>
                  done (Inr existing) D F (audit_prefix existing gender year @ [Reuse gender])
              | Inr None \<Rightarrow>
                  (let r = reserve_and_bind U max_retries True nid gender year D F
                   in case rv_result r of
                        Inl e \<Rightarrow>
                          done (Inl e) (rv_db r) (rv_faults r)
                            [if e = E_COUNTER_EXHAUSTED then SequenceExhausted year gender else Failure e]
                      | Inr counter \<Rightarrow>
                          done (Inr counter) (rv_db r) (rv_faults r)
                            (audit_prefix counter gender year @
                             [if rv_conflicts r \<noteq> [] then Conflict (last (rv_conflicts r)) else Success gender]))))"

section \<open>Well-formed databases\<close>

definition counter_of :: "pystr \<times> pystr \<Rightarrow> int \<Rightarrow> pystr" where
  "counter_of k n = fst k @ snd k @ fmt_0d 4 n"

definition key_ok :: "pystr \<times> pystr \<Rightarrow> bool" where
  "key_ok k \<longleftrightarrow> ascii_digits (fst k) \<and> length (fst k) = 2 \<and> (snd k = prefix_male \<or> snd k = prefix_female)"

definition last_seq :: "counter_db \<Rightarrow> pystr \<times> pystr \<Rightarrow> int" where
  "last_seq D k = (case cdb_seqs D k of None \<Rightarrow> 0 | Some v \<Rightarrow> v)"

text \<open>
  Every sequence belongs to a year in ASCII digits and is within the bounds; every stored counter is one that
  its sequence has already given out; no two students share one.
\<close>

definition svc_inv :: "counter_db \<Rightarrow> bool" where
  "svc_inv D \<longleftrightarrow> distinct (map fst (cdb_students D)) \<and>
     (\<forall>k v. cdb_seqs D k = Some v \<longrightarrow> key_ok k \<and> 0 \<le> v \<and> v \<le> COUNTER_MAX_SEQ) \<and>
     (\<forall>n c. (n, Some c) \<in> set (cdb_students D) \<longrightarrow>
        (\<exists>k m. key_ok k \<and> 1 \<le> m \<and> m \<le> last_seq D k \<and> m \<le> COUNTER_MAX_SEQ \<and> c = counter_of k m)) \<and>
     (\<forall>n n' c. (n, Some c) \<in> set (cdb_students D) \<longrightarrow> (n', Some c) \<in> set (cdb_students D) \<longrightarrow> n = n')"

lemma prefix_facts:
  "ascii_digits prefix_male" "ascii_digits prefix_female" "length prefix_male = 3" "length prefix_female = 3"
  by (simp_all add: prefix_male_def prefix_female_def asc_def)

lemma prefix_of_cases: "prefix_of g = prefix_male \<or> prefix_of g = prefix_female"
  by (simp add: prefix_of_def)

lemma fmt_four: "1 \<le> n \<Longrightarrow> n \<le> COUNTER_MAX_SEQ \<Longrightarrow> length (fmt_0d 4 n) = 4 \<and> ascii_digits (fmt_0d 4 n)"
  using fmt_0d_length [of n 4] fmt_0d_digits [of n 4] by (simp add: COUNTER_MAX_SEQ_def)

lemma three_parts:
  "length a = 2 \<Longrightarrow> length b = 3 \<Longrightarrow> length c = 4 \<Longrightarrow>
   take 2 (a @ b @ c) = a \<and> take 3 (drop 2 (a @ b @ c)) = b \<and> drop 5 (a @ b @ c) = c \<and>
   length (a @ b @ c) = 9"
  by simp

lemma counter_of_format:
  assumes "key_ok k" "1 \<le> n" "n \<le> COUNTER_MAX_SEQ"
  shows "ascii_digits (counter_of k n)" "is_counter (counter_of k n)" "length (counter_of k n) = 9"
    "take 2 (counter_of k n) = fst k" "take 3 (drop 2 (counter_of k n)) = snd k"
    "drop 5 (counter_of k n) = fmt_0d 4 n"
proof -
  have k: "ascii_digits (fst k)" "length (fst k) = 2" "length (snd k) = 3" "ascii_digits (snd k)"
    using assms(1) prefix_facts by (auto simp: key_ok_def)
  note f = fmt_four [OF assms(2,3)]
  note parts = three_parts [OF k(2,3) conjunct1 [OF f], folded counter_of_def]
  show "take 2 (counter_of k n) = fst k" by (rule conjunct1 [OF parts])
  show "take 3 (drop 2 (counter_of k n)) = snd k" using parts by blast
  show "drop 5 (counter_of k n) = fmt_0d 4 n" using parts by blast
  show "length (counter_of k n) = 9" using parts by blast
  show "ascii_digits (counter_of k n)"
    unfolding counter_of_def ascii_digits_simps using k(1,4) conjunct2 [OF f] by blast
  show "is_counter (counter_of k n)"
    unfolding counter_of_def
    using assms(1) fmt_four [OF assms(2,3)] ascii_digits_decimal
    by (intro is_counter_build) (auto simp: key_ok_def)
qed

lemma counter_of_inj:
  assumes "key_ok k" "1 \<le> n" "n \<le> COUNTER_MAX_SEQ" "key_ok k'" "1 \<le> n'" "n' \<le> COUNTER_MAX_SEQ"
    and eq: "counter_of k n = counter_of k' n'"
  shows "k = k'" "n = n'"
proof -
  note f = counter_of_format [OF assms(1-3)] and f' = counter_of_format [OF assms(4-6)]
  show "k = k'" using f(4,5) f'(4,5) eq by (metis prod_eqI)
  have "fmt_0d 4 n = fmt_0d 4 n'" using f(6) f'(6) eq by metis
  then show "n = n'" using assms by (intro fmt_0d_inj [of n n' 4]) auto
qed

lemma ascii_digits_plain_chars:
  "ascii_digits s \<Longrightarrow> map persian_digit s = s \<and> remove_chars [8203, 65279] s = s \<and> py_strip s = s"
proof -
  assume a: "ascii_digits s"
  have "list_all (\<lambda>c. \<not> py_isspace c) s"
    using a by (auto simp: ascii_digits_def list_all_iff py_isspace_def)
  then have "py_strip s = s" by (simp add: py_strip_def strip_by_no_match)
  moreover have "map persian_digit s = s" using a by (induction s) (auto simp: persian_digit_def)
  moreover have "remove_chars [8203, 65279] s = s"
    using a by (auto simp: remove_chars_def filter_id_conv ascii_digits_def list_all_iff)
  ultimately show ?thesis by blast
qed

lemma svc_normalize_ascii: "ucd_ok U \<Longrightarrow> ascii_digits s \<Longrightarrow> svc_normalize U s = s"
  using ascii_digits_plain_chars [of s]
  by (simp add: svc_normalize_def ucd_ok_nfkc is_ascii_nfkc_stable ascii_digits_ascii)

lemma ensure_counter_format_ascii:
  "ucd_ok U \<Longrightarrow> ascii_digits c \<Longrightarrow> is_counter c \<Longrightarrow> ensure_counter_format U c = Inr c"
  by (simp add: ensure_counter_format_def svc_normalize_ascii validate_counter_ascii)

lemma ensure_counter_of:
  "ucd_ok U \<Longrightarrow> key_ok k \<Longrightarrow> 1 \<le> n \<Longrightarrow> n \<le> COUNTER_MAX_SEQ \<Longrightarrow>
   ensure_counter_format U (counter_of k n) = Inr (counter_of k n)"
  by (simp add: ensure_counter_format_ascii counter_of_format)

lemma counter_of_column:
  assumes "key_ok k" "1 \<le> n" "n \<le> COUNTER_MAX_SEQ"
    and "\<And>m. (m, Some (counter_of k n)) \<notin> set (cdb_students D)"
  shows "counter_column_ok D nid (counter_of k n)"
proof -
  have "ascii_digits (take 1 (counter_of k n))"
    using counter_of_format(1) [OF assms(1-3)] by simp
  then show ?thesis
    using counter_of_format [OF assms(1-3)] assms(1,4)
    by (auto simp: counter_column_ok_def list_all_iff key_ok_def)
qed

lemma svc_invD:
  assumes "svc_inv D"
  shows "distinct (map fst (cdb_students D))"
    "cdb_seqs D k = Some v \<Longrightarrow> key_ok k \<and> 0 \<le> v \<and> v \<le> COUNTER_MAX_SEQ"
    "(n, Some c) \<in> set (cdb_students D) \<Longrightarrow>
       \<exists>k m. key_ok k \<and> 1 \<le> m \<and> m \<le> last_seq D k \<and> m \<le> COUNTER_MAX_SEQ \<and> c = counter_of k m"
    "(n, Some c) \<in> set (cdb_students D) \<Longrightarrow> (n', Some c) \<in> set (cdb_students D) \<Longrightarrow> n = n'"
  using assms unfolding svc_inv_def by blast+

lemma inv_stored:
  assumes "svc_inv D" "map_of (cdb_students D) nid = Some (Some c)" "ucd_ok U"
  shows "ensure_counter_format U c = Inr c" "c \<noteq> []"
proof -
  have "(nid, Some c) \<in> set (cdb_students D)" using assms(2) by (rule map_of_SomeD)
  then obtain k m where "key_ok k" "1 \<le> m" "m \<le> COUNTER_MAX_SEQ" "c = counter_of k m"
    using svc_invD(3) [OF assms(1)] by blast
  then show "ensure_counter_format U c = Inr c" "c \<noteq> []"
    using ensure_counter_of [OF assms(3)] counter_of_format(3) [of k m] by auto
qed

section \<open>One transaction\<close>

definition fault_total :: "FaultInjector \<Rightarrow> nat" where
  "fault_total F = duplicate_counter F + duplicate_national_id F + sequence_race F"

definition assigned_db :: "counter_db \<Rightarrow> pystr \<Rightarrow> pystr \<times> pystr \<Rightarrow> counter_db" where
  "assigned_db D nid k =
     set_student_counter nid (counter_of k (last_seq D k + 1))
       (D\<lparr>cdb_seqs := (cdb_seqs D)(k := Some (last_seq D k + 1))\<rparr>)"

lemma bump_sequence_cases:
  "bump_sequence D F k v =
     (if v + 1 < 1 \<or> COUNTER_MAX_SEQ < v + 1 then (Inl (ServiceError E_COUNTER_EXHAUSTED), F)
      else if 0 < duplicate_national_id F
      then (Inl (IntegrityError conflict_national_id), F\<lparr>duplicate_national_id := duplicate_national_id F - 1\<rparr>)
      else (Inr (v + 1, D\<lparr>cdb_seqs := (cdb_seqs D)(k := Some (v + 1))\<rparr>), F))"
  by (auto simp: bump_sequence_def ensure_sequence_bounds_def raise_duplicate_national_id_def Let_def)

lemma next_sequence_outcome:
  assumes "0 < n" "0 \<le> last_seq D k"
  shows "(\<exists>c F'. next_sequence n D F k = (Inl (IntegrityError c), F') \<and> fault_total F' < fault_total F) \<or>
    next_sequence n D F k =
      (if COUNTER_MAX_SEQ < last_seq D k + 1 then Inl (ServiceError E_COUNTER_EXHAUSTED)
       else Inr (last_seq D k + 1, D\<lparr>cdb_seqs := (cdb_seqs D)(k := Some (last_seq D k + 1))\<rparr>), F)"
proof -
  obtain n' where n: "n = Suc n'" using assms(1) by (cases n) auto
  show ?thesis
  proof (cases "cdb_seqs D k")
    case None
    show ?thesis
    proof (cases "0 < sequence_race F")
      case True
      then show ?thesis by (simp add: n None raise_sequence_race_def Let_def fault_total_def)
    next
      case False
      then have "F\<lparr>sequence_race := sequence_race F - 1\<rparr> = F" by simp
      with False show ?thesis
        by (auto simp: n None raise_sequence_race_def Let_def bump_sequence_cases last_seq_def fault_total_def)
    qed
  next
    case (Some v)
    then show ?thesis using assms(2) by (auto simp: n bump_sequence_cases last_seq_def fault_total_def)
  qed
qed

lemma key_of_inputs: "ascii_digits y \<Longrightarrow> length y = 2 \<Longrightarrow> key_ok (y, prefix_of g)"
  using prefix_of_cases by (simp add: key_ok_def)

lemma last_seq_range: "svc_inv D \<Longrightarrow> 0 \<le> last_seq D k \<and> last_seq D k \<le> COUNTER_MAX_SEQ"
  using svc_invD(2) [of D k] by (auto simp: last_seq_def COUNTER_MAX_SEQ_def split: option.splits)

lemma next_counter_unused:
  assumes inv: "svc_inv D" and k: "key_ok k" and room: "last_seq D k < COUNTER_MAX_SEQ"
  shows "(m, Some (counter_of k (last_seq D k + 1))) \<notin> set (cdb_students D)"
proof
  assume "(m, Some (counter_of k (last_seq D k + 1))) \<in> set (cdb_students D)"
  then obtain k' j where j: "key_ok k'" "1 \<le> j" "j \<le> last_seq D k'" "j \<le> COUNTER_MAX_SEQ"
      "counter_of k (last_seq D k + 1) = counter_of k' j"
    using svc_invD(3) [OF inv] by blast
  have b: "1 \<le> last_seq D k + 1" "last_seq D k + 1 \<le> COUNTER_MAX_SEQ"
    using last_seq_range [OF inv, of k] room by auto
  have "k = k'" "last_seq D k + 1 = j" using counter_of_inj [OF k b j(1,2,4,5)] by blast+
  then show False using j(3) by simp
qed

lemma fault_total_counter:
  "raise_duplicate_counter F = (b, F') \<Longrightarrow> fault_total F' \<le> fault_total F \<and> (b \<longrightarrow> fault_total F' < fault_total F)
     \<and> (\<not> b \<longrightarrow> F' = F)"
  by (auto simp: raise_duplicate_counter_def fault_total_def)

lemma reserve_once_fresh:
  fixes g :: int
  assumes U: "ucd_ok U" and inv: "svc_inv D" and nid: "map_of (cdb_students D) nid = Some None"
    and y: "ascii_digits y" "length y = 2" and n: "0 < n"
  defines "k \<equiv> (y, prefix_of g)"
  shows "(\<exists>c F'. reserve_once U n nid g y D F = (Inl (IntegrityError c), F') \<and> fault_total F' < fault_total F) \<or>
    reserve_once U n nid g y D F =
      (if last_seq D k = COUNTER_MAX_SEQ then Inl (ServiceError E_COUNTER_EXHAUSTED)
       else Inr (counter_of k (last_seq D k + 1), assigned_db D nid k), F)"
proof -
  have k: "key_ok k" unfolding k_def using y by (rule key_of_inputs)
  note range = last_seq_range [OF inv, of k]
  let ?v = "last_seq D k + 1" and ?D = "D\<lparr>cdb_seqs := (cdb_seqs D)(k := Some (last_seq D k + 1))\<rparr>"
  show ?thesis
  proof (cases "\<exists>c F'. next_sequence n D F k = (Inl (IntegrityError c), F') \<and> fault_total F' < fault_total F")
    case True
    then show ?thesis by (auto simp: reserve_once_def nid k_def)
  next
    case False
    then have nxt: "next_sequence n D F k =
        (if COUNTER_MAX_SEQ < ?v then Inl (ServiceError E_COUNTER_EXHAUSTED) else Inr (?v, ?D), F)"
      using next_sequence_outcome [OF n, of D k F] range by blast
    show ?thesis
    proof (cases "last_seq D k = COUNTER_MAX_SEQ")
      case True
      then show ?thesis using nxt by (simp add: reserve_once_def nid k_def)
    next
      case room: False
      then have b: "1 \<le> ?v" "?v \<le> COUNTER_MAX_SEQ" using range by auto
      have fmt: "rbind (ensure_sequence_bounds ?v) (\<lambda>s. ensure_counter_format U (y @ prefix_of g @ fmt_0d 4 s))
          = Inr (counter_of k ?v)"
        using ensure_counter_of [OF U k b] b by (simp add: ensure_sequence_bounds_def counter_of_def k_def)
      have col: "counter_column_ok ?D nid (counter_of k ?v)"
        using counter_of_column [OF k b, of ?D nid] next_counter_unused [OF inv k] b by simp
      obtain r F' where r: "raise_duplicate_counter F = (r, F')" by (cases "raise_duplicate_counter F")
      have "reserve_once U n nid g y D F =
          (if r then Inl (IntegrityError conflict_counter)
           else Inr (counter_of k ?v, assigned_db D nid k), F')"
        using nxt room b fmt col r
        by (simp add: reserve_once_def nid k_def [symmetric] assigned_db_def del: rbind_Inr_iff)
      then show ?thesis using fault_total_counter [OF r] room by (cases r) auto
    qed
  qed
qed

lemma assigned_students:
  "(m, Some c) \<in> set (cdb_students (assigned_db D nid k)) \<Longrightarrow>
     m = nid \<and> c = counter_of k (last_seq D k + 1) \<or> m \<noteq> nid \<and> (m, Some c) \<in> set (cdb_students D)"
  by (auto simp: assigned_db_def set_student_counter_def split: if_splits)

lemma assigned_last_seq [simp]:
  "last_seq (assigned_db D nid k) k' = (if k' = k then last_seq D k + 1 else last_seq D k')"
  by (simp add: assigned_db_def set_student_counter_def last_seq_def)

lemma assigned_map_of:
  "map_of (cdb_students (assigned_db D nid k)) m =
     (if m = nid then map_option (\<lambda>c. Some (counter_of k (last_seq D k + 1))) (map_of (cdb_students D) nid)
      else map_of (cdb_students D) m)"
proof -
  have "map_of (map (\<lambda>r. if fst r = nid then (nid, x) else r) xs) m =
      (if m = nid then map_option (\<lambda>c. x) (map_of xs nid) else map_of xs m)" for x xs
    by (induction xs) auto
  note upd = this
  show ?thesis by (simp add: assigned_db_def set_student_counter_def upd)
qed

lemma assigned_db_inv:
  assumes inv: "svc_inv D" and k: "key_ok k" and room: "last_seq D k < COUNTER_MAX_SEQ"
  shows "svc_inv (assigned_db D nid k)"
proof -
  let ?D = "assigned_db D nid k"
  note range = last_seq_range [OF inv, of k]
  have "map fst (cdb_students ?D) = map fst (cdb_students D)"
    by (simp add: assigned_db_def set_student_counter_def)
  then have "distinct (map fst (cdb_students ?D))" using svc_invD(1) [OF inv] by simp
  moreover have "key_ok j \<and> 0 \<le> v \<and> v \<le> COUNTER_MAX_SEQ" if "cdb_seqs ?D j = Some v" for j v
    using that svc_invD(2) [OF inv, of j v] k range room
    by (auto simp: assigned_db_def set_student_counter_def split: if_splits)
  moreover have "\<exists>j m. key_ok j \<and> 1 \<le> m \<and> m \<le> last_seq ?D j \<and> m \<le> COUNTER_MAX_SEQ \<and> c = counter_of j m"
    if row: "(n, Some c) \<in> set (cdb_students ?D)" for n c
  proof (cases "n = nid")
    case True
    then show ?thesis using assigned_students [OF row] k range room
      by (intro exI [of _ k] exI [of _ "last_seq D k + 1"]) auto
  next
    case False
    then obtain j m where "key_ok j" "1 \<le> m" "m \<le> last_seq D j" "m \<le> COUNTER_MAX_SEQ" "c = counter_of j m"
      using assigned_students [OF row] svc_invD(3) [OF inv] by blast
    then show ?thesis by (intro exI [of _ j] exI [of _ m]) auto
  qed
  moreover have "n = n'" if "(n, Some c) \<in> set (cdb_students ?D)" "(n', Some c) \<in> set (cdb_students ?D)" for n n' c
    using assigned_students [OF that(1)] assigned_students [OF that(2)] next_counter_unused [OF inv k room]
      svc_invD(4) [OF inv] by blast
  ultimately show ?thesis unfolding svc_inv_def by blast
qed

section \<open>The retry loop and the service\<close>

definition fresh_outcome :: "counter_db \<Rightarrow> pystr \<Rightarrow> pystr \<times> pystr \<Rightarrow> svc_code + pystr \<Rightarrow> counter_db \<Rightarrow> bool" where
  "fresh_outcome D nid k result D' \<longleftrightarrow>
     (if last_seq D k = COUNTER_MAX_SEQ then result = Inl E_COUNTER_EXHAUSTED \<and> D' = D
      else result = Inr (counter_of k (last_seq D k + 1)) \<and> D' = assigned_db D nid k)"

lemma reserve_loop_outcome:
  assumes "ucd_ok U" "svc_inv D" "map_of (cdb_students D) nid = Some None" "ascii_digits y" "length y = 2" "0 < n"
  shows "r = reserve_loop U n True left nid g y D F seen \<Longrightarrow>
    (fresh_outcome D nid (y, prefix_of g) (rv_result r) (rv_db r) \<or>
     rv_result r = Inl E_DB_CONFLICT \<and> rv_db r = D \<and> left < fault_total F) \<and>
    length (rv_conflicts r) \<le> length seen + left + 1"
proof (induction left arbitrary: F seen)
  case 0
  then show ?case using reserve_once_fresh [OF assms, of g F]
    by (auto simp: fresh_outcome_def split: if_splits)
next
  case (Suc left)
  consider (fault) c F' where "reserve_once U n nid g y D F = (Inl (IntegrityError c), F')" "fault_total F' < fault_total F"
    | (clean) "reserve_once U n nid g y D F =
      (if last_seq D (y, prefix_of g) = COUNTER_MAX_SEQ then Inl (ServiceError E_COUNTER_EXHAUSTED)
       else Inr (counter_of (y, prefix_of g) (last_seq D (y, prefix_of g) + 1), assigned_db D nid (y, prefix_of g)), F)"
    using reserve_once_fresh [OF assms, of g F] by blast
  then show ?case
  proof cases
    case fault
    have "fetch_student_counter U D nid = Inr None" by (simp add: fetch_student_counter_def assms(3))
    then have "r = reserve_loop U n True left nid g y D F' (seen @ [c])"
      using Suc.prems fault(1) by simp
    from Suc.IH [OF this] fault(2) show ?thesis by auto
  next
    case clean
    then show ?thesis using Suc.prems by (auto simp: fresh_outcome_def split: if_splits)
  qed
qed

lemma reserve_loop_missing:
  "map_of (cdb_students D) nid = None \<Longrightarrow>
   reserve_loop U n True left nid g y D F seen =
     \<lparr>rv_result = Inl E_INVALID_NID, rv_db = D, rv_faults = F, rv_conflicts = seen\<rparr>"
  by (cases left) (simp_all add: reserve_once_def)

lemma assign_counter_cases:
  assumes U: "ucd_ok U" and inv: "svc_inv D" and inputs: "ensure_valid_inputs U n0 g y0 = Inr (nid, y)"
    and y: "ascii_digits y" and retries: "1 \<le> max_retries"
    and r: "r = assign_counter U max_retries n0 g y0 D F"
  shows "case map_of (cdb_students D) nid of
      None \<Rightarrow> as_result r = Inl E_INVALID_NID \<and> as_db r = D
    | Some (Some c) \<Rightarrow> as_result r = Inr c \<and> as_db r = D
    | Some None \<Rightarrow> fresh_outcome D nid (y, prefix_of g) (as_result r) (as_db r) \<or>
        as_result r = Inl E_DB_CONFLICT \<and> as_db r = D \<and> max_retries \<le> int (fault_total F)"
proof -
  have len: "length y = 2" using inputs by (auto simp: ensure_valid_inputs_def Let_def decimals_def split: if_splits)
  show ?thesis
  proof (cases "map_of (cdb_students D) nid")
    case None
    then show ?thesis
      using r inputs
      by (simp add: assign_counter_def fetch_student_counter_def reserve_and_bind_def reserve_loop_missing Let_def
          del: reserve_loop.simps)
  next
    case (Some stored)
    show ?thesis
    proof (cases stored)
      case None
      let ?r = "reserve_and_bind U max_retries True nid g y D F"
      have out: "fresh_outcome D nid (y, prefix_of g) (rv_result ?r) (rv_db ?r) \<or>
          rv_result ?r = Inl E_DB_CONFLICT \<and> rv_db ?r = D \<and> nat (max_retries - 1) < fault_total F"
        using reserve_loop_outcome [OF U inv Some [unfolded None] y len, of "nat max_retries" ?r] retries
        by (simp add: reserve_and_bind_def)
      have "fetch_student_counter U D nid = Inr None" using Some None by (simp add: fetch_student_counter_def)
      then have "as_result r = rv_result ?r \<and> as_db r = rv_db ?r"
        using r inputs by (simp add: assign_counter_def Let_def split: sum.splits)
      then show ?thesis using out retries Some None by auto
    next
      case (Some c)
      note c = inv_stored [OF inv \<open>map_of (cdb_students D) nid = Some stored\<close> [unfolded Some] U]
      then have "fetch_student_counter U D nid = Inr (Some c)"
        using \<open>map_of (cdb_students D) nid = Some stored\<close> Some
        by (cases c) (simp_all add: fetch_student_counter_def)
      then show ?thesis
        using r inputs \<open>map_of (cdb_students D) nid = Some stored\<close> Some by (simp add: assign_counter_def)
    qed
  qed
qed

lemma assign_counter_steps:
  assumes "ucd_ok U" "svc_inv D" "1 \<le> max_retries"
    and year: "\<And>nid y. ensure_valid_inputs U n0 g y0 = Inr (nid, y) \<Longrightarrow> ascii_digits y"
    and r: "r = assign_counter U max_retries n0 g y0 D F"
  shows "as_db r = D \<or>
    (\<exists>nid k. key_ok k \<and> last_seq D k < COUNTER_MAX_SEQ \<and> map_of (cdb_students D) nid = Some None \<and>
       as_db r = assigned_db D nid k)"
proof (cases "ensure_valid_inputs U n0 g y0")
  case (Inl e)
  then show ?thesis using r by (simp add: assign_counter_def)
next
  case (Inr p)
  obtain nid y where p: "p = (nid, y)" by (cases p)
  have inputs: "ensure_valid_inputs U n0 g y0 = Inr (nid, y)" using Inr p by simp
  have "key_ok (y, prefix_of g)"
    using inputs year [OF inputs] key_of_inputs
    by (auto simp: ensure_valid_inputs_def Let_def decimals_def split: if_splits)
  moreover have "last_seq D (y, prefix_of g) \<le> COUNTER_MAX_SEQ" using last_seq_range [OF assms(2)] by blast
  moreover have "as_db r = D \<or> map_of (cdb_students D) nid = Some None \<and>
      last_seq D (y, prefix_of g) \<noteq> COUNTER_MAX_SEQ \<and> as_db r = assigned_db D nid (y, prefix_of g)"
    using assign_counter_cases [OF assms(1,2) inputs year [OF inputs] assms(3) r]
    by (auto simp: fresh_outcome_def split: option.splits if_splits)
  ultimately show ?thesis using le_neq_trans by blast
qed

text \<open>
  C6 counter_assignment_spec: on a well-formed database, for valid inputs whose year is in ASCII digits,
  with fewer injected integrity errors than attempts: an unknown student is E_INVALID_NID; a student
  with a counter gets that counter; otherwise the student gets the year, the prefix of the gender and
  the next number of that sequence, exactly that number is taken and nothing else changes, or, when 9999 was
  the last, the call fails with E_COUNTER_EXHAUSTED. Every failure leaves the database as it was.
\<close>

theorem counter_assignment_spec:
  assumes "ucd_ok U" "svc_inv D" "ensure_valid_inputs U n0 g y0 = Inr (nid, y)" "ascii_digits y"
    and "int (fault_total F) < max_retries" "r = assign_counter U max_retries n0 g y0 D F"
  shows "case map_of (cdb_students D) nid of
      None \<Rightarrow> as_result r = Inl E_INVALID_NID \<and> as_db r = D
    | Some (Some c) \<Rightarrow> as_result r = Inr c \<and> as_db r = D
    | Some None \<Rightarrow>
        if last_seq D (y, prefix_of g) = 9999 then as_result r = Inl E_COUNTER_EXHAUSTED \<and> as_db r = D
        else let n = last_seq D (y, prefix_of g) + 1; c = y @ prefix_of g @ fmt_0d 4 n
             in as_result r = Inr c \<and>
                map_of (cdb_students (as_db r)) = (map_of (cdb_students D))(nid \<mapsto> Some c) \<and>
                cdb_seqs (as_db r) = (cdb_seqs D)((y, prefix_of g) \<mapsto> n)"
proof -
  have "1 \<le> max_retries" using assms(5) by simp
  note cases = assign_counter_cases [OF assms(1-4) this assms(6)]
  show ?thesis
  proof (cases "map_of (cdb_students D) nid = Some None")
    case True
    then have "fresh_outcome D nid (y, prefix_of g) (as_result r) (as_db r)" using cases assms(5) by auto
    moreover have "map_of (cdb_students (assigned_db D nid k)) =
        (map_of (cdb_students D))(nid \<mapsto> Some (counter_of k (last_seq D k + 1)))" for k
      using True by (auto simp: assigned_map_of)
    moreover have "cdb_seqs (assigned_db D nid k) = (cdb_seqs D)(k \<mapsto> last_seq D k + 1)" for k
      by (simp add: assigned_db_def set_student_counter_def)
    ultimately show ?thesis
      using True by (simp add: fresh_outcome_def COUNTER_MAX_SEQ_def counter_of_def Let_def)
  next
    case False
    then show ?thesis using cases by (auto split: option.splits)
  qed
qed

definition sample_counter_db :: counter_db where
  "sample_counter_db =
     \<lparr>cdb_students = [(asc ''0000000001'', Some (asc ''033730007'')), (asc ''0000000002'', None)],
      cdb_seqs = [(asc ''03'', asc ''373'') \<mapsto> 7]\<rparr>"

definition no_faults :: FaultInjector where
  "no_faults = \<lparr>duplicate_counter = 0, duplicate_national_id = 0, sequence_race = 0\<rparr>"

lemma sample_counter_inv: "svc_inv sample_counter_db"
proof -
  have c: "asc ''033730007'' = counter_of (asc ''03'', asc ''373'') 7" by code_simp
  have k: "key_ok (asc ''03'', asc ''373'')" by (simp add: key_ok_def prefix_female_def asc_def)
  have l: "last_seq sample_counter_db (asc ''03'', asc ''373'') = 7"
    by (simp add: last_seq_def sample_counter_db_def)
  have "\<exists>k m. key_ok k \<and> 1 \<le> m \<and> m \<le> last_seq sample_counter_db k \<and> m \<le> COUNTER_MAX_SEQ \<and>
      asc ''033730007'' = counter_of k m"
    using c k l by (intro exI [of _ "(asc ''03'', asc ''373'')"] exI [of _ 7]) (simp add: COUNTER_MAX_SEQ_def)
  then show ?thesis
    unfolding svc_inv_def using k
    by (auto simp: sample_counter_db_def COUNTER_MAX_SEQ_def asc_def split: if_splits)
qed

theorem counter_assignment_spec_witness:
  "as_result (assign_counter ascii_ucd 3 (asc '' 0000000002'') 0 (asc ''03'') sample_counter_db
     (no_faults\<lparr>duplicate_counter := 2\<rparr>)) = Inr (asc ''033730008'')"
proof -
  have i: "ensure_valid_inputs ascii_ucd (asc '' 0000000002'') 0 (asc ''03'') = Inr (asc ''0000000002'', asc ''03'')"
    "ascii_digits (asc ''03'')"
    by code_simp+
  have f: "int (fault_total (no_faults\<lparr>duplicate_counter := 2\<rparr>)) < 3"
    by (simp add: fault_total_def no_faults_def)
  have s: "map_of (cdb_students sample_counter_db) (asc ''0000000002'') = Some None"
    "last_seq sample_counter_db (asc ''03'', prefix_of 0) = 7"
    "asc ''03'' @ prefix_of 0 @ fmt_0d 4 8 = asc ''033730008''"
    by code_simp+
  show ?thesis
    using counter_assignment_spec [OF ascii_ucd_ok sample_counter_inv i f refl] by (simp add: s Let_def)
qed

section \<open>Runs\<close>

text \<open>Any number of calls, each with its own faults injected before it.\<close>

type_synonym counter_call = "pystr \<times> int \<times> pystr \<times> FaultInjector"

fun assign_all :: "ucd \<Rightarrow> int \<Rightarrow> counter_call list \<Rightarrow> counter_db \<Rightarrow> counter_db" where
  "assign_all U max_retries [] D = D"
| "assign_all U max_retries ((n, g, y, F) # calls) D =
     assign_all U max_retries calls (as_db (assign_counter U max_retries n g y D F))"

definition ascii_years :: "ucd \<Rightarrow> counter_call list \<Rightarrow> bool" where
  "ascii_years U calls \<longleftrightarrow>
     list_all (\<lambda>(n, g, y, F). ascii_digits (svc_normalize U y)) calls"

lemma assign_counter_keeps:
  assumes "ucd_ok U" "svc_inv D" "1 \<le> max_retries" "ascii_digits (svc_normalize U y)"
  shows "svc_inv (as_db (assign_counter U max_retries n g y D F)) \<and>
    (\<forall>m c. map_of (cdb_students D) m = Some (Some c) \<longrightarrow>
       map_of (cdb_students (as_db (assign_counter U max_retries n g y D F))) m = Some (Some c)) \<and>
    (\<forall>k. last_seq D k \<le> last_seq (as_db (assign_counter U max_retries n g y D F)) k)"
proof -
  have year: "ascii_digits y'" if "ensure_valid_inputs U n g y = Inr (nid, y')" for nid y'
    using that assms(4) by (auto simp: ensure_valid_inputs_def Let_def split: if_splits)
  let ?D = "as_db (assign_counter U max_retries n g y D F)"
  have "?D = D \<or> (\<exists>nid k. key_ok k \<and> last_seq D k < COUNTER_MAX_SEQ \<and>
      map_of (cdb_students D) nid = Some None \<and> ?D = assigned_db D nid k)"
    by (rule assign_counter_steps [OF assms(1-3) year refl])
  then show ?thesis
  proof (elim disjE exE conjE)
    fix nid k
    assume k: "key_ok k" "last_seq D k < COUNTER_MAX_SEQ" "map_of (cdb_students D) nid = Some None"
      and D: "?D = assigned_db D nid k"
    show ?thesis
      unfolding D using assigned_db_inv [OF assms(2) k(1,2), of nid] k(3) by (auto simp: assigned_map_of)
  qed (simp add: assms(2))
qed

text \<open>
  C7 counters_permanent_and_unique: whatever calls are made, with whatever integrity errors, if their years
  are in ASCII digits, the database stays well formed: no two students ever hold the same counter, every stored
  counter has the documented format with a number its sequence has given out, no counter once bound
  changes, and no sequence runs backwards.
\<close>

theorem counters_permanent_and_unique:
  assumes "ucd_ok U" "svc_inv D" "1 \<le> max_retries" "ascii_years U calls"
    and "D' = assign_all U max_retries calls D"
  shows "svc_inv D' \<and>
    (\<forall>n n' c. map_of (cdb_students D') n = Some (Some c) \<and> map_of (cdb_students D') n' = Some (Some c) \<longrightarrow> n = n') \<and>
    (\<forall>n c. map_of (cdb_students D') n = Some (Some c) \<longrightarrow> is_counter c \<and> ascii_digits c) \<and>
    (\<forall>n c. map_of (cdb_students D) n = Some (Some c) \<longrightarrow> map_of (cdb_students D') n = Some (Some c)) \<and>
    (\<forall>k. last_seq D k \<le> last_seq D' k)"
proof -
  have "svc_inv D' \<and> (\<forall>n c. map_of (cdb_students D) n = Some (Some c) \<longrightarrow> map_of (cdb_students D') n = Some (Some c)) \<and>
    (\<forall>k. last_seq D k \<le> last_seq D' k)"
    using assms(2,4,5)
  proof (induction calls arbitrary: D)
    case (Cons call calls)
    obtain n g y F where call: "call = (n, g, y, F)" by (cases call)
    let ?D = "as_db (assign_counter U max_retries n g y D F)"
    have "ascii_digits (svc_normalize U y)" "ascii_years U calls"
      using Cons.prems(2) by (auto simp: ascii_years_def call)
    then show ?case
      using assign_counter_keeps [OF assms(1) Cons.prems(1) assms(3), of y n g F] Cons.IH [of ?D] Cons.prems(3)
      unfolding call assign_all.simps by (meson order_trans)
  qed (simp add: assms)
  moreover have "n = n'" if "svc_inv D'" "map_of (cdb_students D') n = Some (Some c)" "map_of (cdb_students D') n' = Some (Some c)" for n n' c
    using svc_invD(4) [OF that(1)] that(2,3) by (blast dest: map_of_SomeD)
  moreover have "is_counter c \<and> ascii_digits c" if "svc_inv D'" "map_of (cdb_students D') n = Some (Some c)" for n c
    using svc_invD(3) [OF that(1)] that(2) counter_of_format(1,2) by (blast dest: map_of_SomeD)
  ultimately show ?thesis by blast
qed

theorem counters_permanent_and_unique_witness:
  "svc_inv (assign_all ascii_ucd 3
     [(asc ''0000000002'', 0, asc ''03'', no_faults), (asc ''0000000001'', 1, asc ''04'', no_faults)] sample_counter_db)"
proof -
  have "ascii_years ascii_ucd
      [(asc ''0000000002'', 0, asc ''03'', no_faults), (asc ''0000000001'', 1, asc ''04'', no_faults)]"
    by code_simp
  from counters_permanent_and_unique [OF ascii_ucd_ok sample_counter_inv _ this refl, of 3]
  show ?thesis by (simp del: assign_all.simps)
qed

text \<open>
  The hypothesis on the year matters. \<^verbatim>\<open>normalize\<close> folds Persian digits but not Arabic-Indic ones: 03 in
  Arabic-Indic digits opens a second sequence whose counters are folded to the same text, so that
  the second student is refused with a conflict although the sequence of 03 has room.
\<close>

lemma arabic_year_conflicts:
  "as_result (assign_counter ascii_ucd 3 (asc ''0000000002'') 0 [1632, 1635]
     (sample_counter_db\<lparr>cdb_students := [(asc ''0000000001'', Some (asc ''033730001'')), (asc ''0000000002'', None)]\<rparr>)
     no_faults) = Inl E_DB_CONFLICT"
  by code_simp

end
