(* ===== verification/Counter_Backfill.thy ===== *)
theory Counter_Backfill
  imports Counter_Service
begin

text \<open>
  \<^verbatim>\<open>phase2_counter_service/backfill.py\<close>: the streaming backfill over the rows of a CSV file. The
  reader is lazy: a chunk is parsed when the one before it has been processed, so a row that does not parse stops
  the run after the earlier chunks have been applied. The state therefore survives an error. A row is
  the texts of its three columns, an absent one being empty. Warnings and the observer are left out.
\<close>

record BackfillRow =
  br_national_id :: pystr
  br_gender :: int
  br_year_code :: pystr

type_synonym raw_row = "pystr \<times> pystr \<times> pystr"

definition parse_row :: "ucd \<Rightarrow> raw_row \<Rightarrow> svc_code + BackfillRow" where
  "parse_row U raw =
     (case raw of (nid_raw, gender_raw, year_raw) \<Rightarrow>
        case py_int (svc_normalize U gender_raw) of
          None \<Rightarrow> Inl E_INVALID_GENDER
        | Some gender_value \<Rightarrow>
            rbind (ensure_valid_inputs U nid_raw gender_value year_raw)
              (\<lambda>(nid, year). Inr \<lparr>br_national_id = nid, br_gender = gender_value, br_year_code = year\<rparr>))"

text \<open>The next chunk of \<^verbatim>\<open>_chunked(_parse_rows(...))\<close> and the rows left.\<close>

fun next_chunk ::
  "ucd \<Rightarrow> int \<Rightarrow> BackfillRow list \<Rightarrow> raw_row list \<Rightarrow> svc_code + BackfillRow list \<times> raw_row list" where
  "next_chunk U limit chunk [] = Inr (chunk, [])"
| "next_chunk U limit chunk (raw # rows) =
     rbind (parse_row U raw) (\<lambda>row.
       let chunk' = chunk @ [row]
       in if int (length chunk') \<ge> limit then Inr (chunk', rows) else next_chunk U limit chunk' rows)"

record backfill_state =
  bf_db :: counter_db
  bf_faults :: FaultInjector
  bf_snapshot :: "pystr \<times> pystr \<Rightarrow> int option"
  bf_total :: nat
  bf_applied :: nat
  bf_reused :: nat
  bf_skipped :: nat
  bf_mismatches :: nat

definition planned :: "backfill_state \<Rightarrow> pystr \<times> pystr \<Rightarrow> int" where
  "planned st k = (case bf_snapshot st k of None \<Rightarrow> 0 | Some v \<Rightarrow> v)"

definition raise_snapshot :: "pystr \<times> pystr \<Rightarrow> int \<Rightarrow> backfill_state \<Rightarrow> backfill_state" where
  "raise_snapshot k v st = st\<lparr>bf_snapshot := (bf_snapshot st)(k := Some (max (planned st k) v))\<rparr>"

definition counter_serial :: "pystr \<Rightarrow> int" where
  "counter_serial c = (case py_int (last_n 4 c) of Some v \<Rightarrow> v | None \<Rightarrow> 0)"

definition backfill_row ::
  "ucd \<Rightarrow> int \<Rightarrow> bool \<Rightarrow> (pystr \<times> pystr) list \<Rightarrow> backfill_state \<Rightarrow> BackfillRow \<Rightarrow> svc_code option \<times> backfill_state"
where
  "backfill_row U max_retries apply_it existing st row =
     (let prefix = prefix_of (br_gender row); seq_key = (br_year_code row, prefix)
      in case map_of existing (br_national_id row) of
           Some counter_value \<Rightarrow>
             (let st' = (if \<not> startswith counter_value (br_year_code row @ prefix)
                         then st\<lparr>bf_mismatches := bf_mismatches st + 1\<rparr>
                         else raise_snapshot seq_key (counter_serial counter_value) st)
              in (None, st'\<lparr>bf_reused := bf_reused st' + 1\<rparr>))
         | None \<Rightarrow>
             if \<not> apply_it then
               (case ensure_sequence_bounds (planned st seq_key + 1) of
                  Inl e \<Rightarrow> (Some e, st)
                | Inr next_seq \<Rightarrow>
                    (None, st\<lparr>bf_snapshot := (bf_snapshot st)(seq_key := Some next_seq),
                              bf_skipped := bf_skipped st + 1\<rparr>))
             else
               (let r = assign_counter U max_retries (br_national_id row) (br_gender row) (br_year_code row)
                          (bf_db st) (bf_faults st);
                    st' = st\<lparr>bf_db := as_db r, bf_faults := as_faults r\<rparr>
                in case as_result r of
                     Inl e \<Rightarrow> (Some e, st')
                   | Inr counter \<Rightarrow>
                       (None, (raise_snapshot seq_key (counter_serial counter) st')
                                \<lparr>bf_applied := bf_applied st' + 1\<rparr>)))"

fun backfill_rows ::
  "ucd \<Rightarrow> int \<Rightarrow> bool \<Rightarrow> (pystr \<times> pystr) list \<Rightarrow> backfill_state \<Rightarrow> BackfillRow list \<Rightarrow> svc_code option \<times> backfill_state"
where
  "backfill_rows U max_retries apply_it existing st [] = (None, st)"
| "backfill_rows U max_retries apply_it existing st (row # rows) =
     (case backfill_row U max_retries apply_it existing st row of
        (Some e, st') \<Rightarrow> (Some e, st')
      | (None, st') \<Rightarrow> backfill_rows U max_retries apply_it existing st' rows)"

definition backfill_chunk ::
  "ucd \<Rightarrow> int \<Rightarrow> bool \<Rightarrow> backfill_state \<Rightarrow> BackfillRow list \<Rightarrow> svc_code option \<times> backfill_state" where
  "backfill_chunk U max_retries apply_it st chunk =
     (let st' = st\<lparr>bf_total := bf_total st + length chunk\<rparr>
      in case fetch_existing_counters U (bf_db st') (map br_national_id chunk) of
           Inl e \<Rightarrow> (Some e, st')
         | Inr existing \<Rightarrow> backfill_rows U max_retries apply_it existing st' chunk)"

lemma next_chunk_shorter:
  "next_chunk U limit chunk rows = Inr (c, rest) \<Longrightarrow>
     length rest \<le> length rows \<and> (rows \<noteq> [] \<longrightarrow> length rest < length rows)"
proof (induction rows arbitrary: chunk)
  case (Cons raw rows)
  then show ?case by (fastforce simp: Let_def split: if_splits)
qed simp

function backfill_loop ::
  "ucd \<Rightarrow> int \<Rightarrow> bool \<Rightarrow> int \<Rightarrow> raw_row list \<Rightarrow> backfill_state \<Rightarrow> svc_code option \<times> backfill_state" where
  "backfill_loop U max_retries apply_it limit rows st =
     (if rows = [] then (None, st)
      else case next_chunk U limit [] rows of
             Inl e \<Rightarrow> (Some e, st)
           | Inr (chunk, rest) \<Rightarrow>
               (case backfill_chunk U max_retries apply_it st chunk of
                  (Some e, st') \<Rightarrow> (Some e, st')
                | (None, st') \<Rightarrow> backfill_loop U max_retries apply_it limit rest st'))"
  by pat_completeness auto
termination
  by (relation "measure (\<lambda>(U, m, a, s, rows, st). length rows)") (auto dest: next_chunk_shorter)

declare backfill_loop.simps [simp del]

definition run_backfill ::
  "ucd \<Rightarrow> int \<Rightarrow> bool \<Rightarrow> int \<Rightarrow> raw_row list \<Rightarrow> counter_db \<Rightarrow> FaultInjector \<Rightarrow> svc_code option \<times> backfill_state" where
  "run_backfill U max_retries apply_it chunk_size rows D F =
     backfill_loop U max_retries apply_it chunk_size rows
       \<lparr>bf_db = D, bf_faults = F, bf_snapshot = cdb_seqs D, bf_total = 0, bf_applied = 0, bf_reused = 0,
        bf_skipped = 0, bf_mismatches = 0\<rparr>"

section \<open>Counts\<close>

lemma next_chunk_length:
  "next_chunk U limit chunk rows = Inr (c, rest) \<Longrightarrow> length c + length rest = length chunk + length rows"
proof (induction rows arbitrary: chunk)
  case (Cons raw rows)
  then obtain row where row: "parse_row U raw = Inr row" by auto
  show ?case
  proof (cases "int (length (chunk @ [row])) \<ge> limit")
    case True
    then show ?thesis using Cons.prems row by (auto simp: Let_def)
  next
    case False
    then have "next_chunk U limit (chunk @ [row]) rows = Inr (c, rest)"
      using Cons.prems row by (simp add: Let_def)
    from Cons.IH [OF this] show ?thesis by simp
  qed
qed simp

definition handled :: "backfill_state \<Rightarrow> nat" where
  "handled st = bf_applied st + bf_reused st + bf_skipped st"

definition mode_kept :: "bool \<Rightarrow> backfill_state \<Rightarrow> backfill_state \<Rightarrow> bool" where
  "mode_kept apply_it st st' \<longleftrightarrow> bf_total st' = bf_total st \<and>
     (if apply_it then bf_skipped st' = bf_skipped st
      else bf_applied st' = bf_applied st \<and> bf_db st' = bf_db st \<and> bf_faults st' = bf_faults st)"

lemma raise_snapshot_simps [simp]:
  "bf_db (raise_snapshot k v st) = bf_db st" "bf_faults (raise_snapshot k v st) = bf_faults st"
  "bf_total (raise_snapshot k v st) = bf_total st" "bf_applied (raise_snapshot k v st) = bf_applied st"
  "bf_reused (raise_snapshot k v st) = bf_reused st" "bf_skipped (raise_snapshot k v st) = bf_skipped st"
  by (simp_all add: raise_snapshot_def)

lemma backfill_row_counts:
  "backfill_row U m apply_it ex st row = (res, st') \<Longrightarrow>
     mode_kept apply_it st st' \<and> (res = None \<longrightarrow> handled st' = handled st + 1)"
  by (auto simp: backfill_row_def Let_def mode_kept_def handled_def split: option.splits sum.splits if_splits)

lemma backfill_rows_counts:
  "backfill_rows U m apply_it ex st rows = (res, st') \<Longrightarrow>
     mode_kept apply_it st st' \<and> (res = None \<longrightarrow> handled st' = handled st + length rows)"
proof (induction rows arbitrary: st)
  case Nil
  then show ?case by (simp add: mode_kept_def)
next
  case (Cons row rows)
  obtain r st1 where r: "backfill_row U m apply_it ex st row = (r, st1)"
    by (cases "backfill_row U m apply_it ex st row")
  from backfill_row_counts [OF r] Cons r show ?case
    by (fastforce simp: mode_kept_def split: option.splits if_splits)
qed

lemma backfill_loop_counts:
  "backfill_loop U m apply_it limit rows st = (res, st') \<Longrightarrow>
     (if apply_it then bf_skipped st' = bf_skipped st
      else bf_applied st' = bf_applied st \<and> bf_db st' = bf_db st) \<and>
     (res = None \<longrightarrow> handled st' = handled st + length rows \<and> bf_total st' = bf_total st + length rows)"
proof (induction U m apply_it limit rows st rule: backfill_loop.induct)
  case (1 U m apply_it limit rows st)
  show ?case
  proof (cases "rows = []")
    case True
    then show ?thesis using "1.prems" by (simp add: backfill_loop.simps)
  next
    case False
    show ?thesis
    proof (cases "next_chunk U limit [] rows")
      case (Inl e)
      then show ?thesis using "1.prems" False by (auto simp: backfill_loop.simps [of _ _ _ _ rows])
    next
      case (Inr p)
      obtain chunk rest where p: "p = (chunk, rest)" by (cases p)
      obtain r st1 where c: "backfill_chunk U m apply_it st chunk = (r, st1)"
        by (cases "backfill_chunk U m apply_it st chunk")
      have step: "(if apply_it then bf_skipped st1 = bf_skipped st
          else bf_applied st1 = bf_applied st \<and> bf_db st1 = bf_db st) \<and>
          (r = None \<longrightarrow> handled st1 = handled st + length chunk \<and> bf_total st1 = bf_total st + length chunk)"
        using c backfill_rows_counts [of U m apply_it _ "st\<lparr>bf_total := bf_total st + length chunk\<rparr>" chunk r st1]
        by (auto simp: backfill_chunk_def Let_def mode_kept_def handled_def split: sum.splits if_splits)
      show ?thesis
      proof (cases r)
        case None
        then have "backfill_loop U m apply_it limit rest st1 = (res, st')"
          using "1.prems" False Inr p c by (simp add: backfill_loop.simps [of _ _ _ _ rows])
        from "1.IH" [OF False Inr p [symmetric] c [symmetric] None this] step None next_chunk_length [OF Inr [unfolded p]]
        show ?thesis by (auto split: if_splits)
      next
        case (Some e)
        then show ?thesis
          using "1.prems" False Inr p c step by (auto simp: backfill_loop.simps [of _ _ _ _ rows])
      qed
    qed
  qed
qed

text \<open>
  A backfill that completes has handled every row of the file exactly once, as
  applied, reused or skipped; a dry run applies nothing and leaves the database alone even if it fails; a
  run that applies skips nothing. The chunk size has no influence on any of this.
\<close>

theorem backfill_counts:
  assumes "run_backfill U m apply_it limit rows D F = (res, st)"
  shows "(res = None \<longrightarrow> bf_total st = length rows \<and> bf_applied st + bf_reused st + bf_skipped st = length rows) \<and>
    (\<not> apply_it \<longrightarrow> bf_applied st = 0 \<and> bf_db st = D) \<and> (apply_it \<longrightarrow> bf_skipped st = 0)"
  using backfill_loop_counts [OF assms [unfolded run_backfill_def]]
  by (auto simp: handled_def split: if_splits)

definition sample_rows :: "raw_row list" where
  "sample_rows =
     [(asc ''0000000002'', asc ''0'', asc ''03''), (asc ''0000000001'', asc ''0'', asc ''03''),
      (asc ''0000000002'', asc '' 0'', asc ''03'')]"

lemma sample_dry_run:
  "\<exists>st. run_backfill ascii_ucd 3 False 2 sample_rows sample_counter_db no_faults = (None, st) \<and>
     planned st (asc ''03'', asc ''373'') = 9"
proof -
  let ?r = "run_backfill ascii_ucd 3 False 2 sample_rows sample_counter_db no_faults"
  have "fst ?r = None" "planned (snd ?r) (asc ''03'', asc ''373'') = 9" by code_simp+
  then show ?thesis by (metis prod.collapse)
qed

theorem backfill_counts_witness:
  "\<exists>st. run_backfill ascii_ucd 3 False 2 sample_rows sample_counter_db no_faults = (None, st) \<and>
     bf_total st = 3 \<and> bf_applied st = 0 \<and> bf_db st = sample_counter_db"
proof -
  obtain st where "run_backfill ascii_ucd 3 False 2 sample_rows sample_counter_db no_faults = (None, st)"
    using sample_dry_run by blast
  from this backfill_counts [OF this] show ?thesis by (auto simp: sample_rows_def)
qed

section \<open>What a dry run promises\<close>

lemma map_of_stored:
  "distinct (map fst xs) \<Longrightarrow>
   map_of (map (\<lambda>r. (fst r, the (snd r))) (filter (\<lambda>r. fst r \<in> S \<and> snd r \<noteq> None \<and> snd r \<noteq> Some []) xs)) n =
     (if n \<in> S then (case map_of xs n of Some (Some (ch # cs)) \<Rightarrow> Some (ch # cs) | _ \<Rightarrow> None) else None)"
proof (induction xs)
  case (Cons r xs)
  have none: "map_of xs (fst r) = None" using Cons.prems by (simp add: map_of_eq_None_iff)
  show ?case
    using Cons none by (cases "snd r"; cases "the (snd r)") (auto simp: case_prod_beta)
qed simp

lemma rmap_all_Inr: "(\<And>x. x \<in> set xs \<Longrightarrow> f x = Inr (g x)) \<Longrightarrow> rmap f xs = Inr (map g xs)"
  by (induction xs) auto

definition stored_counter :: "counter_db \<Rightarrow> pystr \<Rightarrow> pystr option" where
  "stored_counter D n = (case map_of (cdb_students D) n of Some (Some c) \<Rightarrow> Some c | _ \<Rightarrow> None)"

lemma fetch_existing_stored:
  assumes "ucd_ok U" "svc_inv D"
  shows "\<exists>ex. fetch_existing_counters U D nids = Inr ex \<and>
    (\<forall>n. map_of ex n = (if n \<in> set nids then stored_counter D n else None))"
proof -
  let ?P = "\<lambda>r. fst r \<in> set nids \<and> snd r \<noteq> None \<and> snd r \<noteq> Some []"
  let ?g = "\<lambda>r. (fst r, the (snd r))"
  have ok: "rbind (ensure_counter_format U (the (snd r))) (\<lambda>c. Inr (fst r, c)) = Inr (?g r)"
    if "r \<in> set (filter ?P (cdb_students D))" for r
  proof -
    have "snd r \<noteq> None" using that by simp
    then obtain n c where r: "r = (n, Some c)" by (metis not_None_eq prod.collapse)
    then have "map_of (cdb_students D) n = Some (Some c)"
      using that svc_invD(1) [OF assms(2)] by (simp add: map_of_is_SomeI)
    from inv_stored(1) [OF assms(2) this assms(1)] show ?thesis by (simp add: r)
  qed
  have "fetch_existing_counters U D nids = Inr (map ?g (filter ?P (cdb_students D)))"
    unfolding fetch_existing_counters_def using ok by (intro rmap_all_Inr) blast
  moreover have "map_of (map ?g (filter ?P (cdb_students D))) n =
      (if n \<in> set nids then stored_counter D n else None)" for n
    using map_of_stored [OF svc_invD(1) [OF assms(2)], of "set nids" n]
      inv_stored(2) [OF assms(2) _ assms(1), of n]
    by (auto simp: stored_counter_def split: option.splits list.splits)
  ultimately show ?thesis by blast
qed

text \<open>
  The state \<open>sa\<close> of an applying run is covered by the state \<open>sd\<close> of a dry run over the database
  \<open>D\<close>: it knows the same students, has kept all counters of \<open>D\<close>, and no sequence has gone further than planned.
\<close>

definition covered :: "counter_db \<Rightarrow> backfill_state \<Rightarrow> backfill_state \<Rightarrow> bool" where
  "covered D sd sa \<longleftrightarrow> bf_db sd = D \<and> bf_faults sa = no_faults \<and> svc_inv (bf_db sa) \<and>
     (\<forall>n. map_of (cdb_students (bf_db sa)) n = None \<longleftrightarrow> map_of (cdb_students D) n = None) \<and>
     (\<forall>n c. stored_counter D n = Some c \<longrightarrow> stored_counter (bf_db sa) n = Some c) \<and>
     (\<forall>k. last_seq (bf_db sa) k \<le> planned sd k)"

definition clean_row :: "ucd \<Rightarrow> counter_db \<Rightarrow> BackfillRow \<Rightarrow> bool" where
  "clean_row U D row \<longleftrightarrow> ascii_digits (br_year_code row) \<and>
     ensure_valid_inputs U (br_national_id row) (br_gender row) (br_year_code row) =
       Inr (br_national_id row, br_year_code row) \<and>
     map_of (cdb_students D) (br_national_id row) \<noteq> None"

lemma planned_raise [simp]: "planned (raise_snapshot k v st) j = (if j = k then max (planned st k) v else planned st j)"
  by (simp add: planned_def raise_snapshot_def)

lemma fault_total_no_faults [simp]: "fault_total no_faults = 0"
  by (simp add: fault_total_def no_faults_def)

lemma assign_counter_no_faults:
  assumes "ucd_ok U" "svc_inv D" "ensure_valid_inputs U n0 g y0 = Inr (nid, y)" "ascii_digits y" "1 \<le> m"
    and fresh: "map_of (cdb_students D) nid = Some None"
  shows "as_faults (assign_counter U m n0 g y0 D no_faults) = no_faults"
proof -
  have y: "length y = 2"
    using assms(3) by (auto simp: ensure_valid_inputs_def Let_def decimals_def split: if_splits)
  have once: "snd (reserve_once U (nat m) nid g y D no_faults) = no_faults"
    "\<And>c. fst (reserve_once U (nat m) nid g y D no_faults) \<noteq> Inl (IntegrityError c)"
    using reserve_once_fresh [OF assms(1,2) fresh assms(4) y, of "nat m" g no_faults] assms(5)
    by (auto split: if_splits)
  then consider p where "reserve_once U (nat m) nid g y D no_faults = (Inr p, no_faults)"
    | e where "reserve_once U (nat m) nid g y D no_faults = (Inl (ServiceError e), no_faults)"
    by (metis prod.collapse sum.exhaust_sel tx_failure.exhaust)
  then have "rv_faults (reserve_loop U (nat m) True left nid g y D no_faults seen) = no_faults" for left seen
    by cases (simp_all add: case_prod_beta)
  moreover have "fetch_student_counter U D nid = Inr None" using fresh by (simp add: fetch_student_counter_def)
  ultimately show ?thesis
    using assms(3) by (simp add: assign_counter_def reserve_and_bind_def Let_def
        del: reserve_loop.simps split: sum.splits)
qed

lemma covered_known:
  "covered D sd sa \<Longrightarrow> covered D (sd\<lparr>bf_reused := i, bf_mismatches := j\<rparr>) (sa\<lparr>bf_reused := i', bf_mismatches := j'\<rparr>)"
  by (simp add: covered_def planned_def)

lemma covered_plan_more:
  assumes "covered D sd sa" "bf_db sd' = bf_db sd" "\<And>k. planned sd k \<le> planned sd' k"
    and "bf_db sa' = bf_db sa" "bf_faults sa' = bf_faults sa"
  shows "covered D sd' sa'"
  using assms unfolding covered_def by (metis order_trans)

lemma assign_counter_known:
  assumes "ucd_ok U" "svc_inv D" "ensure_valid_inputs U n0 g y0 = Inr (nid, y)"
    and known: "map_of (cdb_students D) nid = Some (Some c)"
  shows "as_result (assign_counter U m n0 g y0 D F) = Inr c \<and> as_db (assign_counter U m n0 g y0 D F) = D \<and>
    as_faults (assign_counter U m n0 g y0 D F) = F"
proof -
  have "fetch_student_counter U D nid = Inr (Some c)"
    using inv_stored [OF assms(2) known assms(1)] known by (cases c) (simp_all add: fetch_student_counter_def)
  then show ?thesis using assms(3) by (simp add: assign_counter_def)
qed

lemma dry_row_plans:
  assumes "backfill_row U m False ex sd row = (None, sd')"
  shows "bf_db sd' = bf_db sd \<and> (\<forall>k. planned sd k \<le> planned sd' k) \<and>
    (map_of ex (br_national_id row) = None \<longrightarrow>
       (let k = (br_year_code row, prefix_of (br_gender row))
        in planned sd k < COUNTER_MAX_SEQ \<and> planned sd' k = planned sd k + 1))"
proof -
  have p: "planned (st\<lparr>bf_reused := i\<rparr>) = planned st" "planned (st\<lparr>bf_mismatches := i\<rparr>) = planned st"
    "planned (st\<lparr>bf_snapshot := f, bf_skipped := i\<rparr>) k = (case f k of None \<Rightarrow> 0 | Some v \<Rightarrow> v)" for st i f k
    by (auto simp: planned_def)
  show ?thesis
    using assms
    by (auto simp: backfill_row_def Let_def ensure_sequence_bounds_def p planned_def [of sd]
        split: option.splits if_splits)
qed

lemma covered_row:
  assumes U: "ucd_ok U" and m: "1 \<le> m" and cov: "covered D sd sa" and row: "clean_row U D row"
    and exd: "\<And>n. map_of exd n = (if n \<in> S then stored_counter D n else None)"
    and exa: "\<And>n. map_of exa n = (if n \<in> S then stored_counter Dc n else None)"
    and start: "\<And>n c. stored_counter D n = Some c \<Longrightarrow> stored_counter Dc n = Some c"
    and dry: "backfill_row U m False exd sd row = (None, sd')"
  shows "\<exists>sa'. backfill_row U m True exa sa row = (None, sa') \<and> covered D sd' sa'"
proof -
  let ?nid = "br_national_id row" and ?k = "(br_year_code row, prefix_of (br_gender row))" and ?D = "bf_db sa"
  note plans = dry_row_plans [OF dry]
  show ?thesis
  proof (cases "map_of exa ?nid")
    case (Some c)
    then show ?thesis
      using covered_plan_more [OF cov conjunct1 [OF plans]] plans
      by (auto simp: backfill_row_def Let_def)
  next
    case None
    then have "map_of exd ?nid = None"
      using exd exa start by (metis not_None_eq)
    then have plan: "planned sd ?k < COUNTER_MAX_SEQ" "planned sd' ?k = planned sd ?k + 1"
      using plans by (auto simp: Let_def)
    have inv: "svc_inv ?D" and F: "bf_faults sa = no_faults" and last: "last_seq ?D ?k \<le> planned sd ?k"
      and known: "map_of (cdb_students ?D) ?nid \<noteq> None"
      using cov row by (auto simp: covered_def clean_row_def)
    have inputs: "ensure_valid_inputs U ?nid (br_gender row) (br_year_code row) = Inr (?nid, br_year_code row)"
      and y: "ascii_digits (br_year_code row)"
      using row by (auto simp: clean_row_def)
    let ?r = "assign_counter U m ?nid (br_gender row) (br_year_code row) ?D no_faults"
    let ?sa = "\<lambda>c. (raise_snapshot ?k (counter_serial c) (sa\<lparr>bf_db := as_db ?r, bf_faults := as_faults ?r\<rparr>))
        \<lparr>bf_applied := bf_applied sa + 1\<rparr>"
    have step: "backfill_row U m True exa sa row = (None, ?sa c)" if "as_result ?r = Inr c" for c
      using that None F by (simp add: backfill_row_def Let_def)
    show ?thesis
    proof (cases "the (map_of (cdb_students ?D) ?nid)")
      case (Some c)
      then have r: "as_result ?r = Inr c" "as_db ?r = ?D" "as_faults ?r = no_faults"
        using assign_counter_known [OF U inv inputs, of c] known by auto
      have "covered D sd' (?sa c)"
        using covered_plan_more [OF cov conjunct1 [OF plans], of "?sa c"] plans r F by simp
      then show ?thesis using step [OF r(1)] by blast
    next
      case None
      then have fresh: "map_of (cdb_students ?D) ?nid = Some None" using known by auto
      have "fresh_outcome ?D ?nid ?k (as_result ?r) (as_db ?r)"
        using assign_counter_cases [OF U inv inputs y m refl, of no_faults] fresh m by simp
      then have r: "as_result ?r = Inr (counter_of ?k (last_seq ?D ?k + 1))" "as_db ?r = assigned_db ?D ?nid ?k"
        using last plan by (auto simp: fresh_outcome_def)
      have k: "key_ok ?k" using inputs y
        by (intro key_of_inputs) (auto simp: ensure_valid_inputs_def Let_def decimals_def split: if_splits)
      have "svc_inv (assigned_db ?D ?nid ?k)" using assigned_db_inv [OF inv k] last plan by simp
      moreover have "stored_counter (assigned_db ?D ?nid ?k) n = Some c" if "stored_counter ?D n = Some c" for n c
        using that fresh by (auto simp: stored_counter_def assigned_map_of)
      moreover have "last_seq (assigned_db ?D ?nid ?k) j \<le> planned sd' j" for j
      proof (cases "j = ?k")
        case True
        then show ?thesis using last plan by simp
      next
        case False
        moreover have "last_seq ?D j \<le> planned sd j" "planned sd j \<le> planned sd' j"
          using cov plans by (auto simp only: covered_def)
        ultimately show ?thesis by simp
      qed
      moreover have "map_of (cdb_students (assigned_db ?D ?nid ?k)) n = None \<longleftrightarrow>
          map_of (cdb_students D) n = None" for n
        using cov fresh row by (auto simp: assigned_map_of covered_def clean_row_def)
      moreover have "stored_counter (assigned_db ?D ?nid ?k) n = Some c" if "stored_counter D n = Some c" for n c
        using that cov calculation(2) by (simp add: covered_def)
      ultimately have "covered D sd' (?sa (counter_of ?k (last_seq ?D ?k + 1)))"
        using cov conjunct1 [OF plans] r assign_counter_no_faults [OF U inv inputs y m fresh]
        unfolding covered_def by simp
      then show ?thesis using step [OF r(1)] by blast
    qed
  qed
qed

lemma covered_rows:
  assumes "ucd_ok U" "1 \<le> m"
    and "\<And>n. map_of exd n = (if n \<in> S then stored_counter D n else None)"
    and "\<And>n. map_of exa n = (if n \<in> S then stored_counter Dc n else None)"
    and "\<And>n c. stored_counter D n = Some c \<Longrightarrow> stored_counter Dc n = Some c"
  shows "covered D sd sa \<Longrightarrow> \<forall>row \<in> set rows. clean_row U D row \<Longrightarrow>
    backfill_rows U m False exd sd rows = (None, sd') \<Longrightarrow>
    \<exists>sa'. backfill_rows U m True exa sa rows = (None, sa') \<and> covered D sd' sa'"
proof (induction rows arbitrary: sd sa)
  case (Cons row rows)
  then obtain sd1 where d: "backfill_row U m False exd sd row = (None, sd1)"
      "backfill_rows U m False exd sd1 rows = (None, sd')"
    by (auto split: prod.splits option.splits)
  obtain sa1 where a: "backfill_row U m True exa sa row = (None, sa1)" "covered D sd1 sa1"
    using covered_row [OF assms(1,2) Cons.prems(1) _ assms(3-5) d(1)] Cons.prems(2) by auto
  from Cons.IH [OF a(2) _ d(2)] Cons.prems(2) a(1) show ?case by simp
qed simp

lemma covered_chunk:
  assumes U: "ucd_ok U" "1 \<le> m" and inv: "svc_inv D" and cov: "covered D sd sa"
    and clean: "\<forall>row \<in> set chunk. clean_row U D row"
    and dry: "backfill_chunk U m False sd chunk = (None, sd')"
  shows "\<exists>sa'. backfill_chunk U m True sa chunk = (None, sa') \<and> covered D sd' sa'"
proof -
  let ?nids = "map br_national_id chunk" and ?Da = "bf_db sa"
  have D: "bf_db sd = D" and inva: "svc_inv ?Da" using cov by (auto simp: covered_def)
  obtain exd where exd: "fetch_existing_counters U D ?nids = Inr exd"
      "\<And>n. map_of exd n = (if n \<in> set ?nids then stored_counter D n else None)"
    using fetch_existing_stored [OF U(1) inv] by blast
  obtain exa where exa: "fetch_existing_counters U ?Da ?nids = Inr exa"
      "\<And>n. map_of exa n = (if n \<in> set ?nids then stored_counter ?Da n else None)"
    using fetch_existing_stored [OF U(1) inva] by blast
  let ?sd = "sd\<lparr>bf_total := bf_total sd + length chunk\<rparr>" and ?sa = "sa\<lparr>bf_total := bf_total sa + length chunk\<rparr>"
  have cov': "covered D ?sd ?sa" using cov by (simp add: covered_def planned_def)
  have d: "backfill_rows U m False exd ?sd chunk = (None, sd')"
    using dry D exd(1) by (simp add: backfill_chunk_def)
  have start: "\<And>n c. stored_counter D n = Some c \<Longrightarrow> stored_counter ?Da n = Some c"
    using cov by (simp add: covered_def)
  from covered_rows [OF U exd(2) exa(2) start cov' clean d] exa(1) show ?thesis
    by (simp add: backfill_chunk_def)
qed

lemma next_chunk_parsed:
  "next_chunk U limit chunk rows = Inr (c, rest) \<Longrightarrow>
     (\<forall>row \<in> set c. row \<in> set chunk \<or> (\<exists>raw \<in> set rows. parse_row U raw = Inr row)) \<and> set rest \<subseteq> set rows"
proof (induction rows arbitrary: chunk)
  case (Cons raw rows)
  then obtain row where row: "parse_row U raw = Inr row" by auto
  show ?case
  proof (cases "int (length (chunk @ [row])) \<ge> limit")
    case True
    then show ?thesis using Cons.prems row by (auto simp: Let_def)
  next
    case False
    then have "next_chunk U limit (chunk @ [row]) rows = Inr (c, rest)"
      using Cons.prems row by (simp add: Let_def)
    from Cons.IH [OF this] row show ?thesis by auto
  qed
qed simp

lemma covered_loop:
  assumes U: "ucd_ok U" "1 \<le> m" and inv: "svc_inv D"
  shows "covered D sd sa \<Longrightarrow> \<forall>raw \<in> set rows. \<forall>row. parse_row U raw = Inr row \<longrightarrow> clean_row U D row \<Longrightarrow>
    backfill_loop U m False limit rows sd = (None, sd') \<Longrightarrow>
    \<exists>sa'. backfill_loop U m True limit rows sa = (None, sa') \<and> covered D sd' sa'"
proof (induction "length rows" arbitrary: rows sd sa rule: less_induct)
  case less
  show ?case
  proof (cases "rows = []")
    case True
    then show ?thesis using less.prems by (auto simp: backfill_loop.simps)
  next
    case False
    obtain chunk rest sd1 where c: "next_chunk U limit [] rows = Inr (chunk, rest)"
        "backfill_chunk U m False sd chunk = (None, sd1)" "backfill_loop U m False limit rest sd1 = (None, sd')"
      using less.prems(3) False
      by (auto simp: backfill_loop.simps [of _ _ _ _ rows] split: sum.splits prod.splits option.splits)
    have "\<forall>row \<in> set chunk. clean_row U D row" using next_chunk_parsed [OF c(1)] less.prems(2) by auto
    then obtain sa1 where a: "backfill_chunk U m True sa chunk = (None, sa1)" "covered D sd1 sa1"
      using covered_chunk [OF U inv less.prems(1) _ c(2)] by blast
    have "length rest < length rows" using next_chunk_shorter [OF c(1)] False by blast
    moreover have "\<forall>raw \<in> set rest. \<forall>row. parse_row U raw = Inr row \<longrightarrow> clean_row U D row"
      using next_chunk_parsed [OF c(1)] less.prems(2) by blast
    ultimately obtain sa' where "backfill_loop U m True limit rest sa1 = (None, sa')" "covered D sd' sa'"
      using less.hyps a(2) c(3) by blast
    then show ?thesis using False c(1) a(1) by (simp add: backfill_loop.simps [of _ _ _ _ rows])
  qed
qed

text \<open>
  If a dry run over a well-formed database completes, and its rows name
  existing students with ids and years in normal form, then the applying run over the same file completes too,
  without skipping a row, keeps the database well formed, and leaves every sequence at or below the
  number the dry run planned.
\<close>

theorem dry_run_predicts_apply:
  assumes "ucd_ok U" "1 \<le> m" "svc_inv D"
    and "\<forall>raw \<in> set rows. \<forall>row. parse_row U raw = Inr row \<longrightarrow> clean_row U D row"
    and "run_backfill U m False limit rows D F = (None, sd)"
  shows "\<exists>sa. run_backfill U m True limit rows D no_faults = (None, sa) \<and> bf_skipped sa = 0 \<and>
    svc_inv (bf_db sa) \<and> (\<forall>k. last_seq (bf_db sa) k \<le> planned sd k)"
proof -
  let ?s = "\<lambda>F. \<lparr>bf_db = D, bf_faults = F, bf_snapshot = cdb_seqs D, bf_total = 0, bf_applied = 0,
      bf_reused = 0, bf_skipped = 0, bf_mismatches = 0\<rparr>"
  have "covered D (?s F) (?s no_faults)"
    using assms(3) by (simp add: covered_def planned_def last_seq_def)
  from covered_loop [OF assms(1-3) this assms(4) assms(5) [unfolded run_backfill_def]]
  obtain sa where sa: "run_backfill U m True limit rows D no_faults = (None, sa)" "covered D sd sa"
    by (auto simp: run_backfill_def)
  then show ?thesis using backfill_counts [OF sa(1)] by (auto simp: covered_def)
qed

theorem dry_run_predicts_apply_witness:
  "\<exists>sa. run_backfill ascii_ucd 3 True 2 sample_rows sample_counter_db no_faults = (None, sa) \<and>
     last_seq (bf_db sa) (asc ''03'', asc ''373'') \<le> 9"
proof -
  have clean: "\<forall>raw \<in> set sample_rows. \<forall>row. parse_row ascii_ucd raw = Inr row \<longrightarrow> clean_row ascii_ucd sample_counter_db row"
  proof -
    have "list_all (\<lambda>raw. case parse_row ascii_ucd raw of Inl e \<Rightarrow> True
        | Inr row \<Rightarrow> clean_row ascii_ucd sample_counter_db row) sample_rows"
      by code_simp
    then show ?thesis by (force simp: list_all_iff)
  qed
  obtain sd where sd: "run_backfill ascii_ucd 3 False 2 sample_rows sample_counter_db no_faults = (None, sd)"
      "planned sd (asc ''03'', asc ''373'') = 9"
    using sample_dry_run by blast
  from dry_run_predicts_apply [OF ascii_ucd_ok _ sample_counter_inv clean sd(1)] sd(2)
  show ?thesis by (metis one_le_numeral)
qed

end
