(* ===== verification/Counter_Runtime.thy ===== *)
theory Counter_Runtime
  imports Counter_Service Core_Normalize PyFloat
begin

text \<open>
  \<^verbatim>\<open>phase2_counter_service/academic_year.py\<close> and \<^verbatim>\<open>counter_runtime.py\<close>, with the retry loop
  of \<^verbatim>\<open>RedisExecutor.call\<close>: counters handed out by a Lua script that Redis runs atomically. The store is the
  part of Redis the script touches: one cell for each year code and student, one sequence for each
  year code and gender. A cell is a placeholder (which expires), an assignment, or a text that does not decode.
  Between any two operations the environment acts: other clients run the script, placeholders appear
  and expire. A delivery may lose the request or the response. Hashing, logging and key names are not modelled.
\<close>

section \<open>Academic years and payloads\<close>

definition strip_zw :: "pystr \<Rightarrow> pystr" where
  "strip_zw text = remove_chars [8204, 8205, 8206, 8207] text"

definition code_for :: "ucd \<Rightarrow> (pystr \<Rightarrow> pystr option) \<Rightarrow> pyval \<Rightarrow> pystr option" where
  "code_for U code_map year =
     (let raw = (case year of PNone \<Rightarrow> [] | _ \<Rightarrow> py_str year);
          normalized = py_strip (strip_zw (normalize_digits U (u_nfkc U raw)))
      in if \<not> py_isdigit normalized then None
         else let picked = (case code_map normalized of
                              Some c \<Rightarrow> Some c
                            | None \<Rightarrow> if length normalized < 4 then None else Some (last_n 2 normalized))
              in case picked of
                   None \<Rightarrow> None
                 | Some code \<Rightarrow>
                     (let code = py_strip (strip_zw (normalize_digits U (u_nfkc U code)))
                      in if \<not> py_isdigit code \<or> length code \<noteq> 2 then None else Some code))"

definition strip_controls :: "pystr \<Rightarrow> pystr" where
  "strip_controls value = remove_chars [8204, 8205, 8206, 8207, 65279] value"

definition runtime_identifier :: "ucd \<Rightarrow> pyval \<Rightarrow> pystr option" where
  "runtime_identifier U value =
     (let text = (case value of PNone \<Rightarrow> [] | _ \<Rightarrow> py_str value);
          text = py_strip (strip_controls (u_nfkc U text))
      in if text = [] then None else Some text)"

definition normalize_int_field :: "ucd \<Rightarrow> pyval \<Rightarrow> int set \<Rightarrow> int option" where
  "normalize_int_field U value allowed =
     (let text = (case value of PNone \<Rightarrow> [] | _ \<Rightarrow> py_str value);
          normalized = py_strip (strip_controls (normalize_digits U (u_nfkc U text)))
      in if \<not> py_isdigit normalized then None
         else case py_int normalized of
                None \<Rightarrow> None
              | Some parsed \<Rightarrow> if parsed \<in> allowed then Some parsed else None)"

record counter_payload =
  cp_year :: pyval
  cp_gender :: pyval
  cp_center :: pyval
  cp_student_id :: pyval

record normalized_payload =
  np_year_code :: pystr
  np_gender :: int
  np_center :: int
  np_student_id :: pystr

definition runtime_payload ::
  "ucd \<Rightarrow> (pystr \<Rightarrow> pystr option) \<Rightarrow> counter_payload \<Rightarrow> normalized_payload option" where
  "runtime_payload U code_map p =
     (case (normalize_int_field U (cp_gender p) {0, 1}, normalize_int_field U (cp_center p) {0, 1, 2},
            runtime_identifier U (cp_student_id p), code_for U code_map (cp_year p)) of
        (Some g, Some c, Some s, Some y) \<Rightarrow>
          Some \<lparr>np_year_code = y, np_gender = g, np_center = c, np_student_id = s\<rparr>
      | _ \<Rightarrow> None)"

section \<open>The store and the script\<close>

datatype cell = Pending | Assigned pystr | Undecodable

record rstore =
  rs_cells :: "pystr \<times> pystr \<Rightarrow> cell option"
  rs_seqs :: "pystr \<times> int \<Rightarrow> int option"

datatype response = R_NEW pystr | R_REUSED pystr | R_PENDING | R_EXHAUSTED

definition seq_value :: "rstore \<Rightarrow> pystr \<times> int \<Rightarrow> int" where
  "seq_value s k = (case rs_seqs s k of None \<Rightarrow> 0 | Some v \<Rightarrow> v)"

definition allocate_script :: "int \<Rightarrow> normalized_payload \<Rightarrow> rstore \<Rightarrow> response \<times> rstore" where
  "allocate_script seq_max p s =
     (let student_key = (np_year_code p, np_student_id p); sequence_key = (np_year_code p, np_gender p)
      in case rs_cells s student_key of
           Some Undecodable \<Rightarrow> (R_PENDING, s)
         | Some Pending \<Rightarrow> (R_PENDING, s)
         | Some (Assigned counter) \<Rightarrow> (R_REUSED counter, s)
         | None \<Rightarrow>
             (let s = s\<lparr>rs_cells := (rs_cells s)(student_key := Some Pending)\<rparr>;
                  seq = seq_value s sequence_key + 1;
                  s = s\<lparr>rs_seqs := (rs_seqs s)(sequence_key := Some seq)\<rparr>
              in if seq > seq_max
                 then (R_EXHAUSTED, s\<lparr>rs_cells := (rs_cells s)(student_key := None)\<rparr>)
                 else let counter = np_year_code p @ prefix_of (np_gender p) @ fmt_0d 4 seq
                      in (R_NEW counter, s\<lparr>rs_cells := (rs_cells s)(student_key := Some (Assigned counter))\<rparr>)))"

text \<open>What can happen to the store: any client's script, a placeholder left behind, its expiry.\<close>

definition payload_ok :: "normalized_payload \<Rightarrow> bool" where
  "payload_ok p \<longleftrightarrow> length (np_year_code p) = 2 \<and> np_gender p \<in> {0, 1}"

inductive redis_step :: "int \<Rightarrow> rstore \<Rightarrow> rstore \<Rightarrow> bool" for seq_max where
  script: "payload_ok p \<Longrightarrow> redis_step seq_max s (snd (allocate_script seq_max p s))"
| placeholder: "rs_cells s k = None \<Longrightarrow> redis_step seq_max s (s\<lparr>rs_cells := (rs_cells s)(k := Some Pending)\<rparr>)"
| expiry: "rs_cells s k = Some Pending \<Longrightarrow> redis_step seq_max s (s\<lparr>rs_cells := (rs_cells s)(k := None)\<rparr>)"

section \<open>The executor\<close>

datatype delivery = Delivered | RequestLost | ResponseLost

record world =
  w_env :: "nat \<Rightarrow> rstore \<Rightarrow> rstore"
  w_net :: "nat \<Rightarrow> delivery"
  w_rng :: "nat \<Rightarrow> pyfloat"

record RedisRetryConfig =
  rr_attempts :: nat
  rr_base_delay :: pyfloat
  rr_max_delay :: pyfloat
  rr_jitter :: pyfloat

definition executor_delay :: "RedisRetryConfig \<Rightarrow> world \<Rightarrow> nat \<Rightarrow> pyfloat \<Rightarrow> pyfloat" where
  "executor_delay R W i delay = fadd (min (rr_max_delay R) delay) (fmul (w_rng W i) (rr_jitter R))"

text \<open>
  \<open>left\<close> counts the attempts that remain, \<open>i\<close> the operations so far; \<open>sleeps\<close> are the pauses so far. A lost operation
  is followed by a pause unless it was the last attempt; no response is RedisOperationError.
\<close>

fun executor_call ::
  "RedisRetryConfig \<Rightarrow> world \<Rightarrow> (rstore \<Rightarrow> 'r \<times> rstore) \<Rightarrow> nat \<Rightarrow> pyfloat \<Rightarrow> nat \<Rightarrow> rstore \<Rightarrow> pyfloat list
   \<Rightarrow> 'r option \<times> nat \<times> rstore \<times> pyfloat list" where
  "executor_call R W op 0 delay i s sleeps = (None, i, s, sleeps)"
| "executor_call R W op (Suc left) delay i s sleeps =
     (let s1 = w_env W i s;
          retry = (\<lambda>s2. if left = 0 then (None, Suc i, s2, sleeps)
            else executor_call R W op left (min (rr_max_delay R) (fmul delay 2)) (Suc i) s2 (sleeps @ [executor_delay R W i delay]))
      in case w_net W i of
           Delivered \<Rightarrow> (let (r, s2) = op s1 in (Some r, Suc i, s2, sleeps))
         | RequestLost \<Rightarrow> retry s1
         | ResponseLost \<Rightarrow> retry (snd (op s1)))"

section \<open>The runtime\<close>

record runtime_config =
  rc_max_serial :: int
  rc_wait_attempts :: nat
  rc_wait_base :: int
  rc_wait_max :: int
  rc_redis :: RedisRetryConfig

definition make_runtime :: "int \<Rightarrow> int \<Rightarrow> int \<Rightarrow> int \<Rightarrow> RedisRetryConfig \<Rightarrow> runtime_config" where
  "make_runtime max_serial wait_attempts wait_base_ms wait_max_ms redis =
     \<lparr>rc_max_serial = max_serial, rc_wait_attempts = nat (max 1 wait_attempts),
      rc_wait_base = max 5 wait_base_ms, rc_wait_max = max (max 5 wait_base_ms) wait_max_ms,
      rc_redis = redis\<rparr>"

datatype runtime_error =
    COUNTER_VALIDATION_ERROR | COUNTER_EXHAUSTED | COUNTER_STATE_ERROR | COUNTER_RETRY_EXHAUSTED
  | REDIS_OPERATION_ERROR

datatype runtime_event =
    AllocSuccess | AllocReused | AllocInvalid | AllocRetry nat | AllocExhausted

record runtime_run =
  ru_result :: "runtime_error + pystr"
  ru_store :: rstore
  ru_ops :: nat
  ru_sleeps :: "pyfloat list"
  ru_events :: "runtime_event list"

definition accept_counter ::
  "pystr \<Rightarrow> runtime_event \<Rightarrow> nat \<Rightarrow> rstore \<Rightarrow> nat \<Rightarrow> pyfloat list \<Rightarrow> runtime_event list \<Rightarrow> runtime_run" where
  "accept_counter counter ev attempt s i sleeps evs =
     (if \<not> is_counter counter
      then \<lparr>ru_result = Inl COUNTER_STATE_ERROR, ru_store = s, ru_ops = i, ru_sleeps = sleeps, ru_events = evs\<rparr>
      else \<lparr>ru_result = Inr counter, ru_store = s, ru_ops = i, ru_sleeps = sleeps,
            ru_events = evs @ [ev] @ (if attempt > 1 then [AllocRetry (attempt - 1)] else [])\<rparr>)"

fun runtime_loop ::
  "runtime_config \<Rightarrow> world \<Rightarrow> normalized_payload \<Rightarrow> nat \<Rightarrow> nat \<Rightarrow> pyfloat \<Rightarrow> nat \<Rightarrow> rstore
   \<Rightarrow> pyfloat list \<Rightarrow> runtime_event list \<Rightarrow> runtime_run" where
  "runtime_loop C W p 0 attempt backoff i s sleeps evs =
     \<lparr>ru_result = Inl COUNTER_RETRY_EXHAUSTED, ru_store = s, ru_ops = i, ru_sleeps = sleeps, ru_events = evs\<rparr>"
| "runtime_loop C W p (Suc left) attempt backoff i s sleeps evs =
     (case executor_call (rc_redis C) W (allocate_script (rc_max_serial C) p) (rr_attempts (rc_redis C))
             (rr_base_delay (rc_redis C)) i s sleeps of
        (None, i', s', sleeps) \<Rightarrow>
          \<lparr>ru_result = Inl REDIS_OPERATION_ERROR, ru_store = s', ru_ops = i', ru_sleeps = sleeps, ru_events = evs\<rparr>
      | (Some (R_NEW counter), i', s', sleeps) \<Rightarrow> accept_counter counter AllocSuccess attempt s' i' sleeps evs
      | (Some (R_REUSED counter), i', s', sleeps) \<Rightarrow> accept_counter counter AllocReused attempt s' i' sleeps evs
      | (Some R_PENDING, i', s', sleeps) \<Rightarrow>
          if attempt = rc_wait_attempts C
          then \<lparr>ru_result = Inl COUNTER_RETRY_EXHAUSTED, ru_store = s', ru_ops = i', ru_sleeps = sleeps,
                ru_events = evs\<rparr>
          else let wait_max = fdiv (of_int (rc_wait_max C)) 1000
               in runtime_loop C W p left (Suc attempt) (min (fmul backoff 2) wait_max) i' s'
                    (sleeps @ [min backoff wait_max]) (evs @ [AllocRetry 1])
      | (Some R_EXHAUSTED, i', s', sleeps) \<Rightarrow>
          \<lparr>ru_result = Inl COUNTER_EXHAUSTED, ru_store = s', ru_ops = i', ru_sleeps = sleeps,
           ru_events = evs @ [AllocExhausted]\<rparr>)"

definition runtime_allocate ::
  "ucd \<Rightarrow> (pystr \<Rightarrow> pystr option) \<Rightarrow> runtime_config \<Rightarrow> world \<Rightarrow> counter_payload \<Rightarrow> nat \<Rightarrow> rstore \<Rightarrow> runtime_run" where
  "runtime_allocate U code_map C W payload i s =
     (case runtime_payload U code_map payload of
        None \<Rightarrow> \<lparr>ru_result = Inl COUNTER_VALIDATION_ERROR, ru_store = s, ru_ops = i, ru_sleeps = [],
                 ru_events = [AllocInvalid]\<rparr>
      | Some p \<Rightarrow>
          runtime_loop C W p (rc_wait_attempts C) 1 (fdiv (of_int (rc_wait_base C)) 1000) i s [] [])"

text \<open>\<^verbatim>\<open>preview\<close>: it reads the sequence and changes nothing.\<close>

definition runtime_preview ::
  "ucd \<Rightarrow> (pystr \<Rightarrow> pystr option) \<Rightarrow> runtime_config \<Rightarrow> counter_payload \<Rightarrow> rstore \<Rightarrow> runtime_error + pystr" where
  "runtime_preview U code_map C payload s =
     (case (normalize_int_field U (cp_gender payload) {0, 1}, normalize_int_field U (cp_center payload) {0, 1, 2},
            code_for U code_map (cp_year payload)) of
        (Some g, Some c, Some y) \<Rightarrow>
          (let next_serial = seq_value s (y, g) + 1
           in if next_serial > rc_max_serial C then Inl COUNTER_EXHAUSTED
              else Inr (y @ prefix_of g @ fmt_0d 4 next_serial))
      | _ \<Rightarrow> Inl COUNTER_VALIDATION_ERROR)"

section \<open>The registry behind the store\<close>

text \<open>
  What the runtime promises: a partial map from year code and student to counter that only grows, by
  counters of that year that nobody holds.
\<close>

type_synonym registry_map = "pystr \<times> pystr \<Rightarrow> pystr option"

inductive registry_step :: "registry_map \<Rightarrow> registry_map \<Rightarrow> bool" where
  stutter: "registry_step A A"
| assign: "A k = None \<Longrightarrow> c \<notin> ran A \<Longrightarrow> take 2 c = fst k \<Longrightarrow> registry_step A (A(k \<mapsto> c))"

definition registry :: "rstore \<Rightarrow> registry_map" where
  "registry s k = (case rs_cells s k of Some (Assigned c) \<Rightarrow> Some c | _ \<Rightarrow> None)"

definition issued :: "int \<Rightarrow> rstore \<Rightarrow> pystr \<Rightarrow> pystr \<Rightarrow> bool" where
  "issued M s y c \<longleftrightarrow> length y = 2 \<and>
     (\<exists>g n. g \<in> {0, 1} \<and> 1 \<le> n \<and> n \<le> seq_value s (y, g) \<and> n \<le> M \<and> c = y @ prefix_of g @ fmt_0d 4 n)"

definition rstore_inv :: "int \<Rightarrow> rstore \<Rightarrow> bool" where
  "rstore_inv M s \<longleftrightarrow> (\<forall>k. 0 \<le> seq_value s k) \<and>
     (\<forall>k c. registry s k = Some c \<longrightarrow> issued M s (fst k) c) \<and>
     (\<forall>k k' c. registry s k = Some c \<longrightarrow> registry s k' = Some c \<longrightarrow> k = k')"

lemma prefix_of_length [simp]: "length (prefix_of g) = 3"
  by (simp add: prefix_of_def prefix_facts)

lemma prefix_of_inj: "g \<in> {0, 1} \<Longrightarrow> g' \<in> {0, 1} \<Longrightarrow> prefix_of g = prefix_of g' \<Longrightarrow> g = g'"
  by (auto simp: prefix_of_def prefix_male_def prefix_female_def asc_def)

lemma serial_counter_inj:
  assumes "length y = 2" "length y' = 2" "g \<in> {0, 1}" "g' \<in> {0, 1}" "0 \<le> n" "0 \<le> n'"
    and "y @ prefix_of g @ fmt_0d 4 n = y' @ prefix_of g' @ fmt_0d 4 n'"
  shows "y = y' \<and> g = g' \<and> n = n'"
proof -
  have "y = y'" "prefix_of g = prefix_of g'" "fmt_0d 4 n = fmt_0d 4 n'"
    using assms(1,2,7) by (simp_all add: append_eq_append_conv)
  then show ?thesis using prefix_of_inj [OF assms(3,4)] fmt_0d_inj [OF assms(5,6)] by blast
qed

lemma registry_update:
  "registry (s\<lparr>rs_cells := (rs_cells s)(k := v)\<rparr>) =
     (registry s)(k := (case v of Some (Assigned c) \<Rightarrow> Some c | _ \<Rightarrow> None))"
  by (auto simp: registry_def)

lemma registry_seqs [simp]: "registry (s\<lparr>rs_seqs := f\<rparr>) = registry s"
  by (rule ext) (simp add: registry_def)

lemma seq_value_cells [simp]: "seq_value (s\<lparr>rs_cells := f\<rparr>) k = seq_value s k"
  by (simp add: seq_value_def)

lemma seq_value_update:
  "seq_value (s\<lparr>rs_seqs := (rs_seqs s)(k := Some v)\<rparr>) k' = (if k' = k then v else seq_value s k')"
  by (simp add: seq_value_def)

text \<open>The effect of the script in one equation.\<close>

definition new_counter :: "normalized_payload \<Rightarrow> rstore \<Rightarrow> pystr" where
  "new_counter p s = np_year_code p @ prefix_of (np_gender p) @
     fmt_0d 4 (seq_value s (np_year_code p, np_gender p) + 1)"

definition bumped :: "normalized_payload \<Rightarrow> cell option \<Rightarrow> rstore \<Rightarrow> rstore" where
  "bumped p v s = s\<lparr>rs_cells := (rs_cells s)((np_year_code p, np_student_id p) := v),
     rs_seqs := (rs_seqs s)((np_year_code p, np_gender p) \<mapsto> seq_value s (np_year_code p, np_gender p) + 1)\<rparr>"

lemma allocate_script_cases:
  "allocate_script M p s =
     (case rs_cells s (np_year_code p, np_student_id p) of
        Some (Assigned c) \<Rightarrow> (R_REUSED c, s)
      | Some _ \<Rightarrow> (R_PENDING, s)
      | None \<Rightarrow>
          if seq_value s (np_year_code p, np_gender p) + 1 > M then (R_EXHAUSTED, bumped p None s)
          else (R_NEW (new_counter p s), bumped p (Some (Assigned (new_counter p s))) s))"
  by (auto simp: allocate_script_def bumped_def new_counter_def Let_def split: option.splits cell.splits)

lemma bumped_seq:
  "seq_value (bumped p v s) k =
     (if k = (np_year_code p, np_gender p) then seq_value s k + 1 else seq_value s k)"
  by (auto simp: bumped_def seq_value_def)

lemma bumped_registry:
  "registry (bumped p v s) =
     (registry s)((np_year_code p, np_student_id p) := (case v of Some (Assigned c) \<Rightarrow> Some c | _ \<Rightarrow> None))"
  by (rule ext) (simp add: bumped_def registry_def)

lemma issued_mono: "issued M s y c \<Longrightarrow> (\<And>k. seq_value s k \<le> seq_value s' k) \<Longrightarrow> issued M s' y c"
  unfolding issued_def by (elim conjE exE) (intro conjI exI, assumption+, blast intro: order_trans, assumption+)

lemma new_counter_unused:
  assumes inv: "rstore_inv M s" and p: "payload_ok p"
  shows "new_counter p s \<notin> ran (registry s)"
proof
  assume "new_counter p s \<in> ran (registry s)"
  then obtain k where k: "registry s k = Some (new_counter p s)" by (auto simp: ran_def)
  then obtain g n where n: "g \<in> {0, 1}" "1 \<le> n" "n \<le> seq_value s (fst k, g)"
      "new_counter p s = fst k @ prefix_of g @ fmt_0d 4 n" "length (fst k) = 2"
    using inv unfolding rstore_inv_def issued_def by blast
  let ?v = "seq_value s (np_year_code p, np_gender p)"
  have "0 \<le> ?v" using inv unfolding rstore_inv_def by blast
  then have v: "0 \<le> ?v + 1" "0 \<le> n" using n(2) by simp_all
  have "length (np_year_code p) = 2" "np_gender p \<in> {0, 1}" using p unfolding payload_ok_def by blast+
  from serial_counter_inj [OF this(1) n(5) this(2) n(1) v n(4) [unfolded new_counter_def]]
  have "np_year_code p = fst k" "np_gender p = g" "?v + 1 = n" by blast+
  then show False using n(3) by simp
qed

lemma rstore_inv_mono:
  assumes "rstore_inv M s" "registry s' = registry s" "\<And>k. seq_value s k \<le> seq_value s' k"
  shows "rstore_inv M s'"
  using assms issued_mono [of M s _ _ s'] unfolding rstore_inv_def by (metis order_trans)

lemma script_refines:
  assumes inv: "rstore_inv M s" and p: "payload_ok p"
  defines "s' \<equiv> snd (allocate_script M p s)"
  shows "registry_step (registry s) (registry s') \<and> rstore_inv M s'"
proof -
  let ?k = "(np_year_code p, np_student_id p)"
  consider (same) "s' = s" | (full) "rs_cells s ?k = None" "s' = bumped p None s"
    | (fresh) "rs_cells s ?k = None" "s' = bumped p (Some (Assigned (new_counter p s))) s"
        "seq_value s (np_year_code p, np_gender p) + 1 \<le> M"
  proof (cases "rs_cells s ?k")
    case None
    then show ?thesis
      using that unfolding s'_def allocate_script_cases
      by (cases "seq_value s (np_year_code p, np_gender p) + 1 > M") auto
  next
    case (Some v)
    then have "s' = s" unfolding s'_def allocate_script_cases by (cases v) auto
    then show ?thesis by (rule that(1))
  qed
  then show ?thesis
  proof cases
    case same
    then show ?thesis using inv stutter by simp
  next
    case full
    then have "registry s' = registry s" by (auto simp: bumped_registry registry_def)
    then show ?thesis using rstore_inv_mono [OF inv, of s'] full(2) stutter by (simp add: bumped_seq)
  next
    case fresh
    let ?c = "new_counter p s"
    have reg: "registry s' = (registry s)(?k \<mapsto> ?c)" by (simp add: fresh(2) bumped_registry)
    have free: "registry s ?k = None" using fresh(1) by (simp add: registry_def)
    note unused = new_counter_unused [OF inv p]
    have "take 2 ?c = fst ?k" using p by (simp add: new_counter_def payload_ok_def)
    then have step: "registry_step (registry s) (registry s')"
      unfolding reg using free unused by (intro assign)
    have seqs: "seq_value s k \<le> seq_value s' k" for k by (simp add: fresh(2) bumped_seq)
    have new: "issued M s' (np_year_code p) ?c"
      unfolding issued_def
    proof (intro conjI exI)
      show "np_gender p \<in> {0, 1}" "length (np_year_code p) = 2" using p by (auto simp: payload_ok_def)
      show "?c = np_year_code p @ prefix_of (np_gender p) @
          fmt_0d 4 (seq_value s (np_year_code p, np_gender p) + 1)" by (simp add: new_counter_def)
    qed (use inv fresh in \<open>auto simp: rstore_inv_def bumped_seq\<close>)
    have "rstore_inv M s'"
      unfolding rstore_inv_def
    proof (intro conjI allI impI)
      fix k
      have "0 \<le> seq_value s k" using inv unfolding rstore_inv_def by blast
      then show "0 \<le> seq_value s' k" using seqs [of k] by (rule order_trans)
    next
      fix k c assume k: "registry s' k = Some c"
      show "issued M s' (fst k) c"
      proof (cases "k = ?k")
        case True
        then have "c = ?c" using k by (simp add: reg)
        then show ?thesis using new True by simp
      next
        case False
        then have "registry s k = Some c" using k by (simp add: reg)
        then have "issued M s (fst k) c" using inv unfolding rstore_inv_def by blast
        then show ?thesis by (rule issued_mono [OF _ seqs])
      qed
    next
      fix k k' c assume eq: "registry s' k = Some c" "registry s' k' = Some c"
      have old: "j = ?k \<and> d = ?c \<or> j \<noteq> ?k \<and> d \<noteq> ?c \<and> registry s j = Some d"
        if "registry s' j = Some d" for j d
        using that ranI [of "registry s" j d] unused by (cases "j = ?k") (auto simp: reg simp del: not_None_eq)
      from old [OF eq(1)] old [OF eq(2)] show "k = k'"
        using inv unfolding rstore_inv_def by blast
    qed
    with step show ?thesis by blast
  qed
qed

lemma redis_step_refines:
  assumes "redis_step M s s'" "rstore_inv M s"
  shows "registry_step (registry s) (registry s') \<and> rstore_inv M s'"
  using assms
proof cases
  case (script p)
  then show ?thesis using script_refines [OF assms(2)] by blast
next
  case (placeholder k)
  then have "registry s' = registry s" by (auto simp: registry_update registry_def)
  then show ?thesis using rstore_inv_mono [OF assms(2), of s'] placeholder stutter by simp
next
  case (expiry k)
  then have "registry s' = registry s" by (auto simp: registry_update registry_def)
  then show ?thesis using rstore_inv_mono [OF assms(2), of s'] expiry stutter by simp
qed

lemma registry_step_keeps: "registry_step A B \<Longrightarrow> A k = Some c \<Longrightarrow> B k = Some c"
  by (auto elim!: registry_step.cases)

text \<open>
  C15 runtime_refines_registry: however the scripts of any clients, stray placeholders and expiries
  interleave, the store simulates the registry: each step leaves the registry alone or gives a student
  without a counter one that nobody holds. Bindings are permanent and no two students (in any year) ever
  share a counter; what a student holds is a number its sequence has issued.
\<close>

theorem runtime_refines_registry:
  assumes "(redis_step M)\<^sup>*\<^sup>* s s'" and "rstore_inv M s"
  shows "registry_step\<^sup>*\<^sup>* (registry s) (registry s') \<and>
    (\<forall>k c. registry s k = Some c \<longrightarrow> registry s' k = Some c) \<and>
    inj_on (registry s') (dom (registry s')) \<and> rstore_inv M s'"
proof -
  have "registry_step\<^sup>*\<^sup>* (registry s) (registry s') \<and>
    (\<forall>k c. registry s k = Some c \<longrightarrow> registry s' k = Some c) \<and> rstore_inv M s'"
    using assms
  proof (induction rule: rtranclp_induct)
    case (step t u)
    then show ?case using redis_step_refines [OF step.hyps(2)] registry_step_keeps
      by (meson rtranclp.rtrancl_into_rtrancl)
  qed simp
  moreover from this have "inj_on (registry s') (dom (registry s'))"
    by (fastforce simp: rstore_inv_def inj_on_def)
  ultimately show ?thesis by blast
qed

definition empty_store :: rstore where
  "empty_store = \<lparr>rs_cells = Map.empty, rs_seqs = Map.empty\<rparr>"

lemma empty_rstore_inv: "rstore_inv M empty_store"
  by (simp add: rstore_inv_def empty_store_def registry_def seq_value_def)

definition sample_normal :: normalized_payload where
  "sample_normal = \<lparr>np_year_code = asc ''03'', np_gender = 0, np_center = 1, np_student_id = asc ''s1''\<rparr>"

theorem runtime_refines_registry_witness:
  "registry_step\<^sup>*\<^sup>* Map.empty ([(asc ''03'', asc ''s1'') \<mapsto> asc ''033730001''])"
proof -
  let ?s = "snd (allocate_script 9999 sample_normal empty_store)"
  have "redis_step 9999 empty_store ?s"
    by (rule script) (simp add: payload_ok_def sample_normal_def asc_def)
  then have "(redis_step 9999)\<^sup>*\<^sup>* empty_store ?s" by blast
  note refined = runtime_refines_registry [OF this empty_rstore_inv]
  have "asc ''03'' @ prefix_of 0 @ fmt_0d 4 1 = asc ''033730001''" by code_simp
  then have "registry ?s = [(asc ''03'', asc ''s1'') \<mapsto> asc ''033730001'']"
    by (auto simp: allocate_script_def sample_normal_def empty_store_def registry_def seq_value_def Let_def)
  moreover have "registry empty_store = Map.empty" by (rule ext) (simp add: registry_def empty_store_def)
  ultimately show ?thesis using refined by metis
qed

section \<open>What a call of the runtime does\<close>

definition env_ok :: "int \<Rightarrow> world \<Rightarrow> bool" where
  "env_ok M W \<longleftrightarrow> (\<forall>i s. (redis_step M)\<^sup>*\<^sup>* s (w_env W i s))"

text \<open>A pause is a wait of the runtime or a backoff of the executor with its jitter.\<close>

definition pause_ok :: "runtime_config \<Rightarrow> world \<Rightarrow> pyfloat \<Rightarrow> bool" where
  "pause_ok C W d \<longleftrightarrow> d \<le> fdiv (of_int (rc_wait_max C)) 1000 \<or>
     (\<exists>j. d \<le> fadd (rr_max_delay (rc_redis C)) (fmul (w_rng W j) (rr_jitter (rc_redis C))))"

lemma executor_delay_ok: "R = rc_redis C \<Longrightarrow> pause_ok C W (executor_delay R W i delay)"
  unfolding pause_ok_def executor_delay_def fadd_def by (intro disjI2 exI [of _ i] fl_mono) simp

lemma executor_call_steps:
  assumes "env_ok M W" "payload_ok p" "R = rc_redis C"
  shows "executor_call R W (allocate_script M p) left delay i s sleeps = (r, i', s', sleeps') \<Longrightarrow>
    (redis_step M)\<^sup>*\<^sup>* s s' \<and> i' \<le> i + left \<and>
    (\<forall>resp. r = Some resp \<longrightarrow> i < i' \<and> (\<exists>t. (resp, s') = allocate_script M p t)) \<and>
    length sleeps' + i \<le> length sleeps + i' \<and> (r \<noteq> None \<longrightarrow> length sleeps' + i + 1 \<le> length sleeps + i') \<and>
    (\<forall>d \<in> set sleeps'. d \<in> set sleeps \<or> pause_ok C W d)"
proof (induction left arbitrary: delay i s sleeps)
  case (Suc left)
  let ?t = "w_env W i s" and ?d = "min (rr_max_delay R) (fmul delay 2)" and ?ss = "sleeps @ [executor_delay R W i delay]"
  have env: "(redis_step M)\<^sup>*\<^sup>* s ?t" using assms(1) by (simp add: env_ok_def)
  have run: "(redis_step M)\<^sup>*\<^sup>* s (snd (allocate_script M p ?t))"
    using env script [OF assms(2)] by (rule rtranclp.rtrancl_into_rtrancl)
  have lost: ?case
    if u: "(redis_step M)\<^sup>*\<^sup>* s u" and eq: "(if left = 0 then (None, Suc i, u, sleeps)
      else executor_call R W (allocate_script M p) left ?d (Suc i) u ?ss) = (r, i', s', sleeps')" for u
  proof (cases "left = 0")
    case False
    then have "executor_call R W (allocate_script M p) left ?d (Suc i) u ?ss = (r, i', s', sleeps')" using eq by simp
    from Suc.IH [OF this] show ?thesis using u executor_delay_ok [OF assms(3), of W i delay] by (auto intro: rtranclp_trans)
  qed (use eq u in auto)
  show ?case
  proof (cases "w_net W i")
    case Delivered
    then show ?thesis using Suc.prems run
      by (auto simp: case_prod_beta Let_def intro!: exI [of _ ?t])
  next
    case RequestLost
    then show ?thesis using Suc.prems by (intro lost [OF env]) (simp add: Let_def)
  next
    case ResponseLost
    then show ?thesis using Suc.prems by (intro lost [OF run]) (simp add: Let_def)
  qed
qed simp

lemma script_response:
  assumes "(resp, s') = allocate_script M p t" "resp = R_NEW c \<or> resp = R_REUSED c"
  shows "registry s' (np_year_code p, np_student_id p) = Some c"
  using assms unfolding allocate_script_cases
  by (auto simp: bumped_def registry_def split: option.splits cell.splits if_splits)

definition run_ok :: "runtime_config \<Rightarrow> world \<Rightarrow> normalized_payload \<Rightarrow> rstore \<Rightarrow> nat \<Rightarrow> nat \<Rightarrow> nat \<Rightarrow> runtime_run \<Rightarrow> bool" where
  "run_ok C W p s i n left r \<longleftrightarrow>
     (redis_step (rc_max_serial C))\<^sup>*\<^sup>* s (ru_store r) \<and>
     ru_ops r \<le> i + left * rr_attempts (rc_redis C) \<and>
     (\<forall>c. ru_result r = Inr c \<longrightarrow>
        is_counter c \<and> registry (ru_store r) (np_year_code p, np_student_id p) = Some c) \<and>
     length (ru_sleeps r) + i \<le> n + ru_ops r \<and> (\<forall>d \<in> set (ru_sleeps r). pause_ok C W d)"

lemma runtime_loop_ok:
  assumes "env_ok (rc_max_serial C) W" "payload_ok p"
  shows "\<forall>d \<in> set sleeps. pause_ok C W d \<Longrightarrow>
    run_ok C W p s i (length sleeps) left (runtime_loop C W p left attempt backoff i s sleeps evs)"
proof (induction left arbitrary: attempt backoff i s sleeps evs)
  case 0
  then show ?case by (simp add: run_ok_def)
next
  case (Suc left)
  obtain resp i' s' sleeps' where call:
    "executor_call (rc_redis C) W (allocate_script (rc_max_serial C) p) (rr_attempts (rc_redis C))
       (rr_base_delay (rc_redis C)) i s sleeps = (resp, i', s', sleeps')"
    by (metis prod_cases4)
  note steps = executor_call_steps [OF assms refl call]
  then have pauses: "\<forall>d \<in> set sleeps'. pause_ok C W d" using Suc.prems by blast
  show ?case
  proof (cases resp)
    case None
    then show ?thesis using call steps pauses by (simp add: run_ok_def)
  next
    case (Some r)
    then obtain t where t: "(r, s') = allocate_script (rc_max_serial C) p t" using steps by blast
    show ?thesis
    proof (cases r)
      case (R_NEW c)
      then show ?thesis using call steps Some pauses script_response [OF t, of c]
        by (simp add: run_ok_def accept_counter_def)
    next
      case (R_REUSED c)
      then show ?thesis using call steps Some pauses script_response [OF t, of c]
        by (simp add: run_ok_def accept_counter_def)
    next
      case R_EXHAUSTED
      then show ?thesis using call steps Some pauses by (simp add: run_ok_def)
    next
      case R_PENDING
      show ?thesis
      proof (cases "attempt = rc_wait_attempts C")
        case True
        then show ?thesis using R_PENDING call steps Some pauses by (simp add: run_ok_def)
      next
        case False
        let ?m = "fdiv (of_int (rc_wait_max C)) 1000"
        have "\<forall>d \<in> set (sleeps' @ [min backoff ?m]). pause_ok C W d" using pauses by (auto simp: pause_ok_def)
        from Suc.IH [OF this, of s' i' "Suc attempt" "min (fmul backoff 2) ?m" "evs @ [AllocRetry 1]"]
        have "run_ok C W p s' i' (length sleeps' + 1) left (runtime_loop C W p (Suc left) attempt backoff i s sleeps evs)"
          using R_PENDING Some call False by (simp add: Let_def)
        then show ?thesis
          using steps Some unfolding run_ok_def by (auto simp: algebra_simps intro: rtranclp_trans)
      qed
    qed
  qed
qed

lemma code_for_length: "code_for U m y = Some c \<Longrightarrow> length c = 2"
  by (auto simp: code_for_def Let_def split: if_splits option.splits)

lemma normalize_int_field_allowed: "normalize_int_field U v A = Some n \<Longrightarrow> n \<in> A"
  by (auto simp: normalize_int_field_def Let_def split: if_splits option.splits)

lemma runtime_payload_ok: "runtime_payload U m payload = Some p \<Longrightarrow> payload_ok p"
  using code_for_length normalize_int_field_allowed
  by (fastforce simp: runtime_payload_def payload_ok_def split: option.splits)

lemma runtime_allocate_ok:
  assumes "env_ok (rc_max_serial C) W" "runtime_payload U m payload = Some p"
  shows "run_ok C W p s i 0 (rc_wait_attempts C) (runtime_allocate U m C W payload i s)"
  using runtime_loop_ok [OF assms(1) runtime_payload_ok [OF assms(2)], of "[]"] assms(2)
  by (simp add: runtime_allocate_def)

text \<open>
  C22 allocation_is_exactly_once: whatever other clients do, and whatever requests or responses are lost, a
  call of \<^verbatim>\<open>allocate\<close> performs at most wait attempts times Redis attempts operations, sleeps at most once after each,
  never longer than the maximal wait or the maximal delay of the executor with its jitter,
  and if it returns a counter, the counter has the documented format and is bound to the
  student for good: in every later store nobody else holds it, and every later call for the same student and
  year that returns a counter returns this one.
\<close>

theorem allocation_is_exactly_once:
  assumes env: "env_ok (rc_max_serial C) W" and inv: "rstore_inv (rc_max_serial C) s"
    and p: "runtime_payload U m payload = Some p"
    and r: "r = runtime_allocate U m C W payload i s"
  defines "k \<equiv> (np_year_code p, np_student_id p)"
  shows "ru_ops r \<le> i + rc_wait_attempts C * rr_attempts (rc_redis C) \<and> length (ru_sleeps r) + i \<le> ru_ops r \<and>
    (\<forall>d \<in> set (ru_sleeps r). d \<le> fdiv (of_int (rc_wait_max C)) 1000 \<or>
       (\<exists>j. d \<le> fadd (rr_max_delay (rc_redis C)) (fmul (w_rng W j) (rr_jitter (rc_redis C))))) \<and>
    (\<forall>c t. ru_result r = Inr c \<and> (redis_step (rc_max_serial C))\<^sup>*\<^sup>* (ru_store r) t \<longrightarrow>
       is_counter c \<and> registry t k = Some c \<and> (\<forall>k'. registry t k' = Some c \<longrightarrow> k' = k) \<and>
       (\<forall>W' j c'. env_ok (rc_max_serial C) W' \<and> ru_result (runtime_allocate U m C W' payload j t) = Inr c' \<longrightarrow>
          c' = c))"
proof -
  note ok = runtime_allocate_ok [OF env p, of s i, folded r]
  have later: "is_counter c \<and> registry t k = Some c \<and> (\<forall>k'. registry t k' = Some c \<longrightarrow> k' = k) \<and>
      rstore_inv (rc_max_serial C) t"
    if c: "ru_result r = Inr c" and t: "(redis_step (rc_max_serial C))\<^sup>*\<^sup>* (ru_store r) t" for c t
  proof -
    have "rstore_inv (rc_max_serial C) (ru_store r)"
      using runtime_refines_registry [OF _ inv] ok by (simp add: run_ok_def)
    from runtime_refines_registry [OF t this] ok c have "registry t k = Some c" "rstore_inv (rc_max_serial C) t"
      by (auto simp: run_ok_def k_def)
    moreover from this have "k' = k" if "registry t k' = Some c" for k'
      using that unfolding rstore_inv_def by blast
    moreover have "is_counter c" using ok c unfolding run_ok_def by blast
    ultimately show ?thesis by blast
  qed
  have "c' = c"
    if c: "ru_result r = Inr c" "(redis_step (rc_max_serial C))\<^sup>*\<^sup>* (ru_store r) t" "env_ok (rc_max_serial C) W'"
      and c': "ru_result (runtime_allocate U m C W' payload j t) = Inr c'" for c t W' j c'
  proof -
    note l = later [OF c(1,2)]
    note ok' = runtime_allocate_ok [OF c(3) p, of t j]
    then have "(redis_step (rc_max_serial C))\<^sup>*\<^sup>* t (ru_store (runtime_allocate U m C W' payload j t))"
      by (simp add: run_ok_def)
    from runtime_refines_registry [OF this] l
    have "registry (ru_store (runtime_allocate U m C W' payload j t)) k = Some c" by blast
    then show ?thesis using ok' c' by (simp add: run_ok_def k_def)
  qed
  moreover have "length (ru_sleeps r) + i \<le> ru_ops r" using ok by (simp add: run_ok_def)
  ultimately show ?thesis using ok later unfolding run_ok_def pause_ok_def by blast
qed

definition sample_payload :: counter_payload where
  "sample_payload = \<lparr>cp_year = PStr [1777, 1780, 1776, 1779], cp_gender = PInt 0, cp_center = PStr (asc ''1''),
     cp_student_id = PStr (asc '' s1 '')\<rparr>"

definition lossy_world :: world where
  "lossy_world = \<lparr>w_env = (\<lambda>i s. s), w_net = (\<lambda>i. if i = 0 then ResponseLost else Delivered), w_rng = (\<lambda>i. 1 / 2)\<rparr>"

definition sample_runtime :: runtime_config where
  "sample_runtime = make_runtime 9999 5 20 200
     \<lparr>rr_attempts = 3, rr_base_delay = fdiv 5 100, rr_max_delay = fdiv 5 10, rr_jitter = fdiv 5 100\<rparr>"

theorem allocation_is_exactly_once_witness:
  "\<exists>r. r = runtime_allocate ascii_ucd Map.empty sample_runtime lossy_world sample_payload 0 empty_store \<and>
     ru_result r = Inr (asc ''033730001'') \<and> registry (ru_store r) (asc ''03'', asc ''s1'') = Some (asc ''033730001'')"
proof -
  let ?r = "runtime_allocate ascii_ucd Map.empty sample_runtime lossy_world sample_payload 0 empty_store"
  have env: "env_ok (rc_max_serial sample_runtime) lossy_world" by (simp add: env_ok_def lossy_world_def)
  have p: "runtime_payload ascii_ucd Map.empty sample_payload = Some sample_normal" by code_simp
  have res: "ru_result ?r = Inr (asc ''033730001'')" by code_simp
  from allocation_is_exactly_once [OF env empty_rstore_inv p refl, of 0] res
  have "registry (ru_store ?r) (np_year_code sample_normal, np_student_id sample_normal) = Some (asc ''033730001'')"
    by blast
  then show ?thesis using res by (simp add: sample_normal_def)
qed

text \<open>
  A preview that succeeds shows the counter that the next script run for a student
  without a cell in that year gets, provided nothing happens in between, and a preview that finds the sequence
  exhausted predicts exhaustion. An exhausted run still raises the sequence, which stays above the limit.
\<close>

theorem preview_predicts:
  assumes "runtime_payload U m payload = Some p" "rs_cells s (np_year_code p, np_student_id p) = None"
  shows "(case runtime_preview U m C payload s of
       Inr c \<Rightarrow> fst (allocate_script (rc_max_serial C) p s) = R_NEW c
     | Inl e \<Rightarrow> e = COUNTER_EXHAUSTED \<and> fst (allocate_script (rc_max_serial C) p s) = R_EXHAUSTED \<and>
         runtime_preview U m C payload (snd (allocate_script (rc_max_serial C) p s)) = Inl COUNTER_EXHAUSTED)"
  using assms
  by (auto simp: runtime_preview_def runtime_payload_def allocate_script_cases new_counter_def bumped_seq Let_def
      split: option.splits)

theorem preview_predicts_witness:
  "runtime_preview ascii_ucd Map.empty sample_runtime sample_payload empty_store = Inr (asc ''033730001'') \<and>
   fst (allocate_script 9999 sample_normal empty_store) = R_NEW (asc ''033730001'')"
proof -
  have p: "runtime_payload ascii_ucd Map.empty sample_payload = Some sample_normal" by code_simp
  have v: "runtime_preview ascii_ucd Map.empty sample_runtime sample_payload empty_store = Inr (asc ''033730001'')"
    by code_simp
  have "rs_cells empty_store k = None" "rc_max_serial sample_runtime = 9999" for k
    by (simp_all add: empty_store_def sample_runtime_def make_runtime_def)
  with preview_predicts [OF p, of empty_store sample_runtime] v show ?thesis by simp
qed

end
