(* ===== verification/Sabt_Text.thy ===== *)
theory Sabt_Text
  imports PyBase
begin

text \<open>
  \<^verbatim>\<open>phase6_import_to_sabt/normalization.py\<close> and the text functions of \<^verbatim>\<open>sanitization.py\<close>: how the cells of
  the SABT export are cleaned, and the guard against spreadsheet formulas. The facts here say
  what a clean text cannot contain, that cleaning twice changes nothing as long as NFKC leaves the
  clean text alone, and what a guarded text can begin with. Values of type \<^verbatim>\<open>bytes\<close> are left out.
\<close>

section \<open>Normalisation of text\<close>

definition ZERO_WIDTH_TEXT :: "int list" where
  "ZERO_WIDTH_TEXT = [8203, 8204, 8205, 65279]"

definition control_char :: "int \<Rightarrow> bool" where
  "control_char c \<longleftrightarrow>
     0 \<le> c \<and> c \<le> 8 \<or> c = 11 \<or> c = 12 \<or> 14 \<le> c \<and> c \<le> 31 \<or> c = 127"

definition fold_digits :: "pystr \<Rightarrow> pystr" where
  "fold_digits value = map fold_fa_digit value"

definition strip_zero_width :: "pystr \<Rightarrow> pystr" where
  "strip_zero_width value = foldl (\<lambda>v ch. remove_chars [ch] v) value ZERO_WIDTH_TEXT"

definition sanitize_text :: "ucd \<Rightarrow> pyval \<Rightarrow> pystr" where
  "sanitize_text U value =
     (let text = (case value of PNone \<Rightarrow> [] | _ \<Rightarrow> py_str value)
      in if text = [] then []
         else let text = u_nfkc U text;
                  text = replace_char 1603 1705 (replace_char 1610 1740 text);
                  text = strip_zero_width text;
                  text = filter (\<lambda>c. \<not> control_char c) text;
                  text = fold_digits text;
                  text = replace_char 9 32 (replace_char 10 32 (replace_char 13 32 text))
              in py_strip text)"

definition sanitize_phone :: "ucd \<Rightarrow> pyval \<Rightarrow> pystr" where
  "sanitize_phone U value = filter digit_char (sanitize_text U value)"

definition mask_mobile :: "ucd \<Rightarrow> pyval \<Rightarrow> pystr" where
  "mask_mobile U value =
     (let mobile = sanitize_phone U value
      in if length mobile < 4 then mobile else take 4 mobile @ asc ''****'' @ last_n 2 mobile)"

definition risky_prefixes :: "int list" where
  "risky_prefixes = [61, 43, 45, 64, 9, 39, 34]"

definition guard_formula :: "pystr \<Rightarrow> pystr" where
  "guard_formula value =
     (case value of
        [] \<Rightarrow> value
      | first # rest \<Rightarrow>
          if first \<in> set risky_prefixes then
            if first = 39 \<and> rest \<noteq> [] \<and> hd rest \<in> set [61, 43, 45, 64, 9, 34, 39] then value
            else 39 # value
          else value)"

declare ZERO_WIDTH_TEXT_def [py_defs] control_char_def [py_defs] fold_digits_def [py_defs]
  strip_zero_width_def [py_defs] sanitize_text_def [py_defs] sanitize_phone_def [py_defs]
  risky_prefixes_def [py_defs] guard_formula_def [py_defs]

section \<open>Clean text\<close>

text \<open>The characters that a cleaned text never contains: no step after the removal brings one back.\<close>

definition unclean_char :: "int \<Rightarrow> bool" where
  "unclean_char c \<longleftrightarrow> c \<in> set ZERO_WIDTH_TEXT \<or> control_char c \<or> c \<in> {9, 10, 13, 1603, 1610} \<or>
     1632 \<le> c \<and> c \<le> 1641 \<or> 1776 \<le> c \<and> c \<le> 1785"

definition clean_text :: "ucd \<Rightarrow> pystr \<Rightarrow> bool" where
  "clean_text U s \<longleftrightarrow> list_all (\<lambda>c. \<not> unclean_char c) s \<and> py_strip s = s \<and> u_nfkc U s = s"

lemma strip_zero_width_filter: "strip_zero_width s = filter (\<lambda>c. c \<notin> set ZERO_WIDTH_TEXT) s"
  by (simp add: strip_zero_width_def ZERO_WIDTH_TEXT_def remove_chars_def conj_ac)

lemma replace_char_id: "a \<notin> set s \<Longrightarrow> replace_char a b s = s"
  by (auto simp: replace_char_def intro!: map_idI)

lemma set_replace_char: "set (replace_char a b s) \<subseteq> insert b (set s - {a})"
  by (auto simp: replace_char_def)

lemma line_breaks_to_blanks:
  "replace_char 9 32 (replace_char 10 32 (replace_char 13 32 s)) = map (\<lambda>c. if c \<in> {9, 10, 13} then 32 else c) s"
  by (simp add: replace_char_def)

lemma sanitize_text_chars:
  assumes "c \<in> set (sanitize_text U v)"
  shows "\<not> unclean_char c"
proof -
  obtain t where t: "c \<in> set (py_strip (replace_char 9 32 (replace_char 10 32 (replace_char 13 32
      (fold_digits (filter (\<lambda>c. \<not> control_char c) (strip_zero_width
        (replace_char 1603 1705 (replace_char 1610 1740 t)))))))))"
    using assms by (simp add: sanitize_text_def Let_def split: if_split_asm)
  define r where "r = replace_char 1603 1705 (replace_char 1610 1740 t)"
  have r: "1603 \<notin> set r" "1610 \<notin> set r"
    by (auto simp: r_def replace_char_def image_iff)
  have "c \<in> set (map (\<lambda>c. if c \<in> {9, 10, 13} then 32 else c)
      (fold_digits (filter (\<lambda>c. \<not> control_char c) (strip_zero_width r))))"
    using t subsetD [OF strip_by_set] unfolding line_breaks_to_blanks py_strip_def r_def by blast
  then obtain d where "d \<in> set r" "d \<notin> set ZERO_WIDTH_TEXT" "\<not> control_char d"
    and d5: "c = (if fold_fa_digit d \<in> {9, 10, 13} then 32 else fold_fa_digit d)"
    unfolding fold_digits_def strip_zero_width_filter set_map set_filter by blast
  then have d: "d \<noteq> 1603" "d \<noteq> 1610" "d \<notin> set ZERO_WIDTH_TEXT" "\<not> control_char d" using r by auto
  define e where "e = fold_fa_digit d"
  have "e = d \<and> \<not> (1632 \<le> e \<and> e \<le> 1641) \<and> \<not> (1776 \<le> e \<and> e \<le> 1785) \<or> 48 \<le> e \<and> e \<le> 57"
    by (simp add: e_def fold_fa_digit_def)
  then show ?thesis
  proof
    assume "48 \<le> e \<and> e \<le> 57"
    then show ?thesis using d5 by (simp add: e_def [symmetric] unclean_char_def ZERO_WIDTH_TEXT_def control_char_def)
  next
    assume e: "e = d \<and> \<not> (1632 \<le> e \<and> e \<le> 1641) \<and> \<not> (1776 \<le> e \<and> e \<le> 1785)"
    have "\<not> unclean_char 32" by code_simp
    moreover have "c = 32 \<or> c = e \<and> e \<notin> {9, 10, 13}" using d5 by (auto simp: e_def [symmetric])
    ultimately show ?thesis using d e unfolding unclean_char_def by auto
  qed
qed

lemma sanitize_text_stripped: "py_strip (sanitize_text U v) = sanitize_text U v"
  by (simp add: sanitize_text_def Let_def py_strip_def strip_by_idem)

lemma sanitize_clean: "u_nfkc U (sanitize_text U v) = sanitize_text U v \<Longrightarrow> clean_text U (sanitize_text U v)"
  using sanitize_text_chars sanitize_text_stripped by (auto simp: clean_text_def list_all_iff)

lemma sanitize_text_id: "clean_text U s \<Longrightarrow> sanitize_text U (PStr s) = s"
proof -
  assume s: "clean_text U s"
  have c: "\<not> unclean_char c" if "c \<in> set s" for c using s that by (auto simp: clean_text_def list_all_iff)
  have "strip_zero_width s = s" "filter (\<lambda>c. \<not> control_char c) s = s"
    using c by (auto simp: strip_zero_width_filter filter_id_conv unclean_char_def)
  moreover have "fold_digits s = s"
    using c by (auto simp: fold_digits_def unclean_char_def fold_fa_digit_def intro!: map_idI)
  moreover have "1603 \<notin> set s" "1610 \<notin> set s" "9 \<notin> set s" "10 \<notin> set s" "13 \<notin> set s"
    using c by (auto simp: unclean_char_def)
  ultimately show ?thesis
    using s by (simp add: sanitize_text_def clean_text_def replace_char_id)
qed

text \<open>ASCII text without controls and outer blanks is clean whatever the Unicode tables say of the rest.\<close>

lemma clean_text_ascii:
  "ucd_ok U \<Longrightarrow> list_all (\<lambda>c. 32 \<le> c \<and> c < 127) s \<Longrightarrow> py_strip s = s \<Longrightarrow> clean_text U s"
proof -
  assume a: "ucd_ok U" "list_all (\<lambda>c. 32 \<le> c \<and> c < 127) s" "py_strip s = s"
  have "u_nfkc U s = s"
    using a(1,2) by (intro ucd_ok_nfkc is_ascii_nfkc_stable) (auto simp: is_ascii_def list_all_iff)
  then show ?thesis
    using a(2,3)
    by (auto simp: clean_text_def list_all_iff unclean_char_def ZERO_WIDTH_TEXT_def control_char_def)
qed

lemma py_strip_no_space: "list_all (\<lambda>c. \<not> py_isspace c) s \<Longrightarrow> py_strip s = s"
  by (simp add: py_strip_def strip_by_no_match)

lemma clean_text_digits: "ucd_ok U \<Longrightarrow> ascii_digits s \<Longrightarrow> clean_text U s"
  by (intro clean_text_ascii py_strip_no_space) (auto simp: ascii_digits_def list_all_iff py_isspace_def)

section \<open>Guarded text\<close>

lemma guard_formula_head:
  "guard_formula s = [] \<or> hd (guard_formula s) \<notin> {61, 43, 45, 64, 9, 34}"
  by (cases s) (auto simp: guard_formula_def risky_prefixes_def)

lemma guard_formula_idem: "guard_formula (guard_formula s) = guard_formula s"
  by (cases s) (auto simp: guard_formula_def risky_prefixes_def)

text \<open>The text itself can be read back from the guarded one unless it already looked guarded.\<close>

lemma guard_formula_cases:
  "guard_formula s = s \<or> guard_formula s = 39 # s"
  by (cases s) (auto simp: guard_formula_def)

end
