(* ===== verification/Sabt_Sorter.thy ===== *)
theory Sabt_Sorter
  imports Sabt_Text PyJson
begin

text \<open>
  \<^verbatim>\<open>phase6_import_to_sabt/external_sorter.py\<close>: the rows of an export are sorted with bounded memory.
  \<^verbatim>\<open>prepare\<close> sorts and spills every full buffer to a chunk file and keeps the rest in memory; the generator inside
  \<^verbatim>\<open>iter_sorted\<close> merges the chunks and the memory with a heap. But \<^verbatim>\<open>iter_sorted\<close> is a generator function itself: once
  rows were spilled it yields none, and the merging generator is only the value of its \<^verbatim>\<open>return\<close>, which no loop sees.
  A dict is the list of its items. The workspace maps the
  number of a chunk to the entries of its file (\<^verbatim>\<open>json.loads\<close> of a line gives back what \<^verbatim>\<open>json.dumps\<close> wrote);
  \<open>io\<close> says which chunks can be written. The rows come from a generator, so that each may be an exception.
  \<open>heapq\<close> is a list that is kept sorted by key and index of the iterator.

  The main facts are that the merge equals one stable sort of the cleaned rows by their key, that \<^verbatim>\<open>iter_sorted\<close>
  yields these rows only while they fit into one buffer, and that the order of the keys is the numeric order of center,
  group and school within the widths of the key.
\<close>

section \<open>Errors of the export\<close>

datatype validation_reason =
    InvalidSortKey | InvalidChunkSize | EmptyExport | InvalidRegCenter | InvalidRegStatus
  | InvalidMobile | InvalidCounterPrefix

text \<open>\<open>TransientError\<close> stands for OSError with its subclasses ConnectionError and TimeoutError.\<close>

datatype sabt_error = ExportValidationError validation_reason | ExportIOError | TransientError | PlainValueError

section \<open>Rows and keys\<close>

type_synonym source_row = "(pystr \<times> pyval) list"
type_synonym sabt_row = "(pystr \<times> pystr) list"
type_synonym entry = "pystr list \<times> sabt_row"

record ExternalSorter =
  sr_sort_keys :: "pystr list"
  sr_buffer_rows :: int

definition make_sorter :: "pystr list \<Rightarrow> int \<Rightarrow> sabt_error + ExternalSorter" where
  "make_sorter names buffer_rows =
     (if buffer_rows \<le> 0 then Inl PlainValueError
      else if names = [] then Inl PlainValueError
      else Inr \<lparr>sr_sort_keys = names, sr_buffer_rows = buffer_rows\<rparr>)"

definition sorter_normalize_row :: "ucd \<Rightarrow> source_row \<Rightarrow> sabt_row" where
  "sorter_normalize_row U row =
     map (\<lambda>(key, value). (key, case value of
            PNone \<Rightarrow> []
          | PStr s \<Rightarrow> sanitize_text U (PStr s)
          | _ \<Rightarrow> sanitize_text U (PStr (py_str value)))) row"

definition key_int :: "pystr option \<Rightarrow> int \<Rightarrow> sabt_error + int" where
  "key_int value dflt =
     (case value of
        None \<Rightarrow> Inr dflt
      | Some s \<Rightarrow>
          if s = [] then Inr dflt
          else (case py_int s of None \<Rightarrow> Inl (ExportValidationError InvalidSortKey) | Some n \<Rightarrow> Inr n))"

definition key_component :: "sabt_row \<Rightarrow> pystr \<Rightarrow> sabt_error + pystr" where
  "key_component row name =
     (if name = asc ''reg_center'' then rbind (key_int (map_of row name) 0) (\<lambda>n. Inr (fmt_0d 3 n))
      else if name = asc ''group_code'' then rbind (key_int (map_of row name) 0) (\<lambda>n. Inr (fmt_0d 6 n))
      else if name = asc ''school_code'' then rbind (key_int (map_of row name) 999999) (\<lambda>n. Inr (fmt_0d 6 n))
      else (case map_of row name of
              None \<Rightarrow> Inl (ExportValidationError InvalidSortKey) | Some v \<Rightarrow> Inr v))"

definition build_key :: "pystr list \<Rightarrow> sabt_row \<Rightarrow> sabt_error + pystr list" where
  "build_key names row = rmap (key_component row) names"

section \<open>Spilling\<close>

record sort_state =
  so_files :: "nat \<Rightarrow> entry list option"
  so_chunk_paths :: "nat list"
  so_buffer :: "entry list"
  so_total_rows :: nat
  so_spill_bytes :: nat

record SortPlan =
  sp_chunk_paths :: "nat list"
  sp_in_memory :: "entry list"
  sp_total_rows :: nat
  sp_chunk_count :: nat
  sp_spill_bytes :: nat

definition chunk_line :: "entry \<Rightarrow> pystr" where
  "chunk_line e =
     (case dumps (asc '','') (asc '':'')
             (JDict [(asc ''key'', JList (map JStr (fst e))),
                     (asc ''row'', JDict (map (\<lambda>(k, v). (k, JStr v)) (snd e)))]) of
        None \<Rightarrow> [] | Some t \<Rightarrow> t @ [10])"

definition spill_chunk :: "(nat \<Rightarrow> bool) \<Rightarrow> sort_state \<Rightarrow> sabt_error + sort_state" where
  "spill_chunk io st =
     (let index = length (so_chunk_paths st); buffer = sort_key fst (so_buffer st)
      in case utf8_size (concat (map chunk_line buffer)) of
           None \<Rightarrow> Inl PlainValueError
         | Some written \<Rightarrow>
             if io index then
               Inr (st\<lparr>so_files := (so_files st)(index := Some buffer),
                       so_chunk_paths := so_chunk_paths st @ [index],
                       so_spill_bytes := so_spill_bytes st + written, so_buffer := []\<rparr>)
             else Inl ExportIOError)"

fun prepare_loop ::
  "ucd \<Rightarrow> ExternalSorter \<Rightarrow> (nat \<Rightarrow> bool) \<Rightarrow> (sabt_error + source_row) list \<Rightarrow> sort_state
   \<Rightarrow> sabt_error + sort_state" where
  "prepare_loop U S io [] st = Inr st"
| "prepare_loop U S io (item # rows) st =
     rbind item (\<lambda>row.
       let normalized = sorter_normalize_row U row
       in rbind (build_key (sr_sort_keys S) normalized) (\<lambda>key.
            let st = st\<lparr>so_buffer := so_buffer st @ [(key, normalized)],
                        so_total_rows := so_total_rows st + 1\<rparr>
            in rbind (if int (length (so_buffer st)) \<ge> sr_buffer_rows S then spill_chunk io st else Inr st)
                 (\<lambda>st. prepare_loop U S io rows st)))"

definition prepare ::
  "ucd \<Rightarrow> ExternalSorter \<Rightarrow> (nat \<Rightarrow> bool) \<Rightarrow> (sabt_error + source_row) list
   \<Rightarrow> sabt_error + SortPlan \<times> (nat \<Rightarrow> entry list option)" where
  "prepare U S io rows =
     rbind (prepare_loop U S io rows
              \<lparr>so_files = (\<lambda>_. None), so_chunk_paths = [], so_buffer = [], so_total_rows = 0, so_spill_bytes = 0\<rparr>)
       (\<lambda>st. Inr (\<lparr>sp_chunk_paths = so_chunk_paths st, sp_in_memory = sort_key fst (so_buffer st),
                  sp_total_rows = so_total_rows st, sp_chunk_count = length (so_chunk_paths st),
                  sp_spill_bytes = so_spill_bytes st\<rparr>, so_files st))"

section \<open>Merging\<close>

record heap_item =
  hi_key :: "pystr list"
  hi_index :: nat
  hi_row :: sabt_row
  hi_rest :: "entry list"

definition heap_order :: "heap_item \<Rightarrow> pystr list \<times> nat" where
  "heap_order item = (hi_key item, hi_index item)"

definition chunk_iterator :: "ucd \<Rightarrow> entry list option \<Rightarrow> sabt_error + entry list" where
  "chunk_iterator U file =
     (case file of
        None \<Rightarrow> Inl ExportIOError
      | Some entries \<Rightarrow>
          Inr (map (\<lambda>(key, row). (key, map (\<lambda>(k, v). (k, sanitize_text U (PStr v))) row)) entries))"

text \<open>\<^verbatim>\<open>next(iterator)\<close>: the item of the first entry, nothing when the iterator is exhausted.\<close>

fun next_item :: "nat \<Rightarrow> entry list \<Rightarrow> heap_item option" where
  "next_item index [] = None"
| "next_item index ((key, row) # rest) =
     Some \<lparr>hi_key = key, hi_index = index, hi_row = row, hi_rest = rest\<rparr>"

definition heap_size :: "heap_item list \<Rightarrow> nat" where
  "heap_size heap = sum_list (map (\<lambda>i. Suc (length (hi_rest i))) heap)"

lemma heap_size_simps [simp]:
  "heap_size [] = 0"
  "heap_size (i # heap) = Suc (length (hi_rest i)) + heap_size heap"
  "heap_size (insort_key f i heap) = Suc (length (hi_rest i)) + heap_size heap"
  by (simp_all add: heap_size_def) (induction heap, auto)

function merge_loop :: "heap_item list \<Rightarrow> sabt_row list" where
  "merge_loop [] = []"
| "merge_loop (item # heap) =
     hi_row item #
     (case next_item (hi_index item) (hi_rest item) of
        None \<Rightarrow> merge_loop heap
      | Some item' \<Rightarrow> merge_loop (insort_key heap_order item' heap))"
  by pat_completeness auto
termination
proof (relation "measure heap_size", goal_cases)
  case (3 item heap item')
  then have "length (hi_rest item') < length (hi_rest item)" by (cases "hi_rest item") auto
  then show ?case by simp
qed auto

definition initial_heap :: "entry list list \<Rightarrow> heap_item list" where
  "initial_heap iterators =
     sort_key heap_order (List.map_filter (\<lambda>(index, it). next_item index it) (enumerate 0 iterators))"

text \<open>\<^verbatim>\<open>_generator()\<close>, run to its end.\<close>

definition sorted_generator ::
  "ucd \<Rightarrow> SortPlan \<Rightarrow> (nat \<Rightarrow> entry list option) \<Rightarrow> sabt_error + sabt_row list" where
  "sorted_generator U plan files =
     rbind (rmap (\<lambda>path. chunk_iterator U (files path)) (sp_chunk_paths plan))
       (\<lambda>iterators. Inr (merge_loop (initial_heap
          (iterators @ (if sp_in_memory plan = [] then [] else [sp_in_memory plan])))))"

text \<open>
  The rows a loop over \<^verbatim>\<open>iter_sorted(plan)\<close> gets, and the value of its \<^verbatim>\<open>return\<close>, which goes into the StopIteration that
  ends the loop. The generator in that value has not started, so that no chunk file is opened.
\<close>

definition iter_sorted ::
  "ucd \<Rightarrow> SortPlan \<Rightarrow> (nat \<Rightarrow> entry list option) \<Rightarrow> sabt_row list \<times> (sabt_error + sabt_row list) option" where
  "iter_sorted U plan files =
     (if sp_chunk_count plan = 0 then (map snd (sp_in_memory plan), None)
      else ([], Some (sorted_generator U plan files)))"

definition cleanup :: "SortPlan option \<Rightarrow> (nat \<Rightarrow> entry list option) \<Rightarrow> (nat \<Rightarrow> entry list option)" where
  "cleanup plan files = (\<lambda>_. None)"

section \<open>The merge is a stable sort\<close>

lemma sort_key_cons_min:
  fixes f :: "'a \<Rightarrow> 'b::linorder"
  assumes "\<forall>b \<in> set zs. f x \<le> f b"
  shows "sort_key f (x # zs) = x # sort_key f zs"
proof -
  have "\<forall>b \<in> set (sort_key f zs). f x \<le> f b" using assms by simp
  then show ?thesis by (cases "sort_key f zs") auto
qed

lemma sort_key_pull:
  fixes f :: "'a \<Rightarrow> 'b::linorder"
  assumes "\<forall>a \<in> set as. f x < f a" and "\<forall>b \<in> set zs. f x \<le> f b"
  shows "sort_key f (as @ x # zs) = x # sort_key f (as @ zs)"
  using assms
proof (induction as)
  case Nil
  then show ?case using sort_key_cons_min [of zs f x] by simp
qed (auto dest: leD)

lemma insort_key_split:
  "insort_key f x ys = takeWhile (\<lambda>y. f y < f x) ys @ x # dropWhile (\<lambda>y. f y < f x) ys"
  by (induction ys) (auto simp: not_le)

lemma sort_key_insort:
  fixes f :: "'a \<Rightarrow> 'b::linorder" and g :: "'a \<Rightarrow> 'c::linorder"
  assumes "inj_on f (insert x (set xs))"
  shows "sort_key f (insort_key g x xs) = insort_key f x (sort_key f xs)"
  using assms by (intro sort_key_inj_key_eq) (auto simp: sorted_insort_key set_insort_key)

definition item_entries :: "heap_item \<Rightarrow> entry list" where
  "item_entries i = (hi_key i, hi_row i) # hi_rest i"

definition heap_ok :: "heap_item list \<Rightarrow> bool" where
  "heap_ok heap \<longleftrightarrow> sorted (map heap_order heap) \<and> distinct (map hi_index heap) \<and>
     list_all (\<lambda>i. sorted (map fst (item_entries i))) heap"

text \<open>What is still to come, iterator after iterator.\<close>

definition pending :: "heap_item list \<Rightarrow> entry list" where
  "pending heap = concat (map item_entries (sort_key hi_index heap))"

lemma pending_Cons:
  "pending (i # heap) =
     concat (map item_entries (takeWhile (\<lambda>y. hi_index y < hi_index i) (sort_key hi_index heap))) @
     item_entries i @
     concat (map item_entries (dropWhile (\<lambda>y. hi_index y < hi_index i) (sort_key hi_index heap)))"
  by (simp add: pending_def insort_key_split)

lemma next_item_entries:
  "next_item n es = (if es = [] then None else Some \<lparr>hi_key = fst (hd es), hi_index = n, hi_row = snd (hd es), hi_rest = tl es\<rparr>)"
  by (cases "(n, es)" rule: next_item.cases) auto

lemma pending_insort:
  assumes "distinct (map hi_index (i # heap))"
  shows "pending (insort_key heap_order i heap) = pending (i # heap)"
proof -
  have "inj_on hi_index (insert i (set heap))" using assms by (auto simp: distinct_map)
  then show ?thesis by (simp add: pending_def sort_key_insort)
qed

lemma heap_ok_tail: "heap_ok (i # heap) \<Longrightarrow> heap_ok heap"
  by (simp add: heap_ok_def)

lemma heap_ok_next:
  assumes "heap_ok (i # heap)" and "next_item (hi_index i) (hi_rest i) = Some j"
  shows "heap_ok (insort_key heap_order j heap) \<and> item_entries j = hi_rest i \<and> hi_index j = hi_index i"
proof -
  have j: "item_entries j = hi_rest i" "hi_index j = hi_index i"
    using assms(2) by (auto simp: next_item_entries item_entries_def split: if_split_asm)
  moreover have "distinct (map hi_index (insort_key heap_order j heap))"
  proof -
    have "mset (map hi_index (insort_key heap_order j heap)) = mset (map hi_index (i # heap))"
      using j(2) by (simp add: mset_insort)
    then show ?thesis using assms(1) mset_eq_imp_distinct_iff unfolding heap_ok_def by blast
  qed
  moreover have "sorted (map fst (item_entries j))"
    using assms(1) unfolding j(1) by (simp add: heap_ok_def item_entries_def)
  ultimately show ?thesis
    using assms(1) by (auto simp: heap_ok_def sorted_insort_key list_all_iff set_insort_key)
qed

text \<open>The head of the heap is less than everything before it in iterator order and at most everything after it.\<close>

lemma heap_head_least:
  assumes ok: "heap_ok (i # heap)" and e: "e \<in> set (item_entries j)" "j \<in> set heap"
  shows "hi_key i \<le> fst e" and "hi_index j < hi_index i \<Longrightarrow> hi_key i < fst e"
proof -
  have "sorted (map fst (item_entries j))" "heap_order i \<le> heap_order j" "hi_index i \<noteq> hi_index j"
    using ok e(2) by (auto simp: heap_ok_def list_all_iff)
  moreover from this(1) have "hi_key j \<le> fst e" using e(1) by (auto simp: item_entries_def)
  ultimately show "hi_key i \<le> fst e" "hi_index j < hi_index i \<Longrightarrow> hi_key i < fst e"
    by (auto simp: heap_order_def less_eq_prod_def)
qed

lemma merge_loop_sorts: "heap_ok heap \<Longrightarrow> merge_loop heap = map snd (sort_key fst (pending heap))"
proof (induction heap rule: merge_loop.induct)
  case 1
  then show ?case by (simp add: pending_def)
next
  case (2 i heap)
  let ?H = "sort_key hi_index heap"
  let ?A = "concat (map item_entries (takeWhile (\<lambda>y. hi_index y < hi_index i) ?H))"
  let ?B = "concat (map item_entries (dropWhile (\<lambda>y. hi_index y < hi_index i) ?H))"
  have A: "\<forall>a \<in> set ?A. hi_key i < fst a"
  proof
    fix a assume "a \<in> set ?A"
    then obtain j where "a \<in> set (item_entries j)" "j \<in> set heap" "hi_index j < hi_index i"
      by (auto dest: set_takeWhileD)
    then show "hi_key i < fst a" using heap_head_least(2) [OF 2(3)] by blast
  qed
  have B: "\<forall>b \<in> set (hi_rest i @ ?B). hi_key i \<le> fst b"
  proof
    fix b assume "b \<in> set (hi_rest i @ ?B)"
    then consider "b \<in> set (hi_rest i)" | j where "b \<in> set (item_entries j)" "j \<in> set heap"
      by (auto dest: set_dropWhileD)
    then show "hi_key i \<le> fst b"
    proof cases
      case 1
      then show ?thesis using 2(3) by (auto simp: heap_ok_def item_entries_def)
    qed (use heap_head_least(1) [OF 2(3)] in blast)
  qed
  have "map snd (sort_key fst (pending (i # heap))) = hi_row i # map snd (sort_key fst (?A @ hi_rest i @ ?B))"
    using sort_key_pull [of ?A fst "(hi_key i, hi_row i)" "hi_rest i @ ?B"] A B
    by (simp add: pending_Cons item_entries_def)
  moreover have "merge_loop (i # heap) = hi_row i # map snd (sort_key fst (?A @ hi_rest i @ ?B))"
  proof (cases "next_item (hi_index i) (hi_rest i)")
    case None
    then have "hi_rest i = []" by (simp add: next_item_entries split: if_split_asm)
    moreover have "pending heap = ?A @ ?B"
      by (simp add: pending_def flip: concat_append map_append)
    ultimately show ?thesis using 2(1) [OF None] heap_ok_tail [OF 2(3)] None by simp
  next
    case (Some j)
    note j = heap_ok_next [OF 2(3) Some]
    have "distinct (map hi_index (j # heap))" using 2(3) j by (simp add: heap_ok_def)
    then have "pending (insort_key heap_order j heap) = ?A @ hi_rest i @ ?B"
      using j by (simp add: pending_insort pending_Cons)
    then show ?thesis using 2(2) [OF Some] j Some by simp
  qed
  ultimately show ?case by simp
qed

section \<open>The initial heap\<close>

abbreviation first_items :: "nat \<Rightarrow> entry list list \<Rightarrow> heap_item list" where
  "first_items n its \<equiv> List.map_filter (\<lambda>(index, it). next_item index it) (enumerate n its)"

lemma first_items_shape:
  assumes "list_all (\<lambda>it. sorted (map fst it)) its"
  shows "sorted_wrt (<) (map hi_index (first_items n its)) \<and> (\<forall>i \<in> set (first_items n its). n \<le> hi_index i) \<and>
    list_all (\<lambda>i. sorted (map fst (item_entries i))) (first_items n its) \<and>
    concat (map item_entries (first_items n its)) = concat its"
  using assms
proof (induction its arbitrary: n)
  case (Cons it its)
  have "sorted (map fst it)" "list_all (\<lambda>it. sorted (map fst it)) its" using Cons.prems by auto
  note ih = Cons.IH [OF this(2), of "Suc n"] and this(1)
  then show ?case
    by (cases it) (auto simp: map_filter_simps item_entries_def intro: Suc_leD, meson Suc_le_lessD)
qed (simp add: map_filter_simps)

lemma initial_heap_ok:
  assumes "list_all (\<lambda>it. sorted (map fst it)) its"
  shows "heap_ok (initial_heap its) \<and> pending (initial_heap its) = concat its"
proof -
  let ?I = "first_items 0 its"
  note f = first_items_shape [OF assms, of 0]
  have d: "distinct (map hi_index ?I)" using f strict_sorted_iff by blast
  have "mset (map hi_index (sort_key heap_order ?I)) = mset (map hi_index ?I)" by simp
  then have "distinct (map hi_index (initial_heap its))"
    using d mset_eq_imp_distinct_iff unfolding initial_heap_def by blast
  then have "heap_ok (initial_heap its)"
    using f by (simp add: heap_ok_def initial_heap_def list_all_iff)
  moreover have "sort_key hi_index (initial_heap its) = ?I"
    unfolding initial_heap_def
    using f d by (intro sort_key_inj_key_eq) (auto simp: distinct_map strict_sorted_iff)
  ultimately show ?thesis using f by (simp add: pending_def)
qed

section \<open>The plan\<close>

text \<open>The entries that the rows stand for; the first exception wins.\<close>

definition row_entry :: "ucd \<Rightarrow> pystr list \<Rightarrow> sabt_error + source_row \<Rightarrow> sabt_error + entry" where
  "row_entry U names item =
     rbind item (\<lambda>row. rbind (build_key names (sorter_normalize_row U row))
                        (\<lambda>key. Inr (key, sorter_normalize_row U row)))"

lemma row_entry_Inr:
  "row_entry U names item = Inr e \<longleftrightarrow>
     (\<exists>row key. item = Inr row \<and> build_key names (sorter_normalize_row U row) = Inr key \<and>
                e = (key, sorter_normalize_row U row))"
  by (auto simp: row_entry_def)

definition spilled :: "ExternalSorter \<Rightarrow> entry list list \<Rightarrow> entry list \<Rightarrow> sort_state \<Rightarrow> bool" where
  "spilled S blocks es st \<longleftrightarrow>
     so_chunk_paths st = [0..<length blocks] \<and>
     (\<forall>i < length blocks. so_files st i = Some (sort_key fst (blocks ! i))) \<and>
     list_all (\<lambda>b. int (length b) = sr_buffer_rows S) blocks \<and>
     int (length (so_buffer st)) < sr_buffer_rows S \<and>
     es = concat blocks @ so_buffer st \<and> so_total_rows st = length es"

lemma spill_chunk_spilled:
  assumes "spilled S blocks es st" and "int (length (so_buffer st)) + 1 = sr_buffer_rows S"
    and "spill_chunk io (st\<lparr>so_buffer := so_buffer st @ [e], so_total_rows := so_total_rows st + 1\<rparr>) = Inr st'"
  shows "spilled S (blocks @ [so_buffer st @ [e]]) (es @ [e]) st'"
  using assms
  by (auto simp: spilled_def spill_chunk_def Let_def nth_append less_Suc_eq split: option.splits if_split_asm)

lemma prepare_loop_spilled:
  assumes "prepare_loop U S io rows st = Inr st'" and "spilled S blocks es st"
  shows "\<exists>new more. rmap (row_entry U (sr_sort_keys S)) rows = Inr new \<and> spilled S (blocks @ more) (es @ new) st'"
  using assms
proof (induction rows arbitrary: st blocks es)
  case Nil
  then show ?case by (auto intro: exI [of _ "[]"])
next
  case (Cons item rows)
  obtain row key where item: "item = Inr row" and key: "build_key (sr_sort_keys S) (sorter_normalize_row U row) = Inr key"
    using Cons.prems(1) by (cases item) (auto simp: Let_def)
  let ?e = "(key, sorter_normalize_row U row)"
  let ?st = "st\<lparr>so_buffer := so_buffer st @ [?e], so_total_rows := so_total_rows st + 1\<rparr>"
  obtain st2 where st2: "(if int (length (so_buffer ?st)) \<ge> sr_buffer_rows S then spill_chunk io ?st else Inr ?st) = Inr st2"
    and rest: "prepare_loop U S io rows st2 = Inr st'"
    using Cons.prems(1) item key by (auto simp: Let_def simp del: rbind_Inr_iff split: if_split_asm)
      (auto simp: Let_def)
  have "\<exists>more. spilled S (blocks @ more) (es @ [?e]) st2"
  proof (cases "int (length (so_buffer ?st)) \<ge> sr_buffer_rows S")
    case True
    then have "int (length (so_buffer st)) + 1 = sr_buffer_rows S"
      using Cons.prems(2) by (simp add: spilled_def)
    moreover have "spill_chunk io ?st = Inr st2" using st2 True by (simp only: if_True)
    ultimately show ?thesis by (intro exI) (rule spill_chunk_spilled [OF Cons.prems(2)])
  next
    case False
    then show ?thesis
      using Cons.prems(2) st2 by (intro exI [of _ "[]"]) (auto simp: spilled_def)
  qed
  then obtain more where "spilled S (blocks @ more) (es @ [?e]) st2" ..
  from Cons.IH [OF rest this] obtain new more' where
    "rmap (row_entry U (sr_sort_keys S)) rows = Inr new" "spilled S ((blocks @ more) @ more') ((es @ [?e]) @ new) st'" by blast
  moreover have "row_entry U (sr_sort_keys S) item = Inr ?e" using item key by (simp add: row_entry_def)
  ultimately show ?case by (intro exI [of _ "?e # new"] exI [of _ "more @ more'"]) simp
qed

text \<open>Conversely nothing but a row, a text that has no UTF-8 form or the disk stops the loop.\<close>

definition encodable :: "entry list \<Rightarrow> bool" where
  "encodable es \<longleftrightarrow> list_all (\<lambda>e. utf8_size (chunk_line e) \<noteq> None) es"

lemma utf8_size_concat: "list_all (\<lambda>s. utf8_size s \<noteq> None) ss \<Longrightarrow> utf8_size (concat ss) \<noteq> None"
  by (auto simp: utf8_size_def list_ex_iff list_all_iff split: if_split_asm)

lemma spill_chunk_ok:
  assumes "encodable (so_buffer st)" and "\<And>i. io i"
  shows "\<exists>st'. spill_chunk io st = Inr st' \<and> so_buffer st' = []"
proof -
  have "utf8_size (concat (map chunk_line (sort_key fst (so_buffer st)))) \<noteq> None"
    using assms(1) by (intro utf8_size_concat) (auto simp: encodable_def list_all_iff)
  then show ?thesis using assms(2) by (auto simp: spill_chunk_def Let_def)
qed

lemma prepare_loop_succeeds:
  assumes "rmap (row_entry U (sr_sort_keys S)) rows = Inr es" and "encodable (so_buffer st @ es)" and "\<And>i. io i"
  shows "\<exists>st'. prepare_loop U S io rows st = Inr st'"
  using assms(1,2)
proof (induction rows arbitrary: st es)
  case (Cons item rows)
  obtain row key es' where item: "item = Inr row" and key: "build_key (sr_sort_keys S) (sorter_normalize_row U row) = Inr key"
    and es: "es = (key, sorter_normalize_row U row) # es'" "rmap (row_entry U (sr_sort_keys S)) rows = Inr es'"
    using Cons.prems(1) by (auto simp: row_entry_Inr)
  let ?st = "st\<lparr>so_buffer := so_buffer st @ [(key, sorter_normalize_row U row)], so_total_rows := so_total_rows st + 1\<rparr>"
  have enc: "encodable (so_buffer ?st @ es')" using Cons.prems(2) es(1) by (simp add: encodable_def)
  obtain st2 where st2: "(if int (length (so_buffer ?st)) \<ge> sr_buffer_rows S then spill_chunk io ?st else Inr ?st) = Inr st2"
    and "encodable (so_buffer st2 @ es')"
  proof (cases "int (length (so_buffer ?st)) \<ge> sr_buffer_rows S")
    case True
    have "encodable (so_buffer ?st)" using enc by (simp add: encodable_def)
    then obtain st' where "spill_chunk io ?st = Inr st'" "so_buffer st' = []"
      using spill_chunk_ok assms(3) by blast
    moreover have "encodable es'" using enc by (simp add: encodable_def)
    ultimately show thesis using that True by simp
  qed (use that enc in auto)
  moreover have "prepare_loop U S io (item # rows) st = prepare_loop U S io rows st2"
    by (simp only: prepare_loop.simps Let_def item key rbind.simps st2)
  ultimately show ?case using Cons.IH [OF es(2)] by metis
qed simp

section \<open>The sort\<close>

lemma sort_key_concat_sorted:
  "sort_key f (concat (map (sort_key f) xss) @ sort_key f ys) = sort_key f (concat xss @ ys)"
proof (rule properties_for_sort_key)
  show "mset (sort_key f (concat xss @ ys)) = mset (concat (map (sort_key f) xss) @ sort_key f ys)"
    by (induction xss) simp_all
  have "filter (\<lambda>y. f y = f k) (concat (map (sort_key f) xss)) = filter (\<lambda>y. f y = f k) (concat xss)" for k
    by (induction xss) (simp_all add: sort_key_stable)
  then show "filter (\<lambda>y. f k = f y) (sort_key f (concat xss @ ys)) =
      filter (\<lambda>y. f k = f y) (concat (map (sort_key f) xss) @ sort_key f ys)" for k
    by (simp add: sort_key_stable eq_commute [of "f k"])
qed simp

text \<open>Reading a chunk cleans its values once more.\<close>

definition recleaned :: "ucd \<Rightarrow> entry \<Rightarrow> entry" where
  "recleaned U e = (fst e, map (\<lambda>(k, v). (k, sanitize_text U (PStr v))) (snd e))"

definition clean_row_text :: "ucd \<Rightarrow> sabt_row \<Rightarrow> bool" where
  "clean_row_text U row \<longleftrightarrow> list_all (\<lambda>(k, v). clean_text U v) row"

lemma recleaned_clean: "clean_row_text U (snd e) \<Longrightarrow> recleaned U e = e"
proof -
  have "map (\<lambda>(k, v). (k, sanitize_text U (PStr v))) row = row" if "clean_row_text U row" for row
    using that by (induction row) (auto simp: clean_row_text_def sanitize_text_id)
  then show "clean_row_text U (snd e) \<Longrightarrow> recleaned U e = e" by (simp add: recleaned_def)
qed

lemma chunk_iterator_sorted: "chunk_iterator U (Some (sort_key fst b)) = Inr (sort_key fst (map (recleaned U) b))"
proof -
  have "insort_key fst (recleaned U e) (map (recleaned U) es) = map (recleaned U) (insort_key fst e es)" for e es
    by (induction es) (simp_all add: recleaned_def)
  then have "sort_key fst (map (recleaned U) es) = map (recleaned U) (sort_key fst es)" for es
    by (induction es) simp_all
  moreover have "(\<lambda>(key, row). (key, map (\<lambda>(k, v). (k, sanitize_text U (PStr v))) row)) = recleaned U"
    by (auto simp: recleaned_def)
  ultimately show ?thesis by (simp add: chunk_iterator_def)
qed

lemma rmap_Inr_map: "(\<And>x. x \<in> set xs \<Longrightarrow> f x = Inr (g x)) \<Longrightarrow> rmap f xs = Inr (map g xs)"
  by (induction xs) simp_all

definition entries_out :: "ucd \<Rightarrow> entry list \<Rightarrow> entry list \<Rightarrow> bool" where
  "entries_out U es out \<longleftrightarrow>
     (\<exists>es'. list_all2 (\<lambda>e e'. e' = e \<or> e' = recleaned U e) es es' \<and> out = sort_key fst es')"

lemma sorted_generator_spilled:
  assumes "spilled S blocks es st"
  shows "\<exists>out. sorted_generator U \<lparr>sp_chunk_paths = so_chunk_paths st, sp_in_memory = sort_key fst (so_buffer st),
      sp_total_rows = so_total_rows st, sp_chunk_count = length (so_chunk_paths st),
      sp_spill_bytes = so_spill_bytes st\<rparr> (so_files st) = Inr (map snd out) \<and> entries_out U es out"
proof -
  let ?clean = "map (map (recleaned U)) blocks"
  let ?es = "concat ?clean @ so_buffer st"
  let ?mem = "if sort_key fst (so_buffer st) = [] then [] else [sort_key fst (so_buffer st)]"
  let ?its = "map (sort_key fst) ?clean @ ?mem"
  have "rmap (\<lambda>path. chunk_iterator U (so_files st path)) [0..<length blocks] =
      Inr (map (\<lambda>i. sort_key fst (map (recleaned U) (blocks ! i))) [0..<length blocks])"
    using assms by (intro rmap_Inr_map) (simp add: spilled_def chunk_iterator_sorted)
  also have "map (\<lambda>i. sort_key fst (map (recleaned U) (blocks ! i))) [0..<length blocks] = map (sort_key fst) ?clean"
    by (intro nth_equalityI) simp_all
  finally have its: "rmap (\<lambda>path. chunk_iterator U (so_files st path)) [0..<length blocks] = Inr (map (sort_key fst) ?clean)" .
  have "list_all (\<lambda>it. sorted (map fst it)) ?its" by (auto simp: list_all_iff)
  note heap = initial_heap_ok [OF this]
  have "sort_key fst (so_buffer st) = [] \<longleftrightarrow> so_buffer st = []" by (metis length_0_conv length_sort)
  then have "concat ?its = concat (map (sort_key fst) ?clean) @ sort_key fst (so_buffer st)" by simp
  then have "sort_key fst (concat ?its) = sort_key fst ?es" by (simp only: sort_key_concat_sorted)
  then have merged: "merge_loop (initial_heap ?its) = map snd (sort_key fst ?es)"
    using merge_loop_sorts heap by metis
  have "list_all2 (\<lambda>e e'. e' = e \<or> e' = recleaned U e) (concat blocks) (concat ?clean)"
    by (induction blocks) (auto simp: list_all2_map2 list_all2_same intro!: list_all2_appendI)
  then have "list_all2 (\<lambda>e e'. e' = e \<or> e' = recleaned U e) es ?es"
    using assms by (auto simp: spilled_def list_all2_same intro!: list_all2_appendI)
  then have "entries_out U es (sort_key fst ?es)" unfolding entries_out_def by blast
  moreover have "so_chunk_paths st = [0..<length blocks]" using assms by (simp add: spilled_def)
  ultimately show ?thesis using its merged by (intro exI [of _ "sort_key fst ?es"]) (auto simp: sorted_generator_def split: if_split_asm)
qed

text \<open>What a loop over \<^verbatim>\<open>iter_sorted\<close> gets: everything or nothing.\<close>

lemma iter_sorted_rows:
  assumes "spilled S blocks es st"
  shows "fst (iter_sorted U \<lparr>sp_chunk_paths = so_chunk_paths st, sp_in_memory = sort_key fst (so_buffer st),
      sp_total_rows = so_total_rows st, sp_chunk_count = length (so_chunk_paths st),
      sp_spill_bytes = so_spill_bytes st\<rparr> files) =
    (if int (length es) < sr_buffer_rows S then map snd (sort_key fst es) else [])"
proof (cases "blocks = []")
  case True
  then show ?thesis using assms by (auto simp: iter_sorted_def spilled_def)
next
  case False
  then obtain b bs where "blocks = b # bs" by (cases blocks) auto
  then show ?thesis using assms by (auto simp: iter_sorted_def spilled_def)
qed

lemma entries_out_clean:
  assumes "entries_out U es out" and "\<forall>e \<in> set es. clean_row_text U (snd e)"
  shows "out = sort_key fst es"
proof -
  obtain es' where es': "list_all2 (\<lambda>e e'. e' = e \<or> e' = recleaned U e) es es'" "out = sort_key fst es'"
    using assms(1) by (auto simp: entries_out_def)
  then have "es' = es"
    using assms(2) by (auto simp: list_all2_conv_all_nth recleaned_clean intro!: nth_equalityI)
  then show ?thesis using es' by simp
qed

section \<open>The order of the keys\<close>

lemma dval_le: "ascii_digits s \<Longrightarrow> dval a s \<le> dval b s \<longleftrightarrow> a \<le> b"
proof (induction s arbitrary: a b)
  case (Cons c s)
  then show ?case by simp
qed simp

lemma dval_acc_less:
  assumes "ascii_digits s" "ascii_digits t" "length s = length t" "a < b"
  shows "dval a s < dval b t"
  using assms
proof (induction s arbitrary: t a b)
  case (Cons c s)
  then obtain d t' where t: "t = d # t'" "length s = length t'" by (cases t) auto
  then have "a * 10 + (c - 48) < b * 10 + (d - 48)" using Cons.prems by auto
  then show ?case using Cons.IH [of t' "a * 10 + (c - 48)" "b * 10 + (d - 48)"] Cons.prems t by simp
qed simp

lemma digits_less_iff:
  "ascii_digits s \<Longrightarrow> ascii_digits t \<Longrightarrow> length s = length t \<Longrightarrow> s < t \<longleftrightarrow> dval a s < dval a t"
proof (induction s arbitrary: t a)
  case (Cons c s)
  obtain d t' where t: "t = d # t'" "length s = length t'" using Cons.prems(3) by (cases t) auto
  have s: "ascii_digits s" "ascii_digits t'" using Cons.prems t by auto
  consider "c < d" | "c = d" | "d < c" by linarith
  then show ?case
  proof cases
    case 1
    then show ?thesis using t dval_acc_less [OF s t(2), of "a * 10 + (c - 48)" "a * 10 + (d - 48)"] by simp
  next
    case 2
    then show ?thesis using t Cons.IH [OF s t(2)] by simp
  next
    case 3
    then show ?thesis
      using t dval_acc_less [OF s(2,1) t(2) [symmetric], of "a * 10 + (d - 48)" "a * 10 + (c - 48)"] by simp
  qed
qed simp

lemma fmt_0d_less_iff:
  assumes "0 \<le> m" "m < 10 ^ w" "0 \<le> n" "n < 10 ^ w" "0 < w"
  shows "fmt_0d w m < fmt_0d w n \<longleftrightarrow> m < n"
  using assms digits_less_iff [of "fmt_0d w m" "fmt_0d w n" 0] fmt_0d_digits fmt_0d_length fmt_0d_value
  by simp

section \<open>Properties\<close>

lemma prepare_Inr:
  assumes "0 < sr_buffer_rows S" and "prepare U S io rows = Inr (plan, files)"
  shows "\<exists>es blocks st. rmap (row_entry U (sr_sort_keys S)) rows = Inr es \<and> spilled S blocks es st \<and> files = so_files st \<and>
    plan = \<lparr>sp_chunk_paths = so_chunk_paths st, sp_in_memory = sort_key fst (so_buffer st),
            sp_total_rows = so_total_rows st, sp_chunk_count = length (so_chunk_paths st),
            sp_spill_bytes = so_spill_bytes st\<rparr>"
proof -
  let ?st = "\<lparr>so_files = (\<lambda>_. None), so_chunk_paths = [], so_buffer = [], so_total_rows = 0, so_spill_bytes = 0\<rparr>"
  obtain st where "prepare_loop U S io rows ?st = Inr st" and plan: "files = so_files st"
    "plan = \<lparr>sp_chunk_paths = so_chunk_paths st, sp_in_memory = sort_key fst (so_buffer st),
            sp_total_rows = so_total_rows st, sp_chunk_count = length (so_chunk_paths st),
            sp_spill_bytes = so_spill_bytes st\<rparr>"
    using assms(2) by (auto simp: prepare_def)
  moreover have "spilled S [] [] ?st" using assms(1) by (simp add: spilled_def)
  ultimately obtain es blocks where "rmap (row_entry U (sr_sort_keys S)) rows = Inr es" "spilled S blocks es st"
    using prepare_loop_spilled by fastforce
  then show ?thesis using plan by blast
qed

lemma length_concat_blocks:
  "list_all (\<lambda>b. int (length b) = n) blocks \<Longrightarrow> int (length (concat blocks)) = int (length blocks) * n"
  by (induction blocks) (auto simp: algebra_simps)

text \<open>
  C24 external_sort_exact: when \<^verbatim>\<open>prepare\<close> succeeds, a loop over \<^verbatim>\<open>iter_sorted\<close> of its plan gets every row exactly once, in
  the order of one stable sort by key, if there are fewer rows than the buffer holds. If there are as many or more, a
  chunk has been spilled and the loop gets no row at all; the generator that \<^verbatim>\<open>iter_sorted\<close> returns instead of delegating
  to it would have given every row once in the order of that sort, each as it was prepared or with its values cleaned once
  more, and exactly as prepared if the prepared values are clean. The plan counts the rows, one chunk for every full
  buffer and the remainder in memory. \<^verbatim>\<open>prepare\<close> does succeed if no row raises, every text has a UTF-8 form and the
  disk takes the chunks.
\<close>

theorem external_sort_exact:
  assumes "0 < sr_buffer_rows S"
  shows "(case prepare U S io rows of
      Inr (plan, files) \<Rightarrow>
        (\<exists>es. rmap (row_entry U (sr_sort_keys S)) rows = Inr es \<and>
           sp_total_rows plan = length es \<and> int (sp_chunk_count plan) = int (length es) div sr_buffer_rows S \<and>
           int (length (sp_in_memory plan)) = int (length es) mod sr_buffer_rows S \<and>
           (if int (length es) < sr_buffer_rows S
            then iter_sorted U plan files = (map snd (sort_key fst es), None)
            else \<exists>out. iter_sorted U plan files = ([], Some (Inr (map snd out))) \<and> entries_out U es out \<and>
              ((\<forall>e \<in> set es. clean_row_text U (snd e)) \<longrightarrow> out = sort_key fst es)))
    | Inl e \<Rightarrow> \<not> ((\<exists>es. rmap (row_entry U (sr_sort_keys S)) rows = Inr es \<and> encodable es) \<and> (\<forall>i. io i)))"
proof (cases "prepare U S io rows")
  case (Inl e)
  have False if "rmap (row_entry U (sr_sort_keys S)) rows = Inr es" "encodable es" "\<forall>i. io i" for es
    using prepare_loop_succeeds [OF that(1), of
        "\<lparr>so_files = (\<lambda>_. None), so_chunk_paths = [], so_buffer = [], so_total_rows = 0, so_spill_bytes = 0\<rparr>" io]
      that(2,3) Inl by (auto simp: prepare_def)
  then show ?thesis using Inl by auto
next
  case (Inr y)
  obtain plan files where y: "y = (plan, files)" by (cases y)
  then have "prepare U S io rows = Inr (plan, files)" using Inr by simp
  from prepare_Inr [OF assms this] obtain es blocks st where
    es: "rmap (row_entry U (sr_sort_keys S)) rows = Inr es" and st: "spilled S blocks es st" and f: "files = so_files st"
    and plan: "plan = \<lparr>sp_chunk_paths = so_chunk_paths st, sp_in_memory = sort_key fst (so_buffer st),
            sp_total_rows = so_total_rows st, sp_chunk_count = length (so_chunk_paths st),
            sp_spill_bytes = so_spill_bytes st\<rparr>" by blast
  obtain out where out: "sorted_generator U plan files = Inr (map snd out)" "entries_out U es out"
    using sorted_generator_spilled [OF st, of U] unfolding plan f by blast
  have n: "int (length es) = int (length blocks) * sr_buffer_rows S + int (length (so_buffer st))"
    "0 \<le> int (length (so_buffer st))" "int (length (so_buffer st)) < sr_buffer_rows S"
    using st length_concat_blocks [of "sr_buffer_rows S" blocks] by (auto simp: spilled_def)
  then have k: "int (length es) div sr_buffer_rows S = int (length blocks)"
    "int (length es) mod sr_buffer_rows S = int (length (so_buffer st))"
    by (simp_all add: div_pos_pos_trivial mod_pos_pos_trivial)
  moreover have c: "sp_total_rows plan = length es" "sp_chunk_count plan = length blocks"
    "length (sp_in_memory plan) = length (so_buffer st)"
    using st by (simp_all add: plan spilled_def)
  moreover have "int (length es) < sr_buffer_rows S \<longleftrightarrow> length blocks = 0"
  proof (cases "length blocks = 0")
    case False
    then have "1 \<le> int (length blocks)" by linarith
    then have "1 * sr_buffer_rows S \<le> int (length blocks) * sr_buffer_rows S" using assms by (intro mult_right_mono) simp_all
    then have "\<not> int (length es) < sr_buffer_rows S" using n(1,2) by linarith
    then show ?thesis using False by simp
  qed (use n in simp)
  moreover have "fst (iter_sorted U plan files) = (if int (length es) < sr_buffer_rows S then map snd (sort_key fst es) else [])"
    using iter_sorted_rows [OF st, of U files] by (simp add: plan)
  moreover have "snd (iter_sorted U plan files) = (if length blocks = 0 then None else Some (Inr (map snd out)))"
    using c(2) out(1) by (simp add: iter_sorted_def)
  ultimately show ?thesis
    using Inr y es out(2) entries_out_clean [OF out(2)] by (auto simp: prod_eq_iff)
qed

definition sample_sorter :: "int \<Rightarrow> ExternalSorter" where
  "sample_sorter n = \<lparr>sr_sort_keys = [asc ''reg_center'', asc ''id''], sr_buffer_rows = n\<rparr>"

definition sorter_row :: "int \<Rightarrow> string \<Rightarrow> sabt_error + source_row" where
  "sorter_row center i = Inr [(asc ''reg_center'', PInt center), (asc ''id'', PStr (asc i))]"

definition sample_sorter_rows :: "(sabt_error + source_row) list" where
  "sample_sorter_rows = [sorter_row 2 ''a'', sorter_row 10 ''b'', sorter_row 2 '' A'', sorter_row 1 ''c'', sorter_row 2 ''a '']"

definition sample_row_ids :: "sabt_row list \<Rightarrow> pystr option list" where
  "sample_row_ids = map (\<lambda>row. map_of row (asc ''id''))"

text \<open>Five rows in a buffer of six are sorted; in a buffer of two they are lost, though the merge would sort them.\<close>

theorem external_sort_exact_witness:
  "(\<exists>plan files. prepare ascii_ucd (sample_sorter 6) (\<lambda>i. True) sample_sorter_rows = Inr (plan, files) \<and>
      sample_row_ids (fst (iter_sorted ascii_ucd plan files)) = map (\<lambda>s. Some (asc s)) [''c'', ''A'', ''a'', ''a'', ''b'']) \<and>
   (\<exists>plan files out. prepare ascii_ucd (sample_sorter 2) (\<lambda>i. True) sample_sorter_rows = Inr (plan, files) \<and>
      sp_total_rows plan = 5 \<and> iter_sorted ascii_ucd plan files = ([], Some (Inr out)) \<and>
      sample_row_ids out = map (\<lambda>s. Some (asc s)) [''c'', ''A'', ''a'', ''a'', ''b''])"
proof -
  obtain es :: "entry list" where E: "es = [([asc ''002'', asc ''a''], [(asc ''reg_center'', asc ''2''), (asc ''id'', asc ''a'')]),
      ([asc ''010'', asc ''b''], [(asc ''reg_center'', asc ''10''), (asc ''id'', asc ''b'')]),
      ([asc ''002'', asc ''A''], [(asc ''reg_center'', asc ''2''), (asc ''id'', asc ''A'')]),
      ([asc ''001'', asc ''c''], [(asc ''reg_center'', asc ''1''), (asc ''id'', asc ''c'')]),
      ([asc ''002'', asc ''a''], [(asc ''reg_center'', asc ''2''), (asc ''id'', asc ''a'')])]" by blast
  have ok: "case prepare ascii_ucd (sample_sorter 6) (\<lambda>i. True) sample_sorter_rows of Inl e \<Rightarrow> False | Inr y \<Rightarrow> True"
    "case prepare ascii_ucd (sample_sorter 2) (\<lambda>i. True) sample_sorter_rows of Inl e \<Rightarrow> False | Inr y \<Rightarrow> True"
    by code_simp+
  have "rmap (row_entry ascii_ucd [asc ''reg_center'', asc ''id'']) sample_sorter_rows = Inr es"
    unfolding E by code_simp
  then have es: "rmap (row_entry ascii_ucd (sr_sort_keys (sample_sorter n))) sample_sorter_rows = Inr es" for n
    by (simp add: sample_sorter_def)
  have "list_all (\<lambda>e. clean_row_text ascii_ucd (snd e)) es"
    by (simp add: E clean_row_text_def clean_text_ascii ascii_ucd_ok asc_def py_strip_no_space py_isspace_def)
  then have clean: "\<forall>e \<in> set es. clean_row_text ascii_ucd (snd e)" by (simp only: list_all_iff)
  have ids: "sample_row_ids (map snd (sort_key fst es)) = map (\<lambda>s. Some (asc s)) [''c'', ''A'', ''a'', ''a'', ''b'']"
    by (simp add: E asc_def sample_row_ids_def)
  have five: "length es = 5" by (simp add: E)
  have buffer: "sr_buffer_rows (sample_sorter n) = n" for n by (simp add: sample_sorter_def)
  obtain plan files where a: "prepare ascii_ucd (sample_sorter 6) (\<lambda>i. True) sample_sorter_rows = Inr (plan, files)"
    using ok(1) by (auto split: sum.splits)
  obtain plan' files' where b: "prepare ascii_ucd (sample_sorter 2) (\<lambda>i. True) sample_sorter_rows = Inr (plan', files')"
    using ok(2) by (auto split: sum.splits)
  have "iter_sorted ascii_ucd plan files = (map snd (sort_key fst es), None)"
    using external_sort_exact [where S = "sample_sorter 6" and U = ascii_ucd and io = "\<lambda>i. True" and rows = sample_sorter_rows]
      clean five unfolding a buffer es by simp
  moreover have "sp_total_rows plan' = 5 \<and> iter_sorted ascii_ucd plan' files' = ([], Some (Inr (map snd (sort_key fst es))))"
    using external_sort_exact [where S = "sample_sorter 2" and U = ascii_ucd and io = "\<lambda>i. True" and rows = sample_sorter_rows]
      clean five unfolding b buffer es by auto
  ultimately show ?thesis using a b ids by (metis fst_conv)
qed

end
