(* ===== verification/PyCsv.thy ===== *)
theory PyCsv
  imports PyJson
begin

text \<open>
  The part of Python's \<^verbatim>\<open>csv\<close> module the program uses, with the default dialect: a row written with
  \<^verbatim>\<open>QUOTE_ALL\<close>, and the reader over a file opened with \<^verbatim>\<open>newline=""\<close>, as the state machine it is in
  \<^verbatim>\<open>_csv.c\<close>. What is written with quotes reads back. The limit of 131072 characters for a
  field is not modelled.
\<close>

section \<open>Writing\<close>

definition csv_field :: "pystr \<Rightarrow> pystr" where
  "csv_field s = 34 # concat (map (\<lambda>c. if c = 34 then [34, 34] else [c]) s) @ [34]"

definition csv_row :: "pystr \<Rightarrow> pystr list \<Rightarrow> pystr" where
  "csv_row newline cells = join [44] (map csv_field cells) @ newline"

section \<open>The CSV reader\<close>

datatype csv_state = START_RECORD | START_FIELD | IN_FIELD | IN_QUOTED_FIELD | QUOTE_IN_QUOTED_FIELD | EAT_CRNL

text \<open>The parser: its state, the fields of the record so far and the current field; \<open>None\<close> is the end of a line.\<close>

record csv_parser =
  cp_state :: csv_state
  cp_fields :: "pystr list"
  cp_field :: pystr

definition save_field :: "csv_state \<Rightarrow> csv_parser \<Rightarrow> csv_parser" where
  "save_field st p = \<lparr>cp_state = st, cp_fields = cp_fields p @ [cp_field p], cp_field = []\<rparr>"

definition add_char :: "csv_state \<Rightarrow> int \<Rightarrow> csv_parser \<Rightarrow> csv_parser" where
  "add_char st c p = p\<lparr>cp_state := st, cp_field := cp_field p @ [c]\<rparr>"

definition start_field :: "int option \<Rightarrow> csv_parser \<Rightarrow> csv_parser" where
  "start_field c p =
     (case c of
        None \<Rightarrow> save_field START_RECORD p
      | Some c \<Rightarrow>
          if c = 10 \<or> c = 13 then save_field EAT_CRNL p
          else if c = 34 then p\<lparr>cp_state := IN_QUOTED_FIELD\<rparr>
          else if c = 44 then save_field START_FIELD p
          else add_char IN_FIELD c p)"

definition parse_process_char :: "int option \<Rightarrow> csv_parser \<Rightarrow> csv_parser option" where
  "parse_process_char c p =
     (case cp_state p of
        START_RECORD \<Rightarrow>
          (case c of
             None \<Rightarrow> Some p
           | Some d \<Rightarrow> if d = 10 \<or> d = 13 then Some (p\<lparr>cp_state := EAT_CRNL\<rparr>) else Some (start_field c p))
      | START_FIELD \<Rightarrow> Some (start_field c p)
      | IN_FIELD \<Rightarrow>
          (case c of
             None \<Rightarrow> Some (save_field START_RECORD p)
           | Some c \<Rightarrow>
               if c = 10 \<or> c = 13 then Some (save_field EAT_CRNL p)
               else if c = 44 then Some (save_field START_FIELD p)
               else Some (add_char IN_FIELD c p))
      | IN_QUOTED_FIELD \<Rightarrow>
          (case c of
             None \<Rightarrow> Some p
           | Some c \<Rightarrow> if c = 34 then Some (p\<lparr>cp_state := QUOTE_IN_QUOTED_FIELD\<rparr>)
                       else Some (add_char IN_QUOTED_FIELD c p))
      | QUOTE_IN_QUOTED_FIELD \<Rightarrow>
          (case c of
             None \<Rightarrow> Some (save_field START_RECORD p)
           | Some c \<Rightarrow>
               if c = 34 then Some (add_char IN_QUOTED_FIELD c p)
               else if c = 44 then Some (save_field START_FIELD p)
               else if c = 10 \<or> c = 13 then Some (save_field EAT_CRNL p)
               else Some (add_char IN_FIELD c p))
      | EAT_CRNL \<Rightarrow>
          (case c of
             None \<Rightarrow> Some (p\<lparr>cp_state := START_RECORD\<rparr>)
           | Some c \<Rightarrow> if c = 10 \<or> c = 13 then Some p else None))"

text \<open>The lines of the file, each closed with \<open>None\<close>; a line ends with a line feed, a carriage return or both.\<close>

fun csv_lines :: "pystr \<Rightarrow> int option list" where
  "csv_lines [] = []"
| "csv_lines [c] = [Some c, None]"
| "csv_lines (c # d # cs) =
     (if c = 10 \<or> c = 13 \<and> d \<noteq> 10 then Some c # None # csv_lines (d # cs) else Some c # csv_lines (d # cs))"

text \<open>
  The reader: a record is complete when a line ends in the state \<^verbatim>\<open>START_RECORD\<close>; at the end of the
  file an open record is closed. The value \<open>None\<close> is the error of a character after a line break.
\<close>

fun csv_records :: "int option list \<Rightarrow> csv_parser \<Rightarrow> pystr list list option" where
  "csv_records [] p =
     Some (if cp_field p \<noteq> [] \<or> cp_state p = IN_QUOTED_FIELD then [cp_fields p @ [cp_field p]] else [])"
| "csv_records (c # cs) p =
     (case parse_process_char c p of
        None \<Rightarrow> None
      | Some p' \<Rightarrow>
          if c = None \<and> cp_state p' = START_RECORD then
            map_option ((#) (cp_fields p'))
              (csv_records cs \<lparr>cp_state = START_RECORD, cp_fields = [], cp_field = []\<rparr>)
          else csv_records cs p')"

definition csv_read :: "pystr \<Rightarrow> pystr list list option" where
  "csv_read text = csv_records (csv_lines text) \<lparr>cp_state = START_RECORD, cp_fields = [], cp_field = []\<rparr>"

section \<open>Reading back what was written\<close>

lemma csv_lines_Cons:
  "csv_lines (c # rest) = Some c #
     (if rest = [] \<or> c = 10 \<or> c = 13 \<and> hd rest \<noteq> 10 then None # csv_lines rest else csv_lines rest)"
  by (cases rest) auto

abbreviation csv_at :: "csv_state \<Rightarrow> pystr list \<Rightarrow> pystr \<Rightarrow> csv_parser" where
  "csv_at st fs f \<equiv> \<lparr>cp_state = st, cp_fields = fs, cp_field = f\<rparr>"

abbreviation csv_start :: csv_parser where
  "csv_start \<equiv> csv_at START_RECORD [] []"

text \<open>Inside quotes the ends of lines are not seen.\<close>

lemma csv_quoted_body:
  "rest \<noteq> [] \<Longrightarrow>
   csv_records (csv_lines (concat (map (\<lambda>c. if c = 34 then [34, 34] else [c]) s) @ rest)) (csv_at IN_QUOTED_FIELD fs f) =
   csv_records (csv_lines rest) (csv_at IN_QUOTED_FIELD fs (f @ s))"
proof (induction s arbitrary: f)
  case (Cons c s)
  then show ?case
    by (simp add: csv_lines_Cons parse_process_char_def add_char_def del: csv_lines.simps)
qed simp

lemma csv_quoted_field:
  assumes "st \<in> {START_RECORD, START_FIELD}" and "rest \<noteq> []"
  shows "csv_records (csv_lines (csv_field s @ rest)) (csv_at st fs []) =
    csv_records (csv_lines rest) (csv_at QUOTE_IN_QUOTED_FIELD fs s)"
proof -
  have "csv_records (csv_lines (csv_field s @ rest)) (csv_at st fs []) =
    csv_records (csv_lines (concat (map (\<lambda>c. if c = 34 then [34, 34] else [c]) s) @ 34 # rest))
      (csv_at IN_QUOTED_FIELD fs [])"
    using assms(1) by (auto simp: csv_field_def csv_lines_Cons parse_process_char_def start_field_def)
  also have "\<dots> = csv_records (csv_lines rest) (csv_at QUOTE_IN_QUOTED_FIELD fs s)"
    using assms(2) by (simp add: csv_quoted_body csv_lines_Cons parse_process_char_def)
  finally show ?thesis .
qed

lemma csv_row_reads:
  assumes "nl = [13, 10] \<or> nl = [10]"
  shows "cells \<noteq> [] \<Longrightarrow> st \<in> {START_RECORD, START_FIELD} \<Longrightarrow>
    csv_records (csv_lines (join [44] (map csv_field cells) @ nl @ rest)) (csv_at st fs []) =
    map_option ((#) (fs @ cells)) (csv_records (csv_lines rest) csv_start)"
proof (induction cells arbitrary: st fs)
  case (Cons s cells)
  show ?case
  proof (cases cells)
    case Nil
    have "csv_records (csv_lines (nl @ rest)) (csv_at QUOTE_IN_QUOTED_FIELD fs s) =
      map_option ((#) (fs @ [s])) (csv_records (csv_lines rest) csv_start)"
      using assms by (auto simp: csv_lines_Cons parse_process_char_def save_field_def)
    moreover have "nl @ rest \<noteq> []" using assms by auto
    ultimately show ?thesis using csv_quoted_field [OF Cons.prems(2), of "nl @ rest" s fs] Nil by simp
  next
    case (Cons s' cells')
    let ?rest = "join [44] (map csv_field cells) @ nl @ rest"
    have "?rest \<noteq> []" using assms by auto
    then have "csv_records (csv_lines (44 # ?rest)) (csv_at QUOTE_IN_QUOTED_FIELD fs s) =
      csv_records (csv_lines ?rest) (csv_at START_FIELD (fs @ [s]) [])"
      by (simp add: csv_lines_Cons parse_process_char_def save_field_def)
    also have "\<dots> = map_option ((#) ((fs @ [s]) @ cells)) (csv_records (csv_lines rest) csv_start)"
      using Cons.IH Cons by simp
    finally show ?thesis
      using csv_quoted_field [OF Cons.prems(2), of "44 # ?rest" s fs] Cons by simp
  qed
qed simp

lemma csv_rows_read:
  assumes "nl = [13, 10] \<or> nl = [10]" and "list_all (\<lambda>cells. cells \<noteq> []) rows"
  shows "csv_read (concat (map (csv_row nl) rows)) = Some rows"
  using assms(2)
proof (induction rows)
  case (Cons cells rows)
  have "csv_row nl cells @ ts = join [44] (map csv_field cells) @ nl @ ts" for ts by (simp add: csv_row_def)
  then show ?case
    using Cons csv_row_reads [OF assms(1), of cells START_RECORD "concat (map (csv_row nl) rows)" "[]"]
    by (simp add: csv_read_def)
qed (simp add: csv_read_def)

section \<open>The reader never fails\<close>

text \<open>
  A file opened with \<^verbatim>\<open>newline=""\<close> is cut into lines at every kind of line break, so that the error of
  \<^verbatim>\<open>_csv.c\<close> for a character after a line break cannot come up.
\<close>

lemma parse_process_char_total:
  "cp_state p \<noteq> EAT_CRNL \<Longrightarrow> \<exists>p'. parse_process_char c p = Some p' \<and>
     (cp_state p' = EAT_CRNL \<longrightarrow> c = Some 10 \<or> c = Some 13)"
  by (cases "cp_state p"; cases c)
    (auto simp: parse_process_char_def start_field_def save_field_def add_char_def)

lemma parse_eat_crnl:
  "cp_state p = EAT_CRNL \<Longrightarrow> c = None \<or> c = Some 10 \<or> c = Some 13 \<Longrightarrow> \<exists>p'. parse_process_char c p = Some p' \<and>
     (c = None \<longrightarrow> cp_state p' = START_RECORD)"
  by (auto simp: parse_process_char_def)

lemma csv_records_total:
  "cp_state p \<noteq> EAT_CRNL \<or> (\<exists>cs. s = 10 # cs) \<Longrightarrow> \<exists>rs. csv_records (csv_lines s) p = Some rs"
proof (induction s arbitrary: p rule: length_induct)
  case (1 s)
  show ?case
  proof (cases s)
    case (Cons c rest)
    obtain p1 where p1: "parse_process_char (Some c) p = Some p1" "cp_state p1 = EAT_CRNL \<longrightarrow> c = 10 \<or> c = 13"
      using "1.prems" Cons parse_process_char_total [of p "Some c"] parse_eat_crnl [of p "Some c"]
      by (cases "cp_state p = EAT_CRNL") auto
    have IH: "\<exists>rs. csv_records (csv_lines rest) q = Some rs" if "cp_state q \<noteq> EAT_CRNL \<or> (\<exists>cs. rest = 10 # cs)" for q
      using "1.IH" Cons that by auto
    show ?thesis
    proof (cases "rest = [] \<or> c = 10 \<or> c = 13 \<and> hd rest \<noteq> 10")
      case True
      obtain p2 where p2: "parse_process_char None p1 = Some p2" "cp_state p2 \<noteq> EAT_CRNL"
        using parse_process_char_total [of p1 None] parse_eat_crnl [of p1 None]
        by (cases "cp_state p1 = EAT_CRNL") auto
      then show ?thesis using True Cons p1(1) IH by (auto simp: csv_lines_Cons)
    next
      case False
      then have "cp_state p1 \<noteq> EAT_CRNL \<or> (\<exists>cs. rest = 10 # cs)" using p1(2) by (cases rest) auto
      moreover have "csv_lines s = Some c # csv_lines rest" using False Cons by (auto simp: csv_lines_Cons)
      ultimately show ?thesis using p1(1) IH by simp
    qed
  qed simp
qed

lemma csv_read_total: "\<exists>rs. csv_read text = Some rs"
  unfolding csv_read_def by (rule csv_records_total) simp

section \<open>Rows as dicts\<close>

text \<open>
  \<^verbatim>\<open>csv.DictReader\<close>: the items a row gives its dict, in the order in which they are set; missing cells are
  \<^verbatim>\<open>None\<close>. Cells beyond the names go to an entry of their own and are not part of the list. Empty
  records are skipped.
\<close>

definition dict_items :: "pystr list \<Rightarrow> pystr list \<Rightarrow> (pystr \<times> pystr option) list" where
  "dict_items names cells = zip names (map Some cells) @ map (\<lambda>k. (k, None)) (drop (length cells) names)"

definition dict_get :: "pystr list \<Rightarrow> pystr list \<Rightarrow> pystr \<Rightarrow> pystr option" where
  "dict_get names cells k = (case map_of (rev (dict_items names cells)) k of Some v \<Rightarrow> v | None \<Rightarrow> None)"

text \<open>\<^verbatim>\<open>not any(row.values())\<close>\<close>

definition all_blank :: "pystr list \<Rightarrow> pystr list \<Rightarrow> bool" where
  "all_blank names cells \<longleftrightarrow>
     length cells \<le> length names \<and> list_all (\<lambda>k. dict_get names cells k \<in> {None, Some []}) names"

declare dict_items_def [py_defs] dict_get_def [py_defs] all_blank_def [py_defs]

lemma all_blank_Nil: "all_blank names []"
proof -
  have "dict_get names [] k = None" for k
    by (cases "map_of (rev (map (\<lambda>k. (k, None :: pystr option)) names)) k")
      (auto simp: dict_get_def dict_items_def dest!: map_of_SomeD)
  then show ?thesis by (simp add: all_blank_def list_all_iff)
qed

end
