(* ===== verification/Sabt_Writer.thy ===== *)
theory Sabt_Writer
  imports Sabt_Sorter PyCsv
begin

text \<open>
  \<^verbatim>\<open>export/excel_writer.py\<close>: the rows of an export as CSV files of at most \<^verbatim>\<open>chunk_size\<close> rows each, or as
  the sheets of one workbook. Every cell is cleaned, guarded against formulas and, for the school code,
  padded. Files are written whole or not at all (\<^verbatim>\<open>atomic_writer\<close>, \<^verbatim>\<open>write_atomic\<close>): the file system is the map
  from the names of the finished files to their contents, and \<open>io\<close> says which of the files can be written.
  The digest of a file and the size of a saved workbook (\<^verbatim>\<open>openpyxl\<close>) are parameters; the flags of
  \<^verbatim>\<open>excel_safety\<close> and the formats of the cells are left out.

  \<^verbatim>\<open>PyCsv\<close> has the reader of the standard library, so that the files can be shown to read back.
\<close>

section \<open>Cells\<close>

definition EXPORT_COLUMNS :: "pystr list" where
  "EXPORT_COLUMNS = map asc
     [''national_id'', ''counter'', ''first_name'', ''last_name'', ''gender'', ''mobile'', ''reg_center'',
      ''reg_status'', ''group_code'', ''student_type'', ''school_code'', ''mentor_id'', ''mentor_name'',
      ''mentor_mobile'', ''allocation_date'', ''year_code'']"

definition PHONE_COLUMNS :: "pystr list" where
  "PHONE_COLUMNS = map asc [''mobile'', ''mentor_mobile'']"

definition TEXT_COLUMNS :: "pystr list" where
  "TEXT_COLUMNS = map asc
     [''national_id'', ''counter'', ''first_name'', ''last_name'', ''mentor_id'', ''mentor_name'', ''year_code'']"

record ExportWriter =
  ew_columns :: "pystr list"
  ew_newline :: pystr
  ew_include_bom :: bool
  ew_chunk_size :: int
  ew_formula_guard :: bool

definition make_writer :: "pystr list \<Rightarrow> pystr \<Rightarrow> bool \<Rightarrow> int \<Rightarrow> bool \<Rightarrow> sabt_error + ExportWriter" where
  "make_writer columns newline include_bom chunk_size formula_guard =
     (if chunk_size \<le> 0 then Inl PlainValueError
      else Inr \<lparr>ew_columns = columns, ew_newline = newline, ew_include_bom = include_bom,
                ew_chunk_size = chunk_size, ew_formula_guard = formula_guard\<rparr>)"

text \<open>\<^verbatim>\<open>str.zfill\<close> keeps a sign in front.\<close>

definition zfill :: "nat \<Rightarrow> pystr \<Rightarrow> pystr" where
  "zfill w s =
     (case s of
        c # cs \<Rightarrow> if c = 43 \<or> c = 45 then c # replicate (w - length s) 48 @ cs else zpad w s
      | [] \<Rightarrow> zpad w s)"

definition prepare_cell :: "ucd \<Rightarrow> bool \<Rightarrow> source_row \<Rightarrow> pystr \<Rightarrow> pystr" where
  "prepare_cell U formula_guard raw column =
     (let text = (case map_of raw column of
                    None \<Rightarrow> [] | Some PNone \<Rightarrow> [] | Some (PStr s) \<Rightarrow> s | Some v \<Rightarrow> py_str v);
          text = (if text \<noteq> [] \<and> \<not> is_ascii text then
                    if column \<in> set PHONE_COLUMNS then sanitize_phone U (PStr text)
                    else if column \<in> set TEXT_COLUMNS then sanitize_text U (PStr text)
                    else text
                  else text);
          text = (if formula_guard \<and> text \<noteq> [] \<and> hd text \<in> set risky_prefixes then guard_formula text else text)
      in if column = asc ''school_code'' \<and> text \<noteq> [] then
           (case py_int text of Some n \<Rightarrow> fmt_0d 6 n | None \<Rightarrow> zfill 6 text)
         else text)"

definition prepare_row :: "ucd \<Rightarrow> ExportWriter \<Rightarrow> source_row \<Rightarrow> pystr list" where
  "prepare_row U W raw = map (prepare_cell U (ew_formula_guard W) raw) (ew_columns W)"

section \<open>CSV text\<close>

definition csv_text :: "ExportWriter \<Rightarrow> pystr list list \<Rightarrow> pystr" where
  "csv_text W rows =
     (if ew_include_bom W then [65279] else []) @
     concat (map (csv_row (ew_newline W)) (ew_columns W # rows))"

section \<open>Files\<close>

datatype file_content = CsvFile pystr | XlsxFile "(pystr \<times> pystr list list) list"

type_synonym files = "pystr \<Rightarrow> file_content option"

record writer_lib =
  wl_sha256 :: "file_content \<Rightarrow> pystr"
  wl_book_size :: "(pystr \<times> pystr list list) list \<Rightarrow> nat"

record ExportedFile =
  xf_name :: pystr
  xf_sha256 :: pystr
  xf_byte_size :: nat
  xf_row_count :: nat
  xf_sheets :: "(pystr \<times> nat) list"

record ExportResult =
  er_files :: "ExportedFile list"
  er_total_rows :: nat

fun chunk_iterable :: "nat \<Rightarrow> 'a list \<Rightarrow> 'a list list" where
  "chunk_iterable n [] = []"
| "chunk_iterable n (first # rest) = (first # take (n - 1) rest) # chunk_iterable n (drop (n - 1) rest)"

definition write_csv_chunk ::
  "ucd \<Rightarrow> ExportWriter \<Rightarrow> bool \<Rightarrow> pystr \<Rightarrow> source_row list \<Rightarrow> files \<Rightarrow> sabt_error + nat \<times> nat \<times> files" where
  "write_csv_chunk U W writable path chunk fs =
     (let text = csv_text W (map (prepare_row U W) chunk)
      in case utf8_size text of
           None \<Rightarrow> Inl PlainValueError
         | Some n \<Rightarrow>
             if writable then Inr (n, length chunk, fs(path := Some (CsvFile text))) else Inl TransientError)"

fun write_csv_chunks ::
  "ucd \<Rightarrow> writer_lib \<Rightarrow> ExportWriter \<Rightarrow> (nat \<Rightarrow> bool) \<Rightarrow> (nat \<Rightarrow> pystr) \<Rightarrow> nat \<Rightarrow> source_row list list
   \<Rightarrow> ExportResult \<Rightarrow> files \<Rightarrow> (sabt_error + ExportResult) \<times> files" where
  "write_csv_chunks U L W io path_factory index [] res fs = (Inr res, fs)"
| "write_csv_chunks U L W io path_factory index (chunk # chunks) res fs =
     (let path = path_factory index
      in case write_csv_chunk U W (io index) path chunk fs of
           Inl e \<Rightarrow> (Inl e, fs)
         | Inr (byte_size, row_count, fs') \<Rightarrow>
             (let f = \<lparr>xf_name = path, xf_sha256 = (case fs' path of Some c \<Rightarrow> wl_sha256 L c | None \<Rightarrow> []),
                       xf_byte_size = byte_size, xf_row_count = row_count, xf_sheets = []\<rparr>
              in write_csv_chunks U L W io path_factory (index + 1) chunks
                   \<lparr>er_files = er_files res @ [f], er_total_rows = er_total_rows res + row_count\<rparr> fs'))"

definition write_csv ::
  "ucd \<Rightarrow> writer_lib \<Rightarrow> ExportWriter \<Rightarrow> (nat \<Rightarrow> bool) \<Rightarrow> (nat \<Rightarrow> pystr) \<Rightarrow> source_row list \<Rightarrow> files
   \<Rightarrow> (sabt_error + ExportResult) \<times> files" where
  "write_csv U L W io path_factory rows fs =
     write_csv_chunks U L W io path_factory 1 (chunk_iterable (nat (ew_chunk_size W)) rows)
       \<lparr>er_files = [], er_total_rows = 0\<rparr> fs"

definition sheet_name :: "nat \<Rightarrow> pystr" where
  "sheet_name index = asc ''Sheet_'' @ fmt_0d 3 (int index)"

definition write_xlsx ::
  "ucd \<Rightarrow> writer_lib \<Rightarrow> ExportWriter \<Rightarrow> (nat \<Rightarrow> bool) \<Rightarrow> (nat \<Rightarrow> pystr) \<Rightarrow> source_row list \<Rightarrow> files
   \<Rightarrow> (sabt_error + ExportResult) \<times> files" where
  "write_xlsx U L W io path_factory rows fs =
     (let path = path_factory 1;
          chunks = chunk_iterable (nat (ew_chunk_size W)) rows;
          sheets = map (\<lambda>(index, chunk). (sheet_name index, map (prepare_row U W) chunk)) (enumerate 1 chunks);
          sheets = (if sheets = [] then [(sheet_name 1, [])] else sheets);
          row_counts = map (\<lambda>(name, cells). (name, length cells)) sheets;
          book = map (\<lambda>(name, cells). (name, ew_columns W # cells)) sheets
      in if io 1 then
           (Inr \<lparr>er_files = [\<lparr>xf_name = path, xf_sha256 = wl_sha256 L (XlsxFile book),
                             xf_byte_size = wl_book_size L book, xf_row_count = sum_list (map snd row_counts),
                             xf_sheets = sort_key (\<lambda>p. p) row_counts\<rparr>],
                 er_total_rows = sum_list (map snd row_counts)\<rparr>,
            fs(path := Some (XlsxFile book)))
         else (Inl TransientError, fs))"

section \<open>The files partition the rows\<close>

lemma chunk_iterable_concat [simp]: "concat (chunk_iterable n rows) = rows"
  by (induction n rows rule: chunk_iterable.induct) simp_all

lemma chunk_iterable_sizes: "0 < n \<Longrightarrow> c \<in> set (chunk_iterable n rows) \<Longrightarrow> 1 \<le> length c \<and> length c \<le> n"
  by (induction n rows rule: chunk_iterable.induct) auto

text \<open>What a finished file holds: the header and the prepared rows of its chunk.\<close>

definition csv_file_of :: "ucd \<Rightarrow> writer_lib \<Rightarrow> ExportWriter \<Rightarrow> files \<Rightarrow> ExportedFile \<Rightarrow> source_row list \<Rightarrow> bool" where
  "csv_file_of U L W fs f chunk \<longleftrightarrow>
     (let text = csv_text W (map (prepare_row U W) chunk)
      in fs (xf_name f) = Some (CsvFile text) \<and> utf8_size text = Some (xf_byte_size f) \<and>
         xf_sha256 f = wl_sha256 L (CsvFile text) \<and> xf_row_count f = length chunk \<and> xf_sheets f = [])"

lemma write_csv_chunks_ok:
  assumes "write_csv_chunks U L W io pf i chunks res fs = (Inr res', fs')" and "inj pf"
  shows "\<exists>new. er_files res' = er_files res @ new \<and>
    er_total_rows res' = er_total_rows res + sum_list (map length chunks) \<and>
    map xf_name new = map pf [i..<i + length chunks] \<and> list_all2 (csv_file_of U L W fs') new chunks \<and>
    (\<forall>q. q \<notin> pf ` {i..<i + length chunks} \<longrightarrow> fs' q = fs q)"
  using assms(1)
proof (induction chunks arbitrary: i res fs)
  case (Cons chunk chunks)
  let ?text = "csv_text W (map (prepare_row U W) chunk)"
  obtain n where n: "utf8_size ?text = Some n" "io i"
    using Cons.prems by (auto simp: write_csv_chunk_def Let_def split: option.splits if_split_asm)
  let ?f = "\<lparr>xf_name = pf i, xf_sha256 = wl_sha256 L (CsvFile ?text), xf_byte_size = n, xf_row_count = length chunk, xf_sheets = []\<rparr>"
  let ?res = "\<lparr>er_files = er_files res @ [?f], er_total_rows = er_total_rows res + length chunk\<rparr>"
  have "write_csv_chunks U L W io pf (i + 1) chunks ?res (fs(pf i := Some (CsvFile ?text))) = (Inr res', fs')"
    using Cons.prems n by (simp add: write_csv_chunk_def Let_def)
  from Cons.IH [OF this] obtain new where new: "er_files res' = (er_files res @ [?f]) @ new"
    "er_total_rows res' = er_total_rows res + length chunk + sum_list (map length chunks)"
    "map xf_name new = map pf [i + 1..<i + 1 + length chunks]" "list_all2 (csv_file_of U L W fs') new chunks"
    "\<forall>q. q \<notin> pf ` {i + 1..<i + 1 + length chunks} \<longrightarrow> fs' q = (fs(pf i := Some (CsvFile ?text))) q"
    by auto
  have "pf i \<notin> pf ` {i + 1..<i + 1 + length chunks}" using assms(2) by (auto dest: injD)
  then have "csv_file_of U L W fs' ?f chunk" using new(5) n by (simp add: csv_file_of_def Let_def)
  moreover have "[i..<i + length (chunk # chunks)] = i # [i + 1..<i + 1 + length chunks]"
    using upt_conv_Cons [of i "i + length (chunk # chunks)"] by simp
  moreover have "\<forall>q. q \<notin> pf ` {i..<i + length (chunk # chunks)} \<longrightarrow> fs' q = fs q"
  proof -
    have "{i..<i + length (chunk # chunks)} = insert i {i + 1..<i + 1 + length chunks}" by auto
    then show ?thesis using new(5) by simp
  qed
  ultimately show ?case using new(1-4) by (intro exI [of _ "?f # new"]) simp
qed simp

text \<open>With or without an error every name keeps its file or gets a whole one.\<close>

lemma write_csv_chunks_atomic:
  "snd (write_csv_chunks U L W io pf i chunks res fs) q = fs q \<or>
   (\<exists>chunk \<in> set chunks. snd (write_csv_chunks U L W io pf i chunks res fs) q =
      Some (CsvFile (csv_text W (map (prepare_row U W) chunk))))"
proof (induction chunks arbitrary: i res fs)
  case (Cons chunk chunks)
  show ?case
  proof (cases "write_csv_chunk U W (io i) (pf i) chunk fs")
    case (Inr y)
    obtain n m fs1 where y: "y = (n, m, fs1)" by (cases y)
    then have fs1: "fs1 q = fs q \<or> fs1 q = Some (CsvFile (csv_text W (map (prepare_row U W) chunk)))"
      using Inr by (auto simp: write_csv_chunk_def Let_def split: option.splits if_split_asm)
    obtain res1 where "write_csv_chunks U L W io pf i (chunk # chunks) res fs =
        write_csv_chunks U L W io pf (i + 1) chunks res1 fs1"
      using Inr y by (simp add: Let_def)
    then show ?thesis using Cons.IH [of "i + 1" res1 fs1] fs1 by auto
  qed simp
qed simp

section \<open>No cell is a formula\<close>

lemma py_int_nonneg:
  assumes "py_int s = Some n" and "s \<noteq> []" and "hd s \<noteq> 45" and "\<not> int_space (hd s)"
  shows "0 \<le> n"
proof -
  have acc: "digits_val b a cs = Some m \<Longrightarrow> 0 \<le> a \<Longrightarrow> 0 \<le> m" for b a cs m
    by (induction cs arbitrary: b a) (auto dest: py_decimal_range split: if_split_asm option.splits)
  obtain c cs where s: "s = c # cs" using assms(2) by (cases s) auto
  have "strip_by int_space s \<noteq> [] \<and> hd (strip_by int_space s) = c"
  proof -
    have "dropWhile int_space s = c # cs" using assms(4) s by simp
    moreover have "dropWhile int_space (rev cs @ [c]) \<noteq> [] \<and> last (dropWhile int_space (rev cs @ [c])) = c"
      using assms(4) s by (simp add: dropWhile_append)
    ultimately show ?thesis by (simp add: strip_by_def hd_rev)
  qed
  then obtain ds where "strip_by int_space s = c # ds" by (cases "strip_by int_space s") auto
  then show ?thesis using assms(1,3) s acc
    by (auto simp: py_int_def dest: py_decimal_range split: if_split_asm option.splits)
qed

definition formula_start :: "pystr \<Rightarrow> bool" where
  "formula_start s \<longleftrightarrow> s \<noteq> [] \<and> hd s \<in> {61, 43, 45, 64, 9, 34}"

lemma zfill_start: "\<not> formula_start s \<Longrightarrow> \<not> formula_start (zfill 6 s)"
  by (cases s) (auto simp: formula_start_def zfill_def zpad_def hd_append)

lemma fmt_start: "0 \<le> n \<Longrightarrow> \<not> formula_start (fmt_0d 6 n)"
proof -
  assume "0 \<le> n"
  then have "ascii_digits (fmt_0d 6 n)" "fmt_0d 6 n \<noteq> []" using fmt_0d_digits by auto
  then show ?thesis by (cases "fmt_0d 6 n") (auto simp: formula_start_def)
qed

lemma stripped_hd:
  assumes "py_strip s = s" and "s \<noteq> []"
  shows "\<not> py_isspace (hd s)"
proof
  assume sp: "py_isspace (hd s)"
  obtain c cs where s: "s = c # cs" using assms(2) by (cases s) auto
  have "length (py_strip s) \<le> length (dropWhile py_isspace s)"
    by (simp add: py_strip_def strip_by_def) (metis length_dropWhile_le length_rev)
  also have "\<dots> \<le> length cs" using sp s by (simp add: length_dropWhile_le)
  finally show False using assms(1) s by simp
qed

text \<open>The text of a cell before the guard.\<close>

definition raw_cell :: "ucd \<Rightarrow> source_row \<Rightarrow> pystr \<Rightarrow> pystr" where
  "raw_cell U raw column =
     (let text = (case map_of raw column of
                    None \<Rightarrow> [] | Some PNone \<Rightarrow> [] | Some (PStr s) \<Rightarrow> s | Some v \<Rightarrow> py_str v)
      in if text \<noteq> [] \<and> \<not> is_ascii text then
           if column \<in> set PHONE_COLUMNS then sanitize_phone U (PStr text)
           else if column \<in> set TEXT_COLUMNS then sanitize_text U (PStr text)
           else text
         else text)"

lemma prepare_cell_guarded:
  "prepare_cell U True raw column =
     (let text = guard_formula (raw_cell U raw column)
      in if column = asc ''school_code'' \<and> text \<noteq> [] then
           (case py_int text of Some n \<Rightarrow> fmt_0d 6 n | None \<Rightarrow> zfill 6 text)
         else text)"
proof -
  have "(if True \<and> t \<noteq> [] \<and> hd t \<in> set risky_prefixes then guard_formula t else t) = guard_formula t" for t
    by (cases t) (auto simp: guard_formula_def)
  then show ?thesis unfolding prepare_cell_def raw_cell_def Let_def by (simp only:)
qed

lemma guard_formula_start: "\<not> formula_start (guard_formula s)"
  using guard_formula_head [of s] by (auto simp: formula_start_def)

lemma guarded_int_nonneg:
  assumes "py_int (guard_formula s) = Some n" and "s = [] \<or> \<not> py_isspace (hd s)"
  shows "0 \<le> n"
proof (rule py_int_nonneg [OF assms(1)])
  have s: "s \<noteq> []" using assms(1) by (auto simp: guard_formula_def py_int_def)
  then show "guard_formula s \<noteq> []" by (cases s) (auto simp: guard_formula_def)
  show "hd (guard_formula s) \<noteq> 45"
    using guard_formula_start [of s] \<open>guard_formula s \<noteq> []\<close> by (auto simp: formula_start_def)
  have "hd (guard_formula s) = hd s \<or> hd (guard_formula s) = 39" using guard_formula_cases [of s] by auto
  moreover have "\<not> int_space 39" "\<not> int_space (hd s)"
    using assms(2) s by (auto simp: int_space_def py_isspace_def)
  ultimately show "\<not> int_space (hd (guard_formula s))" by metis
qed

lemma prepare_cell_safe:
  assumes "column = asc ''school_code'' \<Longrightarrow> raw_cell U raw column = [] \<or> \<not> py_isspace (hd (raw_cell U raw column))"
  shows "\<not> formula_start (prepare_cell U True raw column)"
  using assms guard_formula_start [of "raw_cell U raw column"] zfill_start fmt_start guarded_int_nonneg
  by (auto simp: prepare_cell_guarded Let_def split: option.splits)

text \<open>Without that proviso the guard can be passed by: blanks before a sign survive it, and \<^verbatim>\<open>int\<close> drops them.\<close>

lemma guard_bypass:
  "prepare_cell U True [(asc ''school_code'', PStr (asc '' -5''))] (asc ''school_code'') = asc ''-00005''"
  by code_simp

section \<open>Properties\<close>

text \<open>A recorded file is there, reads back as the header and the given rows, and is described truly.\<close>

definition file_holds :: "writer_lib \<Rightarrow> ExportWriter \<Rightarrow> files \<Rightarrow> ExportedFile \<Rightarrow> pystr list list \<Rightarrow> bool" where
  "file_holds L W fs f part \<longleftrightarrow>
     (\<exists>text. fs (xf_name f) = Some (CsvFile text) \<and>
        csv_read (drop (if ew_include_bom W then 1 else 0) text) = Some (ew_columns W # part) \<and>
        xf_row_count f = length part \<and> 1 \<le> length part \<and> int (length part) \<le> ew_chunk_size W \<and>
        utf8_size text = Some (xf_byte_size f) \<and> xf_sha256 f = wl_sha256 L (CsvFile text))"

lemma write_csv_files:
  assumes "write_csv U L W io pf rows fs = (Inr res, fs')" and "inj pf" and "0 < ew_chunk_size W"
    and "ew_newline W = [13, 10] \<or> ew_newline W = [10]" and "ew_columns W \<noteq> []"
  shows "er_total_rows res = length rows"
    and "map xf_name (er_files res) = map pf [1..<1 + length (er_files res)]"
    and "\<exists>parts. concat parts = map (prepare_row U W) rows \<and> list_all2 (file_holds L W fs') (er_files res) parts"
proof -
  let ?chunks = "chunk_iterable (nat (ew_chunk_size W)) rows"
  have "write_csv_chunks U L W io pf 1 ?chunks \<lparr>er_files = [], er_total_rows = 0\<rparr> fs = (Inr res, fs')"
    using assms(1) by (simp add: write_csv_def)
  from write_csv_chunks_ok [OF this assms(2)]
  have w: "er_total_rows res = sum_list (map length ?chunks)"
    "map xf_name (er_files res) = map pf [1..<1 + length ?chunks]"
    "list_all2 (csv_file_of U L W fs') (er_files res) ?chunks" by auto
  have reads: "csv_read (drop (if ew_include_bom W then 1 else 0) (csv_text W (map (prepare_row U W) chunk))) =
      Some (ew_columns W # map (prepare_row U W) chunk)" for chunk
  proof -
    have "list_all (\<lambda>cells. cells \<noteq> []) (ew_columns W # map (prepare_row U W) chunk)"
      using assms(5) by (simp add: list_all_iff prepare_row_def)
    from csv_rows_read [OF assms(4) this] show ?thesis by (simp add: csv_text_def)
  qed
  have "1 \<le> length c \<and> int (length c) \<le> ew_chunk_size W" if "c \<in> set ?chunks" for c
    using chunk_iterable_sizes [OF _ that] assms(3) by auto
  then have "list_all2 (file_holds L W fs') (er_files res) (map (map (prepare_row U W)) ?chunks)"
    using w(3) by (auto simp: list_all2_conv_all_nth csv_file_of_def file_holds_def Let_def reads)
  moreover have "concat (map (map (prepare_row U W)) ?chunks) = map (prepare_row U W) rows"
    by (metis chunk_iterable_concat map_concat)
  ultimately show "\<exists>parts. concat parts = map (prepare_row U W) rows \<and> list_all2 (file_holds L W fs') (er_files res) parts"
    by blast
  show "er_total_rows res = length rows" using w(1) by (metis chunk_iterable_concat length_concat)
  have "length (er_files res) = length ?chunks" using w(3) by (rule list_all2_lengthD)
  then show "map xf_name (er_files res) = map pf [1..<1 + length (er_files res)]" using w(2) by simp
qed

text \<open>
  C26 csv_export_reads_back: when \<^verbatim>\<open>write_csv\<close> succeeds, its files are named by the path factory in order
  from 1 and every one reads back, behind the byte order mark, as the header and between one and
  \<^verbatim>\<open>chunk_size\<close> rows; the rows of all files one after the other are exactly the prepared rows, the recorded
  counts, sizes and digests are those of the files, and the total is the number of rows. With or
  without an error every name keeps its file or gets a whole one.
\<close>

theorem csv_export_reads_back:
  assumes "inj pf" and "0 < ew_chunk_size W" and "ew_newline W = [13, 10] \<or> ew_newline W = [10]" and "ew_columns W \<noteq> []"
  shows "(case write_csv U L W io pf rows fs of
      (Inr res, fs') \<Rightarrow>
        er_total_rows res = length rows \<and>
        map xf_name (er_files res) = map pf [1..<1 + length (er_files res)] \<and>
        (\<exists>parts. concat parts = map (prepare_row U W) rows \<and> list_all2 (file_holds L W fs') (er_files res) parts)
    | (Inl e, fs') \<Rightarrow> e \<in> {PlainValueError, TransientError}) \<and>
    (\<forall>q. snd (write_csv U L W io pf rows fs) q = fs q \<or>
       (\<exists>part. snd (write_csv U L W io pf rows fs) q = Some (CsvFile (csv_text W (map (prepare_row U W) part))) \<and>
               part \<in> set (chunk_iterable (nat (ew_chunk_size W)) rows)))"
proof -
  have err: "fst (write_csv_chunks U L W io pf i chunks r fs) = Inl e \<Longrightarrow> e \<in> {PlainValueError, TransientError}" for i chunks r fs e
    by (induction chunks arbitrary: i r fs)
      (auto simp: Let_def write_csv_chunk_def split: sum.splits option.splits if_split_asm)
  obtain res fs' where w: "write_csv U L W io pf rows fs = (res, fs')" by (cases "write_csv U L W io pf rows fs")
  have "case (res, fs') of
      (Inr res, fs') \<Rightarrow>
        er_total_rows res = length rows \<and>
        map xf_name (er_files res) = map pf [1..<1 + length (er_files res)] \<and>
        (\<exists>parts. concat parts = map (prepare_row U W) rows \<and> list_all2 (file_holds L W fs') (er_files res) parts)
    | (Inl e, fs') \<Rightarrow> e \<in> {PlainValueError, TransientError}"
  proof (cases res)
    case (Inl e)
    have "fst (write_csv U L W io pf rows fs) = Inl e" using w Inl by simp
    then have "e \<in> {PlainValueError, TransientError}" unfolding write_csv_def by (rule err)
    then show ?thesis using Inl by simp
  next
    case (Inr r)
    then show ?thesis using write_csv_files [OF w [unfolded Inr] assms] by simp
  qed
  moreover have "fs' q = fs q \<or> (\<exists>part. fs' q = Some (CsvFile (csv_text W (map (prepare_row U W) part))) \<and>
      part \<in> set (chunk_iterable (nat (ew_chunk_size W)) rows))" for q
    using write_csv_chunks_atomic [of U L W io pf 1 "chunk_iterable (nat (ew_chunk_size W)) rows" _ fs q] w
    unfolding write_csv_def by (metis snd_conv)
  ultimately show ?thesis unfolding w by simp
qed

definition sample_writer :: ExportWriter where
  "sample_writer = \<lparr>ew_columns = [asc ''first_name'', asc ''school_code''], ew_newline = [13, 10],
     ew_include_bom = True, ew_chunk_size = 2, ew_formula_guard = True\<rparr>"

definition sample_source_rows :: "source_row list" where
  "sample_source_rows =
     [[(asc ''first_name'', PStr (asc ''=1+1'')), (asc ''school_code'', PInt 12)],
      [(asc ''first_name'', PStr [65, 34, 44, 13, 10, 66])],
      [(asc ''school_code'', PStr (asc ''-5'')), (asc ''first_name'', PNone)]]"

definition sample_writer_lib :: writer_lib where
  "sample_writer_lib = \<lparr>wl_sha256 = (\<lambda>c. case c of CsvFile t \<Rightarrow> take 4 t | XlsxFile b \<Rightarrow> []), wl_book_size = length\<rparr>"

definition sample_path :: "nat \<Rightarrow> pystr" where
  "sample_path n = asc ''out_'' @ py_str_int (int n)"

lemma sample_path_inj: "inj sample_path"
  by (rule injI) (use py_str_int_inj in \<open>fastforce simp: sample_path_def\<close>)

theorem csv_export_reads_back_witness:
  "\<exists>res fs' parts. write_csv ascii_ucd sample_writer_lib sample_writer (\<lambda>i. True) sample_path sample_source_rows
      (\<lambda>_. None) = (Inr res, fs') \<and> er_total_rows res = 3 \<and>
    map xf_name (er_files res) = [asc ''out_1'', asc ''out_2''] \<and>
    concat parts = [[39 # asc ''=1+1'', asc ''000012''], [[65, 34, 44, 13, 10, 66], []], [[], asc [CHR ''0'', CHR ''0'', CHR ''0'', CHR 0x27, CHR ''-'', CHR ''5'']]] \<and>
    list_all2 (\<lambda>f part. \<exists>text. fs' (xf_name f) = Some (CsvFile text) \<and>
        csv_read (drop 1 text) = Some (ew_columns sample_writer # part)) (er_files res) parts"
proof -
  let ?w = "write_csv ascii_ucd sample_writer_lib sample_writer (\<lambda>i. True) sample_path sample_source_rows (\<lambda>_. None)"
  have "case fst ?w of Inl _ \<Rightarrow> False | Inr res \<Rightarrow> length (er_files res) = 2" by code_simp
  then obtain res where "fst ?w = Inr res" and len: "length (er_files res) = 2" by (auto split: sum.splits)
  then have run: "?w = (Inr res, snd ?w)" by (metis prod.collapse)
  have W: "0 < ew_chunk_size sample_writer" "ew_newline sample_writer = [13, 10] \<or> ew_newline sample_writer = [10]"
    "ew_columns sample_writer \<noteq> []" "ew_include_bom sample_writer"
    by (simp_all add: sample_writer_def)
  have reads: "er_total_rows res = length sample_source_rows \<and>
      map xf_name (er_files res) = map sample_path [1..<1 + length (er_files res)] \<and>
      (\<exists>parts. concat parts = map (prepare_row ascii_ucd sample_writer) sample_source_rows \<and>
         list_all2 (file_holds sample_writer_lib sample_writer (snd ?w)) (er_files res) parts)"
    using conjunct1 [OF csv_export_reads_back [OF sample_path_inj W(1-3), where U = ascii_ucd
        and L = sample_writer_lib and io = "\<lambda>i. True" and rows = sample_source_rows and fs = "\<lambda>_. None"]]
    by (subst (asm) run) (simp only: prod.case sum.case)
  then obtain parts where parts: "concat parts = map (prepare_row ascii_ucd sample_writer) sample_source_rows"
    "list_all2 (file_holds sample_writer_lib sample_writer (snd ?w)) (er_files res) parts" by blast
  have "list_all2 (\<lambda>f part. \<exists>text. snd ?w (xf_name f) = Some (CsvFile text) \<and>
        csv_read (drop 1 text) = Some (ew_columns sample_writer # part)) (er_files res) parts"
    by (rule list_all2_mono [OF parts(2)]) (use W(4) in \<open>auto simp: file_holds_def\<close>)
  moreover have "er_total_rows res = length sample_source_rows"
    "map xf_name (er_files res) = map sample_path [1..<1 + length (er_files res)]" using reads by blast+
  moreover note parts(1)
  moreover have "map sample_path [1..<1 + 2] = [asc ''out_1'', asc ''out_2'']"
    "map (prepare_row ascii_ucd sample_writer) sample_source_rows =
      [[39 # asc ''=1+1'', asc ''000012''], [[65, 34, 44, 13, 10, 66], []], [[], asc [CHR ''0'', CHR ''0'', CHR ''0'', CHR 0x27, CHR ''-'', CHR ''5'']]]"
    "length sample_source_rows = 3"
    by code_simp+
  ultimately show ?thesis using run len by (intro exI [of _ res] exI [of _ "snd ?w"] exI [of _ parts]) simp
qed

text \<open>
  With the formula guard on, no prepared cell begins with one of = + - @, a tab or
  a quotation mark, provided the value of the school code does not begin with white space, as the
  cleaned values of the export never do.
\<close>

theorem no_formula_cells:
  assumes "ew_formula_guard W"
    and "raw_cell U raw (asc ''school_code'') = [] \<or> \<not> py_isspace (hd (raw_cell U raw (asc ''school_code'')))"
  shows "list_all (\<lambda>cell. \<not> formula_start cell) (prepare_row U W raw)"
  using prepare_cell_safe [of _ U raw] assms by (auto simp: list_all_iff prepare_row_def)

theorem no_formula_cells_witness:
  "list_all (\<lambda>cell. \<not> formula_start cell) (prepare_row ascii_ucd sample_writer (sample_source_rows ! 2))"
proof (rule no_formula_cells)
  show "ew_formula_guard sample_writer" by (simp add: sample_writer_def)
  show "raw_cell ascii_ucd (sample_source_rows ! 2) (asc ''school_code'') = [] \<or>
    \<not> py_isspace (hd (raw_cell ascii_ucd (sample_source_rows ! 2) (asc ''school_code'')))" by code_simp
qed

end
