(* ===== verification/Sabt_Exporter.thy ===== *)
theory Sabt_Exporter
  imports Sabt_Writer Counter_Rules Core_Retry
begin

text \<open>
  \<^verbatim>\<open>phase6_import_to_sabt/exporter_service.py\<close> with the rows, filters, options and manifests of \<^verbatim>\<open>models.py\<close>:
  \<^verbatim>\<open>ImportToSabtExporter.run\<close> fetches and sorts the rows, writes them to files and then writes the manifest, each
  phase under \<^verbatim>\<open>execute_with_retry\<close>. What lies outside is an environment: the roster, the rows that call
  number \<open>n\<close> of the data source yields (each may be an exception), which chunks and files can be written at which
  attempt, the digests and the retry library. The output directory is the map of its finished files and
  the manifest; partial files are not represented, since the writers leave none behind. A datetime is the
  calendar fields of its instant in UTC. Metrics, logs, durations and the delta window are left out.
\<close>

section \<open>Data\<close>

record datetime =
  dt_year :: int
  dt_month :: int
  dt_day :: int
  dt_hour :: int
  dt_minute :: int
  dt_second :: int
  dt_microsecond :: int

record NormalizedStudentRow =
  nr_national_id :: pystr
  nr_counter :: pystr
  nr_first_name :: pystr
  nr_last_name :: pystr
  nr_gender :: int
  nr_mobile :: pystr
  nr_reg_center :: int
  nr_reg_status :: int
  nr_group_code :: int
  nr_student_type :: int
  nr_school_code :: "int option"
  nr_mentor_id :: "pystr option"
  nr_mentor_name :: "pystr option"
  nr_mentor_mobile :: "pystr option"
  nr_allocation_date :: datetime
  nr_year_code :: pystr

record ExportFilters =
  ef_year :: int
  ef_center :: "int option"

datatype output_format = csv_format | xlsx_format

record ExportOptions =
  eo_chunk_size :: int
  eo_include_bom :: bool
  eo_newline :: pystr
  eo_excel_mode :: bool
  eo_output_format :: output_format

text \<open>\<^verbatim>\<open>__post_init__\<close>: the name of the format is folded to lower case, an empty one is xlsx.\<close>

definition read_output_format :: "ucd \<Rightarrow> pystr \<Rightarrow> sabt_error + output_format" where
  "read_output_format U name =
     (let normalized = u_lower U (if name = [] then asc ''xlsx'' else name)
      in if normalized = asc ''csv'' then Inr csv_format
         else if normalized = asc ''xlsx'' then Inr xlsx_format
         else Inl PlainValueError)"

definition SORT_KEYS :: "pystr list" where
  "SORT_KEYS = map asc [''year_code'', ''reg_center'', ''group_code'', ''school_code'', ''national_id'']"

section \<open>Rows\<close>

text \<open>\<^verbatim>\<open>isoformat\<close> of a UTC datetime with the offset written as Z.\<close>

definition iso_utc :: "datetime \<Rightarrow> pystr" where
  "iso_utc d =
     fmt_0d 4 (dt_year d) @ asc ''-'' @ fmt_0d 2 (dt_month d) @ asc ''-'' @ fmt_0d 2 (dt_day d) @ asc ''T'' @
     fmt_0d 2 (dt_hour d) @ asc '':'' @ fmt_0d 2 (dt_minute d) @ asc '':'' @ fmt_0d 2 (dt_second d) @
     (if dt_microsecond d = 0 then [] else asc ''.'' @ fmt_0d 6 (dt_microsecond d)) @ asc ''Z''"

fun substring_in :: "pystr \<Rightarrow> pystr \<Rightarrow> bool" where
  "substring_in p [] = (p = [])"
| "substring_in p (c # cs) = (startswith (c # cs) p \<or> substring_in p cs)"

definition phone_re :: "pystr \<Rightarrow> bool" where
  "phone_re s \<longleftrightarrow> length s = 11 \<and> take 2 s = asc ''09'' \<and> list_all decimal_char (drop 2 s)"

definition opt_text :: "pystr option \<Rightarrow> pyval" where
  "opt_text v = PStr (case v of None \<Rightarrow> [] | Some s \<Rightarrow> s)"

definition export_row ::
  "ucd \<Rightarrow> (int \<Rightarrow> int option \<Rightarrow> bool) \<Rightarrow> ExportFilters \<Rightarrow> NormalizedStudentRow \<Rightarrow> sabt_error + sabt_row" where
  "export_row U is_special filters row =
     (let school_code = nr_school_code row;
          derived_student_type = (if is_special (ef_year filters) school_code then 1 else 0 :: int);
          reg_center = nr_reg_center row; reg_status = nr_reg_status row
      in if reg_center \<notin> {0, 1, 2} then Inl (ExportValidationError InvalidRegCenter)
         else if reg_status \<notin> {0, 1, 3} then Inl (ExportValidationError InvalidRegStatus)
         else let mobile = sanitize_phone U (PStr (nr_mobile row)) in
           if \<not> phone_re mobile then Inl (ExportValidationError InvalidMobile)
           else (case validate_counter (Some (sanitize_text U (PStr (nr_counter row)))) of
               None \<Rightarrow> Inl PlainValueError
             | Some counter \<Rightarrow>
                 (case gender_prefix (nr_gender row) of
                    None \<Rightarrow> Inl (ExportValidationError InvalidCounterPrefix)
                  | Some expected_prefix \<Rightarrow>
                      if \<not> substring_in expected_prefix counter then Inl (ExportValidationError InvalidCounterPrefix)
                      else Inr
                        [(asc ''national_id'', sanitize_text U (PStr (nr_national_id row))),
                         (asc ''counter'', counter),
                         (asc ''first_name'', sanitize_text U (PStr (nr_first_name row))),
                         (asc ''last_name'', sanitize_text U (PStr (nr_last_name row))),
                         (asc ''gender'', py_str_int (nr_gender row)),
                         (asc ''mobile'', mobile),
                         (asc ''reg_center'', py_str_int reg_center),
                         (asc ''reg_status'', py_str_int reg_status),
                         (asc ''group_code'', py_str_int (nr_group_code row)),
                         (asc ''student_type'', py_str_int derived_student_type),
                         (asc ''school_code'', case school_code of None \<Rightarrow> [] | Some n \<Rightarrow> fmt_0d 6 n),
                         (asc ''mentor_id'', sanitize_text U (opt_text (nr_mentor_id row))),
                         (asc ''mentor_name'', sanitize_text U (opt_text (nr_mentor_name row))),
                         (asc ''mentor_mobile'', sanitize_phone U (opt_text (nr_mentor_mobile row))),
                         (asc ''allocation_date'', iso_utc (nr_allocation_date row)),
                         (asc ''year_code'', sanitize_text U (PStr (nr_year_code row)))])))"

definition as_source :: "sabt_row \<Rightarrow> source_row" where
  "as_source row = map (\<lambda>(k, v). (k, PStr v)) row"

section \<open>The environment and the state\<close>

record export_env =
  xe_is_special :: "int \<Rightarrow> int option \<Rightarrow> bool"
  xe_fetch :: "nat \<Rightarrow> (sabt_error + NormalizedStudentRow) list"
  xe_chunk_io :: "nat \<Rightarrow> nat \<Rightarrow> bool"
  xe_file_io :: "nat \<Rightarrow> nat \<Rightarrow> bool"
  xe_manifest_io :: "nat \<Rightarrow> bool"
  xe_writer :: writer_lib
  xe_retry :: retry_lib
  xe_policy :: RetryPolicy

record ExportManifest =
  em_filters :: ExportFilters
  em_snapshot :: pystr
  em_total_rows :: nat
  em_files :: "ExportedFile list"
  em_timestamp :: pystr
  em_files_order :: "pystr list"
  em_chunk_size :: int
  em_sort_keys :: "pystr list"
  em_format :: output_format
  em_csv_bom :: bool
  em_crlf :: bool

record output_dir =
  od_files :: files
  od_manifest :: "ExportManifest option"

datatype run_error = Raised sabt_error | RetryExhaustedError sabt_error | AssertionError

definition is_transient :: "sabt_error \<Rightarrow> bool" where
  "is_transient e \<longleftrightarrow> e = TransientError"

text \<open>\<^verbatim>\<open>_run_with_retry\<close> over an operation that changes a state.\<close>

definition run_with_retry ::
  "export_env \<Rightarrow> pystr \<Rightarrow> pystr \<Rightarrow> (nat \<Rightarrow> 's \<Rightarrow> (sabt_error + 'a) \<times> 's) \<Rightarrow> 's \<Rightarrow> (run_error + 'a) \<times> 's" where
  "run_with_retry E cid phase step s =
     (let r = execute_with_retry (xe_retry E) (xe_policy E) is_transient (attempts_outcome step s) cid
                (asc ''import_to_sabt.exporter.'' @ phase) \<lparr>m_default = [], m_custom = None\<rparr>
      in ((case rr_result r of
             Returned x \<Rightarrow> Inr x | RetryExhausted e \<Rightarrow> Inl (RetryExhaustedError e) | AssertionFailed \<Rightarrow> Inl AssertionError),
          attempts_state step s (rr_calls r)))"

section \<open>The three phases\<close>

definition determine_buffer_rows :: "int \<Rightarrow> int" where
  "determine_buffer_rows chunk_size =
     (if chunk_size \<le> 0 then 10000 else max 10000 (min chunk_size 20000))"

definition query_phase ::
  "ucd \<Rightarrow> export_env \<Rightarrow> ExportFilters \<Rightarrow> ExportOptions \<Rightarrow> nat
   \<Rightarrow> sabt_error + SortPlan \<times> (nat \<Rightarrow> entry list option)" where
  "query_phase U E filters opts n =
     rbind (make_sorter SORT_KEYS (determine_buffer_rows (eo_chunk_size opts))) (\<lambda>sorter.
       rbind (prepare U sorter (xe_chunk_io E n)
                (map (\<lambda>item. rbind item (\<lambda>row.
                        rbind (export_row U (xe_is_special E) filters row) (\<lambda>record. Inr (as_source record))))
                   (xe_fetch E n)))
         (\<lambda>(plan, workspace).
            if sp_total_rows plan = 0 then Inl (ExportValidationError EmptyExport) else Inr (plan, workspace)))"

definition strftime_stamp :: "datetime \<Rightarrow> pystr" where
  "strftime_stamp d =
     fmt_0d 4 (dt_year d) @ fmt_0d 2 (dt_month d) @ fmt_0d 2 (dt_day d) @
     fmt_0d 2 (dt_hour d) @ fmt_0d 2 (dt_minute d) @ fmt_0d 2 (dt_second d)"

definition format_name :: "output_format \<Rightarrow> pystr" where
  "format_name f = (case f of csv_format \<Rightarrow> asc ''csv'' | xlsx_format \<Rightarrow> asc ''xlsx'')"

definition build_filename :: "ExportFilters \<Rightarrow> pystr \<Rightarrow> pystr \<Rightarrow> nat \<Rightarrow> pystr" where
  "build_filename filters timestamp extension seq =
     asc ''export_SABT_V1_'' @ py_str_int (ef_year filters) @ asc ''-'' @
     (case ef_center filters of None \<Rightarrow> asc ''ALL'' | Some c \<Rightarrow> py_str_int c) @ asc ''_'' @
     timestamp @ asc ''_'' @ fmt_0d 3 (int seq) @ asc ''.'' @ extension"

definition write_exports ::
  "ucd \<Rightarrow> export_env \<Rightarrow> nat \<Rightarrow> ExportFilters \<Rightarrow> sabt_row list \<Rightarrow> ExportOptions \<Rightarrow> pystr \<Rightarrow> files
   \<Rightarrow> (sabt_error + ExportResult) \<times> files" where
  "write_exports U E n filters rows opts timestamp fs =
     (case make_writer EXPORT_COLUMNS (eo_newline opts) (eo_include_bom opts) (eo_chunk_size opts)
             (eo_excel_mode opts) of
        Inl e \<Rightarrow> (Inl e, fs)
      | Inr W \<Rightarrow>
          (case eo_output_format opts of
             csv_format \<Rightarrow> write_csv U (xe_writer E) W (xe_file_io E n)
               (build_filename filters timestamp (asc ''csv'')) (map as_source rows) fs
           | xlsx_format \<Rightarrow> write_xlsx U (xe_writer E) W (xe_file_io E n)
               (build_filename filters timestamp (asc ''xlsx'')) (map as_source rows) fs))"

definition write_phase ::
  "ucd \<Rightarrow> export_env \<Rightarrow> ExportFilters \<Rightarrow> ExportOptions \<Rightarrow> pystr \<Rightarrow> SortPlan \<Rightarrow> (nat \<Rightarrow> entry list option)
   \<Rightarrow> nat \<Rightarrow> output_dir \<Rightarrow> (sabt_error + ExportResult) \<times> output_dir" where
  "write_phase U E filters opts timestamp plan workspace n d =
     (case iter_sorted U plan workspace of
        (rows, _) \<Rightarrow>
          (let (res, fs) = write_exports U E n filters rows opts timestamp (od_files d)
           in (res, d\<lparr>od_files := fs\<rparr>)))"

definition finalize_phase :: "export_env \<Rightarrow> ExportManifest \<Rightarrow> nat \<Rightarrow> output_dir \<Rightarrow> (sabt_error + unit) \<times> output_dir" where
  "finalize_phase E manifest n d =
     (if xe_manifest_io E n then (Inr (), d\<lparr>od_manifest := Some manifest\<rparr>) else (Inl TransientError, d))"

definition make_manifest ::
  "ExportFilters \<Rightarrow> ExportOptions \<Rightarrow> pystr \<Rightarrow> pystr \<Rightarrow> ExportResult \<Rightarrow> ExportManifest" where
  "make_manifest filters opts marker timestamp res =
     \<lparr>em_filters = filters, em_snapshot = marker, em_total_rows = er_total_rows res, em_files = er_files res,
      em_timestamp = timestamp, em_files_order = map xf_name (er_files res), em_chunk_size = eo_chunk_size opts,
      em_sort_keys = SORT_KEYS, em_format = eo_output_format opts,
      em_csv_bom = (eo_output_format opts = csv_format \<and> eo_include_bom opts),
      em_crlf = (eo_newline opts = [13, 10])\<rparr>"

definition run_export ::
  "ucd \<Rightarrow> export_env \<Rightarrow> ExportFilters \<Rightarrow> ExportOptions \<Rightarrow> pystr \<Rightarrow> datetime \<Rightarrow> pystr \<Rightarrow> output_dir
   \<Rightarrow> (run_error + ExportManifest) \<times> output_dir" where
  "run_export U E filters opts marker clock_now cid d =
     (if eo_chunk_size opts \<le> 0 then (Inl (Raised (ExportValidationError InvalidChunkSize)), d)
      else
        let d = d\<lparr>od_manifest := None\<rparr>;
            (query, _) = run_with_retry E cid (asc ''query'') (\<lambda>n s. (query_phase U E filters opts n, s)) ();
            timestamp = strftime_stamp clock_now
        in case query of
             Inl e \<Rightarrow> (Inl e, d)
           | Inr (plan, workspace) \<Rightarrow>
               (case run_with_retry E cid (asc ''write'') (write_phase U E filters opts timestamp plan workspace) d of
                  (Inl e, d) \<Rightarrow> (Inl e, d)
                | (Inr res, d) \<Rightarrow>
                    let manifest = make_manifest filters opts marker timestamp res
                    in (case run_with_retry E cid (asc ''finalize'') (finalize_phase E manifest) d of
                          (Inl e, d) \<Rightarrow> (Inl e, d)
                        | (Inr _, d) \<Rightarrow> (Inr manifest, d))))"

section \<open>A phase under the retry contract\<close>

lemma run_with_retry_cases [consumes 1, case_names assertion success failure]:
  assumes "run_with_retry E cid phase step s = (res, s')"
  obtains "max_attempts (xe_policy E) < 1" "res = Inl AssertionError" "s' = s"
  | n s0 x where "1 \<le> n" "int n \<le> max_attempts (xe_policy E)" "step n s0 = (Inr x, s')" "res = Inr x"
  | n s0 e where "1 \<le> n" "int n \<le> max_attempts (xe_policy E)" "step n s0 = (Inl e, s')"
      "res = Inl (RetryExhaustedError e)"
proof (cases "max_attempts (xe_policy E) < 1")
  case True
  then show thesis using that(1) assms by (auto simp: run_with_retry_def execute_with_retry_def Let_def)
next
  case False
  let ?M = "\<lparr>m_default = [], m_custom = None\<rparr>"
  let ?op = "asc ''import_to_sabt.exporter.'' @ phase"
  let ?o = "attempts_outcome step s"
  let ?n = "rr_calls (execute_with_retry (xe_retry E) (xe_policy E) is_transient ?o cid ?op ?M)"
  have l: "1 \<le> max_attempts (xe_policy E)" using False by simp
  have n: "1 \<le> ?n" "int ?n \<le> max_attempts (xe_policy E)" using core_retry.calls_law [OF l] by blast+
  obtain s0 where "step ?n s0 = (?o ?n, attempts_state step s ?n)"
    using core_retry.last_call [OF l, where step = step and s = s and L = "xe_retry E" and retryable = is_transient
        and cid = cid and op = ?op and M = ?M] by (elim exE)
  moreover have "res = (case ?o ?n of Inr x \<Rightarrow> Inr x | Inl e \<Rightarrow> Inl (RetryExhaustedError e))"
    "s' = attempts_state step s ?n"
    using assms execute_with_retry_result [OF l, of "xe_retry E" is_transient ?o cid ?op ?M]
    by (auto simp: run_with_retry_def Let_def split: sum.splits)
  ultimately show thesis using that(2,3) n by (cases "?o ?n") auto
qed

lemma run_with_retry_keeps:
  assumes "run_with_retry E cid phase step s = (Inl e, s')" and "\<And>n s e. fst (step n s) = Inl e \<Longrightarrow> snd (step n s) = s"
  shows "s' = s"
proof (cases "max_attempts (xe_policy E) < 1")
  case True
  then show ?thesis using assms by (auto simp: run_with_retry_def execute_with_retry_def Let_def)
next
  case False
  let ?M = "\<lparr>m_default = [], m_custom = None\<rparr>"
  let ?op = "asc ''import_to_sabt.exporter.'' @ phase"
  let ?o = "attempts_outcome step s"
  let ?r = "execute_with_retry (xe_retry E) (xe_policy E) is_transient ?o cid ?op ?M"
  have l: "1 \<le> max_attempts (xe_policy E)" using False by simp
  obtain e' where "?o (rr_calls ?r) = Inl e'" "s' = attempts_state step s (rr_calls ?r)"
    using assms(1) execute_with_retry_result [OF l, of "xe_retry E" is_transient ?o cid ?op ?M]
    by (auto simp: run_with_retry_def Let_def split: sum.splits)
  then show ?thesis using core_retry.failure_leaves_no_trace [OF l assms(2)] by auto
qed

lemma run_with_retry_inv:
  assumes "I s" and "\<And>n s. I s \<Longrightarrow> I (snd (step n s))"
  shows "I (snd (run_with_retry E cid phase step s))"
  using attempts_state_inv [of I s step, OF assms] by (simp add: run_with_retry_def Let_def)

lemma run_with_retry_never_raises: "fst (run_with_retry E cid phase step s) \<noteq> Inl (Raised e)"
  by (simp add: run_with_retry_def Let_def split: retry_result.split)

text \<open>An error that is not transient ends the phase at once, wrapped.\<close>

lemma run_with_retry_fails_at_once:
  assumes "1 \<le> max_attempts (xe_policy E)" and "step 1 s = (Inl e, s1)" and "\<not> is_transient e"
  shows "run_with_retry E cid phase step s = (Inl (RetryExhaustedError e), s1)"
proof -
  let ?M = "\<lparr>m_default = [], m_custom = None\<rparr>"
  let ?op = "asc ''import_to_sabt.exporter.'' @ phase"
  let ?o = "attempts_outcome step s"
  have o: "?o 1 = Inl e" using assms(2) by (simp add: attempts_outcome_def)
  have n: "rr_calls (execute_with_retry (xe_retry E) (xe_policy E) is_transient ?o cid ?op ?M) = 1"
    by (rule core_retry.fails_at_once [where outcome = ?o]) (use assms o in simp_all)
  show ?thesis
    using execute_with_retry_result [OF assms(1), of "xe_retry E" is_transient ?o cid ?op ?M] o n assms(2)
    by (simp add: run_with_retry_def Let_def)
qed

section \<open>The rows and their order\<close>

lemma export_row_Inr:
  assumes "export_row U is_special filters row = Inr rec"
  shows "\<exists>counter. validate_counter (Some (sanitize_text U (PStr (nr_counter row)))) = Some counter \<and>
    rec =
      [(asc ''national_id'', sanitize_text U (PStr (nr_national_id row))),
       (asc ''counter'', counter),
       (asc ''first_name'', sanitize_text U (PStr (nr_first_name row))),
       (asc ''last_name'', sanitize_text U (PStr (nr_last_name row))),
       (asc ''gender'', py_str_int (nr_gender row)),
       (asc ''mobile'', sanitize_phone U (PStr (nr_mobile row))),
       (asc ''reg_center'', py_str_int (nr_reg_center row)),
       (asc ''reg_status'', py_str_int (nr_reg_status row)),
       (asc ''group_code'', py_str_int (nr_group_code row)),
       (asc ''student_type'', py_str_int (if is_special (ef_year filters) (nr_school_code row) then 1 else 0)),
       (asc ''school_code'', case nr_school_code row of None \<Rightarrow> [] | Some n \<Rightarrow> fmt_0d 6 n),
       (asc ''mentor_id'', sanitize_text U (opt_text (nr_mentor_id row))),
       (asc ''mentor_name'', sanitize_text U (opt_text (nr_mentor_name row))),
       (asc ''mentor_mobile'', sanitize_phone U (opt_text (nr_mentor_mobile row))),
       (asc ''allocation_date'', iso_utc (nr_allocation_date row)),
       (asc ''year_code'', sanitize_text U (PStr (nr_year_code row)))] \<and>
    nr_reg_center row \<in> {0, 1, 2} \<and> nr_reg_status row \<in> {0, 1, 3} \<and> nr_gender row \<in> {0, 1} \<and>
    phone_re (sanitize_phone U (PStr (nr_mobile row))) \<and>
    (\<exists>p. gender_prefix (nr_gender row) = Some p \<and> substring_in p counter)"
proof -
  have g: "nr_gender row \<in> {0, 1}" if "gender_prefix (nr_gender row) = Some p" for p
    using that by (auto simp: gender_prefix_def split: if_split_asm)
  show ?thesis
    using assms unfolding export_row_def Let_def
    by (simp only: split: if_split_asm option.splits) (use g in auto)
qed

lemma map_of_normalized:
  "map_of (sorter_normalize_row U (as_source rec)) k = map_option (\<lambda>v. sanitize_text U (PStr v)) (map_of rec k)"
  by (induction rec) (auto simp: sorter_normalize_row_def as_source_def)

lemma sanitize_digits: "ucd_ok U \<Longrightarrow> ascii_digits s \<Longrightarrow> sanitize_text U (PStr s) = s"
  by (intro sanitize_text_id clean_text_digits)

lemma key_int_str_int:
  assumes "ucd_ok U" and "0 \<le> n"
  shows "key_int (Some (sanitize_text U (PStr (py_str_int n)))) dflt = Inr n"
proof -
  have "ascii_digits (py_str_int n)" "py_str_int n \<noteq> []"
    using assms(2) show_pos_digits [of n] by (auto simp: py_str_int_def)
  then show ?thesis using assms(1) by (simp add: key_int_def sanitize_digits py_int_str_int)
qed

lemma key_int_fmt:
  assumes "ucd_ok U" and "0 \<le> n"
  shows "key_int (Some (sanitize_text U (PStr (fmt_0d w n)))) dflt = Inr n"
  using fmt_0d_digits [OF assms(2), of w] assms
  by (simp add: key_int_def sanitize_digits py_int_fmt_0d)

lemma key_int_empty: "key_int (Some (sanitize_text U (PStr []))) dflt = Inr dflt"
  by (simp add: key_int_def sanitize_text_def)

definition export_rank :: "ucd \<Rightarrow> NormalizedStudentRow \<Rightarrow> pystr \<times> int \<times> int \<times> int \<times> pystr" where
  "export_rank U row =
     (sanitize_text U (PStr (sanitize_text U (PStr (nr_year_code row)))), nr_reg_center row, nr_group_code row,
      (case nr_school_code row of None \<Rightarrow> 999999 | Some n \<Rightarrow> n),
      sanitize_text U (PStr (sanitize_text U (PStr (nr_national_id row)))))"

definition codes_in_range :: "NormalizedStudentRow \<Rightarrow> bool" where
  "codes_in_range row \<longleftrightarrow> 0 \<le> nr_group_code row \<and> nr_group_code row < 10 ^ 6 \<and>
     (case nr_school_code row of None \<Rightarrow> True | Some n \<Rightarrow> 0 \<le> n \<and> n < 10 ^ 6)"

lemma export_key:
  assumes U: "ucd_ok U" and "export_row U is_special filters row = Inr rec" and r: "codes_in_range row"
  shows "build_key SORT_KEYS (sorter_normalize_row U (as_source rec)) =
    (case export_rank U row of (y, c, g, s, n) \<Rightarrow> Inr [y, fmt_0d 3 c, fmt_0d 6 g, fmt_0d 6 s, n])"
proof -
  from export_row_Inr [OF assms(2)] obtain counter where rec: "rec =
      [(asc ''national_id'', sanitize_text U (PStr (nr_national_id row))),
       (asc ''counter'', counter),
       (asc ''first_name'', sanitize_text U (PStr (nr_first_name row))),
       (asc ''last_name'', sanitize_text U (PStr (nr_last_name row))),
       (asc ''gender'', py_str_int (nr_gender row)),
       (asc ''mobile'', sanitize_phone U (PStr (nr_mobile row))),
       (asc ''reg_center'', py_str_int (nr_reg_center row)),
       (asc ''reg_status'', py_str_int (nr_reg_status row)),
       (asc ''group_code'', py_str_int (nr_group_code row)),
       (asc ''student_type'', py_str_int (if is_special (ef_year filters) (nr_school_code row) then 1 else 0)),
       (asc ''school_code'', case nr_school_code row of None \<Rightarrow> [] | Some n \<Rightarrow> fmt_0d 6 n),
       (asc ''mentor_id'', sanitize_text U (opt_text (nr_mentor_id row))),
       (asc ''mentor_name'', sanitize_text U (opt_text (nr_mentor_name row))),
       (asc ''mentor_mobile'', sanitize_phone U (opt_text (nr_mentor_mobile row))),
       (asc ''allocation_date'', iso_utc (nr_allocation_date row)),
       (asc ''year_code'', sanitize_text U (PStr (nr_year_code row)))]"
    and c: "nr_reg_center row \<in> {0, 1, 2}" by blast
  have m: "map_of rec (asc ''year_code'') = Some (sanitize_text U (PStr (nr_year_code row)))"
    "map_of rec (asc ''reg_center'') = Some (py_str_int (nr_reg_center row))"
    "map_of rec (asc ''group_code'') = Some (py_str_int (nr_group_code row))"
    "map_of rec (asc ''school_code'') = Some (case nr_school_code row of None \<Rightarrow> [] | Some n \<Rightarrow> fmt_0d 6 n)"
    "map_of rec (asc ''national_id'') = Some (sanitize_text U (PStr (nr_national_id row)))"
    unfolding rec by (simp_all add: asc_def)
  let ?row = "sorter_normalize_row U (as_source rec)"
  have names: "asc ''year_code'' \<noteq> asc ''reg_center''" "asc ''year_code'' \<noteq> asc ''group_code''"
    "asc ''year_code'' \<noteq> asc ''school_code''" "asc ''group_code'' \<noteq> asc ''reg_center''"
    "asc ''school_code'' \<noteq> asc ''reg_center''" "asc ''school_code'' \<noteq> asc ''group_code''"
    "asc ''national_id'' \<noteq> asc ''reg_center''" "asc ''national_id'' \<noteq> asc ''group_code''"
    "asc ''national_id'' \<noteq> asc ''school_code''"
    by (simp_all add: asc_def)
  have "key_int (map_of ?row (asc ''reg_center'')) 0 = Inr (nr_reg_center row)"
    "key_int (map_of ?row (asc ''group_code'')) 0 = Inr (nr_group_code row)"
    using c r by (auto simp: map_of_normalized m key_int_str_int [OF U] codes_in_range_def)
  moreover have "key_int (map_of ?row (asc ''school_code'')) 999999 = Inr (case nr_school_code row of None \<Rightarrow> 999999 | Some n \<Rightarrow> n)"
    using r key_int_fmt [OF U] by (cases "nr_school_code row") (simp_all add: map_of_normalized m codes_in_range_def key_int_empty)
  ultimately show ?thesis
    by (simp add: build_key_def SORT_KEYS_def key_component_def names map_of_normalized m export_rank_def)
qed

section \<open>Properties\<close>

text \<open>
  For group and school codes of at most six digits the sort keys of two exported
  rows compare like year, center number, group number, school number (999999 when there is none) and
  national id, the texts by code points: the zero padding of the key makes the order of texts numeric.
\<close>

theorem export_order_is_numeric:
  assumes "ucd_ok U" and "export_row U is_special filters a = Inr ra" and "export_row U is_special filters b = Inr rb"
    and "row_entry U SORT_KEYS (Inr (as_source ra)) = Inr ea" and "row_entry U SORT_KEYS (Inr (as_source rb)) = Inr eb"
    and "codes_in_range a" and "codes_in_range b"
  shows "fst ea < fst eb \<longleftrightarrow> export_rank U a < export_rank U b"
proof -
  obtain y c g s n where a: "export_rank U a = (y, c, g, s, n)" by (cases "export_rank U a")
  obtain y' c' g' s' n' where b: "export_rank U b = (y', c', g', s', n')" by (cases "export_rank U b")
  have ea: "fst ea = [y, fmt_0d 3 c, fmt_0d 6 g, fmt_0d 6 s, n]"
    using export_key [OF assms(1,2,6)] assms(4) a by (auto simp: row_entry_def)
  have eb: "fst eb = [y', fmt_0d 3 c', fmt_0d 6 g', fmt_0d 6 s', n']"
    using export_key [OF assms(1,3,7)] assms(5) b by (auto simp: row_entry_def)
  have r: "c \<in> {0, 1, 2}" "c' \<in> {0, 1, 2}" "0 \<le> g" "g < 10 ^ 6" "0 \<le> g'" "g' < 10 ^ 6"
    "0 \<le> s" "s < 10 ^ 6" "0 \<le> s'" "s' < 10 ^ 6"
    using export_row_Inr [OF assms(2)] export_row_Inr [OF assms(3)] assms(6,7) a b
    by (auto simp: export_rank_def codes_in_range_def split: option.splits)
  have "fmt_0d 3 c < fmt_0d 3 c' \<longleftrightarrow> c < c'" "fmt_0d 6 g < fmt_0d 6 g' \<longleftrightarrow> g < g'" "fmt_0d 6 s < fmt_0d 6 s' \<longleftrightarrow> s < s'"
    using fmt_0d_less_iff [of c 3 c'] fmt_0d_less_iff [of g 6 g'] fmt_0d_less_iff [of s 6 s'] r by auto
  moreover have "fmt_0d 3 c = fmt_0d 3 c' \<longleftrightarrow> c = c'" "fmt_0d 6 g = fmt_0d 6 g' \<longleftrightarrow> g = g'" "fmt_0d 6 s = fmt_0d 6 s' \<longleftrightarrow> s = s'"
    using fmt_0d_inj [of c c' 3] fmt_0d_inj [of g g' 6] fmt_0d_inj [of s s' 6] r by auto
  ultimately show ?thesis unfolding ea eb a b by auto
qed

lemma write_phase_manifest: "od_manifest (snd (write_phase U E filters opts ts plan ws n d)) = od_manifest d"
  by (simp add: write_phase_def Let_def case_prod_beta split: sum.split)

lemma write_attempts_manifest:
  "od_manifest (snd (run_with_retry E cid ph (write_phase U E filters opts ts plan ws) d)) = od_manifest d"
  by (rule run_with_retry_inv [where I = "\<lambda>x. od_manifest x = od_manifest d"]) (simp_all add: write_phase_manifest)

text \<open>The run, phase by phase.\<close>

lemma run_export_cases [consumes 2, case_names no_query no_write no_manifest complete]:
  assumes "run_export U E filters opts marker now cid d = (res, d')" and "0 < eo_chunk_size opts"
  obtains e where "run_with_retry E cid (asc ''query'') (\<lambda>n s. (query_phase U E filters opts n, s)) () = (Inl e, ())"
      "res = Inl e" "d' = d\<lparr>od_manifest := None\<rparr>"
  | plan ws e where "run_with_retry E cid (asc ''query'') (\<lambda>n s. (query_phase U E filters opts n, s)) () = (Inr (plan, ws), ())"
      "run_with_retry E cid (asc ''write'') (write_phase U E filters opts (strftime_stamp now) plan ws)
         (d\<lparr>od_manifest := None\<rparr>) = (Inl e, d')" "res = Inl e"
  | plan ws r d1 e where "run_with_retry E cid (asc ''query'') (\<lambda>n s. (query_phase U E filters opts n, s)) () = (Inr (plan, ws), ())"
      "run_with_retry E cid (asc ''write'') (write_phase U E filters opts (strftime_stamp now) plan ws)
         (d\<lparr>od_manifest := None\<rparr>) = (Inr r, d1)"
      "run_with_retry E cid (asc ''finalize'') (finalize_phase E (make_manifest filters opts marker (strftime_stamp now) r)) d1 = (Inl e, d')"
      "res = Inl e"
  | plan ws r d1 where "run_with_retry E cid (asc ''query'') (\<lambda>n s. (query_phase U E filters opts n, s)) () = (Inr (plan, ws), ())"
      "run_with_retry E cid (asc ''write'') (write_phase U E filters opts (strftime_stamp now) plan ws)
         (d\<lparr>od_manifest := None\<rparr>) = (Inr r, d1)"
      "run_with_retry E cid (asc ''finalize'') (finalize_phase E (make_manifest filters opts marker (strftime_stamp now) r)) d1 = (Inr (), d')"
      "res = Inr (make_manifest filters opts marker (strftime_stamp now) r)"
proof -
  let ?Q = "run_with_retry E cid (asc ''query'') (\<lambda>n s. (query_phase U E filters opts n, s)) ()"
  have Q: "?Q = (fst ?Q, ())" by (cases ?Q) simp
  note run = assms(1) [unfolded run_export_def Let_def case_prod_beta]
  show thesis
  proof (cases "fst ?Q")
    case (Inl e)
    then show thesis using that(1) Q run assms(2) by simp
  next
    case (Inr y)
    obtain plan ws where y: "y = (plan, ws)" by (cases y)
    note q = Q [unfolded Inr y]
    let ?W = "run_with_retry E cid (asc ''write'') (write_phase U E filters opts (strftime_stamp now) plan ws) (d\<lparr>od_manifest := None\<rparr>)"
    obtain w d1 where w: "?W = (w, d1)" by (cases ?W)
    show thesis
    proof (cases w)
      case (Inl e)
      then show thesis using that(2) [OF q] w run Inr y assms(2) by simp
    next
      case r: (Inr r)
      let ?F = "run_with_retry E cid (asc ''finalize'') (finalize_phase E (make_manifest filters opts marker (strftime_stamp now) r)) d1"
      obtain f d2 where f: "?F = (f, d2)" by (cases ?F)
      show thesis
      proof (cases f)
        case (Inl e)
        then show thesis using that(3) [OF q w [unfolded r]] f run Inr y w r assms(2) by simp
      next
        case (Inr u)
        then show thesis using that(4) [OF q w [unfolded r]] f run \<open>fst ?Q = Inr y\<close> y w r assms(2) by simp
      qed
    qed
  qed
qed

text \<open>
  After a run the output directory has a manifest exactly when the run
  returned one, and then it is that one; only a run that was refused for its chunk size leaves the
  manifest of an earlier run in place.
\<close>

theorem manifest_means_success:
  "(case run_export U E filters opts marker now cid d of
      (Inr m, d') \<Rightarrow> od_manifest d' = Some m
    | (Inl e, d') \<Rightarrow> od_manifest d' = (if eo_chunk_size opts \<le> 0 then od_manifest d else None))"
proof (cases "eo_chunk_size opts \<le> 0")
  case True
  then show ?thesis by (simp add: run_export_def)
next
  case False
  obtain res d' where run: "run_export U E filters opts marker now cid d = (res, d')" by (cases "run_export U E filters opts marker now cid d")
  have chunk: "0 < eo_chunk_size opts" using False by simp
  from run chunk show ?thesis
  proof (cases rule: run_export_cases)
    case (no_query e)
    then show ?thesis using run False by simp
  next
    case (no_write plan ws e)
    then have "od_manifest d' = None"
      using write_attempts_manifest [of E cid "asc ''write''" U filters opts "strftime_stamp now" plan ws "d\<lparr>od_manifest := None\<rparr>"] by simp
    then show ?thesis using run no_write False by simp
  next
    case (no_manifest plan ws r d1 e)
    then have "od_manifest d1 = None"
      using write_attempts_manifest [of E cid "asc ''write''" U filters opts "strftime_stamp now" plan ws "d\<lparr>od_manifest := None\<rparr>"] by simp
    moreover have "d' = d1"
      by (rule run_with_retry_keeps [OF no_manifest(3)]) (simp add: finalize_phase_def split: if_split_asm)
    ultimately show ?thesis using run no_manifest False by simp
  next
    case (complete plan ws r d1)
    from complete(3) have "od_manifest d' = Some (make_manifest filters opts marker (strftime_stamp now) r)"
      by (cases rule: run_with_retry_cases) (auto simp: finalize_phase_def split: if_split_asm)
    then show ?thesis using run complete by simp
  qed
qed

section \<open>What a run exports\<close>

definition export_entry :: "ucd \<Rightarrow> export_env \<Rightarrow> ExportFilters \<Rightarrow> NormalizedStudentRow \<Rightarrow> sabt_error + entry" where
  "export_entry U E filters row =
     rbind (export_row U (xe_is_special E) filters row) (\<lambda>rec. row_entry U SORT_KEYS (Inr (as_source rec)))"

definition export_writer :: "ExportOptions \<Rightarrow> ExportWriter" where
  "export_writer opts =
     \<lparr>ew_columns = EXPORT_COLUMNS, ew_newline = eo_newline opts, ew_include_bom = eo_include_bom opts,
      ew_chunk_size = eo_chunk_size opts, ew_formula_guard = eo_excel_mode opts\<rparr>"

lemma fetched_entries:
  assumes "rmap (row_entry U SORT_KEYS) (map (\<lambda>item. rbind item (\<lambda>row.
      rbind (export_row U (xe_is_special E) filters row) (\<lambda>record. Inr (as_source record)))) items) = Inr es"
  shows "\<exists>rows. items = map Inr rows \<and> rmap (export_entry U E filters) rows = Inr es"
  using assms
proof (induction items arbitrary: es)
  case (Cons item items)
  obtain e es' where es: "es = e # es'" "rmap (row_entry U SORT_KEYS) (map (\<lambda>item. rbind item (\<lambda>row.
      rbind (export_row U (xe_is_special E) filters row) (\<lambda>record. Inr (as_source record)))) items) = Inr es'"
    and e: "row_entry U SORT_KEYS (rbind item (\<lambda>row.
      rbind (export_row U (xe_is_special E) filters row) (\<lambda>record. Inr (as_source record)))) = Inr e"
    using Cons.prems by auto
  from Cons.IH [OF es(2)] obtain rows where rows: "items = map Inr rows" "rmap (export_entry U E filters) rows = Inr es'" by blast
  obtain row where row: "item = Inr row" using e by (cases item) (auto simp: row_entry_def)
  then obtain rec where "export_row U (xe_is_special E) filters row = Inr rec"
    using e by (cases "export_row U (xe_is_special E) filters row") (auto simp: row_entry_def)
  then have "export_entry U E filters row = Inr e" using e row by (simp add: export_entry_def)
  then show ?case using rows row es(1) by (intro exI [of _ "row # rows"]) simp
qed simp

lemma query_phase_Inr:
  assumes "query_phase U E filters opts n = Inr (plan, ws)"
  shows "\<exists>rows es. xe_fetch E n = map Inr rows \<and> rows \<noteq> [] \<and> rmap (export_entry U E filters) rows = Inr es \<and>
    fst (iter_sorted U plan ws) = (if int (length rows) < determine_buffer_rows (eo_chunk_size opts)
      then map snd (sort_key fst es) else [])"
proof -
  let ?S = "\<lparr>sr_sort_keys = SORT_KEYS, sr_buffer_rows = determine_buffer_rows (eo_chunk_size opts)\<rparr>"
  have pos: "0 < sr_buffer_rows ?S" by (auto simp: determine_buffer_rows_def max_def)
  have "make_sorter SORT_KEYS (determine_buffer_rows (eo_chunk_size opts)) = Inr ?S"
    using pos by (simp add: make_sorter_def SORT_KEYS_def)
  then have q: "prepare U ?S (xe_chunk_io E n) (map (\<lambda>item. rbind item (\<lambda>row.
      rbind (export_row U (xe_is_special E) filters row) (\<lambda>record. Inr (as_source record)))) (xe_fetch E n)) = Inr (plan, ws)"
    and ne: "sp_total_rows plan \<noteq> 0"
    using assms by (auto simp: query_phase_def split: if_split_asm)
  from prepare_Inr [OF pos q] obtain es blocks st where
    es: "rmap (row_entry U SORT_KEYS) (map (\<lambda>item. rbind item (\<lambda>row.
      rbind (export_row U (xe_is_special E) filters row) (\<lambda>record. Inr (as_source record)))) (xe_fetch E n)) = Inr es"
    and st: "spilled ?S blocks es st" "ws = so_files st"
    and plan: "plan = \<lparr>sp_chunk_paths = so_chunk_paths st, sp_in_memory = sort_key fst (so_buffer st),
            sp_total_rows = so_total_rows st, sp_chunk_count = length (so_chunk_paths st),
            sp_spill_bytes = so_spill_bytes st\<rparr>" by auto
  from fetched_entries [OF es] obtain rows where rows: "xe_fetch E n = map Inr rows" "rmap (export_entry U E filters) rows = Inr es"
    by blast
  have "sp_total_rows plan = length es" using st plan by (simp add: spilled_def)
  then have "rows \<noteq> []" using ne rmap_Inr_length [OF rows(2)] by auto
  moreover have "fst (iter_sorted U plan ws) = (if int (length rows) < determine_buffer_rows (eo_chunk_size opts)
      then map snd (sort_key fst es) else [])"
    using iter_sorted_rows [OF st(1), of U ws] rmap_Inr_length [OF rows(2)] by (simp add: plan)
  ultimately show ?thesis using rows by blast
qed

lemma build_filename_inj: "inj (build_filename filters ts ext)"
proof (rule injI)
  fix i j assume "build_filename filters ts ext i = build_filename filters ts ext j"
  then have "fmt_0d 3 (int i) = fmt_0d 3 (int j)" by (simp add: build_filename_def)
  then show "i = j" using fmt_0d_inj [of "int i" "int j" 3] by simp
qed

text \<open>What a write of the sorted rows leaves, for a run that returns a manifest.\<close>

lemma run_export_files:
  assumes "run_export U E filters opts marker now cid d = (Inr m, d')"
    and "eo_output_format opts = csv_format" and "eo_newline opts = [13, 10] \<or> eo_newline opts = [10]"
  shows "\<exists>n rows es out parts.
    1 \<le> n \<and> int n \<le> max_attempts (xe_policy E) \<and> xe_fetch E n = map Inr rows \<and> rows \<noteq> [] \<and>
    rmap (export_entry U E filters) rows = Inr es \<and>
    out = (if int (length rows) < determine_buffer_rows (eo_chunk_size opts) then sort_key fst es else []) \<and>
    em_total_rows m = length out \<and>
    concat parts = map (\<lambda>e. prepare_row U (export_writer opts) (as_source (snd e))) out \<and>
    list_all2 (file_holds (xe_writer E) (export_writer opts) (od_files d')) (em_files m) parts \<and>
    map xf_name (em_files m) =
      map (build_filename filters (strftime_stamp now) (asc ''csv'')) [1..<1 + length (em_files m)]"
proof -
  have chunk: "0 < eo_chunk_size opts" using assms(1) by (simp add: run_export_def split: if_split_asm)
  from assms(1) chunk show ?thesis
  proof (cases rule: run_export_cases)
    case (complete plan ws r d1)
    from complete(1) obtain n where n: "1 \<le> n" "int n \<le> max_attempts (xe_policy E)" "query_phase U E filters opts n = Inr (plan, ws)"
      by (cases rule: run_with_retry_cases) auto
    from query_phase_Inr [OF n(3)] obtain rows es where
      rows: "xe_fetch E n = map Inr rows" "rows \<noteq> []" "rmap (export_entry U E filters) rows = Inr es"
      and it: "fst (iter_sorted U plan ws) = (if int (length rows) < determine_buffer_rows (eo_chunk_size opts)
        then map snd (sort_key fst es) else [])" by blast
    define out where "out = (if int (length rows) < determine_buffer_rows (eo_chunk_size opts) then sort_key fst es else [])"
    have out: "fst (iter_sorted U plan ws) = map snd out" by (simp add: it out_def)
    from complete(2) obtain k d0 where "write_phase U E filters opts (strftime_stamp now) plan ws k d0 = (Inr r, d1)"
      by (cases rule: run_with_retry_cases) auto
    then have "write_csv U (xe_writer E) (export_writer opts) (xe_file_io E k)
        (build_filename filters (strftime_stamp now) (asc ''csv'')) (map as_source (map snd out)) (od_files d0) = (Inr r, od_files d1)"
      using chunk assms(2)
      by (auto simp: write_phase_def out write_exports_def make_writer_def export_writer_def case_prod_beta prod_eq_iff)
    note w = write_csv_files [OF this build_filename_inj]
    have W: "0 < ew_chunk_size (export_writer opts)"
      "ew_newline (export_writer opts) = [13, 10] \<or> ew_newline (export_writer opts) = [10]" "ew_columns (export_writer opts) \<noteq> []"
      using chunk assms(3) by (simp_all add: export_writer_def EXPORT_COLUMNS_def)
    have "od_files (snd (run_with_retry E cid (asc ''finalize'')
        (finalize_phase E (make_manifest filters opts marker (strftime_stamp now) r)) d1)) = od_files d1"
      by (rule run_with_retry_inv [where I = "\<lambda>x. od_files x = od_files d1"]) (simp_all add: finalize_phase_def)
    then have "od_files d' = od_files d1" using complete(3) by simp
    moreover have "em_total_rows m = length out" using w(1) [OF W] complete(4) by (simp add: make_manifest_def)
    moreover have "em_files m = er_files r" using complete(4) by (simp add: make_manifest_def)
    moreover have "map (prepare_row U (export_writer opts)) (map as_source (map snd out)) =
        map (\<lambda>e. prepare_row U (export_writer opts) (as_source (snd e))) out" by simp
    ultimately show ?thesis using n(1,2) rows out_def w(2,3) [OF W] by metis
  qed simp_all
qed

text \<open>
  C10 run_export_exact: when a CSV run returns a manifest, some attempt of the query phase got rows that
  are all valid. If there are fewer than the buffer of the sorter holds (10000 rows, or the chunk size up to 20000), the
  files the manifest names, numbered from 1, read back as exactly these rows in
  the stable order of their sort keys: between one and \<^verbatim>\<open>chunk_size\<close> of them in each file, none lost
  and none twice, and the manifest's total is their number. If there are as many or more, the run still succeeds, but its
  manifest names no file and counts no row. The counts, sizes and digests of the manifest are those of the files.
\<close>

theorem run_export_exact:
  assumes "run_export U E filters opts marker now cid d = (Inr m, d')"
    and "eo_output_format opts = csv_format" and "eo_newline opts = [13, 10] \<or> eo_newline opts = [10]"
  shows "\<exists>n rows es.
    1 \<le> n \<and> int n \<le> max_attempts (xe_policy E) \<and> xe_fetch E n = map Inr rows \<and> rows \<noteq> [] \<and>
    rmap (export_entry U E filters) rows = Inr es \<and>
    (if int (length rows) < determine_buffer_rows (eo_chunk_size opts)
     then em_total_rows m = length rows \<and>
       (\<exists>parts. concat parts = map (\<lambda>e. prepare_row U (export_writer opts) (as_source (snd e))) (sort_key fst es) \<and>
          list_all2 (file_holds (xe_writer E) (export_writer opts) (od_files d')) (em_files m) parts) \<and>
       map xf_name (em_files m) =
         map (build_filename filters (strftime_stamp now) (asc ''csv'')) [1..<1 + length (em_files m)]
     else em_total_rows m = 0 \<and> em_files m = [])"
proof -
  from run_export_files [OF assms] obtain n rows es out parts where
    n: "1 \<le> n" "int n \<le> max_attempts (xe_policy E)" "xe_fetch E n = map Inr rows" "rows \<noteq> []"
      "rmap (export_entry U E filters) rows = Inr es"
    and out: "out = (if int (length rows) < determine_buffer_rows (eo_chunk_size opts) then sort_key fst es else [])"
      "em_total_rows m = length out"
      "concat parts = map (\<lambda>e. prepare_row U (export_writer opts) (as_source (snd e))) out"
    and files: "list_all2 (file_holds (xe_writer E) (export_writer opts) (od_files d')) (em_files m) parts"
      "map xf_name (em_files m) =
        map (build_filename filters (strftime_stamp now) (asc ''csv'')) [1..<1 + length (em_files m)]" by blast
  have len: "length es = length rows" by (rule rmap_Inr_length [OF n(5)])
  show ?thesis
  proof (cases "int (length rows) < determine_buffer_rows (eo_chunk_size opts)")
    case True
    then show ?thesis using n out files len by (intro exI [of _ n] exI [of _ rows] exI [of _ es]) auto
  next
    case False
    then have "concat parts = []" using out by simp
    moreover have "[] \<notin> set parts" using files(1) by (auto simp: list_all2_conv_all_nth file_holds_def in_set_conv_nth)
    ultimately have "parts = []" by (cases parts) auto
    then have "em_files m = []" using files(1) by simp
    then show ?thesis using n out False by (intro exI [of _ n] exI [of _ rows] exI [of _ es]) simp
  qed
qed

lemma run_export_raised:
  "fst (run_export U E filters opts marker now cid d) = Inl (Raised e) \<longleftrightarrow>
     eo_chunk_size opts \<le> 0 \<and> e = ExportValidationError InvalidChunkSize"
proof (cases "eo_chunk_size opts \<le> 0")
  case False
  obtain res d' where run: "run_export U E filters opts marker now cid d = (res, d')"
    by (cases "run_export U E filters opts marker now cid d")
  have "0 < eo_chunk_size opts" using False by simp
  from run this have "res \<noteq> Inl (Raised e)"
    by (cases rule: run_export_cases)
      (use run_with_retry_never_raises in \<open>metis fst_conv sum.inject(1) sum.distinct(1)\<close>)+
  then show ?thesis using run False by simp
qed (auto simp: run_export_def)

text \<open>
  The only exception that leaves \<^verbatim>\<open>run\<close> as it was raised is the refusal of the
  chunk size. A row that fails its validation, an empty result, a bad sort key, a chunk that cannot be
  spilled: whatever ends the first query attempt without being transient leaves \<^verbatim>\<open>run\<close> as
  RetryExhaustedError, after that one attempt, with the old manifest removed and the files untouched.
\<close>

theorem export_errors_are_wrapped:
  shows "(fst (run_export U E filters opts marker now cid d) = Inl (Raised e) \<longleftrightarrow>
      eo_chunk_size opts \<le> 0 \<and> e = ExportValidationError InvalidChunkSize) \<and>
    (0 < eo_chunk_size opts \<and> 1 \<le> max_attempts (xe_policy E) \<and>
     query_phase U E filters opts 1 = Inl err \<and> err \<noteq> TransientError \<longrightarrow>
     run_export U E filters opts marker now cid d = (Inl (RetryExhaustedError err), d\<lparr>od_manifest := None\<rparr>))"
proof (intro conjI impI)
  assume a: "0 < eo_chunk_size opts \<and> 1 \<le> max_attempts (xe_policy E) \<and>
     query_phase U E filters opts 1 = Inl err \<and> err \<noteq> TransientError"
  then have "run_with_retry E cid (asc ''query'') (\<lambda>n s. (query_phase U E filters opts n, s)) () =
      (Inl (RetryExhaustedError err), ())"
    by (intro run_with_retry_fails_at_once) (auto simp: is_transient_def)
  then show "run_export U E filters opts marker now cid d = (Inl (RetryExhaustedError err), d\<lparr>od_manifest := None\<rparr>)"
    using a by (simp add: run_export_def Let_def)
qed (rule run_export_raised)

section \<open>Witnesses\<close>

definition sample_student_row :: "int \<Rightarrow> int option \<Rightarrow> string \<Rightarrow> NormalizedStudentRow" where
  "sample_student_row center school nid =
     \<lparr>nr_national_id = asc nid, nr_counter = asc ''043570007'', nr_first_name = asc '' Sara'', nr_last_name = asc ''=1'',
      nr_gender = 1, nr_mobile = asc ''0912 345 6789'', nr_reg_center = center, nr_reg_status = 3, nr_group_code = 21,
      nr_student_type = 0, nr_school_code = school, nr_mentor_id = Some (asc ''17''), nr_mentor_name = None,
      nr_mentor_mobile = None,
      nr_allocation_date = \<lparr>dt_year = 2025, dt_month = 3, dt_day = 1, dt_hour = 8, dt_minute = 30, dt_second = 0,
                             dt_microsecond = 0\<rparr>,
      nr_year_code = asc ''04''\<rparr>"

definition sample_export_env :: "NormalizedStudentRow list \<Rightarrow> export_env" where
  "sample_export_env rows =
     \<lparr>xe_is_special = (\<lambda>year school. school = Some 12), xe_fetch = (\<lambda>n. if n = 1 then [Inl TransientError] else map Inr rows),
      xe_chunk_io = (\<lambda>n i. True), xe_file_io = (\<lambda>n i. True), xe_manifest_io = (\<lambda>n. n > 1),
      xe_writer = sample_writer_lib, xe_retry = sample_lib, xe_policy = default_policy\<rparr>"

definition sample_filters :: ExportFilters where
  "sample_filters = \<lparr>ef_year = 1404, ef_center = None\<rparr>"

definition sample_options :: ExportOptions where
  "sample_options = \<lparr>eo_chunk_size = 1, eo_include_bom = True, eo_newline = [13, 10], eo_excel_mode = True,
     eo_output_format = csv_format\<rparr>"

definition sample_export :: "NormalizedStudentRow list \<Rightarrow> (run_error + ExportManifest) \<times> output_dir" where
  "sample_export rows =
     run_export ascii_ucd (sample_export_env rows) sample_filters sample_options []
       (nr_allocation_date (sample_student_row 0 None [])) [] \<lparr>od_files = (\<lambda>_. None), od_manifest = None\<rparr>"

theorem run_export_exact_witness:
  "\<exists>m d' rows es parts. sample_export [sample_student_row 2 None ''2'', sample_student_row 1 (Some 12) ''1''] = (Inr m, d') \<and>
     rows = [sample_student_row 2 None ''2'', sample_student_row 1 (Some 12) ''1''] \<and>
     em_total_rows m = 2 \<and> rmap (export_entry ascii_ucd (sample_export_env rows) sample_filters) rows = Inr es \<and>
     concat parts = map (\<lambda>e. prepare_row ascii_ucd (export_writer sample_options) (as_source (snd e))) (sort_key fst es) \<and>
     length parts = 2"
proof -
  let ?rows = "[sample_student_row 2 None ''2'', sample_student_row 1 (Some 12) ''1'']"
  let ?E = "sample_export_env ?rows"
  have "case fst (sample_export ?rows) of Inl _ \<Rightarrow> False | Inr m \<Rightarrow> length (em_files m) = 2" by code_simp
  then obtain m where "fst (sample_export ?rows) = Inr m" and two: "length (em_files m) = 2" by (auto split: sum.splits)
  then have run: "sample_export ?rows = (Inr m, snd (sample_export ?rows))" by (metis prod.collapse)
  have o: "eo_output_format sample_options = csv_format" "eo_newline sample_options = [13, 10] \<or> eo_newline sample_options = [10]"
    "determine_buffer_rows (eo_chunk_size sample_options) = 10000"
    by (simp_all add: sample_options_def determine_buffer_rows_def)
  from run_export_exact [OF run [unfolded sample_export_def] o(1,2)] obtain n rows es where
    r: "xe_fetch ?E n = map Inr rows" "rows \<noteq> []" "rmap (export_entry ascii_ucd ?E sample_filters) rows = Inr es"
    and p: "if int (length rows) < 10000
     then em_total_rows m = length rows \<and>
       (\<exists>parts. concat parts = map (\<lambda>e. prepare_row ascii_ucd (export_writer sample_options) (as_source (snd e))) (sort_key fst es) \<and>
          list_all2 (file_holds (xe_writer ?E) (export_writer sample_options)
            (od_files (snd (sample_export ?rows)))) (em_files m) parts) \<and>
       map xf_name (em_files m) =
         map (build_filename sample_filters (strftime_stamp (nr_allocation_date (sample_student_row 0 None []))) (asc ''csv''))
           [1..<1 + length (em_files m)]
     else em_total_rows m = 0 \<and> em_files m = []"
    unfolding sample_export_def o(3) by blast
  have eq: "rows = ?rows"
  proof (cases "n = 1")
    case True
    then show ?thesis using r(1,2) by (auto simp: sample_export_env_def Cons_eq_map_conv)
  next
    case False
    then have "map Inr rows = (map Inr ?rows :: (sabt_error + NormalizedStudentRow) list)"
      using r(1) by (simp add: sample_export_env_def)
    then show ?thesis by (rule map_injective) simp
  qed
  then have l: "int (length rows) < 10000" "length rows = 2" by simp_all
  note p' = p [unfolded if_P [OF l(1)]]
  then obtain parts where q: "em_total_rows m = length rows"
    "concat parts = map (\<lambda>e. prepare_row ascii_ucd (export_writer sample_options) (as_source (snd e))) (sort_key fst es)"
    "list_all2 (file_holds (xe_writer ?E) (export_writer sample_options) (od_files (snd (sample_export ?rows)))) (em_files m) parts"
    by blast
  have "length parts = 2" using list_all2_lengthD [OF q(3)] two by simp
  moreover have "em_total_rows m = 2" using q(1) l(2) by (simp only:)
  ultimately show ?thesis using run r(3) q(2) unfolding eq by blast
qed

text \<open>
  So a run over as many rows as the buffer holds reports success with an empty manifest.
\<close>

lemma large_exports_are_lost:
  assumes "run_export U E filters opts marker now cid d = (Inr m, d')"
    and "eo_output_format opts = csv_format" and "eo_newline opts = [13, 10] \<or> eo_newline opts = [10]"
    and "\<And>n. determine_buffer_rows (eo_chunk_size opts) \<le> int (length (xe_fetch E n))"
  shows "em_total_rows m = 0"
  using run_export_files [OF assms(1-3)]
proof (elim exE conjE)
  fix n es out and rows :: "NormalizedStudentRow list"
  assume "xe_fetch E n = map Inr rows" and "em_total_rows m = length out"
    and "out = (if int (length rows) < determine_buffer_rows (eo_chunk_size opts) then sort_key fst es else [])"
  then show ?thesis using assms(4) [of n] by simp
qed

theorem export_errors_are_wrapped_witness:
  "run_export ascii_ucd (sample_export_env []\<lparr>xe_fetch := \<lambda>n. []\<rparr>) sample_filters sample_options []
      (nr_allocation_date (sample_student_row 0 None [])) [] \<lparr>od_files = (\<lambda>_. None), od_manifest = None\<rparr> =
    (Inl (RetryExhaustedError (ExportValidationError EmptyExport)), \<lparr>od_files = (\<lambda>_. None), od_manifest = None\<rparr>)"
proof -
  let ?E = "sample_export_env []\<lparr>xe_fetch := \<lambda>n. []\<rparr>"
  have "0 < eo_chunk_size sample_options \<and> 1 \<le> max_attempts (xe_policy ?E)" by code_simp
  moreover have "case query_phase ascii_ucd ?E sample_filters sample_options 1 of
      Inl e \<Rightarrow> e = ExportValidationError EmptyExport | Inr _ \<Rightarrow> False" by code_simp
  then have "query_phase ascii_ucd ?E sample_filters sample_options 1 = Inl (ExportValidationError EmptyExport)"
    by (simp split: sum.splits)
  moreover have "ExportValidationError EmptyExport \<noteq> TransientError" by simp
  ultimately have "run_export ascii_ucd ?E sample_filters sample_options []
      (nr_allocation_date (sample_student_row 0 None [])) [] \<lparr>od_files = (\<lambda>_. None), od_manifest = None\<rparr> =
    (Inl (RetryExhaustedError (ExportValidationError EmptyExport)),
     \<lparr>od_files = (\<lambda>_. None), od_manifest = None\<rparr>\<lparr>od_manifest := None\<rparr>)"
    using export_errors_are_wrapped by blast
  then show ?thesis by simp
qed

theorem export_order_is_numeric_witness:
  "\<exists>ra rb ea eb. export_row ascii_ucd (\<lambda>y s. False) sample_filters (sample_student_row 1 (Some 12) ''1'') = Inr ra \<and>
     export_row ascii_ucd (\<lambda>y s. False) sample_filters (sample_student_row 1 None ''0'') = Inr rb \<and>
     row_entry ascii_ucd SORT_KEYS (Inr (as_source ra)) = Inr ea \<and> row_entry ascii_ucd SORT_KEYS (Inr (as_source rb)) = Inr eb \<and>
     fst ea < fst eb"
proof -
  let ?a = "sample_student_row 1 (Some 12) ''1''"
  let ?b = "sample_student_row 1 None ''0''"
  let ?r = "\<lambda>x. export_row ascii_ucd (\<lambda>y s. False) sample_filters x"
  have ok: "case rbind (?r x) (\<lambda>r. row_entry ascii_ucd SORT_KEYS (Inr (as_source r))) of Inl _ \<Rightarrow> False | Inr _ \<Rightarrow> True"
    if "x = ?a \<or> x = ?b" for x
    using that by (elim disjE; hypsubst) code_simp+
  obtain ra ea where a: "?r ?a = Inr ra" "row_entry ascii_ucd SORT_KEYS (Inr (as_source ra)) = Inr ea"
    using ok [of ?a] by (auto split: sum.splits)
  obtain rb eb where b: "?r ?b = Inr rb" "row_entry ascii_ucd SORT_KEYS (Inr (as_source rb)) = Inr eb"
    using ok [of ?b] by (auto split: sum.splits)
  have c: "codes_in_range ?a" "codes_in_range ?b" by (simp_all add: codes_in_range_def sample_student_row_def)
  have "export_rank ascii_ucd ?a < export_rank ascii_ucd ?b"
    by (simp add: export_rank_def sample_student_row_def)
  then have "fst ea < fst eb"
    using export_order_is_numeric [OF ascii_ucd_ok a(1) b(1) a(2) b(2) c] by blast
  then show ?thesis using a b by blast
qed

text \<open>
  The check of the counter's prefix is a search in the whole counter: a counter with the prefix of male
  students is accepted for a female one when its serial number holds the other prefix.
\<close>

lemma wrong_prefix_accepted:
  "is_counter (asc ''043573730'') \<and> take 3 (drop 2 (asc ''043573730'')) = prefix_male \<and>
   (\<exists>rec. export_row ascii_ucd (\<lambda>y s. False) sample_filters
      (sample_student_row 1 None ''0''\<lparr>nr_gender := 0, nr_counter := asc ''043573730''\<rparr>) = Inr rec)"
proof -
  have "case export_row ascii_ucd (\<lambda>y s. False) sample_filters
      (sample_student_row 1 None ''0''\<lparr>nr_gender := 0, nr_counter := asc ''043573730''\<rparr>) of Inl _ \<Rightarrow> False | Inr _ \<Rightarrow> True"
    by code_simp
  then show ?thesis by (auto split: sum.splits) code_simp+
qed

end
