(* ===== verification/Sabt_Jobs.thy ===== *)
theory Sabt_Jobs
  imports Sabt_Exporter
begin

text \<open>
  \<^verbatim>\<open>phase6_import_to_sabt/export_runner.py\<close> and \<^verbatim>\<open>job_runner.py\<close>: export jobs are submitted under an idempotency
  key and run by a thread each. The first half is the retry loop around one export and what its
  outcome makes of the job. The second half is the interleaving of any number of callers of \<^verbatim>\<open>submit\<close> and job
  threads: every access to the store or to the dict of jobs is one step, and the place where a caller or a
  thread stands is its program counter. \<^verbatim>\<open>DeterministicRedis\<close> keeps the claimed keys (\<^verbatim>\<open>_store\<close>) apart from the
  hashes (\<^verbatim>\<open>_hash\<close>) and never lets a key expire. What an export returns is left open in the steps, and so is
  the id \<^verbatim>\<open>uuid4\<close> gives a job, except that no job has it yet. Times are numbers; locks, logs and metrics are left
  out, except for the label of the error counter.
\<close>

section \<open>The retry loop of the runner\<close>

record RetryingExportRunner =
  rn_base_delay :: pyfloat
  rn_max_attempts :: int

definition make_export_runner :: "pyfloat \<Rightarrow> int \<Rightarrow> sabt_error + RetryingExportRunner" where
  "make_export_runner delay attempts =
     (if attempts < 1 then Inl PlainValueError
      else Inr \<lparr>rn_base_delay = delay, rn_max_attempts = attempts\<rparr>)"

definition compute_delay :: "RetryingExportRunner \<Rightarrow> (pystr \<Rightarrow> int) \<Rightarrow> nat \<Rightarrow> pystr \<Rightarrow> pyfloat" where
  "compute_delay R digest8 attempt correlation_id =
     (let digest = digest8 (correlation_id @ 58 # py_str_int (int attempt));
          jitter = fdiv (of_int digest) (2 ^ 64);
          jitter_factor = fadd 1 (fmul jitter (fl (1 / 10)))
      in fmul (fmul (rn_base_delay R) (2 ^ (attempt - 1))) jitter_factor)"

text \<open>The result, the number of calls and the delays slept; \<open>attempt\<close> counts the failed calls.\<close>

function runner_loop ::
  "RetryingExportRunner \<Rightarrow> (pystr \<Rightarrow> int) \<Rightarrow> ('e \<Rightarrow> bool) \<Rightarrow> (nat \<Rightarrow> 'e + 'a) \<Rightarrow> pystr \<Rightarrow> nat \<Rightarrow> pyfloat list
   \<Rightarrow> ('e + 'a) \<times> nat \<times> pyfloat list" where
  "runner_loop R digest8 retryable outcome correlation_id attempt sleeps =
     (case outcome (attempt + 1) of
        Inr x \<Rightarrow> (Inr x, attempt + 1, sleeps)
      | Inl e \<Rightarrow>
          if retryable e then
            let attempt = attempt + 1 in
            if int attempt \<ge> rn_max_attempts R then (Inl e, attempt, sleeps)
            else runner_loop R digest8 retryable outcome correlation_id attempt
                   (sleeps @ [compute_delay R digest8 attempt correlation_id])
          else (Inl e, attempt + 1, sleeps))"
  by pat_completeness auto
termination
  by (relation "measure (\<lambda>(R, _, _, _, _, attempt, _). nat (rn_max_attempts R - int attempt))") auto

declare runner_loop.simps [simp del]

definition runner_execute ::
  "RetryingExportRunner \<Rightarrow> (pystr \<Rightarrow> int) \<Rightarrow> ('e \<Rightarrow> bool) \<Rightarrow> (nat \<Rightarrow> 'e + 'a) \<Rightarrow> pystr
   \<Rightarrow> ('e + 'a) \<times> nat \<times> pyfloat list" where
  "runner_execute R digest8 retryable outcome correlation_id = runner_loop R digest8 retryable outcome correlation_id 0 []"

definition build_schedule :: "RetryingExportRunner \<Rightarrow> (pystr \<Rightarrow> int) \<Rightarrow> pystr \<Rightarrow> pyfloat list" where
  "build_schedule R digest8 correlation_id =
     map (\<lambda>attempt. compute_delay R digest8 attempt correlation_id) [1..<nat (rn_max_attempts R)]"

section \<open>What the outcome makes of a job\<close>

datatype ExportJobStatus = JOB_PENDING | JOB_RUNNING | JOB_SUCCESS | JOB_FAILED

datatype job_error_code = EXPORT_VALIDATION_ERROR | EXPORT_IO_ERROR
datatype failure_label = label_validation | label_io | label_transient | label_unknown

definition transient_errors :: "run_error \<Rightarrow> bool" where
  "transient_errors e \<longleftrightarrow> e = Raised TransientError"

text \<open>The chain of except clauses of \<^verbatim>\<open>_run_job\<close>.\<close>

definition job_failure :: "run_error \<Rightarrow> failure_label \<times> job_error_code" where
  "job_failure exc =
     (case exc of
        Raised (ExportValidationError _) \<Rightarrow> (label_validation, EXPORT_VALIDATION_ERROR)
      | Raised ExportIOError \<Rightarrow> (label_io, EXPORT_IO_ERROR)
      | RetryExhaustedError _ \<Rightarrow> (label_io, EXPORT_IO_ERROR)
      | Raised TransientError \<Rightarrow> (label_transient, EXPORT_IO_ERROR)
      | Raised PlainValueError \<Rightarrow> (label_unknown, EXPORT_IO_ERROR)
      | AssertionError \<Rightarrow> (label_unknown, EXPORT_IO_ERROR))"

definition job_export_step ::
  "ucd \<Rightarrow> (nat \<Rightarrow> export_env) \<Rightarrow> ExportFilters \<Rightarrow> ExportOptions \<Rightarrow> pystr \<Rightarrow> datetime \<Rightarrow> pystr \<Rightarrow> nat \<Rightarrow> output_dir
   \<Rightarrow> (run_error + ExportManifest) \<times> output_dir" where
  "job_export_step U env filters opts marker now cid n d = run_export U (env n) filters opts marker now cid d"

text \<open>\<^verbatim>\<open>_execute_once\<close> under the runner: the result, the calls, the delays and the directory afterwards.\<close>

definition job_execute ::
  "ucd \<Rightarrow> (nat \<Rightarrow> export_env) \<Rightarrow> RetryingExportRunner \<Rightarrow> (pystr \<Rightarrow> int) \<Rightarrow> ExportFilters \<Rightarrow> ExportOptions \<Rightarrow> pystr
   \<Rightarrow> datetime \<Rightarrow> pystr \<Rightarrow> output_dir \<Rightarrow> ((run_error + ExportManifest) \<times> nat \<times> pyfloat list) \<times> output_dir" where
  "job_execute U env R digest8 filters opts marker now cid d =
     (let step = job_export_step U env filters opts marker now cid;
          r = runner_execute R digest8 transient_errors (attempts_outcome step d) cid
      in (r, attempts_state step d (fst (snd r))))"

section \<open>The state of the job runner\<close>

record ExportJob =
  jb_status :: ExportJobStatus
  jb_queued_at :: int
  jb_started_at :: "int option"
  jb_finished_at :: "int option"
  jb_manifest :: "ExportManifest option"
  jb_error :: "job_error_code option"

record job_hash =
  jh_job_id :: "pystr option"
  jh_status :: "ExportJobStatus option"

datatype caller_pc =
    Claimed pystr | Registered pystr pystr | Hashed pystr pystr | LookingUp pystr
  | Submitted pystr pystr | Duplicate pystr

datatype thread_pc = Starting | MarkedRunning | Executing | Finished | Reported

record job_runner =
  jr_claimed :: "pystr set"
  jr_hash :: "pystr \<Rightarrow> job_hash"
  jr_jobs :: "pystr \<Rightarrow> ExportJob option"
  jr_callers :: "nat \<Rightarrow> caller_pc option"
  jr_threads :: "pystr \<Rightarrow> (pystr \<times> thread_pc) option"

definition redis_key :: "pystr \<Rightarrow> pystr \<Rightarrow> pystr" where
  "redis_key namespace idempotency_key = asc ''phase6:exports:'' @ namespace @ asc '':'' @ idempotency_key"

definition no_hash :: job_hash where
  "no_hash = \<lparr>jh_job_id = None, jh_status = None\<rparr>"

definition idle_runner :: job_runner where
  "idle_runner = \<lparr>jr_claimed = {}, jr_hash = (\<lambda>_. no_hash), jr_jobs = (\<lambda>_. None), jr_callers = (\<lambda>_. None),
     jr_threads = (\<lambda>_. None)\<rparr>"

section \<open>The steps of submit\<close>

definition submit_setnx :: "nat \<Rightarrow> pystr \<Rightarrow> job_runner \<Rightarrow> job_runner" where
  "submit_setnx c key s =
     (if key \<in> jr_claimed s then s\<lparr>jr_callers := (jr_callers s)(c := Some (LookingUp key))\<rparr>
      else s\<lparr>jr_claimed := insert key (jr_claimed s), jr_callers := (jr_callers s)(c := Some (Claimed key))\<rparr>)"

definition lookup_result :: "pystr \<Rightarrow> job_runner \<Rightarrow> caller_pc" where
  "lookup_result key s =
     (case jh_job_id (jr_hash s key) of
        None \<Rightarrow> Duplicate key
      | Some existing_id \<Rightarrow>
          if existing_id \<noteq> [] \<and> jr_jobs s existing_id \<noteq> None then Submitted key existing_id else Duplicate key)"

definition new_job :: "int \<Rightarrow> ExportJob" where
  "new_job now = \<lparr>jb_status = JOB_PENDING, jb_queued_at = now, jb_started_at = None, jb_finished_at = None,
     jb_manifest = None, jb_error = None\<rparr>"

definition submit_register :: "nat \<Rightarrow> pystr \<Rightarrow> pystr \<Rightarrow> int \<Rightarrow> job_runner \<Rightarrow> job_runner" where
  "submit_register c key job_id now s =
     s\<lparr>jr_jobs := (jr_jobs s)(job_id := Some (new_job now)), jr_callers := (jr_callers s)(c := Some (Registered key job_id))\<rparr>"

definition submit_hset :: "nat \<Rightarrow> pystr \<Rightarrow> pystr \<Rightarrow> job_runner \<Rightarrow> job_runner" where
  "submit_hset c key job_id s =
     s\<lparr>jr_hash := (jr_hash s)(key := \<lparr>jh_job_id = Some job_id, jh_status = Some JOB_PENDING\<rparr>),
       jr_callers := (jr_callers s)(c := Some (Hashed key job_id))\<rparr>"

definition submit_start :: "nat \<Rightarrow> pystr \<Rightarrow> pystr \<Rightarrow> job_runner \<Rightarrow> job_runner" where
  "submit_start c key job_id s =
     s\<lparr>jr_threads := (jr_threads s)(job_id := Some (key, Starting)),
       jr_callers := (jr_callers s)(c := Some (Submitted key job_id))\<rparr>"

section \<open>The steps of a job thread\<close>

definition update_job :: "pystr \<Rightarrow> (ExportJob \<Rightarrow> ExportJob) \<Rightarrow> job_runner \<Rightarrow> job_runner" where
  "update_job job_id f s = s\<lparr>jr_jobs := (jr_jobs s)(job_id := map_option f (jr_jobs s job_id))\<rparr>"

definition hset_status :: "pystr \<Rightarrow> ExportJobStatus \<Rightarrow> job_runner \<Rightarrow> job_runner" where
  "hset_status key st s = s\<lparr>jr_hash := (jr_hash s)(key := (jr_hash s key)\<lparr>jh_status := Some st\<rparr>)\<rparr>"

definition goto :: "pystr \<Rightarrow> pystr \<Rightarrow> thread_pc \<Rightarrow> job_runner \<Rightarrow> job_runner" where
  "goto job_id key pc s = s\<lparr>jr_threads := (jr_threads s)(job_id := Some (key, pc))\<rparr>"

definition mark_running :: "int \<Rightarrow> ExportJob \<Rightarrow> ExportJob" where
  "mark_running start_time job = job\<lparr>jb_status := JOB_RUNNING, jb_started_at := Some start_time\<rparr>"

definition finish_job :: "int \<Rightarrow> run_error + ExportManifest \<Rightarrow> ExportJob \<Rightarrow> ExportJob" where
  "finish_job now res job =
     (case res of
        Inl exc \<Rightarrow> job\<lparr>jb_status := JOB_FAILED, jb_finished_at := Some now, jb_error := Some (snd (job_failure exc))\<rparr>
      | Inr manifest \<Rightarrow> job\<lparr>jb_status := JOB_SUCCESS, jb_finished_at := Some now, jb_manifest := Some manifest\<rparr>)"

definition final_status :: "run_error + ExportManifest \<Rightarrow> ExportJobStatus" where
  "final_status res = (case res of Inl _ \<Rightarrow> JOB_FAILED | Inr _ \<Rightarrow> JOB_SUCCESS)"

section \<open>The interleaving\<close>

inductive job_step :: "job_runner \<Rightarrow> job_runner \<Rightarrow> bool" where
  setnx: "jr_callers s c = None \<Longrightarrow> job_step s (submit_setnx c key s)"
| lookup: "jr_callers s c = Some (LookingUp key) \<Longrightarrow>
    job_step s (s\<lparr>jr_callers := (jr_callers s)(c := Some (lookup_result key s))\<rparr>)"
| register: "jr_callers s c = Some (Claimed key) \<Longrightarrow> jr_jobs s job_id = None \<Longrightarrow> job_id \<noteq> [] \<Longrightarrow>
    job_step s (submit_register c key job_id now s)"
| hset: "jr_callers s c = Some (Registered key job_id) \<Longrightarrow> job_step s (submit_hset c key job_id s)"
| start: "jr_callers s c = Some (Hashed key job_id) \<Longrightarrow> job_step s (submit_start c key job_id s)"
| running: "jr_threads s job_id = Some (key, Starting) \<Longrightarrow>
    job_step s (goto job_id key MarkedRunning (update_job job_id (mark_running now) s))"
| report_running: "jr_threads s job_id = Some (key, MarkedRunning) \<Longrightarrow>
    job_step s (goto job_id key Executing (hset_status key JOB_RUNNING s))"
| finish: "jr_threads s job_id = Some (key, Executing) \<Longrightarrow>
    job_step s (goto job_id key Finished (update_job job_id (finish_job now res) s))"
| report_finish: "jr_threads s job_id = Some (key, Finished) \<Longrightarrow> jr_jobs s job_id = Some job \<Longrightarrow>
    job_step s (goto job_id key Reported (hset_status key (jb_status job) s))"

inductive job_reachable :: "job_runner \<Rightarrow> bool" where
  idle: "job_reachable idle_runner"
| step: "job_reachable s \<Longrightarrow> job_step s s' \<Longrightarrow> job_reachable s'"

section \<open>The registry behind it\<close>

text \<open>
  The specification: every key has one slot, that goes from free over the caller that claimed it to
  the one job of the key and its thread.
\<close>

datatype slot = Free | SClaimed nat | SRegistered nat pystr | SHashed nat pystr | SThread pystr thread_pc

fun slot_job :: "slot \<Rightarrow> pystr option" where
  "slot_job (SRegistered c j) = Some j"
| "slot_job (SHashed c j) = Some j"
| "slot_job (SThread j pc) = Some j"
| "slot_job _ = None"

fun visible_job :: "slot \<Rightarrow> pystr option" where
  "visible_job (SHashed c j) = Some j"
| "visible_job (SThread j pc) = Some j"
| "visible_job _ = None"

fun slot_statuses :: "slot \<Rightarrow> ExportJobStatus set" where
  "slot_statuses (SThread j MarkedRunning) = {JOB_RUNNING}"
| "slot_statuses (SThread j Executing) = {JOB_RUNNING}"
| "slot_statuses (SThread j Finished) = {JOB_SUCCESS, JOB_FAILED}"
| "slot_statuses (SThread j Reported) = {JOB_SUCCESS, JOB_FAILED}"
| "slot_statuses _ = {JOB_PENDING}"

fun slot_hash_status :: "slot \<Rightarrow> ExportJob \<Rightarrow> ExportJobStatus" where
  "slot_hash_status (SThread j Executing) job = JOB_RUNNING"
| "slot_hash_status (SThread j Finished) job = JOB_RUNNING"
| "slot_hash_status (SThread j Reported) job = jb_status job"
| "slot_hash_status _ job = JOB_PENDING"

definition job_wf :: "ExportJob \<Rightarrow> bool" where
  "job_wf job \<longleftrightarrow>
     (jb_manifest job \<noteq> None \<longleftrightarrow> jb_status job = JOB_SUCCESS) \<and> (jb_error job \<noteq> None \<longleftrightarrow> jb_status job = JOB_FAILED) \<and>
     (jb_started_at job \<noteq> None \<longleftrightarrow> jb_status job \<noteq> JOB_PENDING) \<and>
     (jb_finished_at job \<noteq> None \<longleftrightarrow> jb_status job = JOB_SUCCESS \<or> jb_status job = JOB_FAILED)"

definition slot_ok :: "slot \<Rightarrow> job_hash \<Rightarrow> (pystr \<Rightarrow> ExportJob option) \<Rightarrow> bool" where
  "slot_ok sl h jobs \<longleftrightarrow>
     jh_job_id h = visible_job sl \<and>
     (case slot_job sl of
        None \<Rightarrow> True
      | Some j \<Rightarrow>
          (case jobs j of
             None \<Rightarrow> False
           | Some job \<Rightarrow>
               j \<noteq> [] \<and> job_wf job \<and> jb_status job \<in> slot_statuses sl \<and>
               (visible_job sl = None \<or> jh_status h = Some (slot_hash_status sl job))))"

definition agrees :: "job_runner \<Rightarrow> (pystr \<Rightarrow> slot) \<Rightarrow> bool" where
  "agrees s slots \<longleftrightarrow>
     (\<forall>k. k \<in> jr_claimed s \<longleftrightarrow> slots k \<noteq> Free) \<and>
     (\<forall>c k. jr_callers s c = Some (Claimed k) \<longleftrightarrow> slots k = SClaimed c) \<and>
     (\<forall>c k j. jr_callers s c = Some (Registered k j) \<longleftrightarrow> slots k = SRegistered c j) \<and>
     (\<forall>c k j. jr_callers s c = Some (Hashed k j) \<longleftrightarrow> slots k = SHashed c j) \<and>
     (\<forall>j k pc. jr_threads s j = Some (k, pc) \<longleftrightarrow> slots k = SThread j pc) \<and>
     (\<forall>c k j. jr_callers s c = Some (Submitted k j) \<longrightarrow> visible_job (slots k) = Some j) \<and>
     (\<forall>k k' j. slot_job (slots k) = Some j \<longrightarrow> slot_job (slots k') = Some j \<longrightarrow> k = k') \<and>
     (\<forall>j. jr_jobs s j \<noteq> None \<longrightarrow> (\<exists>k. slot_job (slots k) = Some j)) \<and>
     (\<forall>k. slot_ok (slots k) (jr_hash s k) (jr_jobs s))"

text \<open>The steps of the registry.\<close>

inductive registry_move :: "(pystr \<Rightarrow> slot) \<Rightarrow> (pystr \<Rightarrow> slot) \<Rightarrow> bool" where
  stay: "registry_move slots slots"
| claim: "slots k = Free \<Longrightarrow> registry_move slots (slots(k := SClaimed c))"
| new: "slots k = SClaimed c \<Longrightarrow> (\<forall>k'. slot_job (slots k') \<noteq> Some j) \<Longrightarrow> registry_move slots (slots(k := SRegistered c j))"
| publish: "slots k = SRegistered c j \<Longrightarrow> registry_move slots (slots(k := SHashed c j))"
| launch: "slots k = SHashed c j \<Longrightarrow> registry_move slots (slots(k := SThread j Starting))"
| advance: "slots k = SThread j pc \<Longrightarrow>
    (pc, pc') \<in> {(Starting, MarkedRunning), (MarkedRunning, Executing), (Executing, Finished), (Finished, Reported)} \<Longrightarrow>
    registry_move slots (slots(k := SThread j pc'))"

lemma idle_agrees: "agrees idle_runner (\<lambda>_. Free)"
  by (simp add: agrees_def idle_runner_def slot_ok_def no_hash_def)

lemma agrees_slot_ok: "agrees s slots \<Longrightarrow> slot_ok (slots k) (jr_hash s k) (jr_jobs s)"
  unfolding agrees_def by blast

lemma agrees_job:
  assumes "agrees s slots" and "slot_job (slots k) = Some j"
  obtains job where "jr_jobs s j = Some job" "j \<noteq> []" "job_wf job" "jb_status job \<in> slot_statuses (slots k)"
    "visible_job (slots k) = None \<or> jh_status (jr_hash s k) = Some (slot_hash_status (slots k) job)"
  using agrees_slot_ok [OF assms(1), of k] assms(2)
  by (auto simp: slot_ok_def split: option.splits)

lemma slot_ok_other:
  "slot_job sl \<noteq> Some j \<Longrightarrow> slot_ok sl h (jobs(j := v)) = slot_ok sl h jobs"
  by (auto simp: slot_ok_def split: option.splits)

lemma agrees_fresh:
  assumes "agrees s slots" and "jr_jobs s j = None"
  shows "slot_job (slots k) \<noteq> Some j"
  using agrees_job [OF assms(1)] assms(2) by (metis option.distinct(1))

lemma agreesD:
  assumes "agrees s slots"
  shows "k \<in> jr_claimed s \<longleftrightarrow> slots k \<noteq> Free"
    and "jr_callers s c = Some (Claimed k) \<longleftrightarrow> slots k = SClaimed c"
    and "jr_callers s c = Some (Registered k j) \<longleftrightarrow> slots k = SRegistered c j"
    and "jr_callers s c = Some (Hashed k j) \<longleftrightarrow> slots k = SHashed c j"
    and "jr_threads s j = Some (k, pc) \<longleftrightarrow> slots k = SThread j pc"
    and "jr_callers s c = Some (Submitted k j) \<Longrightarrow> visible_job (slots k) = Some j"
    and "slot_job (slots k) = Some j \<Longrightarrow> slot_job (slots k') = Some j \<Longrightarrow> k = k'"
    and "jr_jobs s j \<noteq> None \<Longrightarrow> \<exists>k. slot_job (slots k) = Some j"
    and "slot_ok (slots k) (jr_hash s k) (jr_jobs s)"
  using assms unfolding agrees_def by (elim conjE, metis)+

text \<open>What the place of a caller or of a thread says of the slots.\<close>

lemma fresh_caller:
  assumes "agrees s slots" and "jr_callers s c = None"
  shows "slots k \<noteq> SClaimed c" "slots k \<noteq> SRegistered c j" "slots k \<noteq> SHashed c j"
  using assms(2) agreesD(2-4) [OF assms(1), of c k] by (metis option.distinct(1))+

lemma caller_slots:
  assumes "agrees s slots" and "jr_callers s c = pc" and "\<And>k'. k' \<noteq> key \<Longrightarrow> pc \<noteq> Some (Claimed k') \<and>
      (\<forall>j. pc \<noteq> Some (Registered k' j) \<and> pc \<noteq> Some (Hashed k' j))" and "k \<noteq> key"
  shows "slots k \<noteq> SClaimed c" and "slots k \<noteq> SRegistered c j" and "slots k \<noteq> SHashed c j"
  using assms(2-4) agreesD(2-4) [OF assms(1), of c k] by metis+

lemma thread_slots:
  assumes "agrees s slots" and "slot_job (slots key) = Some j" and "k \<noteq> key"
  shows "slots k \<noteq> SThread j q"
  using assms(2,3) agreesD(7) [OF assms(1), of key j k] by (metis slot_job.simps(3))

lemma invisible_slot:
  assumes "agrees s slots" and "visible_job (slots k) = None"
  shows "jr_callers s c \<noteq> Some (Submitted k j)"
  using agreesD(6) [OF assms(1), of c k j] assms(2) by auto

text \<open>One slot moves on, and with it at most the hash of its key and the entry of its job.\<close>

lemma agrees_moveI:
  assumes A: "agrees s slots"
    and claimed: "\<And>k. k \<in> jr_claimed s' \<longleftrightarrow> (slots(key := sl)) k \<noteq> Free"
    and callers: "\<And>c k. jr_callers s' c = Some (Claimed k) \<longleftrightarrow> (slots(key := sl)) k = SClaimed c"
      "\<And>c k j. jr_callers s' c = Some (Registered k j) \<longleftrightarrow> (slots(key := sl)) k = SRegistered c j"
      "\<And>c k j. jr_callers s' c = Some (Hashed k j) \<longleftrightarrow> (slots(key := sl)) k = SHashed c j"
    and threads: "\<And>j k pc. jr_threads s' j = Some (k, pc) \<longleftrightarrow> (slots(key := sl)) k = SThread j pc"
    and submitted: "\<And>c k j. jr_callers s' c = Some (Submitted k j) \<Longrightarrow> visible_job ((slots(key := sl)) k) = Some j"
    and same: "slot_job (slots key) = None \<and> (\<forall>j k. slot_job sl = Some j \<longrightarrow> slot_job (slots k) \<noteq> Some j) \<or>
      slot_job (slots key) = slot_job sl"
    and jobs: "\<And>j. jr_jobs s' j \<noteq> None \<Longrightarrow> jr_jobs s j \<noteq> None \<or> slot_job sl = Some j"
    and moved: "slot_ok sl (jr_hash s' key) (jr_jobs s')"
    and hashes: "\<And>k. k \<noteq> key \<Longrightarrow> jr_hash s' k = jr_hash s k"
    and others: "\<And>j. slot_job sl \<noteq> Some j \<Longrightarrow> jr_jobs s' j = jr_jobs s j"
  shows "agrees s' (slots(key := sl))"
proof -
  have uniq: "k = k'" if "slot_job ((slots(key := sl)) k) = Some j" "slot_job ((slots(key := sl)) k') = Some j" for k k' j
    using that same agreesD(7) [OF A] by (metis fun_upd_apply)
  have known: "\<exists>k. slot_job ((slots(key := sl)) k) = Some j" if "jr_jobs s' j \<noteq> None" for j
    using jobs [OF that] agreesD(8) [OF A, of j] same by (metis fun_upd_apply option.distinct(1))
  have ok: "slot_ok ((slots(key := sl)) k) (jr_hash s' k) (jr_jobs s')" for k
  proof (cases "k = key")
    case False
    have "slot_job (slots k) = Some j \<Longrightarrow> slot_job sl \<noteq> Some j" for j
      using False same agreesD(7) [OF A, of k j key] by metis
    then show ?thesis
      using False hashes [OF False] others agreesD(9) [OF A, of k] by (auto simp: slot_ok_def split: option.splits)
  qed (use moved in simp)
  show ?thesis
    unfolding agrees_def using claimed callers threads submitted uniq known ok by blast
qed

lemma agrees_setnx:
  assumes A: "agrees s slots" and c: "jr_callers s c = None"
  shows "\<exists>slots'. registry_move slots slots' \<and> agrees (submit_setnx c key s) slots'"
proof (cases "key \<in> jr_claimed s")
  case True
  have "agrees (submit_setnx c key s) slots"
    using True c agreesD [OF A] fresh_caller [OF A c] by (auto simp: agrees_def submit_setnx_def)
  then show ?thesis using registry_move.stay by blast
next
  case False
  have free: "slots key = Free" using False agreesD(1) [OF A] by blast
  have "agrees (submit_setnx c key s) (slots(key := SClaimed c))"
    by (rule agrees_moveI [OF A])
      (use False c free fresh_caller [OF A c] agreesD(9) [OF A, of key] in
        \<open>auto simp: submit_setnx_def slot_ok_def agreesD(1-5) [OF A] caller_slots [OF A c, of key] invisible_slot [OF A]
           dest: agreesD(6) [OF A] split: if_splits\<close>)
  then show ?thesis using registry_move.claim [of slots key c] free by blast
qed

lemma agrees_lookup:
  assumes A: "agrees s slots" and "jr_callers s c = Some (LookingUp key)"
  shows "agrees (s\<lparr>jr_callers := (jr_callers s)(c := Some (lookup_result key s))\<rparr>) slots"
proof -
  have "visible_job (slots key) = Some j" if "lookup_result key s = Submitted k j" for k j
    using that agrees_slot_ok [OF A, of key] by (auto simp: lookup_result_def slot_ok_def split: option.splits if_splits)
  moreover have "k = key" if "lookup_result key s = Submitted k j" for k j
    using that by (auto simp: lookup_result_def split: option.splits if_splits)
  moreover have "lookup_result key s \<noteq> Claimed k" "lookup_result key s \<noteq> Registered k j" "lookup_result key s \<noteq> Hashed k j" for k j
    by (auto simp: lookup_result_def split: option.splits)
  moreover have "slots k \<noteq> SClaimed c" "slots k \<noteq> SRegistered c j" "slots k \<noteq> SHashed c j" for k j
    using assms(2) agreesD(2-4) [OF A, of c k] by (metis caller_pc.distinct option.inject)+
  ultimately show ?thesis
    using agreesD [OF A] by (auto simp: agrees_def)
qed

lemma agrees_register:
  assumes A: "agrees s slots" and c: "jr_callers s c = Some (Claimed key)" and j: "jr_jobs s job_id = None" "job_id \<noteq> []"
  shows "\<exists>slots'. registry_move slots slots' \<and> agrees (submit_register c key job_id now s) slots'"
proof -
  have sl: "slots key = SClaimed c" using c agreesD(2) [OF A] by blast
  have fresh: "slot_job (slots k) \<noteq> Some job_id" for k by (rule agrees_fresh [OF A j(1)])
  have "agrees (submit_register c key job_id now s) (slots(key := SRegistered c job_id))"
    by (rule agrees_moveI [OF A])
      (use c j sl fresh agreesD(9) [OF A, of key] in
        \<open>auto simp: submit_register_def slot_ok_def new_job_def job_wf_def agreesD(1-5) [OF A]
           caller_slots [OF A c, of key] invisible_slot [OF A] dest: agreesD(6) [OF A] split: if_splits\<close>)
  then show ?thesis using registry_move.new [where slots = slots and k = key, OF sl] fresh by blast
qed

lemma agrees_hset:
  assumes A: "agrees s slots" and c: "jr_callers s c = Some (Registered key job_id)"
  shows "\<exists>slots'. registry_move slots slots' \<and> agrees (submit_hset c key job_id s) slots'"
proof -
  have sl: "slots key = SRegistered c job_id" using c agreesD(3) [OF A] by blast
  have "agrees (submit_hset c key job_id s) (slots(key := SHashed c job_id))"
    by (rule agrees_moveI [OF A])
      (use c sl agreesD(9) [OF A, of key] in
        \<open>auto simp: submit_hset_def slot_ok_def agreesD(1-5) [OF A] caller_slots [OF A c, of key] invisible_slot [OF A]
           dest: agreesD(6) [OF A] split: if_splits option.splits\<close>)
  then show ?thesis using registry_move.publish [where slots = slots and k = key, OF sl] by blast
qed

lemma agrees_start:
  assumes A: "agrees s slots" and c: "jr_callers s c = Some (Hashed key job_id)"
  shows "\<exists>slots'. registry_move slots slots' \<and> agrees (submit_start c key job_id s) slots'"
proof -
  have sl: "slots key = SHashed c job_id" using c agreesD(4) [OF A] by blast
  have "agrees (submit_start c key job_id s) (slots(key := SThread job_id Starting))"
    by (rule agrees_moveI [OF A])
      (use c sl agreesD(9) [OF A, of key] in
        \<open>auto simp: submit_start_def slot_ok_def agreesD(1-5) [OF A] caller_slots [OF A c, of key]
           thread_slots [OF A, of key] dest: agreesD(6) [OF A] split: if_splits option.splits\<close>)
  then show ?thesis using registry_move.launch [where slots = slots and k = key, OF sl] by blast
qed

text \<open>The steps of the job threads; they leave the callers alone.\<close>

lemma agrees_threadI:
  assumes A: "agrees s slots" and sl: "slots key = SThread job_id pc"
    and same: "jr_claimed s' = jr_claimed s" "jr_callers s' = jr_callers s"
      "jr_threads s' = (jr_threads s)(job_id := Some (key, pc'))"
    and hashes: "\<And>k. k \<noteq> key \<Longrightarrow> jr_hash s' k = jr_hash s k" and others: "\<And>j. j \<noteq> job_id \<Longrightarrow> jr_jobs s' j = jr_jobs s j"
    and moved: "slot_ok (SThread job_id pc') (jr_hash s' key) (jr_jobs s')"
  shows "agrees s' (slots(key := SThread job_id pc'))"
  by (rule agrees_moveI [OF A])
    (use sl moved hashes others in
      \<open>auto simp: same agreesD(1-5) [OF A] thread_slots [OF A, of key] dest: agreesD(6) [OF A] split: if_splits\<close>)

lemma agrees_advance:
  assumes A: "agrees s slots" and th: "jr_threads s job_id = Some (key, pc)"
    and step: "(pc, pc') \<in> {(Starting, MarkedRunning), (MarkedRunning, Executing), (Executing, Finished), (Finished, Reported)}"
    and same: "jr_claimed s' = jr_claimed s" "jr_callers s' = jr_callers s"
      "jr_threads s' = (jr_threads s)(job_id := Some (key, pc'))"
    and hashes: "\<And>k. k \<noteq> key \<Longrightarrow> jr_hash s' k = jr_hash s k" and others: "\<And>j. j \<noteq> job_id \<Longrightarrow> jr_jobs s' j = jr_jobs s j"
    and moved: "slot_ok (SThread job_id pc) (jr_hash s key) (jr_jobs s) \<Longrightarrow>
      slot_ok (SThread job_id pc') (jr_hash s' key) (jr_jobs s')"
  shows "\<exists>slots'. registry_move slots slots' \<and> agrees s' slots'"
proof -
  have sl: "slots key = SThread job_id pc" using th agreesD(5) [OF A] by blast
  have "agrees s' (slots(key := SThread job_id pc'))"
    using agrees_threadI [OF A sl same hashes others] moved agreesD(9) [OF A, of key] sl by simp
  then show ?thesis using registry_move.advance [where slots = slots and k = key, OF sl step] by blast
qed

lemma agrees_running:
  assumes "agrees s slots" and "jr_threads s job_id = Some (key, Starting)"
  shows "\<exists>slots'. registry_move slots slots' \<and> agrees (goto job_id key MarkedRunning (update_job job_id (mark_running now) s)) slots'"
  by (rule agrees_advance [OF assms])
    (auto simp: goto_def update_job_def slot_ok_def job_wf_def mark_running_def split: option.splits)

lemma agrees_report_running:
  assumes "agrees s slots" and "jr_threads s job_id = Some (key, MarkedRunning)"
  shows "\<exists>slots'. registry_move slots slots' \<and> agrees (goto job_id key Executing (hset_status key JOB_RUNNING s)) slots'"
  by (rule agrees_advance [OF assms]) (auto simp: goto_def hset_status_def slot_ok_def split: option.splits)

lemma agrees_finish:
  assumes "agrees s slots" and "jr_threads s job_id = Some (key, Executing)"
  shows "\<exists>slots'. registry_move slots slots' \<and> agrees (goto job_id key Finished (update_job job_id (finish_job now res) s)) slots'"
  by (rule agrees_advance [OF assms])
    (auto simp: goto_def update_job_def slot_ok_def job_wf_def finish_job_def split: option.splits sum.splits)

lemma agrees_report_finish:
  assumes "agrees s slots" and "jr_threads s job_id = Some (key, Finished)" and "jr_jobs s job_id = Some job"
  shows "\<exists>slots'. registry_move slots slots' \<and> agrees (goto job_id key Reported (hset_status key (jb_status job) s)) slots'"
  by (rule agrees_advance [OF assms(1,2)])
    (use assms(3) in \<open>auto simp: goto_def hset_status_def slot_ok_def split: option.splits\<close>)

lemma job_step_simulated:
  assumes "job_step s s'" and A: "agrees s slots"
  shows "\<exists>slots'. registry_move slots slots' \<and> agrees s' slots'"
  using assms(1)
proof cases
  case (lookup c key)
  then show ?thesis using agrees_lookup [OF A] registry_move.stay by blast
next
  case (setnx c key)
  then show ?thesis using agrees_setnx [OF A] by simp
next
  case (register c key job_id now)
  then show ?thesis using agrees_register [OF A] by simp
next
  case (hset c key job_id)
  then show ?thesis using agrees_hset [OF A] by simp
next
  case (start c key job_id)
  then show ?thesis using agrees_start [OF A] by simp
next
  case (running job_id key now)
  then show ?thesis using agrees_running [OF A] by simp
next
  case (report_running job_id key)
  then show ?thesis using agrees_report_running [OF A] by simp
next
  case (finish job_id key now res)
  then show ?thesis using agrees_finish [OF A] by simp
next
  case (report_finish job_id key job)
  then show ?thesis using agrees_report_finish [OF A] by simp
qed

lemma reachable_agrees: "job_reachable s \<Longrightarrow> \<exists>slots. agrees s slots"
  by (induction rule: job_reachable.induct) (use idle_agrees job_step_simulated in blast)+

section \<open>The retry loop\<close>

lemma runner_loop_shape:
  assumes "runner_loop R digest8 retryable outcome cid n sleeps = (res, calls, sleeps')"
  shows "n < calls \<and> (int n < rn_max_attempts R \<longrightarrow> int calls \<le> rn_max_attempts R) \<and> res = outcome calls \<and>
    (\<forall>k. n < k \<and> k < calls \<longrightarrow> (\<exists>e. outcome k = Inl e \<and> retryable e)) \<and>
    (\<forall>e. outcome calls = Inl e \<longrightarrow> retryable e \<longrightarrow> rn_max_attempts R \<le> int calls) \<and>
    sleeps' = sleeps @ map (\<lambda>attempt. compute_delay R digest8 attempt cid) [Suc n..<calls]"
  using assms
proof (induction R digest8 retryable outcome cid n sleeps rule: runner_loop.induct)
  case (1 R digest8 retryable outcome cid n sleeps)
  show ?case
  proof (cases "outcome (n + 1)")
    case (Inr x)
    then show ?thesis using 1(2) by (subst (asm) runner_loop.simps) (auto dest: less_antisym)
  next
    case (Inl e)
    consider (retry) "retryable e" "\<not> rn_max_attempts R \<le> int (n + 1)" | (stop) "retryable e \<longrightarrow> rn_max_attempts R \<le> int (n + 1)"
      by blast
    then show ?thesis
    proof cases
      case retry
      let ?s = "sleeps @ [compute_delay R digest8 (n + 1) cid]"
      have run: "runner_loop R digest8 retryable outcome cid (n + 1) ?s = (res, calls, sleeps')"
        using 1(2) Inl retry by (subst (asm) runner_loop.simps) (simp add: Let_def)
      from 1(1) [OF Inl retry(1) refl retry(2) run]
      have IH: "n + 1 < calls" "int calls \<le> rn_max_attempts R" "res = outcome calls"
        "\<And>k. n + 1 < k \<Longrightarrow> k < calls \<Longrightarrow> \<exists>e. outcome k = Inl e \<and> retryable e"
        "\<And>e. outcome calls = Inl e \<Longrightarrow> retryable e \<Longrightarrow> rn_max_attempts R \<le> int calls"
        "sleeps' = ?s @ map (\<lambda>attempt. compute_delay R digest8 attempt cid) [Suc (n + 1)..<calls]"
        using retry(2) by auto
      have "\<exists>e. outcome k = Inl e \<and> retryable e" if "n < k" "k < calls" for k
        using that IH(4) [of k] Inl retry(1) by (cases "k = n + 1") auto
      then show ?thesis using IH by (simp add: upt_conv_Cons)
    next
      case stop
      then have "res = Inl e" "calls = n + 1" "sleeps' = sleeps"
        using 1(2) Inl by (subst (asm) runner_loop.simps; auto simp: Let_def split: if_splits)+
      then show ?thesis using Inl stop by (auto dest: less_antisym)
    qed
  qed
qed

text \<open>The loop keeps the contract of retrying.\<close>

interpretation runner: retrying
  "\<lambda>outcome. fst (snd (runner_execute R digest8 retryable outcome cid))" "rn_max_attempts R" retryable
  for R digest8 retryable cid
proof
  fix outcome :: "nat \<Rightarrow> 'a + 'b"
  assume l: "1 \<le> rn_max_attempts R"
  obtain res calls sleeps where r: "runner_execute R digest8 retryable outcome cid = (res, calls, sleeps)"
    by (cases "runner_execute R digest8 retryable outcome cid")
  show "1 \<le> fst (snd (runner_execute R digest8 retryable outcome cid)) \<and>
      int (fst (snd (runner_execute R digest8 retryable outcome cid))) \<le> rn_max_attempts R \<and>
      (\<forall>k. 1 \<le> k \<and> k < fst (snd (runner_execute R digest8 retryable outcome cid)) \<longrightarrow>
         (\<exists>e. outcome k = Inl e \<and> retryable e)) \<and>
      (\<forall>e. outcome (fst (snd (runner_execute R digest8 retryable outcome cid))) = Inl e \<longrightarrow> retryable e \<longrightarrow>
         int (fst (snd (runner_execute R digest8 retryable outcome cid))) = rn_max_attempts R)"
    using runner_loop_shape [OF r [unfolded runner_execute_def]] l r by (auto simp: order_antisym)
qed

section \<open>Properties\<close>

text \<open>
  C27 submissions_refine_registry: The store, the dict of jobs, the callers and the threads refine the registry of
  one slot for each key. The empty state agrees with free slots, and from agreeing states every step of a
  caller or of a thread is matched by a step of the registry or leaves the slots as they are.
\<close>

theorem submissions_refine_registry:
  "agrees idle_runner (\<lambda>_. Free) \<and>
   (agrees s slots \<and> job_step s s' \<longrightarrow> (\<exists>slots'. registry_move slots slots' \<and> agrees s' slots'))"
  using idle_agrees job_step_simulated by blast

text \<open>
  C8 one_job_per_key: However submissions and job threads interleave: two callers that were given a job have
  the same job exactly when they used the same key; the job is in the dict and well-formed; every later caller
  of that key is given the same job; and one key never has two threads.
\<close>

theorem one_job_per_key:
  assumes "job_reachable s" and "jr_callers s c = Some (Submitted k j)" and "jr_callers s c' = Some (Submitted k' j')"
  shows "(k = k' \<longleftrightarrow> j = j') \<and> (\<exists>job. jr_jobs s j = Some job \<and> job_wf job) \<and>
    lookup_result k s = Submitted k j \<and> submit_setnx c'' k s = s\<lparr>jr_callers := (jr_callers s)(c'' := Some (LookingUp k))\<rparr> \<and>
    (\<forall>j1 j2 pc1 pc2. jr_threads s j1 = Some (k, pc1) \<and> jr_threads s j2 = Some (k, pc2) \<longrightarrow> j1 = j2)"
proof -
  obtain slots where A: "agrees s slots" using reachable_agrees [OF assms(1)] by blast
  have v: "visible_job (slots k) = Some j" "visible_job (slots k') = Some j'"
    using agreesD(6) [OF A] assms(2,3) by blast+
  then have sj: "slot_job (slots k) = Some j" "slot_job (slots k') = Some j'"
    by (auto elim!: visible_job.elims)
  have "k = k' \<longleftrightarrow> j = j'" using v sj agreesD(7) [OF A, of k j k'] by auto
  moreover obtain job where job: "jr_jobs s j = Some job" "j \<noteq> []" "job_wf job" by (rule agrees_job [OF A sj(1)])
  moreover have "jh_job_id (jr_hash s k) = Some j" using agrees_slot_ok [OF A, of k] v by (simp add: slot_ok_def)
  then have "lookup_result k s = Submitted k j" using job by (simp add: lookup_result_def)
  moreover have "k \<in> jr_claimed s" using v agreesD(1) [OF A] by (metis option.distinct(1) visible_job.simps(3))
  then have "submit_setnx c'' k s = s\<lparr>jr_callers := (jr_callers s)(c'' := Some (LookingUp k))\<rparr>"
    by (simp add: submit_setnx_def)
  moreover have "j1 = j2" if "jr_threads s j1 = Some (k, pc1)" "jr_threads s j2 = Some (k, pc2)" for j1 j2 pc1 pc2
    using that agreesD(5) [OF A] by (metis slot.inject(4))
  ultimately show ?thesis by blast
qed

text \<open>
  A job in the dict is always well-formed: the manifest is there exactly on success, the error
  exactly on failure, the start time from the moment it runs and the finish time exactly at the end. A step
  keeps the job, and changes it only from pending to running or from running to one of the two ends. A
  thread that has reported leaves the status of the job in the store.
\<close>

theorem job_lifecycle:
  assumes "job_reachable s" and "jr_jobs s j = Some job"
  shows "job_wf job \<and>
    (job_step s s' \<longrightarrow> (\<exists>job'. jr_jobs s' j = Some job' \<and>
       (job' = job \<or> (jb_status job, jb_status job') \<in>
          {(JOB_PENDING, JOB_RUNNING), (JOB_RUNNING, JOB_SUCCESS), (JOB_RUNNING, JOB_FAILED)}))) \<and>
    (jr_threads s j = Some (k, Reported) \<longrightarrow>
       jh_status (jr_hash s k) = Some (jb_status job) \<and> jb_finished_at job \<noteq> None)"
proof (intro conjI impI)
  obtain slots where A: "agrees s slots" using reachable_agrees [OF assms(1)] by blast
  obtain k0 where "slot_job (slots k0) = Some j" using agreesD(8) [OF A, of j] assms(2) by auto
  from agrees_job [OF A this] show wf: "job_wf job" using assms(2) by auto
  have st: "jb_status job \<in> slot_statuses (SThread j pc) \<and>
      (jh_status (jr_hash s k) = Some (slot_hash_status (SThread j pc) job))" if "jr_threads s j = Some (k, pc)" for k pc
    using that agrees_job [OF A, of k j] agreesD(5) [OF A, of j k pc] assms(2) by fastforce
  show "\<exists>job'. jr_jobs s' j = Some job' \<and> (job' = job \<or> (jb_status job, jb_status job') \<in>
      {(JOB_PENDING, JOB_RUNNING), (JOB_RUNNING, JOB_SUCCESS), (JOB_RUNNING, JOB_FAILED)})" if "job_step s s'"
    using that
  proof cases
    case (register c key job_id now)
    then show ?thesis using assms(2) by (auto simp: submit_register_def)
  next
    case (running job_id key now)
    then show ?thesis using assms(2) st [of key Starting] by (auto simp: goto_def update_job_def mark_running_def)
  next
    case (finish job_id key now res)
    then show ?thesis using assms(2) st [of key Executing]
      by (auto simp: goto_def update_job_def finish_job_def split: sum.splits)
  qed (use assms(2) in \<open>auto simp: submit_setnx_def submit_hset_def submit_start_def goto_def hset_status_def\<close>)
  show "jh_status (jr_hash s k) = Some (jb_status job)" "jb_finished_at job \<noteq> None"
    if "jr_threads s j = Some (k, Reported)"
    using st [OF that] wf by (auto simp: job_wf_def)
qed

text \<open>
  The retries of the job runner never happen: the exporter raises no transient error
  itself, so an export is run once and nothing is slept. The job is told \<^verbatim>\<open>EXPORT_VALIDATION_ERROR\<close>
  only for a chunk size that is not positive; all other failures become \<^verbatim>\<open>EXPORT_IO_ERROR\<close>.
\<close>

theorem export_is_called_once:
  "job_execute U env R digest8 filters opts marker now cid d =
     ((fst (run_export U (env 1) filters opts marker now cid d), 1, []),
      snd (run_export U (env 1) filters opts marker now cid d)) \<and>
   (fst (run_export U (env 1) filters opts marker now cid d) = Inl exc \<longrightarrow>
     (snd (job_failure exc) = EXPORT_VALIDATION_ERROR \<longleftrightarrow> eo_chunk_size opts \<le> 0))"
proof -
  let ?step = "job_export_step U env filters opts marker now cid"
  let ?r = "run_export U (env 1) filters opts marker now cid d"
  have o: "attempts_outcome ?step d (Suc 0) = fst ?r" "attempts_state ?step d 1 = snd ?r"
    by (simp_all add: attempts_outcome_def job_export_step_def)
  note raised = run_export_raised [of U "env 1" filters opts marker now cid d]
  have "\<not> transient_errors e" if "fst ?r = Inl e" for e
    using that raised by (auto simp: transient_errors_def)
  then have "runner_execute R digest8 transient_errors (attempts_outcome ?step d) cid = (fst ?r, 1, [])"
    unfolding runner_execute_def using o(1) by (subst runner_loop.simps) (auto split: sum.splits)
  then have "job_execute U env R digest8 filters opts marker now cid d = ((fst ?r, 1, []), snd ?r)"
    using o(2) by (simp add: job_execute_def)
  moreover have "snd (job_failure exc) = EXPORT_VALIDATION_ERROR \<longleftrightarrow> eo_chunk_size opts \<le> 0" if "fst ?r = Inl exc"
  proof (cases exc)
    case (Raised e)
    then show ?thesis using that raised [of e] by (simp add: job_failure_def)
  qed (use that in \<open>auto simp: job_failure_def run_export_def split: if_splits\<close>)
  ultimately show ?thesis by blast
qed

text \<open>
  The retry loop of the runner makes between one and the allowed number of
  calls and returns what the last one gave. It sleeps the first delays of \<^verbatim>\<open>build_schedule\<close>, one for
  each failed call but the last, and it reaches every success that lies behind retryable failures only, within the limit.
\<close>

theorem runner_sleeps_its_schedule:
  assumes "make_export_runner delay limit = Inr R" and "runner_execute R digest8 retryable outcome cid = (res, calls, sleeps)"
  shows "1 \<le> calls \<and> int calls \<le> limit \<and> res = outcome calls \<and>
    sleeps = take (calls - 1) (build_schedule R digest8 cid) \<and>
    (\<forall>n x. 1 \<le> n \<and> int n \<le> limit \<and> outcome n = Inr x \<and>
       (\<forall>k. 1 \<le> k \<and> k < n \<longrightarrow> (\<exists>e. outcome k = Inl e \<and> retryable e)) \<longrightarrow> res = Inr x)"
proof -
  have l: "1 \<le> limit" "rn_max_attempts R = limit"
    using assms(1) by (auto simp: make_export_runner_def split: if_splits)
  note shape = runner_loop_shape [OF assms(2) [unfolded runner_execute_def]]
  have calls: "1 \<le> calls" "int calls \<le> limit" "res = outcome calls" using shape l by auto
  have "sleeps = map (\<lambda>attempt. compute_delay R digest8 attempt cid) [1..<calls]" using shape by simp
  also have "\<dots> = take (calls - 1) (build_schedule R digest8 cid)"
    using calls(1,2) l by (simp add: build_schedule_def take_map)
  finally have s: "sleeps = take (calls - 1) (build_schedule R digest8 cid)" .
  have "res = Inr x" if "1 \<le> n" "int n \<le> limit" "outcome n = Inr x"
    "\<forall>k. 1 \<le> k \<and> k < n \<longrightarrow> (\<exists>e. outcome k = Inl e \<and> retryable e)" for n x
    using runner.succeeds_if_reached [of n outcome retryable x R digest8 cid] that l assms(2) calls(3) by simp
  then show ?thesis using calls s by blast
qed

section \<open>Witnesses\<close>

text \<open>Caller 0 submits a job, caller 1 comes with the same key.\<close>

definition sample_key :: pystr where
  "sample_key = redis_key (asc ''default'') (asc ''nightly'')"

definition submitted_runner :: job_runner where
  "submitted_runner = submit_start 0 sample_key (asc ''j1'') (submit_hset 0 sample_key (asc ''j1'')
     (submit_register 0 sample_key (asc ''j1'') 7 (submit_setnx 0 sample_key idle_runner)))"

definition second_caller :: "job_runner \<Rightarrow> job_runner" where
  "second_caller s = (let s = submit_setnx 1 sample_key s
     in s\<lparr>jr_callers := (jr_callers s)(1 := Some (lookup_result sample_key s))\<rparr>)"

lemma asc_ne [simp]: "asc (x # xs) \<noteq> []"
  by (simp add: asc_def)

lemmas submission_defs = submit_setnx_def submit_register_def submit_hset_def submit_start_def idle_runner_def

lemma submitted_reachable: "job_reachable submitted_runner"
proof -
  let ?s1 = "submit_setnx 0 sample_key idle_runner"
  let ?s2 = "submit_register 0 sample_key (asc ''j1'') 7 ?s1"
  let ?s3 = "submit_hset 0 sample_key (asc ''j1'') ?s2"
  have "job_reachable ?s1"
    by (rule job_reachable.step [OF job_reachable.idle job_step.setnx]) (simp add: submission_defs)
  then have "job_reachable ?s2"
    by (rule job_reachable.step [OF _ job_step.register]) (simp_all add: submission_defs)
  then have "job_reachable ?s3"
    by (rule job_reachable.step [OF _ job_step.hset]) (simp add: submission_defs)
  then show ?thesis unfolding submitted_runner_def
    by (rule job_reachable.step [OF _ job_step.start]) (simp add: submission_defs)
qed

lemma second_caller_reachable: "job_reachable (second_caller submitted_runner)"
proof -
  have "job_reachable (submit_setnx 1 sample_key submitted_runner)"
    by (rule job_reachable.step [OF submitted_reachable job_step.setnx])
      (simp add: submitted_runner_def submission_defs)
  then show ?thesis unfolding second_caller_def Let_def
    by (rule job_reachable.step [OF _ job_step.lookup]) (simp add: submitted_runner_def submission_defs)
qed

theorem one_job_per_key_witness:
  "jr_callers (second_caller submitted_runner) 1 = Some (Submitted sample_key (asc ''j1'')) \<and>
   (\<exists>job. jr_jobs (second_caller submitted_runner) (asc ''j1'') = Some job \<and> job_wf job)"
proof -
  have "jr_callers (second_caller submitted_runner) 0 = Some (Submitted sample_key (asc ''j1''))"
    and c: "jr_callers (second_caller submitted_runner) 1 = Some (Submitted sample_key (asc ''j1''))"
    by (simp_all add: second_caller_def submitted_runner_def submission_defs lookup_result_def)
  from one_job_per_key [OF second_caller_reachable this] c show ?thesis by blast
qed

theorem submissions_refine_registry_witness:
  "\<exists>slots'. registry_move (\<lambda>_. Free) slots' \<and> agrees (submit_setnx 0 sample_key idle_runner) slots'"
proof -
  have "job_step idle_runner (submit_setnx 0 sample_key idle_runner)"
    by (rule job_step.setnx) (simp add: idle_runner_def)
  then show ?thesis using submissions_refine_registry by blast
qed

theorem job_lifecycle_witness:
  "job_reachable submitted_runner \<and>
   (\<exists>job'. jr_jobs (goto (asc ''j1'') sample_key MarkedRunning (update_job (asc ''j1'') (mark_running 9) submitted_runner))
      (asc ''j1'') = Some job' \<and> (job' = new_job 7 \<or> (jb_status (new_job 7), jb_status job') \<in>
          {(JOB_PENDING, JOB_RUNNING), (JOB_RUNNING, JOB_SUCCESS), (JOB_RUNNING, JOB_FAILED)}))"
proof -
  have "jr_jobs submitted_runner (asc ''j1'') = Some (new_job 7)"
    by (simp add: submitted_runner_def submission_defs)
  moreover have "job_step submitted_runner
      (goto (asc ''j1'') sample_key MarkedRunning (update_job (asc ''j1'') (mark_running 9) submitted_runner))"
    by (rule job_step.running) (simp add: submitted_runner_def submission_defs)
  ultimately show ?thesis using job_lifecycle [OF submitted_reachable] submitted_reachable by blast
qed

definition sample_runner :: RetryingExportRunner where
  "sample_runner = \<lparr>rn_base_delay = fl (1 / 10), rn_max_attempts = 3\<rparr>"

text \<open>An empty result ends the job with the code of an io error.\<close>

theorem export_is_called_once_witness:
  "\<exists>exc. fst (run_export ascii_ucd (sample_export_env []) sample_filters sample_options []
        (nr_allocation_date (sample_student_row 0 None [])) [] \<lparr>od_files = (\<lambda>_. None), od_manifest = None\<rparr>) = Inl exc \<and>
     snd (job_failure exc) = EXPORT_IO_ERROR"
proof -
  let ?r = "run_export ascii_ucd (sample_export_env []) sample_filters sample_options []
        (nr_allocation_date (sample_student_row 0 None [])) [] \<lparr>od_files = (\<lambda>_. None), od_manifest = None\<rparr>"
  have "case fst ?r of Inl _ \<Rightarrow> True | Inr _ \<Rightarrow> False" by code_simp
  then obtain exc where "fst ?r = Inl exc" by (auto split: sum.splits)
  moreover have "\<not> eo_chunk_size sample_options \<le> 0" by code_simp
  ultimately show ?thesis
    using export_is_called_once [of ascii_ucd "\<lambda>_. sample_export_env []" sample_runner "\<lambda>_. 0" sample_filters
      sample_options "[]" "nr_allocation_date (sample_student_row 0 None [])" "[]"
      "\<lparr>od_files = (\<lambda>_. None), od_manifest = None\<rparr>" exc] job_error_code.exhaust
    by metis
qed

theorem runner_sleeps_its_schedule_witness:
  "runner_execute sample_runner (\<lambda>_. 2 ^ 63) (\<lambda>e. e) (\<lambda>n. if n < 3 then Inl True else Inr n) [] =
     (Inr 3, 3, take 2 (build_schedule sample_runner (\<lambda>_. 2 ^ 63) []))"
proof -
  let ?o = "\<lambda>n::nat. if n < 3 then Inl True else Inr n"
  obtain res calls sleeps where r: "runner_execute sample_runner (\<lambda>_. 2 ^ 63) (\<lambda>e. e) ?o [] = (res, calls, sleeps)"
    by (cases "runner_execute sample_runner (\<lambda>_. 2 ^ 63) (\<lambda>e. e) ?o []")
  have "make_export_runner (fl (1 / 10)) 3 = Inr sample_runner"
    by (simp add: make_export_runner_def sample_runner_def)
  note * = runner_sleeps_its_schedule [OF this r]
  have "1 \<le> (3::nat) \<and> int 3 \<le> 3 \<and> ?o 3 = Inr 3 \<and> (\<forall>k. 1 \<le> k \<and> k < 3 \<longrightarrow> (\<exists>e. ?o k = Inl e \<and> e))"
    by (simp, blast)
  with * have res: "res = Inr 3" by blast
  have "res = ?o calls" using * by blast
  then have "calls = 3" unfolding res by (cases "calls < 3") simp_all
  moreover have "sleeps = take (calls - 1) (build_schedule sample_runner (\<lambda>_. 2 ^ 63) [])" using * by blast
  ultimately show ?thesis unfolding r res by simp
qed

text \<open>Namespace and idempotency key are joined by a colon that both may contain.\<close>

lemma redis_key_ambiguous:
  "redis_key (asc ''a:b'') (asc ''c'') = redis_key (asc ''a'') (asc ''b:c'')"
  by (simp add: redis_key_def asc_def)

end
