(* ===== verification/PyBytes.thy ===== *)
theory PyBytes
  imports PyBase "HOL-Library.Word"
begin

text \<open>
  Python's \<^verbatim>\<open>bytes\<close> as lists of 8-bit words, and the UTF-8 codec in strict mode: the decoder
  refuses overlong forms, surrogates and code points above 0x10FFFF, and is the inverse of the
  encoder.
\<close>

section \<open>UTF-8\<close>

type_synonym bytes = "8 word list"

definition scalar_value :: "int \<Rightarrow> bool" where
  "scalar_value c \<longleftrightarrow> 0 \<le> c \<and> c < 55296 \<or> 57344 \<le> c \<and> c < 1114112"

definition encode_char :: "int \<Rightarrow> int list" where
  "encode_char c =
     (if c < 128 then [c]
      else if c < 2048 then [192 + c div 64, 128 + c mod 64]
      else if c < 65536 then [224 + c div 4096, 128 + c div 64 mod 64, 128 + c mod 64]
      else [240 + c div 262144, 128 + c div 4096 mod 64, 128 + c div 64 mod 64, 128 + c mod 64])"

definition utf8_encode :: "pystr \<Rightarrow> bytes option" where
  "utf8_encode s =
     (if list_all scalar_value s then Some (map word_of_int (concat (map encode_char s))) else None)"

definition tail_byte :: "int \<Rightarrow> bool" where
  "tail_byte b \<longleftrightarrow> 128 \<le> b \<and> b < 192"

fun decode_ints :: "int list \<Rightarrow> pystr option" where
  "decode_ints [] = Some []"
| "decode_ints (a # as) =
     (if a < 128 then map_option ((#) a) (decode_ints as)
      else if 194 \<le> a \<and> a < 224 then
        (case as of
           b # bs \<Rightarrow>
             if tail_byte b then map_option ((#) ((a - 192) * 64 + (b - 128))) (decode_ints bs) else None
         | [] \<Rightarrow> None)
      else if 224 \<le> a \<and> a < 240 then
        (case as of
           b # c # cs \<Rightarrow>
             if tail_byte b \<and> tail_byte c \<and> (a = 224 \<longrightarrow> 160 \<le> b) \<and> (a = 237 \<longrightarrow> b < 160)
             then map_option ((#) ((a - 224) * 4096 + (b - 128) * 64 + (c - 128))) (decode_ints cs) else None
         | _ \<Rightarrow> None)
      else if 240 \<le> a \<and> a < 245 then
        (case as of
           b # c # d # ds \<Rightarrow>
             if tail_byte b \<and> tail_byte c \<and> tail_byte d \<and> (a = 240 \<longrightarrow> 144 \<le> b) \<and> (a = 244 \<longrightarrow> b < 144)
             then map_option ((#) ((a - 240) * 262144 + (b - 128) * 4096 + (c - 128) * 64 + (d - 128))) (decode_ints ds)
             else None
         | _ \<Rightarrow> None)
      else None)"

definition utf8_decode :: "bytes \<Rightarrow> pystr option" where
  "utf8_decode bs = decode_ints (map uint bs)"

declare scalar_value_def [py_defs] encode_char_def [py_defs] utf8_encode_def [py_defs] utf8_decode_def [py_defs]

lemma encode_char_range: "scalar_value c \<Longrightarrow> b \<in> set (encode_char c) \<Longrightarrow> 0 \<le> b \<and> b < 256"
  by (auto simp: scalar_value_def encode_char_def split: if_splits)

lemma decode_two:
  "2 \<le> x \<Longrightarrow> x < 32 \<Longrightarrow> 0 \<le> y \<Longrightarrow> y < 64 \<Longrightarrow>
   decode_ints ((192 + x) # (128 + y) # rest) = map_option ((#) (x * 64 + y)) (decode_ints rest)"
  by (simp add: tail_byte_def)

lemma decode_three:
  "0 \<le> x \<Longrightarrow> x < 16 \<Longrightarrow> 0 \<le> y \<Longrightarrow> y < 64 \<Longrightarrow> 0 \<le> z \<Longrightarrow> z < 64 \<Longrightarrow> (x = 0 \<longrightarrow> 32 \<le> y) \<Longrightarrow> (x = 13 \<longrightarrow> y < 32) \<Longrightarrow>
   decode_ints ((224 + x) # (128 + y) # (128 + z) # rest) = map_option ((#) (x * 4096 + y * 64 + z)) (decode_ints rest)"
  by (simp add: tail_byte_def)

lemma decode_four:
  "0 \<le> x \<Longrightarrow> x < 5 \<Longrightarrow> 0 \<le> y \<Longrightarrow> y < 64 \<Longrightarrow> 0 \<le> z \<Longrightarrow> z < 64 \<Longrightarrow> 0 \<le> w \<Longrightarrow> w < 64 \<Longrightarrow>
   (x = 0 \<longrightarrow> 16 \<le> y) \<Longrightarrow> (x = 4 \<longrightarrow> y < 16) \<Longrightarrow>
   decode_ints ((240 + x) # (128 + y) # (128 + z) # (128 + w) # rest) =
   map_option ((#) (x * 262144 + y * 4096 + z * 64 + w)) (decode_ints rest)"
  by (simp add: tail_byte_def)

text \<open>The digits of a code point in base 64 and what the forms of three and four bytes need of them.\<close>

lemma base64_three:
  fixes c q x y z :: int
  assumes "c = 64 * q + z" "q = 64 * x + y" "0 \<le> z" "z < 64" "0 \<le> y" "y < 64" "2048 \<le> c" "c < 65536"
  shows "0 \<le> x" "x < 16" "x = 0 \<longrightarrow> 32 \<le> y" "x * 4096 + y * 64 + z = c"
    and "c < 55296 \<or> 57344 \<le> c \<Longrightarrow> x = 13 \<longrightarrow> y < 32"
  using assms by linarith+

lemma base64_four:
  fixes c q r x y z w :: int
  assumes "c = 64 * q + w" "q = 64 * r + z" "r = 64 * x + y" "0 \<le> w" "w < 64" "0 \<le> z" "z < 64" "0 \<le> y" "y < 64"
    "65536 \<le> c" "c < 1114112"
  shows "0 \<le> x" "x < 5" "x = 0 \<longrightarrow> 16 \<le> y" "x = 4 \<longrightarrow> y < 16" "x * 262144 + y * 4096 + z * 64 + w = c"
  using assms by linarith+

lemma decode_encode_char:
  assumes c: "scalar_value c"
  shows "decode_ints (encode_char c @ rest) = map_option ((#) c) (decode_ints rest)"
proof -
  have m: "0 \<le> x mod 64 \<and> x mod 64 < 64" for x :: int by simp
  consider "c < 128" | "128 \<le> c" "c < 2048" | "2048 \<le> c" "c < 65536" | "65536 \<le> c" by linarith
  then show ?thesis
  proof cases
    case 1
    then show ?thesis using c by (simp add: encode_char_def)
  next
    case 2
    have "decode_ints ((192 + c div 64) # (128 + c mod 64) # rest) = map_option ((#) (c div 64 * 64 + c mod 64)) (decode_ints rest)"
      using 2 m by (intro decode_two) auto
    moreover have "encode_char c = [192 + c div 64, 128 + c mod 64]" using 2 by (simp add: encode_char_def)
    ultimately show ?thesis by (simp only: append.simps div_mult_mod_eq)
  next
    case 3
    let ?q = "c div 64" let ?x = "?q div 64" let ?y = "?q mod 64" let ?z = "c mod 64"
    have x: "c div 4096 = ?x" by (simp add: zdiv_zmult2_eq [symmetric])
    have c_eq: "c = 64 * ?q + ?z" and q_eq: "?q = 64 * ?x + ?y" by simp_all
    have b: "0 \<le> ?z" "?z < 64" "0 \<le> ?y" "?y < 64" using m by blast+
    note k = base64_three [OF c_eq q_eq b 3]
    have "?x = 13 \<longrightarrow> ?y < 32" by (rule k(5)) (use c in \<open>auto simp: scalar_value_def\<close>)
    with k have "decode_ints ((224 + ?x) # (128 + ?y) # (128 + ?z) # rest) =
        map_option ((#) (?x * 4096 + ?y * 64 + ?z)) (decode_ints rest)"
      using b by (intro decode_three)
    moreover have "?x * 4096 + ?y * 64 + ?z = c" by (rule k(4))
    moreover have "encode_char c = [224 + ?x, 128 + ?y, 128 + ?z]"
      unfolding encode_char_def x using 3 by simp
    ultimately show ?thesis by (simp only: append.simps)
  next
    case 4
    let ?q = "c div 64" let ?r = "?q div 64" let ?x = "?r div 64" let ?y = "?r mod 64" let ?z = "?q mod 64" let ?w = "c mod 64"
    have x: "c div 262144 = ?x" "c div 4096 = ?r" by (simp_all add: zdiv_zmult2_eq [symmetric])
    have e: "c = 64 * ?q + ?w" "?q = 64 * ?r + ?z" "?r = 64 * ?x + ?y" by simp_all
    have b: "0 \<le> ?w" "?w < 64" "0 \<le> ?z" "?z < 64" "0 \<le> ?y" "?y < 64" using m by blast+
    have c': "c < 1114112" using c by (auto simp: scalar_value_def)
    note k = base64_four [OF e b 4 c']
    from k(1-4) have "decode_ints ((240 + ?x) # (128 + ?y) # (128 + ?z) # (128 + ?w) # rest) =
        map_option ((#) (?x * 262144 + ?y * 4096 + ?z * 64 + ?w)) (decode_ints rest)"
      using b by (intro decode_four)
    moreover have "?x * 262144 + ?y * 4096 + ?z * 64 + ?w = c" by (rule k(5))
    moreover have "encode_char c = [240 + ?x, 128 + ?y, 128 + ?z, 128 + ?w]"
      unfolding encode_char_def x using 4 by simp
    ultimately show ?thesis by (simp only: append.simps)
  qed
qed

lemma decode_encode: "list_all scalar_value s \<Longrightarrow> decode_ints (concat (map encode_char s)) = Some s"
  by (induction s) (simp_all add: decode_encode_char)

lemma utf8_roundtrip: "utf8_encode s = Some bs \<Longrightarrow> utf8_decode bs = Some s"
proof -
  assume a: "utf8_encode s = Some bs"
  then have s: "list_all scalar_value s" by (auto simp: utf8_encode_def split: if_splits)
  have "b \<in> set (concat (map encode_char s)) \<Longrightarrow> uint (word_of_int b :: 8 word) = b" for b
    using s encode_char_range by (fastforce simp: list_all_iff uint_word_of_int take_bit_eq_mod)
  then have "map (uint \<circ> (word_of_int :: int \<Rightarrow> 8 word)) (concat (map encode_char s)) = concat (map encode_char s)"
    by (intro map_idI) auto
  then show ?thesis using a s decode_encode [OF s] by (auto simp: utf8_encode_def utf8_decode_def)
qed

definition byte_str :: "string \<Rightarrow> bytes" where
  "byte_str s = map (\<lambda>c. word_of_int (of_char c)) s"

declare byte_str_def [py_defs]

end
