(* ===== verification/Upload_Csv.thy ===== *)
theory Upload_Csv
  imports PyCsv PyBytes
begin

text \<open>
  \<^verbatim>\<open>phase2_uploads/errors.py\<close>, \<^verbatim>\<open>normalizer.py\<close> and \<^verbatim>\<open>validator.py\<close>: the check of an uploaded roster. The file
  is read as UTF-8 and as CSV, the header must have the required columns, and every row that is not
  blank must have a positive school code, a mobile number that is empty or Iranian, and names that are
  no formulas. The reader decodes a file in blocks: \<open>bad\<close> gives the records it yields before it meets
  bytes that are no UTF-8. The constants of \<^verbatim>\<open>excel_safety\<close> and the texts of the errors are left out.
\<close>

section \<open>Errors\<close>

datatype upload_reason =
    CRLF_REQUIRED | UTF8_REQUIRED | HEADER_REQUIRED | MISSING_COLUMNS "pystr list" | FORMULA_GUARD nat
  | SCHOOL_CODE_REQUIRED nat | SCHOOL_CODE_INVALID nat | SCHOOL_CODE_POSITIVE nat | MOBILE_INVALID nat
  | ZIP_TOO_MANY_MEMBERS | CSV_NOT_FOUND | ZIP_CHANGED | ZIP_TRAVERSAL | ZIP_BOMB

datatype upload_error =
    UPLOAD_VALIDATION_ERROR upload_reason | UPLOAD_FORMAT_UNSUPPORTED | UPLOAD_SIZE_EXCEEDED
  | UPLOAD_INTERNAL_ERROR | UPLOAD_CONFLICT | UPLOAD_ACTIVATION_CONFLICT | UPLOAD_NOT_FOUND

text \<open>What the code raises; \<open>OtherError\<close> stands for errors of the system, the database and the libraries.\<close>

datatype upload_exn = UploadError upload_error | OtherError | RetryError | AttributeError | KeyError

abbreviation invalid :: "upload_reason \<Rightarrow> upload_exn" where
  "invalid r \<equiv> UploadError (UPLOAD_VALIDATION_ERROR r)"

section \<open>Text\<close>

definition fold_upload :: "pystr \<Rightarrow> pystr" where
  "fold_upload value = map fold_fa_digit value"

definition upload_text :: "ucd \<Rightarrow> pystr \<Rightarrow> pystr" where
  "upload_text U value =
     (let value = fold_upload value;
          value = u_nfkc U value;
          value = replace_char 1603 1705 (replace_char 1610 1740 value);
          value = remove_chars [8203, 8204, 8205, 65279] value;
          value = filter (\<lambda>ch. \<not> u_format U ch) value
      in py_strip value)"

definition FORMULA_PREFIX :: "int list" where
  "FORMULA_PREFIX = [61, 43, 45, 64]"

definition has_formula :: "pystr \<Rightarrow> bool" where
  "has_formula value \<longleftrightarrow> list_ex (\<lambda>p. startswith value [p]) FORMULA_PREFIX"

section \<open>The validator\<close>

definition REQUIRED_COLUMNS :: "pystr list" where
  "REQUIRED_COLUMNS = map asc
     [''student_id'', ''school_code'', ''mobile'', ''national_id'', ''first_name'', ''last_name'']"

definition TEXT_FIELDS :: "pystr list" where
  "TEXT_FIELDS = map asc [''first_name'', ''last_name'']"

definition mobile_fullmatch :: "pystr \<Rightarrow> bool" where
  "mobile_fullmatch s \<longleftrightarrow> length s = 11 \<and> take 2 s = asc ''09'' \<and> list_all decimal_char (drop 2 s)"

record ValidationResult =
  vr_record_count :: nat
  vr_preview_rows :: "(pystr \<times> pystr) list list"
  vr_schema :: "pystr list"

text \<open>\<open>row.get\<close> with the missing value read as the empty text.\<close>

definition text_of :: "pystr list \<Rightarrow> pystr list \<Rightarrow> pystr \<Rightarrow> pystr" where
  "text_of names cells k = (case dict_get names cells k of None \<Rightarrow> [] | Some v \<Rightarrow> v)"

definition name_of :: "ucd \<Rightarrow> pystr list \<Rightarrow> pystr list \<Rightarrow> pystr \<Rightarrow> pystr" where
  "name_of U names cells f = (case dict_get names cells f of None \<Rightarrow> [] | Some v \<Rightarrow> upload_text U v)"

text \<open>A row that is not blank, the \<open>n\<close>-th such row; the result is its preview.\<close>

definition validate_row :: "ucd \<Rightarrow> pystr list \<Rightarrow> nat \<Rightarrow> pystr list \<Rightarrow> upload_exn + (pystr \<times> pystr) list" where
  "validate_row U names n cells =
     (if list_ex (\<lambda>f. has_formula (name_of U names cells f)) TEXT_FIELDS
      then Inl (invalid (FORMULA_GUARD (n + 2)))
      else
        let school_code_raw = py_strip (fold_upload (text_of names cells (asc ''school_code'')))
        in if school_code_raw = [] then Inl (invalid (SCHOOL_CODE_REQUIRED (n + 2)))
           else (case py_int school_code_raw of
               None \<Rightarrow> Inl (invalid (SCHOOL_CODE_INVALID (n + 2)))
             | Some school_code \<Rightarrow>
                 if school_code \<le> 0 then Inl (invalid (SCHOOL_CODE_POSITIVE (n + 2)))
                 else
                   let mobile = fold_upload (text_of names cells (asc ''mobile''))
                   in if mobile \<noteq> [] \<and> \<not> mobile_fullmatch mobile then Inl (invalid (MOBILE_INVALID (n + 2)))
                      else Inr (map (\<lambda>key.
                        (key, if key = asc ''school_code'' then py_str_int school_code
                              else if key = asc ''mobile'' then mobile
                              else if key \<in> set TEXT_FIELDS then name_of U names cells key
                              else text_of names cells key)) REQUIRED_COLUMNS)))"

fun validate_rows ::
  "ucd \<Rightarrow> int \<Rightarrow> pystr list \<Rightarrow> (upload_exn + pystr list) list \<Rightarrow> nat \<Rightarrow> (pystr \<times> pystr) list list
   \<Rightarrow> upload_exn + ValidationResult" where
  "validate_rows U limit names [] n preview =
     Inr \<lparr>vr_record_count = n, vr_preview_rows = preview, vr_schema = names\<rparr>"
| "validate_rows U limit names (Inl e # items) n preview = Inl e"
| "validate_rows U limit names (Inr cells # items) n preview =
     (if cells = [] \<or> all_blank names cells then validate_rows U limit names items n preview
      else rbind (validate_row U names n cells) (\<lambda>p.
        validate_rows U limit names items (n + 1)
          (if int (length preview) < limit then preview @ [p] else preview)))"

text \<open>The records of the reader, up to an error.\<close>

definition read_items :: "(bytes \<Rightarrow> pystr list list) \<Rightarrow> bytes \<Rightarrow> (upload_exn + pystr list) list" where
  "read_items bad data =
     (case utf8_decode data of
        None \<Rightarrow> map Inr (bad data) @ [Inl (invalid UTF8_REQUIRED)]
      | Some text \<Rightarrow> (case csv_read text of None \<Rightarrow> [Inl OtherError] | Some records \<Rightarrow> map Inr records))"

definition ensure_header :: "pystr list \<Rightarrow> upload_exn + unit" where
  "ensure_header header =
     (let missing = filter (\<lambda>col. col \<notin> set header) REQUIRED_COLUMNS
      in if missing = [] then Inr () else Inl (invalid (MISSING_COLUMNS missing)))"

definition validate :: "ucd \<Rightarrow> int \<Rightarrow> (bytes \<Rightarrow> pystr list list) \<Rightarrow> bytes \<Rightarrow> upload_exn + ValidationResult" where
  "validate U limit bad data =
     (case read_items bad data of
        [] \<Rightarrow> Inl (invalid HEADER_REQUIRED)
      | Inl e # _ \<Rightarrow> Inl e
      | Inr names # items \<Rightarrow>
          rbind (ensure_header names) (\<lambda>_. validate_rows U limit names items 0 []))"

section \<open>Line breaks\<close>

text \<open>
  \<^verbatim>\<open>_validate_crlf\<close>: the byte before a line feed, in the chunk or at the end of the one before, must be a carriage
  return. The value is the last byte.
\<close>

fun validate_crlf :: "bytes \<Rightarrow> 8 word option \<Rightarrow> upload_exn + 8 word option" where
  "validate_crlf [] previous = Inr previous"
| "validate_crlf (byte # chunk) previous =
     (if byte = 10 \<and> previous \<noteq> Some 13 then Inl (invalid CRLF_REQUIRED) else validate_crlf chunk (Some byte))"

declare fold_upload_def [py_defs] upload_text_def [py_defs] FORMULA_PREFIX_def [py_defs] has_formula_def [py_defs]
  REQUIRED_COLUMNS_def [py_defs] TEXT_FIELDS_def [py_defs] text_of_def [py_defs] name_of_def [py_defs] mobile_fullmatch_def [py_defs]

section \<open>What the validator accepts\<close>

definition row_accepted :: "ucd \<Rightarrow> pystr list \<Rightarrow> pystr list \<Rightarrow> bool" where
  "row_accepted U names cells \<longleftrightarrow>
     (\<forall>f \<in> set TEXT_FIELDS. \<not> has_formula (name_of U names cells f)) \<and>
     (\<exists>code > 0. py_int (py_strip (fold_upload (text_of names cells (asc ''school_code'')))) = Some code) \<and>
     (fold_upload (text_of names cells (asc ''mobile'')) = [] \<or>
      mobile_fullmatch (fold_upload (text_of names cells (asc ''mobile''))))"

definition preview_of :: "ucd \<Rightarrow> pystr list \<Rightarrow> pystr list \<Rightarrow> (pystr \<times> pystr) list" where
  "preview_of U names cells =
     [(asc ''student_id'', text_of names cells (asc ''student_id'')),
      (asc ''school_code'',
       py_str_int (the (py_int (py_strip (fold_upload (text_of names cells (asc ''school_code''))))))),
      (asc ''mobile'', fold_upload (text_of names cells (asc ''mobile''))),
      (asc ''national_id'', text_of names cells (asc ''national_id'')),
      (asc ''first_name'', name_of U names cells (asc ''first_name'')),
      (asc ''last_name'', name_of U names cells (asc ''last_name''))]"

fun error_row :: "upload_exn \<Rightarrow> nat option" where
  "error_row (UploadError (UPLOAD_VALIDATION_ERROR (FORMULA_GUARD n))) = Some n"
| "error_row (UploadError (UPLOAD_VALIDATION_ERROR (SCHOOL_CODE_REQUIRED n))) = Some n"
| "error_row (UploadError (UPLOAD_VALIDATION_ERROR (SCHOOL_CODE_INVALID n))) = Some n"
| "error_row (UploadError (UPLOAD_VALIDATION_ERROR (SCHOOL_CODE_POSITIVE n))) = Some n"
| "error_row (UploadError (UPLOAD_VALIDATION_ERROR (MOBILE_INVALID n))) = Some n"
| "error_row _ = None"

lemma py_int_Nil: "py_int [] = None"
  by (simp add: py_int_def)

lemma validate_row_accepts:
  "validate_row U names n cells =
     (if row_accepted U names cells then Inr (preview_of U names cells)
      else Inl (projl (validate_row U names n cells)))"
proof (cases "validate_row U names n cells")
  case (Inl e)
  then have "\<not> row_accepted U names cells"
    by (auto simp: validate_row_def row_accepted_def Let_def list_ex_iff py_int_Nil
        split: if_splits option.splits)
  then show ?thesis using Inl by simp
next
  case (Inr p)
  then have "row_accepted U names cells"
    by (auto simp: validate_row_def row_accepted_def Let_def list_ex_iff split: if_splits option.splits)
  moreover have "p = preview_of U names cells"
    using Inr by (auto simp: validate_row_def preview_of_def Let_def REQUIRED_COLUMNS_def TEXT_FIELDS_def asc_def
        split: if_splits option.splits)
  ultimately show ?thesis using Inr by simp
qed

lemma validate_row_error: "validate_row U names n cells = Inl e \<Longrightarrow> error_row e = Some (n + 2)"
  by (auto simp: validate_row_def Let_def split: if_splits option.splits)

lemma skip_blank: "cells = [] \<or> all_blank names cells \<longleftrightarrow> all_blank names cells"
  using all_blank_Nil by auto

text \<open>The rows that count.\<close>

definition roster_rows :: "pystr list \<Rightarrow> pystr list list \<Rightarrow> pystr list list" where
  "roster_rows names records = filter (\<lambda>cells. \<not> all_blank names cells) records"

text \<open>Over rows without errors of the reader.\<close>

lemma validate_rows_ok:
  assumes "list_all (row_accepted U names) (roster_rows names rows)"
  shows "validate_rows U limit names (map Inr rows) n preview =
    Inr \<lparr>vr_record_count = n + length (roster_rows names rows),
         vr_preview_rows = preview @ take (nat limit - length preview) (map (preview_of U names) (roster_rows names rows)),
         vr_schema = names\<rparr>"
  using assms unfolding roster_rows_def
proof (induction rows arbitrary: n preview)
  case (Cons cells rows)
  show ?case
  proof (cases "all_blank names cells")
    case False
    then have ne: "cells \<noteq> []" using all_blank_Nil by auto
    have "row_accepted U names cells" using False Cons.prems by simp
    then have "validate_row U names n cells = Inr (preview_of U names cells)"
      by (subst validate_row_accepts) simp
    moreover have "nat limit - length preview = Suc (nat limit - Suc (length preview))" if "int (length preview) < limit"
      using that by linarith
    ultimately show ?thesis using False ne Cons by simp
  qed (use Cons in \<open>simp add: skip_blank\<close>)
qed simp

lemma validate_rows_accepted:
  "validate_rows U limit names (map Inr rows) n preview = Inr r \<Longrightarrow> list_all (row_accepted U names) (roster_rows names rows)"
  unfolding roster_rows_def
proof (induction rows arbitrary: n preview)
  case (Cons cells rows)
  show ?case
  proof (cases "all_blank names cells")
    case False
    then have "cells \<noteq> []" using all_blank_Nil by auto
    then obtain p pv where "validate_row U names n cells = Inr p"
      "validate_rows U limit names (map Inr rows) (n + 1) pv = Inr r"
      using False Cons.prems by auto
    moreover from this have "row_accepted U names cells" using validate_row_accepts by (metis sum.distinct(1))
    ultimately show ?thesis using Cons.IH by auto
  qed (use Cons in \<open>simp add: skip_blank\<close>)
qed simp

lemma validate_rows_error:
  assumes "validate_rows U limit names (map Inr rows) n preview = Inl e"
  shows "\<exists>k < length (roster_rows names rows). list_all (row_accepted U names) (take k (roster_rows names rows)) \<and> \<not> row_accepted U names ((roster_rows names rows) ! k) \<and>
    validate_row U names (n + k) ((roster_rows names rows) ! k) = Inl e"
  using assms unfolding roster_rows_def
proof (induction rows arbitrary: n preview)
  case (Cons cells rows)
  show ?case
  proof (cases "all_blank names cells")
    case True
    then show ?thesis using Cons by (simp add: skip_blank)
  next
    case False
    then have ne: "cells \<noteq> []" using all_blank_Nil by auto
    show ?thesis
    proof (cases "row_accepted U names cells")
      case True
      then have "validate_row U names n cells = Inr (preview_of U names cells)"
        by (subst validate_row_accepts) simp
      then obtain pv where "validate_rows U limit names (map Inr rows) (n + 1) pv = Inl e"
        using False ne Cons.prems by simp
      from Cons.IH [OF this] obtain k where "k < length (filter (\<lambda>cells. \<not> all_blank names cells) rows)"
        "list_all (row_accepted U names) (take k (filter (\<lambda>cells. \<not> all_blank names cells) rows))"
        "\<not> row_accepted U names (filter (\<lambda>cells. \<not> all_blank names cells) rows ! k)"
        "validate_row U names (n + 1 + k) (filter (\<lambda>cells. \<not> all_blank names cells) rows ! k) = Inl e"
        by blast
      then show ?thesis using False True by (intro exI [of _ "Suc k"]) simp
    next
      case bad: False
      then obtain e' where "validate_row U names n cells = Inl e'" using validate_row_accepts by metis
      then show ?thesis using False ne bad Cons.prems by (intro exI [of _ 0]) simp
    qed
  qed
qed simp

lemma validate_rows_reader_error: "\<exists>e'. validate_rows U limit names (items @ [Inl e]) n preview = Inl e'"
proof (induction items arbitrary: n preview)
  case (Cons x items)
  show ?case
  proof (cases x)
    case (Inr cells)
    then show ?thesis using Cons by (cases "validate_row U names n cells") auto
  qed simp
qed simp

lemma header_ok: "ensure_header names = Inr () \<longleftrightarrow> set REQUIRED_COLUMNS \<subseteq> set names"
  by (auto simp: ensure_header_def Let_def filter_empty_conv)

text \<open>
  C33 roster_validation: A file is accepted exactly when it is UTF-8, has a header with all required columns, and every
  row that is not blank is accepted; the result then counts these rows and previews the first of
  them. When such a file is refused for a row, the row named (counted from 2, blank rows not counted) is the first that is not accepted.
\<close>

theorem roster_validation:
  "(validate U limit bad data = Inr r \<longleftrightarrow>
     (\<exists>text names records. utf8_decode data = Some text \<and> csv_read text = Some (names # records) \<and>
        set REQUIRED_COLUMNS \<subseteq> set names \<and> (\<forall>cells \<in> set (roster_rows names records). row_accepted U names cells) \<and>
        r = \<lparr>vr_record_count = length (roster_rows names records),
             vr_preview_rows = take (nat limit) (map (preview_of U names) (roster_rows names records)),
             vr_schema = names\<rparr>)) \<and>
   (validate U limit bad data = Inl e \<and> utf8_decode data = Some text \<and> csv_read text = Some (names # records) \<and>
     set REQUIRED_COLUMNS \<subseteq> set names \<longrightarrow>
     (\<exists>k < length (roster_rows names records). error_row e = Some (k + 2) \<and>
        \<not> row_accepted U names (roster_rows names records ! k) \<and>
        (\<forall>cells \<in> set (take k (roster_rows names records)). row_accepted U names cells)))"
proof (intro conjI impI iffI)
  assume a: "validate U limit bad data = Inr r"
  show "\<exists>text names records. utf8_decode data = Some text \<and> csv_read text = Some (names # records) \<and>
        set REQUIRED_COLUMNS \<subseteq> set names \<and> (\<forall>cells \<in> set (roster_rows names records). row_accepted U names cells) \<and>
        r = \<lparr>vr_record_count = length (roster_rows names records),
             vr_preview_rows = take (nat limit) (map (preview_of U names) (roster_rows names records)),
             vr_schema = names\<rparr>"
  proof (cases "utf8_decode data")
    case None
    obtain e' where "validate U limit bad data = Inl e'"
    proof (cases "bad data")
      case (Cons names items)
      obtain e' where "validate_rows U limit names (map Inr items @ [Inl (invalid UTF8_REQUIRED)]) 0 [] = Inl e'"
        using validate_rows_reader_error by blast
      then show thesis using None Cons that by (cases "ensure_header names") (auto simp: validate_def read_items_def)
    qed (use None that in \<open>simp add: validate_def read_items_def\<close>)
    then show ?thesis using a by simp
  next
    case (Some t)
    obtain records where rs: "csv_read t = Some records" using csv_read_total by blast
    obtain names rows where r: "records = names # rows" "ensure_header names = Inr ()"
      "validate_rows U limit names (map Inr rows) 0 [] = Inr r"
      using a Some rs by (cases records) (auto simp: validate_def read_items_def)
    note ok = validate_rows_accepted [OF r(3)]
    show ?thesis using Some rs r(1,2) ok r(3) [unfolded validate_rows_ok [OF ok]]
      by (auto simp: list_all_iff header_ok take_map)
  qed
next
  assume "\<exists>text names records. utf8_decode data = Some text \<and> csv_read text = Some (names # records) \<and>
        set REQUIRED_COLUMNS \<subseteq> set names \<and> (\<forall>cells \<in> set (roster_rows names records). row_accepted U names cells) \<and>
        r = \<lparr>vr_record_count = length (roster_rows names records),
             vr_preview_rows = take (nat limit) (map (preview_of U names) (roster_rows names records)),
             vr_schema = names\<rparr>"
  then obtain t names records where a: "utf8_decode data = Some t" "csv_read t = Some (names # records)"
    "ensure_header names = Inr ()" "list_all (row_accepted U names) (roster_rows names records)"
    "r = \<lparr>vr_record_count = length (roster_rows names records),
          vr_preview_rows = take (nat limit) (map (preview_of U names) (roster_rows names records)), vr_schema = names\<rparr>"
    by (auto simp: list_all_iff header_ok)
  then show "validate U limit bad data = Inr r"
    by (simp add: validate_def read_items_def validate_rows_ok)
next
  assume a: "validate U limit bad data = Inl e \<and> utf8_decode data = Some text \<and> csv_read text = Some (names # records) \<and>
     set REQUIRED_COLUMNS \<subseteq> set names"
  then have "ensure_header names = Inr ()" by (simp add: header_ok)
  then have "validate_rows U limit names (map Inr records) 0 [] = Inl e"
    using a by (auto simp: validate_def read_items_def)
  from validate_rows_error [OF this] show "\<exists>k < length (roster_rows names records). error_row e = Some (k + 2) \<and>
        \<not> row_accepted U names (roster_rows names records ! k) \<and>
        (\<forall>cells \<in> set (take k (roster_rows names records)). row_accepted U names cells)"
    using validate_row_error by (auto simp: list_all_iff)
qed

text \<open>Checked chunk by chunk is checked as a whole.\<close>

lemma validate_crlf_append:
  "validate_crlf (xs @ ys) previous = rbind (validate_crlf xs previous) (validate_crlf ys)"
  by (induction xs arbitrary: previous) simp_all

lemma validate_crlf_last: "validate_crlf xs previous = Inr p \<Longrightarrow> p = (if xs = [] then previous else Some (last xs))"
  by (induction xs arbitrary: previous) (auto split: if_splits)

definition crlf_only :: "bytes \<Rightarrow> bool" where
  "crlf_only data \<longleftrightarrow> (\<forall>i < length data. data ! i = 10 \<longrightarrow> 0 < i \<and> data ! (i - 1) = 13)"

lemma crlf_only_snoc: "crlf_only (xs @ [b]) \<longleftrightarrow> crlf_only xs \<and> (b = 10 \<longrightarrow> xs \<noteq> [] \<and> last xs = 13)"
proof -
  let ?P = "\<lambda>ys i. ys ! i = (10 :: 8 word) \<longrightarrow> 0 < i \<and> ys ! (i - 1) = 13"
  have "crlf_only (xs @ [b]) \<longleftrightarrow> (\<forall>i < length xs. ?P (xs @ [b]) i) \<and> ?P (xs @ [b]) (length xs)"
    unfolding crlf_only_def by (simp add: less_Suc_eq) blast
  moreover have "?P (xs @ [b]) i = ?P xs i" if "i < length xs" for i using that by (auto simp: nth_append)
  moreover have "?P (xs @ [b]) (length xs) \<longleftrightarrow> (b = 10 \<longrightarrow> xs \<noteq> [] \<and> last xs = 13)"
    by (cases xs rule: rev_cases) (auto simp: nth_append)
  ultimately show ?thesis unfolding crlf_only_def by simp
qed

lemma validate_crlf_iff: "(\<exists>p. validate_crlf xs None = Inr p) \<longleftrightarrow> crlf_only xs"
proof (induction xs rule: rev_induct)
  case (snoc b xs)
  then show ?case
    using validate_crlf_last [of xs None] by (cases "validate_crlf xs None") (auto simp: validate_crlf_append crlf_only_snoc)
qed (simp add: crlf_only_def)

section \<open>Witnesses\<close>

definition sample_roster :: bytes where
  "sample_roster =
     byte_str ''student_id,school_code,mobile,national_id,first_name,last_name'' @ [13, 10] @
     byte_str ''17, 0042,09123456789,0012345679, Sara ,Karimi'' @ [13, 10, 13, 10] @
     byte_str ''18,7'' @ [13, 10]"

definition bad_roster :: bytes where
  "bad_roster = sample_roster @ byte_str ''19,0,,,,'' @ [13, 10]"

theorem roster_validation_witness:
  "(\<exists>names records. csv_read (the (utf8_decode sample_roster)) = Some (names # records) \<and> length records = 3 \<and>
      length (roster_rows names records) = 2 \<and> (\<forall>cells \<in> set (roster_rows names records). row_accepted ascii_ucd names cells)) \<and>
   (\<exists>e. validate ascii_ucd 5 (\<lambda>_. []) bad_roster = Inl e \<and> error_row e = Some 4)"
proof -
  have "case validate ascii_ucd 5 (\<lambda>_. []) sample_roster of Inl _ \<Rightarrow> False | Inr r \<Rightarrow> vr_record_count r = 2" by code_simp
  then obtain r where r: "validate ascii_ucd 5 (\<lambda>_. []) sample_roster = Inr r" "vr_record_count r = 2"
    by (auto split: sum.splits)
  have n: "length (the (csv_read (the (utf8_decode sample_roster)))) = 4" by code_simp
  from roster_validation [of ascii_ucd 5 "\<lambda>_. []" sample_roster r, THEN conjunct1, THEN iffD1, OF r(1)]
  obtain t names records where g: "utf8_decode sample_roster = Some t" "csv_read t = Some (names # records)"
    "\<forall>cells \<in> set (roster_rows names records). row_accepted ascii_ucd names cells"
    "vr_record_count r = length (roster_rows names records)"
    by auto
  have "csv_read (the (utf8_decode sample_roster)) = Some (names # records)" "length records = 3"
    using g(1,2) n by auto
  moreover have "validate ascii_ucd 5 (\<lambda>_. []) bad_roster = Inl (invalid (SCHOOL_CODE_POSITIVE 4))" by code_simp
  moreover have "error_row (invalid (SCHOOL_CODE_POSITIVE 4)) = Some 4" by simp
  moreover have "length (roster_rows names records) = 2" using g(4) r(2) by simp
  ultimately show ?thesis using g(3) by blast
qed

end
