(* ===== verification/Upload_Store.thy ===== *)
theory Upload_Store
  imports Upload_Csv Core_Retry
begin

text \<open>
  \<^verbatim>\<open>phase2_uploads/retry.py\<close>, \<^verbatim>\<open>storage.py\<close>, \<^verbatim>\<open>repository.py\<close> and \<^verbatim>\<open>UploadService._write_csv\<close>. Uploaded files are kept under the
  digest of their bytes; a file is written to a part file that is renamed at the end. The storage maps
  digests to contents and counts the part files that were left behind; \<open>write_io\<close> says what goes wrong in an
  attempt. The chunks come from a generator, so that each may be an exception. SHA-256 is the
  function \<open>hex\<close>. The tables are a map of uploads by id and a list of active rosters; times are numbers.
\<close>

section \<open>retry\<close>

definition is_fatal :: "upload_exn \<Rightarrow> bool" where
  "is_fatal exc = (case exc of UploadError _ \<Rightarrow> True | _ \<Rightarrow> False)"

definition upload_delay :: "pyfloat \<Rightarrow> pyfloat \<Rightarrow> (pystr \<Rightarrow> int) \<Rightarrow> pystr \<Rightarrow> nat \<Rightarrow> pyfloat" where
  "upload_delay base cap digest8 seed attempt =
     (let delay = min cap (fmul base (2 ^ (attempt - 1)));
          fraction = fdiv (of_int (digest8 (seed @ 58 # py_str_int (int attempt)))) (2 ^ 64)
      in fmul delay fraction)"

text \<open>The result, the number of calls and the delays handed to \<open>sleep\<close>.\<close>

function upload_retry_loop ::
  "int \<Rightarrow> (nat \<Rightarrow> pyfloat) \<Rightarrow> (nat \<Rightarrow> upload_exn + 'a) \<Rightarrow> nat \<Rightarrow> pyfloat list
   \<Rightarrow> (upload_exn + 'a) \<times> nat \<times> pyfloat list" where
  "upload_retry_loop attempts delay outcome attempt sleeps =
     (case outcome attempt of
        Inr x \<Rightarrow> (Inr x, attempt, sleeps)
      | Inl exc \<Rightarrow>
          if is_fatal exc then (Inl exc, attempt, sleeps)
          else if int attempt \<ge> attempts then (Inl RetryError, attempt, sleeps)
          else upload_retry_loop attempts delay outcome (attempt + 1) (sleeps @ [delay attempt]))"
  by pat_completeness auto
termination
  by (relation "measure (\<lambda>(attempts, _, _, attempt, _). nat (attempts - int attempt))") auto

declare upload_retry_loop.simps [simp del]

definition upload_retry ::
  "int \<Rightarrow> (nat \<Rightarrow> pyfloat) \<Rightarrow> (nat \<Rightarrow> upload_exn + 'a) \<Rightarrow> (upload_exn + 'a) \<times> nat \<times> pyfloat list" where
  "upload_retry attempts delay outcome =
     (if attempts \<le> 0 then (Inl OtherError, 0, []) else upload_retry_loop attempts delay outcome 1 [])"

section \<open>Storage\<close>

record storage =
  st_files :: "pystr \<Rightarrow> bytes option"
  st_parts :: nat

datatype commit_fault = NoFault | BeforeReplace | AfterReplace

record write_io =
  wi_open :: bool
  wi_write :: "nat \<Rightarrow> bool"
  wi_commit :: commit_fault

text \<open>The loop of \<^verbatim>\<open>_write_csv\<close>; an error comes with the answer whether the part file was removed.\<close>

fun write_chunks ::
  "int \<Rightarrow> (nat \<Rightarrow> bool) \<Rightarrow> nat \<Rightarrow> (upload_exn + bytes) list \<Rightarrow> 8 word option \<Rightarrow> bytes
   \<Rightarrow> (upload_exn \<times> bool) + bytes" where
  "write_chunks limit io i [] last_byte written = Inr written"
| "write_chunks limit io i (Inl e # chunks) last_byte written = Inl (e, False)"
| "write_chunks limit io i (Inr chunk # chunks) last_byte written =
     (if int (length written + length chunk) > limit then Inl (UploadError UPLOAD_SIZE_EXCEEDED, True)
      else (case validate_crlf chunk last_byte of
              Inl e \<Rightarrow> Inl (e, False)
            | Inr last_byte \<Rightarrow>
                if io i then write_chunks limit io (i + 1) chunks last_byte (written @ chunk)
                else Inl (OtherError, False)))"

definition leave_part :: "storage \<Rightarrow> storage" where
  "leave_part st = st\<lparr>st_parts := st_parts st + 1\<rparr>"

definition storage_finalize :: "commit_fault \<Rightarrow> pystr \<Rightarrow> bytes \<Rightarrow> storage \<Rightarrow> (upload_exn + unit) \<times> storage" where
  "storage_finalize fault digest written st =
     (if st_files st digest \<noteq> None then (Inr (), st)
      else (case fault of
              NoFault \<Rightarrow> (Inr (), st\<lparr>st_files := (st_files st)(digest := Some written)\<rparr>)
            | BeforeReplace \<Rightarrow> (Inl OtherError, leave_part st)
            | AfterReplace \<Rightarrow> (Inl OtherError, st\<lparr>st_files := (st_files st)(digest := Some written)\<rparr>)))"

definition write_upload ::
  "int \<Rightarrow> (bytes \<Rightarrow> pystr) \<Rightarrow> (upload_exn + bytes) list \<Rightarrow> write_io \<Rightarrow> storage
   \<Rightarrow> (upload_exn + pystr \<times> nat) \<times> storage" where
  "write_upload limit hex chunks io st =
     (if \<not> wi_open io then (Inl OtherError, st)
      else (case write_chunks limit (wi_write io) 0 chunks None [] of
              Inl (e, removed) \<Rightarrow> (Inl e, if removed then st else leave_part st)
            | Inr written \<Rightarrow>
                (case storage_finalize (wi_commit io) (hex written) written st of
                   (Inl e, st) \<Rightarrow> (Inl e, st)
                 | (Inr _, st) \<Rightarrow> (Inr (hex written, length written), st))))"

definition store_upload ::
  "int \<Rightarrow> (nat \<Rightarrow> pyfloat) \<Rightarrow> int \<Rightarrow> (bytes \<Rightarrow> pystr) \<Rightarrow> (upload_exn + bytes) list \<Rightarrow> (nat \<Rightarrow> write_io) \<Rightarrow> storage
   \<Rightarrow> (upload_exn + pystr \<times> nat) \<times> storage" where
  "store_upload attempts delay limit hex chunks io st =
     (let step = (\<lambda>n. write_upload limit hex chunks (io n));
          r = upload_retry attempts delay (attempts_outcome step st)
      in (fst r, attempts_state step st (fst (snd r))))"

section \<open>The repository\<close>

datatype upload_status = pending_upload | ready_upload | active_upload

record UploadModel =
  um_id :: pystr
  um_profile :: pystr
  um_year :: int
  um_status :: upload_status
  um_sha256 :: "pystr option"
  um_record_count :: "nat option"
  um_size_bytes :: "nat option"
  um_manifest_path :: "pystr option"
  um_source_filename :: pystr
  um_namespace :: pystr
  um_created_at :: int
  um_updated_at :: int

record ActiveRoster =
  ar_year :: int
  ar_upload_id :: pystr
  ar_activated_at :: int

record upload_db =
  ud_uploads :: "pystr \<Rightarrow> UploadModel option"
  ud_rosters :: "ActiveRoster list"

datatype repo_error = NoSuchUpload | UploadNotReady | IntegrityError | CommitFailed

definition repo_get :: "pystr \<Rightarrow> upload_db \<Rightarrow> repo_error + UploadModel" where
  "repo_get upload_id db = (case ud_uploads db upload_id of None \<Rightarrow> Inl NoSuchUpload | Some m \<Rightarrow> Inr m)"

definition put_upload :: "UploadModel \<Rightarrow> upload_db \<Rightarrow> upload_db" where
  "put_upload m db = db\<lparr>ud_uploads := (ud_uploads db)(um_id m := Some m)\<rparr>"

definition create_upload ::
  "pystr \<Rightarrow> pystr \<Rightarrow> int \<Rightarrow> pystr \<Rightarrow> int \<Rightarrow> pystr \<Rightarrow> upload_db \<Rightarrow> repo_error + UploadModel \<times> upload_db" where
  "create_upload upload_id profile year namespace clock_now source_filename db =
     (if ud_uploads db upload_id \<noteq> None then Inl IntegrityError
      else
        let m = \<lparr>um_id = upload_id, um_profile = profile, um_year = year, um_status = pending_upload, um_sha256 = None,
                 um_record_count = None, um_size_bytes = None, um_manifest_path = None,
                 um_source_filename = source_filename, um_namespace = namespace, um_created_at = clock_now,
                 um_updated_at = clock_now\<rparr>
        in Inr (m, put_upload m db))"

definition update_manifest ::
  "pystr \<Rightarrow> pystr \<Rightarrow> nat \<Rightarrow> nat \<Rightarrow> pystr \<Rightarrow> int \<Rightarrow> upload_db \<Rightarrow> repo_error + UploadModel \<times> upload_db" where
  "update_manifest upload_id sha record_count size_bytes manifest_path clock_now db =
     (case ud_uploads db upload_id of
        None \<Rightarrow> Inl NoSuchUpload
      | Some m \<Rightarrow>
          let m = m\<lparr>um_sha256 := Some sha, um_record_count := Some record_count, um_size_bytes := Some size_bytes,
                    um_manifest_path := Some manifest_path, um_status := ready_upload, um_updated_at := clock_now\<rparr>
          in Inr (m, put_upload m db))"

definition repo_activate :: "pystr \<Rightarrow> int \<Rightarrow> upload_db \<Rightarrow> repo_error + UploadModel \<times> upload_db" where
  "repo_activate upload_id clock_now db =
     (case ud_uploads db upload_id of
        None \<Rightarrow> Inl NoSuchUpload
      | Some m \<Rightarrow>
          if um_status m \<noteq> ready_upload then Inl UploadNotReady
          else if list_ex (\<lambda>r. ar_year r = um_year m) (ud_rosters db) then Inl IntegrityError
          else
            let r = \<lparr>ar_year = um_year m, ar_upload_id = upload_id, ar_activated_at = clock_now\<rparr>;
                m = m\<lparr>um_status := active_upload, um_updated_at := clock_now\<rparr>
            in Inr (m, (put_upload m db)\<lparr>ud_rosters := ud_rosters db @ [r]\<rparr>))"

section \<open>The retry loop keeps the contract of retrying\<close>

lemma upload_retry_loop_shape:
  assumes "upload_retry_loop attempts delay outcome n sleeps = (res, calls, sleeps')" and "1 \<le> n" and "int n \<le> attempts"
  shows "n \<le> calls \<and> int calls \<le> attempts \<and>
    (\<forall>k. n \<le> k \<and> k < calls \<longrightarrow> (\<exists>e. outcome k = Inl e \<and> \<not> is_fatal e)) \<and>
    (\<forall>e. outcome calls = Inl e \<longrightarrow> \<not> is_fatal e \<longrightarrow> int calls = attempts) \<and>
    res = (case outcome calls of Inr x \<Rightarrow> Inr x | Inl e \<Rightarrow> if is_fatal e then Inl e else Inl RetryError) \<and>
    sleeps' = sleeps @ map delay [n..<calls]"
  using assms
proof (induction attempts delay outcome n sleeps rule: upload_retry_loop.induct)
  case (1 attempts delay outcome n sleeps)
  show ?case
  proof (cases "outcome n")
    case (Inl e)
    show ?thesis
    proof (cases "is_fatal e \<or> int n \<ge> attempts")
      case True
      have "upload_retry_loop attempts delay outcome n sleeps =
          (if is_fatal e then (Inl e, n, sleeps) else (Inl RetryError, n, sleeps))"
        using True Inl by (subst upload_retry_loop.simps) auto
      then have "calls = n" "sleeps' = sleeps" "res = (if is_fatal e then Inl e else Inl RetryError)"
        using 1(2) by (auto split: if_splits)
      then show ?thesis using 1(3,4) Inl True by auto
    next
      case False
      then have run: "upload_retry_loop attempts delay outcome (n + 1) (sleeps @ [delay n]) = (res, calls, sleeps')"
        using 1(2) Inl by (subst (asm) upload_retry_loop.simps) auto
      have IH: "n + 1 \<le> calls \<and> int calls \<le> attempts \<and>
          (\<forall>k. n + 1 \<le> k \<and> k < calls \<longrightarrow> (\<exists>e. outcome k = Inl e \<and> \<not> is_fatal e)) \<and>
          (\<forall>e. outcome calls = Inl e \<longrightarrow> \<not> is_fatal e \<longrightarrow> int calls = attempts) \<and>
          res = (case outcome calls of Inr x \<Rightarrow> Inr x | Inl e \<Rightarrow> if is_fatal e then Inl e else Inl RetryError) \<and>
          sleeps' = (sleeps @ [delay n]) @ map delay [n + 1..<calls]"
        using 1(1) [OF Inl _ _ run] False 1(3) by auto
      have "\<exists>e. outcome k = Inl e \<and> \<not> is_fatal e" if "n \<le> k" "k < calls" for k
        using that IH Inl False by (cases "k = n") auto
      then show ?thesis using IH by (simp add: upt_conv_Cons)
    qed
  next
    case (Inr x)
    then have "upload_retry_loop attempts delay outcome n sleeps = (Inr x, n, sleeps)"
      by (subst upload_retry_loop.simps) simp
    then have "calls = n" "sleeps' = sleeps" "res = Inr x" using 1(2) by auto
    then show ?thesis using 1(3,4) Inr by auto
  qed
qed

interpretation upload_retry: retrying
  "\<lambda>outcome. fst (snd (upload_retry attempts delay outcome))" attempts "\<lambda>e. \<not> is_fatal e"
  for attempts delay
proof
  fix outcome :: "nat \<Rightarrow> upload_exn + 'a"
  assume l: "1 \<le> attempts"
  obtain res calls sleeps where r: "upload_retry_loop attempts delay outcome 1 [] = (res, calls, sleeps)"
    by (cases "upload_retry_loop attempts delay outcome 1 []")
  have c: "fst (snd (upload_retry attempts delay outcome)) = calls" using l r by (simp add: upload_retry_def)
  show "1 \<le> fst (snd (upload_retry attempts delay outcome)) \<and> int (fst (snd (upload_retry attempts delay outcome))) \<le> attempts \<and>
      (\<forall>k. 1 \<le> k \<and> k < fst (snd (upload_retry attempts delay outcome)) \<longrightarrow> (\<exists>e. outcome k = Inl e \<and> \<not> is_fatal e)) \<and>
      (\<forall>e. outcome (fst (snd (upload_retry attempts delay outcome))) = Inl e \<longrightarrow> \<not> is_fatal e \<longrightarrow>
         int (fst (snd (upload_retry attempts delay outcome))) = attempts)"
    unfolding c using upload_retry_loop_shape [OF r] l by simp
qed

lemma upload_retry_result:
  assumes "1 \<le> attempts"
  shows "fst (upload_retry attempts delay outcome) =
    (case outcome (fst (snd (upload_retry attempts delay outcome))) of
       Inr x \<Rightarrow> Inr x | Inl e \<Rightarrow> if is_fatal e then Inl e else Inl RetryError)"
proof -
  obtain res calls sleeps where r: "upload_retry_loop attempts delay outcome 1 [] = (res, calls, sleeps)"
    by (cases "upload_retry_loop attempts delay outcome 1 []")
  show ?thesis using upload_retry_loop_shape [OF r] assms r by (simp add: upload_retry_def)
qed

section \<open>What an attempt leaves\<close>

definition content_addressed :: "(bytes \<Rightarrow> pystr) \<Rightarrow> storage \<Rightarrow> bool" where
  "content_addressed hex st \<longleftrightarrow> (\<forall>d c. st_files st d = Some c \<longrightarrow> hex c = d)"

text \<open>The bytes of the chunks, when none of them is an exception.\<close>

definition joined :: "(upload_exn + bytes) list \<Rightarrow> bytes" where
  "joined chunks = concat (map projr chunks)"

definition acceptable :: "int \<Rightarrow> (upload_exn + bytes) list \<Rightarrow> bool" where
  "acceptable limit chunks \<longleftrightarrow>
     (\<forall>c \<in> set chunks. \<not> isl c) \<and> crlf_only (joined chunks) \<and> int (length (joined chunks)) \<le> limit"

definition fault_free :: "write_io \<Rightarrow> bool" where
  "fault_free io \<longleftrightarrow> wi_open io \<and> (\<forall>n. wi_write io n) \<and> wi_commit io = NoFault"

text \<open>No file is changed or removed, and a new one holds \<open>data\<close> under its digest.\<close>

definition store_grown :: "(bytes \<Rightarrow> pystr) \<Rightarrow> bytes \<Rightarrow> storage \<Rightarrow> storage \<Rightarrow> bool" where
  "store_grown hex data st st' \<longleftrightarrow>
     st_files st' = st_files st \<or>
     st_files st (hex data) = None \<and> st_files st' = (st_files st)(hex data \<mapsto> data)"

lemma joined_simps [simp]: "joined [] = []" "joined (Inr c # chunks) = c @ joined chunks"
  by (simp_all add: joined_def)

lemma write_chunks_result:
  "write_chunks limit io i chunks p w = Inr out \<Longrightarrow>
   (\<forall>c \<in> set chunks. \<not> isl c) \<and> out = w @ joined chunks \<and> (chunks \<noteq> [] \<longrightarrow> int (length out) \<le> limit) \<and>
   (\<exists>q. validate_crlf (joined chunks) p = Inr q)"
proof (induction limit io i chunks p w rule: write_chunks.induct)
  case (3 limit io i chunk chunks p w)
  then obtain q where q: "validate_crlf chunk p = Inr q" and len: "int (length w + length chunk) \<le> limit"
    and io: "io i" and rest: "write_chunks limit io (i + 1) chunks q (w @ chunk) = Inr out"
    by (auto split: if_splits sum.splits)
  from len have "\<not> int (length w + length chunk) > limit" by simp
  from 3(1) [OF this q io rest] show ?case
    using q len by (cases chunks) (auto simp: validate_crlf_append)
qed auto

lemma write_chunks_accepts:
  "\<forall>c \<in> set chunks. \<not> isl c \<Longrightarrow> int (length w + length (joined chunks)) \<le> limit \<Longrightarrow>
   validate_crlf (joined chunks) p = Inr q \<Longrightarrow>
   write_chunks limit io i chunks p w = Inr (w @ joined chunks) \<and> (\<forall>n. io n) \<or>
   (\<not> (\<forall>n. io n) \<and> (\<forall>e b. write_chunks limit io i chunks p w = Inl (e, b) \<longrightarrow> e = OtherError))"
proof (induction limit io i chunks p w rule: write_chunks.induct)
  case (2 limit io i e chunks p w)
  then show ?case by simp
next
  case (3 limit io i chunk chunks p w)
  from 3(4) obtain r where r: "validate_crlf chunk p = Inr r" "validate_crlf (joined chunks) r = Inr q"
    by (cases "validate_crlf chunk p") (auto simp: validate_crlf_append)
  have len: "\<not> int (length w + length chunk) > limit" using 3(3) by simp
  show ?case
  proof (cases "io i")
    case True
    from 3(1) [OF len r(1) True _ _ r(2)] 3(2,3) show ?thesis using r len True by auto
  next
    case False
    then show ?thesis using r len by auto
  qed
qed auto

lemma store_grown_refl [simp]: "store_grown hex data st st" and store_grown_leave_part [simp]: "store_grown hex data st (leave_part st)"
  by (simp_all add: store_grown_def leave_part_def)

lemma store_grown_trans: "store_grown hex data st st' \<Longrightarrow> store_grown hex data st' st'' \<Longrightarrow> store_grown hex data st st''"
  by (auto simp: store_grown_def)

lemma storage_finalize_grown:
  "storage_finalize fault (hex data) data st = (r, st') \<Longrightarrow> store_grown hex data st st'"
  by (auto simp: storage_finalize_def store_grown_def leave_part_def split: if_splits commit_fault.splits)

lemma write_upload_grown:
  assumes "write_upload limit hex chunks io st = (r, st')"
  shows "store_grown hex (joined chunks) st st'"
  using assms write_chunks_result [of limit "wi_write io" 0 chunks None "[]"] storage_finalize_grown
  by (auto simp: write_upload_def split: if_splits sum.splits prod.splits)

lemma write_upload_result:
  assumes "write_upload limit hex chunks io st = (Inr (sha, n), st')" and "0 \<le> limit"
  shows "acceptable limit chunks \<and> sha = hex (joined chunks) \<and> n = length (joined chunks) \<and>
    st_files st' sha \<noteq> None"
proof -
  let ?d = "joined chunks"
  from assms(1) obtain w where w: "write_chunks limit (wi_write io) 0 chunks None [] = Inr w"
    and f: "storage_finalize (wi_commit io) (hex w) w st = (Inr (), st')" and r: "sha = hex w" "n = length w"
    by (auto simp: write_upload_def split: if_splits sum.splits prod.splits)
  note ok = write_chunks_result [OF w]
  then have "w = ?d" "crlf_only ?d" by (simp_all add: validate_crlf_iff [symmetric])
  moreover have "int (length ?d) \<le> limit" using ok assms(2) by (cases chunks) auto
  moreover have "st_files st' (hex w) \<noteq> None"
    using f by (auto simp: storage_finalize_def split: if_splits commit_fault.splits)
  ultimately show ?thesis using ok r by (simp add: acceptable_def)
qed

lemma write_upload_accepts:
  assumes "acceptable limit chunks"
  shows "(\<exists>x. fst (write_upload limit hex chunks io st) = Inr x) \<or>
    \<not> fault_free io \<and> fst (write_upload limit hex chunks io st) = Inl OtherError"
proof -
  obtain q where "validate_crlf (joined chunks) None = Inr q"
    using assms by (auto simp: acceptable_def validate_crlf_iff [symmetric])
  then show ?thesis
    using assms write_chunks_accepts [of chunks "[]" limit None q "wi_write io" 0]
    by (auto simp: acceptable_def write_upload_def fault_free_def storage_finalize_def
        split: if_splits sum.splits prod.splits commit_fault.splits)
qed

section \<open>Storing with retries\<close>

lemma content_addressed_grown:
  "content_addressed hex st \<Longrightarrow> store_grown hex data st st' \<Longrightarrow> content_addressed hex st'"
  by (auto simp: content_addressed_def store_grown_def split: if_splits)

definition store_calls ::
  "int \<Rightarrow> (nat \<Rightarrow> pyfloat) \<Rightarrow> int \<Rightarrow> (bytes \<Rightarrow> pystr) \<Rightarrow> (upload_exn + bytes) list \<Rightarrow> (nat \<Rightarrow> write_io) \<Rightarrow> storage \<Rightarrow> nat" where
  "store_calls attempts delay limit hex chunks io st =
     fst (snd (upload_retry attempts delay (attempts_outcome (\<lambda>n. write_upload limit hex chunks (io n)) st)))"

lemma store_upload_grown: "store_grown hex (joined chunks) st (snd (store_upload attempts delay limit hex chunks io st))"
proof -
  let ?step = "\<lambda>n. write_upload limit hex chunks (io n)"
  have "store_grown hex (joined chunks) st (snd (?step n s))" if "store_grown hex (joined chunks) st s" for n s
    using that write_upload_grown [of limit hex chunks "io n" s "fst (?step n s)" "snd (?step n s)"] store_grown_trans by simp
  then show ?thesis
    unfolding store_upload_def Let_def snd_conv by (intro attempts_state_inv [of "store_grown hex (joined chunks) st"]) simp_all
qed

lemma store_upload_last:
  assumes "1 \<le> attempts" and "store_upload attempts delay limit hex chunks io st = (r, st')"
  shows "\<exists>s0 o' n. write_upload limit hex chunks (io n) s0 = (o', st') \<and>
    r = (case o' of Inr x \<Rightarrow> Inr x | Inl e \<Rightarrow> if is_fatal e then Inl e else Inl RetryError)"
proof -
  let ?step = "\<lambda>n. write_upload limit hex chunks (io n)"
  from upload_retry.last_call [OF assms(1), where step = ?step and s = st and delay = delay]
  obtain s0 where s0: "?step (store_calls attempts delay limit hex chunks io st) s0 =
      (attempts_outcome ?step st (store_calls attempts delay limit hex chunks io st), st')"
    using assms(2) unfolding store_upload_def store_calls_def Let_def by auto
  moreover have "r = (case attempts_outcome ?step st (store_calls attempts delay limit hex chunks io st) of
      Inr x \<Rightarrow> Inr x | Inl e \<Rightarrow> if is_fatal e then Inl e else Inl RetryError)"
    using assms(2) upload_retry_result [OF assms(1), of delay "attempts_outcome ?step st"]
    unfolding store_upload_def store_calls_def Let_def by auto
  ultimately show ?thesis by blast
qed

lemma store_upload_accepts:
  assumes "acceptable limit chunks" and "1 \<le> n" and "int n \<le> attempts" and "fault_free (io n)"
    and "store_upload attempts delay limit hex chunks io st = (r, st')"
  shows "\<exists>x. r = Inr x"
proof (rule ccontr)
  let ?step = "\<lambda>n. write_upload limit hex chunks (io n)"
  let ?o = "attempts_outcome ?step st"
  let ?c = "fst (snd (upload_retry attempts delay ?o))"
  assume no: "\<nexists>x. r = Inr x"
  have l: "1 \<le> attempts" using assms(2,3) by linarith
  note law = upload_retry.calls_law [OF l, where outcome = ?o and delay = delay]
  have each: "(\<exists>x. ?o k = Inr x) \<or> \<not> fault_free (io k) \<and> ?o k = Inl OtherError" for k
    using write_upload_accepts [OF assms(1), of hex "io k"] by (simp add: attempts_outcome_def)
  have "r = (case ?o ?c of Inr x \<Rightarrow> Inr x | Inl e \<Rightarrow> if is_fatal e then Inl e else Inl RetryError)"
    using assms(5) upload_retry_result [OF l, of delay ?o] by (auto simp: store_upload_def Let_def)
  with no obtain e where e: "?o ?c = Inl e" by (cases "?o ?c") auto
  then have o: "?o ?c = Inl OtherError" using each [of ?c] by auto
  have "\<not> is_fatal OtherError" by (simp add: is_fatal_def)
  with law o have "int ?c = attempts" by blast
  with law o assms(2,3) have "\<exists>e. ?o n = Inl e" by (cases "n = ?c") force+
  then show False using each [of n] assms(4) by auto
qed

lemma store_upload_success:
  assumes "store_upload attempts delay limit hex chunks io st = (Inr (sha, n), st')" and "0 \<le> limit"
  shows "acceptable limit chunks \<and> sha = hex (joined chunks) \<and> n = length (joined chunks) \<and> st_files st' sha \<noteq> None"
proof -
  have "1 \<le> attempts"
    using assms(1) by (auto simp: store_upload_def upload_retry_def Let_def split: if_splits)
  from store_upload_last [OF this assms(1)] obtain s0 o' k where last: "write_upload limit hex chunks (io k) s0 = (o', st')"
    and r: "Inr (sha, n) = (case o' of Inr x \<Rightarrow> Inr x | Inl e \<Rightarrow> if is_fatal e then Inl e else Inl RetryError)"
    by blast
  from r have "o' = Inr (sha, n)" by (auto split: sum.splits if_splits)
  then show ?thesis using write_upload_result [OF _ assms(2)] last by blast
qed

text \<open>
  Files already stored are never changed, and the store stays addressed by content.
  When \<^verbatim>\<open>_write_csv\<close> under its retries returns, the chunks had no exception, their bytes have no bare
  line feed and are within the limit, the digest and the size returned are those of the bytes, and the file
  of that digest is there, with these bytes if it is new. When it fails, the error is an upload error or the
  one of spent retries. Bytes that are acceptable are stored whenever one of the allowed attempts meets no fault.
\<close>

theorem stored_upload_exact:
  assumes "content_addressed hex st" and "0 \<le> limit" and "1 \<le> attempts"
    and "store_upload attempts delay limit hex chunks io st = (r, st')"
  shows "content_addressed hex st' \<and>
    (\<forall>d. d \<noteq> hex (joined chunks) \<or> st_files st d \<noteq> None \<longrightarrow> st_files st' d = st_files st d) \<and>
    (case r of
       Inr (sha, n) \<Rightarrow> acceptable limit chunks \<and> sha = hex (joined chunks) \<and> n = length (joined chunks) \<and>
         st_files st' sha = (case st_files st sha of None \<Rightarrow> Some (joined chunks) | Some c \<Rightarrow> Some c)
     | Inl e \<Rightarrow> (\<exists>u. e = UploadError u) \<or> e = RetryError) \<and>
    (acceptable limit chunks \<and> (\<exists>n \<ge> 1. int n \<le> attempts \<and> fault_free (io n)) \<longrightarrow> (\<exists>x. r = Inr x))"
proof -
  have g: "store_grown hex (joined chunks) st st'"
    using store_upload_grown [of hex chunks st attempts delay limit io] assms(4) by simp
  obtain o' where r: "r = (case o' of Inr x \<Rightarrow> Inr x | Inl e \<Rightarrow> if is_fatal e then Inl e else Inl RetryError)"
    using store_upload_last [OF assms(3,4)] by blast
  have "case r of
       Inr (sha, n) \<Rightarrow> acceptable limit chunks \<and> sha = hex (joined chunks) \<and> n = length (joined chunks) \<and>
         st_files st' sha = (case st_files st sha of None \<Rightarrow> Some (joined chunks) | Some c \<Rightarrow> Some c)
     | Inl e \<Rightarrow> (\<exists>u. e = UploadError u) \<or> e = RetryError"
  proof (cases o')
    case (Inl e)
    then show ?thesis using r by (cases e) (auto simp: is_fatal_def)
  next
    case (Inr x)
    obtain sha m where x: "x = (sha, m)" by (cases x)
    have w: "acceptable limit chunks \<and> sha = hex (joined chunks) \<and> m = length (joined chunks) \<and> st_files st' sha \<noteq> None"
      using store_upload_success [OF _ assms(2)] assms(4) r Inr x by simp
    then have "st_files st' sha = (case st_files st sha of None \<Rightarrow> Some (joined chunks) | Some c \<Rightarrow> Some c)"
      using g by (auto simp: store_grown_def)
    then show ?thesis using r Inr x w by simp
  qed
  moreover have "\<exists>x. r = Inr x"
    if "acceptable limit chunks \<and> (\<exists>n \<ge> 1. int n \<le> attempts \<and> fault_free (io n))"
    using that store_upload_accepts [OF _ _ _ _ assms(4)] by blast
  moreover have "\<forall>d. d \<noteq> hex (joined chunks) \<or> st_files st d \<noteq> None \<longrightarrow> st_files st' d = st_files st d"
    using g by (auto simp: store_grown_def)
  ultimately show ?thesis using content_addressed_grown [OF assms(1) g] by blast
qed

definition sample_io :: write_io where
  "sample_io = \<lparr>wi_open = True, wi_write = (\<lambda>_. True), wi_commit = NoFault\<rparr>"

definition plain_hex :: "bytes \<Rightarrow> pystr" where
  "plain_hex data = map uint data"

theorem stored_upload_exact_witness:
  "st_files (snd (store_upload 3 (\<lambda>_. 0) 100 plain_hex [Inr [65, 13], Inr [10]]
     (\<lambda>n. if n = 1 then sample_io\<lparr>wi_commit := AfterReplace\<rparr> else sample_io) \<lparr>st_files = (\<lambda>_. None), st_parts = 0\<rparr>))
     [65, 13, 10] = Some [65, 13, 10]"
proof -
  let ?chunks = "[Inr [65, 13], Inr [10]] :: (upload_exn + bytes) list"
  let ?io = "\<lambda>n :: nat. if n = 1 then sample_io\<lparr>wi_commit := AfterReplace\<rparr> else sample_io"
  let ?st = "\<lparr>st_files = (\<lambda>_. None), st_parts = 0\<rparr> :: storage"
  let ?r = "store_upload 3 (\<lambda>_. 0) 100 plain_hex ?chunks ?io ?st"
  have "crlf_only ([65, 13, 10] :: bytes)" by (simp add: crlf_only_def nth_Cons' less_Suc_eq)
  then have a: "acceptable 100 ?chunks" by (simp add: acceptable_def)
  have "fault_free (?io 2)" by (simp add: fault_free_def sample_io_def)
  then have f: "\<exists>n \<ge> 1. int n \<le> 3 \<and> fault_free (?io n)" by (intro exI [of _ 2]) simp
  have c: "content_addressed plain_hex ?st" by (simp add: content_addressed_def)
  obtain r st' where rst: "?r = (r, st')" by (cases ?r)
  note ex = stored_upload_exact [OF c _ _ rst]
  then obtain x where x: "r = Inr x" using a f by (metis one_le_numeral zero_le_numeral)
  obtain sha n where "x = (sha, n)" by (cases x)
  then have "st_files st' [65, 13, 10] = Some [65, 13, 10]" using ex x by (auto simp: plain_hex_def)
  then show ?thesis using rst by simp
qed

text \<open>A line feed without its carriage return leaves the part file: only the size check removes it.\<close>

lemma bad_line_break_leaves_part:
  "wi_open io \<Longrightarrow> 0 < limit \<Longrightarrow>
   write_upload limit hex [Inr [10]] io st = (Inl (invalid CRLF_REQUIRED), leave_part st)"
  by (simp add: write_upload_def)

end
