(* ===== verification/Upload_Zip.thy ===== *)
theory Upload_Zip
  imports Upload_Csv PyFloat
begin

text \<open>
  \<^verbatim>\<open>phase2_uploads/zip_utils.py\<close>: the choice of the CSV member of an uploaded archive, with its checks of the
  number of members, the member's name and the compression ratio. The record \<open>zip_lib\<close> is the library \<^verbatim>\<open>zipfile\<close>:
  the entries of the directory of an archive, and what the reads of a member give. Windows drives are parsed as
  \<^verbatim>\<open>pathlib\<close> of Python 3.11 does, the version the project asks for.
\<close>

record ZipInfo =
  zi_filename :: pystr
  zi_file_size :: nat
  zi_compress_size :: nat

datatype zip_answer = BadZipFile | ZipFailed | ZipMembers "ZipInfo list"

record zip_lib =
  zl_infolist :: "bytes \<Rightarrow> zip_answer"
  zl_read :: "bytes \<Rightarrow> ZipInfo \<Rightarrow> (upload_exn + bytes) list"

definition MAX_MEMBERS :: nat where
  "MAX_MEMBERS = 10"

definition MAX_COMPRESSED_RATIO :: pyfloat where
  "MAX_COMPRESSED_RATIO = 50"

definition endswith :: "'a list \<Rightarrow> 'a list \<Rightarrow> bool" where
  "endswith s p \<longleftrightarrow> length p \<le> length s \<and> last_n (length p) s = p"

fun split_char :: "'a \<Rightarrow> 'a list \<Rightarrow> 'a list list" where
  "split_char sep [] = [[]]"
| "split_char sep (c # s) =
     (if c = sep then [] # split_char sep s
      else (case split_char sep s of [] \<Rightarrow> [[c]] | w # ws \<Rightarrow> (c # w) # ws))"

definition windows_drive :: "pystr \<Rightarrow> bool" where
  "windows_drive s \<longleftrightarrow>
     (case s of c # d # _ \<Rightarrow> d = 58 \<and> (65 \<le> c \<and> c \<le> 90 \<or> 97 \<le> c \<and> c \<le> 122) | _ \<Rightarrow> False)"

text \<open>
  The tests of the name: a leading slash or backslash makes it absolute for POSIX or a root or a network drive for
  Windows, so that the six tests of the code are these three.
\<close>

definition zip_traversal :: "pystr \<Rightarrow> bool" where
  "zip_traversal filename =
     (let normalized = replace_char 92 47 filename
      in startswith normalized [47] \<or> windows_drive filename \<or>
         list_ex (\<lambda>part. part = asc ''..'') (filter (\<lambda>part. part \<noteq> []) (split_char 47 normalized)))"

definition zip_bomb :: "ZipInfo \<Rightarrow> bool" where
  "zip_bomb info \<longleftrightarrow>
     zi_file_size info \<noteq> 0 \<and> zi_compress_size info \<noteq> 0 \<and>
     fdiv (of_nat (zi_file_size info)) (of_nat (max (zi_compress_size info) 1)) > MAX_COMPRESSED_RATIO"

definition select_csv_info :: "ucd \<Rightarrow> pystr option \<Rightarrow> ZipInfo list \<Rightarrow> upload_exn + ZipInfo" where
  "select_csv_info U expected_filename members =
     (if length members > MAX_MEMBERS then Inl (invalid ZIP_TOO_MANY_MEMBERS)
      else (case filter (\<lambda>info. endswith (u_lower U (zi_filename info)) (asc ''.csv'')) members of
              [] \<Rightarrow> Inl (invalid CSV_NOT_FOUND)
            | info # _ \<Rightarrow>
                if (case expected_filename of None \<Rightarrow> False | Some f \<Rightarrow> f \<noteq> [] \<and> zi_filename info \<noteq> f)
                then Inl (invalid ZIP_CHANGED)
                else if zip_traversal (zi_filename info) then Inl (invalid ZIP_TRAVERSAL)
                else if zip_bomb info then Inl (invalid ZIP_BOMB)
                else Inr info))"

text \<open>The loop over \<^verbatim>\<open>member.read\<close>: up to an empty answer, or an exception.\<close>

fun member_chunks :: "(upload_exn + bytes) list \<Rightarrow> (upload_exn + bytes) list" where
  "member_chunks [] = []"
| "member_chunks (Inl e # reads) = [Inl e]"
| "member_chunks (Inr chunk # reads) = (if chunk = [] then [] else Inr chunk # member_chunks reads)"

text \<open>\<^verbatim>\<open>ZipCSVStream.__iter__\<close> opens the archive and chooses the member again.\<close>

definition zip_csv_stream :: "ucd \<Rightarrow> zip_lib \<Rightarrow> pystr \<Rightarrow> bytes \<Rightarrow> (upload_exn + bytes) list" where
  "zip_csv_stream U Z filename data =
     (case zl_infolist Z data of
        ZipMembers members \<Rightarrow>
          (case select_csv_info U (Some filename) members of
             Inl e \<Rightarrow> [Inl e]
           | Inr info \<Rightarrow> member_chunks (zl_read Z data info))
      | _ \<Rightarrow> [Inl OtherError])"

definition iter_csv_from_zip :: "ucd \<Rightarrow> zip_lib \<Rightarrow> bytes \<Rightarrow> upload_exn + pystr \<times> (upload_exn + bytes) list" where
  "iter_csv_from_zip U Z data =
     (case zl_infolist Z data of
        BadZipFile \<Rightarrow> Inl (UploadError UPLOAD_FORMAT_UNSUPPORTED)
      | ZipFailed \<Rightarrow> Inl OtherError
      | ZipMembers members \<Rightarrow>
          rbind (select_csv_info U None members) (\<lambda>info.
            Inr (zi_filename info, zip_csv_stream U Z (zi_filename info) data)))"

declare windows_drive_def [py_defs] zip_traversal_def [py_defs] endswith_def [py_defs]

lemma split_char_id: "sep \<notin> set s \<Longrightarrow> split_char sep s = [s]"
  by (induction s) auto

section \<open>Names that stay inside a directory\<close>

text \<open>The directory reached from \<open>base\<close> by the parts of a relative name, as the system walks it.\<close>

fun walk :: "pystr list \<Rightarrow> pystr list \<Rightarrow> pystr list" where
  "walk base [] = base"
| "walk base (part # parts) =
     walk (if part = [] \<or> part = asc ''.'' then base
           else if part = asc ''..'' then butlast base else base @ [part]) parts"

lemma walk_extends: "asc ''..'' \<notin> set parts \<Longrightarrow> \<exists>rest. walk base parts = base @ rest"
proof (induction parts arbitrary: base)
  case (Cons part parts)
  then show ?case
    by (cases "part = [] \<or> part = asc ''.''") (auto dest: meta_spec [of _ base] meta_spec [of _ "base @ [part]"])
qed simp

lemma no_dots: "\<not> zip_traversal f \<Longrightarrow> asc ''..'' \<notin> set (split_char 47 (replace_char 92 47 f))"
  by (auto simp: zip_traversal_def list_ex_iff asc_def)

lemma select_csv_info_shape:
  assumes "select_csv_info U expected members = Inr info"
  shows "length members \<le> MAX_MEMBERS \<and> \<not> zip_traversal (zi_filename info) \<and> \<not> zip_bomb info \<and>
    find (\<lambda>i. endswith (u_lower U (zi_filename i)) (asc ''.csv'')) members = Some info \<and>
    (\<forall>f. expected = Some f \<longrightarrow> f = [] \<or> zi_filename info = f)"
proof -
  let ?p = "\<lambda>i. endswith (u_lower U (zi_filename i)) (asc ''.csv'')"
  have "find ?p members = (case filter ?p members of [] \<Rightarrow> None | i # _ \<Rightarrow> Some i)"
    by (induction members) auto
  then show ?thesis using assms
    by (auto simp: select_csv_info_def split: if_splits list.splits option.splits)
qed

lemma select_again:
  "select_csv_info U None members = Inr info \<Longrightarrow> select_csv_info U (Some (zi_filename info)) members = Inr info"
  by (auto simp: select_csv_info_def split: if_splits list.splits)

lemma not_bomb_ratio:
  assumes "\<not> zip_bomb info" and "zi_compress_size info \<noteq> 0"
  shows "fdiv (of_nat (zi_file_size info)) (of_nat (zi_compress_size info)) \<le> MAX_COMPRESSED_RATIO"
proof (cases "zi_file_size info = 0")
  case True
  then show ?thesis by (simp add: fdiv_def MAX_COMPRESSED_RATIO_def)
next
  case False
  have "max (zi_compress_size info) 1 = zi_compress_size info" using assms(2) by simp
  then show ?thesis using assms False by (simp add: zip_bomb_def not_less)
qed

text \<open>
  C36 zip_member_is_safe: when an archive is accepted, its member is the first one whose name ends in
  \<^verbatim>\<open>.csv\<close> in any case, there are at most ten members, the name has no drive, and from any directory it leads to a place
  below, whichever slash it uses; the double nearest to its ratio is at most fifty, and the stream that is
  read later chooses the same member.
\<close>

theorem zip_member_is_safe:
  assumes "zl_infolist Z data = ZipMembers members" and "iter_csv_from_zip U Z data = Inr (filename, chunks)"
  shows "\<exists>info. find (\<lambda>i. endswith (u_lower U (zi_filename i)) (asc ''.csv'')) members = Some info \<and>
    filename = zi_filename info \<and> length members \<le> 10 \<and> \<not> windows_drive filename \<and>
    \<not> startswith (replace_char 92 47 filename) [47] \<and>
    (\<forall>base. \<exists>rest. walk base (split_char 47 (replace_char 92 47 filename)) = base @ rest) \<and>
    (zi_compress_size info \<noteq> 0 \<longrightarrow>
      fdiv (of_nat (zi_file_size info)) (of_nat (zi_compress_size info)) \<le> 50) \<and>
    chunks = member_chunks (zl_read Z data info)"
proof -
  obtain info where s: "select_csv_info U None members = Inr info" and r: "filename = zi_filename info"
    "chunks = zip_csv_stream U Z filename data"
    using assms by (auto simp: iter_csv_from_zip_def elim: rbind.elims)
  note shape = select_csv_info_shape [OF s]
  have "chunks = member_chunks (zl_read Z data info)"
    using r select_again [OF s] assms(1) by (simp add: zip_csv_stream_def)
  moreover have "\<not> windows_drive filename \<and> \<not> startswith (replace_char 92 47 filename) [47]"
    using shape r by (simp add: zip_traversal_def Let_def)
  moreover have "\<forall>base. \<exists>rest. walk base (split_char 47 (replace_char 92 47 filename)) = base @ rest"
    using shape r no_dots walk_extends by blast
  ultimately show ?thesis
    using shape r not_bomb_ratio [of info] by (auto simp: MAX_MEMBERS_def MAX_COMPRESSED_RATIO_def)
qed

definition sample_zip :: zip_lib where
  "sample_zip = \<lparr>zl_infolist = (\<lambda>_. ZipMembers
       [\<lparr>zi_filename = asc ''notes.txt'', zi_file_size = 5, zi_compress_size = 7\<rparr>,
        \<lparr>zi_filename = asc ''lists/A.CSV'', zi_file_size = 400, zi_compress_size = 20\<rparr>]),
     zl_read = (\<lambda>_ _. [Inr [65, 13, 10], Inr []])\<rparr>"

theorem zip_member_is_safe_witness:
  "\<exists>rest. walk [asc ''tmp''] (split_char 47 (replace_char 92 47 (asc ''lists/A.CSV''))) = [asc ''tmp''] @ rest"
proof -
  let ?info = "\<lparr>zi_filename = asc ''lists/A.CSV'', zi_file_size = 400, zi_compress_size = 20\<rparr>"
  have z: "\<not> zip_traversal (asc ''lists/A.CSV'')" by (simp add: py_defs Let_def)
  have "fdiv 400 20 \<le> fdiv 50 1" by (rule fdiv_mono) simp
  moreover have "fdiv 50 1 = 50" by code_simp
  ultimately have b: "\<not> zip_bomb ?info" by (simp add: zip_bomb_def MAX_COMPRESSED_RATIO_def)
  have m: "zl_infolist sample_zip [] = ZipMembers
       [\<lparr>zi_filename = asc ''notes.txt'', zi_file_size = 5, zi_compress_size = 7\<rparr>, ?info]"
    by (simp add: sample_zip_def)
  have "select_csv_info ascii_ucd None
      [\<lparr>zi_filename = asc ''notes.txt'', zi_file_size = 5, zi_compress_size = 7\<rparr>, ?info] = Inr ?info"
    using z b by (simp add: select_csv_info_def MAX_MEMBERS_def py_defs)
  then have "iter_csv_from_zip ascii_ucd sample_zip [] =
      Inr (asc ''lists/A.CSV'', zip_csv_stream ascii_ucd sample_zip (asc ''lists/A.CSV'') [])"
    using m by (simp add: iter_csv_from_zip_def)
  from zip_member_is_safe [OF m this] show ?thesis by blast
qed

end
