(* ===== verification/Upload_Service.thy ===== *)
theory Upload_Service
  imports Upload_Store Upload_Zip
begin

text \<open>
  \<^verbatim>\<open>phase2_uploads/service.py\<close>: uploading and activating a roster. The state is what Redis, the storage, the
  database and the manifest directory hold. The record \<open>upload_world\<close> is what the surroundings give one
  upload: the faults of the file system, a new id, the time, and whether the transactions and the manifest
  succeed. Keys of Redis may expire at any time; \<open>uploads_run\<close> lets them change in any way between calls.
  The service reads an attribute \<^verbatim>\<open>idempotency_ttl_seconds\<close> of its configuration, which the class \<^verbatim>\<open>UploadsConfig\<close> of
  the repository does not have: \<open>service_config\<close> is any object with the fields of \<^verbatim>\<open>UploadsConfig\<close> that has the attribute
  or not, and \<open>shipped\<close> embeds the objects of the class itself, for which every upload raises an \<^verbatim>\<open>AttributeError\<close>.
  Metrics, logs and the part
  file of a manifest are left out. Paths are those of POSIX.
\<close>

section \<open>Configuration and context\<close>

record UploadsConfig =
  uc_base_dir :: pystr
  uc_storage_dir :: pystr
  uc_manifest_dir :: pystr
  uc_max_upload_bytes :: int
  uc_allowed_profiles :: "pystr list"
  uc_retry_attempts :: int
  uc_retry_base_delay :: pyfloat
  uc_retry_max_delay :: pyfloat
  uc_ui_preview_rows :: int
  uc_namespace :: pystr

text \<open>\<^verbatim>\<open>self.config\<close>: \<open>uc_ttl\<close> is its attribute \<^verbatim>\<open>idempotency_ttl_seconds\<close>, \<open>None\<close> when it has no such attribute.\<close>

record service_config = UploadsConfig +
  uc_ttl :: "int option"

definition shipped :: "UploadsConfig \<Rightarrow> service_config" where
  "shipped c = UploadsConfig.extend c (service_config.fields None)"

lemma shipped_ttl [simp]: "uc_ttl (shipped c) = None"
  by (simp add: shipped_def UploadsConfig.extend_def service_config.fields_def)

text \<open>\<^verbatim>\<open>DEFAULT_CONFIG\<close>; \<open>resolve\<close> is \<^verbatim>\<open>Path.resolve\<close>.\<close>

definition DEFAULT_CONFIG :: "(pystr \<Rightarrow> pystr) \<Rightarrow> UploadsConfig" where
  "DEFAULT_CONFIG resolve =
     \<lparr>uc_base_dir = resolve (asc ''./tmp/uploads''), uc_storage_dir = resolve (asc ''./tmp/uploads/storage''),
      uc_manifest_dir = resolve (asc ''./tmp/uploads/manifests''), uc_max_upload_bytes = 50 * 1024 * 1024,
      uc_allowed_profiles = [asc ''ROSTER_V1''], uc_retry_attempts = 3, uc_retry_base_delay = fdiv 5 100,
      uc_retry_max_delay = fdiv 6 10, uc_ui_preview_rows = 5, uc_namespace = asc ''default''\<rparr>"

record UploadContext =
  cx_profile :: pystr
  cx_year :: int
  cx_filename :: pystr
  cx_rid :: pystr
  cx_namespace :: pystr
  cx_idempotency_key :: pystr

record upload_lib =
  ul_ucd :: ucd
  ul_zip :: zip_lib
  ul_blocks :: "bytes \<Rightarrow> pystr list list"
  ul_sha256 :: "bytes \<Rightarrow> pystr"
  ul_digest8 :: "pystr \<Rightarrow> int"

record upload_world =
  uw_io :: "nat \<Rightarrow> write_io"
  uw_id :: pystr
  uw_created :: int
  uw_generated :: int
  uw_updated :: int
  uw_create :: bool
  uw_manifest :: bool
  uw_update :: bool

datatype source_format = csv_format | zip_format

record Manifest =
  mf_sha256 :: pystr
  mf_record_count :: nat
  mf_size_bytes :: nat
  mf_generated_at :: int
  mf_format :: source_format
  mf_content_type :: pystr
  mf_profile :: pystr
  mf_year :: int
  mf_source_filename :: pystr
  mf_rid :: pystr
  mf_namespace :: pystr
  mf_schema :: "pystr list"
  mf_preview :: "(pystr \<times> pystr) list list"

record upload_system =
  us_redis :: "pystr \<Rightarrow> pystr option"
  us_store :: storage
  us_db :: upload_db
  us_manifests :: "pystr \<Rightarrow> Manifest option"

section \<open>Reading\<close>

definition CHUNK_SIZE :: nat where
  "CHUNK_SIZE = 4 * 1024 * 1024"

text \<open>The answers of \<^verbatim>\<open>file_obj.read\<close>, up to an empty one.\<close>

fun read_stream :: "int \<Rightarrow> (upload_exn + bytes) list \<Rightarrow> bytes \<Rightarrow> upload_exn + bytes" where
  "read_stream limit [] data = Inr data"
| "read_stream limit (Inl e # reads) data = Inl e"
| "read_stream limit (Inr chunk # reads) data =
     (if chunk = [] then Inr data
      else let data = data @ chunk
           in if int (length data) > limit then Inl (UploadError UPLOAD_SIZE_EXCEEDED)
              else read_stream limit reads data)"

function iter_chunks :: "nat \<Rightarrow> bytes \<Rightarrow> bytes list" where
  "iter_chunks n data = (if data = [] \<or> n = 0 then [] else take n data # iter_chunks n (drop n data))"
  by pat_completeness auto
termination
  by (relation "measure (\<lambda>(_, data). length data)") auto

declare iter_chunks.simps [simp del]

definition detect_format :: "ucd \<Rightarrow> pystr \<Rightarrow> upload_exn + source_format" where
  "detect_format U filename =
     (let lower = u_lower U filename
      in if endswith lower (asc ''.csv'') then Inr csv_format
         else if endswith lower (asc ''.zip'') then Inr zip_format
         else Inl (UploadError UPLOAD_FORMAT_UNSUPPORTED))"

section \<open>The manifest\<close>

text \<open>A path is a root, empty for a relative path, and its parts; \<open>path_join\<close> is the operator \<open>/\<close>.\<close>

record posix_path =
  pp_root :: pystr
  pp_parts :: "pystr list"

definition parse_path :: "pystr \<Rightarrow> posix_path" where
  "parse_path s =
     \<lparr>pp_root = (if startswith s (asc ''//'') \<and> \<not> startswith s (asc ''///'') then asc ''//''
                 else if startswith s (asc ''/'') then asc ''/'' else []),
      pp_parts = filter (\<lambda>part. part \<noteq> [] \<and> part \<noteq> asc ''.'') (split_char 47 s)\<rparr>"

definition path_join :: "posix_path \<Rightarrow> pystr \<Rightarrow> posix_path" where
  "path_join p s =
     (let q = parse_path s in if pp_root q \<noteq> [] then q else p\<lparr>pp_parts := pp_parts p @ pp_parts q\<rparr>)"

fun join_path :: "pystr list \<Rightarrow> pystr" where
  "join_path [] = []"
| "join_path [w] = w"
| "join_path (w # ws) = w @ 47 # join_path ws"

definition path_str :: "posix_path \<Rightarrow> pystr" where
  "path_str p = (if pp_root p = [] \<and> pp_parts p = [] then asc ''.'' else pp_root p @ join_path (pp_parts p))"

definition manifest_path :: "service_config \<Rightarrow> UploadModel \<Rightarrow> posix_path" where
  "manifest_path cfg m =
     path_join (path_join (parse_path (uc_manifest_dir cfg)) (um_namespace m))
       (um_id m @ asc ''_upload_manifest.json'')"

definition create_manifest ::
  "UploadModel \<Rightarrow> pystr \<Rightarrow> nat \<Rightarrow> ValidationResult \<Rightarrow> UploadContext \<Rightarrow> source_format \<Rightarrow> int \<Rightarrow> Manifest" where
  "create_manifest m sha size_bytes v ctx fmt generated_at =
     \<lparr>mf_sha256 = sha, mf_record_count = vr_record_count v, mf_size_bytes = size_bytes, mf_generated_at = generated_at,
      mf_format = fmt, mf_content_type = asc ''text/csv'', mf_profile = um_profile m, mf_year = um_year m,
      mf_source_filename = um_source_filename m, mf_rid = cx_rid ctx, mf_namespace = cx_namespace ctx,
      mf_schema = vr_schema v, mf_preview = vr_preview_rows v\<rparr>"

section \<open>Idempotency keys\<close>

definition idem_key :: "service_config \<Rightarrow> UploadContext \<Rightarrow> pystr" where
  "idem_key cfg ctx =
     asc ''uploads:'' @ uc_namespace cfg @ asc '':'' @ cx_namespace ctx @ asc '':idem:'' @ cx_idempotency_key ctx"

definition activation_lock_key :: "service_config \<Rightarrow> int \<Rightarrow> pystr" where
  "activation_lock_key cfg year = asc ''uploads:'' @ uc_namespace cfg @ asc '':activate:'' @ py_str_int year"

text \<open>The id of a finished upload, if there is one, and the keys afterwards.\<close>

definition acquire_idempotency ::
  "service_config \<Rightarrow> UploadContext \<Rightarrow> (pystr \<Rightarrow> pystr option) \<Rightarrow> upload_exn + pystr option \<times> (pystr \<Rightarrow> pystr option)" where
  "acquire_idempotency cfg ctx redis =
     (case uc_ttl cfg of
        None \<Rightarrow> Inl AttributeError
      | Some ttl \<Rightarrow>
          (case redis (idem_key cfg ctx) of
             None \<Rightarrow> Inr (None, redis(idem_key cfg ctx \<mapsto> asc ''pending:'' @ cx_rid ctx))
           | Some decoded \<Rightarrow>
               if startswith decoded (asc ''upload:'') then Inr (Some (drop 7 decoded), redis)
               else Inl (UploadError UPLOAD_CONFLICT)))"

definition finalize_idempotency :: "service_config \<Rightarrow> UploadContext \<Rightarrow> pystr \<Rightarrow> upload_system \<Rightarrow> upload_system" where
  "finalize_idempotency cfg ctx upload_id sys =
     sys\<lparr>us_redis := (us_redis sys)(idem_key cfg ctx \<mapsto> asc ''upload:'' @ upload_id)\<rparr>"

section \<open>Upload\<close>

definition open_source ::
  "upload_lib \<Rightarrow> UploadContext \<Rightarrow> source_format \<Rightarrow> bytes \<Rightarrow> upload_exn + pystr \<times> (upload_exn + bytes) list" where
  "open_source L ctx fmt raw_bytes =
     (case fmt of
        zip_format \<Rightarrow> iter_csv_from_zip (ul_ucd L) (ul_zip L) raw_bytes
      | csv_format \<Rightarrow> Inr (cx_filename ctx, map Inr (iter_chunks CHUNK_SIZE raw_bytes)))"

definition retry_seed :: "UploadContext \<Rightarrow> pystr" where
  "retry_seed ctx = cx_namespace ctx @ asc '':'' @ cx_rid ctx @ asc '':'' @ cx_idempotency_key ctx"

text \<open>After the file is stored: the record, the check of the file, the manifest and its registration.\<close>

definition register_upload ::
  "upload_lib \<Rightarrow> service_config \<Rightarrow> upload_world \<Rightarrow> UploadContext \<Rightarrow> source_format \<Rightarrow> pystr \<Rightarrow> pystr \<Rightarrow> nat \<Rightarrow> upload_system
   \<Rightarrow> (upload_exn + UploadModel) \<times> upload_system" where
  "register_upload L cfg w ctx fmt filename sha size_bytes sys =
     (case (if uw_create w
            then create_upload (uw_id w) (cx_profile ctx) (cx_year ctx) (cx_namespace ctx) (uw_created w) filename (us_db sys)
            else Inl CommitFailed) of
        Inl _ \<Rightarrow> (Inl OtherError, sys)
      | Inr (m, db) \<Rightarrow>
          let sys = sys\<lparr>us_db := db\<rparr>
          in case st_files (us_store sys) sha of
               None \<Rightarrow> (Inl OtherError, sys)
             | Some content \<Rightarrow>
                 (case validate (ul_ucd L) (uc_ui_preview_rows cfg) (ul_blocks L) content of
                    Inl e \<Rightarrow> (Inl e, sys)
                  | Inr v \<Rightarrow>
                      if \<not> uw_manifest w then (Inl OtherError, sys)
                      else
                        let path = path_str (manifest_path cfg m);
                            sys = sys\<lparr>us_manifests := (us_manifests sys)
                              (path \<mapsto> create_manifest m sha size_bytes v ctx fmt (uw_generated w))\<rparr>
                        in case (if uw_update w
                                 then update_manifest (um_id m) sha (vr_record_count v) size_bytes path (uw_updated w) (us_db sys)
                                 else Inl CommitFailed) of
                             Inl _ \<Rightarrow> (Inl OtherError, sys)
                           | Inr (updated, db) \<Rightarrow>
                               (Inr updated, finalize_idempotency cfg ctx (um_id updated) (sys\<lparr>us_db := db\<rparr>))))"

definition upload_body ::
  "upload_lib \<Rightarrow> service_config \<Rightarrow> upload_world \<Rightarrow> UploadContext \<Rightarrow> source_format \<Rightarrow> (upload_exn + bytes) list \<Rightarrow> upload_system
   \<Rightarrow> (upload_exn + UploadModel) \<times> upload_system" where
  "upload_body L cfg w ctx fmt reads sys =
     (case rbind (read_stream (uc_max_upload_bytes cfg) reads []) (open_source L ctx fmt) of
        Inl e \<Rightarrow> (Inl e, sys)
      | Inr (filename, chunks) \<Rightarrow>
          (case store_upload (uc_retry_attempts cfg)
                  (upload_delay (uc_retry_base_delay cfg) (uc_retry_max_delay cfg) (ul_digest8 L) (retry_seed ctx))
                  (uc_max_upload_bytes cfg) (ul_sha256 L) chunks (uw_io w) (us_store sys) of
             (Inl e, st) \<Rightarrow> (Inl e, sys\<lparr>us_store := st\<rparr>)
           | (Inr (sha, size_bytes), st) \<Rightarrow>
               register_upload L cfg w ctx fmt filename sha size_bytes (sys\<lparr>us_store := st\<rparr>)))"

text \<open>The two \<^verbatim>\<open>except\<close> branches.\<close>

definition caught :: "upload_exn \<Rightarrow> upload_exn" where
  "caught exc = (case exc of UploadError u \<Rightarrow> UploadError u | _ \<Rightarrow> UploadError UPLOAD_INTERNAL_ERROR)"

definition upload ::
  "upload_lib \<Rightarrow> service_config \<Rightarrow> upload_world \<Rightarrow> UploadContext \<Rightarrow> (upload_exn + bytes) list \<Rightarrow> upload_system
   \<Rightarrow> (upload_exn + UploadModel) \<times> upload_system" where
  "upload L cfg w ctx reads sys =
     (case detect_format (ul_ucd L) (cx_filename ctx) of
        Inl e \<Rightarrow> (Inl e, sys)
      | Inr fmt \<Rightarrow>
          (case acquire_idempotency cfg ctx (us_redis sys) of
             Inl e \<Rightarrow> (Inl e, sys)
           | Inr (existing_id, redis) \<Rightarrow>
               (case existing_id of
                  Some (c # cs) \<Rightarrow>
                    (case repo_get (c # cs) (us_db sys) of Inl _ \<Rightarrow> (Inl KeyError, sys) | Inr m \<Rightarrow> (Inr m, sys))
                | _ \<Rightarrow>
                    (case upload_body L cfg w ctx fmt reads (sys\<lparr>us_redis := redis\<rparr>) of
                       (Inr m, sys) \<Rightarrow> (Inr m, sys)
                     | (Inl exc, sys) \<Rightarrow>
                         (Inl (caught exc), sys\<lparr>us_redis := (us_redis sys)(idem_key cfg ctx := None)\<rparr>)))))"

section \<open>Activation\<close>

definition get_upload :: "pystr \<Rightarrow> upload_system \<Rightarrow> upload_exn + UploadModel" where
  "get_upload upload_id sys =
     (case repo_get upload_id (us_db sys) of Inl _ \<Rightarrow> Inl (UploadError UPLOAD_NOT_FOUND) | Inr m \<Rightarrow> Inr m)"

definition activate_error :: "repo_error \<Rightarrow> upload_exn" where
  "activate_error e =
     (case e of
        UploadNotReady \<Rightarrow> UploadError UPLOAD_ACTIVATION_CONFLICT
      | IntegrityError \<Rightarrow> UploadError UPLOAD_ACTIVATION_CONFLICT
      | _ \<Rightarrow> UploadError UPLOAD_INTERNAL_ERROR)"

definition activate ::
  "service_config \<Rightarrow> pystr \<Rightarrow> pystr \<Rightarrow> int \<Rightarrow> bool \<Rightarrow> upload_system \<Rightarrow> (upload_exn + UploadModel) \<times> upload_system" where
  "activate cfg upload_id rid clock_now commits sys =
     (case get_upload upload_id sys of
        Inl e \<Rightarrow> (Inl e, sys)
      | Inr m \<Rightarrow>
          let lock_key = activation_lock_key cfg (um_year m)
          in case uc_ttl cfg of
               None \<Rightarrow> (Inl AttributeError, sys)
             | Some ttl \<Rightarrow>
                 if us_redis sys lock_key \<noteq> None then (Inl (UploadError UPLOAD_ACTIVATION_CONFLICT), sys)
                 else
                   let sys = sys\<lparr>us_redis := (us_redis sys)(lock_key \<mapsto> rid)\<rparr>;
                       (r, sys) = (case (if commits then repo_activate upload_id clock_now (us_db sys) else Inl CommitFailed) of
                                     Inl e \<Rightarrow> (Inl (activate_error e), sys)
                                   | Inr (updated, db) \<Rightarrow> (Inr updated, sys\<lparr>us_db := db\<rparr>))
                   in (r, sys\<lparr>us_redis := (us_redis sys)(lock_key := None)\<rparr>))"

section \<open>Paths of manifests\<close>

definition uuid_like :: "pystr \<Rightarrow> bool" where
  "uuid_like s \<longleftrightarrow> s \<noteq> [] \<and> 47 \<notin> set s"

lemma join_path_snoc: "join_path (ps @ [w]) = (if ps = [] then w else join_path ps @ 47 # w)"
  by (induction ps rule: join_path.induct) auto

lemma takeWhile_seps: "\<forall>c \<in> set s. P c \<Longrightarrow> t = [] \<or> \<not> P (hd t) \<Longrightarrow> takeWhile P (s @ t) = s"
  by (induction s) (auto simp: takeWhile_eq_Nil_iff)

lemma parse_path_name:
  assumes "47 \<notin> set w" and "w \<noteq> []" and "w \<noteq> asc ''.''"
  shows "parse_path w = \<lparr>pp_root = [], pp_parts = [w]\<rparr>"
  using assms by (cases w) (auto simp: parse_path_def split_char_id startswith_def asc_def)

lemma manifest_path_parts:
  assumes "uuid_like (um_id m)"
  shows "manifest_path cfg m =
    (let p = path_join (parse_path (uc_manifest_dir cfg)) (um_namespace m)
     in p\<lparr>pp_parts := pp_parts p @ [um_id m @ asc ''_upload_manifest.json'']\<rparr>)"
proof -
  let ?w = "um_id m @ asc ''_upload_manifest.json''"
  have "47 \<notin> set ?w" "?w \<noteq> []" "?w \<noteq> asc ''.''"
    using assms by (auto simp: uuid_like_def asc_def append_eq_Cons_conv)
  then show ?thesis by (simp add: manifest_path_def path_join_def [of _ ?w] parse_path_name Let_def)
qed

lemma pp_root_last: "pp_root (path_join (parse_path d) s) = [] \<or> last (pp_root (path_join (parse_path d) s)) = 47"
  by (auto simp: path_join_def parse_path_def Let_def asc_def)

lemma path_str_name:
  assumes "uuid_like (um_id m)"
  shows "takeWhile (\<lambda>c. c \<noteq> 47) (rev (path_str (manifest_path cfg m))) = rev (um_id m @ asc ''_upload_manifest.json'')"
proof -
  let ?w = "um_id m @ asc ''_upload_manifest.json''" and ?p = "path_join (parse_path (uc_manifest_dir cfg)) (um_namespace m)"
  have s: "path_str (manifest_path cfg m) =
      (if pp_parts ?p = [] then pp_root ?p @ ?w else pp_root ?p @ join_path (pp_parts ?p) @ 47 # ?w)"
    by (simp add: manifest_path_parts [OF assms] path_str_def Let_def join_path_snoc)
  have w: "\<forall>c \<in> set (rev ?w). c \<noteq> 47" using assms by (auto simp: uuid_like_def asc_def)
  have "takeWhile (\<lambda>c. c \<noteq> 47) (rev ?w @ rev (pp_root ?p)) = rev ?w"
    using takeWhile_seps [OF w, of "rev (pp_root ?p)"] pp_root_last [of "uc_manifest_dir cfg" "um_namespace m"]
    by (auto simp: hd_rev)
  moreover have "takeWhile (\<lambda>c. c \<noteq> 47) (rev ?w @ 47 # xs) = rev ?w" for xs
    using takeWhile_seps [OF w, of "47 # xs"] by simp
  ultimately show ?thesis by (simp add: s)
qed

lemma manifest_paths_differ:
  assumes "uuid_like (um_id m)" and "uuid_like (um_id n)"
    and "path_str (manifest_path cfg m) = path_str (manifest_path cfg n)"
  shows "um_id m = um_id n"
  using path_str_name [OF assms(1), of cfg] path_str_name [OF assms(2), of cfg] assms(3) by simp

section \<open>The invariant of the uploads\<close>

definition complete_upload :: "upload_lib \<Rightarrow> service_config \<Rightarrow> upload_system \<Rightarrow> UploadModel \<Rightarrow> bool" where
  "complete_upload L cfg sys m \<longleftrightarrow>
     (\<exists>sha content v size_bytes mf.
        um_sha256 m = Some sha \<and> st_files (us_store sys) sha = Some content \<and>
        validate (ul_ucd L) (uc_ui_preview_rows cfg) (ul_blocks L) content = Inr v \<and>
        um_record_count m = Some (vr_record_count v) \<and>
        um_size_bytes m = Some size_bytes \<and> int size_bytes \<le> uc_max_upload_bytes cfg \<and>
        um_manifest_path m = Some (path_str (manifest_path cfg m)) \<and>
        us_manifests sys (path_str (manifest_path cfg m)) = Some mf \<and>
        mf_sha256 mf = sha \<and> mf_size_bytes mf = size_bytes \<and> mf_record_count mf = vr_record_count v \<and>
        mf_schema mf = vr_schema v \<and> mf_year mf = um_year m \<and> mf_profile mf = um_profile m)"

definition uploads_ok :: "upload_lib \<Rightarrow> service_config \<Rightarrow> upload_system \<Rightarrow> bool" where
  "uploads_ok L cfg sys \<longleftrightarrow>
     content_addressed (ul_sha256 L) (us_store sys) \<and>
     (\<forall>i m. ud_uploads (us_db sys) i = Some m \<longrightarrow>
        um_id m = i \<and> uuid_like i \<and> (um_status m \<noteq> pending_upload \<longrightarrow> complete_upload L cfg sys m)) \<and>
     distinct (map ar_year (ud_rosters (us_db sys))) \<and>
     (\<forall>r \<in> set (ud_rosters (us_db sys)). \<exists>m. ud_uploads (us_db sys) (ar_upload_id r) = Some m \<and>
        um_status m = active_upload \<and> um_year m = ar_year r) \<and>
     (\<forall>i m. ud_uploads (us_db sys) i = Some m \<longrightarrow> um_status m = active_upload \<longrightarrow>
        (\<exists>r \<in> set (ud_rosters (us_db sys)). ar_upload_id r = i \<and> ar_year r = um_year m))"

definition empty_system :: upload_system where
  "empty_system = \<lparr>us_redis = (\<lambda>_. None), us_store = \<lparr>st_files = (\<lambda>_. None), st_parts = 0\<rparr>,
     us_db = \<lparr>ud_uploads = (\<lambda>_. None), ud_rosters = []\<rparr>, us_manifests = (\<lambda>_. None)\<rparr>"

lemma uploads_ok_empty: "uploads_ok L cfg empty_system"
  by (simp add: uploads_ok_def empty_system_def content_addressed_def)

lemma uploads_ok_redis [simp]: "uploads_ok L cfg (sys\<lparr>us_redis := redis\<rparr>) = uploads_ok L cfg sys"
  by (simp add: uploads_ok_def complete_upload_def)

lemma complete_upload_kept:
  assumes "complete_upload L cfg sys m"
    and "\<And>d c. st_files (us_store sys) d = Some c \<Longrightarrow> st_files (us_store sys') d = Some c"
    and "us_manifests sys' (path_str (manifest_path cfg m)) = us_manifests sys (path_str (manifest_path cfg m))"
  shows "complete_upload L cfg sys' m"
proof -
  from assms(1) obtain sha content v size_bytes mf where
    c: "um_sha256 m = Some sha" "st_files (us_store sys) sha = Some content"
      "validate (ul_ucd L) (uc_ui_preview_rows cfg) (ul_blocks L) content = Inr v"
      "um_record_count m = Some (vr_record_count v)" "um_size_bytes m = Some size_bytes"
      "int size_bytes \<le> uc_max_upload_bytes cfg" "um_manifest_path m = Some (path_str (manifest_path cfg m))"
      "us_manifests sys (path_str (manifest_path cfg m)) = Some mf"
      "mf_sha256 mf = sha" "mf_size_bytes mf = size_bytes" "mf_record_count mf = vr_record_count v"
      "mf_schema mf = vr_schema v" "mf_year mf = um_year m" "mf_profile mf = um_profile m"
    unfolding complete_upload_def by blast
  show ?thesis
    unfolding complete_upload_def
    by (rule exI [of _ sha], rule exI [of _ content], rule exI [of _ v], rule exI [of _ size_bytes], rule exI [of _ mf])
      (use c assms(2) [OF c(2)] assms(3) in simp)
qed

lemma uploads_ok_store:
  assumes "uploads_ok L cfg sys" and "store_grown (ul_sha256 L) data (us_store sys) st"
  shows "uploads_ok L cfg (sys\<lparr>us_store := st\<rparr>)"
proof -
  have kept: "st_files (us_store sys) d = Some c \<Longrightarrow> st_files st d = Some c" for d c
    using assms(2) by (auto simp: store_grown_def)
  have "complete_upload L cfg sys m \<Longrightarrow> complete_upload L cfg (sys\<lparr>us_store := st\<rparr>) m" for m
    using complete_upload_kept [of L cfg sys m "sys\<lparr>us_store := st\<rparr>"] kept by simp
  then show ?thesis
    using assms content_addressed_grown [of "ul_sha256 L" "us_store sys" data st] by (simp add: uploads_ok_def)
qed

text \<open>A record that is new or was not active is stored, as pending or ready.\<close>

lemma uploads_ok_put:
  assumes ok: "uploads_ok L cfg sys" and id: "uuid_like (um_id m)" and st: "um_status m \<noteq> active_upload"
    and old: "\<forall>m0. ud_uploads (us_db sys) (um_id m) = Some m0 \<longrightarrow> um_status m0 \<noteq> active_upload"
    and store: "us_store sys' = us_store sys" and db: "us_db sys' = put_upload m (us_db sys)"
    and mfs: "\<And>path. path \<noteq> path_str (manifest_path cfg m) \<Longrightarrow> us_manifests sys' path = us_manifests sys path"
    and c: "um_status m = ready_upload \<Longrightarrow> complete_upload L cfg sys' m"
  shows "uploads_ok L cfg sys'"
proof -
  have other: "complete_upload L cfg sys' n"
    if "ud_uploads (us_db sys) i = Some n" "i \<noteq> um_id m" "um_status n \<noteq> pending_upload" for i n
  proof -
    have n: "complete_upload L cfg sys n" "um_id n = i" "uuid_like i" using ok that by (auto simp: uploads_ok_def)
    then have "path_str (manifest_path cfg n) \<noteq> path_str (manifest_path cfg m)"
      using manifest_paths_differ [of n m cfg] id that(2) by auto
    then show ?thesis using complete_upload_kept [OF n(1), of sys'] store mfs by simp
  qed
  have "\<exists>n. ud_uploads (us_db sys') (ar_upload_id r) = Some n \<and> um_status n = active_upload \<and> um_year n = ar_year r"
    if "r \<in> set (ud_rosters (us_db sys))" for r
  proof -
    obtain n where n: "ud_uploads (us_db sys) (ar_upload_id r) = Some n" "um_status n = active_upload" "um_year n = ar_year r"
      using ok \<open>r \<in> _\<close> by (auto simp: uploads_ok_def)
    then have "ar_upload_id r \<noteq> um_id m" using old by auto
    then show ?thesis using n db by (simp add: put_upload_def)
  qed
  moreover have "um_status m \<noteq> pending_upload \<Longrightarrow> complete_upload L cfg sys' m" using c st by (cases "um_status m") auto
  ultimately show ?thesis
    using ok st id db store other by (auto simp: uploads_ok_def put_upload_def)
qed

section \<open>What one upload does\<close>

definition pending_record :: "upload_world \<Rightarrow> UploadContext \<Rightarrow> pystr \<Rightarrow> UploadModel" where
  "pending_record w ctx filename =
     \<lparr>um_id = uw_id w, um_profile = cx_profile ctx, um_year = cx_year ctx, um_status = pending_upload, um_sha256 = None,
      um_record_count = None, um_size_bytes = None, um_manifest_path = None, um_source_filename = filename,
      um_namespace = cx_namespace ctx, um_created_at = uw_created w, um_updated_at = uw_created w\<rparr>"

definition ready_record ::
  "service_config \<Rightarrow> upload_world \<Rightarrow> UploadContext \<Rightarrow> pystr \<Rightarrow> pystr \<Rightarrow> nat \<Rightarrow> ValidationResult \<Rightarrow> UploadModel" where
  "ready_record cfg w ctx filename sha size_bytes v =
     (pending_record w ctx filename)\<lparr>um_sha256 := Some sha, um_record_count := Some (vr_record_count v),
        um_size_bytes := Some size_bytes,
        um_manifest_path := Some (path_str (manifest_path cfg (pending_record w ctx filename))),
        um_status := ready_upload, um_updated_at := uw_updated w\<rparr>"

lemma pending_record_simps [simp]:
  "um_id (pending_record w ctx f) = uw_id w" "um_status (pending_record w ctx f) = pending_upload"
  "um_id (ready_record cfg w ctx f sha n v) = uw_id w" "um_status (ready_record cfg w ctx f sha n v) = ready_upload"
  by (simp_all add: pending_record_def ready_record_def)

lemma manifest_path_ready [simp]:
  "manifest_path cfg (ready_record cfg' w ctx f sha n v) = manifest_path cfg (pending_record w ctx f)"
  by (simp add: manifest_path_def ready_record_def)

lemma create_upload_result:
  "create_upload (uw_id w) (cx_profile ctx) (cx_year ctx) (cx_namespace ctx) (uw_created w) f db = Inr (m, db') \<longleftrightarrow>
   ud_uploads db (uw_id w) = None \<and> m = pending_record w ctx f \<and> db' = put_upload m db"
  by (auto simp: create_upload_def pending_record_def Let_def)

lemma put_put: "um_id m = um_id n \<Longrightarrow> put_upload m (put_upload n db) = put_upload m db"
  by (simp add: put_upload_def)

definition registered ::
  "upload_lib \<Rightarrow> service_config \<Rightarrow> upload_world \<Rightarrow> UploadContext \<Rightarrow> source_format \<Rightarrow> pystr \<Rightarrow> pystr \<Rightarrow> nat \<Rightarrow> ValidationResult
   \<Rightarrow> upload_system \<Rightarrow> upload_system" where
  "registered L cfg w ctx fmt filename sha size_bytes v sys =
     finalize_idempotency cfg ctx (uw_id w)
       (sys\<lparr>us_manifests := (us_manifests sys)(path_str (manifest_path cfg (pending_record w ctx filename)) \<mapsto>
              create_manifest (pending_record w ctx filename) sha size_bytes v ctx fmt (uw_generated w)),
            us_db := put_upload (ready_record cfg w ctx filename sha size_bytes v) (us_db sys)\<rparr>)"

text \<open>How a registration can end: nothing done, a pending record left behind, or a ready record.\<close>

lemma register_upload_cases:
  assumes "register_upload L cfg w ctx fmt filename sha size_bytes sys = (r, sys')"
  shows "(\<exists>e. r = Inl e \<and> sys' = sys) \<or>
    (\<exists>e mfs. r = Inl e \<and> ud_uploads (us_db sys) (uw_id w) = None \<and>
       sys' = sys\<lparr>us_db := put_upload (pending_record w ctx filename) (us_db sys), us_manifests := mfs\<rparr> \<and>
       (\<forall>path. path \<noteq> path_str (manifest_path cfg (pending_record w ctx filename)) \<longrightarrow> mfs path = us_manifests sys path)) \<or>
    (\<exists>content v. r = Inr (ready_record cfg w ctx filename sha size_bytes v) \<and> ud_uploads (us_db sys) (uw_id w) = None \<and>
       st_files (us_store sys) sha = Some content \<and>
       validate (ul_ucd L) (uc_ui_preview_rows cfg) (ul_blocks L) content = Inr v \<and>
       sys' = registered L cfg w ctx fmt filename sha size_bytes v sys)"
proof (cases "if uw_create w
    then create_upload (uw_id w) (cx_profile ctx) (cx_year ctx) (cx_namespace ctx) (uw_created w) filename (us_db sys)
    else Inl CommitFailed")
  case (Inl e)
  then have "r = Inl OtherError" "sys' = sys" using assms by (auto simp: register_upload_def)
  then show ?thesis by blast
next
  case (Inr x)
  obtain m db where x: "x = (m, db)" by (cases x)
  have c: "ud_uploads (us_db sys) (uw_id w) = None" "m = pending_record w ctx filename" "db = put_upload m (us_db sys)"
    using Inr x by (auto simp: create_upload_result split: if_splits)
  let ?path = "path_str (manifest_path cfg m)"
  have left: ?thesis
    if "r = Inl e" "sys' = sys\<lparr>us_db := db, us_manifests := mfs\<rparr>" "\<And>path. path \<noteq> ?path \<Longrightarrow> mfs path = us_manifests sys path"
    for e mfs
    by (intro disjI2 disjI1 exI [of _ e] exI [of _ mfs]) (use that c in simp)
  have run: "register_upload L cfg w ctx fmt filename sha size_bytes sys =
      (let sys = sys\<lparr>us_db := db\<rparr>
       in case st_files (us_store sys) sha of
            None \<Rightarrow> (Inl OtherError, sys)
          | Some content \<Rightarrow>
              (case validate (ul_ucd L) (uc_ui_preview_rows cfg) (ul_blocks L) content of
                 Inl e \<Rightarrow> (Inl e, sys)
               | Inr v \<Rightarrow>
                   if \<not> uw_manifest w then (Inl OtherError, sys)
                   else
                     let sys = sys\<lparr>us_manifests := (us_manifests sys)
                           (?path \<mapsto> create_manifest m sha size_bytes v ctx fmt (uw_generated w))\<rparr>
                     in if \<not> uw_update w then (Inl OtherError, sys)
                        else (Inr (ready_record cfg w ctx filename sha size_bytes v),
                              registered L cfg w ctx fmt filename sha size_bytes v (sys\<lparr>us_db := us_db sys\<rparr>))))"
    unfolding register_upload_def Inr x
    by (simp add: c Let_def update_manifest_def ready_record_def registered_def put_upload_def finalize_idempotency_def
        split: option.split sum.split)
  show ?thesis
  proof (cases "st_files (us_store sys) sha")
    case None
    then show ?thesis using assms run by (intro left [of OtherError "us_manifests sys"]) (auto simp: Let_def)
  next
    case (Some content)
    show ?thesis
    proof (cases "validate (ul_ucd L) (uc_ui_preview_rows cfg) (ul_blocks L) content")
      case (Inl e)
      then show ?thesis using assms run Some by (intro left [of e "us_manifests sys"]) (auto simp: Let_def)
    next
      case (Inr v)
      let ?mfs = "(us_manifests sys)(?path \<mapsto> create_manifest m sha size_bytes v ctx fmt (uw_generated w))"
      consider "\<not> uw_manifest w" | "uw_manifest w" "\<not> uw_update w" | "uw_manifest w" "uw_update w" by blast
      then show ?thesis
      proof cases
        case 1
        then show ?thesis using assms run Some Inr by (intro left [of OtherError "us_manifests sys"]) (auto simp: Let_def)
      next
        case 2
        then show ?thesis using assms run Some Inr by (intro left [of OtherError ?mfs]) (auto simp: Let_def)
      next
        case 3
        have "r = Inr (ready_record cfg w ctx filename sha size_bytes v)"
          "sys' = registered L cfg w ctx fmt filename sha size_bytes v sys"
          using assms 3 c unfolding run
          by (simp_all add: Some Inr Let_def registered_def finalize_idempotency_def put_put)
        then show ?thesis using c Some Inr by blast
      qed
    qed
  qed
qed

abbreviation source_of ::
  "upload_lib \<Rightarrow> service_config \<Rightarrow> UploadContext \<Rightarrow> source_format \<Rightarrow> (upload_exn + bytes) list
   \<Rightarrow> upload_exn + pystr \<times> (upload_exn + bytes) list" where
  "source_of L cfg ctx fmt reads \<equiv> rbind (read_stream (uc_max_upload_bytes cfg) reads []) (open_source L ctx fmt)"

abbreviation delay_of :: "upload_lib \<Rightarrow> service_config \<Rightarrow> UploadContext \<Rightarrow> nat \<Rightarrow> pyfloat" where
  "delay_of L cfg ctx \<equiv>
     upload_delay (uc_retry_base_delay cfg) (uc_retry_max_delay cfg) (ul_digest8 L) (retry_seed ctx)"

lemma upload_body_cases:
  assumes "upload_body L cfg w ctx fmt reads sys = (r, sys')" and "0 \<le> uc_max_upload_bytes cfg"
  shows "\<exists>st data. store_grown (ul_sha256 L) data (us_store sys) st \<and>
    ((\<exists>e. r = Inl e \<and> sys' = sys\<lparr>us_store := st\<rparr>) \<or>
     (\<exists>filename chunks. source_of L cfg ctx fmt reads = Inr (filename, chunks) \<and>
        acceptable (uc_max_upload_bytes cfg) chunks \<and>
        register_upload L cfg w ctx fmt filename (ul_sha256 L (joined chunks)) (length (joined chunks))
          (sys\<lparr>us_store := st\<rparr>) = (r, sys')))"
proof (cases "source_of L cfg ctx fmt reads")
  case (Inl e)
  then have "r = Inl e" "sys' = sys\<lparr>us_store := us_store sys\<rparr>" using assms(1) by (auto simp: upload_body_def)
  then show ?thesis using store_grown_refl by blast
next
  case (Inr x)
  obtain filename chunks where x: "x = (filename, chunks)" by (cases x)
  obtain o' st where st: "store_upload (uc_retry_attempts cfg) (delay_of L cfg ctx) (uc_max_upload_bytes cfg)
      (ul_sha256 L) chunks (uw_io w) (us_store sys) = (o', st)"
    by (cases "store_upload (uc_retry_attempts cfg) (delay_of L cfg ctx) (uc_max_upload_bytes cfg)
      (ul_sha256 L) chunks (uw_io w) (us_store sys)")
  have g: "store_grown (ul_sha256 L) (joined chunks) (us_store sys) st"
    using store_upload_grown [of "ul_sha256 L" chunks "us_store sys"] st by (metis snd_conv)
  show ?thesis
  proof (cases o')
    case (Inl e)
    then have "r = Inl e" "sys' = sys\<lparr>us_store := st\<rparr>" using assms(1) Inr x st by (auto simp: upload_body_def)
    then show ?thesis using g by blast
  next
    case (Inr y)
    obtain sha n where y: "y = (sha, n)" by (cases y)
    have a: "acceptable (uc_max_upload_bytes cfg) chunks \<and> sha = ul_sha256 L (joined chunks) \<and> n = length (joined chunks)"
      using store_upload_success [OF _ assms(2)] st Inr y by blast
    then have "register_upload L cfg w ctx fmt filename (ul_sha256 L (joined chunks)) (length (joined chunks))
        (sys\<lparr>us_store := st\<rparr>) = (r, sys')"
      using assms(1) \<open>source_of L cfg ctx fmt reads = Inr x\<close> x st Inr y by (simp add: upload_body_def)
    then show ?thesis using g a \<open>source_of L cfg ctx fmt reads = Inr x\<close> x by blast
  qed
qed

text \<open>What a step may do to the invariant part: nothing but growing the store, or one record with its manifest.\<close>

lemma register_upload_ok:
  assumes ok: "uploads_ok L cfg sys" and id: "uuid_like (uw_id w)" and n: "int n \<le> uc_max_upload_bytes cfg"
    and run: "register_upload L cfg w ctx fmt filename sha n sys = (r, sys')"
  shows "uploads_ok L cfg sys'"
  using register_upload_cases [OF run]
proof (elim disjE exE conjE)
  fix e
  assume "sys' = sys"
  then show ?thesis using ok by simp
next
  fix e mfs
  assume "ud_uploads (us_db sys) (uw_id w) = None"
    and "sys' = sys\<lparr>us_db := put_upload (pending_record w ctx filename) (us_db sys), us_manifests := mfs\<rparr>"
    and "\<forall>path. path \<noteq> path_str (manifest_path cfg (pending_record w ctx filename)) \<longrightarrow> mfs path = us_manifests sys path"
  then show ?thesis using uploads_ok_put [OF ok, of "pending_record w ctx filename" sys'] id by simp
next
  fix content v
  let ?m = "ready_record cfg w ctx filename sha n v" and ?p = "pending_record w ctx filename"
  assume new: "ud_uploads (us_db sys) (uw_id w) = None" and content: "st_files (us_store sys) sha = Some content"
    and v: "validate (ul_ucd L) (uc_ui_preview_rows cfg) (ul_blocks L) content = Inr v"
    and sys': "sys' = registered L cfg w ctx fmt filename sha n v sys"
  let ?mf = "create_manifest ?p sha n v ctx fmt (uw_generated w)"
  have "complete_upload L cfg sys' ?m"
    unfolding complete_upload_def
    by (rule exI [of _ sha], rule exI [of _ content], rule exI [of _ v], rule exI [of _ n], rule exI [of _ ?mf])
      (use content v n in \<open>simp add: sys' registered_def finalize_idempotency_def ready_record_def
        create_manifest_def manifest_path_def\<close>)
  then show ?thesis
    using uploads_ok_put [OF ok, of ?m sys'] id new
    by (simp add: sys' registered_def finalize_idempotency_def)
qed

lemma upload_ok:
  assumes ok: "uploads_ok L cfg sys" and id: "uuid_like (uw_id w)" and lim: "0 \<le> uc_max_upload_bytes cfg"
    and run: "upload L cfg w ctx reads sys = (r, sys')"
  shows "uploads_ok L cfg sys'"
proof -
  have body: "uploads_ok L cfg s'"
    if "upload_body L cfg w ctx fmt reads (sys\<lparr>us_redis := redis\<rparr>) = (o', s')" for fmt redis o' s'
  proof -
    from upload_body_cases [OF that lim] obtain st data where g: "store_grown (ul_sha256 L) data (us_store sys) st"
      and c: "s' = sys\<lparr>us_redis := redis, us_store := st\<rparr> \<or>
        (\<exists>filename chunks. acceptable (uc_max_upload_bytes cfg) chunks \<and>
          register_upload L cfg w ctx fmt filename (ul_sha256 L (joined chunks)) (length (joined chunks))
            (sys\<lparr>us_redis := redis, us_store := st\<rparr>) = (o', s'))"
      by auto
    have "uploads_ok L cfg (sys\<lparr>us_redis := redis, us_store := st\<rparr>)"
      using uploads_ok_store [of L cfg "sys\<lparr>us_redis := redis\<rparr>" data st] ok g by simp
    then show ?thesis using c register_upload_ok [OF _ id] by (auto simp: acceptable_def)
  qed
  show ?thesis
  proof (cases "detect_format (ul_ucd L) (cx_filename ctx)")
    case (Inl e)
    then show ?thesis using run ok by (simp add: upload_def)
  next
    case (Inr fmt)
    show ?thesis
    proof (cases "acquire_idempotency cfg ctx (us_redis sys)")
      case (Inl e)
      then show ?thesis using run ok Inr by (simp add: upload_def)
    next
      case acq: (Inr x)
      obtain existing redis where x: "x = (existing, redis)" by (cases x)
      obtain o' s' where b: "upload_body L cfg w ctx fmt reads (sys\<lparr>us_redis := redis\<rparr>) = (o', s')"
        by (cases "upload_body L cfg w ctx fmt reads (sys\<lparr>us_redis := redis\<rparr>)")
      then show ?thesis
        using run ok Inr acq x body [OF b]
        by (auto simp: upload_def split: option.splits list.splits sum.splits)
    qed
  qed
qed

lemma activate_ok:
  assumes ok: "uploads_ok L cfg sys" and run: "activate cfg upload_id rid clock_now commits sys = (r, sys')"
  shows "uploads_ok L cfg sys'"
proof -
  have db: "uploads_ok L cfg (sys\<lparr>us_db := db\<rparr>)"
    if act: "repo_activate upload_id clock_now (us_db sys) = Inr (updated, db)" for updated db
  proof -
    from act obtain m where m: "ud_uploads (us_db sys) upload_id = Some m" "um_status m = ready_upload"
      and free: "\<not> list_ex (\<lambda>r. ar_year r = um_year m) (ud_rosters (us_db sys))"
      and u: "updated = m\<lparr>um_status := active_upload, um_updated_at := clock_now\<rparr>"
      and d: "db = (put_upload updated (us_db sys))\<lparr>ud_rosters := ud_rosters (us_db sys) @
        [\<lparr>ar_year = um_year m, ar_upload_id = upload_id, ar_activated_at = clock_now\<rparr>]\<rparr>"
      by (auto simp: repo_activate_def Let_def split: option.splits if_splits)
    have id: "um_id m = upload_id" "uuid_like upload_id" and c: "complete_upload L cfg sys m"
      using ok m by (auto simp: uploads_ok_def)
    have kept: "complete_upload L cfg (sys\<lparr>us_db := db'\<rparr>) n = complete_upload L cfg sys n" for n db'
      by (simp add: complete_upload_def)
    have "complete_upload L cfg sys updated" using c by (simp add: u complete_upload_def manifest_path_def)
    moreover have "ar_upload_id r \<noteq> upload_id" if "r \<in> set (ud_rosters (us_db sys))" for r
      using ok m that by (auto simp: uploads_ok_def)
    moreover have "um_year m \<notin> ar_year ` set (ud_rosters (us_db sys))" using free by (auto simp: list_ex_iff)
    ultimately show ?thesis
      using ok id m by (auto simp: uploads_ok_def kept d put_upload_def u)
  qed
  show ?thesis
    using run ok db
    by (auto simp: activate_def Let_def split: sum.splits option.splits if_splits prod.splits)
qed

section \<open>Runs\<close>

inductive uploads_run :: "upload_lib \<Rightarrow> service_config \<Rightarrow> upload_system \<Rightarrow> bool" for L cfg where
  start: "uploads_run L cfg empty_system"
| uploading: "uploads_run L cfg sys \<Longrightarrow> uuid_like (uw_id w) \<Longrightarrow> upload L cfg w ctx reads sys = (r, sys') \<Longrightarrow>
    uploads_run L cfg sys'"
| activating: "uploads_run L cfg sys \<Longrightarrow> activate cfg upload_id rid clock_now commits sys = (r, sys') \<Longrightarrow>
    uploads_run L cfg sys'"
| keys_change: "uploads_run L cfg sys \<Longrightarrow> uploads_run L cfg (sys\<lparr>us_redis := redis\<rparr>)"

text \<open>
  C16 uploads_invariant: after any sequence of uploads and activations, with any faults, keys that expire and
  calls that fail, every upload that is ready or active has its file in the store, the file passes the check,
  the record and the manifest on disk agree with it, and at most one upload is active for a year.
\<close>

theorem uploads_invariant:
  assumes "uploads_run L cfg sys" and "0 \<le> uc_max_upload_bytes cfg"
  shows "uploads_ok L cfg sys \<and>
    (\<forall>i j m n. ud_uploads (us_db sys) i = Some m \<and> ud_uploads (us_db sys) j = Some n \<and>
       um_status m = active_upload \<and> um_status n = active_upload \<and> um_year m = um_year n \<longrightarrow> i = j)"
proof
  show ok: "uploads_ok L cfg sys"
    using assms(1)
  proof induction
    case start
    show ?case by (rule uploads_ok_empty)
  next
    case (uploading sys w ctx reads r sys')
    then show ?case using upload_ok [OF _ _ assms(2)] by blast
  next
    case (activating sys upload_id rid clock_now commits r sys')
    then show ?case using activate_ok by blast
  next
    case (keys_change sys redis)
    then show ?case by simp
  qed
  show "\<forall>i j m n. ud_uploads (us_db sys) i = Some m \<and> ud_uploads (us_db sys) j = Some n \<and>
       um_status m = active_upload \<and> um_status n = active_upload \<and> um_year m = um_year n \<longrightarrow> i = j"
  proof (intro allI impI, elim conjE)
    fix i j m n
    assume m: "ud_uploads (us_db sys) i = Some m" "um_status m = active_upload"
      and n: "ud_uploads (us_db sys) j = Some n" "um_status n = active_upload" and y: "um_year m = um_year n"
    obtain r where r: "r \<in> set (ud_rosters (us_db sys))" "ar_upload_id r = i" "ar_year r = um_year m"
      using ok m unfolding uploads_ok_def by blast
    obtain q where q: "q \<in> set (ud_rosters (us_db sys))" "ar_upload_id q = j" "ar_year q = um_year n"
      using ok n unfolding uploads_ok_def by blast
    have "inj_on ar_year (set (ud_rosters (us_db sys)))"
      using ok by (simp add: uploads_ok_def distinct_map)
    then have "r = q" using inj_onD [of ar_year _ r q] r q y by simp
    then show "i = j" using r q by simp
  qed
qed

section \<open>The outcome of an upload\<close>

lemma idem_key_frame: "us_redis (finalize_idempotency cfg ctx i sys) = (us_redis sys)(idem_key cfg ctx \<mapsto> asc ''upload:'' @ i)"
  by (simp add: finalize_idempotency_def)

lemma upload_fresh:
  assumes "detect_format (ul_ucd L) (cx_filename ctx) = Inr fmt" and "uc_ttl cfg = Some ttl"
    and "us_redis sys (idem_key cfg ctx) = None"
  shows "upload L cfg w ctx reads sys =
    (case upload_body L cfg w ctx fmt reads
            (sys\<lparr>us_redis := (us_redis sys)(idem_key cfg ctx \<mapsto> asc ''pending:'' @ cx_rid ctx)\<rparr>) of
       (Inr m, sys) \<Rightarrow> (Inr m, sys)
     | (Inl exc, sys) \<Rightarrow> (Inl (caught exc), sys\<lparr>us_redis := (us_redis sys)(idem_key cfg ctx := None)\<rparr>))"
  using assms by (simp add: upload_def acquire_idempotency_def)

lemma caught_is_upload_error: "\<exists>u. caught e = UploadError u"
  by (cases e) (simp_all add: caught_def)

lemma upload_fresh_cases:
  assumes "detect_format (ul_ucd L) (cx_filename ctx) = Inr fmt" and "uc_ttl cfg = Some ttl"
    and "us_redis sys (idem_key cfg ctx) = None" and "0 \<le> uc_max_upload_bytes cfg"
    and "upload L cfg w ctx reads sys = (r, sys')"
  shows "(\<exists>e. r = Inl (caught e) \<and> us_redis sys' = (us_redis sys)(idem_key cfg ctx := None) \<and>
      (us_db sys' = us_db sys \<or> ud_uploads (us_db sys) (uw_id w) = None \<and>
        (\<exists>filename. us_db sys' = put_upload (pending_record w ctx filename) (us_db sys)))) \<or>
    (\<exists>filename chunks content v.
       r = Inr (ready_record cfg w ctx filename (ul_sha256 L (joined chunks)) (length (joined chunks)) v) \<and>
       source_of L cfg ctx fmt reads = Inr (filename, chunks) \<and> acceptable (uc_max_upload_bytes cfg) chunks \<and>
       st_files (us_store sys') (ul_sha256 L (joined chunks)) = Some content \<and>
       validate (ul_ucd L) (uc_ui_preview_rows cfg) (ul_blocks L) content = Inr v \<and>
       ud_uploads (us_db sys) (uw_id w) = None \<and>
       us_db sys' = put_upload (ready_record cfg w ctx filename (ul_sha256 L (joined chunks)) (length (joined chunks)) v)
         (us_db sys) \<and>
       us_redis sys' = (us_redis sys)(idem_key cfg ctx \<mapsto> asc ''upload:'' @ uw_id w))"
proof -
  let ?key = "idem_key cfg ctx"
  let ?sys = "sys\<lparr>us_redis := (us_redis sys)(?key \<mapsto> asc ''pending:'' @ cx_rid ctx)\<rparr>"
  obtain o' s' where b: "upload_body L cfg w ctx fmt reads ?sys = (o', s')"
    by (cases "upload_body L cfg w ctx fmt reads ?sys")
  note run = assms(5) [unfolded upload_fresh [OF assms(1-3)] b, simplified]
  have failed: ?thesis
    if "o' = Inl e" "us_redis s' = us_redis ?sys"
      "us_db s' = us_db sys \<or> ud_uploads (us_db sys) (uw_id w) = None \<and>
        (\<exists>filename. us_db s' = put_upload (pending_record w ctx filename) (us_db sys))" for e
    by (intro disjI1 exI [of _ e]) (use that run in auto)
  from upload_body_cases [OF b assms(4)] obtain st where
    "(\<exists>e. o' = Inl e \<and> s' = ?sys\<lparr>us_store := st\<rparr>) \<or>
     (\<exists>filename chunks. source_of L cfg ctx fmt reads = Inr (filename, chunks) \<and>
        acceptable (uc_max_upload_bytes cfg) chunks \<and>
        register_upload L cfg w ctx fmt filename (ul_sha256 L (joined chunks)) (length (joined chunks))
          (?sys\<lparr>us_store := st\<rparr>) = (o', s'))" by blast
  then show ?thesis
  proof (elim disjE exE conjE)
    fix e
    assume "o' = Inl e" and "s' = ?sys\<lparr>us_store := st\<rparr>"
    then show ?thesis by (intro failed [of e]) auto
  next
    fix filename chunks
    assume src: "source_of L cfg ctx fmt reads = Inr (filename, chunks)"
      and acc: "acceptable (uc_max_upload_bytes cfg) chunks"
      and reg: "register_upload L cfg w ctx fmt filename (ul_sha256 L (joined chunks)) (length (joined chunks))
          (?sys\<lparr>us_store := st\<rparr>) = (o', s')"
    from register_upload_cases [OF reg] show ?thesis
    proof (elim disjE exE conjE)
      fix e
      assume "o' = Inl e" and "s' = ?sys\<lparr>us_store := st\<rparr>"
      then show ?thesis by (intro failed [of e]) auto
    next
      fix e mfs
      assume "o' = Inl e" and "ud_uploads (us_db (?sys\<lparr>us_store := st\<rparr>)) (uw_id w) = None"
        and "s' = ?sys\<lparr>us_store := st,
          us_db := put_upload (pending_record w ctx filename) (us_db (?sys\<lparr>us_store := st\<rparr>)), us_manifests := mfs\<rparr>"
      then show ?thesis by (intro failed [of e]) auto
    next
      fix content v
      let ?m = "ready_record cfg w ctx filename (ul_sha256 L (joined chunks)) (length (joined chunks)) v"
      assume r: "o' = Inr ?m"
        and new: "ud_uploads (us_db (?sys\<lparr>us_store := st\<rparr>)) (uw_id w) = None"
        and c: "st_files (us_store (?sys\<lparr>us_store := st\<rparr>)) (ul_sha256 L (joined chunks)) = Some content"
        and v: "validate (ul_ucd L) (uc_ui_preview_rows cfg) (ul_blocks L) content = Inr v"
        and s': "s' = registered L cfg w ctx fmt filename (ul_sha256 L (joined chunks)) (length (joined chunks)) v
            (?sys\<lparr>us_store := st\<rparr>)"
      have "r = Inr ?m" "sys' = s'" using run r by auto
      moreover have "us_redis s' = (us_redis sys)(?key \<mapsto> asc ''upload:'' @ uw_id w)"
        "us_db s' = put_upload ?m (us_db sys)" "us_store s' = st"
        by (simp_all add: s' registered_def finalize_idempotency_def)
      ultimately show ?thesis
        using src acc new c v
        by (intro disjI2 exI [of _ filename] exI [of _ chunks] exI [of _ content] exI [of _ v]) simp
    qed
  qed
qed

lemma no_ttl_fails:
  "uc_ttl cfg = None \<Longrightarrow> detect_format (ul_ucd L) (cx_filename ctx) = Inr fmt \<Longrightarrow>
   upload L cfg w ctx reads sys = (Inl AttributeError, sys)"
  by (simp add: upload_def acquire_idempotency_def)

lemma upload_outcome_ttl:
  assumes "detect_format (ul_ucd L) (cx_filename ctx) = Inr fmt" and "uc_ttl cfg = Some ttl"
    and "us_redis sys (idem_key cfg ctx) = None" and "0 \<le> uc_max_upload_bytes cfg"
    and "upload L cfg w ctx reads sys = (r, sys')"
  shows "(\<forall>k. k \<noteq> idem_key cfg ctx \<longrightarrow> us_redis sys' k = us_redis sys k) \<and>
    ud_rosters (us_db sys') = ud_rosters (us_db sys) \<and>
    (\<forall>i. i \<noteq> uw_id w \<longrightarrow> ud_uploads (us_db sys') i = ud_uploads (us_db sys) i) \<and>
    (case r of
       Inr m \<Rightarrow> \<exists>filename chunks content v.
         source_of L cfg ctx fmt reads = Inr (filename, chunks) \<and> acceptable (uc_max_upload_bytes cfg) chunks \<and>
         st_files (us_store sys') (ul_sha256 L (joined chunks)) = Some content \<and>
         validate (ul_ucd L) (uc_ui_preview_rows cfg) (ul_blocks L) content = Inr v \<and>
         m = ready_record cfg w ctx filename (ul_sha256 L (joined chunks)) (length (joined chunks)) v \<and>
         ud_uploads (us_db sys) (uw_id w) = None \<and> ud_uploads (us_db sys') (uw_id w) = Some m \<and>
         us_redis sys' (idem_key cfg ctx) = Some (asc ''upload:'' @ uw_id w)
     | Inl e \<Rightarrow> (\<exists>u. e = UploadError u) \<and> us_redis sys' (idem_key cfg ctx) = None \<and>
         (ud_uploads (us_db sys') (uw_id w) = ud_uploads (us_db sys) (uw_id w) \<or>
          (\<exists>filename. ud_uploads (us_db sys') (uw_id w) = Some (pending_record w ctx filename))))"
  using upload_fresh_cases [OF assms]
proof (elim disjE exE conjE)
  fix e
  assume "r = Inl (caught e)" and "us_redis sys' = (us_redis sys)(idem_key cfg ctx := None)"
    and "us_db sys' = us_db sys"
  then show ?thesis using caught_is_upload_error [of e] by auto
next
  fix e filename
  assume "r = Inl (caught e)" and "us_redis sys' = (us_redis sys)(idem_key cfg ctx := None)"
    and "us_db sys' = put_upload (pending_record w ctx filename) (us_db sys)"
  then show ?thesis using caught_is_upload_error [of e] by (auto simp: put_upload_def)
next
  fix filename chunks content v
  let ?m = "ready_record cfg w ctx filename (ul_sha256 L (joined chunks)) (length (joined chunks)) v"
  assume r: "r = Inr ?m" and facts: "source_of L cfg ctx fmt reads = Inr (filename, chunks)"
      "acceptable (uc_max_upload_bytes cfg) chunks"
      "st_files (us_store sys') (ul_sha256 L (joined chunks)) = Some content"
      "validate (ul_ucd L) (uc_ui_preview_rows cfg) (ul_blocks L) content = Inr v"
      "ud_uploads (us_db sys) (uw_id w) = None"
    and db: "us_db sys' = put_upload ?m (us_db sys)"
    and redis: "us_redis sys' = (us_redis sys)(idem_key cfg ctx \<mapsto> asc ''upload:'' @ uw_id w)"
  have "case r of Inr m \<Rightarrow> \<exists>filename chunks content v.
         source_of L cfg ctx fmt reads = Inr (filename, chunks) \<and> acceptable (uc_max_upload_bytes cfg) chunks \<and>
         st_files (us_store sys') (ul_sha256 L (joined chunks)) = Some content \<and>
         validate (ul_ucd L) (uc_ui_preview_rows cfg) (ul_blocks L) content = Inr v \<and>
         m = ready_record cfg w ctx filename (ul_sha256 L (joined chunks)) (length (joined chunks)) v \<and>
         ud_uploads (us_db sys) (uw_id w) = None \<and> ud_uploads (us_db sys') (uw_id w) = Some m \<and>
         us_redis sys' (idem_key cfg ctx) = Some (asc ''upload:'' @ uw_id w) | Inl e \<Rightarrow> False"
    unfolding r sum.case
    by (rule exI [of _ filename], rule exI [of _ chunks], rule exI [of _ content], rule exI [of _ v])
      (use facts in \<open>simp add: db redis put_upload_def\<close>)
  then show ?thesis using r by (simp add: db redis put_upload_def)
qed

text \<open>
  C17 upload_outcome: what an upload of a supported format under a free idempotency key does, for any configuration with a
  limit that is not negative. With an object of the repository's own class \<^verbatim>\<open>UploadsConfig\<close>, and with any other that lacks
  \<^verbatim>\<open>idempotency_ttl_seconds\<close>, it raises an \<^verbatim>\<open>AttributeError\<close>, which is no upload error, and changes nothing.
  With a configuration that has the attribute it either gives the record of a checked file, which is
  ready and to which the key now leads, or an upload error after which the key is free again. Other keys, other
  uploads and the rosters are as before. When it fails, what can remain in the database is its own pending record.
\<close>

theorem upload_outcome:
  assumes "detect_format (ul_ucd L) (cx_filename ctx) = Inr fmt"
    and "us_redis sys (idem_key cfg ctx) = None" and "0 \<le> uc_max_upload_bytes cfg"
    and "upload L cfg w ctx reads sys = (r, sys')"
  shows "upload L (shipped c) w ctx reads sys = (Inl AttributeError, sys) \<and>
   (case uc_ttl cfg of
      None \<Rightarrow> r = Inl AttributeError \<and> sys' = sys
    | Some _ \<Rightarrow>
   (\<forall>k. k \<noteq> idem_key cfg ctx \<longrightarrow> us_redis sys' k = us_redis sys k) \<and>
       ud_rosters (us_db sys') = ud_rosters (us_db sys) \<and>
       (\<forall>i. i \<noteq> uw_id w \<longrightarrow> ud_uploads (us_db sys') i = ud_uploads (us_db sys) i) \<and>
       (case r of
          Inr m \<Rightarrow> \<exists>filename chunks content v.
            source_of L cfg ctx fmt reads = Inr (filename, chunks) \<and> acceptable (uc_max_upload_bytes cfg) chunks \<and>
            st_files (us_store sys') (ul_sha256 L (joined chunks)) = Some content \<and>
            validate (ul_ucd L) (uc_ui_preview_rows cfg) (ul_blocks L) content = Inr v \<and>
            m = ready_record cfg w ctx filename (ul_sha256 L (joined chunks)) (length (joined chunks)) v \<and>
            ud_uploads (us_db sys) (uw_id w) = None \<and> ud_uploads (us_db sys') (uw_id w) = Some m \<and>
            us_redis sys' (idem_key cfg ctx) = Some (asc ''upload:'' @ uw_id w)
        | Inl e \<Rightarrow> (\<exists>u. e = UploadError u) \<and> us_redis sys' (idem_key cfg ctx) = None \<and>
            (ud_uploads (us_db sys') (uw_id w) = ud_uploads (us_db sys) (uw_id w) \<or>
             (\<exists>filename. ud_uploads (us_db sys') (uw_id w) = Some (pending_record w ctx filename)))))"
proof (cases "uc_ttl cfg")
  case None
  then show ?thesis
    using assms(4) no_ttl_fails [OF None assms(1), of w reads sys] no_ttl_fails [OF shipped_ttl assms(1), of c w reads sys] by simp
next
  case (Some ttl)
  show ?thesis
    unfolding Some option.case
    by (rule conjI [OF no_ttl_fails [OF shipped_ttl assms(1)] upload_outcome_ttl [OF assms(1) Some assms(2-4)]])
qed

text \<open>
  An upload under a key that leads to a finished one returns the record of the finished one as it is
  now and changes nothing, whatever the new file holds and whatever name of a supported format it has. A key
  that is held by an upload in progress is a conflict.
\<close>

theorem upload_replay:
  assumes "detect_format (ul_ucd L) (cx_filename ctx) = Inr fmt" and "uc_ttl cfg = Some ttl"
    and "0 \<le> uc_max_upload_bytes cfg" and "uw_id w \<noteq> []"
    and "us_redis sys (idem_key cfg ctx) = None" and "upload L cfg w ctx reads sys = (Inr m, sys1)"
    and "detect_format (ul_ucd L) (cx_filename ctx') = Inr fmt'"
    and "cx_namespace ctx' = cx_namespace ctx" and "cx_idempotency_key ctx' = cx_idempotency_key ctx"
  shows "(us_redis sys2 (idem_key cfg ctx) = us_redis sys1 (idem_key cfg ctx) \<longrightarrow>
      upload L cfg w' ctx' reads' sys2 =
        (case ud_uploads (us_db sys2) (um_id m) of None \<Rightarrow> Inl KeyError | Some n \<Rightarrow> Inr n, sys2)) \<and>
    (us_redis sys2 (idem_key cfg ctx) = Some (asc ''pending:'' @ cx_rid ctx) \<longrightarrow>
      upload L cfg w' ctx' reads' sys2 = (Inl (UploadError UPLOAD_CONFLICT), sys2))"
proof -
  have key: "idem_key cfg ctx' = idem_key cfg ctx" using assms(8,9) by (simp add: idem_key_def)
  have m: "um_id m = uw_id w" "us_redis sys1 (idem_key cfg ctx) = Some (asc ''upload:'' @ uw_id w)"
    using upload_fresh_cases [OF assms(1,2,5,3,6)] by auto
  have "startswith (asc ''upload:'' @ uw_id w) (asc ''upload:'')" "drop 7 (asc ''upload:'' @ uw_id w) = uw_id w"
    by (simp_all add: startswith_def asc_def)
  moreover have "\<not> startswith (asc ''pending:'' @ cx_rid ctx) (asc ''upload:'')" by (simp add: startswith_def asc_def)
  ultimately show ?thesis
    using assms(2,4,7) m key
    by (auto simp: upload_def acquire_idempotency_def repo_get_def split: option.splits list.splits)
qed

section \<open>From the file to the record\<close>

lemma read_stream_ok:
  "\<forall>c \<in> set cs. c \<noteq> [] \<Longrightarrow> int (length (data @ concat cs)) \<le> limit \<Longrightarrow>
   read_stream limit (map Inr cs @ [Inr []]) data = Inr (data @ concat cs)"
  by (induction cs arbitrary: data) (auto simp: Let_def)

lemma concat_iter_chunks: "0 < n \<Longrightarrow> concat (iter_chunks n data) = data"
proof (induction n data rule: iter_chunks.induct)
  case (1 n data)
  then show ?case by (subst iter_chunks.simps) (cases "data = []", auto)
qed

lemma joined_map_Inr [simp]: "joined (map Inr cs) = concat cs"
  by (simp add: joined_def comp_def)

lemma good_upload:
  assumes "detect_format (ul_ucd L) (cx_filename ctx) = Inr csv_format" and "uc_ttl cfg = Some ttl"
    and "us_redis sys (idem_key cfg ctx) = None" and "ud_uploads (us_db sys) (uw_id w) = None"
    and "\<forall>c \<in> set cs. c \<noteq> []" and "int (length (concat cs)) \<le> uc_max_upload_bytes cfg" and "crlf_only (concat cs)"
    and "validate (ul_ucd L) (uc_ui_preview_rows cfg) (ul_blocks L) (concat cs) = Inr v"
    and "st_files (us_store sys) (ul_sha256 L (concat cs)) \<in> {None, Some (concat cs)}"
    and "1 \<le> n" and "int n \<le> uc_retry_attempts cfg" and "fault_free (uw_io w n)"
    and "uw_create w" and "uw_manifest w" and "uw_update w"
  shows "\<exists>st redis. st_files st (ul_sha256 L (concat cs)) = Some (concat cs) \<and>
    upload L cfg w ctx (map Inr cs @ [Inr []]) sys =
      (Inr (ready_record cfg w ctx (cx_filename ctx) (ul_sha256 L (concat cs)) (length (concat cs)) v),
       registered L cfg w ctx csv_format (cx_filename ctx) (ul_sha256 L (concat cs)) (length (concat cs)) v
         (sys\<lparr>us_redis := redis, us_store := st\<rparr>))"
proof -
  let ?data = "concat cs" and ?sha = "ul_sha256 L (concat cs)" and ?max = "uc_max_upload_bytes cfg"
  let ?chunks = "map Inr (iter_chunks CHUNK_SIZE (concat cs)) :: (upload_exn + bytes) list"
  let ?m = "ready_record cfg w ctx (cx_filename ctx) ?sha (length ?data) v"
  let ?key = "idem_key cfg ctx"
  let ?sys = "sys\<lparr>us_redis := (us_redis sys)(?key \<mapsto> asc ''pending:'' @ cx_rid ctx)\<rparr>"
  have j: "joined ?chunks = ?data" by (simp add: concat_iter_chunks CHUNK_SIZE_def)
  have acc: "acceptable ?max ?chunks" using assms(6,7) j by (auto simp: acceptable_def)
  have lim: "0 \<le> ?max" using assms(6) by linarith
  have src: "source_of L cfg ctx csv_format (map Inr cs @ [Inr []]) = Inr (cx_filename ctx, ?chunks)"
    using read_stream_ok [of cs "[]" ?max] assms(5,6) by (simp add: open_source_def)
  obtain r st where st: "store_upload (uc_retry_attempts cfg) (delay_of L cfg ctx) ?max (ul_sha256 L) ?chunks (uw_io w)
      (us_store sys) = (r, st)"
    by (cases "store_upload (uc_retry_attempts cfg) (delay_of L cfg ctx) ?max (ul_sha256 L) ?chunks (uw_io w) (us_store sys)")
  obtain d k where x: "r = Inr (d, k)" using store_upload_accepts [OF acc assms(10-12) st] by auto
  have r: "r = Inr (?sha, length ?data)" and s: "st_files st ?sha \<noteq> None"
    using store_upload_success [OF st [unfolded x] lim] x j by auto
  have g: "store_grown (ul_sha256 L) ?data (us_store sys) st"
    using store_upload_grown [of "ul_sha256 L" ?chunks "us_store sys"] st j by (metis snd_conv)
  have f: "st_files st ?sha = Some ?data" using g s assms(9) by (auto simp: store_grown_def)
  have "upload_body L cfg w ctx csv_format (map Inr cs @ [Inr []]) ?sys =
      register_upload L cfg w ctx csv_format (cx_filename ctx) ?sha (length ?data) (?sys\<lparr>us_store := st\<rparr>)"
    unfolding upload_body_def src using st r by simp
  also have "\<dots> = (Inr ?m, registered L cfg w ctx csv_format (cx_filename ctx) ?sha (length ?data) v (?sys\<lparr>us_store := st\<rparr>))"
    using assms(4,8,13-15) f
    by (simp add: register_upload_def create_upload_def update_manifest_def Let_def registered_def ready_record_def
        pending_record_def put_upload_def)
  finally have "upload L cfg w ctx (map Inr cs @ [Inr []]) sys =
      (Inr ?m, registered L cfg w ctx csv_format (cx_filename ctx) ?sha (length ?data) v (?sys\<lparr>us_store := st\<rparr>))"
    using upload_fresh [OF assms(1-3)] by simp
  then show ?thesis using f by blast
qed

text \<open>
  C34 roster_upload_succeeds: a CSV file within the limit, with no bare line feed and with contents the check
  accepts, sent when the id and the key are new, one of the allowed attempts to store it meets no fault and the
  transactions and the manifest succeed, is taken exactly when the configuration has \<^verbatim>\<open>idempotency_ttl_seconds\<close>:
  then the record is ready and carries the digest and the size of the
  bytes sent and the number of rows, the file and its manifest are in place, and the record is in the database.
  Without the attribute, as with every object of the repository's own class \<^verbatim>\<open>UploadsConfig\<close>, even this upload raises an
  \<^verbatim>\<open>AttributeError\<close> and leaves everything as it was.
\<close>

theorem roster_upload_succeeds:
  assumes "detect_format (ul_ucd L) (cx_filename ctx) = Inr csv_format"
    and "us_redis sys (idem_key cfg ctx) = None" and "ud_uploads (us_db sys) (uw_id w) = None"
    and "\<forall>c \<in> set cs. c \<noteq> []" and "int (length (concat cs)) \<le> uc_max_upload_bytes cfg" and "crlf_only (concat cs)"
    and "validate (ul_ucd L) (uc_ui_preview_rows cfg) (ul_blocks L) (concat cs) = Inr v"
    and "st_files (us_store sys) (ul_sha256 L (concat cs)) \<in> {None, Some (concat cs)}"
    and "1 \<le> n" and "int n \<le> uc_retry_attempts cfg" and "fault_free (uw_io w n)"
    and "uw_create w" and "uw_manifest w" and "uw_update w"
  shows "upload L (shipped c) w ctx (map Inr cs @ [Inr []]) sys = (Inl AttributeError, sys) \<and>
    (case uc_ttl cfg of
       None \<Rightarrow> upload L cfg w ctx (map Inr cs @ [Inr []]) sys = (Inl AttributeError, sys)
     | Some _ \<Rightarrow> \<exists>m sys'. upload L cfg w ctx (map Inr cs @ [Inr []]) sys = (Inr m, sys') \<and>
         m = ready_record cfg w ctx (cx_filename ctx) (ul_sha256 L (concat cs)) (length (concat cs)) v \<and>
         st_files (us_store sys') (ul_sha256 L (concat cs)) = Some (concat cs) \<and>
         us_manifests sys' (path_str (manifest_path cfg m)) =
           Some (create_manifest (pending_record w ctx (cx_filename ctx)) (ul_sha256 L (concat cs)) (length (concat cs)) v ctx
                   csv_format (uw_generated w)) \<and>
         ud_uploads (us_db sys') (uw_id w) = Some m)"
proof (cases "uc_ttl cfg")
  case None
  then show ?thesis using no_ttl_fails [OF None assms(1)] no_ttl_fails [OF shipped_ttl assms(1)] by simp
next
  case (Some ttl)
  obtain st redis where "st_files st (ul_sha256 L (concat cs)) = Some (concat cs)"
    "upload L cfg w ctx (map Inr cs @ [Inr []]) sys =
      (Inr (ready_record cfg w ctx (cx_filename ctx) (ul_sha256 L (concat cs)) (length (concat cs)) v),
       registered L cfg w ctx csv_format (cx_filename ctx) (ul_sha256 L (concat cs)) (length (concat cs)) v
         (sys\<lparr>us_redis := redis, us_store := st\<rparr>))"
    using good_upload [OF assms(1) Some assms(2-14)] by blast
  then show ?thesis
    using Some no_ttl_fails [OF shipped_ttl assms(1)] by (simp add: registered_def finalize_idempotency_def put_upload_def)
qed

section \<open>Witnesses and weak spots\<close>

definition sample_cfg :: service_config where
  "sample_cfg = \<lparr>uc_base_dir = asc ''/srv'', uc_storage_dir = asc ''/srv/uploads'', uc_manifest_dir = asc ''/srv/manifests'',
     uc_max_upload_bytes = 50 * 1024 * 1024, uc_allowed_profiles = [asc ''ROSTER_V1''], uc_retry_attempts = 3,
     uc_retry_base_delay = 1 / 20, uc_retry_max_delay = 3 / 5, uc_ui_preview_rows = 5,
     uc_namespace = asc ''default'', uc_ttl = Some 86400\<rparr>"

definition sample_upload_lib :: upload_lib where
  "sample_upload_lib = \<lparr>ul_ucd = ascii_ucd, ul_zip = sample_zip, ul_blocks = (\<lambda>_. []), ul_sha256 = plain_hex, ul_digest8 = (\<lambda>_. 0)\<rparr>"

definition sample_world :: upload_world where
  "sample_world = \<lparr>uw_io = (\<lambda>_. sample_io), uw_id = asc ''5f3c'', uw_created = 1, uw_generated = 2, uw_updated = 3,
     uw_create = True, uw_manifest = True, uw_update = True\<rparr>"

definition sample_ctx :: UploadContext where
  "sample_ctx = \<lparr>cx_profile = asc ''ROSTER_V1'', cx_year = 1403, cx_filename = asc ''Roster.CSV'', cx_rid = asc ''r1'',
     cx_namespace = asc ''tehran'', cx_idempotency_key = asc ''k1''\<rparr>"

lemma sample_roster_crlf: "crlf_only sample_roster"
proof -
  have "case validate_crlf sample_roster None of Inl _ \<Rightarrow> False | Inr _ \<Rightarrow> True" by code_simp
  then have "\<exists>p. validate_crlf sample_roster None = Inr p" by (auto split: sum.splits)
  then show ?thesis by (simp only: validate_crlf_iff)
qed

lemma sample_roster_valid: "\<exists>v. validate ascii_ucd 5 (\<lambda>_. []) sample_roster = Inr v \<and> vr_record_count v = 2"
proof -
  have "case validate ascii_ucd 5 (\<lambda>_. []) sample_roster of Inl _ \<Rightarrow> False | Inr r \<Rightarrow> vr_record_count r = 2" by code_simp
  then show ?thesis by (auto split: sum.splits)
qed

lemma sample_facts:
  "detect_format ascii_ucd (cx_filename sample_ctx) = Inr csv_format" "uc_ttl sample_cfg = Some 86400"
  "us_redis empty_system k = None" "ud_uploads (us_db empty_system) i = None" "st_files (us_store empty_system) d = None"
  "sample_roster \<noteq> []" "int (length sample_roster) \<le> uc_max_upload_bytes sample_cfg" "uuid_like (uw_id sample_world)"
  "fault_free (uw_io sample_world 1)"
  by (simp_all add: sample_ctx_def sample_cfg_def empty_system_def detect_format_def py_defs sample_roster_def byte_str_def
      uuid_like_def sample_world_def fault_free_def sample_io_def)

lemma sample_lib_simps [simp]:
  "ul_ucd sample_upload_lib = ascii_ucd" "ul_blocks sample_upload_lib = (\<lambda>_. [])" "ul_sha256 sample_upload_lib = plain_hex"
  "uc_ui_preview_rows sample_cfg = 5" "uc_retry_attempts sample_cfg = 3" "uw_create sample_world" "uw_manifest sample_world"
  "uw_update sample_world"
  by (simp_all add: sample_upload_lib_def sample_cfg_def sample_world_def)

theorem roster_upload_succeeds_witness:
  "upload sample_upload_lib (shipped (DEFAULT_CONFIG (\<lambda>p. p))) sample_world sample_ctx [Inr sample_roster, Inr []] empty_system =
     (Inl AttributeError, empty_system) \<and>
   (\<exists>m sys'. upload sample_upload_lib sample_cfg sample_world sample_ctx [Inr sample_roster, Inr []] empty_system = (Inr m, sys') \<and>
     um_status m = ready_upload \<and> um_record_count m = Some 2)"
proof -
  obtain v where v: "validate ascii_ucd 5 (\<lambda>_. []) sample_roster = Inr v" "vr_record_count v = 2"
    using sample_roster_valid by blast
  note f = sample_facts
  have "upload sample_upload_lib (shipped (DEFAULT_CONFIG (\<lambda>p. p))) sample_world sample_ctx (map Inr [sample_roster] @ [Inr []])
      empty_system = (Inl AttributeError, empty_system) \<and>
    (\<exists>m sys'. upload sample_upload_lib sample_cfg sample_world sample_ctx (map Inr [sample_roster] @ [Inr []]) empty_system =
      (Inr m, sys') \<and> m = ready_record sample_cfg sample_world sample_ctx (cx_filename sample_ctx)
        (plain_hex (concat [sample_roster])) (length (concat [sample_roster])) v)"
    using roster_upload_succeeds [of sample_upload_lib sample_ctx empty_system sample_cfg sample_world "[sample_roster]" v 1
        "DEFAULT_CONFIG (\<lambda>p. p)"]
      f sample_roster_crlf v(1) by auto
  then show ?thesis using v(2) by (auto simp: ready_record_def)
qed

lemma sample_upload_done:
  "\<exists>m sys'. upload sample_upload_lib sample_cfg sample_world sample_ctx [Inr sample_roster, Inr []] empty_system = (Inr m, sys') \<and>
     um_id m = uw_id sample_world \<and> us_redis sys' (idem_key sample_cfg sample_ctx) = Some (asc ''upload:5f3c'') \<and>
     ud_uploads (us_db sys') (uw_id sample_world) = Some m"
proof -
  obtain v where v: "validate ascii_ucd 5 (\<lambda>_. []) sample_roster = Inr v" using sample_roster_valid by blast
  note f = sample_facts
  have "\<exists>st redis. upload sample_upload_lib sample_cfg sample_world sample_ctx (map Inr [sample_roster] @ [Inr []]) empty_system =
      (Inr (ready_record sample_cfg sample_world sample_ctx (cx_filename sample_ctx) (plain_hex (concat [sample_roster]))
         (length (concat [sample_roster])) v),
       registered sample_upload_lib sample_cfg sample_world sample_ctx csv_format (cx_filename sample_ctx)
         (plain_hex (concat [sample_roster])) (length (concat [sample_roster])) v
         (empty_system\<lparr>us_redis := redis, us_store := st\<rparr>))"
    using good_upload [of sample_upload_lib sample_ctx sample_cfg 86400 empty_system sample_world "[sample_roster]" v 1]
      f sample_roster_crlf v by auto
  then show ?thesis
    by (auto simp: registered_def finalize_idempotency_def put_upload_def asc_def sample_world_def)
qed

theorem upload_outcome_witness:
  "upload sample_upload_lib (shipped (DEFAULT_CONFIG (\<lambda>p. p))) sample_world sample_ctx [Inr sample_roster, Inr []] empty_system =
     (Inl AttributeError, empty_system) \<and>
   (\<exists>m sys'. upload sample_upload_lib sample_cfg sample_world sample_ctx [Inr sample_roster, Inr []] empty_system = (Inr m, sys') \<and>
     um_status m = ready_upload \<and> ud_uploads (us_db sys') (uw_id sample_world) = Some m)"
proof -
  obtain m sys' where u: "upload sample_upload_lib sample_cfg sample_world sample_ctx [Inr sample_roster, Inr []] empty_system =
      (Inr m, sys')" using sample_upload_done by blast
  have f: "detect_format (ul_ucd sample_upload_lib) (cx_filename sample_ctx) = Inr csv_format"
    "0 \<le> uc_max_upload_bytes sample_cfg" using sample_facts(1) by (simp_all add: sample_cfg_def)
  show ?thesis
    using upload_outcome [OF f(1) sample_facts(3) f(2) u, of "DEFAULT_CONFIG (\<lambda>p. p)"] u sample_facts(2) by auto
qed

text \<open>A second upload under the same key gets the first record, for a different file.\<close>

theorem upload_replay_witness:
  "\<exists>m sys'. upload sample_upload_lib sample_cfg sample_world sample_ctx [Inr sample_roster, Inr []] empty_system = (Inr m, sys') \<and>
     upload sample_upload_lib sample_cfg (sample_world\<lparr>uw_id := asc ''77''\<rparr>) (sample_ctx\<lparr>cx_filename := asc ''b.zip''\<rparr>)
       [Inr bad_roster, Inr []] sys' = (Inr m, sys')"
proof -
  obtain m sys' where u: "upload sample_upload_lib sample_cfg sample_world sample_ctx [Inr sample_roster, Inr []] empty_system =
      (Inr m, sys')" and m: "um_id m = uw_id sample_world" "ud_uploads (us_db sys') (uw_id sample_world) = Some m"
    using sample_upload_done by blast
  have f: "detect_format (ul_ucd sample_upload_lib) (cx_filename sample_ctx) = Inr csv_format"
    "0 \<le> uc_max_upload_bytes sample_cfg" "uw_id sample_world \<noteq> []"
    using sample_facts(1) by (simp_all add: sample_cfg_def sample_world_def asc_def)
  have z: "detect_format (ul_ucd sample_upload_lib) (cx_filename (sample_ctx\<lparr>cx_filename := asc ''b.zip''\<rparr>)) = Inr zip_format"
    by (simp add: detect_format_def py_defs)
  show ?thesis
    using upload_replay [OF f(1) sample_facts(2) f(2,3) sample_facts(3) u z, of sys' "sample_world\<lparr>uw_id := asc ''77''\<rparr>"
        "[Inr bad_roster, Inr []]"] u m by simp
qed

theorem uploads_invariant_witness:
  "\<exists>sys m. uploads_run sample_upload_lib sample_cfg sys \<and> ud_uploads (us_db sys) (uw_id sample_world) = Some m \<and>
     um_status m = active_upload \<and> uploads_ok sample_upload_lib sample_cfg sys"
proof -
  obtain m sys' where u: "upload sample_upload_lib sample_cfg sample_world sample_ctx [Inr sample_roster, Inr []] empty_system =
      (Inr m, sys')" and m: "ud_uploads (us_db sys') (uw_id sample_world) = Some m"
      and mid: "um_id m = uw_id sample_world"
    using sample_upload_done by blast
  have lim: "0 \<le> uc_max_upload_bytes sample_cfg" by (simp add: sample_cfg_def)
  have id: "uuid_like (uw_id sample_world)" by (rule sample_facts(8))
  have run: "uploads_run sample_upload_lib sample_cfg sys'"
    by (rule uploading [OF start id u])
  have d: "detect_format (ul_ucd sample_upload_lib) (cx_filename sample_ctx) = Inr csv_format"
    using sample_facts(1) by simp
  from upload_fresh_cases [OF d sample_facts(2) sample_facts(3) lim u]
  have s: "um_status m = ready_upload" "ud_rosters (us_db sys') = []"
    by (auto simp: put_upload_def empty_system_def)
  let ?sys = "sys'\<lparr>us_redis := (\<lambda>_. None)\<rparr>"
  obtain r sys'' where a: "activate sample_cfg (uw_id sample_world) (asc ''r2'') 9 True ?sys = (r, sys'')"
    by (cases "activate sample_cfg (uw_id sample_world) (asc ''r2'') 9 True ?sys")
  have run': "uploads_run sample_upload_lib sample_cfg sys''"
    by (rule activating [OF keys_change [OF run] a])
  moreover have "\<exists>n. ud_uploads (us_db sys'') (uw_id sample_world) = Some n \<and> um_status n = active_upload"
    using a m mid s sample_facts(2)
    by (auto simp: activate_def get_upload_def repo_get_def repo_activate_def put_upload_def Let_def)
  ultimately show ?thesis using uploads_invariant [OF run' lim] by blast
qed

text \<open>
  \<^verbatim>\<open>UploadsConfig\<close> has no attribute \<^verbatim>\<open>idempotency_ttl_seconds\<close>, so that with it every upload of a supported format and
  every activation of a known upload ends in an \<^verbatim>\<open>AttributeError\<close>.
\<close>

lemma shipped_config_fails:
  shows "detect_format (ul_ucd L) (cx_filename ctx) = Inr fmt \<Longrightarrow>
      upload L (shipped c) w ctx reads sys = (Inl AttributeError, sys)"
    and "ud_uploads (us_db sys) i = Some m \<Longrightarrow>
      activate (shipped c) i rid clock_now commits sys = (Inl AttributeError, sys)"
  by (simp_all add: no_ttl_fails activate_def get_upload_def repo_get_def)

text \<open>The namespace of a request is joined to the manifest directory as it is.\<close>

lemma namespace_escapes:
  "path_str (manifest_path sample_cfg ((pending_record sample_world sample_ctx f)\<lparr>um_namespace := asc ''../../etc''\<rparr>)) =
     asc ''/srv/manifests/../../etc/5f3c_upload_manifest.json''"
  "path_str (manifest_path sample_cfg ((pending_record sample_world sample_ctx f)\<lparr>um_namespace := asc ''/etc''\<rparr>)) =
     asc ''/etc/5f3c_upload_manifest.json''"
  by (simp_all add: manifest_path_def path_join_def parse_path_def path_str_def pending_record_def sample_cfg_def
      sample_world_def Let_def py_defs)

text \<open>A file that fails its check stays in the store, and its record stays pending.\<close>

lemma failed_check_leaves_pending:
  assumes "uw_create w" and "ud_uploads (us_db sys) (uw_id w) = None" and "st_files (us_store sys) sha = Some content"
    and "validate (ul_ucd L) (uc_ui_preview_rows cfg) (ul_blocks L) content = Inl e"
  shows "register_upload L cfg w ctx fmt filename sha n sys =
    (Inl e, sys\<lparr>us_db := put_upload (pending_record w ctx filename) (us_db sys)\<rparr>)"
  using assms by (simp add: register_upload_def create_upload_def pending_record_def Let_def)

end
