(* ===== verification/Upload_Multipart.thy ===== *)
theory Upload_Multipart
  imports Upload_Zip
begin

text \<open>
  \<^verbatim>\<open>_parse_multipart\<close> of \<^verbatim>\<open>phase2_uploads/app.py\<close>: the body of a form with one file. The functions on byte strings it
  uses come first. Forms are also written here, as clients do, to state what is read back.
\<close>

section \<open>Searching, splitting and stripping\<close>

fun find_sub :: "'a list \<Rightarrow> 'a list \<Rightarrow> ('a list \<times> 'a list) option" where
  "find_sub d [] = (if d = [] then Some ([], []) else None)"
| "find_sub d (c # s) =
     (if take (length d) (c # s) = d then Some ([], drop (length d) (c # s))
      else map_option (\<lambda>(a, b). (c # a, b)) (find_sub d s))"

lemma find_sub_shorter: "find_sub d s = Some (a, b) \<Longrightarrow> length b + length d \<le> length s"
  by (induction s arbitrary: a b) (auto split: if_splits dest: arg_cong [of _ _ length])

function split_sub :: "'a list \<Rightarrow> 'a list \<Rightarrow> 'a list list" where
  "split_sub d s =
     (if d = [] then [s]
      else (case find_sub d s of None \<Rightarrow> [s] | Some (a, b) \<Rightarrow> a # split_sub d b))"
  by pat_completeness auto
termination
proof (relation "measure (\<lambda>(_, s). length s)")
  fix d s :: "'a list" and x a b
  assume "d \<noteq> []" and "find_sub d s = Some x" and "(a, b) = x"
  then have "find_sub d s = Some (a, b)" by simp
  from find_sub_shorter [OF this] \<open>d \<noteq> []\<close> show "((d, b), d, s) \<in> measure (\<lambda>(_, s). length s)"
    by (cases d) auto
qed simp

declare split_sub.simps [simp del]

definition occurs :: "'a list \<Rightarrow> 'a list \<Rightarrow> bool" where
  "occurs d s \<longleftrightarrow> find_sub d s \<noteq> None"

lemma not_occurs: "\<not> occurs d s \<longleftrightarrow> find_sub d s = None"
  by (cases "find_sub d s") (auto simp: occurs_def)

definition bytes_space :: "8 word \<Rightarrow> bool" where
  "bytes_space b \<longleftrightarrow> b = 32 \<or> 9 \<le> b \<and> b \<le> 13"

definition bytes_strip :: "bytes \<Rightarrow> bytes" where
  "bytes_strip s = rev (dropWhile bytes_space (rev (dropWhile bytes_space s)))"

definition lstrip_crlf :: "bytes \<Rightarrow> bytes" where
  "lstrip_crlf s = dropWhile (\<lambda>b. b = 13 \<or> b = 10) s"

text \<open>The decoder with \<^verbatim>\<open>errors="ignore"\<close>: a byte at which no character starts is dropped.\<close>

fun decode_ignore :: "int list \<Rightarrow> pystr" where
  "decode_ignore [] = []"
| "decode_ignore (a # as) =
     (if a < 128 then a # decode_ignore as
      else if 194 \<le> a \<and> a < 224 then
        (case as of
           b # bs \<Rightarrow> if tail_byte b then ((a - 192) * 64 + (b - 128)) # decode_ignore bs else decode_ignore as
         | [] \<Rightarrow> [])
      else if 224 \<le> a \<and> a < 240 then
        (case as of
           b # c # cs \<Rightarrow>
             if tail_byte b \<and> tail_byte c \<and> (a = 224 \<longrightarrow> 160 \<le> b) \<and> (a = 237 \<longrightarrow> b < 160)
             then ((a - 224) * 4096 + (b - 128) * 64 + (c - 128)) # decode_ignore cs else decode_ignore as
         | _ \<Rightarrow> decode_ignore as)
      else if 240 \<le> a \<and> a < 245 then
        (case as of
           b # c # d # ds \<Rightarrow>
             if tail_byte b \<and> tail_byte c \<and> tail_byte d \<and> (a = 240 \<longrightarrow> 144 \<le> b) \<and> (a = 244 \<longrightarrow> b < 144)
             then ((a - 240) * 262144 + (b - 128) * 4096 + (c - 128) * 64 + (d - 128)) # decode_ignore ds
             else decode_ignore as
         | _ \<Rightarrow> decode_ignore as)
      else decode_ignore as)"

definition utf8_ignore :: "bytes \<Rightarrow> pystr" where
  "utf8_ignore bs = decode_ignore (map uint bs)"

section \<open>The parser\<close>

datatype multipart_reason =
    Missing_Content_Type | Missing_Boundary | Empty_Boundary | Boundary_Not_Found | Missing_Closing_Boundary
  | Header_Terminator_Missing | Disposition_Missing | Name_Missing | File_Empty | Field_Decode_Error | File_Missing

datatype multipart_error = UPLOAD_MULTIPART_INVALID multipart_reason | UPLOAD_MULTIPART_FILE_COUNT | EncodeError

record multipart =
  mp_fields :: "pystr \<Rightarrow> pystr option"
  mp_filename :: pystr
  mp_file :: "bytes option"
  mp_file_parts :: nat

definition CRLF :: bytes where
  "CRLF = [13, 10]"

definition part_attr :: "ucd \<Rightarrow> (pystr \<Rightarrow> pystr option) \<Rightarrow> pystr \<Rightarrow> (pystr \<Rightarrow> pystr option)" where
  "part_attr U attrs item =
     (case find_sub [61] (py_strip item) of
        None \<Rightarrow> attrs
      | Some (key, val) \<Rightarrow> attrs(u_lower U key \<mapsto> strip_by (\<lambda>c. c = 34) (py_strip val)))"

definition part_attrs :: "ucd \<Rightarrow> pystr \<Rightarrow> (pystr \<Rightarrow> pystr option)" where
  "part_attrs U line = foldl (part_attr U) (\<lambda>_. None) (split_char 59 line)"

definition find_disposition :: "ucd \<Rightarrow> pystr list \<Rightarrow> pystr option" where
  "find_disposition U headers = find (\<lambda>h. startswith (u_lower U h) (asc ''content-disposition'')) headers"

definition parse_part :: "ucd \<Rightarrow> bytes \<Rightarrow> multipart \<Rightarrow> multipart_error + multipart" where
  "parse_part U raw_part acc =
     (if raw_part = [] \<or> raw_part = byte_str ''--'' then Inr acc
      else
        let part = lstrip_crlf raw_part
        in if part = [] \<or> part = byte_str ''--'' \<or> part = byte_str ''--'' @ CRLF then Inr acc
           else (case find_sub (CRLF @ CRLF) part of
               None \<Rightarrow> Inl (UPLOAD_MULTIPART_INVALID Header_Terminator_Missing)
             | Some (header, val) \<Rightarrow>
                 (case find_disposition U (split_sub [13, 10] (utf8_ignore header)) of
                    None \<Rightarrow> Inl (UPLOAD_MULTIPART_INVALID Disposition_Missing)
                  | Some line \<Rightarrow>
                      let attrs = part_attrs U line
                      in (case attrs (asc ''name'') of
                            None \<Rightarrow> Inl (UPLOAD_MULTIPART_INVALID Name_Missing)
                          | Some name \<Rightarrow>
                              if name = [] then Inl (UPLOAD_MULTIPART_INVALID Name_Missing)
                              else
                                let payload = (if endswith val CRLF then take (length val - 2) val else val)
                                in (case attrs (asc ''filename'') of
                                      Some fname \<Rightarrow>
                                        if mp_file_parts acc + 1 > 1 then Inl UPLOAD_MULTIPART_FILE_COUNT
                                        else if payload = [] then Inl (UPLOAD_MULTIPART_INVALID File_Empty)
                                        else Inr (acc\<lparr>mp_filename := (if fname = [] then mp_filename acc else fname),
                                                     mp_file := Some payload, mp_file_parts := mp_file_parts acc + 1\<rparr>)
                                    | None \<Rightarrow>
                                        (case utf8_decode payload of
                                           None \<Rightarrow> Inl (UPLOAD_MULTIPART_INVALID Field_Decode_Error)
                                         | Some v \<Rightarrow> Inr (acc\<lparr>mp_fields := (mp_fields acc)(name \<mapsto> py_strip v)\<rparr>)))))))"

fun parse_parts :: "ucd \<Rightarrow> bytes list \<Rightarrow> multipart \<Rightarrow> multipart_error + multipart" where
  "parse_parts U [] acc = Inr acc"
| "parse_parts U (raw_part # raw_parts) acc = rbind (parse_part U raw_part acc) (parse_parts U raw_parts)"

definition parse_multipart ::
  "ucd \<Rightarrow> pystr option \<Rightarrow> bytes \<Rightarrow> multipart_error + (pystr \<Rightarrow> pystr option) \<times> pystr \<times> bytes" where
  "parse_multipart U content_type body =
     (case content_type of
        None \<Rightarrow> Inl (UPLOAD_MULTIPART_INVALID Missing_Content_Type)
      | Some content_type \<Rightarrow>
          if content_type = [] then Inl (UPLOAD_MULTIPART_INVALID Missing_Content_Type)
          else if \<not> occurs (asc ''boundary='') content_type then Inl (UPLOAD_MULTIPART_INVALID Missing_Boundary)
          else
            let boundary = py_strip (last (split_sub (asc ''boundary='') content_type))
            in if boundary = [] then Inl (UPLOAD_MULTIPART_INVALID Empty_Boundary)
               else (case utf8_encode (asc ''--'' @ boundary) of
                   None \<Rightarrow> Inl EncodeError
                 | Some delimiter \<Rightarrow>
                     if \<not> occurs delimiter body then Inl (UPLOAD_MULTIPART_INVALID Boundary_Not_Found)
                     else if \<not> endswith (bytes_strip body) (delimiter @ byte_str ''--'') \<and>
                             \<not> endswith (bytes_strip body) (delimiter @ byte_str ''--'' @ CRLF)
                     then Inl (UPLOAD_MULTIPART_INVALID Missing_Closing_Boundary)
                     else
                       rbind (parse_parts U (split_sub delimiter body)
                           \<lparr>mp_fields = (\<lambda>_. None), mp_filename = asc ''upload.csv'', mp_file = None, mp_file_parts = 0\<rparr>)
                         (\<lambda>acc. case mp_file acc of
                            None \<Rightarrow> Inl (UPLOAD_MULTIPART_INVALID File_Missing)
                          | Some payload \<Rightarrow> Inr (mp_fields acc, mp_filename acc, payload))))"

section \<open>Forms as clients write them\<close>

datatype form_part = FormField pystr pystr | FormFile pystr pystr bytes

definition ascii_bytes :: "pystr \<Rightarrow> bytes" where
  "ascii_bytes s = map word_of_int s"

fun part_header :: "form_part \<Rightarrow> pystr" where
  "part_header (FormField n v) = asc ''Content-Disposition: form-data; name='' @ 34 # n @ [34]"
| "part_header (FormFile n f d) =
     asc ''Content-Disposition: form-data; name='' @ 34 # n @ 34 # asc ''; filename='' @ 34 # f @ [34]"

fun part_tail :: "form_part \<Rightarrow> bytes" where
  "part_tail (FormField n v) = []"
| "part_tail (FormFile n f d) = CRLF @ byte_str ''Content-Type: text/csv''"

fun part_payload :: "form_part \<Rightarrow> bytes" where
  "part_payload (FormField n v) = the (utf8_encode v)"
| "part_payload (FormFile n f d) = d"

definition write_part :: "form_part \<Rightarrow> bytes" where
  "write_part p = CRLF @ ascii_bytes (part_header p) @ part_tail p @ CRLF @ CRLF @ part_payload p @ CRLF"

definition write_form :: "bytes \<Rightarrow> form_part list \<Rightarrow> bytes" where
  "write_form delimiter parts = concat (map (\<lambda>p. delimiter @ write_part p) parts) @ delimiter @ byte_str ''--'' @ CRLF"

section \<open>Splitting what was joined\<close>

lemma find_sub_here [simp]: "find_sub d (d @ s) = Some ([], s)"
proof (cases "d @ s")
  case (Cons c t)
  have "take (length d) (c # t) = d" "drop (length d) (c # t) = s" unfolding Cons [symmetric] by simp_all
  then show ?thesis by (simp add: Cons)
qed simp

lemma find_sub_skip: "c \<notin> set h \<Longrightarrow> find_sub (c # d) (h @ s) = map_option (\<lambda>(a, b). (h @ a, b)) (find_sub (c # d) s)"
  by (cases "find_sub (c # d) s"; induction h) auto

lemma find_sub_append:
  "find_sub d p = None \<Longrightarrow> x \<notin> set d \<Longrightarrow> p = [] \<or> last p = x \<Longrightarrow> find_sub d (p @ d @ s) = Some (p, s)"
proof (induction p)
  case (Cons c p)
  have "take (length d) (c # p @ d @ s) \<noteq> d"
  proof
    assume t: "take (length d) (c # p @ d @ s) = d"
    show False
    proof (cases "length d \<le> length (c # p)")
      case True
      then have "take (length d) (c # p) = d" using t by (simp add: take_append [of _ "c # p", simplified])
      then show False using Cons.prems(1) by simp
    next
      case False
      then have "set (c # p) \<subseteq> set (take (length d) ((c # p) @ d @ s))" by (subst take_append) auto
      moreover have "x \<in> set (c # p)" using Cons.prems(3) last_in_set [of "c # p"] by simp
      ultimately show False using t Cons.prems(2) by auto
    qed
  qed
  moreover have "find_sub d p = None" using Cons.prems(1) by (auto split: if_splits)
  moreover have "p = [] \<or> last p = x" using Cons.prems(3) by (auto split: if_splits)
  ultimately show ?case using Cons by simp
qed simp

lemma split_sub_absent: "find_sub d s = None \<Longrightarrow> split_sub d s = [s]"
  by (subst split_sub.simps) simp

lemma split_sub_found: "d \<noteq> [] \<Longrightarrow> find_sub d s = Some (a, b) \<Longrightarrow> split_sub d s = a # split_sub d b"
  by (subst split_sub.simps) simp

lemma split_sub_chain:
  assumes "d \<noteq> []" and "x \<notin> set d" and "find_sub d e = None"
    and "\<And>p. p \<in> set ps \<Longrightarrow> find_sub d (w p) = None \<and> w p \<noteq> [] \<and> last (w p) = x"
    and "find_sub d q = None" and "q = [] \<or> last q = x"
  shows "split_sub d (q @ concat (map (\<lambda>p. d @ w p) ps) @ d @ e) = q # map w ps @ [e]"
  using assms(4-6)
proof (induction ps arbitrary: q)
  case Nil
  then show ?case
    using split_sub_found [OF assms(1) find_sub_append [OF Nil(2) assms(2) Nil(3)]] split_sub_absent [OF assms(3)] by simp
next
  case (Cons p ps)
  then show ?case
    using split_sub_found [OF assms(1) find_sub_append [OF Cons(3) assms(2) Cons(4)], of "w p @ concat (map (\<lambda>p. d @ w p) ps) @ d @ e"]
    by simp
qed

lemma split_char_append: "c \<notin> set a \<Longrightarrow> split_char c (a @ c # b) = a # split_char c b"
  by (induction a) auto

lemma strip_by_core:
  assumes "list_all p a" and "list_all p b" and "s \<noteq> []" and "\<not> p (hd s)" and "\<not> p (last s)"
  shows "strip_by p (a @ s @ b) = s"
proof -
  have d: "dropWhile p (c @ t) = t" if "list_all p c" "t = [] \<or> \<not> p (hd t)" for c t
    using that by (induction c) (auto simp: dropWhile_eq_self_iff)
  have "dropWhile p (a @ s @ b) = s @ b" using d [OF assms(1), of "s @ b"] assms(3,4) by simp
  moreover have "dropWhile p (rev b @ rev s) = rev s"
    using d [of "rev b" "rev s"] assms(2,3,5) by (simp add: hd_rev)
  ultimately show ?thesis by (simp add: strip_by_def)
qed

lemma utf8_ignore_ascii: "is_ascii s \<Longrightarrow> utf8_ignore (ascii_bytes s) = s"
proof (induction s)
  case (Cons c s)
  then have c: "0 \<le> c" "c < 128" "is_ascii s" by (auto simp: is_ascii_def)
  then have "uint (word_of_int c :: 8 word) = c" by (simp add: uint_word_of_int take_bit_eq_mod)
  then show ?case using Cons.IH c by (simp add: utf8_ignore_def ascii_bytes_def)
qed (simp add: utf8_ignore_def ascii_bytes_def)

section \<open>Parts read back\<close>

definition plain_name :: "pystr \<Rightarrow> bool" where
  "plain_name s \<longleftrightarrow> s \<noteq> [] \<and> is_ascii s \<and> (\<forall>c \<in> set s. c \<notin> {10, 13, 34, 59})"

fun good_part :: "form_part \<Rightarrow> bool" where
  "good_part (FormField n v) \<longleftrightarrow> plain_name n \<and> list_all scalar_value v \<and> py_strip v = v"
| "good_part (FormFile n f d) \<longleftrightarrow> plain_name n \<and> plain_name f \<and> d \<noteq> []"

lemma part_header_ascii: "good_part p \<Longrightarrow> is_ascii (part_header p)"
  by (cases p) (auto simp: plain_name_def is_ascii_def asc_def)

lemma part_header_no_cr: "good_part p \<Longrightarrow> 13 \<notin> set (part_header p)"
  by (cases p) (auto simp: plain_name_def asc_def)

lemma ascii_bytes_no_cr: "is_ascii s \<Longrightarrow> 13 \<notin> set s \<Longrightarrow> 13 \<notin> set (ascii_bytes s)"
proof -
  assume a: "is_ascii s" "13 \<notin> set s"
  have "(word_of_int c :: 8 word) \<noteq> 13" if "c \<in> set s" for c
  proof
    assume "(word_of_int c :: 8 word) = 13"
    then have "uint (word_of_int c :: 8 word) = 13" by simp
    moreover have "0 \<le> c" "c < 128" using a(1) that by (auto simp: is_ascii_def list_all_iff)
    ultimately show False using a(2) that by (simp add: uint_word_of_int take_bit_eq_mod)
  qed
  then show ?thesis by (auto simp: ascii_bytes_def)
qed

definition tail_text :: "form_part \<Rightarrow> pystr" where
  "tail_text p = (case p of FormField _ _ \<Rightarrow> [] | FormFile _ _ _ \<Rightarrow> 13 # 10 # asc ''Content-Type: text/csv'')"

lemma part_tail_text: "part_tail p = ascii_bytes (tail_text p)"
  by (cases p) (simp_all add: tail_text_def ascii_bytes_def CRLF_def byte_str_def asc_def)

lemma header_found:
  assumes "good_part p"
  shows "find_sub (CRLF @ CRLF) (ascii_bytes (part_header p) @ part_tail p @ CRLF @ CRLF @ s) =
    Some (ascii_bytes (part_header p @ tail_text p), s)"
proof -
  have "13 \<notin> set (ascii_bytes (part_header p))"
    using part_header_ascii part_header_no_cr ascii_bytes_no_cr assms by blast
  then have skip: "find_sub (CRLF @ CRLF) (ascii_bytes (part_header p) @ t) =
      map_option (\<lambda>(a, b). (ascii_bytes (part_header p) @ a, b)) (find_sub (CRLF @ CRLF) t)" for t
    using find_sub_skip [of 13 "ascii_bytes (part_header p)" "[10, 13, 10]" t] by (simp add: CRLF_def)
  show ?thesis
  proof (cases p)
    case (FormField n v)
    then show ?thesis using skip [of "CRLF @ CRLF @ s"] find_sub_here [of "CRLF @ CRLF" s]
      by (simp add: tail_text_def)
  next
    case (FormFile n f d)
    have "find_sub (CRLF @ CRLF) (part_tail p @ CRLF @ CRLF @ s) = Some (part_tail p, s)"
      by (simp add: FormFile CRLF_def byte_str_def)
    then show ?thesis using skip [of "part_tail p @ CRLF @ CRLF @ s"] by (simp add: part_tail_text ascii_bytes_def)
  qed
qed

lemma header_lines:
  assumes "good_part p"
  shows "split_sub [13, 10] (part_header p @ tail_text p) =
    part_header p # (case p of FormField _ _ \<Rightarrow> [] | FormFile _ _ _ \<Rightarrow> [asc ''Content-Type: text/csv''])"
proof -
  note n = part_header_no_cr [OF assms]
  show ?thesis
  proof (cases p)
    case (FormField n v)
    then show ?thesis
      using find_sub_skip [of 13 "part_header p" "[10]" "[]"] n by (simp add: tail_text_def split_sub_absent)
  next
    case (FormFile n' f d)
    have "find_sub [13, 10] (part_header p @ 13 # 10 # asc ''Content-Type: text/csv'') =
        Some (part_header p, asc ''Content-Type: text/csv'')"
      using find_sub_skip [of 13 "part_header p" "[10]" "13 # 10 # asc ''Content-Type: text/csv''"] n by simp
    moreover have "find_sub [13, 10] (asc ''Content-Type: text/csv'') = None" by (simp add: asc_def)
    ultimately show ?thesis
      using FormFile by (simp add: tail_text_def split_sub_found split_sub_absent)
  qed
qed

lemma header_disposition:
  assumes "ucd_ok U" and "good_part p"
  shows "find_disposition U (part_header p # hs) = Some (part_header p)"
proof -
  have "u_lower U (part_header p) = map ascii_lower (part_header p)"
    using assms part_header_ascii by (simp add: ucd_ok_def)
  moreover have "startswith (map ascii_lower (part_header p)) (asc ''content-disposition'')"
    by (cases p) (simp_all add: py_defs)
  ultimately show ?thesis by (simp add: find_disposition_def)
qed

lemma attr_item:
  assumes "ucd_ok U" and "plain_name n" and "is_ascii k" and "k \<noteq> []" and "61 \<notin> set k" and "\<not> py_isspace (hd k)"
    and "map ascii_lower k = k"
  shows "part_attr U attrs (32 # k @ 61 # 34 # n @ [34]) = attrs(k \<mapsto> n)"
proof -
  have "py_strip ([32] @ (k @ 61 # 34 # n @ [34]) @ []) = k @ 61 # 34 # n @ [34]"
    unfolding py_strip_def by (rule strip_by_core) (use assms(4,6) in \<open>simp_all add: py_isspace_def\<close>)
  moreover have "find_sub [61] (k @ 61 # 34 # n @ [34]) = Some (k, 34 # n @ [34])"
    using find_sub_skip [of 61 k "[]"] assms(5) by simp
  moreover have "py_strip ([] @ (34 # n @ [34]) @ []) = 34 # n @ [34]"
    unfolding py_strip_def by (rule strip_by_core) (simp_all add: py_isspace_def)
  moreover have "strip_by (\<lambda>c. c = 34) ([34] @ n @ [34]) = n"
    by (rule strip_by_core) (use assms(2) in \<open>auto simp: plain_name_def\<close>)
  moreover have "u_lower U k = k" using assms(1,3,7) by (simp add: ucd_ok_def)
  ultimately show ?thesis by (simp add: part_attr_def)
qed

lemma part_attrs_field:
  assumes "ucd_ok U" and "good_part (FormField n v)"
  shows "part_attrs U (part_header (FormField n v)) = (\<lambda>_. None)(asc ''name'' \<mapsto> n)"
proof -
  have "59 \<notin> set n" using assms(2) by (auto simp: plain_name_def)
  then have s: "split_char 59 (part_header (FormField n v)) =
      [asc ''Content-Disposition: form-data'', 32 # asc ''name'' @ 61 # 34 # n @ [34]]"
    by (simp add: asc_def split_char_id)
  have "part_attr U (\<lambda>_. None) (asc ''Content-Disposition: form-data'') = (\<lambda>_. None)"
    by (simp add: part_attr_def py_defs)
  then show ?thesis
    using attr_item [OF assms(1), of n "asc ''name''"] assms(2)
    by (simp add: part_attrs_def s del: part_header.simps) (simp add: py_defs)
qed

lemma part_attrs_file:
  assumes "ucd_ok U" and "good_part (FormFile n f d)"
  shows "part_attrs U (part_header (FormFile n f d)) = (\<lambda>_. None)(asc ''name'' \<mapsto> n, asc ''filename'' \<mapsto> f)"
proof -
  have "59 \<notin> set n" "59 \<notin> set f" using assms(2) by (auto simp: plain_name_def)
  then have s: "split_char 59 (part_header (FormFile n f d)) =
      [asc ''Content-Disposition: form-data'', 32 # asc ''name'' @ 61 # 34 # n @ [34],
       32 # asc ''filename'' @ 61 # 34 # f @ [34]]"
    using split_char_append [of 59 "32 # asc ''name'' @ 61 # 34 # n @ [34]"] by (simp add: asc_def split_char_id)
  have "part_attr U (\<lambda>_. None) (asc ''Content-Disposition: form-data'') = (\<lambda>_. None)"
    by (simp add: part_attr_def py_defs)
  then show ?thesis
    using attr_item [OF assms(1), of n "asc ''name''"] attr_item [OF assms(1), of f "asc ''filename''"] assms(2)
    by (simp add: part_attrs_def s del: part_header.simps) (simp add: py_defs)
qed

fun read_part :: "form_part \<Rightarrow> multipart \<Rightarrow> multipart" where
  "read_part (FormField n v) acc = acc\<lparr>mp_fields := (mp_fields acc)(n \<mapsto> v)\<rparr>"
| "read_part (FormFile n f d) acc = acc\<lparr>mp_filename := f, mp_file := Some d, mp_file_parts := mp_file_parts acc + 1\<rparr>"

fun is_file :: "form_part \<Rightarrow> bool" where
  "is_file (FormField n v) = False"
| "is_file (FormFile n f d) = True"

lemma parse_part_written:
  assumes U: "ucd_ok U" and p: "good_part p" and files: "is_file p \<longrightarrow> mp_file_parts acc = 0"
  shows "parse_part U (write_part p) acc = Inr (read_part p acc)"
proof -
  let ?rest = "part_payload p @ CRLF"
  obtain t where C: "ascii_bytes (part_header p) = 67 # t"
    by (cases p) (simp_all add: ascii_bytes_def asc_def)
  have strip: "lstrip_crlf (write_part p) = ascii_bytes (part_header p) @ part_tail p @ CRLF @ CRLF @ ?rest"
    by (simp add: write_part_def lstrip_crlf_def CRLF_def C)
  have ne: "write_part p \<noteq> []" "write_part p \<noteq> byte_str ''--''"
    by (simp_all add: write_part_def CRLF_def byte_str_def)
  have ne': "ascii_bytes (part_header p) @ x \<noteq> []" "ascii_bytes (part_header p) @ x \<noteq> byte_str ''--''"
    "ascii_bytes (part_header p) @ x \<noteq> byte_str ''--'' @ CRLF" for x
    by (simp_all add: C byte_str_def)
  have "is_ascii (part_header p @ tail_text p)"
    using part_header_ascii [OF p] by (cases p) (simp_all add: is_ascii_def tail_text_def asc_def)
  then have d: "find_disposition U (split_sub [13, 10] (utf8_ignore (ascii_bytes (part_header p @ tail_text p)))) =
      Some (part_header p)"
    using utf8_ignore_ascii header_lines [OF p] header_disposition [OF U p] by simp
  have pay: "(if endswith ?rest CRLF then take (length ?rest - 2) ?rest else ?rest) = part_payload p"
    by (simp add: endswith_def last_n_def CRLF_def)
  have run: "parse_part U (write_part p) acc =
      (let attrs = part_attrs U (part_header p)
       in (case attrs (asc ''name'') of
             None \<Rightarrow> Inl (UPLOAD_MULTIPART_INVALID Name_Missing)
           | Some name \<Rightarrow>
               if name = [] then Inl (UPLOAD_MULTIPART_INVALID Name_Missing)
               else (case attrs (asc ''filename'') of
                   Some fname \<Rightarrow>
                     if mp_file_parts acc + 1 > 1 then Inl UPLOAD_MULTIPART_FILE_COUNT
                     else if part_payload p = [] then Inl (UPLOAD_MULTIPART_INVALID File_Empty)
                     else Inr (acc\<lparr>mp_filename := (if fname = [] then mp_filename acc else fname),
                                  mp_file := Some (part_payload p), mp_file_parts := mp_file_parts acc + 1\<rparr>)
                 | None \<Rightarrow>
                     (case utf8_decode (part_payload p) of
                        None \<Rightarrow> Inl (UPLOAD_MULTIPART_INVALID Field_Decode_Error)
                      | Some v \<Rightarrow> Inr (acc\<lparr>mp_fields := (mp_fields acc)(name \<mapsto> py_strip v)\<rparr>)))))"
    unfolding parse_part_def
    by (simp only: ne strip ne' header_found [OF p] Let_def d pay if_False simp_thms option.case prod.case)
  have names: "asc ''filename'' \<noteq> asc ''name''" by (simp add: asc_def)
  show ?thesis
  proof (cases p)
    case (FormField n v)
    then have "utf8_encode v = Some (part_payload p)" "py_strip v = v" "n \<noteq> []"
      using p by (auto simp: utf8_encode_def plain_name_def)
    then show ?thesis
      using part_attrs_field [OF U, of n v] p FormField names utf8_roundtrip [of v "part_payload p"]
      unfolding run by (simp add: Let_def del: part_header.simps part_payload.simps)
  next
    case (FormFile n f d)
    then show ?thesis
      using part_attrs_file [OF U, of n f d] p files names
      unfolding run by (simp add: Let_def plain_name_def del: part_header.simps)
  qed
qed

lemma parse_parts_written:
  assumes "ucd_ok U"
  shows "list_all good_part ps \<Longrightarrow> mp_file_parts acc + length (filter is_file ps) \<le> 1 \<Longrightarrow>
    parse_parts U (map write_part ps @ rest) acc = parse_parts U rest (fold read_part ps acc)"
proof (induction ps arbitrary: acc)
  case (Cons p ps)
  have "parse_part U (write_part p) acc = Inr (read_part p acc)"
    using parse_part_written [OF assms, of p acc] Cons.prems by (simp split: if_splits)
  moreover have "mp_file_parts (read_part p acc) + length (filter is_file ps) \<le> 1"
    using Cons.prems(2) by (cases p) auto
  ultimately show ?case using Cons by simp
qed simp

text \<open>What is read from a form: the last value of each field, and the file.\<close>

lemma fold_read_fields:
  "fold read_part (map (\<lambda>(n, v). FormField n v) fs) acc = acc\<lparr>mp_fields := mp_fields acc ++ map_of (rev fs)\<rparr>"
  by (induction fs arbitrary: acc) (auto simp: map_add_def fun_eq_iff split: option.splits)

section \<open>The round trip\<close>

definition form_type :: "pystr \<Rightarrow> pystr" where
  "form_type boundary = asc ''multipart/form-data; boundary='' @ boundary"

definition good_boundary :: "pystr \<Rightarrow> bool" where
  "good_boundary b \<longleftrightarrow> b \<noteq> [] \<and> is_ascii b \<and> py_strip b = b \<and> 10 \<notin> set b \<and> 13 \<notin> set b \<and> \<not> occurs (asc ''boundary='') b"

definition delimiter_of :: "pystr \<Rightarrow> bytes" where
  "delimiter_of boundary = the (utf8_encode (asc ''--'' @ boundary))"

lemma utf8_encode_ascii: "is_ascii s \<Longrightarrow> utf8_encode s = Some (ascii_bytes s)"
proof -
  assume a: "is_ascii s"
  then have "list_all scalar_value s" by (auto simp: is_ascii_def scalar_value_def list_all_iff)
  moreover have "concat (map encode_char s) = s" using a by (induction s) (auto simp: is_ascii_def encode_char_def)
  ultimately show ?thesis by (simp add: utf8_encode_def ascii_bytes_def)
qed

lemma form_type_boundary:
  assumes "good_boundary b"
  shows "occurs (asc ''boundary='') (form_type b)" and "last (split_sub (asc ''boundary='') (form_type b)) = b"
proof -
  have f: "find_sub (asc ''boundary='') (form_type b) = Some (asc ''multipart/form-data; '', b)"
    by (simp add: form_type_def asc_def)
  then show "occurs (asc ''boundary='') (form_type b)" by (simp add: occurs_def)
  have "asc ''boundary='' \<noteq> []" by (simp add: asc_def)
  moreover have "split_sub (asc ''boundary='') b = [b]"
    using assms by (intro split_sub_absent) (simp add: good_boundary_def not_occurs)
  ultimately show "last (split_sub (asc ''boundary='') (form_type b)) = b" by (simp add: split_sub_found [OF _ f])
qed

lemma ascii_byte_neq: "is_ascii s \<Longrightarrow> k \<notin> set s \<Longrightarrow> 0 \<le> k \<Longrightarrow> k < 128 \<Longrightarrow> word_of_int k \<notin> set (ascii_bytes s)"
proof
  assume a: "is_ascii s" "k \<notin> set s" "0 \<le> k" "k < 128" and "word_of_int k \<in> set (ascii_bytes s)"
  then obtain c where c: "c \<in> set s" "(word_of_int k :: 8 word) = word_of_int c" by (auto simp: ascii_bytes_def)
  then have "uint (word_of_int k :: 8 word) = uint (word_of_int c :: 8 word)" by simp
  moreover have "0 \<le> c" "c < 128" using a(1) c(1) by (auto simp: is_ascii_def list_all_iff)
  ultimately have "k = c" using a(3,4) by (simp add: uint_word_of_int take_bit_eq_mod)
  then show False using a(2) c(1) by simp
qed

lemma delimiter_facts:
  assumes "good_boundary b"
  shows "utf8_encode (asc ''--'' @ b) = Some (delimiter_of b)" and "delimiter_of b \<noteq> []" and "hd (delimiter_of b) = 45"
    and "10 \<notin> set (delimiter_of b)" and "find_sub (delimiter_of b) (byte_str ''--'' @ CRLF) = None"
proof -
  have a: "is_ascii (asc ''--'' @ b)" using assms by (simp add: good_boundary_def is_ascii_def asc_def)
  show e: "utf8_encode (asc ''--'' @ b) = Some (delimiter_of b)" by (simp add: delimiter_of_def utf8_encode_ascii [OF a])
  then have d: "delimiter_of b = [45, 45] @ ascii_bytes b"
    using utf8_encode_ascii [OF a] by (simp add: ascii_bytes_def asc_def)
  then show "delimiter_of b \<noteq> []" "hd (delimiter_of b) = 45" by simp_all
  have n: "10 \<notin> set (ascii_bytes b)" "13 \<notin> set (ascii_bytes b)"
    using ascii_byte_neq [of b 10] ascii_byte_neq [of b 13] assms by (simp_all add: good_boundary_def)
  then show "10 \<notin> set (delimiter_of b)" by (simp add: d)
  have "ascii_bytes b \<noteq> []" using assms by (simp add: good_boundary_def ascii_bytes_def)
  then obtain c cs where c: "ascii_bytes b = c # cs" by (cases "ascii_bytes b") auto
  then have "c \<noteq> 13" "c \<noteq> 10" using n by auto
  then show "find_sub (delimiter_of b) (byte_str ''--'' @ CRLF) = None"
    by (auto simp: d c byte_str_def CRLF_def)
qed

lemma write_part_ends: "write_part p \<noteq> [] \<and> last (write_part p) = 10"
  by (simp add: write_part_def CRLF_def)

lemma split_form:
  assumes "good_boundary b" and "\<forall>p \<in> set ps. \<not> occurs (delimiter_of b) (write_part p)"
  shows "split_sub (delimiter_of b) (write_form (delimiter_of b) ps) = [] # map write_part ps @ [byte_str ''--'' @ CRLF]"
proof -
  note d = delimiter_facts [OF assms(1)]
  have "find_sub (delimiter_of b) [] = None" using d(2) by simp
  from split_sub_chain [OF d(2,4,5) _ this, of ps write_part] show ?thesis
    using assms(2) write_part_ends
    by (simp add: write_form_def not_occurs)
qed

lemma form_closes:
  assumes "good_boundary b"
  shows "endswith (bytes_strip (write_form (delimiter_of b) ps)) (delimiter_of b @ byte_str ''--'')"
proof -
  note d = delimiter_facts [OF assms]
  let ?f = "concat (map (\<lambda>p. delimiter_of b @ write_part p) ps) @ delimiter_of b"
  have "hd ?f = 45 \<and> ?f \<noteq> []" using d(2,3) by (cases ps) simp_all
  then have "hd (?f @ byte_str ''--'' @ CRLF) = 45" by (metis hd_append2)
  then have h: "\<not> bytes_space (hd (?f @ byte_str ''--'' @ CRLF))" by (simp add: bytes_space_def)
  have w: "write_form (delimiter_of b) ps = ?f @ byte_str ''--'' @ CRLF" by (simp add: write_form_def)
  have "dropWhile bytes_space (?f @ byte_str ''--'' @ CRLF) = ?f @ byte_str ''--'' @ CRLF"
    using h d(2) by (subst dropWhile_eq_self_iff) simp
  then have "bytes_strip (write_form (delimiter_of b) ps) = ?f @ byte_str ''--''"
    unfolding w bytes_strip_def by (simp add: CRLF_def byte_str_def bytes_space_def)
  then show ?thesis by (simp add: endswith_def last_n_def byte_str_def)
qed

text \<open>
  C35 multipart_roundtrip: a form written in the usual way, with ASCII names without quotes, semicolons and line
  breaks, values without space around them, one file that is not empty, and a delimiter that occurs in no part,
  is read back: every field has the last value given for it, and the file its name and exactly its bytes,
  line breaks at its ends included.
\<close>

theorem multipart_roundtrip:
  assumes "ucd_ok U" and "good_boundary b"
    and "list_all good_part (map (\<lambda>(n, v). FormField n v) fs1 @ FormFile n f d # map (\<lambda>(n, v). FormField n v) fs2)"
    and "\<forall>p \<in> set (map (\<lambda>(n, v). FormField n v) fs1 @ FormFile n f d # map (\<lambda>(n, v). FormField n v) fs2).
      \<not> occurs (delimiter_of b) (write_part p)"
  shows "parse_multipart U (Some (form_type b))
      (write_form (delimiter_of b) (map (\<lambda>(n, v). FormField n v) fs1 @ FormFile n f d # map (\<lambda>(n, v). FormField n v) fs2)) =
    Inr (map_of (rev (fs1 @ fs2)), f, d)"
proof -
  let ?ps = "map (\<lambda>(n, v). FormField n v) fs1 @ FormFile n f d # map (\<lambda>(n, v). FormField n v) fs2"
  let ?body = "write_form (delimiter_of b) ?ps"
  let ?acc = "\<lparr>mp_fields = (\<lambda>_. None), mp_filename = asc ''upload.csv'', mp_file = None, mp_file_parts = 0\<rparr>"
  note d = delimiter_facts [OF assms(2)]
  have "filter is_file (map (\<lambda>(n, v). FormField n v) fs) = []" for fs
    by (induction fs) auto
  then have one: "mp_file_parts ?acc + length (filter is_file ?ps) \<le> 1" by simp
  have tail: "parse_part U (byte_str ''--'' @ CRLF) acc = Inr acc" for acc
    by (simp add: parse_part_def lstrip_crlf_def byte_str_def CRLF_def)
  have "parse_parts U (split_sub (delimiter_of b) ?body) ?acc = Inr (fold read_part ?ps ?acc)"
    using parse_parts_written [OF assms(1,3) one, of "[byte_str ''--'' @ CRLF]"]
    by (simp add: split_form [OF assms(2,4)] parse_part_def [of _ "[]"] tail)
  moreover have "fold read_part ?ps ?acc =
      \<lparr>mp_fields = map_of (rev (fs1 @ fs2)), mp_filename = f, mp_file = Some d, mp_file_parts = 1\<rparr>"
    by (simp add: fold_read_fields map_add_def fun_eq_iff split: option.splits)
  moreover have "occurs (delimiter_of b) ?body"
    by (cases fs1) (simp_all add: occurs_def write_form_def)
  moreover have "form_type b \<noteq> []" "b \<noteq> []" "py_strip b = b"
    using assms(2) by (simp_all add: form_type_def asc_def good_boundary_def)
  ultimately show ?thesis
    using form_type_boundary [OF assms(2)] form_closes [OF assms(2), of ?ps] d(1)
    by (simp add: parse_multipart_def Let_def)
qed

definition sample_boundary :: pystr where
  "sample_boundary = asc ''Xb7''"

theorem multipart_roundtrip_witness:
  "\<exists>fields. parse_multipart ascii_ucd (Some (form_type sample_boundary))
      (write_form (delimiter_of sample_boundary)
         [FormField (asc ''profile'') (asc ''ROSTER_V1''), FormFile (asc ''file'') (asc ''a.csv'') [45, 45, 88, 13, 10],
          FormField (asc ''year'') [1777, 1780]]) =
    Inr (fields, asc ''a.csv'', [45, 45, 88, 13, 10]) \<and> fields (asc ''year'') = Some [1777, 1780]"
proof -
  let ?b = "sample_boundary"
  let ?fs1 = "[(asc ''profile'', asc ''ROSTER_V1'')]" and ?fs2 = "[(asc ''year'', [1777, 1780])]"
  let ?d = "[45, 45, 88, 13, 10] :: bytes"
  let ?ps = "map (\<lambda>(n, v). FormField n v) ?fs1 @ FormFile (asc ''file'') (asc ''a.csv'') ?d # map (\<lambda>(n, v). FormField n v) ?fs2"
  have "find_sub (asc ''boundary='') sample_boundary = None" by code_simp
  moreover have "py_strip sample_boundary = sample_boundary" by code_simp
  ultimately have b: "good_boundary ?b"
    by (simp add: good_boundary_def occurs_def) (simp add: sample_boundary_def is_ascii_def asc_def)
  have g: "list_all good_part ?ps"
    by (simp add: plain_name_def py_defs)
  have "list_all (\<lambda>p. \<not> occurs (delimiter_of ?b) (write_part p)) ?ps" by code_simp
  then have o: "\<forall>p \<in> set ?ps. \<not> occurs (delimiter_of ?b) (write_part p)" by (simp only: list_all_iff)
  have "parse_multipart ascii_ucd (Some (form_type ?b)) (write_form (delimiter_of ?b) ?ps) =
      Inr (map_of (rev (?fs1 @ ?fs2)), asc ''a.csv'', ?d)"
    using multipart_roundtrip [OF ascii_ucd_ok b g o] .
  then show ?thesis by (simp add: asc_def)
qed

text \<open>A file name with a semicolon is cut there, and a quoted boundary is not found.\<close>

lemma semicolon_cuts_filename:
  "part_attrs ascii_ucd (part_header (FormFile (asc ''file'') (asc ''a;b.csv'') [])) (asc ''filename'') = Some (asc ''a'')"
  by code_simp

lemma quoted_boundary_refused:
  "case parse_multipart ascii_ucd (Some (asc ''multipart/form-data; boundary='' @ 34 # sample_boundary @ [34]))
     (write_form (delimiter_of sample_boundary) [FormFile (asc ''file'') (asc ''a.csv'') [65]]) of
   Inl e \<Rightarrow> e = UPLOAD_MULTIPART_INVALID Boundary_Not_Found | Inr _ \<Rightarrow> False"
  by code_simp

end
