(* ===== verification/Audit_Events.thy ===== *)
theory Audit_Events
  imports Upload_Zip Core_Retry
begin

text \<open>
  \<^verbatim>\<open>audit/enums.py\<close>, \<^verbatim>\<open>models.py\<close>, \<^verbatim>\<open>retry.py\<close>, \<^verbatim>\<open>repository.py\<close> and \<^verbatim>\<open>service.py\<close>: the log of audit events. The table keeps
  its rows in the order of their ids, and \<open>at_next\<close> is the next id (ids are never used again). Times are numbers. An attempt to
  insert meets an \<open>insert_fault\<close>: the database may refuse, or lose its answer after the commit, or raise
  something that is not retried. Rows with equal times are listed in the order of the table. Metrics and
  logs are left out.
\<close>

section \<open>Events\<close>

datatype AuditActorRole = ADMIN | MANAGER

datatype AuditAction =
    UPLOAD_CREATED | UPLOAD_VALIDATED | UPLOAD_ACTIVATED | EXPORT_STARTED | EXPORT_FINALIZED | EXPORT_DOWNLOADED
  | AUTHN_OK | AUTHN_FAIL | CONFIG_REJECTED

datatype AuditOutcome = Audit_OK | Audit_ERROR

definition role_value :: "AuditActorRole \<Rightarrow> pystr" where
  "role_value r = (case r of ADMIN \<Rightarrow> asc ''ADMIN'' | MANAGER \<Rightarrow> asc ''MANAGER'')"

definition action_value :: "AuditAction \<Rightarrow> pystr" where
  "action_value a =
     (case a of UPLOAD_CREATED \<Rightarrow> asc ''UPLOAD_CREATED'' | UPLOAD_VALIDATED \<Rightarrow> asc ''UPLOAD_VALIDATED''
      | UPLOAD_ACTIVATED \<Rightarrow> asc ''UPLOAD_ACTIVATED'' | EXPORT_STARTED \<Rightarrow> asc ''EXPORT_STARTED''
      | EXPORT_FINALIZED \<Rightarrow> asc ''EXPORT_FINALIZED'' | EXPORT_DOWNLOADED \<Rightarrow> asc ''EXPORT_DOWNLOADED''
      | AUTHN_OK \<Rightarrow> asc ''AUTHN_OK'' | AUTHN_FAIL \<Rightarrow> asc ''AUTHN_FAIL'' | CONFIG_REJECTED \<Rightarrow> asc ''CONFIG_REJECTED'')"

definition outcome_value :: "AuditOutcome \<Rightarrow> pystr" where
  "outcome_value v = (case v of Audit_OK \<Rightarrow> asc ''OK'' | Audit_ERROR \<Rightarrow> asc ''ERROR'')"

record AuditEventCreate =
  ev_ts :: int
  ev_actor_role :: AuditActorRole
  ev_center_scope :: "pystr option"
  ev_action :: AuditAction
  ev_resource_type :: pystr
  ev_resource_id :: pystr
  ev_job_id :: "pystr option"
  ev_request_id :: pystr
  ev_outcome :: AuditOutcome
  ev_error_code :: "pystr option"
  ev_artifact_sha256 :: "pystr option"

record AuditEvent =
  ae_id :: nat
  ae_data :: AuditEventCreate

record audit_table =
  at_rows :: "AuditEvent list"
  at_next :: nat

section \<open>Validation\<close>

datatype audit_exn = AUDIT_VALIDATION_ERROR | DBAPIError | AuditOtherError | AssertionError

definition hex_char :: "int \<Rightarrow> bool" where
  "hex_char c \<longleftrightarrow> 48 \<le> c \<and> c \<le> 57 \<or> 97 \<le> c \<and> c \<le> 102 \<or> 65 \<le> c \<and> c \<le> 70"

definition request_id_core :: "pystr \<Rightarrow> bool" where
  "request_id_core s \<longleftrightarrow>
     list_all hex_char s \<and> 32 \<le> length s \<and> length s \<le> 64 \<or>
     map length (split_char 45 s) = [8, 4, 4, 4, 12] \<and> list_all (list_all hex_char) (split_char 45 s)"

text \<open>\<open>$\<close> in a pattern also matches before a line feed at the end.\<close>

definition request_id_ok :: "pystr \<Rightarrow> bool" where
  "request_id_ok s \<longleftrightarrow> request_id_core s \<or> s \<noteq> [] \<and> last s = 10 \<and> request_id_core (butlast s)"

definition audit_normalize :: "pystr \<Rightarrow> pystr" where
  "audit_normalize v = take 256 (remove_chars [8204] (py_strip v))"

definition audit_normalize_opt :: "pystr option \<Rightarrow> pystr option" where
  "audit_normalize_opt v = (case v of None \<Rightarrow> None | Some v \<Rightarrow> if v = [] then None else Some (audit_normalize v))"

definition validate_identifier :: "pystr \<Rightarrow> bool" where
  "validate_identifier v \<longleftrightarrow> v \<noteq> [] \<and> py_strip v \<noteq> []"

definition validate_center :: "pystr \<Rightarrow> bool" where
  "validate_center v \<longleftrightarrow> length v \<le> 64"

section \<open>Inserting with retries\<close>

datatype insert_fault = Insert_Fine | Insert_Refused | Insert_Ack_Lost | Insert_Broken

definition insert_row :: "AuditEventCreate \<Rightarrow> audit_table \<Rightarrow> audit_table" where
  "insert_row payload t = \<lparr>at_rows = at_rows t @ [\<lparr>ae_id = at_next t, ae_data = payload\<rparr>], at_next = at_next t + 1\<rparr>"

definition sync_insert :: "AuditEventCreate \<Rightarrow> insert_fault \<Rightarrow> audit_table \<Rightarrow> (audit_exn + nat) \<times> audit_table" where
  "sync_insert payload fault t =
     (case fault of
        Insert_Fine \<Rightarrow> (Inr (at_next t), insert_row payload t)
      | Insert_Refused \<Rightarrow> (Inl DBAPIError, t)
      | Insert_Ack_Lost \<Rightarrow> (Inl DBAPIError, insert_row payload t)
      | Insert_Broken \<Rightarrow> (Inl AuditOtherError, t))"

definition audit_delay :: "(pystr \<Rightarrow> int) \<Rightarrow> pyfloat \<Rightarrow> pystr \<Rightarrow> nat \<Rightarrow> pyfloat" where
  "audit_delay digest8 base rid attempt =
     (let jitter_fraction = fdiv (of_int (digest8 (rid @ 58 # py_str_int (int attempt)))) (2 ^ 64)
      in fadd (fmul base (2 ^ (attempt - 1))) (fmul jitter_fraction base))"

text \<open>The result, the number of calls and the delays slept.\<close>

function retry_async_loop ::
  "int \<Rightarrow> (nat \<Rightarrow> pyfloat) \<Rightarrow> (nat \<Rightarrow> audit_exn + 'a) \<Rightarrow> nat \<Rightarrow> pyfloat list \<Rightarrow> (audit_exn + 'a) \<times> nat \<times> pyfloat list" where
  "retry_async_loop attempts delay outcome attempt sleeps =
     (case outcome attempt of
        Inr x \<Rightarrow> (Inr x, attempt, sleeps)
      | Inl exc \<Rightarrow>
          if exc \<noteq> DBAPIError \<or> int attempt \<ge> attempts then (Inl exc, attempt, sleeps)
          else retry_async_loop attempts delay outcome (attempt + 1) (sleeps @ [delay attempt]))"
  by pat_completeness auto
termination
  by (relation "measure (\<lambda>(attempts, _, _, attempt, _). nat (attempts - int attempt))") auto

declare retry_async_loop.simps [simp del]

definition retry_async ::
  "int \<Rightarrow> (nat \<Rightarrow> pyfloat) \<Rightarrow> (nat \<Rightarrow> audit_exn + 'a) \<Rightarrow> (audit_exn + 'a) \<times> nat \<times> pyfloat list" where
  "retry_async attempts delay outcome =
     (if attempts < 1 then (Inl AssertionError, 0, []) else retry_async_loop attempts delay outcome 1 [])"

record audit_config =
  ac_retry_attempts :: int
  ac_base_delay :: pyfloat
  ac_digest8 :: "pystr \<Rightarrow> int"

definition repository_insert ::
  "audit_config \<Rightarrow> AuditEventCreate \<Rightarrow> pystr \<Rightarrow> (nat \<Rightarrow> insert_fault) \<Rightarrow> audit_table \<Rightarrow> (audit_exn + nat) \<times> audit_table" where
  "repository_insert A payload rid faults t =
     (let step = (\<lambda>n. sync_insert payload (faults n));
          r = retry_async (ac_retry_attempts A) (audit_delay (ac_digest8 A) (ac_base_delay A) rid) (attempts_outcome step t)
      in (fst r, attempts_state step t (fst (snd r))))"

text \<open>The keyword arguments of \<^verbatim>\<open>record_event\<close>.\<close>

record audit_request =
  rq_actor_role :: AuditActorRole
  rq_center_scope :: "pystr option"
  rq_action :: AuditAction
  rq_resource_type :: pystr
  rq_resource_id :: pystr
  rq_request_id :: pystr
  rq_outcome :: AuditOutcome
  rq_job_id :: "pystr option"
  rq_error_code :: "pystr option"
  rq_artifact_sha256 :: "pystr option"

definition request_valid :: "audit_request \<Rightarrow> bool" where
  "request_valid rq \<longleftrightarrow>
     validate_identifier (rq_resource_type rq) \<and> validate_identifier (rq_resource_id rq) \<and>
     (case rq_center_scope rq of None \<Rightarrow> True | Some c \<Rightarrow> validate_center c) \<and> request_id_ok (rq_request_id rq)"

definition event_payload :: "int \<Rightarrow> audit_request \<Rightarrow> AuditEventCreate" where
  "event_payload now rq =
     \<lparr>ev_ts = now, ev_actor_role = rq_actor_role rq,
      ev_center_scope = (if rq_center_scope rq = Some [] then None else rq_center_scope rq), ev_action = rq_action rq,
      ev_resource_type = audit_normalize (rq_resource_type rq), ev_resource_id = audit_normalize (rq_resource_id rq),
      ev_job_id = audit_normalize_opt (rq_job_id rq), ev_request_id = rq_request_id rq, ev_outcome = rq_outcome rq,
      ev_error_code = audit_normalize_opt (rq_error_code rq),
      ev_artifact_sha256 = audit_normalize_opt (rq_artifact_sha256 rq)\<rparr>"

definition record_event ::
  "audit_config \<Rightarrow> int \<Rightarrow> (nat \<Rightarrow> insert_fault) \<Rightarrow> audit_request \<Rightarrow> audit_table \<Rightarrow> (audit_exn + nat) \<times> audit_table" where
  "record_event A now faults rq t =
     (if \<not> request_valid rq then (Inl AUDIT_VALIDATION_ERROR, t)
      else repository_insert A (event_payload now rq) (rq_request_id rq) faults t)"

section \<open>Queries\<close>

record AuditQuery =
  aq_from_ts :: "int option"
  aq_to_ts :: "int option"
  aq_actor_role :: "AuditActorRole option"
  aq_action :: "AuditAction option"
  aq_center_scope :: "pystr option"
  aq_outcome :: "AuditOutcome option"
  aq_limit :: "nat option"
  aq_offset :: nat

definition query_matches :: "AuditQuery \<Rightarrow> AuditEventCreate \<Rightarrow> bool" where
  "query_matches q e \<longleftrightarrow>
     (case aq_from_ts q of None \<Rightarrow> True | Some x \<Rightarrow> x \<le> ev_ts e) \<and>
     (case aq_to_ts q of None \<Rightarrow> True | Some x \<Rightarrow> ev_ts e \<le> x) \<and>
     (case aq_actor_role q of None \<Rightarrow> True | Some x \<Rightarrow> ev_actor_role e = x) \<and>
     (case aq_action q of None \<Rightarrow> True | Some x \<Rightarrow> ev_action e = x) \<and>
     (case aq_center_scope q of None \<Rightarrow> True | Some x \<Rightarrow> ev_center_scope e = Some x) \<and>
     (case aq_outcome q of None \<Rightarrow> True | Some x \<Rightarrow> ev_outcome e = x)"

definition fetch_one :: "nat \<Rightarrow> audit_table \<Rightarrow> AuditEvent option" where
  "fetch_one event_id t = find (\<lambda>e. ae_id e = event_id) (at_rows t)"

definition fetch_many :: "AuditQuery \<Rightarrow> audit_table \<Rightarrow> AuditEvent list" where
  "fetch_many q t =
     (let rows = drop (aq_offset q) (sort_key (\<lambda>e. - ev_ts (ae_data e)) (filter (\<lambda>e. query_matches q (ae_data e)) (at_rows t)))
      in case aq_limit q of None \<Rightarrow> rows | Some n \<Rightarrow> take n rows)"

definition stream_events :: "AuditQuery \<Rightarrow> audit_table \<Rightarrow> AuditEvent list" where
  "stream_events q t = sort_key (\<lambda>e. ev_ts (ae_data e)) (filter (\<lambda>e. query_matches q (ae_data e)) (at_rows t))"

section \<open>The retry loop keeps the contract of retrying\<close>

lemma retry_async_loop_shape:
  assumes "retry_async_loop attempts delay outcome n sleeps = (res, calls, sleeps')" and "1 \<le> n" and "int n \<le> attempts"
  shows "n \<le> calls \<and> int calls \<le> attempts \<and>
    (\<forall>k. n \<le> k \<and> k < calls \<longrightarrow> outcome k = Inl DBAPIError) \<and>
    (outcome calls = Inl DBAPIError \<longrightarrow> int calls = attempts) \<and> res = outcome calls \<and>
    sleeps' = sleeps @ map delay [n..<calls]"
  using assms
proof (induction attempts delay outcome n sleeps rule: retry_async_loop.induct)
  case (1 attempts delay outcome n sleeps)
  show ?case
  proof (cases "\<exists>e. outcome n = Inl e \<and> \<not> (e \<noteq> DBAPIError \<or> int n \<ge> attempts)")
    case True
    then have e: "outcome n = Inl DBAPIError" "\<not> int n \<ge> attempts" by auto
    then have run: "retry_async_loop attempts delay outcome (n + 1) (sleeps @ [delay n]) = (res, calls, sleeps')"
      using 1(2) by (subst (asm) retry_async_loop.simps) auto
    have IH: "n + 1 \<le> calls \<and> int calls \<le> attempts \<and>
        (\<forall>k. n + 1 \<le> k \<and> k < calls \<longrightarrow> outcome k = Inl DBAPIError) \<and>
        (outcome calls = Inl DBAPIError \<longrightarrow> int calls = attempts) \<and> res = outcome calls \<and>
        sleeps' = (sleeps @ [delay n]) @ map delay [n + 1..<calls]"
      using 1(1) [OF e(1) _ run] e(2) 1(3) by auto
    have "outcome k = Inl DBAPIError" if "n \<le> k" "k < calls" for k
      using that IH e(1) by (cases "k = n") auto
    then show ?thesis using IH by (simp add: upt_conv_Cons)
  next
    case False
    then have "retry_async_loop attempts delay outcome n sleeps = (outcome n, n, sleeps)"
      by (subst retry_async_loop.simps) (auto split: sum.splits)
    then have "calls = n" "sleeps' = sleeps" "res = outcome n" using 1(2) by auto
    then show ?thesis using 1(3,4) False by auto
  qed
qed

lemma retry_async_shape:
  assumes "1 \<le> attempts"
  shows "let calls = fst (snd (retry_async attempts delay outcome)) in
    1 \<le> calls \<and> int calls \<le> attempts \<and> (\<forall>k. 1 \<le> k \<and> k < calls \<longrightarrow> outcome k = Inl DBAPIError) \<and>
    (outcome calls = Inl DBAPIError \<longrightarrow> int calls = attempts) \<and> fst (retry_async attempts delay outcome) = outcome calls"
proof -
  obtain res calls sleeps where r: "retry_async_loop attempts delay outcome 1 [] = (res, calls, sleeps)"
    by (cases "retry_async_loop attempts delay outcome 1 []")
  show ?thesis using retry_async_loop_shape [OF r] assms r by (simp add: retry_async_def Let_def)
qed

interpretation audit_retry: retrying
  "\<lambda>outcome. fst (snd (retry_async attempts delay outcome))" attempts "\<lambda>e. e = DBAPIError"
  for attempts delay
proof
  fix outcome :: "nat \<Rightarrow> audit_exn + 'a"
  assume "1 \<le> attempts"
  from retry_async_shape [OF this, of delay outcome]
  show "1 \<le> fst (snd (retry_async attempts delay outcome)) \<and> int (fst (snd (retry_async attempts delay outcome))) \<le> attempts \<and>
      (\<forall>k. 1 \<le> k \<and> k < fst (snd (retry_async attempts delay outcome)) \<longrightarrow> (\<exists>e. outcome k = Inl e \<and> e = DBAPIError)) \<and>
      (\<forall>e. outcome (fst (snd (retry_async attempts delay outcome))) = Inl e \<longrightarrow> e = DBAPIError \<longrightarrow>
         int (fst (snd (retry_async attempts delay outcome))) = attempts)"
    by (simp add: Let_def)
qed

section \<open>The log only grows\<close>

definition appended :: "AuditEventCreate \<Rightarrow> nat \<Rightarrow> audit_table \<Rightarrow> audit_table \<Rightarrow> bool" where
  "appended payload k t t' \<longleftrightarrow>
     at_rows t' = at_rows t @ map (\<lambda>i. \<lparr>ae_id = at_next t + i, ae_data = payload\<rparr>) [0..<k] \<and> at_next t' = at_next t + k"

definition audit_wf :: "audit_table \<Rightarrow> bool" where
  "audit_wf t \<longleftrightarrow>
     sorted_wrt (<) (map ae_id (at_rows t)) \<and> (\<forall>e \<in> set (at_rows t). ae_id e < at_next t) \<and>
     (\<forall>e \<in> set (at_rows t). request_id_ok (ev_request_id (ae_data e)) \<and>
        (case ev_center_scope (ae_data e) of None \<Rightarrow> True | Some c \<Rightarrow> c \<noteq> [] \<and> validate_center c))"

lemma appended_refl: "appended payload 0 t t"
  by (simp add: appended_def)

lemma appended_step: "appended payload k t t' \<Longrightarrow> appended payload (Suc k) t (insert_row payload t')"
  by (simp add: appended_def insert_row_def)

definition event_ok :: "AuditEventCreate \<Rightarrow> bool" where
  "event_ok e \<longleftrightarrow> request_id_ok (ev_request_id e) \<and>
     (case ev_center_scope e of None \<Rightarrow> True | Some c \<Rightarrow> c \<noteq> [] \<and> validate_center c)"

lemma event_payload_ok: "request_valid rq \<Longrightarrow> event_ok (event_payload now rq)"
  by (auto simp: request_valid_def event_ok_def event_payload_def split: option.splits)

lemma appended_wf:
  assumes "audit_wf t" and "event_ok payload" and "appended payload k t t'"
  shows "audit_wf t'"
proof -
  have "sorted_wrt (<) (map (\<lambda>i. at_next t + i) [0..<k])" by (simp add: sorted_wrt_map)
  then show ?thesis using assms
    by (auto simp: audit_wf_def appended_def event_ok_def sorted_wrt_append comp_def intro: order.strict_trans2)
qed

lemma find_append: "find P (xs @ ys) = (case find P xs of None \<Rightarrow> find P ys | Some x \<Rightarrow> Some x)"
  by (induction xs) auto

lemma appended_keeps: "appended payload k t t' \<Longrightarrow> fetch_one i t = Some e \<Longrightarrow> fetch_one i t' = Some e"
  by (auto simp: appended_def fetch_one_def find_append)

lemma appended_finds:
  assumes "audit_wf t" and "appended payload k t t'" and "at_next t \<le> i" and "i < at_next t'"
  shows "fetch_one i t' = Some \<lparr>ae_id = i, ae_data = payload\<rparr>"
proof -
  have old: "find (\<lambda>e. ae_id e = i) (at_rows t) = None"
    using assms(1,3) by (auto simp: audit_wf_def find_None_iff)
  have "find (\<lambda>e. ae_id e = i) (map (\<lambda>j. \<lparr>ae_id = n + j, ae_data = payload\<rparr>) [0..<k]) = Some \<lparr>ae_id = i, ae_data = payload\<rparr>"
    if "n \<le> i" "i < n + k" for n
    using that
  proof (induction k)
    case (Suc k)
    have "find (\<lambda>e. ae_id e = n + k) (map (\<lambda>j. \<lparr>ae_id = n + j, ae_data = payload\<rparr>) [0..<k]) = None"
      by (auto simp: find_None_iff)
    then show ?case using Suc by (cases "i = n + k") (auto simp: find_append)
  qed simp
  then show ?thesis using assms(2-4) old by (simp add: fetch_one_def appended_def find_append)
qed

primrec insert_writes :: "(nat \<Rightarrow> insert_fault) \<Rightarrow> nat \<Rightarrow> nat" where
  "insert_writes faults 0 = 0"
| "insert_writes faults (Suc n) =
     (if faults (Suc n) \<in> {Insert_Fine, Insert_Ack_Lost} then Suc (insert_writes faults n) else insert_writes faults n)"

lemma sync_insert_state:
  "snd (sync_insert payload fault t) = (if fault \<in> {Insert_Fine, Insert_Ack_Lost} then insert_row payload t else t)"
  by (cases fault) (simp_all add: sync_insert_def)

lemma sync_insert_result:
  "fst (sync_insert payload fault t) =
     (if fault = Insert_Fine then Inr (at_next t) else if fault = Insert_Broken then Inl AuditOtherError else Inl DBAPIError)"
  by (cases fault) (simp_all add: sync_insert_def)

lemma insert_attempts:
  "appended payload (insert_writes faults n) t (attempts_state (\<lambda>i. sync_insert payload (faults i)) t n)"
  by (induction n) (simp_all add: appended_refl appended_step sync_insert_state)

lemma insert_writes_le: "insert_writes faults n \<le> n"
  by (induction n) auto

lemma insert_writes_refused:
  "\<forall>k. 1 \<le> k \<and> k \<le> n \<longrightarrow> faults k \<notin> {Insert_Fine, Insert_Ack_Lost} \<Longrightarrow> insert_writes faults n = 0"
  by (induction n) auto

text \<open>The calls of one insertion and its outcome.\<close>

lemma repository_insert_cases:
  assumes "1 \<le> ac_retry_attempts A" and "repository_insert A payload rid faults t = (r, t')"
  shows "\<exists>n. 1 \<le> n \<and> int n \<le> ac_retry_attempts A \<and> appended payload (insert_writes faults n) t t' \<and>
    (\<forall>k. 1 \<le> k \<and> k < n \<longrightarrow> faults k \<in> {Insert_Refused, Insert_Ack_Lost}) \<and>
    (faults n \<in> {Insert_Refused, Insert_Ack_Lost} \<longrightarrow> int n = ac_retry_attempts A) \<and>
    r = (if faults n = Insert_Fine then Inr (at_next t' - 1)
         else if faults n = Insert_Broken then Inl AuditOtherError else Inl DBAPIError)"
proof -
  let ?step = "\<lambda>n. sync_insert payload (faults n)"
  let ?o = "attempts_outcome ?step t"
  let ?d = "audit_delay (ac_digest8 A) (ac_base_delay A) rid"
  let ?n = "fst (snd (retry_async (ac_retry_attempts A) ?d ?o))"
  note shape = retry_async_shape [OF assms(1), of ?d ?o, unfolded Let_def]
  have o: "?o k = (if faults k = Insert_Fine then Inr (at_next (attempts_state ?step t (k - 1)))
      else if faults k = Insert_Broken then Inl AuditOtherError else Inl DBAPIError)" for k
    by (simp add: attempts_outcome_def sync_insert_result)
  then have db: "?o k = Inl DBAPIError \<longleftrightarrow> faults k \<in> {Insert_Refused, Insert_Ack_Lost}" for k
    by (cases "faults k") simp_all
  obtain m where m: "?n = Suc m" using shape by (cases ?n) auto
  have t': "t' = attempts_state ?step t (Suc m)" and r: "r = ?o (Suc m)"
    using assms(2) shape m by (auto simp: repository_insert_def Let_def)
  have "at_next (attempts_state ?step t m) = at_next t' - 1" if "faults (Suc m) = Insert_Fine"
    using that unfolding t' by (simp add: sync_insert_state insert_row_def)
  then have "r = (if faults (Suc m) = Insert_Fine then Inr (at_next t' - 1)
      else if faults (Suc m) = Insert_Broken then Inl AuditOtherError else Inl DBAPIError)"
    unfolding r o by simp
  moreover have "appended payload (insert_writes faults (Suc m)) t t'" unfolding t' by (rule insert_attempts)
  ultimately show ?thesis using shape [unfolded m] db by (intro exI [of _ "Suc m"]) blast
qed

lemma repository_insert_appends:
  assumes "1 \<le> ac_retry_attempts A" and "repository_insert A payload rid faults t = (r, t')"
  shows "\<exists>k. appended payload k t t' \<and> int k \<le> ac_retry_attempts A \<and>
    (case r of Inr i \<Rightarrow> 1 \<le> k \<and> i = at_next t' - 1 | Inl e \<Rightarrow> e \<noteq> AUDIT_VALIDATION_ERROR) \<and>
    ((\<forall>n. faults n \<noteq> Insert_Ack_Lost) \<longrightarrow> k = (if isl r then 0 else 1))"
proof -
  from repository_insert_cases [OF assms] obtain n where n: "1 \<le> n" "int n \<le> ac_retry_attempts A"
    and app: "appended payload (insert_writes faults n) t t'"
    and before: "\<forall>k. 1 \<le> k \<and> k < n \<longrightarrow> faults k \<in> {Insert_Refused, Insert_Ack_Lost}"
    and r: "r = (if faults n = Insert_Fine then Inr (at_next t' - 1)
         else if faults n = Insert_Broken then Inl AuditOtherError else Inl DBAPIError)" by blast
  obtain m where m: "n = Suc m" using n(1) by (cases n) auto
  have "insert_writes faults n = (if isl r then 0 else 1)" if "\<forall>n. faults n \<noteq> Insert_Ack_Lost"
  proof -
    have "insert_writes faults m = 0" using before that m by (intro insert_writes_refused) auto
    then show ?thesis using r that m by simp
  qed
  moreover have "int (insert_writes faults n) \<le> ac_retry_attempts A" using insert_writes_le [of faults n] n(2) by linarith
  moreover have "case r of Inr i \<Rightarrow> 1 \<le> insert_writes faults n \<and> i = at_next t' - 1 | Inl e \<Rightarrow> e \<noteq> AUDIT_VALIDATION_ERROR"
    using r m by (auto split: sum.splits if_splits)
  ultimately show ?thesis using app by blast
qed

lemma repository_insert_succeeds:
  assumes "1 \<le> ac_retry_attempts A" and "repository_insert A payload rid faults t = (r, t')"
    and j: "1 \<le> j" "int j \<le> ac_retry_attempts A" "faults j = Insert_Fine" "\<forall>k. 1 \<le> k \<and> k < j \<longrightarrow> faults k \<noteq> Insert_Broken"
  shows "\<not> isl r"
proof -
  from repository_insert_cases [OF assms(1,2)] obtain n where n: "1 \<le> n" "int n \<le> ac_retry_attempts A"
    and before: "\<forall>k. 1 \<le> k \<and> k < n \<longrightarrow> faults k \<in> {Insert_Refused, Insert_Ack_Lost}"
    and final: "faults n \<in> {Insert_Refused, Insert_Ack_Lost} \<longrightarrow> int n = ac_retry_attempts A"
    and r: "r = (if faults n = Insert_Fine then Inr (at_next t' - 1)
         else if faults n = Insert_Broken then Inl AuditOtherError else Inl DBAPIError)" by blast
  consider "j < n" | "n < j" | "n = j" by linarith
  then have "faults n = Insert_Fine"
  proof cases
    case 1
    then show ?thesis using before j(1,3) by force
  next
    case 2
    then have "faults n \<noteq> Insert_Broken" "int n \<noteq> ac_retry_attempts A" using j n(1) by auto
    then show ?thesis using final by (cases "faults n") auto
  qed (use j in simp)
  then show ?thesis using r by simp
qed

lemma record_event_appends:
  assumes "audit_wf t" and "1 \<le> ac_retry_attempts A" and "record_event A now faults rq t = (r, t')"
  shows "audit_wf t' \<and> (\<exists>k. appended (event_payload now rq) k t t' \<and> (\<not> isl r \<longrightarrow> 1 \<le> k) \<and>
    ((\<forall>n. faults n \<noteq> Insert_Ack_Lost) \<longrightarrow> k = (if isl r then 0 else 1)))"
proof (cases "request_valid rq")
  case False
  then show ?thesis using assms by (auto simp: record_event_def intro!: exI [of _ 0] appended_refl)
next
  case True
  then have "repository_insert A (event_payload now rq) (rq_request_id rq) faults t = (r, t')"
    using assms(3) by (simp add: record_event_def)
  from repository_insert_appends [OF assms(2) this] obtain k where k: "appended (event_payload now rq) k t t'"
    "case r of Inr i \<Rightarrow> 1 \<le> k \<and> i = at_next t' - 1 | Inl e \<Rightarrow> e \<noteq> AUDIT_VALIDATION_ERROR"
    "(\<forall>n. faults n \<noteq> Insert_Ack_Lost) \<longrightarrow> k = (if isl r then 0 else 1)" by blast
  then show ?thesis using appended_wf [OF assms(1) event_payload_ok [OF True] k(1)] by (auto split: sum.splits)
qed

lemma record_event_appended:
  assumes "record_event A now faults rq t = (r, t')"
  shows "\<exists>k. appended (event_payload now rq) k t t'"
proof (cases "request_valid rq")
  case True
  then have "t' = attempts_state (\<lambda>i. sync_insert (event_payload now rq) (faults i)) t
      (fst (snd (retry_async (ac_retry_attempts A) (audit_delay (ac_digest8 A) (ac_base_delay A) (rq_request_id rq))
        (attempts_outcome (\<lambda>i. sync_insert (event_payload now rq) (faults i)) t))))"
    using assms by (simp add: record_event_def repository_insert_def Let_def)
  then show ?thesis using insert_attempts by metis
next
  case False
  then show ?thesis using assms appended_refl by (auto simp: record_event_def)
qed

text \<open>
  Recording an event never changes, removes or reorders an event that is in the log. A request that is
  not valid is refused and stores nothing. A valid one appends copies of its event with the next ids, at most
  one for each attempt; exactly one when it succeeds and none when it fails, unless the database loses an answer;
  the id returned is found with the event. It succeeds whenever a first good attempt is within the limit and follows only errors
  that are retried.
\<close>

theorem audit_log_grows:
  assumes "audit_wf t" and "1 \<le> ac_retry_attempts A" and "record_event A now faults rq t = (r, t')"
  shows "audit_wf t' \<and> (\<forall>i e. fetch_one i t = Some e \<longrightarrow> fetch_one i t' = Some e) \<and>
    (\<not> request_valid rq \<longrightarrow> r = Inl AUDIT_VALIDATION_ERROR \<and> t' = t) \<and>
    (request_valid rq \<longrightarrow>
      (\<exists>k. appended (event_payload now rq) k t t' \<and> int k \<le> ac_retry_attempts A \<and>
        (case r of Inr i \<Rightarrow> 1 \<le> k \<and> fetch_one i t' = Some \<lparr>ae_id = i, ae_data = event_payload now rq\<rparr>
         | Inl e \<Rightarrow> e \<noteq> AUDIT_VALIDATION_ERROR) \<and>
        ((\<forall>n. faults n \<noteq> Insert_Ack_Lost) \<longrightarrow> k = (if isl r then 0 else 1))) \<and>
      ((\<exists>n \<ge> 1. int n \<le> ac_retry_attempts A \<and> faults n = Insert_Fine \<and> (\<forall>k. 1 \<le> k \<and> k < n \<longrightarrow> faults k \<noteq> Insert_Broken)) \<longrightarrow>
        \<not> isl r))"
proof (cases "request_valid rq")
  case False
  then show ?thesis using assms(1,3) by (simp add: record_event_def)
next
  case True
  let ?p = "event_payload now rq"
  from assms(3) True have run: "repository_insert A ?p (rq_request_id rq) faults t = (r, t')" by (simp add: record_event_def)
  from repository_insert_appends [OF assms(2) this] obtain k where app: "appended ?p k t t'" and "int k \<le> ac_retry_attempts A"
    and res: "case r of Inr i \<Rightarrow> 1 \<le> k \<and> i = at_next t' - 1 | Inl e \<Rightarrow> e \<noteq> AUDIT_VALIDATION_ERROR"
    and "(\<forall>n. faults n \<noteq> Insert_Ack_Lost) \<longrightarrow> k = (if isl r then 0 else 1)" by blast
  moreover have "fetch_one i t' = Some \<lparr>ae_id = i, ae_data = ?p\<rparr>" if "r = Inr i" for i
  proof -
    have i: "i = at_next t' - 1" "1 \<le> k" using res that by simp_all
    then have "at_next t \<le> i" "i < at_next t'" using app by (auto simp: appended_def)
    then show ?thesis by (rule appended_finds [OF assms(1) app])
  qed
  then have "case r of Inr i \<Rightarrow> 1 \<le> k \<and> fetch_one i t' = Some \<lparr>ae_id = i, ae_data = ?p\<rparr>
      | Inl e \<Rightarrow> e \<noteq> AUDIT_VALIDATION_ERROR"
    using res by (auto split: sum.splits)
  ultimately show ?thesis
    using appended_wf [OF assms(1) event_payload_ok [OF True] app] appended_keeps [OF app] True
      repository_insert_succeeds [OF assms(2) run] by blast
qed

definition sample_audit :: audit_config where
  "sample_audit = \<lparr>ac_retry_attempts = 4, ac_base_delay = 1 / 20, ac_digest8 = (\<lambda>_. 0)\<rparr>"

definition sample_rid :: pystr where
  "sample_rid = replicate 32 97"

definition sample_audit_request :: audit_request where
  "sample_audit_request = \<lparr>rq_actor_role = MANAGER, rq_center_scope = Some (asc ''12''), rq_action = UPLOAD_CREATED,
     rq_resource_type = asc ''upload'', rq_resource_id = asc ''5f3c'', rq_request_id = sample_rid, rq_outcome = Audit_OK,
     rq_job_id = None, rq_error_code = None, rq_artifact_sha256 = None\<rparr>"

definition empty_audit :: audit_table where
  "empty_audit = \<lparr>at_rows = [], at_next = 1\<rparr>"

lemma empty_audit_wf: "audit_wf empty_audit"
  by (simp add: audit_wf_def empty_audit_def)

lemma sample_request_valid: "request_valid sample_audit_request"
  by (simp add: request_valid_def sample_audit_request_def sample_rid_def validate_identifier_def validate_center_def
      request_id_ok_def request_id_core_def hex_char_def py_defs list_all_iff)

text \<open>The database refuses the first attempt.\<close>

theorem audit_log_grows_witness:
  "\<exists>i t'. record_event sample_audit 7 (\<lambda>n. if n = 1 then Insert_Refused else Insert_Fine) sample_audit_request empty_audit =
      (Inr i, t') \<and> fetch_one i t' = Some \<lparr>ae_id = i, ae_data = event_payload 7 sample_audit_request\<rparr>"
proof -
  let ?f = "\<lambda>n :: nat. if n = 1 then Insert_Refused else Insert_Fine"
  obtain r t' where run: "record_event sample_audit 7 ?f sample_audit_request empty_audit = (r, t')"
    by (cases "record_event sample_audit 7 ?f sample_audit_request empty_audit")
  have a: "ac_retry_attempts sample_audit = 4" by (simp add: sample_audit_def)
  have l: "1 \<le> ac_retry_attempts sample_audit" using a by simp
  have good: "\<exists>n \<ge> 1. int n \<le> ac_retry_attempts sample_audit \<and> ?f n = Insert_Fine \<and>
      (\<forall>k. 1 \<le> k \<and> k < n \<longrightarrow> ?f k \<noteq> Insert_Broken)"
    by (intro exI [of _ 2]) (simp add: a)
  note all = audit_log_grows [OF empty_audit_wf l run]
  then have "\<not> isl r" using sample_request_valid good by blast
  then obtain i where "r = Inr i" by (cases r) auto
  then show ?thesis using all sample_request_valid run by auto
qed

text \<open>An answer lost after the commit makes the retry store the event a second time.\<close>

lemma lost_answer_duplicates:
  "case record_event sample_audit 7 (\<lambda>n. if n = 1 then Insert_Ack_Lost else Insert_Fine) sample_audit_request empty_audit of
     (Inr i, t') \<Rightarrow> map ae_data (at_rows t') = replicate 2 (event_payload 7 sample_audit_request) | (Inl _, _) \<Rightarrow> False"
proof -
  let ?f = "\<lambda>n :: nat. if n = 1 then Insert_Ack_Lost else Insert_Fine"
  let ?p = "event_payload 7 sample_audit_request"
  obtain r t' where run: "repository_insert sample_audit ?p sample_rid ?f empty_audit = (r, t')"
    by (cases "repository_insert sample_audit ?p sample_rid ?f empty_audit")
  have a: "ac_retry_attempts sample_audit = 4" by (simp add: sample_audit_def)
  from repository_insert_cases [OF _ run] obtain n where n: "1 \<le> n" "appended ?p (insert_writes ?f n) empty_audit t'"
    "\<forall>k. 1 \<le> k \<and> k < n \<longrightarrow> ?f k \<in> {Insert_Refused, Insert_Ack_Lost}"
    "?f n \<in> {Insert_Refused, Insert_Ack_Lost} \<longrightarrow> int n = 4"
    "r = (if ?f n = Insert_Fine then Inr (at_next t' - 1) else if ?f n = Insert_Broken then Inl AuditOtherError else Inl DBAPIError)"
    unfolding a by auto
  have "n \<noteq> 1" using n(4) by auto
  moreover have "\<not> 2 < n"
  proof
    assume "2 < n"
    then show False using n(3) [rule_format, of 2] by simp
  qed
  ultimately have "n = 2" using n(1) by simp
  then have "insert_writes ?f n = 2" by (simp add: numeral_2_eq_2)
  then have "map ae_data (at_rows t') = replicate 2 ?p" using n(2) by (simp add: appended_def empty_audit_def numeral_2_eq_2)
  moreover have "\<exists>i. r = Inr i" using n(5) \<open>n = 2\<close> by simp
  moreover have "rq_request_id sample_audit_request = sample_rid" by (simp add: sample_audit_request_def)
  ultimately show ?thesis using run sample_request_valid by (auto simp: record_event_def)
qed

end
