(* ===== verification/Audit_Export.thy ===== *)
theory Audit_Export
  imports Audit_Events PyCsv "HOL-Library.AList"
begin

text \<open>
  \<^verbatim>\<open>audit/exporter.py\<close> and \<^verbatim>\<open>release_manifest.py\<close>: exports of the audit log to CSV and JSON files, and the manifest
  \<^verbatim>\<open>release.json\<close> that lists them. A disk maps paths to files. A file that the program writes with \<^verbatim>\<open>json.dumps\<close> and
  reads back is kept as the value it stands for (\<open>Doc\<close>), any other by its bytes (\<open>Raw\<close>), which \<^verbatim>\<open>json.loads\<close> is taken to
  refuse. Writes go to a temporary file that is renamed, so that a write happens or fails as a whole. The texts of times and
  SHA-256 are parameters.
\<close>

section \<open>Files\<close>

datatype disk_file = Raw bytes | Doc json

type_synonym disk = "pystr \<rightharpoonup> disk_file"

datatype file_exn =
    Event_Error audit_exn | AUDIT_EXPORT_ERROR | StreamError | FileError | UnicodeEncodeError | JSONDecodeError
  | MalformedDocument

text \<open>What an atomic write meets: it works, fails before the rename, or fails when the new file is looked at.\<close>

datatype file_fault = File_Fine | File_Fails | File_Stat_Fails

definition doc_bytes :: "json \<Rightarrow> bytes option" where
  "doc_bytes j = Option.bind (dumps (asc '','') (asc '':'') j) utf8_encode"

definition file_bytes :: "disk_file \<Rightarrow> bytes option" where
  "file_bytes f = (case f of Raw bs \<Rightarrow> Some bs | Doc j \<Rightarrow> doc_bytes j)"

definition atomic_write_text :: "file_fault \<Rightarrow> pystr \<Rightarrow> pystr \<Rightarrow> disk \<Rightarrow> (file_exn + nat) \<times> disk" where
  "atomic_write_text fault path content d =
     (if fault = File_Fails then (Inl FileError, d)
      else case utf8_encode content of
        None \<Rightarrow> (Inl UnicodeEncodeError, d)
      | Some bs \<Rightarrow> (if fault = File_Stat_Fails then Inl FileError else Inr (length bs), d(path \<mapsto> Raw bs)))"

definition save_doc :: "file_fault \<Rightarrow> pystr \<Rightarrow> json \<Rightarrow> disk \<Rightarrow> (file_exn + nat) \<times> disk" where
  "save_doc fault path j d =
     (if fault = File_Fails then (Inl FileError, d)
      else case doc_bytes j of
        None \<Rightarrow> (Inl UnicodeEncodeError, d)
      | Some bs \<Rightarrow> (if fault = File_Stat_Fails then Inl FileError else Inr (length bs), d(path \<mapsto> Doc j)))"

definition load_doc :: "pystr \<Rightarrow> disk \<Rightarrow> file_exn + json option" where
  "load_doc path d =
     (case d path of None \<Rightarrow> Inr None | Some (Raw _) \<Rightarrow> Inl JSONDecodeError | Some (Doc j) \<Rightarrow> Inr (Some j))"

section \<open>The release manifest\<close>

record ManifestEntry =
  me_name :: pystr
  me_sha256 :: pystr
  me_size :: int
  me_ts :: pystr
  me_kind :: pystr

definition entry_json :: "ManifestEntry \<Rightarrow> json" where
  "entry_json e =
     JDict [(asc ''name'', JStr (me_name e)), (asc ''sha256'', JStr (me_sha256 e)), (asc ''size'', JInt (me_size e)),
            (asc ''ts'', JStr (me_ts e)), (asc ''kind'', JStr (me_kind e))]"

definition setdefault :: "pystr \<Rightarrow> json \<Rightarrow> (pystr \<times> json) list \<Rightarrow> (pystr \<times> json) list" where
  "setdefault k v m = (case map_of m k of None \<Rightarrow> m @ [(k, v)] | Some _ \<Rightarrow> m)"

text \<open>The elements a loop over a value sees, if it is iterable.\<close>

definition iter_items :: "json \<Rightarrow> json list option" where
  "iter_items j =
     (case j of JList xs \<Rightarrow> Some xs | JStr s \<Rightarrow> Some (map (\<lambda>c. JStr [c]) s) | JDict m \<Rightarrow> Some (map (JStr \<circ> fst) m) | _ \<Rightarrow> None)"

definition is_dict :: "json \<Rightarrow> bool" where
  "is_dict j \<longleftrightarrow> (case j of JDict _ \<Rightarrow> True | _ \<Rightarrow> False)"

definition item_get :: "json \<Rightarrow> pystr \<Rightarrow> json option" where
  "item_get item k = (case item of JDict m \<Rightarrow> map_of m k | _ \<Rightarrow> None)"

definition str_field :: "pystr \<Rightarrow> json \<Rightarrow> pystr option" where
  "str_field k item = (case item_get item k of Some (JStr s) \<Rightarrow> Some s | _ \<Rightarrow> None)"

text \<open>
  The item with the given text under a key is replaced, and the list is sorted by the texts under another key;
  \<open>None\<close> where an item is no dict (\<^verbatim>\<open>item.get\<close>) or has no text to sort by.
\<close>

definition sort_text :: "pystr \<Rightarrow> json \<Rightarrow> pystr" where
  "sort_text k item = (case str_field k item of Some s \<Rightarrow> s | None \<Rightarrow> [])"

definition replace_item :: "pystr \<Rightarrow> pystr \<Rightarrow> pystr \<Rightarrow> json \<Rightarrow> json list \<Rightarrow> json list option" where
  "replace_item k v order item items =
     (if \<not> list_all is_dict items then None
      else let section = filter (\<lambda>i. item_get i k \<noteq> Some (JStr v)) items @ [item]
           in if \<not> list_all (\<lambda>i. str_field order i \<noteq> None) section then None
              else Some (sort_key (sort_text order) section))"

definition release_merge :: "ManifestEntry \<Rightarrow> json option \<Rightarrow> file_exn + json" where
  "release_merge e doc =
     (case (case doc of None \<Rightarrow> JDict [(asc ''audit'', JDict [(asc ''artifacts'', JList [])])] | Some j \<Rightarrow> j) of
        JDict m0 \<Rightarrow>
          let m = setdefault (asc ''audit'') (JDict []) m0
          in (case map_of m (asc ''audit'') of
                Some (JDict a0) \<Rightarrow>
                  let a = setdefault (asc ''artifacts'') (JList []) a0
                  in (case Option.bind (iter_items (the (map_of a (asc ''artifacts''))))
                             (replace_item (asc ''name'') (me_name e) (asc ''name'') (entry_json e)) of
                        None \<Rightarrow> Inl MalformedDocument
                      | Some section \<Rightarrow>
                          Inr (JDict (AList.update (asc ''audit'')
                            (JDict (AList.update (asc ''artifacts'') (JList section) a)) m)))
              | _ \<Rightarrow> Inl MalformedDocument)
      | _ \<Rightarrow> Inl MalformedDocument)"

definition release_update :: "file_fault \<Rightarrow> pystr \<Rightarrow> ManifestEntry \<Rightarrow> disk \<Rightarrow> (file_exn + nat) \<times> disk" where
  "release_update fault path e d =
     (case load_doc path d of
        Inl x \<Rightarrow> (Inl x, d)
      | Inr doc \<Rightarrow> (case release_merge e doc of Inl x \<Rightarrow> (Inl x, d) | Inr j \<Rightarrow> save_doc fault path (sort_keys j) d))"

section \<open>Rows\<close>

record audit_lib =
  al_iso :: "int \<Rightarrow> pystr"
  al_stamp :: "int \<Rightarrow> pystr"
  al_sha256 :: "bytes \<Rightarrow> pystr"

definition safe_value :: "pystr \<Rightarrow> pystr" where
  "safe_value v =
     (let sanitized = py_strip (remove_chars [8204] v)
      in if sanitized \<noteq> [] \<and> hd sanitized \<in> set (asc ''=+-@'') then 39 # sanitized else sanitized)"

definition or_empty :: "pystr option \<Rightarrow> pystr" where
  "or_empty v = (case v of None \<Rightarrow> [] | Some s \<Rightarrow> s)"

definition audit_header :: "pystr list" where
  "audit_header =
     [asc ''ts'', asc ''actor_role'', asc ''center_scope'', asc ''action'', asc ''resource_type'', asc ''resource_id'',
      asc ''job_id'', asc ''request_id'', asc ''outcome'', asc ''error_code'', asc ''artifact_sha256'']"

definition audit_csv_row :: "audit_lib \<Rightarrow> AuditEvent \<Rightarrow> pystr list" where
  "audit_csv_row L event =
     (let e = ae_data event
      in [al_iso L (ev_ts e), role_value (ev_actor_role e), or_empty (ev_center_scope e), action_value (ev_action e),
          safe_value (ev_resource_type e), safe_value (ev_resource_id e), safe_value (or_empty (ev_job_id e)),
          safe_value (ev_request_id e), outcome_value (ev_outcome e), safe_value (or_empty (ev_error_code e)),
          safe_value (or_empty (ev_artifact_sha256 e))])"

definition audit_json_row :: "audit_lib \<Rightarrow> AuditEvent \<Rightarrow> json" where
  "audit_json_row L event =
     JDict ((asc ''id'', JStr (py_str_int (int (ae_id event)))) # zip audit_header (map JStr (audit_csv_row L event)))"

definition csv_content :: "audit_lib \<Rightarrow> bool \<Rightarrow> AuditEvent list \<Rightarrow> pystr" where
  "csv_content L bom events =
     (if bom then [65279] else []) @ concat (map (csv_row [13, 10]) (audit_header # map (audit_csv_row L) events))"

definition json_content :: "audit_lib \<Rightarrow> bool \<Rightarrow> AuditEvent list \<Rightarrow> pystr option" where
  "json_content L bom events =
     map_option (\<lambda>payloads. (if bom then [65279] else []) @ asc ''['' @ join [44, 13, 10] payloads @ asc '']'')
       (those (map (\<lambda>e. dumps (asc '','') (asc '':'') (audit_json_row L e)) events))"

section \<open>Exporting\<close>

record audit_system =
  as_table :: audit_table
  as_disk :: disk

record export_setup =
  xs_audit :: audit_config
  xs_exports_dir :: pystr
  xs_release_path :: pystr

text \<open>The arguments of \<^verbatim>\<open>export\<close>, and what a call meets: the readings of the clock and the faults of its steps.\<close>

record export_call =
  xr_fmt :: pystr
  xr_query :: AuditQuery
  xr_bom :: bool
  xr_rid :: pystr
  xr_actor_role :: AuditActorRole
  xr_center_scope :: "pystr option"
  xr_job_id :: "pystr option"

record export_world =
  xw_clock :: "nat \<Rightarrow> int"
  xw_start :: "nat \<Rightarrow> insert_fault"
  xw_stream_fails :: bool
  xw_file :: file_fault
  xw_release :: file_fault
  xw_final :: "nat \<Rightarrow> insert_fault"
  xw_error :: "nat \<Rightarrow> insert_fault"

record AuditExportResult =
  er_path :: pystr
  er_sha256 :: pystr
  er_size :: nat

definition export_event ::
  "export_call \<Rightarrow> AuditAction \<Rightarrow> pystr \<Rightarrow> AuditOutcome \<Rightarrow> pystr option \<Rightarrow> pystr option \<Rightarrow> audit_request" where
  "export_event c action resource_id outcome error_code sha =
     \<lparr>rq_actor_role = xr_actor_role c, rq_center_scope = xr_center_scope c, rq_action = action,
      rq_resource_type = asc ''audit'', rq_resource_id = resource_id, rq_request_id = xr_rid c, rq_outcome = outcome,
      rq_job_id = xr_job_id c, rq_error_code = error_code, rq_artifact_sha256 = sha\<rparr>"

definition export_file :: "audit_lib \<Rightarrow> int \<Rightarrow> bool \<Rightarrow> pystr" where
  "export_file L now csv =
     asc ''audit_export_'' @ al_stamp L now @ (if csv then asc ''.csv'' else asc ''.json'')"

definition export_path :: "audit_lib \<Rightarrow> export_setup \<Rightarrow> int \<Rightarrow> bool \<Rightarrow> pystr" where
  "export_path L S now csv = xs_exports_dir S @ asc ''/'' @ export_file L now csv"

definition export_to_file ::
  "audit_lib \<Rightarrow> export_setup \<Rightarrow> export_world \<Rightarrow> export_call \<Rightarrow> bool \<Rightarrow> audit_table \<Rightarrow> disk \<Rightarrow>
   (file_exn + AuditExportResult) \<times> disk" where
  "export_to_file L S W c csv t d =
     (let path = export_path L S (xw_clock W 1) csv; events = stream_events (xr_query c) t
      in if xw_stream_fails W then (Inl StreamError, d)
         else case (if csv then Some (csv_content L (xr_bom c) events) else json_content L (xr_bom c) events) of
           None \<Rightarrow> (Inl MalformedDocument, d)
         | Some content \<Rightarrow>
             (case atomic_write_text (xw_file W) path content d of
                (Inl x, d1) \<Rightarrow> (Inl x, d1)
              | (Inr n, d1) \<Rightarrow>
                  (case Option.bind (d1 path) file_bytes of
                     None \<Rightarrow> (Inl FileError, d1)
                   | Some bs \<Rightarrow> (Inr \<lparr>er_path = path, er_sha256 = al_sha256 L bs, er_size = n\<rparr>, d1))))"

definition export_steps ::
  "audit_lib \<Rightarrow> export_setup \<Rightarrow> export_world \<Rightarrow> export_call \<Rightarrow> bool \<Rightarrow> audit_system \<Rightarrow>
   (file_exn + AuditExportResult) \<times> audit_system" where
  "export_steps L S W c csv sys =
     (case export_to_file L S W c csv (as_table sys) (as_disk sys) of
        (Inl x, d1) \<Rightarrow> (Inl x, sys\<lparr>as_disk := d1\<rparr>)
      | (Inr res, d1) \<Rightarrow>
          (let entry = \<lparr>me_name = er_path res, me_sha256 = er_sha256 res, me_size = int (er_size res),
                        me_ts = al_iso L (xw_clock W 2),
                        me_kind = (if csv then asc ''audit-export-csv'' else asc ''audit-export-json'')\<rparr>
           in case release_update (xw_release W) (xs_release_path S) entry d1 of
             (Inl x, d2) \<Rightarrow> (Inl x, sys\<lparr>as_disk := d2\<rparr>)
           | (Inr _, d2) \<Rightarrow>
               (case record_event (xs_audit S) (xw_clock W 3) (xw_final W)
                       (export_event c EXPORT_FINALIZED (export_file L (xw_clock W 1) csv) Audit_OK None (Some (er_sha256 res)))
                       (as_table sys) of
                  (Inl x, t) \<Rightarrow> (Inl (Event_Error x), \<lparr>as_table = t, as_disk = d2\<rparr>)
                | (Inr _, t) \<Rightarrow> (Inr res, \<lparr>as_table = t, as_disk = d2\<rparr>))))"

definition audit_export ::
  "ucd \<Rightarrow> audit_lib \<Rightarrow> export_setup \<Rightarrow> export_world \<Rightarrow> export_call \<Rightarrow> audit_system \<Rightarrow>
   (file_exn + AuditExportResult) \<times> audit_system" where
  "audit_export U L S W c sys =
     (let fmt = u_lower U (xr_fmt c)
      in if fmt \<notin> {asc ''csv'', asc ''json''} then (Inl AUDIT_EXPORT_ERROR, sys)
         else case record_event (xs_audit S) (xw_clock W 0) (xw_start W)
                     (export_event c EXPORT_STARTED (asc ''events'') Audit_OK None None) (as_table sys) of
           (Inl x, t) \<Rightarrow> (Inl (Event_Error x), sys\<lparr>as_table := t\<rparr>)
         | (Inr _, t) \<Rightarrow>
             (case export_steps L S W c (fmt = asc ''csv'') (sys\<lparr>as_table := t\<rparr>) of
                (Inr res, sys1) \<Rightarrow> (Inr res, sys1)
              | (Inl x, sys1) \<Rightarrow>
                  (case record_event (xs_audit S) (xw_clock W 4) (xw_error W)
                          (export_event c EXPORT_FINALIZED (asc ''events'') Audit_ERROR (Some (asc ''EXPORT_FAILURE'')) None)
                          (as_table sys1) of
                     (Inl y, t2) \<Rightarrow> (Inl (Event_Error y), sys1\<lparr>as_table := t2\<rparr>)
                   | (Inr _, t2) \<Rightarrow> (Inl x, sys1\<lparr>as_table := t2\<rparr>))))"

section \<open>The manifest refines a table of entries\<close>

definition entry_of :: "json \<Rightarrow> ManifestEntry option" where
  "entry_of item =
     (case (str_field (asc ''name'') item, str_field (asc ''sha256'') item, item_get item (asc ''size''),
            str_field (asc ''ts'') item, str_field (asc ''kind'') item) of
        (Some n, Some s, Some (JInt z), Some t, Some k) \<Rightarrow>
          Some \<lparr>me_name = n, me_sha256 = s, me_size = z, me_ts = t, me_kind = k\<rparr>
      | _ \<Rightarrow> None)"

text \<open>The entries a manifest lists; \<open>None\<close> where it does not have the form the program gives it.\<close>

definition release_view :: "json option \<Rightarrow> ManifestEntry list option" where
  "release_view doc =
     (case doc of
        None \<Rightarrow> Some []
      | Some (JDict m) \<Rightarrow>
          (case map_of m (asc ''audit'') of
             None \<Rightarrow> Some []
           | Some (JDict a) \<Rightarrow>
               (case map_of a (asc ''artifacts'') of
                  None \<Rightarrow> Some []
                | Some (JList items) \<Rightarrow> those (map entry_of items)
                | _ \<Rightarrow> None)
           | _ \<Rightarrow> None)
      | _ \<Rightarrow> None)"

lemma map_of_sort_key: "map_of (sort_key fst kvs) k = map_of kvs (k :: 'a :: linorder)"
proof -
  have "map_of xs k = map_option snd (find (\<lambda>x. fst x = k) xs)" for xs :: "('a \<times> 'b) list"
    by (induction xs) auto
  moreover have "find P xs = (case filter P xs of [] \<Rightarrow> None | x # _ \<Rightarrow> Some x)" for P and xs :: "('a \<times> 'b) list"
    by (induction xs) auto
  moreover have "filter (\<lambda>x. fst x = k) (sort_key fst kvs) = filter (\<lambda>x. fst x = k) kvs" by (rule sort_key_stable)
  ultimately show ?thesis by simp
qed

lemma map_of_sort_keys:
  "map_of (sort_key fst (map (\<lambda>(k, v). (k, sort_keys v)) kvs)) k = map_option sort_keys (map_of kvs k)"
  unfolding map_of_sort_key by (induction kvs) auto

lemma item_get_sort_keys: "item_get (sort_keys item) k = map_option sort_keys (item_get item k)"
  by (cases item) (simp_all add: item_get_def map_of_sort_keys)

lemma sort_keys_leaf [simp]: "sort_keys v = JStr s \<longleftrightarrow> v = JStr s" "sort_keys v = JInt i \<longleftrightarrow> v = JInt i"
  by (cases v; simp)+

lemma str_field_Some: "str_field k item = Some s \<longleftrightarrow> item_get item k = Some (JStr s)"
  by (auto simp: str_field_def split: option.splits json.splits)

lemma str_field_sort_keys: "str_field k (sort_keys item) = str_field k item"
proof (cases "str_field k (sort_keys item)")
  case None
  then have "str_field k item \<noteq> Some s" for s
    by (metis None item_get_sort_keys option.distinct(1) option.simps(9) sort_keys_leaf(1) str_field_Some)
  then have "str_field k item = None" by (cases "str_field k item") blast+
  then show ?thesis using None by simp
next
  case (Some s)
  then have "str_field k item = Some s" by (auto simp: str_field_Some item_get_sort_keys)
  then show ?thesis using Some by simp
qed

lemma entry_of_Some:
  "entry_of item = Some e \<longleftrightarrow>
     str_field (asc ''name'') item = Some (me_name e) \<and> str_field (asc ''sha256'') item = Some (me_sha256 e) \<and>
     item_get item (asc ''size'') = Some (JInt (me_size e)) \<and> str_field (asc ''ts'') item = Some (me_ts e) \<and>
     str_field (asc ''kind'') item = Some (me_kind e)"
  by (auto simp: entry_of_def split: option.splits json.splits)

lemma entry_of_sort_keys: "entry_of item = Some e \<Longrightarrow> entry_of (sort_keys item) = Some e"
  by (simp add: entry_of_Some str_field_sort_keys item_get_sort_keys)

lemma entry_of_entry_json: "entry_of (entry_json e) = Some e"
  by (simp add: entry_of_Some str_field_def item_get_def entry_json_def py_defs)

lemma entry_of_dict: "entry_of item = Some e \<Longrightarrow> is_dict item"
  by (cases item) (simp_all add: entry_of_Some str_field_def item_get_def is_dict_def)

lemma those_map_Some: "those (map f xs) = Some ys \<longleftrightarrow> list_all2 (\<lambda>x y. f x = Some y) xs ys"
  by (induction xs arbitrary: ys) (auto simp: list_all2_Cons1 split: option.splits)

lemma insort_key_map2:
  assumes "list_all2 (\<lambda>x y. g x = Some y) xs ys" and "g x = Some y" and "\<And>x y. g x = Some y \<Longrightarrow> k x = h y"
  shows "list_all2 (\<lambda>x y. g x = Some y) (insort_key k x xs) (insort_key h y ys)"
  using assms(1) by induction (use assms(2,3) in auto)

lemma sort_key_map2:
  assumes "list_all2 (\<lambda>x y. g x = Some y) xs ys" and "\<And>x y. g x = Some y \<Longrightarrow> k x = h y"
  shows "list_all2 (\<lambda>x y. g x = Some y) (sort_key k xs) (sort_key h ys)"
  using assms(1) by induction (simp_all add: insort_key_map2 assms(2))

lemma filter_map2:
  assumes "list_all2 R xs ys" and "\<And>x y. R x y \<Longrightarrow> P x = Q y"
  shows "list_all2 R (filter P xs) (filter Q ys)"
  using assms(1) by induction (use assms(2) in auto)

lemma those_app: "those (map f xs) = Some ys \<Longrightarrow> (\<And>x y. f x = Some y \<Longrightarrow> f (h x) = Some y) \<Longrightarrow> those (map f (map h xs)) = Some ys"
  by (auto simp: those_map_Some list_all2_map1 elim: list_all2_mono)

text \<open>A list of items that stand for records: replacing an item replaces the record.\<close>

definition put_record :: "('r \<Rightarrow> pystr) \<Rightarrow> ('r \<Rightarrow> pystr) \<Rightarrow> 'r \<Rightarrow> 'r list \<Rightarrow> 'r list" where
  "put_record name order e es = sort_key order (filter (\<lambda>x. name x \<noteq> name e) es @ [e])"

lemma replace_item_view:
  assumes items: "those (map f items) = Some es" and item: "f item = Some e"
    and law: "\<And>i x. f i = Some x \<Longrightarrow> is_dict i \<and> str_field k i = Some (name x) \<and> str_field s i = Some (order x)"
  shows "\<exists>its. replace_item k (name e) s item items = Some its \<and>
    those (map f its) = Some (put_record name order e es)"
proof -
  let ?R = "\<lambda>i x. f i = Some x" and ?kept = "filter (\<lambda>i. item_get i k \<noteq> Some (JStr (name e))) items"
  have all: "list_all2 ?R items es" using items by (simp add: those_map_Some)
  then have ex: "\<exists>x. f i = Some x" if "i \<in> set items" for i
    using that by (auto simp: list_all2_conv_all_nth in_set_conv_nth)
  have "list_all is_dict items" using ex law by (fastforce simp: list_all_iff)
  moreover have "list_all (\<lambda>i. str_field s i \<noteq> None) (?kept @ [item])"
    using ex law item by (fastforce simp: list_all_iff)
  moreover have "list_all2 ?R ?kept (filter (\<lambda>x. name x \<noteq> name e) es)"
  proof (rule filter_map2 [OF all])
    fix i x assume "f i = Some x"
    then have "item_get i k = Some (JStr (name x))" using law by (simp add: str_field_Some)
    then show "(item_get i k \<noteq> Some (JStr (name e))) = (name x \<noteq> name e)" by simp
  qed
  then have "list_all2 ?R (?kept @ [item]) (filter (\<lambda>x. name x \<noteq> name e) es @ [e])"
    using item by (intro list_all2_appendI) simp_all
  then have "list_all2 ?R (sort_key (sort_text s) (?kept @ [item])) (put_record name order e es)"
    unfolding put_record_def by (rule sort_key_map2) (simp add: sort_text_def law)
  ultimately show ?thesis by (simp add: replace_item_def Let_def those_map_Some)
qed

lemma put_record_set: "set (put_record name order e es) = {x \<in> set es. name x \<noteq> name e} \<union> {e}"
  by (auto simp: put_record_def)

lemma map_of_setdefault:
  "map_of (setdefault k v m) j = (if j = k \<and> map_of m k = None then Some v else map_of m j)"
  by (auto simp: setdefault_def map_of_append map_add_def split: option.splits)

lemma map_of_update: "map_of (AList.update k v m) j = (if j = k then Some v else map_of m j)"
  by (simp add: update_conv')

text \<open>
  One update of the manifest replaces the entry of its name and keeps the others, in the order of the
  names; the other sections of the file stay.
\<close>

lemma release_merge_view:
  assumes "release_view doc = Some es"
  shows "\<exists>j. release_merge e doc = Inr j \<and> release_view (Some (sort_keys j)) = Some (put_record me_name me_name e es)"
proof -
  obtain m0 where m0: "(case doc of None \<Rightarrow> JDict [(asc ''audit'', JDict [(asc ''artifacts'', JList [])])] | Some j \<Rightarrow> j) = JDict m0"
    using assms by (cases doc) (auto simp: release_view_def split: json.splits)
  let ?m = "setdefault (asc ''audit'') (JDict []) m0"
  obtain a0 where a0: "map_of ?m (asc ''audit'') = Some (JDict a0)"
    using assms m0 by (cases doc) (auto simp: release_view_def map_of_setdefault split: json.splits option.splits)
  let ?a = "setdefault (asc ''artifacts'') (JList []) a0"
  obtain items where items: "map_of ?a (asc ''artifacts'') = Some (JList items)" "those (map entry_of items) = Some es"
  proof (cases doc)
    case None
    then show ?thesis using assms m0 a0 that by (auto simp: release_view_def map_of_setdefault py_defs)
  next
    case (Some j)
    then show ?thesis using assms m0 a0 that
      by (auto simp: release_view_def map_of_setdefault split: json.splits option.splits if_splits)
  qed
  obtain its where s: "replace_item (asc ''name'') (me_name e) (asc ''name'') (entry_json e) items = Some its"
    "those (map entry_of its) = Some (put_record me_name me_name e es)"
    using replace_item_view [OF items(2) entry_of_entry_json, where name = me_name and order = me_name] entry_of_dict
    by (force simp: entry_of_Some)
  have "release_merge e doc = Inr (JDict (AList.update (asc ''audit'')
      (JDict (AList.update (asc ''artifacts'') (JList its) ?a)) ?m))"
    using s(1) by (simp add: release_merge_def m0 a0 items(1) Let_def iter_items_def)
  moreover have "those (map entry_of (map sort_keys its)) = Some (put_record me_name me_name e es)"
    using s(2) by (rule those_app) (rule entry_of_sort_keys)
  ultimately show ?thesis
    by (simp add: release_view_def map_of_sort_keys map_of_update)
qed

lemma release_merge_other:
  assumes "release_merge e (Some (JDict m)) = Inr j" and "k \<noteq> asc ''audit''"
  shows "item_get (sort_keys j) k = map_option sort_keys (map_of m k)"
  using assms by (auto simp: release_merge_def Let_def item_get_def map_of_sort_keys map_of_update map_of_setdefault
      split: option.splits json.splits if_splits)

definition disk_view :: "pystr \<Rightarrow> disk \<Rightarrow> ManifestEntry list option" where
  "disk_view path d = (case load_doc path d of Inl _ \<Rightarrow> None | Inr doc \<Rightarrow> release_view doc)"

lemma save_doc_cases:
  assumes "save_doc fault path j d = (r, d')"
  shows "d' = d \<and> isl r \<or> d' = d(path \<mapsto> Doc j)" and "\<not> isl r \<Longrightarrow> fault = File_Fine \<and> d' = d(path \<mapsto> Doc j)"
  using assms by (cases fault; auto simp: save_doc_def split: if_splits option.splits)+

lemma release_update_disk:
  assumes "release_update fault path e d = (r, d')"
  shows "\<forall>p. p \<noteq> path \<longrightarrow> d' p = d p"
  using assms by (auto simp: release_update_def dest: save_doc_cases(1) split: sum.splits)

lemma release_update_view:
  assumes "release_update fault path e d = (r, d')" and "disk_view path d = Some es"
  shows "disk_view path d' = Some (if isl r \<and> d' = d then es else put_record me_name me_name e es)"
proof -
  obtain doc where doc: "load_doc path d = Inr doc" "release_view doc = Some es"
    using assms(2) by (auto simp: disk_view_def split: sum.splits)
  obtain j where j: "release_merge e doc = Inr j" "release_view (Some (sort_keys j)) = Some (put_record me_name me_name e es)"
    using release_merge_view [OF doc(2)] by blast
  have s: "save_doc fault path (sort_keys j) d = (r, d')" using assms(1) doc(1) j(1) by (simp add: release_update_def)
  have "disk_view path (d(path \<mapsto> Doc (sort_keys j))) = Some (put_record me_name me_name e es)"
    using j(2) by (simp add: disk_view_def load_doc_def)
  then show ?thesis using save_doc_cases [OF s] assms(2) doc(2) by (auto simp: disk_view_def)
qed

section \<open>An export is exact\<close>

lemma drop_bom: "(if bom then drop 1 else id) ((if bom then [c] else []) @ s) = s"
  by simp

lemma csv_content_reads:
  "csv_read ((if bom then drop 1 else id) (csv_content L bom events)) = Some (audit_header # map (audit_csv_row L) events)"
  unfolding csv_content_def drop_bom
  by (rule csv_rows_read) (auto simp: list_all_iff audit_header_def audit_csv_row_def Let_def)

lemma audit_json_row_dumps: "\<exists>s. dumps is ks (audit_json_row L e) = Some s"
  by (simp add: audit_json_row_def audit_csv_row_def audit_header_def Let_def)

definition export_text :: "audit_lib \<Rightarrow> bool \<Rightarrow> bool \<Rightarrow> AuditEvent list \<Rightarrow> pystr option" where
  "export_text L csv bom events = (if csv then Some (csv_content L bom events) else json_content L bom events)"

lemma export_to_file_ok:
  assumes "export_to_file L S W c csv t d = (Inr res, d')"
  shows "\<exists>content bs. export_text L csv (xr_bom c) (stream_events (xr_query c) t) = Some content \<and>
    utf8_encode content = Some bs \<and> d' = d(export_path L S (xw_clock W 1) csv \<mapsto> Raw bs) \<and>
    res = \<lparr>er_path = export_path L S (xw_clock W 1) csv, er_sha256 = al_sha256 L bs, er_size = length bs\<rparr>"
  using assms
  by (auto simp: export_to_file_def Let_def export_text_def atomic_write_text_def file_bytes_def
      split: if_splits option.splits sum.splits prod.splits)

lemma export_to_file_disk:
  assumes "export_to_file L S W c csv t d = (r, d')" and "p \<noteq> export_path L S (xw_clock W 1) csv"
  shows "d' p = d p"
  using assms
  by (auto simp: export_to_file_def Let_def atomic_write_text_def split: if_splits option.splits sum.splits prod.splits)

definition export_entry_of :: "audit_lib \<Rightarrow> export_world \<Rightarrow> bool \<Rightarrow> AuditExportResult \<Rightarrow> ManifestEntry" where
  "export_entry_of L W csv res =
     \<lparr>me_name = er_path res, me_sha256 = er_sha256 res, me_size = int (er_size res), me_ts = al_iso L (xw_clock W 2),
      me_kind = (if csv then asc ''audit-export-csv'' else asc ''audit-export-json'')\<rparr>"

lemma export_steps_ok:
  assumes "export_steps L S W c csv sys = (Inr res, sys')"
  shows "\<exists>d1 n i. export_to_file L S W c csv (as_table sys) (as_disk sys) = (Inr res, d1) \<and>
    release_update (xw_release W) (xs_release_path S) (export_entry_of L W csv res) d1 = (Inr n, as_disk sys') \<and>
    record_event (xs_audit S) (xw_clock W 3) (xw_final W)
      (export_event c EXPORT_FINALIZED (export_file L (xw_clock W 1) csv) Audit_OK None (Some (er_sha256 res)))
      (as_table sys) = (Inr i, as_table sys')"
  using assms
  by (auto simp: export_steps_def Let_def export_entry_of_def split: sum.splits prod.splits)

lemma release_update_saved:
  assumes "release_update fault path e d = (Inr n, d')" and "disk_view path d = Some es"
  shows "disk_view path d' = Some (put_record me_name me_name e es)"
proof -
  obtain doc where doc: "load_doc path d = Inr doc" "release_view doc = Some es"
    using assms(2) by (auto simp: disk_view_def split: sum.splits)
  obtain j where j: "release_merge e doc = Inr j" "release_view (Some (sort_keys j)) = Some (put_record me_name me_name e es)"
    using release_merge_view [OF doc(2)] by blast
  have "save_doc fault path (sort_keys j) d = (Inr n, d')" using assms(1) doc(1) j(1) by (simp add: release_update_def)
  from save_doc_cases(2) [OF this] show ?thesis using j(2) by (simp add: disk_view_def load_doc_def)
qed

lemma stream_events_exact:
  "sorted (map (\<lambda>e. ev_ts (ae_data e)) (stream_events q t)) \<and>
   mset (stream_events q t) = mset (filter (\<lambda>e. query_matches q (ae_data e)) (at_rows t))"
  by (simp add: stream_events_def)

lemma audit_export_effect:
  assumes wf: "audit_wf (as_table sys)" and l: "1 \<le> ac_retry_attempts (xs_audit S)"
    and apart: "\<forall>csv. export_path L S (xw_clock W 1) csv \<noteq> xs_release_path S"
    and view: "disk_view (xs_release_path S) (as_disk sys) = Some es"
    and run: "audit_export U L S W c sys = (Inr res, sys')"
  shows "let csv = (u_lower U (xr_fmt c) = asc ''csv'') in
    \<exists>started events bs content k k'.
      appended (event_payload (xw_clock W 0) (export_event c EXPORT_STARTED (asc ''events'') Audit_OK None None)) k
        (as_table sys) started \<and> 1 \<le> k \<and>
      sorted (map (\<lambda>e. ev_ts (ae_data e)) events) \<and>
      mset events = mset (filter (\<lambda>e. query_matches (xr_query c) (ae_data e)) (at_rows started)) \<and>
      as_disk sys' (er_path res) = Some (Raw bs) \<and> utf8_decode bs = Some content \<and>
      (if csv then csv_read ((if xr_bom c then drop 1 else id) content) = Some (audit_header # map (audit_csv_row L) events)
       else json_content L (xr_bom c) events = Some content) \<and>
      er_path res = export_path L S (xw_clock W 1) csv \<and> er_size res = length bs \<and> er_sha256 res = al_sha256 L bs \<and>
      disk_view (xs_release_path S) (as_disk sys') = Some (put_record me_name me_name (export_entry_of L W csv res) es) \<and>
      (\<forall>p. p \<noteq> er_path res \<and> p \<noteq> xs_release_path S \<longrightarrow> as_disk sys' p = as_disk sys p) \<and>
      appended (event_payload (xw_clock W 3) (export_event c EXPORT_FINALIZED (export_file L (xw_clock W 1) csv) Audit_OK
        None (Some (er_sha256 res)))) k' started (as_table sys') \<and> 1 \<le> k'"
proof -
  define csv where "csv = (u_lower U (xr_fmt c) = asc ''csv'')"
  let ?start = "export_event c EXPORT_STARTED (asc ''events'') Audit_OK None None"
  let ?path = "export_path L S (xw_clock W 1) csv"
  obtain i started where started: "record_event (xs_audit S) (xw_clock W 0) (xw_start W) ?start (as_table sys) = (Inr i, started)"
    and steps: "export_steps L S W c csv (sys\<lparr>as_table := started\<rparr>) = (Inr res, sys')"
    using run by (auto simp: audit_export_def Let_def csv_def split: if_splits sum.splits prod.splits)
  obtain d1 n i' where stored: "export_to_file L S W c csv started (as_disk sys) = (Inr res, d1)"
    and rel: "release_update (xw_release W) (xs_release_path S) (export_entry_of L W csv res) d1 = (Inr n, as_disk sys')"
    and fin: "record_event (xs_audit S) (xw_clock W 3) (xw_final W)
      (export_event c EXPORT_FINALIZED (export_file L (xw_clock W 1) csv) Audit_OK None (Some (er_sha256 res)))
      started = (Inr i', as_table sys')"
    using export_steps_ok [OF steps] by auto
  obtain content bs where content: "export_text L csv (xr_bom c) (stream_events (xr_query c) started) = Some content"
    and bs: "utf8_encode content = Some bs" and d1: "d1 = (as_disk sys)(?path \<mapsto> Raw bs)"
    and res: "res = \<lparr>er_path = ?path, er_sha256 = al_sha256 L bs, er_size = length bs\<rparr>"
    using export_to_file_ok [OF stored] by blast
  from record_event_appends [OF wf l started] obtain k where wf1: "audit_wf started"
    and k: "appended (event_payload (xw_clock W 0) ?start) k (as_table sys) started" "1 \<le> k" by auto
  from record_event_appends [OF wf1 l fin] obtain k' where k':
    "appended (event_payload (xw_clock W 3) (export_event c EXPORT_FINALIZED (export_file L (xw_clock W 1) csv) Audit_OK
        None (Some (er_sha256 res)))) k' started (as_table sys')" "1 \<le> k'" by auto
  have other: "\<forall>p. p \<noteq> xs_release_path S \<longrightarrow> as_disk sys' p = d1 p" using release_update_disk [OF rel] .
  have "d1 (xs_release_path S) = as_disk sys (xs_release_path S)" using apart unfolding d1 by (metis fun_upd_other)
  then have "disk_view (xs_release_path S) d1 = Some es" using view by (simp only: disk_view_def load_doc_def)
  then have v: "disk_view (xs_release_path S) (as_disk sys') = Some (put_record me_name me_name (export_entry_of L W csv res) es)"
    by (rule release_update_saved [OF rel])
  have "if csv then csv_read ((if xr_bom c then drop 1 else id) content) =
        Some (audit_header # map (audit_csv_row L) (stream_events (xr_query c) started))
      else json_content L (xr_bom c) (stream_events (xr_query c) started) = Some content"
    using content csv_content_reads [of "xr_bom c" L "stream_events (xr_query c) started"] by (cases csv) (simp_all add: export_text_def)
  moreover have "as_disk sys' ?path = Some (Raw bs)" using other apart d1 by auto
  moreover have "\<forall>p. p \<noteq> ?path \<and> p \<noteq> xs_release_path S \<longrightarrow> as_disk sys' p = as_disk sys p" using other d1 by auto
  ultimately show ?thesis
    unfolding Let_def csv_def [symmetric]
    using k k' v stream_events_exact [of "xr_query c" started] utf8_roundtrip [OF bs] res
    by (intro exI [of _ started] exI [of _ "stream_events (xr_query c) started"] exI [of _ bs] exI [of _ content]
        exI [of _ k] exI [of _ k']) simp
qed

text \<open>
  C13 audit_export_exact: a successful export has recorded its start, and the file it returns holds
  exactly the events of the log at that moment that match the query, in the order of their times: a CSV export
  reads back to the header and one row for each event, a JSON export is the array of their objects. The size and the
  digest returned are those of the bytes in the file; the release manifest has them in the entry of the file and keeps
  the entries of other files; no other file changes; and the log ends with a final event.
\<close>

theorem audit_export_exact:
  assumes wf: "audit_wf (as_table sys)" and l: "1 \<le> ac_retry_attempts (xs_audit S)"
    and apart: "\<forall>csv. export_path L S (xw_clock W 1) csv \<noteq> xs_release_path S"
    and view: "disk_view (xs_release_path S) (as_disk sys) = Some es"
    and run: "audit_export U L S W c sys = (Inr res, sys')"
  shows "let csv = (u_lower U (xr_fmt c) = asc ''csv'') in
    \<exists>started events bs content k k'.
      appended (event_payload (xw_clock W 0) (export_event c EXPORT_STARTED (asc ''events'') Audit_OK None None)) k
        (as_table sys) started \<and> 1 \<le> k \<and>
      sorted (map (\<lambda>e. ev_ts (ae_data e)) events) \<and>
      mset events = mset (filter (\<lambda>e. query_matches (xr_query c) (ae_data e)) (at_rows started)) \<and>
      as_disk sys' (er_path res) = Some (Raw bs) \<and> utf8_decode bs = Some content \<and>
      (if csv then csv_read ((if xr_bom c then drop 1 else id) content) = Some (audit_header # map (audit_csv_row L) events)
       else json_content L (xr_bom c) events = Some content) \<and>
      er_path res = export_path L S (xw_clock W 1) csv \<and> er_size res = length bs \<and> er_sha256 res = al_sha256 L bs \<and>
      disk_view (xs_release_path S) (as_disk sys') = Some (put_record me_name me_name (export_entry_of L W csv res) es) \<and>
      (\<forall>p. p \<noteq> er_path res \<and> p \<noteq> xs_release_path S \<longrightarrow> as_disk sys' p = as_disk sys p) \<and>
      appended (event_payload (xw_clock W 3) (export_event c EXPORT_FINALIZED (export_file L (xw_clock W 1) csv) Audit_OK
        None (Some (er_sha256 res)))) k' started (as_table sys') \<and> 1 \<le> k'"
  by (rule audit_export_effect [OF assms])

definition sample_audit_lib :: audit_lib where
  "sample_audit_lib = \<lparr>al_iso = py_str_int, al_stamp = py_str_int, al_sha256 = (\<lambda>bs. py_str_int (int (length bs)))\<rparr>"

definition sample_setup :: export_setup where
  "sample_setup = \<lparr>xs_audit = sample_audit, xs_exports_dir = asc ''exports'', xs_release_path = asc ''release.json''\<rparr>"

definition all_events :: AuditQuery where
  "all_events = \<lparr>aq_from_ts = None, aq_to_ts = None, aq_actor_role = None, aq_action = None, aq_center_scope = None,
     aq_outcome = None, aq_limit = None, aq_offset = 0\<rparr>"

definition sample_export_call :: export_call where
  "sample_export_call = \<lparr>xr_fmt = asc ''CSV'', xr_query = all_events, xr_bom = True, xr_rid = sample_rid,
     xr_actor_role = MANAGER, xr_center_scope = Some (asc ''12''), xr_job_id = None\<rparr>"

definition sample_export_world :: export_world where
  "sample_export_world = \<lparr>xw_clock = int, xw_start = (\<lambda>_. Insert_Fine), xw_stream_fails = False, xw_file = File_Fine,
     xw_release = File_Fine, xw_final = (\<lambda>_. Insert_Fine), xw_error = (\<lambda>_. Insert_Fine)\<rparr>"

definition sample_audit_system :: audit_system where
  "sample_audit_system = \<lparr>as_table = empty_audit, as_disk = Map.empty\<rparr>"

lemma sample_export_runs:
  "case audit_export ascii_ucd sample_audit_lib sample_setup sample_export_world sample_export_call sample_audit_system of
     (Inr res, _) \<Rightarrow> True | (Inl _, _) \<Rightarrow> False"
  by code_simp

theorem audit_export_exact_witness:
  "\<exists>res sys'. audit_export ascii_ucd sample_audit_lib sample_setup sample_export_world sample_export_call sample_audit_system =
      (Inr res, sys') \<and> disk_view (asc ''release.json'') (as_disk sys') = Some [export_entry_of sample_audit_lib sample_export_world True res]"
proof -
  obtain res sys' where run: "audit_export ascii_ucd sample_audit_lib sample_setup sample_export_world sample_export_call
      sample_audit_system = (Inr res, sys')"
    using sample_export_runs by (auto split: prod.splits sum.splits)
  have path: "xs_release_path sample_setup = asc ''release.json''" by (simp add: sample_setup_def)
  have csv: "u_lower ascii_ucd (xr_fmt sample_export_call) = asc ''csv''" by code_simp
  have wf: "audit_wf (as_table sample_audit_system)" by (simp add: sample_audit_system_def empty_audit_wf)
  have l: "1 \<le> ac_retry_attempts (xs_audit sample_setup)" by (simp add: sample_setup_def sample_audit_def)
  have apart: "\<forall>csv. export_path sample_audit_lib sample_setup (xw_clock sample_export_world 1) csv \<noteq> xs_release_path sample_setup"
    by (simp add: export_path_def export_file_def sample_setup_def py_defs)
  have view: "disk_view (xs_release_path sample_setup) (as_disk sample_audit_system) = Some []"
    by (simp add: disk_view_def load_doc_def release_view_def sample_audit_system_def)
  have "disk_view (asc ''release.json'') (as_disk sys') =
      Some (put_record me_name me_name (export_entry_of sample_audit_lib sample_export_world True res) [])"
    using audit_export_exact [OF wf l apart view run] unfolding path csv by (simp only: Let_def refl) blast
  then have "disk_view (asc ''release.json'') (as_disk sys') = Some [export_entry_of sample_audit_lib sample_export_world True res]"
    by (simp add: put_record_def)
  then show ?thesis using run by blast
qed

section \<open>Exports that fail\<close>

lemma export_steps_fail:
  assumes "export_steps L S W c csv sys = (Inl x, sys')" and "audit_wf (as_table sys)" and "1 \<le> ac_retry_attempts (xs_audit S)"
  shows "audit_wf (as_table sys') \<and> (\<exists>rows. at_rows (as_table sys') = at_rows (as_table sys) @ rows) \<and>
    (\<forall>p. p \<noteq> export_path L S (xw_clock W 1) csv \<and> p \<noteq> xs_release_path S \<longrightarrow> as_disk sys' p = as_disk sys p)"
proof -
  obtain r d1 where d1: "export_to_file L S W c csv (as_table sys) (as_disk sys) = (r, d1)"
    by (cases "export_to_file L S W c csv (as_table sys) (as_disk sys)")
  have one: "\<forall>p. p \<noteq> export_path L S (xw_clock W 1) csv \<longrightarrow> d1 p = as_disk sys p" using export_to_file_disk [OF d1] by blast
  show ?thesis
  proof (cases r)
    case (Inl y)
    then have "sys' = sys\<lparr>as_disk := d1\<rparr>" using assms(1) d1 by (simp add: export_steps_def)
    then show ?thesis using one assms(2) by simp
  next
    case (Inr res)
    obtain r2 d2 where d2: "release_update (xw_release W) (xs_release_path S) (export_entry_of L W csv res) d1 = (r2, d2)"
      by (cases "release_update (xw_release W) (xs_release_path S) (export_entry_of L W csv res) d1")
    have two: "\<forall>p. p \<noteq> export_path L S (xw_clock W 1) csv \<and> p \<noteq> xs_release_path S \<longrightarrow> d2 p = as_disk sys p"
      using one release_update_disk [OF d2] by simp
    let ?q = "export_event c EXPORT_FINALIZED (export_file L (xw_clock W 1) csv) Audit_OK None (Some (er_sha256 res))"
    obtain r3 t3 where t3: "record_event (xs_audit S) (xw_clock W 3) (xw_final W) ?q (as_table sys) = (r3, t3)"
      by (cases "record_event (xs_audit S) (xw_clock W 3) (xw_final W) ?q (as_table sys)")
    have "as_disk sys' = d2 \<and> as_table sys' \<in> {as_table sys, t3}"
      using assms(1) d1 d2 t3 Inr
      by (cases r2; cases r3) (auto simp: export_steps_def export_entry_of_def Let_def)
    moreover have "audit_wf t3 \<and> (\<exists>rows. at_rows t3 = at_rows (as_table sys) @ rows)"
      using record_event_appends [OF assms(2,3) t3] by (auto simp: appended_def)
    ultimately show ?thesis using two assms(2) by auto
  qed
qed

lemma appended_last: "appended payload k t t' \<Longrightarrow> 1 \<le> k \<Longrightarrow> at_rows t' \<noteq> [] \<and> ae_data (last (at_rows t')) = payload"
  by (cases k) (simp_all add: appended_def)

lemma record_event_fine:
  assumes "request_valid rq" and "1 \<le> ac_retry_attempts A" and "record_event A now (\<lambda>_. Insert_Fine) rq t = (r, t')"
  shows "\<not> isl r"
proof (rule repository_insert_succeeds [where j = 1])
  show "repository_insert A (event_payload now rq) (rq_request_id rq) (\<lambda>_. Insert_Fine) t = (r, t')"
    using assms(1,3) by (simp add: record_event_def)
qed (use assms(2) in auto)

text \<open>
  C29 audit_export_accounted: an export under a supported format either records its start or leaves the
  files alone. After a start the log ends with a final event, whatever happens in between: with the digest if the export
  succeeds, and with the code EXPORT_FAILURE if it fails, as long as the database takes that event. The log only
  grows, and no files but the export and the release manifest change.
\<close>

theorem audit_export_accounted:
  assumes wf: "audit_wf (as_table sys)" and l: "1 \<le> ac_retry_attempts (xs_audit S)"
    and fmt: "u_lower U (xr_fmt c) \<in> {asc ''csv'', asc ''json''}" and fine: "xw_error W = (\<lambda>_. Insert_Fine)"
    and run: "audit_export U L S W c sys = (r, sys')"
  shows "let start = export_event c EXPORT_STARTED (asc ''events'') Audit_OK None None; csv = (u_lower U (xr_fmt c) = asc ''csv'') in
    audit_wf (as_table sys') \<and> (\<exists>rows. at_rows (as_table sys') = at_rows (as_table sys) @ rows) \<and>
    (\<forall>p. p \<noteq> export_path L S (xw_clock W 1) csv \<and> p \<noteq> xs_release_path S \<longrightarrow> as_disk sys' p = as_disk sys p) \<and>
    (isl (fst (record_event (xs_audit S) (xw_clock W 0) (xw_start W) start (as_table sys))) \<and> isl r \<and> as_disk sys' = as_disk sys \<or>
     at_rows (as_table sys') \<noteq> [] \<and>
     ae_data (last (at_rows (as_table sys'))) =
       (case r of
          Inr res \<Rightarrow> event_payload (xw_clock W 3) (export_event c EXPORT_FINALIZED (export_file L (xw_clock W 1) csv) Audit_OK None
            (Some (er_sha256 res)))
        | Inl _ \<Rightarrow> event_payload (xw_clock W 4) (export_event c EXPORT_FINALIZED (asc ''events'') Audit_ERROR
            (Some (asc ''EXPORT_FAILURE'')) None)))"
proof -
  define csv where "csv = (u_lower U (xr_fmt c) = asc ''csv'')"
  let ?start = "export_event c EXPORT_STARTED (asc ''events'') Audit_OK None None"
  let ?fail = "export_event c EXPORT_FINALIZED (asc ''events'') Audit_ERROR (Some (asc ''EXPORT_FAILURE'')) None"
  obtain r0 t0 where t0: "record_event (xs_audit S) (xw_clock W 0) (xw_start W) ?start (as_table sys) = (r0, t0)"
    by (cases "record_event (xs_audit S) (xw_clock W 0) (xw_start W) ?start (as_table sys)")
  from record_event_appends [OF wf l t0] have wf0: "audit_wf t0" and grow0: "\<exists>rows. at_rows t0 = at_rows (as_table sys) @ rows"
    by (auto simp: appended_def)
  show ?thesis
  proof (cases r0)
    case (Inl x)
    then have "r = Inl (Event_Error x)" "sys' = sys\<lparr>as_table := t0\<rparr>" using run fmt t0 by (auto simp: audit_export_def Let_def)
    then show ?thesis using Inl t0 wf0 grow0 by simp
  next
    case (Inr i)
    obtain r1 sys1 where s1: "export_steps L S W c csv (sys\<lparr>as_table := t0\<rparr>) = (r1, sys1)"
      by (cases "export_steps L S W c csv (sys\<lparr>as_table := t0\<rparr>)")
    show ?thesis
    proof (cases r1)
      case (Inr res)
      then have eq: "r = Inr res" "sys' = sys1" using run fmt t0 \<open>r0 = Inr i\<close> s1 by (auto simp: audit_export_def Let_def csv_def)
      obtain d1 n i' where stored: "export_to_file L S W c csv t0 (as_disk sys) = (Inr res, d1)"
        and rel: "release_update (xw_release W) (xs_release_path S) (export_entry_of L W csv res) d1 = (Inr n, as_disk sys1)"
        and fin: "record_event (xs_audit S) (xw_clock W 3) (xw_final W)
          (export_event c EXPORT_FINALIZED (export_file L (xw_clock W 1) csv) Audit_OK None (Some (er_sha256 res)))
          t0 = (Inr i', as_table sys1)"
        using export_steps_ok s1 Inr by fastforce
      from record_event_appends [OF wf0 l fin] appended_last show ?thesis
        using eq grow0 export_to_file_disk [OF stored] release_update_disk [OF rel] unfolding Let_def csv_def [symmetric]
        by (auto simp: appended_def)
    next
      case (Inl x)
      from export_steps_fail [OF s1 [unfolded Inl]] wf0 l have wf1: "audit_wf (as_table sys1)"
        and grow1: "\<exists>rows. at_rows (as_table sys1) = at_rows t0 @ rows"
        and disk1: "\<forall>p. p \<noteq> export_path L S (xw_clock W 1) csv \<and> p \<noteq> xs_release_path S \<longrightarrow> as_disk sys1 p = as_disk sys p" by auto
      obtain r2 t2 where t2: "record_event (xs_audit S) (xw_clock W 4) (\<lambda>_. Insert_Fine) ?fail (as_table sys1) = (r2, t2)"
        by (cases "record_event (xs_audit S) (xw_clock W 4) (\<lambda>_. Insert_Fine) ?fail (as_table sys1)")
      have "request_valid ?start" using t0 \<open>r0 = Inr i\<close> by (auto simp: record_event_def split: if_splits)
      then have "request_valid ?fail" by (simp add: request_valid_def export_event_def)
      then have "\<not> isl r2" using record_event_fine [OF _ l t2] by simp
      then have eq: "r = Inl x" "as_table sys' = t2" "as_disk sys' = as_disk sys1"
        using run fmt fine t0 \<open>r0 = Inr i\<close> s1 Inl t2 by (cases r2; auto simp: audit_export_def Let_def csv_def)+
      from record_event_appends [OF wf1 l t2] \<open>\<not> isl r2\<close> obtain k where "audit_wf t2" and k: "appended (event_payload (xw_clock W 4) ?fail) k (as_table sys1) t2"
        "1 \<le> k" by auto
      then show ?thesis using eq grow0 grow1 disk1 appended_last [OF k] unfolding Let_def csv_def [symmetric]
        by (auto simp: appended_def)
    qed
  qed
qed

text \<open>The disk is full.\<close>

theorem audit_export_accounted_witness:
  "ae_data (last (at_rows (as_table (snd (audit_export ascii_ucd sample_audit_lib sample_setup
      (sample_export_world\<lparr>xw_file := File_Fails\<rparr>) sample_export_call sample_audit_system))))) =
   event_payload 4 (export_event sample_export_call EXPORT_FINALIZED (asc ''events'') Audit_ERROR (Some (asc ''EXPORT_FAILURE'')) None)"
proof -
  let ?W = "sample_export_world\<lparr>xw_file := File_Fails\<rparr>"
  obtain r sys' where run: "audit_export ascii_ucd sample_audit_lib sample_setup ?W sample_export_call sample_audit_system = (r, sys')"
    by (cases "audit_export ascii_ucd sample_audit_lib sample_setup ?W sample_export_call sample_audit_system")
  have "case fst (audit_export ascii_ucd sample_audit_lib sample_setup ?W sample_export_call sample_audit_system) of
      Inl e \<Rightarrow> e = FileError | Inr _ \<Rightarrow> False" by code_simp
  then have r: "r = Inl FileError" using run by (auto split: sum.splits)
  have "case fst (record_event (xs_audit sample_setup) (xw_clock ?W 0) (xw_start ?W)
      (export_event sample_export_call EXPORT_STARTED (asc ''events'') Audit_OK None None) (as_table sample_audit_system)) of
      Inl _ \<Rightarrow> False | Inr _ \<Rightarrow> True" by code_simp
  then have s: "\<not> isl (fst (record_event (xs_audit sample_setup) (xw_clock ?W 0) (xw_start ?W)
      (export_event sample_export_call EXPORT_STARTED (asc ''events'') Audit_OK None None) (as_table sample_audit_system)))"
    by (auto split: sum.splits)
  have wf: "audit_wf (as_table sample_audit_system)" by (simp add: sample_audit_system_def empty_audit_wf)
  have l: "1 \<le> ac_retry_attempts (xs_audit sample_setup)" by (simp add: sample_setup_def sample_audit_def)
  have fmt: "u_lower ascii_ucd (xr_fmt sample_export_call) \<in> {asc ''csv'', asc ''json''}" by code_simp
  have fine: "xw_error ?W = (\<lambda>_. Insert_Fine)" by (simp add: sample_export_world_def)
  have clock: "xw_clock ?W 4 = 4" by (simp add: sample_export_world_def)
  show ?thesis using audit_export_accounted [OF wf l fmt fine run] s unfolding run r clock by (simp add: Let_def)
qed

section \<open>Formulas\<close>

lemma safe_value_no_formula: "safe_value v = [] \<or> hd (safe_value v) \<notin> set (asc ''=+-@'')"
  by (auto simp: safe_value_def Let_def py_defs)

text \<open>The center of an event is not passed through \<^verbatim>\<open>_safe_value\<close>.\<close>

lemma center_formula_exported:
  assumes "ev_center_scope (ae_data e) = Some (asc ''=1+1'')"
  shows "validate_center (asc ''=1+1'') \<and> audit_csv_row L e ! 2 = asc ''=1+1''"
  using assms by (simp add: audit_csv_row_def Let_def or_empty_def validate_center_def py_defs)

end
