(* ===== verification/Audit_Archive.thy ===== *)
theory Audit_Archive
  imports Audit_Export
begin

text \<open>
  \<^verbatim>\<open>audit/retention.py\<close>, the archiver: the events of a calendar month as a CSV and a JSON file with a manifest, an entry for
  each in the release manifest, and an entry in \<^verbatim>\<open>partitions.json\<close>. Each stage is retried by
  \<^verbatim>\<open>_run_with_retry\<close>, which does not wait; what an attempt meets is an argument. The table does not change while
  an archive is written. The calendar of Asia/Tehran (the instant a month starts, the year and month of an instant, the
  text of an instant and its inverse) is a parameter; times are microseconds. Temporary files are not modelled, so neither is
  their cleanup.
\<close>

section \<open>Retries\<close>

datatype archive_exn =
    ArchiveFailure | CONFIG_VALIDATION_ERROR | MonthOutOfRange | DatabaseError | Archive_File_Error file_exn

function run_calls :: "int \<Rightarrow> (nat \<Rightarrow> archive_exn + 'a) \<Rightarrow> nat \<Rightarrow> nat" where
  "run_calls attempts outcome attempt =
     (case outcome attempt of
        Inr _ \<Rightarrow> attempt
      | Inl _ \<Rightarrow> if int attempt \<ge> attempts then attempt else run_calls attempts outcome (attempt + 1))"
  by pat_completeness auto
termination
  by (relation "measure (\<lambda>(attempts, _, attempt). nat (attempts - int attempt))") auto

declare run_calls.simps [simp del]

definition run_stage ::
  "int \<Rightarrow> (nat \<Rightarrow> 's \<Rightarrow> (archive_exn + 'a) \<times> 's) \<Rightarrow> 's \<Rightarrow> (archive_exn + 'a) \<times> 's" where
  "run_stage attempts func s =
     (let n = run_calls (max 1 attempts) (attempts_outcome func s) 1
      in (attempts_outcome func s n, attempts_state func s n))"

section \<open>Configuration and months\<close>

record archive_config =
  rc_root :: pystr
  rc_csv_bom :: bool
  rc_schema_version :: int
  rc_tool_version :: pystr
  rc_age_days :: "int option"
  rc_age_months :: "int option"
  rc_size_bytes :: "int option"
  rc_retry_attempts :: int

record archive_lib =
  rl_files :: audit_lib
  rl_ucd :: ucd
  rl_digest8 :: "pystr \<Rightarrow> pystr"
  rl_month_start :: "int \<Rightarrow> int \<Rightarrow> int"
  rl_year_month :: "int \<Rightarrow> int \<times> int"
  rl_parse :: "pystr \<Rightarrow> int option"

record AuditArchiveWindow =
  aw_month_key :: pystr
  aw_year :: int
  aw_month :: int
  aw_start :: int
  aw_end :: int

definition month_key_core :: "pystr \<Rightarrow> bool" where
  "month_key_core k \<longleftrightarrow>
     length k = 7 \<and> list_all decimal_char (take 4 k) \<and> k ! 4 = 95 \<and> list_all decimal_char (drop 5 k)"

definition month_key_ok :: "pystr \<Rightarrow> bool" where
  "month_key_ok k \<longleftrightarrow> month_key_core k \<or> k \<noteq> [] \<and> last k = 10 \<and> month_key_core (butlast k)"

definition archive_window :: "archive_lib \<Rightarrow> pystr \<Rightarrow> archive_exn + AuditArchiveWindow" where
  "archive_window L month_key =
     (if \<not> month_key_ok month_key then Inl CONFIG_VALIDATION_ERROR
      else case (py_int (take 4 month_key), py_int (take 2 (drop 5 month_key))) of
        (Some year, Some month) \<Rightarrow>
          if \<not> (1 \<le> year \<and> 1 \<le> month \<and> month \<le> 12) \<or> month = 12 \<and> 9999 \<le> year then Inl MonthOutOfRange
          else Inr \<lparr>aw_month_key = month_key, aw_year = year, aw_month = month, aw_start = rl_month_start L year month,
                    aw_end = (if month = 12 then rl_month_start L (year + 1) 1 else rl_month_start L year (month + 1))\<rparr>
      | _ \<Rightarrow> Inl CONFIG_VALIDATION_ERROR)"

definition artifact_path :: "archive_config \<Rightarrow> AuditArchiveWindow \<Rightarrow> pystr \<Rightarrow> pystr" where
  "artifact_path C w name =
     rc_root C @ asc ''/audit/'' @ fmt_0d 4 (aw_year w) @ asc ''/'' @ fmt_0d 2 (aw_month w) @ asc ''/'' @ name"

definition csv_path :: "archive_config \<Rightarrow> AuditArchiveWindow \<Rightarrow> pystr" where
  "csv_path C w = artifact_path C w (asc ''audit_'' @ aw_month_key w @ asc ''.csv'')"

definition json_path :: "archive_config \<Rightarrow> AuditArchiveWindow \<Rightarrow> pystr" where
  "json_path C w = artifact_path C w (asc ''audit_'' @ aw_month_key w @ asc ''.json'')"

definition archive_manifest_path :: "archive_config \<Rightarrow> AuditArchiveWindow \<Rightarrow> pystr" where
  "archive_manifest_path C w = artifact_path C w (asc ''archive_manifest.json'')"

definition partitions_path :: "archive_config \<Rightarrow> pystr" where
  "partitions_path C = rc_root C @ asc ''/audit/partitions.json''"

section \<open>Rows\<close>

text \<open>\<^verbatim>\<open>_DIGIT_MASK_RE.sub\<close>: maximal runs of decimal digits.\<close>

function mask_digits :: "(pystr \<Rightarrow> pystr) \<Rightarrow> pystr \<Rightarrow> pystr" where
  "mask_digits digest8 [] = []"
| "mask_digits digest8 (c # cs) =
     (if decimal_char c then
        (let run = takeWhile decimal_char (c # cs)
         in (if 8 \<le> length run then asc ''masked:'' @ digest8 run else run) @ mask_digits digest8 (dropWhile decimal_char cs))
      else c # mask_digits digest8 cs)"
  by pat_completeness auto
termination
  by (relation "measure (\<lambda>(_, s). length s)") (auto simp: le_imp_less_Suc length_dropWhile_le)

definition persian_fold :: "int \<Rightarrow> int" where
  "persian_fold c = (if 1776 \<le> c \<and> c \<le> 1785 then c - 1728 else if c = 1610 then 1740 else if c = 1603 then 1705 else c)"

definition sanitize_archive :: "archive_lib \<Rightarrow> pystr option \<Rightarrow> pystr" where
  "sanitize_archive L v =
     (case v of
        None \<Rightarrow> []
      | Some s \<Rightarrow>
          let s = map persian_fold (u_nfkc (rl_ucd L) s);
              s = filter (\<lambda>c. 32 \<le> c \<or> c \<in> {9, 13, 10}) s;
              s = remove_chars [8234, 8235, 8236, 8237, 8238] (remove_chars [8204, 8205, 8206, 8207] s);
              s = mask_digits (rl_digest8 L) (py_strip s)
          in if s \<noteq> [] \<and> hd s \<in> set (asc ''=+-@'') then 39 # s else s)"

definition count_rows :: "AuditArchiveWindow \<Rightarrow> audit_table \<Rightarrow> nat" where
  "count_rows w t = length (filter (\<lambda>e. aw_start w \<le> ev_ts (ae_data e) \<and> ev_ts (ae_data e) < aw_end w) (at_rows t))"

definition stream_rows :: "AuditArchiveWindow \<Rightarrow> audit_table \<Rightarrow> AuditEvent list" where
  "stream_rows w t =
     sort_key (\<lambda>e. ev_ts (ae_data e)) (sort_key ae_id
       (filter (\<lambda>e. aw_start w \<le> ev_ts (ae_data e) \<and> ev_ts (ae_data e) < aw_end w) (at_rows t)))"

definition archive_cells :: "archive_lib \<Rightarrow> AuditEvent \<Rightarrow> pystr list" where
  "archive_cells L event =
     (let e = ae_data event; san = sanitize_archive L
      in [al_iso (rl_files L) (ev_ts e), role_value (ev_actor_role e), san (ev_center_scope e), action_value (ev_action e),
          san (Some (ev_resource_type e)), san (Some (ev_resource_id e)), san (ev_job_id e), san (Some (ev_request_id e)),
          outcome_value (ev_outcome e), san (ev_error_code e), san (ev_artifact_sha256 e)])"

definition archive_json :: "archive_lib \<Rightarrow> AuditEvent \<Rightarrow> json" where
  "archive_json L event =
     JDict ((asc ''id'', JInt (int (ae_id event))) # zip audit_header (map JStr (archive_cells L event)))"

definition archive_csv :: "archive_lib \<Rightarrow> archive_config \<Rightarrow> AuditEvent list \<Rightarrow> pystr" where
  "archive_csv L C rows =
     (if rc_csv_bom C then [65279] else []) @ concat (map (csv_row [13, 10]) (audit_header # map (archive_cells L) rows))"

text \<open>The JSON file is opened with \<^verbatim>\<open>newline="\r\n"\<close>, which translates every line feed that is written.\<close>

definition translate_newlines :: "pystr \<Rightarrow> pystr" where
  "translate_newlines s = concat (map (\<lambda>c. if c = 10 then [13, 10] else [c]) s)"

definition archive_json_lines :: "archive_lib \<Rightarrow> AuditEvent list \<Rightarrow> pystr option" where
  "archive_json_lines L rows =
     map_option (\<lambda>payloads. translate_newlines (join [13, 10] payloads))
       (those (map (\<lambda>e. dumps (asc '','') (asc '':'') (archive_json L e)) rows))"

section \<open>The stages\<close>

record AuditArchiveArtifact =
  aa_path :: pystr
  aa_sha256 :: pystr
  aa_size :: nat

record AuditArchiveResult =
  ar_window :: AuditArchiveWindow
  ar_csv :: AuditArchiveArtifact
  ar_json :: AuditArchiveArtifact
  ar_manifest :: AuditArchiveArtifact
  ar_row_count :: nat

text \<open>
  An attempt to write both files fails before a rename, between the two (the JSON file is renamed first, since the
  context managers are left in reverse order), or when the files are read again.
\<close>

datatype archive_fault = Archive_Fine | Archive_Database | Archive_Disk | Archive_Csv_Rename | Archive_Read_Back

record archive_world =
  aw_write :: "nat \<Rightarrow> archive_fault"
  aw_count :: "nat \<Rightarrow> bool"
  aw_manifest_write :: "nat \<Rightarrow> file_fault"
  aw_manifest_read :: bool
  aw_release :: "nat \<Rightarrow> file_fault \<times> file_fault"
  aw_partition :: "nat \<Rightarrow> file_fault"
  aw_generated_at :: int
  aw_release_ts :: "nat \<Rightarrow> int"

definition artifact_of :: "archive_lib \<Rightarrow> pystr \<Rightarrow> bytes \<Rightarrow> AuditArchiveArtifact" where
  "artifact_of L path bs = \<lparr>aa_path = path, aa_sha256 = al_sha256 (rl_files L) bs, aa_size = length bs\<rparr>"

definition write_artifacts ::
  "archive_lib \<Rightarrow> archive_config \<Rightarrow> AuditArchiveWindow \<Rightarrow> archive_fault \<Rightarrow> audit_table \<Rightarrow> disk \<Rightarrow>
   (archive_exn + nat \<times> AuditArchiveArtifact \<times> AuditArchiveArtifact) \<times> disk" where
  "write_artifacts L C w fault t d =
     (let rows = stream_rows w t
      in if fault = Archive_Database then (Inl DatabaseError, d)
         else if fault = Archive_Disk then (Inl (Archive_File_Error FileError), d)
         else case (utf8_encode (archive_csv L C rows), Option.bind (archive_json_lines L rows) utf8_encode) of
           (Some cs, Some js) \<Rightarrow>
             if fault = Archive_Csv_Rename then (Inl (Archive_File_Error FileError), d(json_path C w \<mapsto> Raw js))
             else let d' = d(json_path C w \<mapsto> Raw js, csv_path C w \<mapsto> Raw cs)
                  in if fault = Archive_Read_Back then (Inl (Archive_File_Error FileError), d')
                     else (Inr (length rows, artifact_of L (csv_path C w) cs, artifact_of L (json_path C w) js), d')
         | _ \<Rightarrow> (Inl (Archive_File_Error UnicodeEncodeError), d))"

definition artifact_json :: "AuditArchiveArtifact \<Rightarrow> pystr \<Rightarrow> json" where
  "artifact_json a kind =
     JDict [(asc ''name'', JStr (aa_path a)), (asc ''sha256'', JStr (aa_sha256 a)), (asc ''size'', JInt (int (aa_size a))),
            (asc ''type'', JStr kind)]"

definition manifest_payload ::
  "archive_lib \<Rightarrow> archive_config \<Rightarrow> AuditArchiveWindow \<Rightarrow> AuditArchiveArtifact \<Rightarrow> AuditArchiveArtifact \<Rightarrow> nat \<Rightarrow> int \<Rightarrow> json" where
  "manifest_payload L C w csv json row_count generated_at =
     (let iso = al_iso (rl_files L)
      in JDict [(asc ''schema_version'', JInt (rc_schema_version C)), (asc ''month'', JStr (aw_month_key w)),
           (asc ''window'', JDict [(asc ''start'', JStr (iso (aw_start w))), (asc ''end'', JStr (iso (aw_end w)))]),
           (asc ''row_count'', JInt (int row_count)), (asc ''generated_at'', JStr (iso generated_at)),
           (asc ''tool'', JDict [(asc ''name'', JStr (asc ''audit_archiver'')), (asc ''version'', JStr (rc_tool_version C))]),
           (asc ''artifacts'', JList [artifact_json csv (asc ''csv''), artifact_json json (asc ''json'')])])"

definition lift_file :: "(file_exn + 'a) \<times> disk \<Rightarrow> (archive_exn + 'a) \<times> disk" where
  "lift_file r = (case fst r of Inl x \<Rightarrow> Inl (Archive_File_Error x) | Inr v \<Rightarrow> Inr v, snd r)"

definition write_manifest ::
  "archive_lib \<Rightarrow> archive_config \<Rightarrow> AuditArchiveWindow \<Rightarrow> archive_world \<Rightarrow> AuditArchiveArtifact \<Rightarrow> AuditArchiveArtifact \<Rightarrow> nat \<Rightarrow>
   disk \<Rightarrow> (archive_exn + AuditArchiveArtifact) \<times> disk" where
  "write_manifest L C w W csv json row_count d =
     (let path = archive_manifest_path C w;
          payload = manifest_payload L C w csv json row_count (aw_generated_at W)
      in case run_stage (rc_retry_attempts C) (\<lambda>n d. lift_file (save_doc (aw_manifest_write W n) path payload d)) d of
           (Inl x, d1) \<Rightarrow> (Inl x, d1)
         | (Inr n, d1) \<Rightarrow>
             (case (if aw_manifest_read W then Option.bind (d1 path) file_bytes else None) of
                None \<Rightarrow> (Inl (Archive_File_Error FileError), d1)
              | Some bs \<Rightarrow> (Inr \<lparr>aa_path = path, aa_sha256 = al_sha256 (rl_files L) bs, aa_size = n\<rparr>, d1)))"

definition release_one ::
  "archive_lib \<Rightarrow> pystr \<Rightarrow> int \<Rightarrow> pystr \<Rightarrow> file_fault \<Rightarrow> AuditArchiveArtifact \<Rightarrow> disk \<Rightarrow> (archive_exn + nat) \<times> disk" where
  "release_one L path ts kind fault a d =
     (case Option.bind (d (aa_path a)) file_bytes of
        None \<Rightarrow> (Inl (Archive_File_Error FileError), d)
      | Some bs \<Rightarrow>
          lift_file (release_update fault path
            \<lparr>me_name = aa_path a, me_sha256 = aa_sha256 a, me_size = int (length bs), me_ts = al_iso (rl_files L) ts,
             me_kind = kind\<rparr> d))"

definition update_release ::
  "archive_lib \<Rightarrow> pystr \<Rightarrow> archive_world \<Rightarrow> AuditArchiveResult \<Rightarrow> nat \<Rightarrow> disk \<Rightarrow> (archive_exn + unit) \<times> disk" where
  "update_release L path W res n d =
     (case release_one L path (aw_release_ts W n) (asc ''audit-archive-csv'') (fst (aw_release W n)) (ar_csv res) d of
        (Inl x, d1) \<Rightarrow> (Inl x, d1)
      | (Inr _, d1) \<Rightarrow>
          (case release_one L path (aw_release_ts W n) (asc ''audit-archive-json'') (snd (aw_release W n)) (ar_json res) d1 of
             (Inl x, d2) \<Rightarrow> (Inl x, d2)
           | (Inr _, d2) \<Rightarrow> (Inr (), d2)))"

definition partition_json :: "archive_lib \<Rightarrow> AuditArchiveResult \<Rightarrow> json" where
  "partition_json L res =
     (let w = ar_window res
      in JDict [(asc ''month'', JStr (aw_month_key w)), (asc ''start'', JStr (al_iso (rl_files L) (aw_start w))),
           (asc ''end'', JStr (al_iso (rl_files L) (aw_end w))),
           (asc ''size_bytes'', JInt (int (aa_size (ar_csv res) + aa_size (ar_json res) + aa_size (ar_manifest res)))),
           (asc ''reason'', JStr (asc ''age''))])"

definition record_partition ::
  "archive_lib \<Rightarrow> archive_config \<Rightarrow> file_fault \<Rightarrow> AuditArchiveResult \<Rightarrow> disk \<Rightarrow> (archive_exn + nat) \<times> disk" where
  "record_partition L C fault res d =
     (let path = partitions_path C;
          existing = (case load_doc path d of Inr (Some j) \<Rightarrow> j | _ \<Rightarrow> JList [])
      in case Option.bind (iter_items existing)
                (replace_item (asc ''month'') (aw_month_key (ar_window res)) (asc ''start'') (partition_json L res)) of
           None \<Rightarrow> (Inl (Archive_File_Error MalformedDocument), d)
         | Some entries \<Rightarrow> lift_file (save_doc fault path (JList entries) d))"

section \<open>Archiving a month\<close>

definition archive_dry_run ::
  "archive_lib \<Rightarrow> archive_config \<Rightarrow> archive_world \<Rightarrow> AuditArchiveWindow \<Rightarrow> audit_table \<Rightarrow> disk \<Rightarrow>
   (archive_exn + AuditArchiveResult) \<times> disk" where
  "archive_dry_run L C W w t d =
     (let csv = \<lparr>aa_path = csv_path C w, aa_sha256 = [], aa_size = 0\<rparr>; json = \<lparr>aa_path = json_path C w, aa_sha256 = [], aa_size = 0\<rparr>
      in case run_stage (rc_retry_attempts C)
               (\<lambda>n d. (if aw_count W n then Inr (count_rows w t) else Inl DatabaseError, d)) d of
           (Inl x, d1) \<Rightarrow> (Inl x, d1)
         | (Inr row_count, d1) \<Rightarrow>
             (case write_manifest L C w W csv json row_count d1 of
                (Inl x, d2) \<Rightarrow> (Inl x, d2)
              | (Inr m, d2) \<Rightarrow>
                  (Inr \<lparr>ar_window = w, ar_csv = csv, ar_json = json, ar_manifest = m, ar_row_count = row_count\<rparr>, d2)))"

definition archive_stages ::
  "archive_lib \<Rightarrow> archive_config \<Rightarrow> pystr \<Rightarrow> archive_world \<Rightarrow> AuditArchiveWindow \<Rightarrow> audit_table \<Rightarrow> disk \<Rightarrow>
   (archive_exn + AuditArchiveResult) \<times> disk" where
  "archive_stages L C release W w t d =
     (case run_stage (rc_retry_attempts C) (\<lambda>n. write_artifacts L C w (aw_write W n) t) d of
        (Inl x, d1) \<Rightarrow> (Inl x, d1)
      | (Inr (row_count, csv, json), d1) \<Rightarrow>
          (case write_manifest L C w W csv json row_count d1 of
             (Inl x, d2) \<Rightarrow> (Inl x, d2)
           | (Inr m, d2) \<Rightarrow>
               (let res = \<lparr>ar_window = w, ar_csv = csv, ar_json = json, ar_manifest = m, ar_row_count = row_count\<rparr>
                in case run_stage (rc_retry_attempts C) (update_release L release W res) d2 of
                     (Inl x, d3) \<Rightarrow> (Inl x, d3)
                   | (Inr _, d3) \<Rightarrow>
                       (case run_stage (rc_retry_attempts C) (\<lambda>n. record_partition L C (aw_partition W n) res) d3 of
                          (Inl x, d4) \<Rightarrow> (Inl x, d4)
                        | (Inr _, d4) \<Rightarrow> (Inr res, d4)))))"

definition archive_month ::
  "archive_lib \<Rightarrow> archive_config \<Rightarrow> pystr \<Rightarrow> archive_world \<Rightarrow> pystr \<Rightarrow> bool \<Rightarrow> audit_table \<Rightarrow> disk \<Rightarrow>
   (archive_exn + AuditArchiveResult) \<times> disk" where
  "archive_month L C release W month_key dry_run t d =
     (case archive_window L month_key of
        Inl x \<Rightarrow> (Inl x, d)
      | Inr w \<Rightarrow>
          if dry_run then archive_dry_run L C W w t d
          else case archive_stages L C release W w t d of
            (Inl _, d1) \<Rightarrow> (Inl ArchiveFailure, d1)
          | (Inr res, d1) \<Rightarrow> (Inr res, d1))"

section \<open>Retries keep the contract of retrying\<close>

lemma run_calls_shape:
  assumes "int n \<le> attempts"
  shows "n \<le> run_calls attempts outcome n \<and> int (run_calls attempts outcome n) \<le> attempts \<and>
    (\<forall>k. n \<le> k \<and> k < run_calls attempts outcome n \<longrightarrow> isl (outcome k)) \<and>
    (isl (outcome (run_calls attempts outcome n)) \<longrightarrow> int (run_calls attempts outcome n) = attempts)"
  using assms
proof (induction attempts outcome n rule: run_calls.induct)
  case (1 attempts outcome n)
  show ?case
  proof (cases "isl (outcome n) \<and> \<not> int n \<ge> attempts")
    case True
    then obtain e where e: "outcome n = Inl e" by (cases "outcome n") auto
    have step: "run_calls attempts outcome n = run_calls attempts outcome (n + 1)"
      using True by (subst run_calls.simps) (auto split: sum.splits)
    have IH: "n + 1 \<le> run_calls attempts outcome (n + 1) \<and> int (run_calls attempts outcome (n + 1)) \<le> attempts \<and>
      (\<forall>k. n + 1 \<le> k \<and> k < run_calls attempts outcome (n + 1) \<longrightarrow> isl (outcome k)) \<and>
      (isl (outcome (run_calls attempts outcome (n + 1))) \<longrightarrow> int (run_calls attempts outcome (n + 1)) = attempts)"
      using 1(1) [OF e] True by simp
    have "isl (outcome k)" if "n \<le> k" "k < run_calls attempts outcome (n + 1)" for k
      using that IH True by (cases "k = n") auto
    then show ?thesis unfolding step using IH by auto
  next
    case False
    then have "run_calls attempts outcome n = n" by (subst run_calls.simps) (auto split: sum.splits)
    then show ?thesis using 1(2) False by auto
  qed
qed

interpretation lifecycle_retry: retrying "\<lambda>outcome. run_calls (max 1 attempts) outcome 1" "max 1 attempts" "\<lambda>_. True"
  for attempts
proof
  fix outcome :: "nat \<Rightarrow> archive_exn + 'a"
  let ?n = "run_calls (max 1 attempts) outcome 1"
  have "int 1 \<le> max 1 attempts" by simp
  from run_calls_shape [OF this, of outcome]
  show "1 \<le> ?n \<and> int ?n \<le> max 1 attempts \<and> (\<forall>k. 1 \<le> k \<and> k < ?n \<longrightarrow> (\<exists>e. outcome k = Inl e \<and> True)) \<and>
      (\<forall>e. outcome ?n = Inl e \<longrightarrow> True \<longrightarrow> int ?n = max 1 attempts)"
    by (auto simp: isl_def)
qed

text \<open>Retries end with one call, from a state that has whatever every call keeps.\<close>

lemma run_stage_last:
  assumes "run_stage attempts func s = (r, s')" and "I s" and "\<And>n s. I s \<Longrightarrow> I (snd (func n s))"
  shows "\<exists>n s0. I s0 \<and> func n s0 = (r, s')"
proof -
  let ?n = "run_calls (max 1 attempts) (attempts_outcome func s) 1"
  have "1 \<le> max 1 attempts" by simp
  from lifecycle_retry.last_call_inv [where I = I and step = func, OF this assms(2,3)] assms(1) show ?thesis
    by (auto simp: run_stage_def Let_def)
qed

lemma run_stage_inv:
  assumes "run_stage attempts func s = (r, s')" and "I s" and "\<And>n s. I s \<Longrightarrow> I (snd (func n s))"
  shows "I s'"
proof -
  obtain n s0 where "I s0" "func n s0 = (r, s')" using run_stage_last [where I = I, OF assms] by blast
  then show ?thesis using assms(3) [of s0 n] by simp
qed

text \<open>A stage succeeds if one of its allowed attempts does, from the state the failed ones leave.\<close>

lemma run_stage_succeeds:
  assumes "1 \<le> n" and "int n \<le> max 1 attempts" and "\<And>s. I s \<Longrightarrow> \<not> isl (fst (func n s))"
    and "I s" and "\<And>n s. I s \<Longrightarrow> I (snd (func n s))"
  shows "\<not> isl (fst (run_stage attempts func s))"
proof -
  let ?o = "attempts_outcome func s"
  let ?c = "run_calls (max 1 attempts) ?o 1"
  have "I (attempts_state func s k)" for k using assms(4,5) by (rule attempts_state_inv)
  then have good: "\<not> isl (?o n)" by (simp add: attempts_outcome_def assms(3))
  have law: "1 \<le> ?c \<and> int ?c \<le> max 1 attempts \<and> (\<forall>k. 1 \<le> k \<and> k < ?c \<longrightarrow> isl (?o k)) \<and> (isl (?o ?c) \<longrightarrow> int ?c = max 1 attempts)"
    using run_calls_shape [of 1 "max 1 attempts" ?o] by simp
  then have "\<not> n < ?c" using good assms(1) by blast
  then have "\<not> isl (?o ?c)" using law good assms(2) by (cases "?c = n") force+
  then show ?thesis by (simp add: run_stage_def Let_def)
qed

section \<open>Paths\<close>

lemma digits_then_slash:
  assumes "ascii_digits a" and "ascii_digits b" and "a @ 47 # r = b @ 47 # s"
  shows "a = b \<and> r = s"
  using assms
proof (induction a arbitrary: b)
  case Nil
  then show ?case by (cases b) auto
next
  case (Cons c a)
  then show ?case by (cases b) auto
qed

lemma archive_window_shape:
  assumes "archive_window L k = Inr w"
  shows "aw_month_key w = k \<and> 1 \<le> aw_year w \<and> 1 \<le> aw_month w \<and> aw_month w \<le> 12 \<and>
    aw_start w = rl_month_start L (aw_year w) (aw_month w) \<and>
    aw_end w = (if aw_month w = 12 then rl_month_start L (aw_year w + 1) 1 else rl_month_start L (aw_year w) (aw_month w + 1))"
  using assms by (auto simp: archive_window_def split: if_splits option.splits)

lemma artifact_path_inj:
  assumes "artifact_path C w a = artifact_path C w' b" and "archive_window L k = Inr w" and "archive_window L k' = Inr w'"
  shows "a = b \<and> aw_year w = aw_year w' \<and> aw_month w = aw_month w'"
proof -
  have pos: "0 \<le> aw_year w" "0 \<le> aw_year w'" "0 \<le> aw_month w" "0 \<le> aw_month w'"
    using archive_window_shape [OF assms(2)] archive_window_shape [OF assms(3)] by auto
  then have d: "ascii_digits (fmt_0d 4 (aw_year w))" "ascii_digits (fmt_0d 4 (aw_year w'))"
    "ascii_digits (fmt_0d 2 (aw_month w))" "ascii_digits (fmt_0d 2 (aw_month w'))" using fmt_0d_digits by blast+
  have s: "asc ''/'' = [47]" by (simp add: py_defs)
  from assms(1) have "fmt_0d 4 (aw_year w) @ 47 # (fmt_0d 2 (aw_month w) @ 47 # a) =
      fmt_0d 4 (aw_year w') @ 47 # (fmt_0d 2 (aw_month w') @ 47 # b)" by (simp add: artifact_path_def s)
  from digits_then_slash [OF d(1,2) this] have y: "fmt_0d 4 (aw_year w) = fmt_0d 4 (aw_year w')"
    and r: "fmt_0d 2 (aw_month w) @ 47 # a = fmt_0d 2 (aw_month w') @ 47 # b" by auto
  from digits_then_slash [OF d(3,4) r] have m: "fmt_0d 2 (aw_month w) = fmt_0d 2 (aw_month w')" and "a = b" by auto
  then show ?thesis using fmt_0d_inj [OF pos(1,2) y] fmt_0d_inj [OF pos(3,4) m] by blast
qed

lemma partitions_path_apart:
  assumes "archive_window L k = Inr w"
  shows "partitions_path C \<noteq> artifact_path C w a"
proof
  assume "partitions_path C = artifact_path C w a"
  then have eq: "asc ''partitions.json'' = fmt_0d 4 (aw_year w) @ asc ''/'' @ fmt_0d 2 (aw_month w) @ asc ''/'' @ a"
    by (simp add: partitions_path_def artifact_path_def py_defs)
  have "ascii_digits (fmt_0d 4 (aw_year w)) \<and> fmt_0d 4 (aw_year w) \<noteq> []"
    using archive_window_shape [OF assms] fmt_0d_digits by simp
  then have "48 \<le> hd (asc ''partitions.json'') \<and> hd (asc ''partitions.json'') \<le> 57"
    unfolding eq by (cases "fmt_0d 4 (aw_year w)") (auto simp: ascii_digits_def list_all_iff)
  then show False by (simp add: py_defs)
qed

lemma window_paths_apart:
  assumes "archive_window L k = Inr w" and "archive_window L k' = Inr w'"
  shows "csv_path C w \<noteq> json_path C w'" and "csv_path C w \<noteq> archive_manifest_path C w'"
    and "json_path C w \<noteq> archive_manifest_path C w'" and "csv_path C w = csv_path C w' \<Longrightarrow> w = w'"
proof -
  have names: "aw_month_key w = k" "aw_month_key w' = k'"
    using archive_window_shape [OF assms(1)] archive_window_shape [OF assms(2)] by auto
  show "csv_path C w \<noteq> json_path C w'"
  proof
    assume "csv_path C w = json_path C w'"
    then have "artifact_path C w (asc ''audit_'' @ k @ asc ''.csv'') = artifact_path C w' (asc ''audit_'' @ k' @ asc ''.json'')"
      by (simp add: csv_path_def json_path_def names)
    from artifact_path_inj [OF this assms] have "last (asc ''.csv'') = last (asc ''.json'')" by (metis append_is_Nil_conv asc_def last_appendR list.discI list.map_disc_iff)
    then show False by (simp add: py_defs)
  qed
  show "csv_path C w \<noteq> archive_manifest_path C w'"
    using artifact_path_inj [OF _ assms, of C "asc ''audit_'' @ k @ asc ''.csv''" "asc ''archive_manifest.json''"]
    by (auto simp: csv_path_def archive_manifest_path_def names py_defs)
  show "json_path C w \<noteq> archive_manifest_path C w'"
    using artifact_path_inj [OF _ assms, of C "asc ''audit_'' @ k @ asc ''.json''" "asc ''archive_manifest.json''"]
    by (auto simp: json_path_def archive_manifest_path_def names py_defs)
  assume "csv_path C w = csv_path C w'"
  then have "asc ''audit_'' @ k @ asc ''.csv'' = asc ''audit_'' @ k' @ asc ''.csv''"
    "aw_year w = aw_year w'" "aw_month w = aw_month w'"
    using artifact_path_inj [OF _ assms, of C "asc ''audit_'' @ k @ asc ''.csv''"  "asc ''audit_'' @ k' @ asc ''.csv''"]
    by (auto simp: csv_path_def names)
  then have "k = k'" by simp
  then show "w = w'" using assms by simp
qed

section \<open>What the stages leave\<close>

definition csv_holds :: "archive_config \<Rightarrow> pystr list list \<Rightarrow> bytes \<Rightarrow> bool" where
  "csv_holds C rows bs \<longleftrightarrow>
     (\<exists>content. utf8_decode bs = Some content \<and>
        csv_read ((if rc_csv_bom C then drop 1 else id) content) = Some (audit_header # rows))"

lemma archive_csv_reads:
  assumes "utf8_encode (archive_csv L C rows) = Some bs"
  shows "csv_holds C (map (archive_cells L) rows) bs"
proof -
  have "csv_read ((if rc_csv_bom C then drop 1 else id) (archive_csv L C rows)) = Some (audit_header # map (archive_cells L) rows)"
    unfolding archive_csv_def drop_bom
    by (rule csv_rows_read) (auto simp: list_all_iff audit_header_def archive_cells_def Let_def)
  then show ?thesis using utf8_roundtrip [OF assms] by (auto simp: csv_holds_def)
qed

lemma write_artifacts_cases:
  assumes "write_artifacts L C w fault t d = (r, d')"
  shows "isl r \<and> d' = d \<or>
    (\<exists>cs js. utf8_encode (archive_csv L C (stream_rows w t)) = Some cs \<and>
       Option.bind (archive_json_lines L (stream_rows w t)) utf8_encode = Some js \<and>
       (isl r \<and> d' = d(json_path C w \<mapsto> Raw js) \<or>
        (isl r \<or> r = Inr (length (stream_rows w t), artifact_of L (csv_path C w) cs, artifact_of L (json_path C w) js)) \<and>
        d' = d(json_path C w \<mapsto> Raw js, csv_path C w \<mapsto> Raw cs)))"
  using assms by (auto simp: write_artifacts_def Let_def split: if_splits option.splits)

lemma lift_file_simps [simp]: "snd (lift_file r) = snd r" "isl (fst (lift_file r)) = isl (fst r)"
  by (auto simp: lift_file_def split: sum.splits)

lemma lift_file_Inr [simp]: "lift_file r = (Inr v, d) \<longleftrightarrow> r = (Inr v, d)"
  by (cases r; cases "fst r") (auto simp: lift_file_def)

lemma lift_file_result: "lift_file x = (r, d) \<Longrightarrow> \<exists>r'. x = (r', d) \<and> isl r' = isl r"
  by (cases x; cases "fst x") (auto simp: lift_file_def)

lemma write_artifacts_paths:
  "p \<noteq> csv_path C w \<Longrightarrow> p \<noteq> json_path C w \<Longrightarrow> snd (write_artifacts L C w fault t d) p = d p"
  using write_artifacts_cases [of L C w fault t d "fst (write_artifacts L C w fault t d)" "snd (write_artifacts L C w fault t d)"]
  by (auto split: if_splits)

lemma save_doc_paths: "p \<noteq> path \<Longrightarrow> snd (save_doc fault path j d) p = d p"
  by (auto simp: save_doc_def split: option.splits)

lemma write_manifest_paths:
  assumes "write_manifest L C w W csv json n d = (r, d')"
  shows "\<forall>p. p \<noteq> archive_manifest_path C w \<longrightarrow> d' p = d p"
proof -
  let ?f = "\<lambda>k d. lift_file (save_doc (aw_manifest_write W k) (archive_manifest_path C w)
    (manifest_payload L C w csv json n (aw_generated_at W)) d)"
  obtain r1 d1 where run: "run_stage (rc_retry_attempts C) ?f d = (r1, d1)" by (cases "run_stage (rc_retry_attempts C) ?f d")
  have "\<forall>p. p \<noteq> archive_manifest_path C w \<longrightarrow> d1 p = d p"
    by (rule run_stage_inv [OF run]) (simp_all add: save_doc_paths)
  moreover have "d' = d1" using assms run by (auto simp: write_manifest_def Let_def split: sum.splits option.splits)
  ultimately show ?thesis by simp
qed

lemma write_manifest_ok:
  assumes "write_manifest L C w W csv json n d = (Inr m, d')"
  shows "\<exists>bs. d' (archive_manifest_path C w) = Some (Doc (manifest_payload L C w csv json n (aw_generated_at W))) \<and>
    doc_bytes (manifest_payload L C w csv json n (aw_generated_at W)) = Some bs \<and>
    m = artifact_of L (archive_manifest_path C w) bs"
proof -
  let ?j = "manifest_payload L C w csv json n (aw_generated_at W)"
  let ?f = "\<lambda>k d. lift_file (save_doc (aw_manifest_write W k) (archive_manifest_path C w) ?j d)"
  obtain z where run: "run_stage (rc_retry_attempts C) ?f d = (Inr z, d')"
    using assms by (auto simp: write_manifest_def Let_def split: sum.splits option.splits prod.splits)
  from run_stage_last [where I = "\<lambda>_. True", OF run] obtain k s0 where "?f k s0 = (Inr z, d')" by auto
  then have "save_doc (aw_manifest_write W k) (archive_manifest_path C w) ?j s0 = (Inr z, d')" by simp
  then have "\<exists>bs. doc_bytes ?j = Some bs \<and> z = length bs \<and> d' (archive_manifest_path C w) = Some (Doc ?j)"
    by (auto simp: save_doc_def split: if_splits option.splits)
  then show ?thesis using assms run
    by (auto simp: write_manifest_def Let_def artifact_of_def file_bytes_def split: if_splits option.splits)
qed

lemma release_update_paths: "p \<noteq> path \<Longrightarrow> snd (release_update fault path e d) p = d p"
  using release_update_disk [of fault path e d "fst (release_update fault path e d)" "snd (release_update fault path e d)"] by simp

lemma release_one_paths: "p \<noteq> path \<Longrightarrow> snd (release_one L path ts kind fault a d) p = d p"
  by (auto simp: release_one_def release_update_paths split: option.splits)

lemma update_release_paths: "p \<noteq> path \<Longrightarrow> snd (update_release L path W res n d) p = d p"
  using release_one_paths [of p path L "aw_release_ts W n"]
  by (auto simp: update_release_def split: sum.splits prod.splits) (metis snd_conv)+

lemma record_partition_paths: "p \<noteq> partitions_path C \<Longrightarrow> snd (record_partition L C fault res d) p = d p"
  by (auto simp: record_partition_def Let_def save_doc_paths split: option.splits sum.splits)

text \<open>
  What the attempts of the first stage keep holds if that stage fails; what its success gives and the later
  stages keep holds otherwise.
\<close>

lemma archive_stages_inv:
  assumes run: "archive_stages L C release W w t d = (r, d')" and "I d"
    and one: "\<And>n s. I s \<Longrightarrow> I (snd (write_artifacts L C w (aw_write W n) t s))"
    and two: "\<And>n s s' a. I s \<Longrightarrow> write_artifacts L C w (aw_write W n) t s = (Inr a, s') \<Longrightarrow> J s'"
    and manifest: "\<And>s s'. J s \<Longrightarrow> \<forall>p. p \<noteq> archive_manifest_path C w \<longrightarrow> s' p = s p \<Longrightarrow> J s'"
    and rel: "\<And>res n s. J s \<Longrightarrow> J (snd (update_release L release W res n s))"
    and part: "\<And>res n s. J s \<Longrightarrow> ar_window res = w \<Longrightarrow> J (snd (record_partition L C (aw_partition W n) res s))"
  shows "I d' \<or> J d'"
proof -
  let ?f1 = "\<lambda>n. write_artifacts L C w (aw_write W n) t"
  obtain r1 d1 where s1: "run_stage (rc_retry_attempts C) ?f1 d = (r1, d1)" by (cases "run_stage (rc_retry_attempts C) ?f1 d")
  show ?thesis
  proof (cases r1)
    case (Inl x)
    have "I d1" by (rule run_stage_inv [where I = I, OF s1 \<open>I d\<close> one])
    then show ?thesis using run s1 Inl by (simp add: archive_stages_def)
  next
    case (Inr a)
    obtain n csv json where a: "a = (n, csv, json)" by (cases a)
    from run_stage_last [where I = I, OF s1 \<open>I d\<close> one] Inr have j1: "J d1" using two by blast
    obtain r2 d2 where s2: "write_manifest L C w W csv json n d1 = (r2, d2)" by (cases "write_manifest L C w W csv json n d1")
    have j2: "J d2" using manifest [OF j1] write_manifest_paths [OF s2] by blast
    show ?thesis
    proof (cases r2)
      case (Inl x)
      then show ?thesis using run s1 s2 Inr a j2 by (simp add: archive_stages_def)
    next
      case (Inr m)
      let ?res = "\<lparr>ar_window = w, ar_csv = csv, ar_json = json, ar_manifest = m, ar_row_count = n\<rparr>"
      obtain r3 d3 where s3: "run_stage (rc_retry_attempts C) (update_release L release W ?res) d2 = (r3, d3)"
        by (cases "run_stage (rc_retry_attempts C) (update_release L release W ?res) d2")
      have j3: "J d3" by (rule run_stage_inv [where I = J, OF s3 j2 rel])
      obtain r4 d4 where s4: "run_stage (rc_retry_attempts C) (\<lambda>n. record_partition L C (aw_partition W n) ?res) d3 = (r4, d4)"
        by (cases "run_stage (rc_retry_attempts C) (\<lambda>n. record_partition L C (aw_partition W n) ?res) d3")
      have j4: "J d4" by (rule run_stage_inv [where I = J, OF s4 j3 part]) simp_all
      have "d' \<in> {d3, d4}"
        using run s1 s2 s3 s4 \<open>r1 = Inr a\<close> a Inr by (cases r3; cases r4) (auto simp: archive_stages_def Let_def)
      then show ?thesis using j3 j4 by auto
    qed
  qed
qed

text \<open>Every file but the five of an archive stays.\<close>

lemma archive_stages_paths:
  assumes "archive_stages L C release W w t d = (r, d')"
    and p: "p \<notin> {csv_path C w, json_path C w, archive_manifest_path C w, release, partitions_path C}"
  shows "d' p = d p"
proof -
  let ?I = "\<lambda>s :: disk. s p = d p"
  have one: "?I (snd (write_artifacts L C w (aw_write W n) t s))" if "?I s" for n s
    using that p by (simp add: write_artifacts_paths)
  have "?I d' \<or> ?I d'"
  proof (rule archive_stages_inv [OF assms(1), where I = ?I and J = ?I])
    show "?I s'" if "?I s" "write_artifacts L C w (aw_write W n) t s = (Inr a, s')" for n s s' a
      using one [of s n] that by simp
  qed (use p one in \<open>simp_all add: update_release_paths record_partition_paths\<close>)
  then show ?thesis by simp
qed

text \<open>A successful archive: each stage has succeeded.\<close>

lemma archive_stages_ok:
  assumes "archive_stages L C release W w t d = (Inr res, d')"
  shows "\<exists>d1 d2 d3. run_stage (rc_retry_attempts C) (\<lambda>n. write_artifacts L C w (aw_write W n) t) d =
      (Inr (ar_row_count res, ar_csv res, ar_json res), d1) \<and>
    write_manifest L C w W (ar_csv res) (ar_json res) (ar_row_count res) d1 = (Inr (ar_manifest res), d2) \<and>
    run_stage (rc_retry_attempts C) (update_release L release W res) d2 = (Inr (), d3) \<and>
    (\<exists>n. run_stage (rc_retry_attempts C) (\<lambda>n. record_partition L C (aw_partition W n) res) d3 = (Inr n, d')) \<and>
    ar_window res = w"
  using assms by (auto simp: archive_stages_def Let_def split: sum.splits prod.splits)

section \<open>The list of partitions\<close>

record partition_text =
  pt_month :: pystr
  pt_start :: pystr
  pt_end :: pystr
  pt_size :: int

definition partition_of :: "json \<Rightarrow> partition_text option" where
  "partition_of item =
     (case (str_field (asc ''month'') item, str_field (asc ''start'') item, str_field (asc ''end'') item,
            item_get item (asc ''size_bytes'')) of
        (Some m, Some s, Some e, Some (JInt z)) \<Rightarrow> Some \<lparr>pt_month = m, pt_start = s, pt_end = e, pt_size = z\<rparr>
      | _ \<Rightarrow> None)"

definition partitions_view :: "archive_config \<Rightarrow> disk \<Rightarrow> partition_text list option" where
  "partitions_view C d =
     (case load_doc (partitions_path C) d of
        Inr None \<Rightarrow> Some [] | Inr (Some (JList items)) \<Rightarrow> those (map partition_of items) | _ \<Rightarrow> None)"

definition partition_entry :: "archive_lib \<Rightarrow> AuditArchiveResult \<Rightarrow> partition_text" where
  "partition_entry L res =
     \<lparr>pt_month = aw_month_key (ar_window res), pt_start = al_iso (rl_files L) (aw_start (ar_window res)),
      pt_end = al_iso (rl_files L) (aw_end (ar_window res)),
      pt_size = int (aa_size (ar_csv res) + aa_size (ar_json res) + aa_size (ar_manifest res))\<rparr>"

lemma partition_of_Some:
  "partition_of item = Some x \<longleftrightarrow>
     str_field (asc ''month'') item = Some (pt_month x) \<and> str_field (asc ''start'') item = Some (pt_start x) \<and>
     str_field (asc ''end'') item = Some (pt_end x) \<and> item_get item (asc ''size_bytes'') = Some (JInt (pt_size x))"
  by (auto simp: partition_of_def split: option.splits json.splits)

lemma partition_of_json: "partition_of (partition_json L res) = Some (partition_entry L res)"
  by (simp add: partition_of_Some partition_json_def partition_entry_def str_field_def item_get_def Let_def py_defs)

lemma str_field_dict: "str_field k item = Some s \<Longrightarrow> is_dict item"
  by (cases item) (simp_all add: str_field_def item_get_def is_dict_def)

lemma record_partition_view:
  assumes "record_partition L C fault res d = (r, d')" and "partitions_view C d = Some ps"
  shows "partitions_view C d' = Some (put_record pt_month pt_start (partition_entry L res) ps) \<or> isl r \<and> d' = d"
    and "\<not> isl r \<Longrightarrow> partitions_view C d' = Some (put_record pt_month pt_start (partition_entry L res) ps)"
proof -
  let ?e = "partition_entry L res"
  obtain items where items: "(case load_doc (partitions_path C) d of Inr (Some j) \<Rightarrow> j | _ \<Rightarrow> JList []) = JList items"
    "those (map partition_of items) = Some ps"
    using assms(2) by (auto simp: partitions_view_def split: sum.splits option.splits json.splits)
  have month: "pt_month ?e = aw_month_key (ar_window res)" by (simp add: partition_entry_def)
  have law: "is_dict i \<and> str_field (asc ''month'') i = Some (pt_month x) \<and> str_field (asc ''start'') i = Some (pt_start x)"
    if "partition_of i = Some x" for i x
    using that str_field_dict [of "asc ''month''" i] by (simp add: partition_of_Some)
  obtain its where its: "replace_item (asc ''month'') (aw_month_key (ar_window res)) (asc ''start'') (partition_json L res) items = Some its"
    "those (map partition_of its) = Some (put_record pt_month pt_start ?e ps)"
    using replace_item_view [OF items(2) partition_of_json [of L res], where name = pt_month and order = pt_start] law
    unfolding month by blast
  have step: "lift_file (save_doc fault (partitions_path C) (JList its) d) = (r, d')"
    using assms(1) items(1) its(1) by (simp add: record_partition_def Let_def iter_items_def)
  have v: "partitions_view C (d(partitions_path C \<mapsto> Doc (JList its))) = Some (put_record pt_month pt_start ?e ps)"
    using its(2) by (simp add: partitions_view_def load_doc_def)
  obtain r' where s: "save_doc fault (partitions_path C) (JList its) d = (r', d')" "isl r' = isl r"
    using lift_file_result [OF step] by blast
  show "partitions_view C d' = Some (put_record pt_month pt_start ?e ps) \<or> isl r \<and> d' = d"
    using save_doc_cases(1) [OF s(1)] s(2) v by blast
  show "partitions_view C d' = Some (put_record pt_month pt_start ?e ps)" if "\<not> isl r"
    using save_doc_cases(2) [OF s(1)] s(2) v that by blast
qed

text \<open>Under retries the other partitions stay.\<close>

definition others_kept :: "('r \<Rightarrow> pystr) \<Rightarrow> pystr set \<Rightarrow> 'r list \<Rightarrow> 'r list \<Rightarrow> bool" where
  "others_kept name ns old new \<longleftrightarrow> (\<forall>x. name x \<notin> ns \<longrightarrow> x \<in> set new \<longleftrightarrow> x \<in> set old)"

lemma others_kept_put:
  "others_kept name ns old new \<Longrightarrow> name e \<in> ns \<Longrightarrow> others_kept name ns old (put_record name order e new)"
  by (auto simp: others_kept_def put_record_set)

lemma others_kept_refl: "others_kept name ns old old"
  by (simp add: others_kept_def)

lemma record_partitions:
  assumes run: "run_stage a (\<lambda>n. record_partition L C (f n) res) d = (r, d')"
    and view: "partitions_view C d = Some ps"
  shows "\<exists>ps'. partitions_view C d' = Some ps' \<and> others_kept pt_month {aw_month_key (ar_window res)} ps ps' \<and>
    set ps' \<subseteq> set ps \<union> {partition_entry L res} \<and>
    (\<not> isl r \<longrightarrow> (\<forall>x \<in> set ps'. pt_month x = aw_month_key (ar_window res) \<longrightarrow> x = partition_entry L res) \<and>
      partition_entry L res \<in> set ps')"
proof -
  let ?e = "partition_entry L res"
  let ?I = "\<lambda>d. \<exists>ps'. partitions_view C d = Some ps' \<and> others_kept pt_month {pt_month ?e} ps ps' \<and> set ps' \<subseteq> set ps \<union> {?e}"
  have month: "pt_month ?e = aw_month_key (ar_window res)" by (simp add: partition_entry_def)
  have put: "others_kept pt_month {pt_month ?e} ps (put_record pt_month pt_start ?e ps') \<and>
      set (put_record pt_month pt_start ?e ps') \<subseteq> set ps \<union> {?e}"
    if "others_kept pt_month {pt_month ?e} ps ps'" "set ps' \<subseteq> set ps \<union> {?e}" for ps'
    using that others_kept_put [of pt_month "{pt_month ?e}" ps ps' ?e] by (auto simp: put_record_set)
  have step: "?I (snd (record_partition L C (f n) res s))" if I: "?I s" for n s
  proof -
    obtain ps' where ps': "partitions_view C s = Some ps'" "others_kept pt_month {pt_month ?e} ps ps'" "set ps' \<subseteq> set ps \<union> {?e}"
      using I by blast
    have "record_partition L C (f n) res s = (fst (record_partition L C (f n) res s), snd (record_partition L C (f n) res s))" by simp
    from record_partition_view(1) [OF this ps'(1)] show ?thesis using ps' put [OF ps'(2,3)] by metis
  qed
  have "?I d" using view by (auto simp: others_kept_refl)
  from run_stage_last [where I = ?I, OF run this step] obtain n s0 where s0: "?I s0"
    "record_partition L C (f n) res s0 = (r, d')" by blast
  then obtain ps' where ps': "partitions_view C s0 = Some ps'" "others_kept pt_month {pt_month ?e} ps ps'" "set ps' \<subseteq> set ps \<union> {?e}"
    by blast
  note v = record_partition_view [OF s0(2) ps'(1)]
  show ?thesis
  proof (cases "isl r")
    case True
    then show ?thesis using v(1) ps' put [OF ps'(2,3)] unfolding month [symmetric] by blast
  next
    case False
    then show ?thesis using v(2) put [OF ps'(2,3)] unfolding month [symmetric] by (auto simp: put_record_set)
  qed
qed

section \<open>The entries in the release manifest\<close>

definition release_entry :: "archive_lib \<Rightarrow> pystr \<Rightarrow> int \<Rightarrow> AuditArchiveArtifact \<Rightarrow> ManifestEntry" where
  "release_entry L kind ts a =
     \<lparr>me_name = aa_path a, me_sha256 = aa_sha256 a, me_size = int (aa_size a), me_ts = al_iso (rl_files L) ts, me_kind = kind\<rparr>"

lemma release_one_view:
  assumes "release_one L path ts kind fault (artifact_of L p bs) d = (r, d')" and "d p = Some (Raw bs)"
    and "disk_view path d = Some es"
  shows "disk_view path d' = Some (put_record me_name me_name (release_entry L kind ts (artifact_of L p bs)) es) \<or> isl r \<and> d' = d"
    and "\<not> isl r \<Longrightarrow> disk_view path d' = Some (put_record me_name me_name (release_entry L kind ts (artifact_of L p bs)) es)"
proof -
  let ?e = "release_entry L kind ts (artifact_of L p bs)"
  have e: "?e = \<lparr>me_name = p, me_sha256 = al_sha256 (rl_files L) bs, me_size = int (length bs), me_ts = al_iso (rl_files L) ts, me_kind = kind\<rparr>"
    by (simp add: release_entry_def artifact_of_def)
  have "lift_file (release_update fault path ?e d) = (r, d')"
    using assms(1,2) unfolding e by (simp add: release_one_def artifact_of_def file_bytes_def)
  from lift_file_result [OF this] obtain r' where u: "release_update fault path ?e d = (r', d')" "isl r' = isl r" by blast
  from release_update_view [OF u(1) assms(3)] u(2)
  show "disk_view path d' = Some (put_record me_name me_name ?e es) \<or> isl r \<and> d' = d" by (auto split: if_splits)
  show "disk_view path d' = Some (put_record me_name me_name ?e es)" if "\<not> isl r"
    using release_update_view [OF u(1) assms(3)] u(2) that by simp
qed

lemma update_releases:
  assumes run: "run_stage a (update_release L path W res) d = (r, d')"
    and files: "ar_csv res = artifact_of L p cs" "ar_json res = artifact_of L q js" "p \<noteq> q" "p \<noteq> path" "q \<noteq> path"
      "d p = Some (Raw cs)" "d q = Some (Raw js)"
    and view: "disk_view path d = Some es"
  shows "\<exists>es'. disk_view path d' = Some es' \<and> others_kept me_name {p, q} es es' \<and>
    (\<not> isl r \<longrightarrow> (\<exists>ts. {release_entry L (asc ''audit-archive-csv'') ts (ar_csv res),
      release_entry L (asc ''audit-archive-json'') ts (ar_json res)} \<subseteq> set es'))"
proof -
  let ?e1 = "\<lambda>n. release_entry L (asc ''audit-archive-csv'') (aw_release_ts W n) (artifact_of L p cs)"
  let ?e2 = "\<lambda>n. release_entry L (asc ''audit-archive-json'') (aw_release_ts W n) (artifact_of L q js)"
  let ?put = "put_record me_name me_name"
  let ?I = "\<lambda>s. s p = Some (Raw cs) \<and> s q = Some (Raw js) \<and> (\<exists>es'. disk_view path s = Some es' \<and> others_kept me_name {p, q} es es')"
  have names: "me_name (?e1 n) = p" "me_name (?e2 n) = q" for n by (simp_all add: release_entry_def artifact_of_def)
  have step: "\<exists>es'. disk_view path s' = Some es' \<and> others_kept me_name {p, q} es es' \<and>
      (\<not> isl r0 \<longrightarrow> {?e1 n, ?e2 n} \<subseteq> set es') \<and> s' p = s p \<and> s' q = s q"
    if I: "?I s" and call: "update_release L path W res n s = (r0, s')" for n s r0 s'
  proof -
    obtain es0 where es0: "disk_view path s = Some es0" "others_kept me_name {p, q} es es0" using I by blast
    obtain r1 s1 where one: "release_one L path (aw_release_ts W n) (asc ''audit-archive-csv'') (fst (aw_release W n)) (artifact_of L p cs) s = (r1, s1)"
      by (cases "release_one L path (aw_release_ts W n) (asc ''audit-archive-csv'') (fst (aw_release W n)) (artifact_of L p cs) s")
    have keep1: "s1 p = s p" "s1 q = s q" using release_one_paths [of _ path L] one files(4,5) by (metis snd_conv)+
    have k1: "others_kept me_name {p, q} es (?put (?e1 n) es0)" using es0(2) names by (intro others_kept_put) auto
    note v1 = release_one_view [OF one _ es0(1)]
    show ?thesis
    proof (cases r1)
      case (Inl x)
      then have "s' = s1" "isl r0" using call one files(1) by (auto simp: update_release_def)
      then show ?thesis using v1(1) I es0 k1 keep1 by auto
    next
      case (Inr z)
      then have view1: "disk_view path s1 = Some (?put (?e1 n) es0)" using v1(2) I by simp
      obtain r2 s2 where two: "release_one L path (aw_release_ts W n) (asc ''audit-archive-json'') (snd (aw_release W n)) (artifact_of L q js) s1 = (r2, s2)"
        by (cases "release_one L path (aw_release_ts W n) (asc ''audit-archive-json'') (snd (aw_release W n)) (artifact_of L q js) s1")
      have keep2: "s2 p = s1 p" "s2 q = s1 q" using release_one_paths [of _ path L] two files(4,5) by (metis snd_conv)+
      have k2: "others_kept me_name {p, q} es (?put (?e2 n) (?put (?e1 n) es0))"
        using others_kept_put [OF k1, of "?e2 n"] names(2) by simp
      have eq: "s' = s2" "isl r0 = isl r2"
        using call one two files(1,2) Inr by (auto simp: update_release_def split: sum.splits)
      have both: "{?e1 n, ?e2 n} \<subseteq> set (?put (?e2 n) (?put (?e1 n) es0))" using names files(3) by (auto simp: put_record_set)
      note v2 = release_one_view [OF two _ view1]
      show ?thesis
      proof (cases "isl r2")
        case True
        then show ?thesis using v2(1) I keep1 keep2 view1 k1 k2 eq by auto
      next
        case False
        then show ?thesis using v2(2) I keep1 keep2 k2 both eq by auto
      qed
    qed
  qed
  have "?I d" using files(6,7) view by (auto simp: others_kept_refl)
  have inv: "?I (snd (update_release L path W res n s))" if "?I s" for n s
    using step [OF that, of n "fst (update_release L path W res n s)" "snd (update_release L path W res n s)"] that by auto
  from run_stage_last [where I = ?I, OF run \<open>?I d\<close> inv] obtain n s0 where "?I s0" "update_release L path W res n s0 = (r, d')"
    by blast
  from step [OF this] files(1,2) show ?thesis by auto
qed

lemma stream_rows_exact:
  "sorted (map (\<lambda>e. ev_ts (ae_data e)) (stream_rows w t)) \<and> length (stream_rows w t) = count_rows w t \<and>
   mset (stream_rows w t) =
     mset (filter (\<lambda>e. aw_start w \<le> ev_ts (ae_data e) \<and> ev_ts (ae_data e) < aw_end w) (at_rows t))"
  by (simp add: stream_rows_def count_rows_def)

end
