(* ===== verification/Audit_Retention.thy ===== *)
theory Audit_Retention
  imports Audit_Archive
begin

text \<open>
  \<^verbatim>\<open>audit/retention.py\<close>, the retention: which months are too old or too large, the check of their archives, and the purge
  of their events. Reports are the planned and the purged entries. A run of the audit log interleaves events, archives and purges.
\<close>

section \<open>The plan\<close>

record PartitionInfo =
  pi_month_key :: pystr
  pi_start :: int
  pi_end :: int
  pi_size :: int

record RetentionPlanEntry =
  rp_month_key :: pystr
  rp_reason :: pystr
  rp_start :: int
  rp_end :: int
  rp_size :: int

text \<open>\<^verbatim>\<open>int(item.get("size_bytes", 0))\<close>\<close>

definition int_of_json :: "json option \<Rightarrow> int option" where
  "int_of_json v =
     (case v of None \<Rightarrow> Some 0 | Some (JInt i) \<Rightarrow> Some i | Some (JBool b) \<Rightarrow> Some (if b then 1 else 0)
      | Some (JStr s) \<Rightarrow> py_int s | _ \<Rightarrow> None)"

definition partition_info :: "archive_lib \<Rightarrow> json \<Rightarrow> archive_exn + PartitionInfo" where
  "partition_info L item =
     (case (str_field (asc ''month'') item, Option.bind (str_field (asc ''start'') item) (rl_parse L),
            Option.bind (str_field (asc ''end'') item) (rl_parse L), int_of_json (item_get item (asc ''size_bytes''))) of
        (Some m, Some s, Some e, Some z) \<Rightarrow> Inr \<lparr>pi_month_key = m, pi_start = s, pi_end = e, pi_size = z\<rparr>
      | _ \<Rightarrow> Inl (Archive_File_Error MalformedDocument))"

definition list_partitions :: "archive_lib \<Rightarrow> archive_config \<Rightarrow> disk \<Rightarrow> archive_exn + PartitionInfo list" where
  "list_partitions L C d =
     (case load_doc (partitions_path C) d of
        Inl x \<Rightarrow> Inl (Archive_File_Error x)
      | Inr None \<Rightarrow> Inr []
      | Inr (Some j) \<Rightarrow>
          (case iter_items j of
             None \<Rightarrow> Inl (Archive_File_Error MalformedDocument)
           | Some items \<Rightarrow> rmap (partition_info L) items))"

definition plan_entry :: "pystr \<Rightarrow> PartitionInfo \<Rightarrow> RetentionPlanEntry" where
  "plan_entry reason p =
     \<lparr>rp_month_key = pi_month_key p, rp_reason = reason, rp_start = pi_start p, rp_end = pi_end p, rp_size = pi_size p\<rparr>"

definition age_days :: "int \<Rightarrow> PartitionInfo \<Rightarrow> int" where
  "age_days now p = (now - pi_start p) div 86400000000"

definition age_months :: "archive_lib \<Rightarrow> int \<Rightarrow> PartitionInfo \<Rightarrow> int" where
  "age_months L now p =
     (let (ny, nm) = rl_year_month L now; (y, m) = rl_year_month L (pi_start p) in (ny - y) * 12 + (nm - m))"

definition is_found :: "PartitionInfo \<Rightarrow> RetentionPlanEntry list \<Rightarrow> bool" where
  "is_found p findings \<longleftrightarrow> list_ex (\<lambda>e. rp_month_key e = pi_month_key p) findings"

definition plan_days :: "archive_config \<Rightarrow> int \<Rightarrow> PartitionInfo list \<Rightarrow> RetentionPlanEntry list" where
  "plan_days C now ps =
     (case rc_age_days C of
        None \<Rightarrow> []
      | Some limit \<Rightarrow> map (plan_entry (asc ''age'')) (filter (\<lambda>p. limit < age_days now p) ps))"

fun plan_months ::
  "(PartitionInfo \<Rightarrow> int) \<Rightarrow> int \<Rightarrow> PartitionInfo list \<Rightarrow> RetentionPlanEntry list \<Rightarrow> RetentionPlanEntry list" where
  "plan_months age limit [] findings = findings"
| "plan_months age limit (p # ps) findings =
     plan_months age limit ps
       (if limit < age p \<and> \<not> is_found p findings then findings @ [plan_entry (asc ''age'') p] else findings)"

fun plan_size :: "int \<Rightarrow> int \<Rightarrow> PartitionInfo list \<Rightarrow> RetentionPlanEntry list \<Rightarrow> RetentionPlanEntry list" where
  "plan_size limit total_bytes [] findings = findings"
| "plan_size limit total_bytes (p # ps) findings =
     (if total_bytes \<le> limit then findings
      else plan_size limit (total_bytes - pi_size p) ps
        (if is_found p findings then findings else findings @ [plan_entry (asc ''size'') p]))"

definition retention_plan :: "archive_lib \<Rightarrow> archive_config \<Rightarrow> int \<Rightarrow> PartitionInfo list \<Rightarrow> RetentionPlanEntry list" where
  "retention_plan L C now ps =
     (let findings = plan_days C now ps;
          findings = (case rc_age_months C of None \<Rightarrow> findings | Some limit \<Rightarrow> plan_months (age_months L now) limit ps findings);
          findings = (case rc_size_bytes C of
             None \<Rightarrow> findings
           | Some limit \<Rightarrow>
               (let total_bytes = sum_list (map pi_size ps)
                in if limit < total_bytes then plan_size limit total_bytes (sort_key pi_start ps) findings else findings))
      in sort_key rp_start findings)"

section \<open>Checking an archive and purging\<close>

definition artifacts_by_type :: "json list \<Rightarrow> (json \<times> json) list" where
  "artifacts_by_type items =
     foldl (\<lambda>m item. case item_get item (asc ''type'') of None \<Rightarrow> m | Some k \<Rightarrow> AList.update k item m) [] items"

fun verify_artifacts :: "archive_lib \<Rightarrow> disk \<Rightarrow> json list \<Rightarrow> archive_exn + bool" where
  "verify_artifacts L d [] = Inr True"
| "verify_artifacts L d (item # items) =
     (case (case str_field (asc ''name'') item of Some s \<Rightarrow> if s = [] then None else Some s | None \<Rightarrow> None) of
        None \<Rightarrow> Inl (Archive_File_Error MalformedDocument)
      | Some name \<Rightarrow>
          (case d name of
             None \<Rightarrow> Inr False
           | Some f \<Rightarrow>
               (case file_bytes f of
                  None \<Rightarrow> Inl (Archive_File_Error FileError)
                | Some bs \<Rightarrow>
                    if item_get item (asc ''sha256'') \<noteq> Some (JStr (al_sha256 (rl_files L) bs)) then Inr False
                    else verify_artifacts L d items)))"

definition verify_archive :: "archive_lib \<Rightarrow> archive_config \<Rightarrow> pystr \<Rightarrow> disk \<Rightarrow> archive_exn + bool" where
  "verify_archive L C month_key d =
     rbind (archive_window L month_key) (\<lambda>w.
       case load_doc (archive_manifest_path C w) d of
         Inl x \<Rightarrow> Inl (Archive_File_Error x)
       | Inr None \<Rightarrow> Inr False
       | Inr (Some (JDict m)) \<Rightarrow>
           (case (case map_of m (asc ''artifacts'') of None \<Rightarrow> Some [] | Some j \<Rightarrow> iter_items j) of
              Some items \<Rightarrow>
                if \<not> list_all is_dict items then Inl (Archive_File_Error MalformedDocument)
                else verify_artifacts L d (map snd (artifacts_by_type items))
            | None \<Rightarrow> Inl (Archive_File_Error MalformedDocument))
       | _ \<Rightarrow> Inl (Archive_File_Error MalformedDocument))"

datatype drop_fault = Drop_Fine | Drop_Refused | Drop_Ack_Lost

definition in_range :: "int \<Rightarrow> int \<Rightarrow> AuditEvent \<Rightarrow> bool" where
  "in_range s e x \<longleftrightarrow> s \<le> ev_ts (ae_data x) \<and> ev_ts (ae_data x) < e"

definition drop_partition :: "RetentionPlanEntry \<Rightarrow> drop_fault \<Rightarrow> audit_table \<Rightarrow> (archive_exn + unit) \<times> audit_table" where
  "drop_partition e fault t =
     (let t' = t\<lparr>at_rows := filter (\<lambda>x. \<not> in_range (rp_start e) (rp_end e) x) (at_rows t)\<rparr>
      in case fault of Drop_Fine \<Rightarrow> (Inr (), t') | Drop_Refused \<Rightarrow> (Inl DatabaseError, t) | Drop_Ack_Lost \<Rightarrow> (Inl DatabaseError, t'))"

text \<open>What a purge meets, for each month and attempt: whether the files can be read, and the database.\<close>

record enforce_world =
  ew_now :: int
  ew_read :: "pystr \<Rightarrow> nat \<Rightarrow> bool"
  ew_drop :: "pystr \<Rightarrow> nat \<Rightarrow> drop_fault"

fun enforce_entries ::
  "archive_lib \<Rightarrow> archive_config \<Rightarrow> enforce_world \<Rightarrow> disk \<Rightarrow> RetentionPlanEntry list \<Rightarrow> audit_table \<Rightarrow>
   (archive_exn + unit) \<times> audit_table" where
  "enforce_entries L C W d [] t = (Inr (), t)"
| "enforce_entries L C W d (e # es) t =
     (case fst (run_stage (rc_retry_attempts C)
               (\<lambda>n s. (if ew_read W (rp_month_key e) n then verify_archive L C (rp_month_key e) d
                      else Inl (Archive_File_Error FileError), s)) ()) of
        Inl x \<Rightarrow> (Inl x, t)
      | Inr False \<Rightarrow> (Inl ArchiveFailure, t)
      | Inr True \<Rightarrow>
          (case run_stage (rc_retry_attempts C) (\<lambda>n. drop_partition e (ew_drop W (rp_month_key e) n)) t of
             (Inl x, t1) \<Rightarrow> (Inl x, t1)
           | (Inr _, t1) \<Rightarrow> enforce_entries L C W d es t1))"

record retention_report =
  rr_dry_run :: "RetentionPlanEntry list"
  rr_enforced :: "RetentionPlanEntry list"

definition enforce ::
  "archive_lib \<Rightarrow> archive_config \<Rightarrow> enforce_world \<Rightarrow> bool \<Rightarrow> disk \<Rightarrow> audit_table \<Rightarrow> (archive_exn + retention_report) \<times> audit_table" where
  "enforce L C W dry_run d t =
     (case list_partitions L C d of
        Inl x \<Rightarrow> (Inl x, t)
      | Inr ps \<Rightarrow>
          let entries = retention_plan L C (ew_now W) ps
          in if dry_run then (Inr \<lparr>rr_dry_run = entries, rr_enforced = []\<rparr>, t)
             else case enforce_entries L C W d entries t of
               (Inl x, t1) \<Rightarrow> (Inl x, t1)
             | (Inr _, t1) \<Rightarrow> (Inr \<lparr>rr_dry_run = entries, rr_enforced = entries\<rparr>, t1))"

section \<open>The plan is what the limits ask for\<close>

definition too_old :: "archive_lib \<Rightarrow> archive_config \<Rightarrow> int \<Rightarrow> PartitionInfo \<Rightarrow> bool" where
  "too_old L C now p \<longleftrightarrow>
     (case rc_age_days C of None \<Rightarrow> False | Some n \<Rightarrow> n < age_days now p) \<or>
     (case rc_age_months C of None \<Rightarrow> False | Some n \<Rightarrow> n < age_months L now p)"

lemma is_found_iff: "is_found p fs \<longleftrightarrow> pi_month_key p \<in> rp_month_key ` set fs"
  unfolding is_found_def list_ex_iff by (metis image_iff)

lemma plan_entry_simps [simp]:
  "rp_month_key (plan_entry r p) = pi_month_key p" "rp_reason (plan_entry r p) = r" "rp_start (plan_entry r p) = pi_start p"
  by (simp_all add: plan_entry_def)

text \<open>Findings for the partitions of a list, in any order, each once.\<close>

definition findings_for :: "(PartitionInfo \<Rightarrow> pystr) \<Rightarrow> PartitionInfo set \<Rightarrow> RetentionPlanEntry list \<Rightarrow> bool" where
  "findings_for reason P fs \<longleftrightarrow> set fs = (\<lambda>p. plan_entry (reason p) p) ` P \<and> distinct (map rp_month_key fs)"

lemma findings_for_add:
  assumes "findings_for reason P fs" and "\<not> is_found p fs" and "reason p = r"
  shows "findings_for reason (insert p P) (fs @ [plan_entry r p])"
  using assms by (auto simp: findings_for_def is_found_iff)

lemma findings_for_found:
  assumes "findings_for reason P fs" and "inj_on pi_month_key Q" and "P \<subseteq> Q" and "p \<in> Q"
  shows "is_found p fs \<longleftrightarrow> p \<in> P"
proof -
  have "rp_month_key ` set fs = pi_month_key ` P" using assms(1) by (force simp: findings_for_def)
  then show ?thesis using assms(2-4) by (auto simp: is_found_iff dest: inj_onD)
qed

lemma plan_months_findings:
  assumes "findings_for (\<lambda>_. asc ''age'') P fs" and "inj_on pi_month_key (P \<union> set ps)"
  shows "findings_for (\<lambda>_. asc ''age'') (P \<union> {p \<in> set ps. limit < age p}) (plan_months age limit ps fs)"
  using assms
proof (induction ps arbitrary: P fs)
  case (Cons p ps)
  let ?new = "if limit < age p \<and> \<not> is_found p fs then fs @ [plan_entry (asc ''age'') p] else fs"
  have found: "is_found p fs \<longleftrightarrow> p \<in> P" using findings_for_found [OF Cons.prems(1,2), of p] by auto
  have "findings_for (\<lambda>_. asc ''age'') (if limit < age p then insert p P else P) ?new"
    using Cons.prems(1) found findings_for_add [OF Cons.prems(1)] by (auto simp: insert_absorb)
  moreover have "inj_on pi_month_key ((if limit < age p then insert p P else P) \<union> set ps)"
    using Cons.prems(2) by (rule inj_on_subset) auto
  ultimately have "findings_for (\<lambda>_. asc ''age'') ((if limit < age p then insert p P else P) \<union> {p \<in> set ps. limit < age p})
      (plan_months age limit ps ?new)" by (rule Cons.IH)
  moreover have "(if limit < age p then insert p P else P) \<union> {p \<in> set ps. limit < age p} = P \<union> {q \<in> set (p # ps). limit < age q}"
    by auto
  ultimately show ?case by simp
qed simp

lemma plan_days_findings:
  assumes "distinct (map pi_month_key ps)"
  shows "findings_for (\<lambda>_. asc ''age'') {p \<in> set ps. case rc_age_days C of None \<Rightarrow> False | Some n \<Rightarrow> n < age_days now p} (plan_days C now ps)"
proof (cases "rc_age_days C")
  case None
  then show ?thesis by (simp add: plan_days_def findings_for_def)
next
  case (Some n)
  have "distinct (map pi_month_key (filter (\<lambda>p. n < age_days now p) ps))" using assms by (rule distinct_map_filter)
  then show ?thesis using Some by (auto simp: plan_days_def findings_for_def comp_def)
qed

text \<open>How many of the oldest partitions have to go before the rest fits.\<close>

fun size_cut :: "int \<Rightarrow> PartitionInfo list \<Rightarrow> nat" where
  "size_cut limit [] = 0"
| "size_cut limit (p # ps) = (if sum_list (map pi_size (p # ps)) \<le> limit then 0 else Suc (size_cut limit ps))"

lemma size_cut_least:
  "size_cut limit ps \<le> length ps \<and> (\<forall>j < size_cut limit ps. limit < sum_list (map pi_size (drop j ps))) \<and>
   (size_cut limit ps < length ps \<longrightarrow> sum_list (map pi_size (drop (size_cut limit ps) ps)) \<le> limit)"
proof (induction ps)
  case (Cons p ps)
  show ?case
  proof (cases "sum_list (map pi_size (p # ps)) \<le> limit")
    case False
    have "limit < sum_list (map pi_size (drop j (p # ps)))" if "j < Suc (size_cut limit ps)" for j
      using that False Cons by (cases j) auto
    then show ?thesis using False Cons by auto
  qed simp
qed simp

lemma plan_size_findings:
  assumes "findings_for reason P fs" and "inj_on pi_month_key (P \<union> set ps)" and "\<forall>p. p \<in> set ps \<longrightarrow> p \<notin> P \<longrightarrow> reason p = asc ''size''"
  shows "findings_for reason (P \<union> set (take (size_cut limit ps) ps)) (plan_size limit (sum_list (map pi_size ps)) ps fs)"
  using assms
proof (induction ps arbitrary: P fs)
  case (Cons p ps)
  show ?case
  proof (cases "sum_list (map pi_size (p # ps)) \<le> limit")
    case True
    then show ?thesis using Cons.prems(1) by simp
  next
    case False
    let ?new = "if is_found p fs then fs else fs @ [plan_entry (asc ''size'') p]"
    have found: "is_found p fs \<longleftrightarrow> p \<in> P" using findings_for_found [OF Cons.prems(1,2), of p] by auto
    have new: "findings_for reason (insert p P) ?new"
      using Cons.prems(1,3) found findings_for_add [OF Cons.prems(1)] by (auto simp: insert_absorb)
    have "inj_on pi_month_key (insert p P \<union> set ps)" using Cons.prems(2) by simp
    from Cons.IH [OF new this] Cons.prems(3)
    have "findings_for reason (insert p P \<union> set (take (size_cut limit ps) ps)) (plan_size limit (sum_list (map pi_size ps)) ps ?new)" by simp
    then show ?thesis using False by (simp add: Un_insert_left)
  qed
qed simp

lemma findings_for_cong: "findings_for reason P fs \<Longrightarrow> (\<And>p. p \<in> P \<Longrightarrow> reason p = reason' p) \<Longrightarrow> findings_for reason' P fs"
  by (force simp: findings_for_def)

text \<open>
  C25 retention_plan_spec: with one partition for each month, the plan lists exactly the months that are too old, in days or in
  calendar months, and the shortest run of oldest months after which the others fit the size limit. Each month
  is listed once, with the reason "age" where it is too old and "size" otherwise, in the order of the starts.
\<close>

theorem retention_plan_spec:
  assumes "distinct (map pi_month_key ps)"
  shows "let P = {p \<in> set ps. too_old L C now p}; oldest = sort_key pi_start ps;
      k = (case rc_size_bytes C of None \<Rightarrow> 0 | Some limit \<Rightarrow> size_cut limit oldest) in
    set (retention_plan L C now ps) =
      (\<lambda>p. plan_entry (if too_old L C now p then asc ''age'' else asc ''size'') p) ` (P \<union> set (take k oldest)) \<and>
    distinct (map rp_month_key (retention_plan L C now ps)) \<and> sorted (map rp_start (retention_plan L C now ps)) \<and>
    (\<forall>limit. rc_size_bytes C = Some limit \<longrightarrow>
       (\<forall>j < k. limit < sum_list (map pi_size (drop j oldest))) \<and>
       (k < length ps \<longrightarrow> sum_list (map pi_size (drop k oldest)) \<le> limit))"
proof -
  let ?P = "{p \<in> set ps. too_old L C now p}" and ?oldest = "sort_key pi_start ps"
  let ?k = "case rc_size_bytes C of None \<Rightarrow> 0 | Some limit \<Rightarrow> size_cut limit ?oldest"
  let ?reason = "\<lambda>p. if too_old L C now p then asc ''age'' else asc ''size''"
  have inj: "inj_on pi_month_key (set ps)" using assms by (simp add: distinct_map)
  define f1 where "f1 = plan_days C now ps"
  define f2 where "f2 = (case rc_age_months C of None \<Rightarrow> f1 | Some limit \<Rightarrow> plan_months (age_months L now) limit ps f1)"
  define f3 where "f3 = (case rc_size_bytes C of None \<Rightarrow> f2 | Some limit \<Rightarrow>
    if limit < sum_list (map pi_size ps) then plan_size limit (sum_list (map pi_size ps)) ?oldest f2 else f2)"
  have plan: "retention_plan L C now ps = sort_key rp_start f3"
    by (simp add: retention_plan_def f1_def f2_def f3_def Let_def split: option.splits)
  have one: "findings_for (\<lambda>_. asc ''age'') {p \<in> set ps. case rc_age_days C of None \<Rightarrow> False | Some n \<Rightarrow> n < age_days now p} f1"
    unfolding f1_def by (rule plan_days_findings [OF assms])
  have "findings_for (\<lambda>_. asc ''age'') ?P f2"
  proof (cases "rc_age_months C")
    case None
    then show ?thesis using one by (simp add: f2_def too_old_def)
  next
    case (Some n)
    have "inj_on pi_month_key ({p \<in> set ps. case rc_age_days C of None \<Rightarrow> False | Some n \<Rightarrow> n < age_days now p} \<union> set ps)"
      using inj by (rule inj_on_subset) auto
    from plan_months_findings [OF one this, of n "age_months L now"]
    have "findings_for (\<lambda>_. asc ''age'') ({p \<in> set ps. case rc_age_days C of None \<Rightarrow> False | Some n \<Rightarrow> n < age_days now p} \<union>
      {p \<in> set ps. n < age_months L now p}) f2" using Some by (simp add: f2_def)
    moreover have "{p \<in> set ps. case rc_age_days C of None \<Rightarrow> False | Some n \<Rightarrow> n < age_days now p} \<union>
      {p \<in> set ps. n < age_months L now p} = ?P" using Some by (auto simp: too_old_def)
    ultimately show ?thesis by simp
  qed
  then have two: "findings_for ?reason ?P f2" by (rule findings_for_cong) simp
  have size: "sum_list (map pi_size ?oldest) = sum_list (map pi_size ps)"
    by (metis mset_map mset_sort sum_mset_sum_list)
  have three: "findings_for ?reason (?P \<union> set (take ?k ?oldest)) f3"
  proof (cases "rc_size_bytes C")
    case None
    then show ?thesis using two by (simp add: f3_def)
  next
    case (Some limit)
    show ?thesis
    proof (cases "limit < sum_list (map pi_size ps)")
      case True
      have "inj_on pi_month_key (?P \<union> set ?oldest)" using inj by (rule inj_on_subset) auto
      from plan_size_findings [OF two this, of limit] show ?thesis using Some True size by (simp add: f3_def)
    next
      case False
      then have "size_cut limit ?oldest = 0" using size by (cases ?oldest) auto
      then show ?thesis using two Some False by (simp add: f3_def)
    qed
  qed
  have "distinct (map rp_month_key f3)" using three by (simp only: findings_for_def)
  then have "distinct (map rp_month_key (sort_key rp_start f3))" by (simp add: distinct_map)
  moreover have "sorted (map rp_start (sort_key rp_start f3))" by simp
  moreover have "set (sort_key rp_start f3) = (\<lambda>p. plan_entry (?reason p) p) ` (?P \<union> set (take ?k ?oldest))"
    using three by (simp add: findings_for_def)
  moreover have "(\<forall>j < ?k. limit < sum_list (map pi_size (drop j ?oldest))) \<and>
      (?k < length ps \<longrightarrow> sum_list (map pi_size (drop ?k ?oldest)) \<le> limit)" if "rc_size_bytes C = Some limit" for limit
    using size_cut_least [of limit ?oldest] that by simp
  ultimately show ?thesis unfolding Let_def plan by blast
qed

section \<open>A purge takes only what is archived\<close>

definition purge :: "RetentionPlanEntry list \<Rightarrow> AuditEvent list \<Rightarrow> AuditEvent list" where
  "purge es rows = filter (\<lambda>x. \<not> (\<exists>e \<in> set es. in_range (rp_start e) (rp_end e) x)) rows"

lemma purge_Nil [simp]: "purge [] rows = rows"
  by (simp add: purge_def)

lemma purge_Cons: "purge (e # es) rows = purge es (filter (\<lambda>x. \<not> in_range (rp_start e) (rp_end e) x) rows)"
  by (auto simp: purge_def intro: filter_cong)

lemma drop_retries:
  assumes "run_stage a (\<lambda>n. drop_partition e (f n)) t = (r, t')"
  shows "(t' = t \<and> isl r) \<or> t' = t\<lparr>at_rows := purge [e] (at_rows t)\<rparr>"
proof -
  let ?t = "t\<lparr>at_rows := purge [e] (at_rows t)\<rparr>"
  have step: "drop_partition e fault s = (Inr (), ?t) \<or> drop_partition e fault s = (Inl DatabaseError, ?t) \<or>
      drop_partition e fault s = (Inl DatabaseError, s)" if "s = t \<or> s = ?t" for fault s
    using that by (cases fault; cases s; cases t) (auto simp: drop_partition_def Let_def purge_def)
  have "\<exists>n s0. (s0 = t \<or> s0 = ?t) \<and> drop_partition e (f n) s0 = (r, t')"
  proof (rule run_stage_last [OF assms])
    show "t = t \<or> t = ?t" by simp
    fix n s assume "s = t \<or> s = ?t"
    from step [OF this, of "f n"] show "snd (drop_partition e (f n) s) = t \<or> snd (drop_partition e (f n) s) = ?t"
      using \<open>s = t \<or> s = ?t\<close> by auto
  qed
  then obtain n s0 where "s0 = t \<or> s0 = ?t" "drop_partition e (f n) s0 = (r, t')" by blast
  then show ?thesis using step [of s0 "f n"] by auto
qed

lemma verify_retries:
  assumes "fst (run_stage a (\<lambda>n s. (if f n then v else Inl x, s)) ()) = Inr b"
  shows "v = Inr b"
proof -
  obtain r s where run: "run_stage a (\<lambda>n s. (if f n then v else Inl x, s)) () = (r, s)"
    by (cases "run_stage a (\<lambda>n s. (if f n then v else Inl x, s)) ()")
  from run_stage_last [where I = "\<lambda>_. True", OF run] obtain n s0 where "(if f n then v else Inl x, s0) = (r, s)" by auto
  then show ?thesis using assms run by (auto split: if_splits)
qed

lemma enforce_entries_shape:
  assumes "enforce_entries L C W d es t = (r, t')"
  shows "\<exists>k \<le> length es. t' = t\<lparr>at_rows := purge (take k es) (at_rows t)\<rparr> \<and>
    (\<forall>e \<in> set (take k es). verify_archive L C (rp_month_key e) d = Inr True) \<and>
    (r = Inr () \<longrightarrow> k = length es) \<and>
    (r = Inl ArchiveFailure \<longrightarrow> k < length es \<and> verify_archive L C (rp_month_key (es ! k)) d \<in> {Inr False, Inl ArchiveFailure})"
  using assms
proof (induction es arbitrary: t)
  case Nil
  then show ?case by auto
next
  case (Cons e es)
  let ?v = "fst (run_stage (rc_retry_attempts C) (\<lambda>n s. (if ew_read W (rp_month_key e) n
    then verify_archive L C (rp_month_key e) d else Inl (Archive_File_Error FileError), s)) ())"
  have v: "verify_archive L C (rp_month_key e) d = Inr b" if "?v = Inr b" for b using verify_retries [OF that] .
  have stop: ?case if "t' = t" "r = Inl x" "x = ArchiveFailure \<longrightarrow> verify_archive L C (rp_month_key e) d \<in> {Inr False, Inl ArchiveFailure}" for x
    using that by (intro exI [of _ 0]) auto
  show ?case
  proof (cases ?v)
    case (Inl x)
    obtain r0 s where run: "run_stage (rc_retry_attempts C) (\<lambda>n s. (if ew_read W (rp_month_key e) n
      then verify_archive L C (rp_month_key e) d else Inl (Archive_File_Error FileError), s)) () = (r0, s)"
      by (cases "run_stage (rc_retry_attempts C) (\<lambda>n s. (if ew_read W (rp_month_key e) n
        then verify_archive L C (rp_month_key e) d else Inl (Archive_File_Error FileError), s)) ()")
    from run_stage_last [where I = "\<lambda>_. True", OF run] have
      "r0 = verify_archive L C (rp_month_key e) d \<or> r0 = Inl (Archive_File_Error FileError)" by (auto split: if_splits)
    then show ?thesis using stop [of x] Cons.prems Inl run by auto
  next
    case (Inr b)
    show ?thesis
    proof (cases b)
      case False
      then have eq: "t' = t" "r = Inl ArchiveFailure" using Cons.prems Inr by simp_all
      have "verify_archive L C (rp_month_key e) d = Inr False" using v [OF Inr] False by simp
      then show ?thesis by (intro stop [OF eq]) simp
    next
      case True
      obtain r1 t1 where run: "run_stage (rc_retry_attempts C) (\<lambda>n. drop_partition e (ew_drop W (rp_month_key e) n)) t = (r1, t1)"
        by (cases "run_stage (rc_retry_attempts C) (\<lambda>n. drop_partition e (ew_drop W (rp_month_key e) n)) t")
      note drop = drop_retries [OF run]
      show ?thesis
      proof (cases r1)
        case (Inl x)
        then have eq: "r = Inl x" "t' = t1" using Cons.prems Inr True run by auto
        have "x = DatabaseError"
        proof -
          from run_stage_last [where I = "\<lambda>_. True", OF run] obtain n s0
            where "drop_partition e (ew_drop W (rp_month_key e) n) s0 = (r1, t1)" by auto
          then show ?thesis using Inl by (auto simp: drop_partition_def Let_def split: drop_fault.splits)
        qed
        then have res: "r \<noteq> Inr ()" "r \<noteq> Inl ArchiveFailure" using eq by simp_all
        from drop show ?thesis
        proof
          assume "t1 = t \<and> isl r1"
          then show ?thesis using eq res by (intro exI [of _ 0]) simp
        next
          assume "t1 = t\<lparr>at_rows := purge [e] (at_rows t)\<rparr>"
          then show ?thesis using eq res v [OF Inr] True by (intro exI [of _ 1]) simp
        qed
      next
        case (Inr u)
        then have t1: "t1 = t\<lparr>at_rows := purge [e] (at_rows t)\<rparr>" using drop by auto
        have "enforce_entries L C W d es t1 = (r, t')" using Cons.prems \<open>?v = Inr b\<close> True run Inr by simp
        from Cons.IH [OF this] obtain k where k: "k \<le> length es" "t' = t1\<lparr>at_rows := purge (take k es) (at_rows t1)\<rparr>"
          "\<forall>e \<in> set (take k es). verify_archive L C (rp_month_key e) d = Inr True" "r = Inr () \<longrightarrow> k = length es"
          "r = Inl ArchiveFailure \<longrightarrow> k < length es \<and> verify_archive L C (rp_month_key (es ! k)) d \<in> {Inr False, Inl ArchiveFailure}"
          by blast
        have "t' = t\<lparr>at_rows := purge (take (Suc k) (e # es)) (at_rows t)\<rparr>"
          using k(2) t1 by (simp add: purge_Cons)
        then show ?thesis using k(1,3-5) v [OF \<open>?v = Inr b\<close>] True by (intro exI [of _ "Suc k"]) auto
      qed
    qed
  qed
qed

lemma verify_artifacts_error: "verify_artifacts L d items \<noteq> Inl ArchiveFailure"
  by (induction items) (auto split: option.splits)

lemma archive_window_error: "archive_window L k \<noteq> Inl ArchiveFailure"
  by (auto simp: archive_window_def split: option.splits)

lemma verify_archive_error: "verify_archive L C k d \<noteq> Inl ArchiveFailure"
  using archive_window_error [of L k] verify_artifacts_error
  by (auto simp: verify_archive_def rbind_Inl_iff split: sum.splits option.splits json.splits)

lemma run_stage_once:
  assumes "\<not> isl (fst (func 1 s))"
  shows "run_stage a func s = func 1 s"
proof -
  have "\<not> isl (attempts_outcome func s 1)" using assms by (simp add: attempts_outcome_def)
  then have "run_calls (max 1 a) (attempts_outcome func s) 1 = 1" by (subst run_calls.simps) (auto split: sum.splits)
  then show ?thesis by (simp add: run_stage_def attempts_outcome_def)
qed

lemma enforce_entries_all:
  assumes "\<forall>e \<in> set es. verify_archive L C (rp_month_key e) d = Inr True"
    and "\<forall>k n. ew_read W k n" and "\<forall>k n. ew_drop W k n = Drop_Fine"
  shows "fst (enforce_entries L C W d es t) = Inr ()"
  using assms(1)
proof (induction es arbitrary: t)
  case (Cons e es)
  have v: "run_stage (rc_retry_attempts C) (\<lambda>n :: nat. Pair (Inr True :: archive_exn + bool)) () = (Inr True, ())"
    by (subst run_stage_once) simp_all
  let ?t = "t\<lparr>at_rows := filter (\<lambda>x. \<not> in_range (rp_start e) (rp_end e) x) (at_rows t)\<rparr>"
  have dr: "run_stage (rc_retry_attempts C) (\<lambda>n. drop_partition e (ew_drop W (rp_month_key e) n)) t = (Inr (), ?t)"
    by (subst run_stage_once) (simp_all add: drop_partition_def Let_def assms(3))
  show ?case using Cons assms(2) by (simp add: v dr)
qed simp

text \<open>
  C18 purge_is_verified: a purge deletes events only, and only those in the months of a first part of the plan whose archives had
  all files with the digests of their manifest. A dry run deletes nothing. If the purge reports success
  the whole plan is done; the failure that asks for a valid archive comes exactly from a month without one. A purge without
  faults succeeds if every planned month has a verified archive.
\<close>

theorem purge_is_verified:
  assumes "list_partitions L C d = Inr ps" and "es = retention_plan L C (ew_now W) ps"
    and "enforce L C W dry_run d t = (r, t')"
  shows "if dry_run then t' = t \<and> r = Inr \<lparr>rr_dry_run = es, rr_enforced = []\<rparr>
    else (\<exists>k \<le> length es. t' = t\<lparr>at_rows := purge (take k es) (at_rows t)\<rparr> \<and>
        (\<forall>e \<in> set (take k es). verify_archive L C (rp_month_key e) d = Inr True) \<and>
        (\<forall>report. r = Inr report \<longrightarrow> k = length es \<and> report = \<lparr>rr_dry_run = es, rr_enforced = es\<rparr>) \<and>
        (r = Inl ArchiveFailure \<longrightarrow> k < length es \<and> verify_archive L C (rp_month_key (es ! k)) d = Inr False)) \<and>
      ((\<forall>e \<in> set es. verify_archive L C (rp_month_key e) d = Inr True) \<and> (\<forall>k n. ew_read W k n) \<and>
        (\<forall>k n. ew_drop W k n = Drop_Fine) \<longrightarrow> \<not> isl r)"
proof (cases dry_run)
  case True
  then show ?thesis using assms by (simp add: enforce_def)
next
  case False
  obtain r1 t1 where run: "enforce_entries L C W d es t = (r1, t1)" by (cases "enforce_entries L C W d es t")
  then have eq: "t' = t1" "r = (case r1 of Inl x \<Rightarrow> Inl x | Inr _ \<Rightarrow> Inr \<lparr>rr_dry_run = es, rr_enforced = es\<rparr>)"
    using assms False by (auto simp: enforce_def Let_def split: sum.splits)
  have "\<not> isl r" if "\<forall>e \<in> set es. verify_archive L C (rp_month_key e) d = Inr True" "\<forall>k n. ew_read W k n"
      "\<forall>k n. ew_drop W k n = Drop_Fine"
    using enforce_entries_all [OF that, of t] run eq(2) by simp
  moreover obtain k where "k \<le> length es" "t1 = t\<lparr>at_rows := purge (take k es) (at_rows t)\<rparr>"
    "\<forall>e \<in> set (take k es). verify_archive L C (rp_month_key e) d = Inr True" "r1 = Inr () \<longrightarrow> k = length es"
    "r1 = Inl ArchiveFailure \<longrightarrow> k < length es \<and> verify_archive L C (rp_month_key (es ! k)) d \<in> {Inr False, Inl ArchiveFailure}"
    using enforce_entries_shape [OF run] by blast
  then have "k \<le> length es \<and> t' = t\<lparr>at_rows := purge (take k es) (at_rows t)\<rparr> \<and>
      (\<forall>e \<in> set (take k es). verify_archive L C (rp_month_key e) d = Inr True) \<and>
      (\<forall>report. r = Inr report \<longrightarrow> k = length es \<and> report = \<lparr>rr_dry_run = es, rr_enforced = es\<rparr>) \<and>
      (r = Inl ArchiveFailure \<longrightarrow> k < length es \<and> verify_archive L C (rp_month_key (es ! k)) d = Inr False)"
    using eq verify_archive_error by (auto split: sum.splits)
  ultimately show ?thesis using False by auto
qed

section \<open>An archive is complete\<close>

lemma sample_types: "JStr (asc ''csv'') \<noteq> JStr (asc ''json'')"
  by (simp add: py_defs)

lemma verify_written:
  assumes w: "archive_window L k = Inr w"
    and m: "d (archive_manifest_path C w) = Some (Doc (manifest_payload L C w (artifact_of L (csv_path C w) cs)
      (artifact_of L (json_path C w) js) n ts))"
    and files: "d (csv_path C w) = Some (Raw cs)" "d (json_path C w) = Some (Raw js)"
  shows "verify_archive L C k d = Inr True"
proof -
  let ?a = "artifact_json (artifact_of L (csv_path C w) cs) (asc ''csv'')"
  let ?b = "artifact_json (artifact_of L (json_path C w) js) (asc ''json'')"
  have types: "item_get ?a (asc ''type'') = Some (JStr (asc ''csv''))" "item_get ?b (asc ''type'') = Some (JStr (asc ''json''))"
    by (simp_all add: artifact_json_def item_get_def py_defs)
  have "artifacts_by_type [?a, ?b] = [(JStr (asc ''csv''), ?a), (JStr (asc ''json''), ?b)]"
    using sample_types by (simp add: artifacts_by_type_def types)
  moreover have "csv_path C w \<noteq> []" "json_path C w \<noteq> []" by (simp_all add: csv_path_def json_path_def artifact_path_def py_defs)
  moreover have "str_field (asc ''name'') ?a = Some (csv_path C w)" "str_field (asc ''name'') ?b = Some (json_path C w)"
    "item_get ?a (asc ''sha256'') = Some (JStr (al_sha256 (rl_files L) cs))"
    "item_get ?b (asc ''sha256'') = Some (JStr (al_sha256 (rl_files L) js))"
    by (simp_all add: artifact_json_def artifact_of_def str_field_def item_get_def py_defs)
  moreover have "map_of [(asc ''schema_version'', JInt (rc_schema_version C)), (asc ''month'', x1), (asc ''window'', x2),
      (asc ''row_count'', x3), (asc ''generated_at'', x4), (asc ''tool'', x5), (asc ''artifacts'', y)] (asc ''artifacts'') = Some y"
    for x1 x2 x3 x4 x5 y by (simp add: py_defs)
  ultimately show ?thesis
    using w m files by (simp add: verify_archive_def load_doc_def manifest_payload_def Let_def iter_items_def is_dict_def
        artifact_json_def [of "artifact_of L (csv_path C w) cs"] artifact_json_def [of "artifact_of L (json_path C w) js"] file_bytes_def)
qed

text \<open>The stages of a successful archive, one after the other.\<close>

lemma archive_month_stages:
  assumes run: "archive_month L C release W k False t d = (Inr res, d')" and w: "archive_window L k = Inr w"
    and apart: "release \<notin> {csv_path C w, json_path C w, archive_manifest_path C w, partitions_path C}"
  shows "\<exists>cs js d2 d3 n.
    csv_holds C (map (archive_cells L) (stream_rows w t)) cs \<and>
    Option.bind (archive_json_lines L (stream_rows w t)) utf8_encode = Some js \<and>
    ar_csv res = artifact_of L (csv_path C w) cs \<and> ar_json res = artifact_of L (json_path C w) js \<and>
    ar_window res = w \<and> ar_row_count res = count_rows w t \<and>
    d2 (archive_manifest_path C w) =
      Some (Doc (manifest_payload L C w (ar_csv res) (ar_json res) (ar_row_count res) (aw_generated_at W))) \<and>
    (\<exists>bs. doc_bytes (manifest_payload L C w (ar_csv res) (ar_json res) (ar_row_count res) (aw_generated_at W)) = Some bs \<and>
      ar_manifest res = artifact_of L (archive_manifest_path C w) bs) \<and>
    d2 (csv_path C w) = Some (Raw cs) \<and> d2 (json_path C w) = Some (Raw js) \<and>
    (\<forall>p. p \<notin> {csv_path C w, json_path C w, archive_manifest_path C w} \<longrightarrow> d2 p = d p) \<and>
    run_stage (rc_retry_attempts C) (update_release L release W res) d2 = (Inr (), d3) \<and>
    run_stage (rc_retry_attempts C) (\<lambda>n. record_partition L C (aw_partition W n) res) d3 = (Inr n, d')"
proof -
  have "archive_stages L C release W w t d = (Inr res, d')"
    using run w by (auto simp: archive_month_def split: sum.splits prod.splits)
  from archive_stages_ok [OF this] obtain d1 d2 d3 n where
    s1: "run_stage (rc_retry_attempts C) (\<lambda>n. write_artifacts L C w (aw_write W n) t) d =
      (Inr (ar_row_count res, ar_csv res, ar_json res), d1)"
    and s2: "write_manifest L C w W (ar_csv res) (ar_json res) (ar_row_count res) d1 = (Inr (ar_manifest res), d2)"
    and s3: "run_stage (rc_retry_attempts C) (update_release L release W res) d2 = (Inr (), d3)"
    and s4: "run_stage (rc_retry_attempts C) (\<lambda>n. record_partition L C (aw_partition W n) res) d3 = (Inr n, d')"
    and win: "ar_window res = w" by blast
  let ?I = "\<lambda>s :: disk. \<forall>p. p \<noteq> csv_path C w \<and> p \<noteq> json_path C w \<longrightarrow> s p = d p"
  have "\<exists>n s0. ?I s0 \<and> write_artifacts L C w (aw_write W n) t s0 = (Inr (ar_row_count res, ar_csv res, ar_json res), d1)"
    by (rule run_stage_last [OF s1]) (simp_all add: write_artifacts_paths)
  then obtain k0 s0 where s0: "?I s0"
    "write_artifacts L C w (aw_write W k0) t s0 = (Inr (ar_row_count res, ar_csv res, ar_json res), d1)" by blast
  from write_artifacts_cases [OF s0(2)] obtain cs js where
    cs: "utf8_encode (archive_csv L C (stream_rows w t)) = Some cs"
    and js: "Option.bind (archive_json_lines L (stream_rows w t)) utf8_encode = Some js"
    and eq: "ar_row_count res = length (stream_rows w t)" "ar_csv res = artifact_of L (csv_path C w) cs"
      "ar_json res = artifact_of L (json_path C w) js" "d1 = s0(json_path C w \<mapsto> Raw js, csv_path C w \<mapsto> Raw cs)" by auto
  note paths = window_paths_apart(1-3) [OF w w, of C]
  have other: "\<forall>p. p \<noteq> archive_manifest_path C w \<longrightarrow> d2 p = d1 p" using write_manifest_paths [OF s2] .
  have "d2 (csv_path C w) = Some (Raw cs)" "d2 (json_path C w) = Some (Raw js)"
    using other eq(4) paths by simp_all
  moreover have "\<forall>p. p \<notin> {csv_path C w, json_path C w, archive_manifest_path C w} \<longrightarrow> d2 p = d p"
    using other s0(1) eq(4) by auto
  moreover from write_manifest_ok [OF s2] obtain bs where
    "d2 (archive_manifest_path C w) = Some (Doc (manifest_payload L C w (ar_csv res) (ar_json res) (ar_row_count res) (aw_generated_at W)))"
    "doc_bytes (manifest_payload L C w (ar_csv res) (ar_json res) (ar_row_count res) (aw_generated_at W)) = Some bs"
    "ar_manifest res = artifact_of L (archive_manifest_path C w) bs" by blast
  moreover have "ar_row_count res = count_rows w t" using eq(1) stream_rows_exact [of w t] by simp
  ultimately show ?thesis
    by (intro exI [of _ cs] exI [of _ js] exI [of _ d2] exI [of _ d3] exI [of _ n])
      (simp only: archive_csv_reads [OF cs] js eq(2,3) win s3 s4, simp)
qed

lemma archive_month_effect:
  assumes run: "archive_month L C release W k False t d = (Inr res, d')" and w: "archive_window L k = Inr w"
    and apart: "release \<notin> {csv_path C w, json_path C w, archive_manifest_path C w, partitions_path C}"
    and rel: "disk_view release d = Some es" and parts: "partitions_view C d = Some ps"
  shows "\<exists>rows cs js lines ts es' ps'.
    sorted (map (\<lambda>e. ev_ts (ae_data e)) rows) \<and>
    mset rows = mset (filter (in_range (aw_start w) (aw_end w)) (at_rows t)) \<and>
    d' (csv_path C w) = Some (Raw cs) \<and> csv_holds C (map (archive_cells L) rows) cs \<and>
    d' (json_path C w) = Some (Raw js) \<and> archive_json_lines L rows = Some lines \<and> utf8_decode js = Some lines \<and>
    ar_csv res = artifact_of L (csv_path C w) cs \<and> ar_json res = artifact_of L (json_path C w) js \<and>
    ar_row_count res = length rows \<and> verify_archive L C k d' = Inr True \<and>
    disk_view release d' = Some es' \<and> others_kept me_name {csv_path C w, json_path C w} es es' \<and>
    {release_entry L (asc ''audit-archive-csv'') ts (ar_csv res), release_entry L (asc ''audit-archive-json'') ts (ar_json res)} \<subseteq> set es' \<and>
    partitions_view C d' = Some ps' \<and> others_kept pt_month {k} ps ps' \<and>
    {x \<in> set ps'. pt_month x = k} = {partition_entry L res} \<and>
    (\<forall>p. p \<notin> {csv_path C w, json_path C w, archive_manifest_path C w, release, partitions_path C} \<longrightarrow> d' p = d p)"
proof -
  let ?rows = "stream_rows w t"
  obtain cs js d2 d3 n where cs: "csv_holds C (map (archive_cells L) ?rows) cs"
    and js: "Option.bind (archive_json_lines L ?rows) utf8_encode = Some js"
    and arts: "ar_csv res = artifact_of L (csv_path C w) cs" "ar_json res = artifact_of L (json_path C w) js"
    and win: "ar_window res = w" "ar_row_count res = count_rows w t"
    and man: "d2 (archive_manifest_path C w) =
      Some (Doc (manifest_payload L C w (ar_csv res) (ar_json res) (ar_row_count res) (aw_generated_at W)))"
    and files: "d2 (csv_path C w) = Some (Raw cs)" "d2 (json_path C w) = Some (Raw js)"
    and d2: "\<forall>p. p \<notin> {csv_path C w, json_path C w, archive_manifest_path C w} \<longrightarrow> d2 p = d p"
    and s3: "run_stage (rc_retry_attempts C) (update_release L release W res) d2 = (Inr (), d3)"
    and s4: "run_stage (rc_retry_attempts C) (\<lambda>n. record_partition L C (aw_partition W n) res) d3 = (Inr n, d')"
    using archive_month_stages [OF run w apart] by blast
  obtain lines where lines: "archive_json_lines L ?rows = Some lines" "utf8_encode lines = Some js"
    using js by (cases "archive_json_lines L ?rows") auto
  note paths = window_paths_apart(1-3) [OF w w, of C]
  have p_apart: "partitions_path C \<notin> {csv_path C w, json_path C w, archive_manifest_path C w}"
    using partitions_path_apart [OF w, of C] by (auto simp: csv_path_def json_path_def archive_manifest_path_def)
  have "d2 release = d release" "d2 (partitions_path C) = d (partitions_path C)" using d2 apart p_apart by auto
  then have rel2: "disk_view release d2 = Some es" and parts2: "partitions_view C d2 = Some ps"
    using rel parts by (simp_all only: disk_view_def partitions_view_def load_doc_def)
  have d3: "d3 p = d2 p" if "p \<noteq> release" for p
    by (rule run_stage_inv [OF s3]) (use that in \<open>simp_all add: update_release_paths\<close>)
  have d': "d' p = d3 p" if "p \<noteq> partitions_path C" for p
    by (rule run_stage_inv [OF s4]) (use that in \<open>simp_all add: record_partition_paths\<close>)
  have ne: "csv_path C w \<noteq> release" "json_path C w \<noteq> release" using apart by auto
  from update_releases [OF s3 arts paths(1) ne files rel2] obtain es' ts where es': "disk_view release d3 = Some es'"
    "others_kept me_name {csv_path C w, json_path C w} es es'"
    "{release_entry L (asc ''audit-archive-csv'') ts (ar_csv res), release_entry L (asc ''audit-archive-json'') ts (ar_json res)} \<subseteq> set es'"
    by auto
  have "d' release = d3 release" using d' apart by auto
  then have rel': "disk_view release d' = Some es'" using es'(1) by (simp only: disk_view_def load_doc_def)
  have "d3 (partitions_path C) = d2 (partitions_path C)" using d3 apart by auto
  then have "partitions_view C d3 = Some ps" using parts2 by (simp only: partitions_view_def load_doc_def)
  have key: "aw_month_key (ar_window res) = k" using win archive_window_shape [OF w] by simp
  from record_partitions [OF s4 \<open>partitions_view C d3 = Some ps\<close>] obtain ps' where ps': "partitions_view C d' = Some ps'"
    "others_kept pt_month {k} ps ps'" "\<forall>x \<in> set ps'. pt_month x = k \<longrightarrow> x = partition_entry L res" "partition_entry L res \<in> set ps'"
    unfolding key by auto
  have "pt_month (partition_entry L res) = k" by (simp add: partition_entry_def key)
  then have one: "{x \<in> set ps'. pt_month x = k} = {partition_entry L res}" using ps'(3,4) by blast
  have keep: "d' p = d2 p" if "p \<noteq> release" "p \<noteq> partitions_path C" for p using d3 d' that by simp
  have kept: "d' (csv_path C w) = Some (Raw cs)" "d' (json_path C w) = Some (Raw js)"
    "d' (archive_manifest_path C w) = Some (Doc (manifest_payload L C w (artifact_of L (csv_path C w) cs)
      (artifact_of L (json_path C w) js) (ar_row_count res) (aw_generated_at W)))"
    using keep apart p_apart files man arts by auto
  from verify_written [OF w kept(3,1,2)] have ver: "verify_archive L C k d' = Inr True" .
  have rest: "\<forall>p. p \<notin> {csv_path C w, json_path C w, archive_manifest_path C w, release, partitions_path C} \<longrightarrow> d' p = d p"
    using keep d2 by auto
  have rows: "sorted (map (\<lambda>e. ev_ts (ae_data e)) ?rows)" "mset ?rows = mset (filter (in_range (aw_start w) (aw_end w)) (at_rows t))"
    "ar_row_count res = length ?rows"
    using stream_rows_exact [of w t] win(2) by (simp_all add: in_range_def [abs_def])
  show ?thesis
    by (rule exI [of _ ?rows], rule exI [of _ cs], rule exI [of _ js], rule exI [of _ lines], rule exI [of _ ts],
        rule exI [of _ es'], rule exI [of _ ps'], intro conjI)
      (fact rows(1) rows(2) kept(1) cs kept(2) lines(1) utf8_roundtrip [OF lines(2)] arts(1) arts(2) rows(3) ver rel' es'(2) es'(3)
        ps'(1) ps'(2) one rest)+
qed

text \<open>
  C14 archive_month_exact: a successful archive of a month has written a CSV file that reads back to the header and one row for each
  event of the month, in the order of the times, a JSON file of the same events, and a manifest with the digests of
  both; the check before a purge accepts it. The release manifest has an entry for each file and keeps the entries of others; the
  list of partitions has one entry for the month, with its window, and keeps the other months. Nothing else on the disk changes.
\<close>

theorem archive_month_exact:
  assumes run: "archive_month L C release W k False t d = (Inr res, d')" and w: "archive_window L k = Inr w"
    and apart: "release \<notin> {csv_path C w, json_path C w, archive_manifest_path C w, partitions_path C}"
    and rel: "disk_view release d = Some es" and parts: "partitions_view C d = Some ps"
  shows "\<exists>rows cs js lines ts es' ps'.
    sorted (map (\<lambda>e. ev_ts (ae_data e)) rows) \<and>
    mset rows = mset (filter (in_range (aw_start w) (aw_end w)) (at_rows t)) \<and>
    d' (csv_path C w) = Some (Raw cs) \<and> csv_holds C (map (archive_cells L) rows) cs \<and>
    d' (json_path C w) = Some (Raw js) \<and> archive_json_lines L rows = Some lines \<and> utf8_decode js = Some lines \<and>
    ar_csv res = artifact_of L (csv_path C w) cs \<and> ar_json res = artifact_of L (json_path C w) js \<and>
    ar_row_count res = length rows \<and> verify_archive L C k d' = Inr True \<and>
    disk_view release d' = Some es' \<and> others_kept me_name {csv_path C w, json_path C w} es es' \<and>
    {release_entry L (asc ''audit-archive-csv'') ts (ar_csv res), release_entry L (asc ''audit-archive-json'') ts (ar_json res)} \<subseteq> set es' \<and>
    partitions_view C d' = Some ps' \<and> others_kept pt_month {k} ps ps' \<and>
    {x \<in> set ps'. pt_month x = k} = {partition_entry L res} \<and>
    (\<forall>p. p \<notin> {csv_path C w, json_path C w, archive_manifest_path C w, release, partitions_path C} \<longrightarrow> d' p = d p)"
  by (rule archive_month_effect [OF assms])

end
