(* ===== verification/Audit_Complete.thy ===== *)
theory Audit_Complete
  imports Audit_Retention
begin

text \<open>
  When the archive of a month succeeds: if every stage meets one attempt without faults, the texts have no surrogates, and the
  release manifest and the list of partitions are well formed. The other properties of archives speak of what
  is on the disk after a success; this is the success.
\<close>

section \<open>Texts and values with a UTF-8 form\<close>

abbreviation scalars :: "pystr \<Rightarrow> bool" where
  "scalars s \<equiv> list_all scalar_value s"

fun plain_json :: "json \<Rightarrow> bool" where
  "plain_json (JStr s) = scalars s"
| "plain_json (JList xs) = list_all plain_json xs"
| "plain_json (JDict kvs) = list_all (\<lambda>(k, v). scalars k \<and> plain_json v) kvs"
| "plain_json (JSet s) = False"
| "plain_json (JUuid u) = False"
| "plain_json JOther = False"
| "plain_json JNull = True"
| "plain_json (JBool b) = True"
| "plain_json (JInt i) = True"

lemma scalars_asc: "scalars (asc s)"
proof -
  have "scalar_value (of_char c)" for c
  proof -
    have "(of_char c :: int) = int (of_char c)" by (rule of_nat_of_char [symmetric])
    moreover have "(of_char c :: nat) < 256" by simp
    ultimately show ?thesis by (simp only: scalar_value_def) linarith
  qed
  then show ?thesis by (simp add: asc_def list_all_iff)
qed

lemma scalars_join: "scalars sep \<Longrightarrow> list_all scalars xs \<Longrightarrow> scalars (join sep xs)"
  by (induction sep xs rule: join.induct) auto

lemma scalars_concat: "list_all scalars xs \<Longrightarrow> scalars (concat xs)"
  by (induction xs) auto

lemma scalars_escape: "scalar_value c \<Longrightarrow> scalars (escape_char c)"
  by (auto simp: escape_char_def scalar_value_def hex_digit_def asc_def)

lemma scalars_json_text: "scalars s \<Longrightarrow> scalars (json_text s)"
  unfolding json_text_def by (induction s) (auto simp: scalars_escape scalar_value_def)

lemma scalars_digits: "ascii_digits s \<Longrightarrow> scalars s"
  unfolding ascii_digits_def by (erule list.pred_mono_strong) (auto simp: scalar_value_def)

lemma scalar_signs: "scalar_value 45" "scalar_value 123" "scalar_value 125" "scalar_value 34" "scalar_value 44"
  "scalar_value 13" "scalar_value 10" "scalar_value 65279"
  by (simp_all add: scalar_value_def)

lemma scalars_str_int: "scalars (py_str_int i)"
  by (auto simp: py_str_int_def scalar_signs intro!: scalars_digits show_pos_digits [THEN conjunct1])

lemma those_all:
  assumes "\<And>x. x \<in> set xs \<Longrightarrow> \<exists>y. f x = Some y \<and> P y"
  shows "\<exists>ys. those (map f xs) = Some ys \<and> list_all P ys"
  using assms
proof (induction xs)
  case (Cons x xs)
  then obtain ys where "those (map f xs) = Some ys" "list_all P ys" by auto
  then show ?case using Cons.prems [of x] by auto
qed simp

lemma plain_dumps:
  "plain_json j \<Longrightarrow> scalars sp \<Longrightarrow> scalars kp \<Longrightarrow> \<exists>s. dumps sp kp j = Some s \<and> scalars s"
proof (induction sp kp j rule: dumps.induct)
  case (5 sp kp xs)
  then have "\<exists>ts. those (map (dumps sp kp) xs) = Some ts \<and> list_all scalars ts"
    by (intro those_all) (auto simp: list_all_iff)
  then show ?case using 5(3) scalars_asc by (auto intro!: scalars_join simp: scalars_asc)
next
  case (6 sp kp kvs)
  have "\<exists>ts. those (map (\<lambda>(k, v). map_option (\<lambda>t. json_text k @ kp @ t) (dumps sp kp v)) kvs) = Some ts \<and> list_all scalars ts"
  proof (rule those_all)
    fix kv assume kv: "kv \<in> set kvs"
    then obtain k v where eq: "kv = (k, v)" "scalars k" "plain_json v" using 6(2) by (cases kv) (auto simp: list_all_iff)
    from 6(1) [OF kv [unfolded eq(1)] refl eq(3) 6(3,4)] obtain s where "dumps sp kp v = Some s" "scalars s" by auto
    then show "\<exists>y. (case kv of (k, v) \<Rightarrow> map_option (\<lambda>t. json_text k @ kp @ t) (dumps sp kp v)) = Some y \<and> scalars y"
      using eq 6(4) by (simp add: scalars_json_text)
  qed
  then show ?case using 6(3) by (auto intro!: scalars_join simp: scalar_signs)
qed (auto simp: scalars_asc scalars_json_text scalars_str_int)

lemma plain_doc_bytes: "plain_json j \<Longrightarrow> \<exists>bs. doc_bytes j = Some bs"
  using plain_dumps [OF _ scalars_asc scalars_asc, of j "'',''" "'':''"] by (auto simp: doc_bytes_def utf8_encode_def)

lemma sort_keys_plain: "plain_json j \<Longrightarrow> plain_json (sort_keys j)"
  by (induction j rule: sort_keys.induct) (auto simp: list_all_iff)

lemma plain_update: "list_all (\<lambda>(k, v). scalars k \<and> plain_json v) m \<Longrightarrow> scalars k \<Longrightarrow> plain_json v \<Longrightarrow>
  list_all (\<lambda>(k, v). scalars k \<and> plain_json v) (AList.update k v m)"
  by (induction m) auto

lemma plain_setdefault: "list_all (\<lambda>(k, v). scalars k \<and> plain_json v) m \<Longrightarrow> scalars k \<Longrightarrow> plain_json v \<Longrightarrow>
  list_all (\<lambda>(k, v). scalars k \<and> plain_json v) (setdefault k v m)"
  by (auto simp: setdefault_def split: option.split)

lemma plain_get: "list_all (\<lambda>(k, v). scalars k \<and> plain_json v) m \<Longrightarrow> map_of m k = Some v \<Longrightarrow> plain_json v"
  by (auto simp: list_all_iff dest: map_of_SomeD)

lemma plain_replace:
  "replace_item k v order item items = Some its \<Longrightarrow> plain_json item \<Longrightarrow> list_all plain_json items \<Longrightarrow> list_all plain_json its"
  by (auto simp: replace_item_def Let_def list_all_iff split: if_splits)

lemma plain_items: "plain_json j \<Longrightarrow> iter_items j = Some xs \<Longrightarrow> list_all plain_json xs"
  by (cases j) (auto simp: iter_items_def list_all_iff, blast)

definition plain_doc :: "pystr \<Rightarrow> disk \<Rightarrow> bool" where
  "plain_doc path d \<longleftrightarrow> (\<forall>j. load_doc path d = Inr (Some j) \<longrightarrow> plain_json j)"

lemma plain_save:
  assumes "plain_json j"
  shows "\<not> isl (fst (save_doc File_Fine path j d))" and "plain_doc p d \<Longrightarrow> plain_doc p (snd (save_doc fault path j d))"
  using plain_doc_bytes [OF assms] assms
  by (auto simp: save_doc_def plain_doc_def load_doc_def split: option.splits if_splits)

section \<open>Each stage\<close>

lemma scalars_csv_field: "scalars s \<Longrightarrow> scalars (csv_field s)"
  unfolding csv_field_def by (induction s) (auto simp: scalar_signs)

lemma scalars_csv_row:
  assumes "scalars newline" and "list_all scalars cells"
  shows "scalars (csv_row newline cells)"
proof -
  have "list_all scalars (map csv_field cells)" using assms(2) by (induction cells) (simp_all add: scalars_csv_field)
  moreover have "scalars [44]" by (simp add: scalar_signs)
  ultimately have "scalars (join [44] (map csv_field cells))" by (intro scalars_join)
  then show ?thesis using assms(1) by (simp add: csv_row_def)
qed

definition clean_rows :: "archive_lib \<Rightarrow> AuditEvent list \<Rightarrow> bool" where
  "clean_rows L rows \<longleftrightarrow> list_all (\<lambda>e. list_all scalars (archive_cells L e)) rows"

lemma audit_header_scalars: "list_all scalars audit_header"
  unfolding audit_header_def by (simp add: scalars_asc)

lemma csv_encodes: "clean_rows L rows \<Longrightarrow> \<exists>cs. utf8_encode (archive_csv L C rows) = Some cs"
proof -
  assume "clean_rows L rows"
  then have "list_all (list_all scalars) (audit_header # map (archive_cells L) rows)"
    using audit_header_scalars by (simp add: clean_rows_def list_all_iff)
  moreover have "scalars (csv_row [13, 10] cells)" if "list_all scalars cells" for cells
    using that by (intro scalars_csv_row) (simp_all add: scalar_signs)
  ultimately have "list_all scalars (map (csv_row [13, 10]) (audit_header # map (archive_cells L) rows))"
    by (auto simp: list_all_iff)
  then have "scalars (concat (map (csv_row [13, 10]) (audit_header # map (archive_cells L) rows)))" by (rule scalars_concat)
  then have "scalars (archive_csv L C rows)" unfolding archive_csv_def by (simp add: scalar_signs)
  then show ?thesis by (simp add: utf8_encode_def)
qed

lemma archive_json_plain: "list_all scalars (archive_cells L e) \<Longrightarrow> plain_json (archive_json L e)"
proof -
  assume c: "list_all scalars (archive_cells L e)"
  have "scalars k \<and> plain_json v" if kv: "(k, v) \<in> set (zip audit_header (map JStr (archive_cells L e)))" for k v
  proof -
    have "k \<in> set audit_header" "v \<in> JStr ` set (archive_cells L e)" using set_zip_leftD [OF kv] set_zip_rightD [OF kv] by simp_all
    then show ?thesis using audit_header_scalars c by (auto simp: list_all_iff [of scalars])
  qed
  then have "list_all (\<lambda>(k, v). scalars k \<and> plain_json v) (zip audit_header (map JStr (archive_cells L e)))"
    by (auto simp: list_all_iff [of "\<lambda>(k, v). scalars k \<and> plain_json v"])
  then show ?thesis by (simp add: archive_json_def scalars_asc)
qed

lemma json_encodes:
  assumes "clean_rows L rows"
  shows "\<exists>js. Option.bind (archive_json_lines L rows) utf8_encode = Some js"
proof -
  have "\<exists>ts. those (map (\<lambda>e. dumps (asc '','') (asc '':'') (archive_json L e)) rows) = Some ts \<and> list_all scalars ts"
    using assms by (intro those_all plain_dumps archive_json_plain scalars_asc)
      (simp add: clean_rows_def list_all_iff [of "\<lambda>e. list_all scalars (archive_cells L e)"])
  then obtain ts where ts: "those (map (\<lambda>e. dumps (asc '','') (asc '':'') (archive_json L e)) rows) = Some ts" "list_all scalars ts"
    by blast
  have "scalars [13, 10]" by (simp add: scalar_signs)
  then have "scalars (join [13, 10] ts)" using ts(2) by (rule scalars_join)
  then have "scalars (translate_newlines (join [13, 10] ts))"
    unfolding translate_newlines_def by (intro scalars_concat) (auto simp: list_all_iff scalar_signs)
  then show ?thesis using ts(1) by (simp add: archive_json_lines_def utf8_encode_def)
qed

lemma write_artifacts_succeeds: "clean_rows L (stream_rows w t) \<Longrightarrow> \<not> isl (fst (write_artifacts L C w Archive_Fine t d))"
  using csv_encodes [of L "stream_rows w t" C] json_encodes [of L "stream_rows w t"]
  by (auto simp: write_artifacts_def Let_def)

text \<open>The texts of the libraries and of the configuration.\<close>

definition clean_texts :: "archive_lib \<Rightarrow> archive_config \<Rightarrow> pystr \<Rightarrow> bool" where
  "clean_texts L C k \<longleftrightarrow>
     (\<forall>x. scalars (al_iso (rl_files L) x)) \<and> (\<forall>bs. scalars (al_sha256 (rl_files L) bs)) \<and> scalars (rc_root C) \<and>
     scalars (rc_tool_version C) \<and> scalars k"

lemma scalars_fmt: "scalars (fmt_0d n i)"
  by (auto simp: fmt_0d_def scalar_signs intro!: scalars_digits zpad_digits show_pos_digits [THEN conjunct1])

lemma scalars_path: "clean_texts L C k \<Longrightarrow> scalars s \<Longrightarrow> scalars (artifact_path C w s)"
  by (simp add: artifact_path_def clean_texts_def scalars_asc scalars_fmt)

lemma scalars_paths:
  assumes "clean_texts L C k" and "archive_window L k = Inr w"
  shows "scalars (csv_path C w)" and "scalars (json_path C w)" and "scalars (archive_manifest_path C w)"
  using assms archive_window_shape [OF assms(2)] scalars_path [OF assms(1)]
  by (simp_all add: csv_path_def json_path_def archive_manifest_path_def scalars_asc clean_texts_def)

lemma manifest_plain:
  assumes "clean_texts L C k" and "archive_window L k = Inr w"
  shows "plain_json (manifest_payload L C w (artifact_of L (csv_path C w) cs) (artifact_of L (json_path C w) js) n ts)"
  using assms archive_window_shape [OF assms(2)] scalars_paths [OF assms]
  by (simp add: manifest_payload_def Let_def artifact_json_def artifact_of_def clean_texts_def scalars_asc)


lemma release_merge_plain:
  assumes "release_merge e doc = Inr j" and "\<forall>x. doc = Some x \<longrightarrow> plain_json x" and "plain_json (entry_json e)"
  shows "plain_json j"
proof -
  let ?good = "list_all (\<lambda>(k, v). scalars k \<and> plain_json v)"
  obtain m0 where m0: "(case doc of None \<Rightarrow> JDict [(asc ''audit'', JDict [(asc ''artifacts'', JList [])])] | Some j \<Rightarrow> j) = JDict m0"
    using assms(1) by (auto simp: release_merge_def split: json.splits)
  have "plain_json (JDict m0)"
    unfolding m0 [symmetric] using assms(2) by (cases doc) (simp_all add: scalars_asc)
  then have g0: "?good (setdefault (asc ''audit'') (JDict []) m0)" by (intro plain_setdefault) (simp_all add: scalars_asc)
  let ?m = "setdefault (asc ''audit'') (JDict []) m0"
  obtain a0 where a0: "map_of ?m (asc ''audit'') = Some (JDict a0)"
    using assms(1) m0 by (auto simp: release_merge_def Let_def split: json.splits option.splits)
  let ?a = "setdefault (asc ''artifacts'') (JList []) a0"
  have ga: "?good ?a" using plain_get [OF g0 a0] by (intro plain_setdefault) (simp_all add: scalars_asc)
  obtain its where its: "Option.bind (iter_items (the (map_of ?a (asc ''artifacts''))))
      (replace_item (asc ''name'') (me_name e) (asc ''name'') (entry_json e)) = Some its"
    and j: "j = JDict (AList.update (asc ''audit'') (JDict (AList.update (asc ''artifacts'') (JList its) ?a)) ?m)"
    using assms(1) m0 a0 by (auto simp: release_merge_def Let_def split: option.splits)
  obtain v where v: "map_of ?a (asc ''artifacts'') = Some v"
    by (cases "map_of a0 (asc ''artifacts'')") (auto simp: setdefault_def map_add_def)
  from its obtain xs where xs: "iter_items v = Some xs" "replace_item (asc ''name'') (me_name e) (asc ''name'') (entry_json e) xs = Some its"
    using v by (cases "iter_items v") auto
  have "list_all plain_json its"
    using plain_replace [OF xs(2) assms(3) plain_items [OF plain_get [OF ga v] xs(1)]] .
  then show ?thesis unfolding j using g0 ga by (auto intro!: plain_update simp: scalars_asc)
qed

lemma release_update_plain:
  assumes "plain_doc path d" and "plain_json (entry_json e)"
  shows "plain_doc path (snd (release_update fault path e d))"
    and "disk_view path d = Some es \<Longrightarrow> \<not> isl (fst (release_update File_Fine path e d))"
proof -
  have plain: "plain_json (sort_keys j)" if "load_doc path d = Inr doc" "release_merge e doc = Inr j" for doc j
    using release_merge_plain [OF that(2) _ assms(2)] assms(1) that(1) by (auto simp: plain_doc_def intro: sort_keys_plain)
  show "plain_doc path (snd (release_update fault path e d))"
    using plain plain_save(2) [OF _ assms(1)] assms(1) by (auto simp: release_update_def split: sum.splits)
  show "\<not> isl (fst (release_update File_Fine path e d))" if view: "disk_view path d = Some es"
  proof -
    obtain doc where doc: "load_doc path d = Inr doc" "release_view doc = Some es"
      using view by (auto simp: disk_view_def split: sum.splits)
    obtain j where j: "release_merge e doc = Inr j" using release_merge_view [OF doc(2)] by blast
    then show ?thesis using doc(1) plain_save(1) [OF plain [OF doc(1) j]] by (simp add: release_update_def)
  qed
qed


lemma release_one_plain:
  assumes c: "clean_texts L C k" and kind: "scalars kind" and p: "scalars p" and s: "s p = Some (Raw bs)" and plain: "plain_doc path s"
  shows "plain_doc path (snd (release_one L path ts kind fault (artifact_of L p bs) s))"
    and "disk_view path s = Some es \<Longrightarrow> \<not> isl (fst (release_one L path ts kind File_Fine (artifact_of L p bs) s))"
proof -
  let ?e = "\<lparr>me_name = p, me_sha256 = al_sha256 (rl_files L) bs, me_size = int (length bs), me_ts = al_iso (rl_files L) ts, me_kind = kind\<rparr>"
  have "plain_json (entry_json ?e)" using c kind p by (simp add: entry_json_def clean_texts_def scalars_asc)
  note u = release_update_plain [OF plain this]
  have one: "release_one L path ts kind f (artifact_of L p bs) s = lift_file (release_update f path ?e s)" for f
    using s by (simp add: release_one_def artifact_of_def file_bytes_def)
  show "plain_doc path (snd (release_one L path ts kind fault (artifact_of L p bs) s))" using u(1) by (simp add: one)
  show "\<not> isl (fst (release_one L path ts kind File_Fine (artifact_of L p bs) s))" if "disk_view path s = Some es"
    using u(2) [OF that] by (simp add: one)
qed

definition release_ready :: "pystr \<Rightarrow> pystr \<Rightarrow> bytes \<Rightarrow> pystr \<Rightarrow> bytes \<Rightarrow> disk \<Rightarrow> bool" where
  "release_ready path p cs q js s \<longleftrightarrow>
     s p = Some (Raw cs) \<and> s q = Some (Raw js) \<and> plain_doc path s \<and> (\<exists>es. disk_view path s = Some es)"

lemma release_one_ready:
  assumes c: "clean_texts L C k" and kind: "scalars kind" and paths: "scalars p" "scalars q" "p \<noteq> path" "q \<noteq> path"
    and ready: "release_ready path p cs q js s" and a: "a \<in> {artifact_of L p cs, artifact_of L q js}"
  shows "release_ready path p cs q js (snd (release_one L path ts kind fault a s))"
    and "\<not> isl (fst (release_one L path ts kind File_Fine a s))"
proof -
  obtain es where s: "s p = Some (Raw cs)" "s q = Some (Raw js)" "plain_doc path s" "disk_view path s = Some es"
    using ready by (auto simp: release_ready_def)
  obtain x bs where x: "a = artifact_of L x bs" "s x = Some (Raw bs)" "scalars x" using a s(1,2) paths by blast
  note plain = release_one_plain [where path = path, OF c kind x(3,2) s(3)]
  have "\<exists>es. disk_view path (snd (release_one L path ts kind fault a s)) = Some es"
    using release_one_view(1) [of L path ts kind fault x bs s "fst (release_one L path ts kind fault a s)"
        "snd (release_one L path ts kind fault a s)" es] x s(4) by (metis prod.collapse)
  then show "release_ready path p cs q js (snd (release_one L path ts kind fault a s))"
    using s plain(1) paths release_one_paths x(1) by (simp add: release_ready_def)
  show "\<not> isl (fst (release_one L path ts kind File_Fine a s))" using plain(2) s(4) x(1) by simp
qed

lemma update_release_ready:
  assumes c: "clean_texts L C k" and paths: "scalars p" "scalars q" "p \<noteq> path" "q \<noteq> path"
    and arts: "ar_csv res = artifact_of L p cs" "ar_json res = artifact_of L q js" and ready: "release_ready path p cs q js s"
  shows "release_ready path p cs q js (snd (update_release L path W res n s))"
    and "aw_release W n = (File_Fine, File_Fine) \<Longrightarrow> \<not> isl (fst (update_release L path W res n s))"
proof -
  let ?one = "\<lambda>f s. release_one L path (aw_release_ts W n) (asc ''audit-archive-csv'') f (ar_csv res) s"
  let ?two = "\<lambda>f s. release_one L path (aw_release_ts W n) (asc ''audit-archive-json'') f (ar_json res) s"
  note one = release_one_ready [where path = path, OF c scalars_asc paths]
  have r1: "release_ready path p cs q js (snd (?one f s))" for f using one(1) [OF ready] arts by simp
  have r2: "release_ready path p cs q js (snd (?two g (snd (?one f s))))" for f g using one(1) [OF r1] arts by simp
  have split: "update_release L path W res n s =
      (case ?one (fst (aw_release W n)) s of
        (Inl x, d1) \<Rightarrow> (Inl x, d1)
      | (Inr _, d1) \<Rightarrow> (case ?two (snd (aw_release W n)) d1 of (Inl x, d2) \<Rightarrow> (Inl x, d2) | (Inr _, d2) \<Rightarrow> (Inr (), d2)))"
    by (simp add: update_release_def)
  show "release_ready path p cs q js (snd (update_release L path W res n s))"
    using r1 r2 unfolding split by (auto split: sum.splits prod.splits) (metis snd_conv)+
  show "\<not> isl (fst (update_release L path W res n s))" if fine: "aw_release W n = (File_Fine, File_Fine)"
  proof -
    have "\<not> isl (fst (?one File_Fine s))" using one(2) [OF ready, of "ar_csv res"] arts by simp
    then obtain a where "fst (?one File_Fine s) = Inr a" by (cases "fst (?one File_Fine s)") auto
    then obtain d1 where a: "?one File_Fine s = (Inr a, d1)" by (metis prod.collapse)
    then have "release_ready path p cs q js d1" using r1 [of File_Fine] by simp
    then have "\<not> isl (fst (?two File_Fine d1))" using one(2) [of cs js d1 "ar_json res"] arts by simp
    then show ?thesis unfolding split using fine a by (auto split: sum.splits prod.splits)
  qed
qed


lemma record_partition_plain:
  assumes c: "clean_texts L C k" and w: "aw_month_key (ar_window res) = k" and plain: "plain_doc (partitions_path C) s"
  shows "plain_doc (partitions_path C) (snd (record_partition L C fault res s))"
    and "partitions_view C s = Some ps \<Longrightarrow> \<not> isl (fst (record_partition L C File_Fine res s))"
proof -
  let ?doc = "case load_doc (partitions_path C) s of Inr (Some j) \<Rightarrow> j | _ \<Rightarrow> JList []"
  have item: "plain_json (partition_json L res)" using c w by (simp add: partition_json_def Let_def clean_texts_def scalars_asc)
  have doc: "plain_json ?doc" using plain by (auto simp: plain_doc_def split: sum.splits option.splits)
  have its: "plain_json (JList its)"
    if "Option.bind (iter_items ?doc) (replace_item (asc ''month'') (aw_month_key (ar_window res)) (asc ''start'') (partition_json L res)) = Some its"
    for its
    using that plain_replace [OF _ item] plain_items [OF doc] by (cases "iter_items ?doc") auto
  show "plain_doc (partitions_path C) (snd (record_partition L C fault res s))"
    using plain_save(2) [OF its plain] plain by (auto simp: record_partition_def Let_def split: option.splits)
  show "\<not> isl (fst (record_partition L C File_Fine res s))" if view: "partitions_view C s = Some ps"
  proof -
    obtain items where items: "?doc = JList items" "those (map partition_of items) = Some ps"
      using view by (auto simp: partitions_view_def split: sum.splits option.splits json.splits)
    have law: "is_dict i \<and> str_field (asc ''month'') i = Some (pt_month x) \<and> str_field (asc ''start'') i = Some (pt_start x)"
      if "partition_of i = Some x" for i x
      using that str_field_dict [of "asc ''month''" i] by (simp add: partition_of_Some)
    have month: "pt_month (partition_entry L res) = aw_month_key (ar_window res)" by (simp add: partition_entry_def)
    obtain x where x: "replace_item (asc ''month'') (aw_month_key (ar_window res)) (asc ''start'') (partition_json L res) items = Some x"
      using replace_item_view [OF items(2) partition_of_json [of L res], where name = pt_month and order = pt_start] law
      unfolding month by blast
    then have "plain_json (JList x)" by (intro its) (simp add: items(1) iter_items_def)
    from plain_save(1) [OF this] show ?thesis using x by (simp add: record_partition_def Let_def items(1) iter_items_def)
  qed
qed

section \<open>The whole archive\<close>

text \<open>One of the allowed attempts of a stage meets no fault.\<close>

definition one_attempt :: "archive_config \<Rightarrow> (nat \<Rightarrow> bool) \<Rightarrow> bool" where
  "one_attempt C fine \<longleftrightarrow> (\<exists>n. 1 \<le> n \<and> int n \<le> max 1 (rc_retry_attempts C) \<and> fine n)"

definition world_ok :: "archive_config \<Rightarrow> archive_world \<Rightarrow> bool" where
  "world_ok C W \<longleftrightarrow>
     one_attempt C (\<lambda>n. aw_write W n = Archive_Fine) \<and> one_attempt C (\<lambda>n. aw_manifest_write W n = File_Fine) \<and> aw_manifest_read W \<and>
     one_attempt C (\<lambda>n. aw_release W n = (File_Fine, File_Fine)) \<and> one_attempt C (\<lambda>n. aw_partition W n = File_Fine)"

lemma run_stage_one:
  assumes "one_attempt C fine" and "\<And>n s. fine n \<Longrightarrow> I s \<Longrightarrow> \<not> isl (fst (func n s))"
    and "I s" and "\<And>n s. I s \<Longrightarrow> I (snd (func n s))"
  shows "\<exists>v s'. run_stage (rc_retry_attempts C) func s = (Inr v, s') \<and> I s'"
proof -
  obtain n where n: "1 \<le> n" "int n \<le> max 1 (rc_retry_attempts C)" "fine n" using assms(1) by (auto simp: one_attempt_def)
  obtain r s' where run: "run_stage (rc_retry_attempts C) func s = (r, s')" by fastforce
  have "\<not> isl (fst (run_stage (rc_retry_attempts C) func s))"
    by (rule run_stage_succeeds [where I = I and n = n]) (use n assms in simp_all)
  moreover have "I s'" by (rule run_stage_inv [where I = I, OF run]) (use assms(3,4) in simp_all)
  ultimately show ?thesis using run by (cases r) auto
qed

lemma write_manifest_succeeds:
  assumes "one_attempt C (\<lambda>n. aw_manifest_write W n = File_Fine)" and "aw_manifest_read W"
    and "plain_json (manifest_payload L C w csv json n (aw_generated_at W))"
  shows "\<exists>m d'. write_manifest L C w W csv json n d = (Inr m, d')"
proof -
  let ?j = "manifest_payload L C w csv json n (aw_generated_at W)"
  let ?f = "\<lambda>k d. lift_file (save_doc (aw_manifest_write W k) (archive_manifest_path C w) ?j d)"
  have "\<exists>v s'. run_stage (rc_retry_attempts C) ?f d = (Inr v, s') \<and> True"
    by (rule run_stage_one [where I = "\<lambda>_. True", OF assms(1)]) (simp_all add: plain_save(1) [OF assms(3)])
  then obtain v d' where run: "run_stage (rc_retry_attempts C) ?f d = (Inr v, d')" by blast
  from run_stage_last [where I = "\<lambda>_. True", OF run] obtain k s0 where "?f k s0 = (Inr v, d')" by auto
  then have "save_doc (aw_manifest_write W k) (archive_manifest_path C w) ?j s0 = (Inr v, d')" by simp
  from save_doc_cases(2) [OF this] have "d' (archive_manifest_path C w) = Some (Doc ?j)" by simp
  then show ?thesis using run assms(2) plain_doc_bytes [OF assms(3)]
    by (auto simp: write_manifest_def Let_def file_bytes_def)
qed


lemma archive_stages_succeed:
  assumes w: "archive_window L k = Inr w" and c: "clean_texts L C k" and rows: "clean_rows L (stream_rows w t)"
    and W: "world_ok C W"
    and apart: "release \<notin> {csv_path C w, json_path C w, archive_manifest_path C w, partitions_path C}"
    and rel: "disk_view release d = Some es" "plain_doc release d"
    and parts: "partitions_view C d = Some ps" "plain_doc (partitions_path C) d"
  shows "\<exists>res d'. archive_stages L C release W w t d = (Inr res, d')"
proof -
  have one: "one_attempt C (\<lambda>n. aw_write W n = Archive_Fine)" "one_attempt C (\<lambda>n. aw_manifest_write W n = File_Fine)"
    "aw_manifest_read W" "one_attempt C (\<lambda>n. aw_release W n = (File_Fine, File_Fine))" "one_attempt C (\<lambda>n. aw_partition W n = File_Fine)"
    using W by (simp_all add: world_ok_def)
  note key = archive_window_shape [OF w, THEN conjunct1]
  note paths = window_paths_apart(1-3) [OF w w, of C]
  have ne: "csv_path C w \<noteq> release" "json_path C w \<noteq> release" using apart by auto
  have p_apart: "partitions_path C \<notin> {csv_path C w, json_path C w, archive_manifest_path C w}"
    using partitions_path_apart [OF w, of C] by (auto simp: csv_path_def json_path_def archive_manifest_path_def)
  let ?keep = "\<lambda>s :: disk. s release = d release \<and> s (partitions_path C) = d (partitions_path C)"
  have "\<exists>v d1. run_stage (rc_retry_attempts C) (\<lambda>n. write_artifacts L C w (aw_write W n) t) d = (Inr v, d1) \<and> ?keep d1"
    by (rule run_stage_one [where I = ?keep, OF one(1)])
      (use rows write_artifacts_succeeds write_artifacts_paths ne p_apart in auto)
  then obtain n a b d1 where s1: "run_stage (rc_retry_attempts C) (\<lambda>n. write_artifacts L C w (aw_write W n) t) d = (Inr (n, a, b), d1)"
    and d1: "?keep d1" by auto
  from run_stage_last [where I = "\<lambda>_. True", OF s1] obtain k0 s0 where
    "write_artifacts L C w (aw_write W k0) t s0 = (Inr (n, a, b), d1)" by auto
  from write_artifacts_cases [OF this] obtain cs js where arts: "a = artifact_of L (csv_path C w) cs" "b = artifact_of L (json_path C w) js"
    and files: "d1 (csv_path C w) = Some (Raw cs)" "d1 (json_path C w) = Some (Raw js)" using paths by auto
  have "plain_json (manifest_payload L C w a b n (aw_generated_at W))" unfolding arts by (rule manifest_plain [OF c w])
  from write_manifest_succeeds [OF one(2,3) this] obtain m d2 where s2: "write_manifest L C w W a b n d1 = (Inr m, d2)" by blast
  note d2 = write_manifest_paths [OF s2]
  let ?res = "\<lparr>ar_window = w, ar_csv = a, ar_json = b, ar_manifest = m, ar_row_count = n\<rparr>"
  have same: "d2 release = d release" "d2 (partitions_path C) = d (partitions_path C)" using d1 d2 apart p_apart by auto
  then have ready: "release_ready release (csv_path C w) cs (json_path C w) js d2"
    using rel files d2 paths by (simp add: release_ready_def plain_doc_def disk_view_def load_doc_def)
  let ?I = "\<lambda>s. release_ready release (csv_path C w) cs (json_path C w) js s \<and> s (partitions_path C) = d (partitions_path C)"
  note step = update_release_ready [where path = release, OF c scalars_paths(1,2) [OF c w] ne]
  have other: "snd (update_release L release W ?res n s) (partitions_path C) = s (partitions_path C)" for n s
    using update_release_paths [of "partitions_path C" release] apart by auto
  have "\<exists>v d3. run_stage (rc_retry_attempts C) (update_release L release W ?res) d2 = (Inr v, d3) \<and> ?I d3"
    by (rule run_stage_one [where I = ?I, OF one(4)]) (use ready same step arts other in auto)
  then obtain v d3 where s3: "run_stage (rc_retry_attempts C) (update_release L release W ?res) d2 = (Inr v, d3)" and d3: "?I d3" by blast
  let ?J = "\<lambda>s. plain_doc (partitions_path C) s \<and> (\<exists>ps. partitions_view C s = Some ps)"
  have J: "?J d3" using d3 parts by (auto simp: plain_doc_def partitions_view_def load_doc_def)
  have month: "aw_month_key (ar_window ?res) = k" using key by simp
  note part = record_partition_plain [OF c month]
  have view: "\<exists>ps. partitions_view C (snd (record_partition L C f ?res s)) = Some ps" if "partitions_view C s = Some ps" for f s ps
    using record_partition_view(1) [OF _ that, of L f ?res] that by (metis prod.collapse)
  have "\<exists>z d4. run_stage (rc_retry_attempts C) (\<lambda>n. record_partition L C (aw_partition W n) ?res) d3 = (Inr z, d4) \<and> ?J d4"
    by (rule run_stage_one [where I = ?J, OF one(5)]) (use J part view in auto)
  then obtain z d4 where s4: "run_stage (rc_retry_attempts C) (\<lambda>n. record_partition L C (aw_partition W n) ?res) d3 = (Inr z, d4)"
    by blast
  show ?thesis using s1 s2 s3 s4 by (simp add: archive_stages_def Let_def)
qed

text \<open>
  C32 archive_month_succeeds: the archive of a month succeeds whatever else goes wrong, as long as each of its stages has one
  attempt within the limit that meets no fault, the manifest can be read again, the texts of the rows and of the
  configuration have no surrogates, and the release manifest and the list of partitions are missing or well formed.
\<close>

theorem archive_month_succeeds:
  assumes "archive_window L k = Inr w" and "clean_texts L C k" and "clean_rows L (stream_rows w t)" and "world_ok C W"
    and "release \<notin> {csv_path C w, json_path C w, archive_manifest_path C w, partitions_path C}"
    and "disk_view release d = Some es" and "plain_doc release d"
    and "partitions_view C d = Some ps" and "plain_doc (partitions_path C) d"
  shows "\<exists>res d'. archive_month L C release W k False t d = (Inr res, d')"
  using archive_stages_succeed [OF assms] assms(1) by (auto simp: archive_month_def)

end
