(* ===== verification/Audit_Log.thy ===== *)
theory Audit_Log
  imports Audit_Complete
begin

text \<open>
  The audit log over time: events are recorded, months are archived, and planned months are purged, in any order and with any
  faults. The history (every event that was ever in the table) and the set of purged months are kept beside the
  state of the program; they are not read by it. What the program does not enforce is a condition of a step: a month is archived
  when it is over, and not again after it was purged. The lemmas at the end show that events are lost without
  these conditions. Exports change other files only.
\<close>

section \<open>Runs\<close>

record log_state =
  ls_table :: audit_table
  ls_disk :: disk
  ls_history :: "AuditEvent list"
  ls_purged :: "(int \<times> int) set"
  ls_now :: int

record log_setup =
  lg_audit :: audit_config
  lg_archive :: archive_config
  lg_release :: pystr

definition month_of :: "AuditArchiveWindow \<Rightarrow> int \<times> int" where
  "month_of w = (aw_year w, aw_month w)"

definition planned_months :: "archive_lib \<Rightarrow> RetentionPlanEntry list \<Rightarrow> (int \<times> int) set" where
  "planned_months L es = {month_of w |e w. e \<in> set es \<and> archive_window L (rp_month_key e) = Inr w}"

inductive log_run :: "archive_lib \<Rightarrow> log_setup \<Rightarrow> log_state \<Rightarrow> bool" for L :: archive_lib and S :: log_setup where
  log_empty:
    "log_run L S \<lparr>ls_table = \<lparr>at_rows = [], at_next = 1\<rparr>, ls_disk = Map.empty, ls_history = [], ls_purged = {}, ls_now = now\<rparr>"
| log_tick:
    "log_run L S s \<Longrightarrow> ls_now s \<le> now \<Longrightarrow> log_run L S (s\<lparr>ls_now := now\<rparr>)"
| log_record:
    "log_run L S s \<Longrightarrow> record_event (lg_audit S) (ls_now s) faults rq (ls_table s) = (r, t) \<Longrightarrow>
     log_run L S (s\<lparr>ls_table := t, ls_history := ls_history s @ drop (length (at_rows (ls_table s))) (at_rows t)\<rparr>)"
| log_archive:
    "log_run L S s \<Longrightarrow> archive_window L k = Inr w \<Longrightarrow> dry_run \<or> aw_end w \<le> ls_now s \<and> month_of w \<notin> ls_purged s \<Longrightarrow>
     archive_month L (lg_archive S) (lg_release S) W k dry_run (ls_table s) (ls_disk s) = (r, d) \<Longrightarrow>
     log_run L S (s\<lparr>ls_disk := d\<rparr>)"
| log_enforce:
    "log_run L S s \<Longrightarrow> list_partitions L (lg_archive S) (ls_disk s) = Inr ps \<Longrightarrow>
     enforce L (lg_archive S) W dry_run (ls_disk s) (ls_table s) = (r, t) \<Longrightarrow>
     purged = (if dry_run then {} else planned_months L (retention_plan L (lg_archive S) (ew_now W) ps)) \<Longrightarrow>
     log_run L S (s\<lparr>ls_table := t, ls_purged := ls_purged s \<union> purged\<rparr>)"

section \<open>The invariant\<close>

text \<open>The calendar: texts of times are read back, and later months start later.\<close>

definition calendar_ok :: "archive_lib \<Rightarrow> bool" where
  "calendar_ok L \<longleftrightarrow> (\<forall>x. rl_parse L (al_iso (rl_files L) x) = Some x) \<and>
     (\<forall>y m y' m'. 1 \<le> m \<and> m \<le> 12 \<and> 1 \<le> m' \<and> m' \<le> 12 \<and> 12 * y + m \<le> 12 * y' + m' \<longrightarrow>
        rl_month_start L y m \<le> rl_month_start L y' m')"

definition release_apart :: "archive_lib \<Rightarrow> log_setup \<Rightarrow> bool" where
  "release_apart L S \<longleftrightarrow> lg_release S \<noteq> partitions_path (lg_archive S) \<and>
     (\<forall>k w. archive_window L k = Inr w \<longrightarrow> lg_release S \<noteq> csv_path (lg_archive S) w)"

abbreviation in_window :: "AuditArchiveWindow \<Rightarrow> AuditEvent \<Rightarrow> bool" where
  "in_window w \<equiv> in_range (aw_start w) (aw_end w)"

text \<open>The CSV file of a month has a row for each event of the history that is in it.\<close>

definition covers :: "archive_lib \<Rightarrow> archive_config \<Rightarrow> disk \<Rightarrow> AuditEvent list \<Rightarrow> AuditArchiveWindow \<Rightarrow> bool" where
  "covers L C d history w \<longleftrightarrow>
     (\<exists>cs rows. d (csv_path C w) = Some (Raw cs) \<and> csv_holds C rows cs \<and>
        (\<forall>x \<in> set history. in_window w x \<longrightarrow> archive_cells L x \<in> set rows))"

definition partition_good :: "archive_lib \<Rightarrow> archive_config \<Rightarrow> int \<Rightarrow> disk \<Rightarrow> AuditEvent list \<Rightarrow> partition_text \<Rightarrow> bool" where
  "partition_good L C now d history p \<longleftrightarrow>
     (\<exists>w. archive_window L (pt_month p) = Inr w \<and> pt_start p = al_iso (rl_files L) (aw_start w) \<and>
        pt_end p = al_iso (rl_files L) (aw_end w) \<and> aw_end w \<le> now \<and> covers L C d history w)"

definition archived :: "archive_lib \<Rightarrow> archive_config \<Rightarrow> int \<Rightarrow> (int \<times> int) set \<Rightarrow> disk \<Rightarrow> AuditEvent list \<Rightarrow> AuditEvent \<Rightarrow> bool" where
  "archived L C now months d history x \<longleftrightarrow>
     (\<exists>k w. archive_window L k = Inr w \<and> in_window w x \<and> month_of w \<in> months \<and> aw_end w \<le> now \<and> covers L C d history w)"

definition log_inv :: "archive_lib \<Rightarrow> log_setup \<Rightarrow> log_state \<Rightarrow> bool" where
  "log_inv L S s \<longleftrightarrow>
     set (at_rows (ls_table s)) \<subseteq> set (ls_history s) \<and> (\<forall>x \<in> set (ls_history s). ev_ts (ae_data x) \<le> ls_now s) \<and>
     (\<exists>ps. partitions_view (lg_archive S) (ls_disk s) = Some ps \<and>
        (\<forall>p \<in> set ps. partition_good L (lg_archive S) (ls_now s) (ls_disk s) (ls_history s) p)) \<and>
     (\<forall>x \<in> set (ls_history s). x \<in> set (at_rows (ls_table s)) \<or>
        archived L (lg_archive S) (ls_now s) (ls_purged s) (ls_disk s) (ls_history s) x)"

lemma covers_later:
  assumes "covers L C d history w" and "\<forall>x \<in> set new. aw_end w \<le> ev_ts (ae_data x)"
  shows "covers L C d (history @ new) w"
  using assms by (fastforce simp: covers_def in_range_def)

lemma month_disjoint:
  assumes "calendar_ok L" and w: "archive_window L k = Inr w" "archive_window L k' = Inr w'"
    and x: "in_window w x" "in_window w' x"
  shows "month_of w = month_of w'"
proof -
  have apart: "aw_end v \<le> aw_start v'"
    if v: "archive_window L j = Inr v" "archive_window L j' = Inr v'" "12 * aw_year v + aw_month v < 12 * aw_year v' + aw_month v'"
    for j j' v v'
  proof -
    note a = archive_window_shape [OF v(1)] archive_window_shape [OF v(2)]
    have c: "1 \<le> m \<Longrightarrow> m \<le> 12 \<Longrightarrow> 1 \<le> m' \<Longrightarrow> m' \<le> 12 \<Longrightarrow> 12 * y + m \<le> 12 * y' + m' \<Longrightarrow>
        rl_month_start L y m \<le> rl_month_start L y' m'" for y m y' m'
      using assms(1) by (auto simp: calendar_ok_def)
    show ?thesis
    proof (cases "aw_month v = 12")
      case True
      then show ?thesis using a c [of 1 "aw_month v'" "aw_year v + 1" "aw_year v'"] v(3) by auto
    next
      case False
      then show ?thesis using a c [of "aw_month v + 1" "aw_month v'" "aw_year v" "aw_year v'"] v(3) by auto
    qed
  qed
  have "\<not> 12 * aw_year w + aw_month w < 12 * aw_year w' + aw_month w'"
    using apart [OF w] x by (auto simp: in_range_def)
  moreover have "\<not> 12 * aw_year w' + aw_month w' < 12 * aw_year w + aw_month w"
    using apart [OF w(2,1)] x by (auto simp: in_range_def)
  ultimately have "12 * aw_year w + aw_month w = 12 * aw_year w' + aw_month w'" by simp
  moreover have "1 \<le> aw_month w" "aw_month w \<le> 12" "1 \<le> aw_month w'" "aw_month w' \<le> 12"
    using archive_window_shape [OF w(1)] archive_window_shape [OF w(2)] by auto
  ultimately have "aw_year w = aw_year w'" by presburger
  then show ?thesis using \<open>12 * aw_year w + aw_month w = 12 * aw_year w' + aw_month w'\<close> by (simp add: month_of_def)
qed

lemma record_step:
  assumes inv: "log_inv L S s" and run: "record_event (lg_audit S) (ls_now s) faults rq (ls_table s) = (r, t)"
  shows "log_inv L S (s\<lparr>ls_table := t, ls_history := ls_history s @ drop (length (at_rows (ls_table s))) (at_rows t)\<rparr>)"
proof -
  have "\<exists>k. appended (event_payload (ls_now s) rq) k (ls_table s) t" using record_event_appended [OF run] .
  then obtain new where new: "at_rows t = at_rows (ls_table s) @ new" "\<forall>x \<in> set new. ev_ts (ae_data x) = ls_now s"
    by (auto simp: appended_def event_payload_def)
  have later: "covers L C d (ls_history s @ new) w" if "covers L C d (ls_history s) w" "aw_end w \<le> ls_now s" for C d w
    using covers_later that new(2) by simp
  have "partition_good L C (ls_now s) d (ls_history s @ new) p" if "partition_good L C (ls_now s) d (ls_history s) p" for C d p
    using that later by (auto simp: partition_good_def)
  moreover have "archived L C (ls_now s) M d (ls_history s @ new) x" if "archived L C (ls_now s) M d (ls_history s) x" for C d M x
    using that later unfolding archived_def by blast
  ultimately show ?thesis using inv new by (auto simp: log_inv_def)
qed

lemma tick_step:
  assumes "log_inv L S s" and "ls_now s \<le> now"
  shows "log_inv L S (s\<lparr>ls_now := now\<rparr>)"
proof -
  have "partition_good L C now d h p" if "partition_good L C (ls_now s) d h p" for C d h p
    using that assms(2) by (fastforce simp: partition_good_def)
  moreover have "archived L C now M d h x" if "archived L C (ls_now s) M d h x" for C M d h x
    using that assms(2) by (fastforce simp: archived_def)
  ultimately show ?thesis using assms by (fastforce simp: log_inv_def)
qed

section \<open>Archiving keeps it\<close>

definition csv_good :: "archive_lib \<Rightarrow> archive_config \<Rightarrow> AuditArchiveWindow \<Rightarrow> audit_table \<Rightarrow> disk \<Rightarrow> bool" where
  "csv_good L C w t d \<longleftrightarrow> (\<exists>cs. d (csv_path C w) = Some (Raw cs) \<and> csv_holds C (map (archive_cells L) (stream_rows w t)) cs)"

text \<open>A partition that was listed before, or the one of the month with its window.\<close>

definition partitions_from :: "archive_lib \<Rightarrow> AuditArchiveWindow \<Rightarrow> partition_text list \<Rightarrow> partition_text list \<Rightarrow> bool" where
  "partitions_from L w ps ps' \<longleftrightarrow>
     (\<forall>p \<in> set ps'. p \<in> set ps \<or>
        pt_month p = aw_month_key w \<and> pt_start p = al_iso (rl_files L) (aw_start w) \<and> pt_end p = al_iso (rl_files L) (aw_end w))"

lemma archive_stages_log:
  assumes run: "archive_stages L C release W w t d = (r, d')" and w: "archive_window L k = Inr w"
    and view: "partitions_view C d = Some ps" and apart: "release \<noteq> partitions_path C" "release \<noteq> csv_path C w"
  shows "(d' (csv_path C w) = d (csv_path C w) \<or> csv_good L C w t d') \<and> partitions_view C d' = Some ps \<or>
    csv_good L C w t d' \<and> (\<exists>ps'. partitions_view C d' = Some ps' \<and> partitions_from L w ps ps')"
proof -
  let ?I = "\<lambda>s. (s (csv_path C w) = d (csv_path C w) \<or> csv_good L C w t s) \<and> partitions_view C s = Some ps"
  let ?J = "\<lambda>s. csv_good L C w t s \<and> (\<exists>ps'. partitions_view C s = Some ps' \<and> partitions_from L w ps ps')"
  note paths = window_paths_apart(1-3) [OF w w, of C]
  have pp: "partitions_path C \<notin> {csv_path C w, json_path C w, archive_manifest_path C w}"
    using partitions_path_apart [OF w, of C] by (auto simp: csv_path_def json_path_def archive_manifest_path_def)
  have view_eq: "partitions_view C s' = partitions_view C s" if "s' (partitions_path C) = s (partitions_path C)" for s s'
    using that by (simp only: partitions_view_def load_doc_def)
  have good_eq: "csv_good L C w t s' = csv_good L C w t s" if "s' (csv_path C w) = s (csv_path C w)" for s s'
    using that by (simp only: csv_good_def)
  have good: "csv_good L C w t (s(json_path C w \<mapsto> f, csv_path C w \<mapsto> Raw cs))"
    if "utf8_encode (archive_csv L C (stream_rows w t)) = Some cs" for s :: disk and f cs
    using archive_csv_reads [OF that] by (auto simp: csv_good_def)
  have written: "csv_good L C w t (snd (write_artifacts L C w f t s)) \<or>
      snd (write_artifacts L C w f t s) (csv_path C w) = s (csv_path C w) \<and> isl (fst (write_artifacts L C w f t s))" for f s
  proof -
    have "write_artifacts L C w f t s = (fst (write_artifacts L C w f t s), snd (write_artifacts L C w f t s))" by simp
    from write_artifacts_cases [OF this] show ?thesis
      using good paths by (elim disjE exE conjE) simp_all
  qed
  have stay: "partitions_view C (snd (write_artifacts L C w f t s)) = partitions_view C s" for f s
    using pp by (intro view_eq) (simp add: write_artifacts_paths)
  have start: "?I d" using view by simp
  have "?I d' \<or> ?J d'"
  proof (rule archive_stages_inv [where I = ?I and J = ?J, OF run start])
    show "?I (snd (write_artifacts L C w (aw_write W n) t s))" if I: "?I s" for n s
      using I stay [of "aw_write W n" s] written [of "aw_write W n" s] good_eq by metis
    show "?J s'" if I: "?I s" and call: "write_artifacts L C w (aw_write W n) t s = (Inr a, s')" for n s s' a
    proof -
      have "partitions_view C s' = Some ps" using stay [of "aw_write W n" s] I call by simp
      moreover have "csv_good L C w t s'" using written [of "aw_write W n" s] call by simp
      ultimately show ?thesis by (auto simp: partitions_from_def)
    qed
    show "?J s'" if J: "?J s" and same: "\<forall>p. p \<noteq> archive_manifest_path C w \<longrightarrow> s' p = s p" for s s'
    proof -
      have "s' (csv_path C w) = s (csv_path C w)" "s' (partitions_path C) = s (partitions_path C)" using same paths pp by auto
      then show ?thesis using J view_eq good_eq by metis
    qed
    show "?J (snd (update_release L release W res n s))" if J: "?J s" for res n s
    proof -
      have "snd (update_release L release W res n s) (csv_path C w) = s (csv_path C w)"
        "snd (update_release L release W res n s) (partitions_path C) = s (partitions_path C)"
        using apart by (simp_all add: update_release_paths)
      then show ?thesis using J view_eq good_eq by metis
    qed
    show "?J (snd (record_partition L C (aw_partition W n) res s))" if J: "?J s" and res: "ar_window res = w" for res n s
    proof -
      obtain ps1 where ps1: "partitions_view C s = Some ps1" "partitions_from L w ps ps1" using J by blast
      have "snd (record_partition L C (aw_partition W n) res s) (csv_path C w) = s (csv_path C w)"
        using pp by (intro record_partition_paths) auto
      then have good: "csv_good L C w t (snd (record_partition L C (aw_partition W n) res s))" using good_eq J by metis
      have "partitions_from L w ps (put_record pt_month pt_start (partition_entry L res) ps1)"
        using ps1(2) res by (auto simp: partitions_from_def put_record_set partition_entry_def)
      moreover have "record_partition L C (aw_partition W n) res s =
          (fst (record_partition L C (aw_partition W n) res s), snd (record_partition L C (aw_partition W n) res s))" by simp
      from record_partition_view(1) [OF this ps1(1)] have
        "partitions_view C (snd (record_partition L C (aw_partition W n) res s)) =
           Some (put_record pt_month pt_start (partition_entry L res) ps1) \<or>
         snd (record_partition L C (aw_partition W n) res s) = s" by blast
      ultimately show ?thesis using good ps1 by metis
    qed
  qed
  then show ?thesis .
qed

lemma dry_run_paths:
  assumes "archive_dry_run L C W w t d = (r, d')"
  shows "\<forall>p. p \<noteq> archive_manifest_path C w \<longrightarrow> d' p = d p"
proof -
  let ?f = "\<lambda>n d. (if aw_count W n then Inr (count_rows w t) else Inl DatabaseError, d)"
  obtain r1 d1 where s1: "run_stage (rc_retry_attempts C) ?f d = (r1, d1)"
    by (cases "run_stage (rc_retry_attempts C) ?f d")
  have d1: "d1 = d" by (rule run_stage_inv [where I = "\<lambda>s. s = d", OF s1]) simp_all
  show ?thesis
  proof (cases r1)
    case (Inl x)
    then show ?thesis using assms s1 d1 by (simp add: archive_dry_run_def)
  next
    case (Inr n)
    let ?csv = "\<lparr>aa_path = csv_path C w, aa_sha256 = [], aa_size = 0\<rparr>" and ?json = "\<lparr>aa_path = json_path C w, aa_sha256 = [], aa_size = 0\<rparr>"
    obtain r2 d2 where s2: "write_manifest L C w W ?csv ?json n d = (r2, d2)" by (cases "write_manifest L C w W ?csv ?json n d")
    have "d' = d2" using assms s1 d1 s2 Inr by (cases r2) (simp_all add: archive_dry_run_def Let_def)
    then show ?thesis using write_manifest_paths [OF s2] by simp
  qed
qed

lemma covers_same: "d' (csv_path C w) = d (csv_path C w) \<Longrightarrow> covers L C d' h w = covers L C d h w"
  by (simp only: covers_def)

lemma archive_step:
  assumes inv: "log_inv L S s" and ok: "calendar_ok L" "release_apart L S" and w: "archive_window L k = Inr w"
    and cond: "dry_run \<or> aw_end w \<le> ls_now s \<and> month_of w \<notin> ls_purged s"
    and run: "archive_month L (lg_archive S) (lg_release S) W k dry_run (ls_table s) (ls_disk s) = (r, d)"
  shows "log_inv L S (s\<lparr>ls_disk := d\<rparr>)"
proof -
  let ?C = "lg_archive S" and ?d = "ls_disk s" and ?h = "ls_history s"
  obtain ps where ps: "partitions_view ?C ?d = Some ps" "\<forall>p \<in> set ps. partition_good L ?C (ls_now s) ?d ?h p"
    using inv by (auto simp: log_inv_def)
  have other_csv: "csv_path ?C v \<noteq> archive_manifest_path ?C w" "csv_path ?C v \<noteq> json_path ?C w" "csv_path ?C v \<noteq> lg_release S"
    "csv_path ?C v \<noteq> partitions_path ?C" "csv_path ?C v = csv_path ?C w \<Longrightarrow> v = w" if "archive_window L j = Inr v" for j v
  proof -
    show "csv_path ?C v \<noteq> archive_manifest_path ?C w" by (rule window_paths_apart(2) [OF that w])
    show "csv_path ?C v \<noteq> json_path ?C w" by (rule window_paths_apart(1) [OF that w])
    show "csv_path ?C v \<noteq> lg_release S" using ok(2) that unfolding release_apart_def by metis
    show "csv_path ?C v \<noteq> partitions_path ?C" using partitions_path_apart [OF that, of ?C] unfolding csv_path_def by metis
    show "v = w" if "csv_path ?C v = csv_path ?C w" by (rule window_paths_apart(4) [OF \<open>archive_window L j = Inr v\<close> w that])
  qed
  have result: "\<exists>ps'. partitions_view ?C d = Some ps' \<and> partitions_from L w ps ps' \<and>
      (\<forall>j v. archive_window L j = Inr v \<longrightarrow> covers L ?C ?d ?h v \<longrightarrow> covers L ?C d ?h v) \<and>
      (\<forall>p \<in> set ps'. p \<in> set ps \<or> aw_end w \<le> ls_now s \<and> covers L ?C d ?h w)"
  proof (cases dry_run)
    case True
    then have same: "\<forall>p. p \<noteq> archive_manifest_path ?C w \<longrightarrow> d p = ?d p"
      using run w dry_run_paths by (simp add: archive_month_def)
    then have "d (partitions_path ?C) = ?d (partitions_path ?C)"
      using partitions_path_apart [OF w, of ?C] by (simp add: archive_manifest_path_def)
    then have "partitions_view ?C d = Some ps" using ps(1) by (simp only: partitions_view_def load_doc_def)
    moreover have "covers L ?C d ?h v = covers L ?C ?d ?h v" if "archive_window L j = Inr v" for j v
      using same other_csv(1) [OF that] by (intro covers_same) simp
    ultimately show ?thesis by (auto simp: partitions_from_def)
  next
    case False
    then have month: "aw_end w \<le> ls_now s" "month_of w \<notin> ls_purged s" using cond by auto
    obtain r1 where stages: "archive_stages L ?C (lg_release S) W w (ls_table s) ?d = (r1, d)"
      using run w False by (auto simp: archive_month_def split: sum.splits prod.splits)
    have rel: "lg_release S \<noteq> partitions_path ?C" "lg_release S \<noteq> csv_path ?C w" using ok(2) w by (auto simp: release_apart_def)
    note log = archive_stages_log [OF stages w ps(1) rel]
    have in_table: "x \<in> set (at_rows (ls_table s))" if "x \<in> set ?h" "in_window w x" for x
    proof (rule ccontr)
      assume "x \<notin> set (at_rows (ls_table s))"
      then have "archived L ?C (ls_now s) (ls_purged s) ?d ?h x" using inv that by (auto simp: log_inv_def)
      then obtain j v where "archive_window L j = Inr v" "in_window v x" "month_of v \<in> ls_purged s" by (auto simp: archived_def)
      then show False using month_disjoint [OF ok(1) w _ that(2)] month(2) by metis
    qed
    have good: "covers L ?C d ?h w" if g: "csv_good L ?C w (ls_table s) d"
    proof -
      obtain cs where cs: "d (csv_path ?C w) = Some (Raw cs)" "csv_holds ?C (map (archive_cells L) (stream_rows w (ls_table s))) cs"
        using g by (auto simp: csv_good_def)
      have "set (stream_rows w (ls_table s)) = {x \<in> set (at_rows (ls_table s)). in_window w x}"
        by (auto simp: stream_rows_def in_range_def)
      then have "\<forall>x \<in> set ?h. in_window w x \<longrightarrow> archive_cells L x \<in> set (map (archive_cells L) (stream_rows w (ls_table s)))"
        using in_table by auto
      then show ?thesis using cs by (auto simp: covers_def)
    qed
    have keep: "covers L ?C d ?h v" if v: "archive_window L j = Inr v" "covers L ?C ?d ?h v" for j v
    proof (cases "v = w")
      case True
      have "d (csv_path ?C w) = ?d (csv_path ?C w) \<or> csv_good L ?C w (ls_table s) d" using log by blast
      then show ?thesis using good covers_same v(2) True by metis
    next
      case False
      then have "d (csv_path ?C v) = ?d (csv_path ?C v)"
        using archive_stages_paths [OF stages, of "csv_path ?C v"] other_csv [OF v(1)] by auto
      then show ?thesis using v(2) by (simp only: covers_def)
    qed
    from log show ?thesis
    proof
      assume "(d (csv_path ?C w) = ?d (csv_path ?C w) \<or> csv_good L ?C w (ls_table s) d) \<and> partitions_view ?C d = Some ps"
      then show ?thesis using keep by (auto simp: partitions_from_def)
    next
      assume "csv_good L ?C w (ls_table s) d \<and> (\<exists>ps'. partitions_view ?C d = Some ps' \<and> partitions_from L w ps ps')"
      then show ?thesis using keep good month(1) by auto
    qed
  qed
  then obtain ps' where ps': "partitions_view ?C d = Some ps'" "partitions_from L w ps ps'"
    and keep: "\<And>j v. archive_window L j = Inr v \<Longrightarrow> covers L ?C ?d ?h v \<Longrightarrow> covers L ?C d ?h v"
    and new: "\<forall>p \<in> set ps'. p \<in> set ps \<or> aw_end w \<le> ls_now s \<and> covers L ?C d ?h w" by blast
  have "partition_good L ?C (ls_now s) d ?h p" if p: "p \<in> set ps'" for p
  proof (cases "p \<in> set ps")
    case True
    then show ?thesis using ps(2) keep unfolding partition_good_def by blast
  next
    case False
    then have "pt_month p = k" "pt_start p = al_iso (rl_files L) (aw_start w)" "pt_end p = al_iso (rl_files L) (aw_end w)"
      using ps'(2) p archive_window_shape [OF w] by (auto simp: partitions_from_def)
    then show ?thesis using new p False w unfolding partition_good_def by blast
  qed
  moreover have "archived L ?C (ls_now s) (ls_purged s) d ?h x" if "archived L ?C (ls_now s) (ls_purged s) ?d ?h x" for x
    using that keep unfolding archived_def by blast
  ultimately show ?thesis using inv ps'(1) by (auto simp: log_inv_def)
qed

section \<open>Purging keeps it\<close>

lemma plan_months_from:
  "e \<in> set (plan_months age limit ps fs) \<Longrightarrow> e \<in> set fs \<or> (\<exists>p \<in> set ps. \<exists>r. e = plan_entry r p)"
proof (induction ps arbitrary: fs)
  case (Cons p ps)
  have "e \<in> set (plan_months age limit ps (if limit < age p \<and> \<not> is_found p fs then fs @ [plan_entry (asc ''age'') p] else fs))"
    using Cons.prems by simp
  from Cons.IH [OF this] show ?case by (auto split: if_splits)
qed simp

lemma plan_size_from:
  "e \<in> set (plan_size limit total_bytes ps fs) \<Longrightarrow> e \<in> set fs \<or> (\<exists>p \<in> set ps. \<exists>r. e = plan_entry r p)"
proof (induction ps arbitrary: fs total_bytes)
  case (Cons p ps)
  show ?case
  proof (cases "total_bytes \<le> limit")
    case False
    then have "e \<in> set (plan_size limit (total_bytes - pi_size p) ps
        (if is_found p fs then fs else fs @ [plan_entry (asc ''size'') p]))" using Cons.prems by simp
    from Cons.IH [OF this] show ?thesis by (auto split: if_splits)
  qed (use Cons.prems in simp)
qed simp

lemma plan_from:
  assumes "e \<in> set (retention_plan L C now ps)"
  shows "\<exists>p \<in> set ps. \<exists>r. e = plan_entry r p"
proof -
  let ?P = "\<exists>p \<in> set ps. \<exists>r. e = plan_entry r p"
  define f1 where "f1 = plan_days C now ps"
  define f2 where "f2 = (case rc_age_months C of None \<Rightarrow> f1 | Some limit \<Rightarrow> plan_months (age_months L now) limit ps f1)"
  have days: ?P if "e \<in> set f1" using that by (auto simp: f1_def plan_days_def split: option.splits)
  have months: ?P if "e \<in> set f2" using that days plan_months_from [of e "age_months L now" _ ps f1] by (auto simp: f2_def split: option.splits)
  have "e \<in> set f2 \<or> (\<exists>limit. e \<in> set (plan_size limit (sum_list (map pi_size ps)) (sort_key pi_start ps) f2))"
    using assms by (auto simp: retention_plan_def f1_def f2_def Let_def split: option.splits if_splits)
  then show ?thesis using months plan_size_from [of e _ _ "sort_key pi_start ps" f2] by auto
qed

lemma partition_info_text:
  assumes "partition_of item = Some x" and "partition_info L item = Inr p"
  shows "pi_month_key p = pt_month x \<and> rl_parse L (pt_start x) = Some (pi_start p) \<and> rl_parse L (pt_end x) = Some (pi_end p)"
  using assms by (auto simp: partition_of_Some partition_info_def split: option.splits)

lemma list_partitions_text:
  assumes "partitions_view C d = Some pts" and "list_partitions L C d = Inr ps" and "p \<in> set ps"
  shows "\<exists>x \<in> set pts. pi_month_key p = pt_month x \<and> rl_parse L (pt_start x) = Some (pi_start p) \<and> rl_parse L (pt_end x) = Some (pi_end p)"
proof -
  consider "ps = []" | items where "load_doc (partitions_path C) d = Inr (Some (JList items))" "those (map partition_of items) = Some pts"
    "rmap (partition_info L) items = Inr ps"
    using assms(1,2) by (auto simp: partitions_view_def list_partitions_def iter_items_def split: sum.splits option.splits json.splits)
  then show ?thesis
  proof cases
    case 2
    from rmap_Inr_set [OF 2(3) assms(3)] obtain item where item: "item \<in> set items" "partition_info L item = Inr p" by blast
    from 2(2) item(1) obtain x where "x \<in> set pts" "partition_of item = Some x"
      by (auto simp: those_map_Some list_all2_conv_all_nth in_set_conv_nth) metis
    then show ?thesis using partition_info_text item(2) by blast
  qed (use assms(3) in simp)
qed

lemma enforce_purges:
  assumes "list_partitions L C d = Inr ps" and "enforce L C W False d t = (r, t')"
  shows "\<exists>es. set es \<subseteq> set (retention_plan L C (ew_now W) ps) \<and> t' = t\<lparr>at_rows := purge es (at_rows t)\<rparr>"
proof -
  let ?es = "retention_plan L C (ew_now W) ps"
  obtain r1 t1 where run: "enforce_entries L C W d ?es t = (r1, t1)" by (cases "enforce_entries L C W d ?es t")
  then have "t' = t1" using assms by (auto simp: enforce_def Let_def split: sum.splits)
  with enforce_entries_shape [OF run] show ?thesis using set_take_subset by metis
qed

lemma enforce_step:
  assumes inv: "log_inv L S s" and ok: "calendar_ok L"
    and ps: "list_partitions L (lg_archive S) (ls_disk s) = Inr ps"
    and run: "enforce L (lg_archive S) W dry_run (ls_disk s) (ls_table s) = (r, t)"
    and purged: "purged = (if dry_run then {} else planned_months L (retention_plan L (lg_archive S) (ew_now W) ps))"
  shows "log_inv L S (s\<lparr>ls_table := t, ls_purged := ls_purged s \<union> purged\<rparr>)"
proof (cases dry_run)
  case True
  then have "t = ls_table s" using run ps by (simp add: enforce_def Let_def)
  then show ?thesis using inv purged True by (simp add: log_inv_def)
next
  case False
  let ?C = "lg_archive S" and ?h = "ls_history s"
  let ?plan = "retention_plan L ?C (ew_now W) ps"
  obtain es where es: "set es \<subseteq> set ?plan" "t = (ls_table s)\<lparr>at_rows := purge es (at_rows (ls_table s))\<rparr>"
    using enforce_purges [OF ps, of W "ls_table s" r t] run False by auto
  obtain pts where pts: "partitions_view ?C (ls_disk s) = Some pts"
    "\<forall>p \<in> set pts. partition_good L ?C (ls_now s) (ls_disk s) ?h p" using inv by (auto simp: log_inv_def)
  have gone: "archived L ?C (ls_now s) (ls_purged s \<union> purged) (ls_disk s) ?h x"
    if e: "e \<in> set ?plan" "in_range (rp_start e) (rp_end e) x" for e x
  proof -
    obtain p reason where p: "p \<in> set ps" "e = plan_entry reason p" using plan_from [OF e(1)] by blast
    from list_partitions_text [OF pts(1) ps p(1)] obtain y where y: "y \<in> set pts" "pi_month_key p = pt_month y"
      "rl_parse L (pt_start y) = Some (pi_start p)" "rl_parse L (pt_end y) = Some (pi_end p)" by blast
    from pts(2) y(1) obtain w where w: "archive_window L (pt_month y) = Inr w" "pt_start y = al_iso (rl_files L) (aw_start w)"
      "pt_end y = al_iso (rl_files L) (aw_end w)" "aw_end w \<le> ls_now s" "covers L ?C (ls_disk s) ?h w"
      by (auto simp: partition_good_def)
    have "pi_start p = aw_start w" "pi_end p = aw_end w" using y(3,4) w(2,3) ok by (auto simp: calendar_ok_def)
    then have win: "in_window w x" using e(2) p(2) by (simp add: plan_entry_def)
    have key: "archive_window L (rp_month_key e) = Inr w" using p(2) y(2) w(1) by simp
    then have "month_of w \<in> purged" using purged False e(1) by (auto simp: planned_months_def)
    then show ?thesis using key win w(4,5) unfolding archived_def by blast
  qed
  have more: "archived L ?C (ls_now s) (ls_purged s \<union> purged) (ls_disk s) ?h x"
    if "archived L ?C (ls_now s) (ls_purged s) (ls_disk s) ?h x" for x using that unfolding archived_def by blast
  have "x \<in> set (at_rows t) \<or> archived L ?C (ls_now s) (ls_purged s \<union> purged) (ls_disk s) ?h x" if x: "x \<in> set ?h" for x
  proof (cases "x \<in> set (at_rows (ls_table s))")
    case True
    then show ?thesis using es gone by (auto simp: purge_def)
  next
    case False
    then show ?thesis using inv x more by (auto simp: log_inv_def)
  qed
  moreover have "set (at_rows t) \<subseteq> set (at_rows (ls_table s))" using es(2) by (auto simp: purge_def)
  ultimately show ?thesis using inv by (auto simp: log_inv_def)
qed

text \<open>
  C9 no_event_is_lost: over any run of recording, archiving and purging with any faults, where months are archived when they are over
  and not again after a purge, every event that was ever recorded is still in the table, or the CSV archive of
  its month is on the disk and reads back to rows among which its row is.
\<close>

theorem no_event_is_lost:
  assumes "log_run L S s" and "calendar_ok L" and "release_apart L S" and "x \<in> set (ls_history s)"
  shows "x \<in> set (at_rows (ls_table s)) \<or>
    (\<exists>k w cs rows. archive_window L k = Inr w \<and> in_window w x \<and> aw_end w \<le> ls_now s \<and>
       ls_disk s (csv_path (lg_archive S) w) = Some (Raw cs) \<and> csv_holds (lg_archive S) rows cs \<and> archive_cells L x \<in> set rows)"
proof -
  have "log_inv L S s" using assms(1)
  proof induction
    case (log_empty now)
    then show ?case by (simp add: log_inv_def partitions_view_def load_doc_def)
  next
    case (log_tick s now)
    then show ?case by (intro tick_step)
  next
    case (log_record s faults rq r t)
    then show ?case by (intro record_step)
  next
    case (log_archive s k w dry_run W r d)
    show ?case by (rule archive_step [OF log_archive(5) assms(2,3) log_archive(2-4)])
  next
    case (log_enforce s ps W dry_run r t purged)
    show ?case by (rule enforce_step [OF log_enforce(5) assms(2) log_enforce(2-4)])
  qed
  then have "x \<in> set (at_rows (ls_table s)) \<or>
      archived L (lg_archive S) (ls_now s) (ls_purged s) (ls_disk s) (ls_history s) x" using assms(4) by (simp add: log_inv_def)
  then show ?thesis using assms(4) unfolding archived_def covers_def by blast
qed

section \<open>A run, and what is lost without the conditions\<close>

definition sample_calendar :: archive_lib where
  "sample_calendar = \<lparr>rl_files = \<lparr>al_iso = py_str_int, al_stamp = py_str_int, al_sha256 = (\<lambda>bs. py_str_int (int (length bs)))\<rparr>,
     rl_ucd = ascii_ucd, rl_digest8 = (\<lambda>_. asc ''0''), rl_month_start = (\<lambda>y m. (12 * (y - 2024) + m) * 100 + 1000),
     rl_year_month = (\<lambda>x. (2024, 1)), rl_parse = py_int\<rparr>"

definition sample_archive_config :: archive_config where
  "sample_archive_config = \<lparr>rc_root = asc ''store'', rc_csv_bom = True, rc_schema_version = 1, rc_tool_version = asc ''1.0.0'',
     rc_age_days = Some 30, rc_age_months = None, rc_size_bytes = None, rc_retry_attempts = 3\<rparr>"

definition sample_log :: log_setup where
  "sample_log = \<lparr>lg_audit = sample_audit, lg_archive = sample_archive_config, lg_release = asc ''release.json''\<rparr>"

definition sample_archive_world :: archive_world where
  "sample_archive_world = \<lparr>aw_write = (\<lambda>_. Archive_Fine), aw_count = (\<lambda>_. True), aw_manifest_write = (\<lambda>_. File_Fine),
     aw_manifest_read = True, aw_release = (\<lambda>_. (File_Fine, File_Fine)), aw_partition = (\<lambda>_. File_Fine),
     aw_generated_at = 0, aw_release_ts = (\<lambda>_. 0)\<rparr>"

definition sample_month :: pystr where
  "sample_month = asc ''2024_01''"

text \<open>An event in January, whose month ends and is archived, and a purge 31 days after the month began.\<close>

definition january :: int where
  "january = 1100"

definition sample_enforce :: enforce_world where
  "sample_enforce = \<lparr>ew_now = january + 31 * 86400000000, ew_read = (\<lambda>_ _. True), ew_drop = (\<lambda>_ _. Drop_Fine)\<rparr>"

definition january_event :: AuditEvent where
  "january_event = \<lparr>ae_id = 1, ae_data = event_payload (january + 5) sample_audit_request\<rparr>"

lemma sample_calendar_ok: "calendar_ok sample_calendar"
  by (simp add: calendar_ok_def sample_calendar_def py_int_str_int)

lemma sample_release_apart: "release_apart sample_calendar sample_log"
  by (simp add: release_apart_def sample_log_def sample_archive_config_def csv_path_def artifact_path_def partitions_path_def py_defs)

text \<open>A table with nothing but this event, under any number of ids.\<close>

definition january_only :: "audit_table \<Rightarrow> bool" where
  "january_only t \<longleftrightarrow> (\<forall>x \<in> set (at_rows t). ae_data x = ae_data january_event)"

lemma january_recorded:
  "\<exists>r t. record_event sample_audit (january + 5) (\<lambda>_. Insert_Fine) sample_audit_request empty_audit = (r, t) \<and>
     january_event \<in> set (at_rows t) \<and> january_only t"
proof -
  obtain r t where run: "record_event sample_audit (january + 5) (\<lambda>_. Insert_Fine) sample_audit_request empty_audit = (r, t)"
    by (cases "record_event sample_audit (january + 5) (\<lambda>_. Insert_Fine) sample_audit_request empty_audit")
  have l: "1 \<le> ac_retry_attempts sample_audit" by (simp add: sample_audit_def)
  have "\<not> isl r" by (rule record_event_fine [OF sample_request_valid l run])
  with record_event_appends [OF empty_audit_wf l run] obtain k where k:
    "appended (event_payload (january + 5) sample_audit_request) k empty_audit t" "1 \<le> k" by auto
  then have "at_rows t \<noteq> []" "hd (at_rows t) = january_event"
    by (auto simp: appended_def empty_audit_def january_event_def upt_conv_Cons)
  moreover have "january_only t" using k(1) by (auto simp: january_only_def appended_def empty_audit_def january_event_def)
  ultimately show ?thesis using run hd_in_set by fastforce
qed

definition january_window :: AuditArchiveWindow where
  "january_window = \<lparr>aw_month_key = sample_month, aw_year = 2024, aw_month = 1, aw_start = 1100, aw_end = 1200\<rparr>"

lemma sample_window: "archive_window sample_calendar sample_month = Inr january_window"
  by (simp add: archive_window_def month_key_ok_def month_key_core_def sample_month_def sample_calendar_def january_window_def py_defs numeral_eq_Suc)

lemma sample_texts: "clean_texts sample_calendar sample_archive_config sample_month"
  by (simp add: clean_texts_def sample_calendar_def sample_archive_config_def sample_month_def scalars_str_int scalars_asc)

lemma january_cells: "list_all scalars (archive_cells sample_calendar january_event)"
  by code_simp

lemma january_clean: "january_only t \<Longrightarrow> clean_rows sample_calendar (stream_rows w t)"
proof -
  assume "january_only t"
  then have "archive_cells sample_calendar x = archive_cells sample_calendar january_event" if "x \<in> set (stream_rows w t)" for x
    using that by (auto simp: january_only_def archive_cells_def stream_rows_def)
  then show ?thesis unfolding clean_rows_def list_all_iff [of "\<lambda>e. list_all scalars (archive_cells sample_calendar e)"]
    using january_cells by auto
qed

lemma sample_world_ok: "world_ok sample_archive_config sample_archive_world"
  by (auto simp: world_ok_def one_attempt_def sample_archive_world_def sample_archive_config_def intro: exI [of _ 1])

lemma sample_apart:
  "asc ''release.json'' \<notin> {csv_path sample_archive_config january_window, json_path sample_archive_config january_window,
     archive_manifest_path sample_archive_config january_window, partitions_path sample_archive_config}"
  by (simp add: sample_archive_config_def csv_path_def json_path_def archive_manifest_path_def artifact_path_def partitions_path_def py_defs)

lemma empty_disk:
  "disk_view path Map.empty = Some []" "plain_doc path Map.empty" "partitions_view C Map.empty = Some []"
  by (simp_all add: disk_view_def release_view_def plain_doc_def partitions_view_def load_doc_def)

abbreviation sample_archive :: "audit_table \<Rightarrow> (archive_exn + AuditArchiveResult) \<times> disk" where
  "sample_archive t \<equiv> archive_month sample_calendar sample_archive_config (asc ''release.json'') sample_archive_world sample_month False t Map.empty"

lemma january_archived: "january_only t \<Longrightarrow> \<exists>res d. sample_archive t = (Inr res, d)"
  using archive_stages_succeed [OF sample_window sample_texts january_clean sample_world_ok sample_apart empty_disk(1,2) empty_disk(3,2)]
    sample_window by (fastforce simp: archive_month_def)

lemma list_partitions_view:
  assumes "partitions_view C d = Some ys" and "\<forall>y \<in> set ys. rl_parse L (pt_start y) \<noteq> None \<and> rl_parse L (pt_end y) \<noteq> None"
  shows "list_partitions L C d = Inr (map (\<lambda>y. \<lparr>pi_month_key = pt_month y, pi_start = the (rl_parse L (pt_start y)),
    pi_end = the (rl_parse L (pt_end y)), pi_size = pt_size y\<rparr>) ys)"
proof -
  let ?f = "\<lambda>y. \<lparr>pi_month_key = pt_month y, pi_start = the (rl_parse L (pt_start y)), pi_end = the (rl_parse L (pt_end y)), pi_size = pt_size y\<rparr>"
  consider "load_doc (partitions_path C) d = Inr None" "ys = []"
    | items where "load_doc (partitions_path C) d = Inr (Some (JList items))" "those (map partition_of items) = Some ys"
    using assms(1) by (auto simp: partitions_view_def split: sum.splits option.splits json.splits)
  then show ?thesis
  proof cases
    case (2 items)
    have "list_all2 (\<lambda>i y. partition_of i = Some y) items ys" using 2(2) by (simp add: those_map_Some)
    then have "list_all2 (\<lambda>i p. partition_info L i = Inr p) items (map ?f ys)"
      unfolding list.rel_map
    proof (rule list.rel_mono_strong)
      fix i y
      assume "y \<in> set ys" "partition_of i = Some y"
      then show "partition_info L i = Inr (?f y)"
        using assms(2) by (auto simp: partition_info_def partition_of_Some int_of_json_def)
    qed
    then show ?thesis using 2(1) by (simp add: list_partitions_def iter_items_def rmap_Inr_iff)
  qed (simp add: list_partitions_def)
qed

lemma january_purged:
  assumes only: "january_only t" and run: "sample_archive t = (Inr res, d)"
  shows "\<exists>ps rep t'. list_partitions sample_calendar sample_archive_config d = Inr ps \<and>
    enforce sample_calendar sample_archive_config sample_enforce False d t = (Inr rep, t') \<and> at_rows t' = []"
proof -
  let ?L = sample_calendar and ?C = sample_archive_config and ?W = sample_enforce
  have win: "ar_window res = january_window" using archive_month_stages [OF run sample_window sample_apart] by blast
  from archive_month_effect [OF run sample_window sample_apart empty_disk(1,3)] obtain ps' where
    ver: "verify_archive ?L ?C sample_month d = Inr True" and view: "partitions_view ?C d = Some ps'"
    and kept: "others_kept pt_month {sample_month} [] ps'" and one: "{x \<in> set ps'. pt_month x = sample_month} = {partition_entry ?L res}"
    by blast
  have set: "set ps' = {partition_entry ?L res}" using kept one by (auto simp: others_kept_def)
  have entry: "pt_month (partition_entry ?L res) = sample_month" "pt_start (partition_entry ?L res) = py_str_int 1100"
    "pt_end (partition_entry ?L res) = py_str_int 1200"
    by (simp_all add: partition_entry_def win january_window_def sample_calendar_def)
  have parse: "rl_parse ?L (py_str_int x) = Some x" for x by (simp add: sample_calendar_def py_int_str_int)
  define ps where "ps = map (\<lambda>y. \<lparr>pi_month_key = pt_month y, pi_start = the (rl_parse ?L (pt_start y)),
    pi_end = the (rl_parse ?L (pt_end y)), pi_size = pt_size y\<rparr>) ps'"
  have ps: "list_partitions ?L ?C d = Inr ps"
    unfolding ps_def by (rule list_partitions_view [OF view]) (simp add: set entry parse)
  define p where "p = \<lparr>pi_month_key = sample_month, pi_start = 1100, pi_end = 1200, pi_size = pt_size (partition_entry ?L res)\<rparr>"
  have ps_set: "set ps = {p}" by (simp add: ps_def p_def set entry parse)
  let ?es = "retention_plan ?L ?C (ew_now ?W) ps"
  have "rc_age_days ?C = Some 30" "rc_age_months ?C = None" "rc_size_bytes ?C = None" by (simp_all add: sample_archive_config_def)
  moreover have "30 < age_days (ew_now ?W) p" by (simp add: age_days_def p_def sample_enforce_def january_def)
  ultimately have es: "set ?es = {plan_entry (asc ''age'') p}" by (auto simp: retention_plan_def plan_days_def ps_set)
  obtain r1 t1 where steps: "enforce_entries ?L ?C ?W d ?es t = (r1, t1)" by (cases "enforce_entries ?L ?C ?W d ?es t")
  have "\<forall>e \<in> set ?es. verify_archive ?L ?C (rp_month_key e) d = Inr True" unfolding es by (simp add: p_def ver)
  then have "fst (enforce_entries ?L ?C ?W d ?es t) = Inr ()" by (rule enforce_entries_all) (simp_all add: sample_enforce_def)
  then have r1: "r1 = Inr ()" using steps by simp
  from enforce_entries_shape [OF steps] r1 have "at_rows t1 = purge ?es (at_rows t)" by auto
  moreover have "in_range (rp_start e) (rp_end e) x" if "e \<in> set ?es" "x \<in> set (at_rows t)" for e x
    using that only by (auto simp: es january_only_def plan_entry_def p_def in_range_def january_event_def january_def event_payload_def)
  ultimately have "at_rows t1 = []" using es by (auto simp: purge_def filter_empty_conv)
  then show ?thesis using ps steps r1 by (auto simp: enforce_def Let_def)
qed

section \<open>Witnesses\<close>

definition january_table :: audit_table where
  "january_table = \<lparr>at_rows = [january_event], at_next = 2\<rparr>"

lemma january_table_only: "january_only january_table"
  by (simp add: january_only_def january_table_def)

theorem archive_month_exact_witness:
  "\<exists>res d cs. sample_archive january_table = (Inr res, d) \<and> d (csv_path sample_archive_config january_window) = Some (Raw cs) \<and>
     csv_holds sample_archive_config [archive_cells sample_calendar january_event] cs \<and>
     verify_archive sample_calendar sample_archive_config sample_month d = Inr True"
proof -
  obtain res d where run: "sample_archive january_table = (Inr res, d)" using january_archived [OF january_table_only] by blast
  from archive_month_exact [OF run sample_window sample_apart empty_disk(1,3)] obtain rows cs where
    rows: "mset rows = mset (filter (in_range (aw_start january_window) (aw_end january_window)) (at_rows january_table))"
    and cs: "d (csv_path sample_archive_config january_window) = Some (Raw cs)"
      "csv_holds sample_archive_config (map (archive_cells sample_calendar) rows) cs"
      "verify_archive sample_calendar sample_archive_config sample_month d = Inr True" by blast
  have "mset rows = {#january_event#}" using rows
    by (simp add: january_table_def in_range_def january_window_def january_event_def january_def event_payload_def)
  then have "rows = [january_event]" by simp
  then show ?thesis using run cs by (intro exI [of _ res] exI [of _ d] exI [of _ cs]) simp
qed

text \<open>The first attempt to write the files ends between the two renames.\<close>

theorem archive_month_succeeds_witness:
  "\<exists>res d. archive_month sample_calendar sample_archive_config (asc ''release.json'')
     (sample_archive_world\<lparr>aw_write := \<lambda>n. if n = 1 then Archive_Csv_Rename else Archive_Fine\<rparr>) sample_month False january_table Map.empty =
     (Inr res, d)"
proof (rule archive_month_succeeds [OF sample_window sample_texts january_clean [OF january_table_only] _ sample_apart
    empty_disk(1,2) empty_disk(3,2)])
  have "one_attempt sample_archive_config (\<lambda>n. (if n = 1 then Archive_Csv_Rename else Archive_Fine) = Archive_Fine)"
    unfolding one_attempt_def by (rule exI [of _ 2]) (simp add: sample_archive_config_def)
  then show "world_ok sample_archive_config (sample_archive_world\<lparr>aw_write := \<lambda>n. if n = 1 then Archive_Csv_Rename else Archive_Fine\<rparr>)"
    using sample_world_ok by (simp add: world_ok_def)
qed

theorem purge_is_verified_witness:
  "\<exists>res d rep t. sample_archive january_table = (Inr res, d) \<and>
     enforce sample_calendar sample_archive_config sample_enforce False d january_table = (Inr rep, t) \<and> at_rows t = [] \<and>
     rr_dry_run rep = rr_enforced rep \<and>
     list_all (\<lambda>e. verify_archive sample_calendar sample_archive_config (rp_month_key e) d = Inr True) (rr_enforced rep)"
proof -
  obtain res d where run: "sample_archive january_table = (Inr res, d)" using january_archived [OF january_table_only] by blast
  from january_purged [OF january_table_only run] obtain ps rep t where
    ps: "list_partitions sample_calendar sample_archive_config d = Inr ps"
    and enf: "enforce sample_calendar sample_archive_config sample_enforce False d january_table = (Inr rep, t)" and "at_rows t = []"
    by blast
  moreover have "rr_dry_run rep = rr_enforced rep \<and>
      list_all (\<lambda>e. verify_archive sample_calendar sample_archive_config (rp_month_key e) d = Inr True) (rr_enforced rep)"
    using purge_is_verified [OF ps refl enf] by (auto simp: list_all_iff)
  ultimately show ?thesis using run by blast
qed

text \<open>Two months of ten bytes and a limit of fifteen: the older has to go.\<close>

theorem retention_plan_spec_witness:
  "let p = \<lparr>pi_month_key = asc ''2024_01'', pi_start = 1100, pi_end = 1200, pi_size = 10\<rparr>;
     q = \<lparr>pi_month_key = asc ''2024_02'', pi_start = 1200, pi_end = 1300, pi_size = 10\<rparr>;
     C = sample_archive_config\<lparr>rc_age_days := None, rc_size_bytes := Some 15\<rparr> in
   set (retention_plan sample_calendar C 5000 [q, p]) = {plan_entry (asc ''size'') p}"
proof -
  let ?p = "\<lparr>pi_month_key = asc ''2024_01'', pi_start = 1100, pi_end = 1200, pi_size = 10\<rparr>"
  let ?q = "\<lparr>pi_month_key = asc ''2024_02'', pi_start = 1200, pi_end = 1300, pi_size = 10\<rparr>"
  let ?C = "sample_archive_config\<lparr>rc_age_days := None, rc_size_bytes := Some 15\<rparr>"
  have d: "distinct (map pi_month_key [?q, ?p])" by (simp add: py_defs)
  have young: "\<not> too_old sample_calendar ?C 5000 x" for x by (simp add: too_old_def sample_archive_config_def)
  have "sort_key pi_start [?q, ?p] = [?p, ?q]" by simp
  then show ?thesis using retention_plan_spec [OF d, of sample_calendar ?C 5000] by (simp add: young Let_def)
qed

text \<open>The event is recorded, its month ends, is archived and purged: it is in no table any more, but in the archive.\<close>

theorem no_event_is_lost_witness:
  "\<exists>s. log_run sample_calendar sample_log s \<and> january_event \<in> set (ls_history s) \<and> at_rows (ls_table s) = [] \<and>
     (\<exists>k w cs rows. archive_window sample_calendar k = Inr w \<and> in_window w january_event \<and>
        ls_disk s (csv_path sample_archive_config w) = Some (Raw cs) \<and> csv_holds sample_archive_config rows cs \<and>
        archive_cells sample_calendar january_event \<in> set rows)"
proof -
  let ?s0 = "\<lparr>ls_table = empty_audit, ls_disk = Map.empty, ls_history = [], ls_purged = {}, ls_now = january + 5\<rparr>"
  have "log_run sample_calendar sample_log ?s0" unfolding empty_audit_def by (rule log_empty)
  from january_recorded obtain r0 t0 where rec: "record_event sample_audit (january + 5) (\<lambda>_. Insert_Fine) sample_audit_request empty_audit = (r0, t0)"
    "january_event \<in> set (at_rows t0)" "january_only t0" by blast
  let ?s1 = "?s0\<lparr>ls_table := t0, ls_history := at_rows t0\<rparr>"
  have "log_run sample_calendar sample_log ?s1"
    using log_record [OF \<open>log_run sample_calendar sample_log ?s0\<close>, of "\<lambda>_. Insert_Fine" sample_audit_request r0 t0] rec(1)
    by (simp add: sample_log_def empty_audit_def)
  from log_tick [OF this, of 1200] have s2: "log_run sample_calendar sample_log (?s1\<lparr>ls_now := 1200\<rparr>)" by (simp add: january_def)
  let ?s2 = "?s1\<lparr>ls_now := 1200\<rparr>"
  obtain res d where arch: "sample_archive t0 = (Inr res, d)" using january_archived [OF rec(3)] by blast
  have s3: "log_run sample_calendar sample_log (?s2\<lparr>ls_disk := d\<rparr>)"
    by (rule log_archive [OF s2 sample_window, where dry_run = False and W = sample_archive_world and r = "Inr res"])
      (use arch in \<open>simp_all add: sample_log_def january_window_def\<close>)
  from january_purged [OF rec(3) arch] obtain ps rep t where
    enf: "list_partitions sample_calendar sample_archive_config d = Inr ps"
      "enforce sample_calendar sample_archive_config sample_enforce False d t0 = (Inr rep, t)" "at_rows t = []" by blast
  let ?s4 = "\<lparr>ls_table = t, ls_disk = d, ls_history = at_rows t0, ls_purged =
    planned_months sample_calendar (retention_plan sample_calendar sample_archive_config (ew_now sample_enforce) ps), ls_now = 1200\<rparr>"
  have s4: "log_run sample_calendar sample_log ?s4"
    using log_enforce [OF s3, of ps sample_enforce False "Inr rep" t] enf by (simp add: sample_log_def)
  from no_event_is_lost [OF this sample_calendar_ok sample_release_apart, of january_event] rec(2) enf(3)
  show ?thesis using s4 by (intro exI [of _ ?s4]) (auto simp: sample_log_def)
qed

text \<open>
  An archive of a month whose events were purged replaces the CSV file by one without rows; an archive does not list
  events that are recorded later. What is purged then is in no file.
\<close>

lemma archive_has_only_its_rows:
  assumes "archive_month L C release W k False t d = (Inr res, d')" and "archive_window L k = Inr w"
    and "release \<notin> {csv_path C w, json_path C w, archive_manifest_path C w, partitions_path C}"
  shows "\<exists>cs. d' (csv_path C w) = Some (Raw cs) \<and> csv_holds C (map (archive_cells L) (stream_rows w t)) cs"
proof -
  from archive_month_stages [OF assms] obtain cs d2 d3 n where
    cs: "csv_holds C (map (archive_cells L) (stream_rows w t)) cs" "d2 (csv_path C w) = Some (Raw cs)"
    and s3: "run_stage (rc_retry_attempts C) (update_release L release W res) d2 = (Inr (), d3)"
    and s4: "run_stage (rc_retry_attempts C) (\<lambda>n. record_partition L C (aw_partition W n) res) d3 = (Inr n, d')" by blast
  have ne: "csv_path C w \<noteq> release" using assms(3) by auto
  have "d3 (csv_path C w) = d2 (csv_path C w)"
    by (rule run_stage_inv [where I = "\<lambda>s. s (csv_path C w) = d2 (csv_path C w)", OF s3])
      (simp_all add: update_release_paths [OF ne])
  moreover have np: "csv_path C w \<noteq> partitions_path C"
    using partitions_path_apart [OF assms(2), of C] unfolding csv_path_def by (metis (no_types))
  have "d' (csv_path C w) = d3 (csv_path C w)"
    by (rule run_stage_inv [where I = "\<lambda>s. s (csv_path C w) = d3 (csv_path C w)", OF s4])
      (simp_all add: record_partition_paths [OF np])
  ultimately have "d' (csv_path C w) = Some (Raw cs)" using cs(2) by simp
  then show ?thesis using cs(1) by blast
qed

lemma second_archive_is_empty:
  assumes "archive_month L C release W k False t d = (Inr res, d')" and "archive_window L k = Inr w"
    and "release \<notin> {csv_path C w, json_path C w, archive_manifest_path C w, partitions_path C}"
    and "\<forall>x \<in> set (at_rows t). \<not> in_window w x"
  shows "\<exists>cs. d' (csv_path C w) = Some (Raw cs) \<and> csv_holds C [] cs"
proof -
  have "filter (\<lambda>e. aw_start w \<le> ev_ts (ae_data e) \<and> ev_ts (ae_data e) < aw_end w) (at_rows t) = []"
    using assms(4) by (auto simp: in_range_def filter_empty_conv)
  then have "stream_rows w t = []" by (simp add: stream_rows_def)
  then show ?thesis using archive_has_only_its_rows [OF assms(1-3)] by simp
qed

text \<open>A limit of 30 days takes a month of 31 days on its last evening: its age is counted from its first instant.\<close>

lemma age_from_the_start:
  assumes "rc_age_days C = Some 30" and "pi_start p + 31 * 86400000000 \<le> now"
  shows "too_old L C now p"
  using assms zdiv_mono1 [of "31 * 86400000000" "now - pi_start p" 86400000000] by (simp add: too_old_def age_days_def)

text \<open>Digests lose their digits in an archive.\<close>

lemma digest_is_masked:
  "archive_cells sample_calendar (january_event\<lparr>ae_data := (ae_data january_event)\<lparr>ev_artifact_sha256 := Some (asc ''ab12345678cd'')\<rparr>\<rparr>) ! 10 =
     asc ''abmasked:0cd''"
  by (simp add: archive_cells_def Let_def sanitize_archive_def sample_calendar_def persian_fold_def january_event_def
      event_payload_def sample_audit_request_def py_defs)

text \<open>The records of the JSON archive are separated by two carriage returns and a line feed.\<close>

lemma json_archive_separator: "translate_newlines [13, 10] = [13, 13, 10]"
  by (simp add: translate_newlines_def)

end
