(* ===== verification/PyBase64.thy ===== *)
theory PyBase64
  imports PyBytes
begin

text \<open>
  The URL-safe Base64 of the standard library. The decoder is the one of \<^verbatim>\<open>binascii\<close> outside its strict mode: characters
  that are not of the alphabet are skipped, the padding that completes a group ends the input, and an incomplete group is an
  error. Without the padding of the encoder, and with as many padding characters as the length asks for, it is the
  inverse of the encoder.
\<close>

section \<open>The codec\<close>

definition b64_char :: "int \<Rightarrow> int" where
  "b64_char v =
     (if v < 26 then 65 + v else if v < 52 then 71 + v else if v < 62 then v - 4 else if v = 62 then 45 else 95)"

definition b64_value :: "int \<Rightarrow> int option" where
  "b64_value c =
     (if 65 \<le> c \<and> c \<le> 90 then Some (c - 65) else if 97 \<le> c \<and> c \<le> 122 then Some (c - 71)
      else if 48 \<le> c \<and> c \<le> 57 then Some (c + 4) else if c \<in> {43, 45} then Some 62
      else if c \<in> {47, 95} then Some 63 else None)"

text \<open>The text without padding.\<close>

fun b64_core :: "int list \<Rightarrow> pystr" where
  "b64_core [] = []"
| "b64_core [a] = [b64_char (a div 4), b64_char (a mod 4 * 16)]"
| "b64_core [a, b] = [b64_char (a div 4), b64_char (a mod 4 * 16 + b div 16), b64_char (b mod 16 * 4)]"
| "b64_core (a # b # c # cs) =
     [b64_char (a div 4), b64_char (a mod 4 * 16 + b div 16), b64_char (b mod 16 * 4 + c div 64), b64_char (c mod 64)] @ b64_core cs"

definition padding_for :: "pystr \<Rightarrow> pystr" where
  "padding_for s = replicate ((4 - length s mod 4) mod 4) 61"

definition urlsafe_b64encode :: "bytes \<Rightarrow> pystr" where
  "urlsafe_b64encode bs = (let core = b64_core (map uint bs) in core @ padding_for core)"

fun rstrip_char :: "int \<Rightarrow> pystr \<Rightarrow> pystr" where
  "rstrip_char x s = rev (dropWhile ((=) x) (rev s))"

text \<open>The position in a group of four, the bits left over, and the padding seen in this group.\<close>

fun b64_scan :: "nat \<Rightarrow> int \<Rightarrow> nat \<Rightarrow> pystr \<Rightarrow> int list option" where
  "b64_scan quad left pads [] = (if quad = 0 then Some [] else None)"
| "b64_scan quad left pads (c # cs) =
     (if c = 61 then
        (if 2 \<le> quad \<and> 4 \<le> quad + Suc pads then Some []
         else b64_scan quad left (if 2 \<le> quad then Suc pads else pads) cs)
      else case b64_value c of
        None \<Rightarrow> b64_scan quad left pads cs
      | Some v \<Rightarrow>
          if quad = 0 then b64_scan 1 v 0 cs
          else if quad = 1 then map_option ((#) (left * 4 + v div 16)) (b64_scan 2 (v mod 16) 0 cs)
          else if quad = 2 then map_option ((#) (left * 16 + v div 4)) (b64_scan 3 (v mod 4) 0 cs)
          else map_option ((#) (left * 64 + v)) (b64_scan 0 0 0 cs))"

definition urlsafe_b64decode :: "pystr \<Rightarrow> bytes option" where
  "urlsafe_b64decode s = (if is_ascii s then map_option (map word_of_int) (b64_scan 0 0 0 s) else None)"

section \<open>The round trip\<close>

lemma b64_char_value: "0 \<le> v \<Longrightarrow> v < 64 \<Longrightarrow> b64_value (b64_char v) = Some v"
  by (auto simp: b64_char_def b64_value_def)

lemma b64_char_safe: "0 \<le> v \<Longrightarrow> v < 64 \<Longrightarrow> b64_char v \<noteq> 61 \<and> 45 \<le> b64_char v \<and> b64_char v \<le> 122 \<and> b64_char v \<noteq> 58"
  by (auto simp: b64_char_def)

lemma scan_char:
  assumes "0 \<le> v" and "v < 64"
  shows "b64_scan 0 l p (b64_char v # cs) = b64_scan 1 v 0 cs"
    and "b64_scan 1 l p (b64_char v # cs) = map_option ((#) (l * 4 + v div 16)) (b64_scan 2 (v mod 16) 0 cs)"
    and "b64_scan 2 l p (b64_char v # cs) = map_option ((#) (l * 16 + v div 4)) (b64_scan 3 (v mod 4) 0 cs)"
    and "b64_scan 3 l p (b64_char v # cs) = map_option ((#) (l * 64 + v)) (b64_scan 0 0 0 cs)"
  using b64_char_value [OF assms] b64_char_safe [OF assms] by simp_all

lemma high_low:
  fixes x y k :: int
  assumes "0 \<le> y" and "y < k"
  shows "(x * k + y) div k = x" and "(x * k + y) mod k = y"
  using assms by (simp_all add: div_add1_eq)

lemma byte_parts:
  fixes a :: int
  assumes "0 \<le> a" and "a < 256"
  shows "0 \<le> a div 4" "a div 4 < 64" "0 \<le> a div 16" "a div 16 < 16" "0 \<le> a div 64" "a div 64 < 4"
    "0 \<le> a mod 64" "a mod 64 < 64" "0 \<le> a mod 16" "a mod 16 < 16" "0 \<le> a mod 4" "a mod 4 < 4"
    "a div 4 * 4 + a mod 4 = a" "a div 16 * 16 + a mod 16 = a" "a div 64 * 64 + a mod 64 = a"
  using assms by auto

text \<open>The four groups of six bits, with their bounds and what the decoder makes of them.\<close>

lemma sextet_bounds:
  fixes a b c :: int
  assumes "0 \<le> a" "a < 256" "0 \<le> b" "b < 256" "0 \<le> c" "c < 256"
  shows "0 \<le> a mod 4 * 16 + b div 16" "a mod 4 * 16 + b div 16 < 64" "0 \<le> b mod 16 * 4 + c div 64" "b mod 16 * 4 + c div 64 < 64"
  using byte_parts [OF assms(1,2)] byte_parts [OF assms(3,4)] byte_parts [OF assms(5,6)] by linarith+

lemma scan_group:
  fixes a b c :: int
  assumes r: "0 \<le> a" "a < 256" "0 \<le> b" "b < 256" "0 \<le> c" "c < 256"
  shows "b64_scan 0 l p (b64_char (a div 4) # b64_char (a mod 4 * 16 + b div 16) # cs) = map_option ((#) a) (b64_scan 2 (b div 16) 0 cs)"
    and "b64_scan 2 (b div 16) 0 (b64_char (b mod 16 * 4 + c div 64) # cs) = map_option ((#) b) (b64_scan 3 (c div 64) 0 cs)"
    and "b64_scan 3 (c div 64) 0 (b64_char (c mod 64) # cs) = map_option ((#) c) (b64_scan 0 0 0 cs)"
proof -
  note pa = byte_parts [OF r(1,2)] and pb = byte_parts [OF r(3,4)] and pc = byte_parts [OF r(5,6)] and bd = sextet_bounds [OF r]
  show "b64_scan 0 l p (b64_char (a div 4) # b64_char (a mod 4 * 16 + b div 16) # cs) = map_option ((#) a) (b64_scan 2 (b div 16) 0 cs)"
    by (simp only: scan_char(1) [OF pa(1,2)] scan_char(2) [OF bd(1,2)] high_low [OF pb(3,4)] pa(13))
  show "b64_scan 2 (b div 16) 0 (b64_char (b mod 16 * 4 + c div 64) # cs) = map_option ((#) b) (b64_scan 3 (c div 64) 0 cs)"
    by (simp only: scan_char(3) [OF bd(3,4)] high_low [OF pc(5,6)] pb(14))
  show "b64_scan 3 (c div 64) 0 (b64_char (c mod 64) # cs) = map_option ((#) c) (b64_scan 0 0 0 cs)"
    by (simp only: scan_char(4) [OF pc(7,8)] pc(15))
qed

lemma padding_for_group: "padding_for (w # x # y # z # s) = padding_for s"
  by (simp add: padding_for_def)

lemma two_times: "replicate 2 x = [x, x]"
  by (simp add: numeral_2_eq_2)

lemma scan_core:
  "list_all (\<lambda>b. 0 \<le> b \<and> b < 256) xs \<Longrightarrow> b64_scan 0 0 0 (b64_core xs @ padding_for (b64_core xs)) = Some xs"
proof (induction xs rule: b64_core.induct)
  case (2 a)
  then have r: "0 \<le> a" "a < 256" by simp_all
  have "padding_for (b64_core [a]) = [61, 61]" by (simp add: padding_for_def two_times)
  moreover have z: "(0 :: int) \<le> 0" "(0 :: int) < 256" by simp_all
  have one: "b64_char (a mod 4 * 16) = b64_char (a mod 4 * 16 + 0 div 16)" by simp
  have "b64_scan 2 (0 div 16) 0 [61, 61] = Some []" by simp
  ultimately show ?case
    unfolding b64_core.simps(2) append.simps one scan_group(1) [OF r z z] by simp
next
  case (3 a b)
  then have r: "0 \<le> a" "a < 256" "0 \<le> b" "b < 256" by simp_all
  have "padding_for (b64_core [a, b]) = [61]" by (simp add: padding_for_def)
  moreover have z: "(0 :: int) \<le> 0" "(0 :: int) < 256" by simp_all
  have two: "b64_char (b mod 16 * 4) = b64_char (b mod 16 * 4 + 0 div 64)" by simp
  have "b64_scan 3 (0 div 64) 0 [61] = Some []" by simp
  ultimately show ?case
    unfolding b64_core.simps(3) append.simps two scan_group [OF r z] by simp
next
  case (4 a b c cs)
  then have r: "0 \<le> a" "a < 256" "0 \<le> b" "b < 256" "0 \<le> c" "c < 256"
    and IH: "b64_scan 0 0 0 (b64_core cs @ padding_for (b64_core cs)) = Some cs" by simp_all
  show ?case
    unfolding b64_core.simps(4) append_assoc append.simps padding_for_group scan_group [OF r] IH by simp
qed (simp add: padding_for_def)

lemma core_chars: "list_all (\<lambda>b. 0 \<le> b \<and> b < 256) xs \<Longrightarrow> c \<in> set (b64_core xs) \<Longrightarrow> \<exists>v. 0 \<le> v \<and> v < 64 \<and> c = b64_char v"
proof (induction xs rule: b64_core.induct)
  case (2 a)
  then have r: "0 \<le> a" "a < 256" by simp_all
  have "0 \<le> a mod 4 * 16" "a mod 4 * 16 < 64" using byte_parts(11,12) [OF r] by linarith+
  moreover have "c \<in> {b64_char (a div 4), b64_char (a mod 4 * 16)}" using 2(2) by simp
  ultimately show ?case using byte_parts(1,2) [OF r] by blast
next
  case (3 a b)
  then have r: "0 \<le> a" "a < 256" "0 \<le> b" "b < 256" by simp_all
  have "0 \<le> b mod 16 * 4" "b mod 16 * 4 < 64" using byte_parts(9,10) [OF r(3,4)] by linarith+
  moreover have "0 \<le> a mod 4 * 16 + b div 16" "a mod 4 * 16 + b div 16 < 64"
    using byte_parts(11,12) [OF r(1,2)] byte_parts(3,4) [OF r(3,4)] by linarith+
  moreover have "c \<in> {b64_char (a div 4), b64_char (a mod 4 * 16 + b div 16), b64_char (b mod 16 * 4)}" using 3(2) by simp
  ultimately show ?case using byte_parts(1,2) [OF r(1,2)] by blast
next
  case (4 a b d cs)
  then have r: "0 \<le> a" "a < 256" "0 \<le> b" "b < 256" "0 \<le> d" "d < 256" by simp_all
  have "c \<in> {b64_char (a div 4), b64_char (a mod 4 * 16 + b div 16), b64_char (b mod 16 * 4 + d div 64), b64_char (d mod 64)} \<union>
      set (b64_core cs)" using 4(3) by simp
  moreover have "list_all (\<lambda>b. 0 \<le> b \<and> b < 256) cs" using 4(2) by simp
  ultimately show ?case using byte_parts(1,2) [OF r(1,2)] sextet_bounds [OF r] byte_parts(7,8) [OF r(5,6)] 4(1) by blast
qed simp

lemma bytes_range: "list_all (\<lambda>b. 0 \<le> b \<and> b < 256) (map uint (bs :: bytes))"
proof -
  have "uint (w :: 8 word) < 256" for w using uint_bounded [of w] by simp
  then show ?thesis by (simp add: list_all_iff)
qed

text \<open>What a text without padding is made of.\<close>

definition b64_text :: "bytes \<Rightarrow> pystr" where
  "b64_text bs = b64_core (map uint bs)"

lemma b64_text_chars: "c \<in> set (b64_text bs) \<Longrightarrow> c \<noteq> 61 \<and> 45 \<le> c \<and> c \<le> 122 \<and> c \<noteq> 58"
  using core_chars [OF bytes_range, of c bs] b64_char_safe by (auto simp: b64_text_def)

lemma b64_text_ascii: "is_ascii (b64_text bs)"
  unfolding is_ascii_def list_all_iff by (fastforce dest: b64_text_chars)

lemma rstrip_encode: "rstrip_char 61 (urlsafe_b64encode bs) = b64_text bs"
proof -
  have "dropWhile ((=) 61) (replicate n 61 @ rev (b64_text bs)) = rev (b64_text bs)" for n
    using b64_text_chars [of _ bs] by (induction n) (auto simp: dropWhile_eq_self_iff hd_rev last_in_set)
  then show ?thesis by (simp add: urlsafe_b64encode_def Let_def padding_for_def b64_text_def)
qed

theorem b64_decode_encode: "urlsafe_b64decode (b64_text bs @ padding_for (b64_text bs)) = Some bs"
proof -
  have "is_ascii (b64_text bs @ padding_for (b64_text bs))"
    using b64_text_chars [of _ bs] by (force simp: is_ascii_def padding_for_def list_all_iff)
  moreover have "b64_scan 0 0 0 (b64_text bs @ padding_for (b64_text bs)) = Some (map uint bs)"
    unfolding b64_text_def by (rule scan_core [OF bytes_range])
  ultimately show ?thesis by (simp add: urlsafe_b64decode_def comp_def)
qed

lemma b64_text_inj: "b64_text a = b64_text b \<Longrightarrow> a = b"
  by (metis b64_decode_encode option.inject)

end
