(* ===== verification/Url_Signing.thy ===== *)
theory Url_Signing
  imports PyBase64 Upload_Multipart "HOL-Library.AList"
begin

text \<open>
  \<^verbatim>\<open>security/signing.py\<close>: download links signed under a key ring with one active key. A dict of keys is an association list
  in the order of insertion; HMAC-SHA256 and NFKC are parameters; times are whole seconds. The writing and splitting of the
  query string is left out: a link is its four fields. A string that \<^verbatim>\<open>hmac.compare_digest\<close> refuses is an error of its own.
\<close>

section \<open>Paths\<close>

datatype signing_exn = KeyRotationError pystr | VerificationError pystr | Encode_Error | Compare_Type_Error

fun replace_slashes :: "pystr \<Rightarrow> pystr" where
  "replace_slashes [] = []"
| "replace_slashes [c] = [c]"
| "replace_slashes (c # d # s) = (if c = 47 \<and> d = 47 then 47 # replace_slashes s else c # replace_slashes (d # s))"

lemma replace_slashes_length: "length (replace_slashes s) \<le> length s"
  by (induction s rule: replace_slashes.induct) auto

lemma replace_slashes_shorter: "occurs [47, 47] s \<Longrightarrow> length (replace_slashes s) < length s"
proof (induction s rule: replace_slashes.induct)
  case (3 c d s)
  show ?case
  proof (cases "c = 47 \<and> d = 47")
    case True
    then show ?thesis using replace_slashes_length [of s] by simp
  next
    case False
    then have "occurs [47, 47] (d # s)" using 3(3) by (auto simp: occurs_def split: if_splits)
    then show ?thesis using 3(2) False by auto
  qed
qed (auto simp: occurs_def)

function squeeze_slashes :: "pystr \<Rightarrow> pystr" where
  "squeeze_slashes s = (if occurs [47, 47] s then squeeze_slashes (replace_slashes s) else s)"
  by pat_completeness auto
termination
  by (relation "measure length") (auto simp: replace_slashes_shorter)

declare squeeze_slashes.simps [simp del]

definition normalize_path :: "pystr \<Rightarrow> signing_exn + pystr" where
  "normalize_path path =
     (let normalized = squeeze_slashes (replace_char 92 47 path)
      in if startswith normalized (asc ''../'') \<or> occurs (asc ''/../'') normalized
         then Inl (VerificationError (asc ''path-traversal'')) else Inr normalized)"

section \<open>Keys\<close>

record SigningKey =
  sk_kid :: pystr
  sk_secret :: pystr
  sk_state :: pystr

type_synonym keyring = "(pystr \<times> SigningKey) list"

definition normalize_kid :: "ucd \<Rightarrow> pystr \<Rightarrow> signing_exn + pystr" where
  "normalize_kid U v =
     (let s = py_strip (u_nfkc U v) in if s = [] then Inl (KeyRotationError (asc ''kid-empty'')) else Inr s)"

definition normalize_secret :: "ucd \<Rightarrow> pystr \<Rightarrow> signing_exn + pystr" where
  "normalize_secret U v =
     (let s = py_strip (u_nfkc U v) in if length s < 32 then Inl (KeyRotationError (asc ''secret-short'')) else Inr s)"

definition cleaned_key :: "ucd \<Rightarrow> SigningKey \<Rightarrow> signing_exn + SigningKey" where
  "cleaned_key U k =
     rbind (normalize_kid U (sk_kid k)) (\<lambda>kid.
     rbind (normalize_secret U (sk_secret k)) (\<lambda>secret.
       Inr \<lparr>sk_kid = kid, sk_secret = secret,
            sk_state = (if sk_state k \<in> {asc ''active'', asc ''retired''} then sk_state k else asc ''retired'')\<rparr>))"

abbreviation is_active :: "SigningKey \<Rightarrow> bool" where
  "is_active k \<equiv> sk_state k = asc ''active''"

definition keyring_of :: "SigningKey list \<Rightarrow> keyring" where
  "keyring_of ks = foldl (\<lambda>m k. AList.update (sk_kid k) k m) [] ks"

definition KeyRing :: "ucd \<Rightarrow> SigningKey list \<Rightarrow> signing_exn + keyring" where
  "KeyRing U ks =
     (if ks = [] then Inl (KeyRotationError (asc ''empty''))
      else rbind (rmap (cleaned_key U) ks) (\<lambda>cleaned.
        if length (filter is_active cleaned) \<noteq> 1 then Inl (KeyRotationError (asc ''active-count''))
        else Inr (keyring_of cleaned)))"

definition active_key :: "keyring \<Rightarrow> signing_exn + SigningKey" where
  "active_key kr =
     (case find is_active (map snd kr) of None \<Rightarrow> Inl (KeyRotationError (asc ''active-missing'')) | Some k \<Rightarrow> Inr k)"

definition retired_keys :: "keyring \<Rightarrow> SigningKey list" where
  "retired_keys kr = filter (\<lambda>k. sk_state k = asc ''retired'') (map snd kr)"

definition verification_keys :: "keyring \<Rightarrow> SigningKey list" where
  "verification_keys kr = sort_key (\<lambda>k. (\<not> is_active k, sk_kid k)) (map snd kr)"

definition rotate_ring :: "ucd \<Rightarrow> pystr \<Rightarrow> pystr \<Rightarrow> keyring \<Rightarrow> signing_exn + keyring" where
  "rotate_ring U kid0 secret0 kr =
     rbind (normalize_kid U kid0) (\<lambda>kid.
     rbind (normalize_secret U secret0) (\<lambda>secret.
       if (case map_of kr kid of None \<Rightarrow> False | Some k \<Rightarrow> is_active k) then Inl (KeyRotationError (asc ''duplicate-active''))
       else
         let updated = foldl (\<lambda>m e. AList.update (sk_kid e)
               (e\<lparr>sk_state := if is_active e then asc ''retired'' else sk_state e\<rparr>) m) [] (map snd kr);
             updated = AList.update kid \<lparr>sk_kid = kid, sk_secret = secret, sk_state = asc ''active''\<rparr> updated
         in KeyRing U (map snd updated)))"

definition as_definition :: "SigningKey \<Rightarrow> SigningKey" where
  "as_definition k = k\<lparr>sk_state := if is_active k then asc ''active'' else asc ''retired''\<rparr>"

definition as_definitions :: "keyring \<Rightarrow> SigningKey list" where
  "as_definitions kr = map as_definition (verification_keys kr)"

definition keyring_from_definitions :: "ucd \<Rightarrow> SigningKey list \<Rightarrow> signing_exn + keyring" where
  "keyring_from_definitions U ds =
     KeyRing U (map (\<lambda>d. d\<lparr>sk_state := if is_active d then asc ''active'' else asc ''retired''\<rparr>) ds)"

section \<open>Signing and checking\<close>

record signer_lib =
  sl_ucd :: ucd
  sl_hmac :: "bytes \<Rightarrow> bytes \<Rightarrow> bytes"

record SignatureEnvelope =
  env_path :: pystr
  env_signed :: pystr
  env_kid :: pystr
  env_exp :: int
  env_sig :: pystr

definition encoded :: "pystr \<Rightarrow> signing_exn + bytes" where
  "encoded s = (case utf8_encode s of None \<Rightarrow> Inl Encode_Error | Some bs \<Rightarrow> Inr bs)"

definition canonical_text :: "ucd \<Rightarrow> pystr \<Rightarrow> pystr \<Rightarrow> (pystr \<times> pystr) list \<Rightarrow> int \<Rightarrow> pystr" where
  "canonical_text U method path query expires =
     u_upper U method @ 10 # path @ 10 # join [38] (map (\<lambda>(k, v). k @ 61 # v) (sort query)) @ 10 # py_str_int expires"

definition encode_path :: "pystr \<Rightarrow> signing_exn + pystr" where
  "encode_path path = rbind (encoded path) (\<lambda>bs. Inr (rstrip_char 61 (urlsafe_b64encode bs)))"

definition decode_path :: "pystr \<Rightarrow> signing_exn + pystr" where
  "decode_path s =
     (case Option.bind (urlsafe_b64decode (s @ padding_for s)) utf8_decode of
        None \<Rightarrow> Inl (VerificationError (asc ''decode''))
      | Some path \<Rightarrow> normalize_path path)"

definition sign_text :: "signer_lib \<Rightarrow> pystr \<Rightarrow> bytes \<Rightarrow> signing_exn + pystr" where
  "sign_text L secret canonical =
     rbind (encoded secret) (\<lambda>key. Inr (rstrip_char 61 (urlsafe_b64encode (sl_hmac L key canonical))))"

definition signing_expiry :: "int \<Rightarrow> int \<Rightarrow> int" where
  "signing_expiry now ttl = now + max 1 ttl"

definition signer_ttl :: "int \<Rightarrow> int" where
  "signer_ttl default_ttl_seconds = max 60 default_ttl_seconds"

definition issue ::
  "signer_lib \<Rightarrow> int \<Rightarrow> keyring \<Rightarrow> int \<Rightarrow> pystr \<Rightarrow> pystr \<Rightarrow> (pystr \<times> pystr) list \<Rightarrow> int option \<Rightarrow> signing_exn + SignatureEnvelope" where
  "issue L default_ttl_seconds kr now path method query ttl_seconds =
     rbind (normalize_path path) (\<lambda>normalized_path.
       let ttl = (case ttl_seconds of Some t \<Rightarrow> if t = 0 then signer_ttl default_ttl_seconds else t | None \<Rightarrow> signer_ttl default_ttl_seconds);
           expires_at = signing_expiry now ttl
       in rbind (encoded (canonical_text (sl_ucd L) method normalized_path query expires_at)) (\<lambda>canonical.
          rbind (active_key kr) (\<lambda>active.
          rbind (sign_text L (sk_secret active) canonical) (\<lambda>signature.
          rbind (encode_path normalized_path) (\<lambda>signed.
            Inr \<lparr>env_path = normalized_path, env_signed = signed, env_kid = sk_kid active, env_exp = expires_at,
                 env_sig = signature\<rparr>)))))"

definition as_query :: "SignatureEnvelope \<Rightarrow> (pystr \<times> pystr) list" where
  "as_query e =
     [(asc ''signed'', env_signed e), (asc ''kid'', env_kid e), (asc ''exp'', py_str_int (env_exp e)), (asc ''sig'', env_sig e)]"

definition signed_params :: "(pystr \<times> pystr) list \<Rightarrow> SignatureEnvelope \<Rightarrow> (pystr \<times> pystr) list" where
  "signed_params query e = foldl (\<lambda>m (k, v). AList.update k v m) query (as_query e)"

definition verify_envelope :: "signer_lib \<Rightarrow> keyring \<Rightarrow> int \<Rightarrow> SignatureEnvelope \<Rightarrow> signing_exn + pystr" where
  "verify_envelope L kr now e =
     rbind (decode_path (env_signed e)) (\<lambda>path.
       if env_exp e \<le> now then Inl (VerificationError (asc ''expired''))
       else case find (\<lambda>k. sk_kid k = env_kid e) (verification_keys kr) of
         None \<Rightarrow> Inl (VerificationError (asc ''unknown-kid''))
       | Some k \<Rightarrow>
           rbind (encoded (canonical_text (sl_ucd L) (asc ''GET'') path [] (env_exp e))) (\<lambda>canonical.
           rbind (sign_text L (sk_secret k) canonical) (\<lambda>expected.
             if \<not> is_ascii (env_sig e) then Inl Compare_Type_Error
             else if expected = env_sig e then Inr path
             else Inl (VerificationError (asc ''signature'')))))"

text \<open>The fields of a URL, with the empty text for one that is missing.\<close>

definition verify_params :: "signer_lib \<Rightarrow> keyring \<Rightarrow> int \<Rightarrow> (pystr \<times> pystr) list \<Rightarrow> signing_exn + pystr" where
  "verify_params L kr now payload =
     (let field = (\<lambda>name. case map_of payload name of None \<Rightarrow> [] | Some v \<Rightarrow> v);
          signed = field (asc ''signed''); kid = field (asc ''kid''); exp_text = field (asc ''exp''); sig = field (asc ''sig'')
      in if signed = [] \<or> kid = [] \<or> exp_text = [] \<or> sig = [] then Inl (VerificationError (asc ''malformed''))
         else case py_int exp_text of
           None \<Rightarrow> Inl (VerificationError (asc ''exp-format''))
         | Some expires \<Rightarrow>
             verify_envelope L kr now \<lparr>env_path = [], env_signed = signed, env_kid = kid, env_exp = expires, env_sig = sig\<rparr>)"


section \<open>Paths are clean\<close>

definition clean_path :: "pystr \<Rightarrow> bool" where
  "clean_path q \<longleftrightarrow>
     \<not> occurs [47, 47] q \<and> 92 \<notin> set q \<and> \<not> startswith q (asc ''../'') \<and> \<not> occurs (asc ''/../'') q"

lemma replace_slashes_set: "set (replace_slashes s) \<subseteq> set s"
  by (induction s rule: replace_slashes.induct) auto

lemma squeeze_slashes_none: "\<not> occurs [47, 47] (squeeze_slashes s) \<and> set (squeeze_slashes s) \<subseteq> set s"
proof (induction s rule: squeeze_slashes.induct)
  case (1 s)
  then show ?case
    using replace_slashes_set [of s] squeeze_slashes.simps [of s] by (cases "occurs [47, 47] s") auto
qed

lemma normalize_path_clean:
  assumes "normalize_path p = Inr q"
  shows "clean_path q" and "normalize_path q = Inr q"
proof -
  have q: "q = squeeze_slashes (replace_char 92 47 p)" "\<not> startswith q (asc ''../'')" "\<not> occurs (asc ''/../'') q"
    using assms by (auto simp: normalize_path_def Let_def split: if_splits)
  moreover have "92 \<notin> set (replace_char 92 47 p)" by (auto simp: replace_char_def)
  ultimately show c: "clean_path q" using squeeze_slashes_none [of "replace_char 92 47 p"] by (auto simp: clean_path_def)
  then have "replace_char 92 47 q = q" by (auto simp: replace_char_def clean_path_def intro!: map_idI)
  moreover have "squeeze_slashes q = q" using c squeeze_slashes.simps [of q] by (simp add: clean_path_def)
  ultimately show "normalize_path q = Inr q" using c by (simp add: normalize_path_def clean_path_def)
qed

lemma decode_encoded_path: "encode_path q = Inr s \<Longrightarrow> decode_path s = normalize_path q"
  by (auto simp: encode_path_def encoded_def decode_path_def rstrip_encode b64_decode_encode utf8_roundtrip simp del: rstrip_char.simps
      split: option.splits)

section \<open>A ring has one active key\<close>

definition nfkc_closed :: "ucd \<Rightarrow> bool" where
  "nfkc_closed U \<longleftrightarrow> (\<forall>s. u_nfkc U (py_strip (u_nfkc U s)) = py_strip (u_nfkc U s))"

definition ring_ok :: "ucd \<Rightarrow> keyring \<Rightarrow> bool" where
  "ring_ok U kr \<longleftrightarrow> distinct (map fst kr) \<and> list_all (\<lambda>(n, k). n = sk_kid k \<and> cleaned_key U k = Inr k) kr \<and>
     length (filter is_active (map snd kr)) = 1"

lemma cleaned_key_Inr:
  "cleaned_key U k = Inr k' \<longleftrightarrow>
     normalize_kid U (sk_kid k) = Inr (sk_kid k') \<and> normalize_secret U (sk_secret k) = Inr (sk_secret k') \<and>
     sk_state k' = (if sk_state k \<in> {asc ''active'', asc ''retired''} then sk_state k else asc ''retired'')"
  by (cases k') (auto simp: cleaned_key_def rbind_Inr_iff)

lemma strip_nfkc_again: "nfkc_closed U \<Longrightarrow> py_strip (u_nfkc U (py_strip (u_nfkc U s))) = py_strip (u_nfkc U s)"
  by (simp add: nfkc_closed_def py_strip_def strip_by_idem)

lemma normalize_again:
  "nfkc_closed U \<Longrightarrow> normalize_kid U v = Inr s \<Longrightarrow> normalize_kid U s = Inr s"
  "nfkc_closed U \<Longrightarrow> normalize_secret U v = Inr s \<Longrightarrow> normalize_secret U s = Inr s"
  using strip_nfkc_again [of U v] by (auto simp: normalize_kid_def normalize_secret_def Let_def split: if_split_asm)

lemma cleaned_key_again:
  assumes "nfkc_closed U" and "cleaned_key U k = Inr k'"
  shows "cleaned_key U k' = Inr k'"
proof -
  have "normalize_kid U (sk_kid k') = Inr (sk_kid k')" "normalize_secret U (sk_secret k') = Inr (sk_secret k')"
    using assms normalize_again unfolding cleaned_key_Inr by blast+
  moreover have "sk_state k' \<in> {asc ''active'', asc ''retired''}" using assms(2) unfolding cleaned_key_Inr by auto
  ultimately show ?thesis unfolding cleaned_key_Inr by simp
qed

lemma update_new: "n \<notin> fst ` set m \<Longrightarrow> AList.update n k m = m @ [(n, k)]"
  by (induction m) auto

lemma keyring_fold:
  "distinct (map fst m @ map sk_kid ks) \<Longrightarrow>
   foldl (\<lambda>m k. AList.update (sk_kid k) (f k) m) m ks = m @ map (\<lambda>k. (sk_kid k, f k)) ks"
proof (induction ks arbitrary: m)
  case (Cons k ks)
  have "AList.update (sk_kid k) (f k) m = m @ [(sk_kid k, f k)]" using Cons.prems by (intro update_new) auto
  then show ?case using Cons.prems Cons.IH [of "m @ [(sk_kid k, f k)]"] by auto
qed simp

lemma keyring_of_distinct: "distinct (map sk_kid ks) \<Longrightarrow> keyring_of ks = map (\<lambda>k. (sk_kid k, k)) ks"
  using keyring_fold [of "[]" ks "\<lambda>k. k"] by (simp add: keyring_of_def)

lemma KeyRing_ok:
  assumes "nfkc_closed U" and "KeyRing U ks = Inr kr"
    and "\<And>cleaned. rmap (cleaned_key U) ks = Inr cleaned \<Longrightarrow> distinct (map sk_kid cleaned)"
  shows "ring_ok U kr"
proof -
  obtain cleaned where c: "rmap (cleaned_key U) ks = Inr cleaned" "length (filter is_active cleaned) = 1" "kr = keyring_of cleaned"
    using assms(2) by (auto simp: KeyRing_def rbind_Inr_iff split: if_splits)
  have d: "distinct (map sk_kid cleaned)" by (rule assms(3) [OF c(1)])
  have "cleaned_key U k = Inr k" if "k \<in> set cleaned" for k
    using rmap_Inr_set [OF c(1) that] cleaned_key_again [OF assms(1)] by blast
  then show ?thesis using d c(2) unfolding c(3) keyring_of_distinct [OF d] by (simp add: ring_ok_def list_all_iff comp_def)
qed

definition retire :: "SigningKey \<Rightarrow> SigningKey" where
  "retire e = e\<lparr>sk_state := if is_active e then asc ''retired'' else sk_state e\<rparr>"

lemma retire_simps [simp]: "sk_kid (retire e) = sk_kid e" "sk_secret (retire e) = sk_secret e" "\<not> is_active (retire e)"
  by (simp_all add: retire_def py_defs)

lemma retire_cleaned:
  assumes "cleaned_key U k = Inr k"
  shows "cleaned_key U (retire k) = Inr (retire k)"
proof -
  have "sk_state (retire k) \<in> {asc ''active'', asc ''retired''}"
    using assms unfolding cleaned_key_Inr by (auto simp: retire_def split: if_splits)
  then show ?thesis using assms unfolding cleaned_key_Inr by simp
qed

lemma one_active:
  "distinct (map fst u) \<Longrightarrow> list_all (\<lambda>(n, k). \<not> is_active k) u \<Longrightarrow> is_active new \<Longrightarrow>
   length (filter is_active (map snd (AList.update kid new u))) = 1"
proof (induction u)
  case (Cons e u)
  then show ?case by (cases e) (auto simp: list_all_iff filter_empty_conv)
qed simp

text \<open>A rotation succeeds unless the new key has the name of the active one; the other keys stay, retired.\<close>

lemma rotate_ring_spec:
  assumes closed: "nfkc_closed U" and ok: "ring_ok U kr" and kid: "normalize_kid U kid0 = Inr kid"
    and secret: "normalize_secret U secret0 = Inr secret" and fresh: "\<forall>k. map_of kr kid = Some k \<longrightarrow> \<not> is_active k"
  shows "\<exists>kr'. rotate_ring U kid0 secret0 kr = Inr kr' \<and> ring_ok U kr' \<and>
    map_of kr' = (\<lambda>n. map_option retire (map_of kr n))(kid \<mapsto> \<lparr>sk_kid = kid, sk_secret = secret, sk_state = asc ''active''\<rparr>)"
proof -
  let ?new = "\<lparr>sk_kid = kid, sk_secret = secret, sk_state = asc ''active''\<rparr>"
  have d: "distinct (map fst kr)" and names: "\<forall>(n, k) \<in> set kr. n = sk_kid k \<and> cleaned_key U k = Inr k"
    using ok by (auto simp: ring_ok_def list_all_iff)
  have fst_kid: "map sk_kid (map snd kr) = map fst kr" using names by auto
  let ?u = "map (\<lambda>(n, k). (n, retire k)) kr"
  have u: "foldl (\<lambda>m e. AList.update (sk_kid e) (e\<lparr>sk_state := if is_active e then asc ''retired'' else sk_state e\<rparr>) m) [] (map snd kr) = ?u"
  proof -
    have "distinct (map fst ([] :: keyring) @ map sk_kid (map snd kr))" unfolding fst_kid using d by simp
    from keyring_fold [OF this, of retire]
    have "foldl (\<lambda>m e. AList.update (sk_kid e) (retire e) m) [] (map snd kr) = map (\<lambda>k. (sk_kid k, retire k)) (map snd kr)"
      by simp
    moreover have "\<dots> = ?u" using names by auto
    ultimately show ?thesis by (simp add: retire_def)
  qed
  let ?v = "AList.update kid ?new ?u"
  have du: "distinct (map fst ?u)" using d by (simp add: comp_def case_prod_beta)
  then have dv: "distinct (map fst ?v)" by (rule distinct_update)
  have new: "cleaned_key U ?new = Inr ?new"
  proof (rule cleaned_key_again [OF closed])
    show "cleaned_key U \<lparr>sk_kid = kid0, sk_secret = secret0, sk_state = asc ''active''\<rparr> = Inr ?new"
      using kid secret by (simp add: cleaned_key_Inr)
  qed
  have v: "n = sk_kid k \<and> cleaned_key U k = Inr k" if "(n, k) \<in> set ?v" for n k
  proof -
    have "map_of ?v n = Some k" using dv that by simp
    then have "n = kid \<and> k = ?new \<or> map_option retire (map_of kr n) = Some k"
      by (auto simp: update_conv map_of_map split: if_splits)
    then have "n = kid \<and> k = ?new \<or> (\<exists>k0. (n, k0) \<in> set kr \<and> k = retire k0)" by (auto dest: map_of_SomeD)
    then show ?thesis using new names retire_cleaned by auto
  qed
  have "rmap (cleaned_key U) (map snd ?v) = Inr (map snd ?v)"
    unfolding rmap_Inr_iff using v by (auto simp: list_all2_same)
  moreover have one: "length (filter is_active (map snd ?v)) = 1"
    by (rule one_active [OF du]) (auto simp: list_all_iff)
  moreover have "keyring_of (map snd ?v) = ?v"
  proof -
    have e: "map sk_kid (map snd ?v) = map fst ?v" using v by auto
    have "distinct (map sk_kid (map snd ?v))" unfolding e by (rule dv)
    then have "keyring_of (map snd ?v) = map (\<lambda>k. (sk_kid k, k)) (map snd ?v)" by (rule keyring_of_distinct)
    also have "\<dots> = ?v" using v by (auto intro!: map_idI)
    finally show ?thesis .
  qed
  moreover have "map snd ?v \<noteq> []" by (cases kr) (auto split: prod.splits)
  ultimately have "KeyRing U (map snd ?v) = Inr ?v" by (simp add: KeyRing_def)
  moreover have "\<not> (case map_of kr kid of None \<Rightarrow> False | Some k \<Rightarrow> is_active k)" using fresh by (auto split: option.splits)
  ultimately have "rotate_ring U kid0 secret0 kr = Inr ?v"
    by (simp only: rotate_ring_def kid secret rbind.simps u Let_def if_False)
  moreover have "ring_ok U ?v"
    unfolding ring_ok_def using dv v by (intro conjI one) (auto simp: list_all_iff)
  moreover have "map_of ?v = (\<lambda>n. map_option retire (map_of kr n))(kid \<mapsto> ?new)"
    by (simp add: update_conv' map_of_map comp_def)
  ultimately show ?thesis by blast
qed


section \<open>Links\<close>

lemma find_the_only: "x \<in> set ys \<Longrightarrow> P x \<Longrightarrow> (\<And>y. y \<in> set ys \<Longrightarrow> P y \<Longrightarrow> y = x) \<Longrightarrow> find P ys = Some x"
proof (induction ys)
  case (Cons y ys)
  show ?case
  proof (cases "P y")
    case True
    then have "y = x" by (intro Cons.prems(3)) simp_all
    then show ?thesis using True by simp
  next
    case False
    then have "find P ys = Some x" using Cons.prems(1,2) by (intro Cons.IH Cons.prems(3)) auto
    then show ?thesis using False by simp
  qed
qed simp

lemma find_absent: "(\<And>y. y \<in> set ys \<Longrightarrow> \<not> P y) \<Longrightarrow> find P ys = None"
  by (induction ys) auto

lemma ring_names:
  assumes "ring_ok U kr"
  shows "map_of kr n = Some k \<longleftrightarrow> (n, k) \<in> set kr" and "(n, k) \<in> set kr \<Longrightarrow> n = sk_kid k"
proof -
  have "distinct (map fst kr)" using assms by (simp add: ring_ok_def)
  then show "map_of kr n = Some k \<longleftrightarrow> (n, k) \<in> set kr" by (rule map_of_eq_Some_iff)
  show "(n, k) \<in> set kr \<Longrightarrow> n = sk_kid k" using assms unfolding ring_ok_def list_all_iff by blast
qed

lemma ring_keys: "k \<in> set (verification_keys kr) \<longleftrightarrow> (\<exists>n. (n, k) \<in> set kr)"
  by (force simp: verification_keys_def)

lemma find_key:
  assumes "ring_ok U kr"
  shows "find (\<lambda>k. sk_kid k = kid) (verification_keys kr) = map_of kr kid"
proof (cases "map_of kr kid")
  case None
  have "sk_kid k \<noteq> kid" if k: "k \<in> set (verification_keys kr)" for k
  proof
    assume "sk_kid k = kid"
    moreover obtain n where "(n, k) \<in> set kr" using k [unfolded ring_keys] by blast
    ultimately have "map_of kr kid = Some k" using ring_names [OF assms] by metis
    then show False using None by simp
  qed
  then show ?thesis using None by (simp add: find_absent)
next
  case (Some k)
  then have k: "(kid, k) \<in> set kr" using ring_names [OF assms] by blast
  have "find (\<lambda>k. sk_kid k = kid) (verification_keys kr) = Some k"
  proof (rule find_the_only)
    show "k \<in> set (verification_keys kr)" using k unfolding ring_keys by blast
    show "sk_kid k = kid" using ring_names(2) [OF assms k] by simp
    show "y = k" if y: "y \<in> set (verification_keys kr)" "sk_kid y = kid" for y
    proof -
      obtain n where n: "(n, y) \<in> set kr" using y(1) [unfolded ring_keys] by blast
      then have "map_of kr kid = Some y" using ring_names [OF assms] y(2) by metis
      then show ?thesis using Some by simp
    qed
  qed
  then show ?thesis using Some by simp
qed

lemma active_key_ring:
  assumes "ring_ok U kr" and "active_key kr = Inr k"
  shows "map_of kr (sk_kid k) = Some k" and "is_active k"
proof -
  have k: "k \<in> set (map snd kr)" "is_active k" using assms(2) by (auto simp: active_key_def find_Some_iff split: option.splits)
  then obtain n where "(n, k) \<in> set kr" by auto
  then show "map_of kr (sk_kid k) = Some k" using ring_names [OF assms(1)] by metis
  show "is_active k" by (rule k(2))
qed

lemma sign_text_ascii: "sign_text L secret m = Inr s \<Longrightarrow> is_ascii s"
  using b64_text_ascii by (auto simp: sign_text_def rstrip_encode simp del: rstrip_char.simps)

lemma verify_ok_iff:
  assumes "ring_ok (sl_ucd L) kr"
  shows "verify_envelope L kr now e = Inr path \<longleftrightarrow> decode_path (env_signed e) = Inr path \<and> now < env_exp e \<and>
    (\<exists>k m. map_of kr (env_kid e) = Some k \<and> encoded (canonical_text (sl_ucd L) (asc ''GET'') path [] (env_exp e)) = Inr m \<and>
      sign_text L (sk_secret k) m = Inr (env_sig e))"
  unfolding verify_envelope_def find_key [OF assms]
  by (cases "map_of kr (env_kid e)") (auto split: if_splits dest: sign_text_ascii)

text \<open>The ring of a signer after calls of \<^verbatim>\<open>rotate\<close>; one that fails leaves the ring as it is.\<close>

fun rotate_all :: "ucd \<Rightarrow> (pystr \<times> pystr) list \<Rightarrow> keyring \<Rightarrow> keyring" where
  "rotate_all U [] kr = kr"
| "rotate_all U ((kid, secret) # rs) kr = rotate_all U rs (case rotate_ring U kid secret kr of Inl _ \<Rightarrow> kr | Inr kr' \<Rightarrow> kr')"

lemma rotate_ring_keeps:
  assumes "nfkc_closed U" and "ring_ok U kr" and "rotate_ring U kid0 secret0 kr = Inr kr'"
    and "normalize_kid U kid0 \<noteq> Inr n" and "map_of kr n = Some k"
  shows "ring_ok U kr' \<and> (\<exists>k'. map_of kr' n = Some k' \<and> sk_secret k' = sk_secret k)"
proof -
  obtain kid secret where new: "normalize_kid U kid0 = Inr kid" "normalize_secret U secret0 = Inr secret"
    "\<forall>k. map_of kr kid = Some k \<longrightarrow> \<not> is_active k"
    using assms(3) by (auto simp: rotate_ring_def split: if_splits option.splits)
  from rotate_ring_spec [OF assms(1,2) new] assms(3) have "ring_ok U kr'"
    "map_of kr' = (\<lambda>n. map_option retire (map_of kr n))(kid \<mapsto> \<lparr>sk_kid = kid, sk_secret = secret, sk_state = asc ''active''\<rparr>)"
    by auto
  then show ?thesis using assms(4,5) new(1) by auto
qed

lemma rotate_all_keeps:
  assumes "nfkc_closed U" and "ring_ok U kr" and "\<forall>(kid, secret) \<in> set rs. normalize_kid U kid \<noteq> Inr n" and "map_of kr n = Some k"
  shows "ring_ok U (rotate_all U rs kr) \<and> (\<exists>k'. map_of (rotate_all U rs kr) n = Some k' \<and> sk_secret k' = sk_secret k)"
  using assms(2-4)
proof (induction rs arbitrary: kr k)
  case (Cons r rs)
  obtain kid secret where r: "r = (kid, secret)" by (cases r)
  show ?case
  proof (cases "rotate_ring U kid secret kr")
    case (Inl x)
    then show ?thesis using Cons r by simp
  next
    case (Inr kr1)
    have "normalize_kid U kid \<noteq> Inr n" using Cons.prems(2) r by simp
    from rotate_ring_keeps [OF assms(1) Cons.prems(1) Inr this Cons.prems(3)] obtain k1 where
      k1: "ring_ok U kr1" "map_of kr1 n = Some k1" "sk_secret k1 = sk_secret k" by blast
    have "\<forall>(kid, secret) \<in> set rs. normalize_kid U kid \<noteq> Inr n" using Cons.prems(2) by simp
    from Cons.IH [OF k1(1) this k1(2)] k1(3) show ?thesis using r Inr by simp
  qed
qed auto

lemma issue_Inr:
  "issue L d kr now path method query ttl = Inr e \<longleftrightarrow>
     normalize_path path = Inr (env_path e) \<and>
     env_exp e = signing_expiry now (case ttl of Some t \<Rightarrow> if t = 0 then signer_ttl d else t | None \<Rightarrow> signer_ttl d) \<and>
     encode_path (env_path e) = Inr (env_signed e) \<and>
     (\<exists>k m. active_key kr = Inr k \<and> env_kid e = sk_kid k \<and>
        encoded (canonical_text (sl_ucd L) method (env_path e) query (env_exp e)) = Inr m \<and> sign_text L (sk_secret k) m = Inr (env_sig e))"
  by (cases e) (auto simp: issue_def Let_def)

text \<open>
  C21 link_lives: a link issued for a path is valid until its expiry and not after, for the normalised path it
  was issued for, whatever rotations of the key ring happen in between, as long as none of them gives its key a new secret
  under the same name.
\<close>

theorem link_lives:
  assumes closed: "nfkc_closed (sl_ucd L)" and ok: "ring_ok (sl_ucd L) kr"
    and issued: "issue L d kr now path (asc ''GET'') [] ttl = Inr e"
    and others: "\<forall>(kid, secret) \<in> set rs. normalize_kid (sl_ucd L) kid \<noteq> Inr (env_kid e)"
  shows "normalize_path path = Inr (env_path e) \<and> now < env_exp e \<and>
    verify_envelope L (rotate_all (sl_ucd L) rs kr) later e =
      (if later < env_exp e then Inr (env_path e) else Inl (VerificationError (asc ''expired'')))"
proof -
  let ?kr = "rotate_all (sl_ucd L) rs kr"
  from issued [unfolded issue_Inr] obtain k m where
    path: "normalize_path path = Inr (env_path e)" "encode_path (env_path e) = Inr (env_signed e)"
    and expires: "now < env_exp e"
    and k: "active_key kr = Inr k" "env_kid e = sk_kid k"
    and m: "encoded (canonical_text (sl_ucd L) (asc ''GET'') (env_path e) [] (env_exp e)) = Inr m" "sign_text L (sk_secret k) m = Inr (env_sig e)"
    by (auto simp: signing_expiry_def)
  have dec: "decode_path (env_signed e) = Inr (env_path e)"
    using decode_encoded_path [OF path(2)] normalize_path_clean(2) [OF path(1)] by simp
  have "map_of kr (env_kid e) = Some k" using active_key_ring(1) [OF ok k(1)] k(2) by simp
  from rotate_all_keeps [OF closed ok others this] obtain k' where
    k': "ring_ok (sl_ucd L) ?kr" "map_of ?kr (env_kid e) = Some k'" "sk_secret k' = sk_secret k" by blast
  show ?thesis
  proof (cases "later < env_exp e")
    case True
    then have "verify_envelope L ?kr later e = Inr (env_path e)"
      unfolding verify_ok_iff [OF k'(1)] using dec k' m by auto
    then show ?thesis using path(1) expires True by simp
  next
    case False
    then have "verify_envelope L ?kr later e = Inl (VerificationError (asc ''expired''))"
      using dec by (simp add: verify_envelope_def)
    then show ?thesis using path(1) expires False by simp
  qed
qed


section \<open>A signature is for one path and one expiry\<close>

lemma first_separator: "c \<notin> set a \<Longrightarrow> c \<notin> set b \<Longrightarrow> a @ c # x = b @ c # y \<Longrightarrow> a = b \<and> x = y"
proof (induction a arbitrary: b)
  case Nil
  then show ?case by (cases b) auto
next
  case (Cons h a)
  then show ?case by (cases b) auto
qed

lemma last_separator:
  assumes "c \<notin> set a" and "c \<notin> set b" and "x @ c # a = y @ c # b"
  shows "x = y \<and> a = b"
proof -
  have "rev a @ c # rev x = rev b @ c # rev y" using arg_cong [OF assms(3), of rev] by simp
  moreover have "c \<notin> set (rev a)" "c \<notin> set (rev b)" using assms(1,2) by simp_all
  ultimately have "rev a = rev b \<and> rev x = rev y" by (intro first_separator)
  then show ?thesis by simp
qed

lemma digits_newline: "ascii_digits s \<Longrightarrow> 10 \<notin> set s"
  by (fastforce simp: ascii_digits_def list_all_iff)

lemma str_int_newline: "10 \<notin> set (py_str_int i)"
  using digits_newline show_pos_digits [of i] show_pos_digits [of "- i"] by (auto simp: py_str_int_def)

definition one_line :: "(pystr \<times> pystr) list \<Rightarrow> bool" where
  "one_line query \<longleftrightarrow> list_all (\<lambda>(k, v). 10 \<notin> set k \<and> 10 \<notin> set v) query"

lemma join_one_line: "c \<notin> set sep \<Longrightarrow> \<forall>x \<in> set xs. c \<notin> set x \<Longrightarrow> c \<notin> set (join sep xs)"
  by (induction sep xs rule: join.induct) auto

lemma join_empty: "join sep xs = [] \<Longrightarrow> [] \<notin> set xs \<Longrightarrow> xs = []"
  by (cases "(sep, xs)" rule: join.cases) auto

lemma canonical_unique:
  assumes "canonical_text U method p query x = canonical_text U method p' [] x'" and "one_line query"
  shows "query = [] \<and> p = p' \<and> x = x'"
proof -
  let ?q = "join [38] (map (\<lambda>(k, v). k @ 61 # v) (sort query))"
  have "(u_upper U method @ 10 # p @ 10 # ?q) @ 10 # py_str_int x = (u_upper U method @ 10 # p' @ [10]) @ 10 # py_str_int x'"
    using assms(1) by (simp add: canonical_text_def)
  from last_separator [OF str_int_newline str_int_newline this]
  have eq: "(u_upper U method @ 10 # p) @ 10 # ?q = (u_upper U method @ 10 # p') @ 10 # []" "x = x'"
    by (auto dest: py_str_int_inj)
  have "10 \<notin> set ?q" using assms(2) by (intro join_one_line) (auto simp: one_line_def list_all_iff)
  from last_separator [OF this _ eq(1)] have "?q = []" "u_upper U method @ 10 # p = u_upper U method @ 10 # p'" by simp_all
  moreover have "[] \<notin> set (map (\<lambda>(k, v). k @ 61 # v) (sort query))" by auto
  ultimately have "sort query = []" "p = p'" by (auto dest: join_empty)
  moreover from \<open>sort query = []\<close> have "query = []" by (metis mset_sort mset_zero_iff)
  ultimately show ?thesis using eq(2) by simp
qed

text \<open>What two equal texts say when methods and queries are arbitrary.\<close>

lemma canonical_any:
  assumes "canonical_text U method p query x = canonical_text U method' p' [] x'"
  shows "x = x'"
    and "u_upper U method = u_upper U method' \<Longrightarrow> p' = p \<or> (\<exists>q. p' = p @ 10 # q)"
    and "10 \<notin> set (u_upper U method) \<Longrightarrow> 10 \<notin> set (u_upper U method') \<Longrightarrow> one_line query \<Longrightarrow>
      u_upper U method = u_upper U method' \<and> query = [] \<and> p' = p"
proof -
  let ?q = "join [38] (map (\<lambda>(k, v). k @ 61 # v) (sort query))"
  have "(u_upper U method @ 10 # p @ 10 # ?q) @ 10 # py_str_int x = (u_upper U method' @ 10 # p' @ [10]) @ 10 # py_str_int x'"
    using assms by (simp add: canonical_text_def)
  from last_separator [OF str_int_newline str_int_newline this]
  have eq: "u_upper U method @ 10 # p @ 10 # ?q = u_upper U method' @ 10 # p' @ [10]" and x: "x = x'"
    by (auto dest: py_str_int_inj)
  show "x = x'" by (rule x)
  show "p' = p \<or> (\<exists>q. p' = p @ 10 # q)" if "u_upper U method = u_upper U method'"
    using eq that by (cases ?q rule: rev_cases) auto
  show "u_upper U method = u_upper U method' \<and> query = [] \<and> p' = p"
    if "10 \<notin> set (u_upper U method)" "10 \<notin> set (u_upper U method')" "one_line query"
  proof -
    from first_separator [OF that(1,2) eq] have m: "u_upper U method = u_upper U method'" by blast
    have "canonical_text U method p query x = canonical_text U method p' [] x'" using assms m by (simp add: canonical_text_def)
    from canonical_unique [OF this that(3)] m show ?thesis by blast
  qed
qed

lemma encoded_inj: "encoded a = Inr m \<Longrightarrow> encoded b = Inr m \<Longrightarrow> a = b"
  using utf8_roundtrip [of a m] utf8_roundtrip [of b m] by (auto simp: encoded_def split: option.splits)

text \<open>Under a secret no two of the given messages have the same code.\<close>

definition mac_separates :: "signer_lib \<Rightarrow> pystr \<Rightarrow> pystr set \<Rightarrow> bool" where
  "mac_separates L secret texts \<longleftrightarrow>
     (\<forall>key. utf8_encode secret = Some key \<longrightarrow> inj_on (sl_hmac L key) {m. \<exists>x \<in> texts. utf8_encode x = Some m})"

lemma sign_text_unique:
  assumes "mac_separates L secret {a, b}" and "encoded a = Inr m" and "encoded b = Inr n"
    and "sign_text L secret m = Inr s" and "sign_text L secret n = Inr s"
  shows "a = b"
proof -
  obtain key where key: "utf8_encode secret = Some key" "b64_text (sl_hmac L key m) = b64_text (sl_hmac L key n)"
    using assms(4,5) by (auto simp: sign_text_def encoded_def rstrip_encode simp del: rstrip_char.simps split: option.splits)
  have "utf8_encode a = Some m" "utf8_encode b = Some n" using assms(2,3) by (auto simp: encoded_def split: option.splits)
  moreover from this have "m = n"
    using assms(1) b64_text_inj [OF key(2)] key(1) by (auto simp: mac_separates_def dest: inj_onD)
  ultimately show ?thesis using assms(2,3) encoded_inj by blast
qed

text \<open>An accepted link and the issued link with the same signature were signed for the same text.\<close>

lemma link_text:
  assumes ok: "ring_ok (sl_ucd L) kr" and verified: "verify_envelope L kr now e = Inr path"
    and issued: "issue L d kr0 t p0 method query ttl = Inr e0" and sig: "env_sig e0 = env_sig e"
    and key: "active_key kr0 = Inr k0" "map_of kr (env_kid e) = Some k" "sk_secret k = sk_secret k0"
    and mac: "mac_separates L (sk_secret k0) {canonical_text (sl_ucd L) method (env_path e0) query (env_exp e0),
      canonical_text (sl_ucd L) (asc ''GET'') path [] (env_exp e)}"
  shows "canonical_text (sl_ucd L) method (env_path e0) query (env_exp e0) = canonical_text (sl_ucd L) (asc ''GET'') path [] (env_exp e)"
    and "now < env_exp e" and "clean_path path"
proof -
  from verified [unfolded verify_ok_iff [OF ok]] key(2,3) obtain m where m: "decode_path (env_signed e) = Inr path" "now < env_exp e"
    "encoded (canonical_text (sl_ucd L) (asc ''GET'') path [] (env_exp e)) = Inr m" "sign_text L (sk_secret k0) m = Inr (env_sig e)"
    by auto
  from issued [unfolded issue_Inr] key(1) sig obtain m0 where
    m0: "encoded (canonical_text (sl_ucd L) method (env_path e0) query (env_exp e0)) = Inr m0" "sign_text L (sk_secret k0) m0 = Inr (env_sig e)"
    by auto
  show "canonical_text (sl_ucd L) method (env_path e0) query (env_exp e0) = canonical_text (sl_ucd L) (asc ''GET'') path [] (env_exp e)"
    by (rule sign_text_unique [OF mac m0(1) m(3) m0(2) m(4)])
  show "now < env_exp e" by (rule m(2))
  show "clean_path path" using m(1) normalize_path_clean(1) by (auto simp: decode_path_def split: option.splits)
qed

text \<open>
  C20 link_is_bound: a link that is accepted with a signature that \<^verbatim>\<open>issue\<close> made under the same secret, for any method and any
  query, has the expiry that signature was made for and has not expired, and its path has no double slash, no backslash and
  no step to a parent in front of another part, as long as HMAC separates the two texts that were signed. If neither the
  method nor GET (in the capitals of the case mapping) nor a name or value of the query has a line feed, the signature was made for GET, an empty query and
  exactly that path. Line feeds make the signed text ambiguous: then a signature made for GET is still only accepted for its own path or
  for one that continues it with a line feed.
\<close>

theorem link_is_bound:
  assumes "ring_ok (sl_ucd L) kr" and "verify_envelope L kr now e = Inr path"
    and "issue L d kr0 t p0 method query ttl = Inr e0" and "env_sig e0 = env_sig e"
    and "active_key kr0 = Inr k0" and "map_of kr (env_kid e) = Some k" and "sk_secret k = sk_secret k0"
    and "mac_separates L (sk_secret k0) {canonical_text (sl_ucd L) method (env_path e0) query (env_exp e0),
      canonical_text (sl_ucd L) (asc ''GET'') path [] (env_exp e)}"
  shows "env_exp e0 = env_exp e \<and> now < env_exp e \<and> clean_path path \<and>
    (10 \<notin> set (u_upper (sl_ucd L) method) \<and> 10 \<notin> set (u_upper (sl_ucd L) (asc ''GET'')) \<and> one_line query \<longrightarrow>
       u_upper (sl_ucd L) method = u_upper (sl_ucd L) (asc ''GET'') \<and> query = [] \<and> path = env_path e0) \<and>
    (u_upper (sl_ucd L) method = u_upper (sl_ucd L) (asc ''GET'') \<longrightarrow>
       path = env_path e0 \<or> (\<exists>q. path = env_path e0 @ 10 # q))"
  using link_text [OF assms] canonical_any [OF link_text(1) [OF assms]] by blast

text \<open>So a link with a query, which \<^verbatim>\<open>issue\<close> signs, is never accepted: the check signs the path without it.\<close>

lemma query_links_refused:
  assumes "ring_ok (sl_ucd L) kr" and "issue L d kr t p (asc ''GET'') query ttl = Inr e" and "query \<noteq> []" and "one_line query"
    and mac: "\<And>(k :: SigningKey) path. mac_separates L (sk_secret k) {canonical_text (sl_ucd L) (asc ''GET'') (env_path e) query (env_exp e),
      canonical_text (sl_ucd L) (asc ''GET'') path [] (env_exp e)}"
  shows "isl (verify_envelope L kr now e)"
proof (rule ccontr)
  assume "\<not> isl (verify_envelope L kr now e)"
  then obtain path where v: "verify_envelope L kr now e = Inr path" by (cases "verify_envelope L kr now e") auto
  from assms(2) [unfolded issue_Inr] obtain k where k: "active_key kr = Inr k" "env_kid e = sk_kid k" by auto
  have "map_of kr (env_kid e) = Some k" using active_key_ring(1) [OF assms(1) k(1)] k(2) by simp
  from canonical_unique [OF link_text(1) [OF assms(1) v assms(2) refl k(1) this refl mac [of k path]] assms(4)]
  show False using assms(3) by simp
qed


section \<open>Witnesses, and what the checks let through\<close>

definition sample_signer :: signer_lib where
  "sample_signer = \<lparr>sl_ucd = ascii_ucd, sl_hmac = (\<lambda>key m. key @ m)\<rparr>"

definition sample_secret :: "int \<Rightarrow> pystr" where
  "sample_secret c = replicate 32 c"

definition sample_ring :: keyring where
  "sample_ring = [(asc ''k1'', \<lparr>sk_kid = asc ''k1'', sk_secret = sample_secret 97, sk_state = asc ''active''\<rparr>)]"

definition sample_link :: SignatureEnvelope where
  "sample_link = projr (issue sample_signer 300 sample_ring 1000 (asc ''out//r.csv'') (asc ''GET'') [] None)"

lemma ascii_nfkc_closed: "nfkc_closed ascii_ucd"
  by (simp add: nfkc_closed_def ascii_ucd_def)

lemma sample_ring_ok: "ring_ok ascii_ucd sample_ring"
  by code_simp

lemma sample_issued: "issue sample_signer 300 sample_ring 1000 (asc ''out//r.csv'') (asc ''GET'') [] None = Inr sample_link"
  by code_simp

text \<open>The key is replaced twice, and the link stays.\<close>

theorem link_lives_witness:
  "verify_envelope sample_signer
     (rotate_all ascii_ucd [(asc ''k2'', sample_secret 98), (asc ''k3'', sample_secret 99)] sample_ring) 1299 sample_link =
     Inr (asc ''out/r.csv'')"
proof -
  have kid: "env_kid sample_link = asc ''k1''" "env_exp sample_link = 1300" "env_path sample_link = asc ''out/r.csv''" by code_simp+
  have U: "sl_ucd sample_signer = ascii_ucd" by (simp add: sample_signer_def)
  have "\<forall>(kid, secret) \<in> set [(asc ''k2'', sample_secret 98), (asc ''k3'', sample_secret 99)].
      normalize_kid (sl_ucd sample_signer) kid \<noteq> Inr (env_kid sample_link)"
    unfolding kid U by code_simp
  from link_lives [OF _ _ sample_issued this, of 1299] show ?thesis
    unfolding U kid using ascii_nfkc_closed sample_ring_ok by simp
qed

theorem link_is_bound_witness:
  "verify_envelope sample_signer sample_ring 1100 sample_link = Inr (asc ''out/r.csv'') \<and> 1100 < env_exp sample_link \<and>
   clean_path (asc ''out/r.csv'') \<and> env_path sample_link = asc ''out/r.csv''"
proof -
  have v: "verify_envelope sample_signer sample_ring 1100 sample_link = Inr (asc ''out/r.csv'')" by code_simp
  have U: "sl_ucd sample_signer = ascii_ucd" by (simp add: sample_signer_def)
  let ?k = "\<lparr>sk_kid = asc ''k1'', sk_secret = sample_secret 97, sk_state = asc ''active''\<rparr>"
  have k: "active_key sample_ring = Inr ?k" by code_simp
  have m: "map_of sample_ring (env_kid sample_link) = Some ?k" by code_simp
  have ok: "ring_ok (sl_ucd sample_signer) sample_ring" using sample_ring_ok by (simp add: U)
  have separate: "mac_separates sample_signer (sk_secret ?k) ts" for ts
    by (simp add: mac_separates_def sample_signer_def inj_on_def)
  have lines: "10 \<notin> set (u_upper (sl_ucd sample_signer) (asc ''GET''))" "one_line []" unfolding U by code_simp+
  note bound = link_is_bound [OF ok v sample_issued refl k m refl separate]
  then have "asc ''out/r.csv'' = env_path sample_link" using lines by blast
  then have p: "env_path sample_link = asc ''out/r.csv''" by (rule sym)
  show ?thesis
    by (rule conjI [OF v conjI [OF conjunct1 [OF conjunct2 [OF bound]]
          conjI [OF conjunct1 [OF conjunct2 [OF conjunct2 [OF bound]]] p]]])
qed

text \<open>
  A query value with a line feed: the signature of a link to \<^verbatim>\<open>r.csv\<close> is accepted for a path of two lines.
\<close>

lemma line_feed_moves_signature:
  "\<exists>e s. issue sample_signer 300 sample_ring 1000 (asc ''r.csv'') (asc ''GET'') [(asc ''a'', [98, 10])] None = Inr e \<and>
     encode_path (asc ''r.csv'' @ 10 # asc ''a=b'') = Inr s \<and>
     verify_envelope sample_signer sample_ring 1100 (e\<lparr>env_signed := s\<rparr>) = Inr (asc ''r.csv'' @ 10 # asc ''a=b'')"
proof -
  let ?i = "issue sample_signer 300 sample_ring 1000 (asc ''r.csv'') (asc ''GET'') [(asc ''a'', [98, 10])] None"
  let ?p = "asc ''r.csv'' @ 10 # asc ''a=b''"
  have "case (?i, encode_path ?p) of
      (Inr e, Inr s) \<Rightarrow> verify_envelope sample_signer sample_ring 1100 (e\<lparr>env_signed := s\<rparr>) = Inr ?p | _ \<Rightarrow> False"
    by code_simp
  then show ?thesis by (auto split: sum.splits)
qed

text \<open>Two definitions with the same name: the count of active keys is right, and the ring has none.\<close>

lemma duplicate_kids_leave_no_active:
  "\<exists>kr. KeyRing ascii_ucd [\<lparr>sk_kid = asc ''k1'', sk_secret = sample_secret 97, sk_state = asc ''active''\<rparr>,
     \<lparr>sk_kid = asc '' k1'', sk_secret = sample_secret 98, sk_state = asc ''retired''\<rparr>] = Inr kr \<and>
   active_key kr = Inl (KeyRotationError (asc ''active-missing''))"
  by (rule exI [of _ "[(asc ''k1'', \<lparr>sk_kid = asc ''k1'', sk_secret = sample_secret 98, sk_state = asc ''retired''\<rparr>)]"]) code_simp

text \<open>A last step to the parent is no traversal for \<^verbatim>\<open>_normalize_path\<close>.\<close>

lemma parent_at_the_end_passes:
  "normalize_path (asc ''..'') = Inr (asc ''..'')" "normalize_path (asc ''out/..'') = Inr (asc ''out/..'')"
  by code_simp+

text \<open>A signature with a letter outside ASCII is not refused but ends in a TypeError.\<close>

lemma foreign_signature_fails:
  "verify_envelope sample_signer sample_ring 1100 (sample_link\<lparr>env_sig := [1776]\<rparr>) = Inl Compare_Type_Error"
  by code_simp

end
