(* ===== verification/Audit_Access.thy ===== *)
theory Audit_Access
  imports Audit_Export Url_Signing
begin

text \<open>
  \<^verbatim>\<open>audit/security.py\<close> and \<^verbatim>\<open>audit/api.py\<close>: signed links to exports, principals from headers, the limit of requests, the check of
  duplicate requests, and the handlers of the routes as functions of the principal, the parameters and the state. HMAC in hexadecimal and
  the instants a day begins and ends are parameters. The parameters of a request are the validated ones; a model built by
  field names leaves a field with an alias unset, as pydantic does. Templates, streaming and headers of responses are left
  out.
\<close>

section \<open>Signed links\<close>

datatype access_exn =
    Signed_Url_Required | Role_Invalid | Rate_Limit | Duplicate_Request | Key_Required | Params_Invalid | Event_Not_Found | Metrics_Disabled | Metrics_Forbidden | Access_Encode_Error | Access_Type_Error
  | Export_Raised file_exn | Record_Raised audit_exn

record audit_signer =
  au_secret :: bytes
  au_default_ttl :: int
  au_hmac_hex :: "bytes \<Rightarrow> bytes \<Rightarrow> pystr"

definition token_payload :: "pystr \<Rightarrow> pystr \<Rightarrow> pystr \<Rightarrow> pystr \<Rightarrow> pystr" where
  "token_payload resource issued expires nonce = resource @ 124 # issued @ 124 # expires @ 124 # nonce"

definition audit_sign :: "audit_signer \<Rightarrow> pystr \<Rightarrow> int option \<Rightarrow> int \<Rightarrow> bytes \<Rightarrow> access_exn + pystr" where
  "audit_sign S resource expires_in now random12 =
     (let ttl = (case expires_in of None \<Rightarrow> au_default_ttl S | Some t \<Rightarrow> max 1 t);
          issued = py_str_int now; expires = py_str_int (now + ttl);
          nonce = rstrip_char 61 (urlsafe_b64encode random12)
      in case utf8_encode (token_payload resource issued expires nonce) of
           None \<Rightarrow> Inl Access_Encode_Error
         | Some payload \<Rightarrow>
             (case utf8_encode (issued @ 58 # expires @ 58 # nonce @ 58 # au_hmac_hex S (au_secret S) payload) of
                None \<Rightarrow> Inl Access_Encode_Error
              | Some bs \<Rightarrow> Inr (rstrip_char 61 (urlsafe_b64encode bs))))"

text \<open>The four parts of a token; \<open>None\<close> where it cannot be decoded.\<close>

definition token_parts :: "pystr \<Rightarrow> (pystr \<times> pystr \<times> pystr \<times> pystr) option" where
  "token_parts token =
     (case Option.bind (urlsafe_b64decode (token @ padding_for token)) utf8_decode of
        None \<Rightarrow> None
      | Some decoded \<Rightarrow> (case split_char 58 decoded of [i, e, n, d] \<Rightarrow> Some (i, e, n, d) | _ \<Rightarrow> None))"

definition audit_verify :: "audit_signer \<Rightarrow> pystr \<Rightarrow> pystr \<Rightarrow> int \<Rightarrow> access_exn + bool" where
  "audit_verify S resource token now =
     (if token = [] then Inr False
      else case token_parts token of
        None \<Rightarrow> Inr False
      | Some (issued_raw, expires_raw, nonce, digest) \<Rightarrow>
          (case (py_int issued_raw, py_int expires_raw) of
             (Some issued_at, Some expires_at) \<Rightarrow>
               if now < issued_at \<or> expires_at < now then Inr False
               else (case utf8_encode (token_payload resource issued_raw expires_raw nonce) of
                  None \<Rightarrow> Inl Access_Encode_Error
                | Some payload \<Rightarrow>
                    if \<not> is_ascii digest then Inl Access_Type_Error
                    else Inr (au_hmac_hex S (au_secret S) payload = digest))
           | _ \<Rightarrow> Inr False))"

text \<open>Hexadecimal digits in lower case.\<close>

definition hex_codes :: "audit_signer \<Rightarrow> bool" where
  "hex_codes S \<longleftrightarrow> (\<forall>k m. list_all (\<lambda>c. 48 \<le> c \<and> c \<le> 57 \<or> 97 \<le> c \<and> c \<le> 102) (au_hmac_hex S k m))"

lemma hex_codes_text: "hex_codes S \<Longrightarrow> is_ascii (au_hmac_hex S k m) \<and> 58 \<notin> set (au_hmac_hex S k m)"
  by (force simp: hex_codes_def is_ascii_def list_all_iff)

lemma digits_text: "ascii_digits s \<Longrightarrow> is_ascii s \<and> 58 \<notin> set s \<and> 124 \<notin> set s"
  by (fastforce simp: ascii_digits_def is_ascii_def list_all_iff)

lemma str_int_text: "is_ascii (py_str_int i) \<and> 58 \<notin> set (py_str_int i) \<and> 124 \<notin> set (py_str_int i)"
proof (cases "i < 0")
  case True
  then show ?thesis using digits_text show_pos_digits [of "- i"] by (simp add: py_str_int_def is_ascii_def)
next
  case False
  then show ?thesis using digits_text show_pos_digits [of i] by (simp add: py_str_int_def)
qed

lemma b64_text_separators: "58 \<notin> set (b64_text bs) \<and> 124 \<notin> set (b64_text bs)"
  by (auto dest: b64_text_chars)

text \<open>The token of any four texts without a colon decodes to them.\<close>

lemma token_decodes:
  assumes "58 \<notin> set i" and "58 \<notin> set e" and "58 \<notin> set n" and "58 \<notin> set d" and "utf8_encode (i @ 58 # e @ 58 # n @ 58 # d) = Some bs"
  shows "token_parts (rstrip_char 61 (urlsafe_b64encode bs)) = Some (i, e, n, d)" and "rstrip_char 61 (urlsafe_b64encode bs) \<noteq> []"
proof -
  have dec: "Option.bind (urlsafe_b64decode (b64_text bs @ padding_for (b64_text bs))) utf8_decode = Some (i @ 58 # e @ 58 # n @ 58 # d)"
    using utf8_roundtrip [OF assms(5)] by (simp add: b64_decode_encode)
  have "split_char 58 (i @ 58 # e @ 58 # n @ 58 # d) = [i, e, n, d]"
    using assms(1-4) by (simp add: split_char_append split_char_id)
  then show "token_parts (rstrip_char 61 (urlsafe_b64encode bs)) = Some (i, e, n, d)"
    by (simp add: token_parts_def rstrip_encode dec del: rstrip_char.simps)
  have "b64_text bs \<noteq> []"
  proof
    assume "b64_text bs = []"
    then have "bs = []" using b64_text_inj [of bs "[]"] by (simp add: b64_text_def)
    then show False using utf8_roundtrip [OF assms(5)] by (simp add: utf8_decode_def)
  qed
  then show "rstrip_char 61 (urlsafe_b64encode bs) \<noteq> []" by (simp add: rstrip_encode del: rstrip_char.simps)
qed

lemma audit_sign_Inr:
  assumes "hex_codes S" and "audit_sign S resource expires_in now random12 = Inr token"
  shows "\<exists>payload. let ttl = (case expires_in of None \<Rightarrow> au_default_ttl S | Some t \<Rightarrow> max 1 t);
        nonce = b64_text random12 in
      utf8_encode (token_payload resource (py_str_int now) (py_str_int (now + ttl)) nonce) = Some payload \<and>
      token_parts token = Some (py_str_int now, py_str_int (now + ttl), nonce, au_hmac_hex S (au_secret S) payload) \<and> token \<noteq> []"
proof -
  let ?ttl = "case expires_in of None \<Rightarrow> au_default_ttl S | Some t \<Rightarrow> max 1 t"
  obtain payload bs where p: "utf8_encode (token_payload resource (py_str_int now) (py_str_int (now + ?ttl)) (b64_text random12)) = Some payload"
    and bs: "utf8_encode (py_str_int now @ 58 # py_str_int (now + ?ttl) @ 58 # b64_text random12 @ 58 # au_hmac_hex S (au_secret S) payload) = Some bs"
    and token: "token = rstrip_char 61 (urlsafe_b64encode bs)"
    using assms(2) by (auto simp: audit_sign_def Let_def rstrip_encode simp del: rstrip_char.simps split: option.splits)
  have "58 \<notin> set (au_hmac_hex S (au_secret S) payload)" using hex_codes_text [OF assms(1)] by blast
  note dec = token_decodes [OF _ _ _ this bs]
  show ?thesis using p dec str_int_text b64_text_separators unfolding token Let_def by blast
qed

text \<open>
  A token signed for a resource is accepted for that resource from the second it was issued to the
  second it expires, and at no other time.
\<close>

theorem audit_link_exact:
  assumes "hex_codes S" and "audit_sign S resource expires_in now random12 = Inr token"
  shows "audit_verify S resource token later =
    Inr (now \<le> later \<and> later \<le> now + (case expires_in of None \<Rightarrow> au_default_ttl S | Some t \<Rightarrow> max 1 t))"
proof -
  let ?ttl = "case expires_in of None \<Rightarrow> au_default_ttl S | Some t \<Rightarrow> max 1 t"
  from audit_sign_Inr [OF assms] obtain payload where
    p: "utf8_encode (token_payload resource (py_str_int now) (py_str_int (now + ?ttl)) (b64_text random12)) = Some payload"
    "token_parts token = Some (py_str_int now, py_str_int (now + ?ttl), b64_text random12, au_hmac_hex S (au_secret S) payload)"
    "token \<noteq> []" by (auto simp: Let_def)
  show ?thesis using hex_codes_text [OF assms(1)] unfolding audit_verify_def p(2) by (simp add: p(1,3) py_int_str_int)
qed

section \<open>What a token is bound to\<close>

lemma digits_val_bar: "124 \<in> set cs \<Longrightarrow> digits_val prev acc cs = None"
proof (induction cs arbitrary: prev acc)
  case (Cons c cs)
  have "py_decimal 124 = None" by (simp add: py_decimal_def nd_zeros_def)
  then show ?case using Cons by (auto split: option.splits)
qed simp

lemma dropWhile_keeps: "x \<in> set s \<Longrightarrow> \<not> p x \<Longrightarrow> x \<in> set (dropWhile p s)"
  by (induction s) auto

lemma py_int_bar:
  assumes "py_int s = Some i"
  shows "124 \<notin> set s"
proof
  assume a: "124 \<in> set s"
  have "\<not> int_space 124" by (simp add: int_space_def py_isspace_def)
  then have b: "124 \<in> set (strip_by int_space s)" using a by (simp add: strip_by_def dropWhile_keeps)
  then show False using assms by (auto simp: py_int_def digits_val_bar simp del: digits_val.simps split: list.splits if_splits)
qed

lemma payload_unique:
  assumes "token_payload r i e n = token_payload r' i' e' n'" and "124 \<notin> set r" and "124 \<notin> set r'"
    and "124 \<notin> set i" and "124 \<notin> set i'" and "124 \<notin> set e" and "124 \<notin> set e'"
  shows "r = r' \<and> i = i' \<and> e = e' \<and> n = n'"
proof -
  note a = assms(1) [unfolded token_payload_def]
  have 1: "r = r' \<and> i @ 124 # e @ 124 # n = i' @ 124 # e' @ 124 # n'" by (rule first_separator [OF assms(2,3) a])
  then have 2: "i = i' \<and> e @ 124 # n = e' @ 124 # n'" by (intro first_separator [OF assms(4,5)]) simp
  then have "e = e' \<and> n = n'" by (intro first_separator [OF assms(6,7)]) simp
  then show ?thesis using 1 2 by simp
qed

definition code_separates :: "audit_signer \<Rightarrow> pystr set \<Rightarrow> bool" where
  "code_separates S texts \<longleftrightarrow> inj_on (au_hmac_hex S (au_secret S)) {m. \<exists>x \<in> texts. utf8_encode x = Some m}"

lemma code_unique:
  assumes "code_separates S {a, b}" and "utf8_encode a = Some m" and "utf8_encode b = Some n"
    and "au_hmac_hex S (au_secret S) m = au_hmac_hex S (au_secret S) n"
  shows "a = b"
proof -
  have "m = n" using assms by (auto simp: code_separates_def dest: inj_onD)
  then show ?thesis using utf8_roundtrip [OF assms(2)] utf8_roundtrip [OF assms(3)] by simp
qed

text \<open>
  A token that is accepted with a code that was issued is accepted for the resource the code was
  issued for, within its time, and is made of the same parts, if no resource has a bar in it and HMAC separates the two
  texts. Without the first condition it is not (\<open>bar_in_scope_forges\<close>).
\<close>

theorem audit_link_is_bound:
  assumes "hex_codes S" and "audit_sign S resource0 expires_in now random12 = Inr token0" and "audit_verify S resource token later = Inr True"
    and "token_parts token0 = Some (i0, e0, n0, code)" and "token_parts token = Some (i, e, n, code)"
    and "124 \<notin> set resource0" and "124 \<notin> set resource"
    and "code_separates S {token_payload resource0 i0 e0 n0, token_payload resource i e n}"
  shows "resource = resource0 \<and> (i, e, n) = (i0, e0, n0) \<and> now \<le> later \<and>
    later \<le> now + (case expires_in of None \<Rightarrow> au_default_ttl S | Some t \<Rightarrow> max 1 t)"
proof -
  let ?ttl = "case expires_in of None \<Rightarrow> au_default_ttl S | Some t \<Rightarrow> max 1 t"
  from audit_sign_Inr [OF assms(1,2)] assms(4) obtain m0 where
    m0: "utf8_encode (token_payload resource0 i0 e0 n0) = Some m0" "i0 = py_str_int now" "e0 = py_str_int (now + ?ttl)"
      "code = au_hmac_hex S (au_secret S) m0" by (auto simp: Let_def)
  obtain x y m where m: "py_int i = Some x" "py_int e = Some y" "x \<le> later" "later \<le> y"
    "utf8_encode (token_payload resource i e n) = Some m" "au_hmac_hex S (au_secret S) m = code"
    using assms(3) unfolding audit_verify_def assms(5) by (auto split: if_splits option.splits)
  have "token_payload resource0 i0 e0 n0 = token_payload resource i e n"
    using code_unique [OF assms(8) m0(1) m(5)] m(6) m0(4) by simp
  moreover have "124 \<notin> set i0" "124 \<notin> set e0" using m0(2,3) str_int_text by simp_all
  ultimately have "resource = resource0 \<and> i = i0 \<and> e = e0 \<and> n = n0"
    using payload_unique [of resource0 i0 e0 n0 resource i e n] assms(6,7) py_int_bar [OF m(1)] py_int_bar [OF m(2)] by simp
  then show ?thesis using m0(2,3) m by (simp add: py_int_str_int)
qed

text \<open>
  The center of a principal is part of the resource and may hold bars: from a token for a center "c|1|9" whoever has the
  center "c" makes one with the times 1 and 9.
\<close>

lemma bar_in_scope_forges:
  assumes hex: "hex_codes S" and sign: "audit_sign S (resource @ 124 # py_str_int x @ 124 # py_str_int y) expires_in now random12 = Inr token"
  shows "\<exists>forged. \<forall>later. x \<le> later \<and> later \<le> y \<longrightarrow> audit_verify S resource forged later = Inr True"
proof -
  let ?ttl = "case expires_in of None \<Rightarrow> au_default_ttl S | Some t \<Rightarrow> max 1 t"
  let ?n = "py_str_int now @ 124 # py_str_int (now + ?ttl) @ 124 # b64_text random12"
  from audit_sign_Inr [OF hex sign] obtain m where
    "utf8_encode (token_payload (resource @ 124 # py_str_int x @ 124 # py_str_int y) (py_str_int now) (py_str_int (now + ?ttl))
      (b64_text random12)) = Some m" by (auto simp: Let_def)
  then have m: "utf8_encode (token_payload resource (py_str_int x) (py_str_int y) ?n) = Some m" by (simp add: token_payload_def)
  let ?d = "au_hmac_hex S (au_secret S) m"
  have n: "58 \<notin> set ?n" "is_ascii ?n"
    using str_int_text b64_text_separators b64_text_ascii by (simp_all add: is_ascii_def)
  have d: "58 \<notin> set ?d" "is_ascii ?d" using hex_codes_text [OF hex] by auto
  have "is_ascii (py_str_int x @ 58 # py_str_int y @ 58 # ?n @ 58 # ?d)"
    using str_int_text n(2) d(2) by (simp add: is_ascii_def)
  then obtain bs where bs: "utf8_encode (py_str_int x @ 58 # py_str_int y @ 58 # ?n @ 58 # ?d) = Some bs"
    using utf8_encode_ascii by blast
  note dec = token_decodes [OF conjunct1 [OF conjunct2 [OF str_int_text]] conjunct1 [OF conjunct2 [OF str_int_text]] n(1) d(1) bs]
  have "audit_verify S resource (rstrip_char 61 (urlsafe_b64encode bs)) later = Inr True" if "x \<le> later \<and> later \<le> y" for later
    unfolding audit_verify_def dec(1) using dec(2) that m d(2) by (simp add: py_int_str_int del: rstrip_char.simps)
  then show ?thesis by blast
qed


definition sample_au :: audit_signer where
  "sample_au = \<lparr>au_secret = [], au_default_ttl = 300, au_hmac_hex = (\<lambda>k m. [48 + int (length m) mod 8])\<rparr>"

definition sample_resource :: pystr where
  "sample_resource = asc ''/audit/export:ADMIN:*''"

definition sample_token :: pystr where
  "sample_token = projr (audit_sign sample_au sample_resource (Some 60) 1000 (replicate 12 7))"

lemma sample_au_hex: "hex_codes sample_au"
  by (auto simp: hex_codes_def sample_au_def)

lemma sample_signed: "audit_sign sample_au sample_resource (Some 60) 1000 (replicate 12 7) = Inr sample_token"
  by code_simp

theorem audit_link_exact_witness:
  "audit_verify sample_au sample_resource sample_token 1060 = Inr True \<and> audit_verify sample_au sample_resource sample_token 1061 = Inr False"
  using audit_link_exact [OF sample_au_hex sample_signed] by simp

theorem audit_link_is_bound_witness:
  "\<exists>i e n code. token_parts sample_token = Some (i, e, n, code) \<and> audit_verify sample_au sample_resource sample_token 1030 = Inr True \<and>
     (1030 :: int) \<le> 1000 + 60"
proof -
  have v: "audit_verify sample_au sample_resource sample_token 1030 = Inr True" by code_simp
  obtain i e n code where p: "token_parts sample_token = Some (i, e, n, code)"
    using audit_sign_Inr [OF sample_au_hex sample_signed] by (auto simp: Let_def)
  have "code_separates sample_au {token_payload sample_resource i e n, token_payload sample_resource i e n}"
    by (auto simp: code_separates_def inj_on_def)
  moreover have "124 \<notin> set sample_resource" by (simp add: sample_resource_def asc_def)
  ultimately show ?thesis using audit_link_is_bound [OF sample_au_hex sample_signed v p p] p v by simp
qed

section \<open>Principals\<close>

record Principal =
  pr_role :: AuditActorRole
  pr_center_scope :: "pystr option"

definition fa_to_en :: "int \<Rightarrow> int" where
  "fa_to_en c = (if 1776 \<le> c \<and> c \<le> 1785 then c - 1728 else c)"

definition clean_center :: "pystr \<Rightarrow> pystr" where
  "clean_center s = py_strip (remove_chars [8207] (remove_chars [8204] (map fa_to_en s)))"

definition normalize_center :: "pystr option \<Rightarrow> pystr option" where
  "normalize_center center =
     (case center of
        None \<Rightarrow> None
      | Some s \<Rightarrow>
          if s \<in> {[], asc ''0'', [1776, 1776], [8204], [8207]} then None
          else let cleaned = clean_center s in if cleaned = [] \<or> cleaned = asc ''0'' then None else Some (take 64 cleaned))"

definition audit_role :: "pystr \<Rightarrow> AuditActorRole option" where
  "audit_role s = (if s = asc ''ADMIN'' then Some ADMIN else if s = asc ''MANAGER'' then Some MANAGER else None)"

definition or_else :: "pystr option \<Rightarrow> pystr \<Rightarrow> pystr" where
  "or_else v d = (case v of None \<Rightarrow> d | Some s \<Rightarrow> if s = [] then d else s)"

definition resolve_principal :: "ucd \<Rightarrow> pystr option \<Rightarrow> pystr option \<Rightarrow> access_exn + Principal" where
  "resolve_principal U role_header center_header =
     (case audit_role (u_upper U (py_strip (or_else role_header (asc ''ADMIN'')))) of
        None \<Rightarrow> Inl Role_Invalid
      | Some role \<Rightarrow> Inr \<lparr>pr_role = role, pr_center_scope = normalize_center center_header\<rparr>)"

definition resource_key :: "Principal \<Rightarrow> pystr" where
  "resource_key p =
     asc ''/audit/export:'' @ role_value (pr_role p) @ 58 # or_else (pr_center_scope p) (asc ''*'')"

definition auth_event :: "pystr \<Rightarrow> AuditOutcome \<Rightarrow> pystr \<Rightarrow> pystr option \<Rightarrow> pystr option \<Rightarrow> AuditActorRole option \<Rightarrow> audit_request" where
  "auth_event rid outcome path error_code center role =
     \<lparr>rq_actor_role = (case role of None \<Rightarrow> ADMIN | Some r \<Rightarrow> r), rq_center_scope = center,
      rq_action = (if outcome = Audit_OK then AUTHN_OK else AUTHN_FAIL), rq_resource_type = asc ''auth'', rq_resource_id = path,
      rq_request_id = rid, rq_outcome = outcome, rq_job_id = None, rq_error_code = error_code, rq_artifact_sha256 = None\<rparr>"

text \<open>The principal of a request, or the response, with the event in the log.\<close>

definition auth_dispatch ::
  "ucd \<Rightarrow> audit_config \<Rightarrow> int \<Rightarrow> (nat \<Rightarrow> insert_fault) \<Rightarrow> pystr option \<Rightarrow> pystr option \<Rightarrow> pystr \<Rightarrow> pystr \<Rightarrow> audit_table \<Rightarrow>
   (access_exn + Principal) \<times> audit_table" where
  "auth_dispatch U A now faults role_header center_header rid path t =
     (case resolve_principal U role_header center_header of
        Inl x \<Rightarrow>
          (case record_event A now faults (auth_event rid Audit_ERROR path (Some (asc ''AUTH_INVALID'')) (normalize_center center_header) None) t of
             (Inl y, t') \<Rightarrow> (Inl (Record_Raised y), t') | (Inr _, t') \<Rightarrow> (Inl x, t'))
      | Inr p \<Rightarrow>
          (case record_event A now faults (auth_event rid Audit_OK path None (pr_center_scope p) (Some (pr_role p))) t of
             (Inl y, t') \<Rightarrow> (Inl (Record_Raised y), t') | (Inr _, t') \<Rightarrow> (Inr p, t')))"

section \<open>Limits\<close>

record rate_config =
  rl_limit :: int
  rl_window_seconds :: int

type_synonym rate_state = "pystr \<rightharpoonup> int \<times> int"

definition scoped_key :: "pystr \<Rightarrow> int \<Rightarrow> pystr" where
  "scoped_key key w = key @ 58 # py_str_int w"

definition rate_allow :: "rate_config \<Rightarrow> pystr \<Rightarrow> int \<Rightarrow> rate_state \<Rightarrow> bool \<times> rate_state" where
  "rate_allow C key now st =
     (let current_window = now div max 1 (rl_window_seconds C);
          (count, window) = (case st (scoped_key key current_window) of None \<Rightarrow> (0, current_window) | Some x \<Rightarrow> x);
          count = count + 1;
          st = st(scoped_key key current_window \<mapsto> (count, window));
          st = (\<lambda>k. case st k of None \<Rightarrow> None | Some (c, win) \<Rightarrow> if win < current_window then None else Some (c, win))
      in (count \<le> max 1 (rl_limit C), st))"

definition rate_key :: "pystr option \<Rightarrow> pystr option \<Rightarrow> pystr" where
  "rate_key key_header role_header = or_else key_header (or_else role_header (asc ''global''))"

fun rate_run :: "rate_config \<Rightarrow> (pystr \<times> int) list \<Rightarrow> rate_state \<Rightarrow> bool list" where
  "rate_run C [] st = []"
| "rate_run C ((key, now) # calls) st = (let (allowed, st') = rate_allow C key now st in allowed # rate_run C calls st')"

type_synonym duplicate_state = "pystr \<rightharpoonup> int"

definition duplicate_check :: "int \<Rightarrow> pystr \<Rightarrow> pystr option \<Rightarrow> int \<Rightarrow> duplicate_state \<Rightarrow> (access_exn + unit) \<times> duplicate_state" where
  "duplicate_check ttl method key now st =
     (if method \<in> {asc ''GET'', asc ''HEAD'', asc ''OPTIONS''} then (Inr (), st)
      else case key of
        None \<Rightarrow> (Inl Key_Required, st)
      | Some k \<Rightarrow>
          if k = [] then (Inl Key_Required, st)
          else let st = (\<lambda>k. case st k of None \<Rightarrow> None | Some expiry \<Rightarrow> if expiry \<le> now then None else Some expiry)
               in if (case st k of None \<Rightarrow> False | Some existing \<Rightarrow> existing \<noteq> 0 \<and> now < existing) then (Inl Duplicate_Request, st)
                  else (Inr (), st(k \<mapsto> now + max 1 ttl)))"


text \<open>
  A request passes the limit, the check of duplicates and the authentication in this order: the middleware that is
  added last is the first to run.
\<close>

record audit_headers =
  hd_correlation_id :: "pystr option"
  hd_request_id :: "pystr option"
  hd_rate_key :: "pystr option"
  hd_role :: "pystr option"
  hd_center :: "pystr option"
  hd_idempotency_key :: "pystr option"

record audit_app =
  ap_rate :: rate_state
  ap_keys :: duplicate_state
  ap_table :: audit_table

record audit_app_config =
  apc_rate :: rate_config
  apc_key_ttl :: int
  apc_audit :: audit_config

definition request_rid :: "pystr \<Rightarrow> audit_headers \<Rightarrow> pystr" where
  "request_rid fresh h = or_else (hd_correlation_id h) (or_else (hd_request_id h) fresh)"

definition admit ::
  "ucd \<Rightarrow> audit_app_config \<Rightarrow> int \<Rightarrow> (nat \<Rightarrow> insert_fault) \<Rightarrow> pystr \<Rightarrow> pystr \<Rightarrow> pystr \<Rightarrow> audit_headers \<Rightarrow> audit_app \<Rightarrow>
   (access_exn + Principal) \<times> audit_app" where
  "admit U C now faults fresh method path h ap =
     (let (allowed, rate) = rate_allow (apc_rate C) (rate_key (hd_rate_key h) (hd_role h)) now (ap_rate ap);
          ap = ap\<lparr>ap_rate := rate\<rparr>
      in if \<not> allowed then (Inl Rate_Limit, ap)
         else case duplicate_check (apc_key_ttl C) method (hd_idempotency_key h) now (ap_keys ap) of
           (Inl x, keys) \<Rightarrow> (Inl x, ap\<lparr>ap_keys := keys\<rparr>)
         | (Inr _, keys) \<Rightarrow>
             (let (r, t) = auth_dispatch U (apc_audit C) now faults (hd_role h) (hd_center h) (request_rid fresh h) path (ap_table ap)
              in (r, ap\<lparr>ap_keys := keys, ap_table := t\<rparr>)))"


section \<open>The limit is exact\<close>

lemma scoped_key_unique: "scoped_key k w = scoped_key k' w' \<longleftrightarrow> k = k' \<and> w = w'"
proof
  assume "scoped_key k w = scoped_key k' w'"
  then have "k = k' \<and> py_str_int w = py_str_int w'"
    using last_separator [of 58 "py_str_int w" "py_str_int w'" k k'] str_int_text by (simp add: scoped_key_def)
  then show "k = k' \<and> w = w'" by (auto dest: py_str_int_inj)
qed simp

text \<open>The calls with a key in a window.\<close>

definition calls_in :: "rate_config \<Rightarrow> pystr \<Rightarrow> int \<Rightarrow> (pystr \<times> int) list \<Rightarrow> nat" where
  "calls_in C key w calls = length (filter (\<lambda>(k, n). k = key \<and> n div max 1 (rl_window_seconds C) = w) calls)"

definition counts :: "rate_config \<Rightarrow> (pystr \<times> int) list \<Rightarrow> int \<Rightarrow> rate_state \<Rightarrow> bool" where
  "counts C past cur st \<longleftrightarrow>
     (\<forall>key w. cur \<le> w \<longrightarrow> st (scoped_key key w) = (if calls_in C key w past = 0 then None else Some (int (calls_in C key w past), w)))"

lemma calls_in_snoc:
  "calls_in C key w (past @ [(k, n)]) = calls_in C key w past + (if k = key \<and> n div max 1 (rl_window_seconds C) = w then 1 else 0)"
  by (simp add: calls_in_def)

lemma rate_step:
  assumes "counts C past cur st" and "cur \<le> now div max 1 (rl_window_seconds C)" and "rate_allow C key now st = (allowed, st')"
  shows "allowed = (int (calls_in C key (now div max 1 (rl_window_seconds C)) past) < max 1 (rl_limit C))"
    and "counts C (past @ [(key, now)]) (now div max 1 (rl_window_seconds C)) st'"
proof -
  let ?w = "now div max 1 (rl_window_seconds C)" and ?n = "calls_in C key (now div max 1 (rl_window_seconds C)) past"
  have now: "st (scoped_key key ?w) = (if ?n = 0 then None else Some (int ?n, ?w))" using assms(1,2) by (simp add: counts_def)
  have st': "st' = (\<lambda>k. case (st(scoped_key key ?w \<mapsto> (int ?n + 1, ?w))) k of None \<Rightarrow> None | Some (c, win) \<Rightarrow> if win < ?w then None else Some (c, win))"
    using assms(3) now by (auto simp: rate_allow_def Let_def split: if_splits)
  show "allowed = (int ?n < max 1 (rl_limit C))"
    using assms(3) now by (auto simp: rate_allow_def Let_def split: if_splits)
  show "counts C (past @ [(key, now)]) ?w st'"
    unfolding counts_def
  proof (intro allI impI)
    fix key' w assume w: "?w \<le> w"
    have old: "st (scoped_key key' w) = (if calls_in C key' w past = 0 then None else Some (int (calls_in C key' w past), w))"
      using assms(1,2) w by (simp add: counts_def)
    show "st' (scoped_key key' w) = (if calls_in C key' w (past @ [(key, now)]) = 0 then None
        else Some (int (calls_in C key' w (past @ [(key, now)])), w))"
    proof (cases "key' = key \<and> w = ?w")
      case True
      then show ?thesis by (simp add: st' calls_in_snoc)
    next
      case False
      then have "(st(scoped_key key ?w \<mapsto> (int ?n + 1, ?w))) (scoped_key key' w) = st (scoped_key key' w)"
        by (auto simp: scoped_key_unique)
      moreover have "calls_in C key' w (past @ [(key, now)]) = calls_in C key' w past" using False by (auto simp: calls_in_snoc)
      ultimately show ?thesis using old w by (simp add: st')
    qed
  qed
qed

lemma rate_run_exact:
  assumes "counts C past cur st" and "\<forall>c \<in> set calls. cur \<le> snd c div max 1 (rl_window_seconds C)"
    and "sorted (map snd calls)" and "i < length calls"
  shows "rate_run C calls st ! i =
    (int (calls_in C (fst (calls ! i)) (snd (calls ! i) div max 1 (rl_window_seconds C)) (past @ take i calls)) < max 1 (rl_limit C))"
  using assms
proof (induction calls arbitrary: past cur st i)
  case (Cons c calls)
  obtain key now where c: "c = (key, now)" by (cases c)
  obtain allowed st' where step: "rate_allow C key now st = (allowed, st')" by (cases "rate_allow C key now st")
  have cur: "cur \<le> now div max 1 (rl_window_seconds C)" using Cons.prems(2) c by simp
  note s = rate_step [OF Cons.prems(1) cur step]
  show ?case
  proof (cases i)
    case 0
    then show ?thesis using s(1) step c by simp
  next
    case (Suc j)
    have "\<forall>d \<in> set calls. now div max 1 (rl_window_seconds C) \<le> snd d div max 1 (rl_window_seconds C)"
      using Cons.prems(3) c by (auto intro: zdiv_mono1)
    moreover have "sorted (map snd calls)" "j < length calls" using Cons.prems(3,4) Suc by auto
    ultimately show ?thesis using Cons.IH [OF s(2)] step c Suc by simp
  qed
qed simp

text \<open>
  For requests in the order of time, a request is let through exactly if fewer than the limit of
  requests with its key came before it in its window of the clock, refused ones counted; so in no window are more let
  through.
\<close>

theorem rate_limit_exact:
  assumes "sorted (map snd calls)" and "i < length calls"
  shows "rate_run C calls Map.empty ! i =
    (int (length (filter (\<lambda>(k, n). k = fst (calls ! i) \<and>
        n div max 1 (rl_window_seconds C) = snd (calls ! i) div max 1 (rl_window_seconds C)) (take i calls))) < max 1 (rl_limit C))"
proof -
  let ?cur = "snd (hd calls) div max 1 (rl_window_seconds C)"
  have "counts C [] ?cur Map.empty" by (simp add: counts_def calls_in_def)
  moreover have "\<forall>c \<in> set calls. ?cur \<le> snd c div max 1 (rl_window_seconds C)"
  proof
    fix c assume "c \<in> set calls"
    then have "snd (hd calls) \<le> snd c" using assms(1) by (cases calls) auto
    then show "?cur \<le> snd c div max 1 (rl_window_seconds C)" by (rule zdiv_mono1) simp
  qed
  ultimately show ?thesis using rate_run_exact [OF _ _ assms] by (simp add: calls_in_def)
qed

theorem rate_limit_exact_witness:
  "rate_run \<lparr>rl_limit = 2, rl_window_seconds = 60\<rparr> [([97], 61), ([97], 62), ([98], 63), ([97], 119), ([97], 120)] Map.empty ! 3 = False \<and>
   rate_run \<lparr>rl_limit = 2, rl_window_seconds = 60\<rparr> [([97], 61), ([97], 62), ([98], 63), ([97], 119), ([97], 120)] Map.empty ! 4 = True"
proof -
  let ?C = "\<lparr>rl_limit = 2, rl_window_seconds = 60\<rparr>" and ?c = "[([97], 61), ([97], 62), ([98], 63), ([97], 119), ([97], 120)] :: (pystr \<times> int) list"
  have s: "sorted (map snd ?c)" by simp
  show ?thesis using rate_limit_exact [OF s, of 3 ?C] rate_limit_exact [OF s, of 4 ?C] by (simp add: numeral_eq_Suc)
qed

section \<open>Duplicate requests\<close>

text \<open>A key that was let through is refused until its time is over, also when the request failed.\<close>

lemma duplicate_check_blocks:
  assumes "duplicate_check ttl method (Some k) now st = (Inr (), st1)" and "method \<notin> {asc ''GET'', asc ''HEAD'', asc ''OPTIONS''}"
    and "now \<le> later" and "later < now + max 1 ttl" and "0 \<le> now"
  shows "fst (duplicate_check ttl method (Some k) later st1) = Inl Duplicate_Request"
proof -
  have k: "k \<noteq> []" "st1 k = Some (now + max 1 ttl)"
    using assms(1,2) by (auto simp: duplicate_check_def Let_def split: if_splits)
  then show ?thesis using assms(2,4,5) by (simp add: duplicate_check_def Let_def)
qed

lemma duplicate_check_frees:
  assumes "st k = Some expiry" and "expiry \<le> now" and "k \<noteq> []"
  shows "fst (duplicate_check ttl method (Some k) now st) = Inr ()"
  using assms by (simp add: duplicate_check_def Let_def)


section \<open>The handlers\<close>

record AuditListParams =
  lp_from :: "int option"
  lp_to :: "int option"
  lp_action :: "AuditAction option"
  lp_role :: "AuditActorRole option"
  lp_center :: "pystr option"
  lp_outcome :: "AuditOutcome option"
  lp_page :: nat
  lp_page_size :: nat

text \<open>Two layers of \<open>option\<close>: a value that is refused, and a center that is not set.\<close>

definition sanitize_center :: "pystr option \<Rightarrow> pystr option option" where
  "sanitize_center v =
     (case v of
        None \<Rightarrow> Some None
      | Some s \<Rightarrow>
          if s \<in> {[], asc ''0'', [8204], [8207]} then Some None
          else let cleaned = clean_center s
               in if cleaned = [] then Some None else if 64 < length cleaned then None else Some (Some cleaned))"

definition dates_valid :: "int option \<Rightarrow> int option \<Rightarrow> bool" where
  "dates_valid from_date to_date \<longleftrightarrow> (case (from_date, to_date) of (Some f, Some e) \<Rightarrow> f \<le> e | _ \<Rightarrow> True)"

definition list_params :: "AuditListParams \<Rightarrow> access_exn + AuditListParams" where
  "list_params p =
     (case sanitize_center (lp_center p) of
        None \<Rightarrow> Inl Params_Invalid
      | Some c \<Rightarrow>
          if 1 \<le> lp_page p \<and> lp_page p \<le> 200 \<and> 1 \<le> lp_page_size p \<and> lp_page_size p \<le> 500 \<and> dates_valid (lp_from p) (lp_to p)
          then Inr (p\<lparr>lp_center := c\<rparr>) else Inl Params_Invalid)"

record audit_days =
  ad_first :: "int \<Rightarrow> int"
  ad_last :: "int \<Rightarrow> int"

definition build_query :: "audit_days \<Rightarrow> AuditListParams \<Rightarrow> Principal \<Rightarrow> AuditQuery" where
  "build_query D p actor =
     \<lparr>aq_from_ts = map_option (ad_first D) (lp_from p), aq_to_ts = map_option (ad_last D) (lp_to p),
      aq_actor_role = Some (case lp_role p of Some r \<Rightarrow> r | None \<Rightarrow> pr_role actor), aq_action = lp_action p,
      aq_center_scope = (case lp_center p of Some c \<Rightarrow> if c = [] then pr_center_scope actor else Some c | None \<Rightarrow> pr_center_scope actor),
      aq_outcome = lp_outcome p, aq_limit = Some (lp_page_size p), aq_offset = (lp_page p - 1) * lp_page_size p\<rparr>"

definition opt_json :: "pystr option \<Rightarrow> json" where
  "opt_json v = (case v of None \<Rightarrow> JNull | Some s \<Rightarrow> JStr s)"

definition event_fields :: "audit_lib \<Rightarrow> bool \<Rightarrow> AuditEvent \<Rightarrow> json" where
  "event_fields L with_error event =
     (let e = ae_data event
      in JDict ([(asc ''id'', JInt (int (ae_id event))), (asc ''ts'', JStr (al_iso L (ev_ts e))),
            (asc ''actor_role'', JStr (role_value (ev_actor_role e))), (asc ''center_scope'', opt_json (ev_center_scope e)),
            (asc ''action'', JStr (action_value (ev_action e))), (asc ''resource_type'', JStr (ev_resource_type e)),
            (asc ''resource_id'', JStr (ev_resource_id e)), (asc ''request_id'', JStr (ev_request_id e)),
            (asc ''outcome'', JStr (outcome_value (ev_outcome e)))] @
           (if with_error then [(asc ''error_code'', opt_json (ev_error_code e))] else []) @
           [(asc ''artifact_sha256'', opt_json (ev_artifact_sha256 e))]))"

definition list_audit :: "audit_lib \<Rightarrow> audit_days \<Rightarrow> AuditListParams \<Rightarrow> Principal \<Rightarrow> pystr \<Rightarrow> audit_table \<Rightarrow> access_exn + json" where
  "list_audit L D params actor rid t =
     rbind (list_params params) (\<lambda>p.
       let events = fetch_many (build_query D p actor) t
       in Inr (JDict [(asc ''rid'', JStr rid), (asc ''items'', JList (map (event_fields L False) events)),
                      (asc ''count'', JInt (int (length events)))]))"

definition get_event :: "audit_lib \<Rightarrow> nat \<Rightarrow> audit_table \<Rightarrow> access_exn + json" where
  "get_event L event_id t =
     (case fetch_one event_id t of None \<Rightarrow> Inl Event_Not_Found | Some e \<Rightarrow> Inr (event_fields L True e))"

definition metrics_allowed :: "pystr option \<Rightarrow> pystr \<Rightarrow> access_exn + unit" where
  "metrics_allowed metrics_token authorization =
     (case metrics_token of
        None \<Rightarrow> Inl Metrics_Disabled
      | Some token \<Rightarrow> if authorization \<noteq> asc ''Bearer '' @ token then Inl Metrics_Forbidden else Inr ())"

record ExportParams =
  xp_format :: pystr
  xp_bom :: bool
  xp_token :: "pystr option"
  xp_from :: "int option"
  xp_to :: "int option"

definition export_params :: "ucd \<Rightarrow> ExportParams \<Rightarrow> access_exn + ExportParams" where
  "export_params U p =
     (let lowered = u_lower U (xp_format p)
      in if lowered \<notin> {asc ''csv'', asc ''json''} \<or> \<not> dates_valid (xp_from p) (xp_to p) then Inl Params_Invalid
         else Inr (p\<lparr>xp_format := lowered\<rparr>))"

text \<open>
  The parameters of the query of an export: the dates and the role are passed by the names of their fields, which have
  aliases, and so are not set.
\<close>

definition export_list_params :: "Principal \<Rightarrow> access_exn + AuditListParams" where
  "export_list_params actor =
     list_params \<lparr>lp_from = None, lp_to = None, lp_action = None, lp_role = None, lp_center = pr_center_scope actor,
       lp_outcome = None, lp_page = 1, lp_page_size = 500\<rparr>"

record download_world =
  dw_now :: int
  dw_export :: export_world
  dw_record_now :: int
  dw_record :: "nat \<Rightarrow> insert_fault"

definition path_name :: "pystr \<Rightarrow> pystr" where
  "path_name p = last (split_char 47 p)"

definition export_checks ::
  "ucd \<Rightarrow> audit_days \<Rightarrow> audit_signer \<Rightarrow> int \<Rightarrow> ExportParams \<Rightarrow> Principal \<Rightarrow> access_exn + ExportParams \<times> AuditQuery" where
  "export_checks U D A now params actor =
     rbind (export_params U params) (\<lambda>p.
     rbind (case xp_token p of None \<Rightarrow> Inr False | Some token \<Rightarrow> audit_verify A (resource_key actor) token now) (\<lambda>ok.
       if \<not> ok then Inl Signed_Url_Required
       else rbind (export_list_params actor) (\<lambda>q. Inr (p, build_query D q actor))))"

definition download_call :: "ExportParams \<Rightarrow> AuditQuery \<Rightarrow> Principal \<Rightarrow> pystr \<Rightarrow> export_call" where
  "download_call p query actor rid =
     \<lparr>xr_fmt = xp_format p, xr_query = query, xr_bom = xp_bom p, xr_rid = rid, xr_actor_role = pr_role actor,
      xr_center_scope = pr_center_scope actor, xr_job_id = None\<rparr>"

definition download_event :: "Principal \<Rightarrow> pystr \<Rightarrow> AuditExportResult \<Rightarrow> audit_request" where
  "download_event actor rid res =
     \<lparr>rq_actor_role = pr_role actor, rq_center_scope = pr_center_scope actor, rq_action = EXPORT_DOWNLOADED,
      rq_resource_type = asc ''audit'', rq_resource_id = path_name (er_path res), rq_request_id = rid,
      rq_outcome = Audit_OK, rq_job_id = None, rq_error_code = None, rq_artifact_sha256 = Some (er_sha256 res)\<rparr>"

definition export_audit ::
  "ucd \<Rightarrow> audit_lib \<Rightarrow> audit_days \<Rightarrow> export_setup \<Rightarrow> audit_signer \<Rightarrow> download_world \<Rightarrow> ExportParams \<Rightarrow> Principal \<Rightarrow> pystr \<Rightarrow>
   audit_system \<Rightarrow> (access_exn + AuditExportResult) \<times> audit_system" where
  "export_audit U L D S A W params actor rid sys =
     (case export_checks U D A (dw_now W) params actor of
        Inl x \<Rightarrow> (Inl x, sys)
      | Inr (p, query) \<Rightarrow>
          (case audit_export U L S (dw_export W) (download_call p query actor rid) sys of
             (Inl x, sys1) \<Rightarrow> (Inl (Export_Raised x), sys1)
           | (Inr res, sys1) \<Rightarrow>
               (case record_event (xs_audit S) (dw_record_now W) (dw_record W) (download_event actor rid res) (as_table sys1) of
                  (Inl y, t) \<Rightarrow> (Inl (Record_Raised y), sys1\<lparr>as_table := t\<rparr>)
                | (Inr _, t) \<Rightarrow> (Inr res, sys1\<lparr>as_table := t\<rparr>))))"

text \<open>The pages sign the link they show.\<close>

definition page_link :: "audit_signer \<Rightarrow> Principal \<Rightarrow> int \<Rightarrow> bytes \<Rightarrow> access_exn + pystr" where
  "page_link A actor now random12 =
     rbind (audit_sign A (resource_key actor) None now random12) (\<lambda>token. Inr (asc ''/audit/export?format=csv&token='' @ token))"

definition audit_ui ::
  "audit_days \<Rightarrow> audit_signer \<Rightarrow> AuditListParams \<Rightarrow> Principal \<Rightarrow> int \<Rightarrow> bytes \<Rightarrow> audit_table \<Rightarrow> access_exn + AuditEvent list \<times> pystr" where
  "audit_ui D A params actor now random12 t =
     rbind (list_params params) (\<lambda>p.
     rbind (page_link A actor now random12) (\<lambda>link. Inr (fetch_many (build_query D p actor) t, link)))"

section \<open>A download is of the actor's events\<close>

text \<open>What a principal's exports are about.\<close>

definition in_scope :: "Principal \<Rightarrow> AuditEvent \<Rightarrow> bool" where
  "in_scope actor e \<longleftrightarrow> ev_actor_role (ae_data e) = pr_role actor \<and>
     (case pr_center_scope actor of None \<Rightarrow> True | Some c \<Rightarrow> ev_center_scope (ae_data e) = Some c)"

text \<open>A center as the headers give it: clean, and of at most 64 characters.\<close>

definition principal_ok :: "Principal \<Rightarrow> bool" where
  "principal_ok actor \<longleftrightarrow> sanitize_center (pr_center_scope actor) = Some (pr_center_scope actor)"

lemma export_query_scope:
  assumes "principal_ok actor" and "export_list_params actor = Inr q"
  shows "query_matches (build_query D q actor) (ae_data e) \<longleftrightarrow> in_scope actor e"
proof -
  have "lp_center q = pr_center_scope actor" "lp_from q = None" "lp_to q = None" "lp_role q = None" "lp_action q = None" "lp_outcome q = None"
    using assms by (auto simp: export_list_params_def list_params_def principal_ok_def dates_valid_def)
  then show ?thesis by (auto simp: query_matches_def build_query_def in_scope_def split: option.splits)
qed

lemma export_checks_Inr:
  assumes "export_checks U D A now params actor = Inr (p, query)"
  shows "export_params U params = Inr p \<and> (\<exists>token. xp_token p = Some token \<and> audit_verify A (resource_key actor) token now = Inr True) \<and>
    (\<exists>q. export_list_params actor = Inr q \<and> query = build_query D q actor)"
  using assms by (auto simp: export_checks_def split: option.splits if_splits)

lemma export_audit_Inr:
  assumes "export_audit U L D S A W params actor rid sys = (Inr res, sys')"
  shows "\<exists>p query sys1. export_checks U D A (dw_now W) params actor = Inr (p, query) \<and>
    audit_export U L S (dw_export W) (download_call p query actor rid) sys = (Inr res, sys1) \<and> as_disk sys' = as_disk sys1"
proof -
  obtain p query where c: "export_checks U D A (dw_now W) params actor = Inr (p, query)"
    using assms by (cases "export_checks U D A (dw_now W) params actor") (auto simp: export_audit_def)
  obtain r sys1 where e: "audit_export U L S (dw_export W) (download_call p query actor rid) sys = (r, sys1)" by fastforce
  have "r = Inr res \<and> as_disk sys' = as_disk sys1"
    using assms c e by (cases r) (auto simp: export_audit_def split: sum.splits prod.splits)
  then show ?thesis using c e by blast
qed

text \<open>
  C19 download_is_scoped: a download is served only for a token that is valid for the role and the center of the principal, and its
  file has exactly the events of that role and that center in the log at the moment of the export, of all dates: the
  dates of the request are not used.
\<close>

theorem download_is_scoped:
  assumes "audit_wf (as_table sys)" and "1 \<le> ac_retry_attempts (xs_audit S)"
    and "\<forall>csv. export_path L S (xw_clock (dw_export W) 1) csv \<noteq> xs_release_path S"
    and "disk_view (xs_release_path S) (as_disk sys) = Some es" and "principal_ok actor"
    and run: "export_audit U L D S A W params actor rid sys = (Inr res, sys')"
    and lower: "u_lower U (u_lower U (xp_format params)) = u_lower U (xp_format params)"
  shows "(\<exists>token. xp_token params = Some token \<and> audit_verify A (resource_key actor) token (dw_now W) = Inr True) \<and>
    (\<exists>(started :: audit_table) events bs content. set (at_rows (as_table sys)) \<subseteq> set (at_rows started) \<and>
       sorted (map (\<lambda>e. ev_ts (ae_data e)) events) \<and> mset events = mset (filter (in_scope actor) (at_rows started)) \<and>
       as_disk sys' (er_path res) = Some (Raw bs) \<and> utf8_decode bs = Some content \<and>
       (if u_lower U (xp_format params) = asc ''csv''
        then csv_read ((if xp_bom params then drop 1 else id) content) = Some (audit_header # map (audit_csv_row L) events)
        else json_content L (xp_bom params) events = Some content))"
proof -
  from export_audit_Inr [OF run] obtain p query sys1 where ch: "export_checks U D A (dw_now W) params actor = Inr (p, query)"
    and ex: "audit_export U L S (dw_export W) (download_call p query actor rid) sys = (Inr res, sys1)"
    and disk: "as_disk sys' = as_disk sys1" by blast
  from export_checks_Inr [OF ch] obtain token ql where p: "export_params U params = Inr p" "xp_token p = Some token"
    "audit_verify A (resource_key actor) token (dw_now W) = Inr True" "export_list_params actor = Inr ql" "query = build_query D ql actor"
    by blast
  define c where "c = download_call p query actor rid"
  have c: "xr_fmt c = xp_format p" "xr_bom c = xp_bom p" "xr_query c = query" by (simp_all add: c_def download_call_def)
  note ex = ex [folded c_def]
  have same: "xp_format p = u_lower U (xp_format params)" "xp_bom p = xp_bom params" "xp_token params = Some token"
    using p(1,2) by (auto simp: export_params_def Let_def split: if_splits)
  have q: "query_matches (xr_query c) (ae_data e) = in_scope actor e" for e
    unfolding c(3) p(5) by (rule export_query_scope [OF assms(5) p(4)])
  from audit_export_effect [OF assms(1-4) ex] obtain started events bs content k where
    f1: "appended (event_payload (xw_clock (dw_export W) 0) (export_event c EXPORT_STARTED (asc ''events'') Audit_OK None None)) k
       (as_table sys) started"
    and f2: "sorted (map (\<lambda>e. ev_ts (ae_data e)) events)"
    and f3: "mset events = mset (filter (\<lambda>e. query_matches (xr_query c) (ae_data e)) (at_rows started))"
    and f4: "as_disk sys1 (er_path res) = Some (Raw bs)" and f5: "utf8_decode bs = Some content"
    and f6: "if u_lower U (xr_fmt c) = asc ''csv'' then csv_read ((if xr_bom c then drop 1 else id) content) = Some (audit_header # map (audit_csv_row L) events)
       else json_content L (xr_bom c) events = Some content"
    unfolding Let_def by blast
  have grows: "set (at_rows (as_table sys)) \<subseteq> set (at_rows started)" using f1 by (auto simp: appended_def)
  have g3: "mset events = mset (filter (in_scope actor) (at_rows started))" using f3 by (simp only: q)
  have g4: "as_disk sys' (er_path res) = Some (Raw bs)" using f4 disk by simp
  have g6: "if u_lower U (xp_format params) = asc ''csv''
      then csv_read ((if xp_bom params then drop 1 else id) content) = Some (audit_header # map (audit_csv_row L) events)
      else json_content L (xp_bom params) events = Some content" using f6 by (simp only: c(1,2) same(1,2) lower)
  show ?thesis
    using p(3) same(3) grows f2 g3 g4 f5 g6 by blast
qed

text \<open>A request that names a center lists the events of that center, whatever the center of the principal; one event is given to anyone.\<close>

lemma list_leaves_scope:
  assumes "lp_center p = Some c" and "c \<noteq> []" and "lp_role p = Some r"
  shows "build_query D p actor = build_query D p actor'"
  using assms by (simp add: build_query_def)


definition sample_actor :: Principal where
  "sample_actor = \<lparr>pr_role = MANAGER, pr_center_scope = Some (asc ''12'')\<rparr>"

definition sample_download_world :: download_world where
  "sample_download_world = \<lparr>dw_now = 10, dw_export = sample_export_world, dw_record_now = 11, dw_record = (\<lambda>_. Insert_Fine)\<rparr>"

definition sample_days :: audit_days where
  "sample_days = \<lparr>ad_first = (\<lambda>d. d * 100), ad_last = (\<lambda>d. d * 100 + 99)\<rparr>"

text \<open>The dates ask for one day, on which nothing happened.\<close>

definition sample_export_params :: ExportParams where
  "sample_export_params = \<lparr>xp_format = asc ''CSV'', xp_bom = False,
     xp_token = Some (projr (audit_sign sample_au (resource_key sample_actor) None 0 (replicate 12 7))), xp_from = Some 77, xp_to = Some 77\<rparr>"

lemma sample_download_runs:
  "case export_audit ascii_ucd sample_audit_lib sample_days sample_setup sample_au sample_download_world sample_export_params sample_actor
     sample_rid sample_audit_system of (Inr res, _) \<Rightarrow> True | (Inl _, _) \<Rightarrow> False"
  by code_simp

theorem download_is_scoped_witness:
  "\<exists>res sys' bs content events. export_audit ascii_ucd sample_audit_lib sample_days sample_setup sample_au sample_download_world
      sample_export_params sample_actor sample_rid sample_audit_system = (Inr res, sys') \<and>
     as_disk sys' (er_path res) = Some (Raw bs) \<and> utf8_decode bs = Some content \<and>
     csv_read content = Some (audit_header # map (audit_csv_row sample_audit_lib) events) \<and> list_all (in_scope sample_actor) events"
proof -
  obtain res sys' where run: "export_audit ascii_ucd sample_audit_lib sample_days sample_setup sample_au sample_download_world
      sample_export_params sample_actor sample_rid sample_audit_system = (Inr res, sys')"
    using sample_download_runs by (auto split: prod.splits sum.splits)
  have wf: "audit_wf (as_table sample_audit_system)" by (simp add: sample_audit_system_def empty_audit_wf)
  have l: "1 \<le> ac_retry_attempts (xs_audit sample_setup)" by (simp add: sample_setup_def sample_audit_def)
  have apart: "\<forall>csv. export_path sample_audit_lib sample_setup (xw_clock (dw_export sample_download_world) 1) csv \<noteq> xs_release_path sample_setup"
    by (simp add: export_path_def export_file_def sample_setup_def py_defs)
  have view: "disk_view (xs_release_path sample_setup) (as_disk sample_audit_system) = Some []"
    by (simp add: disk_view_def load_doc_def release_view_def sample_audit_system_def)
  have ok: "principal_ok sample_actor" by code_simp
  have lower: "u_lower ascii_ucd (u_lower ascii_ucd (xp_format sample_export_params)) = u_lower ascii_ucd (xp_format sample_export_params)"
    by code_simp
  have csv: "u_lower ascii_ucd (xp_format sample_export_params) = asc ''csv''" "xp_bom sample_export_params = False" by code_simp+
  from download_is_scoped [OF wf l apart view ok run lower, unfolded csv] obtain started :: audit_table and events bs content where
    e: "mset events = mset (filter (in_scope sample_actor) (at_rows started))" "as_disk sys' (er_path res) = Some (Raw bs)"
    "utf8_decode bs = Some content" "csv_read content = Some (audit_header # map (audit_csv_row sample_audit_lib) events)"
    by (auto simp del: mset_filter)
  have "set events = set (filter (in_scope sample_actor) (at_rows started))" using e(1) by (rule mset_eq_setD)
  then have "list_all (in_scope sample_actor) events" by (simp add: list_all_iff)
  then show ?thesis using run e(2-4) by blast
qed

text \<open>Who is let in is in the log.\<close>

lemma auth_is_logged:
  assumes "audit_wf t" and "1 \<le> ac_retry_attempts A" and "auth_dispatch U A now faults role_header center_header rid path t = (Inr actor, t')"
  shows "\<exists>k \<ge> 1. appended (event_payload now (auth_event rid Audit_OK path None (pr_center_scope actor) (Some (pr_role actor)))) k t t'"
proof -
  obtain i where "record_event A now faults (auth_event rid Audit_OK path None (pr_center_scope actor) (Some (pr_role actor))) t = (Inr i, t')"
    using assms(3) by (auto simp: auth_dispatch_def split: sum.splits prod.splits)
  from record_event_appends [OF assms(1,2) this] show ?thesis by auto
qed

text \<open>
  A request that is let in counts against its key, its idempotency key is taken unless its method reads only, and the log has its principal; one that is
  refused by the limit or as a duplicate leaves no event.
\<close>

lemma admitted:
  assumes "audit_wf (ap_table ap)" and "1 \<le> ac_retry_attempts (apc_audit C)"
    and "admit U C now faults fresh method path h ap = (Inr actor, ap')"
  shows "fst (rate_allow (apc_rate C) (rate_key (hd_rate_key h) (hd_role h)) now (ap_rate ap)) \<and>
    duplicate_check (apc_key_ttl C) method (hd_idempotency_key h) now (ap_keys ap) = (Inr (), ap_keys ap') \<and>
    resolve_principal U (hd_role h) (hd_center h) = Inr actor \<and>
    (\<exists>k \<ge> 1. appended (event_payload now
       (auth_event (request_rid fresh h) Audit_OK path None (pr_center_scope actor) (Some (pr_role actor)))) k (ap_table ap) (ap_table ap'))"
proof -
  from assms(3) obtain d t where d: "duplicate_check (apc_key_ttl C) method (hd_idempotency_key h) now (ap_keys ap) = (Inr (), d)"
    and a: "auth_dispatch U (apc_audit C) now faults (hd_role h) (hd_center h) (request_rid fresh h) path (ap_table ap) = (Inr actor, t)"
    and ap': "ap_keys ap' = d" "ap_table ap' = t"
    and r: "fst (rate_allow (apc_rate C) (rate_key (hd_rate_key h) (hd_role h)) now (ap_rate ap))"
    by (auto simp: admit_def Let_def split: prod.splits sum.splits if_splits)
  have "resolve_principal U (hd_role h) (hd_center h) = Inr actor"
    using a by (auto simp: auth_dispatch_def split: sum.splits prod.splits)
  then show ?thesis using r d ap' auth_is_logged [OF assms(1,2) a] by simp
qed

lemma refused_leaves_no_event:
  assumes "admit U C now faults fresh method path h ap = (Inl x, ap')" and "x \<in> {Rate_Limit, Duplicate_Request, Key_Required}"
  shows "ap_table ap' = ap_table ap"
  using assms
  by (auto simp: admit_def Let_def auth_dispatch_def resolve_principal_def split: prod.splits sum.splits if_splits option.splits)

end
