(* ===== verification/Sabt_Access.thy ===== *)
theory Sabt_Access
  imports PyFloat
begin

text \<open>
  \<^verbatim>\<open>phase6_import_to_sabt/app/stores.py\<close>, \<^verbatim>\<open>app/security.py\<close> and the order of the middleware in \<^verbatim>\<open>app/app_factory.py\<close>: the limit of
  requests with its penalty, the keys of POST requests and the service token, over a store whose entries expire. What
  the two middlewares use of a store is the locale \<open>timed_store\<close>; \<^verbatim>\<open>InMemoryKeyValueStore\<close> interprets it. Times are floats; the readings
  of the clock within one middleware give the same time. Each store belongs to one middleware, so that runs of a middleware cover every
  interleaving of requests. \<^verbatim>\<open>RedisKeyValueStore\<close>, response headers, logs and diagnostics are left out.
\<close>

section \<open>Stores\<close>

datatype gate_exn =
  Rate_Limit_Exceeded "int option" | Idempotency_Key_Required | Idempotency_Replay | Auth_Token_Invalid | Stored_Value_Error

record 's store_ops =
  so_get :: "pyfloat \<Rightarrow> pystr \<Rightarrow> 's \<Rightarrow> pystr option \<times> 's"
  so_incr :: "pyfloat \<Rightarrow> pystr \<Rightarrow> int \<Rightarrow> 's \<Rightarrow> (gate_exn + int) \<times> 's"
  so_set :: "pyfloat \<Rightarrow> pystr \<Rightarrow> pystr \<Rightarrow> int \<Rightarrow> 's \<Rightarrow> 's"
  so_delete :: "pystr \<Rightarrow> 's \<Rightarrow> 's"
  so_set_if_not_exists :: "pyfloat \<Rightarrow> pystr \<Rightarrow> pystr \<Rightarrow> int \<Rightarrow> 's \<Rightarrow> bool \<times> 's"

type_synonym memory_store = "pystr \<rightharpoonup> pyfloat \<times> pystr"

definition expire_locked :: "pyfloat \<Rightarrow> memory_store \<Rightarrow> memory_store" where
  "expire_locked now st =
     (\<lambda>k. case st k of None \<Rightarrow> None | Some (expiry, v) \<Rightarrow> if expiry \<le> now then None else Some (expiry, v))"

definition memory_get :: "pyfloat \<Rightarrow> pystr \<Rightarrow> memory_store \<Rightarrow> pystr option \<times> memory_store" where
  "memory_get now k st = (let st = expire_locked now st in (map_option snd (st k), st))"

definition memory_incr :: "pyfloat \<Rightarrow> pystr \<Rightarrow> int \<Rightarrow> memory_store \<Rightarrow> (gate_exn + int) \<times> memory_store" where
  "memory_incr now k ttl_seconds st =
     (let st = expire_locked now st;
          stored_value = (case st k of None \<Rightarrow> asc ''0'' | Some (_, v) \<Rightarrow> v)
      in case py_int stored_value of
           None \<Rightarrow> (Inl Stored_Value_Error, st)
         | Some n \<Rightarrow> (Inr (n + 1), st(k \<mapsto> (fadd now (of_int ttl_seconds), py_str_int (n + 1)))))"

definition memory_set :: "pyfloat \<Rightarrow> pystr \<Rightarrow> pystr \<Rightarrow> int \<Rightarrow> memory_store \<Rightarrow> memory_store" where
  "memory_set now k v ttl_seconds st = st(k \<mapsto> (fadd now (of_int ttl_seconds), v))"

definition memory_delete :: "pystr \<Rightarrow> memory_store \<Rightarrow> memory_store" where
  "memory_delete k st = st(k := None)"

definition memory_set_if_not_exists :: "pyfloat \<Rightarrow> pystr \<Rightarrow> pystr \<Rightarrow> int \<Rightarrow> memory_store \<Rightarrow> bool \<times> memory_store" where
  "memory_set_if_not_exists now k v ttl_seconds st =
     (let st = expire_locked now st
      in if st k \<noteq> None then (False, st) else (True, st(k \<mapsto> (fadd now (of_int ttl_seconds), v))))"

definition memory_ops :: "memory_store store_ops" where
  "memory_ops = \<lparr>so_get = memory_get, so_incr = memory_incr, so_set = memory_set, so_delete = memory_delete,
                 so_set_if_not_exists = memory_set_if_not_exists\<rparr>"

section \<open>The middleware\<close>

record RateLimitConfig =
  rlc_namespace :: pystr
  rlc_requests :: int
  rlc_window_seconds :: int
  rlc_penalty_seconds :: int

record gate_request =
  gr_method :: pystr
  gr_path :: pystr
  gr_rate_key :: "pystr option"
  gr_client_id :: "pystr option"
  gr_host :: "pystr option"
  gr_idempotency_key :: "pystr option"
  gr_authorization :: "pystr option"

definition normalize_token :: "ucd \<Rightarrow> pystr option \<Rightarrow> pystr" where
  "normalize_token U v =
     (case v of None \<Rightarrow> []
      | Some s \<Rightarrow> py_strip (map fold_fa_digit (u_nfkc U (remove_chars [8204, 8205, 65279, 8288] s))))"

definition rate_identifier :: "ucd \<Rightarrow> gate_request \<Rightarrow> pystr" where
  "rate_identifier U r =
     (let rate_key = normalize_token U (gr_rate_key r); client = normalize_token U (gr_client_id r)
      in if rate_key \<noteq> [] then rate_key else if client \<noteq> [] then client
         else case gr_host r of Some host \<Rightarrow> host | None \<Rightarrow> asc ''anonymous'')"

definition bucket_key :: "ucd \<Rightarrow> RateLimitConfig \<Rightarrow> gate_request \<Rightarrow> pystr" where
  "bucket_key U C r = rlc_namespace C @ 58 # rate_identifier U r @ 58 # u_upper U (gr_method r)"

definition penalty_key :: "pystr \<Rightarrow> pystr" where
  "penalty_key b = asc ''penalty:'' @ b"

text \<open>The remaining requests, or the refusal.\<close>

definition rate_limit_dispatch ::
  "'s store_ops \<Rightarrow> ucd \<Rightarrow> RateLimitConfig \<Rightarrow> pyfloat \<Rightarrow> gate_request \<Rightarrow> 's \<Rightarrow> (gate_exn + int) \<times> 's" where
  "rate_limit_dispatch ops U C now r st =
     (let b = bucket_key U C r; (penalty_active, st) = so_get ops now (penalty_key b) st
      in if penalty_active \<noteq> None then (Inl (Rate_Limit_Exceeded None), st)
         else case so_incr ops now b (rlc_window_seconds C) st of
           (Inl x, st) \<Rightarrow> (Inl x, st)
         | (Inr attempts, st) \<Rightarrow>
             if rlc_requests C < attempts
             then (Inl (Rate_Limit_Exceeded (Some (rlc_penalty_seconds C))),
                   so_set ops now (penalty_key b) (asc ''1'') (rlc_penalty_seconds C) st)
             else (Inr (max (rlc_requests C - attempts) 0), st))"

definition idempotency_dispatch ::
  "'s store_ops \<Rightarrow> ucd \<Rightarrow> pyfloat \<Rightarrow> gate_request \<Rightarrow> 's \<Rightarrow> (gate_exn + unit) \<times> 's" where
  "idempotency_dispatch ops U now r st =
     (if u_upper U (gr_method r) \<noteq> asc ''POST'' then (Inr (), st)
      else let key = normalize_token U (gr_idempotency_key r)
        in if key = [] then (Inl Idempotency_Key_Required, st)
           else let (stored, st) = so_set_if_not_exists ops now key (py_str_int 86400) 86400 st
             in if stored then (Inr (), st) else (Inl Idempotency_Replay, st))"

record AuthConfig =
  atc_service_token :: pystr
  atc_allow_all :: bool

definition removeprefix :: "pystr \<Rightarrow> pystr \<Rightarrow> pystr" where
  "removeprefix p s = (if startswith s p then drop (length p) s else s)"

definition bearer_dispatch :: "AuthConfig \<Rightarrow> gate_request \<Rightarrow> gate_exn + unit" where
  "bearer_dispatch A r =
     (let header = (case gr_authorization r of None \<Rightarrow> [] | Some h \<Rightarrow> h);
          token = py_strip (removeprefix (asc ''Bearer '') header)
      in if atc_allow_all A \<or> gr_path r = asc ''/metrics'' then Inr ()
         else if atc_service_token A \<noteq> [] \<and> token \<noteq> atc_service_token A then Inl Auth_Token_Invalid else Inr ())"

text \<open>
  A request on its way to its handler. The middleware that is added last runs first: authentication, the key, the limit.
\<close>

record 's gate_state =
  gs_rate :: 's
  gs_keys :: 's

definition gate ::
  "'s store_ops \<Rightarrow> ucd \<Rightarrow> RateLimitConfig \<Rightarrow> AuthConfig \<Rightarrow> pyfloat \<Rightarrow> gate_request \<Rightarrow> 's gate_state \<Rightarrow> (gate_exn + int) \<times> 's gate_state" where
  "gate ops U C A now r s =
     (case bearer_dispatch A r of
        Inl x \<Rightarrow> (Inl x, s)
      | Inr _ \<Rightarrow>
          (case idempotency_dispatch ops U now r (gs_keys s) of
             (Inl x, keys) \<Rightarrow> (Inl x, s\<lparr>gs_keys := keys\<rparr>)
           | (Inr _, keys) \<Rightarrow>
               (let (res, rate) = rate_limit_dispatch ops U C now r (gs_rate s) in (res, s\<lparr>gs_keys := keys, gs_rate := rate\<rparr>))))"

text \<open>Which requests of a run get through a middleware.\<close>

fun limit_run :: "'s store_ops \<Rightarrow> ucd \<Rightarrow> RateLimitConfig \<Rightarrow> (pyfloat \<times> gate_request) list \<Rightarrow> 's \<Rightarrow> bool list" where
  "limit_run ops U C [] st = []"
| "limit_run ops U C ((now, r) # calls) st =
     (let (res, st') = rate_limit_dispatch ops U C now r st in (\<not> isl res) # limit_run ops U C calls st')"

fun once_run :: "'s store_ops \<Rightarrow> ucd \<Rightarrow> (pyfloat \<times> gate_request) list \<Rightarrow> 's \<Rightarrow> bool list" where
  "once_run ops U [] st = []"
| "once_run ops U ((now, r) # calls) st =
     (let (res, st') = idempotency_dispatch ops U now r st in (\<not> isl res) # once_run ops U calls st')"

section \<open>What the middleware needs of a store\<close>

text \<open>\<open>live st now k\<close> is the value of a key at a time; every operation is told by its effect on the values from then on.\<close>

locale timed_store =
  fixes ops :: "'s store_ops" and live :: "'s \<Rightarrow> pyfloat \<Rightarrow> pystr \<Rightarrow> pystr option"
  assumes get_value: "fst (so_get ops now k st) = live st now k"
    and get_live: "now \<le> later \<Longrightarrow> live (snd (so_get ops now k st)) later = live st later"
    and incr_value: "fst (so_incr ops now k ttl st) =
      (case live st now k of None \<Rightarrow> Inr 1
       | Some v \<Rightarrow> (case py_int v of None \<Rightarrow> Inl Stored_Value_Error | Some n \<Rightarrow> Inr (n + 1)))"
    and incr_live: "now \<le> later \<Longrightarrow> live (snd (so_incr ops now k ttl st)) later =
      (case fst (so_incr ops now k ttl st) of Inl _ \<Rightarrow> live st later
       | Inr n \<Rightarrow> (live st later)(k := if later < fadd now (of_int ttl) then Some (py_str_int n) else None))"
    and set_live: "now \<le> later \<Longrightarrow> live (so_set ops now k v ttl st) later =
      (live st later)(k := if later < fadd now (of_int ttl) then Some v else None)"
    and delete_live: "live (so_delete ops k st) later = (live st later)(k := None)"
    and add_value: "fst (so_set_if_not_exists ops now k v ttl st) \<longleftrightarrow> live st now k = None"
    and add_live: "now \<le> later \<Longrightarrow> live (snd (so_set_if_not_exists ops now k v ttl st)) later =
      (if live st now k = None then (live st later)(k := if later < fadd now (of_int ttl) then Some v else None) else live st later)"

lemma fadd_mono: "a \<le> b \<Longrightarrow> fadd a c \<le> fadd b c"
  by (simp add: fadd_def fl_mono)

lemma penalty_apart:
  assumes "\<not> startswith (rlc_namespace C) (asc ''penalty'')"
  shows "penalty_key b \<noteq> bucket_key U C r"
proof
  let ?p = "asc ''penalty''" and ?ns = "rlc_namespace C"
  let ?x = "rate_identifier U r @ 58 # u_upper U (gr_method r)"
  assume "penalty_key b = bucket_key U C r"
  then have e: "?p @ 58 # b = ?ns @ 58 # ?x" by (simp add: penalty_key_def bucket_key_def asc_def)
  show False
  proof (cases "length ?ns < 7")
    case True
    have "(?p @ 58 # b) ! length ?ns = 58" unfolding e by simp
    moreover have len: "length ?p = 7" by (simp add: asc_def)
    ultimately have "?p ! length ?ns = 58" using True by (simp add: nth_append)
    then have "58 \<in> set ?p" using True len nth_mem [of "length ?ns" ?p] by simp
    then show False by (simp add: asc_def)
  next
    case False
    have "take 7 (?p @ 58 # b) = take 7 ?ns" unfolding e using False by simp
    then have "take (length ?p) ?ns = ?p" using False by (simp add: asc_def min_def)
    then show False using assms by (simp add: startswith_def)
  qed
qed

text \<open>The requests of a bucket that got through from a time on and before another.\<close>

definition passed ::
  "ucd \<Rightarrow> RateLimitConfig \<Rightarrow> pystr \<Rightarrow> pyfloat \<Rightarrow> pyfloat \<Rightarrow> (pyfloat \<times> gate_request) list \<Rightarrow> bool list \<Rightarrow> nat" where
  "passed U C b from until calls results =
     length (filter (\<lambda>((t, r), ok). ok \<and> bucket_key U C r = b \<and> from \<le> t \<and> t < until) (zip calls results))"

context timed_store
begin

text \<open>
  With \<open>n\<close> requests of a bucket through since \<open>from\<close>, its counter is at least \<open>n\<close> until \<open>until\<close>.
\<close>

definition counted :: "pystr \<Rightarrow> pyfloat \<Rightarrow> nat \<Rightarrow> pyfloat \<Rightarrow> 's \<Rightarrow> bool" where
  "counted b until n latest st \<longleftrightarrow>
     (\<forall>later. latest \<le> later \<longrightarrow>
        (case live st later b of None \<Rightarrow> n = 0 \<or> until \<le> later
         | Some v \<Rightarrow> \<exists>c. v = py_str_int c \<and> 0 \<le> c \<and> (later < until \<longrightarrow> int n \<le> c)))"

lemma counted_later: "counted b until n latest st \<Longrightarrow> latest \<le> t \<Longrightarrow> counted b until n t st"
  by (auto simp: counted_def)

lemma counted_cong: "(\<And>later. t \<le> later \<Longrightarrow> live st' later b = live st later b) \<Longrightarrow> counted b until n t st \<Longrightarrow> counted b until n t st'"
  by (simp add: counted_def)

lemma counted_less: "counted b until n latest st \<Longrightarrow> m \<le> n \<Longrightarrow> counted b until m latest st"
proof -
  assume a: "counted b until n latest st" "m \<le> n"
  show ?thesis unfolding counted_def
  proof (intro allI impI)
    fix later assume l: "latest \<le> later"
    show "case live st later b of None \<Rightarrow> m = 0 \<or> until \<le> later | Some v \<Rightarrow> \<exists>c. v = py_str_int c \<and> 0 \<le> c \<and> (later < until \<longrightarrow> int m \<le> c)"
    proof (cases "live st later b")
      case None
      then show ?thesis using a l by (auto simp: counted_def split: option.splits)
    next
      case (Some v)
      then obtain c where "v = py_str_int c" "0 \<le> c" "later < until \<longrightarrow> int n \<le> c"
        using a(1) l by (auto simp: counted_def split: option.splits)
      then show ?thesis using Some a(2) by auto
    qed
  qed
qed

text \<open>An attempt of the bucket: the counter is one more than before.\<close>

lemma counted_incr:
  assumes "counted b (fadd from (of_int w)) n t st" and "n > 0 \<Longrightarrow> from \<le> t" and "so_incr ops t b w st = (res, st')"
  shows "\<exists>c. res = Inr c \<and> 1 \<le> c \<and> (t < fadd from (of_int w) \<longrightarrow> int n + 1 \<le> c) \<and>
    counted b (fadd from (of_int w)) (if from \<le> t \<and> t < fadd from (of_int w) then Suc n else n) t st'"
proof -
  let ?lim = "fadd from (of_int w)"
  have v: "res = (case live st t b of None \<Rightarrow> Inr 1 | Some v \<Rightarrow> (case py_int v of None \<Rightarrow> Inl Stored_Value_Error | Some n \<Rightarrow> Inr (n + 1)))"
    using incr_value [of t b w st] assms(3) by simp
  obtain c where c: "res = Inr c" "1 \<le> c" "t < ?lim \<longrightarrow> int n + 1 \<le> c"
  proof (cases "live st t b")
    case None
    then have "n = 0 \<or> ?lim \<le> t" using assms(1) by (auto simp: counted_def split: option.splits)
    then show thesis using that [of 1] v None by auto
  next
    case (Some x)
    then obtain d where d: "x = py_str_int d" "0 \<le> d" "t < ?lim \<longrightarrow> int n \<le> d"
      using assms(1) by (auto simp: counted_def split: option.splits)
    then show thesis using that [of "d + 1"] v Some by (auto simp: py_int_str_int)
  qed
  have l: "live st' later b = (if later < fadd t (of_int w) then Some (py_str_int c) else None)" if "t \<le> later" for later
    using incr_live [OF that, of b w st] assms(3) c(1) by simp
  have until: "?lim \<le> fadd t (of_int w)" if "from \<le> t" using that by (rule fadd_mono)
  have "counted b ?lim (if from \<le> t \<and> t < ?lim then Suc n else n) t st'"
    unfolding counted_def
  proof (intro allI impI)
    fix later assume t: "t \<le> later"
    show "case live st' later b of None \<Rightarrow> (if from \<le> t \<and> t < ?lim then Suc n else n) = 0 \<or> ?lim \<le> later
       | Some v \<Rightarrow> \<exists>c. v = py_str_int c \<and> 0 \<le> c \<and> (later < ?lim \<longrightarrow> int (if from \<le> t \<and> t < ?lim then Suc n else n) \<le> c)"
    proof (cases "later < fadd t (of_int w)")
      case True
      then show ?thesis using l [OF t] c t by (auto intro!: exI [of _ c])
    next
      case False
      moreover have "n = 0 \<or> ?lim \<le> later" using False until assms(2) by (cases "n = 0") auto
      ultimately show ?thesis using l [OF t] until by auto
    qed
  qed
  then show ?thesis using c by blast
qed

lemma counted_dispatch:
  assumes "counted b (fadd from (of_int (rlc_window_seconds C))) n t st" and "n > 0 \<Longrightarrow> from \<le> t"
    and "rate_limit_dispatch ops U C t r st = (res, st')" and "\<not> startswith (rlc_namespace C) (asc ''penalty'')"
    and "b = bucket_key U C r0" and "int n \<le> max 0 (rlc_requests C)"
  defines "hit \<equiv> \<not> isl res \<and> bucket_key U C r = b \<and> from \<le> t \<and> t < fadd from (of_int (rlc_window_seconds C))"
  shows "counted b (fadd from (of_int (rlc_window_seconds C))) (if hit then Suc n else n) t st' \<and>
    int (if hit then Suc n else n) \<le> max 0 (rlc_requests C)"
proof -
  let ?lim = "fadd from (of_int (rlc_window_seconds C))" and ?b = "bucket_key U C r"
  obtain pen st1 where g: "so_get ops t (penalty_key ?b) st = (pen, st1)" by fastforce
  have l1: "live st1 later = live st later" if "t \<le> later" for later
    using get_live [OF that, of "penalty_key ?b" st] g by simp
  then have c1: "counted b ?lim n t st1" using assms(1) by (intro counted_cong [OF _ assms(1)]) simp
  show ?thesis
  proof (cases "pen = None")
    case False
    then have "isl res" "st' = st1" using assms(3) g by (auto simp: rate_limit_dispatch_def Let_def)
    then show ?thesis using c1 assms(6) by (simp add: hit_def)
  next
    case True
    obtain res1 st2 where i: "so_incr ops t ?b (rlc_window_seconds C) st1 = (res1, st2)" by fastforce
    have out: "st' = st2 \<or> st' = so_set ops t (penalty_key ?b) (asc ''1'') (rlc_penalty_seconds C) st2"
      "\<not> isl res \<Longrightarrow> \<exists>a. res1 = Inr a \<and> a \<le> rlc_requests C \<and> st' = st2"
      using assms(3) g True i by (auto simp: rate_limit_dispatch_def Let_def split: sum.splits if_splits)
    have same: "live st' later b = live st2 later b" if "t \<le> later" for later
      using out(1) set_live [OF that, of "penalty_key ?b" _ _ st2] penalty_apart [OF assms(4), of ?b U r0] assms(5) by auto
    show ?thesis
    proof (cases "?b = b")
      case True
      from counted_incr [OF c1 assms(2) i [unfolded True]] obtain c where
        c: "res1 = Inr c" "t < ?lim \<longrightarrow> int n + 1 \<le> c"
          "counted b ?lim (if from \<le> t \<and> t < ?lim then Suc n else n) t st2" by blast
      show ?thesis
      proof (cases hit)
        case hit: True
        then show ?thesis using c out(2) by (auto simp: hit_def intro: counted_cong)
      next
        case False
        have "counted b ?lim n t st2" by (rule counted_less [OF c(3)]) simp
        then show ?thesis using False assms(6) same by (auto intro: counted_cong)
      qed
    next
      case False
      have "live st2 later b = live st1 later b" if "t \<le> later" for later
        using incr_live [OF that, of ?b "rlc_window_seconds C" st1] i False by (cases res1) auto
      then have "counted b ?lim n t st'" using c1 same by (intro counted_cong [OF _ c1]) simp
      then show ?thesis using False assms(6) by (simp add: hit_def)
    qed
  qed
qed

lemma run_bounded:
  assumes "sorted (map fst calls)" and "\<forall>c \<in> set calls. latest \<le> fst c" and "n > 0 \<Longrightarrow> from \<le> latest"
    and "counted b (fadd from (of_int (rlc_window_seconds C))) n latest st" and "int n \<le> max 0 (rlc_requests C)"
    and ns: "\<not> startswith (rlc_namespace C) (asc ''penalty'')" and b: "b = bucket_key U C r0"
  shows "int (n + passed U C b from (fadd from (of_int (rlc_window_seconds C))) calls (limit_run ops U C calls st)) \<le> max 0 (rlc_requests C)"
  using assms(1-5)
proof (induction calls arbitrary: latest n st)
  case (Cons c calls)
  let ?lim = "fadd from (of_int (rlc_window_seconds C))"
  obtain t r where c: "c = (t, r)" by (cases c)
  obtain res st' where d: "rate_limit_dispatch ops U C t r st = (res, st')" by fastforce
  let ?hit = "\<not> isl res \<and> bucket_key U C r = b \<and> from \<le> t \<and> t < ?lim"
  have t: "latest \<le> t" using Cons.prems(2) c by simp
  have later: "n > 0 \<Longrightarrow> from \<le> t" using Cons.prems(3) t by auto
  note step = counted_dispatch [OF counted_later [OF Cons.prems(4) t] later d ns b Cons.prems(5)]
  have sorted: "sorted (map fst calls)" "\<forall>c \<in> set calls. t \<le> fst c" using Cons.prems(1) c by auto
  have "(if ?hit then Suc n else n) > 0 \<Longrightarrow> from \<le> t" using later by (auto split: if_splits)
  from Cons.IH [OF sorted this conjunct1 [OF step] conjunct2 [OF step]]
  show ?case unfolding c using d by (auto simp: passed_def split: if_splits)
qed (simp add: passed_def)

text \<open>Before the limit is reached, the counter is at most the number of requests and there is no penalty.\<close>

definition under_limit :: "pystr \<Rightarrow> int \<Rightarrow> pyfloat \<Rightarrow> 's \<Rightarrow> bool" where
  "under_limit b k latest st \<longleftrightarrow>
     (\<forall>later. latest \<le> later \<longrightarrow> live st later (penalty_key b) = None \<and>
        (case live st later b of None \<Rightarrow> True | Some v \<Rightarrow> \<exists>c. v = py_str_int c \<and> c \<le> k))"

lemma under_limit_later: "under_limit b k latest st \<Longrightarrow> latest \<le> t \<Longrightarrow> under_limit b k t st"
  by (simp add: under_limit_def)

lemma under_limit_dispatch:
  assumes w: "under_limit b k t st" and d: "rate_limit_dispatch ops U C t r st = (res, st')"
    and ns: "\<not> startswith (rlc_namespace C) (asc ''penalty'')" and b: "b = bucket_key U C r0" and k: "0 \<le> k" "k < rlc_requests C"
  shows "(bucket_key U C r = b \<longrightarrow> \<not> isl res) \<and> under_limit b (if bucket_key U C r = b then k + 1 else k) t st'"
proof -
  let ?b = "bucket_key U C r"
  obtain pen st1 where g: "so_get ops t (penalty_key ?b) st = (pen, st1)" by fastforce
  obtain res1 st2 where i: "so_incr ops t ?b (rlc_window_seconds C) st1 = (res1, st2)" by fastforce
  have l1: "live st1 later = live st later" if "t \<le> later" for later
    using get_live [OF that, of "penalty_key ?b" st] g by simp
  have apart: "penalty_key b \<noteq> ?b" "penalty_key ?b \<noteq> b" "penalty_key ?b = penalty_key b \<longleftrightarrow> ?b = b"
    using penalty_apart [OF ns] b by (auto simp: penalty_key_def)
  have l2: "live st2 later = (case res1 of Inl _ \<Rightarrow> live st later
      | Inr n \<Rightarrow> (live st later)(?b := if later < fadd t (of_int (rlc_window_seconds C)) then Some (py_str_int n) else None))"
    if "t \<le> later" for later
    using incr_live [OF that, of ?b "rlc_window_seconds C" st1] i l1 [OF that] by (cases res1) simp_all
  show ?thesis
  proof (cases "?b = b")
    case True
    have "pen = None" using get_value [of t "penalty_key ?b" st] g w True by (simp add: under_limit_def)
    moreover obtain c where c: "res1 = Inr c" "c \<le> k + 1"
    proof (cases "live st t b")
      case None
      then show thesis using that [of 1] incr_value [of t ?b "rlc_window_seconds C" st1] i l1 [of t] True k by simp
    next
      case (Some v)
      then obtain d where "v = py_str_int d" "d \<le> k" using w by (auto simp: under_limit_def split: option.splits)
      then show thesis
        using that [of "d + 1"] incr_value [of t ?b "rlc_window_seconds C" st1] i l1 [of t] True Some by (simp add: py_int_str_int)
    qed
    ultimately have "st' = st2" "\<not> isl res" using d g i k(2) by (auto simp: rate_limit_dispatch_def Let_def)
    then show ?thesis using w l2 c True apart by (auto simp: under_limit_def)
  next
    case False
    have "live st2 later b = live st later b \<and> live st2 later (penalty_key b) = live st later (penalty_key b)" if "t \<le> later" for later
      using l2 [OF that] False apart by (auto split: sum.splits)
    moreover have "st' = st1 \<or> st' = st2 \<or> st' = so_set ops t (penalty_key ?b) (asc ''1'') (rlc_penalty_seconds C) st2"
      using d g i by (auto simp: rate_limit_dispatch_def Let_def split: sum.splits if_splits)
    ultimately have "live st' later b = live st later b \<and> live st' later (penalty_key b) = live st later (penalty_key b)" if "t \<le> later" for later
      using l1 [OF that] set_live [OF that, of "penalty_key ?b" _ _ st2] that False apart by auto
    then show ?thesis using w False by (simp add: under_limit_def)
  qed
qed

lemma run_open:
  assumes "sorted (map fst calls)" and "\<forall>c \<in> set calls. latest \<le> fst c" and "under_limit b k latest st" and "0 \<le> k"
    and ns: "\<not> startswith (rlc_namespace C) (asc ''penalty'')" and "i < length calls" and "b = bucket_key U C (snd (calls ! i))"
    and "k + int (length (filter (\<lambda>(t, r). bucket_key U C r = b) (take i calls))) < rlc_requests C"
  shows "limit_run ops U C calls st ! i"
  using assms(1-4,6-8)
proof (induction calls arbitrary: latest k st i)
  case (Cons c calls)
  obtain t r where c: "c = (t, r)" by (cases c)
  obtain res st' where d: "rate_limit_dispatch ops U C t r st = (res, st')" by fastforce
  have t: "latest \<le> t" "sorted (map fst calls)" "\<forall>c \<in> set calls. t \<le> fst c" using Cons.prems(1,2) c by auto
  have "k < rlc_requests C" using Cons.prems(7) by simp
  note step = under_limit_dispatch [OF under_limit_later [OF Cons.prems(3) t(1)] d ns Cons.prems(6) Cons.prems(4) this]
  show ?case
  proof (cases i)
    case 0
    then show ?thesis using step c d Cons.prems(6) by simp
  next
    case (Suc i')
    have "limit_run ops U C calls st' ! i'"
      by (rule Cons.IH [OF t(2,3) conjunct2 [OF step]]) (use Cons.prems(4-7) Suc c in \<open>auto split: if_splits\<close>)
    then show ?thesis using Suc c d by simp
  qed
qed simp

text \<open>A taken key stays taken.\<close>

lemma key_blocked:
  assumes "sorted (map fst calls)" and "\<forall>c \<in> set calls. latest \<le> fst c"
    and "\<And>later. latest \<le> later \<Longrightarrow> later < until \<Longrightarrow> live st later key \<noteq> None"
    and "j < length calls" and "once_run ops U calls st ! j"
    and "u_upper U (gr_method (snd (calls ! j))) = asc ''POST''" and "normalize_token U (gr_idempotency_key (snd (calls ! j))) = key"
  shows "until \<le> fst (calls ! j)"
  using assms
proof (induction calls arbitrary: latest st j)
  case (Cons c calls)
  obtain t r where c: "c = (t, r)" by (cases c)
  obtain res st' where d: "idempotency_dispatch ops U t r st = (res, st')" by fastforce
  have t: "latest \<le> t" using Cons.prems(2) c by simp
  show ?case
  proof (cases j)
    case 0
    show ?thesis
    proof (rule ccontr)
      assume "\<not> ?thesis"
      then have "t < until" using 0 c by simp
      from Cons.prems(3) [OF t this] have "live st t key \<noteq> None" .
      then have "isl res" using d 0 c Cons.prems(6,7) add_value [of t key "py_str_int 86400" 86400 st]
        by (auto simp: idempotency_dispatch_def Let_def split: prod.splits if_splits)
      then show False using Cons.prems(5) 0 c d by simp
    qed
  next
    case (Suc i)
    have "live st' later key \<noteq> None" if l: "t \<le> later" "later < until" for later
    proof -
      have "live st t key \<noteq> None" using Cons.prems(3) t l by simp
      moreover have "live st later key \<noteq> None" using Cons.prems(3) t l by simp
      ultimately show ?thesis using d add_live [OF l(1), of "normalize_token U (gr_idempotency_key r)" "py_str_int 86400" 86400 st]
        by (auto simp: idempotency_dispatch_def Let_def split: prod.splits if_splits)
    qed
    moreover have "sorted (map fst calls)" "\<forall>c \<in> set calls. t \<le> fst c" using Cons.prems(1) c by auto
    ultimately show ?thesis using Cons.IH [of t st' i] Cons.prems(4-7) Suc c d by auto
  qed
qed simp

lemma key_taken:
  assumes "idempotency_dispatch ops U t r st = (Inr (), st')" and "u_upper U (gr_method r) = asc ''POST''"
    and "t \<le> later" and "later < fadd t 86400"
  shows "live st' later (normalize_token U (gr_idempotency_key r)) \<noteq> None"
proof -
  let ?k = "normalize_token U (gr_idempotency_key r)"
  obtain b s where s: "so_set_if_not_exists ops t ?k (py_str_int 86400) 86400 st = (b, s)" by fastforce
  then have "b" "st' = s" using assms(1,2) by (auto simp: idempotency_dispatch_def Let_def split: if_splits)
  then show ?thesis
    using add_value [of t ?k "py_str_int 86400" 86400 st] add_live [OF assms(3), of ?k "py_str_int 86400" 86400 st] s assms(4) by simp
qed

lemma once_spaced:
  assumes "sorted (map fst calls)" and "i < j" and "j < length calls"
    and "once_run ops U calls st ! i" and "once_run ops U calls st ! j"
    and "u_upper U (gr_method (snd (calls ! i))) = asc ''POST''" and "u_upper U (gr_method (snd (calls ! j))) = asc ''POST''"
    and "normalize_token U (gr_idempotency_key (snd (calls ! i))) = normalize_token U (gr_idempotency_key (snd (calls ! j)))"
  shows "fadd (fst (calls ! i)) 86400 \<le> fst (calls ! j)"
  using assms
proof (induction calls arbitrary: st i j)
  case (Cons c calls)
  obtain t r where c: "c = (t, r)" by (cases c)
  obtain res st' where d: "idempotency_dispatch ops U t r st = (res, st')" by fastforce
  obtain j' where j: "j = Suc j'" using Cons.prems(2) by (cases j) auto
  have s: "sorted (map fst calls)" "\<forall>c \<in> set calls. t \<le> fst c" using Cons.prems(1) c by auto
  show ?case
  proof (cases i)
    case 0
    then have res: "res = Inr ()" using Cons.prems(4) c d by (cases res) auto
    have post: "u_upper U (gr_method r) = asc ''POST''" using Cons.prems(6) 0 c by simp
    have "fadd t 86400 \<le> fst (calls ! j')"
      by (rule key_blocked [OF s key_taken [OF d [unfolded res] post]]) (use Cons.prems(3,5,7,8) j 0 c d in auto)
    then show ?thesis using 0 j c by simp
  next
    case (Suc i')
    then show ?thesis using Cons.IH [OF s(1), of i' j' st'] Cons.prems(2-8) j c d by auto
  qed
qed simp

text \<open>A request that the limit refuses has taken its key, and its repetition is refused as a replay.\<close>

lemma refused_is_lost:
  assumes "gate ops U C A now r s = (Inl (Rate_Limit_Exceeded x), s')" and "u_upper U (gr_method r) = asc ''POST''"
    and "now \<le> later" and "later < fadd now 86400"
  shows "fst (gate ops U C A later r s') = Inl Idempotency_Replay"
proof -
  obtain u where a: "bearer_dispatch A r = Inr u"
    using assms(1) by (cases "bearer_dispatch A r") (auto simp: gate_def bearer_dispatch_def Let_def split: if_splits)
  obtain res keys where i: "idempotency_dispatch ops U now r (gs_keys s) = (res, keys)" by fastforce
  have ok: "res = Inr ()"
  proof (cases res)
    case (Inl y)
    then have "y = Rate_Limit_Exceeded x" using assms(1) a i by (simp add: gate_def)
    then show ?thesis using i Inl by (auto simp: idempotency_dispatch_def Let_def split: if_splits prod.splits)
  qed simp
  then have k: "gs_keys s' = keys" using assms(1) a i by (auto simp: gate_def split: prod.splits)
  let ?k = "normalize_token U (gr_idempotency_key r)"
  have "live keys later ?k \<noteq> None" using i ok assms(2-4) key_taken by blast
  moreover have "?k \<noteq> []" using i ok assms(2) by (auto simp: idempotency_dispatch_def Let_def)
  ultimately have "fst (idempotency_dispatch ops U later r keys) = Inl Idempotency_Replay"
    using assms(2) add_value [of later ?k "py_str_int 86400" 86400 keys]
    by (auto simp: idempotency_dispatch_def Let_def split: prod.splits)
  then show ?thesis using a k by (auto simp: gate_def split: sum.splits prod.splits)
qed

end

section \<open>The store in memory\<close>

definition memory_live :: "memory_store \<Rightarrow> pyfloat \<Rightarrow> pystr \<Rightarrow> pystr option" where
  "memory_live st now k = map_option snd (expire_locked now st k)"

lemma zero_text: "py_int (asc ''0'') = Some 0"
  by code_simp

interpretation memory: timed_store memory_ops memory_live
proof unfold_locales
qed (auto simp: memory_ops_def memory_live_def expire_locked_def memory_get_def memory_incr_def memory_set_def memory_delete_def
      memory_set_if_not_exists_def zero_text fun_eq_iff Let_def split: option.splits if_splits)

lemma memory_live_empty: "memory_live Map.empty t k = None"
  by (simp add: memory_live_def expire_locked_def)

text \<open>
  C30 gate_limit: over any run of the limit, in the order of time, from the empty store, and for a namespace that does not
  start with \<^verbatim>\<open>penalty\<close> (the default one does not; the keys of buckets and of penalties are then apart), a bucket gets at most the limit of requests through in
  any stretch of time as long as the window, and the first requests of a bucket up to the limit all get through.
\<close>

theorem gate_limit:
  assumes "sorted (map fst calls)" and "\<not> startswith (rlc_namespace C) (asc ''penalty'')"
  shows "int (passed U C (bucket_key U C r0) from (fadd from (of_int (rlc_window_seconds C))) calls
      (limit_run memory_ops U C calls Map.empty)) \<le> max 0 (rlc_requests C) \<and>
    (i < length calls \<longrightarrow>
     int (length (filter (\<lambda>(t, r). bucket_key U C r = bucket_key U C (snd (calls ! i))) (take i calls))) < rlc_requests C \<longrightarrow>
     limit_run memory_ops U C calls Map.empty ! i)"
proof -
  let ?t = "case calls of [] \<Rightarrow> 0 | c # _ \<Rightarrow> fst c"
  have first: "\<forall>c \<in> set calls. ?t \<le> fst c" using assms(1) by (cases calls) auto
  have "memory.counted b until 0 ?t Map.empty" "memory.under_limit b 0 ?t Map.empty" for b until
    by (simp_all add: memory.counted_def memory.under_limit_def memory_live_empty)
  then show ?thesis
    using memory.run_bounded [OF assms(1) first, of 0 "from" "bucket_key U C r0" C Map.empty U r0]
      memory.run_open [OF assms(1) first _ _ assms(2), of _ 0 Map.empty i U] assms(2) by auto
qed

text \<open>
  C31 posts_are_spaced: over any run of the check of keys, two POST requests with the same normalised key that both get
  through are a day apart.
\<close>

theorem posts_are_spaced:
  assumes "sorted (map fst calls)" and "i < j" and "j < length calls"
    and "once_run memory_ops U calls st ! i" and "once_run memory_ops U calls st ! j"
    and "u_upper U (gr_method (snd (calls ! i))) = asc ''POST''" and "u_upper U (gr_method (snd (calls ! j))) = asc ''POST''"
    and "normalize_token U (gr_idempotency_key (snd (calls ! i))) = normalize_token U (gr_idempotency_key (snd (calls ! j)))"
  shows "fadd (fst (calls ! i)) 86400 \<le> fst (calls ! j)"
  by (rule memory.once_spaced [OF assms])

section \<open>Examples\<close>

definition sample_limit :: RateLimitConfig where
  "sample_limit = \<lparr>rlc_namespace = asc ''rate'', rlc_requests = 2, rlc_window_seconds = 60, rlc_penalty_seconds = 120\<rparr>"

definition sample_post :: "pystr \<Rightarrow> gate_request" where
  "sample_post key = \<lparr>gr_method = asc ''post'', gr_path = asc ''/api/exports'', gr_rate_key = None, gr_client_id = Some (asc ''c1''),
     gr_host = None, gr_idempotency_key = Some key, gr_authorization = None\<rparr>"

theorem gate_limit_witness:
  "passed ascii_ucd sample_limit (bucket_key ascii_ucd sample_limit (sample_post [97])) 10 (fadd 10 60)
     [(10, sample_post [97]), (20, sample_post [97]), (30, sample_post [97])]
     (limit_run memory_ops ascii_ucd sample_limit [(10, sample_post [97]), (20, sample_post [97]), (30, sample_post [97])] Map.empty) \<le> 2 \<and>
   limit_run memory_ops ascii_ucd sample_limit [(10, sample_post [97]), (20, sample_post [97]), (30, sample_post [97])] Map.empty ! 1"
proof -
  let ?c = "[(10, sample_post [97]), (20, sample_post [97]), (30, sample_post [97])] :: (pyfloat \<times> gate_request) list"
  have s: "sorted (map fst ?c)" by simp
  have ns: "\<not> startswith (rlc_namespace sample_limit) (asc ''penalty'')" by code_simp
  show ?thesis
    using gate_limit [OF s ns, of ascii_ucd "sample_post [97]" 10 1] by (simp add: sample_limit_def)
qed

text \<open>The key of the third request is the first one's, with a digit in another script.\<close>

theorem posts_are_spaced_witness:
  "fadd (fst ([(10, sample_post [49]), (20, sample_post [50]), (86410, sample_post [1777])] ! 0)) 86400
     \<le> fst ([(10, sample_post [49]), (20, sample_post [50]), (86410, sample_post [1777])] ! 2)"
proof -
  let ?c = "[(10, sample_post [49]), (20, sample_post [50]), (86410, sample_post [1777])] :: (pyfloat \<times> gate_request) list"
  have s: "sorted (map fst ?c)" by simp
  have r: "once_run memory_ops ascii_ucd ?c Map.empty = [True, True, True]" by code_simp
  have p: "u_upper ascii_ucd (gr_method (snd (?c ! 0))) = asc ''POST''" "u_upper ascii_ucd (gr_method (snd (?c ! 2))) = asc ''POST''"
    by code_simp+
  have k: "normalize_token ascii_ucd (gr_idempotency_key (snd (?c ! 0))) = normalize_token ascii_ucd (gr_idempotency_key (snd (?c ! 2)))"
    by code_simp
  have "once_run memory_ops ascii_ucd ?c Map.empty ! 0" "once_run memory_ops ascii_ucd ?c Map.empty ! 2" unfolding r by simp_all
  from posts_are_spaced [OF s _ _ this p k] show ?thesis by simp
qed

text \<open>
  Every attempt starts the window of its counter anew: one request in 59 seconds is refused as the third of two in 60, and
  has a penalty of two minutes.
\<close>

lemma steady_client_refused:
  "limit_run memory_ops ascii_ucd sample_limit
     [(0, sample_post [97]), (59, sample_post [97]), (118, sample_post [97]), (177, sample_post [97])] Map.empty = [True, True, False, False]"
  by code_simp

text \<open>
  The keys are taken before the limit is checked, so that a POST refused by the limit is refused as a replay when it is
  repeated; with the limit first, as the documents have it, it would not be.
\<close>

lemma limited_post_is_lost:
  assumes "gate memory_ops U C A now r s = (Inl (Rate_Limit_Exceeded x), s')" and "u_upper U (gr_method r) = asc ''POST''"
    and "now \<le> later" and "later < fadd now 86400"
  shows "fst (gate memory_ops U C A later r s') = Inl Idempotency_Replay"
  by (rule memory.refused_is_lost [OF assms])

end
