(* ===== verification/Xlsx_Cells.thy ===== *)
theory Xlsx_Cells
  imports Sabt_Writer Upload_Zip "HOL-Library.AList"
begin

text \<open>
  \<^verbatim>\<open>phase6_import_to_sabt/xlsx\<close>: \<^verbatim>\<open>sanitize.py\<close>, the rows of \<^verbatim>\<open>writer.py\<close> and the reader of uploads \<^verbatim>\<open>reader.py\<close>. A row is a dict, as an
  association list. NFC, the sheets \<^verbatim>\<open>openpyxl\<close> reads and the members \<^verbatim>\<open>zipfile\<close> reads are parameters (\<open>xlsx_lib\<close>). Number
  formats and types of cells and the flags of \<^verbatim>\<open>excel_safety\<close>, which are constants, are left out.
\<close>

section \<open>Cells of exports\<close>

record xlsx_lib =
  xl_ucd :: ucd
  xl_nfc :: "pystr \<Rightarrow> pystr"
  xl_sheet :: "bytes \<Rightarrow> pyval list list option"
  xl_members :: "bytes \<Rightarrow> (pystr \<times> bytes) list option"

definition SENSITIVE_COLUMNS :: "pystr list" where
  "SENSITIVE_COLUMNS = map asc [''national_id'', ''counter'', ''mobile'', ''mentor_id'', ''school_code'']"

definition WORKFLOW_COLUMNS :: "pystr list" where
  "WORKFLOW_COLUMNS = map asc
     [''national_id'', ''counter'', ''first_name'', ''last_name'', ''gender'', ''mobile'', ''reg_center'',
      ''reg_status'', ''group_code'', ''student_type'', ''school_code'', ''mentor_id'', ''mentor_name'',
      ''mentor_mobile'', ''allocation_date'', ''year_code'']"

function collapse_space :: "pystr \<Rightarrow> pystr" where
  "collapse_space [] = []"
| "collapse_space (c # s) = (if py_isspace c then 32 # collapse_space (dropWhile py_isspace s) else c # collapse_space s)"
  by pat_completeness auto
termination
  by (relation "measure length") (auto simp: le_imp_less_Suc length_dropWhile_le)

definition normalize_excel_text :: "xlsx_lib \<Rightarrow> pystr \<Rightarrow> pystr" where
  "normalize_excel_text L value =
     (let normalized = xl_nfc L value;
          normalized = replace_char 1603 1705 (replace_char 1610 1740 normalized);
          normalized = remove_chars [8203, 8204, 8205] normalized;
          normalized = replace_char 10 32 (replace_char 13 32 normalized);
          normalized = filter (\<lambda>c. \<not> control_char c) normalized
      in py_strip (collapse_space normalized))"

definition normalize_digits_ascii :: "pystr \<Rightarrow> pystr" where
  "normalize_digits_ascii value = map fold_fa_digit value"

definition normalize_digits_fa :: "pystr \<Rightarrow> pystr" where
  "normalize_digits_fa value = map (\<lambda>c. if 48 \<le> c \<and> c \<le> 57 then c + 1728 else c) value"

definition MAX_CELL_LENGTH :: int where
  "MAX_CELL_LENGTH = 32767"

definition safe_cell :: "pystr \<Rightarrow> pystr" where
  "safe_cell value =
     (let cell = (if value \<noteq> [] \<and> hd value \<in> {61, 43, 45, 64, 9, 13, 10} then 39 # value else value);
          cell = replace_char 10 32 (replace_char 13 32 cell);
          cell = py_strip cell
      in if MAX_CELL_LENGTH < int (length cell) then take (nat (MAX_CELL_LENGTH - 1)) cell @ [8230] else cell)"

definition workflow_cell :: "xlsx_lib \<Rightarrow> source_row \<Rightarrow> pystr \<Rightarrow> pystr" where
  "workflow_cell L raw column =
     (let raw_text = (case map_of raw column of None \<Rightarrow> [] | Some PNone \<Rightarrow> [] | Some v \<Rightarrow> py_str v);
          normalized = normalize_excel_text L raw_text;
          normalized = (if column = asc ''school_code'' \<and> normalized \<noteq> [] then
              (case py_int normalized of Some n \<Rightarrow> fmt_0d 6 n | None \<Rightarrow> normalize_digits_ascii normalized) else normalized)
      in if column \<in> set SENSITIVE_COLUMNS then
           (let ascii_value = normalize_digits_ascii normalized
            in if column = asc ''mobile'' then sanitize_phone (xl_ucd L) (PStr ascii_value) else ascii_value)
         else safe_cell (normalize_digits_fa normalized))"

definition workflow_row :: "xlsx_lib \<Rightarrow> source_row \<Rightarrow> source_row" where
  "workflow_row L raw = map (\<lambda>column. (column, PStr (workflow_cell L raw column))) WORKFLOW_COLUMNS"

section \<open>Files of exports\<close>

text \<open>The cells \<^verbatim>\<open>csv.DictWriter\<close> writes for a prepared row.\<close>

definition row_cells :: "source_row \<Rightarrow> pystr list" where
  "row_cells row = map (\<lambda>column. case map_of row column of None \<Rightarrow> [] | Some PNone \<Rightarrow> [] | Some v \<Rightarrow> py_str v) WORKFLOW_COLUMNS"

definition workflow_csv :: "source_row list \<Rightarrow> pystr" where
  "workflow_csv rows = concat (map (csv_row [13, 10]) (WORKFLOW_COLUMNS # map row_cells rows))"

text \<open>The sheets of a workbook: every row is prepared once more.\<close>

definition workflow_book :: "xlsx_lib \<Rightarrow> nat \<Rightarrow> source_row list \<Rightarrow> (pystr \<times> pystr list list) list" where
  "workflow_book L chunk_size rows =
     (let sheets = map (\<lambda>(index, chunk). (sheet_name index, WORKFLOW_COLUMNS # map (\<lambda>r. row_cells (workflow_row L r)) chunk))
            (enumerate 1 (chunk_iterable chunk_size rows))
      in if sheets = [] then [(sheet_name 1, [WORKFLOW_COLUMNS])] else sheets)"

definition book_counts :: "(pystr \<times> pystr list list) list \<Rightarrow> (pystr \<times> nat) list" where
  "book_counts book = map (\<lambda>(name, cells). (name, length cells - 1)) book"

section \<open>Uploads\<close>

datatype upload_refusal =
    UPLOAD_TOO_LARGE | UPLOAD_FORMAT_NOT_ALLOWED | UPLOAD_EMPTY | UPLOAD_VALIDATION_ERROR
  | UPLOAD_ZIP_EMPTY | UPLOAD_ZIP_TRAVERSAL | UPLOAD_ZIP_UNSUPPORTED | Upload_Unreadable

record UploadResult =
  ur_rows :: "sabt_row list"
  ur_row_counts :: "(pystr \<times> nat) list"
  ur_format :: pystr

definition MAX_UPLOAD_SIZE_BYTES :: int where
  "MAX_UPLOAD_SIZE_BYTES = 52428800"

definition normalized_header :: "ucd \<Rightarrow> pystr \<Rightarrow> pystr" where
  "normalized_header U v = u_lower U (sanitize_text U (PStr v))"

definition sanitize_cell :: "ucd \<Rightarrow> pystr \<Rightarrow> pyval \<Rightarrow> pystr" where
  "sanitize_cell U column value =
     (let cell = (case value of PNone \<Rightarrow> [] | v \<Rightarrow> py_str v);
          cell = sanitize_text U (PStr cell);
          cell = (if column \<in> set SENSITIVE_COLUMNS then
              (let folded = fold_digits cell
               in if column = asc ''school_code'' \<and> folded \<noteq> [] then
                    (let digits = filter digit_char folded in if digits \<noteq> [] then zpad 6 digits else folded)
                  else folded)
            else cell);
          cell = (if column = asc ''mobile'' then sanitize_phone U (PStr cell) else cell)
      in if cell \<noteq> [] \<and> hd cell \<in> {61, 43, 45, 64} then guard_formula cell else cell)"

text \<open>A dict filled column by column: of equal headers the last one counts.\<close>

definition upload_row :: "ucd \<Rightarrow> pystr list \<Rightarrow> pyval list \<Rightarrow> sabt_row" where
  "upload_row U header_map raw =
     foldl (\<lambda>values (index, column).
         AList.update column (sanitize_cell U column (if index < length raw then raw ! index else PStr [])) values)
       [] (enumerate 0 header_map)"

definition read_rows :: "ucd \<Rightarrow> pyval list list \<Rightarrow> sabt_row list" where
  "read_rows U rows =
     (case rows of
        [] \<Rightarrow> []
      | header # body \<Rightarrow>
          (let header_map = map (\<lambda>v. normalized_header U (case v of PNone \<Rightarrow> [] | PBool False \<Rightarrow> [] | PInt i \<Rightarrow> if i = 0 then [] else py_str_int i
                                 | v \<Rightarrow> py_str v)) header
           in map (upload_row U header_map) body))"

text \<open>\<^verbatim>\<open>utf-8-sig\<close> drops a byte order mark at the beginning.\<close>

definition read_upload_csv :: "ucd \<Rightarrow> bytes \<Rightarrow> upload_refusal + sabt_row list" where
  "read_upload_csv U data =
     (case utf8_decode data of
        None \<Rightarrow> Inl Upload_Unreadable
      | Some content \<Rightarrow>
          (case csv_read (if content \<noteq> [] \<and> hd content = 65279 then tl content else content) of
             None \<Rightarrow> Inl Upload_Unreadable
           | Some rows \<Rightarrow> Inr (read_rows U (map (map PStr) rows))))"

definition read_inner :: "xlsx_lib \<Rightarrow> pystr \<Rightarrow> bytes \<Rightarrow> upload_refusal + UploadResult" where
  "read_inner L ext data =
     rbind (if ext = asc ''.csv'' then rbind (read_upload_csv (xl_ucd L) data) (\<lambda>rows. Inr (rows, asc ''csv''))
            else case xl_sheet L data of
                   None \<Rightarrow> Inl Upload_Unreadable
                 | Some rows \<Rightarrow> Inr (read_rows (xl_ucd L) rows, asc ''xlsx'')) (\<lambda>(rows, fmt).
       case rows of
         [] \<Rightarrow> Inl UPLOAD_EMPTY
       | first # _ \<Rightarrow>
           if asc ''school_code'' \<notin> fst ` set first then Inl UPLOAD_VALIDATION_ERROR
           else Inr \<lparr>ur_rows = rows, ur_row_counts = [(sheet_name 1, length rows)], ur_format = fmt\<rparr>)"

text \<open>The suffix of a path as \<^verbatim>\<open>pathlib\<close> has it: from the last dot of the name, unless it is the first or the last character.\<close>

definition path_suffix :: "pystr \<Rightarrow> pystr" where
  "path_suffix path =
     (let name = (case filter (\<lambda>p. p \<noteq> [] \<and> p \<noteq> [46]) (split_char 47 path) of [] \<Rightarrow> [] | parts \<Rightarrow> last parts);
          ext = takeWhile (\<lambda>c. c \<noteq> 46) (rev name)
      in if ext = [] \<or> length name \<le> Suc (length ext) then [] else 46 # rev ext)"

definition extract_first_member :: "xlsx_lib \<Rightarrow> bytes \<Rightarrow> upload_refusal + bytes \<times> pystr" where
  "extract_first_member L data =
     (case xl_members L data of
        None \<Rightarrow> Inl Upload_Unreadable
      | Some members \<Rightarrow>
          (case filter (\<lambda>(name, _). \<not> endswith name [47]) members of
             [] \<Rightarrow> Inl UPLOAD_ZIP_EMPTY
           | (member, content) # _ \<Rightarrow>
               if startswith member [47] \<or> asc ''..'' \<in> set (split_char 47 member) then Inl UPLOAD_ZIP_TRAVERSAL
               else let suffix = u_lower (xl_ucd L) (path_suffix member)
                 in if suffix \<notin> {asc ''.xlsx'', asc ''.csv''} then Inl UPLOAD_ZIP_UNSUPPORTED else Inr (content, suffix)))"

definition read_upload :: "xlsx_lib \<Rightarrow> pystr \<Rightarrow> bytes \<Rightarrow> upload_refusal + UploadResult" where
  "read_upload L path data =
     (if MAX_UPLOAD_SIZE_BYTES < int (length data) then Inl UPLOAD_TOO_LARGE
      else let ext = u_lower (xl_ucd L) (path_suffix path)
        in if ext \<notin> {asc ''.xlsx'', asc ''.csv'', asc ''.zip''} then Inl UPLOAD_FORMAT_NOT_ALLOWED
           else if ext = asc ''.zip'' then rbind (extract_first_member L data) (\<lambda>(content, suffix). read_inner L suffix content)
           else read_inner L ext data)"

section \<open>What the files hold\<close>

lemma row_cells_workflow: "row_cells (workflow_row L raw) = map (workflow_cell L raw) WORKFLOW_COLUMNS"
proof -
  have "map_of (map (\<lambda>c. (c, f c)) cs) c = (if c \<in> set cs then Some (f c) else None)" for f :: "pystr \<Rightarrow> pyval" and cs c
    by (induction cs) auto
  then show ?thesis by (simp add: row_cells_def workflow_row_def)
qed

lemma workflow_csv_reads:
  "csv_read (workflow_csv (map (workflow_row L) rows)) = Some (WORKFLOW_COLUMNS # map (\<lambda>r. map (workflow_cell L r) WORKFLOW_COLUMNS) rows)"
proof -
  have "list_all (\<lambda>cells. cells \<noteq> []) (WORKFLOW_COLUMNS # map row_cells (map (workflow_row L) rows))"
    by (auto simp: list_all_iff row_cells_workflow WORKFLOW_COLUMNS_def)
  from csv_rows_read [OF disjI1 [OF refl] this] show ?thesis
    by (simp add: workflow_csv_def row_cells_workflow comp_def)
qed

lemma sheet_rows:
  "sum_list (map snd (book_counts (map (\<lambda>(index, chunk). (sheet_name index, header # map f chunk)) (enumerate n chunks)))) =
   length (concat chunks)"
  by (induction chunks arbitrary: n) (auto simp: book_counts_def)

lemma workflow_book_rows: "sum_list (map snd (book_counts (workflow_book L n rows))) = length rows"
proof -
  let ?sheets = "map (\<lambda>(index, chunk). (sheet_name index, WORKFLOW_COLUMNS # map (\<lambda>r. row_cells (workflow_row L r)) chunk))
      (enumerate 1 (chunk_iterable n rows))"
  have s: "sum_list (map snd (book_counts ?sheets)) = length rows" by (simp only: sheet_rows chunk_iterable_concat)
  show ?thesis
  proof (cases "?sheets = []")
    case True
    then have "length rows = 0" using s by (simp add: book_counts_def)
    then show ?thesis using True by (simp only: workflow_book_def Let_def) (simp add: book_counts_def)
  next
    case False
    then show ?thesis using s by (simp only: workflow_book_def Let_def if_False)
  qed
qed

text \<open>Columns that are not sensitive never begin like a formula; sensitive ones may.\<close>

definition risky_start :: "pystr \<Rightarrow> bool" where
  "risky_start s \<longleftrightarrow> s \<noteq> [] \<and> hd s \<in> {61, 43, 45, 64, 9, 13, 10}"

lemma strip_keeps_head: "s \<noteq> [] \<Longrightarrow> \<not> py_isspace (hd s) \<Longrightarrow> py_strip s \<noteq> [] \<and> hd (py_strip s) = hd s"
proof -
  assume s: "s \<noteq> []" "\<not> py_isspace (hd s)"
  then obtain c cs where c: "s = c # cs" "\<not> py_isspace c" by (cases s) auto
  then have "dropWhile py_isspace (rev s) = dropWhile py_isspace (rev cs) @ [c] \<or> dropWhile py_isspace (rev s) = [c]"
    by (auto simp: dropWhile_append)
  then show ?thesis using c by (auto simp: py_strip_def strip_by_def)
qed

lemma safe_cell_start:
  assumes "v = [] \<or> \<not> py_isspace (hd v)"
  shows "\<not> risky_start (safe_cell v)"
proof (cases "v = []")
  case True
  then show ?thesis by (simp add: safe_cell_def risky_start_def py_defs MAX_CELL_LENGTH_def)
next
  case False
  let ?g = "if hd v \<in> {61, 43, 45, 64, 9, 13, 10} then 39 # v else v"
  let ?r = "replace_char 10 32 (replace_char 13 32 ?g)"
  have sp: "\<not> py_isspace (hd v)" using assms False by simp
  then have nl: "hd v \<noteq> 13 \<and> hd v \<noteq> 10 \<and> hd v \<noteq> 9" by (auto simp: py_isspace_def)
  have "\<not> py_isspace 39" by (simp add: py_isspace_def)
  then have r: "?r \<noteq> []" "\<not> py_isspace (hd ?r)" "hd ?r \<notin> {61, 43, 45, 64, 9, 13, 10}"
    using False sp nl by (auto simp: replace_char_def hd_map)
  from strip_keeps_head [OF r(1,2)] have "py_strip ?r \<noteq> []" "hd (py_strip ?r) \<notin> {61, 43, 45, 64, 9, 13, 10}" using r(3) by auto
  then have "\<not> risky_start (if MAX_CELL_LENGTH < int (length (py_strip ?r)) then take (nat (MAX_CELL_LENGTH - 1)) (py_strip ?r) @ [8230] else py_strip ?r)"
    by (auto simp: risky_start_def MAX_CELL_LENGTH_def hd_append hd_take)
  moreover have "safe_cell v = (if MAX_CELL_LENGTH < int (length (py_strip ?r)) then take (nat (MAX_CELL_LENGTH - 1)) (py_strip ?r) @ [8230] else py_strip ?r)"
    using False by (simp only: safe_cell_def Let_def simp_thms)
  ultimately show ?thesis by simp
qed

lemma digits_fa_head:
  assumes "v = [] \<or> \<not> py_isspace (hd v)"
  shows "normalize_digits_fa v = [] \<or> \<not> py_isspace (hd (normalize_digits_fa v))"
proof (cases v)
  case (Cons c s)
  have d: "\<not> py_isspace d" if "1776 \<le> d" "d \<le> 1785" for d using that by (simp add: py_isspace_def)
  show ?thesis
  proof (cases "48 \<le> c \<and> c \<le> 57")
    case True
    then show ?thesis using Cons d [of "c + 1728"] by (simp add: normalize_digits_fa_def)
  next
    case False
    then show ?thesis using Cons assms by (auto simp: normalize_digits_fa_def)
  qed
qed (simp add: normalize_digits_fa_def)

lemma visible_cell_safe:
  assumes "column \<notin> set SENSITIVE_COLUMNS"
  shows "\<not> risky_start (workflow_cell L raw column)"
proof -
  have sc: "column \<noteq> asc ''school_code''" using assms by (auto simp: SENSITIVE_COLUMNS_def)
  let ?n = "normalize_excel_text L (case map_of raw column of None \<Rightarrow> [] | Some PNone \<Rightarrow> [] | Some v \<Rightarrow> py_str v)"
  have "py_strip ?n = ?n" by (simp add: normalize_excel_text_def Let_def py_strip_def strip_by_idem)
  then have "?n = [] \<or> \<not> py_isspace (hd ?n)" using stripped_hd by blast
  from safe_cell_start [OF digits_fa_head [OF this]] show ?thesis
    unfolding workflow_cell_def Let_def using assms sc by (simp only: if_False simp_thms)
qed

definition plain_lib :: xlsx_lib where
  "plain_lib = \<lparr>xl_ucd = ascii_ucd, xl_nfc = (\<lambda>s. s), xl_sheet = (\<lambda>_. None), xl_members = (\<lambda>_. None)\<rparr>"

lemma sensitive_cell_formula:
  "risky_start (workflow_cell plain_lib [(asc ''mentor_id'', PStr (asc ''=1+1''))] (asc ''mentor_id''))"
  by code_simp

text \<open>The name the route gives to the file of an upload ends in \<^verbatim>\<open>.tmp\<close>, which the reader refuses.\<close>

lemma split_char_nonempty: "split_char c s \<noteq> []"
  by (induction s) (auto split: list.splits)

lemma split_char_join: "split_char c (a @ c # b) = split_char c a @ split_char c b"
proof (induction a)
  case (Cons d a)
  then show ?case using split_char_nonempty [of c a] by (auto split: list.splits)
qed simp

lemma last_part: "(case xs @ [x] of [] \<Rightarrow> d | p # ps \<Rightarrow> last (p # ps)) = x"
  by (cases xs) auto

lemma route_uploads_refused:
  assumes "u_lower (xl_ucd L) (asc ''.tmp'') = asc ''.tmp''" and "47 \<notin> set hex" and "int (length data) \<le> MAX_UPLOAD_SIZE_BYTES"
  shows "read_upload L (dir @ 47 # asc ''upload-'' @ hex @ asc ''.tmp'') data = Inl UPLOAD_FORMAT_NOT_ALLOWED"
proof -
  let ?name = "asc ''upload-'' @ hex @ asc ''.tmp''"
  have "47 \<notin> set ?name" using assms(2) by (simp add: asc_def)
  then have "split_char 47 (dir @ 47 # ?name) = split_char 47 dir @ [?name]" by (simp only: split_char_join split_char_id not_False_eq_True)
  moreover have "?name \<noteq> [] \<and> ?name \<noteq> [46]" by (simp add: asc_def)
  ultimately have "path_suffix (dir @ 47 # ?name) = (let ext = takeWhile (\<lambda>c. c \<noteq> 46) (rev ?name)
      in if ext = [] \<or> length ?name \<le> Suc (length ext) then [] else 46 # rev ext)"
    by (simp only: path_suffix_def Let_def filter_append filter.simps if_True simp_thms last_part)
  also have "\<dots> = asc ''.tmp''" by (simp add: asc_def)
  finally show ?thesis using assms(1,3) by (simp add: read_upload_def asc_def)
qed

text \<open>The limit of the size is for the archive: its member may have any size.\<close>

lemma archive_member_unlimited:
  assumes "xl_members L data = Some [(asc ''a.csv'', content)]" and "int (length data) \<le> MAX_UPLOAD_SIZE_BYTES"
    and "u_lower (xl_ucd L) (asc ''.zip'') = asc ''.zip''" and "u_lower (xl_ucd L) (asc ''.csv'') = asc ''.csv''"
  shows "read_upload L (asc ''a.zip'') data = read_inner L (asc ''.csv'') content"
proof -
  have s: "path_suffix (asc ''a.zip'') = asc ''.zip''" "path_suffix (asc ''a.csv'') = asc ''.csv''" by code_simp+
  have n: "asc ''.zip'' \<noteq> asc ''.csv''" "asc ''.zip'' \<noteq> asc ''.xlsx''" "\<not> endswith (asc ''a.csv'') [47]"
    "\<not> startswith (asc ''a.csv'') [47]" "asc ''..'' \<notin> set (split_char 47 (asc ''a.csv''))" by code_simp+
  then show ?thesis
    using assms s by (auto simp: read_upload_def extract_first_member_def Let_def)
qed

end
