(* ===== verification/Xlsx_Workflow.thy ===== *)
theory Xlsx_Workflow
  imports Xlsx_Cells Core_Retry
begin

text \<open>
  \<^verbatim>\<open>phase6_import_to_sabt/xlsx/workflow.py\<close> with \<^verbatim>\<open>job_store.py\<close>, \<^verbatim>\<open>retry.py\<close> and \<^verbatim>\<open>utils.py\<close>: exports and uploads of one process with its
  store of jobs in memory. The storage directory maps names to files; a manifest is kept as the value it stands for. What
  the data provider gives and what a write meets are arguments; the texts of times, digests, ids and delays are
  parameters. Text files are opened with the encoding UTF-8 and without a translation of line ends. Temporary files,
  \<^verbatim>\<open>RedisExportJobStore\<close>, signed links, metrics and logs are left out; operations do not overlap.
\<close>

section \<open>retry\<close>

text \<open>The result, the number of calls and the delays handed to \<open>sleeper\<close>; \<open>attempts\<close> is at least one in every call.\<close>

function xlsx_retry_loop ::
  "int \<Rightarrow> (nat \<Rightarrow> pyfloat) \<Rightarrow> (nat \<Rightarrow> 'e + 'a) \<Rightarrow> nat \<Rightarrow> pyfloat list \<Rightarrow> ('e + 'a) \<times> nat \<times> pyfloat list" where
  "xlsx_retry_loop attempts delay outcome attempt sleeps =
     (case outcome attempt of
        Inr x \<Rightarrow> (Inr x, attempt, sleeps)
      | Inl exc \<Rightarrow>
          if int attempt \<ge> attempts then (Inl exc, attempt, sleeps)
          else xlsx_retry_loop attempts delay outcome (attempt + 1) (sleeps @ [delay attempt]))"
  by pat_completeness auto
termination
  by (relation "measure (\<lambda>(attempts, _, _, attempt, _). nat (attempts - int attempt))") auto

declare xlsx_retry_loop.simps [simp del]

definition retry_with_backoff ::
  "int \<Rightarrow> (nat \<Rightarrow> pyfloat) \<Rightarrow> (nat \<Rightarrow> 'e + 'a) \<Rightarrow> ('e + 'a) \<times> nat \<times> pyfloat list" where
  "retry_with_backoff attempts delay outcome = xlsx_retry_loop attempts delay outcome 1 []"

definition deterministic_jitter :: "pyfloat \<Rightarrow> pyfloat \<Rightarrow> nat \<Rightarrow> pyfloat" where
  "deterministic_jitter base random attempt =
     fmul (fmul base (2 ^ (attempt - 1))) (fadd 1 (fmul random (fl (1 / 10))))"

section \<open>Records\<close>

record upload_manifest =
  upm_id :: pystr
  upm_format :: pystr
  upm_profile :: pystr
  upm_year :: int
  upm_generated_at :: pystr
  upm_sha256 :: pystr
  upm_row_counts :: "(pystr \<times> nat) list"
  upm_activated_at :: "pystr option"

record export_manifest =
  exm_id :: pystr
  exm_format :: pystr
  exm_generated_at :: pystr
  exm_year :: int
  exm_center :: "int option"
  exm_file_name :: pystr
  exm_sha256 :: pystr
  exm_row_counts :: "(pystr \<times> nat) list"

datatype workflow_file =
    Raw_File bytes | Book_File "(pystr \<times> pystr list list) list" | Upload_Manifest upload_manifest | Export_Manifest export_manifest

type_synonym storage_dir = "pystr \<rightharpoonup> workflow_file"

datatype upload_state = Upload_SUCCESS | Upload_ACTIVATED

record UploadRecord =
  upr_id :: pystr
  upr_status :: upload_state
  upr_format :: pystr
  upr_manifest_path :: pystr
  upr_manifest :: upload_manifest

datatype workflow_job_status = Job_PENDING | Job_SUCCESS | Job_FAILED

datatype failure_code = EXPORT_VALIDATION_ERROR | EXPORT_IO_ERROR

record workflow_job =
  wj_id :: pystr
  wj_status :: workflow_job_status
  wj_format :: pystr
  wj_filters :: "(int \<times> int option) option"
  wj_created_at :: pystr
  wj_updated_at :: pystr
  wj_files :: "(pystr \<times> pystr \<times> nat \<times> pystr) list"
  wj_artifact_path :: pystr
  wj_manifest_path :: pystr
  wj_manifest :: "export_manifest option"
  wj_error :: "failure_code option"

record ExportRecord =
  exr_id :: pystr
  exr_status :: workflow_job_status
  exr_format :: pystr
  exr_artifact_path :: pystr
  exr_manifest_path :: pystr
  exr_manifest :: "export_manifest option"
  exr_metadata :: workflow_job

section \<open>The store of jobs\<close>

type_synonym job_store = "pystr \<rightharpoonup> workflow_job"

definition job_begin :: "pystr \<Rightarrow> pystr \<Rightarrow> pystr \<Rightarrow> pystr \<Rightarrow> (int \<times> int option) option \<Rightarrow> job_store \<Rightarrow> workflow_job \<times> job_store" where
  "job_begin created updated job_id file_format filters jobs =
     (let payload = \<lparr>wj_id = job_id, wj_status = Job_PENDING, wj_format = file_format, wj_filters = filters,
            wj_created_at = created, wj_updated_at = updated, wj_files = [], wj_artifact_path = [], wj_manifest_path = [],
            wj_manifest = None, wj_error = None\<rparr>
      in (payload, jobs(job_id \<mapsto> payload)))"

definition job_or_begin :: "pystr \<Rightarrow> pystr \<Rightarrow> job_store \<Rightarrow> workflow_job" where
  "job_or_begin now job_id jobs =
     (case jobs job_id of Some payload \<Rightarrow> payload | None \<Rightarrow> fst (job_begin now now job_id (asc ''unknown'') None jobs))"

definition job_complete ::
  "pystr \<Rightarrow> pystr \<Rightarrow> pystr \<Rightarrow> pystr \<Rightarrow> (pystr \<times> pystr \<times> nat \<times> pystr) list \<Rightarrow> export_manifest \<Rightarrow> job_store \<Rightarrow> workflow_job \<times> job_store" where
  "job_complete now job_id artifact_path manifest_path files manifest jobs =
     (let payload = (job_or_begin now job_id jobs)\<lparr>wj_status := Job_SUCCESS, wj_updated_at := now, wj_artifact_path := artifact_path,
            wj_manifest_path := manifest_path, wj_files := files, wj_manifest := Some manifest, wj_error := None\<rparr>
      in (payload, jobs(job_id \<mapsto> payload)))"

definition job_fail :: "pystr \<Rightarrow> pystr \<Rightarrow> failure_code \<Rightarrow> job_store \<Rightarrow> workflow_job \<times> job_store" where
  "job_fail now job_id error jobs =
     (let payload = (job_or_begin now job_id jobs)\<lparr>wj_status := Job_FAILED, wj_updated_at := now, wj_error := Some error\<rparr>
      in (payload, jobs(job_id \<mapsto> payload)))"

section \<open>Writing files\<close>

datatype workflow_exn = Workflow_Value_Error | Workflow_Other_Error

record write_world =
  aw_write :: bool
  aw_fsync :: "nat \<Rightarrow> bool"
  aw_replace :: bool

text \<open>The content is \<open>None\<close> where it has no UTF-8 form; the \<^verbatim>\<open>UnicodeEncodeError\<close> is a \<^verbatim>\<open>ValueError\<close>.\<close>

definition atomic_write_file ::
  "(nat \<Rightarrow> pyfloat) \<Rightarrow> write_world \<Rightarrow> pystr \<Rightarrow> workflow_file option \<Rightarrow> storage_dir \<Rightarrow> (workflow_exn + unit) \<times> storage_dir" where
  "atomic_write_file delay W path content fs =
     (if \<not> aw_write W then (Inl Workflow_Other_Error, fs)
      else case content of
        None \<Rightarrow> (Inl Workflow_Value_Error, fs)
      | Some f \<Rightarrow>
          (case fst (retry_with_backoff 3 delay (\<lambda>n. if aw_fsync W n then Inr () else Inl Workflow_Other_Error)) of
             Inl e \<Rightarrow> (Inl e, fs)
           | Inr _ \<Rightarrow> if aw_replace W then (Inr (), fs(path \<mapsto> f)) else (Inl Workflow_Other_Error, fs)))"

text \<open>What saving a workbook meets: it works, refuses a value, fails, or fails when the file is in place.\<close>

datatype book_fault = Book_Fine | Book_Refused | Book_Fails | Book_Late

record workflow_lib =
  wk_cells :: xlsx_lib
  wk_hash :: "workflow_file \<Rightarrow> pystr"
  wk_new_id :: "pystr \<Rightarrow> nat \<Rightarrow> pystr"
  wk_delay :: "pystr \<Rightarrow> nat \<Rightarrow> pyfloat"
  wk_chunk :: nat

record workflow_world =
  ww_rows :: "workflow_exn + source_row list"
  ww_csv :: write_world
  ww_book :: book_fault
  ww_hash :: bool
  ww_manifest :: write_world
  ww_stat :: bool
  ww_clock :: "nat \<Rightarrow> pystr"

definition xlsx_path :: "pystr \<Rightarrow> pystr" where
  "xlsx_path i = i @ asc ''.xlsx''"

definition workflow_csv_path :: "pystr \<Rightarrow> pystr" where
  "workflow_csv_path i = i @ asc ''.csv''"

definition workflow_manifest_path :: "pystr \<Rightarrow> pystr" where
  "workflow_manifest_path i = i @ asc ''_manifest.json''"

definition write_artifact ::
  "workflow_lib \<Rightarrow> workflow_world \<Rightarrow> pystr \<Rightarrow> source_row list \<Rightarrow> pystr \<Rightarrow> storage_dir
   \<Rightarrow> (workflow_exn + pystr \<times> (pystr \<times> nat) list) \<times> storage_dir" where
  "write_artifact L W export_id rows file_format fs =
     (if file_format = asc ''xlsx'' then
        (let path = xlsx_path export_id; book = workflow_book (wk_cells L) (wk_chunk L) rows
         in case ww_book W of
              Book_Fine \<Rightarrow> (Inr (path, book_counts book), fs(path \<mapsto> Book_File book))
            | Book_Refused \<Rightarrow> (Inl Workflow_Value_Error, fs)
            | Book_Fails \<Rightarrow> (Inl Workflow_Other_Error, fs)
            | Book_Late \<Rightarrow> (Inl Workflow_Other_Error, fs(path \<mapsto> Book_File book)))
      else if file_format = asc ''csv'' then
        (let path = workflow_csv_path export_id
         in case atomic_write_file (wk_delay L (asc ''csv_fsync'')) (ww_csv W) path (map_option Raw_File (utf8_encode (workflow_csv rows))) fs of
              (Inl e, fs) \<Rightarrow> (Inl e, fs)
            | (Inr _, fs) \<Rightarrow> (Inr (path, [(sheet_name 1, length rows)]), fs))
      else (Inl Workflow_Value_Error, fs))"

section \<open>The workflow\<close>

record workflow_state =
  ws_counter :: nat
  ws_uploads :: "pystr \<rightharpoonup> UploadRecord"
  ws_exports :: "pystr \<rightharpoonup> ExportRecord"
  ws_jobs :: job_store
  ws_files :: storage_dir

text \<open>A process that starts over a directory.\<close>

definition workflow_start :: "storage_dir \<Rightarrow> workflow_state" where
  "workflow_start fs =
     \<lparr>ws_counter = 1, ws_uploads = Map.empty, ws_exports = Map.empty, ws_jobs = Map.empty, ws_files = fs\<rparr>"

definition next_id :: "workflow_lib \<Rightarrow> pystr \<Rightarrow> workflow_state \<Rightarrow> pystr \<times> workflow_state" where
  "next_id L prefix s = (wk_new_id L prefix (ws_counter s), s\<lparr>ws_counter := ws_counter s + 1\<rparr>)"

definition workflow_format :: "workflow_lib \<Rightarrow> pystr \<Rightarrow> pystr" where
  "workflow_format L file_format =
     (let U = xl_ucd (wk_cells L);
          fmt = u_lower U (sanitize_text U (PStr (if file_format = [] then asc ''xlsx'' else file_format)))
      in if fmt = [] then asc ''xlsx'' else fmt)"

definition build_file_metadata :: "pystr \<Rightarrow> pystr \<Rightarrow> (pystr \<times> nat) list \<Rightarrow> (pystr \<times> pystr \<times> nat \<times> pystr) list" where
  "build_file_metadata name sha256 rows = map (\<lambda>(sheet, n). (name, sheet, n, sha256)) rows"

text \<open>The part of an export whose exceptions end up in the job.\<close>

definition export_body ::
  "workflow_lib \<Rightarrow> workflow_world \<Rightarrow> pystr \<Rightarrow> pystr \<Rightarrow> int \<Rightarrow> int option \<Rightarrow> job_store \<Rightarrow> storage_dir
   \<Rightarrow> (workflow_exn + ExportRecord) \<times> job_store \<times> storage_dir" where
  "export_body L W export_id fmt year center jobs fs =
     (case ww_rows W of
        Inl e \<Rightarrow> (Inl e, jobs, fs)
      | Inr rows \<Rightarrow>
          if rows = [] then (Inl Workflow_Value_Error, jobs, fs)
          else case write_artifact L W export_id (map (workflow_row (wk_cells L)) rows) fmt fs of
            (Inl e, fs) \<Rightarrow> (Inl e, jobs, fs)
          | (Inr (name, counts), fs) \<Rightarrow>
              (case (if ww_hash W then fs name else None) of
                 None \<Rightarrow> (Inl Workflow_Other_Error, jobs, fs)
               | Some file \<Rightarrow>
                   (let sha256 = wk_hash L file; manifest_path = workflow_manifest_path export_id;
                        manifest = \<lparr>exm_id = export_id, exm_format = fmt, exm_generated_at = ww_clock W 2, exm_year = year,
                          exm_center = center, exm_file_name = name, exm_sha256 = sha256, exm_row_counts = counts\<rparr>
                    in case atomic_write_file (wk_delay L (asc ''manifest_fsync'')) (ww_manifest W) manifest_path
                          (Some (Export_Manifest manifest)) fs of
                         (Inl e, fs) \<Rightarrow> (Inl e, jobs, fs)
                       | (Inr _, fs) \<Rightarrow>
                           (let (job, jobs) = job_complete (ww_clock W 3) export_id name manifest_path
                                  (build_file_metadata name sha256 counts) manifest jobs
                            in if \<not> ww_stat W then (Inl Workflow_Other_Error, jobs, fs)
                               else (Inr \<lparr>exr_id = export_id, exr_status = Job_SUCCESS, exr_format = fmt, exr_artifact_path = name,
                                       exr_manifest_path = manifest_path, exr_manifest = Some manifest, exr_metadata = job\<rparr>,
                                     jobs, fs)))))"

definition error_code :: "workflow_exn \<Rightarrow> failure_code" where
  "error_code e = (case e of Workflow_Value_Error \<Rightarrow> EXPORT_VALIDATION_ERROR | Workflow_Other_Error \<Rightarrow> EXPORT_IO_ERROR)"

definition create_export ::
  "workflow_lib \<Rightarrow> workflow_world \<Rightarrow> int \<Rightarrow> int option \<Rightarrow> pystr \<Rightarrow> workflow_state \<Rightarrow> (failure_code + ExportRecord) \<times> workflow_state" where
  "create_export L W year center file_format s =
     (let fmt = workflow_format L file_format; (export_id, s) = next_id L (asc ''export'') s;
          (_, jobs) = job_begin (ww_clock W 0) (ww_clock W 1) export_id fmt (Some (year, center)) (ws_jobs s)
      in case export_body L W export_id fmt year center jobs (ws_files s) of
           (Inl e, jobs, fs) \<Rightarrow>
             (Inl (error_code e), s\<lparr>ws_jobs := snd (job_fail (ww_clock W 4) export_id (error_code e) jobs), ws_files := fs\<rparr>)
         | (Inr r, jobs, fs) \<Rightarrow>
             (Inr r, s\<lparr>ws_jobs := jobs, ws_files := fs,
                ws_exports := (case ws_exports s export_id of None \<Rightarrow> (ws_exports s)(export_id \<mapsto> r) | Some _ \<Rightarrow> ws_exports s)\<rparr>))"

datatype upload_failure = Upload_Refused upload_refusal | Upload_Write_Failed workflow_exn | Upload_Unknown

definition create_upload_record ::
  "workflow_lib \<Rightarrow> workflow_world \<Rightarrow> pystr \<Rightarrow> int \<Rightarrow> pystr \<Rightarrow> bytes \<Rightarrow> workflow_state \<Rightarrow> (upload_failure + UploadRecord) \<times> workflow_state" where
  "create_upload_record L W profile year file_path data s =
     (let (upload_id, s) = next_id L (asc ''upload'') s
      in case read_upload (wk_cells L) file_path data of
           Inl x \<Rightarrow> (Inl (Upload_Refused x), s)
         | Inr result \<Rightarrow>
             if \<not> ww_hash W then (Inl (Upload_Write_Failed Workflow_Other_Error), s)
             else
               (let manifest = \<lparr>upm_id = upload_id, upm_format = ur_format result,
                      upm_profile = sanitize_text (xl_ucd (wk_cells L)) (PStr profile), upm_year = year, upm_generated_at = ww_clock W 0,
                      upm_sha256 = wk_hash L (Raw_File data), upm_row_counts = ur_row_counts result, upm_activated_at = None\<rparr>;
                    manifest_path = workflow_manifest_path upload_id
                in case atomic_write_file (wk_delay L (asc ''manifest_fsync'')) (ww_manifest W) manifest_path
                      (Some (Upload_Manifest manifest)) (ws_files s) of
                     (Inl e, fs) \<Rightarrow> (Inl (Upload_Write_Failed e), s\<lparr>ws_files := fs\<rparr>)
                   | (Inr _, fs) \<Rightarrow>
                       (let r = \<lparr>upr_id = upload_id, upr_status = Upload_SUCCESS, upr_format = ur_format result,
                              upr_manifest_path = manifest_path, upr_manifest = manifest\<rparr>
                        in (Inr r, s\<lparr>ws_files := fs, ws_uploads :=
                              (case ws_uploads s upload_id of None \<Rightarrow> (ws_uploads s)(upload_id \<mapsto> r) | Some _ \<Rightarrow> ws_uploads s)\<rparr>))))"

text \<open>The record in memory changes before the manifest is written.\<close>

definition activate_upload ::
  "workflow_lib \<Rightarrow> workflow_world \<Rightarrow> pystr \<Rightarrow> workflow_state \<Rightarrow> (upload_failure + UploadRecord) \<times> workflow_state" where
  "activate_upload L W upload_id s =
     (case ws_uploads s upload_id of
        None \<Rightarrow> (Inl Upload_Unknown, s)
      | Some r \<Rightarrow>
          (let r = r\<lparr>upr_status := Upload_ACTIVATED, upr_manifest := (upr_manifest r)\<lparr>upm_activated_at := Some (ww_clock W 0)\<rparr>\<rparr>;
               s = s\<lparr>ws_uploads := (ws_uploads s)(upload_id \<mapsto> r)\<rparr>
           in case atomic_write_file (wk_delay L (asc ''manifest_fsync'')) (ww_manifest W) (upr_manifest_path r)
                 (Some (Upload_Manifest (upr_manifest r))) (ws_files s) of
                (Inl e, fs) \<Rightarrow> (Inl (Upload_Write_Failed e), s\<lparr>ws_files := fs\<rparr>)
              | (Inr _, fs) \<Rightarrow> (Inr r, s\<lparr>ws_files := fs\<rparr>)))"

definition get_export :: "pystr \<Rightarrow> workflow_state \<Rightarrow> ExportRecord option \<times> workflow_state" where
  "get_export export_id s =
     (case ws_exports s export_id of
        Some r \<Rightarrow> (Some r, s)
      | None \<Rightarrow>
          (case ws_jobs s export_id of
             None \<Rightarrow> (None, s)
           | Some payload \<Rightarrow>
               (let r = \<lparr>exr_id = wj_id payload, exr_status = wj_status payload, exr_format = wj_format payload,
                      exr_artifact_path = (if wj_artifact_path payload \<noteq> [] then wj_artifact_path payload
                        else export_id @ 46 # wj_format payload),
                      exr_manifest_path = (if wj_manifest_path payload \<noteq> [] then wj_manifest_path payload
                        else workflow_manifest_path export_id),
                      exr_manifest = wj_manifest payload, exr_metadata = payload\<rparr>
                in (Some r, s\<lparr>ws_exports := (ws_exports s)(export_id \<mapsto> r)\<rparr>))))"

datatype workflow_op =
    Do_Export workflow_world int "int option" pystr | Do_Upload workflow_world pystr int pystr bytes
  | Do_Activate workflow_world pystr | Do_Get pystr

definition workflow_step :: "workflow_lib \<Rightarrow> workflow_op \<Rightarrow> workflow_state \<Rightarrow> workflow_state" where
  "workflow_step L op s =
     (case op of
        Do_Export W year center fmt \<Rightarrow> snd (create_export L W year center fmt s)
      | Do_Upload W profile year path data \<Rightarrow> snd (create_upload_record L W profile year path data s)
      | Do_Activate W i \<Rightarrow> snd (activate_upload L W i s)
      | Do_Get i \<Rightarrow> snd (get_export i s))"

definition workflow_run :: "workflow_lib \<Rightarrow> workflow_op list \<Rightarrow> workflow_state \<Rightarrow> workflow_state" where
  "workflow_run L ops s = foldl (\<lambda>s op. workflow_step L op s) s ops"

section \<open>The retry loop keeps the contract of retrying\<close>

lemma xlsx_retry_loop_shape:
  assumes "xlsx_retry_loop attempts delay outcome n sleeps = (res, calls, sleeps')" and "1 \<le> n" and "int n \<le> attempts"
  shows "n \<le> calls \<and> int calls \<le> attempts \<and> (\<forall>k. n \<le> k \<and> k < calls \<longrightarrow> (\<exists>e. outcome k = Inl e)) \<and>
    (\<forall>e. outcome calls = Inl e \<longrightarrow> int calls = attempts) \<and> res = outcome calls \<and> sleeps' = sleeps @ map delay [n..<calls]"
  using assms
proof (induction attempts delay outcome n sleeps rule: xlsx_retry_loop.induct)
  case (1 attempts delay outcome n sleeps)
  show ?case
  proof (cases "outcome n")
    case (Inl e)
    show ?thesis
    proof (cases "int n \<ge> attempts")
      case True
      then have "res = Inl e \<and> calls = n \<and> sleeps' = sleeps"
        using 1(2) Inl by (subst (asm) xlsx_retry_loop.simps) auto
      then show ?thesis using 1(3,4) Inl True by auto
    next
      case False
      then have run: "xlsx_retry_loop attempts delay outcome (n + 1) (sleeps @ [delay n]) = (res, calls, sleeps')"
        using 1(2) Inl by (subst (asm) xlsx_retry_loop.simps) auto
      have IH: "n + 1 \<le> calls \<and> int calls \<le> attempts \<and> (\<forall>k. n + 1 \<le> k \<and> k < calls \<longrightarrow> (\<exists>e. outcome k = Inl e)) \<and>
          (\<forall>e. outcome calls = Inl e \<longrightarrow> int calls = attempts) \<and> res = outcome calls \<and>
          sleeps' = (sleeps @ [delay n]) @ map delay [n + 1..<calls]"
        using 1(1) [OF Inl _ run] False 1(3) by auto
      have "\<exists>e. outcome k = Inl e" if "n \<le> k" "k < calls" for k
        using that IH Inl by (cases "k = n") auto
      then show ?thesis using IH by (simp add: upt_conv_Cons)
    qed
  next
    case (Inr x)
    then have "res = Inr x \<and> calls = n \<and> sleeps' = sleeps"
      using 1(2) by (subst (asm) xlsx_retry_loop.simps) auto
    then show ?thesis using 1(3,4) Inr by auto
  qed
qed

interpretation xlsx_retry: retrying
  "\<lambda>outcome. fst (snd (retry_with_backoff attempts delay outcome))" attempts "\<lambda>_. True"
  for attempts delay
proof
  fix outcome :: "nat \<Rightarrow> 'a + 'b"
  assume l: "1 \<le> attempts"
  obtain res calls sleeps where r: "xlsx_retry_loop attempts delay outcome 1 [] = (res, calls, sleeps)"
    by (cases "xlsx_retry_loop attempts delay outcome 1 []")
  have c: "fst (snd (retry_with_backoff attempts delay outcome)) = calls" using r by (simp add: retry_with_backoff_def)
  show "1 \<le> fst (snd (retry_with_backoff attempts delay outcome)) \<and> int (fst (snd (retry_with_backoff attempts delay outcome))) \<le> attempts \<and>
      (\<forall>k. 1 \<le> k \<and> k < fst (snd (retry_with_backoff attempts delay outcome)) \<longrightarrow> (\<exists>e. outcome k = Inl e \<and> True)) \<and>
      (\<forall>e. outcome (fst (snd (retry_with_backoff attempts delay outcome))) = Inl e \<longrightarrow> True \<longrightarrow>
         int (fst (snd (retry_with_backoff attempts delay outcome))) = attempts)"
    unfolding c using xlsx_retry_loop_shape [OF r] l by simp
qed

lemma retry_with_backoff_result:
  assumes "1 \<le> attempts"
  shows "fst (retry_with_backoff attempts delay outcome) = outcome (fst (snd (retry_with_backoff attempts delay outcome)))"
proof -
  obtain res calls sleeps where r: "xlsx_retry_loop attempts delay outcome 1 [] = (res, calls, sleeps)"
    by (cases "xlsx_retry_loop attempts delay outcome 1 []")
  show ?thesis using xlsx_retry_loop_shape [OF r] assms r by (simp add: retry_with_backoff_def)
qed

text \<open>An operation that works in one of its attempts works.\<close>

lemma retry_with_backoff_reaches:
  assumes "1 \<le> n" and "int n \<le> attempts" and "outcome n = Inr x" and "\<And>k. k < n \<Longrightarrow> outcome k = Inr x \<or> isl (outcome k)"
  shows "fst (retry_with_backoff attempts delay outcome) = Inr x"
proof -
  define m where "m = (LEAST m. 1 \<le> m \<and> \<not> isl (outcome m))"
  have m: "1 \<le> m \<and> \<not> isl (outcome m)" unfolding m_def by (rule LeastI [of _ n]) (use assms(1,3) in simp)
  have mn: "m \<le> n" unfolding m_def by (rule Least_le) (use assms(1,3) in simp)
  have o: "outcome m = Inr x" using m mn assms(3) assms(4) [of m] by (cases "m = n") auto
  have before: "\<exists>e. outcome k = Inl e \<and> True" if "1 \<le> k" "k < m" for k
    using not_less_Least [of k "\<lambda>m. 1 \<le> m \<and> \<not> isl (outcome m)"] that unfolding m_def by (auto simp: isl_def)
  have "fst (snd (retry_with_backoff attempts delay outcome)) = m"
    by (rule xlsx_retry.succeeds_if_reached [where n = m and outcome = outcome]) (use before o m mn assms(2) in auto)
  then show ?thesis using retry_with_backoff_result [of attempts delay outcome] assms(1,2) o by simp
qed

section \<open>What a write leaves\<close>

lemma atomic_write_Inr:
  "atomic_write_file delay W path content fs = (Inr (), fs') \<Longrightarrow> \<exists>f. content = Some f \<and> fs' = fs(path \<mapsto> f)"
  by (auto simp: atomic_write_file_def split: if_splits option.splits sum.splits)

lemma atomic_write_Inl: "atomic_write_file delay W path content fs = (Inl e, fs') \<Longrightarrow> fs' = fs"
  by (auto simp: atomic_write_file_def split: if_splits option.splits sum.splits)

lemma atomic_write_works:
  assumes "aw_write W" and "aw_replace W" and "1 \<le> n" and "n \<le> 3" and "aw_fsync W n" and "content = Some f"
  shows "atomic_write_file delay W path content fs = (Inr (), fs(path \<mapsto> f))"
proof -
  have "fst (retry_with_backoff 3 delay (\<lambda>n. if aw_fsync W n then Inr () else Inl Workflow_Other_Error)) = Inr ()"
    by (rule retry_with_backoff_reaches [of n]) (use assms(3-5) in auto)
  then show ?thesis using assms(1,2,6) by (simp add: atomic_write_file_def)
qed

text \<open>What a file has to do with the counts of its rows.\<close>

definition artifact_holds :: "workflow_file \<Rightarrow> (pystr \<times> nat) list \<Rightarrow> bool" where
  "artifact_holds f counts \<longleftrightarrow>
     (case f of
        Raw_File bs \<Rightarrow> (\<exists>content rows. utf8_decode bs = Some content \<and> csv_read content = Some (WORKFLOW_COLUMNS # rows) \<and>
          counts = [(sheet_name 1, length rows)])
      | Book_File book \<Rightarrow> counts = book_counts book
      | _ \<Rightarrow> False)"

definition artifact_name :: "pystr \<Rightarrow> pystr \<Rightarrow> pystr" where
  "artifact_name fmt i = (if fmt = asc ''csv'' then workflow_csv_path i else xlsx_path i)"

lemma write_artifact_frame:
  "write_artifact L W i rows fmt fs = (res, fs') \<Longrightarrow> p \<noteq> xlsx_path i \<Longrightarrow> p \<noteq> workflow_csv_path i \<Longrightarrow> fs' p = fs p"
  by (auto simp: write_artifact_def Let_def split: if_splits book_fault.splits prod.splits sum.splits dest!: atomic_write_Inl atomic_write_Inr)

lemma write_artifact_Inr:
  assumes "write_artifact L W i (map (workflow_row C) rows) fmt fs = (Inr (name, counts), fs')"
  shows "fmt \<in> {asc ''csv'', asc ''xlsx''} \<and> name = artifact_name fmt i \<and>
    (if fmt = asc ''csv'' then \<exists>bs content. fs' name = Some (Raw_File bs) \<and> utf8_decode bs = Some content \<and>
          csv_read content = Some (WORKFLOW_COLUMNS # map (\<lambda>r. map (workflow_cell C r) WORKFLOW_COLUMNS) rows) \<and>
          counts = [(sheet_name 1, length rows)]
     else \<exists>book. book = workflow_book (wk_cells L) (wk_chunk L) (map (workflow_row C) rows) \<and> fs' name = Some (Book_File book) \<and>
          counts = book_counts book)"
proof (cases "fmt = asc ''xlsx''")
  case True
  moreover have "asc ''xlsx'' \<noteq> asc ''csv''" by (simp add: asc_def)
  ultimately show ?thesis using assms by (auto simp: write_artifact_def Let_def artifact_name_def split: book_fault.splits)
next
  case False
  then have csv: "fmt = asc ''csv''" using assms by (auto simp: write_artifact_def split: if_splits)
  obtain x fs1 where a: "atomic_write_file (wk_delay L (asc ''csv_fsync'')) (ww_csv W) (workflow_csv_path i)
      (map_option Raw_File (utf8_encode (workflow_csv (map (workflow_row C) rows)))) fs = (x, fs1)" by fastforce
  have r: "x = Inr ()" "name = workflow_csv_path i" "counts = [(sheet_name 1, length rows)]" "fs' = fs1"
    using assms False csv a by (auto simp: write_artifact_def Let_def split: sum.splits)
  from atomic_write_Inr [OF a [unfolded r(1)]] obtain bs where
    bs: "utf8_encode (workflow_csv (map (workflow_row C) rows)) = Some bs" "fs' = fs(workflow_csv_path i \<mapsto> Raw_File bs)"
    using r(4) by auto
  show ?thesis using csv r(2,3) bs(2) utf8_roundtrip [OF bs(1)] workflow_csv_reads [of C rows]
    by (auto simp: artifact_name_def)
qed

lemma artifact_holds_written:
  "write_artifact L W i (map (workflow_row C) rows) fmt fs = (Inr (name, counts), fs') \<Longrightarrow>
   \<exists>f. fs' name = Some f \<and> artifact_holds f counts"
  using write_artifact_Inr [of L W i C rows fmt fs name counts fs'] by (auto simp: artifact_holds_def split: if_splits)

section \<open>An export\<close>

definition job_good :: "workflow_lib \<Rightarrow> storage_dir \<Rightarrow> pystr \<Rightarrow> workflow_job \<Rightarrow> bool" where
  "job_good L fs i j \<longleftrightarrow> wj_id j = i \<and>
     (wj_status j = Job_FAILED \<or> wj_status j = Job_SUCCESS \<and>
       (\<exists>m f. wj_manifest j = Some m \<and> exm_id m = i \<and> wj_manifest_path j = workflow_manifest_path i \<and>
          fs (workflow_manifest_path i) = Some (Export_Manifest m) \<and> wj_artifact_path j = exm_file_name m \<and>
          exm_file_name m \<in> {xlsx_path i, workflow_csv_path i} \<and> fs (exm_file_name m) = Some f \<and>
          wk_hash L f = exm_sha256 m \<and> artifact_holds f (exm_row_counts m)))"

definition own_paths :: "pystr \<Rightarrow> pystr set" where
  "own_paths i = {xlsx_path i, workflow_csv_path i, workflow_manifest_path i}"

lemma path_ends:
  "last (xlsx_path i) = 120" "last (workflow_csv_path i) = 118" "last (workflow_manifest_path i) = 110"
  by (simp_all add: xlsx_path_def workflow_csv_path_def workflow_manifest_path_def asc_def)

lemma own_paths_apart: "xlsx_path i \<noteq> workflow_manifest_path j" "workflow_csv_path i \<noteq> workflow_manifest_path j" "xlsx_path i \<noteq> workflow_csv_path j"
  using path_ends [of i] path_ends [of j] by fastforce+

lemma own_paths_disjoint: "i \<noteq> j \<Longrightarrow> own_paths i \<inter> own_paths j = {}"
  using own_paths_apart [of i j] own_paths_apart [of j i]
  by (auto simp: own_paths_def xlsx_path_def workflow_csv_path_def workflow_manifest_path_def)

lemma job_good_frame: "job_good L fs i j \<Longrightarrow> (\<And>p. p \<in> own_paths i \<Longrightarrow> fs' p = fs p) \<Longrightarrow> job_good L fs' i j"
  unfolding job_good_def own_paths_def by (elim conjE disjE exE) auto

lemma job_or_begin_id: "(\<And>j. jobs i = Some j \<Longrightarrow> wj_id j = i) \<Longrightarrow> wj_id (job_or_begin now i jobs) = i"
  by (auto simp: job_or_begin_def job_begin_def Let_def split: option.splits)

lemma export_body_frame:
  assumes "export_body L W i fmt year center jobs fs = (res, jobs', fs')"
  shows "(\<forall>p. p \<notin> own_paths i \<longrightarrow> fs' p = fs p) \<and> (\<forall>k. k \<noteq> i \<longrightarrow> jobs' k = jobs k) \<and>
    (jobs' i = jobs i \<or> (\<exists>j. jobs' i = Some j \<and> wj_id j = wj_id (job_or_begin (ww_clock W 3) i jobs)))"
proof -
  have a: "\<And>rows r fs1. write_artifact L W i rows fmt fs = (r, fs1) \<Longrightarrow> \<forall>p. p \<notin> own_paths i \<longrightarrow> fs1 p = fs p"
    using write_artifact_frame unfolding own_paths_def by blast
  show ?thesis
    using assms
    by (auto simp: export_body_def Let_def job_complete_def own_paths_def split: sum.splits if_splits prod.splits option.splits
        dest!: a atomic_write_Inl atomic_write_Inr)
qed

lemma export_body_Inr:
  assumes "export_body L W i fmt year center jobs fs = (Inr r, jobs', fs')" and "\<And>j. jobs i = Some j \<Longrightarrow> wj_id j = i"
  shows "\<exists>rows name counts fs1 file. ww_rows W = Inr rows \<and> rows \<noteq> [] \<and>
    write_artifact L W i (map (workflow_row (wk_cells L)) rows) fmt fs = (Inr (name, counts), fs1) \<and> fs1 name = Some file \<and>
    (let m = \<lparr>exm_id = i, exm_format = fmt, exm_generated_at = ww_clock W 2, exm_year = year, exm_center = center,
            exm_file_name = name, exm_sha256 = wk_hash L file, exm_row_counts = counts\<rparr>
     in fs' = fs1(workflow_manifest_path i \<mapsto> Export_Manifest m) \<and> exr_manifest r = Some m \<and> exr_id r = i \<and>
        exr_status r = Job_SUCCESS \<and> exr_artifact_path r = name \<and>
        jobs' i = Some (exr_metadata r) \<and> wj_id (exr_metadata r) = i \<and> wj_status (exr_metadata r) = Job_SUCCESS \<and>
        wj_manifest (exr_metadata r) = Some m \<and> wj_manifest_path (exr_metadata r) = workflow_manifest_path i \<and>
        wj_artifact_path (exr_metadata r) = name)"
  using assms(1) job_or_begin_id [of jobs i "ww_clock W 3", OF assms(2)]
  by (auto simp: export_body_def Let_def job_complete_def split: sum.splits if_splits prod.splits option.splits dest!: atomic_write_Inr)

definition first_jobs :: "workflow_world \<Rightarrow> pystr \<Rightarrow> pystr \<Rightarrow> int \<Rightarrow> int option \<Rightarrow> job_store \<Rightarrow> job_store" where
  "first_jobs W i fmt year center jobs = snd (job_begin (ww_clock W 0) (ww_clock W 1) i fmt (Some (year, center)) jobs)"

lemma create_export_cases:
  assumes "create_export L W year center file_format s = (res, s')" and "i = wk_new_id L (asc ''export'') (ws_counter s)"
    and "fmt = workflow_format L file_format"
  obtains (ok) r jobs fs where "res = Inr r" "export_body L W i fmt year center (first_jobs W i fmt year center (ws_jobs s)) (ws_files s) = (Inr r, jobs, fs)"
      "ws_counter s' = ws_counter s + 1" "ws_uploads s' = ws_uploads s" "ws_jobs s' = jobs" "ws_files s' = fs"
      "ws_exports s' = (case ws_exports s i of None \<Rightarrow> (ws_exports s)(i \<mapsto> r) | Some _ \<Rightarrow> ws_exports s)"
  | (failed) e jobs fs where "res = Inl (error_code e)"
      "export_body L W i fmt year center (first_jobs W i fmt year center (ws_jobs s)) (ws_files s) = (Inl e, jobs, fs)"
      "ws_counter s' = ws_counter s + 1" "ws_uploads s' = ws_uploads s"
      "ws_jobs s' = snd (job_fail (ww_clock W 4) i (error_code e) jobs)" "ws_files s' = fs" "ws_exports s' = ws_exports s"
proof -
  obtain b jobs fs where e: "export_body L W i fmt year center (first_jobs W i fmt year center (ws_jobs s)) (ws_files s) = (b, jobs, fs)"
    by (metis prod_cases3)
  have c: "create_export L W year center file_format s =
      (case b of
         Inl e \<Rightarrow> (Inl (error_code e), s\<lparr>ws_counter := ws_counter s + 1, ws_jobs := snd (job_fail (ww_clock W 4) i (error_code e) jobs), ws_files := fs\<rparr>)
       | Inr r \<Rightarrow> (Inr r, s\<lparr>ws_counter := ws_counter s + 1, ws_jobs := jobs, ws_files := fs,
           ws_exports := (case ws_exports s i of None \<Rightarrow> (ws_exports s)(i \<mapsto> r) | Some _ \<Rightarrow> ws_exports s)\<rparr>))"
    using e unfolding create_export_def next_id_def assms(2) [symmetric] assms(3) [symmetric] first_jobs_def
    by (cases b) (simp_all add: Let_def case_prod_beta cong: option.case_cong)
  show thesis
  proof (cases b)
    case (Inl x)
    then show thesis using failed [of x jobs fs] assms(1) e c by auto
  next
    case (Inr r)
    then show thesis using ok [of r jobs fs] assms(1) e c by auto
  qed
qed

lemma first_jobs_at: "first_jobs W i fmt year center jobs i = Some j \<Longrightarrow> wj_id j = i"
  "k \<noteq> i \<Longrightarrow> first_jobs W i fmt year center jobs k = jobs k"
  by (auto simp: first_jobs_def job_begin_def Let_def)

lemma job_fail_at:
  "snd (job_fail now i c jobs) k = (if k = i then Some (fst (job_fail now i c jobs)) else jobs k)"
  "wj_status (fst (job_fail now i c jobs)) = Job_FAILED" "wj_error (fst (job_fail now i c jobs)) = Some c"
  "wj_id (fst (job_fail now i c jobs)) = wj_id (job_or_begin now i jobs)"
  by (simp_all add: job_fail_def Let_def)

text \<open>An export ends its job, leaves the other jobs and files, and its job tells what is in the directory.\<close>

lemma create_export_effect:
  assumes "create_export L W year center file_format s = (res, s')" and i: "i = wk_new_id L (asc ''export'') (ws_counter s)"
  shows "ws_counter s' = ws_counter s + 1 \<and> ws_uploads s' = ws_uploads s \<and>
    (\<forall>k. k \<noteq> i \<longrightarrow> ws_jobs s' k = ws_jobs s k \<and> ws_exports s' k = ws_exports s k) \<and> (\<forall>p. p \<notin> own_paths i \<longrightarrow> ws_files s' p = ws_files s p) \<and>
    (\<exists>j. ws_jobs s' i = Some j \<and> job_good L (ws_files s') i j \<and>
       (case res of
          Inr r \<Rightarrow> wj_status j = Job_SUCCESS \<and> exr_metadata r = j \<and> exr_id r = i \<and> exr_status r = Job_SUCCESS \<and> exr_manifest r = wj_manifest j \<and>
            ws_exports s' i = (case ws_exports s i of None \<Rightarrow> Some r | x \<Rightarrow> x)
        | Inl c \<Rightarrow> wj_status j = Job_FAILED \<and> wj_error j = Some c \<and> ws_exports s' i = ws_exports s i))"
  using assms(1) i refl [of "workflow_format L file_format"]
proof (cases rule: create_export_cases)
  case (ok r jobs fs)
  note fr = export_body_frame [OF ok(2)]
  have ids: "\<And>j. first_jobs W i (workflow_format L file_format) year center (ws_jobs s) i = Some j \<Longrightarrow> wj_id j = i"
    by (rule first_jobs_at(1))
  from export_body_Inr [OF ok(2) ids] obtain rows name counts fs1 written where b:
    "write_artifact L W i (map (workflow_row (wk_cells L)) rows) (workflow_format L file_format) (ws_files s) = (Inr (name, counts), fs1)"
    "fs1 name = Some written"
    "let m = \<lparr>exm_id = i, exm_format = workflow_format L file_format, exm_generated_at = ww_clock W 2, exm_year = year, exm_center = center,
          exm_file_name = name, exm_sha256 = wk_hash L written, exm_row_counts = counts\<rparr>
     in fs = fs1(workflow_manifest_path i \<mapsto> Export_Manifest m) \<and> exr_manifest r = Some m \<and> exr_id r = i \<and>
        exr_status r = Job_SUCCESS \<and> exr_artifact_path r = name \<and>
        jobs i = Some (exr_metadata r) \<and> wj_id (exr_metadata r) = i \<and> wj_status (exr_metadata r) = Job_SUCCESS \<and>
        wj_manifest (exr_metadata r) = Some m \<and> wj_manifest_path (exr_metadata r) = workflow_manifest_path i \<and>
        wj_artifact_path (exr_metadata r) = name" by blast
  obtain f where f: "fs1 name = Some f" "artifact_holds f counts" using artifact_holds_written [OF b(1)] by blast
  have name: "name \<in> {xlsx_path i, workflow_csv_path i}" using write_artifact_Inr [OF b(1)] by (auto simp: artifact_name_def)
  then have apart: "name \<noteq> workflow_manifest_path i" using own_paths_apart [of i i] by auto
  have good: "job_good L fs i (exr_metadata r)"
    using b(2,3) f name apart by (auto simp: job_good_def Let_def)
  have frame: "\<forall>k. k \<noteq> i \<longrightarrow> jobs k = ws_jobs s k" "\<forall>p. p \<notin> own_paths i \<longrightarrow> fs p = ws_files s p"
    using fr first_jobs_at(2) by auto
  show ?thesis using ok(1,3-) good frame b(3) by (auto simp: Let_def split: option.splits)
next
  case (failed e jobs fs)
  note fr = export_body_frame [OF failed(2)]
  have "wj_id j = i" if "jobs i = Some j" for j
  proof -
    have "wj_id (job_or_begin (ww_clock W 3) i (first_jobs W i (workflow_format L file_format) year center (ws_jobs s))) = i"
      using first_jobs_at(1) by (rule job_or_begin_id)
    then show ?thesis using fr that first_jobs_at(1) by auto
  qed
  then have "wj_id (job_or_begin (ww_clock W 4) i jobs) = i" by (rule job_or_begin_id)
  moreover have "\<forall>k. k \<noteq> i \<longrightarrow> jobs k = ws_jobs s k" "\<forall>p. p \<notin> own_paths i \<longrightarrow> fs p = ws_files s p"
    using fr first_jobs_at(2) by auto
  ultimately show ?thesis using failed(1,3-) by (simp add: job_fail_at job_good_def)
qed

text \<open>When an export succeeds: no fault in what it needs, one of three attempts at a flush suffices.\<close>

definition write_works :: "write_world \<Rightarrow> bool" where
  "write_works W \<longleftrightarrow> aw_write W \<and> aw_replace W \<and> (aw_fsync W 1 \<or> aw_fsync W 2 \<or> aw_fsync W 3)"

definition export_works :: "workflow_lib \<Rightarrow> workflow_world \<Rightarrow> pystr \<Rightarrow> bool" where
  "export_works L W fmt \<longleftrightarrow>
     (case ww_rows W of
        Inl _ \<Rightarrow> False
      | Inr rows \<Rightarrow> rows \<noteq> [] \<and>
          (fmt = asc ''xlsx'' \<and> ww_book W = Book_Fine \<or>
           fmt = asc ''csv'' \<and> write_works (ww_csv W) \<and> utf8_encode (workflow_csv (map (workflow_row (wk_cells L)) rows)) \<noteq> None)) \<and>
     ww_hash W \<and> write_works (ww_manifest W) \<and> ww_stat W"

lemma atomic_write_works_at: "write_works W \<Longrightarrow> atomic_write_file delay W path (Some f) fs = (Inr (), fs(path \<mapsto> f))"
  using atomic_write_works [of W 1 "Some f" f] atomic_write_works [of W 2 "Some f" f] atomic_write_works [of W 3 "Some f" f]
  by (auto simp: write_works_def)

lemma export_body_works:
  assumes "export_works L W fmt"
  shows "\<exists>r. fst (export_body L W i fmt year center jobs fs) = Inr r"
proof -
  obtain rows where rows: "ww_rows W = Inr rows" "rows \<noteq> []" using assms by (auto simp: export_works_def split: sum.splits)
  have ne: "asc ''csv'' \<noteq> asc ''xlsx''" by (simp add: asc_def)
  have "\<exists>name counts f fs1. write_artifact L W i (map (workflow_row (wk_cells L)) rows) fmt fs = (Inr (name, counts), fs1) \<and> fs1 name = Some f"
    using assms rows ne atomic_write_works_at
    by (auto simp: export_works_def write_artifact_def Let_def split: option.splits)
  then obtain name counts f fs1 where a:
    "write_artifact L W i (map (workflow_row (wk_cells L)) rows) fmt fs = (Inr (name, counts), fs1)" "fs1 name = Some f" by blast
  have "ww_hash W" "write_works (ww_manifest W)" "ww_stat W" using assms by (simp_all add: export_works_def)
  then show ?thesis using rows a atomic_write_works_at by (simp add: export_body_def Let_def job_complete_def)
qed

text \<open>
  C12 workflow_export_outcome: an export ends its own job and leaves all other jobs and files as they are. If it succeeds, the job says so, the
  artifact is in the directory and holds exactly the prepared rows of the data provider in their order (a CSV file reads back to
  them), and the manifest that is written lists its name, its digest and all rows. If it fails, the job has the code of the
  error. It succeeds if there are rows, the format is known, and no needed step meets a fault, where one of three
  attempts at each flush is enough.
\<close>

theorem workflow_export_outcome:
  assumes "create_export L W year center file_format s = (res, s')"
    and "i = wk_new_id L (asc ''export'') (ws_counter s)" and "fmt = workflow_format L file_format"
  shows "(\<forall>k. k \<noteq> i \<longrightarrow> ws_jobs s' k = ws_jobs s k) \<and> (\<forall>p. p \<notin> own_paths i \<longrightarrow> ws_files s' p = ws_files s p) \<and>
    (\<exists>j. ws_jobs s' i = Some j \<and>
       (case res of
          Inl c \<Rightarrow> wj_status j = Job_FAILED \<and> wj_error j = Some c
        | Inr r \<Rightarrow> wj_status j = Job_SUCCESS \<and> exr_metadata r = j \<and>
            (\<exists>rows m f. ww_rows W = Inr rows \<and> rows \<noteq> [] \<and> wj_manifest j = Some m \<and>
               ws_files s' (workflow_manifest_path i) = Some (Export_Manifest m) \<and> exm_file_name m = artifact_name fmt i \<and>
               ws_files s' (artifact_name fmt i) = Some f \<and> exm_sha256 m = wk_hash L f \<and>
               sum_list (map snd (exm_row_counts m)) = length rows \<and>
               (if fmt = asc ''csv'' then \<exists>bs content. f = Raw_File bs \<and> utf8_decode bs = Some content \<and>
                    csv_read content = Some (WORKFLOW_COLUMNS # map (\<lambda>r. map (workflow_cell (wk_cells L) r) WORKFLOW_COLUMNS) rows)
                else f = Book_File (workflow_book (wk_cells L) (wk_chunk L) (map (workflow_row (wk_cells L)) rows)))))) \<and>
    (export_works L W fmt \<longrightarrow> (\<exists>r. res = Inr r))"
proof -
  note eff = create_export_effect [OF assms(1,2)]
  have works: "export_works L W fmt \<longrightarrow> (\<exists>r. res = Inr r)"
    using assms(1-3)
  proof (cases rule: create_export_cases)
    case (failed e jobs fs)
    then show ?thesis
      using export_body_works [of L W fmt i year center "first_jobs W i fmt year center (ws_jobs s)" "ws_files s"] by auto
  qed simp
  show ?thesis
    using assms(1-3)
  proof (cases rule: create_export_cases)
    case (ok r jobs fs)
    have ids: "\<And>j. first_jobs W i fmt year center (ws_jobs s) i = Some j \<Longrightarrow> wj_id j = i" by (rule first_jobs_at(1))
    from export_body_Inr [OF ok(2) ids] obtain rows name counts fs1 f where b: "ww_rows W = Inr rows" "rows \<noteq> []"
      "write_artifact L W i (map (workflow_row (wk_cells L)) rows) fmt (ws_files s) = (Inr (name, counts), fs1)" "fs1 name = Some f"
      and m: "fs = fs1(workflow_manifest_path i \<mapsto> Export_Manifest (the (exr_manifest r)))"
        "wj_manifest (exr_metadata r) = Some (the (exr_manifest r))" "exm_file_name (the (exr_manifest r)) = name"
        "exm_sha256 (the (exr_manifest r)) = wk_hash L f" "exm_row_counts (the (exr_manifest r)) = counts"
        "ws_jobs s' i = Some (exr_metadata r)" "wj_status (exr_metadata r) = Job_SUCCESS"
      using ok(5) by (auto simp: Let_def)
    note a = write_artifact_Inr [OF b(3)]
    have name: "name = artifact_name fmt i" using a by blast
    have apart: "artifact_name fmt i \<noteq> workflow_manifest_path i" using own_paths_apart [of i i] by (simp add: artifact_name_def)
    have total: "sum_list (map snd counts) = length rows"
    proof (cases "fmt = asc ''csv''")
      case False
      then have "counts = book_counts (workflow_book (wk_cells L) (wk_chunk L) (map (workflow_row (wk_cells L)) rows))" using a by simp
      then show ?thesis by (simp only: workflow_book_rows length_map)
    qed (use a in auto)
    have held: "if fmt = asc ''csv'' then \<exists>bs content. f = Raw_File bs \<and> utf8_decode bs = Some content \<and>
          csv_read content = Some (WORKFLOW_COLUMNS # map (\<lambda>r. map (workflow_cell (wk_cells L) r) WORKFLOW_COLUMNS) rows)
        else f = Book_File (workflow_book (wk_cells L) (wk_chunk L) (map (workflow_row (wk_cells L)) rows))"
      using a b(4) by (auto split: if_splits)
    have "ws_files s' (workflow_manifest_path i) = Some (Export_Manifest (the (exr_manifest r)))" "ws_files s' (artifact_name fmt i) = Some f"
      using ok(6) m(1) b(4) name apart by auto
    then show ?thesis using eff works ok(1) b(1,2) m(2-7) total held name by auto
  next
    case (failed e jobs fs)
    then show ?thesis using eff works by auto
  qed
qed

section \<open>All runs of a process\<close>

definition new_ids :: "workflow_lib \<Rightarrow> pystr \<Rightarrow> nat \<Rightarrow> pystr set" where
  "new_ids L prefix n = wk_new_id L prefix ` {k. 1 \<le> k \<and> k < n}"

text \<open>The first \<open>n\<close> ids are different.\<close>

definition ids_ok :: "workflow_lib \<Rightarrow> nat \<Rightarrow> bool" where
  "ids_ok L n \<longleftrightarrow>
     (\<forall>j < n. \<forall>k < n. wk_new_id L (asc ''export'') j \<noteq> wk_new_id L (asc ''upload'') k \<and>
        (j \<noteq> k \<longrightarrow> wk_new_id L (asc ''export'') j \<noteq> wk_new_id L (asc ''export'') k))"

definition workflow_inv :: "workflow_lib \<Rightarrow> workflow_state \<Rightarrow> bool" where
  "workflow_inv L s \<longleftrightarrow> 1 \<le> ws_counter s \<and>
     (\<forall>i j. ws_jobs s i = Some j \<longrightarrow> job_good L (ws_files s) i j \<and> i \<in> new_ids L (asc ''export'') (ws_counter s)) \<and>
     (\<forall>i r. ws_uploads s i = Some r \<longrightarrow> upr_manifest_path r = workflow_manifest_path i \<and> i \<in> new_ids L (asc ''upload'') (ws_counter s)) \<and>
     (\<forall>i r. ws_exports s i = Some r \<longrightarrow>
        (\<exists>j. ws_jobs s i = Some j \<and> exr_id r = i \<and> exr_status r = wj_status j \<and> exr_manifest r = wj_manifest j))"

lemma workflow_inv_start: "workflow_inv L (workflow_start fs)"
  by (simp add: workflow_inv_def workflow_start_def)

lemma new_ids_mono: "i \<in> new_ids L prefix n \<Longrightarrow> i \<in> new_ids L prefix (Suc n)"
  by (auto simp: new_ids_def)

lemma new_id_in: "1 \<le> n \<Longrightarrow> wk_new_id L prefix n \<in> new_ids L prefix (Suc n)"
  by (auto simp: new_ids_def)

lemma new_id_fresh:
  assumes "ids_ok L m" and "n < m" and "i \<in> new_ids L (asc ''export'') n"
  shows "i \<noteq> wk_new_id L (asc ''export'') n" and "i \<noteq> wk_new_id L (asc ''upload'') n"
  using assms by (auto simp: new_ids_def ids_ok_def)

text \<open>Jobs whose files are left alone stay good.\<close>

lemma jobs_kept:
  assumes "workflow_inv L s" and "ws_jobs s i = Some j" and "\<And>p. p \<in> own_paths i \<Longrightarrow> fs p = ws_files s p"
  shows "job_good L fs i j"
  using assms by (intro job_good_frame [of L "ws_files s" i j fs]) (auto simp: workflow_inv_def)

lemma export_keeps_inv:
  assumes inv: "workflow_inv L s" and ok: "ids_ok L m" "ws_counter s < m"
    and run: "create_export L W year center file_format s = (res, s')"
  shows "workflow_inv L s'"
proof -
  let ?i = "wk_new_id L (asc ''export'') (ws_counter s)"
  from create_export_effect [OF run refl] obtain j where
    e: "ws_counter s' = Suc (ws_counter s)" "ws_uploads s' = ws_uploads s"
      "\<forall>k. k \<noteq> ?i \<longrightarrow> ws_jobs s' k = ws_jobs s k \<and> ws_exports s' k = ws_exports s k" "\<forall>p. p \<notin> own_paths ?i \<longrightarrow> ws_files s' p = ws_files s p"
    and j: "ws_jobs s' ?i = Some j" "job_good L (ws_files s') ?i j"
      "case res of
          Inr r \<Rightarrow> wj_status j = Job_SUCCESS \<and> exr_metadata r = j \<and> exr_id r = ?i \<and> exr_status r = Job_SUCCESS \<and> exr_manifest r = wj_manifest j \<and>
            ws_exports s' ?i = (case ws_exports s ?i of None \<Rightarrow> Some r | x \<Rightarrow> x)
        | Inl c \<Rightarrow> wj_status j = Job_FAILED \<and> wj_error j = Some c \<and> ws_exports s' ?i = ws_exports s ?i" by auto
  have c: "1 \<le> ws_counter s" using inv by (simp add: workflow_inv_def)
  have none: "ws_jobs s ?i = None"
  proof (rule ccontr)
    assume "ws_jobs s ?i \<noteq> None"
    then have "?i \<in> new_ids L (asc ''export'') (ws_counter s)" using inv by (auto simp: workflow_inv_def)
    then show False using new_id_fresh(1) [OF ok] by blast
  qed
  have "\<forall>r. ws_exports s ?i = Some r \<longrightarrow> (\<exists>j. ws_jobs s ?i = Some j)" using inv unfolding workflow_inv_def by blast
  then have fresh: "ws_exports s ?i = None" using none by (cases "ws_exports s ?i") auto
  have jobs: "job_good L (ws_files s') k x \<and> k \<in> new_ids L (asc ''export'') (ws_counter s')" if "ws_jobs s' k = Some x" for k x
  proof (cases "k = ?i")
    case True
    then show ?thesis using j that e(1) new_id_in [OF c] by simp
  next
    case False
    then have old: "ws_jobs s k = Some x" using that e(3) by simp
    have "own_paths k \<inter> own_paths ?i = {}" using False by (rule own_paths_disjoint)
    then have "job_good L (ws_files s') k x" using e(4) by (intro jobs_kept [OF inv old]) auto
    moreover have "k \<in> new_ids L (asc ''export'') (ws_counter s)" using inv old by (simp add: workflow_inv_def)
    ultimately show ?thesis using e(1) new_ids_mono by simp
  qed
  have exports: "\<exists>x. ws_jobs s' k = Some x \<and> exr_id r = k \<and> exr_status r = wj_status x \<and> exr_manifest r = wj_manifest x"
    if "ws_exports s' k = Some r" for k r
  proof (cases "k = ?i")
    case True
    then show ?thesis using j fresh that by (auto split: sum.splits)
  next
    case False
    then show ?thesis using that e(3) inv by (simp add: workflow_inv_def)
  qed
  show ?thesis using jobs exports e(1,2) inv new_ids_mono by (auto simp: workflow_inv_def)
qed

text \<open>The operations on uploads write their own manifest only.\<close>

lemma atomic_write_frame: "atomic_write_file delay W path content fs = (res, fs') \<Longrightarrow> p \<noteq> path \<Longrightarrow> fs' p = fs p"
  by (cases res) (auto dest: atomic_write_Inl atomic_write_Inr)

lemma upload_effect:
  assumes "create_upload_record L W profile year path data s = (res, s')"
  defines "i \<equiv> wk_new_id L (asc ''upload'') (ws_counter s)"
  shows "ws_counter s' = ws_counter s + 1 \<and> ws_jobs s' = ws_jobs s \<and> ws_exports s' = ws_exports s \<and>
    (\<forall>p. p \<noteq> workflow_manifest_path i \<longrightarrow> ws_files s' p = ws_files s p) \<and> (\<forall>k. k \<noteq> i \<longrightarrow> ws_uploads s' k = ws_uploads s k) \<and>
    (\<forall>r. ws_uploads s' i = Some r \<longrightarrow> ws_uploads s i = Some r \<or> upr_manifest_path r = workflow_manifest_path i)"
  using assms(1) unfolding create_upload_record_def next_id_def i_def
  by (auto simp: Let_def split: sum.splits if_splits prod.splits option.splits dest: atomic_write_Inl atomic_write_Inr)

lemma upload_keeps_inv:
  assumes inv: "workflow_inv L s" and ok: "ids_ok L m" "ws_counter s < m"
    and run: "create_upload_record L W profile year path data s = (res, s')"
  shows "workflow_inv L s'"
proof -
  let ?i = "wk_new_id L (asc ''upload'') (ws_counter s)"
  note e = upload_effect [OF run]
  have c: "1 \<le> ws_counter s" using inv by (simp add: workflow_inv_def)
  have jobs: "job_good L (ws_files s') k x" if "ws_jobs s k = Some x" for k x
  proof (rule jobs_kept [OF inv that])
    fix p assume p: "p \<in> own_paths k"
    have "k \<in> new_ids L (asc ''export'') (ws_counter s)" using inv that by (simp add: workflow_inv_def)
    then have "k \<noteq> ?i" using new_id_fresh(2) [OF ok] by blast
    then have "workflow_manifest_path ?i \<notin> own_paths k" using own_paths_disjoint [of k ?i] by (auto simp: own_paths_def)
    then have "p \<noteq> workflow_manifest_path ?i" using p by blast
    then show "ws_files s' p = ws_files s p" using e by blast
  qed
  have uploads: "upr_manifest_path r = workflow_manifest_path k \<and> k \<in> new_ids L (asc ''upload'') (ws_counter s')"
    if "ws_uploads s' k = Some r" for k r
  proof (cases "k = ?i")
    case True
    then show ?thesis using e that inv new_id_in [OF c] by (auto simp: workflow_inv_def)
  next
    case False
    then show ?thesis using e that inv new_ids_mono by (simp add: workflow_inv_def)
  qed
  show ?thesis using jobs uploads e inv new_ids_mono by (auto simp: workflow_inv_def)
qed

lemma activate_keeps_inv:
  assumes inv: "workflow_inv L s" and ok: "ids_ok L m" "ws_counter s < m" and run: "activate_upload L W i s = (res, s')"
  shows "workflow_inv L s'"
proof (cases "ws_uploads s i")
  case None
  then show ?thesis using run inv by (simp add: activate_upload_def)
next
  case (Some r)
  then have r: "upr_manifest_path r = workflow_manifest_path i" "i \<in> new_ids L (asc ''upload'') (ws_counter s)"
    using inv by (auto simp: workflow_inv_def)
  have e: "ws_counter s' = ws_counter s" "ws_jobs s' = ws_jobs s" "ws_exports s' = ws_exports s"
    "\<forall>p. p \<noteq> workflow_manifest_path i \<longrightarrow> ws_files s' p = ws_files s p" "\<forall>k. k \<noteq> i \<longrightarrow> ws_uploads s' k = ws_uploads s k"
    "\<exists>r'. ws_uploads s' i = Some r' \<and> upr_manifest_path r' = workflow_manifest_path i"
    using run Some r(1) by (auto simp: activate_upload_def Let_def split: prod.splits sum.splits dest: atomic_write_frame)
  have jobs: "job_good L (ws_files s') k x" if "ws_jobs s k = Some x" for k x
  proof (rule jobs_kept [OF inv that])
    fix p assume p: "p \<in> own_paths k"
    have "k \<in> new_ids L (asc ''export'') (ws_counter s)" using inv that by (simp add: workflow_inv_def)
    then have "k \<noteq> i" using r(2) ok by (fastforce simp: new_ids_def ids_ok_def)
    then have "workflow_manifest_path i \<notin> own_paths k" using own_paths_disjoint [of k i] by (auto simp: own_paths_def)
    then have "p \<noteq> workflow_manifest_path i" using p by blast
    then show "ws_files s' p = ws_files s p" using e(4) by blast
  qed
  have "upr_manifest_path x = workflow_manifest_path k \<and> k \<in> new_ids L (asc ''upload'') (ws_counter s)" if "ws_uploads s' k = Some x" for k x
    using that e(5,6) r(2) inv by (cases "k = i") (auto simp: workflow_inv_def)
  then show ?thesis using jobs e(1-3) inv by (auto simp: workflow_inv_def)
qed

lemma get_keeps_inv: "workflow_inv L s \<Longrightarrow> workflow_inv L (snd (get_export i s))"
  by (auto simp: workflow_inv_def get_export_def Let_def job_good_def split: option.splits)

lemma step_keeps_inv:
  assumes "workflow_inv L s" and "ids_ok L m" and "ws_counter s < m"
  shows "workflow_inv L (workflow_step L op s) \<and> ws_counter (workflow_step L op s) \<le> ws_counter s + 1"
proof (cases op)
  case (Do_Export W year center fmt)
  obtain res s' where r: "create_export L W year center fmt s = (res, s')" by fastforce
  then show ?thesis using export_keeps_inv [OF assms r] create_export_effect [OF r refl] Do_Export by (simp add: workflow_step_def)
next
  case (Do_Upload W profile year path data)
  obtain res s' where r: "create_upload_record L W profile year path data s = (res, s')" by fastforce
  then show ?thesis using upload_keeps_inv [OF assms r] upload_effect [OF r] Do_Upload by (simp add: workflow_step_def)
next
  case (Do_Activate W i)
  obtain res s' where r: "activate_upload L W i s = (res, s')" by fastforce
  then have "ws_counter s' = ws_counter s" by (auto simp: activate_upload_def Let_def split: option.splits prod.splits sum.splits)
  then show ?thesis using activate_keeps_inv [OF assms r] r Do_Activate by (simp add: workflow_step_def)
next
  case (Do_Get i)
  have "ws_counter (snd (get_export i s)) = ws_counter s" by (simp add: get_export_def Let_def split: option.splits)
  then show ?thesis using get_keeps_inv [OF assms(1)] Do_Get by (simp add: workflow_step_def)
qed

lemma run_keeps_inv:
  assumes "workflow_inv L s" and "ids_ok L m" and "ws_counter s + length ops \<le> m"
  shows "workflow_inv L (workflow_run L ops s)"
  using assms(1,3)
proof (induction ops arbitrary: s)
  case (Cons op ops)
  have "ws_counter s < m" using Cons.prems(2) by simp
  note st = step_keeps_inv [OF Cons.prems(1) assms(2) this, of op]
  have "workflow_inv L (workflow_run L ops (workflow_step L op s))"
    by (rule Cons.IH) (use st Cons.prems(2) in auto)
  then show ?case by (simp add: workflow_run_def)
qed (simp add: workflow_run_def)

text \<open>
  C11 workflow_sound: over any operations of a process, with any faults, every job that is kept has ended, and a successful one has its
  manifest and its artifact in the directory, with the digest and the counts of rows the manifest says (a CSV file
  reads back to that many rows); what is reported of an export is the state of its job.
\<close>

theorem workflow_sound:
  assumes "ids_ok L (1 + length ops)" and "s = workflow_run L ops (workflow_start fs)"
  shows "(\<forall>i j. ws_jobs s i = Some j \<longrightarrow> wj_status j = Job_FAILED \<or> wj_status j = Job_SUCCESS \<and>
       (\<exists>m f. wj_manifest j = Some m \<and> ws_files s (workflow_manifest_path i) = Some (Export_Manifest m) \<and>
          ws_files s (exm_file_name m) = Some f \<and> wk_hash L f = exm_sha256 m \<and> artifact_holds f (exm_row_counts m))) \<and>
    (\<forall>i. case ws_jobs s i of
        None \<Rightarrow> fst (get_export i s) = None
      | Some j \<Rightarrow> (\<exists>r. fst (get_export i s) = Some r \<and> exr_id r = i \<and> exr_status r = wj_status j \<and> exr_manifest r = wj_manifest j))"
proof -
  have inv: "workflow_inv L s"
    unfolding assms(2) by (rule run_keeps_inv [OF workflow_inv_start assms(1)]) (simp add: workflow_start_def)
  have "case ws_jobs s i of None \<Rightarrow> fst (get_export i s) = None
      | Some j \<Rightarrow> (\<exists>r. fst (get_export i s) = Some r \<and> exr_id r = i \<and> exr_status r = wj_status j \<and> exr_manifest r = wj_manifest j)" for i
  proof (cases "ws_exports s i")
    case None
    have "wj_id j = i" if "ws_jobs s i = Some j" for j using inv that by (auto simp: workflow_inv_def job_good_def)
    then show ?thesis using None by (auto simp: get_export_def Let_def split: option.splits)
  next
    case (Some r)
    then obtain j where "ws_jobs s i = Some j" "exr_id r = i" "exr_status r = wj_status j" "exr_manifest r = wj_manifest j"
      using inv unfolding workflow_inv_def by blast
    then show ?thesis using Some by (simp add: get_export_def)
  qed
  moreover have "\<forall>i j. ws_jobs s i = Some j \<longrightarrow> job_good L (ws_files s) i j" using inv by (simp add: workflow_inv_def)
  ultimately show ?thesis unfolding job_good_def by blast
qed

section \<open>Examples\<close>

definition sample_wk :: workflow_lib where
  "sample_wk = \<lparr>wk_cells = plain_lib, wk_hash = (\<lambda>f. case f of Raw_File bs \<Rightarrow> map uint bs | _ \<Rightarrow> []),
     wk_new_id = (\<lambda>prefix n. prefix @ replicate n 97), wk_delay = (\<lambda>_ _. 0), wk_chunk = 2\<rparr>"

text \<open>Every flush works at the third attempt only.\<close>

definition sample_wk_world :: "source_row list \<Rightarrow> workflow_world" where
  "sample_wk_world rows =
     (let w = \<lparr>aw_write = True, aw_fsync = (\<lambda>n. n = 3), aw_replace = True\<rparr>
      in \<lparr>ww_rows = Inr rows, ww_csv = w, ww_book = Book_Fine, ww_hash = True, ww_manifest = w, ww_stat = True, ww_clock = (\<lambda>_. asc ''now'')\<rparr>)"

definition sample_wk_rows :: "source_row list" where
  "sample_wk_rows = [[(asc ''national_id'', PStr [1777, 1778]), (asc ''first_name'', PStr (asc ''=x''))]]"

lemma sample_ids: "ids_ok sample_wk n"
  by (auto simp: ids_ok_def sample_wk_def asc_def dest: arg_cong [of _ _ length])

lemma sample_wk_works: "export_works sample_wk (sample_wk_world sample_wk_rows) (workflow_format sample_wk (asc ''csv''))"
  by code_simp

theorem workflow_export_outcome_witness:
  "\<exists>r s' j bs content. create_export sample_wk (sample_wk_world sample_wk_rows) 1402 None (asc ''csv'') (workflow_start Map.empty) = (Inr r, s') \<and>
     ws_jobs s' (asc ''exporta'') = Some j \<and> wj_status j = Job_SUCCESS \<and> ws_files s' (asc ''exporta.csv'') = Some (Raw_File bs) \<and>
     utf8_decode bs = Some content \<and>
     csv_read content = Some (WORKFLOW_COLUMNS # map (\<lambda>r. map (workflow_cell plain_lib r) WORKFLOW_COLUMNS) sample_wk_rows)"
proof -
  obtain res s' where run: "create_export sample_wk (sample_wk_world sample_wk_rows) 1402 None (asc ''csv'') (workflow_start Map.empty) = (res, s')"
    by fastforce
  have fmt: "workflow_format sample_wk (asc ''csv'') = asc ''csv''" by code_simp
  have i: "wk_new_id sample_wk (asc ''export'') (ws_counter (workflow_start Map.empty)) = asc ''exporta''" by code_simp
  have path: "artifact_name (asc ''csv'') (asc ''exporta'') = asc ''exporta.csv''" by code_simp
  have lib: "wk_cells sample_wk = plain_lib" "ww_rows (sample_wk_world sample_wk_rows) = Inr sample_wk_rows"
    by (simp_all add: sample_wk_def sample_wk_world_def Let_def)
  note out = workflow_export_outcome [OF run i [symmetric] fmt [symmetric]]
  obtain r where r: "res = Inr r" using out sample_wk_works unfolding fmt by blast
  show ?thesis using out run unfolding r path lib by auto
qed

text \<open>An export, one without rows, and a look at the first.\<close>

theorem workflow_sound_witness:
  "case ws_jobs (workflow_run sample_wk [Do_Export (sample_wk_world sample_wk_rows) 1402 None (asc ''csv''),
       Do_Export (sample_wk_world []) 1402 None (asc ''csv''), Do_Get (asc ''exporta'')] (workflow_start Map.empty)) (asc ''exporta'') of
     None \<Rightarrow> False | Some j \<Rightarrow> wj_status j = Job_FAILED \<or> wj_status j = Job_SUCCESS"
proof -
  let ?s = "workflow_run sample_wk [Do_Export (sample_wk_world sample_wk_rows) 1402 None (asc ''csv''),
       Do_Export (sample_wk_world []) 1402 None (asc ''csv''), Do_Get (asc ''exporta'')] (workflow_start Map.empty)"
  have "(case ws_jobs ?s (asc ''exporta'') of None \<Rightarrow> False | Some _ \<Rightarrow> True)" by code_simp
  then obtain j where "ws_jobs ?s (asc ''exporta'') = Some j" by (auto split: option.splits)
  then show ?thesis using workflow_sound [OF sample_ids refl, of "[Do_Export (sample_wk_world sample_wk_rows) 1402 None (asc ''csv''),
       Do_Export (sample_wk_world []) 1402 None (asc ''csv''), Do_Get (asc ''exporta'')]" Map.empty] by auto
qed

text \<open>A process that starts over a directory gives the ids of the one before again, and replaces its files.\<close>

lemma restart_overwrites:
  "let s1 = snd (create_export sample_wk (sample_wk_world sample_wk_rows) 1402 None (asc ''csv'') (workflow_start Map.empty));
       s2 = snd (create_export sample_wk (sample_wk_world [[]]) 1402 None (asc ''csv'') (workflow_start (ws_files s1)))
   in ws_files s1 (asc ''exporta.csv'') \<noteq> None \<and> ws_files s2 (asc ''exporta.csv'') \<noteq> None \<and>
      (case (ws_files s1 (asc ''exporta.csv''), ws_files s2 (asc ''exporta.csv'')) of
         (Some (Raw_File a), Some (Raw_File b)) \<Rightarrow> map uint a \<noteq> map uint b | _ \<Rightarrow> False)"
  by code_simp

lemma restart_reuses_ids:
  assumes "create_export L W year center f (workflow_start fs) = (Inr r, s)"
  shows "exr_id r = wk_new_id L (asc ''export'') 1"
  using create_export_effect [OF assms refl] by (simp add: workflow_start_def)

text \<open>An activation that cannot write the manifest fails, and the upload is active all the same.\<close>

lemma failed_activation_stays:
  assumes "ws_uploads s i = Some r" and "\<not> aw_write (ww_manifest W)" and "activate_upload L W i s = (res, s')"
  shows "isl res \<and> ws_files s' = ws_files s \<and> (\<exists>r'. ws_uploads s' i = Some r' \<and> upr_status r' = Upload_ACTIVATED)"
  using assms by (auto simp: activate_upload_def atomic_write_file_def Let_def)

end
