(* ===== verification/Spec2Isabelle.thy ===== *)
theory Spec2Isabelle
  imports Manager_Centers Alloc_Tx Domain_Service Core_Engine Core_Retry Counter_Backfill Counter_Runtime
    Sabt_Jobs Upload_Service Upload_Multipart Audit_Log Audit_Access Sabt_Access Xlsx_Workflow
begin

text \<open>
  Student to mentor allocation (package \<^verbatim>\<open>sma\<close> under \<^verbatim>\<open>src/src\<close>): the verification library of its core logic.
  File names below are relative to \<^verbatim>\<open>src/src/sma\<close>.

  \<^bold>\<open>The program.\<close> Students apply with a registration record, mentors have groups, centers, schools and a
  capacity. A record is normalised (\<^verbatim>\<open>core/normalize.py\<close>, \<^verbatim>\<open>core/models.py\<close>), a mentor is chosen under eight
  eligibility rules, the allocation is written to the database together with an event for other systems
  (\<^verbatim>\<open>phase3_allocation\<close>), the student gets a nine digit counter (\<^verbatim>\<open>phase2_counter_service\<close>), and the result is exported
  as CSV or XLSX files for the SABT system (\<^verbatim>\<open>phase6_import_to_sabt\<close>, \<^verbatim>\<open>export\<close>). Rosters come in as CSV
  uploads (\<^verbatim>\<open>phase2_uploads\<close>). An audit log records who did what, is exported, and archived and purged by months (\<^verbatim>\<open>audit\<close>). Two older engines with the same purpose are in the tree as well: \<^verbatim>\<open>core/allocation_engine.py\<close>
  and \<^verbatim>\<open>domain/allocation\<close> with \<^verbatim>\<open>application/services\<close>.

  \<^bold>\<open>The prelude.\<close> \<^verbatim>\<open>PyBase\<close>: text as code points, digits, \<^verbatim>\<open>int\<close> and \<^verbatim>\<open>str\<close>, results of code that raises as sums.
  \<^verbatim>\<open>PyFloat\<close>: doubles as rationals with rounding. \<^verbatim>\<open>PyJson\<close>: \<^verbatim>\<open>json.dumps\<close>. \<^verbatim>\<open>PyCsv\<close>: the \<^verbatim>\<open>csv\<close> module, writer and reader, with
  the proof that rows written with quotes read back. \<^verbatim>\<open>PyBytes\<close>: bytes and UTF-8.
  \<^verbatim>\<open>PyBase64\<close>: URL-safe Base64 and its round trip.

  \<^bold>\<open>Phase 3, choice.\<close> \<^verbatim>\<open>Alloc_Contracts\<close> (\<^verbatim>\<open>contracts.py\<close>): codes and records. \<^verbatim>\<open>Alloc_Rules\<close> (\<^verbatim>\<open>rules.py\<close>, \<^verbatim>\<open>providers.py\<close>): the rules
  and the specification \<^verbatim>\<open>eligible\<close> of their conjunction; the locale \<^verbatim>\<open>centers_provider\<close> states what a provider of
  a manager's centers promises. \<^verbatim>\<open>Alloc_Policy\<close> (\<^verbatim>\<open>policy.py\<close>): normalisation and the chain of rules; the verdict is
  \<^verbatim>\<open>eligible\<close> under every configuration. \<^verbatim>\<open>Alloc_Engine\<close> (\<^verbatim>\<open>engine.py\<close>): the least loaded eligible mentor, proved inside the
  locale. \<^verbatim>\<open>Manager_Centers\<close> (\<^verbatim>\<open>providers_db.py\<close>): the caching provider, its bounded staleness, and the
  interpretation of the locale on it; the theorem below rests on that.

  \<^bold>\<open>Phase 3, writing.\<close> \<^verbatim>\<open>Idempotency\<close> (\<^verbatim>\<open>idempotency.py\<close>): keys of requests. \<^verbatim>\<open>Outbox\<close> (\<^verbatim>\<open>outbox\<close>): events, rows, backoff and
  dispatcher; publication is bounded over all cycles. \<^verbatim>\<open>Alloc_Tx\<close> (\<^verbatim>\<open>allocation_tx.py\<close>, \<^verbatim>\<open>uow.py\<close>, tables of
  \<^verbatim>\<open>infrastructure/persistence/models.py\<close>): the transaction with its constraint violations, retries and
  concurrent changes; atomicity, replay, and the invariant that allocations and events correspond.

  \<^bold>\<open>Counters.\<close> \<^verbatim>\<open>Counter_Rules\<close> (\<^verbatim>\<open>shared/counter_rules.py\<close>): the format. \<^verbatim>\<open>Counter_Service\<close>: validation, SQL repository
  and service; every call satisfies a specification by cases, counters are permanent and unique over all runs.
  \<^verbatim>\<open>Counter_Backfill\<close> (\<^verbatim>\<open>backfill.py\<close>): a dry run predicts the applying run. \<^verbatim>\<open>Counter_Runtime\<close> (\<^verbatim>\<open>counter_runtime.py\<close>,
  \<^verbatim>\<open>academic_year.py\<close>): the Lua script on Redis under interleaving, lost messages and expiry, as a refinement
  of a registry, with the pauses of the runtime and of the executor.

  \<^bold>\<open>The older engines.\<close> \<^verbatim>\<open>Core_Normalize\<close>, \<^verbatim>\<open>Core_Models\<close>, \<^verbatim>\<open>Core_Engine\<close> (package \<^verbatim>\<open>core\<close>): the record is
  well typed and normalising it again changes nothing, the check digit finds errors, runs of the engine are
  complete and account for every student. \<^verbatim>\<open>Domain_Entities\<close>, \<^verbatim>\<open>Domain_Alloc\<close>, \<^verbatim>\<open>Domain_Service\<close> (packages \<^verbatim>\<open>domain\<close> and
  \<^verbatim>\<open>application\<close>): rules, fairness strategies, the batch service over a repository contract.

  \<^bold>\<open>Retries.\<close> \<^verbatim>\<open>Core_Retry\<close> (\<^verbatim>\<open>core/retry.py\<close>): \<^verbatim>\<open>execute_with_retry\<close>, and the locale \<^verbatim>\<open>retrying\<close>, the contract of any caller that
  calls a function until it succeeds or may not be called again. It is interpreted on \<^verbatim>\<open>execute_with_retry\<close> (\<^verbatim>\<open>core_retry\<close>),
  on the export runner (\<^verbatim>\<open>runner\<close>) and on the retry of the uploads (\<^verbatim>\<open>upload_retry\<close>), on the retry of the second exporter (\<^verbatim>\<open>xlsx_retry\<close>), and on the two loops of the audit log, with a wait (\<^verbatim>\<open>audit_retry\<close>) and without (\<^verbatim>\<open>lifecycle_retry\<close>); the lemmas on the state an operation leaves after
  retries are proved once in it.

  \<^bold>\<open>Export.\<close> \<^verbatim>\<open>Sabt_Text\<close> (\<^verbatim>\<open>normalization.py\<close>, \<^verbatim>\<open>sanitization.py\<close>): clean text. \<^verbatim>\<open>Sabt_Sorter\<close> (\<^verbatim>\<open>external_sorter.py\<close>): spilling and
  merging is a stable sort, but the rows of a sort that spilled are never yielded. \<^verbatim>\<open>Sabt_Writer\<close> (\<^verbatim>\<open>export/excel_writer.py\<close>): files that read back, cells that are no formulas.
  \<^verbatim>\<open>Sabt_Exporter\<close> (\<^verbatim>\<open>exporter_service.py\<close>, \<^verbatim>\<open>models.py\<close>): the three phases of a run, what a manifest means, and that large exports come out empty.
  \<^verbatim>\<open>Sabt_Jobs\<close> (\<^verbatim>\<open>export_runner.py\<close>, \<^verbatim>\<open>job_runner.py\<close>): any number of callers and job threads interleave; they refine a
  registry of one job for each key.

  \<^verbatim>\<open>Xlsx_Cells\<close>, \<^verbatim>\<open>Xlsx_Workflow\<close> (\<^verbatim>\<open>phase6_import_to_sabt/xlsx\<close>): the second exporter with its reader of uploads; what an export leaves, and an
  invariant of jobs, manifests and files over all operations of a process.

  \<^bold>\<open>Uploads.\<close> \<^verbatim>\<open>Upload_Csv\<close> (\<^verbatim>\<open>errors.py\<close>, \<^verbatim>\<open>normalizer.py\<close>, \<^verbatim>\<open>validator.py\<close>): the validator accepts exactly the files whose non-blank rows
  are acceptable, and checking line breaks chunk by chunk is checking the whole. \<^verbatim>\<open>Upload_Store\<close> (\<^verbatim>\<open>storage.py\<close>, \<^verbatim>\<open>retry.py\<close>,
  \<^verbatim>\<open>repository.py\<close>): files under their digests, written under retries, and the tables. \<^verbatim>\<open>Upload_Zip\<close> (\<^verbatim>\<open>zip_utils.py\<close>): the member of an
  archive. \<^verbatim>\<open>Upload_Multipart\<close> (\<^verbatim>\<open>app.py\<close>): forms read back. \<^verbatim>\<open>Upload_Service\<close> (\<^verbatim>\<open>service.py\<close>): uploading and activating over
  all of these; an invariant of the store, the tables and the manifests over all runs, and what an upload does with the configuration of
  the repository, which lacks an attribute, and with one that has it.

  \<^bold>\<open>Audit.\<close> \<^verbatim>\<open>Audit_Events\<close> (\<^verbatim>\<open>audit/models.py\<close>, \<^verbatim>\<open>repository.py\<close>, \<^verbatim>\<open>retry.py\<close>, \<^verbatim>\<open>service.py\<close>): the log grows only, by the event, also when
  answers of the database are lost. \<^verbatim>\<open>Audit_Export\<close> (\<^verbatim>\<open>exporter.py\<close>, \<^verbatim>\<open>release_manifest.py\<close>): exports are exact and accounted for in the
  log. \<^verbatim>\<open>Audit_Archive\<close>, \<^verbatim>\<open>Audit_Retention\<close> (\<^verbatim>\<open>retention.py\<close>): archives of months with their manifests, the plan of a purge against its
  limits, and the check before it. \<^verbatim>\<open>Audit_Complete\<close>: when an archive succeeds. \<^verbatim>\<open>Audit_Log\<close>: a step relation of recording,
  archiving and purging, with the invariant that every event is in the table or in an archive, and runs that break its
  conditions.

  \<^bold>\<open>Access.\<close> \<^verbatim>\<open>Url_Signing\<close> (\<^verbatim>\<open>security/signing.py\<close>): download links under a ring of keys, valid until their expiry across rotations and bound to
  path and time, except for line feeds. \<^verbatim>\<open>Audit_Access\<close> (\<^verbatim>\<open>audit/security.py\<close>, \<^verbatim>\<open>audit/api.py\<close>): tokens of exports, the limit of requests, duplicates, principals and
  the handlers over the audit log; a download has the events of its principal only. \<^verbatim>\<open>Sabt_Access\<close> (\<^verbatim>\<open>app/stores.py\<close>,
  \<^verbatim>\<open>app/security.py\<close> of phase 6): the limit of requests and the keys of POST requests over the locale \<^verbatim>\<open>timed_store\<close> of stores whose entries
  expire, interpreted on the store in memory (\<^verbatim>\<open>memory\<close>).

  \<^bold>\<open>Fuel and bounds.\<close> Loops are structural or have a measure (attempts left, rows left, the size of the heap); there is no
  fuel that could run out except in \<^verbatim>\<open>Core_Retry\<close>, whose loop gets one step per attempt, which its shape
  lemma shows to be enough. Interleavings are inductive step relations without a bound.

  \<^bold>\<open>Parameters.\<close> NFKC, case mappings and character categories (the record \<^verbatim>\<open>ucd\<close>), SHA-256, BLAKE2 and UUIDs, clocks, what a
  database, a network or a file system answers, and the order of threads are arguments or open choices of the
  steps; what is used of them is a named hypothesis (\<^verbatim>\<open>ucd_ok\<close>, freshness of ids, collision freedom)
  with an instance in a witness.

  \<^bold>\<open>Not modelled.\<close> HTTP applications and middleware other than those under \<open>Access\<close>, the Qt interface, release, readiness and CI tooling,
  repository scripts: they are calls into frameworks and subprocesses around the logic above. Logs and metrics
  are left out everywhere. Each theory says at its beginning what it leaves out of its files.
\<close>

section \<open>Properties that span components\<close>

text \<open>
  C1 engine_selects_least_loaded: With the caching provider in front of the database, for a
  student that normalises: the engine returns no mentor exactly when no given mentor both
  normalises and is eligible; a returned mentor is one of the given ones, is eligible, and has
  the least (occupancy ratio, load, id) of all eligible ones; and the trace has one entry for
  each mentor in the given order.
\<close>

theorem engine_selects_least_loaded:
  assumes "cache_current db (fst p)" and "normalize_student schools pupil = Inr s"
    and "engine_evaluate U schools (clocked_get db clock) config pupil mentors p = ((best, trace), p')"
  shows "(best = None \<longleftrightarrow> \<not> (\<exists>raw nm. raw \<in> set mentors \<and> normalize_mentor U raw = Inr nm \<and>
                              eligible (load_centers db) s nm)) \<and>
    (\<forall>b. best = Some b \<longrightarrow> (\<exists>nm. b \<in> set mentors \<and> normalize_mentor U b = Inr nm \<and>
        eligible (load_centers db) s nm \<and>
        (\<forall>raw nm'. raw \<in> set mentors \<and> normalize_mentor U raw = Inr nm' \<and>
           eligible (load_centers db) s nm' \<longrightarrow> ranking_key_of nm \<le> ranking_key_of nm'))) \<and>
    map at_mentor trace = map Some mentors \<and> cache_current db (fst p')"
  using dbp.engine_selection [OF assms] unfolding dbp.candidate_def by blast

text \<open>Three mentors: a full one, and two with room of which the second is emptier.\<close>

definition mentor_with :: "pystr \<Rightarrow> int \<Rightarrow> int \<Rightarrow> MentorLike" where
  "mentor_with k capacity load =
     \<lparr>ml_mentor_id = PStr k, ml_gender = PInt 1, ml_allowed_groups = [PStr (asc ''04'')],
      ml_allowed_centers = [PInt 1], ml_capacity = PInt capacity, ml_current_load = PInt load,
      ml_is_active = PStr (asc '' YES''), ml_mentor_type = PStr (asc ''school''),
      ml_special_schools = [PStr [1778, 1784, 1779]], ml_manager_id = PInt 9\<rparr>"

definition sample_mentors :: "MentorLike list" where
  "sample_mentors = [mentor_with (asc ''3'') 4 4, mentor_with (asc ''5'') 4 2, mentor_with (asc ''8'') 9 3]"

definition sample_graduate :: StudentLike where
  "sample_graduate = sample_student\<lparr>sl_edu_status := PInt 1\<rparr>"

definition fresh_provider :: clocked_provider where
  "fresh_provider = (\<lparr>mp_cache_ttl = 300, mp_negative_cache_ttl = 60, mp_cache = Map.empty\<rparr>, 0)"

theorem engine_selects_least_loaded_witness:
  "fst (fst (engine_evaluate ascii_ucd sample_schools (clocked_get sample_centers_db (\<lambda>n. of_nat n))
      default_config sample_graduate sample_mentors fresh_provider)) = Some (mentor_with (asc ''8'') 9 3) \<and>
   mentor_with (asc ''8'') 9 3 \<in> set sample_mentors \<and>
   (\<exists>nm. normalize_mentor ascii_ucd (mentor_with (asc ''8'') 9 3) = Inr nm)"
proof -
  let ?e = "engine_evaluate ascii_ucd sample_schools (clocked_get sample_centers_db (\<lambda>n. of_nat n))
      default_config sample_graduate sample_mentors fresh_provider"
  have best: "fst (fst ?e) = Some (mentor_with (asc ''8'') 9 3)" by code_simp
  have "cache_current sample_centers_db (fst fresh_provider)"
    by (simp add: cache_current_def fresh_provider_def)
  moreover have "\<exists>s. normalize_student sample_schools sample_graduate = Inr s"
    by (rule exI) code_simp
  then obtain s where "normalize_student sample_schools sample_graduate = Inr s" ..
  moreover have "?e = ((Some (mentor_with (asc ''8'') 9 3), snd (fst ?e)), snd ?e)"
    using best by (metis prod.collapse)
  ultimately have "mentor_with (asc ''8'') 9 3 \<in> set sample_mentors \<and>
    (\<exists>nm. normalize_mentor ascii_ucd (mentor_with (asc ''8'') 9 3) = Inr nm)"
    using engine_selects_least_loaded by blast
  then show ?thesis using best by blast
qed

end
